(* ===== verification/Prelude.thy ===== *)
theory Prelude
  imports Main "HOL-Library.Word" "HOL-Library.Multiset"
begin

text \<open>
  Shared vocabulary of the BrebOS development: the machine types, the ways in which
  kernel code can fail, a result type with its bind, 32-bit unsigned arithmetic on
  \<^typ>\<open>nat\<close>, and bounds-checked writes into arrays.

  The kernel is compiled for i686: \<^verbatim>\<open>uint\<close>, \<^verbatim>\<open>size_t\<close>, \<^verbatim>\<open>uintptr_t\<close> and pointers
  have 32 bits. A quantity that the code only adds, subtracts or compares is a
  \<^typ>\<open>nat\<close> below \<^term>\<open>2 ^ 32 :: nat\<close>, with the wrap-around written out by
  \<open>add32\<close>, \<open>sub32\<close> and \<open>mul32\<close>; a quantity that the code takes apart
  bitwise (page table entries, flags, policies) is a \<^typ>\<open>32 word\<close>.
\<close>

section \<open>Machine types and failures\<close>

type_synonym u8 = "8 word"
type_synonym u32 = "32 word"

text \<open>
  \<open>Irrecoverable\<close> is a call of \<^verbatim>\<open>irrecoverable_error\<close>, which prints a message and
  never returns; \<open>NullDeref\<close> is an access through a null pointer; \<open>OutOfBounds\<close>
  is an access outside the object it starts from; \<open>UseAfterFree\<close> is an access to an
  object that has been deleted; \<open>Killed\<close> is a call of \<^verbatim>\<open>kill(SIGSEGV)\<close> on the running process,
  after which the code treats a return as irrecoverable; \<open>DivideError\<close> is the processor's fault on a
  division by zero; \<open>Diverges\<close> marks a loop that was given fuel and has used it up.
\<close>

datatype kernel_error = Irrecoverable string | NullDeref | OutOfBounds | UseAfterFree | Killed | DivideError | Diverges

type_synonym 'a res = "kernel_error + 'a"

fun bind_res :: "'e + 'a \<Rightarrow> ('a \<Rightarrow> 'e + 'b) \<Rightarrow> 'e + 'b" where
  "bind_res (Inl e) f = Inl e"
| "bind_res (Inr x) f = f x"

definition is_ok :: "'e + 'a \<Rightarrow> bool" where
  "is_ok r = (case r of Inl _ \<Rightarrow> False | Inr _ \<Rightarrow> True)"

text \<open>The error numbers that kernel functions return, negated, to user programs.\<close>

datatype errno =
  EINVAL | ENOMEM | EBADF | EMFILE | ENFILE | EIO | ESPIPE | EPIPE | ENOENT | EISDIR | EACCES | ENOTTY | ECHILD | EFAULT | ENOTDIR

section \<open>32-bit unsigned arithmetic\<close>

abbreviation W32 :: nat where
  "W32 \<equiv> 4294967296"

definition add32 :: "nat \<Rightarrow> nat \<Rightarrow> nat" where
  "add32 a b = (a + b) mod W32"

definition sub32 :: "nat \<Rightarrow> nat \<Rightarrow> nat" where
  "sub32 a b = (a + (W32 - b mod W32)) mod W32"

definition mul32 :: "nat \<Rightarrow> nat \<Rightarrow> nat" where
  "mul32 a b = (a * b) mod W32"

section \<open>Counted loops\<close>

text \<open>\<open>for_n body i k s\<close> runs \<open>body\<close> at \<open>i\<close>, ..., \<open>i + k - 1\<close> and stops at the first failure.\<close>

primrec for_n :: "(nat \<Rightarrow> 's \<Rightarrow> 's res) \<Rightarrow> nat \<Rightarrow> nat \<Rightarrow> 's \<Rightarrow> 's res" where
  "for_n body i 0 s = Inr s"
| "for_n body i (Suc k) s = bind_res (body i s) (for_n body (Suc i) k)"

section \<open>Writes into arrays\<close>

text \<open>\<open>blit dst off src\<close> overwrites \<open>dst\<close> from index \<open>off\<close> on with \<open>src\<close>.\<close>

definition blit :: "'a list \<Rightarrow> nat \<Rightarrow> 'a list \<Rightarrow> 'a list" where
  "blit dst off src = take off dst @ src @ drop (off + length src) dst"

section \<open>Little-endian numbers\<close>

fun le_val :: "u8 list \<Rightarrow> nat" where
  "le_val [] = 0"
| "le_val (b # bytes) = unat b + 256 * le_val bytes"

primrec le_bytes :: "nat \<Rightarrow> nat \<Rightarrow> u8 list" where
  "le_bytes 0 v = []"
| "le_bytes (Suc n) v = word_of_nat v # le_bytes n (v div 256)"

section \<open>Rule collections\<close>

named_theorems arith32 \<open>32-bit operations where they do not wrap\<close>
named_theorems res_elims \<open>what a successful or failed result says of its parts\<close>

section \<open>Results\<close>

lemma bind_res_Inr_iff [res_elims]:
  "bind_res m f = Inr y \<longleftrightarrow> (\<exists>x. m = Inr x \<and> f x = Inr y)"
  by (cases m) auto

lemma bind_res_Inl_iff [res_elims]:
  "bind_res m f = Inl e \<longleftrightarrow> m = Inl e \<or> (\<exists>x. m = Inr x \<and> f x = Inl e)"
  by (cases m) auto

lemma bind_res_assoc: "bind_res (bind_res m f) g = bind_res m (\<lambda>x. bind_res (f x) g)"
  by (cases m) auto

lemma is_ok_simps [simp]: "is_ok (Inr x)" "\<not> is_ok (Inl e)"
  by (simp_all add: is_ok_def)

lemma is_ok_iff: "is_ok r \<longleftrightarrow> (\<exists>x. r = Inr x)"
  by (cases r) auto

lemma for_n_invariant:
  assumes "for_n body i k s = Inr s'" and "P i s"
    and "\<And>j s s'. i \<le> j \<Longrightarrow> j < i + k \<Longrightarrow> P j s \<Longrightarrow> body j s = Inr s' \<Longrightarrow> P (Suc j) s'"
  shows "P (i + k) s'"
  using assms
proof (induction k arbitrary: i s)
  case (Suc k)
  then obtain s1 where s1: "body i s = Inr s1" "for_n body (Suc i) k s1 = Inr s'"
    by (auto simp: res_elims)
  then have "P (Suc i) s1" using Suc.prems(2,3) by simp
  with s1(2) have "P (Suc i + k) s'" using Suc.prems(3) by (intro Suc.IH) auto
  then show ?case by simp
qed simp

lemma for_n_total:
  assumes "P i s"
    and "\<And>j s. i \<le> j \<Longrightarrow> j < i + k \<Longrightarrow> P j s \<Longrightarrow> \<exists>s'. body j s = Inr s' \<and> P (Suc j) s'"
  shows "\<exists>s'. for_n body i k s = Inr s' \<and> P (i + k) s'"
  using assms
proof (induction k arbitrary: i s)
  case (Suc k)
  then obtain s1 where s1: "body i s = Inr s1" "P (Suc i) s1" by force
  have "\<exists>s'. for_n body (Suc i) k s1 = Inr s' \<and> P (Suc i + k) s'"
    using s1(2) Suc.prems(2) by (intro Suc.IH) auto
  then show ?case using s1(1) by simp
qed simp

lemma for_n_noop:
  assumes "\<And>j. i \<le> j \<Longrightarrow> j < i + k \<Longrightarrow> body j s = Inr s"
  shows "for_n body i k s = Inr s"
  using assms
proof (induction k arbitrary: i)
  case (Suc k)
  then show ?case by (simp add: Suc.IH)
qed simp

section \<open>Arithmetic\<close>

lemma add32_less [simp]: "add32 a b < W32"
  by (simp add: add32_def)

lemma sub32_less [simp]: "sub32 a b < W32"
  by (simp add: sub32_def)

lemma mul32_less [simp]: "mul32 a b < W32"
  by (simp add: mul32_def)

lemma add32_eq [arith32]: "a + b < W32 \<Longrightarrow> add32 a b = a + b"
  by (simp add: add32_def)

lemma sub32_eq [arith32]: "b \<le> a \<Longrightarrow> a < W32 \<Longrightarrow> sub32 a b = a - b"
proof -
  assume le: "b \<le> a" and lt: "a < W32"
  have "a + (W32 - b mod W32) = W32 + (a - b)"
    using le lt by simp
  then show ?thesis
    using lt by (simp add: sub32_def)
qed

lemma sub32_wrap: "a < b \<Longrightarrow> b < W32 \<Longrightarrow> sub32 a b = W32 - (b - a)"
  by (simp add: sub32_def)

lemma mul32_eq [arith32]: "a * b < W32 \<Longrightarrow> mul32 a b = a * b"
  by (simp add: mul32_def)

lemma add32_0 [simp]: "a < W32 \<Longrightarrow> add32 a 0 = a"
  by (simp add: add32_def)

lemma sub32_0 [simp]: "a < W32 \<Longrightarrow> sub32 a 0 = a"
  by (simp add: sub32_def)

section \<open>Arrays\<close>

lemma length_blit [simp]:
  "off + length src \<le> length dst \<Longrightarrow> length (blit dst off src) = length dst"
  by (simp add: blit_def)

lemma nth_blit:
  assumes "off + length src \<le> length dst" and "i < length dst"
  shows "blit dst off src ! i =
    (if i < off then dst ! i else if i < off + length src then src ! (i - off) else dst ! i)"
proof -
  have "min (length dst) off = off"
    using assms(1) by simp
  then show ?thesis
    using assms by (auto simp: blit_def nth_append)
qed

lemma take_blit: "off + length src \<le> length dst \<Longrightarrow> take off (blit dst off src) = take off dst"
  by (simp add: blit_def)

lemma blit_Nil [simp]: "off \<le> length dst \<Longrightarrow> blit dst off [] = dst"
  by (simp add: blit_def)

lemma round_up_eq:
  assumes "sz + 4095 < W32"
  shows "sub32 (add32 sz 4096) 1 = sz + 4095"
proof (cases "sz + 4096 = W32")
  case True
  then have "add32 sz 4096 = 0" by (simp add: add32_def)
  with True show ?thesis by (simp add: sub32_wrap)
next
  case False
  with assms show ?thesis by (simp add: add32_eq sub32_eq)
qed

section \<open>Numbers as bytes\<close>

lemma length_le_bytes [simp]: "length (le_bytes n v) = n"
  by (induction n arbitrary: v) auto

lemma le_val_le_bytes: "le_val (le_bytes n v) = v mod 256 ^ n"
proof (induction n arbitrary: v)
  case (Suc n)
  have "v mod (256 * 256 ^ n) = 256 * (v div 256 mod 256 ^ n) + v mod 256" by (rule mod_mult2_eq)
  then show ?case using Suc by (simp add: unat_of_nat)
qed simp

lemma le_val_less: "le_val bytes < 256 ^ length bytes"
proof (induction bytes)
  case (Cons b bytes)
  have "unat b < 256" using unsigned_less [of b] by simp
  then show ?case using Cons by simp
qed simp

lemma le_bytes_le_val: "le_bytes (length bytes) (le_val bytes) = bytes"
proof (induction bytes)
  case (Cons b bytes)
  have "unat b < 256" using unsigned_less [of b] by simp
  moreover have "word_of_nat (unat b + 256 * le_val bytes) = b"
  proof -
    have "(256 :: u8) = 0" by (simp add: word_unat_eq_iff)
    then have "256 * x = (0 :: u8)" for x by (metis mult_zero_left)
    then show ?thesis by simp
  qed
  ultimately show ?case using Cons by simp
qed simp

end
