(* ===== verification/Queue.thy ===== *)
theory Queue
  imports Prelude
begin

text \<open>
  The fixed-capacity ring queue of \<^verbatim>\<open>src/kernel/utils/queue.h\<close> and \<^verbatim>\<open>queue.hxx\<close>, which
  the scheduler uses for its ready and waiting queues. The template argument \<open>N\<close> is an
  argument of the operations. The array holds \<open>N\<close> elements and every index the code
  computes is a remainder modulo \<open>N\<close> (or the start index, itself such a remainder), so
  for \<open>0 < N\<close> no access leaves the array. \<open>dequeue\<close> does not test for emptiness:
  on an empty queue its counter wraps around.
\<close>

section \<open>Model\<close>

record 'a queue =
  q_data :: "'a list"
  q_count :: nat
  q_start :: nat

text \<open>\<open>new T[N]\<close> leaves the elements as they are in memory: the argument.\<close>

definition queue_new :: "'a list \<Rightarrow> 'a queue" where
  "queue_new mem = \<lparr>q_data = mem, q_count = 0, q_start = 0\<rparr>"

definition enqueue :: "nat \<Rightarrow> 'a \<Rightarrow> 'a queue \<Rightarrow> bool \<times> 'a queue" where
  "enqueue N element q =
     (if q_count q = N then (False, q)
      else (True, q\<lparr>q_data := (q_data q)[add32 (q_start q) (q_count q) mod N := element],
                    q_count := add32 (q_count q) 1\<rparr>))"

definition queue_empty :: "'a queue \<Rightarrow> bool" where
  "queue_empty q \<longleftrightarrow> q_count q = 0"

definition getFirst :: "'a queue \<Rightarrow> 'a" where
  "getFirst q = q_data q ! q_start q"

definition queue_full :: "nat \<Rightarrow> 'a queue \<Rightarrow> bool" where
  "queue_full N q \<longleftrightarrow> q_count q = N"

definition dequeue :: "nat \<Rightarrow> 'a queue \<Rightarrow> 'a \<times> 'a queue" where
  "dequeue N q =
     (let el = q_data q ! q_start q
      in (el, q\<lparr>q_start := add32 (q_start q) 1 mod N, q_count := sub32 (q_count q) 1\<rparr>))"

definition getCount :: "'a queue \<Rightarrow> nat" where
  "getCount q = q_count q"

section \<open>Specification\<close>

definition queue_inv :: "nat \<Rightarrow> 'a queue \<Rightarrow> bool" where
  "queue_inv N q \<longleftrightarrow> 0 < N \<and> 2 * N \<le> W32 \<and> length (q_data q) = N \<and> q_start q < N \<and> q_count q \<le> N"

definition queue_elems :: "nat \<Rightarrow> 'a queue \<Rightarrow> 'a list" where
  "queue_elems N q = map (\<lambda>i. q_data q ! ((q_start q + i) mod N)) [0..<q_count q]"

text \<open>
  What the clients of a bounded queue rely on: the queue denotes the list of its elements,
  oldest first; \<open>enq\<close> appends or refuses, \<open>deq\<close> takes the oldest element.
\<close>

locale bounded_fifo =
  fixes cap :: nat
    and invar :: "'q \<Rightarrow> bool"
    and elems :: "'q \<Rightarrow> 'a list"
    and enq :: "'a \<Rightarrow> 'q \<Rightarrow> bool \<times> 'q"
    and deq :: "'q \<Rightarrow> 'a \<times> 'q"
  assumes enq_room: "invar q \<Longrightarrow> length (elems q) < cap \<Longrightarrow>
      \<exists>q'. enq x q = (True, q') \<and> invar q' \<and> elems q' = elems q @ [x]"
    and enq_no_room: "invar q \<Longrightarrow> length (elems q) = cap \<Longrightarrow> enq x q = (False, q)"
    and deq_first: "invar q \<Longrightarrow> elems q = x # xs \<Longrightarrow>
      \<exists>q'. deq q = (x, q') \<and> invar q' \<and> elems q' = xs"
    and within_cap: "invar q \<Longrightarrow> length (elems q) \<le> cap"

text \<open>Loops over a queue, as its clients run them: fill it, drain it, rotate it.\<close>

fun enq_all :: "('a \<Rightarrow> 'q \<Rightarrow> bool \<times> 'q) \<Rightarrow> 'a list \<Rightarrow> 'q \<Rightarrow> 'q" where
  "enq_all enq [] q = q"
| "enq_all enq (x # xs) q = enq_all enq xs (snd (enq x q))"

fun deq_n :: "('q \<Rightarrow> 'a \<times> 'q) \<Rightarrow> nat \<Rightarrow> 'q \<Rightarrow> 'a list \<times> 'q" where
  "deq_n deq 0 q = ([], q)"
| "deq_n deq (Suc n) q =
     (let (x, q1) = deq q; (xs, q2) = deq_n deq n q1 in (x # xs, q2))"

definition requeue :: "('a \<Rightarrow> 'q \<Rightarrow> bool \<times> 'q) \<Rightarrow> ('q \<Rightarrow> 'a \<times> 'q) \<Rightarrow> 'q \<Rightarrow> 'q" where
  "requeue enq deq q = (let (x, q') = deq q in snd (enq x q'))"

context bounded_fifo
begin

lemma enq_all_elems:
  "invar q \<Longrightarrow> length (elems q) + length xs \<le> cap \<Longrightarrow>
   invar (enq_all enq xs q) \<and> elems (enq_all enq xs q) = elems q @ xs"
proof (induction xs arbitrary: q)
  case Nil
  then show ?case by simp
next
  case (Cons x xs)
  then obtain q' where "enq x q = (True, q')" "invar q'" "elems q' = elems q @ [x]"
    using enq_room [of q x] by auto
  with Cons show ?case by simp
qed

lemma deq_n_elems:
  "invar q \<Longrightarrow> n \<le> length (elems q) \<Longrightarrow>
   \<exists>q'. deq_n deq n q = (take n (elems q), q') \<and> invar q' \<and> elems q' = drop n (elems q)"
proof (induction n arbitrary: q)
  case 0
  then show ?case by simp
next
  case (Suc n)
  then obtain x xs where xs: "elems q = x # xs" by (cases "elems q") auto
  then obtain q1 where q1: "deq q = (x, q1)" "invar q1" "elems q1 = xs"
    using deq_first Suc.prems by blast
  then show ?case
    using Suc.IH [of q1] Suc.prems xs by auto
qed

lemma fifo_order:
  assumes "invar q" and "elems q = []" and "length xs \<le> cap"
  shows "fst (deq_n deq (length xs) (enq_all enq xs q)) = xs"
proof -
  have "invar (enq_all enq xs q)" and e: "elems (enq_all enq xs q) = xs"
    using enq_all_elems [of q xs] assms by auto
  then show ?thesis
    using deq_n_elems [of "enq_all enq xs q" "length xs"] by auto
qed

lemma requeue_elems:
  assumes "invar q" and "elems q \<noteq> []"
  shows "invar (requeue enq deq q) \<and> elems (requeue enq deq q) = rotate1 (elems q)"
proof -
  obtain x xs where xs: "elems q = x # xs"
    using assms(2) by (cases "elems q") auto
  obtain q1 where q1: "deq q = (x, q1)" "invar q1" "elems q1 = xs"
    using deq_first assms(1) xs by blast
  have "length (elems q1) < cap"
    using within_cap [OF assms(1)] xs q1 by simp
  then obtain q2 where "enq x q1 = (True, q2)" "invar q2" "elems q2 = xs @ [x]"
    using enq_room q1 by blast
  then show ?thesis
    using q1 xs by (simp add: requeue_def)
qed

lemma requeue_n_elems:
  "invar q \<Longrightarrow> elems q \<noteq> [] \<Longrightarrow>
   invar ((requeue enq deq ^^ n) q) \<and> elems ((requeue enq deq ^^ n) q) = rotate n (elems q)"
proof (induction n)
  case 0
  then show ?case by simp
next
  case (Suc n)
  then have "elems ((requeue enq deq ^^ n) q) \<noteq> []" by simp
  then show ?case
    using Suc requeue_elems by (simp add: rotate_def)
qed

end

section \<open>The ring refines the list\<close>

lemma length_queue_elems [simp]: "length (queue_elems N q) = q_count q"
  by (simp add: queue_elems_def)

lemma ring_index_eq:
  "s < N \<Longrightarrow> i \<le> N \<Longrightarrow> (s + i) mod N = (if s + i < N then s + i else s + i - N)"
  for N :: nat
  by (cases "s + i < N") (simp_all add: mod_if)

lemma ring_index_inj:
  "s < N \<Longrightarrow> i < N \<Longrightarrow> j < N \<Longrightarrow> (s + i) mod N = (s + j) mod N \<longleftrightarrow> i = j" for N :: nat
  by (auto simp: ring_index_eq split: if_splits)

lemma queue_new_refines:
  "0 < N \<Longrightarrow> 2 * N \<le> W32 \<Longrightarrow> length mem = N \<Longrightarrow>
   queue_inv N (queue_new mem) \<and> queue_elems N (queue_new mem) = []"
  by (simp add: queue_inv_def queue_elems_def queue_new_def)

lemma enqueue_refines:
  assumes inv: "queue_inv N q" and room: "q_count q < N"
  shows "\<exists>q'. enqueue N x q = (True, q') \<and> queue_inv N q' \<and>
    queue_elems N q' = queue_elems N q @ [x]"
proof -
  let ?k = "(q_start q + q_count q) mod N"
  let ?q = "q\<lparr>q_data := (q_data q)[?k := x], q_count := Suc (q_count q)\<rparr>"
  have eq: "enqueue N x q = (True, ?q)"
    using inv room by (simp add: enqueue_def queue_inv_def arith32)
  have old: "(q_data q)[?k := x] ! ((q_start q + i) mod N) = q_data q ! ((q_start q + i) mod N)"
    if "i < q_count q" for i
    using inv room that ring_index_inj [of "q_start q" N i "q_count q"]
    by (simp add: queue_inv_def)
  have new: "(q_data q)[?k := x] ! ?k = x"
    using inv by (simp add: queue_inv_def)
  have "queue_elems N ?q = queue_elems N q @ [x]"
    using old new by (simp add: queue_elems_def)
  moreover have "queue_inv N ?q"
    using inv room by (simp add: queue_inv_def)
  ultimately show ?thesis using eq by blast
qed

lemma queue_elems_Cons:
  assumes "queue_inv N q" and "0 < q_count q"
  shows "queue_elems N q = q_data q ! q_start q #
    map (\<lambda>i. q_data q ! ((q_start q + Suc i) mod N)) [0..<q_count q - 1]"
proof -
  obtain c where c: "q_count q = Suc c"
    using assms(2) by (cases "q_count q") auto
  have "[0..<Suc c] = 0 # map Suc [0..<c]"
    by (simp add: upt_conv_Cons map_Suc_upt)
  then show ?thesis
    using assms(1) c by (simp add: queue_elems_def queue_inv_def del: upt_Suc)
qed

lemma dequeue_refines:
  assumes inv: "queue_inv N q" and el: "queue_elems N q = x # xs"
  shows "\<exists>q'. dequeue N q = (x, q') \<and> queue_inv N q' \<and> queue_elems N q' = xs"
proof -
  have pos: "0 < q_count q"
    using el by (cases "q_count q") (auto simp: queue_elems_def)
  let ?q = "q\<lparr>q_start := Suc (q_start q) mod N, q_count := q_count q - 1\<rparr>"
  have "dequeue N q = (x, ?q)"
    using inv el pos queue_elems_Cons [OF inv pos]
    by (simp add: dequeue_def queue_inv_def arith32)
  moreover have "queue_inv N ?q"
    using inv by (auto simp: queue_inv_def)
  moreover have "queue_elems N ?q = xs"
    using el queue_elems_Cons [OF inv pos]
    by (simp add: queue_elems_def mod_simps del: upt_Suc)
  ultimately show ?thesis by blast
qed

interpretation ring: bounded_fifo N "queue_inv N" "queue_elems N" "enqueue N" "dequeue N"
  for N :: nat
proof unfold_locales
  fix q :: "'a queue" and x
  assume inv: "queue_inv N q"
  show "length (queue_elems N q) < N \<Longrightarrow>
    \<exists>q'. enqueue N x q = (True, q') \<and> queue_inv N q' \<and> queue_elems N q' = queue_elems N q @ [x]"
    using enqueue_refines [OF inv] by simp
  show "length (queue_elems N q) = N \<Longrightarrow> enqueue N x q = (False, q)"
    by (simp add: enqueue_def)
  show "length (queue_elems N q) \<le> N"
    using inv by (simp add: queue_inv_def)
qed (rule dequeue_refines)

lemma getFirst_hd: "queue_inv N q \<Longrightarrow> 0 < q_count q \<Longrightarrow> getFirst q = hd (queue_elems N q)"
  by (simp add: queue_elems_Cons getFirst_def)

lemma queue_observers:
  "queue_empty q \<longleftrightarrow> queue_elems N q = []"
  "queue_full N q \<longleftrightarrow> length (queue_elems N q) = N"
  "getCount q = length (queue_elems N q)"
  by (auto simp: queue_empty_def queue_full_def getCount_def queue_elems_def)

section \<open>Properties\<close>

text \<open>
  First in, first out: a new queue of capacity \<open>N\<close> that is filled with up to \<open>N\<close> elements
  returns them, when it is drained, in the order in which they were enqueued, whatever its
  memory held before.
\<close>
theorem queue_fifo:
  assumes "0 < N" and "2 * N \<le> W32" and "length mem = N" and "length xs \<le> N"
  shows "fst (deq_n (dequeue N) (length xs) (enq_all (enqueue N) xs (queue_new mem))) = xs"
  using queue_new_refines [OF assms(1-3)] assms(4) by (intro ring.fifo_order) auto

theorem queue_fifo_witness:
  "fst (deq_n (dequeue 3) (length [7, 8, 9 :: nat]) (enq_all (enqueue 3) [7, 8, 9 :: nat] (queue_new [0, 0, 0]))) = [7, 8, 9]"
  by (rule queue_fifo) simp_all

text \<open>
  Round robin: taking the first element of a queue and enqueueing it again, as the scheduler
  does with the ready processes, \<open>n\<close> times rotates the queue by \<open>n\<close> places. No element is lost or
  refused, and after as many rounds as there are elements the queue is as before.
\<close>
theorem queue_round_robin:
  assumes "queue_inv N q" and "queue_elems N q \<noteq> []"
  shows "queue_inv N ((requeue (enqueue N) (dequeue N) ^^ n) q) \<and>
    queue_elems N ((requeue (enqueue N) (dequeue N) ^^ n) q) = rotate n (queue_elems N q)"
  by (rule ring.requeue_n_elems [OF assms])

theorem queue_round_robin_witness:
  "queue_elems 3 ((requeue (enqueue 3) (dequeue 3) ^^ 4) (enq_all (enqueue 3) [1, 2, 5 :: nat] (queue_new [0, 0, 0])))
   = rotate 4 [1, 2, 5]"
proof -
  let ?q = "enq_all (enqueue 3) [1, 2, 5 :: nat] (queue_new [0, 0, 0])"
  have "queue_inv 3 ?q" "queue_elems 3 ?q = [1, 2, 5]"
    by (simp_all add: enqueue_def queue_new_def queue_inv_def queue_elems_def add32_def upt_rec)
  then show ?thesis using queue_round_robin [of 3 ?q 4] by simp
qed

end
