(* ===== verification/LinkedList.thy ===== *)
theory LinkedList
  imports Prelude
begin

text \<open>
  The singly linked list of \<^verbatim>\<open>src/kernel/utils/list.h\<close> and \<^verbatim>\<open>list.hxx\<close>. A list object owns
  its chain of nodes, so the chain starting at \<^verbatim>\<open>head\<close> is the HOL list of the nodes'
  values, the null pointer is \<open>[]\<close>, and the counter \<open>s\<close> is kept beside it as in the
  class. Each loop over the chain is a recursive function with the same exit tests;
  following the \<^verbatim>\<open>next\<close> field of a null pointer is the failure \<open>NullDeref\<close>.
  \<^verbatim>\<open>sort\<close> is declared but commented out in the source.
\<close>

section \<open>Model\<close>

record 'a clist =
  l_head :: "'a list"
  l_s :: int

definition list_new :: "'a clist" where
  "list_new = \<lparr>l_head = [], l_s = 0\<rparr>"

text \<open>\<open>append_node\<close> is the do-while loop of the private \<open>add(Node*)\<close> with its
  final \<open>tmp->next = newNode\<close>; \<open>chain\<close> is never empty there.\<close>

fun append_node :: "'a list \<Rightarrow> 'a \<Rightarrow> 'a list" where
  "append_node [] e = [e]"
| "append_node (x # xs) e = x # append_node xs e"

definition list_add_node :: "'a \<Rightarrow> 'a clist \<Rightarrow> 'a clist" where
  "list_add_node e l =
     (if l_head l = [] then l\<lparr>l_head := [e], l_s := l_s l + 1\<rparr>
      else l\<lparr>l_head := append_node (l_head l) e, l_s := l_s l + 1\<rparr>)"

definition list_add :: "'a \<Rightarrow> 'a clist \<Rightarrow> 'a clist" where
  "list_add e l = list_add_node e l"

definition addFirst :: "'a \<Rightarrow> 'a clist \<Rightarrow> 'a clist" where
  "addFirst e l =
     (if l_head l = [] then l\<lparr>l_head := [e], l_s := l_s l + 1\<rparr>
      else l\<lparr>l_head := e # l_head l, l_s := l_s l + 1\<rparr>)"

definition addLast :: "'a \<Rightarrow> 'a clist \<Rightarrow> 'a clist" where
  "addLast e l = list_add e l"

text \<open>The search loop of \<open>remove\<close>: nodes passed (\<open>prev\<close> is the last of them) and the
  chain from the match on, or \<open>None\<close> when the loop ends without a match.\<close>

fun remove_find :: "'a \<Rightarrow> 'a list \<Rightarrow> 'a list \<Rightarrow> ('a list \<times> 'a list) option" where
  "remove_find e passed [] = None"
| "remove_find e passed (x # xs) =
     (if x = e then Some (passed, x # xs) else remove_find e (passed @ [x]) xs)"

definition list_remove :: "'a \<Rightarrow> 'a clist \<Rightarrow> bool \<times> 'a clist" where
  "list_remove e l =
     (if l_head l = [] then (False, l)
      else case remove_find e [] (l_head l) of
        None \<Rightarrow> (False, l)
      | Some (passed, current) \<Rightarrow>
          let l' = l\<lparr>l_s := l_s l - 1\<rparr> in
          if passed = [] then (True, l'\<lparr>l_head := tl current\<rparr>)
          else if tl current = [] then (True, l'\<lparr>l_head := passed\<rparr>)
          else (True, l'\<lparr>l_head := passed @ tl current\<rparr>))"

definition removeFirst :: "'a clist \<Rightarrow> bool \<times> 'a clist" where
  "removeFirst l =
     (case l_head l of
        [] \<Rightarrow> (False, l)
      | _ # rest \<Rightarrow> (True, l\<lparr>l_head := rest, l_s := l_s l - 1\<rparr>))"

text \<open>
  The do-while loop of \<open>removeLast\<close> starts with \<open>prev\<close> on the first node and
  \<open>current\<close> on its successor, and its test reads \<open>current->next\<close>. The first argument
  holds the nodes up to \<open>prev\<close>, the second is the chain from \<open>current\<close> on.
\<close>

fun removeLast_loop :: "'a list \<Rightarrow> 'a list \<Rightarrow> 'a list res" where
  "removeLast_loop kept [] = Inl NullDeref"
| "removeLast_loop kept [x] = Inr kept"
| "removeLast_loop kept (x # y # ys) = removeLast_loop (kept @ [x]) (y # ys)"

definition removeLast :: "'a clist \<Rightarrow> (bool \<times> 'a clist) res" where
  "removeLast l =
     (case l_head l of
        [] \<Rightarrow> Inr (False, l)
      | x # rest \<Rightarrow>
          bind_res (removeLast_loop [x] rest)
            (\<lambda>chain. Inr (True, l\<lparr>l_head := chain, l_s := l_s l - 1\<rparr>)))"

text \<open>The pointer reversal loop: \<open>newNext\<close> is the reversed part.\<close>

fun reverse_loop :: "'a list \<Rightarrow> 'a list \<Rightarrow> 'a list" where
  "reverse_loop [] newNext = newNext"
| "reverse_loop (x # tmp) newNext = reverse_loop tmp (x # newNext)"

definition list_reverse :: "'a clist \<Rightarrow> 'a clist" where
  "list_reverse l = (if l_head l = [] then l else l\<lparr>l_head := reverse_loop (l_head l) []\<rparr>)"

definition list_clear :: "'a clist \<Rightarrow> 'a clist" where
  "list_clear l = l\<lparr>l_head := [], l_s := 0\<rparr>"

text \<open>\<open>get\<close> walks \<open>index\<close> nodes and returns a pointer to the value there.\<close>

fun get_walk :: "nat \<Rightarrow> 'a list \<Rightarrow> 'a res" where
  "get_walk n [] = Inl NullDeref"
| "get_walk 0 (x # xs) = Inr x"
| "get_walk (Suc n) (x # xs) = get_walk n xs"

definition list_get :: "int \<Rightarrow> 'a clist \<Rightarrow> 'a option res" where
  "list_get index l =
     (if index < 0 \<or> index \<ge> l_s l then Inr None
      else bind_res (get_walk (nat index) (l_head l)) (\<lambda>v. Inr (Some v)))"

definition list_size :: "'a clist \<Rightarrow> int" where
  "list_size l = l_s l"

text \<open>
  The insertion loop of \<open>add(index, e)\<close>: it stops on the node number \<open>index\<close> and links
  the new node behind that node.
\<close>

fun add_at_loop :: "nat \<Rightarrow> 'a \<Rightarrow> 'a list \<Rightarrow> 'a list res" where
  "add_at_loop n e [] = Inl NullDeref"
| "add_at_loop 0 e (x # xs) = Inr (x # e # xs)"
| "add_at_loop (Suc n) e (x # xs) = bind_res (add_at_loop n e xs) (\<lambda>r. Inr (x # r))"

definition list_add_at :: "int \<Rightarrow> 'a \<Rightarrow> 'a clist \<Rightarrow> (bool \<times> 'a clist) res" where
  "list_add_at index e l =
     (if index < 0 \<or> index > l_s l then Inr (False, l)
      else if index = 0 then Inr (True, addFirst e l)
      else if index = l_s l then Inr (True, addLast e l)
      else bind_res (add_at_loop (nat index) e (l_head l))
             (\<lambda>chain. Inr (True, l\<lparr>l_head := chain, l_s := l_s l + 1\<rparr>)))"

fun contains_loop :: "'a \<Rightarrow> 'a list \<Rightarrow> bool" where
  "contains_loop e [] = False"
| "contains_loop e (x # xs) = (if x = e then True else contains_loop e xs)"

definition list_contains :: "'a \<Rightarrow> 'a clist \<Rightarrow> bool" where
  "list_contains e l = contains_loop e (l_head l)"

section \<open>The counter counts the nodes\<close>

definition list_inv :: "'a clist \<Rightarrow> bool" where
  "list_inv l \<longleftrightarrow> l_s l = int (length (l_head l))"

lemma append_node_eq [simp]: "append_node xs e = xs @ [e]"
  by (induction xs) auto

lemma list_add_head [simp]: "l_head (list_add e l) = l_head l @ [e]"
  by (simp add: list_add_def list_add_node_def)

lemma addFirst_head [simp]: "l_head (addFirst e l) = e # l_head l"
  by (simp add: addFirst_def)

lemma remove_find_None: "remove_find e p xs = None \<longleftrightarrow> e \<notin> set xs"
  by (induction xs arbitrary: p) auto

lemma remove_find_Some:
  "remove_find e p xs = Some (q, c) \<Longrightarrow>
   \<exists>ys zs. q = p @ ys \<and> c = e # zs \<and> xs = ys @ e # zs \<and> e \<notin> set ys"
proof (induction xs arbitrary: p)
  case Nil
  then show ?case by simp
next
  case (Cons x xs)
  show ?case
  proof (cases "x = e")
    case True
    with Cons.prems show ?thesis by auto
  next
    case False
    with Cons show ?thesis
      by (force intro: exI [where x = "x # _"])
  qed
qed

lemma remove1_split: "e \<notin> set ys \<Longrightarrow> remove1 e (ys @ e # zs) = ys @ zs"
  by (induction ys) auto

lemma list_remove_eq:
  "list_remove e l =
     (if e \<in> set (l_head l) then (True, l\<lparr>l_head := remove1 e (l_head l), l_s := l_s l - 1\<rparr>)
      else (False, l))"
proof (cases "remove_find e [] (l_head l)")
  case None
  then have "e \<notin> set (l_head l)" by (simp add: remove_find_None)
  with None show ?thesis by (simp add: list_remove_def)
next
  case (Some pc)
  then obtain ys zs where "pc = (ys, e # zs)" "l_head l = ys @ e # zs" "e \<notin> set ys"
    using remove_find_Some [of e "[]" "l_head l" "fst pc" "snd pc"] by (cases pc) auto
  with Some show ?thesis
    by (auto simp: list_remove_def Let_def remove1_split)
qed

lemma removeLast_loop_eq: "xs \<noteq> [] \<Longrightarrow> removeLast_loop p xs = Inr (p @ butlast xs)"
  by (induction p xs rule: removeLast_loop.induct) auto

lemma removeLast_eq:
  "removeLast l =
     (case l_head l of [] \<Rightarrow> Inr (False, l) | [x] \<Rightarrow> Inl NullDeref
      | _ \<Rightarrow> Inr (True, l\<lparr>l_head := butlast (l_head l), l_s := l_s l - 1\<rparr>))"
  by (auto simp: removeLast_def removeLast_loop_eq split: list.splits)

lemma reverse_loop_eq [simp]: "reverse_loop xs ys = rev xs @ ys"
  by (induction xs arbitrary: ys) auto

lemma get_walk_eq: "n < length xs \<Longrightarrow> get_walk n xs = Inr (xs ! n)"
  by (induction n xs rule: get_walk.induct) auto

lemma add_at_loop_eq:
  "n < length xs \<Longrightarrow> add_at_loop n e xs = Inr (take (Suc n) xs @ e # drop (Suc n) xs)"
  by (induction n e xs rule: add_at_loop.induct) auto

lemma contains_loop_eq [simp]: "contains_loop e xs \<longleftrightarrow> e \<in> set xs"
  by (induction xs) auto

lemma list_add_at_eq:
  assumes "list_inv l"
  shows "list_add_at i e l =
    (if i < 0 \<or> i > l_s l then Inr (False, l)
     else if i = 0 then Inr (True, l\<lparr>l_head := e # l_head l, l_s := l_s l + 1\<rparr>)
     else if i = l_s l then Inr (True, l\<lparr>l_head := l_head l @ [e], l_s := l_s l + 1\<rparr>)
     else Inr (True, l\<lparr>l_head := take (Suc (nat i)) (l_head l) @ e # drop (Suc (nat i)) (l_head l),
                       l_s := l_s l + 1\<rparr>))"
proof -
  have "nat i < length (l_head l)" if "0 \<le> i" "i < l_s l"
    using assms that by (simp add: list_inv_def)
  then show ?thesis
    by (auto simp: list_add_at_def add_at_loop_eq addFirst_def addLast_def list_add_def
        list_add_node_def)
qed

section \<open>Properties\<close>

text \<open>The operations of the class as one event type, to speak of any use of a list.\<close>

datatype 'a list_op = Add 'a | AddFirst 'a | AddLast 'a | AddAt int 'a | Remove 'a
  | RemoveFirst | RemoveLast | Reverse | Clear

fun list_step :: "'a list_op \<Rightarrow> 'a clist \<Rightarrow> 'a clist res" where
  "list_step (Add e) l = Inr (list_add e l)"
| "list_step (AddFirst e) l = Inr (addFirst e l)"
| "list_step (AddLast e) l = Inr (addLast e l)"
| "list_step (AddAt i e) l = bind_res (list_add_at i e l) (\<lambda>r. Inr (snd r))"
| "list_step (Remove e) l = Inr (snd (list_remove e l))"
| "list_step RemoveFirst l = Inr (snd (removeFirst l))"
| "list_step RemoveLast l = bind_res (removeLast l) (\<lambda>r. Inr (snd r))"
| "list_step Reverse l = Inr (list_reverse l)"
| "list_step Clear l = Inr (list_clear l)"

fun list_run :: "'a list_op list \<Rightarrow> 'a clist \<Rightarrow> 'a clist res" where
  "list_run [] l = Inr l"
| "list_run (op # ops) l = bind_res (list_step op l) (list_run ops)"

lemma list_step_inv: "list_inv l \<Longrightarrow> list_step op l = Inr l' \<Longrightarrow> list_inv l'"
proof (cases op)
  case (AddAt i e)
  then show "list_inv l \<Longrightarrow> list_step op l = Inr l' \<Longrightarrow> list_inv l'"
    by (auto simp: list_add_at_eq list_inv_def split: if_splits)
next
  case (Remove e)
  have "length (l_head l) = Suc (length (remove1 e (l_head l)))" if "e \<in> set (l_head l)"
    using that length_pos_if_in_set [OF that] by (simp add: length_remove1)
  with Remove show "list_inv l \<Longrightarrow> list_step op l = Inr l' \<Longrightarrow> list_inv l'"
    by (auto simp: list_remove_eq list_inv_def split: if_splits)
next
  case RemoveLast
  then show "list_inv l \<Longrightarrow> list_step op l = Inr l' \<Longrightarrow> list_inv l'"
    by (auto simp: removeLast_eq list_inv_def split: list.splits)
qed (auto simp: list_inv_def list_add_def list_add_node_def addFirst_def addLast_def
      removeFirst_def list_reverse_def list_clear_def split: list.splits if_splits)

lemma list_run_inv: "list_inv l \<Longrightarrow> list_run ops l = Inr l' \<Longrightarrow> list_inv l'"
  by (induction ops arbitrary: l) (auto simp: res_elims intro: list_step_inv)

text \<open>
  Any sequence of list operations that ends without a fault leaves the counter equal to the
  number of nodes.
\<close>
theorem list_counter:
  assumes "list_inv l" and "list_run ops l = Inr l'"
  shows "list_inv l'"
  by (rule list_run_inv [OF assms])

theorem list_counter_witness:
  "\<exists>l'. list_run [Add 4, AddFirst 2, AddAt 1 (7 :: nat), Remove 4, Reverse] list_new = Inr l' \<and> list_inv l'"
proof -
  have "list_inv list_new" by (simp add: list_inv_def list_new_def)
  moreover have "list_run [Add 4, AddFirst 2, AddAt 1 (7 :: nat), Remove 4, Reverse] list_new = Inr \<lparr>l_head = [7, 2], l_s = 2\<rparr>"
    by (simp add: list_new_def list_add_def list_add_node_def addFirst_def list_add_at_def list_remove_def
        list_reverse_def numeral_2_eq_2 addLast_def)
  ultimately show ?thesis using list_counter by blast
qed

text \<open>
  \<open>add(index, e)\<close> with an index strictly inside the list puts the element behind the node that
  has this index: the element ends up at \<open>index + 1\<close>, and the node at \<open>index\<close> stays where it was.
\<close>
theorem list_add_at_after:
  assumes "list_inv l" and "0 < i" and "i < l_s l"
  shows "\<exists>l'. list_add_at i e l = Inr (True, l') \<and> list_inv l' \<and>
    l_head l' ! nat i = l_head l ! nat i \<and> l_head l' ! Suc (nat i) = e"
proof -
  have len: "Suc (nat i) \<le> length (l_head l)" using assms by (simp add: list_inv_def)
  let ?l = "l\<lparr>l_head := take (Suc (nat i)) (l_head l) @ e # drop (Suc (nat i)) (l_head l), l_s := l_s l + 1\<rparr>"
  have "list_add_at i e l = Inr (True, ?l)" using list_add_at_eq [OF assms(1)] assms(2,3) by simp
  moreover have "list_inv ?l" using assms(1) len by (simp add: list_inv_def)
  ultimately show ?thesis using len by (intro exI [of _ ?l]) (simp add: nth_append)
qed

theorem list_add_at_after_witness:
  "list_add_at 1 (9 :: nat) \<lparr>l_head = [5, 6, 7], l_s = 3\<rparr> = Inr (True, \<lparr>l_head = [5, 6, 9, 7], l_s = 4\<rparr>) \<and>
   (\<exists>l'. list_add_at 1 (9 :: nat) \<lparr>l_head = [5, 6, 7], l_s = 3\<rparr> = Inr (True, l') \<and> l_head l' ! 1 = 6)"
  using list_add_at_after [of "\<lparr>l_head = [5, 6, 7 :: nat], l_s = 3\<rparr>" 1 9]
  by (auto simp: list_inv_def list_add_at_def)

end
