(* ===== verification/Stack.thy ===== *)
theory Stack
  imports Prelude
begin

text \<open>
  The bounded stack of \<^verbatim>\<open>src/kernel/utils/Stack.h\<close> and \<^verbatim>\<open>Stack.hxx\<close> (the signal contexts
  of a process). The array slots hold pointers to copies of the pushed elements; a slot is
  modelled by the copy itself. Popping returns the pointer and leaves the slot as it is.
\<close>

section \<open>Model\<close>

record 'a stack =
  st_data :: "'a list"
  st_size :: nat
  st_capacity :: nat

definition stack_new :: "nat \<Rightarrow> 'a list \<Rightarrow> 'a stack" where
  "stack_new capacity mem = \<lparr>st_data = mem, st_size = 0, st_capacity = capacity\<rparr>"

definition push :: "'a \<Rightarrow> 'a stack \<Rightarrow> bool \<times> 'a stack" where
  "push t st =
     (if st_size st = st_capacity st then (False, st)
      else (True, st\<lparr>st_data := (st_data st)[st_size st := t], st_size := add32 (st_size st) 1\<rparr>))"

definition pop :: "'a stack \<Rightarrow> 'a option \<times> 'a stack" where
  "pop st =
     (if st_size st = 0 then (None, st)
      else let k = sub32 (st_size st) 1
           in (Some (st_data st ! k), st\<lparr>st_size := k\<rparr>))"

definition peek :: "'a stack \<Rightarrow> 'a option" where
  "peek st = (if st_size st = 0 then None else Some (st_data st ! sub32 (st_size st) 1))"

definition get_size :: "'a stack \<Rightarrow> nat" where
  "get_size st = st_size st"

section \<open>Specification\<close>

definition stack_inv :: "'a stack \<Rightarrow> bool" where
  "stack_inv st \<longleftrightarrow> length (st_data st) = st_capacity st \<and> st_size st \<le> st_capacity st \<and>
     st_capacity st < W32"

text \<open>The stack denotes the list of its elements, top first.\<close>

definition stack_elems :: "'a stack \<Rightarrow> 'a list" where
  "stack_elems st = rev (take (st_size st) (st_data st))"

locale bounded_stack =
  fixes invar :: "'s \<Rightarrow> bool"
    and elems :: "'s \<Rightarrow> 'a list"
    and room :: "'s \<Rightarrow> bool"
    and psh :: "'a \<Rightarrow> 's \<Rightarrow> bool \<times> 's"
    and pp :: "'s \<Rightarrow> 'a option \<times> 's"
    and top :: "'s \<Rightarrow> 'a option"
  assumes psh_room: "invar s \<Longrightarrow> room s \<Longrightarrow>
      \<exists>s'. psh x s = (True, s') \<and> invar s' \<and> elems s' = x # elems s"
    and psh_full: "invar s \<Longrightarrow> \<not> room s \<Longrightarrow> psh x s = (False, s)"
    and pp_Nil: "invar s \<Longrightarrow> elems s = [] \<Longrightarrow> pp s = (None, s)"
    and pp_Cons: "invar s \<Longrightarrow> elems s = x # xs \<Longrightarrow>
      \<exists>s'. pp s = (Some x, s') \<and> invar s' \<and> elems s' = xs"
    and top_elems: "invar s \<Longrightarrow> top s = (case elems s of [] \<Rightarrow> None | x # _ \<Rightarrow> Some x)"
begin

lemma push_then_pop:
  assumes "invar s" and "room s"
  shows "\<exists>s' s''. psh x s = (True, s') \<and> top s' = Some x \<and> pp s' = (Some x, s'') \<and>
    invar s'' \<and> elems s'' = elems s"
proof -
  obtain s' where s': "psh x s = (True, s')" "invar s'" "elems s' = x # elems s"
    using psh_room assms by blast
  then obtain s'' where "pp s' = (Some x, s'')" "invar s''" "elems s'' = elems s"
    using pp_Cons by blast
  with s' show ?thesis using top_elems by auto
qed

end

lemma stack_elems_Cons:
  assumes "stack_inv st" and "0 < st_size st"
  shows "stack_elems st = st_data st ! (st_size st - 1) # rev (take (st_size st - 1) (st_data st))"
proof -
  obtain k where k: "st_size st = Suc k"
    using assms(2) by (cases "st_size st") auto
  then show ?thesis
    using assms(1) by (simp add: stack_elems_def stack_inv_def take_Suc_conv_app_nth)
qed

lemma push_refines:
  assumes inv: "stack_inv st" and room: "st_size st < st_capacity st"
  shows "\<exists>st'. push x st = (True, st') \<and> stack_inv st' \<and> stack_elems st' = x # stack_elems st"
  using assms by (simp add: push_def stack_inv_def stack_elems_def arith32 take_Suc_conv_app_nth)

interpretation array_stack: bounded_stack stack_inv stack_elems
  "\<lambda>st. st_size st < st_capacity st" push pop peek
proof unfold_locales
  fix st :: "'a stack" and x xs
  assume inv: "stack_inv st"
  show "st_size st < st_capacity st \<Longrightarrow>
    \<exists>st'. push x st = (True, st') \<and> stack_inv st' \<and> stack_elems st' = x # stack_elems st"
    by (rule push_refines [OF inv])
  show "\<not> st_size st < st_capacity st \<Longrightarrow> push x st = (False, st)"
    using inv by (simp add: push_def stack_inv_def)
  show "stack_elems st = [] \<Longrightarrow> pop st = (None, st)"
    using stack_elems_Cons [OF inv] by (auto simp: pop_def)
  show "stack_elems st = x # xs \<Longrightarrow> \<exists>st'. pop st = (Some x, st') \<and> stack_inv st' \<and> stack_elems st' = xs"
    using inv stack_elems_Cons [OF inv]
    by (cases "st_size st = 0") (auto simp: pop_def stack_inv_def stack_elems_def arith32 Let_def)
  show "peek st = (case stack_elems st of [] \<Rightarrow> None | y # _ \<Rightarrow> Some y)"
    using inv stack_elems_Cons [OF inv]
    by (cases "st_size st = 0") (auto simp: peek_def stack_inv_def stack_elems_def arith32)
qed

lemma get_size_eq: "stack_inv st \<Longrightarrow> get_size st = length (stack_elems st)"
  by (simp add: get_size_def stack_elems_def stack_inv_def)

section \<open>Properties\<close>

text \<open>
  Push and pop: on a stack with room, a push succeeds, the pushed element is then the top, and a
  pop returns it and restores the contents; on a full stack a push changes nothing.
\<close>
theorem stack_push_pop:
  assumes "stack_inv st"
  shows "if st_size st < st_capacity st
    then \<exists>s' s''. push x st = (True, s') \<and> peek s' = Some x \<and> pop s' = (Some x, s'') \<and>
      stack_inv s'' \<and> stack_elems s'' = stack_elems st
    else push x st = (False, st)"
  using array_stack.push_then_pop [OF assms] array_stack.psh_full [OF assms] by simp

theorem stack_push_pop_witness:
  "\<exists>s' s''. push 9 (stack_new 2 [0, 0 :: nat]) = (True, s') \<and> peek s' = Some 9 \<and> pop s' = (Some 9, s'') \<and>
     stack_inv s'' \<and> stack_elems s'' = []"
  using stack_push_pop [of "stack_new 2 [0, 0 :: nat]" 9] by (simp add: stack_new_def stack_inv_def stack_elems_def)

end
