(* ===== verification/CircularBuffer.thy ===== *)
theory CircularBuffer
  imports Prelude
begin

text \<open>
  The byte ring of \<^verbatim>\<open>src/kernel/utils/circular_buffer.h\<close> and \<^verbatim>\<open>circular_buffer.hxx\<close>, the
  buffer of a pipe. \<open>data\<close> is an array of \<open>capacity\<close> elements; the pointers \<open>beg\<close>
  and \<open>limit\<close> are the offsets of the code's pointers from \<open>data\<close>, so \<open>limit\<close>
  is \<open>capacity\<close>. The element type of every instance of the template in the kernel is
  \<^verbatim>\<open>char\<close>, for which the element counts passed to \<^verbatim>\<open>memcpy\<close> are byte counts.
  A \<^verbatim>\<open>memcpy\<close> that would leave the array is the failure \<open>OutOfBounds\<close>.
\<close>

section \<open>Model\<close>

record 'a cbuf =
  cb_capacity :: nat
  cb_beg :: nat
  cb_size :: nat
  cb_data :: "'a list"

text \<open>A section is an offset into \<open>data\<close> and a length.\<close>

type_synonym buf_section = "nat \<times> nat"

text \<open>
  The constructor calls its parameter \<open>allocator\<close>, not the member of the same name that
  falls back to \<^verbatim>\<open>malloc\<close>; \<open>None\<close> is the default argument \<^verbatim>\<open>nullptr\<close>. The allocator
  yields the memory of the buffer.
\<close>

definition cbuf_new :: "nat \<Rightarrow> (nat \<Rightarrow> 'a list) option \<Rightarrow> 'a cbuf res" where
  "cbuf_new capacity allocator =
     (case allocator of
        None \<Rightarrow> Inl NullDeref
      | Some alloc \<Rightarrow>
          Inr \<lparr>cb_capacity = capacity, cb_beg = 0, cb_size = 0, cb_data = alloc capacity\<rparr>)"

definition cbuf_read :: "nat \<Rightarrow> 'a cbuf \<Rightarrow> (buf_section \<times> buf_section) \<times> 'a cbuf" where
  "cbuf_read n0 b =
     (let n = min n0 (cb_size b);
          limit = cb_capacity b;
          secs = (if cb_beg b + n > limit
                  then let s1_size = limit - cb_beg b in ((cb_beg b, s1_size), (0, n - s1_size))
                  else ((cb_beg b, n), (cb_beg b + n, 0)));
          beg' = cb_beg b + n;
          beg'' = (if beg' \<ge> limit then beg' - cb_capacity b else beg')
      in (secs, b\<lparr>cb_beg := beg'', cb_size := cb_size b - n\<rparr>))"

text \<open>\<open>memcpy\<close> of the first \<open>k\<close> elements of \<open>src\<close> into the array at offset \<open>off\<close>.\<close>

definition memcpy_into :: "'a list \<Rightarrow> nat \<Rightarrow> 'a list \<Rightarrow> nat \<Rightarrow> 'a list res" where
  "memcpy_into dst off src k =
     (if off + k \<le> length dst \<and> k \<le> length src then Inr (blit dst off (take k src))
      else Inl OutOfBounds)"

definition cbuf_write :: "'a list \<Rightarrow> nat \<Rightarrow> 'a cbuf \<Rightarrow> (nat \<times> 'a cbuf) res" where
  "cbuf_write buf n0 b =
     (let n = min n0 (cb_capacity b - cb_size b);
          limit = cb_capacity b
      in bind_res
           (if cb_beg b + cb_size b + n \<le> limit
            then memcpy_into (cb_data b) (cb_beg b + cb_size b) buf n
            else let s1 = sub32 limit (cb_beg b + cb_size b);
                     s2 = sub32 n s1
                 in bind_res (memcpy_into (cb_data b) (cb_beg b + cb_size b) buf s1)
                      (\<lambda>d. memcpy_into d 0 (drop s1 buf) s2))
           (\<lambda>d. Inr (n, b\<lparr>cb_data := d, cb_size := cb_size b + n\<rparr>)))"

section \<open>Specification\<close>

definition cbuf_inv :: "'a cbuf \<Rightarrow> bool" where
  "cbuf_inv b \<longleftrightarrow> 0 < cb_capacity b \<and> 2 * cb_capacity b \<le> W32 \<and> length (cb_data b) = cb_capacity b \<and>
     cb_beg b < cb_capacity b \<and> cb_size b \<le> cb_capacity b"

text \<open>The contents, oldest first, and whether they run over the end of the array.\<close>

definition cbuf_elems :: "'a cbuf \<Rightarrow> 'a list" where
  "cbuf_elems b = map (\<lambda>i. cb_data b ! ((cb_beg b + i) mod cb_capacity b)) [0..<cb_size b]"

definition cbuf_wrapped :: "'a cbuf \<Rightarrow> bool" where
  "cbuf_wrapped b \<longleftrightarrow> cb_capacity b < cb_beg b + cb_size b"

text \<open>The bytes a section stands for: what the reader copies out of it.\<close>

definition section_bytes :: "'a cbuf \<Rightarrow> buf_section \<Rightarrow> 'a list" where
  "section_bytes b s = take (snd s) (drop (fst s) (cb_data b))"

definition read_bytes :: "nat \<Rightarrow> 'a cbuf \<Rightarrow> 'a list" where
  "read_bytes n b = (let (s1, s2) = fst (cbuf_read n b) in section_bytes b s1 @ section_bytes b s2)"

lemma length_cbuf_elems [simp]: "length (cbuf_elems b) = cb_size b"
  by (simp add: cbuf_elems_def)

lemma nth_cbuf_elems:
  "i < cb_size b \<Longrightarrow> cbuf_elems b ! i = cb_data b ! ((cb_beg b + i) mod cb_capacity b)"
  by (simp add: cbuf_elems_def)

lemma ring_mod:
  "s < N \<Longrightarrow> i \<le> N \<Longrightarrow> (s + i) mod N = (if s + i < N then s + i else s + i - N)" for N :: nat
  by (cases "s + i < N") (simp_all add: mod_if)

lemma read_bytes_eq:
  assumes "cbuf_inv b"
  shows "read_bytes n b = take n (cbuf_elems b)"
proof (rule nth_equalityI)
  let ?n = "min n (cb_size b)"
  have len: "length (read_bytes n b) = ?n"
    using assms by (auto simp: read_bytes_def cbuf_read_def section_bytes_def cbuf_inv_def Let_def)
  then show "length (read_bytes n b) = length (take n (cbuf_elems b))" by (simp add: min.commute)
  fix i assume "i < length (read_bytes n b)"
  then have i: "i < n" "i < cb_size b" using len by auto
  show "read_bytes n b ! i = take n (cbuf_elems b) ! i"
    using assms i
    by (auto simp: read_bytes_def cbuf_read_def section_bytes_def cbuf_inv_def Let_def nth_append
        nth_cbuf_elems ring_mod add.commute split: if_splits)
qed

lemma cbuf_read_beg:
  assumes "cbuf_inv b"
  shows "cb_beg (snd (cbuf_read n b)) = (cb_beg b + min n (cb_size b)) mod cb_capacity b"
  using assms ring_mod [of "cb_beg b" "cb_capacity b" "min n (cb_size b)"]
  by (auto simp: cbuf_read_def cbuf_inv_def Let_def)

lemma cbuf_read_fields [simp]:
  "cb_size (snd (cbuf_read n b)) = cb_size b - min n (cb_size b)"
  "cb_capacity (snd (cbuf_read n b)) = cb_capacity b"
  "cb_data (snd (cbuf_read n b)) = cb_data b"
  by (simp_all add: cbuf_read_def Let_def)

lemma cbuf_read_refines:
  assumes "cbuf_inv b"
  shows "cbuf_inv (snd (cbuf_read n b)) \<and> cbuf_elems (snd (cbuf_read n b)) = drop n (cbuf_elems b)"
proof
  show "cbuf_inv (snd (cbuf_read n b))"
    using assms by (auto simp: cbuf_read_def cbuf_inv_def Let_def)
  show "cbuf_elems (snd (cbuf_read n b)) = drop n (cbuf_elems b)"
  proof (rule nth_equalityI)
    show "length (cbuf_elems (snd (cbuf_read n b))) = length (drop n (cbuf_elems b))"
      by (simp add: min_def)
    fix i assume "i < length (cbuf_elems (snd (cbuf_read n b)))"
    then have i: "i + n < cb_size b" by (simp add: min_def split: if_splits)
    then have "cbuf_elems (snd (cbuf_read n b)) ! i = cb_data b ! ((cb_beg b + n + i) mod cb_capacity b)"
      using cbuf_read_beg [OF assms, of n] by (simp add: nth_cbuf_elems mod_simps)
    with i show "cbuf_elems (snd (cbuf_read n b)) ! i = drop n (cbuf_elems b) ! i"
      by (simp add: nth_cbuf_elems add.assoc)
  qed
qed

lemma cbuf_extend:
  assumes inv: "cbuf_inv b" and len: "length d = cb_capacity b"
    and room: "cb_size b + length xs \<le> cb_capacity b"
    and old: "\<And>i. i < cb_size b \<Longrightarrow>
      d ! ((cb_beg b + i) mod cb_capacity b) = cb_data b ! ((cb_beg b + i) mod cb_capacity b)"
    and new: "\<And>i. i < length xs \<Longrightarrow> d ! ((cb_beg b + cb_size b + i) mod cb_capacity b) = xs ! i"
  defines "b' \<equiv> b\<lparr>cb_data := d, cb_size := cb_size b + length xs\<rparr>"
  shows "cbuf_inv b' \<and> cbuf_elems b' = cbuf_elems b @ xs"
proof
  show "cbuf_inv b'"
    using inv len room by (simp add: b'_def cbuf_inv_def)
  show "cbuf_elems b' = cbuf_elems b @ xs"
  proof (rule nth_equalityI)
    show "length (cbuf_elems b') = length (cbuf_elems b @ xs)"
      by (simp add: b'_def)
    fix i assume "i < length (cbuf_elems b')"
    then show "cbuf_elems b' ! i = (cbuf_elems b @ xs) ! i"
      using old [of i] new [of "i - cb_size b"]
      by (cases "i < cb_size b") (auto simp: b'_def nth_cbuf_elems nth_append add.assoc)
  qed
qed

lemma cbuf_write_refines:
  assumes inv: "cbuf_inv b" and unwrapped: "\<not> cbuf_wrapped b" and src: "n \<le> length buf"
  defines "m \<equiv> min n (cb_capacity b - cb_size b)"
  shows "\<exists>b'. cbuf_write buf n b = Inr (m, b') \<and> cbuf_inv b' \<and>
    cbuf_elems b' = cbuf_elems b @ take m buf"
proof -
  let ?e = "cb_beg b + cb_size b"
  let ?s1 = "cb_capacity b - ?e"
  define d where "d = (if ?e + m \<le> cb_capacity b then blit (cb_data b) ?e (take m buf)
    else blit (blit (cb_data b) ?e (take ?s1 buf)) 0 (take (m - ?s1) (drop ?s1 buf)))"
  note facts = inv [unfolded cbuf_inv_def] unwrapped [unfolded cbuf_wrapped_def] src
  have m: "m \<le> length buf" "cb_size b + m \<le> cb_capacity b"
    using facts by (auto simp: m_def)
  have "cbuf_write buf n b = Inr (m, b\<lparr>cb_data := d, cb_size := cb_size b + m\<rparr>)"
    using facts m
    by (auto simp: cbuf_write_def memcpy_into_def d_def arith32 Let_def m_def [symmetric])
  moreover have "length d = cb_capacity b"
    using facts m by (auto simp: d_def)
  moreover have "d ! ((cb_beg b + i) mod cb_capacity b) = cb_data b ! ((cb_beg b + i) mod cb_capacity b)"
    if "i < cb_size b" for i
    using that facts m by (auto simp: d_def nth_blit ring_mod)
  moreover have "d ! ((?e + i) mod cb_capacity b) = take m buf ! i" if "i < m" for i
    using that facts m ring_mod [of "cb_beg b" "cb_capacity b" "cb_size b + i"]
    by (auto simp: d_def nth_blit add.assoc split: if_splits)
  ultimately show ?thesis
    using cbuf_extend [OF inv, of d "take m buf"] m by auto
qed

lemma cbuf_write_wrapped:
  assumes inv: "cbuf_inv b" and w: "cbuf_wrapped b"
  shows "cbuf_write buf n b = Inl OutOfBounds"
proof -
  let ?e = "cb_beg b + cb_size b"
  have "cb_capacity b < ?e" "?e < W32" "?e \<le> 2 * cb_capacity b"
    using inv w by (auto simp: cbuf_inv_def cbuf_wrapped_def)
  then have "sub32 (cb_capacity b) ?e = W32 - (?e - cb_capacity b)"
    by (simp add: sub32_wrap)
  moreover have "\<not> ?e + (W32 - (?e - cb_capacity b)) \<le> length (cb_data b)"
    using inv \<open>?e < W32\<close> by (auto simp: cbuf_inv_def)
  ultimately show ?thesis
    using \<open>cb_capacity b < ?e\<close> by (simp add: cbuf_write_def memcpy_into_def Let_def)
qed

section \<open>Properties\<close>

text \<open>
  A pipe is a queue of bytes: as long as the contents do not run over the end of the array, a
  write stores as many bytes as there is room for behind the contents, and a following read
  delivers the oldest bytes first and leaves the others.
\<close>
theorem pipe_write_read:
  assumes "cbuf_inv b" and "\<not> cbuf_wrapped b" and "n \<le> length buf"
  shows "\<exists>b'. cbuf_write buf n b = Inr (min n (cb_capacity b - cb_size b), b') \<and>
    (let bs = cbuf_elems b @ take (min n (cb_capacity b - cb_size b)) buf in
     read_bytes k b' = take k bs \<and> cbuf_inv (snd (cbuf_read k b')) \<and> cbuf_elems (snd (cbuf_read k b')) = drop k bs)"
proof -
  obtain b' where b': "cbuf_write buf n b = Inr (min n (cb_capacity b - cb_size b), b')" "cbuf_inv b'"
    "cbuf_elems b' = cbuf_elems b @ take (min n (cb_capacity b - cb_size b)) buf"
    using cbuf_write_refines [OF assms] by blast
  then show ?thesis
    using read_bytes_eq [OF b'(2)] cbuf_read_refines [OF b'(2)] by (simp add: Let_def)
qed

theorem pipe_write_read_witness:
  "\<exists>b'. cbuf_write [1, 2, 3 :: nat] 3 \<lparr>cb_capacity = 4, cb_beg = 2, cb_size = 0, cb_data = [0, 0, 0, 0]\<rparr> = Inr (3, b') \<and>
     read_bytes 2 b' = [1, 2] \<and> cbuf_elems (snd (cbuf_read 2 b')) = [3]"
proof -
  let ?b = "\<lparr>cb_capacity = 4, cb_beg = 2, cb_size = 0, cb_data = [0, 0, 0, 0 :: nat]\<rparr>"
  have "cbuf_inv ?b" "\<not> cbuf_wrapped ?b" "cbuf_elems ?b = []"
    by (simp_all add: cbuf_inv_def cbuf_wrapped_def cbuf_elems_def)
  then show ?thesis using pipe_write_read [of ?b 3 "[1, 2, 3]" 2] by (auto simp: Let_def)
qed

text \<open>
  Once the contents run over the end of the array, every write computes a negative length for its
  first part and copies far outside the array.
\<close>
theorem pipe_write_wrapped:
  assumes "cbuf_inv b" and "cbuf_wrapped b"
  shows "cbuf_write buf n b = Inl OutOfBounds"
  by (rule cbuf_write_wrapped [OF assms])

theorem pipe_write_wrapped_witness:
  "cbuf_write [5 :: nat] 1 \<lparr>cb_capacity = 4, cb_beg = 3, cb_size = 2, cb_data = [2, 0, 0, 1]\<rparr> = Inl OutOfBounds"
  using pipe_write_wrapped [of "\<lparr>cb_capacity = 4, cb_beg = 3, cb_size = 2, cb_data = [2, 0, 0, 1 :: nat]\<rparr>"]
  by (simp add: cbuf_inv_def cbuf_wrapped_def)

end
