(* ===== verification/MinHeap.thy ===== *)
theory MinHeap
  imports Prelude
begin

text \<open>
  The binary heap of \<^verbatim>\<open>src/kernel/utils/min_heap.h\<close> and \<^verbatim>\<open>min_heap.hxx\<close>, which holds the
  scheduler's sleeping processes. The template compares elements with \<^verbatim>\<open><\<close> and \<^verbatim>\<open>>\<close>; its
  only instance orders \<^verbatim>\<open>asleep_process\<close> by \<^verbatim>\<open>end_tick\<close>, so the comparison is that of a
  \<open>key\<close> and different elements may have equal keys. The elements occupy
  \<open>capacity * sizeof(T)\<close> bytes of a 32-bit address space, so \<open>2 * i + 2\<close> does not wrap
  for an index \<open>i\<close> below \<open>count\<close>; \<open>parent 0\<close> does wrap and is written out.
\<close>

section \<open>Model\<close>

record 'a minheap =
  h_count :: nat
  h_capacity :: nat
  h_elements :: "'a list"

definition ERR_EL :: nat where
  "ERR_EL = 4294967295"

definition parent :: "nat \<Rightarrow> nat" where
  "parent i = sub32 i 1 div 2"

definition heap_left :: "nat \<Rightarrow> nat \<Rightarrow> nat" where
  "heap_left cnt i = (let l = 2 * i + 1 in if l < cnt then l else ERR_EL)"

definition heap_right :: "nat \<Rightarrow> nat \<Rightarrow> nat" where
  "heap_right cnt i = (let r = 2 * i + 2 in if r < cnt then r else ERR_EL)"

definition heap_new :: "nat \<Rightarrow> 'a list \<Rightarrow> 'a minheap" where
  "heap_new capacity mem = \<lparr>h_count = 0, h_capacity = capacity, h_elements = mem\<rparr>"

definition swap :: "'a list \<Rightarrow> nat \<Rightarrow> nat \<Rightarrow> 'a list" where
  "swap xs i j = xs[i := xs ! j, j := xs ! i]"

text \<open>The index that \<open>min_heapify\<close> picks among a node and its children.\<close>

definition heapify_min :: "('a \<Rightarrow> 'k::linorder) \<Rightarrow> nat \<Rightarrow> 'a list \<Rightarrow> nat \<Rightarrow> nat" where
  "heapify_min key cnt xs i =
     (let l = heap_left cnt i;
          r = heap_right cnt i;
          m = (if l \<noteq> ERR_EL \<and> key (xs ! l) < key (xs ! i) then l else i)
      in if r \<noteq> ERR_EL \<and> key (xs ! r) < key (xs ! m) then r else m)"

lemma heapify_min_child:
  assumes "heapify_min key cnt xs i \<noteq> i"
  shows "i < heapify_min key cnt xs i" and "heapify_min key cnt xs i < cnt"
  using assms
  by (auto simp: heapify_min_def heap_left_def heap_right_def Let_def split: if_splits)

function min_heapify :: "('a \<Rightarrow> 'k::linorder) \<Rightarrow> nat \<Rightarrow> nat \<Rightarrow> 'a list \<Rightarrow> 'a list" where
  "min_heapify key cnt i xs =
     (let m = heapify_min key cnt xs i
      in if m \<noteq> i then min_heapify key cnt m (swap xs i m) else xs)"
  by pat_completeness auto
termination
  by (relation "measure (\<lambda>(key, cnt, i, xs). cnt - i)")
    (auto simp: diff_less_mono2 [OF heapify_min_child(1) less_trans [OF heapify_min_child]])

declare min_heapify.simps [simp del]

text \<open>The loop of \<open>insert\<close>; \<open>p\<close> is the parent of \<open>cur\<close> throughout.\<close>

function sift_up :: "('a \<Rightarrow> 'k::linorder) \<Rightarrow> nat \<Rightarrow> 'a list \<Rightarrow> 'a list" where
  "sift_up key cur xs =
     (if cur \<noteq> 0 \<and> key (xs ! parent cur) > key (xs ! cur)
      then sift_up key (parent cur) (swap xs cur (parent cur)) else xs)"
  by pat_completeness auto
termination
proof (relation "measure (\<lambda>(key, cur, xs). cur)")
  fix key :: "'a \<Rightarrow> 'k::linorder" and cur xs
  assume a: "cur \<noteq> 0 \<and> key (xs ! parent cur) > key (xs ! cur)"
  have "parent cur < cur"
  proof (cases "cur < W32")
    case True
    then show ?thesis using a by (auto simp: parent_def sub32_eq)
  next
    case False
    moreover have "sub32 cur 1 div 2 \<le> sub32 cur 1" by simp
    ultimately show ?thesis using sub32_less [of cur 1] unfolding parent_def by linarith
  qed
  then show "((key, parent cur, swap xs cur (parent cur)), key, cur, xs) \<in> measure (\<lambda>(key, cur, xs). cur)"
    by simp
qed simp

declare sift_up.simps [simp del]

definition heap_insert :: "('a \<Rightarrow> 'k::linorder) \<Rightarrow> 'a \<Rightarrow> 'a minheap \<Rightarrow> 'a minheap res" where
  "heap_insert key x h =
     (if h_count h = h_capacity h then Inl (Irrecoverable ''Heap cannot accept more elements'')
      else let xs = (h_elements h)[h_count h := x];
               cnt = h_count h + 1
           in Inr (h\<lparr>h_elements := sift_up key (cnt - 1) xs, h_count := cnt\<rparr>))"

definition heap_min :: "'a minheap \<Rightarrow> 'a res" where
  "heap_min h =
     (if h_count h = 0 then Inl (Irrecoverable ''empty heap'') else Inr (h_elements h ! 0))"

definition delete_min :: "('a \<Rightarrow> 'k::linorder) \<Rightarrow> 'a minheap \<Rightarrow> ('a \<times> 'a minheap) res" where
  "delete_min key h =
     (if h_count h = 0 then Inl (Irrecoverable ''empty heap'')
      else let m = h_elements h ! 0;
               cnt = h_count h - 1;
               xs = (h_elements h)[0 := h_elements h ! cnt]
           in Inr (m, h\<lparr>h_count := cnt, h_elements := min_heapify key cnt 0 xs\<rparr>))"

definition heap_empty :: "'a minheap \<Rightarrow> bool" where
  "heap_empty h \<longleftrightarrow> h_count h = 0"

fun heap_contains_loop :: "'a \<Rightarrow> 'a list \<Rightarrow> nat \<Rightarrow> nat \<Rightarrow> bool" where
  "heap_contains_loop elem xs i 0 = False"
| "heap_contains_loop elem xs i (Suc left) =
     (if xs ! i = elem then True else heap_contains_loop elem xs (i + 1) left)"

definition heap_contains :: "'a \<Rightarrow> 'a minheap \<Rightarrow> bool" where
  "heap_contains elem h = heap_contains_loop elem (h_elements h) 0 (h_count h)"

section \<open>Heap order\<close>

definition pidx :: "nat \<Rightarrow> nat" where
  "pidx c = (c - 1) div 2"

text \<open>Every index but those in \<open>S\<close> is no smaller than its parent.\<close>

definition heap_but :: "('a \<Rightarrow> 'k::linorder) \<Rightarrow> nat set \<Rightarrow> nat \<Rightarrow> 'a list \<Rightarrow> bool" where
  "heap_but key S n xs \<longleftrightarrow> (\<forall>c. 0 < c \<and> c < n \<and> c \<notin> S \<longrightarrow> key (xs ! pidx c) \<le> key (xs ! c))"

text \<open>The children of \<open>i\<close> are no smaller than the parent of \<open>i\<close>.\<close>

definition grand_ok :: "('a \<Rightarrow> 'k::linorder) \<Rightarrow> nat \<Rightarrow> nat \<Rightarrow> 'a list \<Rightarrow> bool" where
  "grand_ok key i n xs \<longleftrightarrow>
     (0 < i \<longrightarrow> (\<forall>c. 0 < c \<and> c < n \<and> pidx c = i \<longrightarrow> key (xs ! pidx i) \<le> key (xs ! c)))"

definition heap_inv :: "('a \<Rightarrow> 'k::linorder) \<Rightarrow> 'a minheap \<Rightarrow> bool" where
  "heap_inv key h \<longleftrightarrow> length (h_elements h) = h_capacity h \<and> h_count h \<le> h_capacity h \<and>
     h_capacity h < ERR_EL \<and> heap_but key {} (h_count h) (h_elements h)"

definition heap_mset :: "'a minheap \<Rightarrow> 'a multiset" where
  "heap_mset h = mset (take (h_count h) (h_elements h))"

lemma parent_eq: "0 < i \<Longrightarrow> i < W32 \<Longrightarrow> parent i = pidx i"
  by (simp add: parent_def sub32_eq pidx_def)

lemma length_swap [simp]: "length (swap xs i j) = length xs"
  by (simp add: swap_def)

lemma nth_swap:
  "i < length xs \<Longrightarrow> j < length xs \<Longrightarrow>
   swap xs i j ! k = (if k = j then xs ! i else if k = i then xs ! j else xs ! k)"
  by (simp add: swap_def nth_list_update)

lemma mset_take_swap:
  assumes "i < n" and "j < n" and "n \<le> length xs"
  shows "mset (take n (swap xs i j)) = mset (take n xs)"
proof -
  have "take n (swap xs i j) = (take n xs)[i := take n xs ! j, j := take n xs ! i]"
    using assms by (simp add: swap_def take_update_swap)
  then show ?thesis using assms mset_swap [of j "take n xs" i] by simp
qed

lemma pidx_less: "0 < c \<Longrightarrow> pidx c < c"
  by (auto simp: pidx_def)

lemma pidx_children: "0 < c \<Longrightarrow> pidx c = i \<longleftrightarrow> c = 2 * i + 1 \<or> c = 2 * i + 2"
  by (auto simp: pidx_def)

lemma heapify_min_cases:
  assumes "n < ERR_EL" and m: "m = heapify_min key n xs i"
  shows "m = i \<or> (m < n \<and> 0 < m \<and> pidx m = i)"
    and "c < n \<Longrightarrow> 0 < c \<Longrightarrow> pidx c = i \<Longrightarrow> key (xs ! m) \<le> key (xs ! c)"
    and "key (xs ! m) \<le> key (xs ! i)"
proof -
  have l: "heap_left n i = (if 2 * i + 1 < n then 2 * i + 1 else ERR_EL)"
    and r: "heap_right n i = (if 2 * i + 2 < n then 2 * i + 2 else ERR_EL)"
    by (simp_all add: heap_left_def heap_right_def Let_def)
  have ne: "2 * i + 1 < n \<Longrightarrow> 2 * i + 1 \<noteq> ERR_EL" "2 * i + 2 < n \<Longrightarrow> 2 * i + 2 \<noteq> ERR_EL"
    using assms(1) by auto
  show "m = i \<or> (m < n \<and> 0 < m \<and> pidx m = i)"
    using ne by (auto simp: m heapify_min_def l r Let_def pidx_children)
  show "key (xs ! m) \<le> key (xs ! i)"
    using ne by (auto simp: m heapify_min_def l r Let_def)
  show "key (xs ! m) \<le> key (xs ! c)" if "c < n" "0 < c" "pidx c = i"
  proof -
    have "c = 2 * i + 1 \<or> c = 2 * i + 2"
      using that pidx_children by blast
    then show ?thesis
      using ne that(1) by (auto simp: m heapify_min_def l r Let_def)
  qed
qed

lemma heap_but_D: "heap_but key S n xs \<Longrightarrow> 0 < c \<Longrightarrow> c < n \<Longrightarrow> c \<notin> S \<Longrightarrow> key (xs ! pidx c) \<le> key (xs ! c)"
  by (simp add: heap_but_def)

subsection \<open>Sifting down\<close>

text \<open>The hypothesis of \<open>min_heapify\<close>: order may fail only between \<open>i\<close> and its children.\<close>

definition down_ok :: "('a \<Rightarrow> 'k::linorder) \<Rightarrow> nat \<Rightarrow> nat \<Rightarrow> 'a list \<Rightarrow> bool" where
  "down_ok key i n xs \<longleftrightarrow> heap_but key {c. pidx c = i} n xs \<and> grand_ok key i n xs"

lemma down_ok_swap:
  assumes dn: "down_ok key i n xs" and n: "n \<le> length xs" "n < ERR_EL" and i: "i < n"
    and m: "m = heapify_min key n xs i" "m \<noteq> i"
  shows "down_ok key m n (swap xs i m)"
proof -
  have mc: "m < n" "0 < m" "pidx m = i"
    using heapify_min_cases(1) [OF n(2) m(1)] m(2) by auto
  have least: "key (xs ! m) \<le> key (xs ! c)" if "0 < c" "c < n" "pidx c = i" for c
    using heapify_min_cases(2) [OF n(2) m(1)] that by simp
  have lt: "key (xs ! m) \<le> key (xs ! i)"
    using heapify_min_cases(3) [OF n(2) m(1)] by simp
  have sw: "swap xs i m ! k = (if k = m then xs ! i else if k = i then xs ! m else xs ! k)" for k
    using mc i n by (simp add: nth_swap)
  have but: "heap_but key {c. pidx c = i} n xs" and gr: "grand_ok key i n xs"
    using dn by (auto simp: down_ok_def)
  have "key (swap xs i m ! pidx c) \<le> key (swap xs i m ! c)" if c: "0 < c" "c < n" "pidx c \<noteq> m" for c
  proof (cases "pidx c = i")
    case True
    then show ?thesis
      using c least [OF c(1,2) True] lt mc pidx_less [OF c(1)] by (auto simp: sw)
  next
    case False
    have "c \<noteq> m" using False mc by auto
    show ?thesis
    proof (cases "c = i")
      case True
      then show ?thesis
        using gr mc c False \<open>c \<noteq> m\<close> by (auto simp: sw grand_ok_def)
    next
      case ci: False
      then show ?thesis
        using c False \<open>c \<noteq> m\<close> heap_but_D [OF but c(1,2)] by (simp add: sw)
    qed
  qed
  moreover have "key (swap xs i m ! pidx m) \<le> key (swap xs i m ! c)"
    if c: "0 < c" "c < n" "pidx c = m" for c
  proof -
    have "c \<noteq> m" "c \<noteq> i" "pidx c \<noteq> i"
      using c mc pidx_less [OF c(1)] pidx_less [OF mc(2)] m(2) by auto
    then show ?thesis
      using c mc m(2) heap_but_D [OF but c(1,2)] by (simp add: sw)
  qed
  ultimately show ?thesis
    by (simp add: down_ok_def heap_but_def grand_ok_def)
qed

lemma min_heapify_length [simp]: "length (min_heapify key n i xs) = length xs"
proof (induction key n i xs rule: min_heapify.induct)
  case (1 key n i xs)
  then show ?case by (simp add: min_heapify.simps [of key n i xs] Let_def)
qed

lemma min_heapify_heap:
  "down_ok key i n xs \<Longrightarrow> n \<le> length xs \<Longrightarrow> n < ERR_EL \<Longrightarrow> i < n \<Longrightarrow>
   heap_but key {} n (min_heapify key n i xs)"
proof (induction key n i xs rule: min_heapify.induct)
  case (1 key n i xs)
  let ?m = "heapify_min key n xs i"
  show ?case
  proof (cases "?m = i")
    case True
    then have "key (xs ! i) \<le> key (xs ! c)" if "0 < c" "c < n" "pidx c = i" for c
      using heapify_min_cases(2) [OF "1.prems"(3) refl, of c i key xs] that by simp
    with "1.prems"(1) True show ?thesis
      by (auto simp: min_heapify.simps [of key n i xs] down_ok_def heap_but_def)
  next
    case False
    then have "?m < n" by (rule heapify_min_child)
    with "1" False down_ok_swap [OF "1.prems", of ?m] show ?thesis
      by (simp add: min_heapify.simps [of key n i xs] Let_def)
  qed
qed

lemma min_heapify_mset:
  "n \<le> length xs \<Longrightarrow> i < n \<Longrightarrow> mset (take n (min_heapify key n i xs)) = mset (take n xs)"
proof (induction key n i xs rule: min_heapify.induct)
  case (1 key n i xs)
  show ?case
  proof (cases "heapify_min key n xs i = i")
    case True
    then show ?thesis by (simp add: min_heapify.simps [of key n i xs])
  next
    case False
    with "1" heapify_min_child [OF False] show ?thesis
      by (simp add: min_heapify.simps [of key n i xs] mset_take_swap Let_def)
  qed
qed

subsection \<open>Sifting up\<close>

lemma sift_up_length [simp]: "length (sift_up key i xs) = length xs"
proof (induction key i xs rule: sift_up.induct)
  case (1 key i xs)
  then show ?case by (simp add: sift_up.simps [of key i xs])
qed

lemma up_ok_swap:
  assumes but: "heap_but key {i} n xs" and gr: "grand_ok key i n xs"
    and i: "0 < i" "i < n" and n: "n \<le> length xs" and gt: "key (xs ! pidx i) > key (xs ! i)"
  shows "heap_but key {pidx i} n (swap xs i (pidx i)) \<and> grand_ok key (pidx i) n (swap xs i (pidx i))"
proof -
  let ?p = "pidx i"
  have pi: "?p < i" using pidx_less i by simp
  have sw: "swap xs i ?p ! k = (if k = ?p then xs ! i else if k = i then xs ! ?p else xs ! k)" for k
    using i n pi by (simp add: nth_swap)
  have ok: "key (xs ! pidx c) \<le> key (xs ! c)" if "0 < c" "c < n" "c \<noteq> i" for c
    using heap_but_D [OF but] that by simp
  have "key (swap xs i ?p ! pidx c) \<le> key (swap xs i ?p ! c)" if c: "0 < c" "c < n" "c \<noteq> ?p" for c
  proof (cases "c = i")
    case True
    then show ?thesis using gt pi sw by simp
  next
    case False
    then show ?thesis
      using ok [OF c(1,2) False] c gt gr i by (auto simp: sw grand_ok_def)
  qed
  moreover have "key (swap xs i ?p ! pidx ?p) \<le> key (swap xs i ?p ! c)"
    if "0 < ?p" and c: "0 < c" "c < n" "pidx c = ?p" for c
  proof -
    have p: "key (xs ! pidx ?p) \<le> key (xs ! ?p)" and "pidx ?p < ?p" "?p < c"
      using ok [of ?p] that pi i(2) pidx_less [OF that(1)] pidx_less [OF c(1)] by auto
    then show ?thesis
      using c pi ok [OF c(1,2)] by (cases "c = i") (auto simp: sw)
  qed
  ultimately show ?thesis by (auto simp: heap_but_def grand_ok_def)
qed

lemma sift_up_heap:
  "heap_but key {i} n xs \<Longrightarrow> grand_ok key i n xs \<Longrightarrow> i < n \<Longrightarrow> n \<le> length xs \<Longrightarrow> n < ERR_EL \<Longrightarrow>
   heap_but key {} n (sift_up key i xs)"
proof (induction key i xs rule: sift_up.induct)
  case (1 key i xs)
  show ?case
  proof (cases "i \<noteq> 0 \<and> key (xs ! parent i) > key (xs ! i)")
    case True
    then have p: "parent i = pidx i" "0 < i"
      using "1.prems" by (simp_all add: parent_eq ERR_EL_def)
    show ?thesis
      using "1.IH" [OF True] up_ok_swap [OF "1.prems"(1,2) p(2) "1.prems"(3,4)] True "1.prems" p
        less_trans [OF pidx_less [OF p(2)] "1.prems"(3)]
      by (simp add: sift_up.simps [of key i xs])
  next
    case False
    then have "0 < i \<Longrightarrow> key (xs ! pidx i) \<le> key (xs ! i)"
      using "1.prems" by (auto simp: parent_eq ERR_EL_def)
    moreover have "sift_up key i xs = xs"
      using False by (subst sift_up.simps) (simp only: if_False)
    ultimately show ?thesis
      using "1.prems"(1) by (auto simp: heap_but_def)
  qed
qed

lemma sift_up_mset:
  "i < n \<Longrightarrow> n \<le> length xs \<Longrightarrow> n < ERR_EL \<Longrightarrow> mset (take n (sift_up key i xs)) = mset (take n xs)"
proof (induction key i xs rule: sift_up.induct)
  case (1 key i xs)
  show ?case
  proof (cases "i \<noteq> 0 \<and> key (xs ! parent i) > key (xs ! i)")
    case True
    then have "parent i < n"
      using "1.prems" pidx_less [of i] by (auto simp: parent_eq ERR_EL_def)
    with "1" True show ?thesis
      by (simp add: sift_up.simps [of key i xs] mset_take_swap)
  next
    case False
    then show ?thesis by (subst sift_up.simps) (simp only: if_False)
  qed
qed

section \<open>Contract\<close>

lemma heap_root_least:
  "heap_but key {} n xs \<Longrightarrow> i < n \<Longrightarrow> key (xs ! 0) \<le> key (xs ! i)"
proof (induction i rule: less_induct)
  case (less i)
  show ?case
  proof (cases "i = 0")
    case False
    then have "key (xs ! pidx i) \<le> key (xs ! i)"
      using less.prems by (simp add: heap_but_def)
    moreover have "key (xs ! 0) \<le> key (xs ! pidx i)"
      using less False pidx_less [of i] by simp
    ultimately show ?thesis by simp
  qed simp
qed

lemma heap_but_cong:
  assumes eq: "\<And>i. i < n \<Longrightarrow> xs ! i = ys ! i" and xs: "heap_but key S n xs"
  shows "heap_but key S n ys"
  unfolding heap_but_def
proof (intro allI impI)
  fix c assume c: "0 < c \<and> c < n \<and> c \<notin> S"
  then have "pidx c < n" using pidx_less [of c] by simp
  with c show "key (ys ! pidx c) \<le> key (ys ! c)"
    using heap_but_D [OF xs, of c] eq by simp
qed

lemma heap_insert_refines:
  assumes inv: "heap_inv key h" and room: "h_count h < h_capacity h"
  shows "\<exists>h'. heap_insert key x h = Inr h' \<and> heap_inv key h' \<and>
    heap_mset h' = add_mset x (heap_mset h) \<and> h_count h' = h_count h + 1 \<and> h_capacity h' = h_capacity h"
proof -
  let ?n = "h_count h" and ?xs = "(h_elements h)[h_count h := x]"
  have len: "Suc ?n \<le> length ?xs" "Suc ?n < ERR_EL"
    using inv room by (simp_all add: heap_inv_def)
  have "heap_but key {} ?n ?xs"
    using inv by (auto simp: heap_inv_def elim!: heap_but_cong [rotated])
  then have but: "heap_but key {?n} (Suc ?n) ?xs"
    by (auto simp: heap_but_def less_Suc_eq)
  have "pidx c \<noteq> ?n" if "0 < c" "c < Suc ?n" for c
    using pidx_less [OF that(1)] that(2) by simp
  then have gr: "grand_ok key ?n (Suc ?n) ?xs"
    by (auto simp: grand_ok_def)
  have "heap_but key {} (Suc ?n) (sift_up key ?n ?xs)"
    by (rule sift_up_heap [OF but gr _ len]) simp
  moreover have "mset (take (Suc ?n) (sift_up key ?n ?xs)) = add_mset x (heap_mset h)"
    using sift_up_mset [OF _ len, of ?n key] len
    by (simp add: heap_mset_def take_Suc_conv_app_nth)
  ultimately show ?thesis
    using inv room by (simp add: heap_insert_def heap_inv_def heap_mset_def Let_def)
qed

lemma heap_min_refines:
  assumes "heap_inv key h" and "0 < h_count h"
  shows "\<exists>m. heap_min h = Inr m \<and> m \<in># heap_mset h \<and> (\<forall>y \<in># heap_mset h. key m \<le> key y)"
proof -
  let ?n = "h_count h" and ?xs = "h_elements h"
  have "heap_but key {} ?n ?xs" "?n \<le> length ?xs"
    using assms(1) by (simp_all add: heap_inv_def)
  then have "\<forall>y \<in> set (take ?n ?xs). key (?xs ! 0) \<le> key y"
    by (auto simp: in_set_conv_nth heap_root_least [of key ?n])
  moreover have "?xs ! 0 \<in> set (take ?n ?xs)"
    using assms(2) \<open>?n \<le> length ?xs\<close> by (auto simp: in_set_conv_nth intro!: exI [of _ 0])
  ultimately show ?thesis
    using assms(2) by (simp add: heap_min_def heap_mset_def)
qed

lemma mset_take_replace_head:
  assumes "0 < n" and "n \<le> length xs"
  shows "mset (take (n - 1) (xs[0 := xs ! (n - 1)])) = mset (take n xs) - {#xs ! 0#}"
proof -
  obtain y ys where xs: "xs = y # ys" using assms by (cases xs) auto
  show ?thesis
  proof (cases "n - 1")
    case 0
    then have "n = 1" using assms(1) by simp
    then show ?thesis using xs by simp
  next
    case (Suc k)
    then have "n = Suc (Suc k)" by simp
    then show ?thesis
      using xs assms(2) by (simp add: take_Suc_conv_app_nth)
  qed
qed

lemma delete_min_refines:
  assumes inv: "heap_inv key h" and ne: "0 < h_count h"
  shows "\<exists>m h'. delete_min key h = Inr (m, h') \<and> heap_min h = Inr m \<and> heap_inv key h' \<and>
    heap_mset h' = heap_mset h - {#m#} \<and> h_count h' = h_count h - 1 \<and> h_capacity h' = h_capacity h"
proof -
  let ?n = "h_count h - 1"
  let ?xs = "(h_elements h)[0 := h_elements h ! ?n]"
  have len: "?n \<le> length ?xs" "?n < ERR_EL" "h_count h \<le> length (h_elements h)"
    using inv ne by (auto simp: heap_inv_def)
  have heap: "heap_but key {} ?n (min_heapify key ?n 0 ?xs)"
  proof (cases "?n = 0")
    case False
    have "heap_but key {c. pidx c = 0} ?n ?xs"
      using inv by (auto simp: heap_inv_def heap_but_def nth_list_update)
    then have "down_ok key 0 ?n ?xs"
      by (simp add: down_ok_def grand_ok_def)
    then show ?thesis
      by (rule min_heapify_heap [OF _ len(1,2)]) (use False in simp)
  qed (simp add: heap_but_def)
  have "mset (take ?n (min_heapify key ?n 0 ?xs)) = mset (take ?n ?xs)"
    using min_heapify_mset [OF len(1), of 0 key] by (cases "?n = 0") auto
  then have "mset (take ?n (min_heapify key ?n 0 ?xs)) = heap_mset h - {#h_elements h ! 0#}"
    using mset_take_replace_head [OF ne len(3)] by (simp add: heap_mset_def)
  with heap show ?thesis
    using inv ne len by (simp add: delete_min_def heap_min_def heap_inv_def heap_mset_def Let_def)
qed

lemma size_heap_mset: "heap_inv key h \<Longrightarrow> size (heap_mset h) = h_count h"
  by (simp add: heap_inv_def heap_mset_def)

text \<open>What a client of a priority queue relies on; keys may coincide.\<close>

locale priority_queue =
  fixes key :: "'a \<Rightarrow> 'k::linorder"
    and invar :: "'q \<Rightarrow> bool"
    and contents :: "'q \<Rightarrow> 'a multiset"
    and room :: "'q \<Rightarrow> bool"
    and ins :: "'a \<Rightarrow> 'q \<Rightarrow> 'q res"
    and least :: "'q \<Rightarrow> 'a res"
    and del :: "'q \<Rightarrow> ('a \<times> 'q) res"
    and is_empty :: "'q \<Rightarrow> bool"
  assumes ins_room: "invar q \<Longrightarrow> room q \<Longrightarrow>
      \<exists>q'. ins x q = Inr q' \<and> invar q' \<and> contents q' = add_mset x (contents q)"
    and least_ok: "invar q \<Longrightarrow> \<not> is_empty q \<Longrightarrow>
      \<exists>m. least q = Inr m \<and> m \<in># contents q \<and> (\<forall>y \<in># contents q. key m \<le> key y)"
    and del_ok: "invar q \<Longrightarrow> \<not> is_empty q \<Longrightarrow>
      \<exists>m q'. del q = Inr (m, q') \<and> least q = Inr m \<and> invar q' \<and> contents q' = contents q - {#m#}"
    and is_empty_iff: "invar q \<Longrightarrow> is_empty q \<longleftrightarrow> contents q = {#}"

text \<open>
  The loop that a client such as \<^verbatim>\<open>Scheduler::check_for_processes_to_wake_up\<close> runs over any such queue: take the
  least element while its key has been reached. The result lists the elements taken, in
  order; \<open>fuel\<close> bounds the number of rounds.
\<close>

fun pop_due :: "('q \<Rightarrow> bool) \<Rightarrow> ('q \<Rightarrow> 'a res) \<Rightarrow> ('q \<Rightarrow> ('a \<times> 'q) res) \<Rightarrow> ('a \<Rightarrow> 'k::linorder) \<Rightarrow>
    nat \<Rightarrow> 'k \<Rightarrow> 'q \<Rightarrow> ('a list \<times> 'q) res" where
  "pop_due emp mn del key 0 tick q = Inr ([], q)"
| "pop_due emp mn del key (Suc fuel) tick q =
     (if emp q then Inr ([], q)
      else bind_res (mn q) (\<lambda>m.
        if key m \<le> tick
        then bind_res (del q) (\<lambda>(_, q').
               bind_res (pop_due emp mn del key fuel tick q') (\<lambda>(ms, q''). Inr (m # ms, q'')))
        else Inr ([], q)))"

context priority_queue
begin

lemma pop_due_correct:
  "invar q \<Longrightarrow> size (contents q) \<le> fuel \<Longrightarrow>
   \<exists>ms q'. pop_due is_empty least del key fuel tick q = Inr (ms, q') \<and> invar q' \<and>
     sorted (map key ms) \<and> mset ms = filter_mset (\<lambda>x. key x \<le> tick) (contents q) \<and>
     contents q' = filter_mset (\<lambda>x. \<not> key x \<le> tick) (contents q)"
proof (induction fuel arbitrary: q)
  case 0
  then show ?case by simp
next
  case (Suc fuel)
  show ?case
  proof (cases "is_empty q")
    case True
    then show ?thesis using Suc.prems by (simp add: is_empty_iff)
  next
    case False
    obtain m q1 where m: "del q = Inr (m, q1)" "least q = Inr m" "invar q1"
        "contents q1 = contents q - {#m#}"
      using del_ok [OF Suc.prems(1) False] by blast
    have least_m: "m \<in># contents q" "\<forall>y \<in># contents q. key m \<le> key y"
      using least_ok [OF Suc.prems(1) False] m by auto
    show ?thesis
    proof (cases "key m \<le> tick")
      case True
      have "size (contents q1) \<le> fuel"
        using Suc.prems(2) m(4) least_m(1) by (simp add: size_Diff_singleton)
      then obtain ms q' where IH: "pop_due is_empty least del key fuel tick q1 = Inr (ms, q')"
          "invar q'" "sorted (map key ms)"
          "mset ms = filter_mset (\<lambda>x. key x \<le> tick) (contents q1)"
          "contents q' = filter_mset (\<lambda>x. \<not> key x \<le> tick) (contents q1)"
        using Suc.IH [OF m(3)] by blast
      obtain M where M: "contents q = add_mset m M" "contents q1 = M"
        using least_m(1) m(4) by (metis insert_DiffM)
      have "set_mset (mset ms) \<subseteq> set_mset (contents q)"
        using IH(4) M by auto
      then have "\<forall>y \<in> set ms. key m \<le> key y"
        using least_m(2) by auto
      with IH True m False M show ?thesis
        by simp
    next
      case False': False
      then have "\<forall>y \<in># contents q. \<not> key y \<le> tick"
        using least_m(2) by fastforce
      then have "filter_mset (\<lambda>x. key x \<le> tick) (contents q) = {#}"
          "filter_mset (\<lambda>x. \<not> key x \<le> tick) (contents q) = contents q"
        by (auto simp: multiset_eq_iff count_eq_zero_iff)
      with False False' m Suc.prems show ?thesis by simp
    qed
  qed
qed

end

interpretation binheap: priority_queue key "heap_inv key" heap_mset
  "\<lambda>h. h_count h < h_capacity h" "heap_insert key" heap_min "delete_min key" heap_empty
  for key :: "'a \<Rightarrow> 'k::linorder"
proof unfold_locales
  fix h :: "'a minheap" and x
  assume inv: "heap_inv key h"
  show "h_count h < h_capacity h \<Longrightarrow>
    \<exists>h'. heap_insert key x h = Inr h' \<and> heap_inv key h' \<and> heap_mset h' = add_mset x (heap_mset h)"
    using heap_insert_refines [OF inv] by blast
  show "heap_empty h \<longleftrightarrow> heap_mset h = {#}"
    using size_heap_mset [OF inv] by (auto simp: heap_empty_def)
  assume "\<not> heap_empty h"
  then have ne: "0 < h_count h" by (simp add: heap_empty_def)
  show "\<exists>m. heap_min h = Inr m \<and> m \<in># heap_mset h \<and> (\<forall>y \<in># heap_mset h. key m \<le> key y)"
    by (rule heap_min_refines [OF inv ne])
  show "\<exists>m h'. delete_min key h = Inr (m, h') \<and> heap_min h = Inr m \<and> heap_inv key h' \<and>
      heap_mset h' = heap_mset h - {#m#}"
    using delete_min_refines [OF inv ne] by blast
qed

lemma heap_contains_loop_eq:
  "i + k \<le> length xs \<Longrightarrow> heap_contains_loop e xs i k \<longleftrightarrow> e \<in> set (take k (drop i xs))"
proof (induction e xs i k rule: heap_contains_loop.induct)
  case (2 e xs i k)
  then have "drop i xs = xs ! i # drop (Suc i) xs"
    by (simp add: Cons_nth_drop_Suc)
  with 2 show ?case by auto
qed simp

lemma heap_contains_eq: "heap_inv key h \<Longrightarrow> heap_contains e h \<longleftrightarrow> e \<in># heap_mset h"
  by (simp add: heap_contains_def heap_contains_loop_eq heap_inv_def heap_mset_def)

section \<open>Properties\<close>

lemma pop_due_heap:
  assumes "heap_inv key h"
  shows "\<exists>ms h'. pop_due heap_empty heap_min (delete_min key) key (h_count h) tick h = Inr (ms, h') \<and> heap_inv key h' \<and>
    sorted (map key ms) \<and> mset ms = filter_mset (\<lambda>x. key x \<le> tick) (heap_mset h) \<and>
    heap_mset h' = filter_mset (\<lambda>x. \<not> key x \<le> tick) (heap_mset h)"
  using assms size_heap_mset [OF assms] by (intro binheap.pop_due_correct) simp_all

text \<open>
  \<open>insert\<close> on a heap with room and \<open>delete_min\<close> on a heap that is not empty succeed, keep the heap
  order, and add one element to, or take a least element from, the contents.
\<close>
theorem heap_operations:
  assumes "heap_inv key h"
  shows "(h_count h < h_capacity h \<longrightarrow>
      (\<exists>h'. heap_insert key x h = Inr h' \<and> heap_inv key h' \<and> heap_mset h' = add_mset x (heap_mset h))) \<and>
    (\<not> heap_empty h \<longrightarrow>
      (\<exists>m h'. delete_min key h = Inr (m, h') \<and> heap_inv key h' \<and> m \<in># heap_mset h \<and>
        (\<forall>y \<in># heap_mset h. key m \<le> key y) \<and> heap_mset h' = heap_mset h - {#m#}))"
proof (intro conjI impI)
  show "\<exists>h'. heap_insert key x h = Inr h' \<and> heap_inv key h' \<and> heap_mset h' = add_mset x (heap_mset h)"
    if "h_count h < h_capacity h" using binheap.ins_room [OF assms] that by simp
  show "\<exists>m h'. delete_min key h = Inr (m, h') \<and> heap_inv key h' \<and> m \<in># heap_mset h \<and>
      (\<forall>y \<in># heap_mset h. key m \<le> key y) \<and> heap_mset h' = heap_mset h - {#m#}" if "\<not> heap_empty h"
    using binheap.least_ok [OF assms that] binheap.del_ok [OF assms that] by (metis sum.inject(2))
qed

theorem heap_operations_witness:
  "\<exists>h'. heap_insert id 4 \<lparr>h_count = 1, h_capacity = 2, h_elements = [7, 0 :: nat]\<rparr> = Inr h' \<and> heap_mset h' = {#4, 7#}"
proof -
  let ?h = "\<lparr>h_count = 1, h_capacity = 2, h_elements = [7, 0 :: nat]\<rparr>"
  have "heap_inv id ?h" "heap_mset ?h = {#7#}" by (simp_all add: heap_inv_def heap_but_def ERR_EL_def heap_mset_def)
  then show ?thesis using heap_operations [of id ?h 4] by auto
qed

end
