(* ===== verification/SearchTree.thy ===== *)
theory SearchTree
  imports Prelude
begin

text \<open>
  The binary search tree template of \<^verbatim>\<open>src/kernel/utils/BST.h\<close> and \<^verbatim>\<open>BST.hxx\<close>, the base
  class of the memory tree. The tree owns its nodes, so a node pointer is the subtree that
  hangs from it and the null pointer is \<open>Null\<close>. Where the code keeps the address of
  the link that points to a node (\<^verbatim>\<open>Node**\<close>), the model keeps the path from the root to
  that link. The loops that descend from the root are recursive functions.
\<close>

section \<open>Model\<close>

datatype 'a bst = Null | BNode (bdata: 'a) (bleft: "'a bst") (bright: "'a bst")

type_synonym 'a compare_func = "'a \<Rightarrow> 'a \<Rightarrow> int"

datatype dir = L | R

fun add_node :: "'a compare_func \<Rightarrow> 'a \<Rightarrow> 'a bst \<Rightarrow> 'a bst" where
  "add_node cmp x Null = BNode x Null Null"
| "add_node cmp x (BNode d l r) =
     (if cmp d x \<ge> 0 then BNode d (add_node cmp x l) r else BNode d l (add_node cmp x r))"

definition bst_add :: "'a compare_func \<Rightarrow> 'a \<Rightarrow> 'a bst \<Rightarrow> 'a bst" where
  "bst_add cmp elem root = add_node cmp elem root"

text \<open>
  The loop of \<open>extract_replacement\<close> on the right child \<open>BNode d l r\<close> of the node: it
  follows the left links to the last node, unlinks that node and returns its data.
\<close>

fun extract_leftmost :: "'a \<Rightarrow> 'a bst \<Rightarrow> 'a bst \<Rightarrow> 'a \<times> 'a bst" where
  "extract_leftmost d Null r = (d, r)"
| "extract_leftmost d (BNode d' l' r') r =
     (let (m, t) = extract_leftmost d' l' r' in (m, BNode d t r))"

text \<open>A node with a right child, its data replaced by the extracted successor.\<close>

fun extract_replacement :: "'a bst \<Rightarrow> 'a bst" where
  "extract_replacement (BNode d l (BNode d' l' r')) =
     (let (m, t) = extract_leftmost d' l' r' in BNode m l t)"
| "extract_replacement t = t"

text \<open>What replaces a matching node below the root.\<close>

fun remove_match :: "'a bst \<Rightarrow> 'a bst" where
  "remove_match Null = Null"
| "remove_match (BNode d l r) =
     (if l \<noteq> Null then (if r \<noteq> Null then extract_replacement (BNode d l r) else l)
      else if r \<noteq> Null then r else Null)"

fun remove_loop :: "'a compare_func \<Rightarrow> 'a \<Rightarrow> 'a bst \<Rightarrow> bool \<times> 'a bst" where
  "remove_loop cmp elem Null = (False, Null)"
| "remove_loop cmp elem (BNode d l r) =
     (if cmp d elem = 0 then (True, remove_match (BNode d l r))
      else if cmp d elem > 0 then let (b, l') = remove_loop cmp elem l in (b, BNode d l' r)
      else let (b, r') = remove_loop cmp elem r in (b, BNode d l r'))"

fun bst_remove :: "'a compare_func \<Rightarrow> 'a \<Rightarrow> 'a bst \<Rightarrow> bool \<times> 'a bst" where
  "bst_remove cmp elem Null = (False, Null)"
| "bst_remove cmp elem (BNode d l r) =
     (if cmp d elem = 0
      then (True, if r \<noteq> Null then extract_replacement (BNode d l r) else if l \<noteq> Null then l else Null)
      else if cmp d elem > 0 then let (b, l') = remove_loop cmp elem l in (b, BNode d l' r)
      else let (b, r') = remove_loop cmp elem r in (b, BNode d l r'))"

text \<open>\<open>find_node\<close> returns the node and the link to it: here the path of that link.\<close>

fun find_node :: "'a compare_func \<Rightarrow> 'a \<Rightarrow> 'a bst \<Rightarrow> dir list option" where
  "find_node cmp elem Null = None"
| "find_node cmp elem (BNode d l r) =
     (if cmp d elem = 0 then Some []
      else if cmp d elem > 0 then map_option (Cons L) (find_node cmp elem l)
      else map_option (Cons R) (find_node cmp elem r))"

fun subtree_at :: "dir list \<Rightarrow> 'a bst \<Rightarrow> 'a bst" where
  "subtree_at [] t = t"
| "subtree_at (x # p) Null = Null"
| "subtree_at (L # p) (BNode d l r) = subtree_at p l"
| "subtree_at (R # p) (BNode d l r) = subtree_at p r"

fun update_at :: "dir list \<Rightarrow> ('a bst \<Rightarrow> 'a bst) \<Rightarrow> 'a bst \<Rightarrow> 'a bst" where
  "update_at [] f t = f t"
| "update_at (x # p) f Null = Null"
| "update_at (L # p) f (BNode d l r) = BNode d (update_at p f l) r"
| "update_at (R # p) f (BNode d l r) = BNode d l (update_at p f r)"

definition bst_find :: "'a compare_func \<Rightarrow> 'a \<Rightarrow> 'a bst \<Rightarrow> 'a option" where
  "bst_find cmp elem root =
     (case find_node cmp elem root of
        None \<Rightarrow> None
      | Some p \<Rightarrow> (case subtree_at p root of Null \<Rightarrow> None | BNode d _ _ \<Rightarrow> Some d))"

text \<open>
  \<open>ensure_validity_aux\<close>: the test of the right child is also the condition under which
  the right subtree is visited.
\<close>

primrec ensure_validity_aux :: "'a compare_func \<Rightarrow> 'a bst \<Rightarrow> unit res" where
  "ensure_validity_aux cmp Null = Inr ()"
| "ensure_validity_aux cmp (BNode d l r) =
     bind_res
       (if l \<noteq> Null
        then (if cmp d (bdata l) < 0 then Inl (Irrecoverable ''BST invalid'')
              else ensure_validity_aux cmp l)
        else Inr ())
       (\<lambda>_. if r \<noteq> Null \<and> cmp d (bdata r) > 0
            then (if cmp d (bdata r) > 0 then Inl (Irrecoverable ''BST invalid'')
                  else ensure_validity_aux cmp r)
            else Inr ())"

definition bst_ensure_validity :: "'a compare_func \<Rightarrow> 'a bst \<Rightarrow> unit res" where
  "bst_ensure_validity cmp root = ensure_validity_aux cmp root"

section \<open>Order\<close>

fun inorder :: "'a bst \<Rightarrow> 'a list" where
  "inorder Null = []"
| "inorder (BNode d l r) = inorder l @ d # inorder r"

text \<open>
  The contract of a comparison function: it compares keys of a linear order. The tree is
  ordered when its elements, read in order, have ascending keys; equal keys may repeat.
\<close>

locale comparator =
  fixes cmp :: "'a compare_func"
    and key :: "'a \<Rightarrow> 'k::linorder"
  assumes cmp_zero: "cmp a b = 0 \<longleftrightarrow> key a = key b"
    and cmp_pos: "cmp a b > 0 \<longleftrightarrow> key b < key a"

definition bst_ordered :: "('a \<Rightarrow> 'k::linorder) \<Rightarrow> 'a bst \<Rightarrow> bool" where
  "bst_ordered key t \<longleftrightarrow> sorted (map key (inorder t))"

lemma inorder_Null_iff [simp]: "inorder t = [] \<longleftrightarrow> t = Null"
  by (cases t) auto

lemma bst_ordered_Null [simp]: "bst_ordered key Null"
  by (simp add: bst_ordered_def)

lemma bst_ordered_BNode:
  "bst_ordered key (BNode d l r) \<longleftrightarrow> bst_ordered key l \<and> bst_ordered key r \<and>
     (\<forall>x \<in> set (inorder l). key x \<le> key d) \<and> (\<forall>x \<in> set (inorder r). key d \<le> key x)"
  by (auto simp: bst_ordered_def sorted_append intro: order_trans)

lemma extract_leftmost_inorder:
  "extract_leftmost d l r = (m, t) \<Longrightarrow> m # inorder t = inorder (BNode d l r)"
proof (induction d l r arbitrary: m t rule: extract_leftmost.induct)
  case (2 d d' l' r' r)
  then obtain t' where "extract_leftmost d' l' r' = (m, t')" "t = BNode d t' r"
    by (auto split: prod.splits)
  with "2.IH" show ?case by fastforce
qed simp

lemma extract_replacement_inorder:
  "r \<noteq> Null \<Longrightarrow> inorder (extract_replacement (BNode d l r)) = inorder l @ inorder r"
  using extract_leftmost_inorder by (cases r) (fastforce split: prod.splits)+

lemma remove_match_inorder: "inorder (remove_match (BNode d l r)) = inorder l @ inorder r"
  by (auto simp: extract_replacement_inorder)

lemma subtree_at_append: "subtree_at (p @ q) t = subtree_at q (subtree_at p t)"
  by (induction p t rule: subtree_at.induct) (cases q; simp)+

text \<open>A subtree occupies a contiguous part of the in-order list.\<close>

lemma subtree_split:
  assumes "subtree_at p t \<noteq> Null"
  shows "\<exists>xs ys. (\<forall>f. inorder (update_at p f t) = xs @ inorder (f (subtree_at p t)) @ ys)"
  using assms
proof (induction p t rule: subtree_at.induct)
  case (1 t)
  show ?case by (intro exI [of _ "[]"]) simp
next
  case (3 p d l r)
  then obtain xs ys where "\<forall>f. inorder (update_at p f l) = xs @ inorder (f (subtree_at p l)) @ ys"
    by auto
  then show ?case by (intro exI [of _ xs] exI [of _ "ys @ d # inorder r"]) simp
next
  case (4 p d l r)
  then obtain xs ys where "\<forall>f. inorder (update_at p f r) = xs @ inorder (f (subtree_at p r)) @ ys"
    by auto
  then show ?case by (intro exI [of _ "inorder l @ d # xs"] exI [of _ ys]) simp
qed simp

lemma update_at_id [simp]: "update_at p (\<lambda>x. x) t = t"
  by (induction p t rule: subtree_at.induct) auto

lemma subtree_at_update_at: "subtree_at p t \<noteq> Null \<Longrightarrow> subtree_at p (update_at p f t) = f (subtree_at p t)"
  by (induction p t rule: subtree_at.induct) auto

text \<open>Adding a node makes a leaf grow: every existing path still leads to its node.\<close>

lemma add_node_keeps_path:
  "subtree_at p t = BNode d l r \<Longrightarrow> \<exists>l' r'. subtree_at p (add_node cmp x t) = BNode d l' r'"
  by (induction p t rule: subtree_at.induct) auto

context comparator
begin

lemma cmp_nonneg: "cmp a b \<ge> 0 \<longleftrightarrow> key b \<le> key a"
  using cmp_zero [of a b] cmp_pos [of a b] by (auto simp: order.order_iff_strict)

lemma add_node_split:
  "bst_ordered key t \<Longrightarrow> \<exists>xs ys. inorder t = xs @ ys \<and> inorder (add_node cmp x t) = xs @ x # ys \<and>
     (\<forall>y \<in> set xs. key y < key x) \<and> (\<forall>y \<in> set ys. key x \<le> key y)"
proof (induction t)
  case Null
  show ?case by simp
next
  case (BNode d l r)
  show ?case
  proof (cases "key x \<le> key d")
    case True
    obtain xs ys where "inorder l = xs @ ys" "inorder (add_node cmp x l) = xs @ x # ys"
        "\<forall>y \<in> set xs. key y < key x" "\<forall>y \<in> set ys. key x \<le> key y"
      using BNode by (auto simp: bst_ordered_BNode)
    with True BNode.prems show ?thesis
      by (intro exI [of _ xs] exI [of _ "ys @ d # inorder r"])
        (auto simp: cmp_nonneg bst_ordered_BNode)
  next
    case False
    obtain xs ys where "inorder r = xs @ ys" "inorder (add_node cmp x r) = xs @ x # ys"
        "\<forall>y \<in> set xs. key y < key x" "\<forall>y \<in> set ys. key x \<le> key y"
      using BNode by (auto simp: bst_ordered_BNode)
    with False BNode.prems show ?thesis
      by (intro exI [of _ "inorder l @ d # xs"] exI [of _ ys])
        (auto simp: cmp_nonneg bst_ordered_BNode)
  qed
qed

text \<open>The place of the new element is determined by the keys.\<close>

lemma add_node_at:
  assumes "bst_ordered key t" and "inorder t = xs @ ys"
    and "\<And>y. y \<in> set xs \<Longrightarrow> key y < key x" and "\<And>y. y \<in> set ys \<Longrightarrow> key x \<le> key y"
  shows "inorder (add_node cmp x t) = xs @ x # ys"
proof -
  obtain xs' ys' where s: "inorder t = xs' @ ys'" "inorder (add_node cmp x t) = xs' @ x # ys'"
    "\<forall>y \<in> set xs'. key y < key x" "\<forall>y \<in> set ys'. key x \<le> key y"
    using add_node_split [OF assms(1), of x] by blast
  have tw: "takeWhile (\<lambda>y. key y < key x) (as @ bs) = as"
    if "\<And>y. y \<in> set as \<Longrightarrow> key y < key x" "\<And>y. y \<in> set bs \<Longrightarrow> key x \<le> key y" for as bs
    using that(1) that(2) [of "hd bs"] by (cases bs) (auto simp: takeWhile_append)
  have "takeWhile (\<lambda>y. key y < key x) (xs @ ys) = xs" using assms(3,4) by (rule tw)
  moreover have "takeWhile (\<lambda>y. key y < key x) (xs' @ ys') = xs'" using s(3,4) by (intro tw) auto
  ultimately have "xs = xs'" using assms(2) s(1) by metis
  with assms(2) s show ?thesis by simp
qed

lemma add_node_ordered: "bst_ordered key t \<Longrightarrow> bst_ordered key (add_node cmp x t)"
  using add_node_split [of t x] by (fastforce simp: bst_ordered_def sorted_append)

lemma add_node_mset: "mset (inorder (add_node cmp x t)) = add_mset x (mset (inorder t))"
  by (induction t) auto

lemma find_node_None:
  "bst_ordered key t \<Longrightarrow> find_node cmp x t = None \<longleftrightarrow> key x \<notin> key ` set (inorder t)"
proof (induction t)
  case (BNode d l r)
  then show ?case
    using cmp_zero [of d x] cmp_pos [of d x] by (fastforce simp: bst_ordered_BNode)
qed simp

lemma find_node_Some:
  "find_node cmp x t = Some p \<Longrightarrow> \<exists>d l r. subtree_at p t = BNode d l r \<and> key d = key x"
  by (induction t arbitrary: p) (auto simp: cmp_zero split: if_splits)

lemma remove_loop_split:
  "bst_ordered key t \<Longrightarrow> key x \<in> key ` set (inorder t) \<Longrightarrow>
   \<exists>xs d ys. inorder t = xs @ d # ys \<and> key d = key x \<and> fst (remove_loop cmp x t) \<and>
     inorder (snd (remove_loop cmp x t)) = xs @ ys"
proof (induction t)
  case (BNode d l r)
  consider "key d = key x" | "key x < key d" | "key d < key x" by force
  then show ?case
  proof cases
    case 1
    then show ?thesis
      using remove_match_inorder [of d l r] cmp_zero [of d x]
      by (intro exI [of _ "inorder l"] exI [of _ d] exI [of _ "inorder r"]) simp
  next
    case 2
    then have "key x \<in> key ` set (inorder l)"
      using BNode.prems by (fastforce simp: bst_ordered_BNode)
    then obtain xs e ys where "inorder l = xs @ e # ys" "key e = key x" "fst (remove_loop cmp x l)"
        "inorder (snd (remove_loop cmp x l)) = xs @ ys"
      using BNode by (auto simp: bst_ordered_BNode)
    with 2 show ?thesis
      using cmp_zero [of d x] cmp_pos [of d x]
      by (intro exI [of _ xs] exI [of _ e] exI [of _ "ys @ d # inorder r"])
        (auto split: prod.splits)
  next
    case 3
    then have "key x \<in> key ` set (inorder r)"
      using BNode.prems by (fastforce simp: bst_ordered_BNode)
    then obtain xs e ys where "inorder r = xs @ e # ys" "key e = key x" "fst (remove_loop cmp x r)"
        "inorder (snd (remove_loop cmp x r)) = xs @ ys"
      using BNode by (auto simp: bst_ordered_BNode)
    with 3 show ?thesis
      using cmp_zero [of d x] cmp_pos [of d x]
      by (intro exI [of _ "inorder l @ d # xs"] exI [of _ e] exI [of _ ys])
        (auto split: prod.splits)
  qed
qed simp

lemma remove_loop_absent:
  "bst_ordered key t \<Longrightarrow> key x \<notin> key ` set (inorder t) \<Longrightarrow> remove_loop cmp x t = (False, t)"
  by (induction t) (auto simp: bst_ordered_BNode cmp_zero image_Un)

lemma bst_remove_loop:
  "fst (bst_remove cmp x t) = fst (remove_loop cmp x t) \<and>
   inorder (snd (bst_remove cmp x t)) = inorder (snd (remove_loop cmp x t))"
  by (cases t) (auto simp: extract_replacement_inorder)

lemma bst_remove_split:
  assumes "bst_ordered key t" and "key x \<in> key ` set (inorder t)"
  shows "\<exists>xs d ys. inorder t = xs @ d # ys \<and> key d = key x \<and> fst (bst_remove cmp x t) \<and>
    inorder (snd (bst_remove cmp x t)) = xs @ ys"
  using remove_loop_split [OF assms] bst_remove_loop [of x t] by auto

lemma bst_remove_absent:
  assumes "bst_ordered key t" and "key x \<notin> key ` set (inorder t)"
  shows "bst_remove cmp x t = (False, t)"
  using assms by (cases t) (auto simp: bst_ordered_BNode cmp_zero remove_loop_absent image_Un)

lemma bst_remove_ordered:
  assumes "bst_ordered key t"
  shows "bst_ordered key (snd (bst_remove cmp x t))"
proof (cases "key x \<in> key ` set (inorder t)")
  case True
  then obtain xs d ys where "inorder t = xs @ d # ys" "inorder (snd (bst_remove cmp x t)) = xs @ ys"
    using bst_remove_split [OF assms] by blast
  then show ?thesis
    using assms by (auto simp: bst_ordered_def sorted_append)
next
  case False
  then show ?thesis using bst_remove_absent assms by simp
qed

lemma bst_find_eq:
  assumes "bst_ordered key t"
  shows "bst_find cmp x t = None \<longleftrightarrow> key x \<notin> key ` set (inorder t)"
    and "bst_find cmp x t = Some d \<Longrightarrow> key d = key x"
proof -
  show "bst_find cmp x t = None \<longleftrightarrow> key x \<notin> key ` set (inorder t)"
    using find_node_None [OF assms, of x] find_node_Some [of x t]
    by (fastforce simp: bst_find_def split: option.splits bst.splits)
  show "bst_find cmp x t = Some d \<Longrightarrow> key d = key x"
    using find_node_Some [of x t]
    by (fastforce simp: bst_find_def split: option.splits bst.splits)
qed

lemma ensure_validity_ordered: "bst_ordered key t \<Longrightarrow> ensure_validity_aux cmp t = Inr ()"
proof (induction t)
  case (BNode d l r)
  have "\<not> cmp d (bdata l) < 0" if "l \<noteq> Null"
    using that BNode.prems by (cases l) (auto simp: not_less cmp_nonneg bst_ordered_BNode)
  moreover have "\<not> cmp d (bdata r) > 0" if "r \<noteq> Null"
    using that BNode.prems by (cases r) (auto simp: cmp_pos bst_ordered_BNode not_less)
  ultimately show ?case
    using BNode by (auto simp: bst_ordered_BNode)
qed simp

lemma ensure_validity_skips_right:
  "ensure_validity_aux cmp (BNode d Null (BNode e l r)) = Inr () \<longleftrightarrow> key d \<le> key e"
  by (auto simp: cmp_pos)

end

lemma subtree_at_mem: "subtree_at p t = BNode d l r \<Longrightarrow> d \<in> set (inorder t)"
  by (induction p t rule: subtree_at.induct) auto

lemma bst_find_mem: "bst_find cmp x t = Some d \<Longrightarrow> d \<in> set (inorder t)"
  by (auto simp: bst_find_def split: option.splits bst.splits dest: subtree_at_mem)

section \<open>Properties\<close>

text \<open>
  C31. The tree is a sorted bag: with a comparison of keys and an ordered tree, adding keeps the order
  and adds the element; removing takes out exactly one element with the given key, and reports
  whether there was one; \<open>find\<close> returns an element with the key if there is one; and the validity
  check accepts the tree.
\<close>
theorem bst_sorted_bag:
  assumes "comparator cmp key" and "bst_ordered key t"
  shows "bst_ordered key (bst_add cmp x t) \<and> mset (inorder (bst_add cmp x t)) = add_mset x (mset (inorder t)) \<and>
    (if key x \<in> key ` set (inorder t)
     then \<exists>xs d ys. inorder t = xs @ d # ys \<and> key d = key x \<and> fst (bst_remove cmp x t) \<and>
       inorder (snd (bst_remove cmp x t)) = xs @ ys
     else bst_remove cmp x t = (False, t)) \<and>
    (case bst_find cmp x t of None \<Rightarrow> key x \<notin> key ` set (inorder t) | Some d \<Rightarrow> d \<in> set (inorder t) \<and> key d = key x) \<and>
    bst_ensure_validity cmp t = Inr ()"
proof -
  note c = comparator.add_node_ordered [OF assms] comparator.add_node_mset [OF assms(1)]
    comparator.bst_remove_split [OF assms] comparator.bst_remove_absent [OF assms]
    comparator.ensure_validity_ordered [OF assms]
  show ?thesis
    using c comparator.bst_find_eq [OF assms, of x] bst_find_mem [of cmp x t] by (simp add: bst_add_def bst_ensure_validity_def split: option.split)
qed

theorem bst_sorted_bag_witness:
  "bst_remove (\<lambda>a b. a - b) (4 :: int) (BNode 4 (BNode 2 Null Null) (BNode 7 Null Null)) =
     (True, BNode 7 (BNode 2 Null Null) Null) \<and>
   bst_find (\<lambda>a b. a - b) (5 :: int) (BNode 4 (BNode 2 Null Null) (BNode 7 Null Null)) = None \<and>
   bst_find (\<lambda>a b. a - b) (7 :: int) (BNode 4 (BNode 2 Null Null) (BNode 7 Null Null)) = Some 7"
proof -
  have "comparator (\<lambda>a b. a - b) (\<lambda>x :: int. x)" by unfold_locales auto
  moreover have "bst_ordered (\<lambda>x :: int. x) (BNode 4 (BNode 2 Null Null) (BNode 7 Null Null))"
    by (simp add: bst_ordered_def)
  note bag = bst_sorted_bag [OF calculation this]
  have "bst_find (\<lambda>a b. a - b) (5 :: int) (BNode 4 (BNode 2 Null Null) (BNode 7 Null Null)) = None" using bag [of 5] by (auto split: option.splits)
  moreover have "bst_find (\<lambda>a b. a - b) (7 :: int) (BNode 4 (BNode 2 Null Null) (BNode 7 Null Null)) = Some 7" using bag [of 7] by (auto split: option.splits)
  ultimately show ?thesis by simp
qed

end
