(* ===== verification/SharedPtr.thy ===== *)
theory SharedPtr
  imports Prelude
begin

text \<open>
  The reference-counted pointer of \<^verbatim>\<open>src/kernel/utils/shared_pointer.h\<close> and
  \<^verbatim>\<open>shared_pointer.hxx\<close>, which the file system uses for inodes and directory entries.
  Counters are shared between pointer objects, so the model keeps an explicit store: the
  live counters with their values, the live pointed-to objects, and the pointer objects
  themselves, named by variables. An object is the list of the shared pointers that are its
  members, in the order of their declaration (a \<^verbatim>\<open>Dentry\<close> holds its inode and its parent, an
  \<^verbatim>\<open>Inode\<close> none): deleting it destroys them in reverse, which may delete further objects. A
  deleted counter, object or member leaves the store and any access to it is the failure
  \<open>UseAfterFree\<close>. The cascade of deletions is given fuel; more than the number of live
  objects is always enough.
\<close>

section \<open>Model\<close>

type_synonym sptr = "nat option \<times> nat option"
  \<comment> \<open>\<open>data_\<close> and \<open>count_\<close>, each an address or null\<close>

record 'v sp_state =
  sp_env :: "'v \<rightharpoonup> sptr"
  sp_cnt :: "nat \<rightharpoonup> int"
  sp_objs :: "nat \<rightharpoonup> 'v list"

definition sp_value :: "'v \<Rightarrow> 'v sp_state \<Rightarrow> sptr res" where
  "sp_value v s = (case sp_env s v of None \<Rightarrow> Inl UseAfterFree | Some x \<Rightarrow> Inr x)"

definition sp_set :: "'v \<Rightarrow> sptr \<Rightarrow> 'v sp_state \<Rightarrow> 'v sp_state" where
  "sp_set v x s = s\<lparr>sp_env := (sp_env s)(v \<mapsto> x)\<rparr>"

definition sp_unset :: "'v \<Rightarrow> 'v sp_state \<Rightarrow> 'v sp_state" where
  "sp_unset v s = s\<lparr>sp_env := (sp_env s)(v := None)\<rparr>"

text \<open>
  The implicit destruction of the members \<open>ms\<close> one after the other, with the destructor's body \<open>rel\<close>.
\<close>

fun destroy_members :: "(sptr \<Rightarrow> 'v sp_state \<Rightarrow> 'v sp_state res) \<Rightarrow> 'v list \<Rightarrow> 'v sp_state \<Rightarrow> 'v sp_state res" where
  "destroy_members rel [] s = Inr s"
| "destroy_members rel (m # ms) s =
     bind_res (sp_value m s) (\<lambda>x. bind_res (rel x s) (\<lambda>s'. destroy_members rel ms (sp_unset m s')))"

text \<open>\<open>delete data_\<close>: the destructor of the object, then its memory.\<close>

definition sp_delete :: "(sptr \<Rightarrow> 'v sp_state \<Rightarrow> 'v sp_state res) \<Rightarrow> nat option \<Rightarrow> 'v sp_state \<Rightarrow> 'v sp_state res" where
  "sp_delete rel p s =
     (case p of
        None \<Rightarrow> Inr s
      | Some a \<Rightarrow>
          (case sp_objs s a of
             None \<Rightarrow> Inl UseAfterFree
           | Some ms \<Rightarrow> bind_res (destroy_members rel (rev ms) s) (\<lambda>s'. Inr (s'\<lparr>sp_objs := (sp_objs s')(a := None)\<rparr>))))"

text \<open>\<open>--(*count_)\<close>, then both deletions when it reaches zero: the destructor's body,
  which \<open>reset\<close> and the assignments repeat.\<close>

fun sp_release :: "nat \<Rightarrow> sptr \<Rightarrow> 'v sp_state \<Rightarrow> 'v sp_state res" where
  "sp_release 0 x s = Inl Diverges"
| "sp_release (Suc n) x s =
     (case snd x of
        None \<Rightarrow> Inr s
      | Some c \<Rightarrow>
          (case sp_cnt s c of
             None \<Rightarrow> Inl UseAfterFree
           | Some k \<Rightarrow>
               let s1 = s\<lparr>sp_cnt := (sp_cnt s)(c \<mapsto> k - 1)\<rparr> in
               if k - 1 = 0
               then bind_res (sp_delete (sp_release n) (fst x) s1) (\<lambda>s2. Inr (s2\<lparr>sp_cnt := (sp_cnt s2)(c := None)\<rparr>))
               else Inr s1))"

text \<open>\<open>++(*count_)\<close> when there is a counter.\<close>

definition sp_acquire :: "sptr \<Rightarrow> 'v sp_state \<Rightarrow> 'v sp_state res" where
  "sp_acquire x s =
     (case snd x of
        None \<Rightarrow> Inr s
      | Some c \<Rightarrow>
          (case sp_cnt s c of
             None \<Rightarrow> Inl UseAfterFree
           | Some k \<Rightarrow> Inr (s\<lparr>sp_cnt := (sp_cnt s)(c \<mapsto> k + 1)\<rparr>)))"

text \<open>
  Constructor from a raw pointer: \<open>p\<close> is null or the address of a newly allocated object
  with the members \<open>ms\<close>, \<open>c\<close> the address that \<open>new long{1}\<close> yields.
\<close>

definition sp_adopt :: "(nat \<times> 'v list) option \<Rightarrow> nat \<Rightarrow> 'v sp_state \<Rightarrow> sptr \<times> 'v sp_state" where
  "sp_adopt p c s =
     (case p of
        None \<Rightarrow> ((None, None), s)
      | Some (a, ms) \<Rightarrow> ((Some a, Some c),
          s\<lparr>sp_cnt := (sp_cnt s)(c \<mapsto> 1), sp_objs := (sp_objs s)(a \<mapsto> ms)\<rparr>))"

definition sp_construct :: "'v \<Rightarrow> (nat \<times> 'v list) option \<Rightarrow> nat \<Rightarrow> 'v sp_state \<Rightarrow> 'v sp_state" where
  "sp_construct v p c s = (let (x, s') = sp_adopt p c s in sp_set v x s')"

definition sp_destroy :: "nat \<Rightarrow> 'v \<Rightarrow> 'v sp_state \<Rightarrow> 'v sp_state res" where
  "sp_destroy n v s = bind_res (sp_value v s) (\<lambda>x. bind_res (sp_release n x s) (\<lambda>s'. Inr (sp_unset v s')))"

definition sp_copy :: "'v \<Rightarrow> 'v \<Rightarrow> 'v sp_state \<Rightarrow> 'v sp_state res" where
  "sp_copy v other s = bind_res (sp_value other s) (\<lambda>x. sp_acquire x (sp_set v x s))"

text \<open>
  The assignments and \<open>reset\<close> write the members of \<open>*this\<close> after the release, which
  may have deleted the object that \<open>*this\<close> is part of.
\<close>

definition sp_store :: "'v \<Rightarrow> sptr \<Rightarrow> 'v sp_state \<Rightarrow> 'v sp_state res" where
  "sp_store v x s = bind_res (sp_value v s) (\<lambda>_. Inr (sp_set v x s))"

definition sp_reset :: "nat \<Rightarrow> 'v \<Rightarrow> (nat \<times> 'v list) option \<Rightarrow> nat \<Rightarrow> 'v sp_state \<Rightarrow> 'v sp_state res" where
  "sp_reset n v p c s =
     bind_res (sp_value v s) (\<lambda>x.
       if map_option fst p = fst x then Inr s
       else bind_res (sp_release n x s) (\<lambda>s'. let (y, s'') = sp_adopt p c s' in sp_store v y s''))"

definition sp_assign :: "nat \<Rightarrow> 'v \<Rightarrow> 'v \<Rightarrow> 'v sp_state \<Rightarrow> 'v sp_state res" where
  "sp_assign n v other s =
     bind_res (sp_value v s) (\<lambda>x. bind_res (sp_release n x s) (\<lambda>s1.
       bind_res (sp_value other s1) (\<lambda>y. bind_res (sp_store v y s1) (sp_acquire y))))"

definition sp_move_assign :: "nat \<Rightarrow> 'v \<Rightarrow> 'v \<Rightarrow> 'v sp_state \<Rightarrow> 'v sp_state res" where
  "sp_move_assign n v other s =
     (if v \<noteq> other
      then bind_res (sp_value v s) (\<lambda>x. bind_res (sp_release n x s) (\<lambda>s1.
             bind_res (sp_value other s1) (\<lambda>y. bind_res (sp_store v y s1) (sp_store other (None, None)))))
      else Inr s)"

definition sp_move :: "'v \<Rightarrow> 'v \<Rightarrow> 'v sp_state \<Rightarrow> 'v sp_state res" where
  "sp_move v other s = bind_res (sp_value other s) (\<lambda>x. sp_store other (None, None) (sp_set v x s))"

definition use_count :: "'v \<Rightarrow> 'v sp_state \<Rightarrow> int res" where
  "use_count v s =
     bind_res (sp_value v s) (\<lambda>x.
       case snd x of
         None \<Rightarrow> Inr 0
       | Some c \<Rightarrow> (case sp_cnt s c of None \<Rightarrow> Inl UseAfterFree | Some k \<Rightarrow> Inr k))"

definition sp_bool :: "'v \<Rightarrow> 'v sp_state \<Rightarrow> bool res" where
  "sp_bool v s = bind_res (sp_value v s) (\<lambda>x. Inr (fst x \<noteq> None))"

definition sp_eq :: "'v \<Rightarrow> 'v \<Rightarrow> 'v sp_state \<Rightarrow> bool res" where
  "sp_eq v w s = bind_res (sp_value v s) (\<lambda>x. bind_res (sp_value w s) (\<lambda>y. Inr (fst x = fst y)))"

text \<open>
  Program steps on pointer variables. A variable is constructed before it is used and not
  constructed again while it lives; raw pointers and counters come fresh from the
  allocator, and the members of a new object are pointers that its constructor has just
  constructed. A pointer that is a member of an object is destroyed with the object only. A
  pointer is not copy-assigned to itself; unless it shares what it points to, it is assigned
  and reset only when neither it nor its source is a member of an object, for the release may
  delete that object.
\<close>

definition owned :: "'v sp_state \<Rightarrow> 'v \<Rightarrow> bool" where
  "owned s v \<longleftrightarrow> (\<exists>a ms. sp_objs s a = Some ms \<and> v \<in> set ms)"

definition sp_new :: "nat \<Rightarrow> 'v list \<Rightarrow> nat \<Rightarrow> 'v sp_state \<Rightarrow> bool" where
  "sp_new a ms c s \<longleftrightarrow> sp_objs s a = None \<and> sp_cnt s c = None \<and> distinct ms \<and> (\<forall>m \<in> set ms. m \<in> dom (sp_env s) \<and> \<not> owned s m)"

definition sp_shared :: "'v \<Rightarrow> 'v sp_state \<Rightarrow> bool" where
  "sp_shared v s \<longleftrightarrow> use_count v s \<noteq> Inr 1"

inductive sp_step :: "'v sp_state \<Rightarrow> 'v sp_state res \<Rightarrow> bool" where
  construct_null: "sp_env s v = None \<Longrightarrow> sp_step s (Inr (sp_construct v None c s))"
| construct: "sp_env s v = None \<Longrightarrow> sp_new a ms c s \<Longrightarrow> sp_step s (Inr (sp_construct v (Some (a, ms)) c s))"
| copy: "sp_env s v = None \<Longrightarrow> sp_env s w \<noteq> None \<Longrightarrow> sp_step s (sp_copy v w s)"
| move: "sp_env s v = None \<Longrightarrow> sp_env s w \<noteq> None \<Longrightarrow> sp_step s (sp_move v w s)"
| destroy: "sp_env s v \<noteq> None \<Longrightarrow> \<not> owned s v \<Longrightarrow> card (dom (sp_objs s)) < n \<Longrightarrow> sp_step s (sp_destroy n v s)"
| reset_null: "sp_env s v \<noteq> None \<Longrightarrow> sp_shared v s \<or> \<not> owned s v \<Longrightarrow> card (dom (sp_objs s)) < n \<Longrightarrow>
    sp_step s (sp_reset n v None c s)"
| reset: "sp_env s v \<noteq> None \<Longrightarrow> sp_shared v s \<or> \<not> owned s v \<Longrightarrow> card (dom (sp_objs s)) < n \<Longrightarrow>
    sp_new a ms c s \<Longrightarrow> v \<notin> set ms \<Longrightarrow> sp_step s (sp_reset n v (Some (a, ms)) c s)"
| assign: "sp_env s v \<noteq> None \<Longrightarrow> sp_env s w \<noteq> None \<Longrightarrow> v \<noteq> w \<Longrightarrow> sp_shared v s \<or> \<not> owned s v \<and> \<not> owned s w \<Longrightarrow>
    card (dom (sp_objs s)) < n \<Longrightarrow> sp_step s (sp_assign n v w s)"
| move_assign: "sp_env s v \<noteq> None \<Longrightarrow> sp_env s w \<noteq> None \<Longrightarrow> sp_shared v s \<or> \<not> owned s v \<and> \<not> owned s w \<Longrightarrow>
    card (dom (sp_objs s)) < n \<Longrightarrow> sp_step s (sp_move_assign n v w s)"

definition sp_init :: "'v sp_state" where
  "sp_init = \<lparr>sp_env = Map.empty, sp_cnt = Map.empty, sp_objs = Map.empty\<rparr>"

inductive sp_reachable :: "'v sp_state \<Rightarrow> bool" where
  start: "sp_reachable sp_init"
| step: "sp_reachable s \<Longrightarrow> sp_step s (Inr s') \<Longrightarrow> sp_reachable s'"

section \<open>Counters count references\<close>

definition ref_set :: "('v \<rightharpoonup> sptr) \<Rightarrow> nat \<Rightarrow> 'v set" where
  "ref_set env c = {v. \<exists>d. env v = Some (d, Some c)}"

definition ref_cnt :: "('v \<rightharpoonup> sptr) \<Rightarrow> nat \<rightharpoonup> int" where
  "ref_cnt env c = (if ref_set env c = {} then None else Some (int (card (ref_set env c))))"

definition env_ok :: "('v \<rightharpoonup> sptr) \<Rightarrow> bool" where
  "env_ok env \<longleftrightarrow> finite (dom env) \<and>
     (\<forall>v d n. env v = Some (d, n) \<longrightarrow> (d = None \<longleftrightarrow> n = None)) \<and>
     (\<forall>v w a b c e. env v = Some (Some a, Some c) \<and> env w = Some (Some b, Some e) \<longrightarrow> (a = b \<longleftrightarrow> c = e))"

definition pointees :: "('v \<rightharpoonup> sptr) \<Rightarrow> nat set" where
  "pointees env = {a. \<exists>v n. env v = Some (Some a, n)}"

text \<open>The members of live objects are live pointers, and no pointer is a member twice.\<close>

definition members_ok :: "('v \<rightharpoonup> sptr) \<Rightarrow> (nat \<rightharpoonup> 'v list) \<Rightarrow> bool" where
  "members_ok env objs \<longleftrightarrow> (\<forall>a ms. objs a = Some ms \<longrightarrow> distinct ms \<and> set ms \<subseteq> dom env) \<and>
     (\<forall>a b ms ns. objs a = Some ms \<and> objs b = Some ns \<and> a \<noteq> b \<longrightarrow> set ms \<inter> set ns = {})"

definition sp_inv :: "'v sp_state \<Rightarrow> bool" where
  "sp_inv s \<longleftrightarrow> env_ok (sp_env s) \<and> sp_cnt s = ref_cnt (sp_env s) \<and> dom (sp_objs s) = pointees (sp_env s) \<and>
     members_ok (sp_env s) (sp_objs s)"
lemma ref_set_upd:
  "ref_set (env(v \<mapsto> x)) c = (if snd x = Some c then insert v (ref_set env c) else ref_set env c - {v})"
  by (cases x) (auto simp: ref_set_def)

lemma ref_set_del: "ref_set (env(v := None)) c = ref_set env c - {v}"
  by (auto simp: ref_set_def)

lemma finite_ref_set: "finite (dom env) \<Longrightarrow> finite (ref_set env c)"
  by (rule finite_subset [of _ "dom env"]) (auto simp: ref_set_def)

lemma ref_cnt_drop:
  assumes "finite (dom env)" and v: "env v = Some (d, Some c)"
  shows "ref_cnt (env(v \<mapsto> (None, None))) =
    (ref_cnt env)(c := if card (ref_set env c) = 1 then None else Some (int (card (ref_set env c)) - 1))"
proof
  fix e
  have fin: "finite (ref_set env e)" for e by (rule finite_ref_set [OF assms(1)])
  have mem: "v \<in> ref_set env c" and only: "v \<in> ref_set env e \<longleftrightarrow> e = c"
    using v by (auto simp: ref_set_def)
  have "card (ref_set env c) > 0"
    using mem fin by (auto simp: card_gt_0_iff)
  moreover have "ref_set env c - {v} = {} \<longleftrightarrow> card (ref_set env c) = 1"
    using mem by (auto simp: card_1_singleton_iff)
  ultimately show "ref_cnt (env(v \<mapsto> (None, None))) e =
      ((ref_cnt env)(c := if card (ref_set env c) = 1 then None else Some (int (card (ref_set env c)) - 1))) e"
    using mem only fin
    by (cases "e = c") (auto simp: ref_cnt_def ref_set_upd card_Diff_singleton of_nat_diff)
qed

lemma ref_cnt_add:
  assumes "finite (dom env)" and v: "\<And>d e. env v \<noteq> Some (d, Some e)"
    and c: "ref_set env c \<noteq> {}"
  shows "ref_cnt (env(v \<mapsto> (d, Some c))) = (ref_cnt env)(c \<mapsto> int (card (ref_set env c)) + 1)"
proof
  fix e
  have "v \<notin> ref_set env e" "finite (ref_set env e)" for e
    using v finite_ref_set [OF assms(1)] by (auto simp: ref_set_def)
  then show "ref_cnt (env(v \<mapsto> (d, Some c))) e =
      ((ref_cnt env)(c \<mapsto> int (card (ref_set env c)) + 1)) e"
    by (simp add: ref_cnt_def ref_set_upd)
qed

lemma ref_cnt_null: "(\<And>d e. env v \<noteq> Some (d, Some e)) \<Longrightarrow> ref_cnt (env(v \<mapsto> (None, None))) = ref_cnt env"
proof
  fix c
  assume "\<And>d e. env v \<noteq> Some (d, Some e)"
  then have "v \<notin> ref_set env c" by (simp add: ref_set_def)
  then show "ref_cnt (env(v \<mapsto> (None, None))) c = ref_cnt env c"
    by (simp add: ref_cnt_def ref_set_upd)
qed

lemma pointees_upd_iff:
  "a \<in> pointees (env(v \<mapsto> x)) \<longleftrightarrow> (\<exists>w n. w \<noteq> v \<and> env w = Some (Some a, n)) \<or> fst x = Some a"
  by (cases x) (auto simp: pointees_def)

lemma pointees_upd:
  assumes "env v = None \<or> env v = Some (None, None)"
  shows "pointees (env(v \<mapsto> x)) = pointees env \<union> set_option (fst x)"
proof -
  have "w \<noteq> v" if "env w = Some (Some a, n)" for w a n
    using that assms by auto
  then have "a \<in> pointees env \<longleftrightarrow> (\<exists>w n. w \<noteq> v \<and> env w = Some (Some a, n))" for a
    by (simp add: pointees_def) blast
  then show ?thesis by (intro set_eqI) (simp only: pointees_upd_iff Un_iff elem_set)
qed

lemma sp_set_simps [simp]:
  "sp_env (sp_set v x s) = (sp_env s)(v \<mapsto> x)" "sp_cnt (sp_set v x s) = sp_cnt s" "sp_objs (sp_set v x s) = sp_objs s"
  "sp_env (sp_unset v s) = (sp_env s)(v := None)" "sp_cnt (sp_unset v s) = sp_cnt s" "sp_objs (sp_unset v s) = sp_objs s"
  "sp_set v x (sp_set v y s) = sp_set v x s" "sp_set v x (sp_unset v s) = sp_set v x s" "sp_unset v (sp_set v x s) = sp_unset v s"
  by (simp_all add: sp_set_def sp_unset_def)

lemma sp_value_Some [simp]: "sp_env s v = Some x \<Longrightarrow> sp_value v s = Inr x"
  by (simp add: sp_value_def)

lemma sp_store_live [simp]: "sp_env s v = Some y \<Longrightarrow> sp_store v x s = Inr (sp_set v x s)"
  by (simp add: sp_store_def)

lemma owned_set [simp]: "owned (sp_set v x s) = owned s" "owned (sp_unset v s) = owned s"
  by (simp_all add: owned_def fun_eq_iff)

lemma members_ok_mono: "members_ok env objs \<Longrightarrow> dom env \<subseteq> dom env' \<Longrightarrow> members_ok env' objs"
  unfolding members_ok_def by blast

lemma members_ok_del:
  assumes "members_ok (sp_env s) (sp_objs s)" and "\<not> owned s v"
  shows "members_ok ((sp_env s)(v := None)) (sp_objs s)"
  using assms unfolding members_ok_def owned_def by (simp add: subset_Diff_insert)

lemma sp_inv_null:
  assumes "sp_inv s" and "sp_env s v = None \<or> sp_env s v = Some (None, None)"
  shows "sp_inv (sp_set v (None, None) s)"
proof -
  have "ref_cnt ((sp_env s)(v \<mapsto> (None, None))) = ref_cnt (sp_env s)"
    using assms(2) by (intro ref_cnt_null) auto
  moreover have "pointees ((sp_env s)(v \<mapsto> (None, None))) = pointees (sp_env s)"
    using assms(2) by (simp add: pointees_upd)
  moreover have "env_ok ((sp_env s)(v \<mapsto> (None, None)))"
    using assms(1) by (auto simp: sp_inv_def env_ok_def)
  moreover have "members_ok ((sp_env s)(v \<mapsto> (None, None))) (sp_objs s)"
    using members_ok_mono [of "sp_env s" "sp_objs s" "(sp_env s)(v \<mapsto> (None, None))"] assms(1) by (simp add: sp_inv_def subset_insertI)
  ultimately show ?thesis
    using assms(1) by (simp add: sp_inv_def)
qed

lemma env_ok_shape: "env_ok env \<Longrightarrow> env v = Some x \<Longrightarrow> x = (None, None) \<or> (\<exists>a c. x = (Some a, Some c))"
  by (cases x) (fastforce simp: env_ok_def)

lemma env_ok_from:
  assumes ok: "env_ok env" and "finite (dom env')"
    and sub: "\<And>v x. env' v = Some x \<Longrightarrow> x = (None, None) \<or> (\<exists>w. env w = Some x)"
  shows "env_ok env'"
  unfolding env_ok_def
proof (intro conjI allI impI)
  fix v d n assume "env' v = Some (d, n)"
  then have "(d, n) = (None, None) \<or> (\<exists>w. env w = Some (d, n))" by (rule sub)
  then show "d = None \<longleftrightarrow> n = None" using ok by (auto simp: env_ok_def)
next
  fix v w a b c e
  assume "env' v = Some (Some a, Some c) \<and> env' w = Some (Some b, Some e)"
  then obtain v' w' where "env v' = Some (Some a, Some c)" "env w' = Some (Some b, Some e)"
    using sub by blast
  then show "a = b \<longleftrightarrow> c = e" using ok unfolding env_ok_def by blast
qed (rule assms(2))

lemma sp_inv_unset:
  assumes "sp_inv (sp_set v (None, None) s)" and "\<not> owned s v"
  shows "sp_inv (sp_unset v s)"
proof -
  have "ref_set ((sp_env s)(v := None)) c = ref_set ((sp_env s)(v \<mapsto> (None, None))) c" for c
    by (simp add: ref_set_del ref_set_upd)
  then have "ref_cnt ((sp_env s)(v := None)) = ref_cnt ((sp_env s)(v \<mapsto> (None, None)))"
    by (simp add: ref_cnt_def fun_eq_iff)
  moreover have "pointees ((sp_env s)(v := None)) = pointees ((sp_env s)(v \<mapsto> (None, None)))"
    by (auto simp: pointees_def split: if_splits)
  moreover have "env_ok ((sp_env s)(v := None))"
  proof (rule env_ok_from)
    show ok: "env_ok ((sp_env s)(v \<mapsto> (None, None)))" using assms by (simp add: sp_inv_def)
    show "finite (dom ((sp_env s)(v := None)))" using ok by (simp add: env_ok_def)
  qed (metis fun_upd_apply option.distinct(1))
  moreover have "members_ok ((sp_env s)(v := None)) (sp_objs s)"
    using members_ok_del [of "sp_set v (None, None) s" v] assms by (simp add: sp_inv_def)
  ultimately show ?thesis
    using assms by (simp add: sp_inv_def)
qed

text \<open>What a variable that points to an object knows of its counter and of the object.\<close>

lemma sp_inv_live:
  assumes "sp_inv s" and "sp_env s v = Some (Some a, Some c)"
  shows "v \<in> ref_set (sp_env s) c" "finite (ref_set (sp_env s) c)" "sp_cnt s c = Some (int (card (ref_set (sp_env s) c)))"
    "a \<in> dom (sp_objs s)" "\<And>w n. sp_env s w = Some (Some a, n) \<Longrightarrow> w \<in> ref_set (sp_env s) c"
    "\<And>w. w \<in> ref_set (sp_env s) c \<Longrightarrow> sp_env s w = Some (Some a, Some c)"
proof -
  have ok: "env_ok (sp_env s)" using assms by (simp add: sp_inv_def)
  show r: "v \<in> ref_set (sp_env s) c" using assms by (simp add: ref_set_def)
  show "finite (ref_set (sp_env s) c)" using ok finite_ref_set by (auto simp: env_ok_def)
  show "sp_cnt s c = Some (int (card (ref_set (sp_env s) c)))" using assms r by (auto simp: sp_inv_def ref_cnt_def)
  show "a \<in> dom (sp_objs s)" using assms by (auto simp: sp_inv_def pointees_def)
  show "w \<in> ref_set (sp_env s) c" if "sp_env s w = Some (Some a, n)" for w n
    using that ok assms(2) env_ok_shape [OF ok that] by (fastforce simp: env_ok_def ref_set_def)
  show "sp_env s w = Some (Some a, Some c)" if "w \<in> ref_set (sp_env s) c" for w
  proof -
    from that obtain d where "sp_env s w = Some (d, Some c)" by (auto simp: ref_set_def)
    then show ?thesis using ok assms(2) env_ok_shape [OF ok, of w] by (fastforce simp: env_ok_def)
  qed
qed

text \<open>Giving up a reference that is not the last one.\<close>

lemma sp_inv_drop:
  assumes inv: "sp_inv s" and v: "sp_env s v = Some (Some a, Some c)" and n: "card (ref_set (sp_env s) c) \<noteq> 1"
  shows "sp_inv (sp_set v (None, None) (s\<lparr>sp_cnt := (sp_cnt s)(c \<mapsto> int (card (ref_set (sp_env s) c)) - 1)\<rparr>))"
proof -
  let ?env = "(sp_env s)(v \<mapsto> (None, None))" and ?R = "ref_set (sp_env s) c"
  note live = sp_inv_live [OF inv v]
  have ok: "env_ok (sp_env s)" using inv by (simp add: sp_inv_def)
  obtain w where w: "w \<noteq> v" "w \<in> ?R" using live(1,2) n by (auto simp: card_1_singleton_iff)
  have "u \<noteq> v" if "sp_env s u = Some (Some b, m)" "b \<noteq> a" for u b m using that v by auto
  then have "b \<in> pointees ?env \<longleftrightarrow> b \<in> pointees (sp_env s)" for b
    using w(1) live(6) [OF w(2)] unfolding pointees_upd_iff by (simp add: pointees_def) blast
  then have "pointees ?env = pointees (sp_env s)" by blast
  moreover have "env_ok ?env" using ok by (auto simp: env_ok_def)
  moreover have "members_ok ?env (sp_objs s)" using members_ok_mono [of "sp_env s" "sp_objs s" ?env] inv by (simp add: sp_inv_def subset_insertI)
  moreover have "finite (dom (sp_env s))" using ok by (simp add: env_ok_def)
  ultimately show ?thesis using ref_cnt_drop [of "sp_env s" v "Some a" c] v n inv by (simp add: sp_inv_def)
qed

text \<open>Giving up the last reference: the counter and the object go, its members stay behind as pointers of no object.\<close>

lemma sp_inv_drop_last:
  assumes inv: "sp_inv s" and v: "sp_env s v = Some (Some a, Some c)" and n: "card (ref_set (sp_env s) c) = 1" and o: "\<not> owned s v"
  shows "sp_inv (sp_unset v (s\<lparr>sp_cnt := (sp_cnt s)(c := None), sp_objs := (sp_objs s)(a := None)\<rparr>))" (is "sp_inv (sp_unset v ?s)")
proof (rule sp_inv_unset)
  let ?env = "(sp_env s)(v \<mapsto> (None, None))" and ?R = "ref_set (sp_env s) c"
  note live = sp_inv_live [OF inv v]
  have ok: "env_ok (sp_env s)" using inv by (simp add: sp_inv_def)
  have R: "?R = {v}" using live(1) n by (auto simp: card_1_singleton_iff)
  then have "w = v" if "sp_env s w = Some (Some a, m)" for w m using live(5) [OF that] by auto
  moreover have "w \<noteq> v" if "sp_env s w = Some (Some b, m)" "b \<noteq> a" for w b m using that v by auto
  ultimately have "b \<in> pointees ?env \<longleftrightarrow> b \<in> pointees (sp_env s) - {a}" for b
    unfolding pointees_upd_iff by (simp add: pointees_def) blast
  then have "pointees ?env = pointees (sp_env s) - {a}" by blast
  moreover have "env_ok ?env" using ok by (auto simp: env_ok_def)
  moreover have "members_ok (sp_env s) (sp_objs s)" using inv by (simp add: sp_inv_def)
  then have "members_ok ?env ((sp_objs s)(a := None))" unfolding members_ok_def by auto
  moreover have "finite (dom (sp_env s))" using ok by (simp add: env_ok_def)
  ultimately show "sp_inv (sp_set v (None, None) ?s)" using ref_cnt_drop [of "sp_env s" v "Some a" c] v n inv by (simp add: sp_inv_def)
  show "\<not> owned ?s v" using o by (auto simp: owned_def)
qed
section \<open>The cascade of deletions\<close>

text \<open>
  While an object is being deleted, its counter is zero, the object is still there and the pointer that gave up
  the last reference still holds the old address. None of this is touched by the deletions it causes: a release
  that succeeds on a store succeeds in the same way on a larger one.
\<close>

definition extend :: "('v \<rightharpoonup> sptr) \<Rightarrow> (nat \<rightharpoonup> int) \<Rightarrow> (nat \<rightharpoonup> 'v list) \<Rightarrow> 'v sp_state \<Rightarrow> 'v sp_state" where
  "extend E C P s = s\<lparr>sp_env := sp_env s ++ E, sp_cnt := sp_cnt s ++ C, sp_objs := sp_objs s ++ P\<rparr>"

definition apart :: "('v \<rightharpoonup> sptr) \<Rightarrow> (nat \<rightharpoonup> int) \<Rightarrow> (nat \<rightharpoonup> 'v list) \<Rightarrow> 'v sp_state \<Rightarrow> bool" where
  "apart E C P s \<longleftrightarrow> dom (sp_env s) \<inter> dom E = {} \<and> dom (sp_cnt s) \<inter> dom C = {} \<and> dom (sp_objs s) \<inter> dom P = {}"

lemma map_add_upd_left: "k \<notin> dom g \<Longrightarrow> (f ++ g)(k := y) = f(k := y) ++ g"
  by (auto simp: map_add_def fun_eq_iff split: option.splits)

lemma map_add_found: "f k = Some y \<Longrightarrow> dom f \<inter> dom g = {} \<Longrightarrow> (f ++ g) k = Some y \<and> k \<notin> dom g"
  by (auto simp: map_add_def split: option.splits)

definition shrinks :: "'v sp_state \<Rightarrow> 'v sp_state \<Rightarrow> bool" where
  "shrinks s s' \<longleftrightarrow> sp_env s' \<subseteq>\<^sub>m sp_env s \<and> dom (sp_cnt s') \<subseteq> dom (sp_cnt s) \<and> sp_objs s' \<subseteq>\<^sub>m sp_objs s"

lemma shrinks_refl [simp]: "shrinks s s"
  by (simp add: shrinks_def)

lemma shrinks_trans: "shrinks s t \<Longrightarrow> shrinks t u \<Longrightarrow> shrinks s u"
  unfolding shrinks_def by (meson map_le_trans order_trans)

lemma shrinks_apart: "shrinks s s' \<Longrightarrow> apart E C P s \<Longrightarrow> apart E C P s'"
  unfolding shrinks_def apart_def by (meson disjoint_iff map_le_implies_dom_le subsetD)

lemma shrinks_unset: "shrinks s (sp_unset m s)"
  by (auto simp: shrinks_def map_le_def)

definition framed :: "(sptr \<Rightarrow> 'v sp_state \<Rightarrow> 'v sp_state res) \<Rightarrow> bool" where
  "framed rel \<longleftrightarrow> (\<forall>x s s' E C P. rel x s = Inr s' \<longrightarrow> shrinks s s' \<and> (apart E C P s \<longrightarrow> rel x (extend E C P s) = Inr (extend E C P s')))"

lemma extend_unset: "m \<notin> dom E \<Longrightarrow> sp_unset m (extend E C P s) = extend E C P (sp_unset m s)"
  by (simp add: extend_def sp_unset_def map_add_upd_left)

lemma destroy_members_framed:
  assumes f: "framed rel" and "destroy_members rel ms s = Inr s'"
  shows "shrinks s s' \<and> (apart E C P s \<longrightarrow> destroy_members rel ms (extend E C P s) = Inr (extend E C P s'))"
  using assms(2)
proof (induction ms arbitrary: s)
  case (Cons m ms)
  then obtain x s1 where x: "sp_env s m = Some x" and s1: "rel x s = Inr s1" and r: "destroy_members rel ms (sp_unset m s1) = Inr s'"
    by (auto simp: sp_value_def res_elims split: option.splits)
  note f1 = f [unfolded framed_def, rule_format, OF s1]
  have sh: "shrinks s (sp_unset m s1)" using shrinks_trans [OF conjunct1 [OF f1] shrinks_unset] .
  note IH = Cons.IH [OF r]
  show ?case
  proof (intro conjI impI)
    show "shrinks s s'" using shrinks_trans [OF sh] IH by blast
    assume ap: "apart E C P s"
    then have m: "m \<notin> dom E" "sp_env (extend E C P s) m = Some x"
      using map_add_found [of "sp_env s" m x E] x by (auto simp: apart_def extend_def)
    then show "destroy_members rel (m # ms) (extend E C P s) = Inr (extend E C P s')"
      using f1 ap IH shrinks_apart [OF sh ap] by (simp add: extend_unset)
  qed
qed simp

lemma destroy_members_gone:
  assumes f: "framed rel" and "destroy_members rel ms s = Inr s'" and "w \<in> set ms"
  shows "sp_env s' w = None"
  using assms(2-)
proof (induction ms arbitrary: s)
  case (Cons m ms)
  then obtain s1 where r: "destroy_members rel ms (sp_unset m s1) = Inr s'"
    by (auto simp: sp_value_def res_elims split: option.splits)
  have "sp_env s' \<subseteq>\<^sub>m sp_env (sp_unset m s1)" using destroy_members_framed [OF f r] unfolding shrinks_def by blast
  then have "dom (sp_env s') \<subseteq> dom (sp_env s1) - {m}" using map_le_implies_dom_le by fastforce
  then have "sp_env s' m = None" by (auto simp: domIff)
  then show ?case using Cons.IH [OF r] Cons.prems(2) by auto
qed simp

lemma sp_delete_framed:
  assumes f: "framed rel" and d: "sp_delete rel p s = Inr s'"
  shows "shrinks s s' \<and> (apart E C P s \<longrightarrow> sp_delete rel p (extend E C P s) = Inr (extend E C P s'))"
proof (cases p)
  case (Some a)
  then obtain ms s1 where ms: "sp_objs s a = Some ms" and s1: "destroy_members rel (rev ms) s = Inr s1"
    and s': "s' = s1\<lparr>sp_objs := (sp_objs s1)(a := None)\<rparr>"
    using d by (auto simp: sp_delete_def res_elims split: option.splits)
  note f1 = destroy_members_framed [OF f s1]
  have "shrinks s1 s'" by (auto simp: s' shrinks_def map_le_def)
  moreover have "sp_delete rel p (extend E C P s) = Inr (extend E C P s')" if ap: "apart E C P s"
  proof -
    have "a \<notin> dom P" "sp_objs (extend E C P s) a = Some ms"
      using map_add_found [of "sp_objs s" a ms P] ms ap by (auto simp: apart_def extend_def)
    then show ?thesis using f1 ap Some by (simp add: sp_delete_def s') (simp add: extend_def map_add_upd_left)
  qed
  ultimately show ?thesis using f1 shrinks_trans by blast
qed (use d in \<open>auto simp: sp_delete_def\<close>)

lemma sp_release_framed: "framed (sp_release n)"
proof (induction n)
  case (Suc n)
  show ?case unfolding framed_def
  proof (intro allI impI)
    fix x :: sptr and s s' :: "'a sp_state" and E C P
    assume r: "sp_release (Suc n) x s = Inr s'"
    show "shrinks s s' \<and> (apart E C P s \<longrightarrow> sp_release (Suc n) x (extend E C P s) = Inr (extend E C P s'))"
    proof (cases "snd x")
      case None
      then show ?thesis using r by simp
    next
      case (Some c)
      then obtain k where k: "sp_cnt s c = Some k" using r by (auto split: option.splits)
      let ?s1 = "s\<lparr>sp_cnt := (sp_cnt s)(c \<mapsto> k - 1)\<rparr>"
      have sh1: "shrinks s ?s1" using k by (auto simp: shrinks_def)
      have ext: "c \<notin> dom C" "sp_cnt (extend E C P s) c = Some k"
        "(extend E C P s)\<lparr>sp_cnt := (sp_cnt (extend E C P s))(c \<mapsto> k - 1)\<rparr> = extend E C P ?s1" if "apart E C P s"
        using map_add_found [of "sp_cnt s" c k C] k that by (auto simp: apart_def extend_def map_add_upd_left)
      show ?thesis
      proof (cases "k - 1 = 0")
        case True
        then obtain s2 where s2: "sp_delete (sp_release n) (fst x) ?s1 = Inr s2" and s': "s' = s2\<lparr>sp_cnt := (sp_cnt s2)(c := None)\<rparr>"
          using r Some k by (auto simp: Let_def res_elims)
        note f2 = sp_delete_framed [OF Suc.IH s2]
        have sh2: "shrinks s2 s'" by (auto simp: s' shrinks_def)
        have "sp_release (Suc n) x (extend E C P s) = Inr (extend E C P s')" if ap: "apart E C P s"
        proof -
          have "sp_delete (sp_release n) (fst x) (extend E C P ?s1) = Inr (extend E C P s2)"
            using f2 shrinks_apart [OF sh1 ap] by blast
          then have "sp_release (Suc n) x (extend E C P s) = Inr ((extend E C P s2)\<lparr>sp_cnt := (sp_cnt (extend E C P s2))(c := None)\<rparr>)"
            using ext [OF ap] Some True by (simp add: Let_def)
          also have "\<dots> = Inr (extend E C P s')" using ext(1) [OF ap] by (simp add: s' extend_def map_add_upd_left)
          finally show ?thesis .
        qed
        then show ?thesis using shrinks_trans [OF sh1] f2 sh2 shrinks_trans by blast
      next
        case False
        then have "s' = ?s1" using r Some k by (simp add: Let_def)
        moreover have "sp_release (Suc n) x (extend E C P s) = Inr (extend E C P ?s1)" if "apart E C P s"
          using ext [OF that] Some False by (simp add: Let_def)
        ultimately show ?thesis using sh1 by simp
      qed
    qed
  qed
qed (simp add: framed_def)

text \<open>
  Releasing the reference of a pointer that is no member of an object: with fuel for every live object the cascade
  ends, and what remains is a consistent store without that pointer in which all other pointers that were no members
  have kept their values.
\<close>

definition released :: "'v \<Rightarrow> 'v sp_state \<Rightarrow> 'v sp_state \<Rightarrow> bool" where
  "released v s s' \<longleftrightarrow> sp_inv s' \<and> shrinks s s' \<and> sp_env s' v = None \<and> (\<forall>u. u \<noteq> v \<longrightarrow> \<not> owned s u \<longrightarrow> sp_env s' u = sp_env s u)"

lemma destroy_members_released:
  assumes IH: "\<And>(s :: 'v sp_state) v x. sp_inv s \<Longrightarrow> sp_env s v = Some x \<Longrightarrow> \<not> owned s v \<Longrightarrow> card (dom (sp_objs s)) < n \<Longrightarrow>
     \<exists>s'. sp_release n x s = Inr (sp_set v x s') \<and> released v s s'"
    and "sp_inv (s :: 'v sp_state)" "distinct ms" "\<forall>m \<in> set ms. m \<in> dom (sp_env s) \<and> \<not> owned s m" "card (dom (sp_objs s)) < n" "finite (dom (sp_objs s))"
  shows "\<exists>s'. destroy_members (sp_release n) ms s = Inr s' \<and> sp_inv s' \<and> shrinks s s' \<and>
    (\<forall>u. u \<notin> set ms \<longrightarrow> \<not> owned s u \<longrightarrow> sp_env s' u = sp_env s u)"
  using assms(2-)
proof (induction ms arbitrary: s)
  case (Cons m ms)
  then obtain x where x: "sp_env s m = Some x" by auto
  then obtain s1 where s1: "sp_release n x s = Inr (sp_set m x s1)" and r: "released m s s1"
    using IH [of s m x] Cons.prems by auto
  have sub: "sp_objs s1 \<subseteq>\<^sub>m sp_objs s" "sp_inv s1" "shrinks s s1" using r by (auto simp: released_def shrinks_def)
  have own: "owned s u" if "owned s1 u" for u using that sub(1) unfolding owned_def map_le_def by (metis domI)
  have keep: "sp_env s1 u = sp_env s u" if "u \<noteq> m" "\<not> owned s u" for u using r that by (auto simp: released_def)
  have gone: "sp_unset m (sp_set m x s1) = s1" using r by (auto simp: released_def sp_unset_def fun_upd_idem)
  have "card (dom (sp_objs s1)) \<le> card (dom (sp_objs s))"
    using Cons.prems(5) map_le_implies_dom_le [OF sub(1)] by (rule card_mono)
  moreover have "\<forall>u \<in> set ms. u \<in> dom (sp_env s1) \<and> \<not> owned s1 u"
    using Cons.prems(2,3) keep own by (metis distinct.simps(2) domIff list.set_intros(2))
  ultimately have "\<exists>s'. destroy_members (sp_release n) ms s1 = Inr s' \<and> sp_inv s' \<and> shrinks s1 s' \<and>
    (\<forall>u. u \<notin> set ms \<longrightarrow> \<not> owned s1 u \<longrightarrow> sp_env s' u = sp_env s1 u)"
    using Cons.prems(2,4,5) sub(2) finite_subset [OF map_le_implies_dom_le [OF sub(1)]] by (intro Cons.IH) simp_all
  then obtain s' where s': "destroy_members (sp_release n) ms s1 = Inr s'" "sp_inv s'" "shrinks s1 s'"
    "\<forall>u. u \<notin> set ms \<longrightarrow> \<not> owned s1 u \<longrightarrow> sp_env s' u = sp_env s1 u" by blast
  then have "destroy_members (sp_release n) (m # ms) s = Inr s'" using x s1 gone by simp
  then show ?case using s' keep own shrinks_trans [OF sub(3)] by (intro exI [of _ s']) auto
qed simp

lemma sp_inv_finite: "sp_inv s \<Longrightarrow> finite (dom (sp_objs s))"
proof -
  assume inv: "sp_inv s"
  have "pointees (sp_env s) \<subseteq> (\<lambda>v. the (fst (the (sp_env s v)))) ` dom (sp_env s)" by (force simp: pointees_def)
  moreover have "finite (dom (sp_env s))" using inv by (simp add: sp_inv_def env_ok_def)
  ultimately show ?thesis using inv finite_subset by (auto simp: sp_inv_def)
qed

lemma sp_release_ok:
  "sp_inv s \<Longrightarrow> sp_env s v = Some x \<Longrightarrow> \<not> owned s v \<Longrightarrow> card (dom (sp_objs s)) < n \<Longrightarrow>
     \<exists>s'. sp_release n x s = Inr (sp_set v x s') \<and> released v s s'"
proof (induction n arbitrary: s v x)
  case (Suc n)
  note inv = Suc.prems(1) and v = Suc.prems(2) and o = Suc.prems(3)
  have ok: "env_ok (sp_env s)" using inv by (simp add: sp_inv_def)
  have same: "sp_set v x (sp_unset v t) = t" if "sp_env t v = Some x" for t using that by (simp add: sp_set_def fun_upd_idem)
  have shu: "shrinks s (sp_unset v s)" by (rule shrinks_unset)
  consider "x = (None, None)" | a c where "x = (Some a, Some c)" using env_ok_shape [OF ok v] by blast
  then show ?case
  proof cases
    case 1
    then have "sp_inv (sp_unset v s)" using sp_inv_unset [OF sp_inv_null [OF inv] o] v by simp
    then show ?thesis using 1 v same by (intro exI [of _ "sp_unset v s"]) (simp add: released_def shrinks_unset)
  next
    case (2 a c)
    note va = v [unfolded 2] and live = sp_inv_live [OF inv v [unfolded 2]]
    let ?R = "ref_set (sp_env s) c"
    let ?s1 = "s\<lparr>sp_cnt := (sp_cnt s)(c \<mapsto> int (card ?R) - 1)\<rparr>"
    show ?thesis
    proof (cases "card ?R = 1")
      case False
      have "sp_inv (sp_unset v ?s1)" using sp_inv_drop [OF inv va False] o by (intro sp_inv_unset) (simp_all add: owned_def)
      moreover have "shrinks s (sp_unset v ?s1)" using live(3) by (auto simp: shrinks_def map_le_def)
      moreover have "sp_release (Suc n) x s = Inr (sp_set v x (sp_unset v ?s1))"
        using 2 live(3) False v same [of ?s1] by (simp add: Let_def)
      ultimately show ?thesis by (intro exI [of _ "sp_unset v ?s1"]) (simp add: released_def)
    next
      case True
      obtain ms where ms: "sp_objs s a = Some ms" using live(4) by blast
      let ?s0 = "sp_unset v (s\<lparr>sp_cnt := (sp_cnt s)(c := None), sp_objs := (sp_objs s)(a := None)\<rparr>)"
      let ?ext = "extend [v \<mapsto> x] [c \<mapsto> 0] [a \<mapsto> ms]"
      have inv0: "sp_inv ?s0" by (rule sp_inv_drop_last [OF inv va True o])
      have mem: "members_ok (sp_env s) (sp_objs s)" using inv by (simp add: sp_inv_def)
      have own0: "owned ?s0 u \<longleftrightarrow> owned s u \<and> u \<notin> set ms" for u
        using mem ms unfolding members_ok_def owned_def by (auto split: if_splits) (metis disjoint_iff option.inject)+
      have vm: "v \<notin> set ms" using o ms by (auto simp: owned_def)
      have lt: "card (dom (sp_objs ?s0)) < n"
        using Suc.prems(4) sp_inv_finite [OF inv] live(4) card_Diff_singleton [OF live(4)] card_gt_0_iff [of "dom (sp_objs s)"] by auto
      have dm: "set ms \<subseteq> dom (sp_env s)" "distinct (rev ms)" using mem ms unfolding members_ok_def by auto
      then have "\<forall>m \<in> set (rev ms). m \<in> dom (sp_env ?s0)" using vm by simp blast
      then have live0: "\<forall>m \<in> set (rev ms). m \<in> dom (sp_env ?s0) \<and> \<not> owned ?s0 m" using own0 by simp
      have "\<exists>t. destroy_members (sp_release n) (rev ms) ?s0 = Inr t \<and> sp_inv t \<and> shrinks ?s0 t \<and>
        (\<forall>u. u \<notin> set (rev ms) \<longrightarrow> \<not> owned ?s0 u \<longrightarrow> sp_env t u = sp_env ?s0 u)"
        by (rule destroy_members_released [OF _ inv0 dm(2) live0 lt sp_inv_finite [OF inv0]]) (rule Suc.IH)
      then obtain t where t: "destroy_members (sp_release n) (rev ms) ?s0 = Inr t" "sp_inv t" "shrinks ?s0 t"
        "\<forall>u. u \<notin> set (rev ms) \<longrightarrow> \<not> owned ?s0 u \<longrightarrow> sp_env t u = sp_env ?s0 u" by blast
      have big: "?s1 = ?ext ?s0" using True v ms 2 by (auto simp: extend_def sp_unset_def map_add_def fun_eq_iff intro!: sp_state.equality)
      have ap: "apart [v \<mapsto> x] [c \<mapsto> 0] [a \<mapsto> ms] ?s0" by (simp add: apart_def)
      have d: "destroy_members (sp_release n) (rev ms) ?s1 = Inr (?ext t)"
        using destroy_members_framed [OF sp_release_framed t(1)] ap big by simp
      have gone: "sp_env t v = None" "sp_cnt t c = None" "sp_objs t a = None"
        using shrinks_apart [OF t(3) ap] by (auto simp: apart_def)
      have "sp_release (Suc n) x s = Inr (sp_set v x t)"
        using live(3) True 2 ms d gone by (simp add: Let_def sp_delete_def extend_def sp_set_def map_add_def fun_eq_iff split: option.splits)
      moreover have "shrinks s ?s0" by (auto simp: shrinks_def map_le_def)
      then have "shrinks s t" using t(3) shrinks_trans by blast
      moreover have "sp_env t u = sp_env s u" if "u \<noteq> v" "\<not> owned s u" for u
      proof -
        have "u \<notin> set ms" using that ms by (auto simp: owned_def)
        then show ?thesis using t(4) own0 that by simp
      qed
      ultimately show ?thesis using t(2) gone by (intro exI [of _ t]) (simp add: released_def)
    qed
  qed
qed simp

section \<open>The operations keep the store consistent\<close>

text \<open>A null variable may take over a reference that another variable holds.\<close>

lemma sp_acquire_ok:
  assumes inv: "sp_inv s" and v: "sp_env s v = None \<or> sp_env s v = Some (None, None)"
    and w: "sp_env s w = Some x" "w \<noteq> v"
  shows "\<exists>s'. sp_acquire x (sp_set v x s) = Inr s' \<and> sp_inv s'"
proof -
  have ok: "env_ok (sp_env s)" and cnt: "sp_cnt s = ref_cnt (sp_env s)"
    using inv by (auto simp: sp_inv_def)
  then consider "x = (None, None)" | a c where "x = (Some a, Some c)"
    using env_ok_shape [OF ok w(1)] by blast
  then show ?thesis
  proof cases
    case 1
    with inv v show ?thesis by (auto simp: sp_acquire_def intro: sp_inv_null)
  next
    case (2 a c)
    have ne: "ref_set (sp_env s) c \<noteq> {}" using w 2 by (auto simp: ref_set_def)
    have "ref_cnt ((sp_env s)(v \<mapsto> x)) = (ref_cnt (sp_env s))(c \<mapsto> int (card (ref_set (sp_env s) c)) + 1)"
      unfolding 2 using ok v by (intro ref_cnt_add ne) (auto simp: env_ok_def)
    moreover have "pointees ((sp_env s)(v \<mapsto> x)) = pointees (sp_env s)"
      using v w 2 pointees_upd [of "sp_env s" v x] by (auto simp: pointees_def)
    moreover have "env_ok ((sp_env s)(v \<mapsto> x))"
      using ok v w 2 by (auto simp: env_ok_def split: if_splits; metis)
    moreover have "members_ok ((sp_env s)(v \<mapsto> x)) (sp_objs s)"
      using members_ok_mono [of "sp_env s" "sp_objs s" "(sp_env s)(v \<mapsto> x)"] inv by (simp add: sp_inv_def subset_insertI)
    ultimately show ?thesis
      using inv ne 2 cnt by (simp add: sp_acquire_def sp_inv_def ref_cnt_def)
  qed
qed

lemma sp_adopt_ok:
  assumes inv: "sp_inv s" and v: "sp_env s v = None \<or> sp_env s v = Some (None, None)" and new: "sp_new a ms c s"
  shows "sp_inv (sp_construct v (Some (a, ms)) c s)"
proof -
  have ok: "env_ok (sp_env s)" and mem: "members_ok (sp_env s) (sp_objs s)" using inv by (simp_all add: sp_inv_def)
  have a: "a \<notin> pointees (sp_env s)" and ms: "distinct ms" "set ms \<subseteq> dom (sp_env s)" "\<And>m. m \<in> set ms \<Longrightarrow> \<not> owned s m"
    using new inv by (auto simp: sp_new_def sp_inv_def)
  have emp: "ref_set (sp_env s) c = {}"
    using inv new by (auto simp: sp_inv_def sp_new_def ref_cnt_def split: if_splits)
  have nov: "v \<notin> ref_set (sp_env s) e" for e using v by (auto simp: ref_set_def)
  have "ref_cnt ((sp_env s)(v \<mapsto> (Some a, Some c))) = (ref_cnt (sp_env s))(c \<mapsto> 1)"
    using emp nov by (auto simp: ref_cnt_def ref_set_upd fun_eq_iff)
  moreover have "pointees ((sp_env s)(v \<mapsto> (Some a, Some c))) = insert a (pointees (sp_env s))"
    using v by (simp add: pointees_upd)
  moreover have "sp_env s w \<noteq> Some (Some a, n)" "sp_env s w \<noteq> Some (d, Some c)" for w n d
    using a emp by (auto simp: pointees_def ref_set_def)
  then have "env_ok ((sp_env s)(v \<mapsto> (Some a, Some c)))"
    using ok by (auto simp: env_ok_def)
  moreover have "members_ok (sp_env s) ((sp_objs s)(a \<mapsto> ms))"
    using mem ms unfolding members_ok_def owned_def by (auto split: if_splits; blast)
  then have "members_ok ((sp_env s)(v \<mapsto> (Some a, Some c))) ((sp_objs s)(a \<mapsto> ms))"
    using members_ok_mono [of "sp_env s" "(sp_objs s)(a \<mapsto> ms)" "(sp_env s)(v \<mapsto> (Some a, Some c))"] by (simp add: subset_insertI)
  ultimately show ?thesis
    using inv by (simp add: sp_construct_def sp_adopt_def sp_inv_def)
qed

text \<open>
  The release at the start of \<open>reset\<close> and of the assignments: the pointer is still there and the store is consistent
  once it is set to null. The source of the assignment is still there too.
\<close>

lemma sp_release_first:
  assumes inv: "sp_inv s" and v: "sp_env s v = Some x" and c: "sp_shared v s \<or> \<not> owned s v" and n: "card (dom (sp_objs s)) < n"
  shows "\<exists>s'. sp_release n x s = Inr s' \<and> sp_env s' v = Some x \<and> sp_inv (sp_set v (None, None) s') \<and> shrinks s s' \<and>
    (\<forall>w. w \<noteq> v \<longrightarrow> sp_shared v s \<or> \<not> owned s w \<longrightarrow> sp_env s' w = sp_env s w)"
proof (cases "sp_shared v s")
  case False
  then obtain t where t: "sp_release n x s = Inr (sp_set v x t)" and r: "released v s t"
    using sp_release_ok [OF inv v _ n] c by blast
  have "sp_inv (sp_set v (None, None) t)" by (rule sp_inv_null) (use r in \<open>simp_all add: released_def\<close>)
  moreover have "shrinks s (sp_set v x t)" using r v unfolding released_def shrinks_def map_le_def by (auto simp: dom_def)
  ultimately show ?thesis using t r False by (intro exI [of _ "sp_set v x t"]) (auto simp: released_def)
next
  case True
  obtain n' where n': "n = Suc n'" using n by (cases n) auto
  have ok: "env_ok (sp_env s)" using inv by (simp add: sp_inv_def)
  consider "x = (None, None)" | a c where "x = (Some a, Some c)" using env_ok_shape [OF ok v] by blast
  then show ?thesis
  proof cases
    case 1
    then show ?thesis using sp_inv_null [OF inv, of v] v n' by (intro exI [of _ s]) simp
  next
    case (2 a c)
    let ?R = "ref_set (sp_env s) c"
    let ?s1 = "s\<lparr>sp_cnt := (sp_cnt s)(c \<mapsto> int (card ?R) - 1)\<rparr>"
    note live = sp_inv_live [OF inv v [unfolded 2]]
    have R: "card ?R \<noteq> 1" using True v 2 live(3) by (auto simp: sp_shared_def use_count_def)
    then have "sp_release n x s = Inr ?s1" using 2 live(3) n' by (simp add: Let_def)
    moreover have "shrinks s ?s1" using live(3) by (auto simp: shrinks_def)
    ultimately show ?thesis using sp_inv_drop [OF inv v [unfolded 2] R] v by (intro exI [of _ ?s1]) simp
  qed
qed

lemma sp_copy_ok:
  assumes "sp_inv s" and "sp_env s v = None" and "sp_env s w = Some x"
  shows "\<exists>s'. sp_copy v w s = Inr s' \<and> sp_inv s'"
proof -
  have "w \<noteq> v" using assms by auto
  then show ?thesis using sp_acquire_ok [OF assms(1) _ assms(3), of v] assms(2,3) by (simp add: sp_copy_def)
qed

lemma sp_destroy_ok:
  assumes "sp_inv s" and "sp_env s v = Some x" and "\<not> owned s v" and "card (dom (sp_objs s)) < n"
  shows "\<exists>s'. sp_destroy n v s = Inr s' \<and> sp_inv s'"
proof -
  obtain t where t: "sp_release n x s = Inr (sp_set v x t)" "released v s t" using sp_release_ok [OF assms] by blast
  moreover from t(2) have "sp_unset v t = t" by (simp add: released_def sp_unset_def fun_upd_idem)
  ultimately show ?thesis using assms(2) by (simp add: sp_destroy_def released_def)
qed

lemma sp_assign_ok:
  assumes "sp_inv s" and v: "sp_env s v = Some x" and w: "sp_env s w = Some y" "w \<noteq> v"
    and c: "sp_shared v s \<or> \<not> owned s v \<and> \<not> owned s w" and n: "card (dom (sp_objs s)) < n"
  shows "\<exists>s'. sp_assign n v w s = Inr s' \<and> sp_inv s'"
proof -
  obtain s1 where s1: "sp_release n x s = Inr s1" "sp_env s1 v = Some x" "sp_inv (sp_set v (None, None) s1)" "sp_env s1 w = Some y"
    using sp_release_first [OF assms(1) v _ n] c w by metis
  then show ?thesis
    using sp_acquire_ok [OF s1(3), of v w y] v w by (simp add: sp_assign_def)
qed

lemma sp_move_inv:
  assumes inv: "sp_inv s" and v: "sp_env s v = None \<or> sp_env s v = Some (None, None)"
    and w: "sp_env s w = Some x" "w \<noteq> v"
  shows "sp_inv (sp_set w (None, None) (sp_set v x s))"
proof -
  let ?env = "(sp_env s)(v \<mapsto> x, w \<mapsto> (None, None))"
  have ok: "env_ok (sp_env s)" using inv by (simp add: sp_inv_def)
  have "card (ref_set ?env c) = card (ref_set (sp_env s) c) \<and> (ref_set ?env c = {} \<longleftrightarrow> ref_set (sp_env s) c = {})"
    for c
  proof (cases "snd x = Some c")
    case True
    then have m: "w \<in> ref_set (sp_env s) c" "v \<notin> ref_set (sp_env s) c"
      using v w by (cases x; auto simp: ref_set_def)+
    then have "ref_set ?env c = insert v (ref_set (sp_env s) c - {w})"
      using True w(2) by (auto simp: ref_set_upd)
    then show ?thesis
      using m finite_ref_set [of "sp_env s" c] ok card_Suc_Diff1 [of "ref_set (sp_env s) c" w]
      by (auto simp: env_ok_def)
  next
    case False
    then have "v \<notin> ref_set (sp_env s) c" "w \<notin> ref_set (sp_env s) c"
      using v w by (auto simp: ref_set_def)
    with False show ?thesis by (simp add: ref_set_upd)
  qed
  then have "ref_cnt ?env = ref_cnt (sp_env s)"
    by (simp add: ref_cnt_def fun_eq_iff)
  moreover have "pointees ?env = pointees (sp_env s)"
  proof (intro set_eqI iffI)
    fix a assume "a \<in> pointees ?env"
    then obtain u n where "?env u = Some (Some a, n)" by (auto simp: pointees_def)
    then have "sp_env s (if u = v then w else u) = Some (Some a, n)" using w by (auto split: if_splits)
    then show "a \<in> pointees (sp_env s)" unfolding pointees_def by blast
  next
    fix a assume "a \<in> pointees (sp_env s)"
    then obtain u n where "sp_env s u = Some (Some a, n)" by (auto simp: pointees_def)
    then have "?env (if u = w then v else u) = Some (Some a, n)" using v w by auto
    then show "a \<in> pointees ?env" unfolding pointees_def by blast
  qed
  moreover have "env_ok ?env"
    by (rule env_ok_from [OF ok]) (use ok w in \<open>auto simp: env_ok_def split: if_splits\<close>)
  moreover have "members_ok ?env (sp_objs s)"
    by (rule members_ok_mono [of "sp_env s"]) (use inv in \<open>auto simp: sp_inv_def\<close>)
  ultimately show ?thesis
    using inv by (simp add: sp_inv_def)
qed

lemma sp_move_assign_ok:
  assumes "sp_inv s" and v: "sp_env s v = Some x" and w: "sp_env s w = Some y"
    and c: "sp_shared v s \<or> \<not> owned s v \<and> \<not> owned s w" and n: "card (dom (sp_objs s)) < n"
  shows "\<exists>s'. sp_move_assign n v w s = Inr s' \<and> sp_inv s'"
proof (cases "v = w")
  case False
  obtain s1 where s1: "sp_release n x s = Inr s1" "sp_env s1 v = Some x" "sp_inv (sp_set v (None, None) s1)" "sp_env s1 w = Some y"
    using sp_release_first [OF assms(1) v _ n] c w False by metis
  have "sp_inv (sp_set w (None, None) (sp_set v y (sp_set v (None, None) s1)))"
    by (rule sp_move_inv [OF s1(3)]) (use s1(4) False in auto)
  with s1 v w False show ?thesis by (simp add: sp_move_assign_def)
qed (simp add: sp_move_assign_def assms)

lemma sp_new_shrinks:
  assumes "sp_new a ms c s" and "shrinks s s'" and "v \<notin> set ms" and k: "\<forall>m. m \<noteq> v \<longrightarrow> \<not> owned s m \<longrightarrow> sp_env s' m = sp_env s m"
  shows "sp_new a ms c (sp_set v x s')"
proof -
  have "owned s m" if "owned s' m" for m
    using that assms(2) unfolding owned_def shrinks_def map_le_def by (metis domI)
  moreover have "sp_objs s' a = None" "sp_cnt s' c = None"
    using assms(1,2) map_le_implies_dom_le unfolding sp_new_def shrinks_def by (metis domIff subsetD)+
  moreover have "m \<noteq> v" if "m \<in> set ms" for m using that assms(3) by blast
  ultimately show ?thesis using assms(1) k unfolding sp_new_def by (auto simp: domIff)
qed

lemma sp_reset_ok:
  assumes inv: "sp_inv s" and v: "sp_env s v = Some x" and sh: "sp_shared v s \<or> \<not> owned s v" and n: "card (dom (sp_objs s)) < n"
    and p: "p = None \<or> (\<exists>a ms. p = Some (a, ms) \<and> sp_new a ms c s \<and> v \<notin> set ms)"
  shows "\<exists>s'. sp_reset n v p c s = Inr s' \<and> sp_inv s'"
proof (cases "map_option fst p = fst x")
  case False
  obtain s1 where s1: "sp_release n x s = Inr s1" "sp_env s1 v = Some x" "sp_inv (sp_set v (None, None) s1)" "shrinks s s1"
    and k: "\<forall>w. w \<noteq> v \<longrightarrow> \<not> owned s w \<longrightarrow> sp_env s1 w = sp_env s w"
    using sp_release_first [OF inv v sh n] by blast
  from p consider "p = None" | a ms where "p = Some (a, ms)" "sp_new a ms c s" "v \<notin> set ms" by blast
  then show ?thesis
  proof cases
    case 1
    then show ?thesis using s1 v False by (simp add: sp_reset_def sp_adopt_def)
  next
    case (2 a ms)
    have "sp_inv (sp_construct v (Some (a, ms)) c (sp_set v (None, None) s1))"
      by (rule sp_adopt_ok [OF s1(3) _ sp_new_shrinks [OF 2(2) s1(4) 2(3) k]]) simp
    with 2 s1 v False show ?thesis by (simp add: sp_reset_def sp_construct_def sp_adopt_def sp_store_def sp_value_def sp_set_def)
  qed
qed (simp add: sp_reset_def inv v)

lemma sp_step_ok:
  assumes "sp_step s r" and "sp_inv s"
  shows "\<exists>s'. r = Inr s' \<and> sp_inv s'"
  using assms
proof cases
  case (construct_null v c)
  then show ?thesis
    using sp_inv_null [OF assms(2), of v] by (simp add: sp_construct_def sp_adopt_def)
next
  case (construct v a ms c)
  then show ?thesis using sp_adopt_ok [OF assms(2), of v a ms c] by simp
next
  case (move v w)
  then obtain x where w: "sp_env s w = Some x" by auto
  then have "w \<noteq> v" using move(2) by auto
  then show ?thesis
    using sp_move_inv [OF assms(2), of v w x] move w by (simp add: sp_move_def)
qed (use assms(2) in \<open>auto intro: sp_copy_ok sp_destroy_ok sp_assign_ok sp_move_assign_ok sp_reset_ok\<close>)

lemma sp_inv_init: "sp_inv sp_init"
  by (auto simp: sp_inv_def sp_init_def env_ok_def pointees_def ref_cnt_def ref_set_def members_ok_def)

lemma sp_reachable_inv: "sp_reachable s \<Longrightarrow> sp_inv s"
proof (induction rule: sp_reachable.induct)
  case start
  show ?case by (rule sp_inv_init)
next
  case (step s s')
  then show ?case using sp_step_ok by fastforce
qed
text \<open>The last pointer to an object that is no member of one: releasing it ends the life of the object's members.\<close>

lemma sp_release_last:
  assumes inv: "sp_inv s" and v: "sp_env s v = Some (Some a, Some c)" and o: "\<not> owned s v" and u: "use_count v s = Inr 1"
    and n: "card (dom (sp_objs s)) < n"
  shows "\<exists>s'. sp_release n (Some a, Some c) s = Inr s' \<and> sp_env s' v = Some (Some a, Some c) \<and> sp_cnt s' c = None \<and> a \<notin> dom (sp_objs s') \<and>
    (\<forall>ms w. sp_objs s a = Some ms \<longrightarrow> w \<in> set ms \<longrightarrow> sp_env s' w = None)"
proof -
  obtain t where t: "sp_release n (Some a, Some c) s = Inr (sp_set v (Some a, Some c) t)" and r: "released v s t"
    using sp_release_ok [OF inv v o n] by blast
  obtain n' where n': "n = Suc n'" using n by (cases n) auto
  note live = sp_inv_live [OF inv v]
  have one: "sp_cnt s c = Some 1" using u v live(3) by (auto simp: use_count_def)
  obtain ms where ms: "sp_objs s a = Some ms" using live(4) by blast
  let ?s1 = "s\<lparr>sp_cnt := (sp_cnt s)(c \<mapsto> 0)\<rparr>"
  have "\<exists>s2. destroy_members (sp_release n') (rev ms) ?s1 = Inr s2 \<and> sp_set v (Some a, Some c) t = s2\<lparr>sp_objs := (sp_objs s2)(a := None), sp_cnt := (sp_cnt s2)(c := None)\<rparr>"
    using t one ms n' by (auto simp: Let_def sp_delete_def res_elims)
  then obtain s2 where s2: "destroy_members (sp_release n') (rev ms) ?s1 = Inr s2"
    and eq: "sp_set v (Some a, Some c) t = s2\<lparr>sp_objs := (sp_objs s2)(a := None), sp_cnt := (sp_cnt s2)(c := None)\<rparr>" by blast
  have "sp_env s2 w = None" if "w \<in> set (rev ms)" for w by (rule destroy_members_gone [OF sp_release_framed s2 that])
  moreover have "sp_cnt t c = None" "a \<notin> dom (sp_objs t)" "(sp_env t)(v \<mapsto> (Some a, Some c)) = sp_env s2"
    using arg_cong [OF eq, of sp_cnt] arg_cong [OF eq, of sp_objs] arg_cong [OF eq, of sp_env] by (auto simp: fun_eq_iff split: if_splits)
  moreover from this(3) have "sp_env s2 v = Some (Some a, Some c)" by (metis fun_upd_same)
  ultimately show ?thesis using t ms by (intro exI [of _ "sp_set v (Some a, Some c) t"]) simp
qed

section \<open>Properties\<close>

text \<open>
  C29. Shared pointers never touch freed memory. A program constructs, copies, moves, assigns, resets and destroys
  shared pointers, some of which are members of objects that are themselves held by shared pointers and are destroyed,
  in a cascade, with the last pointer to them. It destroys only pointers that are no members, does not copy-assign a
  pointer to itself and, when a pointer is the only one to its object, assigns or resets it only if neither it nor the pointer
  assigned to it is a member of an object. In every state such a program reaches, each further step
  succeeds and leaves a store in which every counter equals the number of pointers that share it, the
  live objects are exactly those pointed to and the members of live objects are live.
\<close>
theorem shared_pointers_safe:
  assumes "sp_reachable s" and "sp_step s r"
  shows "\<exists>s'. r = Inr s' \<and> sp_inv s'"
  using sp_step_ok [OF assms(2) sp_reachable_inv [OF assms(1)]] .

text \<open>
  Two directory entries: the entry at 9 has a member that holds the only pointer to the entry at 8. Destroying the
  pointer to the first deletes both.
\<close>

definition two_entries :: "nat sp_state" where
  "two_entries = sp_construct 2 (Some (9, [1])) 4 (sp_construct 1 (Some (8, [])) 3 sp_init)"

lemmas sp_defs = sp_construct_def sp_adopt_def sp_set_def sp_init_def sp_new_def owned_def

lemma two_entries_reachable: "sp_reachable two_entries"
proof -
  have "sp_reachable (sp_construct 1 (Some (8, [])) 3 sp_init)"
    by (rule sp_reachable.step [OF sp_reachable.start sp_step.construct]) (simp_all add: sp_init_def sp_new_def)
  then show ?thesis unfolding two_entries_def
    by (rule sp_reachable.step) (rule sp_step.construct; auto simp: sp_defs split: if_splits)
qed

lemma two_entries_step: "sp_step two_entries (sp_destroy 3 2 two_entries)"
  by (rule sp_step.destroy) (auto simp: two_entries_def sp_defs card_insert_if split: if_splits)

theorem shared_pointers_safe_witness:
  "(\<exists>s'. sp_destroy 3 2 two_entries = Inr s' \<and> sp_inv s') \<and> sp_destroy 3 2 two_entries = Inr sp_init"
proof
  show "\<exists>s'. sp_destroy 3 2 two_entries = Inr s' \<and> sp_inv s'"
    by (rule shared_pointers_safe [OF two_entries_reachable two_entries_step])
  show "sp_destroy 3 2 two_entries = Inr sp_init"
    by (simp add: two_entries_def sp_defs sp_destroy_def sp_value_def sp_delete_def sp_unset_def numeral_3_eq_3 Let_def fun_eq_iff)
qed

text \<open>
  Copy-assigning the only pointer to an object to itself deletes the object and its counter and
  then increments the deleted counter.
\<close>
theorem shared_pointer_self_assign:
  assumes "sp_inv s" and "sp_env s v = Some (Some a, Some c)" and "\<not> owned s v" and "use_count v s = Inr 1" and "card (dom (sp_objs s)) < n"
  shows "sp_assign n v v s = Inl UseAfterFree"
proof -
  obtain s' where "sp_release n (Some a, Some c) s = Inr s'" "sp_env s' v = Some (Some a, Some c)" "sp_cnt s' c = None"
    using sp_release_last [OF assms] by blast
  with assms(2) show ?thesis by (simp add: sp_assign_def sp_acquire_def)
qed

theorem shared_pointer_self_assign_witness: "sp_assign 3 2 2 two_entries = Inl UseAfterFree"
  by (rule shared_pointer_self_assign [of _ _ 9 4, OF sp_reachable_inv [OF two_entries_reachable]])
    (auto simp: two_entries_def sp_defs use_count_def sp_value_def card_insert_if split: if_splits)

text \<open>
  Assigning to the only pointer to an object one of the object's own members, as in \<^verbatim>\<open>d = d->parent\<close>,
  deletes the object and then reads the destroyed member; the same holds for a move.
\<close>
theorem shared_pointer_member_assign:
  assumes "sp_inv s" and "sp_env s v = Some (Some a, Some c)" and "\<not> owned s v" and "use_count v s = Inr 1" and "card (dom (sp_objs s)) < n"
    and "sp_objs s a = Some ms" and "w \<in> set ms"
  shows "sp_assign n v w s = Inl UseAfterFree \<and> sp_move_assign n v w s = Inl UseAfterFree"
proof -
  obtain s' where "sp_release n (Some a, Some c) s = Inr s'" "sp_env s' w = None"
    using sp_release_last [OF assms(1-5)] assms(6,7) by blast
  moreover have "w \<noteq> v" using assms(3,6,7) by (auto simp: owned_def)
  ultimately show ?thesis using assms(2) by (simp add: sp_assign_def sp_move_assign_def sp_value_def)
qed

theorem shared_pointer_member_assign_witness:
  "sp_assign 3 2 1 two_entries = Inl UseAfterFree \<and> sp_move_assign 3 2 1 two_entries = Inl UseAfterFree"
  by (rule shared_pointer_member_assign [of _ _ 9 4 _ "[1]", OF sp_reachable_inv [OF two_entries_reachable]])
    (auto simp: two_entries_def sp_defs use_count_def sp_value_def card_insert_if split: if_splits)

end
