(* ===== verification/KString.thy ===== *)
theory KString
  imports Prelude
begin

text \<open>
  The kernel's string and memory routines, \<^verbatim>\<open>src/libc/kstring.cpp\<close>, and the character
  classes of \<^verbatim>\<open>src/libc/kctype.cpp\<close>. A pointer argument is the list of bytes from the
  pointer to the end of the object it points into; a read or write past that end is the
  failure \<open>OutOfBounds\<close>. A returned pointer is an offset into the argument. \<^verbatim>\<open>char\<close>
  is signed on i686, so the value of a byte is \<^const>\<open>sint\<close> where the code subtracts or
  compares bytes. Buffers are shorter than \<^term>\<open>2 ^ 31 :: nat\<close> bytes, so the counters of the
  loops do not wrap.
\<close>

section \<open>Model\<close>

type_synonym bytes = "u8 list"

fun strlen :: "bytes \<Rightarrow> nat res" where
  "strlen [] = Inl OutOfBounds"
| "strlen (c # str) = (if c \<noteq> 0 then bind_res (strlen str) (\<lambda>len. Inr (len + 1)) else Inr 0)"

fun memset :: "bytes \<Rightarrow> u8 \<Rightarrow> nat \<Rightarrow> bytes res" where
  "memset p val 0 = Inr p"
| "memset (x # p) val (Suc num) = bind_res (memset p val num) (\<lambda>r. Inr (val # r))"
| "memset [] val (Suc num) = Inl OutOfBounds"

text \<open>\<open>copy_z dest src\<close> is the loop \<^verbatim>\<open>while (*src) *dest++ = *src++; *dest = 0\<close>.\<close>

fun copy_z :: "bytes \<Rightarrow> bytes \<Rightarrow> bytes res" where
  "copy_z dest [] = Inl OutOfBounds"
| "copy_z [] (c # src) = Inl OutOfBounds"
| "copy_z (d # dest) (c # src) =
     (if c \<noteq> 0 then bind_res (copy_z dest src) (\<lambda>r. Inr (c # r)) else Inr (0 # dest))"

definition strcpy :: "bytes \<Rightarrow> bytes \<Rightarrow> bytes res" where
  "strcpy dest src = copy_z dest src"

text \<open>\<open>at_end f dest\<close> runs \<open>f\<close> from the terminator of \<open>dest\<close> on.\<close>

fun at_end :: "(bytes \<Rightarrow> bytes res) \<Rightarrow> bytes \<Rightarrow> bytes res" where
  "at_end f [] = Inl OutOfBounds"
| "at_end f (d # dest) =
     (if d \<noteq> 0 then bind_res (at_end f dest) (\<lambda>r. Inr (d # r)) else f (d # dest))"

definition strcat :: "bytes \<Rightarrow> bytes \<Rightarrow> bytes res" where
  "strcat dest src = at_end (\<lambda>d. copy_z d src) dest"

fun copy_zn :: "nat \<Rightarrow> bytes \<Rightarrow> bytes \<Rightarrow> bytes res" where
  "copy_zn ssize dest [] = Inl OutOfBounds"
| "copy_zn ssize [] (c # src) = Inl OutOfBounds"
| "copy_zn 0 (d # dest) (c # src) = Inr (0 # dest)"
| "copy_zn (Suc ssize) (d # dest) (c # src) =
     (if c \<noteq> 0 then bind_res (copy_zn ssize dest src) (\<lambda>r. Inr (c # r)) else Inr (0 # dest))"

definition strncat :: "bytes \<Rightarrow> bytes \<Rightarrow> nat \<Rightarrow> bytes res" where
  "strncat dest src ssize = at_end (\<lambda>d. copy_zn ssize d src) dest"

fun memcpy :: "bytes \<Rightarrow> bytes \<Rightarrow> nat \<Rightarrow> bytes res" where
  "memcpy d s 0 = Inr d"
| "memcpy (x # d) (y # s) (Suc n) = bind_res (memcpy d s n) (\<lambda>r. Inr (y # r))"
| "memcpy d s (Suc n) = Inl OutOfBounds"

fun strcmp :: "bytes \<Rightarrow> bytes \<Rightarrow> int res" where
  "strcmp (a # s1) (b # s2) =
     (if a \<noteq> 0 \<and> b \<noteq> 0 \<and> a = b then strcmp s1 s2 else Inr (sint a - sint b))"
| "strcmp s1 s2 = Inl OutOfBounds"

fun in_set :: "bytes \<Rightarrow> u8 \<Rightarrow> bool res" where
  "in_set [] c = Inl OutOfBounds"
| "in_set (x # s) c = (if x \<noteq> 0 then (if x = c then Inr True else in_set s c) else Inr False)"

text \<open>
  \<open>strtok_r\<close> works in place on the buffer \<open>buf\<close>; \<open>save\<close> is the offset held in
  \<^verbatim>\<open>*saveptr\<close>. \<open>skip_while\<close> is the loop that advances it while bytes are (or are not)
  in the delimiter set, and stops at the terminator.
\<close>

fun skip_while :: "bool \<Rightarrow> bytes \<Rightarrow> bytes \<Rightarrow> nat res" where
  "skip_while want delim [] = Inl OutOfBounds"
| "skip_while want delim (c # rest) =
     (if c = 0 then Inr 0
      else bind_res (in_set delim c) (\<lambda>m.
        if m = want then bind_res (skip_while want delim rest) (\<lambda>k. Inr (k + 1)) else Inr 0))"

definition strtok_r :: "bytes \<Rightarrow> nat option \<Rightarrow> bytes \<Rightarrow> nat \<Rightarrow> (nat option \<times> bytes \<times> nat) res" where
  "strtok_r buf str delim save0 =
     (let save = (case str of Some off \<Rightarrow> off | None \<Rightarrow> save0) in
      bind_res (skip_while True delim (drop save buf)) (\<lambda>k.
        let start = save + k in
        if buf ! start = 0 then Inr (None, buf, start)
        else bind_res (skip_while False delim (drop start buf)) (\<lambda>j.
          let stop = start + j in
          if buf ! stop \<noteq> 0 then Inr (Some start, buf[stop := 0], stop + 1)
          else Inr (Some start, buf, stop))))"

fun memcmp :: "bytes \<Rightarrow> bytes \<Rightarrow> nat \<Rightarrow> int res" where
  "memcmp s t 0 = Inr 0"
| "memcmp (x # s) (y # t) (Suc n) =
     (if x = y then memcmp s t n else if x < y then Inr (-1) else Inr 1)"
| "memcmp s t (Suc n) = Inl OutOfBounds"

fun to_lower_in_place :: "bytes \<Rightarrow> bytes res" where
  "to_lower_in_place [] = Inl OutOfBounds"
| "to_lower_in_place (c # str) =
     (if c \<noteq> 0
      then bind_res (to_lower_in_place str) (\<lambda>r. Inr ((if 65 \<le> c \<and> c \<le> 90 then c + 32 else c) # r))
      else Inr (c # str))"

text \<open>The inner loop of \<open>strspn\<close> and \<open>strcspn\<close>: the byte at which it stops.\<close>

fun scan_set :: "bytes \<Rightarrow> u8 \<Rightarrow> u8 res" where
  "scan_set [] c = Inl OutOfBounds"
| "scan_set (a # s) c = (if a \<noteq> 0 \<and> a \<noteq> c then scan_set s c else Inr a)"

fun strspn :: "bytes \<Rightarrow> bytes \<Rightarrow> nat res" where
  "strspn [] accept = Inl OutOfBounds"
| "strspn (c # s) accept =
     (if c = 0 then Inr 0
      else bind_res (scan_set accept c) (\<lambda>a.
        if a = 0 then Inr 0 else bind_res (strspn s accept) (\<lambda>r. Inr (r + 1))))"

fun strcspn :: "bytes \<Rightarrow> bytes \<Rightarrow> nat res" where
  "strcspn [] reject = Inl OutOfBounds"
| "strcspn (c # s) reject =
     (if c = 0 then Inr 0
      else bind_res (scan_set reject c) (\<lambda>a.
        if a \<noteq> 0 then Inr 0 else bind_res (strcspn s reject) (\<lambda>r. Inr (r + 1))))"

text \<open>\<open>malloc\<close> yields \<open>None\<close> or a fresh buffer of the requested size.\<close>

definition strdup :: "(nat \<Rightarrow> bytes option) \<Rightarrow> bytes \<Rightarrow> bytes option res" where
  "strdup malloc s =
     bind_res (strlen s) (\<lambda>len.
       case malloc (len + 1) of
         None \<Rightarrow> Inr None
       | Some dest \<Rightarrow> bind_res (memcpy dest s (len + 1)) (\<lambda>d. Inr (Some d)))"

definition strndup :: "(nat \<Rightarrow> bytes option) \<Rightarrow> bytes \<Rightarrow> nat \<Rightarrow> bytes option res" where
  "strndup malloc s n =
     bind_res (strlen s) (\<lambda>slen.
       let len = (if slen > n then n else slen) in
       case malloc (len + 1) of
         None \<Rightarrow> Inr None
       | Some dest \<Rightarrow> bind_res (memcpy (dest[len := 0]) s len) (\<lambda>d. Inr (Some d)))"

text \<open>
  \<open>memmove\<close> on one object: \<open>p\<close> and \<open>s\<close> are the offsets of the two pointers. The
  loops copy byte by byte, upwards or downwards.
\<close>

fun move_up :: "nat \<Rightarrow> nat \<Rightarrow> nat \<Rightarrow> nat \<Rightarrow> bytes \<Rightarrow> bytes" where
  "move_up p s i 0 m = m"
| "move_up p s i (Suc k) m = move_up p s (i + 1) k (m[p + i := m ! (s + i)])"

fun move_down :: "nat \<Rightarrow> nat \<Rightarrow> nat \<Rightarrow> bytes \<Rightarrow> bytes" where
  "move_down p s 0 m = m[p := m ! s]"
| "move_down p s (Suc i) m = move_down p s i (m[p + Suc i := m ! (s + Suc i)])"

definition memmove :: "bytes \<Rightarrow> nat \<Rightarrow> nat \<Rightarrow> nat \<Rightarrow> bytes res" where
  "memmove m p s n =
     (let ov = (if p \<ge> s \<and> s + n \<ge> p then s + n - p else 0) in
      if n = 0 then Inr m
      else if p + n > length m \<or> s + n > length m then Inl OutOfBounds
      else if ov > 0 then Inr (move_down p s (n - 1) m)
      else Inr (move_up p s 0 n m))"

fun strchr :: "bytes \<Rightarrow> u8 \<Rightarrow> nat option res" where
  "strchr [] c = Inl OutOfBounds"
| "strchr (x # s) c =
     (if x = 0 then Inr None
      else if x = c then Inr (Some 0)
      else bind_res (strchr s c) (\<lambda>r. Inr (map_option Suc r)))"

fun strnlen :: "bytes \<Rightarrow> nat \<Rightarrow> nat res" where
  "strnlen [] maxlen = Inl OutOfBounds"
| "strnlen (c # s) 0 = Inr 0"
| "strnlen (c # s) (Suc maxlen) = (if c \<noteq> 0 then bind_res (strnlen s maxlen) (\<lambda>l. Inr (l + 1)) else Inr 0)"

text \<open>The buffer after \<open>stpncpy\<close>, and the offset it returns (that of \<open>mempcpy\<close>).\<close>

definition mempcpy :: "bytes \<Rightarrow> bytes \<Rightarrow> nat \<Rightarrow> (nat \<times> bytes) res" where
  "mempcpy dest src n = bind_res (memcpy dest src n) (\<lambda>d. Inr (n, d))"

definition stpncpy :: "bytes \<Rightarrow> bytes \<Rightarrow> nat \<Rightarrow> (nat \<times> bytes) res" where
  "stpncpy dst src dsize =
     bind_res (strnlen src dsize) (\<lambda>dlen.
       bind_res (mempcpy dst src dlen) (\<lambda>(off, d).
         bind_res (memset (drop off d) 0 (dsize - dlen)) (\<lambda>tail. Inr (off, take off d @ tail))))"

definition strncpy :: "bytes \<Rightarrow> bytes \<Rightarrow> nat \<Rightarrow> bytes res" where
  "strncpy dst src dsize = bind_res (stpncpy dst src dsize) (\<lambda>(_, d). Inr d)"

fun strstr_match :: "bytes \<Rightarrow> bytes \<Rightarrow> bool res" where
  "strstr_match (a # inp) (b # patt) =
     (if a \<noteq> 0 \<and> b \<noteq> 0 \<and> a = b then strstr_match inp patt else Inr (b = 0))"
| "strstr_match inp patt = Inl OutOfBounds"

fun strstr_loop :: "bytes \<Rightarrow> bytes \<Rightarrow> nat \<Rightarrow> nat \<Rightarrow> nat option res" where
  "strstr_loop haystack needle i 0 = Inr None"
| "strstr_loop haystack needle i (Suc k) =
     bind_res (strstr_match (drop i haystack) needle) (\<lambda>m.
       if m then Inr (Some i) else strstr_loop haystack needle (i + 1) k)"

definition strstr :: "bytes \<Rightarrow> bytes \<Rightarrow> nat option res" where
  "strstr haystack needle =
     bind_res (strlen needle) (\<lambda>nl.
       if nl = 0 then Inr None
       else bind_res (strlen haystack) (\<lambda>hl.
         if nl > hl then Inr None else strstr_loop haystack needle 0 (hl - nl + 1)))"

fun memmem_loop :: "bytes \<Rightarrow> bytes \<Rightarrow> nat \<Rightarrow> nat \<Rightarrow> nat \<Rightarrow> nat option res" where
  "memmem_loop h n nlen i 0 = Inr None"
| "memmem_loop h n nlen i (Suc k) =
     (if i < length h \<and> 0 < length n
      then (if h ! i = n ! 0
            then bind_res (memcmp (drop i h) n nlen) (\<lambda>c.
                   if c = 0 then Inr (Some i) else memmem_loop h n nlen (i + 1) k)
            else memmem_loop h n nlen (i + 1) k)
      else Inl OutOfBounds)"

definition memmem :: "bytes \<Rightarrow> nat \<Rightarrow> bytes \<Rightarrow> nat \<Rightarrow> nat option res" where
  "memmem haystack hlen needle nlen =
     (if nlen = 0 then Inr (Some 0)
      else if hlen < nlen then Inr None
      else memmem_loop haystack needle nlen 0 (hlen - nlen + 1))"

definition isdigit :: "u32 \<Rightarrow> bool" where
  "isdigit c \<longleftrightarrow> 48 \<le> c \<and> c \<le> 57"

definition isupper :: "u8 \<Rightarrow> bool" where
  "isupper c \<longleftrightarrow> 65 \<le> sint c \<and> sint c \<le> 90"

definition islower :: "u8 \<Rightarrow> bool" where
  "islower c \<longleftrightarrow> 97 \<le> sint c \<and> sint c \<le> 122"

definition isalpha :: "u8 \<Rightarrow> bool" where
  "isalpha c \<longleftrightarrow> isupper c \<or> islower c"

text \<open>The \<^verbatim>\<open>char\<close> is sign-extended when it is passed as a \<^verbatim>\<open>uint\<close>.\<close>

definition isalnum :: "u8 \<Rightarrow> bool" where
  "isalnum c \<longleftrightarrow> isalpha c \<or> isdigit (scast c)"

section \<open>C strings\<close>

text \<open>\<open>cstr s buf\<close>: the buffer starts with the C string \<open>s\<close> and its terminator.\<close>

definition cstr :: "bytes \<Rightarrow> bytes \<Rightarrow> bool" where
  "cstr s buf \<longleftrightarrow> 0 \<notin> set s \<and> (\<exists>rest. buf = s @ 0 # rest)"

lemma cstr_Nil [simp]: "cstr [] buf \<longleftrightarrow> (\<exists>rest. buf = 0 # rest)"
  by (simp add: cstr_def)

lemma cstr_Cons [simp]: "cstr (c # s) buf \<longleftrightarrow> c \<noteq> 0 \<and> (\<exists>b. buf = c # b \<and> cstr s b)"
  by (auto simp: cstr_def)

lemma strlen_cstr: "cstr s buf \<Longrightarrow> strlen buf = Inr (length s)"
  by (induction s arbitrary: buf) auto

lemma memset_eq: "n \<le> length p \<Longrightarrow> memset p v n = Inr (replicate n v @ drop n p)"
  by (induction p v n rule: memset.induct) auto

lemma memcpy_eq: "n \<le> length d \<Longrightarrow> n \<le> length s \<Longrightarrow> memcpy d s n = Inr (take n s @ drop n d)"
  by (induction d s n rule: memcpy.induct) auto

lemma copy_z_cstr:
  "cstr s src \<Longrightarrow> length s < length dest \<Longrightarrow>
   copy_z dest src = Inr (s @ 0 # drop (Suc (length s)) dest)"
proof (induction s arbitrary: src dest)
  case Nil
  then show ?case by (cases dest) auto
next
  case (Cons c s)
  then show ?case by (cases dest) auto
qed

lemma at_end_cstr: "cstr t dest \<Longrightarrow> f (drop (length t) dest) = Inr r \<Longrightarrow> at_end f dest = Inr (t @ r)"
  by (induction t arbitrary: dest) auto

lemma strcat_cstr:
  assumes "cstr t dest" and "cstr s src" and "length t + length s < length dest"
  shows "strcat dest src = Inr (t @ s @ 0 # drop (Suc (length t + length s)) dest)"
proof -
  have "copy_z (drop (length t) dest) src = Inr (s @ 0 # drop (Suc (length s)) (drop (length t) dest))"
    using assms by (intro copy_z_cstr) auto
  then show ?thesis
    using at_end_cstr [OF assms(1), of "\<lambda>d. copy_z d src"] by (simp add: strcat_def add.commute)
qed

lemma sint_u8_eq_iff: "sint (a :: u8) - sint b = 0 \<longleftrightarrow> a = b"
  using signed_word_eqI [of a b] by auto

lemma sint_u8_eq_0 [simp]: "sint (a :: u8) = 0 \<longleftrightarrow> a = 0"
  using sint_u8_eq_iff [of a 0] by simp

lemma strcmp_cstr: "cstr s a \<Longrightarrow> cstr t b \<Longrightarrow> \<exists>n. strcmp a b = Inr n \<and> (n = 0 \<longleftrightarrow> s = t)"
proof (induction s arbitrary: t a b)
  case Nil
  then show ?case by (cases t) auto
next
  case (Cons c s)
  note IH = Cons.IH and prems = Cons.prems
  show ?case
  proof (cases t)
    case Nil
    with prems show ?thesis by auto
  next
    case (Cons d t')
    then obtain a' b' where ab: "a = c # a'" "cstr s a'" "b = d # b'" "cstr t' b'" "c \<noteq> 0" "d \<noteq> 0"
      using prems by auto
    then show ?thesis
      using IH [of a' t' b'] Cons sint_u8_eq_iff [of c d] by (cases "c = d") auto
  qed
qed

lemma in_set_cstr: "cstr ds delim \<Longrightarrow> in_set delim c = Inr (c \<in> set ds)"
  by (induction ds arbitrary: delim) auto

lemma scan_set_cstr: "cstr ds st \<Longrightarrow> scan_set st c = Inr (if c \<in> set ds then c else 0)"
  by (induction ds arbitrary: st) auto

lemma strspn_cstr:
  "cstr s buf \<Longrightarrow> cstr acc accept \<Longrightarrow> strspn buf accept = Inr (length (takeWhile (\<lambda>c. c \<in> set acc) s))"
  by (induction s arbitrary: buf) (auto simp: scan_set_cstr)

lemma strcspn_cstr:
  assumes "cstr rej reject"
  shows "cstr s buf \<Longrightarrow> strcspn buf reject = Inr (length (takeWhile (\<lambda>c. c \<notin> set rej) s))"
proof (induction s arbitrary: buf)
  case (Cons c s)
  with assms show ?case by (auto simp: scan_set_cstr)
qed auto

lemma strchr_cstr:
  "cstr s buf \<Longrightarrow> strchr buf c =
     Inr (if c \<in> set s then Some (length (takeWhile (\<lambda>x. x \<noteq> c) s)) else None)"
  by (induction s arbitrary: buf) auto

lemma strnlen_cstr: "cstr s buf \<Longrightarrow> strnlen buf n = Inr (min n (length s))"
proof (induction s arbitrary: buf n)
  case Nil
  then show ?case by (cases n) auto
next
  case (Cons c s)
  then show ?case by (cases n) auto
qed

lemma strncpy_cstr:
  assumes "cstr s src" and "n \<le> length dst"
  shows "strncpy dst src n = Inr (take n s @ replicate (n - length s) 0 @ drop n dst)"
proof -
  have "take (min n (length s)) src = take n s"
    using assms(1) by (auto simp: cstr_def min_def)
  moreover have "min n (length s) \<le> length src"
    using assms(1) by (auto simp: cstr_def)
  ultimately show ?thesis
    using assms
    by (auto simp: strncpy_def stpncpy_def mempcpy_def strnlen_cstr memcpy_eq memset_eq min_def)
qed

section \<open>Searching\<close>

lemma strstr_match_cstr:
  "cstr s inp \<Longrightarrow> cstr t patt \<Longrightarrow> strstr_match inp patt = Inr (take (length t) s = t)"
proof (induction t arbitrary: s inp patt)
  case Nil
  then show ?case by (cases s) auto
next
  case (Cons c t)
  then show ?case by (cases s) auto
qed

definition occurs_at :: "bytes \<Rightarrow> bytes \<Rightarrow> nat \<Rightarrow> bool" where
  "occurs_at t s i \<longleftrightarrow> i + length t \<le> length s \<and> take (length t) (drop i s) = t"

lemma occurs_at_iff:
  assumes "t \<noteq> []"
  shows "occurs_at t s i \<longleftrightarrow> take (length t) (drop i s) = t"
proof -
  have "i + length t \<le> length s" if "take (length t) (drop i s) = t"
  proof -
    have "length (take (length t) (drop i s)) = length t" using that by simp
    then have "length t \<le> length s - i" by simp
    with assms show ?thesis by (cases "length s \<le> i") auto
  qed
  then show ?thesis by (auto simp: occurs_at_def)
qed

lemma cstr_drop: "cstr s buf \<Longrightarrow> i \<le> length s \<Longrightarrow> cstr (drop i s) (drop i buf)"
  by (auto simp: cstr_def dest: in_set_dropD)

lemma strstr_loop_cstr:
  assumes "cstr s h" and "cstr t n" and "t \<noteq> []"
  shows "i + k \<le> Suc (length s) \<Longrightarrow> strstr_loop h n i k =
    Inr (find (occurs_at t s) [i..<i + k])"
proof (induction k arbitrary: i)
  case (Suc k)
  have "strstr_match (drop i h) n = Inr (occurs_at t s i)"
    using Suc.prems strstr_match_cstr [OF cstr_drop [OF assms(1)] assms(2)] assms(3)
    by (simp add: occurs_at_iff)
  with Suc show ?case by (simp add: upt_conv_Cons del: upt_Suc)
qed simp

theorem strstr_cstr:
  assumes "cstr s haystack" and "cstr t needle" and "t \<noteq> []"
  shows "strstr haystack needle = Inr (find (occurs_at t s) [0..<Suc (length s)])"
proof (cases "length t > length s")
  case True
  then have "find (occurs_at t s) [0..<Suc (length s)] = None"
    by (auto simp: find_None_iff occurs_at_def)
  with True assms show ?thesis by (simp add: strstr_def strlen_cstr)
next
  case False
  let ?k = "length s - length t + 1"
  have "[0..<Suc (length s)] = [0..<?k] @ [?k..<Suc (length s)]"
    using False upt_add_eq_append [of 0 ?k "length t"] by (simp del: upt_Suc)
  moreover have "find (occurs_at t s) [?k..<Suc (length s)] = None"
    using False by (auto simp: find_None_iff occurs_at_def)
  moreover have "find P (xs @ ys) = (case find P xs of None \<Rightarrow> find P ys | Some x \<Rightarrow> Some x)"
    for P :: "nat \<Rightarrow> bool" and xs ys by (induction xs) auto
  ultimately have "find (occurs_at t s) [0..<Suc (length s)] = find (occurs_at t s) [0..<?k]"
    by (simp split: option.splits del: upt_Suc)
  with False assms show ?thesis
    using strstr_loop_cstr [OF assms, of 0 ?k] by (simp add: strstr_def strlen_cstr del: upt_Suc)
qed

section \<open>Tokenising\<close>

text \<open>The maximal runs of bytes outside \<open>D\<close>.\<close>

lemma length_dropWhile_less:
  assumes "t \<noteq> []" and "t = dropWhile D s"
  shows "length (dropWhile (\<lambda>c. \<not> D c) t) < length s"
proof -
  obtain y ys where t: "t = y # ys" using assms(1) by (cases t) auto
  then have "\<not> D y" using hd_dropWhile [of D s] assms by auto
  then have "length (dropWhile (\<lambda>c. \<not> D c) t) < length t"
    using t length_dropWhile_le [of "\<lambda>c. \<not> D c" ys] by simp
  also have "length t \<le> length s" using assms(2) length_dropWhile_le by simp
  finally show ?thesis .
qed

function chunks :: "(u8 \<Rightarrow> bool) \<Rightarrow> bytes \<Rightarrow> bytes list" where
  "chunks D s =
     (let t = dropWhile D s
      in if t = [] then [] else takeWhile (\<lambda>c. \<not> D c) t # chunks D (dropWhile (\<lambda>c. \<not> D c) t))"
  by pat_completeness auto
termination
proof (relation "measure (\<lambda>(D, s). length s)")
  show "((D, dropWhile (\<lambda>c. \<not> D c) t), D, s) \<in> measure (\<lambda>(D, s). length s)"
    if "t = dropWhile D s" "t \<noteq> []" for D s and t :: bytes
    using length_dropWhile_less [OF that(2,1)] by simp
qed simp

declare chunks.simps [simp del]

text \<open>The loop of \<^verbatim>\<open>strtok_r\<close>'s clients: take tokens until it returns null.\<close>

fun strtok_all :: "nat \<Rightarrow> bytes \<Rightarrow> nat \<Rightarrow> bytes \<Rightarrow> bytes list res" where
  "strtok_all 0 buf save delim = Inr []"
| "strtok_all (Suc fuel) buf save delim =
     bind_res (strtok_r buf None delim save) (\<lambda>(tok, buf', save').
       case tok of
         None \<Rightarrow> Inr []
       | Some start \<Rightarrow>
           bind_res (strtok_all fuel buf' save' delim) (\<lambda>ts.
             Inr (takeWhile (\<lambda>c. c \<noteq> 0) (drop start buf') # ts)))"

lemma skip_while_cstr:
  "cstr s buf \<Longrightarrow> cstr ds delim \<Longrightarrow>
   skip_while want delim buf = Inr (length (takeWhile (\<lambda>c. (c \<in> set ds) = want) s))"
  by (induction s arbitrary: buf) (auto simp: in_set_cstr)

lemma strtok_r_none:
  assumes "cstr ds delim" and "0 \<notin> set s" and "set s \<subseteq> set ds"
  shows "strtok_r (pre @ s @ 0 # rest) None delim (length pre) = Inr (None, pre @ s @ 0 # rest, length (pre @ s))"
proof -
  have all: "takeWhile (\<lambda>c. (c \<in> set ds) = True) s = s"
    using assms(3) by (auto simp: takeWhile_eq_all_conv)
  have "cstr s (s @ 0 # rest)" using assms(2) by (simp add: cstr_def)
  from skip_while_cstr [OF this assms(1), of True]
  have "skip_while True delim (s @ 0 # rest) = Inr (length s)" unfolding all .
  then show ?thesis by (simp add: strtok_r_def nth_append)
qed

lemma strtok_r_token:
  fixes a w v :: bytes
  assumes dl: "cstr ds delim" and nz: "0 \<notin> set (a @ w @ v)"
    and a: "set a \<subseteq> set ds" and w: "w \<noteq> []" "set w \<inter> set ds = {}" and v: "v = [] \<or> hd v \<in> set ds"
    and pre': "pre' = pre @ a @ w @ (if v = [] then [] else [0])"
  shows "strtok_r (pre @ a @ w @ v @ 0 # rest) None delim (length pre) =
        Inr (Some (length (pre @ a)), pre' @ tl v @ 0 # rest, length pre') \<and>
        takeWhile (\<lambda>c. c \<noteq> 0) (drop (length (pre @ a)) (pre' @ tl v @ 0 # rest)) = w"
proof -
  have ta: "takeWhile (\<lambda>c. (c \<in> set ds) = True) (a @ w @ v) = a"
    using a w by (cases w) (auto simp: takeWhile_append)
  have tw: "takeWhile (\<lambda>c. (c \<in> set ds) = False) (w @ v) = w"
    using w v by (cases v) (auto simp: takeWhile_append)
  have sk: "skip_while True delim (a @ w @ v @ 0 # rest) = Inr (length a)"
    using skip_while_cstr [of "a @ w @ v" _ ds delim True] nz dl ta by (auto simp: cstr_def)
  have sk2: "skip_while False delim (w @ v @ 0 # rest) = Inr (length w)"
    using skip_while_cstr [of "w @ v" _ ds delim False] nz dl tw by (auto simp: cstr_def)
  have hd0: "(w @ v @ 0 # rest) ! 0 \<noteq> 0" using w nz by (cases w) auto
  have tk: "takeWhile (\<lambda>c. c \<noteq> 0) (w @ 0 # r) = w" for r
    using nz by (auto simp: takeWhile_append)
  show ?thesis
  proof (cases v)
    case Nil
    then show ?thesis
      using sk sk2 hd0 tk by (simp add: strtok_r_def nth_append pre' Let_def)
  next
    case (Cons c u)
    with nz have "c \<noteq> 0" by auto
    then show ?thesis
      using sk sk2 hd0 tk Cons
      by (simp add: strtok_r_def nth_append list_update_append add.assoc pre' Let_def)
  qed
qed

lemma chunks_tl:
  assumes "t \<noteq> []" and "t = dropWhile D s"
  shows "chunks D s = takeWhile (\<lambda>c. \<not> D c) t # chunks D (tl (dropWhile (\<lambda>c. \<not> D c) t))"
proof -
  define v where "v = dropWhile (\<lambda>c. \<not> D c) t"
  have "chunks D v = chunks D (tl v)"
  proof (cases v)
    case Nil
    then show ?thesis by simp
  next
    case (Cons c u)
    then have "D c" using hd_dropWhile [of "\<lambda>c. \<not> D c" t] by (simp add: v_def)
    with Cons show ?thesis by (simp add: chunks.simps [of D "c # u"] chunks.simps [of D u])
  qed
  with assms show ?thesis by (simp add: chunks.simps [of D s] Let_def v_def)
qed

lemma strtok_all_chunks:
  assumes "cstr ds delim"
  shows "length s < fuel \<Longrightarrow> 0 \<notin> set s \<Longrightarrow>
    strtok_all fuel (pre @ s @ 0 # rest) (length pre) delim = Inr (chunks (\<lambda>c. c \<in> set ds) s)"
proof (induction fuel arbitrary: pre s rest)
  case (Suc fuel)
  define D where "D = (\<lambda>c. c \<in> set ds)"
  define a t where "a = takeWhile D s" and "t = dropWhile D s"
  define w v where "w = takeWhile (\<lambda>c. \<not> D c) t" and "v = dropWhile (\<lambda>c. \<not> D c) t"
  have s: "s = a @ w @ v" by (simp add: a_def w_def v_def t_def)
  show ?case
  proof (cases "t = []")
    case True
    then have "set s \<subseteq> set ds" by (auto simp: t_def D_def)
    with True show ?thesis
      using strtok_r_none [OF assms Suc.prems(2)] by (simp add: chunks.simps [of _ s] t_def D_def)
  next
    case False
    then have "\<not> D (hd t)" using hd_dropWhile [of D s] by (simp add: t_def)
    with False have w: "w \<noteq> []" by (cases t) (auto simp: w_def)
    have wd: "set w \<inter> set ds = {}" using set_takeWhileD by (fastforce simp: w_def D_def)
    have a: "set a \<subseteq> set ds" using set_takeWhileD [of _ D s] by (auto simp: a_def D_def)
    have v: "v = [] \<or> hd v \<in> set ds" using hd_dropWhile [of "\<lambda>c. \<not> D c" t] by (auto simp: v_def D_def)
    define pre' where "pre' = pre @ a @ w @ (if v = [] then [] else [0])"
    have "0 \<notin> set (a @ w @ v)" using Suc.prems(2) s by simp
    from strtok_r_token [OF assms this a w wd v pre'_def, of rest]
    have tok: "strtok_r (pre @ s @ 0 # rest) None delim (length pre) =
        Inr (Some (length (pre @ a)), pre' @ tl v @ 0 # rest, length pre')"
      "takeWhile (\<lambda>c. c \<noteq> 0) (drop (length (pre @ a)) (pre' @ tl v @ 0 # rest)) = w"
      by (simp_all add: s)
    have "length (tl v) < fuel" using Suc.prems(1) w s by (cases w) auto
    moreover have "0 \<notin> set (tl v)" using Suc.prems(2) s by (cases v) auto
    ultimately have "strtok_all fuel (pre' @ tl v @ 0 # rest) (length pre') delim = Inr (chunks D (tl v))"
      using Suc.IH by (simp add: D_def)
    with tok show ?thesis
      using chunks_tl [OF False t_def] by (simp add: w_def v_def D_def)
  qed
qed simp

section \<open>Overlapping moves, duplicates\<close>

lemma length_move_up [simp]: "length (move_up p s i k m) = length m"
  by (induction p s i k m rule: move_up.induct) auto

lemma length_move_down [simp]: "length (move_down p s i m) = length m"
  by (induction p s i m rule: move_down.induct) auto

lemma nth_move_up:
  assumes "p + i + k \<le> length m" "s + i + k \<le> length m" "p < s \<or> s + i + k \<le> p" "j < length m"
  shows "move_up p s i k m ! j = (if p + i \<le> j \<and> j < p + i + k then m ! (s + (j - p)) else m ! j)"
  using assms
proof (induction p s i k m rule: move_up.induct)
  case (2 p s i k m)
  let ?m = "m[p + i := m ! (s + i)]"
  have "?m ! (s + (j - p)) = m ! (s + (j - p))" if "p + (i + 1) \<le> j" "j < p + (i + 1) + k"
    using that "2.prems" by (auto simp: nth_list_update)
  moreover have "move_up p s (i + 1) k ?m ! j =
      (if p + (i + 1) \<le> j \<and> j < p + (i + 1) + k then ?m ! (s + (j - p)) else ?m ! j)"
    using 2 by auto
  ultimately show ?case using "2.prems" by (auto simp: nth_list_update)
qed auto

lemma nth_move_down:
  assumes "p + i < length m" "s + i < length m" "s \<le> p" "j < length m"
  shows "move_down p s i m ! j = (if p \<le> j \<and> j \<le> p + i then m ! (s + (j - p)) else m ! j)"
  using assms
proof (induction p s i m rule: move_down.induct)
  case (2 p s i m)
  let ?m = "m[p + Suc i := m ! (s + Suc i)]"
  have "?m ! (s + (j - p)) = m ! (s + (j - p))" if "p \<le> j" "j \<le> p + i"
    using that "2.prems" by (auto simp: nth_list_update)
  moreover have "move_down p s i ?m ! j = (if p \<le> j \<and> j \<le> p + i then ?m ! (s + (j - p)) else ?m ! j)"
    using 2 by auto
  ultimately show ?case using "2.prems" by (auto simp: nth_list_update)
qed (auto simp: nth_list_update)

lemma memmove_nth:
  assumes "p + n \<le> length m" and "s + n \<le> length m"
  obtains m' where "memmove m p s n = Inr m'" and "length m' = length m"
    and "\<And>j. j < length m \<Longrightarrow> m' ! j = (if p \<le> j \<and> j < p + n then m ! (s + (j - p)) else m ! j)"
proof (cases "n = 0")
  case True
  then show ?thesis by (intro that [of m]) (auto simp: memmove_def)
next
  case n: False
  show ?thesis
  proof (cases "s \<le> p \<and> p < s + n")
    case True
    then show ?thesis
      using n assms nth_move_down [of p "n - 1" m s]
      by (intro that [of "move_down p s (n - 1) m"]) (auto simp: memmove_def)
  next
    case False
    then show ?thesis
      using n assms nth_move_up [of p 0 n m s]
      by (intro that [of "move_up p s 0 n m"]) (auto simp: memmove_def)
  qed
qed

lemma memmove_eq:
  assumes "p + n \<le> length m" and "s + n \<le> length m"
  shows "memmove m p s n = Inr (take p m @ take n (drop s m) @ drop (p + n) m)"
proof -
  obtain m' where m': "memmove m p s n = Inr m'" "length m' = length m"
    "\<And>j. j < length m \<Longrightarrow> m' ! j = (if p \<le> j \<and> j < p + n then m ! (s + (j - p)) else m ! j)"
    using memmove_nth [OF assms] by blast
  have "m' = take p m @ take n (drop s m) @ drop (p + n) m"
  proof (rule nth_equalityI)
    show "length m' = length (take p m @ take n (drop s m) @ drop (p + n) m)"
      using assms m'(2) by simp
    have l: "min (length m) p = p" "min (length m - s) n = n" using assms by auto
    show "m' ! j = (take p m @ take n (drop s m) @ drop (p + n) m) ! j" if "j < length m'" for j
      using that assms m' by (auto simp: nth_append l)
  qed
  with m' show ?thesis by simp
qed

lemma strdup_cstr:
  assumes "cstr s buf" and "\<And>n b. malloc n = Some b \<Longrightarrow> length b = n"
  shows "strdup malloc buf = Inr (map_option (\<lambda>_. s @ [0]) (malloc (length s + 1)))"
proof -
  have "take (length s + 1) buf = s @ [0]" "length s + 1 \<le> length buf"
    using assms(1) by (auto simp: cstr_def)
  then show ?thesis
    using assms by (auto simp: strdup_def strlen_cstr memcpy_eq split: option.splits)
qed

lemma strndup_cstr:
  assumes "cstr s buf" and "\<And>n b. malloc n = Some b \<Longrightarrow> length b = n"
  shows "strndup malloc buf n = Inr (map_option (\<lambda>_. take n s @ [0]) (malloc (min n (length s) + 1)))"
proof -
  let ?l = "min n (length s)"
  have l: "(if length s > n then n else length s) = ?l" by auto
  have "take ?l buf = take n s" "?l \<le> length buf"
    using assms(1) by (auto simp: cstr_def min_def)
  moreover have "drop ?l (b[?l := 0]) = [0]" if "malloc (?l + 1) = Some b" for b
    using assms(2) [OF that] by (simp add: drop_update_swap Cons_nth_drop_Suc [symmetric])
  ultimately show ?thesis
    using assms unfolding strndup_def
    by (auto simp: strlen_cstr memcpy_eq l Let_def split: option.splits)
qed

section \<open>Properties\<close>

text \<open>
  Tokenising: repeated calls of \<open>strtok_r\<close> on a C string return exactly its maximal runs of
  bytes that are not delimiters, in order, and end after at most one call more than the string has
  bytes.
\<close>
theorem strtok_r_tokens:
  assumes "cstr ds delim" and "0 \<notin> set s"
  shows "strtok_all (Suc (length s)) (s @ 0 # rest) 0 delim = Inr (chunks (\<lambda>c. c \<in> set ds) s)"
  using strtok_all_chunks [OF assms(1), of s "Suc (length s)" "[]" rest] assms(2) by simp

theorem strtok_r_tokens_witness:
  "strtok_all (Suc (length [47, 97, 47, 47, 98 :: u8])) ([47, 97, 47, 47, 98] @ 0 # []) 0 [47, 0] = Inr [[97], [98]]"
  by (subst strtok_r_tokens [of "[47]"]) (simp_all add: chunks.simps)

text \<open>
  \<open>memmove\<close> between two regions of one buffer, overlapping or not, makes the target region what
  the source region was before the call and changes nothing else.
\<close>
theorem memmove_moves:
  assumes "p + n \<le> length m" and "s + n \<le> length m"
  shows "memmove m p s n = Inr (take p m @ take n (drop s m) @ drop (p + n) m)"
  by (rule memmove_eq [OF assms])

theorem memmove_moves_witness:
  "memmove [1, 2, 3, 4, 5] 1 0 3 = Inr [1, 1, 2, 3, 5] \<and> memmove [1, 2, 3, 4, 5] 0 1 3 = Inr [2, 3, 4, 4, 5]"
  using memmove_moves [of 1 3 "[1, 2, 3, 4, 5]" 0] memmove_moves [of 0 3 "[1, 2, 3, 4, 5]" 1]
  by (simp add: numeral_3_eq_3)

text \<open>
  \<open>strstr\<close> with a needle that is not empty returns the first position at which the needle occurs
  in the haystack, or the null pointer if there is none.
\<close>
theorem strstr_first:
  assumes "cstr s haystack" and "cstr t needle" and "t \<noteq> []"
  shows "case strstr haystack needle of Inl e \<Rightarrow> False
    | Inr None \<Rightarrow> \<forall>i. \<not> occurs_at t s i
    | Inr (Some i) \<Rightarrow> occurs_at t s i \<and> (\<forall>j<i. \<not> occurs_at t s j)"
proof (cases "find (occurs_at t s) [0..<Suc (length s)]")
  case None
  moreover have "i \<le> length s" if "occurs_at t s i" for i using that by (simp add: occurs_at_def)
  ultimately have "\<forall>i. \<not> occurs_at t s i" by (force simp: find_None_iff simp del: upt_Suc)
  with None show ?thesis using strstr_cstr [OF assms] by (simp del: upt_Suc)
next
  case (Some i)
  then obtain k where "k < Suc (length s)" "i = k" "occurs_at t s i" "\<forall>j<k. \<not> occurs_at t s j"
    by (auto simp: find_Some_iff simp del: upt_Suc)
  with Some show ?thesis using strstr_cstr [OF assms] by (simp del: upt_Suc)
qed

theorem strstr_first_witness:
  "(case strstr [97, 98, 97, 99, 0] [97, 99, 0] of Inl e \<Rightarrow> False
    | Inr None \<Rightarrow> \<forall>i. \<not> occurs_at [97, 99] [97, 98, 97, 99] i
    | Inr (Some i) \<Rightarrow> occurs_at [97, 99] [97, 98, 97, 99] i \<and> (\<forall>j<i. \<not> occurs_at [97, 99] [97, 98, 97, 99] j))"
  by (rule strstr_first) simp_all

text \<open>
  \<open>strncpy\<close> copies at most \<open>n\<close> bytes of the string and fills the rest of the \<open>n\<close> bytes with zeros;
  a string of \<open>n\<close> bytes or more leaves the target without a terminator. \<open>strcat\<close> into a buffer with
  room appends the string and its terminator.
\<close>
theorem string_copies:
  assumes "cstr s src"
  shows "(n \<le> length dst \<longrightarrow> strncpy dst src n = Inr (take n s @ replicate (n - length s) 0 @ drop n dst)) \<and>
    (cstr t dst \<and> length t + length s < length dst \<longrightarrow>
       strcat dst src = Inr (t @ s @ 0 # drop (Suc (length t + length s)) dst))"
  using strncpy_cstr [OF assms] strcat_cstr [OF _ assms] by simp

theorem string_copies_witness:
  "strncpy [9, 9, 9, 9] [65, 66, 0] 3 = Inr [65, 66, 0, 9] \<and> strcat [67, 0, 9, 9] [65, 66, 0] = Inr [67, 65, 66, 0]"
  using string_copies [of "[65, 66]" "[65, 66, 0]" 3 "[9, 9, 9, 9]" "[]"] string_copies [of "[65, 66]" "[65, 66, 0]" 0 "[67, 0, 9, 9]" "[67]"]
  by (simp add: numeral_3_eq_3)

end
