(* ===== verification/Paging.thy ===== *)
theory Paging
  imports Prelude
begin

text \<open>
  The page level of the memory manager: \<^verbatim>\<open>src/kernel/core/RawMemory.cpp\<close>, the page
  functions of \<^verbatim>\<open>src/kernel/core/memory.cpp\<close>, the macros of \<^verbatim>\<open>MemoryDefines.h\<close>, and the
  page functions of \<^verbatim>\<open>src/kernel/processes/process.cpp\<close> (\<open>update_pte\<close> and the copies
  made by \<open>fork\<close>). A page table entry is a \<^typ>\<open>32 word\<close>; page and frame ids are naturals
  below \<open>NPAGES\<close>, and an access to a table of that length at a larger index is the failure
  \<open>OutOfBounds\<close>. Page contents are kept per frame. The TLB is not modelled:
  \<^verbatim>\<open>invlpg\<close> and the reloads of \<^verbatim>\<open>cr3\<close> have no effect on the state.
\<close>

section \<open>State\<close>

text \<open>
  \<open>uspace\<close> holds, per process id, the page tables, page directory and \<open>lowest_free_pe\<close> of a
  user process, and the address of its page tables. \<open>k_pt\<close> is \<^verbatim>\<open>Memory::page_tables\<close>,
  which are the page tables of the kernel process too; \<open>k_lfpe\<close> is the field
  \<open>lowest_free_pe\<close> of the kernel process, which \<^verbatim>\<open>*Memory::lowest_free_pe\<close> aliases.
\<close>

record uproc =
  u_pt :: "nat \<Rightarrow> u32"
  u_pdt :: "nat \<Rightarrow> u32"
  u_pt_addr :: nat
  u_lfpe :: nat

record kmem =
  k_pt :: "nat \<Rightarrow> u32"
  frame_to_page :: "nat \<Rightarrow> nat"
  frame_rc :: "nat \<Rightarrow> nat"
  lowest_free_frame :: nat
  lowest_free_pe_user :: nat
  k_lfpe :: nat
  uspace :: "nat \<Rightarrow> uproc"
  frame_data :: "nat \<Rightarrow> nat \<Rightarrow> u8"

datatype proc = KernelProc | UserProc nat

text \<open>\<^verbatim>\<open>PDT_ENTRIES * PT_ENTRIES\<close>, \<^verbatim>\<open>(uint)-1\<close> and the flags of a page table entry.\<close>

abbreviation NPAGES :: nat where "NPAGES \<equiv> 1048576"
abbreviation NONE32 :: nat where "NONE32 \<equiv> 4294967295"
abbreviation PAGE_SIZE :: nat where "PAGE_SIZE \<equiv> 4096"
abbreviation KERNEL_VIRTUAL_BASE :: nat where "KERNEL_VIRTUAL_BASE \<equiv> 3221225472"

abbreviation PAGE_PRESENT :: u32 where "PAGE_PRESENT \<equiv> 0x1"
abbreviation PAGE_WRITE :: u32 where "PAGE_WRITE \<equiv> 0x2"
abbreviation PAGE_USER :: u32 where "PAGE_USER \<equiv> 0x4"
abbreviation PAGE_COW :: u32 where "PAGE_COW \<equiv> 0x100"
abbreviation PAGE_LAZY_ZERO :: u32 where "PAGE_LAZY_ZERO \<equiv> 0x200"
abbreviation PAGE_SHRO :: u32 where "PAGE_SHRO \<equiv> 0x400"

unbundle bit_operations_syntax

definition has_flag :: "u32 \<Rightarrow> u32 \<Rightarrow> bool" where
  "has_flag v fl \<longleftrightarrow> v AND fl \<noteq> 0"

definition DEFAULT_K_POLICY :: u32 where
  "DEFAULT_K_POLICY = PAGE_WRITE OR PAGE_PRESENT"

definition ADDR_PAGE :: "nat \<Rightarrow> nat" where
  "ADDR_PAGE addr = addr div 4096"

definition page_addr :: "nat \<Rightarrow> nat" where
  "page_addr page = (page * 4096) mod W32"

definition FRAME_ID_ADDR :: "nat \<Rightarrow> u32" where
  "FRAME_ID_ADDR i = push_bit 12 (word_of_nat i)"

definition pte_frame :: "u32 \<Rightarrow> nat" where
  "pte_frame v = unat (drop_bit 12 v)"

definition pte_entry :: "(nat \<Rightarrow> u32) \<Rightarrow> nat \<Rightarrow> u32 res" where
  "pte_entry pt i = (if i < NPAGES then Inr (pt i) else Inl OutOfBounds)"

definition pte_used :: "u32 \<Rightarrow> bool" where
  "pte_used v \<longleftrightarrow> has_flag v (PAGE_PRESENT OR PAGE_LAZY_ZERO)"

text \<open>\<open>PHYS_ADDR\<close> clears the lower ten bits of the entry only.\<close>

definition PHYS_ADDR :: "(nat \<Rightarrow> u32) \<Rightarrow> nat \<Rightarrow> u32" where
  "PHYS_ADDR pt addr = (pt (ADDR_PAGE addr) AND NOT 0x3FF) OR (word_of_nat addr AND 0xFFF)"

definition FRAME_USED :: "kmem \<Rightarrow> nat \<Rightarrow> bool" where
  "FRAME_USED m i \<longleftrightarrow> frame_to_page m i \<noteq> NONE32"

definition MARK_FRAME_USED :: "nat \<Rightarrow> nat \<Rightarrow> kmem \<Rightarrow> kmem res" where
  "MARK_FRAME_USED frame_id page_id m =
     (if frame_id \<ge> NPAGES then Inl OutOfBounds
      else if frame_rc m frame_id \<noteq> 0
        then Inl (Irrecoverable ''Trying to allocate frame which is already allocated'')
      else Inr (m\<lparr>frame_to_page := (frame_to_page m)(frame_id := page_id),
                  frame_rc := (frame_rc m)(frame_id := 1)\<rparr>))"

definition MARK_FRAME_FREE :: "nat \<Rightarrow> kmem \<Rightarrow> kmem res" where
  "MARK_FRAME_FREE i m =
     (if i \<ge> NPAGES then Inl OutOfBounds
      else if frame_rc m i > 1
        then Inl (Irrecoverable ''Kernel is trying to free a frame which is referenced by a process'')
      else Inr (m\<lparr>frame_to_page := (frame_to_page m)(i := NONE32),
                  frame_rc := (frame_rc m)(i := 0),
                  lowest_free_frame := min (lowest_free_frame m) i\<rparr>))"

section \<open>RawMemory.cpp\<close>

function first_free :: "(nat \<Rightarrow> bool) \<Rightarrow> nat \<Rightarrow> nat" where
  "first_free used i = (if i < NPAGES \<and> used i then first_free used (Suc i) else i)"
  by pat_completeness auto
termination by (relation "measure (\<lambda>(_, i). NPAGES - i)") auto

declare first_free.simps [simp del]

definition get_free_frame :: "kmem \<Rightarrow> nat \<times> kmem" where
  "get_free_frame m =
     (let f = first_free (FRAME_USED m) (lowest_free_frame m) in (f, m\<lparr>lowest_free_frame := f\<rparr>))"

definition get_free_pe :: "kmem \<Rightarrow> nat \<times> kmem" where
  "get_free_pe m =
     (let p = first_free (\<lambda>i. pte_used (k_pt m i)) (k_lfpe m) in (p, m\<lparr>k_lfpe := p\<rparr>))"

definition get_free_pe_user :: "kmem \<Rightarrow> nat \<times> kmem" where
  "get_free_pe_user m =
     (let p = first_free (\<lambda>i. pte_used (k_pt m i)) (lowest_free_pe_user m)
      in (p, m\<lparr>lowest_free_pe_user := p\<rparr>))"

text \<open>\<open>free_page(uint page_id)\<close>, the overload of \<^verbatim>\<open>RawMemory.cpp\<close>.\<close>

definition free_page_id :: "nat \<Rightarrow> kmem \<Rightarrow> kmem res" where
  "free_page_id page_id m =
     bind_res (pte_entry (k_pt m) page_id) (\<lambda>pte.
       let frame_id = unat (drop_bit 12 (PHYS_ADDR (k_pt m) (page_addr page_id)));
           lazy = has_flag pte PAGE_LAZY_ZERO in
       if \<not> lazy \<and> frame_id = 0 then Inl (Irrecoverable ''wut'')
       else let m1 = m\<lparr>k_pt := (k_pt m)(page_id := 0)\<rparr> in
         if \<not> lazy then MARK_FRAME_FREE frame_id m1 else Inr m1)"

text \<open>\<open>allocate_page(frame_id, page_id, policy)\<close> and \<open>allocate_page(page_id, policy)\<close>.\<close>

definition allocate_page_frame :: "nat \<Rightarrow> nat \<Rightarrow> u32 \<Rightarrow> kmem \<Rightarrow> kmem res" where
  "allocate_page_frame frame_id page_id policy m =
     (if page_id \<ge> NPAGES then Inl OutOfBounds
      else let m1 = m\<lparr>k_pt := (k_pt m)(page_id := FRAME_ID_ADDR frame_id OR policy)\<rparr> in
        if has_flag policy PAGE_PRESENT then MARK_FRAME_USED frame_id page_id m1 else Inr m1)"

definition allocate_page :: "nat \<Rightarrow> u32 \<Rightarrow> kmem \<Rightarrow> kmem res" where
  "allocate_page page_id policy m =
     (let (frame, m1) = get_free_frame m in allocate_page_frame frame page_id policy m1)"

text \<open>
  The loop \<^verbatim>\<open>for (; !PTE_USED(pt, pte) && pte != target; pte++)\<close>: the entry is read
  before the comparison with \<open>target\<close>.
\<close>

function scan_free :: "(nat \<Rightarrow> u32) \<Rightarrow> nat \<Rightarrow> nat \<Rightarrow> nat res" where
  "scan_free pt pte target =
     (if pte \<ge> NPAGES then Inl OutOfBounds
      else if \<not> pte_used (pt pte) \<and> pte \<noteq> target then scan_free pt (Suc pte) target
      else Inr pte)"
  by pat_completeness auto
termination by (relation "measure (\<lambda>(_, i, _). NPAGES - i)") auto

declare scan_free.simps [simp del]

record hint_info =
  hint :: nat
  is_mandatory :: bool

definition DEFAULT_HINT_INFO :: hint_info where
  "DEFAULT_HINT_INFO = \<lparr>hint = 0, is_mandatory = False\<rparr>"

lemma scan_free_range: "scan_free pt pte target = Inr r \<Longrightarrow> pte \<le> r \<and> r < NPAGES"
proof (induction pt pte target rule: scan_free.induct)
  case (1 pt pte target)
  show ?case
    using "1.prems" "1.IH"
    by (subst (asm) scan_free.simps) (auto split: if_splits)
qed

function first_fit :: "(nat \<Rightarrow> u32) \<Rightarrow> nat \<Rightarrow> nat \<Rightarrow> nat res" where
  "first_fit pt n b =
     (if add32 b n > NPAGES then Inr NONE32
      else case scan_free pt b (add32 b n) of
        Inl e \<Rightarrow> Inl e
      | Inr pte \<Rightarrow> if pte = add32 b n then Inr b else first_fit pt n (Suc pte))"
  by pat_completeness auto
termination
  by (relation "measure (\<lambda>(_, _, b). NPAGES - b)") (use scan_free_range in force)+

declare first_fit.simps [simp del]

definition get_contiguous_pages :: "nat \<Rightarrow> hint_info \<Rightarrow> (nat \<Rightarrow> u32) \<Rightarrow> nat \<Rightarrow> nat res" where
  "get_contiguous_pages n hi pt lowest_free_page_entry =
     (if is_mandatory hi
      then if hint hi mod PAGE_SIZE \<noteq> 0
        then Inl (Irrecoverable ''alloc_params->hint is not page aligned'')
        else let b = ADDR_PAGE (hint hi) in
          if add32 b n > NPAGES then Inr NONE32
          else bind_res (scan_free pt b (add32 b n)) (\<lambda>pte.
                 Inr (if pte = add32 b n then b else NONE32))
      else first_fit pt n (max lowest_free_page_entry (ADDR_PAGE (hint hi))))"

section \<open>Address spaces of processes\<close>

fun proc_pt :: "kmem \<Rightarrow> proc \<Rightarrow> nat \<Rightarrow> u32" where
  "proc_pt m KernelProc = k_pt m"
| "proc_pt m (UserProc i) = u_pt (uspace m i)"

fun proc_lfpe :: "kmem \<Rightarrow> proc \<Rightarrow> nat" where
  "proc_lfpe m KernelProc = k_lfpe m"
| "proc_lfpe m (UserProc i) = u_lfpe (uspace m i)"

fun set_proc_pte :: "proc \<Rightarrow> nat \<Rightarrow> u32 \<Rightarrow> kmem \<Rightarrow> kmem" where
  "set_proc_pte KernelProc p v m = m\<lparr>k_pt := (k_pt m)(p := v)\<rparr>"
| "set_proc_pte (UserProc i) p v m =
     m\<lparr>uspace := (uspace m)(i := (uspace m i)\<lparr>u_pt := (u_pt (uspace m i))(p := v)\<rparr>)\<rparr>"

fun set_proc_lfpe :: "proc \<Rightarrow> nat \<Rightarrow> kmem \<Rightarrow> kmem" where
  "set_proc_lfpe KernelProc p m = m\<lparr>k_lfpe := p\<rparr>"
| "set_proc_lfpe (UserProc i) p m = m\<lparr>uspace := (uspace m)(i := (uspace m i)\<lparr>u_lfpe := p\<rparr>)\<rparr>"

text \<open>
  The page directory of a user process: an empty entry is filled with the physical address
  of the page table, found through the kernel's page tables. The directory of the kernel is
  full from boot on, so nothing happens for the kernel process.
\<close>

fun fill_pde :: "proc \<Rightarrow> nat \<Rightarrow> kmem \<Rightarrow> kmem" where
  "fill_pde KernelProc pde m = m"
| "fill_pde (UserProc i) pde m =
     (let u = uspace m i in
      if u_pdt u pde = 0
      then m\<lparr>uspace := (uspace m)(i := u\<lparr>u_pdt := (u_pdt u)(pde :=
             PHYS_ADDR (k_pt m) (add32 (u_pt_addr u) (pde * 4096))
               OR PAGE_USER OR PAGE_WRITE OR PAGE_PRESENT)\<rparr>)\<rparr>
      else m)"

text \<open>
  The three parts of \<open>update_pte\<close>: the reference of the frame that the entry mapped is given
  up, the entry and the directory are written, and a frame mapped by the new value gains one.
\<close>

definition release_ref :: "u32 \<Rightarrow> kmem \<Rightarrow> kmem res" where
  "release_ref old m =
     (let previous_frame = pte_frame old in
      if frame_rc m previous_frame \<noteq> 0
      then Inr (m\<lparr>frame_rc := (frame_rc m)(previous_frame := frame_rc m previous_frame - 1)\<rparr>)
      else if has_flag old PAGE_PRESENT \<and> \<not> has_flag old PAGE_LAZY_ZERO
        then Inl (Irrecoverable ''huh'') else Inr m)"

definition take_ref :: "u32 \<Rightarrow> kmem \<Rightarrow> kmem" where
  "take_ref val m =
     (if has_flag val PAGE_PRESENT \<and> \<not> has_flag val PAGE_LAZY_ZERO
      then m\<lparr>frame_rc := (frame_rc m)(pte_frame val := add32 (frame_rc m (pte_frame val)) 1)\<rparr>
      else m)"

definition update_pte :: "proc \<Rightarrow> nat \<Rightarrow> u32 \<Rightarrow> kmem \<Rightarrow> kmem res" where
  "update_pte p pte val m =
     bind_res (pte_entry (proc_pt m p) pte) (\<lambda>old.
     bind_res (release_ref old m) (\<lambda>m1.
       Inr (take_ref val (fill_pde p (pte div 1024) (set_proc_pte p pte val m1)))))"

definition get_contiguous_pages_proc :: "nat \<Rightarrow> hint_info \<Rightarrow> proc \<Rightarrow> kmem \<Rightarrow> nat res" where
  "get_contiguous_pages_proc n hi p m = get_contiguous_pages n hi (proc_pt m p) (proc_lfpe m p)"

definition phys_to_virt_addr :: "kmem \<Rightarrow> nat \<Rightarrow> nat" where
  "phys_to_virt_addr m phys_addr =
     (let frame_id = phys_addr div 4096 in
      if frame_to_page m frame_id = NONE32 then NONE32
      else add32 (page_addr (frame_to_page m frame_id)) (phys_addr mod PAGE_SIZE))"

section \<open>mprotect\<close>

text \<open>The constants of the C library's headers that the code uses.\<close>

record vm_abi =
  PROT_READ :: u32
  PROT_WRITE :: u32
  PROT_EXEC :: u32
  MAP_PRIVATE :: u32
  MAP_SHARED :: u32
  MAP_FIXED :: u32
  MAP_ANON :: u32
  MAP_ANONYMOUS :: u32

text \<open>
  Both loops compute the page as \<^verbatim>\<open>ADDR_PAGE(uaddr + id)\<close>. The first one stops at the first
  entry that is neither present nor lazily allocated.
\<close>

fun mprotect_valid :: "(nat \<Rightarrow> u32) \<Rightarrow> nat \<Rightarrow> nat \<Rightarrow> nat \<Rightarrow> bool res" where
  "mprotect_valid pt uaddr i 0 = Inr True"
| "mprotect_valid pt uaddr i (Suc k) =
     bind_res (pte_entry pt (ADDR_PAGE (add32 uaddr i))) (\<lambda>pte.
       if \<not> (has_flag pte PAGE_PRESENT \<or> has_flag pte PAGE_LAZY_ZERO)
       then if has_flag pte PAGE_COW \<or> has_flag pte PAGE_SHRO
         then Inl (Irrecoverable ''mprotect: address range covers a COW or SHRO page, this is not supported yet'')
         else Inr False
       else mprotect_valid pt uaddr (Suc i) k)"

definition mprotect :: "vm_abi \<Rightarrow> nat \<Rightarrow> nat \<Rightarrow> u32 \<Rightarrow> proc \<Rightarrow> kmem \<Rightarrow> (errno option \<times> kmem) res" where
  "mprotect abi uaddr len prot p m =
     (if uaddr mod PAGE_SIZE \<noteq> 0 then Inr (Some EINVAL, m)
      else if prot AND NOT (PROT_READ abi OR PROT_WRITE abi OR PROT_EXEC abi) \<noteq> 0 then Inr (Some EINVAL, m)
      else let num_pages = ADDR_PAGE (sub32 (add32 len PAGE_SIZE) 1) in
        bind_res (mprotect_valid (proc_pt m p) uaddr 0 num_pages) (\<lambda>valid.
          if \<not> valid then Inr (Some ENOMEM, m)
          else let new_flags = (if has_flag prot (PROT_WRITE abi) then PAGE_WRITE else 0) in
            bind_res
              (for_n (\<lambda>i m. let page_id = ADDR_PAGE (add32 uaddr i) in
                 update_pte p page_id ((proc_pt m p page_id AND NOT PAGE_WRITE) OR new_flags) m) 0 num_pages m)
              (\<lambda>m'. Inr (None, m'))))"

section \<open>sbrk\<close>

record page_info =
  pi_flags :: u32
  pi_policy :: u32

text \<open>\<^verbatim>\<open>while (PTE_USED(pt, lowest_free_pe)) lowest_free_pe++\<close>: no bound is tested.\<close>

function next_free :: "(nat \<Rightarrow> u32) \<Rightarrow> nat \<Rightarrow> nat res" where
  "next_free pt i =
     (if i \<ge> NPAGES then Inl OutOfBounds else if pte_used (pt i) then next_free pt (Suc i) else Inr i)"
  by pat_completeness auto
termination by (relation "measure (\<lambda>(_, i). NPAGES - i)") auto

declare next_free.simps [simp del]

definition sbrk_page :: "proc \<Rightarrow> u32 \<Rightarrow> nat \<Rightarrow> kmem \<Rightarrow> kmem res" where
  "sbrk_page p policy i m =
     (if p = KernelProc then allocate_page i policy m
      else if \<not> has_flag policy PAGE_LAZY_ZERO
        then let (sys_pe, m1) = get_free_pe m in
          bind_res (allocate_page sys_pe policy m1) (\<lambda>m2. update_pte p i (k_pt m2 sys_pe) m2)
        else update_pte p i policy m)"

definition sbrk :: "nat \<Rightarrow> page_info \<Rightarrow> hint_info \<Rightarrow> proc \<Rightarrow> kmem \<Rightarrow> (nat option \<times> kmem) res" where
  "sbrk num_pages_requested pinfo hi p m =
     (let policy = pi_policy pinfo in
      if lowest_free_frame m = NPAGES then Inr (None, m)
      else bind_res (get_contiguous_pages_proc num_pages_requested hi p m) (\<lambda>b.
        if b = NONE32 then Inr (None, m)
        else if policy AND NOT (PAGE_USER OR PAGE_LAZY_ZERO OR PAGE_PRESENT OR PAGE_WRITE) \<noteq> 0
          then Inl (Irrecoverable ''sbrk: Unsupported allocation flags'')
        else if has_flag policy PAGE_PRESENT \<and> has_flag policy PAGE_LAZY_ZERO
          then Inl (Irrecoverable ''sbrk: both PAGE_PRESENT and PAGE_LAZY zero cannot be specified at the same time'')
        else if p \<noteq> KernelProc \<and> \<not> has_flag policy PAGE_USER
          then Inl (Irrecoverable ''sbrk: allocating pages for user process without PAGE_USER flag'')
        else bind_res (for_n (sbrk_page p policy) b num_pages_requested m) (\<lambda>m1.
          bind_res (next_free (proc_pt m1 p) (proc_lfpe m1 p)) (\<lambda>l.
            Inr (Some (page_addr b), set_proc_lfpe p l m1)))))"

text \<open>\<open>free_page(uint address, const Process* process)\<close>.\<close>

definition free_page :: "nat \<Rightarrow> proc \<Rightarrow> kmem \<Rightarrow> kmem res" where
  "free_page address p m =
     (let page = ADDR_PAGE address in
      case p of
        UserProc i \<Rightarrow>
          bind_res (pte_entry (proc_pt m p) page) (\<lambda>entry.
            if has_flag entry PAGE_LAZY_ZERO then update_pte p page 0 m
            else let frame_id = unat (drop_bit 12 (PHYS_ADDR (proc_pt m p) address));
                     sys_page_id = frame_to_page m frame_id in
              bind_res (update_pte p page 0 m) (\<lambda>m1.
                if frame_rc m1 frame_id \<ge> 1 then Inr m1 else free_page_id sys_page_id m1))
      | KernelProc \<Rightarrow>
          let sys_page_id = (address div 4194304) * 1024 + page mod 1024;
              frame_id = unat (drop_bit 12 (PHYS_ADDR (k_pt m) address));
              m1 = m\<lparr>frame_rc := (frame_rc m)(frame_id := sub32 (frame_rc m frame_id) 1)\<rparr> in
          if frame_rc m1 frame_id \<ge> 1 then Inr m1 else free_page_id sys_page_id m1)"

section \<open>Identity maps and physically contiguous memory\<close>

fun identity_free :: "kmem \<Rightarrow> nat \<Rightarrow> nat \<Rightarrow> bool res" where
  "identity_free m page_id 0 = Inr True"
| "identity_free m page_id (Suc k) =
     bind_res (pte_entry (k_pt m) page_id) (\<lambda>pte.
       if pte_used pte \<or> FRAME_USED m page_id then Inr False else identity_free m (Suc page_id) k)"

definition identity_map :: "nat \<Rightarrow> nat \<Rightarrow> kmem \<Rightarrow> (bool \<times> kmem) res" where
  "identity_map addr sz m =
     (let page_id = ADDR_PAGE addr; num_pages = ADDR_PAGE (sub32 (add32 sz PAGE_SIZE) 1) in
      bind_res (identity_free m page_id num_pages) (\<lambda>ok.
        if \<not> ok then Inr (False, m)
        else bind_res (for_n (\<lambda>i. allocate_page_frame i i DEFAULT_K_POLICY) page_id num_pages m)
               (\<lambda>m1. Inr (True, m1))))"

text \<open>
  \<open>count_free used p i n\<close> is the inner loop of \<open>physically_aligned_malloc\<close>, from its counter
  \<open>i\<close> on; \<open>find_run\<close> is the loop around it, for \<open>p\<close> below \<open>NPAGES\<close>.
\<close>

function run_free :: "(nat \<Rightarrow> bool) \<Rightarrow> nat \<Rightarrow> nat \<Rightarrow> nat \<Rightarrow> bool res" where
  "run_free used p i n =
     (if i < n
      then if p + i \<ge> NPAGES then Inl OutOfBounds
        else if \<not> used (p + i) then run_free used p (Suc i) n else Inr False
      else Inr True)"
  by pat_completeness auto
termination by (relation "measure (\<lambda>(_, _, i, n). n - i)") auto

declare run_free.simps [simp del]

function find_run :: "(nat \<Rightarrow> bool) \<Rightarrow> nat \<Rightarrow> nat \<Rightarrow> nat res" where
  "find_run used n p =
     (if p < NPAGES
      then case run_free used p 0 n of
          Inl e \<Rightarrow> Inl e
        | Inr True \<Rightarrow> Inr p
        | Inr False \<Rightarrow> find_run used n (Suc p)
      else Inr NONE32)"
  by pat_completeness auto
termination by (relation "measure (\<lambda>(_, _, p). NPAGES - p)") auto

declare find_run.simps [simp del]

definition physically_aligned_malloc :: "nat \<Rightarrow> kmem \<Rightarrow> (nat option \<times> kmem) res" where
  "physically_aligned_malloc n m =
     (let num_pages = ADDR_PAGE (sub32 (add32 n PAGE_SIZE) 1) in
      bind_res (find_run (\<lambda>i. pte_used (k_pt m i)) num_pages (k_lfpe m)) (\<lambda>page_beg.
        if page_beg = NONE32 then Inr (None, m)
        else bind_res (find_run (FRAME_USED m) num_pages (lowest_free_frame m)) (\<lambda>frame_beg.
          if frame_beg = NONE32 then Inr (None, m)
          else bind_res
            (for_n (\<lambda>i. allocate_page_frame (frame_beg + i) (page_beg + i) DEFAULT_K_POLICY) 0 num_pages m)
            (\<lambda>m1. Inr (Some (page_addr page_beg), m1)))))"

section \<open>Page faults\<close>

text \<open>Page contents, read and written through the entry that maps the page.\<close>

definition copy_frame :: "nat \<Rightarrow> nat \<Rightarrow> kmem \<Rightarrow> kmem" where
  "copy_frame dst src m = m\<lparr>frame_data := (frame_data m)(dst := frame_data m src)\<rparr>"

definition zero_frame :: "nat \<Rightarrow> kmem \<Rightarrow> kmem" where
  "zero_frame f m = m\<lparr>frame_data := (frame_data m)(f := (\<lambda>_. 0))\<rparr>"

text \<open>\<open>current_policy\<close> and \<open>new_policy\<close>.\<close>

definition cow_policy :: "u32 \<Rightarrow> u32" where
  "cow_policy pte = ((pte AND 0x7FF) AND NOT PAGE_COW) OR PAGE_WRITE"

definition handle_cow_page_fault :: "proc \<Rightarrow> bool \<Rightarrow> nat \<Rightarrow> kmem \<Rightarrow> kmem res" where
  "handle_cow_page_fault p higher_half page_id m =
     (if p = KernelProc then Inl (Irrecoverable ''COW on kernel process not supposed to happen'')
      else if higher_half then Inl (Irrecoverable ''COW on higher half'')
      else
        let (sys_pe, m1) = get_free_pe_user m;
            (frame, m2) = get_free_frame m1;
            new_policy = cow_policy (proc_pt m2 p page_id) in
        bind_res (allocate_page_frame frame sys_pe new_policy m2) (\<lambda>m3.
        bind_res (get_contiguous_pages_proc 1 DEFAULT_HINT_INFO p m3) (\<lambda>mapping_pe.
        bind_res (update_pte p mapping_pe (proc_pt m3 p page_id) m3) (\<lambda>m4.
        bind_res (update_pte p page_id (FRAME_ID_ADDR frame OR new_policy) m4) (\<lambda>m5.
        let m6 = copy_frame (pte_frame (proc_pt m5 p page_id)) (pte_frame (proc_pt m5 p mapping_pe)) m5 in
        bind_res (update_pte p mapping_pe 0 m6) (\<lambda>m7.
        if frame_rc m7 frame = 0 then MARK_FRAME_FREE frame m7 else Inr m7))))))"

definition lazy_policy :: "bool \<Rightarrow> u32" where
  "lazy_policy page_user = (if page_user then PAGE_USER else 0) OR PAGE_WRITE OR PAGE_PRESENT"

definition handle_lazy_zero_page_fault :: "proc \<Rightarrow> bool \<Rightarrow> nat \<Rightarrow> kmem \<Rightarrow> kmem res" where
  "handle_lazy_zero_page_fault p higher_half page_id m =
     (let sp = (if higher_half then KernelProc else p);
          page_user = has_flag (proc_pt m sp page_id) PAGE_USER;
          (frame_id, m1) = get_free_frame m;
          v = FRAME_ID_ADDR frame_id OR lazy_policy page_user;
          m2 = zero_frame frame_id (set_proc_pte sp page_id v m1) in
      bind_res
        (if p = KernelProc \<or> higher_half then MARK_FRAME_USED frame_id page_id m2
         else let (sys_page_id, m3) = get_free_pe m2 in
           if sys_page_id \<ge> NPAGES then Inl OutOfBounds
           else MARK_FRAME_USED frame_id sys_page_id (set_proc_pte KernelProc sys_page_id v m3))
        (\<lambda>m4. Inr (if p \<noteq> KernelProc
                   then m4\<lparr>frame_rc := (frame_rc m4)(frame_id := add32 (frame_rc m4 frame_id) 1)\<rparr> else m4)))"

definition page_fault_handler :: "proc \<Rightarrow> nat \<Rightarrow> bool \<Rightarrow> kmem \<Rightarrow> (bool \<times> kmem) res" where
  "page_fault_handler p fault_address write_access m =
     (let page_id = ADDR_PAGE fault_address;
          higher_half = (fault_address \<ge> KERNEL_VIRTUAL_BASE);
          pte = proc_pt m (if higher_half then KernelProc else p) page_id in
      bind_res
        (if has_flag pte PAGE_COW
         then if \<not> write_access then Inl (Irrecoverable ''huh ??'')
              else bind_res (handle_cow_page_fault p higher_half page_id m) (\<lambda>m1. Inr (True, m1))
         else Inr (False, m))
        (\<lambda>(handled, m1).
          if \<not> (pte \<noteq> 0 \<and> has_flag pte PAGE_LAZY_ZERO) then Inr (handled, m1)
          else bind_res (handle_lazy_zero_page_fault p higher_half page_id m1) (\<lambda>m2. Inr (True, m2))))"

section \<open>Registering physical memory\<close>

fun frames_used :: "kmem \<Rightarrow> nat \<Rightarrow> nat \<Rightarrow> bool \<Rightarrow> bool \<Rightarrow> (bool \<times> bool) res" where
  "frames_used m f 0 all no = Inr (all, no)"
| "frames_used m f (Suc k) all no =
     (if f \<ge> NPAGES then Inl OutOfBounds
      else frames_used m (Suc f) k (all \<and> FRAME_USED m f) (no \<and> \<not> FRAME_USED m f))"

definition register_physical_data :: "nat \<Rightarrow> nat \<Rightarrow> kmem \<Rightarrow> (nat option \<times> kmem) res" where
  "register_physical_data physical_address sz m =
     (let off = physical_address mod PAGE_SIZE;
          n_pages = ADDR_PAGE (sub32 (add32 (add32 sz off) PAGE_SIZE) 1);
          frame_base = physical_address div 4096 in
      bind_res (frames_used m frame_base n_pages True True) (\<lambda>(all_frame_used, no_frame_used).
        if no_frame_used
        then bind_res (first_fit (k_pt m) n_pages (k_lfpe m)) (\<lambda>b.
          if b = NONE32 then Inr (None, m)
          else bind_res
            (for_n (\<lambda>i. allocate_page_frame (frame_base + i) (b + i) DEFAULT_K_POLICY) 0 n_pages m)
            (\<lambda>m1. Inr (Some (add32 (page_addr b) off), m1)))
        else if all_frame_used then Inr (Some (add32 (page_addr (frame_to_page m frame_base)) off), m)
        else Inr (None, m)))"

text \<open>\<open>total_size\<close> is the size field read from the page once it is mapped.\<close>

definition register_multiboot_info :: "nat \<Rightarrow> nat \<Rightarrow> kmem \<Rightarrow> (nat option \<times> kmem) res" where
  "register_multiboot_info uaddr total_size m =
     (if uaddr = 0 then Inr (None, m)
      else let base = uaddr div 4096; (page_id, m1) = get_free_pe m in
        if frame_to_page m1 base \<noteq> NONE32 then Inl (Irrecoverable ''Cannot map multiboot info'')
        else if PAGE_SIZE - uaddr mod PAGE_SIZE < 4 then Inl (Irrecoverable ''Are u kidding me ?'')
        else bind_res (allocate_page_frame base page_id DEFAULT_K_POLICY m1) (\<lambda>m2.
          bind_res (free_page (page_addr page_id) KernelProc m2) (\<lambda>m3.
          bind_res (register_physical_data uaddr total_size m3) (\<lambda>(v, m4).
            case v of None \<Rightarrow> Inl (Irrecoverable ''Cannot map multiboot info'')
            | Some a \<Rightarrow> if a = 0 then Inl (Irrecoverable ''Cannot map multiboot info'') else Inr (Some a, m4)))))"

section \<open>Page copies made by fork\<close>

text \<open>\<open>copy_page_to_other_process\<close>: \<open>p\<close> is the process, \<open>q\<close> the other one.\<close>

definition copy_page_to_other_process :: "proc \<Rightarrow> proc \<Rightarrow> nat \<Rightarrow> nat \<Rightarrow> kmem \<Rightarrow> kmem res" where
  "copy_page_to_other_process p q page_id mapping_page_id m =
     (if proc_pt m p page_id = 0 then Inr m
      else
        let (sys_pe, m1) = get_free_pe_user m;
            (frame, m2) = get_free_frame m1;
            policy = proc_pt m2 p page_id AND 0x7FF in
        bind_res (allocate_page_frame frame sys_pe policy m2) (\<lambda>m3.
        bind_res (update_pte q page_id (FRAME_ID_ADDR frame OR policy) m3) (\<lambda>m4.
        bind_res (update_pte p mapping_page_id (k_pt m4 sys_pe) m4) (\<lambda>m5.
        Inr (copy_frame (pte_frame (proc_pt m5 p mapping_page_id)) (pte_frame (proc_pt m5 p page_id)) m5)))))"

definition copy_page_to_other_process_shared :: "proc \<Rightarrow> proc \<Rightarrow> nat \<Rightarrow> kmem \<Rightarrow> kmem res" where
  "copy_page_to_other_process_shared p q page_id m =
     (let pte = proc_pt m p page_id in
      if \<not> has_flag pte PAGE_PRESENT then Inr m
      else let write = has_flag pte PAGE_WRITE \<or> has_flag pte PAGE_COW;
               pte_val = (pte OR (if write then PAGE_COW else PAGE_SHRO)) AND NOT PAGE_WRITE in
        bind_res (update_pte p page_id pte_val m) (\<lambda>m1. update_pte q page_id pte_val m1))"

text \<open>
  The address-space part of \<open>fork\<close>, for \<^verbatim>\<open>PROCESS_STACK_N_PAGES\<close> = 128 and
  \<^verbatim>\<open>PROCESS_SYSCALL_STACK_N_PAGES\<close> = 2: the shared copies, the two loops over the stacks,
  the page directory and the release of the mapping page.
\<close>

definition STACK_N_PAGES :: nat where
  [simp]: "STACK_N_PAGES = 128"

definition SYSCALL_STACK_N_PAGES :: nat where
  [simp]: "SYSCALL_STACK_N_PAGES = 2"

definition fork_mapping_page :: nat where
  "fork_mapping_page = ADDR_PAGE KERNEL_VIRTUAL_BASE - (STACK_N_PAGES + SYSCALL_STACK_N_PAGES) - 1"

definition fork_share_pde :: "nat \<Rightarrow> nat \<Rightarrow> nat \<Rightarrow> kmem \<Rightarrow> kmem res" where
  "fork_share_pde p q i m =
     (if u_pdt (uspace m p) i \<noteq> 0
      then for_n (\<lambda>j m. if u_pt (uspace m p) (i * 1024 + j) \<noteq> 0
                  then copy_page_to_other_process_shared (UserProc p) (UserProc q) (i * 1024 + j) m
                  else Inr m) 0 1024 m
      else Inr m)"

definition fork_copy_pdt :: "nat \<Rightarrow> nat \<Rightarrow> kmem \<Rightarrow> kmem" where
  "fork_copy_pdt p q m =
     (let pd = u_pdt (uspace m p); c = uspace m q in
      m\<lparr>uspace := (uspace m)(q := c\<lparr>u_pdt := (\<lambda>i.
          if i < 768
          then if pd i = 0 then 0
               else PHYS_ADDR (k_pt m) (add32 (u_pt_addr c) (i * 4096)) OR (pd i AND 0x7FF)
          else pd i)\<rparr>)\<rparr>)"

definition fork_pages :: "nat \<Rightarrow> nat \<Rightarrow> kmem \<Rightarrow> kmem res" where
  "fork_pages p q m =
     (let copy = (\<lambda>page. copy_page_to_other_process (UserProc p) (UserProc q) page fork_mapping_page) in
      if u_pt (uspace m p) fork_mapping_page \<noteq> 0
      then Inl (Irrecoverable ''mapping mage is not empty'')
      else bind_res (for_n (fork_share_pde p q) 0
             (768 - (STACK_N_PAGES + SYSCALL_STACK_N_PAGES + 1024 - 1) div 1024) m) (\<lambda>m1.
        bind_res (for_n (\<lambda>i. copy (ADDR_PAGE (KERNEL_VIRTUAL_BASE - PAGE_SIZE * (i + 1)))) 0 (STACK_N_PAGES + 1) m1) (\<lambda>m2.
        bind_res (for_n (\<lambda>i. copy (ADDR_PAGE (KERNEL_VIRTUAL_BASE - PAGE_SIZE * (STACK_N_PAGES + i + 1)))) 0
                   (SYSCALL_STACK_N_PAGES + 1) m2) (\<lambda>m3.
        update_pte (UserProc p) fork_mapping_page 0 (fork_copy_pdt p q m3)))))"

section \<open>Page table entries\<close>

lemma has_flag_or: "has_flag (a OR b) fl \<longleftrightarrow> has_flag a fl \<or> has_flag b fl"
  by (auto simp: has_flag_def bit.conj_disj_distrib2 or_eq_0_iff)

lemma has_flag_bit:
  "has_flag v PAGE_PRESENT \<longleftrightarrow> bit v 0" "has_flag v PAGE_WRITE \<longleftrightarrow> bit v 1"
  "has_flag v PAGE_USER \<longleftrightarrow> bit v 2" "has_flag v PAGE_COW \<longleftrightarrow> bit v 8"
  "has_flag v PAGE_LAZY_ZERO \<longleftrightarrow> bit v 9" "has_flag v PAGE_SHRO \<longleftrightarrow> bit v 10"
  using and_exp_eq_0_iff_not_bit [of v 0] and_exp_eq_0_iff_not_bit [of v 1]
    and_exp_eq_0_iff_not_bit [of v 2] and_exp_eq_0_iff_not_bit [of v 8]
    and_exp_eq_0_iff_not_bit [of v 9] and_exp_eq_0_iff_not_bit [of v 10]
  by (simp_all add: has_flag_def)

lemma pte_used_iff: "pte_used v \<longleftrightarrow> bit v 0 \<or> bit v 9"
proof -
  have "v AND (1 OR 0x200) \<noteq> 0 \<longleftrightarrow> v AND 1 \<noteq> 0 \<or> v AND 0x200 \<noteq> 0"
    by (simp only: bit.conj_disj_distrib or_eq_0_iff de_Morgan_conj)
  then show ?thesis
    using has_flag_bit(1,5) [of v] by (auto simp: pte_used_def has_flag_def)
qed

lemma bit_FRAME_ID_ADDR: "bit (FRAME_ID_ADDR f) n \<longleftrightarrow> 12 \<le> n \<and> n < 32 \<and> bit f (n - 12)"
  by (auto simp: FRAME_ID_ADDR_def bit_push_bit_iff bit_of_nat_iff)

lemma FRAME_ID_ADDR_flags [simp]: "n < 12 \<Longrightarrow> \<not> bit (FRAME_ID_ADDR f) n"
  by (simp add: bit_FRAME_ID_ADDR)

lemma pte_frame_make:
  assumes "f < NPAGES" and "drop_bit 12 pol = (0 :: u32)"
  shows "pte_frame (FRAME_ID_ADDR f OR pol) = f"
proof -
  have f: "f < 2 ^ 20" using assms(1) by simp
  have "drop_bit 12 (FRAME_ID_ADDR f) = (word_of_nat f :: u32)"
  proof (rule bit_word_eqI)
    fix n assume "n < LENGTH(32)"
    have "n < 20" if "bit f n"
      using f that by (metis bit_take_bit_iff take_bit_nat_eq_self_iff)
    then show "bit (drop_bit 12 (FRAME_ID_ADDR f)) n \<longleftrightarrow> bit (word_of_nat f :: u32) n"
      using \<open>n < LENGTH(32)\<close>
      by (auto simp: bit_drop_bit_eq bit_FRAME_ID_ADDR bit_of_nat_iff not_less)
  qed
  with assms show ?thesis by (simp add: pte_frame_def unat_of_nat)
qed

lemma pte_frame_PHYS_ADDR: "unat (drop_bit 12 (PHYS_ADDR pt addr)) = pte_frame (pt (ADDR_PAGE addr))"
proof -
  have "drop_bit 12 (PHYS_ADDR pt addr) = drop_bit 12 (pt (ADDR_PAGE addr))"
  proof (rule bit_word_eqI)
    fix n assume "n < LENGTH(32)"
    have masks: "\<not> bit (mask 10 :: u32) (12 + n)" "\<not> bit (mask 12 :: u32) (12 + n)"
      by (auto simp only: Word.bit_mask_iff)
    have "(0x3FF :: u32) = mask 10" "(0xFFF :: u32) = mask 12"
      by (simp_all add: mask_eq_exp_minus_1)
    with masks have "\<not> bit (0x3FF :: u32) (12 + n)" "\<not> bit (0xFFF :: u32) (12 + n)"
      by metis+
    then have "bit (PHYS_ADDR pt addr) (12 + n) \<longleftrightarrow> bit (pt (ADDR_PAGE addr)) (12 + n)"
      unfolding PHYS_ADDR_def bit_or_iff bit_and_iff bit_not_iff
      using bit_imp_possible_bit by blast
    then show "bit (drop_bit 12 (PHYS_ADDR pt addr)) n \<longleftrightarrow> bit (drop_bit 12 (pt (ADDR_PAGE addr))) n"
      by (simp add: bit_drop_bit_eq)
  qed
  then show ?thesis by (simp add: pte_frame_def)
qed

lemma pte_frame_less [simp]: "pte_frame v < NPAGES"
proof -
  have "drop_bit 12 v = v div 2 ^ 12" by (simp add: drop_bit_eq_div)
  then have "unat (drop_bit 12 v) = unat v div 4096" by (simp add: unat_div)
  moreover have "unat v < 4294967296" using unsigned_less [of v] by simp
  ultimately show ?thesis by (simp add: pte_frame_def)
qed

section \<open>Searching the tables\<close>

lemma first_free_spec:
  "i \<le> first_free used i \<and> (\<forall>j. i \<le> j \<and> j < first_free used i \<longrightarrow> j < NPAGES \<and> used j) \<and>
   (first_free used i < NPAGES \<longrightarrow> \<not> used (first_free used i))"
proof (induction used i rule: first_free.induct)
  case (1 used i)
  show ?case
  proof (cases "i < NPAGES \<and> used i")
    case True
    then have eq: "first_free used i = first_free used (Suc i)" by (subst first_free.simps) simp
    have "\<And>j. i \<le> j \<Longrightarrow> j = i \<or> Suc i \<le> j" by auto
    with 1 [OF True] True show ?thesis unfolding eq by (metis Suc_leD)
  qed (auto simp: first_free.simps [of used i])
qed

lemmas first_free_ge = first_free_spec [THEN conjunct1]
lemmas first_free_below = first_free_spec [THEN conjunct2, THEN conjunct1, rule_format, OF conjI]
lemmas first_free_unused = first_free_spec [THEN conjunct2, THEN conjunct2, rule_format]

text \<open>\<open>first_free\<close> is the least free index, when there is one.\<close>

lemma first_free_least:
  assumes "i \<le> j" and "j < NPAGES" and "\<not> used j"
  shows "first_free used i \<le> j" and "first_free used i < NPAGES"
proof -
  show "first_free used i \<le> j" using first_free_below [of i j used] assms by force
  with assms(2) show "first_free used i < NPAGES" by simp
qed

definition run_ok :: "(nat \<Rightarrow> u32) \<Rightarrow> nat \<Rightarrow> nat \<Rightarrow> bool" where
  "run_ok pt n b \<longleftrightarrow> (\<forall>i<n. \<not> pte_used (pt (b + i)))"

lemma run_ok_0 [simp]: "run_ok pt 0 b"
  by (simp add: run_ok_def)

lemma run_ok_Suc: "run_ok pt (Suc n) b \<longleftrightarrow> \<not> pte_used (pt b) \<and> run_ok pt n (Suc b)"
  by (simp add: run_ok_def All_less_Suc2)

lemma scan_free_run: "b + n < NPAGES \<Longrightarrow> run_ok pt n b \<Longrightarrow> scan_free pt b (b + n) = Inr (b + n)"
proof (induction n arbitrary: b)
  case (Suc n)
  then show ?case using Suc.IH [of "Suc b"] by (subst scan_free.simps) (simp add: run_ok_Suc)
qed (simp add: scan_free.simps)

text \<open>A run that is not free stops the scan at its first used entry.\<close>

lemma scan_free_stop:
  assumes "b + n \<le> NPAGES" and "\<not> run_ok pt n b"
  obtains i where "i < n" and "scan_free pt b (b + n) = Inr (b + i)" and "pte_used (pt (b + i))"
  using assms
proof (induction n arbitrary: b thesis)
  case (Suc n)
  show ?case
  proof (cases "pte_used (pt b)")
    case True
    then show ?thesis using Suc.prems(1) [of 0] Suc.prems(2) by (simp add: scan_free.simps)
  next
    case False
    then have "\<not> run_ok pt n (Suc b)" using Suc.prems(3) by (simp add: run_ok_Suc)
    then obtain i where "i < n" "scan_free pt (Suc b) (Suc b + n) = Inr (Suc b + i)" "pte_used (pt (Suc b + i))"
      using Suc.IH [of "Suc b"] Suc.prems(2) by auto
    then show ?thesis using Suc.prems(1) [of "Suc i"] Suc.prems(2) False by (simp add: scan_free.simps [of pt b])
  qed
qed simp

lemma first_fit_found:
  assumes "b \<le> r" and "r + n < NPAGES" and "run_ok pt n r"
  shows "\<exists>s. first_fit pt n b = Inr s \<and> b \<le> s \<and> s \<le> r \<and> run_ok pt n s \<and>
    (\<forall>s'. b \<le> s' \<and> s' < s \<longrightarrow> \<not> run_ok pt n s')"
  using assms
proof (induction pt n b rule: first_fit.induct)
  case (1 pt n b)
  have bn: "add32 b n = b + n" "b + n < NPAGES" using "1.prems" by (auto simp: add32_eq)
  show ?case
  proof (cases "run_ok pt n b")
    case True
    then show ?thesis
      using bn "1.prems" scan_free_run by (subst first_fit.simps) auto
  next
    case False
    then obtain i where i: "i < n" "scan_free pt b (b + n) = Inr (b + i)" "pte_used (pt (b + i))"
      using scan_free_stop [of b n pt] bn by auto
    have skip: "\<not> run_ok pt n s'" if "b \<le> s'" "s' \<le> b + i" for s'
      using i that by (auto simp: run_ok_def intro!: exI [of _ "b + i - s'"])
    have eq: "first_fit pt n b = first_fit pt n (Suc (b + i))"
      using bn i by (subst first_fit.simps) simp
    have "Suc (b + i) \<le> r" using skip [of r] "1.prems" by (cases "r \<le> b + i") auto
    then obtain s where s: "first_fit pt n (Suc (b + i)) = Inr s" "Suc (b + i) \<le> s" "s \<le> r" "run_ok pt n s"
      "\<forall>s'. Suc (b + i) \<le> s' \<and> s' < s \<longrightarrow> \<not> run_ok pt n s'"
      using "1.IH" [of "b + i"] bn i "1.prems" by auto
    have "\<not> run_ok pt n s'" if "b \<le> s'" "s' < s" for s'
      using that skip [of s'] s(5) by (cases "s' \<le> b + i") auto
    with eq s show ?thesis by (intro exI [of _ s]) auto
  qed
qed

lemma first_fit_none:
  assumes "b \<le> NPAGES" and "n < NPAGES" and "\<And>r. b \<le> r \<Longrightarrow> r + n \<le> NPAGES \<Longrightarrow> \<not> run_ok pt n r"
  shows "first_fit pt n b = Inr NONE32"
  using assms
proof (induction pt n b rule: first_fit.induct)
  case (1 pt n b)
  have bn: "add32 b n = b + n" using "1.prems" by (simp add: add32_eq)
  show ?case
  proof (cases "b + n > NPAGES")
    case True
    then show ?thesis using bn by (subst first_fit.simps) simp
  next
    case False
    then obtain i where i: "i < n" "scan_free pt b (b + n) = Inr (b + i)"
      using scan_free_stop [of b n pt] "1.prems"(3) [of b] by auto
    then have "first_fit pt n b = first_fit pt n (Suc (b + i))"
      using bn False by (subst first_fit.simps) simp
    then show ?thesis using "1.IH" [of "b + i"] bn False i "1.prems" by auto
  qed
qed

lemma scan_free_Inr:
  "scan_free pt b target = Inr r \<Longrightarrow> b \<le> r \<and> r < NPAGES \<and> (\<forall>i. b \<le> i \<and> i < r \<longrightarrow> \<not> pte_used (pt i))"
proof (induction pt b target rule: scan_free.induct)
  case (1 pt b target)
  show ?case
  proof (cases "b < NPAGES \<and> \<not> pte_used (pt b) \<and> b \<noteq> target")
    case True
    then have s: "scan_free pt (Suc b) target = Inr r" using "1.prems" by (subst (asm) scan_free.simps) auto
    then have IH: "Suc b \<le> r \<and> r < NPAGES \<and> (\<forall>i. Suc b \<le> i \<and> i < r \<longrightarrow> \<not> pte_used (pt i))"
      using "1.IH" True by auto
    have "\<not> pte_used (pt i)" if "b \<le> i" "i < r" for i
      using that IH True by (cases "i = b") auto
    with IH show ?thesis by auto
  next
    case False
    with "1.prems" show ?thesis by (subst (asm) scan_free.simps) (auto split: if_splits)
  qed
qed

lemma first_fit_sound:
  "first_fit pt n b = Inr s \<Longrightarrow> s \<noteq> NONE32 \<Longrightarrow> b \<le> NPAGES \<Longrightarrow> n \<le> NPAGES \<Longrightarrow>
   b \<le> s \<and> s + n < NPAGES \<and> run_ok pt n s"
proof (induction pt n b rule: first_fit.induct)
  case (1 pt n b)
  have bn: "add32 b n = b + n" using "1.prems"(3,4) by (simp add: add32_eq)
  obtain r where r: "scan_free pt b (b + n) = Inr r" "\<not> b + n > NPAGES"
    using "1.prems"(1,2) bn by (subst (asm) first_fit.simps) (auto split: if_splits sum.splits)
  note sc = scan_free_Inr [OF r(1)]
  show ?case
  proof (cases "r = b + n")
    case True
    then have "first_fit pt n b = Inr b" using r bn by (subst first_fit.simps) simp
    with True sc "1.prems"(1) show ?thesis by (auto simp: run_ok_def)
  next
    case False
    then have "first_fit pt n b = first_fit pt n (Suc r)" using r bn by (subst first_fit.simps) simp
    then have "Suc r \<le> s \<and> s + n < NPAGES \<and> run_ok pt n s"
      using "1.IH" [of r] r bn False "1.prems" sc by auto
    with sc show ?thesis by auto
  qed
qed

section \<open>The kernel's frame map\<close>

text \<open>
  Frames below \<open>BOOT_FRAMES\<close> hold the kernel image and the tables set up at boot and are
  never handed out. For the others, \<open>frame_to_page\<close> is the inverse of the kernel's page tables:
  the used frames are exactly those of the present kernel pages, each mapped once; none below
  \<open>lowest_free_frame\<close> is free. A free frame below \<open>SOUND_FRAMES\<close> has no reference; above it the
  counters are not what \<open>init_frame_rc\<close> means them to be (see \<open>boot_counters\<close> below).
\<close>

abbreviation BOOT_FRAMES :: nat where "BOOT_FRAMES \<equiv> 4096"
abbreviation SOUND_FRAMES :: nat where "SOUND_FRAMES \<equiv> 785408"

definition kmap_inv :: "kmem \<Rightarrow> bool" where
  "kmap_inv m \<longleftrightarrow>
     BOOT_FRAMES \<le> lowest_free_frame m \<and>
     (\<forall>f<NPAGES. BOOT_FRAMES \<le> f \<and> f < lowest_free_frame m \<longrightarrow> FRAME_USED m f) \<and>
     (\<forall>f<NPAGES. BOOT_FRAMES \<le> f \<and> FRAME_USED m f \<longrightarrow> frame_to_page m f < NPAGES \<and>
        bit (k_pt m (frame_to_page m f)) 0 \<and> pte_frame (k_pt m (frame_to_page m f)) = f) \<and>
     (\<forall>p<NPAGES. bit (k_pt m p) 0 \<and> BOOT_FRAMES \<le> pte_frame (k_pt m p) \<longrightarrow> frame_to_page m (pte_frame (k_pt m p)) = p) \<and>
     (\<forall>f<SOUND_FRAMES. BOOT_FRAMES \<le> f \<and> \<not> FRAME_USED m f \<longrightarrow> frame_rc m f = 0)"

definition unused_frames :: "kmem \<Rightarrow> nat set" where
  "unused_frames m = {f. BOOT_FRAMES \<le> f \<and> f < NPAGES \<and> \<not> FRAME_USED m f}"

definition free_frames :: "kmem \<Rightarrow> nat set" where
  "free_frames m = {f. BOOT_FRAMES \<le> f \<and> f < SOUND_FRAMES \<and> \<not> FRAME_USED m f}"

lemma finite_free_frames [simp]: "finite (free_frames m)"
  by (simp add: free_frames_def)

lemma free_frames_unused: "f \<in> free_frames m \<Longrightarrow> f \<in> unused_frames m"
  by (simp add: free_frames_def unused_frames_def)

lemma frames_update [simp]:
  "free_frames (m\<lparr>lowest_free_frame := l\<rparr>) = free_frames m" "unused_frames (m\<lparr>lowest_free_frame := l\<rparr>) = unused_frames m"
  by (auto simp: free_frames_def unused_frames_def FRAME_USED_def)

lemma get_free_frame_eq:
  assumes "kmap_inv m" and "get_free_frame m = (f, m1)"
  shows "m1 = m\<lparr>lowest_free_frame := f\<rparr>" and "kmap_inv m1"
    and "f < NPAGES \<Longrightarrow> f \<in> unused_frames m"
    and "\<And>g. g \<in> unused_frames m \<Longrightarrow> f \<le> g"
proof -
  have f: "f = first_free (FRAME_USED m) (lowest_free_frame m)" and m1: "m1 = m\<lparr>lowest_free_frame := f\<rparr>"
    using assms(2) by (auto simp: get_free_frame_def Let_def)
  have lo: "BOOT_FRAMES \<le> f"
    using assms(1) first_free_spec [of "lowest_free_frame m" "FRAME_USED m"] f by (simp add: kmap_inv_def)
  show "m1 = m\<lparr>lowest_free_frame := f\<rparr>" by (rule m1)
  show "f < NPAGES \<Longrightarrow> f \<in> unused_frames m" using first_free_unused f lo by (auto simp: unused_frames_def)
  have used: "FRAME_USED m g" if "g < NPAGES" "g < f" "BOOT_FRAMES \<le> g" for g
    using that assms(1) first_free_below [of "lowest_free_frame m" g "FRAME_USED m"] f
    by (cases "g < lowest_free_frame m") (auto simp: kmap_inv_def)
  then show "\<And>g. g \<in> unused_frames m \<Longrightarrow> f \<le> g" by (force simp: unused_frames_def)
  show "kmap_inv m1"
    using assms(1) used lo unfolding kmap_inv_def m1 FRAME_USED_def by simp
qed

lemma get_free_frame_free:
  assumes "kmap_inv m" and "get_free_frame m = (f, m1)" and "free_frames m \<noteq> {}"
  shows "f \<in> free_frames m" and "frame_rc m f = 0"
proof -
  note gf = get_free_frame_eq [OF assms(1,2)]
  obtain h where h: "h \<in> free_frames m" using assms(3) by blast
  then have "f \<le> h" "h < SOUND_FRAMES" using gf(4) free_frames_unused by (auto simp: free_frames_def)
  then show "f \<in> free_frames m" using gf(3) by (simp add: unused_frames_def free_frames_def)
  then show "frame_rc m f = 0" using assms(1) by (simp add: kmap_inv_def free_frames_def)
qed

definition with_page :: "nat \<Rightarrow> nat \<Rightarrow> u32 \<Rightarrow> kmem \<Rightarrow> kmem" where
  "with_page f p policy m =
     m\<lparr>k_pt := (k_pt m)(p := FRAME_ID_ADDR f OR policy),
       frame_to_page := (frame_to_page m)(f := p), frame_rc := (frame_rc m)(f := 1)\<rparr>"

lemma allocate_page_frame_eq:
  assumes "f < NPAGES" and "frame_rc m f = 0" and "p < NPAGES" and "bit policy 0"
  shows "allocate_page_frame f p policy m = Inr (with_page f p policy m)"
  using assms
  by (auto simp: allocate_page_frame_def MARK_FRAME_USED_def has_flag_bit with_page_def Let_def)

lemma with_page_inv:
  assumes "kmap_inv m" and "f \<in> unused_frames m" and "p < NPAGES"
    and "\<not> bit (k_pt m p) 0" and "bit policy 0" and "drop_bit 12 policy = 0"
  shows "kmap_inv (with_page f p policy m)"
proof -
  have f: "BOOT_FRAMES \<le> f" "f < NPAGES" "\<not> FRAME_USED m f" using assms(2) by (auto simp: unused_frames_def)
  have fr: "pte_frame (FRAME_ID_ADDR f OR policy) = f" using f assms(6) pte_frame_make by simp
  have ne: "frame_to_page m g \<noteq> p" if "g < NPAGES" "BOOT_FRAMES \<le> g" "FRAME_USED m g" for g
    using assms(1,4) that by (auto simp: kmap_inv_def)
  have nf: "pte_frame (k_pt m q) \<noteq> f" if "q < NPAGES" "bit (k_pt m q) 0" for q
    using assms(1) f that by (auto simp: kmap_inv_def FRAME_USED_def)
  show ?thesis
    using assms(1,3,5) f fr ne nf unfolding kmap_inv_def with_page_def FRAME_USED_def
    by (auto simp: bit_or_iff)
qed

lemma free_page_id_eq:
  assumes "p < NPAGES" and "\<not> bit (k_pt m p) 9"
    and f: "f = pte_frame (k_pt m p)" "f \<noteq> 0" and "frame_rc m f \<le> 1"
  shows "free_page_id p m = Inr (m\<lparr>k_pt := (k_pt m)(p := 0), frame_to_page := (frame_to_page m)(f := NONE32),
      frame_rc := (frame_rc m)(f := 0), lowest_free_frame := min (lowest_free_frame m) f\<rparr>)"
proof -
  have "ADDR_PAGE (page_addr p) = p" using assms(1) by (simp add: ADDR_PAGE_def page_addr_def)
  then show ?thesis
    using assms pte_frame_less [of "k_pt m p"]
    by (simp add: free_page_id_def pte_entry_def pte_frame_PHYS_ADDR has_flag_bit MARK_FRAME_FREE_def Let_def not_le)
qed

lemma free_page_id_inv:
  assumes "kmap_inv m" and "p < NPAGES" and "bit (k_pt m p) 0"
    and f: "f = pte_frame (k_pt m p)" "BOOT_FRAMES \<le> f"
  shows "kmap_inv (m\<lparr>k_pt := (k_pt m)(p := 0), frame_to_page := (frame_to_page m)(f := NONE32),
      frame_rc := (frame_rc m)(f := 0), lowest_free_frame := min (lowest_free_frame m) f\<rparr>)"
proof -
  have "frame_to_page m f = p" using assms by (auto simp: kmap_inv_def)
  then have ne: "frame_to_page m g \<noteq> p" if "g < NPAGES" "BOOT_FRAMES \<le> g" "FRAME_USED m g" "g \<noteq> f" for g
    using assms(1) that f unfolding kmap_inv_def by metis
  have nf: "pte_frame (k_pt m q) \<noteq> f" if "q < NPAGES" "bit (k_pt m q) 0" "q \<noteq> p" for q
    using assms(1) that \<open>frame_to_page m f = p\<close> f(2) unfolding kmap_inv_def by metis
  show ?thesis
    using assms(1) f(2) ne nf unfolding kmap_inv_def FRAME_USED_def by auto
qed

lemma with_page_simps [simp]:
  "k_pt (with_page f p policy m) = (k_pt m)(p := FRAME_ID_ADDR f OR policy)"
  "frame_to_page (with_page f p policy m) = (frame_to_page m)(f := p)"
  "frame_rc (with_page f p policy m) = (frame_rc m)(f := 1)"
  "k_lfpe (with_page f p policy m) = k_lfpe m" "uspace (with_page f p policy m) = uspace m"
  "frame_data (with_page f p policy m) = frame_data m"
  "lowest_free_frame (with_page f p policy m) = lowest_free_frame m"
  by (simp_all add: with_page_def)

lemma frames_with_page:
  assumes "p < NPAGES"
  shows "free_frames (with_page f p policy m) = free_frames m - {f}"
    and "unused_frames (with_page f p policy m) = unused_frames m - {f}"
  using assms by (auto simp: free_frames_def unused_frames_def FRAME_USED_def)

lemma allocate_page_sound:
  assumes "allocate_page p policy m = Inr m'" and "kmap_inv m" and "p < NPAGES" and "\<not> bit (k_pt m p) 0"
    and "bit policy 0" and "drop_bit 12 policy = 0"
  obtains f where "f \<in> unused_frames m" and "m' = with_page f p policy (m\<lparr>lowest_free_frame := f\<rparr>)" and "kmap_inv m'"
proof -
  obtain f m1 where g: "get_free_frame m = (f, m1)" by (cases "get_free_frame m")
  note gf = get_free_frame_eq [OF assms(2) g]
  have al: "f < NPAGES" "frame_rc m1 f = 0"
    using assms(1,3,5) g
    by (auto simp: allocate_page_def allocate_page_frame_def MARK_FRAME_USED_def has_flag_bit Let_def split: if_splits)
  then have f: "f \<in> unused_frames m" "f \<in> unused_frames m1" using gf(1,3) by simp_all
  have m': "m' = with_page f p policy m1"
    using assms(1) g allocate_page_frame_eq [OF al assms(3,5)] by (simp add: allocate_page_def)
  moreover have "kmap_inv (with_page f p policy m1)"
    using assms(4) gf(1) by (intro with_page_inv [OF gf(2) f(2) assms(3) _ assms(5,6)]) simp
  ultimately show ?thesis using that f(1) gf(1) by simp
qed

lemma allocate_page_ok:
  assumes "kmap_inv m" and "p < NPAGES" and "bit policy 0" and "free_frames m \<noteq> {}"
  shows "\<exists>m'. allocate_page p policy m = Inr m'"
proof -
  obtain f m1 where g: "get_free_frame m = (f, m1)" by (cases "get_free_frame m")
  have "f < NPAGES" "frame_rc m1 f = 0"
    using get_free_frame_free [OF assms(1) g assms(4)] get_free_frame_eq(1) [OF assms(1) g] by (simp_all add: free_frames_def)
  then show ?thesis
    using g allocate_page_frame_eq [of f m1 p policy] assms(2,3) by (simp add: allocate_page_def)
qed

text \<open>The state of the loop of \<open>sbrk\<close> for the kernel, before page \<open>j\<close>.\<close>

definition sbrk_loop_inv :: "u32 \<Rightarrow> nat \<Rightarrow> kmem \<Rightarrow> nat \<Rightarrow> kmem \<Rightarrow> bool" where
  "sbrk_loop_inv policy b m j s \<longleftrightarrow>
     kmap_inv s \<and> (\<forall>q. q \<notin> {b..<j} \<longrightarrow> k_pt s q = k_pt m q) \<and>
     (\<forall>q\<in>{b..<j}. \<exists>f\<in>unused_frames m. k_pt s q = FRAME_ID_ADDR f OR policy) \<and>
     unused_frames s \<subseteq> unused_frames m \<and> card (free_frames m) \<le> card (free_frames s) + (j - b) \<and>
     uspace s = uspace m \<and> k_lfpe s = k_lfpe m \<and> frame_data s = frame_data m"

lemma sbrk_loop_step_sound:
  assumes inv0: "sbrk_loop_inv policy b m j s" and st: "sbrk_page KernelProc policy j s = Inr s'"
    and j: "b \<le> j" "j < b + n" and "b + n < NPAGES" and run: "run_ok (k_pt m) n b"
    and pol: "bit policy 0" "drop_bit 12 policy = 0"
  shows "sbrk_loop_inv policy b m (Suc j) s'"
proof -
  note inv = inv0 [unfolded sbrk_loop_inv_def]
  have "k_pt s j = k_pt m j" using inv by auto
  moreover have "\<not> bit (k_pt m j) 0"
    using j run by (auto simp: run_ok_def pte_used_iff dest: spec [of _ "j - b"])
  moreover have al: "allocate_page j policy s = Inr s'" using st by (simp add: sbrk_page_def)
  ultimately obtain f where f: "f \<in> unused_frames s" and s': "s' = with_page f j policy (s\<lparr>lowest_free_frame := f\<rparr>)" "kmap_inv s'"
    using allocate_page_sound [OF al] inv j assms(5) pol by auto
  have ff: "free_frames s' = free_frames s - {f}" "unused_frames s' = unused_frames s - {f}"
    using s'(1) j assms(5) by (simp_all add: frames_with_page)
  then have "card (free_frames s) \<le> card (free_frames s') + 1"
    using diff_card_le_card_Diff [of "{f}" "free_frames s"] by simp
  then have "card (free_frames m) \<le> card (free_frames s') + (Suc j - b)"
    using inv j by linarith
  moreover have "k_pt s' = (k_pt s)(j := FRAME_ID_ADDR f OR policy)" using s'(1) by simp
  then have "\<forall>q. q \<notin> {b..<Suc j} \<longrightarrow> k_pt s' q = k_pt m q"
    "\<forall>q\<in>{b..<Suc j}. \<exists>f\<in>unused_frames m. k_pt s' q = FRAME_ID_ADDR f OR policy"
    using inv f j by auto
  ultimately show ?thesis
    using inv s' ff unfolding sbrk_loop_inv_def by auto
qed

lemma sbrk_loop_step:
  assumes inv: "sbrk_loop_inv policy b m j s" and j: "b \<le> j" "j < b + n" and bn: "b + n < NPAGES"
    and run: "run_ok (k_pt m) n b" and pol: "bit policy 0" "drop_bit 12 policy = 0" and "n \<le> card (free_frames m)"
  shows "\<exists>s'. sbrk_page KernelProc policy j s = Inr s' \<and> sbrk_loop_inv policy b m (Suc j) s'"
proof -
  have "kmap_inv s" "free_frames s \<noteq> {}"
    using inv j assms(8) by (auto simp: sbrk_loop_inv_def)
  then obtain s' where "allocate_page j policy s = Inr s'"
    using allocate_page_ok [of s j policy] j bn pol by auto
  then have s': "sbrk_page KernelProc policy j s = Inr s'" by (simp add: sbrk_page_def)
  with sbrk_loop_step_sound [OF inv s' j bn run pol] show ?thesis by blast
qed

lemma next_free_range: "next_free pt l = Inr r \<Longrightarrow> l \<le> r \<and> r < NPAGES"
proof (induction pt l rule: next_free.induct)
  case (1 pt i)
  show ?case
    using "1.prems" "1.IH" by (subst (asm) next_free.simps) (auto split: if_splits)
qed

lemma next_free_found: "l \<le> q \<Longrightarrow> q < NPAGES \<Longrightarrow> \<not> pte_used (pt q) \<Longrightarrow>
    \<exists>r. next_free pt l = Inr r \<and> l \<le> r \<and> r \<le> q \<and> \<not> pte_used (pt r) \<and> (\<forall>i. l \<le> i \<and> i < r \<longrightarrow> pte_used (pt i))"
proof (induction pt l rule: next_free.induct)
  case (1 pt i)
  show ?case
  proof (cases "pte_used (pt i)")
    case True
    then have "i \<noteq> q" using "1.prems" by auto
    then obtain r where r: "next_free pt (Suc i) = Inr r" "Suc i \<le> r" "r \<le> q" "\<not> pte_used (pt r)"
      "\<forall>j. Suc i \<le> j \<and> j < r \<longrightarrow> pte_used (pt j)"
      using "1.IH" True "1.prems" by auto
    have "pte_used (pt j)" if "i \<le> j" "j < r" for j
      using that True r(5) by (cases "j = i") auto
    with r True "1.prems" show ?thesis by (subst next_free.simps) auto
  next
    case False
    with "1.prems" show ?thesis by (subst next_free.simps) auto
  qed
qed


lemma sbrk_kernel_ok:
  assumes inv: "kmap_inv m" and pol: "policy = PAGE_PRESENT OR PAGE_WRITE"
    and n: "n \<le> card (free_frames m)" and ff: "lowest_free_frame m < NPAGES"
    and hi: "\<not> is_mandatory hi"
    and r: "max (k_lfpe m) (ADDR_PAGE (hint hi)) \<le> r" "r + n < NPAGES" "run_ok (k_pt m) (Suc n) r"
  shows "\<exists>b m'. sbrk n \<lparr>pi_flags = fl, pi_policy = policy\<rparr> hi KernelProc m = Inr (Some (page_addr b), m') \<and>
    max (k_lfpe m) (ADDR_PAGE (hint hi)) \<le> b \<and> b \<le> r \<and> run_ok (k_pt m) n b \<and> kmap_inv m' \<and>
    (\<forall>q. q \<notin> {b..<b + n} \<longrightarrow> k_pt m' q = k_pt m q) \<and>
    (\<forall>q\<in>{b..<b + n}. \<exists>f\<in>unused_frames m. k_pt m' q = FRAME_ID_ADDR f OR policy)"
proof -
  have rn: "run_ok (k_pt m) n r" "\<not> pte_used (k_pt m (r + n))" using r(3) by (auto simp: run_ok_def)
  obtain b where b: "get_contiguous_pages_proc n hi KernelProc m = Inr b"
    "max (k_lfpe m) (ADDR_PAGE (hint hi)) \<le> b" "b \<le> r" "run_ok (k_pt m) n b"
    using first_fit_found [OF r(1,2) rn(1)] hi
    by (auto simp: get_contiguous_pages_proc_def get_contiguous_pages_def)
  have pol': "bit policy 0" "\<not> bit policy 9" "drop_bit 12 policy = 0"
    "policy AND NOT (PAGE_USER OR PAGE_LAZY_ZERO OR PAGE_PRESENT OR PAGE_WRITE) = 0"
    by (simp_all add: pol bit_numeral_rec)
  have "sbrk_loop_inv policy b m b m" using inv by (simp add: sbrk_loop_inv_def)
  then obtain m1 where m1: "for_n (sbrk_page KernelProc policy) b n m = Inr m1" "sbrk_loop_inv policy b m (b + n) m1"
    using for_n_total [of "sbrk_loop_inv policy b m" b m n "sbrk_page KernelProc policy"]
      sbrk_loop_step [of policy b m _ _ n] b r(2) pol'(1,3) n by auto
  note inv1 = m1(2) [unfolded sbrk_loop_inv_def]
  have "\<not> pte_used (k_pt m1 (r + n))" using inv1 rn(2) b(3) by auto
  then obtain l where "next_free (k_pt m1) (k_lfpe m1) = Inr l"
    using next_free_found [of "k_lfpe m1" "r + n" "k_pt m1"] r inv1 by auto
  then have "sbrk n \<lparr>pi_flags = fl, pi_policy = policy\<rparr> hi KernelProc m =
      Inr (Some (page_addr b), m1\<lparr>k_lfpe := l\<rparr>)"
    using b ff m1(1) pol' r by (simp add: sbrk_def has_flag_bit Let_def)
  moreover have "kmap_inv (m1\<lparr>k_lfpe := l\<rparr>)"
    using inv1 by (simp add: kmap_inv_def FRAME_USED_def)
  ultimately show ?thesis using b inv1 by (intro exI [of _ b] exI [of _ "m1\<lparr>k_lfpe := l\<rparr>"]) simp
qed

lemma sbrk_kernel_sound:
  assumes sb: "sbrk n \<lparr>pi_flags = fl, pi_policy = policy\<rparr> hi KernelProc m = Inr (Some a, m')"
    and inv: "kmap_inv m" and pol: "policy = PAGE_PRESENT OR PAGE_WRITE" and hi: "\<not> is_mandatory hi"
    and n: "n \<le> NPAGES" and l: "max (k_lfpe m) (ADDR_PAGE (hint hi)) \<le> NPAGES"
  obtains b where "a = page_addr b" and "max (k_lfpe m) (ADDR_PAGE (hint hi)) \<le> b" and "b + n < NPAGES"
    and "run_ok (k_pt m) n b" and "kmap_inv m'" and "\<forall>q. q \<notin> {b..<b + n} \<longrightarrow> k_pt m' q = k_pt m q"
    and "\<forall>q\<in>{b..<b + n}. \<exists>f\<in>unused_frames m. k_pt m' q = FRAME_ID_ADDR f OR policy"
    and "k_lfpe m \<le> k_lfpe m'" and "k_lfpe m' \<le> NPAGES" and "unused_frames m' \<subseteq> unused_frames m"
proof -
  have pol': "bit policy 0" "\<not> bit policy 9" "drop_bit 12 policy = 0"
    by (simp_all add: pol bit_numeral_rec)
  obtain b m1 r where b: "get_contiguous_pages_proc n hi KernelProc m = Inr b" "b \<noteq> NONE32" "a = page_addr b"
    and lp: "for_n (sbrk_page KernelProc policy) b n m = Inr m1" and nf: "next_free (k_pt m1) (k_lfpe m1) = Inr r"
    and m': "m' = m1\<lparr>k_lfpe := r\<rparr>"
    using sb by (auto simp: sbrk_def res_elims Let_def split: if_splits)
  have ff: "max (k_lfpe m) (ADDR_PAGE (hint hi)) \<le> b \<and> b + n < NPAGES \<and> run_ok (k_pt m) n b"
    using first_fit_sound [of "k_pt m" n "max (k_lfpe m) (ADDR_PAGE (hint hi))" b] b hi n l
    by (simp add: get_contiguous_pages_proc_def get_contiguous_pages_def)
  have li: "sbrk_loop_inv policy b m (b + n) m1"
  proof (rule for_n_invariant [OF lp, where P = "sbrk_loop_inv policy b m"])
    show "sbrk_loop_inv policy b m b m" using inv by (simp add: sbrk_loop_inv_def)
    fix j s s' assume j: "b \<le> j" "j < b + n" and s: "sbrk_loop_inv policy b m j s" "sbrk_page KernelProc policy j s = Inr s'"
    show "sbrk_loop_inv policy b m (Suc j) s'"
      by (rule sbrk_loop_step_sound [OF s j]) (use ff pol' in auto)
  qed
  note inv1 = li [unfolded sbrk_loop_inv_def]
  have "k_lfpe m1 \<le> r \<and> r \<le> NPAGES" using next_free_range [OF nf] by simp
  moreover have "kmap_inv m'" using inv1 m' by (simp add: kmap_inv_def FRAME_USED_def)
  moreover have "unused_frames m' = unused_frames m1" using m' by (simp add: unused_frames_def FRAME_USED_def)
  ultimately show ?thesis
    using b(3) ff inv1 m' by (intro that [of b]) auto
qed
section \<open>A state for examples\<close>

text \<open>No page is in use and every frame above those of the boot is free.\<close>

definition demo_abi :: vm_abi where
  "demo_abi = \<lparr>PROT_READ = 1, PROT_WRITE = 2, PROT_EXEC = 4, MAP_PRIVATE = 2, MAP_SHARED = 1, MAP_FIXED = 16, MAP_ANON = 32,
     MAP_ANONYMOUS = 32\<rparr>"

definition demo_mem :: kmem where
  "demo_mem = \<lparr>k_pt = (\<lambda>_. 0), frame_to_page = (\<lambda>_. NONE32), frame_rc = (\<lambda>_. 0), lowest_free_frame = BOOT_FRAMES,
     lowest_free_pe_user = 1, k_lfpe = 790529,
     uspace = (\<lambda>_. \<lparr>u_pt = (\<lambda>_. 0), u_pdt = (\<lambda>_. 0), u_pt_addr = 0, u_lfpe = 1\<rparr>), frame_data = (\<lambda>_ _. 0)\<rparr>"

lemma demo_mem_ok [simp]: "kmap_inv demo_mem" "free_frames demo_mem \<noteq> {}" "3 \<le> card (free_frames demo_mem)"
  "2 \<le> card (free_frames demo_mem)"
proof -
  show "kmap_inv demo_mem" by (simp add: demo_mem_def kmap_inv_def FRAME_USED_def)
  have "free_frames demo_mem = {BOOT_FRAMES..<SOUND_FRAMES}"
    by (rule set_eqI) (simp add: demo_mem_def FRAME_USED_def free_frames_def)
  then have c: "card (free_frames demo_mem) = SOUND_FRAMES - BOOT_FRAMES" by (simp only: card_atLeastLessThan)
  then show "3 \<le> card (free_frames demo_mem)" "2 \<le> card (free_frames demo_mem)" by simp_all
  from c show "free_frames demo_mem \<noteq> {}" by auto
qed

lemma demo_mem_simps [simp]:
  "k_pt demo_mem = (\<lambda>_. 0)" "lowest_free_frame demo_mem = BOOT_FRAMES" "k_lfpe demo_mem = 790529"
  "frame_rc demo_mem = (\<lambda>_. 0)" "lowest_free_pe_user demo_mem = 1" "u_pt (uspace demo_mem i) = (\<lambda>_. 0)"
  "u_lfpe (uspace demo_mem i) = 1" "\<not> FRAME_USED demo_mem f"
  by (simp_all add: demo_mem_def FRAME_USED_def)

lemma not_used_0 [simp]: "\<not> pte_used 0"
  by (simp add: pte_used_iff)

text \<open>Frame 4096 mapped at page 790529 of the kernel.\<close>

definition demo_mapped :: kmem where
  "demo_mapped = with_page BOOT_FRAMES 790529 DEFAULT_K_POLICY demo_mem"

lemma demo_mapped_ok:
  shows "kmap_inv demo_mapped" and "k_pt demo_mapped 790529 = FRAME_ID_ADDR BOOT_FRAMES OR DEFAULT_K_POLICY"
    and "pte_frame (FRAME_ID_ADDR BOOT_FRAMES OR DEFAULT_K_POLICY) = BOOT_FRAMES"
proof -
  have "drop_bit 12 DEFAULT_K_POLICY = 0" "bit DEFAULT_K_POLICY 0" by (simp_all add: DEFAULT_K_POLICY_def bit_numeral_rec)
  then show "pte_frame (FRAME_ID_ADDR BOOT_FRAMES OR DEFAULT_K_POLICY) = BOOT_FRAMES" by (simp add: pte_frame_make)
  show "k_pt demo_mapped 790529 = FRAME_ID_ADDR BOOT_FRAMES OR DEFAULT_K_POLICY" by (simp add: demo_mapped_def)
  show "kmap_inv demo_mapped"
    unfolding demo_mapped_def using \<open>drop_bit 12 DEFAULT_K_POLICY = 0\<close> \<open>bit DEFAULT_K_POLICY 0\<close>
    by (intro with_page_inv) (simp_all add: unused_frames_def)
qed


text \<open>
  C27. \<open>sbrk\<close> for the kernel: if enough frames and a run of free pages (with one free page behind it)
  exist, the call succeeds; it maps the requested pages at the lowest run it meets from the hint on,
  each to a frame that was free before, keeps every other entry, and keeps \<open>frame_to_page\<close> the inverse
  of the page tables, so that no frame is mapped twice.
\<close>
theorem sbrk_maps_fresh_pages:
  assumes "kmap_inv m" and "policy = PAGE_PRESENT OR PAGE_WRITE" and "n \<le> card (free_frames m)"
    and "lowest_free_frame m < NPAGES" and "\<not> is_mandatory hi"
    and "max (k_lfpe m) (ADDR_PAGE (hint hi)) \<le> r" and "r + n < NPAGES" and "run_ok (k_pt m) (Suc n) r"
  shows "\<exists>b m'. sbrk n \<lparr>pi_flags = fl, pi_policy = policy\<rparr> hi KernelProc m = Inr (Some (page_addr b), m') \<and>
    max (k_lfpe m) (ADDR_PAGE (hint hi)) \<le> b \<and> b \<le> r \<and> run_ok (k_pt m) n b \<and> kmap_inv m' \<and>
    (\<forall>q. q \<notin> {b..<b + n} \<longrightarrow> k_pt m' q = k_pt m q) \<and>
    (\<forall>q\<in>{b..<b + n}. \<exists>f\<in>unused_frames m. k_pt m' q = FRAME_ID_ADDR f OR policy)"
  by (rule sbrk_kernel_ok [OF assms])

theorem sbrk_maps_fresh_pages_witness:
  "\<exists>b m'. sbrk 3 \<lparr>pi_flags = 0, pi_policy = PAGE_PRESENT OR PAGE_WRITE\<rparr> DEFAULT_HINT_INFO KernelProc demo_mem =
     Inr (Some (page_addr b), m') \<and> kmap_inv m'"
proof -
  have "run_ok (k_pt demo_mem) (Suc 3) 790529" by (simp add: run_ok_def)
  then show ?thesis
    using sbrk_maps_fresh_pages [of demo_mem "PAGE_PRESENT OR PAGE_WRITE" 3 DEFAULT_HINT_INFO 790529 0]
    by (auto simp: DEFAULT_HINT_INFO_def ADDR_PAGE_def)
qed

text \<open>Freeing a present kernel page with one reference gives its frame back.\<close>

lemma ADDR_PAGE_page_addr [simp]: "p < NPAGES \<Longrightarrow> ADDR_PAGE (page_addr p) = p"
  by (simp add: ADDR_PAGE_def page_addr_def)

text \<open>
  Freeing a kernel page: freeing a present page whose frame has one reference and is not one of the
  boot frames clears its entry, gives the frame back, and keeps the page tables and \<open>frame_to_page\<close>
  inverse to each other.
\<close>
theorem free_page_kernel_ok:
  assumes inv: "kmap_inv m" and p: "p < NPAGES" "bit (k_pt m p) 0" "\<not> bit (k_pt m p) 9"
    and f: "f = pte_frame (k_pt m p)" "BOOT_FRAMES \<le> f" and rc: "frame_rc m f = 1"
  shows "\<exists>m'. free_page (page_addr p) KernelProc m = Inr m' \<and> kmap_inv m' \<and> k_pt m' = (k_pt m)(p := 0) \<and>
    unused_frames m' = insert f (unused_frames m)"
proof -
  let ?m = "m\<lparr>frame_rc := (frame_rc m)(f := 0)\<rparr>"
  let ?m' = "m\<lparr>k_pt := (k_pt m)(p := 0), frame_to_page := (frame_to_page m)(f := NONE32),
      frame_rc := (frame_rc m)(f := 0), lowest_free_frame := min (lowest_free_frame m) f\<rparr>"
  have fl: "f < NPAGES" using f by simp
  have sys: "page_addr p div 4194304 * 1024 + p mod 1024 = p" using p(1) by (simp add: page_addr_def)
  from free_page_id_eq [OF p(1), of ?m f] have "free_page_id p ?m = Inr ?m'"
    using p f fun_upd_upd by simp
  then have "free_page (page_addr p) KernelProc m = Inr ?m'"
    using p(1) f rc sys by (simp add: free_page_def pte_frame_PHYS_ADDR sub32_eq Let_def)
  moreover have "kmap_inv ?m'" by (rule free_page_id_inv [OF inv p(1,2) f])
  moreover have "unused_frames ?m' = insert f (unused_frames m)"
    using fl f(2) by (auto simp: unused_frames_def FRAME_USED_def)
  ultimately show ?thesis by auto
qed

theorem free_page_kernel_ok_witness:
  "\<exists>m'. free_page (page_addr 790529) KernelProc demo_mapped = Inr m' \<and> kmap_inv m' \<and> k_pt m' 790529 = 0"
proof -
  have "bit (FRAME_ID_ADDR BOOT_FRAMES OR DEFAULT_K_POLICY) 0" "\<not> bit (FRAME_ID_ADDR BOOT_FRAMES OR DEFAULT_K_POLICY) 9"
    by (simp_all add: bit_or_iff DEFAULT_K_POLICY_def bit_numeral_rec)
  moreover have "frame_rc demo_mapped BOOT_FRAMES = 1" by (simp add: demo_mapped_def)
  ultimately obtain m' where "free_page (page_addr 790529) KernelProc demo_mapped = Inr m'" "kmap_inv m'"
    "k_pt m' = (k_pt demo_mapped)(790529 := 0)"
    using free_page_kernel_ok [OF demo_mapped_ok(1), of 790529 BOOT_FRAMES] unfolding demo_mapped_ok(2,3) by auto
  then show ?thesis by (intro exI [of _ m']) simp
qed

text \<open>
  A lazily allocated kernel page carries the number of a frame that it does not own. Freeing it
  before it was touched leaves the entry in place and makes the counter of that frame wrap around,
  and the next allocation of a kernel page, which picks this frame, stops the system.
\<close>
theorem lazy_kernel_page_free:
  assumes inv: "kmap_inv m" and free: "free_frames m \<noteq> {}" and p: "p < NPAGES"
    and pol: "policy = PAGE_LAZY_ZERO OR PAGE_WRITE" and q: "q < NPAGES"
  shows "\<exists>m2 m3. allocate_page p policy m = Inr m2 \<and> free_page (page_addr p) KernelProc m2 = Inr m3 \<and>
    k_pt m3 p \<noteq> 0 \<and>
    allocate_page q DEFAULT_K_POLICY m3 = Inl (Irrecoverable ''Trying to allocate frame which is already allocated'')"
proof -
  obtain f m1 where f: "get_free_frame m = (f, m1)" by (cases "get_free_frame m")
  note gf = get_free_frame_eq [OF inv f] and ff = get_free_frame_free [OF inv f free]
  have fl: "f < NPAGES" "\<not> FRAME_USED m f" using ff(1) by (simp_all add: free_frames_def)
  let ?m2 = "m\<lparr>lowest_free_frame := f, k_pt := (k_pt m)(p := FRAME_ID_ADDR f OR policy)\<rparr>"
  let ?m3 = "?m2\<lparr>frame_rc := (frame_rc m)(f := NONE32)\<rparr>"
  have pf: "pte_frame (FRAME_ID_ADDR f OR policy) = f" using fl pol by (simp add: pte_frame_make)
  have "\<not> bit policy 0" using pol by (simp add: bit_numeral_rec)
  then have a: "allocate_page p policy m = Inr ?m2"
    using f gf(1) p by (simp add: allocate_page_def allocate_page_frame_def has_flag_bit)
  have b: "free_page (page_addr p) KernelProc ?m2 = Inr ?m3"
    using p pf ff(2) by (simp add: free_page_def pte_frame_PHYS_ADDR sub32_wrap Let_def)
  have "first_free (FRAME_USED ?m3) f = f"
    using fl by (subst first_free.simps) (simp add: FRAME_USED_def)
  then have c: "allocate_page q DEFAULT_K_POLICY ?m3 =
      Inl (Irrecoverable ''Trying to allocate frame which is already allocated'')"
    using fl q by (simp add: allocate_page_def get_free_frame_def allocate_page_frame_def
        MARK_FRAME_USED_def has_flag_def DEFAULT_K_POLICY_def Let_def)
  have "bit (FRAME_ID_ADDR f OR policy) 9" using pol by (simp add: bit_or_iff bit_numeral_rec)
  then have "k_pt ?m3 p \<noteq> 0" by auto
  with a b c show ?thesis by blast
qed

theorem lazy_kernel_page_free_witness:
  "\<exists>m2 m3. allocate_page 790530 (PAGE_LAZY_ZERO OR PAGE_WRITE) demo_mem = Inr m2 \<and>
     free_page (page_addr 790530) KernelProc m2 = Inr m3 \<and> k_pt m3 790530 \<noteq> 0 \<and>
     allocate_page 790531 DEFAULT_K_POLICY m3 = Inl (Irrecoverable ''Trying to allocate frame which is already allocated'')"
  by (rule lazy_kernel_page_free [OF demo_mem_ok(1,2) _ refl]) simp_all

section \<open>Entries of user processes\<close>

definition dec_rc :: "nat \<Rightarrow> (nat \<Rightarrow> nat) \<Rightarrow> nat \<Rightarrow> nat" where
  "dec_rc f rc = rc(f := rc f - 1)"

definition inc_rc :: "u32 \<Rightarrow> (nat \<Rightarrow> nat) \<Rightarrow> nat \<Rightarrow> nat" where
  "inc_rc v rc = (if bit v 0 \<and> \<not> bit v 9 then rc(pte_frame v := add32 (rc (pte_frame v)) 1) else rc)"

text \<open>What a change to a user process leaves alone, and what \<open>update_pte\<close> does.\<close>

definition same_kernel :: "kmem \<Rightarrow> kmem \<Rightarrow> bool" where
  "same_kernel m m' \<longleftrightarrow> k_pt m' = k_pt m \<and> frame_to_page m' = frame_to_page m \<and>
     lowest_free_frame m' = lowest_free_frame m \<and> k_lfpe m' = k_lfpe m \<and>
     lowest_free_pe_user m' = lowest_free_pe_user m"

definition upd :: "nat \<Rightarrow> nat \<Rightarrow> u32 \<Rightarrow> kmem \<Rightarrow> kmem" where
  "upd i pte val m = take_ref val (fill_pde (UserProc i) (pte div 1024) (set_proc_pte (UserProc i) pte val
     (m\<lparr>frame_rc := dec_rc (pte_frame (u_pt (uspace m i) pte)) (frame_rc m)\<rparr>)))"

lemma update_pte_user:
  assumes "pte < NPAGES"
    and "bit (u_pt (uspace m i) pte) 0 \<Longrightarrow> frame_rc m (pte_frame (u_pt (uspace m i) pte)) \<noteq> 0"
  shows "update_pte (UserProc i) pte val m = Inr (upd i pte val m)"
proof -
  let ?old = "u_pt (uspace m i) pte"
  have "release_ref ?old m = Inr (m\<lparr>frame_rc := dec_rc (pte_frame ?old) (frame_rc m)\<rparr>)"
    using assms(2) by (auto simp: release_ref_def dec_rc_def has_flag_bit fun_upd_idem Let_def)
  then show ?thesis
    using assms(1) by (simp add: update_pte_def pte_entry_def upd_def del: fill_pde.simps set_proc_pte.simps)
qed

lemma upd_user [simp]:
  "frame_rc (upd i pte val m) = inc_rc val (dec_rc (pte_frame (u_pt (uspace m i) pte)) (frame_rc m))"
  "u_pt (uspace (upd i pte val m) j) = (if j = i then (u_pt (uspace m i))(pte := val) else u_pt (uspace m j))"
  "u_lfpe (uspace (upd i pte val m) j) = u_lfpe (uspace m j)"
  by (simp_all add: upd_def inc_rc_def take_ref_def has_flag_bit Let_def)

lemma upd_kernel [simp]:
  "k_pt (upd i pte val m) = k_pt m" "frame_to_page (upd i pte val m) = frame_to_page m"
  "frame_data (upd i pte val m) = frame_data m" "lowest_free_frame (upd i pte val m) = lowest_free_frame m"
  "k_lfpe (upd i pte val m) = k_lfpe m" "lowest_free_pe_user (upd i pte val m) = lowest_free_pe_user m"
  by (simp_all add: upd_def take_ref_def Let_def)

lemma upd_same_kernel: "same_kernel m (upd i pte val m)"
  by (simp add: same_kernel_def)

lemma kmap_inv_same_kernel:
  assumes "kmap_inv m" and "same_kernel m m'" and "\<And>f. f \<in> free_frames m \<Longrightarrow> frame_rc m' f = 0"
  shows "kmap_inv m'"
  using assms unfolding kmap_inv_def same_kernel_def FRAME_USED_def free_frames_def by auto

section \<open>Page faults\<close>

lemma lazy_policy_bits [simp]:
  "bit (lazy_policy u) 0" "bit (lazy_policy u) (Suc 0)" "bit (lazy_policy u) 2 \<longleftrightarrow> u"
  "\<not> bit (lazy_policy u) 8" "\<not> bit (lazy_policy u) 9" "drop_bit 12 (lazy_policy u) = 0"
  by (simp_all add: lazy_policy_def bit_or_iff bit_numeral_rec)

text \<open>
  C6. Demand zeroing: a fault of a user process on a page it has been promised lazily is handled; the
  page then maps a frame that was free before, is present and writable, keeps its user bit, and reads
  as zeros; no other page of any process changes, and the frame is counted twice, once for the process
  and once for the kernel.
\<close>
theorem lazy_fault_user:
  assumes inv: "kmap_inv m" and page: "page < ADDR_PAGE KERNEL_VIRTUAL_BASE" "ADDR_PAGE addr = page"
    and pte: "pte = u_pt (uspace m i) page" "bit pte 9" "\<not> bit pte 8"
    and free: "free_frames m \<noteq> {}"
    and q: "k_lfpe m \<le> q" "q < NPAGES" "\<not> pte_used (k_pt m q)"
  shows "\<exists>f m' v. page_fault_handler (UserProc i) addr w m = Inr (True, m') \<and> f \<in> free_frames m \<and>
    v = u_pt (uspace m' i) page \<and> bit v 0 \<and> bit v 1 \<and> (bit v 2 \<longleftrightarrow> bit pte 2) \<and> \<not> bit v 9 \<and> pte_frame v = f \<and>
    frame_data m' f = (\<lambda>_. 0) \<and> (\<forall>g. g \<noteq> f \<longrightarrow> frame_data m' g = frame_data m g) \<and>
    frame_rc m' f = 2 \<and> kmap_inv m' \<and> free_frames m' = free_frames m - {f} \<and>
    (\<forall>j p. (j, p) \<noteq> (i, page) \<longrightarrow> u_pt (uspace m' j) p = u_pt (uspace m j) p)"
proof -
  obtain f m1 where g: "get_free_frame m = (f, m1)" by (cases "get_free_frame m")
  note gf = get_free_frame_eq [OF inv g]
  note ff = get_free_frame_free [OF inv g free]
  have f: "f < NPAGES" "\<not> FRAME_USED m f" "BOOT_FRAMES \<le> f" using ff(1) by (simp_all add: free_frames_def)
  let ?pol = "lazy_policy (bit pte 2)"
  let ?v = "FRAME_ID_ADDR f OR ?pol"
  have pf: "pte_frame ?v = f" using f(1) by (simp add: pte_frame_make)
  define sys where "sys = first_free (\<lambda>i. pte_used (k_pt m i)) (k_lfpe m)"
  have sys: "sys < NPAGES" "\<not> pte_used (k_pt m sys)"
    using first_free_least(2) [of "k_lfpe m" q "\<lambda>i. pte_used (k_pt m i)"]
      first_free_unused [of "\<lambda>i. pte_used (k_pt m i)"] q unfolding sys_def by blast+
  have hh: "\<not> KERNEL_VIRTUAL_BASE \<le> addr"
    using page unfolding ADDR_PAGE_def by (metis div_le_mono not_le)
  have pne: "pte \<noteq> 0" using pte(2) by auto
  let ?m3 = "(zero_frame f (set_proc_pte (UserProc i) page ?v m1))\<lparr>k_lfpe := sys\<rparr>"
  let ?m4 = "with_page f sys ?pol ?m3"
  let ?m' = "?m4\<lparr>frame_rc := (frame_rc m)(f := 2)\<rparr>"
  have inv3: "kmap_inv ?m3" using gf(2) by (simp add: kmap_inv_def FRAME_USED_def zero_frame_def)
  have f3: "f \<in> unused_frames ?m3" "k_pt ?m3 = k_pt m" "frame_rc ?m3 = frame_rc m"
    using f gf(1) by (simp_all add: unused_frames_def FRAME_USED_def zero_frame_def)
  have inv4: "kmap_inv ?m4"
    using with_page_inv [OF inv3 f3(1) sys(1), of ?pol] sys(2) f3(2) by (simp add: pte_used_iff)
  have mark: "MARK_FRAME_USED f sys (set_proc_pte KernelProc sys ?v ?m3) = Inr ?m4"
    using f(1) f3(3) ff(2) by (simp add: MARK_FRAME_USED_def with_page_def)
  have sp: "set_proc_pte KernelProc sys ?v ?m3 = ?m3\<lparr>k_pt := (k_pt m)(sys := ?v)\<rparr>"
    using f3(2) by simp
  have gp: "get_free_pe (zero_frame f (set_proc_pte (UserProc i) page ?v m1)) = (sys, ?m3)"
    using gf(1) by (simp add: get_free_pe_def sys_def zero_frame_def Let_def)
  have "handle_lazy_zero_page_fault (UserProc i) False page m = Inr ?m'"
    using g gp mark sys(1) pte(1) f3(3)
    by (simp add: handle_lazy_zero_page_fault_def has_flag_bit add32_eq Let_def numeral_2_eq_2
        del: set_proc_pte.simps)
  then have "page_fault_handler (UserProc i) addr w m = Inr (True, ?m')"
    using hh pne pte page by (simp add: page_fault_handler_def has_flag_bit Let_def)
  moreover have used: "FRAME_USED ?m' g \<longleftrightarrow> g = f \<or> FRAME_USED m g" for g
    using sys(1) gf(1) by (auto simp: FRAME_USED_def zero_frame_def)
  moreover have "kmap_inv ?m'"
    by (rule kmap_inv_same_kernel [OF inv4])
      (use inv sys(1) in \<open>auto simp: same_kernel_def kmap_inv_def free_frames_def FRAME_USED_def zero_frame_def gf(1) split: if_splits\<close>)
  moreover have "free_frames ?m' = free_frames m - {f}" using used by (auto simp: free_frames_def)
  moreover have "frame_data ?m' = (frame_data m)(f := (\<lambda>_. 0))" using gf(1) by (simp add: zero_frame_def)
  moreover have "u_pt (uspace ?m' j) p = (if (j, p) = (i, page) then ?v else u_pt (uspace m j) p)" for j p
    using gf(1) by (simp add: zero_frame_def)
  ultimately show ?thesis
    using ff(1) pf by (intro exI [of _ f] exI [of _ ?m'] exI [of _ ?v]) (simp add: bit_or_iff)
qed

theorem lazy_fault_user_witness:
  "\<exists>f m'. page_fault_handler (UserProc 0) 20485 True
      (demo_mem\<lparr>uspace := (uspace demo_mem)(0 := (uspace demo_mem 0)\<lparr>u_pt := (\<lambda>_. 0)(5 := 0x206)\<rparr>)\<rparr>) = Inr (True, m') \<and>
     pte_frame (u_pt (uspace m' 0) 5) = f \<and> frame_data m' f = (\<lambda>_. 0)"
proof -
  let ?m = "demo_mem\<lparr>uspace := (uspace demo_mem)(0 := (uspace demo_mem 0)\<lparr>u_pt := (\<lambda>_. 0)(5 := 0x206)\<rparr>)\<rparr>"
  have "free_frames ?m = free_frames demo_mem" by (simp add: free_frames_def FRAME_USED_def)
  then have "free_frames ?m \<noteq> {}" using demo_mem_ok(2) by simp
  moreover have "kmap_inv ?m" using demo_mem_ok(1) by (simp add: kmap_inv_def FRAME_USED_def)
  ultimately show ?thesis
    using lazy_fault_user [of ?m 5 20485 "0x206" 0 790529 True] by (auto simp: ADDR_PAGE_def bit_numeral_rec)
qed

lemma cow_policy_bits [simp]:
  "bit (cow_policy pte) 0 \<longleftrightarrow> bit pte 0" "bit (cow_policy pte) (Suc 0)" "bit (cow_policy pte) 2 \<longleftrightarrow> bit pte 2"
  "\<not> bit (cow_policy pte) 8" "bit (cow_policy pte) 9 \<longleftrightarrow> bit pte 9" "drop_bit 12 (cow_policy pte) = 0"
  by (simp_all add: cow_policy_def bit_or_iff bit_and_iff bit_not_iff bit_numeral_rec drop_bit_and drop_bit_or)

text \<open>
  A write to a copy-on-write page of a user process. \<open>uproc_ok\<close> is what the processes satisfy:
  an entry that is not used is empty, and frame 0 has no counted reference.
\<close>

definition uproc_ok :: "kmem \<Rightarrow> nat \<Rightarrow> bool" where
  "uproc_ok m i \<longleftrightarrow> frame_rc m 0 = 0 \<and>
     (\<forall>q<NPAGES. \<not> pte_used (u_pt (uspace m i) q) \<longrightarrow> u_pt (uspace m i) q = 0)"

text \<open>A frame taken for a user page is entered in the kernel's tables first.\<close>

lemma sys_alloc:
  assumes inv: "kmap_inv m" and free: "free_frames m \<noteq> {}" and pol: "bit policy 0" "drop_bit 12 policy = 0"
    and q: "lowest_free_pe_user m \<le> q" "q < NPAGES" "\<not> pte_used (k_pt m q)"
  obtains sys m1 f m2 m3 where "get_free_pe_user m = (sys, m1)" and "get_free_frame m1 = (f, m2)"
    and "allocate_page_frame f sys policy m2 = Inr m3" and "kmap_inv m3" and "f \<in> free_frames m"
    and "uspace m2 = uspace m" and "uspace m3 = uspace m" and "frame_rc m3 = (frame_rc m)(f := 1)"
    and "frame_data m3 = frame_data m" and "frame_to_page m3 = (frame_to_page m)(f := sys)" and "sys < NPAGES"
    and "k_pt m3 = (k_pt m)(sys := FRAME_ID_ADDR f OR policy)"
proof -
  define sys where "sys = first_free (\<lambda>i. pte_used (k_pt m i)) (lowest_free_pe_user m)"
  define m1 where "m1 = m\<lparr>lowest_free_pe_user := sys\<rparr>"
  have sys: "sys < NPAGES" "\<not> pte_used (k_pt m sys)"
    using first_free_least(2) [of "lowest_free_pe_user m" q "\<lambda>i. pte_used (k_pt m i)"]
      first_free_unused [of "\<lambda>i. pte_used (k_pt m i)"] q unfolding sys_def by blast+
  have inv1: "kmap_inv m1" using inv by (simp add: kmap_inv_def m1_def FRAME_USED_def)
  obtain f m2 where g: "get_free_frame m1 = (f, m2)" by (cases "get_free_frame m1")
  note gf = get_free_frame_eq [OF inv1 g]
  have "free_frames m1 = free_frames m" by (simp add: free_frames_def FRAME_USED_def m1_def)
  then have ff: "f \<in> free_frames m" "frame_rc m2 f = 0" and f: "f < NPAGES" "f \<in> unused_frames m2"
    using get_free_frame_free [OF inv1 g] free gf(1) by (auto simp: free_frames_def unused_frames_def FRAME_USED_def)
  let ?m3 = "with_page f sys policy m2"
  have "kmap_inv ?m3"
    using sys(2) pol
    by (intro with_page_inv [OF gf(2) f(2) sys(1)]) (simp_all add: gf(1) m1_def pte_used_iff)
  moreover have "get_free_pe_user m = (sys, m1)" by (simp add: get_free_pe_user_def sys_def m1_def Let_def)
  moreover note allocate_page_frame_eq [OF f(1) ff(2) sys(1) pol(1)] g
  ultimately show ?thesis
    using ff(1) sys by (intro that [of sys m1 f m2 ?m3]) (simp_all add: gf(1) m1_def)
qed

text \<open>
  The remapping steps of the copy-on-write handler: the old page moves to the mapping
  page \<open>mp\<close>, the new frame is mapped, the contents are copied and the mapping page is released.
\<close>

lemma cow_remap:
  fixes v :: u32
  assumes mp: "mp < NPAGES" "u_pt (uspace m i) mp = 0" "mp \<noteq> page" and page: "page < NPAGES"
    and pte: "pte = u_pt (uspace m i) page" "bit pte 0" "\<not> bit pte 9"
    and f0: "f0 = pte_frame pte" "1 \<le> frame_rc m f0" "frame_rc m f0 < W32 - 1" "frame_rc m 0 = 0"
    and v: "bit v 0" "\<not> bit v 9" "f = pte_frame v" "frame_rc m f = 1" and ff: "f \<noteq> f0" "f0 \<noteq> 0" "f \<noteq> 0"
  obtains m4 m5 m7 where "update_pte (UserProc i) mp pte m = Inr m4" and "update_pte (UserProc i) page v m4 = Inr m5"
    and "u_pt (uspace m5 i) page = v" and "u_pt (uspace m5 i) mp = pte"
    and "update_pte (UserProc i) mp 0 (copy_frame f f0 m5) = Inr m7" and "same_kernel m m7"
    and "frame_rc m7 = (frame_rc m)(f := 2, f0 := frame_rc m f0 - 1)"
    and "frame_data m7 = (frame_data m)(f := frame_data m f0)"
    and "\<forall>j p. u_pt (uspace m7 j) p = (if (j, p) = (i, page) then v else u_pt (uspace m j) p)"
proof -
  have fr0: "pte_frame 0 = 0" by (simp add: pte_frame_def)
  define m4 where "m4 = upd i mp pte m"
  have m4: "update_pte (UserProc i) mp pte m = Inr m4"
    unfolding m4_def using mp by (intro update_pte_user) simp_all
  have rc4: "frame_rc m4 = (frame_rc m)(f0 := frame_rc m f0 + 1)"
    using mp f0 ff pte by (simp add: m4_def fr0 dec_rc_def inc_rc_def add32_eq fun_upd_idem)
  define m5 where "m5 = upd i page v m4"
  have pt4: "u_pt (uspace m4 i) page = pte" using mp pte(1) by (simp add: m4_def)
  have m5: "update_pte (UserProc i) page v m4 = Inr m5"
    unfolding m5_def using page rc4 pt4 f0 by (intro update_pte_user) simp_all
  have rc5: "frame_rc m5 = (frame_rc m)(f := 2)"
    using rc4 f0(1) ff pte v pt4
    by (simp add: m5_def dec_rc_def inc_rc_def add32_eq fun_upd_idem fun_upd_twist numeral_2_eq_2)
  have pt5: "u_pt (uspace m5 i) page = v" "u_pt (uspace m5 i) mp = pte"
    using mp by (simp_all add: m5_def m4_def)
  define m7 where "m7 = upd i mp 0 (copy_frame f f0 m5)"
  have cf: "uspace (copy_frame f f0 m5) = uspace m5" "frame_rc (copy_frame f f0 m5) = frame_rc m5"
    by (simp_all add: copy_frame_def)
  have "update_pte (UserProc i) mp 0 (copy_frame f f0 m5) = Inr m7"
    unfolding m7_def using mp(1) rc5 pt5 cf f0 ff by (intro update_pte_user) auto
  moreover have "frame_rc m7 = (frame_rc m)(f := 2, f0 := frame_rc m f0 - 1)"
    using rc5 f0(1) ff pt5 cf by (simp add: m7_def dec_rc_def inc_rc_def)
  moreover have "same_kernel m m7" "frame_data m7 = (frame_data m)(f := frame_data m f0)"
    by (simp_all add: same_kernel_def m7_def copy_frame_def m5_def m4_def)
  moreover have "\<forall>j p. u_pt (uspace m7 j) p = (if (j, p) = (i, page) then v else u_pt (uspace m j) p)"
    using mp by (auto simp: m7_def copy_frame_def m5_def m4_def)
  ultimately show ?thesis by (intro that [of m4 m5 m7] m4 m5 pt5)
qed

text \<open>Page 5 of process 0 shares the mapped frame copy-on-write.\<close>

definition demo_cow :: kmem where
  "demo_cow = demo_mapped\<lparr>frame_rc := (frame_rc demo_mapped)(BOOT_FRAMES := 2),
     uspace := (uspace demo_mem)(0 := (uspace demo_mem 0)\<lparr>u_pt := (\<lambda>_. 0)(5 := FRAME_ID_ADDR BOOT_FRAMES OR 0x105)\<rparr>)\<rparr>"

lemma demo_cow_ok:
  shows "kmap_inv demo_cow" and "uproc_ok demo_cow 0" and "free_frames demo_cow \<noteq> {}"
    and "u_pt (uspace demo_cow 0) 5 = FRAME_ID_ADDR BOOT_FRAMES OR 0x105"
    and "pte_frame (FRAME_ID_ADDR BOOT_FRAMES OR 0x105) = BOOT_FRAMES"
    and "bit (FRAME_ID_ADDR BOOT_FRAMES OR 0x105) 0" and "bit (FRAME_ID_ADDR BOOT_FRAMES OR 0x105) 8"
    and "\<not> bit (FRAME_ID_ADDR BOOT_FRAMES OR 0x105) 9" and "frame_rc demo_cow BOOT_FRAMES = 2"
proof -
  show bits: "bit (FRAME_ID_ADDR BOOT_FRAMES OR 0x105) 0" "bit (FRAME_ID_ADDR BOOT_FRAMES OR 0x105) 8"
    "\<not> bit (FRAME_ID_ADDR BOOT_FRAMES OR 0x105) 9" by (simp_all add: bit_or_iff bit_numeral_rec)
  show "pte_frame (FRAME_ID_ADDR BOOT_FRAMES OR 0x105) = BOOT_FRAMES" by (simp add: pte_frame_make)
  show "u_pt (uspace demo_cow 0) 5 = FRAME_ID_ADDR BOOT_FRAMES OR 0x105" "frame_rc demo_cow BOOT_FRAMES = 2"
    by (simp_all add: demo_cow_def)
  show "uproc_ok demo_cow 0"
    using bits(1) by (auto simp: uproc_ok_def demo_cow_def demo_mapped_def pte_used_iff)
  have "4097 \<in> free_frames demo_cow"
    by (simp add: free_frames_def FRAME_USED_def demo_cow_def demo_mapped_def demo_mem_def)
  then show "free_frames demo_cow \<noteq> {}" by blast
  show "kmap_inv demo_cow"
    by (rule kmap_inv_same_kernel [OF demo_mapped_ok(1)])
      (auto simp: same_kernel_def demo_cow_def demo_mapped_def free_frames_def FRAME_USED_def demo_mem_def)
qed

text \<open>
  C1. Copy on write: a write of a user process to a page it shares is handled; the page then maps a
  frame of its own that was free before, with the contents of the shared frame, present, writable and
  no longer marked; the shared frame keeps its contents and loses one reference; no other page of any
  process changes.
\<close>
theorem cow_fault_user:
  assumes inv: "kmap_inv m" and ok: "uproc_ok m i"
    and page: "page < ADDR_PAGE KERNEL_VIRTUAL_BASE" "ADDR_PAGE addr = page"
    and pte: "pte = u_pt (uspace m i) page" "bit pte 0" "bit pte 8" "\<not> bit pte 9"
    and f0: "f0 = pte_frame pte" "1 \<le> frame_rc m f0" "frame_rc m f0 < W32 - 1"
    and free: "free_frames m \<noteq> {}"
    and q: "lowest_free_pe_user m \<le> q" "q < NPAGES" "\<not> pte_used (k_pt m q)"
    and r: "u_lfpe (uspace m i) \<le> r" "r + 1 < NPAGES" "\<not> pte_used (u_pt (uspace m i) r)"
  shows "\<exists>f m' v. page_fault_handler (UserProc i) addr True m = Inr (True, m') \<and> f \<in> free_frames m \<and>
    v = u_pt (uspace m' i) page \<and> bit v 0 \<and> bit v 1 \<and> (bit v 2 \<longleftrightarrow> bit pte 2) \<and> \<not> bit v 8 \<and> pte_frame v = f \<and>
    frame_data m' f = frame_data m f0 \<and> (\<forall>g. g \<noteq> f \<longrightarrow> frame_data m' g = frame_data m g) \<and>
    frame_rc m' = (frame_rc m)(f := 2, f0 := frame_rc m f0 - 1) \<and> kmap_inv m' \<and>
    (\<forall>j p. (j, p) \<noteq> (i, page) \<longrightarrow> u_pt (uspace m' j) p = u_pt (uspace m j) p)"
proof -
  let ?pol = "cow_policy pte"
  have pb: "bit ?pol 0" "drop_bit 12 ?pol = 0" using pte(2) by simp_all
  obtain sys m1 f m2 m3 where al: "get_free_pe_user m = (sys, m1)" "get_free_frame m1 = (f, m2)"
      "allocate_page_frame f sys ?pol m2 = Inr m3" "kmap_inv m3" "f \<in> free_frames m"
    and same: "uspace m2 = uspace m" "uspace m3 = uspace m" "frame_rc m3 = (frame_rc m)(f := 1)"
      "frame_data m3 = frame_data m" "frame_to_page m3 = (frame_to_page m)(f := sys)" and sys: "sys < NPAGES"
    and "k_pt m3 = (k_pt m)(sys := FRAME_ID_ADDR f OR ?pol)"
    by (rule sys_alloc [OF inv free pb q])
  let ?v = "FRAME_ID_ADDR f OR ?pol"
  have f: "f < NPAGES" "\<not> FRAME_USED m f" "f \<noteq> 0" using al(5) by (auto simp: free_frames_def)
  have pf: "pte_frame ?v = f" using f(1) by (simp add: pte_frame_make)
  have "frame_rc m f = 0" using inv al(5) by (simp add: kmap_inv_def free_frames_def)
  then have ff: "f \<noteq> f0" using f0(2) by auto
  have ff0: "f0 \<noteq> 0" "f \<noteq> 0" using f0(2) f(3) ok unfolding uproc_ok_def by (metis not_one_le_zero)+
  obtain mp where mp: "get_contiguous_pages_proc 1 DEFAULT_HINT_INFO (UserProc i) m3 = Inr mp"
    "mp < NPAGES" "\<not> pte_used (u_pt (uspace m i) mp)"
    using first_fit_found [of "u_lfpe (uspace m i)" r 1 "u_pt (uspace m i)"] r
    by (auto simp: get_contiguous_pages_proc_def get_contiguous_pages_def DEFAULT_HINT_INFO_def
        same run_ok_def ADDR_PAGE_def)
  have mp0: "u_pt (uspace m i) mp = 0" "mp \<noteq> page" "page < NPAGES"
    using mp ok pte(1,2) page by (auto simp: uproc_ok_def pte_used_iff ADDR_PAGE_def)
  have pre: "u_pt (uspace m3 i) mp = 0" "pte = u_pt (uspace m3 i) page" "1 \<le> frame_rc m3 f0"
    "frame_rc m3 f0 < W32 - 1" "frame_rc m3 0 = 0" "bit ?v 0" "\<not> bit ?v 9" "f = pte_frame ?v" "frame_rc m3 f = 1"
    using mp0 pte f0 ff ff0 pf ok by (simp_all add: same bit_or_iff uproc_ok_def)
  obtain m4 m5 m7 where ch: "update_pte (UserProc i) mp pte m3 = Inr m4" "update_pte (UserProc i) page ?v m4 = Inr m5"
      "u_pt (uspace m5 i) page = ?v" "u_pt (uspace m5 i) mp = pte"
      "update_pte (UserProc i) mp 0 (copy_frame f f0 m5) = Inr m7"
    and m7: "same_kernel m3 m7" "frame_rc m7 = (frame_rc m3)(f := 2, f0 := frame_rc m3 f0 - 1)"
      "frame_data m7 = (frame_data m3)(f := frame_data m3 f0)"
      "\<forall>j p. u_pt (uspace m7 j) p = (if (j, p) = (i, page) then ?v else u_pt (uspace m3 j) p)"
    by (rule cow_remap [OF mp(2) pre(1) mp0(2,3) pre(2) pte(2,4) f0(1) pre(3-9) ff ff0])
  have "frame_rc m7 f \<noteq> 0" using m7(2) ff by simp
  then have "handle_cow_page_fault (UserProc i) False page m = Inr m7"
    using al mp(1) ch pte(1) pf f0(1) by (simp add: handle_cow_page_fault_def same Let_def)
  moreover have "\<not> KERNEL_VIRTUAL_BASE \<le> addr"
    using page unfolding ADDR_PAGE_def by (metis div_le_mono not_le)
  ultimately have "page_fault_handler (UserProc i) addr True m = Inr (True, m7)"
    using page pte by (simp add: page_fault_handler_def has_flag_bit Let_def)
  moreover have "kmap_inv m7"
    by (rule kmap_inv_same_kernel [OF al(4) m7(1)])
      (use inv m7(2) sys f0(2) ff in \<open>auto simp: kmap_inv_def free_frames_def FRAME_USED_def same split: if_splits\<close>)
  ultimately show ?thesis
    using al(5) f pf m7 pte(2) ff
    by (intro exI [of _ f] exI [of _ m7] exI [of _ ?v]) (simp add: bit_or_iff same)
qed

theorem cow_fault_user_witness:
  "\<exists>f m'. page_fault_handler (UserProc 0) 20485 True demo_cow = Inr (True, m') \<and>
     pte_frame (u_pt (uspace m' 0) 5) = f \<and> frame_data m' f = frame_data demo_cow BOOT_FRAMES \<and> frame_rc m' BOOT_FRAMES = 1"
proof -
  have "\<not> pte_used (k_pt demo_cow 2)" "lowest_free_pe_user demo_cow \<le> 2" "u_lfpe (uspace demo_cow 0) \<le> 7"
    "\<not> pte_used (u_pt (uspace demo_cow 0) 7)" "ADDR_PAGE 20485 = 5" "5 < ADDR_PAGE KERNEL_VIRTUAL_BASE"
    by (simp_all add: demo_cow_def demo_mapped_def with_page_def demo_mem_def ADDR_PAGE_def)
  then show ?thesis
    using cow_fault_user [of demo_cow 0 5 20485 "FRAME_ID_ADDR BOOT_FRAMES OR 0x105" BOOT_FRAMES 2 7] demo_cow_ok by auto
qed

text \<open>
  Freeing a page of a user process clears its entry and takes one reference away, but the frame
  stays with the kernel, which mapped it too when it was allocated: nothing ever gives it back.
\<close>
theorem free_page_user_keeps_frame:
  assumes page: "page < NPAGES" and pte: "pte = u_pt (uspace m i) page" "bit pte 0" "\<not> bit pte 9"
    and f: "f = pte_frame pte" "2 \<le> frame_rc m f"
  shows "\<exists>m'. free_page (page_addr page) (UserProc i) m = Inr m' \<and> u_pt (uspace m' i) page = 0 \<and>
    frame_rc m' f = frame_rc m f - 1 \<and> free_frames m' = free_frames m \<and> k_pt m' = k_pt m"
proof -
  have u: "update_pte (UserProc i) page 0 m = Inr (upd i page 0 m)"
    using page pte f by (intro update_pte_user) auto
  have rc: "frame_rc (upd i page 0 m) f = frame_rc m f - 1"
    using pte(1) f(1) by (simp add: inc_rc_def dec_rc_def)
  have "1 \<le> frame_rc (upd i page 0 m) f" using f(2) rc by simp
  then have "free_page (page_addr page) (UserProc i) m = Inr (upd i page 0 m)"
    using u page pte f(1)
    by (simp add: free_page_def pte_entry_def has_flag_bit pte_frame_PHYS_ADDR Let_def del: upd_user)
  with rc show ?thesis by (simp add: free_frames_def FRAME_USED_def)
qed

theorem free_page_user_keeps_frame_witness:
  "\<exists>m'. free_page (page_addr 5) (UserProc 0) demo_cow = Inr m' \<and> frame_rc m' BOOT_FRAMES = 1 \<and>
     free_frames m' = free_frames demo_cow"
  using free_page_user_keeps_frame [of 5 "FRAME_ID_ADDR BOOT_FRAMES OR 0x105" demo_cow 0 BOOT_FRAMES] demo_cow_ok by auto

section \<open>fork\<close>

lemma update_pte_userD:
  assumes "update_pte (UserProc i) pte val m = Inr m'"
  shows "k_pt m' = k_pt m"
    and "u_pt (uspace m' j) = (if j = i then (u_pt (uspace m i))(pte := val) else u_pt (uspace m j))"
  using assms
  by (auto simp: update_pte_def release_ref_def take_ref_def pte_entry_def res_elims Let_def
      split: if_splits)

lemma allocate_page_frameD:
  assumes "allocate_page_frame f p policy m = Inr m'"
  shows "k_pt m' = (k_pt m)(p := FRAME_ID_ADDR f OR policy)" and "uspace m' = uspace m"
  using assms by (auto simp: allocate_page_frame_def MARK_FRAME_USED_def Let_def split: if_splits)

lemma copy_page_sharedD:
  assumes "copy_page_to_other_process_shared (UserProc p) (UserProc q) page m = Inr m'" and "page' \<noteq> page"
  shows "u_pt (uspace m' j) page' = u_pt (uspace m j) page'"
proof (cases "has_flag (u_pt (uspace m p) page) PAGE_PRESENT")
  case True
  with assms(1) obtain v m1 where "update_pte (UserProc p) page v m = Inr m1" "update_pte (UserProc q) page v m1 = Inr m'"
    by (auto simp: copy_page_to_other_process_shared_def res_elims Let_def)
  then show ?thesis
    using update_pte_userD(2) [of p page v m m1] update_pte_userD(2) [of q page v m1 m'] assms(2) by simp
qed (use assms in \<open>auto simp: copy_page_to_other_process_shared_def Let_def\<close>)

text \<open>A copy of page \<open>page\<close> through the mapping page \<open>mp\<close>.\<close>

lemma copy_pageD:
  assumes "copy_page_to_other_process (UserProc p) (UserProc q) page mp m = Inr m'" and "p \<noteq> q"
  shows "page' \<noteq> mp \<Longrightarrow> u_pt (uspace m' p) page' = u_pt (uspace m p) page'"
    and "u_pt (uspace m p) page = 0 \<Longrightarrow> m' = m"
    and "u_pt (uspace m p) page \<noteq> 0 \<Longrightarrow> \<exists>f. u_pt (uspace m' q) page = FRAME_ID_ADDR f OR (u_pt (uspace m p) page AND 0x7FF) \<and>
        u_pt (uspace m' p) mp = FRAME_ID_ADDR f OR (u_pt (uspace m p) page AND 0x7FF)"
proof -
  show "u_pt (uspace m p) page = 0 \<Longrightarrow> m' = m" 
    using assms(1) by (simp add: copy_page_to_other_process_def)
  obtain sys m1 f m2 where g: "get_free_pe_user m = (sys, m1)" "get_free_frame m1 = (f, m2)"
    by (metis surj_pair)
  have us: "uspace m2 = uspace m"
    using g by (auto simp: get_free_pe_user_def get_free_frame_def Let_def)
  let ?pol = "u_pt (uspace m p) page AND 0x7FF"
  have *: "u_pt (uspace m' j) x = (if j = p then ((u_pt (uspace m p))(mp := FRAME_ID_ADDR f OR ?pol)) x
      else if j = q then ((u_pt (uspace m q))(page := FRAME_ID_ADDR f OR ?pol)) x else u_pt (uspace m j) x)"
    if ne: "u_pt (uspace m p) page \<noteq> 0" for j x
  proof -
    from assms(1) ne g us obtain m3 m4 m5 where
      "allocate_page_frame f sys ?pol m2 = Inr m3"
      "update_pte (UserProc q) page (FRAME_ID_ADDR f OR ?pol) m3 = Inr m4"
      "update_pte (UserProc p) mp (k_pt m4 sys) m4 = Inr m5" and m': "uspace m' = uspace m5"
      by (auto simp: copy_page_to_other_process_def copy_frame_def res_elims Let_def)
    then show ?thesis
      using allocate_page_frameD [of f sys ?pol m2 m3] update_pte_userD [of q page _ m3 m4]
        update_pte_userD [of p mp _ m4 m5] us assms(2) by simp
  qed
  show "page' \<noteq> mp \<Longrightarrow> u_pt (uspace m' p) page' = u_pt (uspace m p) page'"
    using * \<open>u_pt (uspace m p) page = 0 \<Longrightarrow> m' = m\<close> by (cases "u_pt (uspace m p) page = 0") auto
  show "\<exists>f. u_pt (uspace m' q) page = FRAME_ID_ADDR f OR ?pol \<and> u_pt (uspace m' p) mp = FRAME_ID_ADDR f OR ?pol"
    if "u_pt (uspace m p) page \<noteq> 0"
    using * [OF that] assms(2) by auto
qed

text \<open>The shared copies stay below the page table of the stacks.\<close>

lemma fork_share_stack:
  assumes "for_n (fork_share_pde p q) 0 767 m = Inr m'" and "785408 \<le> page"
  shows "u_pt (uspace m' j) page = u_pt (uspace m j) page"
proof -
  have pde: "u_pt (uspace s' j) page = u_pt (uspace s j) page"
    if "fork_share_pde p q i s = Inr s'" "i < 767" for i s s'
  proof (cases "u_pdt (uspace s p) i = 0")
    case False
    let ?body = "\<lambda>k m. if u_pt (uspace m p) (i * 1024 + k) \<noteq> 0
      then copy_page_to_other_process_shared (UserProc p) (UserProc q) (i * 1024 + k) m else Inr m"
    have "for_n ?body 0 1024 s = Inr s'" using that(1) False by (simp add: fork_share_pde_def)
    then show ?thesis
    proof (rule for_n_invariant [where P = "\<lambda>_ t. u_pt (uspace t j) page = u_pt (uspace s j) page"])
      fix k t t' assume k: "k < 0 + 1024" and t: "u_pt (uspace t j) page = u_pt (uspace s j) page" "?body k t = Inr t'"
      have "page \<noteq> i * 1024 + k" using that(2) assms(2) k by simp
      with t show "u_pt (uspace t' j) page = u_pt (uspace s j) page"
        using copy_page_sharedD [of p q "i * 1024 + k" t t' page j] by (auto split: if_splits)
    qed simp
  qed (use that in \<open>simp add: fork_share_pde_def\<close>)
  show ?thesis
    by (rule for_n_invariant [OF assms(1), where P = "\<lambda>_ t. u_pt (uspace t j) page = u_pt (uspace m j) page"])
      (use pde in auto)
qed

definition stack_ok :: "(nat \<Rightarrow> u32) \<Rightarrow> bool" where
  "stack_ok pt \<longleftrightarrow> (\<forall>page\<in>{786302..786431}. pt page = 0 \<or> bit (pt page) 0)"

lemma policy_present: "bit (v :: u32) 0 \<Longrightarrow> bit (FRAME_ID_ADDR f OR (v AND 0x7FF)) 0"
  by (simp add: bit_or_iff bit_and_iff bit_numeral_rec)

lemma copy_stack_page:
  assumes c: "copy_page_to_other_process (UserProc p) (UserProc q) page fork_mapping_page m = Inr m'"
    and "p \<noteq> q" and page: "786302 \<le> page" "page \<le> 786431" and st: "stack_ok (u_pt (uspace m p))"
  shows "stack_ok (u_pt (uspace m' p))"
    and "bit (u_pt (uspace m p) fork_mapping_page) 0 \<or> bit (u_pt (uspace m p) page) 0 \<Longrightarrow>
      bit (u_pt (uspace m' p) fork_mapping_page) 0"
    and "u_pt (uspace m' p) 786431 = u_pt (uspace m p) 786431"
proof -
  note cp = copy_pageD [OF c assms(2)]
  have mp: "fork_mapping_page = 786301" by (simp add: fork_mapping_page_def ADDR_PAGE_def)
  show "stack_ok (u_pt (uspace m' p))" "u_pt (uspace m' p) 786431 = u_pt (uspace m p) 786431"
    using st cp(1) by (auto simp: stack_ok_def mp)
  show "bit (u_pt (uspace m' p) fork_mapping_page) 0"
    if "bit (u_pt (uspace m p) fork_mapping_page) 0 \<or> bit (u_pt (uspace m p) page) 0"
  proof (cases "u_pt (uspace m p) page = 0")
    case True
    with that cp(2) show ?thesis by auto
  next
    case False
    then have "bit (u_pt (uspace m p) page) 0" using st page by (auto simp: stack_ok_def)
    with cp(3) [OF False] policy_present show ?thesis by metis
  qed
qed

lemma fork_child_mapping_page:
  assumes fork: "fork_pages p q m = Inr m'" and "p \<noteq> q"
    and st: "stack_ok (u_pt (uspace m p))" and top: "bit (u_pt (uspace m p) 786431) 0"
  shows "bit (u_pt (uspace m' q) fork_mapping_page) 0"
proof -
  let ?copy = "\<lambda>page. copy_page_to_other_process (UserProc p) (UserProc q) page fork_mapping_page"
  let ?st = "\<lambda>i. ADDR_PAGE (KERNEL_VIRTUAL_BASE - PAGE_SIZE * (i + 1))"
  let ?sy = "\<lambda>i. ADDR_PAGE (KERNEL_VIRTUAL_BASE - PAGE_SIZE * (128 + i + 1))"
  have mp: "fork_mapping_page = 786301" by (simp add: fork_mapping_page_def ADDR_PAGE_def)
  obtain m1 m2 m3 where ms: "for_n (fork_share_pde p q) 0 767 m = Inr m1" "for_n (\<lambda>i. ?copy (?st i)) 0 129 m1 = Inr m2"
    "for_n (\<lambda>i. ?copy (?sy i)) 0 3 m2 = Inr m3"
    "update_pte (UserProc p) fork_mapping_page 0 (fork_copy_pdt p q m3) = Inr m'"
    using fork by (auto simp: fork_pages_def res_elims Let_def split: if_splits)
  have st1: "stack_ok (u_pt (uspace m1 p))" "bit (u_pt (uspace m1 p) 786431) 0"
    using fork_share_stack [OF ms(1)] st top by (auto simp: stack_ok_def)
  let ?P = "\<lambda>(i :: nat) s. stack_ok (u_pt (uspace s p)) \<and> bit (u_pt (uspace s p) 786431) 0 \<and>
    (0 < i \<longrightarrow> bit (u_pt (uspace s p) fork_mapping_page) 0)"
  have page: "?st i = 786431 - i" if "i < 129" for i using that by (simp add: ADDR_PAGE_def)
  have "?P (0 + 129) m2"
  proof (rule for_n_invariant [OF ms(2), where P = ?P])
    fix j s s' assume "0 \<le> j" "j < 0 + 129" "?P j s" "?copy (?st j) s = Inr s'"
    then show "?P (Suc j) s'"
      using copy_stack_page [of p q "786431 - j" s s'] page [of j] assms(2) by (cases "j = 0") auto
  qed (use st1 in simp)
  then have m2: "stack_ok (u_pt (uspace m2 p))" "bit (u_pt (uspace m2 p) fork_mapping_page) 0" by auto
  obtain m2a m2b where cs: "?copy 786303 m2 = Inr m2a" "?copy 786302 m2a = Inr m2b" "?copy fork_mapping_page m2b = Inr m3"
    using ms(3) by (auto simp: res_elims ADDR_PAGE_def mp numeral_3_eq_3)
  have "bit (u_pt (uspace m2b p) fork_mapping_page) 0"
    using copy_stack_page(1,2) [OF cs(1) assms(2)] copy_stack_page(2) [OF cs(2) assms(2)] m2 by simp
  moreover from this have "u_pt (uspace m2b p) fork_mapping_page \<noteq> 0" by auto
  ultimately have "bit (u_pt (uspace m3 q) fork_mapping_page) 0"
    using copy_pageD(3) [OF cs(3) assms(2)] policy_present by metis
  moreover have "u_pt (uspace (fork_copy_pdt p q m3) q) = u_pt (uspace m3 q)"
    by (simp add: fork_copy_pdt_def Let_def)
  ultimately show ?thesis
    using update_pte_userD(2) [OF ms(4), of q] assms(2) by simp
qed

section \<open>A process that forks\<close>

definition demo_fork :: kmem where
  "demo_fork = demo_mem\<lparr>k_pt := (\<lambda>_. 0)(790529 := 0x1000003), frame_to_page := (\<lambda>_. NONE32)(4096 := 790529),
     frame_rc := (\<lambda>_. 0)(4096 := 2), lowest_free_frame := 4097,
     uspace := (uspace demo_mem)(0 := (uspace demo_mem 0)\<lparr>u_pt := (\<lambda>_. 0)(786431 := 0x1000007)\<rparr>)\<rparr>"

lemma first_free_eval: "i < NPAGES \<Longrightarrow> \<not> used i \<Longrightarrow> first_free used i = i" "i < NPAGES \<Longrightarrow> used i \<Longrightarrow> first_free used i = first_free used (Suc i)"
  by (subst first_free.simps; simp)+


lemmas fork_eval = copy_page_to_other_process_def get_free_pe_user_def get_free_frame_def first_free_eval FRAME_USED_def
   allocate_page_frame_def MARK_FRAME_USED_def has_flag_def FRAME_ID_ADDR_def update_pte_def pte_entry_def release_ref_def pte_frame_def take_ref_def
   fork_copy_pdt_def ADDR_PAGE_def PHYS_ADDR_def Let_def add32_def copy_frame_def

text \<open>The state after the first page of the stack, page 786431, has been copied.\<close>

definition demo_fork1 :: kmem where
  "demo_fork1 = demo_mem\<lparr>k_pt := (\<lambda>_. 0)(790529 := 0x1000003, 1 := 0x1001007),
     frame_to_page := (\<lambda>_. NONE32)(4096 := 790529, 4097 := 1), frame_rc := (\<lambda>_. 0)(4096 := 2, 4097 := 3),
     lowest_free_frame := 4097, frame_data := (\<lambda>_ _. 0)(4097 := \<lambda>_. 0),
     uspace := (uspace demo_mem)(
       1 := (uspace demo_mem 1)\<lparr>u_pt := (\<lambda>_. 0)(786431 := 0x1001007), u_pdt := (\<lambda>_. 0)(767 := 7)\<rparr>,
       0 := (uspace demo_mem 0)\<lparr>u_pt := (\<lambda>_. 0)(786431 := 0x1000007, 786301 := 0x1001007), u_pdt := (\<lambda>_. 0)(767 := 7)\<rparr>)\<rparr>"

lemma demo_fork_copy1: "copy_page_to_other_process (UserProc 0) (UserProc 1) 786431 786301 demo_fork = Inr demo_fork1"
  by (simp add: fork_eval demo_fork_def demo_mem_def demo_fork1_def)

lemma demo_fork_copy2:
  "\<exists>m3. copy_page_to_other_process (UserProc 0) (UserProc 1) 786301 786301 demo_fork1 = Inr m3 \<and>
     (\<exists>m'. update_pte (UserProc 0) 786301 0 (fork_copy_pdt 0 1 m3) = Inr m')"
  by (simp add: fork_eval demo_fork1_def demo_mem_def pte_used_def)

lemma demo_fork_ok: "\<exists>m'. fork_pages 0 1 demo_fork = Inr m'"
proof -
  let ?copy = "\<lambda>page. copy_page_to_other_process (UserProc 0) (UserProc 1) page 786301"
  define m1 where "m1 = demo_fork1"
  obtain m3 m' where c: "?copy 786431 demo_fork = Inr m1" "u_pt (uspace m1 0) = (\<lambda>_. 0)(786431 := 0x1000007, 786301 := 0x1001007)"
    "?copy 786301 m1 = Inr m3" "update_pte (UserProc 0) 786301 0 (fork_copy_pdt 0 1 m3) = Inr m'"
    using demo_fork_copy1 demo_fork_copy2 unfolding m1_def by (auto simp: demo_fork1_def)
  have mp: "fork_mapping_page = 786301" by (simp add: fork_mapping_page_def ADDR_PAGE_def)
  have "for_n (fork_share_pde 0 1) 0 767 demo_fork = Inr demo_fork"
    by (rule for_n_noop) (simp add: fork_share_pde_def demo_fork_def demo_mem_def)
  moreover have "for_n (\<lambda>i. ?copy (ADDR_PAGE (KERNEL_VIRTUAL_BASE - PAGE_SIZE * (i + 1)))) 1 128 m1 = Inr m1"
    using c(2) by (intro for_n_noop) (auto simp: copy_page_to_other_process_def ADDR_PAGE_def)
  then have "for_n (\<lambda>i. ?copy (ADDR_PAGE (KERNEL_VIRTUAL_BASE - PAGE_SIZE * (i + 1)))) 0 (Suc 128) demo_fork = Inr m1"
    unfolding for_n.simps(2) using c(1) by (simp add: ADDR_PAGE_def)
  moreover have "?copy 786303 m1 = Inr m1" "?copy 786302 m1 = Inr m1"
    using c(2) by (simp_all add: copy_page_to_other_process_def)
  then have "for_n (\<lambda>i. ?copy (ADDR_PAGE (KERNEL_VIRTUAL_BASE - PAGE_SIZE * (128 + i + 1)))) 0 3 m1 = Inr m3"
    using c(3) by (simp add: ADDR_PAGE_def numeral_3_eq_3)
  moreover have "u_pt (uspace demo_fork 0) 786301 = 0" by (simp add: demo_fork_def)
  ultimately show ?thesis using c(4) by (simp add: fork_pages_def mp Let_def)
qed

text \<open>
  A forked process cannot fork: the loops over the stacks copy one page too many, so the last of
  them copies the page through which the copies are made into the child, and the check of that page
  in the child's own \<open>fork\<close> stops the system.
\<close>
theorem nested_fork_stops:
  assumes "fork_pages p q m = Inr m'" and "p \<noteq> q" and "stack_ok (u_pt (uspace m p))" and "bit (u_pt (uspace m p) 786431) 0"
  shows "fork_pages q r m' = Inl (Irrecoverable ''mapping mage is not empty'')"
proof -
  have "u_pt (uspace m' q) fork_mapping_page \<noteq> 0" using fork_child_mapping_page [OF assms] by auto
  then show ?thesis by (simp add: fork_pages_def Let_def)
qed

theorem nested_fork_stops_witness:
  "\<exists>m'. fork_pages 0 1 demo_fork = Inr m' \<and> fork_pages 1 2 m' = Inl (Irrecoverable ''mapping mage is not empty'')"
proof -
  have "stack_ok (u_pt (uspace demo_fork 0))" "bit (u_pt (uspace demo_fork 0) 786431) 0"
    by (auto simp: stack_ok_def demo_fork_def)
  then show ?thesis using demo_fork_ok nested_fork_stops [of 0 1 demo_fork] by fastforce
qed

end
