(* ===== verification/VirtualAccess.thy ===== *)
theory VirtualAccess
  imports Paging
begin

text \<open>
  Loads and stores through the page tables: an access to a page that is not present, or a
  write to a page that is not writable (the kernel runs with \<^verbatim>\<open>CR0.WP\<close> set,
  \<^verbatim>\<open>boot/loader.s\<close>), raises a page fault, which \<^verbatim>\<open>Interrupts::page_fault_handler\<close>
  (\<^verbatim>\<open>src/kernel/core/interrupts.cpp\<close>) resolves or answers by killing the process. On top of
  them, \<open>zero_out_possibly_lazily_allocated_memory\<close> of \<^verbatim>\<open>memory.cpp\<close>.
\<close>

section \<open>Model\<close>

definition va_entry :: "proc \<Rightarrow> nat \<Rightarrow> kmem \<Rightarrow> u32" where
  "va_entry p a m = proc_pt m (if a \<ge> KERNEL_VIRTUAL_BASE then KernelProc else p) (ADDR_PAGE a)"

definition accessible :: "bool \<Rightarrow> u32 \<Rightarrow> bool" where
  "accessible w e \<longleftrightarrow> has_flag e PAGE_PRESENT \<and> (w \<longrightarrow> has_flag e PAGE_WRITE)"

text \<open>The frame that an access of process \<open>p\<close> to address \<open>a\<close> reaches; \<open>w\<close> tells a write.\<close>

definition access :: "proc \<Rightarrow> bool \<Rightarrow> nat \<Rightarrow> kmem \<Rightarrow> (nat \<times> kmem) res" where
  "access p w a m =
     (if accessible w (va_entry p a m) then Inr (pte_frame (va_entry p a m), m)
      else bind_res (page_fault_handler p a w m) (\<lambda>(handled, m1).
        if handled then Inr (pte_frame (va_entry p a m1), m1)
        else if p = KernelProc then Inl (Irrecoverable ''Segfault occurred in kernel'')
        else Inl Killed))"

definition load_byte :: "proc \<Rightarrow> nat \<Rightarrow> kmem \<Rightarrow> (u8 \<times> kmem) res" where
  "load_byte p a m = bind_res (access p False a m) (\<lambda>(f, m1). Inr (frame_data m1 f (a mod 4096), m1))"

definition store_byte :: "proc \<Rightarrow> nat \<Rightarrow> u8 \<Rightarrow> kmem \<Rightarrow> kmem res" where
  "store_byte p a b m = bind_res (access p True a m) (\<lambda>(f, m1).
     Inr (m1\<lparr>frame_data := (frame_data m1)(f := (frame_data m1 f)(a mod 4096 := b))\<rparr>))"

definition mem_set :: "proc \<Rightarrow> nat \<Rightarrow> u8 \<Rightarrow> nat \<Rightarrow> kmem \<Rightarrow> kmem res" where
  "mem_set p a b n = for_n (\<lambda>i. store_byte p (add32 a i) b) 0 n"

definition mem_copy :: "proc \<Rightarrow> nat \<Rightarrow> nat \<Rightarrow> nat \<Rightarrow> kmem \<Rightarrow> kmem res" where
  "mem_copy p dst src n =
     for_n (\<lambda>i m. bind_res (load_byte p (add32 src i) m) (\<lambda>(b, m1). store_byte p (add32 dst i) b m1)) 0 n"

text \<open>One page of the loop of \<open>zero_out_possibly_lazily_allocated_memory\<close>.\<close>

definition zero_out_page :: "proc \<Rightarrow> nat \<Rightarrow> nat \<Rightarrow> nat \<times> kmem \<Rightarrow> (nat \<times> kmem) res" where
  "zero_out_page p first_page_id i = (\<lambda>(rem, m).
     let n = min rem PAGE_SIZE in
     bind_res (pte_entry (proc_pt m p) (first_page_id + 1 + i)) (\<lambda>pte.
     bind_res (if has_flag pte PAGE_PRESENT then mem_set p (page_addr (first_page_id + 1 + i)) 0 n m else Inr m)
       (\<lambda>m1. Inr (rem - n, m1))))"

definition zero_out_possibly_lazily_allocated_memory :: "nat \<Rightarrow> nat \<Rightarrow> proc \<Rightarrow> kmem \<Rightarrow> kmem res" where
  "zero_out_possibly_lazily_allocated_memory total_size uaddr p m =
     (let first_page_id = ADDR_PAGE uaddr;
          bytes_on_first_page = min (PAGE_SIZE - uaddr mod PAGE_SIZE) total_size;
          rem = total_size - bytes_on_first_page in
      bind_res (pte_entry (proc_pt m p) first_page_id) (\<lambda>pte.
      bind_res (if has_flag pte PAGE_PRESENT then mem_set p uaddr 0 bytes_on_first_page m else Inr m) (\<lambda>m1.
      bind_res (for_n (zero_out_page p first_page_id) 0 (ADDR_PAGE (sub32 (add32 rem PAGE_SIZE) 1)) (rem, m1))
        (\<lambda>(_, m2). Inr m2))))"

section \<open>Zeroed memory\<close>

text \<open>\<open>zeroed p S m\<close>: every byte that a process reaches at an address of \<open>S\<close> in a present page is zero.\<close>

definition zeroed :: "proc \<Rightarrow> nat set \<Rightarrow> kmem \<Rightarrow> kmem" where
  "zeroed p S m = m\<lparr>frame_data := (\<lambda>f off.
     if \<exists>x\<in>S. has_flag (va_entry p x m) PAGE_PRESENT \<and> pte_frame (va_entry p x m) = f \<and> x mod 4096 = off
     then 0 else frame_data m f off)\<rparr>"

lemma proc_pt_frame_data [simp]: "proc_pt (m\<lparr>frame_data := d\<rparr>) p = proc_pt m p"
  by (cases p) simp_all

lemma va_entry_zeroed [simp]: "va_entry p x (zeroed q S m) = va_entry p x m" "proc_pt (zeroed q S m) p = proc_pt m p"
  by (simp_all add: va_entry_def zeroed_def)

lemma zeroed_Un: "zeroed p T (zeroed p S m) = zeroed p (S \<union> T) m"
proof -
  have "frame_data (zeroed p T (zeroed p S m)) f x = frame_data (zeroed p (S \<union> T) m) f x" for f x
    by (auto simp: zeroed_def [of _ T] zeroed_def [of _ "S \<union> T"]) (auto simp: zeroed_def)
  then show ?thesis by (auto simp: zeroed_def fun_eq_iff)
qed

lemma zeroed_absent:
  assumes "\<And>x. x \<in> S \<Longrightarrow> \<not> has_flag (va_entry p x m) PAGE_PRESENT"
  shows "zeroed p S m = m"
  using assms by (auto simp: zeroed_def)

lemma zeroed_empty [simp]: "zeroed p {} m = m"
  by (rule zeroed_absent) simp

lemma store_zero:
  assumes "accessible True (va_entry p a m)"
  shows "store_byte p a 0 m = Inr (zeroed p {a} m)"
  using assms by (auto simp: store_byte_def access_def accessible_def zeroed_def fun_eq_iff intro!: kmem.fold_congs)

lemma mem_set_zero:
  assumes "\<And>x. a \<le> x \<Longrightarrow> x < a + n \<Longrightarrow> accessible True (va_entry p x m)" and "a + n \<le> W32"
  shows "mem_set p a 0 n m = Inr (zeroed p {a..<a + n} m)"
proof -
  have "for_n (\<lambda>i. store_byte p (add32 a i) 0) i k (zeroed p {a..<a + i} m) = Inr (zeroed p {a..<a + i + k} m)"
    if "i + k \<le> n" for i k
    using that
  proof (induction k arbitrary: i)
    case (Suc k)
    have "add32 a i = a + i" using Suc.prems assms(2) by (simp add: add32_def)
    moreover have "accessible True (va_entry p (a + i) m)" using Suc.prems assms(1) by simp
    moreover have "{a..<a + i} \<union> {a + i} = {a..<a + Suc i}" by auto
    ultimately show ?case using Suc.IH [of "Suc i"] Suc.prems by (simp add: store_zero zeroed_Un del: Un_insert_right)
  qed simp
  from this [of 0 n] show ?thesis by (simp add: mem_set_def)
qed

lemma va_entry_page:
  assumes "p = KernelProc \<or> x < KERNEL_VIRTUAL_BASE" and "x div 4096 = q"
  shows "va_entry p x m = proc_pt m p q"
  using assms by (auto simp: va_entry_def ADDR_PAGE_def)

text \<open>The part of a page from address \<open>s\<close> on: zeroed if the page is present, else left alone.\<close>

lemma zero_page_part:
  assumes range: "\<And>x. s \<le> x \<Longrightarrow> x < s + n \<Longrightarrow> x div 4096 = q \<and> (p = KernelProc \<or> x < KERNEL_VIRTUAL_BASE)"
    and wr: "0 < n \<Longrightarrow> has_flag (proc_pt m p q) PAGE_PRESENT \<Longrightarrow> has_flag (proc_pt m p q) PAGE_WRITE" and "s + n \<le> W32"
  shows "(if has_flag (proc_pt m p q) PAGE_PRESENT then mem_set p s 0 n m else Inr m) = Inr (zeroed p {s..<s + n} m)"
proof -
  have e: "va_entry p x m = proc_pt m p q" if "s \<le> x" "x < s + n" for x
    using va_entry_page range that by blast
  show ?thesis
  proof (cases "has_flag (proc_pt m p q) PAGE_PRESENT")
    case True
    then show ?thesis using wr assms(3) e by (intro if_P [THEN trans] mem_set_zero) (auto simp: accessible_def)
  next
    case False
    then have "zeroed p {s..<s + n} m = m" using e by (intro zeroed_absent) auto
    with False show ?thesis by simp
  qed
qed

text \<open>
  The function ends without a fault, zeroes the bytes of the range that lie in present pages,
  and changes nothing else.
\<close>

lemma zero_out_zeroed:
  assumes fits: "a + n + 4096 \<le> W32" and low: "p = KernelProc \<or> a + n \<le> KERNEL_VIRTUAL_BASE"
    and wr: "\<And>x. a \<le> x \<Longrightarrow> x < a + n \<Longrightarrow> has_flag (proc_pt m p (x div 4096)) PAGE_PRESENT \<Longrightarrow>
               has_flag (proc_pt m p (x div 4096)) PAGE_WRITE"
  shows "zero_out_possibly_lazily_allocated_memory n a p m = Inr (zeroed p {a..<a + n} m)"
proof -
  define q where "q = a div 4096"
  define n1 where "n1 = min (4096 - a mod 4096) n"
  define c where "c j = min n (n1 + j * 4096)" for j
  define k where "k = (n - n1 + 4095) div 4096"
  have a_eq: "a = q * 4096 + a mod 4096" "a mod 4096 < 4096" by (simp_all add: q_def)
  have s1: "(if has_flag (proc_pt m p q) PAGE_PRESENT then mem_set p a 0 n1 m else Inr m) = Inr (zeroed p {a..<a + n1} m)"
  proof (rule zero_page_part)
    show "has_flag (proc_pt m p q) PAGE_WRITE" if "0 < n1" "has_flag (proc_pt m p q) PAGE_PRESENT"
      using wr [of a] that by (auto simp: q_def n1_def)
    show "x div 4096 = q \<and> (p = KernelProc \<or> x < KERNEL_VIRTUAL_BASE)" if "a \<le> x" "x < a + n1" for x
      using that a_eq low by (intro conjI div_nat_eqI) (auto simp: n1_def)
  qed (use fits in \<open>simp add: n1_def\<close>)
  have step: "zero_out_page p q j (n - c j, zeroed p {a..<a + c j} m) = Inr (n - c (Suc j), zeroed p {a..<a + c (Suc j)} m)"
    if "j < k" for j
  proof -
    have rem: "j * 4096 < n - n1" using that by (simp add: k_def less_eq_div_iff_mult_less_eq Suc_le_eq [symmetric])
    then have n1: "a + n1 = (q + 1) * 4096" and cj: "c j = n1 + j * 4096" using a_eq by (auto simp: n1_def c_def)
    then have start: "a + c j = (q + 1 + j) * 4096" by simp
    let ?n = "min (n - c j) 4096"
    have cs: "c (Suc j) = c j + ?n" using rem cj by (simp add: c_def)
    have "(q + 1 + j) * 4096 < W32" using start fits by (simp add: c_def)
    then have lt: "q + 1 + j < NPAGES" and pa: "page_addr (q + 1 + j) = a + c j"
      using start by (simp_all add: page_addr_def)
    have "(if has_flag (proc_pt m p (q + 1 + j)) PAGE_PRESENT
           then mem_set p (a + c j) 0 ?n (zeroed p {a..<a + c j} m) else Inr (zeroed p {a..<a + c j} m))
        = Inr (zeroed p {a + c j..<a + c j + ?n} (zeroed p {a..<a + c j} m))"
    proof (rule zero_page_part [of _ _ "q + 1 + j" p "zeroed p {a..<a + c j} m", simplified va_entry_zeroed])
      show "x div 4096 = q + 1 + j \<and> (p = KernelProc \<or> x < KERNEL_VIRTUAL_BASE)" if "a + c j \<le> x" "x < a + c j + ?n" for x
        using that start low by (intro conjI div_nat_eqI) auto
      have "(a + c j) div 4096 = q + 1 + j" "c j < n" using start rem cj by auto
      then show "has_flag (proc_pt m p (q + 1 + j)) PAGE_WRITE" if "has_flag (proc_pt m p (q + 1 + j)) PAGE_PRESENT"
        using wr [of "a + c j"] that by simp
    qed (use fits cs in \<open>auto simp: c_def\<close>)
    moreover have "{a..<a + c j} \<union> {a + c j..<a + c j + ?n} = {a..<a + c (Suc j)}" using cs by auto
    ultimately show ?thesis
      using lt pa cs by (simp add: zero_out_page_def pte_entry_def zeroed_Un Let_def split: if_splits)
  qed
  have "\<exists>s. for_n (zero_out_page p q) 0 k (n - c 0, zeroed p {a..<a + c 0} m) = Inr s \<and>
      s = (n - c (0 + k), zeroed p {a..<a + c (0 + k)} m)"
    by (rule for_n_total) (use step in auto)
  moreover have "c 0 = n1" "c k = n" by (auto simp: c_def n1_def k_def)
  moreover have "ADDR_PAGE (sub32 (add32 (n - n1) PAGE_SIZE) 1) = k"
    using fits round_up_eq [of "n - n1"] by (simp add: ADDR_PAGE_def k_def)
  moreover have "q < NPAGES" using fits by (simp add: q_def)
  ultimately show ?thesis
    using s1 by (simp add: zero_out_possibly_lazily_allocated_memory_def pte_entry_def ADDR_PAGE_def Let_def
        n1_def [symmetric] q_def [symmetric])
qed

section \<open>Properties\<close>

text \<open>
  C33. Clearing memory for \<open>calloc\<close>: on a range whose present pages are writable, the function ends
  without a fault; every byte of the range that lies in a present page is zero afterwards, and every
  other byte of memory, as well as all tables, are as before: pages that are only promised stay so.
\<close>
theorem zero_out_clears:
  assumes "a + n + 4096 \<le> W32" and "p = KernelProc \<or> a + n \<le> KERNEL_VIRTUAL_BASE"
    and "\<And>x. a \<le> x \<Longrightarrow> x < a + n \<Longrightarrow> has_flag (proc_pt m p (x div 4096)) PAGE_PRESENT \<Longrightarrow>
           has_flag (proc_pt m p (x div 4096)) PAGE_WRITE"
  shows "\<exists>d. zero_out_possibly_lazily_allocated_memory n a p m = Inr (m\<lparr>frame_data := d\<rparr>) \<and>
    (\<forall>f off. d f off = (if \<exists>x. a \<le> x \<and> x < a + n \<and> has_flag (va_entry p x m) PAGE_PRESENT \<and>
                            pte_frame (va_entry p x m) = f \<and> x mod 4096 = off then 0 else frame_data m f off))"
proof -
  let ?d = "\<lambda>f off. if \<exists>x. a \<le> x \<and> x < a + n \<and> has_flag (va_entry p x m) PAGE_PRESENT \<and>
      pte_frame (va_entry p x m) = f \<and> x mod 4096 = off then 0 else frame_data m f off"
  have "zeroed p {a..<a + n} m = m\<lparr>frame_data := ?d\<rparr>" by (simp add: zeroed_def Bex_def)
  then show ?thesis using zero_out_zeroed [OF assms] by (intro exI [of _ ?d]) simp
qed

theorem zero_out_clears_witness:
  "\<exists>d. zero_out_possibly_lazily_allocated_memory 9000 (page_addr 790529 + 100) KernelProc
      (demo_mapped\<lparr>frame_data := (\<lambda>_ _. 7)\<rparr>) = Inr (demo_mapped\<lparr>frame_data := d\<rparr>) \<and>
     d BOOT_FRAMES 100 = 0 \<and> d BOOT_FRAMES 99 = 7"
proof -
  let ?m = "demo_mapped\<lparr>frame_data := (\<lambda>_ _. 7)\<rparr>" and ?a = "page_addr 790529 + 100"
  have pt: "k_pt ?m q = (if q = 790529 then FRAME_ID_ADDR BOOT_FRAMES OR DEFAULT_K_POLICY else 0)" for q
    by (simp add: demo_mapped_def)
  have pol: "has_flag (FRAME_ID_ADDR BOOT_FRAMES OR DEFAULT_K_POLICY) PAGE_PRESENT"
    "has_flag (FRAME_ID_ADDR BOOT_FRAMES OR DEFAULT_K_POLICY) PAGE_WRITE"
    by (simp_all add: has_flag_bit bit_or_iff DEFAULT_K_POLICY_def bit_numeral_rec)
  have z: "\<not> has_flag 0 PAGE_PRESENT" by (simp add: has_flag_def)
  have a: "?a = 3238006884" by (simp add: page_addr_def)
  have "\<exists>d. zero_out_possibly_lazily_allocated_memory 9000 ?a KernelProc ?m = Inr (?m\<lparr>frame_data := d\<rparr>) \<and>
    (\<forall>f off. d f off = (if \<exists>x. ?a \<le> x \<and> x < ?a + 9000 \<and> has_flag (va_entry KernelProc x ?m) PAGE_PRESENT \<and>
        pte_frame (va_entry KernelProc x ?m) = f \<and> x mod 4096 = off then 0 else frame_data ?m f off))"
  proof (rule zero_out_clears)
    show "has_flag (proc_pt ?m KernelProc (x div 4096)) PAGE_WRITE"
      if "has_flag (proc_pt ?m KernelProc (x div 4096)) PAGE_PRESENT" for x
      using that pt [of "x div 4096"] pol(2) z by (simp split: if_splits)
  qed (simp_all add: a)
  then obtain d where d: "zero_out_possibly_lazily_allocated_memory 9000 ?a KernelProc ?m = Inr (?m\<lparr>frame_data := d\<rparr>)"
    "\<forall>f off. d f off = (if \<exists>x. ?a \<le> x \<and> x < ?a + 9000 \<and> has_flag (va_entry KernelProc x ?m) PAGE_PRESENT \<and>
        pte_frame (va_entry KernelProc x ?m) = f \<and> x mod 4096 = off then 0 else frame_data ?m f off)"
    by blast
  have e: "va_entry KernelProc x ?m = (if x div 4096 = 790529 then FRAME_ID_ADDR BOOT_FRAMES OR DEFAULT_K_POLICY else 0)" for x
    using pt by (simp add: va_entry_def ADDR_PAGE_def)
  have "d BOOT_FRAMES 100 = 0"
    using d(2) e pol(1) demo_mapped_ok(3) a by (auto intro: exI [of _ 3238006884])
  moreover have "\<not> (3238006884 \<le> x \<and> x mod 4096 = 99 \<and> x div 4096 = 790529)" for x :: nat
  proof (rule notI, elim conjE)
    assume "x mod 4096 = 99" "x div 4096 = 790529"
    with div_mult_mod_eq [of x 4096] have "x = 3238006883" by simp
    then show "3238006884 \<le> x \<Longrightarrow> False" by simp
  qed
  then have "d BOOT_FRAMES 99 = 7" using d(2) e z a by (auto split: if_splits)
  ultimately show ?thesis using d(1) by auto
qed

end
