(* ===== verification/MemTree.thy ===== *)
theory MemTree
  imports SearchTree VirtualAccess
begin

text \<open>
  The allocator: \<^verbatim>\<open>src/kernel/core/Memtree.cpp\<close> and \<^verbatim>\<open>Memtree.h\<close>, the tree of used and free
  blocks of a process, on top of the search tree \<^verbatim>\<open>BST\<close> and of \<open>sbrk\<close> and \<open>free_page\<close>; and the
  allocation functions of \<^verbatim>\<open>memory.cpp\<close> and \<^verbatim>\<open>process.cpp\<close> built on it. Where the code keeps
  a node together with the link to it, the model keeps the path of that link. This theory is about the
  blocks: the nodes that hold them come from a slab allocator, which may take pages of its own, and \<open>HeapNodes\<close> adds them to allocation.
\<close>

section \<open>Model\<close>

record allocation =
  a_start :: nat
  a_end :: nat
  a_info :: page_info
  a_used :: bool

type_synonym memtree = "allocation bst"

definition is_similar_and_contiguous :: "allocation \<Rightarrow> allocation \<Rightarrow> bool" where
  "is_similar_and_contiguous a other \<longleftrightarrow>
     (a_start a = a_end other \<or> a_end a = a_start other) \<and> a_info a = a_info other \<and> a_used a = a_used other"

definition alloc_cmp :: "allocation \<Rightarrow> allocation \<Rightarrow> int" where
  "alloc_cmp a b = (if a_start a = a_start b then 0 else if a_start a > a_start b then 1 else -1)"

definition node_size :: "allocation \<Rightarrow> nat" where
  "node_size d = sub32 (a_end d) (a_start d)"

definition shrink_block :: "nat \<Rightarrow> allocation \<Rightarrow> allocation" where
  "shrink_block sz d = d\<lparr>a_end := sub32 (a_end d) sz\<rparr>"

fun find_free_block :: "memtree \<Rightarrow> nat \<Rightarrow> hint_info \<Rightarrow> dir list option" where
  "find_free_block Null sz hi = None"
| "find_free_block (BNode d l r) sz hi =
     (if \<not> a_used d \<and> node_size d \<ge> sz \<and>
         (hint hi = a_start d \<or> (a_start d > hint hi \<and> \<not> is_mandatory hi))
      then Some []
      else case (if a_start d > hint hi then find_free_block l sz hi else None) of
             Some p \<Rightarrow> Some (L # p)
           | None \<Rightarrow> map_option (Cons R) (find_free_block r sz hi))"

text \<open>
  The merges look at the neighbour inside the node's own subtree. The successor is the
  leftmost node of the right subtree, the predecessor the rightmost of the left one;
  the former has no left child, the latter no right child, so \<open>remove_node\<close> replaces each by
  its other child.
\<close>

fun extract_rightmost :: "'a \<Rightarrow> 'a bst \<Rightarrow> 'a bst \<Rightarrow> 'a \<times> 'a bst" where
  "extract_rightmost d l Null = (d, l)"
| "extract_rightmost d l (BNode d' l' r') =
     (let (m, t) = extract_rightmost d' l' r' in (m, BNode d l t))"

fun merge_node_with_free_successor :: "memtree \<Rightarrow> bool \<times> memtree" where
  "merge_node_with_free_successor (BNode d l (BNode d' l' r')) =
     (let (s, t) = extract_leftmost d' l' r' in
      if \<not> is_similar_and_contiguous s d then (False, BNode d l (BNode d' l' r'))
      else (True, BNode (d\<lparr>a_end := add32 (a_end d) (node_size s)\<rparr>) l t))"
| "merge_node_with_free_successor t = (False, t)"

fun merge_node_with_free_predecessor :: "memtree \<Rightarrow> bool \<times> memtree" where
  "merge_node_with_free_predecessor (BNode d (BNode d' l' r') r) =
     (let (s, t) = extract_rightmost d' l' r' in
      if \<not> is_similar_and_contiguous s d then (False, BNode d (BNode d' l' r') r)
      else (True, BNode (d\<lparr>a_start := a_start s\<rparr>) t r))"
| "merge_node_with_free_predecessor t = (False, t)"

lemma size_extract_leftmost: "extract_leftmost d l r = (m, t) \<Longrightarrow> size t < size (BNode d l r)"
  by (induction d l r arbitrary: m t rule: extract_leftmost.induct) (fastforce split: prod.splits)+

lemma size_extract_rightmost: "extract_rightmost d l r = (m, t) \<Longrightarrow> size t < size (BNode d l r)"
  by (induction d l r arbitrary: m t rule: extract_rightmost.induct) (fastforce split: prod.splits)+

lemma size_merge_successor: "merge_node_with_free_successor t = (True, t') \<Longrightarrow> size t' < size t"
  by (cases t rule: merge_node_with_free_successor.cases)
    (auto dest: size_extract_leftmost split: prod.splits if_splits)

lemma size_merge_predecessor: "merge_node_with_free_predecessor t = (True, t') \<Longrightarrow> size t' < size t"
  by (cases t rule: merge_node_with_free_predecessor.cases)
    (auto dest: size_extract_rightmost split: prod.splits if_splits)

function merge_predecessors :: "memtree \<Rightarrow> memtree" where
  "merge_predecessors t =
     (case merge_node_with_free_predecessor t of (True, t') \<Rightarrow> merge_predecessors t' | (False, t') \<Rightarrow> t')"
  by pat_completeness auto
termination by (relation "measure size") (auto simp: size_merge_predecessor)

function merge_successors :: "memtree \<Rightarrow> memtree" where
  "merge_successors t =
     (case merge_node_with_free_successor t of (True, t') \<Rightarrow> merge_successors t' | (False, t') \<Rightarrow> t')"
  by pat_completeness auto
termination by (relation "measure size") (auto simp: size_merge_successor)

declare merge_predecessors.simps [simp del] merge_successors.simps [simp del]

definition merge_free_node :: "memtree \<Rightarrow> memtree" where
  "merge_free_node t = merge_successors (merge_predecessors t)"

fun map_node :: "(allocation \<Rightarrow> allocation) \<Rightarrow> memtree \<Rightarrow> memtree" where
  "map_node f Null = Null"
| "map_node f (BNode d l r) = BNode (f d) l r"

text \<open>\<open>remove_node(node, node_ptr)\<close> at the link with path \<open>p\<close>.\<close>

definition remove_node :: "dir list \<Rightarrow> memtree \<Rightarrow> memtree" where
  "remove_node p t = update_at p remove_match t"

text \<open>The path of the leaf that \<open>add_node\<close> makes.\<close>

fun insert_path :: "'a compare_func \<Rightarrow> 'a \<Rightarrow> 'a bst \<Rightarrow> dir list" where
  "insert_path cmp x Null = []"
| "insert_path cmp x (BNode d l r) =
     (if cmp d x \<ge> 0 then L # insert_path cmp x l else R # insert_path cmp x r)"

definition node_physical_alloc ::
  "nat \<Rightarrow> page_info \<Rightarrow> hint_info \<Rightarrow> proc \<Rightarrow> memtree \<Rightarrow> kmem \<Rightarrow> (dir list option \<times> memtree \<times> kmem) res" where
  "node_physical_alloc sz pinfo hi p t m =
     (let num_pages_base = ADDR_PAGE (sub32 (add32 sz PAGE_SIZE) 1);
          num_pages = max 2 num_pages_base in
      bind_res (sbrk num_pages pinfo hi p m) (\<lambda>(alloc, m1).
        case alloc of
          None \<Rightarrow> Inr (None, t, m1)
        | Some start_addr \<Rightarrow>
            if start_addr = 0 then Inr (None, t, m1)
            else let node = \<lparr>a_start = start_addr, a_end = add32 start_addr (mul32 num_pages PAGE_SIZE),
                             a_info = pinfo, a_used = False\<rparr>
                 in Inr (Some (insert_path alloc_cmp node t), add_node alloc_cmp node t, m1)))"

definition dummy_alloc :: "nat \<Rightarrow> allocation" where
  "dummy_alloc address = \<lparr>a_start = address, a_end = 0, a_info = \<lparr>pi_flags = 0, pi_policy = 0\<rparr>, a_used = False\<rparr>"

definition find_allocation_node :: "nat \<Rightarrow> memtree \<Rightarrow> dir list option" where
  "find_allocation_node address t = find_node alloc_cmp (dummy_alloc address) t"

definition align_up :: "nat \<Rightarrow> nat" where
  "align_up a = (sub32 (add32 a PAGE_SIZE) 1) div 4096 * 4096"

definition align_down :: "nat \<Rightarrow> nat" where
  "align_down a = a div 4096 * 4096"

text \<open>
  \<open>free_node\<close>: \<open>unlink_pages\<close> takes the whole pages out of the merged block and keeps what is left
  of it on either side. The pages are freed with
  \<^verbatim>\<open>free_page(ADDR_PAGE(aligned_start + i), process)\<close>, as the code has it.
\<close>

definition unlink_pages :: "dir list \<Rightarrow> memtree \<Rightarrow> memtree" where
  "unlink_pages path t1 =
     (let d = bdata (subtree_at path t1);
          ns = node_size d;
          aligned_start = align_up (a_start d);
          aligned_end = align_down (a_end d);
          num_pages = ADDR_PAGE (sub32 aligned_end aligned_start) in
      if mul32 num_pages PAGE_SIZE = ns then remove_node path t1
      else
        let t1a = (if sub32 (a_end d) aligned_end \<noteq> 0
                   then add_node alloc_cmp (d\<lparr>a_start := aligned_end\<rparr>) t1 else t1);
            part1_size = sub32 aligned_start (a_start d) in
        if part1_size \<noteq> 0
        then update_at path (map_node (shrink_block (sub32 ns part1_size))) t1a
        else remove_node path t1a)"

definition free_node :: "proc \<Rightarrow> dir list \<Rightarrow> memtree \<Rightarrow> kmem \<Rightarrow> (memtree \<times> kmem) res" where
  "free_node p path t m =
     (let t1 = update_at path (\<lambda>n. merge_free_node (map_node (\<lambda>d. d\<lparr>a_used := False\<rparr>) n)) t;
          d = bdata (subtree_at path t1);
          aligned_start = align_up (a_start d);
          aligned_end = align_down (a_end d);
          num_pages = (if node_size d > PAGE_SIZE then ADDR_PAGE (sub32 aligned_end aligned_start) else 0) in
      if num_pages \<ge> 2
      then bind_res (for_n (\<lambda>i. free_page (ADDR_PAGE (add32 aligned_start i)) p) 0 num_pages m)
             (\<lambda>m1. Inr (unlink_pages path t1, m1))
      else Inr (t1, m))"

definition do_overlap :: "allocation \<Rightarrow> allocation \<Rightarrow> bool" where
  "do_overlap a b \<longleftrightarrow>
     ((a_start a \<ge> a_start b \<and> a_start a < a_end b) \<or> (a_end a > a_start b \<and> a_end a \<le> a_end b)) \<and>
     \<not> (a_start a = a_start b \<and> a_end a = a_end b)"

fun ensure_validity_aux_aux :: "allocation \<Rightarrow> memtree \<Rightarrow> unit res" where
  "ensure_validity_aux_aux node Null = Inr ()"
| "ensure_validity_aux_aux node (BNode d l r) =
     (if do_overlap node d then Inl (Irrecoverable ''memtree overlap detected'')
      else bind_res (ensure_validity_aux_aux node l) (\<lambda>_. ensure_validity_aux_aux node r))"

fun overlap_validity :: "memtree \<Rightarrow> memtree \<Rightarrow> unit res" where
  "overlap_validity Null root = Inr ()"
| "overlap_validity (BNode d l r) root =
     bind_res (ensure_validity_aux_aux d root) (\<lambda>_.
       bind_res (overlap_validity l root) (\<lambda>_. overlap_validity r root))"

definition memtree_ensure_validity :: "memtree \<Rightarrow> unit res" where
  "memtree_ensure_validity root =
     bind_res (bst_ensure_validity alloc_cmp root) (\<lambda>_. overlap_validity root root)"

text \<open>The path of the leftmost node.\<close>

fun get_lowest_alloc :: "memtree \<Rightarrow> dir list" where
  "get_lowest_alloc (BNode d (BNode d' l' r') r) = L # get_lowest_alloc (BNode d' l' r')"
| "get_lowest_alloc t = []"

text \<open>The chosen block is cut to \<open>sz\<close> bytes and marked as used.\<close>

definition take_block :: "dir list \<Rightarrow> nat \<Rightarrow> page_info \<Rightarrow> memtree \<Rightarrow> memtree" where
  "take_block path sz pinfo t1 =
     (let shrink = sub32 (node_size (bdata (subtree_at path t1))) sz;
          t2 = (if shrink \<noteq> 0
                then let t1a = update_at path (map_node (shrink_block shrink)) t1;
                         e = a_end (bdata (subtree_at path t1a)) in
                     add_node alloc_cmp \<lparr>a_start = e, a_end = add32 e shrink, a_info = pinfo, a_used = False\<rparr> t1a
                else t1) in
      update_at path (map_node (\<lambda>d. d\<lparr>a_used := True\<rparr>)) t2)"

definition allocate ::
  "nat \<Rightarrow> page_info \<Rightarrow> proc \<Rightarrow> hint_info \<Rightarrow> memtree \<Rightarrow> kmem \<Rightarrow> (nat option \<times> memtree \<times> kmem) res" where
  "allocate sz pinfo p hi t m =
     (let policy = pi_policy pinfo in
      if (has_flag policy PAGE_PRESENT \<and> has_flag policy PAGE_LAZY_ZERO) \<or>
         \<not> has_flag policy (PAGE_PRESENT OR PAGE_LAZY_ZERO)
      then Inl (Irrecoverable ''invalid policy'')
      else bind_res
        (case find_free_block t sz hi of
           Some path \<Rightarrow> Inr (Some path, t, m)
         | None \<Rightarrow> node_physical_alloc sz pinfo hi p t m)
        (\<lambda>(node, t1, m1).
          case node of
            None \<Rightarrow> Inr (None, t1, m1)
          | Some path \<Rightarrow>
              let t3 = take_block path sz pinfo t1 in
              Inr (Some (a_start (bdata (subtree_at path t3))), t3, m1)))"

definition find_allocation :: "nat \<Rightarrow> memtree \<Rightarrow> allocation option" where
  "find_allocation address t =
     map_option (\<lambda>path. bdata (subtree_at path t)) (find_allocation_node address t)"

datatype FreeState = FREE_OK | DOUBLE_FREE | NOT_FOUND

datatype ReallocState = REALLOC_OK | NOMEM | FAILED

text \<open>\<open>free\<close> walks to the node as \<open>find_node\<close> does.\<close>

definition memtree_free :: "nat \<Rightarrow> proc \<Rightarrow> memtree \<Rightarrow> kmem \<Rightarrow> (FreeState \<times> memtree \<times> kmem) res" where
  "memtree_free address p t m =
     (if address = 0 then Inr (FREE_OK, t, m)
      else case find_node alloc_cmp (dummy_alloc address) t of
          None \<Rightarrow> Inr (NOT_FOUND, t, m)
        | Some path \<Rightarrow>
            if \<not> a_used (bdata (subtree_at path t)) then Inr (DOUBLE_FREE, t, m)
            else bind_res (free_node p path t m) (\<lambda>(t1, m1). Inr (FREE_OK, t1, m1)))"

definition register_external_allocation :: "allocation \<Rightarrow> memtree \<Rightarrow> memtree res" where
  "register_external_allocation a t =
     bind_res (ensure_validity_aux_aux a t) (\<lambda>_. Inr (add_node alloc_cmp a t))"

text \<open>
  \<open>realloc\<close>. The out parameter \<open>new_address\<close> is \<open>None\<close> where the code does not write it. The
  copy to the new block is made in the address space of the process. The
  constants \<^verbatim>\<open>DEFAULT_K_PAGE_INFO\<close> and \<^verbatim>\<open>DEFAULT_U_PAGE_INFO\<close> take their flags from the C library.
\<close>

definition DEFAULT_K_PAGE_INFO :: "vm_abi \<Rightarrow> page_info" where
  "DEFAULT_K_PAGE_INFO abi =
     \<lparr>pi_flags = MAP_ANONYMOUS abi OR MAP_PRIVATE abi, pi_policy = PAGE_WRITE OR PAGE_PRESENT\<rparr>"

definition DEFAULT_U_PAGE_INFO :: "vm_abi \<Rightarrow> page_info" where
  "DEFAULT_U_PAGE_INFO abi =
     \<lparr>pi_flags = MAP_ANONYMOUS abi OR MAP_PRIVATE abi, pi_policy = PAGE_WRITE OR PAGE_PRESENT OR PAGE_USER\<rparr>"

text \<open>The block is cut to \<open>sz\<close> bytes and the rest becomes a free block.\<close>

definition split_node :: "dir list \<Rightarrow> nat \<Rightarrow> memtree \<Rightarrow> memtree" where
  "split_node path sz t =
     (let d = bdata (subtree_at path t);
          shrink = sub32 (node_size d) sz;
          t1 = update_at path (map_node (shrink_block shrink)) t;
          e = a_end (bdata (subtree_at path t1)) in
      add_node alloc_cmp \<lparr>a_start = e, a_end = add32 e shrink, a_info = a_info d, a_used = False\<rparr> t1)"

definition process_free :: "nat \<Rightarrow> proc \<Rightarrow> memtree \<Rightarrow> kmem \<Rightarrow> (memtree \<times> kmem) res" where
  "process_free address p t m =
     bind_res (memtree_free address p t m) (\<lambda>(st, t1, m1).
       if st = FREE_OK then Inr (t1, m1)
       else if p = KernelProc then Inl (Irrecoverable ''delete[] failed'') else Inl Killed)"

definition memtree_realloc ::
  "vm_abi \<Rightarrow> nat \<Rightarrow> nat \<Rightarrow> proc \<Rightarrow> memtree \<Rightarrow> kmem \<Rightarrow> (ReallocState \<times> nat option \<times> memtree \<times> kmem) res" where
  "memtree_realloc abi address sz p t m =
     (if address = 0
      then bind_res (allocate sz (if p = KernelProc then DEFAULT_K_PAGE_INFO abi else DEFAULT_U_PAGE_INFO abi)
                       p DEFAULT_HINT_INFO t m)
             (\<lambda>(alloc, t1, m1). Inr (case alloc of
                None \<Rightarrow> (NOMEM, None, t1, m1)
              | Some a \<Rightarrow> if a = 0 then (NOMEM, None, t1, m1) else (REALLOC_OK, Some a, t1, m1)))
      else if sz = 0
      then bind_res (process_free address p t m) (\<lambda>(t1, m1). Inr (REALLOC_OK, None, t1, m1))
      else case find_allocation_node address t of
          None \<Rightarrow> Inr (FAILED, None, t, m)
        | Some path \<Rightarrow>
            let base_node_size = node_size (bdata (subtree_at path t)) in
            if sz \<le> base_node_size then Inr (REALLOC_OK, Some address, split_node path sz t, m)
            else
              let t1 = update_at path (\<lambda>n. snd (merge_node_with_free_successor n)) t in
              if sz \<le> node_size (bdata (subtree_at path t1))
              then Inr (REALLOC_OK, Some address, split_node path sz t1, m)
              else bind_res (allocate sz (a_info (bdata (subtree_at path t1))) p DEFAULT_HINT_INFO t1 m)
                (\<lambda>(new_buffer, t2, m2).
                  case new_buffer of
                    None \<Rightarrow> Inr (NOMEM, None, t2, m2)
                  | Some a \<Rightarrow>
                      if a = 0 then Inr (NOMEM, None, t2, m2)
                      else bind_res (mem_copy p a address base_node_size m2) (\<lambda>m3.
                        bind_res (free_node p path t2 m3) (\<lambda>(t3, m4). Inr (REALLOC_OK, Some a, t3, m4)))))"

text \<open>
  \<open>free_all\<close>: \<open>take_region e t\<close> is the inner loop, which removes the lowest nodes as long as they
  start where the region ends.
\<close>

lemma remove_lowest:
  "remove_node (get_lowest_alloc (BNode d l r)) (BNode d l r) = snd (extract_leftmost d l r)"
  "bdata (subtree_at (get_lowest_alloc (BNode d l r)) (BNode d l r)) = fst (extract_leftmost d l r)"
  by (induction d l r rule: extract_leftmost.induct) (auto simp: remove_node_def split: prod.splits)

lemma size_remove_lowest: "t \<noteq> Null \<Longrightarrow> size (remove_node (get_lowest_alloc t) t) < size t"
  by (cases t) (auto simp: remove_lowest intro!: size_extract_leftmost [OF prod.collapse [symmetric], simplified])

function take_region :: "nat \<Rightarrow> memtree \<Rightarrow> nat \<times> memtree" where
  "take_region region_end t =
     (if t \<noteq> Null
      then let d = bdata (subtree_at (get_lowest_alloc t) t) in
        if a_start d = region_end then take_region (a_end d) (remove_node (get_lowest_alloc t) t)
        else (region_end, t)
      else (region_end, t))"
  by pat_completeness auto
termination by (relation "measure (\<lambda>(_, t). size t)") (auto simp: size_remove_lowest)

declare take_region.simps [simp del]

lemma size_take_region: "size (snd (take_region e t)) \<le> size t"
proof (induction e t rule: take_region.induct)
  case (1 e t)
  then show ?case
    using size_remove_lowest [of t] by (subst take_region.simps) (auto simp: Let_def)
qed

function free_all :: "proc \<Rightarrow> memtree \<Rightarrow> kmem \<Rightarrow> kmem res" where
  "free_all p t m =
     (if t = Null then Inr m
      else
        let d = bdata (subtree_at (get_lowest_alloc t) t);
            region_start = a_start d;
            (region_end, t1) = take_region (a_end d) (remove_node (get_lowest_alloc t) t);
            region_size = sub32 region_end region_start in
        if region_size mod PAGE_SIZE \<noteq> 0
        then Inl (Irrecoverable ''memory region size is not a multiple of PAGE_SIZE'')
        else case for_n (\<lambda>i. free_page (add32 region_start (i * 4096)) p) 0 (region_size div PAGE_SIZE) m of
            Inl e \<Rightarrow> Inl e
          | Inr m1 \<Rightarrow> free_all p t1 m1)"
  by pat_completeness auto
termination
proof (relation "measure (\<lambda>(_, t, _). size t)")
  fix p :: proc and t :: memtree and m m1 :: kmem and d rs x re t1 rz
  assume "t \<noteq> Null" and "x = take_region (a_end d) (remove_node (get_lowest_alloc t) t)" and "(re, t1) = x"
  then have "size t1 \<le> size (remove_node (get_lowest_alloc t) t)"
    using size_take_region [of "a_end d" "remove_node (get_lowest_alloc t) t"] by (metis snd_conv)
  then show "((p, t1, m1), p, t, m) \<in> measure (\<lambda>(_, t, _). size t)"
    using size_remove_lowest [OF \<open>t \<noteq> Null\<close>] by simp
qed simp

declare free_all.simps [simp del]

section \<open>The allocation functions\<close>

record heap =
  trees :: "proc \<Rightarrow> memtree"
  kmem_of :: kmem

definition in_tree :: "proc \<Rightarrow> heap \<Rightarrow> ('a \<times> memtree \<times> kmem) res \<Rightarrow> ('a \<times> heap) res" where
  "in_tree p h r = bind_res r (\<lambda>(x, t, m). Inr (x, h\<lparr>trees := (trees h)(p := t), kmem_of := m\<rparr>))"

definition zero_block :: "proc \<Rightarrow> nat \<Rightarrow> nat \<Rightarrow> heap \<Rightarrow> (nat option \<times> heap) res" where
  "zero_block p n mem h = bind_res (zero_out_possibly_lazily_allocated_memory n mem p (kmem_of h))
     (\<lambda>m. Inr (Some mem, h\<lparr>kmem_of := m\<rparr>))"

definition malloc_proc :: "nat \<Rightarrow> page_info \<Rightarrow> proc \<Rightarrow> heap \<Rightarrow> (nat option \<times> heap) res" where
  "malloc_proc n pinfo p h =
     (if n = 0 then Inr (None, h)
      else in_tree p h (allocate n pinfo p DEFAULT_HINT_INFO (trees h p) (kmem_of h)))"

definition malloc :: "vm_abi \<Rightarrow> nat \<Rightarrow> heap \<Rightarrow> (nat option \<times> heap) res" where
  "malloc abi n h = malloc_proc n (DEFAULT_K_PAGE_INFO abi) KernelProc h"

definition lazy_malloc :: "vm_abi \<Rightarrow> nat \<Rightarrow> heap \<Rightarrow> (nat option \<times> heap) res" where
  "lazy_malloc abi n h =
     malloc_proc n \<lparr>pi_flags = MAP_ANONYMOUS abi OR MAP_PRIVATE abi, pi_policy = PAGE_LAZY_ZERO OR PAGE_WRITE\<rparr>
       KernelProc h"

definition process_malloc :: "vm_abi \<Rightarrow> nat \<Rightarrow> nat \<Rightarrow> heap \<Rightarrow> (nat option \<times> heap) res" where
  "process_malloc abi i n h = malloc_proc n (DEFAULT_U_PAGE_INFO abi) (UserProc i) h"

definition calloc_proc :: "nat \<Rightarrow> nat \<Rightarrow> page_info \<Rightarrow> proc \<Rightarrow> heap \<Rightarrow> (nat option \<times> heap) res" where
  "calloc_proc nmemb sz pinfo p h =
     (if nmemb = 0 \<or> sz = 0 then in_tree p h (allocate 1 pinfo p DEFAULT_HINT_INFO (trees h p) (kmem_of h))
      else if nmemb * sz \<ge> W32 then Inr (None, h)
      else bind_res (in_tree p h (allocate (nmemb * sz) pinfo p DEFAULT_HINT_INFO (trees h p) (kmem_of h)))
        (\<lambda>(r, h1). case r of None \<Rightarrow> Inr (None, h1) | Some mem \<Rightarrow>
          if mem = 0 then Inr (None, h1) else zero_block p (nmemb * sz) mem h1))"

definition calloc :: "vm_abi \<Rightarrow> nat \<Rightarrow> nat \<Rightarrow> heap \<Rightarrow> (nat option \<times> heap) res" where
  "calloc abi nmemb sz h = calloc_proc nmemb sz (DEFAULT_K_PAGE_INFO abi) KernelProc h"

definition process_calloc :: "vm_abi \<Rightarrow> nat \<Rightarrow> nat \<Rightarrow> nat \<Rightarrow> heap \<Rightarrow> (nat option \<times> heap) res" where
  "process_calloc abi i nmemb sz h =
     (let pinfo = DEFAULT_U_PAGE_INFO abi in
      calloc_proc nmemb sz
        (pinfo\<lparr>pi_policy := (pi_policy pinfo AND NOT PAGE_PRESENT) OR PAGE_LAZY_ZERO\<rparr>) (UserProc i) h)"

definition free_proc :: "nat \<Rightarrow> proc \<Rightarrow> heap \<Rightarrow> (FreeState \<times> heap) res" where
  "free_proc ptr p h =
     bind_res (in_tree p h (memtree_free ptr p (trees h p) (kmem_of h))) (\<lambda>(st, h1).
       if p = KernelProc \<and> st \<noteq> FREE_OK then Inl (Irrecoverable ''delete[] failed'') else Inr (st, h1))"

definition free :: "nat \<Rightarrow> heap \<Rightarrow> heap res" where
  "free ptr h =
     bind_res (free_proc ptr KernelProc h) (\<lambda>(st, h1).
       if st \<noteq> FREE_OK then Inl (Irrecoverable ''free failed'') else Inr h1)"

definition process_free_heap :: "nat \<Rightarrow> nat \<Rightarrow> heap \<Rightarrow> heap res" where
  "process_free_heap i ptr h =
     bind_res (free_proc ptr (UserProc i) h) (\<lambda>(st, h1). if st = FREE_OK then Inr h1 else Inl Killed)"

text \<open>\<open>realloc\<close> of the kernel returns the out parameter, \<open>None\<close> where it was not written.\<close>

definition realloc_proc :: "vm_abi \<Rightarrow> nat \<Rightarrow> nat \<Rightarrow> proc \<Rightarrow> heap \<Rightarrow> ((ReallocState \<times> nat option) \<times> heap) res" where
  "realloc_proc abi ptr sz p h =
     in_tree p h (bind_res (memtree_realloc abi ptr sz p (trees h p) (kmem_of h)) (\<lambda>(st, a, t, m). Inr ((st, a), t, m)))"

definition realloc :: "vm_abi \<Rightarrow> nat \<Rightarrow> nat \<Rightarrow> heap \<Rightarrow> (nat option \<times> heap) res" where
  "realloc abi ptr sz h =
     bind_res (realloc_proc abi ptr sz KernelProc h) (\<lambda>((st, a), h1).
       if st \<noteq> REALLOC_OK then Inl (Irrecoverable ''realloc failed'') else Inr (a, h1))"

definition process_realloc :: "vm_abi \<Rightarrow> nat \<Rightarrow> nat \<Rightarrow> nat \<Rightarrow> heap \<Rightarrow> (nat option \<times> heap) res" where
  "process_realloc abi i ptr sz h =
     bind_res (realloc_proc abi ptr sz (UserProc i) h) (\<lambda>((st, a), h1).
       case st of REALLOC_OK \<Rightarrow> Inr (a, h1) | NOMEM \<Rightarrow> Inr (Some 0, h1) | FAILED \<Rightarrow> Inl Killed)"

text \<open>The operators \<open>new\<close> and \<open>delete\<close> of the kernel.\<close>

definition operator_new :: "vm_abi \<Rightarrow> nat \<Rightarrow> heap \<Rightarrow> (nat option \<times> heap) res" where
  "operator_new abi sz h = malloc_proc sz (DEFAULT_K_PAGE_INFO abi) KernelProc h"

definition operator_delete :: "nat \<Rightarrow> heap \<Rightarrow> heap res" where
  "operator_delete ptr h = bind_res (free_proc ptr KernelProc h) (\<lambda>(_, h1). Inr h1)"

definition mmap ::
  "vm_abi \<Rightarrow> nat \<Rightarrow> nat \<Rightarrow> u32 \<Rightarrow> u32 \<Rightarrow> nat \<Rightarrow> proc \<Rightarrow> bool \<Rightarrow> bool \<Rightarrow> heap \<Rightarrow> ((errno + nat) \<times> heap) res" where
  "mmap abi hint0 sz prot flags offset p lazy_zero page_user h =
     (if flags AND NOT (MAP_ANON abi OR MAP_ANONYMOUS abi OR MAP_PRIVATE abi OR MAP_FIXED abi) \<noteq> 0
      then Inr (Inl EINVAL, h)
      else if (flags AND MAP_PRIVATE abi) OR (flags AND MAP_SHARED abi) = 0 then Inr (Inl EINVAL, h)
      else if hint0 mod PAGE_SIZE \<noteq> 0 \<or> sz mod PAGE_SIZE \<noteq> 0 \<or> offset mod PAGE_SIZE \<noteq> 0
      then Inr (Inl EINVAL, h)
      else if (flags AND MAP_ANONYMOUS abi) OR (flags AND MAP_ANON abi) = 0 then Inr (Inl EINVAL, h)
      else if prot = 0 then Inr (Inl EINVAL, h)
      else
        let hint1 = (if hint0 = KERNEL_VIRTUAL_BASE then page_addr (k_lfpe (kmem_of h)) else hint0);
            policy = (if has_flag prot (PROT_WRITE abi) then PAGE_WRITE else 0)
                     OR (if lazy_zero then PAGE_LAZY_ZERO else PAGE_PRESENT)
                     OR (if page_user then PAGE_USER else 0);
            fixed = has_flag flags (MAP_FIXED abi) in
        bind_res (in_tree p h (allocate sz \<lparr>pi_flags = flags, pi_policy = policy\<rparr> p
                   \<lparr>hint = hint1, is_mandatory = fixed\<rparr> (trees h p) (kmem_of h)))
          (\<lambda>(window, h1).
            let w = (case window of None \<Rightarrow> 0 | Some a \<Rightarrow> a) in
            if fixed \<and> w \<noteq> hint1
            then Inl (Irrecoverable ''MAP_FIXED set, but returned window does not match hit'')
            else if w = 0 then Inr (Inl ENOMEM, h1) else Inr (Inr w, h1)))"

text \<open>
  \<open>malloca\<close> and \<open>calloca\<close> request \<^verbatim>\<open>num_pages * size\<close> bytes; the policy they name is passed in the
  place of the parameter \<open>fd\<close>, which \<open>mmap\<close> does not use.
\<close>

definition malloca :: "vm_abi \<Rightarrow> nat \<Rightarrow> heap \<Rightarrow> ((errno + nat) \<times> heap) res" where
  "malloca abi sz h =
     (let num_pages = ADDR_PAGE (sub32 (add32 sz PAGE_SIZE) 1) in
      mmap abi KERNEL_VIRTUAL_BASE (mul32 num_pages sz) (PROT_READ abi OR PROT_WRITE abi)
        (MAP_ANONYMOUS abi OR MAP_PRIVATE abi) 0 KernelProc False False h)"

definition calloca :: "vm_abi \<Rightarrow> nat \<Rightarrow> nat \<Rightarrow> heap \<Rightarrow> (nat option \<times> heap) res" where
  "calloca abi nmemb sz h =
     (if nmemb * sz \<ge> W32 then Inr (None, h)
      else
        let base_size = nmemb * sz;
            num_pages = ADDR_PAGE (sub32 (add32 base_size PAGE_SIZE) 1);
            new_size = mul32 num_pages PAGE_SIZE in
        if base_size + sub32 new_size base_size \<ge> W32 then Inr (None, h)
        else bind_res (mmap abi KERNEL_VIRTUAL_BASE (mul32 num_pages sz) (PROT_READ abi OR PROT_WRITE abi)
               (MAP_ANONYMOUS abi OR MAP_PRIVATE abi) 0 KernelProc False False h)
             (\<lambda>(r, h1). case r of Inl _ \<Rightarrow> Inr (None, h1) | Inr a \<Rightarrow> zero_block KernelProc new_size a h1))"

definition freea :: "nat \<Rightarrow> heap \<Rightarrow> heap res" where
  "freea ptr h = free ptr h"

section \<open>Blocks\<close>

interpretation mt: comparator alloc_cmp a_start
  by unfold_locales (auto simp: alloc_cmp_def)

text \<open>
  The blocks of a tree, in order of address: non-empty, below \<open>2 ^ 32\<close>, and disjoint.
\<close>

definition blocks_ok :: "allocation list \<Rightarrow> bool" where
  "blocks_ok as \<longleftrightarrow> sorted_wrt (\<lambda>a b. a_end a \<le> a_start b) as \<and> (\<forall>a \<in> set as. a_start a < a_end a \<and> a_end a < W32)"

definition memtree_inv :: "memtree \<Rightarrow> bool" where
  "memtree_inv t \<longleftrightarrow> blocks_ok (inorder t)"

lemma blocks_ok_Nil [simp]: "blocks_ok []"
  by (simp add: blocks_ok_def)

lemma blocks_ok_append:
  "blocks_ok (as @ bs) \<longleftrightarrow> blocks_ok as \<and> blocks_ok bs \<and> (\<forall>a \<in> set as. \<forall>b \<in> set bs. a_end a \<le> a_start b)"
  by (auto simp: blocks_ok_def sorted_wrt_append)

lemma blocks_ok_Cons:
  "blocks_ok (a # bs) \<longleftrightarrow> a_start a < a_end a \<and> a_end a < W32 \<and> blocks_ok bs \<and> (\<forall>b \<in> set bs. a_end a \<le> a_start b)"
  by (auto simp: blocks_ok_def)

lemmas blocks_ok_simps = blocks_ok_append blocks_ok_Cons

lemma blocks_ok_around:
  assumes "blocks_ok (xs @ d # ys)"
  shows "a_start d < a_end d" "a_end d < W32" "y \<in> set xs \<Longrightarrow> a_start y < a_start d" "y \<in> set xs \<Longrightarrow> a_end y \<le> a_start d"
    "y \<in> set ys \<Longrightarrow> a_end d \<le> a_start y" "y \<in> set ys \<Longrightarrow> a_start d < a_start y"
  using assms by (force simp: blocks_ok_def sorted_wrt_append)+

lemma blocks_ok_sorted: "blocks_ok as \<Longrightarrow> sorted_wrt (<) (map a_start as)"
proof (induction as)
  case (Cons a as)
  then show ?case by (auto simp: blocks_ok_Cons)
qed simp

lemma memtree_ordered: "memtree_inv t \<Longrightarrow> bst_ordered a_start t"
  using blocks_ok_sorted [of "inorder t"] strict_sorted_imp_sorted
  by (auto simp: memtree_inv_def bst_ordered_def)

lemma starts_split_unique:
  assumes "sorted_wrt (<) (map a_start (xs @ d # ys))" and "xs @ d # ys = xs' @ d # ys'"
  shows "xs' = xs \<and> ys' = ys"
proof -
  have "distinct (map a_start (xs @ d # ys))" using assms(1) strict_sorted_iff by blast
  then have "d \<notin> set xs" "d \<notin> set ys" by (auto simp: image_iff)
  then show ?thesis using assms(2) by (metis append_Cons_eq_iff)
qed

lemma blocks_ok_split_unique:
  "blocks_ok as \<Longrightarrow> as = xs @ d # ys \<Longrightarrow> as = xs' @ d # ys' \<Longrightarrow> xs' = xs \<and> ys' = ys"
  using starts_split_unique blocks_ok_sorted by metis

lemma node_size_eq: "a_start d < a_end d \<Longrightarrow> a_end d < W32 \<Longrightarrow> node_size d = a_end d - a_start d"
  by (simp add: node_size_def sub32_eq)

section \<open>Paths\<close>

lemma node_split:
  assumes "subtree_at p t = BNode d l r"
  obtains xs ys where "inorder t = xs @ d # ys"
    and "\<And>g. inorder (update_at p (map_node g) t) = xs @ g d # ys" and "inorder (remove_node p t) = xs @ ys"
proof -
  obtain as bs where ab: "\<And>f. inorder (update_at p f t) = as @ inorder (f (subtree_at p t)) @ bs"
    using subtree_split [of p t] assms by auto
  show thesis
  proof (rule that [of "as @ inorder l" "inorder r @ bs"])
    show "inorder t = (as @ inorder l) @ d # inorder r @ bs" using ab [of "\<lambda>x. x"] assms by simp
    show "inorder (update_at p (map_node g) t) = (as @ inorder l) @ g d # inorder r @ bs" for g
      using ab [of "map_node g"] assms by simp
    show "inorder (remove_node p t) = (as @ inorder l) @ inorder r @ bs"
      using ab [of remove_match] assms remove_match_inorder [of d l r] by (simp add: remove_node_def del: remove_match.simps)
  qed
qed

lemma subtree_map_node:
  "subtree_at p t = BNode d l r \<Longrightarrow> subtree_at p (update_at p (map_node g) t) = BNode (g d) l r"
  by (simp add: subtree_at_update_at)

lemma insert_path_add_node: "subtree_at (insert_path cmp x t) (add_node cmp x t) = BNode x Null Null"
  by (induction t) auto

lemma find_free_block_Some:
  "find_free_block t sz hi = Some p \<Longrightarrow> \<exists>d l r. subtree_at p t = BNode d l r \<and> \<not> a_used d \<and> node_size d \<ge> sz \<and>
     (hint hi = a_start d \<or> a_start d > hint hi \<and> \<not> is_mandatory hi)"
proof (induction t arbitrary: p)
  case (BNode d l r)
  then show ?case by (fastforce split: if_splits option.splits)
qed simp

lemma find_free_block_None:
  "find_free_block t sz hi = None \<Longrightarrow> bst_ordered a_start t \<Longrightarrow> \<not> is_mandatory hi \<Longrightarrow> d \<in> set (inorder t) \<Longrightarrow>
   a_start d > hint hi \<Longrightarrow> a_used d \<or> node_size d < sz"
proof (induction t)
  case (BNode e l r)
  show ?case
  proof (cases "d \<in> set (inorder l)")
    case True
    then have "a_start e > hint hi" using BNode.prems by (force simp: bst_ordered_BNode)
    with True BNode show ?thesis by (auto simp: bst_ordered_BNode split: if_splits option.splits)
  next
    case False
    with BNode show ?thesis by (auto simp: bst_ordered_BNode split: if_splits option.splits)
  qed
qed simp

section \<open>Allocating\<close>

text \<open>What an allocation of \<open>sz\<close> bytes makes of the block \<open>d\<close>.\<close>

definition carve :: "page_info \<Rightarrow> nat \<Rightarrow> allocation \<Rightarrow> allocation list" where
  "carve pinfo sz d = d\<lparr>a_end := a_start d + sz, a_used := True\<rparr> #
     (if a_end d = a_start d + sz then []
      else [\<lparr>a_start = a_start d + sz, a_end = a_end d, a_info = pinfo, a_used = False\<rparr>])"

lemma update_at_inorder:
  assumes "subtree_at path t = BNode d l r" and "inorder t = xs @ d # ys" and "sorted_wrt (<) (map a_start (xs @ d # ys))"
  shows "inorder (update_at path (map_node g) t) = xs @ g d # ys" and "inorder (remove_node path t) = xs @ ys"
proof -
  obtain xs' ys' where n: "inorder t = xs' @ d # ys'" "\<And>g. inorder (update_at path (map_node g) t) = xs' @ g d # ys'"
    "inorder (remove_node path t) = xs' @ ys'" using node_split [OF assms(1)] by metis
  have "xs' = xs \<and> ys' = ys" using starts_split_unique [OF assms(3)] n(1) assms(2) by simp
  with n(2,3) show "inorder (update_at path (map_node g) t) = xs @ g d # ys" "inorder (remove_node path t) = xs @ ys"
    by simp_all
qed

text \<open>A block is cut after \<open>sz\<close> bytes and the rest is entered as a new free block \<open>e\<close>.\<close>

lemma cut_block:
  fixes info :: page_info
  assumes inv: "memtree_inv t" and at: "subtree_at path t = BNode d l r" and io: "inorder t = xs @ d # ys"
    and sz: "0 < sz" "sz < node_size d"
  defines "d' \<equiv> d\<lparr>a_end := a_start d + sz\<rparr>"
    and "e \<equiv> \<lparr>a_start = a_start d + sz, a_end = a_end d, a_info = info, a_used = False\<rparr>"
  obtains t1 l2 r2 where "t1 = update_at path (map_node (shrink_block (node_size d - sz))) t"
    and "subtree_at path t1 = BNode d' l r" and "add32 (a_start d + sz) (node_size d - sz) = a_end d"
    and "inorder (add_node alloc_cmp e t1) = xs @ d' # e # ys"
    and "subtree_at path (add_node alloc_cmp e t1) = BNode d' l2 r2" and "blocks_ok (xs @ d' # e # ys)"
proof -
  have ok: "blocks_ok (xs @ d # ys)" using inv io by (simp add: memtree_inv_def)
  note ar = blocks_ok_around [OF ok]
  have ns: "node_size d = a_end d - a_start d" using ar(1,2) by (rule node_size_eq)
  have sd: "shrink_block (node_size d - sz) d = d'" "add32 (a_start d + sz) (node_size d - sz) = a_end d"
    using sz ar(1,2) by (simp_all add: shrink_block_def d'_def ns sub32_eq add32_eq)
  define t1 where "t1 = update_at path (map_node (shrink_block (node_size d - sz))) t"
  have at1: "subtree_at path t1 = BNode d' l r" using subtree_map_node [OF at] sd by (simp add: t1_def)
  have io1: "inorder t1 = (xs @ [d']) @ ys"
    using update_at_inorder(1) [OF at io blocks_ok_sorted [OF ok]] sd by (simp add: t1_def)
  have lt: "a_start d + sz < a_end d" using sz ar(1,2) by (simp add: ns)
  have "blocks_ok ((xs @ [d']) @ ys)" using ok lt sz by (auto simp: blocks_ok_simps d'_def)
  then have "bst_ordered a_start t1" using memtree_ordered io1 by (simp add: memtree_inv_def)
  then have "inorder (add_node alloc_cmp e t1) = (xs @ [d']) @ e # ys"
    using ar lt sz by (intro mt.add_node_at io1) (force simp: d'_def e_def)+
  moreover have "blocks_ok (xs @ d' # e # ys)"
    using ok lt sz by (fastforce simp: blocks_ok_simps d'_def e_def)
  ultimately show ?thesis
    using that [OF t1_def at1 sd(2)] add_node_keeps_path [OF at1, of alloc_cmp e] by auto
qed

lemma take_block_inorder:
  assumes inv: "memtree_inv t" and at: "subtree_at path t = BNode d l r" and io: "inorder t = xs @ d # ys"
    and sz: "0 < sz" "sz \<le> node_size d"
  shows "inorder (take_block path sz pinfo t) = xs @ carve pinfo sz d @ ys \<and>
    a_start (bdata (subtree_at path (take_block path sz pinfo t))) = a_start d"
proof -
  have ok: "blocks_ok (xs @ d # ys)" using inv io by (simp add: memtree_inv_def)
  note ar = blocks_ok_around [OF ok]
  have ns: "node_size d = a_end d - a_start d" using ar(1,2) by (rule node_size_eq)
  have shr: "sub32 (node_size d) sz = node_size d - sz" using sz ar(1,2) by (simp add: ns sub32_eq)
  let ?used = "map_node (\<lambda>d. d\<lparr>a_used := True\<rparr>)"
  show ?thesis
  proof (cases "sz = node_size d")
    case True
    then have "a_end d = a_start d + sz" using ar(1) by (simp add: ns)
    moreover have "take_block path sz pinfo t = update_at path ?used t"
      using True shr at by (simp add: take_block_def)
    ultimately show ?thesis
      using update_at_inorder(1) [OF at io blocks_ok_sorted [OF ok]] subtree_map_node [OF at]
      by (simp add: carve_def)
  next
    case False
    then have lt: "sz < node_size d" using sz by simp
    let ?d = "d\<lparr>a_end := a_start d + sz\<rparr>"
    let ?e = "\<lparr>a_start = a_start d + sz, a_end = a_end d, a_info = pinfo, a_used = False\<rparr>"
    obtain t1 l2 r2 where t1: "t1 = update_at path (map_node (shrink_block (node_size d - sz))) t"
      "subtree_at path t1 = BNode ?d l r" "add32 (a_start d + sz) (node_size d - sz) = a_end d"
      and io2: "inorder (add_node alloc_cmp ?e t1) = xs @ ?d # ?e # ys"
      and at2: "subtree_at path (add_node alloc_cmp ?e t1) = BNode ?d l2 r2" and ok2: "blocks_ok (xs @ ?d # ?e # ys)"
      by (rule cut_block [OF inv at io sz(1) lt, of pinfo])
    have "take_block path sz pinfo t = update_at path ?used (add_node alloc_cmp ?e t1)"
      using lt shr at t1 by (simp add: take_block_def Let_def)
    moreover have "a_end d \<noteq> a_start d + sz" using lt by (simp add: ns)
    ultimately show ?thesis
      using update_at_inorder(1) [OF at2 io2 blocks_ok_sorted [OF ok2]] subtree_map_node [OF at2]
      by (simp add: carve_def)
  qed
qed

lemma blocks_ok_carve:
  assumes "blocks_ok (xs @ d # ys)" and "0 < sz" and "sz \<le> node_size d"
  shows "blocks_ok (xs @ carve pinfo sz d @ ys)"
proof -
  have "a_start d < a_end d" "a_end d < W32" using assms(1) by (auto simp: blocks_ok_simps)
  then show ?thesis
    using assms by (fastforce simp: blocks_ok_simps carve_def node_size_eq)
qed

text \<open>An allocation served by a free block of the tree.\<close>

lemma allocate_from_tree:
  assumes inv: "memtree_inv t" and pol: "has_flag (pi_policy pinfo) PAGE_PRESENT \<noteq> has_flag (pi_policy pinfo) PAGE_LAZY_ZERO"
    and sz: "0 < sz" and ff: "find_free_block t sz hi = Some path"
  obtains d xs ys t' where "allocate sz pinfo p hi t m = Inr (Some (a_start d), t', m)"
    and "inorder t = xs @ d # ys" and "\<not> a_used d" and "sz \<le> node_size d"
    and "inorder t' = xs @ carve pinfo sz d @ ys" and "memtree_inv t'"
proof -
  obtain d l r where at: "subtree_at path t = BNode d l r" "\<not> a_used d" "sz \<le> node_size d"
    using find_free_block_Some [OF ff] by auto
  obtain xs ys where io: "inorder t = xs @ d # ys" using node_split [OF at(1)] by metis
  note tb = conjunct1 [OF take_block_inorder [OF inv at(1) io sz at(3), of pinfo]]
    conjunct2 [OF take_block_inorder [OF inv at(1) io sz at(3), of pinfo]]
  have pf: "has_flag (pi_policy pinfo) (PAGE_PRESENT OR PAGE_LAZY_ZERO)"
    using pol pte_used_iff by (auto simp: pte_used_def has_flag_bit)
  have "allocate sz pinfo p hi t m = Inr (Some (a_start d), take_block path sz pinfo t, m)"
    using pol pf ff tb(2) by (simp add: allocate_def Let_def)
  moreover have "memtree_inv (take_block path sz pinfo t)"
    using inv io tb(1) blocks_ok_carve [of xs d ys sz pinfo] sz at(3) by (simp add: memtree_inv_def)
  ultimately show ?thesis using that io at tb(1) by metis
qed
section \<open>Coalescing\<close>

text \<open>Two adjacent free blocks of the same kind become one.\<close>

inductive free_join :: "allocation list \<Rightarrow> allocation list \<Rightarrow> bool" where
  free_join_refl: "free_join as as"
| free_join_step: "free_join as (xs @ x # y # ys) \<Longrightarrow> \<not> a_used x \<Longrightarrow> \<not> a_used y \<Longrightarrow> a_end x = a_start y \<Longrightarrow>
     a_info x = a_info y \<Longrightarrow> free_join as (xs @ x\<lparr>a_end := a_end y\<rparr> # ys)"

definition used_blocks :: "allocation list \<Rightarrow> allocation list" where
  "used_blocks as = filter a_used as"

definition free_addrs :: "allocation list \<Rightarrow> nat set" where
  "free_addrs as = (\<Union>a \<in> {a \<in> set as. \<not> a_used a}. {a_start a..<a_end a})"

lemma free_addrs_append: "free_addrs (as @ bs) = free_addrs as \<union> free_addrs bs"
  by (auto simp: free_addrs_def)

lemma free_addrs_Cons: "free_addrs (a # bs) = (if a_used a then {} else {a_start a..<a_end a}) \<union> free_addrs bs"
  by (auto simp: free_addrs_def)

lemma free_join_keeps:
  "free_join as bs \<Longrightarrow> blocks_ok as \<Longrightarrow>
   blocks_ok bs \<and> used_blocks bs = used_blocks as \<and> free_addrs bs = free_addrs as"
proof (induction rule: free_join.induct)
  case (free_join_step as xs x y ys)
  then have "blocks_ok (xs @ x # y # ys)" by simp
  moreover from this have "{a_start x..<a_end x} \<union> {a_start y..<a_end y} = {a_start x..<a_end y}"
    using free_join_step.hyps by (auto simp: blocks_ok_simps)
  ultimately show ?case
    using free_join_step by (auto simp: blocks_ok_simps used_blocks_def free_addrs_append free_addrs_Cons)
qed simp

lemma free_join_trans: "free_join bs cs \<Longrightarrow> free_join as bs \<Longrightarrow> free_join as cs"
  by (induction rule: free_join.induct) (auto intro: free_join.intros)

lemma extract_rightmost_inorder:
  "extract_rightmost d l r = (m, t) \<Longrightarrow> inorder t @ [m] = inorder (BNode d l r)"
proof (induction d l r arbitrary: m t rule: extract_rightmost.induct)
  case (2 d l d' l' r')
  then obtain t' where "extract_rightmost d' l' r' = (m, t')" "t = BNode d l t'"
    by (auto split: prod.splits)
  with "2.IH" show ?case by fastforce
qed simp

text \<open>What one merge does, for a node \<open>n\<close> between the blocks \<open>as\<close> and \<open>bs\<close>.\<close>

definition joins :: "allocation list \<Rightarrow> memtree \<Rightarrow> allocation list \<Rightarrow> memtree \<Rightarrow> bool" where
  "joins as n bs n' \<longleftrightarrow> n' \<noteq> Null \<and> \<not> a_used (bdata n') \<and> a_start (bdata n') \<le> a_start (bdata n) \<and>
     a_end (bdata n) \<le> a_end (bdata n') \<and> free_join (as @ inorder n @ bs) (as @ inorder n' @ bs)"

lemma joins_refl: "n \<noteq> Null \<Longrightarrow> \<not> a_used (bdata n) \<Longrightarrow> joins as n bs n"
  by (simp add: joins_def free_join_refl)

lemma joins_trans: "joins as n bs n1 \<Longrightarrow> joins as n1 bs n2 \<Longrightarrow> joins as n bs n2"
  unfolding joins_def using free_join_trans by (meson order_trans)

lemma merge_predecessor_joins:
  assumes "merge_node_with_free_predecessor n = (True, n')" and "blocks_ok (as @ inorder n @ bs)"
    and "\<not> a_used (bdata n)"
  shows "joins as n bs n'"
proof (cases n rule: merge_node_with_free_predecessor.cases)
  case (1 d d' l' r' r)
  obtain s t where st: "extract_rightmost d' l' r' = (s, t)" by fastforce
  then have n': "is_similar_and_contiguous s d" "n' = BNode (d\<lparr>a_start := a_start s\<rparr>) t r"
    using assms(1) 1 by (auto split: if_splits)
  have io: "inorder n = inorder t @ s # d # inorder r" using extract_rightmost_inorder [OF st] 1 by simp
  have ok: "a_start s < a_end s" "a_end s \<le> a_start d" "a_start d < a_end d"
    using assms(2) unfolding io by (auto simp: blocks_ok_simps)
  then have c: "a_end s = a_start d" "a_info s = a_info d" "\<not> a_used s"
    using n'(1) assms(3) 1 by (auto simp: is_similar_and_contiguous_def)
  then have "d\<lparr>a_start := a_start s\<rparr> = s\<lparr>a_end := a_end d\<rparr>" using assms(3) 1 by simp
  moreover have "free_join ((as @ inorder t) @ s # d # inorder r @ bs) ((as @ inorder t) @ s\<lparr>a_end := a_end d\<rparr> # inorder r @ bs)"
    using c assms(3) 1 by (intro free_join_step free_join_refl) auto
  ultimately show ?thesis
    using 1 n' ok c assms(3) unfolding joins_def io by simp
qed (use assms in auto)

lemma merge_successor_joins:
  assumes "merge_node_with_free_successor n = (True, n')" and "blocks_ok (as @ inorder n @ bs)"
    and "\<not> a_used (bdata n)"
  shows "joins as n bs n'"
proof (cases n rule: merge_node_with_free_successor.cases)
  case (1 d l d' l' r')
  obtain s t where st: "extract_leftmost d' l' r' = (s, t)" by fastforce
  then have n': "is_similar_and_contiguous s d" "n' = BNode (d\<lparr>a_end := add32 (a_end d) (node_size s)\<rparr>) l t"
    using assms(1) 1 by (auto split: if_splits)
  have io: "inorder n = inorder l @ d # s # inorder t" using extract_leftmost_inorder [OF st] 1 by simp
  have ok: "a_start s < a_end s" "a_end d \<le> a_start s" "a_start d < a_end d" "a_end s < W32"
    using assms(2) unfolding io by (auto simp: blocks_ok_simps)
  then have c: "a_end d = a_start s" "a_info s = a_info d" "\<not> a_used s"
    using n'(1) assms(3) 1 by (auto simp: is_similar_and_contiguous_def)
  then have "add32 (a_end d) (node_size s) = a_end s" using ok by (simp add: node_size_eq add32_eq)
  moreover have "free_join ((as @ inorder l) @ d # s # inorder t @ bs) ((as @ inorder l) @ d\<lparr>a_end := a_end s\<rparr> # inorder t @ bs)"
    using c assms(3) 1 by (intro free_join_step free_join_refl) auto
  ultimately show ?thesis
    using 1 n' ok c assms(3) unfolding joins_def io by simp
qed (use assms in auto)

lemma joins_blocks_ok: "joins as n bs n' \<Longrightarrow> blocks_ok (as @ inorder n @ bs) \<Longrightarrow> blocks_ok (as @ inorder n' @ bs)"
  using free_join_keeps by (auto simp: joins_def)

lemma merge_predecessors_joins:
  "blocks_ok (as @ inorder n @ bs) \<Longrightarrow> n \<noteq> Null \<Longrightarrow> \<not> a_used (bdata n) \<Longrightarrow> joins as n bs (merge_predecessors n)"
proof (induction n rule: merge_predecessors.induct)
  case (1 n)
  obtain b n' where m: "merge_node_with_free_predecessor n = (b, n')" by fastforce
  show ?case
  proof (cases b)
    case True
    then have j: "joins as n bs n'" using merge_predecessor_joins [of n n'] m "1.prems" by simp
    then have "joins as n' bs (merge_predecessors n')"
      using "1.IH" [of b n'] m True joins_blocks_ok [OF j "1.prems"(1)] by (auto simp: joins_def)
    with j show ?thesis using m True joins_trans by (subst merge_predecessors.simps) auto
  next
    case False
    then have "n' = n" using m by (cases n rule: merge_node_with_free_predecessor.cases) (auto split: prod.splits if_splits)
    then show ?thesis using m False joins_refl [of n] "1.prems" by (subst merge_predecessors.simps) auto
  qed
qed

lemma merge_successors_joins:
  "blocks_ok (as @ inorder n @ bs) \<Longrightarrow> n \<noteq> Null \<Longrightarrow> \<not> a_used (bdata n) \<Longrightarrow> joins as n bs (merge_successors n)"
proof (induction n rule: merge_successors.induct)
  case (1 n)
  obtain b n' where m: "merge_node_with_free_successor n = (b, n')" by fastforce
  show ?case
  proof (cases b)
    case True
    then have j: "joins as n bs n'" using merge_successor_joins [of n n'] m "1.prems" by simp
    then have "joins as n' bs (merge_successors n')"
      using "1.IH" [of b n'] m True joins_blocks_ok [OF j "1.prems"(1)] by (auto simp: joins_def)
    with j show ?thesis using m True joins_trans by (subst merge_successors.simps) auto
  next
    case False
    then have "n' = n" using m by (cases n rule: merge_node_with_free_successor.cases) (auto split: prod.splits if_splits)
    then show ?thesis using m False joins_refl [of n] "1.prems" by (subst merge_successors.simps) auto
  qed
qed

lemma merge_free_node_joins:
  assumes "blocks_ok (as @ inorder n @ bs)" and "n \<noteq> Null" and "\<not> a_used (bdata n)"
  shows "joins as n bs (merge_free_node n)"
proof -
  have j: "joins as n bs (merge_predecessors n)" using assms by (rule merge_predecessors_joins)
  then have "joins as (merge_predecessors n) bs (merge_free_node n)"
    unfolding merge_free_node_def using joins_blocks_ok [OF j assms(1)]
    by (intro merge_successors_joins) (auto simp: joins_def)
  with j show ?thesis by (rule joins_trans)
qed
section \<open>Freeing\<close>

lemma used_blocks_append [simp]: "used_blocks (as @ bs) = used_blocks as @ used_blocks bs"
  by (simp add: used_blocks_def)

lemma used_blocks_Cons [simp]: "used_blocks (a # bs) = (if a_used a then a # used_blocks bs else used_blocks bs)"
  by (simp add: used_blocks_def)

lemma free_addrs_Nil [simp]: "free_addrs [] = {}"
  by (simp add: free_addrs_def)

lemma free_merge:
  assumes inv: "memtree_inv t" and at: "subtree_at path t = BNode d l r" and io: "inorder t = xs @ d # ys"
    and t1: "t1 = update_at path (\<lambda>n. merge_free_node (map_node (\<lambda>d. d\<lparr>a_used := False\<rparr>) n)) t"
  obtains d' l' r' where "subtree_at path t1 = BNode d' l' r'" and "memtree_inv t1" and "\<not> a_used d'"
    and "used_blocks (inorder t1) = used_blocks xs @ used_blocks ys"
    and "free_addrs (inorder t1) = free_addrs (inorder t) \<union> {a_start d..<a_end d}"
    and "a_start d' \<le> a_start d" and "a_end d \<le> a_end d'"
proof -
  let ?n = "BNode (d\<lparr>a_used := False\<rparr>) l r"
  obtain as bs where ab: "\<And>f. inorder (update_at path f t) = as @ inorder (f (subtree_at path t)) @ bs"
    using subtree_split [of path t] at by auto
  have "inorder t = (as @ inorder l) @ d # inorder r @ bs" using ab [of "\<lambda>x. x"] at by simp
  then have xy: "xs = as @ inorder l" "ys = inorder r @ bs"
    using blocks_ok_split_unique [of "inorder t"] inv io unfolding memtree_inv_def by metis+
  have ok: "blocks_ok (as @ inorder ?n @ bs)"
    using inv io xy unfolding memtree_inv_def by (auto simp: blocks_ok_simps)
  have j: "joins as ?n bs (merge_free_node ?n)" using ok by (intro merge_free_node_joins) auto
  have io1: "inorder t1 = as @ inorder (merge_free_node ?n) @ bs"
    using ab [of "\<lambda>n. merge_free_node (map_node (\<lambda>d. d\<lparr>a_used := False\<rparr>) n)"] at t1 by simp
  have k: "blocks_ok (inorder t1) \<and> used_blocks (inorder t1) = used_blocks (as @ inorder ?n @ bs) \<and>
      free_addrs (inorder t1) = free_addrs (as @ inorder ?n @ bs)"
    unfolding io1 using free_join_keeps [OF _ ok] j unfolding joins_def by blast
  obtain d' l' r' where n': "merge_free_node ?n = BNode d' l' r'" using j by (cases "merge_free_node ?n") (auto simp: joins_def)
  have "subtree_at path t1 = BNode d' l' r'" using at n' t1 by (simp add: subtree_at_update_at)
  moreover have "free_addrs (inorder t1) = free_addrs (inorder t) \<union> {a_start d..<a_end d}"
    using k io xy by (auto simp: free_addrs_append free_addrs_Cons)
  ultimately show ?thesis
    using k j n' xy by (intro that [of d' l' r']) (auto simp: memtree_inv_def joins_def)
qed

text \<open>The whole pages inside a block, and what is left of it without them.\<close>

lemma page_bounds:
  assumes "s + 4096 < e" and "e < W32"
  shows "align_up s = (s + 4095) div 4096 * 4096" and "align_down e = e div 4096 * 4096"
    and "s \<le> align_up s" and "align_up s \<le> align_down e" and "align_down e \<le> e"
    and "ADDR_PAGE (sub32 (align_down e) (align_up s)) * 4096 = align_down e - align_up s"
proof -
  have "sub32 (add32 s 4096) 1 = s + 4095" using assms by (simp add: add32_eq sub32_eq)
  then show u: "align_up s = (s + 4095) div 4096 * 4096" by (simp add: align_up_def)
  show d: "align_down e = e div 4096 * 4096" by (simp add: align_down_def)
  show "s \<le> align_up s" unfolding u by linarith
  show le: "align_up s \<le> align_down e"
    unfolding u d using assms by (intro mult_le_mono1 div_le_mono) simp
  show "align_down e \<le> e" unfolding d by simp
  have "sub32 (align_down e) (align_up s) = (e div 4096 - (s + 4095) div 4096) * 4096"
    using le assms unfolding u d by (simp add: sub32_eq diff_mult_distrib)
  then show "ADDR_PAGE (sub32 (align_down e) (align_up s)) * 4096 = align_down e - align_up s"
    unfolding u d by (simp add: ADDR_PAGE_def diff_mult_distrib)
qed

definition without_pages :: "allocation \<Rightarrow> allocation list" where
  "without_pages d =
     (if a_start d < align_up (a_start d) then [d\<lparr>a_end := align_up (a_start d)\<rparr>] else []) @
     (if align_down (a_end d) < a_end d then [d\<lparr>a_start := align_down (a_end d)\<rparr>] else [])"

lemma unlink_pages_inorder:
  assumes inv: "memtree_inv t" and at: "subtree_at path t = BNode d l r" and io: "inorder t = xs @ d # ys"
    and big: "a_start d + 4096 < a_end d" and pages: "2 \<le> ADDR_PAGE (sub32 (align_down (a_end d)) (align_up (a_start d)))"
  shows "inorder (unlink_pages path t) = xs @ without_pages d @ ys"
proof -
  define s e A E where "s = a_start d" and "e = a_end d" and "A = align_up s" and "E = align_down e"
  have ok: "blocks_ok (xs @ d # ys)" using inv io by (simp add: memtree_inv_def)
  note ar = blocks_ok_around [OF ok]
  have eW: "e < W32" using ar(2) by (simp add: e_def)
  note pb = page_bounds [of s e]
  have "2 \<le> ADDR_PAGE (sub32 E A)" "ADDR_PAGE (sub32 E A) * 4096 = E - A" "s \<le> A" "E \<le> e"
    using pb(3,5,6) big eW pages by (simp_all add: A_def E_def s_def e_def)
  then have b: "s \<le> A" "A < E" "E \<le> e" by linarith+
  have np: "mul32 (ADDR_PAGE (sub32 E A)) PAGE_SIZE = E - A"
    using pb(6) big eW b by (simp add: A_def E_def s_def e_def mul32_eq)
  have ns: "node_size d = e - s" using ar(1,2) by (simp add: node_size_eq s_def e_def)
  have srt: "sorted_wrt (<) (map a_start (xs @ d # ys))" by (rule blocks_ok_sorted [OF ok])
  show ?thesis
  proof (cases "s = A \<and> E = e")
    case True
    then have "unlink_pages path t = remove_node path t"
      using np ns at by (simp add: unlink_pages_def Let_def A_def E_def s_def e_def)
    then show ?thesis
      using update_at_inorder(2) [OF at io srt] True by (simp add: without_pages_def A_def E_def s_def e_def)
  next
    case False
    let ?x = "d\<lparr>a_start := E\<rparr>"
    define t1 where "t1 = (if E < e then add_node alloc_cmp ?x t else t)"
    define zs where "zs = (if E < e then ?x # ys else ys)"
    have "inorder (add_node alloc_cmp ?x t) = (xs @ [d]) @ ?x # ys" if "E < e"
      using ar b that memtree_ordered [OF inv] io
      by (intro mt.add_node_at) (force simp: s_def e_def)+
    then have io1: "inorder t1 = xs @ d # zs" using io by (simp add: t1_def zs_def)
    obtain l1 r1 where at1: "subtree_at path t1 = BNode d l1 r1"
      using add_node_keeps_path [OF at, of alloc_cmp ?x] at by (cases "E < e") (auto simp: t1_def)
    have "a_start d < E" "\<And>y. y \<in> set ys \<Longrightarrow> E < e \<Longrightarrow> E < a_start y" "\<And>y. y \<in> set xs \<Longrightarrow> a_start y < E"
      using ar b by (force simp: s_def e_def)+
    then have srt1: "sorted_wrt (<) (map a_start (xs @ d # zs))"
      using srt by (auto simp: zs_def sorted_wrt_append)
    note up = update_at_inorder [OF at1 io1 srt1]
    have c: "sub32 e E \<noteq> 0 \<longleftrightarrow> E < e" "sub32 A s = A - s" "E - A \<noteq> e - s"
      using b eW False by (auto simp: sub32_eq)
    then have un: "unlink_pages path t = (if A - s \<noteq> 0 then update_at path (map_node (shrink_block (sub32 (e - s) (A - s)))) t1
        else remove_node path t1)"
      using np ns at by (simp add: unlink_pages_def Let_def A_def [symmetric] E_def [symmetric] s_def [symmetric]
          e_def [symmetric] t1_def)
    have sh: "shrink_block (sub32 (e - s) (A - s)) d = d\<lparr>a_end := A\<rparr>"
      using b eW by (simp add: shrink_block_def sub32_eq e_def [symmetric])
    show ?thesis
      using un up sh b by (auto simp: without_pages_def zs_def A_def E_def s_def e_def)
  qed
qed

lemma without_pages_ok:
  assumes "blocks_ok (xs @ d # ys)" and big: "a_start d + 4096 < a_end d" and "\<not> a_used d"
    and pages: "2 \<le> ADDR_PAGE (sub32 (align_down (a_end d)) (align_up (a_start d)))"
  shows "blocks_ok (xs @ without_pages d @ ys)"
    and "used_blocks (without_pages d) = []"
    and "free_addrs (without_pages d) = {a_start d..<a_end d} - {align_up (a_start d)..<align_down (a_end d)}"
proof -
  define A E where "A = align_up (a_start d)" and "E = align_down (a_end d)"
  note ar = blocks_ok_around [OF assms(1)] and pb = page_bounds [OF big blocks_ok_around(2) [OF assms(1)]]
  have b: "a_start d \<le> A" "A < E" "E \<le> a_end d" using pb(3-6) pages unfolding A_def E_def by linarith+
  show "blocks_ok (xs @ without_pages d @ ys)"
    using assms(1) b unfolding without_pages_def A_def [symmetric] E_def [symmetric]
    by (force simp: blocks_ok_simps)
  show "used_blocks (without_pages d) = []" using assms(3) by (simp add: without_pages_def used_blocks_def)
  show "free_addrs (without_pages d) = {a_start d..<a_end d} - {align_up (a_start d)..<align_down (a_end d)}"
    using assms(3) b unfolding without_pages_def A_def [symmetric] E_def [symmetric]
    by (auto simp: free_addrs_append free_addrs_Cons)
qed

lemma free_node_tree:
  assumes inv: "memtree_inv t" and at: "subtree_at path t = BNode d l r" and io: "inorder t = xs @ d # ys"
    and fr: "free_node p path t m = Inr (t', m')"
  shows "memtree_inv t' \<and> used_blocks (inorder t') = used_blocks xs @ used_blocks ys \<and>
    (free_addrs (inorder t') = free_addrs (inorder t) \<union> {a_start d..<a_end d} \<and> m' = m \<or>
     (\<exists>A E. A mod 4096 = 0 \<and> E mod 4096 = 0 \<and> A + 8192 \<le> E \<and>
        free_addrs (inorder t') = free_addrs (inorder t) \<union> {a_start d..<a_end d} - {A..<E} \<and>
        {A..<E} \<subseteq> free_addrs (inorder t) \<union> {a_start d..<a_end d}))"
proof -
  define t1 where "t1 = update_at path (\<lambda>n. merge_free_node (map_node (\<lambda>d. d\<lparr>a_used := False\<rparr>) n)) t"
  obtain d' l' r' where at1: "subtree_at path t1 = BNode d' l' r'" and inv1: "memtree_inv t1" and nu: "\<not> a_used d'"
    and ub: "used_blocks (inorder t1) = used_blocks xs @ used_blocks ys"
    and fa: "free_addrs (inorder t1) = free_addrs (inorder t) \<union> {a_start d..<a_end d}"
    using free_merge [OF inv at io t1_def] by metis
  obtain as bs where io1: "inorder t1 = as @ d' # bs" using node_split [OF at1] by metis
  have ok: "blocks_ok (as @ d' # bs)" using inv1 io1 by (simp add: memtree_inv_def)
  let ?A = "align_up (a_start d')" and ?E = "align_down (a_end d')"
  let ?np = "if node_size d' > PAGE_SIZE then ADDR_PAGE (sub32 ?E ?A) else 0"
  show ?thesis
  proof (cases "?np \<ge> 2")
    case False
    then have "t' = t1" "m' = m" using fr at1 by (auto simp: free_node_def t1_def [symmetric] Let_def split: if_splits)
    with inv1 ub fa show ?thesis by simp
  next
    case True
    then have pages: "2 \<le> ADDR_PAGE (sub32 ?E ?A)" "node_size d' > PAGE_SIZE" by (auto split: if_splits)
    then have big: "a_start d' + 4096 < a_end d'" using blocks_ok_around(1,2) [OF ok] by (simp add: node_size_eq)
    have "t' = unlink_pages path t1" 
      using fr at1 True by (auto simp: free_node_def t1_def [symmetric] res_elims Let_def split: if_splits)
    then have io2: "inorder t' = as @ without_pages d' @ bs"
      using unlink_pages_inorder [OF inv1 at1 io1 big pages(1)] by simp
    note wp = without_pages_ok [OF ok big nu pages(1)] and pb = page_bounds [OF big blocks_ok_around(2) [OF ok]]
    have d'free: "{a_start d'..<a_end d'} \<subseteq> free_addrs (inorder t1)"
      using io1 nu by (auto simp: free_addrs_append free_addrs_Cons)
    have AE: "{?A..<?E} \<subseteq> {a_start d'..<a_end d'}" using pb(3,5) by auto
    have "{?A..<?E} \<inter> free_addrs (as @ bs) = {}"
      using blocks_ok_around(4,5) [OF ok] AE by (fastforce simp: free_addrs_def)
    then have "free_addrs (inorder t') = free_addrs (inorder t1) - {?A..<?E}"
      unfolding io2 io1 using wp(3) nu by (auto simp: free_addrs_append free_addrs_Cons)
    moreover have "?A mod 4096 = 0" "?E mod 4096 = 0" "?A + 8192 \<le> ?E"
      using pb(1,2,6) pages(1) by (simp_all add: align_down_def) (simp add: align_up_def, linarith)
    moreover have "used_blocks (inorder t') = used_blocks xs @ used_blocks ys"
      using ub io1 io2 wp(2) nu by simp
    ultimately show ?thesis
      using wp(1) io2 fa d'free AE by (metis (no_types, lifting) memtree_inv_def order_trans)
  qed
qed
lemma find_alloc_node:
  assumes "memtree_inv t"
  shows "find_node alloc_cmp (dummy_alloc a) t = None \<longleftrightarrow> (\<forall>d \<in> set (inorder t). a_start d \<noteq> a)"
    and "find_node alloc_cmp (dummy_alloc a) t = Some path \<Longrightarrow>
      \<exists>d l r xs ys. subtree_at path t = BNode d l r \<and> a_start d = a \<and> inorder t = xs @ d # ys"
proof -
  show "find_node alloc_cmp (dummy_alloc a) t = None \<longleftrightarrow> (\<forall>d \<in> set (inorder t). a_start d \<noteq> a)"
    using mt.find_node_None [OF memtree_ordered [OF assms], of "dummy_alloc a"] by (auto simp: dummy_alloc_def)
  assume "find_node alloc_cmp (dummy_alloc a) t = Some path"
  then obtain d l r where "subtree_at path t = BNode d l r" "a_start d = a"
    using mt.find_node_Some [of "dummy_alloc a" t path] by (auto simp: dummy_alloc_def)
  moreover from this obtain xs ys where "inorder t = xs @ d # ys" using node_split by metis
  ultimately show "\<exists>d l r xs ys. subtree_at path t = BNode d l r \<and> a_start d = a \<and> inorder t = xs @ d # ys"
    by blast
qed

text \<open>The three answers of \<open>free\<close>.\<close>

lemma memtree_free_cases:
  assumes "memtree_inv t" and "a \<noteq> 0"
  shows "(\<forall>d \<in> set (inorder t). a_start d \<noteq> a) \<Longrightarrow> memtree_free a p t m = Inr (NOT_FOUND, t, m)"
    and "\<exists>d \<in> set (inorder t). a_start d = a \<and> \<not> a_used d \<Longrightarrow> memtree_free a p t m = Inr (DOUBLE_FREE, t, m)"
    and "\<exists>d \<in> set (inorder t). a_start d = a \<and> a_used d \<Longrightarrow>
      \<exists>path d l r xs ys. subtree_at path t = BNode d l r \<and> inorder t = xs @ d # ys \<and> a_start d = a \<and> a_used d \<and>
        memtree_free a p t m = bind_res (free_node p path t m) (\<lambda>(t1, m1). Inr (FREE_OK, t1, m1))"
proof -
  have uniq: "d = d'" if "d \<in> set (inorder t)" "d' \<in> set (inorder t)" "a_start d = a_start d'" for d d'
  proof -
    have "sorted_wrt (<) (map a_start (inorder t))"
      using assms(1) blocks_ok_sorted by (simp add: memtree_inv_def)
    then have "distinct (map a_start (inorder t))" using strict_sorted_iff by blast
    then have "inj_on a_start (set (inorder t))" by (simp add: distinct_map)
    with that show ?thesis by (auto dest: inj_onD)
  qed
  show "(\<forall>d \<in> set (inorder t). a_start d \<noteq> a) \<Longrightarrow> memtree_free a p t m = Inr (NOT_FOUND, t, m)"
    using assms(2) find_alloc_node(1) [OF assms(1), of a] by (auto simp: memtree_free_def)
  have found: "\<exists>path d l r xs ys. find_node alloc_cmp (dummy_alloc a) t = Some path \<and> subtree_at path t = BNode d l r \<and>
      inorder t = xs @ d # ys \<and> a_start d = a \<and> a_used d = u"
    if ex: "\<exists>d \<in> set (inorder t). a_start d = a \<and> a_used d = u" for u
  proof -
    have "find_node alloc_cmp (dummy_alloc a) t \<noteq> None"
      using ex find_alloc_node(1) [OF assms(1), of a] by blast
    then obtain path where path: "find_node alloc_cmp (dummy_alloc a) t = Some path" by blast
    then obtain d l r xs ys where d: "subtree_at path t = BNode d l r" "a_start d = a" "inorder t = xs @ d # ys"
      using find_alloc_node(2) [OF assms(1)] by blast
    then have "d \<in> set (inorder t)" by simp
    then have "a_used d = u" using ex uniq d(2) by blast
    with path d show ?thesis by blast
  qed
  show "memtree_free a p t m = Inr (DOUBLE_FREE, t, m)" if "\<exists>d \<in> set (inorder t). a_start d = a \<and> \<not> a_used d"
    using found [of False] that assms(2) by (auto simp: memtree_free_def)
  show "\<exists>path d l r xs ys. subtree_at path t = BNode d l r \<and> inorder t = xs @ d # ys \<and> a_start d = a \<and> a_used d \<and>
        memtree_free a p t m = bind_res (free_node p path t m) (\<lambda>(t1, m1). Inr (FREE_OK, t1, m1))"
    if "\<exists>d \<in> set (inorder t). a_start d = a \<and> a_used d"
  proof -
    have "\<exists>d \<in> set (inorder t). a_start d = a \<and> a_used d = True" using that by simp
    from found [OF this] obtain path d l r xs ys where "find_node alloc_cmp (dummy_alloc a) t = Some path"
      "subtree_at path t = BNode d l r" "inorder t = xs @ d # ys" "a_start d = a" "a_used d" by blast
    with assms(2) show ?thesis by (intro exI [of _ path] exI [of _ d] exI) (auto simp: memtree_free_def)
  qed
qed

text \<open>
  The kernel's frees leave the kernel's page tables alone: the addresses passed to
  \<open>free_page\<close> are page numbers, so they lie in the first 256 pages.
\<close>

lemma free_page_low:
  assumes "a < NPAGES" and "\<And>q. q < 256 \<Longrightarrow> k_pt s q = 0" and "frame_rc s 0 \<noteq> 1" and "frame_rc s 0 < W32"
  shows "free_page a KernelProc s = Inr (s\<lparr>frame_rc := (frame_rc s)(0 := sub32 (frame_rc s 0) 1)\<rparr>)"
proof -
  have "ADDR_PAGE a < 256" using assms(1) by (simp add: ADDR_PAGE_def less_mult_imp_div_less)
  then have "pte_frame (k_pt s (ADDR_PAGE a)) = 0" using assms(2) by (simp add: pte_frame_def)
  moreover have "sub32 (frame_rc s 0) 1 \<ge> 1"
    using assms(3,4) by (cases "frame_rc s 0 = 0") (auto simp: sub32_wrap sub32_eq)
  ultimately show ?thesis
    by (simp add: free_page_def pte_frame_PHYS_ADDR Let_def)
qed

lemma free_pages_low:
  assumes "\<And>i. g i < NPAGES" and low: "\<And>q. q < 256 \<Longrightarrow> k_pt m q = 0" and "frame_rc m 0 = 0" and n: "n \<le> NPAGES"
  shows "\<exists>m'. for_n (\<lambda>i. free_page (g i) KernelProc) 0 n m = Inr m' \<and> k_pt m' = k_pt m \<and>
    frame_to_page m' = frame_to_page m \<and> uspace m' = uspace m \<and>
    (\<forall>f. f \<noteq> 0 \<longrightarrow> frame_rc m' f = frame_rc m f)"
proof -
  let ?P = "\<lambda>i s. s = m\<lparr>frame_rc := (frame_rc m)(0 := if i = 0 then 0 else W32 - i)\<rparr>"
  have "\<exists>m'. for_n (\<lambda>i. free_page (g i) KernelProc) 0 n m = Inr m' \<and> ?P (0 + n) m'"
  proof (rule for_n_total)
    show "?P 0 m" using assms(3) by (simp add: fun_upd_idem)
    fix j s assume j: "0 \<le> j" "j < 0 + n" and s: "?P j s"
    have "sub32 (frame_rc s 0) 1 = W32 - Suc j"
      using j n s by (cases "j = 0") (auto simp: sub32_wrap sub32_eq)
    moreover have "free_page (g j) KernelProc s = Inr (s\<lparr>frame_rc := (frame_rc s)(0 := sub32 (frame_rc s 0) 1)\<rparr>)"
      using assms(1) low s j n by (intro free_page_low) auto
    ultimately show "\<exists>s'. free_page (g j) KernelProc s = Inr s' \<and> ?P (Suc j) s'"
      using s by simp
  qed
  then show ?thesis by auto
qed

section \<open>Trees for examples\<close>

definition demo_info :: page_info where
  "demo_info = \<lparr>pi_flags = 0, pi_policy = PAGE_PRESENT OR PAGE_WRITE\<rparr>"

text \<open>A used block of 100 bytes, a used one of 200 and a free one behind them.\<close>

definition demo_tree :: memtree where
  "demo_tree = BNode \<lparr>a_start = 4096, a_end = 4196, a_info = demo_info, a_used = True\<rparr> Null
     (BNode \<lparr>a_start = 4196, a_end = 4396, a_info = demo_info, a_used = True\<rparr> Null
       (BNode \<lparr>a_start = 4396, a_end = 12288, a_info = demo_info, a_used = False\<rparr> Null Null))"

lemma demo_tree_inv: "memtree_inv demo_tree"
  by (simp add: demo_tree_def memtree_inv_def blocks_ok_simps)

text \<open>
  Freeing a block of the kernel succeeds, but no page is unmapped and no frame is given back: the
  page numbers that \<open>free_node\<close> passes on are taken for addresses, which all lie in the first 256
  pages.
\<close>
theorem kernel_free_total:
  assumes inv: "memtree_inv t" and a: "a \<noteq> 0" "\<exists>d \<in> set (inorder t). a_start d = a \<and> a_used d"
    and low: "\<And>q. q < 256 \<Longrightarrow> k_pt m q = 0" and rc: "frame_rc m 0 = 0"
  shows "\<exists>t' m'. memtree_free a KernelProc t m = Inr (FREE_OK, t', m') \<and> k_pt m' = k_pt m \<and>
    free_frames m' = free_frames m"
proof -
  obtain path d l r xs ys where at: "subtree_at path t = BNode d l r" and
    fr: "memtree_free a KernelProc t m = bind_res (free_node KernelProc path t m) (\<lambda>(t1, m1). Inr (FREE_OK, t1, m1))"
    using memtree_free_cases(3) [OF inv a, of KernelProc m] by metis
  define t1 where "t1 = update_at path (\<lambda>n. merge_free_node (map_node (\<lambda>d. d\<lparr>a_used := False\<rparr>) n)) t"
  let ?d = "bdata (subtree_at path t1)"
  let ?g = "\<lambda>i. ADDR_PAGE (add32 (align_up (a_start ?d)) i)"
  let ?n = "if node_size ?d > PAGE_SIZE then ADDR_PAGE (sub32 (align_down (a_end ?d)) (align_up (a_start ?d))) else 0"
  have "?n \<le> NPAGES" using sub32_less [of "align_down (a_end ?d)" "align_up (a_start ?d)"]
    by (auto simp: ADDR_PAGE_def less_imp_le less_mult_imp_div_less)
  moreover have "\<And>i. ?g i < NPAGES"
    using add32_less by (simp add: ADDR_PAGE_def less_mult_imp_div_less)
  ultimately obtain m' where m': "for_n (\<lambda>i. free_page (?g i) KernelProc) 0 ?n m = Inr m'" "k_pt m' = k_pt m"
    "frame_to_page m' = frame_to_page m"
    using free_pages_low [of ?g m ?n] low rc by blast
  have "\<exists>t' m''. free_node KernelProc path t m = Inr (t', m'') \<and> (m'' = m \<or> m'' = m')"
    using m'(1) by (auto simp: free_node_def t1_def [symmetric] Let_def)
  then show ?thesis
    using fr m' by (auto simp: free_frames_def FRAME_USED_def)
qed

theorem kernel_free_total_witness:
  "\<exists>t' m'. memtree_free 4196 KernelProc demo_tree demo_mem = Inr (FREE_OK, t', m') \<and> k_pt m' = k_pt demo_mem \<and>
     free_frames m' = free_frames demo_mem"
  by (rule kernel_free_total [OF demo_tree_inv]) (simp_all add: demo_tree_def)

section \<open>Reallocating\<close>

text \<open>
  A block that grows: \<open>realloc\<close> merges it with the block behind it when that one is in use too.
\<close>

lemma merge_used_successor:
  assumes inv: "memtree_inv t" and at: "subtree_at path t = BNode d l (BNode d' l' r')"
    and s: "extract_leftmost d' l' r' = (s, r2)" "is_similar_and_contiguous s d"
    and t1: "t1 = update_at path (\<lambda>n. snd (merge_node_with_free_successor n)) t"
  obtains xs ys where "inorder t = xs @ d # s # ys" and "inorder t1 = xs @ d\<lparr>a_end := a_end s\<rparr> # ys"
    and "subtree_at path t1 = BNode (d\<lparr>a_end := a_end s\<rparr>) l r2" and "a_end d = a_start s" and "memtree_inv t1"
proof -
  obtain as bs where ab: "\<And>f. inorder (update_at path f t) = as @ inorder (f (subtree_at path t)) @ bs"
    using subtree_split [of path t] at by auto
  have r: "inorder (BNode d' l' r') = s # inorder r2" using extract_leftmost_inorder [OF s(1)] by simp
  have io: "inorder t = (as @ inorder l) @ d # s # inorder r2 @ bs" using ab [of "\<lambda>x. x"] at r by simp
  have ok: "blocks_ok ((as @ inorder l) @ d # s # inorder r2 @ bs)" using inv io by (simp add: memtree_inv_def)
  then have sd: "a_start s < a_end s" "a_end d \<le> a_start s" "a_start d < a_end d" "a_end s < W32"
    by (auto simp: blocks_ok_simps)
  then have c: "a_end d = a_start s" using s(2) by (auto simp: is_similar_and_contiguous_def)
  then have e: "add32 (a_end d) (node_size s) = a_end s" using sd by (simp add: node_size_eq add32_eq)
  then have m: "snd (merge_node_with_free_successor (BNode d l (BNode d' l' r'))) = BNode (d\<lparr>a_end := a_end s\<rparr>) l r2"
    using s by simp
  have io1: "inorder t1 = (as @ inorder l) @ d\<lparr>a_end := a_end s\<rparr> # inorder r2 @ bs"
    using ab [of "\<lambda>n. snd (merge_node_with_free_successor n)"] at m t1 by simp
  have "blocks_ok ((as @ inorder l) @ d\<lparr>a_end := a_end s\<rparr> # inorder r2 @ bs)"
    using ok by (auto simp: blocks_ok_simps)
  moreover have "subtree_at path t1 = BNode (d\<lparr>a_end := a_end s\<rparr>) l r2"
    using at m t1 by (simp add: subtree_at_update_at)
  ultimately show ?thesis using that io io1 c by (metis memtree_inv_def)
qed

lemma split_node_inorder:
  assumes inv: "memtree_inv t" and at: "subtree_at path t = BNode d l r" and io: "inorder t = xs @ d # ys"
    and sz: "0 < sz" "sz < node_size d"
  shows "inorder (split_node path sz t) = xs @ d\<lparr>a_end := a_start d + sz\<rparr> #
    \<lparr>a_start = a_start d + sz, a_end = a_end d, a_info = a_info d, a_used = False\<rparr> # ys"
proof -
  let ?d = "d\<lparr>a_end := a_start d + sz\<rparr>"
  let ?e = "\<lparr>a_start = a_start d + sz, a_end = a_end d, a_info = a_info d, a_used = False\<rparr>"
  obtain t1 l2 r2 where t1: "t1 = update_at path (map_node (shrink_block (node_size d - sz))) t"
    "subtree_at path t1 = BNode ?d l r" "add32 (a_start d + sz) (node_size d - sz) = a_end d"
    and io2: "inorder (add_node alloc_cmp ?e t1) = xs @ ?d # ?e # ys"
    and "subtree_at path (add_node alloc_cmp ?e t1) = BNode ?d l2 r2" and "blocks_ok (xs @ ?d # ?e # ys)"
    by (rule cut_block [OF inv at io sz, of "a_info d"])
  have "sub32 (node_size d) sz = node_size d - sz"
    using sz sub32_less [of "a_end d" "a_start d"] by (simp add: sub32_eq node_size_def)
  then have "split_node path sz t = add_node alloc_cmp ?e t1"
    using at t1 by (simp add: split_node_def Let_def)
  with io2 show ?thesis by simp
qed

text \<open>
  Growing a block whose successor is in use: \<open>realloc\<close> merges the block with the following block
  of the same kind although both are in use, reports success at the same address, and the following
  block is no longer in the tree: its owner's memory has been given away.
\<close>
theorem realloc_takes_neighbour:
  assumes inv: "memtree_inv t" and a: "a \<noteq> 0" "find_allocation_node a t = Some path"
    and at: "subtree_at path t = BNode d l (BNode d' l' r')"
    and s: "extract_leftmost d' l' r' = (s, r2)" "is_similar_and_contiguous s d" and used: "a_used d" "a_used s"
    and sz: "node_size d < sz" "sz < node_size d + node_size s"
  shows "\<exists>t' xs ys. memtree_realloc abi a sz p t m = Inr (REALLOC_OK, Some a, t', m) \<and>
    inorder t = xs @ d # s # ys \<and>
    used_blocks (inorder t') = used_blocks xs @ d\<lparr>a_end := a_start d + sz\<rparr> # used_blocks ys"
proof -
  define t1 where "t1 = update_at path (\<lambda>n. snd (merge_node_with_free_successor n)) t"
  obtain xs ys where io: "inorder t = xs @ d # s # ys" and io1: "inorder t1 = xs @ d\<lparr>a_end := a_end s\<rparr> # ys"
    and at1: "subtree_at path t1 = BNode (d\<lparr>a_end := a_end s\<rparr>) l r2" and c: "a_end d = a_start s" and inv1: "memtree_inv t1"
    by (rule merge_used_successor [OF inv at s t1_def])
  have sd: "a_start d < a_end d" "a_start s < a_end s" "a_end s < W32"
    using inv io by (auto simp: memtree_inv_def blocks_ok_simps)
  have ns: "node_size (d\<lparr>a_end := a_end s\<rparr>) = node_size d + node_size s"
    using sd c by (simp add: node_size_eq)
  have sz0: "0 < sz" "sz < node_size (d\<lparr>a_end := a_end s\<rparr>)" using sz ns by simp_all
  note sp = split_node_inorder [OF inv1 at1 io1 sz0]
  have "memtree_realloc abi a sz p t m = Inr (REALLOC_OK, Some a, split_node path sz t1, m)"
    using a at at1 sz sz0 ns by (simp add: memtree_realloc_def t1_def [symmetric] Let_def)
  then show ?thesis using sp io used by (intro exI [of _ "split_node path sz t1"] exI [of _ xs] exI [of _ ys]) simp
qed

theorem realloc_takes_neighbour_witness:
  "\<exists>t'. memtree_realloc demo_abi 4096 250 (UserProc 0) demo_tree demo_mem = Inr (REALLOC_OK, Some 4096, t', demo_mem) \<and>
     used_blocks (inorder t') = [\<lparr>a_start = 4096, a_end = 4346, a_info = demo_info, a_used = True\<rparr>]"
proof -
  let ?d = "\<lparr>a_start = 4096, a_end = 4196, a_info = demo_info, a_used = True\<rparr>"
  let ?s = "\<lparr>a_start = 4196, a_end = 4396, a_info = demo_info, a_used = True\<rparr>"
  let ?f = "\<lparr>a_start = 4396, a_end = 12288, a_info = demo_info, a_used = False\<rparr>"
  have a: "find_allocation_node 4096 demo_tree = Some []"
    by (simp add: find_allocation_node_def demo_tree_def dummy_alloc_def alloc_cmp_def)
  have at: "subtree_at [] demo_tree = BNode ?d Null (BNode ?s Null (BNode ?f Null Null))" by (simp add: demo_tree_def)
  have e: "extract_leftmost ?s Null (BNode ?f Null Null) = (?s, BNode ?f Null Null)" by simp
  have sim: "is_similar_and_contiguous ?s ?d" by (simp add: is_similar_and_contiguous_def)
  have sz: "node_size ?d < 250" "250 < node_size ?d + node_size ?s" by (simp_all add: node_size_def sub32_def)
  obtain t' xs ys where t': "memtree_realloc demo_abi 4096 250 (UserProc 0) demo_tree demo_mem = Inr (REALLOC_OK, Some 4096, t', demo_mem)"
    "inorder demo_tree = xs @ ?d # ?s # ys"
    "used_blocks (inorder t') = used_blocks xs @ ?d\<lparr>a_end := a_start ?d + 250\<rparr> # used_blocks ys"
    using realloc_takes_neighbour [OF demo_tree_inv _ a at e sim _ _ sz, of demo_abi "UserProc 0" demo_mem] by auto
  have "xs = [] \<and> ys = [?f]" using t'(2) by (cases xs) (auto simp: demo_tree_def Cons_eq_append_conv)
  with t' show ?thesis by (intro exI [of _ t']) (simp add: used_blocks_def)
qed

section \<open>Allocations of the kernel\<close>

text \<open>Every block of the tree lies in pages that are in use.\<close>

definition tree_mapped :: "proc \<Rightarrow> memtree \<Rightarrow> kmem \<Rightarrow> bool" where
  "tree_mapped p t m \<longleftrightarrow>
     (\<forall>d \<in> set (inorder t). \<forall>x. a_start d \<le> x \<and> x < a_end d \<longrightarrow> pte_used (proc_pt m p (x div 4096)))"

definition new_block :: "nat \<Rightarrow> nat \<Rightarrow> allocation \<Rightarrow> bool" where
  "new_block a sz d \<longleftrightarrow> a_start d = a \<and> a_end d = a + sz \<and> a_used d"

text \<open>What an allocation of \<open>sz\<close> bytes at \<open>a\<close> does to the blocks.\<close>

definition allocated :: "nat \<Rightarrow> nat \<Rightarrow> allocation list \<Rightarrow> allocation list \<Rightarrow> bool" where
  "allocated a sz as bs \<longleftrightarrow>
     (\<exists>xs d ys. used_blocks as = xs @ ys \<and> used_blocks bs = xs @ d # ys \<and> new_block a sz d) \<and>
     (\<forall>d \<in> set (used_blocks as). a_end d \<le> a \<or> a + sz \<le> a_start d)"

lemma allocated_carve:
  assumes "blocks_ok (xs @ d # ys)" and "\<not> a_used d" and "0 < sz" and "sz \<le> node_size d"
  shows "allocated (a_start d) sz (xs @ d # ys) (xs @ carve pinfo sz d @ ys)"
    and "allocated (a_start d) sz (xs @ ys) (xs @ carve pinfo sz d @ ys)"
proof -
  note ar = blocks_ok_around [OF assms(1)]
  have le: "a_start d + sz \<le> a_end d" using assms(4) ar(1,2) by (simp add: node_size_eq)
  have dis: "a_end y \<le> a_start d \<or> a_start d + sz \<le> a_start y" if "y \<in> set (used_blocks (xs @ ys))" for y
    using that ar(4,5) le by (fastforce simp: used_blocks_def)
  have ub: "used_blocks (xs @ carve pinfo sz d @ ys) = used_blocks xs @ d\<lparr>a_end := a_start d + sz, a_used := True\<rparr> # used_blocks ys"
    by (simp add: carve_def used_blocks_def)
  show "allocated (a_start d) sz (xs @ ys) (xs @ carve pinfo sz d @ ys)"
    unfolding allocated_def ub using dis
    by (intro conjI ballI exI [of _ "used_blocks xs"] exI [of _ "used_blocks ys"]
        exI [of _ "d\<lparr>a_end := a_start d + sz, a_used := True\<rparr>"]) (simp_all add: new_block_def)
  then show "allocated (a_start d) sz (xs @ d # ys) (xs @ carve pinfo sz d @ ys)"
    using assms(2) by (simp add: allocated_def)
qed

text \<open>A run of free pages is disjoint from the blocks of a mapped tree.\<close>

lemma mapped_disjoint:
  assumes "tree_mapped KernelProc t m" and "d \<in> set (inorder t)" and "a_start d < a_end d" and "run_ok (k_pt m) n b" and "0 < n"
  shows "a_end d \<le> b * 4096 \<or> (b + n) * 4096 \<le> a_start d"
proof (rule ccontr)
  assume "\<not> ?thesis"
  then have lt: "b * 4096 < a_end d" "a_start d < (b + n) * 4096" by auto
  define x where "x = max (b * 4096) (a_start d)"
  have "x < a_end d" "x < (b + n) * 4096" "b * 4096 \<le> x" "a_start d \<le> x"
    using lt assms(3,5) by (auto simp: x_def)
  then have "pte_used (k_pt m (x div 4096))" "x div 4096 < b + n" "b \<le> x div 4096"
    using assms(1,2) by (auto simp: tree_mapped_def less_mult_imp_div_less less_eq_div_iff_mult_less_eq)
  then show False
    using assms(4) by (auto simp: run_ok_def dest: spec [of _ "x div 4096 - b"])
qed

lemma add_fresh_block:
  assumes inv: "memtree_inv t" and "a_start d < a_end d" and "a_end d < W32"
    and dis: "\<And>y. y \<in> set (inorder t) \<Longrightarrow> a_end y \<le> a_start d \<or> a_end d \<le> a_start y"
  obtains xs ys where "inorder t = xs @ ys" and "inorder (add_node alloc_cmp d t) = xs @ d # ys"
    and "blocks_ok (xs @ d # ys)"
proof -
  obtain xs ys where s: "inorder t = xs @ ys" "inorder (add_node alloc_cmp d t) = xs @ d # ys"
    "\<forall>y \<in> set xs. a_start y < a_start d" "\<forall>y \<in> set ys. a_start d \<le> a_start y"
    using mt.add_node_split [OF memtree_ordered [OF inv], of d] by blast
  have ok: "blocks_ok (xs @ ys)" using inv s(1) by (simp add: memtree_inv_def)
  have "\<forall>y \<in> set xs. a_end y \<le> a_start d" "\<forall>y \<in> set ys. a_end d \<le> a_start y"
  proof -
    have "a_end y \<le> a_start d" if "y \<in> set xs" for y
      using dis [of y] s(1,3) that assms(2) by fastforce
    then show "\<forall>y \<in> set xs. a_end y \<le> a_start d" by blast
    have "a_end d \<le> a_start y" if "y \<in> set ys" for y
    proof -
      have "a_start y < a_end y" using ok that by (simp add: blocks_ok_def)
      moreover have "a_start d \<le> a_start y" using s(4) that by blast
      ultimately show ?thesis using dis [of y] s(1) that by auto
    qed
    then show "\<forall>y \<in> set ys. a_end d \<le> a_start y" by blast
  qed
  then have "blocks_ok (xs @ d # ys)" using ok assms(2,3) by (auto simp: blocks_ok_simps)
  with s that show ?thesis by blast
qed

lemma tree_mapped_carve:
  assumes "tree_mapped p t m" and "inorder t = xs @ d # ys" and "blocks_ok (xs @ d # ys)" and "sz \<le> node_size d"
    and "inorder t' = xs @ carve pinfo sz d @ ys"
  shows "tree_mapped p t' m"
  unfolding tree_mapped_def
proof (intro ballI allI impI)
  fix e x assume e: "e \<in> set (inorder t')" and x: "a_start e \<le> x \<and> x < a_end e"
  have "a_start d + sz \<le> a_end d" using assms(4) blocks_ok_around(1,2) [OF assms(3)] by (simp add: node_size_eq)
  then have "\<exists>e' \<in> set (inorder t). a_start e' \<le> x \<and> x < a_end e'"
    using e x assms(2,5) by (auto simp: carve_def split: if_splits)
  with assms(1) show "pte_used (proc_pt m p (x div 4096))" unfolding tree_mapped_def by blast
qed

text \<open>The policies of \<open>DEFAULT_K_PAGE_INFO\<close> are a valid choice.\<close>

lemma k_policy: "has_flag (PAGE_PRESENT OR PAGE_WRITE) PAGE_PRESENT" "\<not> has_flag (PAGE_PRESENT OR PAGE_WRITE) PAGE_LAZY_ZERO"
  "has_flag (PAGE_PRESENT OR PAGE_WRITE) (PAGE_PRESENT OR PAGE_LAZY_ZERO)"
  by (simp_all add: has_flag_def)

text \<open>An allocation that takes the pages \<open>b\<close>, ..., \<open>b + n - 1\<close> from \<open>sbrk\<close>.\<close>

lemma allocate_kernel_at:
  assumes inv: "memtree_inv t" and mp: "tree_mapped KernelProc t m"
    and ff: "find_free_block t sz hi = None" and sz: "0 < sz" "sz + 4095 < W32"
    and pinfo: "pinfo = \<lparr>pi_flags = fl, pi_policy = PAGE_PRESENT OR PAGE_WRITE\<rparr>"
    and n: "n = max 2 ((sz + 4095) div 4096)" and sb: "sbrk n pinfo hi KernelProc m = Inr (Some (page_addr b), m')"
    and b: "0 < b" "b + n < NPAGES" "run_ok (k_pt m) n b"
    and out: "\<forall>q. q \<notin> {b..<b + n} \<longrightarrow> k_pt m' q = k_pt m q"
    and ins: "\<forall>q\<in>{b..<b + n}. \<exists>f\<in>unused_frames m. k_pt m' q = FRAME_ID_ADDR f OR (PAGE_PRESENT OR PAGE_WRITE)"
  shows "\<exists>t'. allocate sz pinfo KernelProc hi t m = Inr (Some (page_addr b), t', m') \<and> memtree_inv t' \<and>
    tree_mapped KernelProc t' m' \<and> allocated (page_addr b) sz (inorder t) (inorder t')"
proof -
  have ba: "page_addr b = b * 4096" "(b + n) * 4096 < W32" using b by (auto simp: page_addr_def)
  have np: "max 2 (ADDR_PAGE (sub32 (add32 sz PAGE_SIZE) 1)) = n"
    using round_up_eq [OF sz(2)] n(1) by (simp add: ADDR_PAGE_def)
  let ?d = "\<lparr>a_start = b * 4096, a_end = (b + n) * 4096, a_info = pinfo, a_used = False\<rparr>"
  have dW: "a_start ?d < a_end ?d" "a_end ?d < W32" using ba n(1) by auto
  have ae: "add32 (b * 4096) (mul32 n PAGE_SIZE) = (b + n) * 4096"
    using ba(2) by (simp add: add32_eq mul32_eq algebra_simps)
  obtain xs ys where s: "inorder t = xs @ ys" "inorder (add_node alloc_cmp ?d t) = xs @ ?d # ys" "blocks_ok (xs @ ?d # ys)"
  proof (rule add_fresh_block [OF inv dW])
    fix y assume y: "y \<in> set (inorder t)"
    then have "a_start y < a_end y" using inv by (simp add: memtree_inv_def blocks_ok_def)
    then show "a_end y \<le> a_start ?d \<or> a_end ?d \<le> a_start y"
      using mapped_disjoint [OF mp y _ b(3)] n(1) by simp
  qed
  let ?t = "add_node alloc_cmp ?d t" and ?path = "insert_path alloc_cmp ?d t"
  have inv1: "memtree_inv ?t" using s by (simp add: memtree_inv_def)
  have szn: "sz \<le> node_size ?d" using n(1) ba(2) by (simp add: node_size_def sub32_eq algebra_simps)
  note tb = take_block_inorder [OF inv1 insert_path_add_node s(2) sz(1) szn, of pinfo]
  let ?t' = "take_block ?path sz pinfo ?t"
  have "node_physical_alloc sz pinfo hi KernelProc t m = Inr (Some ?path, ?t, m')"
    unfolding node_physical_alloc_def Let_def np using sb ba ae b(1) by simp
  then have al: "allocate sz pinfo KernelProc hi t m = Inr (Some (b * 4096), ?t', m')"
    using ff tb k_policy pinfo by (simp add: allocate_def Let_def)
  have keep: "pte_used (k_pt m' q)" if "pte_used (k_pt m q) \<or> q \<in> {b..<b + n}" for q
    using that out ins by (cases "q \<in> {b..<b + n}") (force simp: pte_used_iff bit_or_iff)+
  have "tree_mapped KernelProc ?t m'"
    unfolding tree_mapped_def s(2)
  proof (intro ballI allI impI)
    fix e x assume "e \<in> set (xs @ ?d # ys)" "a_start e \<le> x \<and> x < a_end e"
    then have "pte_used (k_pt m (x div 4096)) \<or> x div 4096 \<in> {b..<b + n}"
      using mp s(1) by (auto simp: tree_mapped_def less_mult_imp_div_less less_eq_div_iff_mult_less_eq)
    then show "pte_used (proc_pt m' KernelProc (x div 4096))" using keep by simp
  qed
  then have "tree_mapped KernelProc ?t' m'"
    by (rule tree_mapped_carve [OF _ s(2,3) szn conjunct1 [OF tb]])
  moreover have "memtree_inv ?t'" using tb blocks_ok_carve [OF s(3) sz(1) szn] by (simp add: memtree_inv_def)
  moreover have "allocated (b * 4096) sz (inorder t) (inorder ?t')"
    using allocated_carve(2) [OF s(3) _ sz(1) szn, of pinfo] s(1) tb by simp
  ultimately show ?thesis using al ba by simp
qed

lemma allocate_kernel_fresh:
  assumes inv: "memtree_inv t" and mp: "tree_mapped KernelProc t m" and km: "kmap_inv m"
    and ff: "find_free_block t sz hi = None" and sz: "0 < sz" "sz + 4095 < W32"
    and pinfo: "pinfo = \<lparr>pi_flags = fl, pi_policy = PAGE_PRESENT OR PAGE_WRITE\<rparr>"
    and n: "n = max 2 ((sz + 4095) div 4096)" "n \<le> card (free_frames m)" and lff: "lowest_free_frame m < NPAGES"
    and hi: "\<not> is_mandatory hi" and lf: "0 < k_lfpe m"
    and r: "max (k_lfpe m) (ADDR_PAGE (hint hi)) \<le> r" "r + n < NPAGES" "run_ok (k_pt m) (Suc n) r"
  shows "\<exists>a t' m'. allocate sz pinfo KernelProc hi t m = Inr (Some a, t', m') \<and> memtree_inv t' \<and>
    tree_mapped KernelProc t' m' \<and> kmap_inv m' \<and> allocated a sz (inorder t) (inorder t')"
proof -
  obtain b m' where sb: "sbrk n pinfo hi KernelProc m = Inr (Some (page_addr b), m')"
    and b: "max (k_lfpe m) (ADDR_PAGE (hint hi)) \<le> b" "b \<le> r" "run_ok (k_pt m) n b" and km': "kmap_inv m'"
    and out: "\<forall>q. q \<notin> {b..<b + n} \<longrightarrow> k_pt m' q = k_pt m q"
    and ins: "\<forall>q\<in>{b..<b + n}. \<exists>f\<in>unused_frames m. k_pt m' q = FRAME_ID_ADDR f OR (PAGE_PRESENT OR PAGE_WRITE)"
    using sbrk_kernel_ok [OF km refl n(2) lff hi r, of fl] pinfo by auto
  have "0 < b" "b + n < NPAGES" using b r(2) lf by auto
  from allocate_kernel_at [OF inv mp ff sz pinfo n(1) sb this b(3) out ins] km' show ?thesis by blast
qed

section \<open>The heap as an interface\<close>

text \<open>
  What the users of an allocator rely on: the blocks in use are disjoint, an allocation adds a
  block of the requested size, a release removes the block at its address, and nothing else
  changes. \<open>limit\<close> bounds the size of a request.
\<close>

locale block_allocator =
  fixes heap_ok :: "'s \<Rightarrow> bool" and live :: "'s \<Rightarrow> (nat \<times> nat) list"
    and acquire :: "nat \<Rightarrow> 's \<Rightarrow> (nat option \<times> 's) res" and release :: "nat \<Rightarrow> 's \<Rightarrow> (bool \<times> 's) res"
    and limit :: nat
  assumes live_disjoint: "heap_ok s \<Longrightarrow> sorted_wrt (\<lambda>x y. snd x \<le> fst y) (live s)"
    and live_nonempty: "heap_ok s \<Longrightarrow> x \<in> set (live s) \<Longrightarrow> fst x < snd x"
    and acquire_some: "heap_ok s \<Longrightarrow> 0 < n \<Longrightarrow> n \<le> limit \<Longrightarrow> acquire n s = Inr (Some a, s') \<Longrightarrow>
      heap_ok s' \<and> (\<exists>xs ys. live s = xs @ ys \<and> live s' = xs @ (a, a + n) # ys)"
    and acquire_none: "heap_ok s \<Longrightarrow> 0 < n \<Longrightarrow> n \<le> limit \<Longrightarrow> acquire n s = Inr (None, s') \<Longrightarrow>
      heap_ok s' \<and> live s' = live s"
    and release_true: "heap_ok s \<Longrightarrow> a \<noteq> 0 \<Longrightarrow> release a s = Inr (True, s') \<Longrightarrow>
      heap_ok s' \<and> (\<exists>xs e ys. live s = xs @ (a, e) # ys \<and> live s' = xs @ ys)"
    and release_false: "heap_ok s \<Longrightarrow> a \<noteq> 0 \<Longrightarrow> release a s = Inr (False, s') \<Longrightarrow> heap_ok s' \<and> live s' = live s"

datatype heap_op = Acquire nat | Release nat

text \<open>
  A client that keeps its own account \<open>mine\<close> of the blocks it holds, as a multiset of address
  ranges: it adds what it is given and takes out what it has released.
\<close>

fun run_heap :: "(nat \<Rightarrow> 's \<Rightarrow> (nat option \<times> 's) res) \<Rightarrow> (nat \<Rightarrow> 's \<Rightarrow> (bool \<times> 's) res) \<Rightarrow>
    heap_op list \<Rightarrow> 's \<Rightarrow> (nat \<times> nat) multiset \<Rightarrow> ('s \<times> (nat \<times> nat) multiset) res" where
  "run_heap acq rel [] s mine = Inr (s, mine)"
| "run_heap acq rel (Acquire n # ops) s mine =
     bind_res (acq n s) (\<lambda>(r, s1).
       run_heap acq rel ops s1 (case r of None \<Rightarrow> mine | Some a \<Rightarrow> add_mset (a, a + n) mine))"
| "run_heap acq rel (Release a # ops) s mine =
     bind_res (rel a s) (\<lambda>(b, s1).
       run_heap acq rel ops s1 (if b then filter_mset (\<lambda>x. fst x \<noteq> a) mine else mine))"

fun op_ok :: "nat \<Rightarrow> heap_op \<Rightarrow> bool" where
  "op_ok limit (Acquire n) = (0 < n \<and> n \<le> limit)"
| "op_ok limit (Release a) = (a \<noteq> 0)"

context block_allocator
begin

lemma account_correct:
  assumes "run_heap acquire release ops s mine = Inr (s', mine')" and "heap_ok s" and "list_all (op_ok limit) ops"
    and "mine = mset (live s)"
  shows "heap_ok s' \<and> mine' = mset (live s') \<and> sorted_wrt (\<lambda>x y. snd x \<le> fst y) (live s')"
  using assms
proof (induction ops arbitrary: s mine)
  case Nil
  then show ?case using live_disjoint by auto
next
  case (Cons op ops)
  show ?case
  proof (cases op)
    case (Acquire n)
    then obtain r s1 where r: "acquire n s = Inr (r, s1)"
      "run_heap acquire release ops s1 (case r of None \<Rightarrow> mine | Some a \<Rightarrow> add_mset (a, a + n) mine) = Inr (s', mine')"
      using Cons.prems(1) by (auto simp: res_elims)
    have n: "0 < n" "n \<le> limit" using Cons.prems(3) Acquire by auto
    show ?thesis
    proof (cases r)
      case None
      then show ?thesis
        using acquire_none [OF Cons.prems(2) n] r Cons.prems Cons.IH [of s1 mine] by auto
    next
      case (Some a)
      then obtain xs ys where s1: "heap_ok s1" "live s = xs @ ys" "live s1 = xs @ (a, a + n) # ys"
        using acquire_some [OF Cons.prems(2) n] r by blast
      then show ?thesis
        using r Some Cons.prems(3,4) n by (intro Cons.IH [of s1 "add_mset (a, a + n) mine"]) auto
    qed
  next
    case (Release a)
    then obtain b s1 where r: "release a s = Inr (b, s1)"
      "run_heap acquire release ops s1 (if b then filter_mset (\<lambda>x. fst x \<noteq> a) mine else mine) = Inr (s', mine')"
      using Cons.prems(1) by (auto simp: res_elims)
    have a: "a \<noteq> 0" using Cons.prems(3) Release by simp
    show ?thesis
    proof (cases b)
      case False
      then show ?thesis
        using release_false [OF Cons.prems(2) a] r Cons.prems Cons.IH [of s1 mine] by auto
    next
      case True
      then obtain xs e ys where s1: "heap_ok s1" "live s = xs @ (a, e) # ys" "live s1 = xs @ ys"
        using release_true [OF Cons.prems(2) a, of s1] r(1) by auto
      have "a < e" using live_nonempty [OF Cons.prems(2), of "(a, e)"] s1(2) by simp
      moreover have "fst x < snd x" if "x \<in> set (xs @ ys)" for x
        using live_nonempty [OF Cons.prems(2), of x] that s1(2) by auto
      moreover have "\<forall>x \<in> set xs. snd x \<le> a" "\<forall>x \<in> set ys. e \<le> fst x"
        using live_disjoint [OF Cons.prems(2)] unfolding s1(2) sorted_wrt_append by simp_all
      ultimately have "fst x \<noteq> a" if "x \<in> set (xs @ ys)" for x
        using that by (metis Un_iff le_less_trans less_irrefl not_less order.strict_trans1 set_append)
      then have "filter_mset (\<lambda>x. fst x \<noteq> a) mine = mset (live s1)"
        using Cons.prems(4) s1 by (simp add: mset_filter [symmetric] filter_id_conv)
      then show ?thesis
        using r True Cons.prems(3) s1 by (intro Cons.IH [of s1 "mset (live s1)"]) auto
    qed
  qed
qed

end

text \<open>The kernel's heap: a tree of blocks on the kernel's page tables.\<close>

definition kheap_ok :: "memtree \<times> kmem \<Rightarrow> bool" where
  "kheap_ok h \<longleftrightarrow> memtree_inv (fst h) \<and> tree_mapped KernelProc (fst h) (snd h) \<and> kmap_inv (snd h) \<and>
     (\<forall>q<256. k_pt (snd h) q = 0) \<and> 256 \<le> k_lfpe (snd h) \<and> k_lfpe (snd h) \<le> NPAGES"

definition klive :: "memtree \<times> kmem \<Rightarrow> (nat \<times> nat) list" where
  "klive h = map (\<lambda>d. (a_start d, a_end d)) (used_blocks (inorder (fst h)))"

definition kacquire :: "vm_abi \<Rightarrow> nat \<Rightarrow> memtree \<times> kmem \<Rightarrow> (nat option \<times> (memtree \<times> kmem)) res" where
  "kacquire abi n h =
     bind_res (allocate n (DEFAULT_K_PAGE_INFO abi) KernelProc DEFAULT_HINT_INFO (fst h) (snd h))
       (\<lambda>(r, t, m). Inr (r, (t, m)))"

definition krelease :: "nat \<Rightarrow> memtree \<times> kmem \<Rightarrow> (bool \<times> (memtree \<times> kmem)) res" where
  "krelease a h = bind_res (memtree_free a KernelProc (fst h) (snd h)) (\<lambda>(st, t, m). Inr (st = FREE_OK, (t, m)))"

lemma klive_allocated:
  assumes "allocated a n (inorder t) (inorder t')"
  shows "\<exists>xs ys. klive (t, m) = xs @ ys \<and> klive (t', m') = xs @ (a, a + n) # ys"
  using assms by (fastforce simp: allocated_def klive_def new_block_def)

lemma kacquire_law:
  assumes ok: "kheap_ok h" and n: "0 < n" "n \<le> W32 - 4096" and al: "kacquire abi n h = Inr (r, h')"
  shows "kheap_ok h' \<and> (case r of None \<Rightarrow> klive h' = klive h
    | Some a \<Rightarrow> \<exists>xs ys. klive h = xs @ ys \<and> klive h' = xs @ (a, a + n) # ys)"
proof -
  obtain t m t' m' where h: "h = (t, m)" "h' = (t', m')" by fastforce
  have inv: "memtree_inv t" "tree_mapped KernelProc t m" "kmap_inv m"
    using ok h by (simp_all add: kheap_ok_def)
  let ?i = "DEFAULT_K_PAGE_INFO abi" and ?fl = "MAP_ANONYMOUS abi OR MAP_PRIVATE abi"
  have pinfo: "?i = \<lparr>pi_flags = ?fl, pi_policy = PAGE_PRESENT OR PAGE_WRITE\<rparr>" by (simp add: DEFAULT_K_PAGE_INFO_def)
  have al': "allocate n ?i KernelProc DEFAULT_HINT_INFO t m = Inr (r, t', m')"
    using al h by (auto simp: kacquire_def res_elims)
  show ?thesis
  proof (cases "find_free_block t n DEFAULT_HINT_INFO")
    case (Some path)
    have "has_flag (pi_policy ?i) PAGE_PRESENT \<noteq> has_flag (pi_policy ?i) PAGE_LAZY_ZERO"
      using k_policy by (simp add: pinfo)
    from allocate_from_tree [OF inv(1) this n(1) Some, of KernelProc m]
    obtain d xs ys where a: "r = Some (a_start d)" "m' = m" and io: "inorder t = xs @ d # ys" "\<not> a_used d" "n \<le> node_size d"
      "inorder t' = xs @ carve ?i n d @ ys" "memtree_inv t'" using al' by (metis sum.inject(2) prod.inject)
    have bo: "blocks_ok (xs @ d # ys)" using inv(1) io(1) by (simp add: memtree_inv_def)
    have "allocated (a_start d) n (inorder t) (inorder t')"
      using allocated_carve(1) [OF bo io(2) n(1) io(3)] io(1,4) by simp
    moreover have "tree_mapped KernelProc t' m" by (rule tree_mapped_carve [OF inv(2) io(1) bo io(3,4)])
    ultimately show ?thesis using ok h a io(5) klive_allocated by (auto simp: kheap_ok_def)
  next
    case None
    let ?n = "max 2 ((n + 4095) div 4096)"
    have rnd: "max 2 (ADDR_PAGE (sub32 (add32 n PAGE_SIZE) 1)) = ?n"
      using round_up_eq [of n] n(2) by (simp add: ADDR_PAGE_def)
    obtain x m1 where sb: "sbrk ?n ?i DEFAULT_HINT_INFO KernelProc m = Inr (x, m1)"
      using al' None k_policy unfolding allocate_def node_physical_alloc_def Let_def rnd
      by (auto simp: pinfo res_elims)
    show ?thesis
    proof (cases x)
      case None
      then have "m1 = m" using sb by (auto simp: sbrk_def res_elims Let_def split: if_splits)
      with None \<open>find_free_block t n DEFAULT_HINT_INFO = None\<close> have "r = None" "t' = t" "m' = m"
        using al' sb k_policy unfolding allocate_def node_physical_alloc_def Let_def rnd by (auto simp: pinfo)
      with ok h show ?thesis by (simp add: klive_def)
    next
      case (Some addr)
      have "?n \<le> NPAGES" "max (k_lfpe m) (ADDR_PAGE (hint DEFAULT_HINT_INFO)) \<le> NPAGES"
        using n(2) ok h by (auto simp: kheap_ok_def DEFAULT_HINT_INFO_def ADDR_PAGE_def less_mult_imp_div_less less_imp_le)
      then obtain b where b: "addr = page_addr b" "max (k_lfpe m) (ADDR_PAGE (hint DEFAULT_HINT_INFO)) \<le> b" "b + ?n < NPAGES"
          "run_ok (k_pt m) ?n b" "kmap_inv m1"
        and out: "\<forall>q. q \<notin> {b..<b + ?n} \<longrightarrow> k_pt m1 q = k_pt m q"
        and ins: "\<forall>q\<in>{b..<b + ?n}. \<exists>f\<in>unused_frames m. k_pt m1 q = FRAME_ID_ADDR f OR (PAGE_PRESENT OR PAGE_WRITE)"
        and lf: "k_lfpe m \<le> k_lfpe m1" "k_lfpe m1 \<le> NPAGES" "unused_frames m1 \<subseteq> unused_frames m"
        using sbrk_kernel_sound [of ?n ?fl "PAGE_PRESENT OR PAGE_WRITE" DEFAULT_HINT_INFO m addr m1] sb Some inv(3) pinfo
        by (auto simp: DEFAULT_HINT_INFO_def)
      have "0 < b" "256 \<le> b" using b(2) ok h by (auto simp: kheap_ok_def)
      have n2: "n + 4095 < W32" using n(2) by simp
      obtain t1 where t1: "allocate n ?i KernelProc DEFAULT_HINT_INFO t m = Inr (Some (page_addr b), t1, m1)" "memtree_inv t1"
        "tree_mapped KernelProc t1 m1" "allocated (page_addr b) n (inorder t) (inorder t1)"
        using allocate_kernel_at [OF inv(1,2) \<open>find_free_block t n DEFAULT_HINT_INFO = None\<close> n(1) n2 pinfo refl _ \<open>0 < b\<close> b(3,4) out ins]
          sb Some b(1) by blast
      have "\<forall>q<256. k_pt m1 q = 0" using out \<open>256 \<le> b\<close> ok h by (auto simp: kheap_ok_def)
      then show ?thesis
        using t1 al' ok h b(5) lf klive_allocated [OF t1(4)] by (auto simp: kheap_ok_def)
    qed
  qed
qed

lemma free_page_low_sound:
  assumes "free_page a KernelProc s = Inr s'" and "a < NPAGES" and "\<And>q. q < 256 \<Longrightarrow> k_pt s q = 0"
  shows "\<exists>v. s' = s\<lparr>frame_rc := (frame_rc s)(0 := v)\<rparr>"
proof -
  have lt: "ADDR_PAGE a < 256" using assms(2) by (simp add: ADDR_PAGE_def less_mult_imp_div_less)
  have z: "pte_frame 0 = 0" by (simp add: pte_frame_def)
  have sys: "a div 4194304 * 1024 + ADDR_PAGE a mod 1024 = ADDR_PAGE a"
    using assms(2) lt by (simp add: ADDR_PAGE_def)
  then show ?thesis
    using assms(1,3) lt z
    by (auto simp: free_page_def pte_frame_PHYS_ADDR free_page_id_def pte_entry_def page_addr_def has_flag_def
        ADDR_PAGE_def Let_def split: if_splits)
qed

lemma free_pages_low_sound:
  assumes "for_n (\<lambda>i. free_page (g i) KernelProc) i n m = Inr m'" and "\<And>i. g i < NPAGES" and "\<And>q. q < 256 \<Longrightarrow> k_pt m q = 0"
  shows "\<exists>v. m' = m\<lparr>frame_rc := (frame_rc m)(0 := v)\<rparr>"
proof (rule for_n_invariant [OF assms(1), where P = "\<lambda>_ s. \<exists>v. s = m\<lparr>frame_rc := (frame_rc m)(0 := v)\<rparr>"])
  show "\<exists>v. m = m\<lparr>frame_rc := (frame_rc m)(0 := v)\<rparr>" by (intro exI [of _ "frame_rc m 0"]) simp
  fix j s s' assume "\<exists>v. s = m\<lparr>frame_rc := (frame_rc m)(0 := v)\<rparr>" and st: "free_page (g j) KernelProc s = Inr s'"
  then obtain v where s: "s = m\<lparr>frame_rc := (frame_rc m)(0 := v)\<rparr>" by blast
  then show "\<exists>v. s' = m\<lparr>frame_rc := (frame_rc m)(0 := v)\<rparr>"
    using free_page_low_sound [OF st assms(2)] assms(3) by auto
qed

lemma tree_mapped_freed:
  assumes "tree_mapped p t m" and "d \<in> set (inorder t)" and "set (used_blocks (inorder t')) \<subseteq> set (inorder t)"
    and "free_addrs (inorder t') \<subseteq> free_addrs (inorder t) \<union> {a_start d..<a_end d}" and "proc_pt m' p = proc_pt m p"
  shows "tree_mapped p t' m'"
  unfolding tree_mapped_def
proof (intro ballI allI impI)
  fix e x assume e: "e \<in> set (inorder t')" and x: "a_start e \<le> x \<and> x < a_end e"
  have "\<exists>e' \<in> set (inorder t). a_start e' \<le> x \<and> x < a_end e'"
  proof (cases "a_used e")
    case True
    then show ?thesis using e x assms(3) by (auto simp: used_blocks_def)
  next
    case False
    then have "x \<in> free_addrs (inorder t')" using e x by (auto simp: free_addrs_def)
    then have "x \<in> free_addrs (inorder t) \<union> {a_start d..<a_end d}" using assms(4) by blast
    then show ?thesis using assms(2) unfolding free_addrs_def by auto
  qed
  with assms(1,5) show "pte_used (proc_pt m' p (x div 4096))" unfolding tree_mapped_def by force
qed

lemma krelease_law:
  assumes ok: "kheap_ok h" and a: "a \<noteq> 0" and rl: "krelease a h = Inr (b, h')"
  shows "kheap_ok h' \<and> (if b then \<exists>xs e ys. klive h = xs @ (a, e) # ys \<and> klive h' = xs @ ys else klive h' = klive h)"
proof -
  obtain t m t' m' where h: "h = (t, m)" "h' = (t', m')" by fastforce
  have inv: "memtree_inv t" "tree_mapped KernelProc t m" "kmap_inv m" "\<And>q. q < 256 \<Longrightarrow> k_pt m q = 0"
    using ok h by (simp_all add: kheap_ok_def)
  obtain st where fr: "memtree_free a KernelProc t m = Inr (st, t', m')" "b = (st = FREE_OK)"
    using rl h by (auto simp: krelease_def res_elims)
  consider "\<forall>d \<in> set (inorder t). a_start d \<noteq> a" | "\<exists>d \<in> set (inorder t). a_start d = a \<and> \<not> a_used d"
    | "\<exists>d \<in> set (inorder t). a_start d = a \<and> a_used d" by blast
  then show ?thesis
  proof cases
    case 3
    from memtree_free_cases(3) [OF inv(1) a this, of KernelProc m]
    obtain path d l r xs ys where at: "subtree_at path t = BNode d l r" and io: "inorder t = xs @ d # ys"
      and d: "a_start d = a" "a_used d"
      and eq: "memtree_free a KernelProc t m = bind_res (free_node KernelProc path t m) (\<lambda>(t1, m1). Inr (FREE_OK, t1, m1))"
      by blast
    have fn: "free_node KernelProc path t m = Inr (t', m')" "st = FREE_OK"
      using fr(1) unfolding eq by (auto simp: res_elims)
    note ft = free_node_tree [OF inv(1) at io fn(1)]
    have "m' = m \<or> (\<exists>s n. for_n (\<lambda>i. free_page (ADDR_PAGE (add32 s i)) KernelProc) 0 n m = Inr m')"
      using fn(1) by (auto simp: free_node_def res_elims Let_def split: if_splits)
    then have "\<exists>v. m' = m\<lparr>frame_rc := (frame_rc m)(0 := v)\<rparr>"
    proof (elim disjE exE)
      assume "m' = m"
      then show ?thesis by (intro exI [of _ "frame_rc m 0"]) simp
    next
      fix s n assume "for_n (\<lambda>i. free_page (ADDR_PAGE (add32 s i)) KernelProc) 0 n m = Inr m'"
      moreover have "ADDR_PAGE (add32 s i) < NPAGES" for i
        using add32_less by (simp add: ADDR_PAGE_def less_mult_imp_div_less)
      ultimately show ?thesis by (rule free_pages_low_sound) (rule inv(4))
    qed
    then obtain v where m': "m' = m\<lparr>frame_rc := (frame_rc m)(0 := v)\<rparr>" by blast
    have "kmap_inv m'" using inv(3) unfolding kmap_inv_def m' FRAME_USED_def by auto
    moreover have "tree_mapped KernelProc t' m'"
      using ft io m' by (intro tree_mapped_freed [OF inv(2), of d]) (auto simp: used_blocks_def)
    moreover have "klive h = map (\<lambda>d. (a_start d, a_end d)) (used_blocks xs) @ (a, a_end d) # map (\<lambda>d. (a_start d, a_end d)) (used_blocks ys)"
      "klive h' = map (\<lambda>d. (a_start d, a_end d)) (used_blocks xs) @ map (\<lambda>d. (a_start d, a_end d)) (used_blocks ys)"
      using ft io d h by (simp_all add: klive_def)
    ultimately show ?thesis
      using ok h m' ft fr(2) fn(2) by (auto simp: kheap_ok_def FRAME_USED_def)
  qed (use ok h fr memtree_free_cases(1,2) [OF inv(1) a, of KernelProc m] in \<open>auto simp: klive_def\<close>)
qed

interpretation kheap: block_allocator kheap_ok klive "kacquire abi" krelease "W32 - 4096" for abi
proof
  fix s assume ok: "kheap_ok s"
  have bo: "blocks_ok (inorder (fst s))" using ok by (simp add: kheap_ok_def memtree_inv_def)
  show "sorted_wrt (\<lambda>x y. snd x \<le> fst y) (klive s)"
    using bo by (auto simp: klive_def used_blocks_def blocks_ok_def sorted_wrt_map intro: sorted_wrt_filter)
  show "fst x < snd x" if "x \<in> set (klive s)" for x
    using bo that by (auto simp: klive_def used_blocks_def blocks_ok_def)
  show "kheap_ok s' \<and> (\<exists>xs ys. klive s = xs @ ys \<and> klive s' = xs @ (a, a + n) # ys)"
    if "0 < n" "n \<le> W32 - 4096" "kacquire abi n s = Inr (Some a, s')" for n a s'
    using kacquire_law [OF ok that] by simp
  show "kheap_ok s' \<and> klive s' = klive s" if "0 < n" "n \<le> W32 - 4096" "kacquire abi n s = Inr (None, s')" for n s'
    using kacquire_law [OF ok that] by simp
  show "kheap_ok s' \<and> (\<exists>xs e ys. klive s = xs @ (a, e) # ys \<and> klive s' = xs @ ys)"
    if "a \<noteq> 0" "krelease a s = Inr (True, s')" for a s'
    using krelease_law [OF ok that] by simp
  show "kheap_ok s' \<and> klive s' = klive s" if "a \<noteq> 0" "krelease a s = Inr (False, s')" for a s'
    using krelease_law [OF ok that] by simp
qed

section \<open>Properties\<close>

text \<open>
  \<open>free\<close> by address: an address at which no block starts is reported as not found and one at which a
  free block starts as a double free, with no change; otherwise the block that starts there leaves the
  blocks in use, all others stay as they are, and free memory grows by no more than that block.
\<close>
theorem free_by_address:
  assumes "memtree_inv t" and "a \<noteq> 0"
  shows "((\<forall>d \<in> set (inorder t). a_start d \<noteq> a) \<longrightarrow> memtree_free a p t m = Inr (NOT_FOUND, t, m)) \<and>
    ((\<exists>d \<in> set (inorder t). a_start d = a \<and> \<not> a_used d) \<longrightarrow> memtree_free a p t m = Inr (DOUBLE_FREE, t, m)) \<and>
    (memtree_free a p t m = Inr (FREE_OK, t', m') \<longrightarrow>
      (\<exists>xs d ys. inorder t = xs @ d # ys \<and> a_start d = a \<and> a_used d \<and> memtree_inv t' \<and>
        used_blocks (inorder t') = used_blocks xs @ used_blocks ys \<and>
        free_addrs (inorder t') \<subseteq> free_addrs (inorder t) \<union> {a_start d..<a_end d}))"
proof (intro conjI impI)
  assume ok: "memtree_free a p t m = Inr (FREE_OK, t', m')"
  then have "\<exists>d \<in> set (inorder t). a_start d = a \<and> a_used d"
    using memtree_free_cases(1,2) [OF assms, of p m] by force
  from memtree_free_cases(3) [OF assms this, of p m] obtain path d l r xs ys where
    at: "subtree_at path t = BNode d l r" and io: "inorder t = xs @ d # ys" and d: "a_start d = a" "a_used d"
    and eq: "memtree_free a p t m = bind_res (free_node p path t m) (\<lambda>(t1, m1). Inr (FREE_OK, t1, m1))" by blast
  have "free_node p path t m = Inr (t', m')" using ok unfolding eq by (auto simp: res_elims)
  from free_node_tree [OF assms(1) at io this] io d
  show "\<exists>xs d ys. inorder t = xs @ d # ys \<and> a_start d = a \<and> a_used d \<and> memtree_inv t' \<and>
      used_blocks (inorder t') = used_blocks xs @ used_blocks ys \<and>
      free_addrs (inorder t') \<subseteq> free_addrs (inorder t) \<union> {a_start d..<a_end d}" by blast
qed (use memtree_free_cases(1,2) [OF assms, of p m] in blast)+

theorem free_by_address_witness:
  "memtree_free 4000 (UserProc 0) demo_tree demo_mem = Inr (NOT_FOUND, demo_tree, demo_mem) \<and>
   memtree_free 4396 (UserProc 0) demo_tree demo_mem = Inr (DOUBLE_FREE, demo_tree, demo_mem)"
  using free_by_address [OF demo_tree_inv, of 4000 "UserProc 0" demo_mem] free_by_address [OF demo_tree_inv, of 4396 "UserProc 0" demo_mem]
  by (auto simp: demo_tree_def)

text \<open>
  \<open>malloca\<close>, the page-aligned allocation, fails for every size below a page: it asks for
  \<^verbatim>\<open>num_pages * size\<close> bytes, which \<open>mmap\<close> refuses unless it is a multiple of the page size.
\<close>
theorem malloca_small_fails:
  assumes "0 < sz" and "sz < 4096"
  shows "malloca abi sz h = Inr (Inl EINVAL, h)"
proof -
  have "ADDR_PAGE (sub32 (add32 sz PAGE_SIZE) 1) = 1"
    using assms round_up_eq [of sz] by (simp add: ADDR_PAGE_def div_nat_eqI)
  then show ?thesis using assms by (simp add: malloca_def mmap_def mul32_def Let_def)
qed

theorem malloca_small_fails_witness:
  "malloca demo_abi 100 \<lparr>trees = (\<lambda>_. Null), kmem_of = demo_mem\<rparr> = Inr (Inl EINVAL, \<lparr>trees = (\<lambda>_. Null), kmem_of = demo_mem\<rparr>)"
  by (rule malloca_small_fails) simp_all

end
