(* ===== verification/Slab.thy ===== *)
theory Slab
  imports Paging
begin

text \<open>
  The slab allocator (\<^verbatim>\<open>src/kernel/core/SlabAllocator.h\<close>, \<^verbatim>\<open>SlabAllocator.hxx\<close>, \<^verbatim>\<open>SlabAlloc.h\<close>), which gives out objects of one size: the
  nodes of the allocation tree, and small buffers in powers of two. A page holds a header and an array of slots; the free slots of a page are
  linked, and so are the headers of the empty, the partly used and the full pages. The state keeps the headers and the links by their
  address; pages come from \<open>get_free_pe\<close> and \<open>allocate_page\<close>.
\<close>

section \<open>Model\<close>

text \<open>\<^verbatim>\<open>sizeof(alloc)\<close> for an object of \<open>n\<close> bytes with an alignment of at most four, and the number of slots behind the header of twelve bytes.\<close>

definition alloc_size :: "nat \<Rightarrow> nat" where
  "alloc_size n = (n + 3) div 4 * 4 + 4"

definition max_allocs_per_page :: "nat \<Rightarrow> nat" where
  "max_allocs_per_page n = (PAGE_SIZE - 12) div alloc_size n"

record page_header =
  next_page_hdr :: "nat option"
  freep :: "nat option"
  num_free_allocs :: nat

text \<open>The global header, and the contents of the pages: their headers, and the links in free slots. \<open>allocator\<close> is the instance.\<close>

record slab =
  empty_pages :: "nat option"
  partial_pages :: "nat option"
  full_pages :: "nat option"
  num_empty_pages :: nat
  page_hdrs :: "nat \<Rightarrow> page_header"
  alloc_next :: "nat \<Rightarrow> nat option"
  allocator :: "nat option"

definition slot :: "nat \<Rightarrow> nat \<Rightarrow> nat \<Rightarrow> nat" where
  "slot n h i = h + 12 + i * alloc_size n"

definition set_hdr :: "nat \<Rightarrow> (page_header \<Rightarrow> page_header) \<Rightarrow> slab \<Rightarrow> slab" where
  "set_hdr h f s = s\<lparr>page_hdrs := (page_hdrs s)(h := f (page_hdrs s h))\<rparr>"

definition get_new_page :: "nat \<Rightarrow> slab \<Rightarrow> kmem \<Rightarrow> (nat \<times> slab \<times> kmem) res" where
  "get_new_page n s m =
     (let (pe, m1) = get_free_pe m; addr = page_addr pe; k = max_allocs_per_page n in
      bind_res (allocate_page pe DEFAULT_K_POLICY m1) (\<lambda>m2.
        let links = (\<lambda>a. if \<exists>i < k - 1. a = slot n addr i then Some (a + alloc_size n)
                         else if a = slot n addr (k - 1) then None else alloc_next s a);
            hdr = \<lparr>next_page_hdr = empty_pages s, freep = Some (slot n addr 0), num_free_allocs = k\<rparr> in
        Inr (addr, s\<lparr>alloc_next := links, page_hdrs := (page_hdrs s)(addr := hdr), empty_pages := Some addr,
          num_empty_pages := add32 (num_empty_pages s) 1\<rparr>, m2)))"

definition no_hdr :: page_header where
  "no_hdr = \<lparr>next_page_hdr = None, freep = None, num_free_allocs = 0\<rparr>"

definition empty_slab :: slab where
  "empty_slab = \<lparr>empty_pages = None, partial_pages = None, full_pages = None, num_empty_pages = 0, page_hdrs = (\<lambda>_. no_hdr), alloc_next = (\<lambda>_. None), allocator = None\<rparr>"

text \<open>The instance and its global header are put into a page of their own at the first call.\<close>

definition get_instance :: "slab \<Rightarrow> kmem \<Rightarrow> (slab \<times> kmem) res" where
  "get_instance s m =
     (if allocator s \<noteq> None then Inr (s, m)
      else let (pe, m1) = get_free_pe m in
        bind_res (allocate_page pe DEFAULT_K_POLICY m1) (\<lambda>m2.
          Inr (s\<lparr>allocator := Some (page_addr pe), empty_pages := None, partial_pages := None, full_pages := None, num_empty_pages := 0\<rparr>, m2)))"

text \<open>The first page of the list of empty pages becomes the first of the partly used ones.\<close>

definition open_page :: "nat \<Rightarrow> slab \<Rightarrow> slab" where
  "open_page h s =
     (let s1 = s\<lparr>empty_pages := next_page_hdr (page_hdrs s h)\<rparr>;
          s2 = set_hdr h (\<lambda>p. p\<lparr>next_page_hdr := partial_pages s1\<rparr>) s1 in
      s2\<lparr>partial_pages := Some h, num_empty_pages := sub32 (num_empty_pages s2) 1\<rparr>)"

text \<open>A slot is taken from the page; when it was the last one, the first page of the partly used ones goes out of their list.\<close>

definition take_slot :: "nat \<Rightarrow> slab \<Rightarrow> (nat \<times> slab) res" where
  "take_slot h s =
     (case freep (page_hdrs s h) of
        None \<Rightarrow> Inl NullDeref
      | Some a \<Rightarrow>
          let s1 = set_hdr h (\<lambda>p. p\<lparr>freep := alloc_next s a, num_free_allocs := sub32 (num_free_allocs p) 1\<rparr>) s in
          if num_free_allocs (page_hdrs s1 h) = 0
          then (case partial_pages s1 of
                  None \<Rightarrow> Inl NullDeref
                | Some q \<Rightarrow>
                    let s2 = s1\<lparr>partial_pages := next_page_hdr (page_hdrs s1 q)\<rparr>;
                        s3 = set_hdr h (\<lambda>p. p\<lparr>next_page_hdr := full_pages s2\<rparr>) s2 in
                    Inr (a, s3\<lparr>full_pages := Some h\<rparr>))
          else Inr (a, s1))"

definition slab_alloc :: "nat \<Rightarrow> slab \<Rightarrow> kmem \<Rightarrow> (nat \<times> slab \<times> kmem) res" where
  "slab_alloc n s m =
     bind_res
       (case partial_pages s of
          Some h \<Rightarrow> Inr (h, s, m)
        | None \<Rightarrow> (case empty_pages s of Some h \<Rightarrow> Inr (h, s, m) | None \<Rightarrow> get_new_page n s m))
       (\<lambda>(h, s1, m1).
         let s2 = (if Some h = empty_pages s1 then open_page h s1 else s1) in
         bind_res (take_slot h s2) (\<lambda>(a, s3). Inr (a, s3, m1)))"

definition slab_free :: "nat \<Rightarrow> nat \<Rightarrow> slab \<Rightarrow> kmem \<Rightarrow> (slab \<times> kmem) res" where
  "slab_free n t s m =
     (let h = t div 4096 * 4096;
          s1 = s\<lparr>alloc_next := (alloc_next s)(t := freep (page_hdrs s h))\<rparr>;
          s2 = set_hdr h (\<lambda>p. p\<lparr>freep := Some t, num_free_allocs := add32 (num_free_allocs p) 1\<rparr>) s1 in
      if num_free_allocs (page_hdrs s2 h) = max_allocs_per_page n
      then (case partial_pages s2 of
              None \<Rightarrow> Inl NullDeref
            | Some q \<Rightarrow>
                let s3 = s2\<lparr>partial_pages := next_page_hdr (page_hdrs s2 q)\<rparr>;
                    s4 = set_hdr h (\<lambda>p. p\<lparr>next_page_hdr := empty_pages s3\<rparr>) s3;
                    s5 = s4\<lparr>empty_pages := Some h, num_empty_pages := add32 (num_empty_pages s4) 1\<rparr> in
                if num_empty_pages s5 > 2
                then bind_res (free_page_id (ADDR_PAGE h) m) (\<lambda>m1. Inr (s5\<lparr>empty_pages := next_page_hdr (page_hdrs s5 h)\<rparr>, m1))
                else Inr (s5, m))
      else Inr (s2, m))"

subsection \<open>Small buffers\<close>

text \<open>
  \<^verbatim>\<open>__builtin_clz\<close>, whose result for zero is undefined; it is the parameter \<open>clz0\<close>. There are eight buckets, of \<open>2 ^ 0\<close> to \<open>2 ^ 7\<close> bytes.
\<close>

fun bit_len :: "nat \<Rightarrow> nat" where
  "bit_len x = (if x = 0 then 0 else Suc (bit_len (x div 2)))"

declare bit_len.simps [simp del]

definition clz :: "nat \<Rightarrow> nat \<Rightarrow> nat" where
  "clz clz0 x = (if x = 0 then clz0 else 32 - bit_len x)"

definition p2 :: "nat \<Rightarrow> nat \<Rightarrow> nat" where
  "p2 clz0 x = (if x = 1 then 1 else 2 ^ (32 - clz clz0 (sub32 x 1)) mod W32)"

abbreviation N_BUCKETS :: nat where "N_BUCKETS \<equiv> 8"

definition bucket_index :: "nat \<Rightarrow> nat \<Rightarrow> nat" where
  "bucket_index clz0 sz = 32 - clz clz0 (sub32 (p2 clz0 sz) 1)"

text \<open>Where a buffer comes from: \<^verbatim>\<open>malloc\<close>, or the slab allocator for objects of so many bytes.\<close>

datatype buffer_source = FromMalloc | FromBucket nat

definition slab_allocate_source :: "nat \<Rightarrow> nat \<Rightarrow> buffer_source" where
  "slab_allocate_source clz0 sz =
     (let idx = bucket_index clz0 sz in if idx \<ge> N_BUCKETS then FromMalloc else FromBucket (2 ^ idx))"

text \<open>What \<^verbatim>\<open>slab_deallocate\<close> gives a buffer to, one after the other: there is no return after the call of \<^verbatim>\<open>free\<close>.\<close>

definition slab_deallocate_calls :: "nat \<Rightarrow> nat \<Rightarrow> buffer_source list \<times> unit res" where
  "slab_deallocate_calls clz0 sz =
     (let idx = bucket_index clz0 sz; first = (if idx \<ge> N_BUCKETS then [FromMalloc] else []) in
      if idx < N_BUCKETS then (first @ [FromBucket (2 ^ idx)], Inr ()) else (first, Inl OutOfBounds))"

section \<open>Lists of pages and slots\<close>

fun linked :: "(nat \<Rightarrow> nat option) \<Rightarrow> nat option \<Rightarrow> nat list \<Rightarrow> bool" where
  "linked nxt p [] \<longleftrightarrow> p = None"
| "linked nxt p (x # xs) \<longleftrightarrow> p = Some x \<and> linked nxt (nxt x) xs"

lemma linked_cong: "(\<And>x. x \<in> set xs \<Longrightarrow> nxt x = nxt' x) \<Longrightarrow> linked nxt p xs = linked nxt' p xs"
  by (induction xs arbitrary: p) auto

definition slots :: "nat \<Rightarrow> nat \<Rightarrow> nat set" where
  "slots n h = slot n h ` {..<max_allocs_per_page n}"

lemma alloc_size_pos [simp]: "0 < alloc_size n"
  by (simp add: alloc_size_def)

lemma slot_bounds:
  assumes "i < max_allocs_per_page n"
  shows "h + 12 \<le> slot n h i" and "slot n h i + alloc_size n \<le> h + 4096"
proof -
  have "Suc i * alloc_size n \<le> (4084 div alloc_size n) * alloc_size n"
    using assms by (intro mult_right_mono) (auto simp: max_allocs_per_page_def)
  then have "Suc i * alloc_size n \<le> 4084" using div_times_less_eq_dividend [of 4084 "alloc_size n"] by linarith
  then show "slot n h i + alloc_size n \<le> h + 4096" by (simp add: slot_def)
qed (simp add: slot_def)

lemma slot_page: "h mod 4096 = 0 \<Longrightarrow> a \<in> slots n h \<Longrightarrow> a div 4096 * 4096 = h"
proof -
  assume h: "h mod 4096 = 0" and "a \<in> slots n h"
  then obtain i where i: "i < max_allocs_per_page n" "a = slot n h i" by (auto simp: slots_def)
  have "h \<le> a" "a < h + 4096" using slot_bounds [OF i(1), of h] i(2) by (auto simp: alloc_size_def)
  moreover obtain q where q: "h = q * 4096" using h by (metis add.right_neutral div_mult_mod_eq)
  ultimately have "a div 4096 = q" by (intro div_nat_eqI) auto
  then show ?thesis using q by simp
qed

lemma slots_disjoint: "h mod 4096 = 0 \<Longrightarrow> k mod 4096 = 0 \<Longrightarrow> h \<noteq> k \<Longrightarrow> slots n h \<inter> slots n k = {}"
  using slot_page by (metis disjoint_iff)

lemma slot_inj: "slot n h i = slot n h j \<longleftrightarrow> i = j"
  by (simp add: slot_def alloc_size_def)

text \<open>
  The lists of pages \<open>es\<close>, \<open>ps\<close> and \<open>fs\<close> with the free slots \<open>fl h\<close> of every page. \<open>slab_ok n U s m\<close>: the slots that are not free are those in \<open>U\<close>, and
  the pages are mapped.
\<close>

definition page_ok :: "nat \<Rightarrow> slab \<Rightarrow> nat list \<Rightarrow> nat \<Rightarrow> bool" where
  "page_ok n s l h \<longleftrightarrow> h mod 4096 = 0 \<and> h < W32 \<and> linked (alloc_next s) (freep (page_hdrs s h)) l \<and> distinct l \<and> set l \<subseteq> slots n h \<and>
     num_free_allocs (page_hdrs s h) = length l"

definition slab_rep :: "nat \<Rightarrow> slab \<Rightarrow> nat list \<Rightarrow> nat list \<Rightarrow> nat list \<Rightarrow> (nat \<Rightarrow> nat list) \<Rightarrow> bool" where
  "slab_rep n s es ps fs fl \<longleftrightarrow>
     linked (\<lambda>h. next_page_hdr (page_hdrs s h)) (empty_pages s) es \<and> linked (\<lambda>h. next_page_hdr (page_hdrs s h)) (partial_pages s) ps \<and>
     linked (\<lambda>h. next_page_hdr (page_hdrs s h)) (full_pages s) fs \<and> distinct (es @ ps @ fs) \<and> num_empty_pages s = length es \<and>
     (\<forall>h \<in> set (es @ ps @ fs). page_ok n s (fl h) h) \<and> (\<forall>h \<in> set es. length (fl h) = max_allocs_per_page n) \<and> (\<forall>h \<in> set ps. fl h \<noteq> []) \<and> (\<forall>h \<in> set fs. fl h = [])"

definition used_slots :: "nat \<Rightarrow> nat list \<Rightarrow> (nat \<Rightarrow> nat list) \<Rightarrow> nat set" where
  "used_slots n hs fl = (\<Union>h \<in> set hs. slots n h - set (fl h))"

definition slab_ok :: "nat \<Rightarrow> nat set \<Rightarrow> slab \<Rightarrow> kmem \<Rightarrow> bool" where
  "slab_ok n U s m \<longleftrightarrow> (\<exists>es ps fs fl. slab_rep n s es ps fs fl \<and> U = used_slots n (es @ ps @ fs) fl \<and> (\<forall>h \<in> set (es @ ps @ fs). pte_used (k_pt m (h div 4096))))"

lemma set_hdr_simps [simp]:
  "page_hdrs (set_hdr h f s) = (page_hdrs s)(h := f (page_hdrs s h))" "empty_pages (set_hdr h f s) = empty_pages s" "partial_pages (set_hdr h f s) = partial_pages s"
  "full_pages (set_hdr h f s) = full_pages s" "num_empty_pages (set_hdr h f s) = num_empty_pages s" "alloc_next (set_hdr h f s) = alloc_next s" "allocator (set_hdr h f s) = allocator s"
  by (simp_all add: set_hdr_def)

section \<open>Taking a slot\<close>

lemma page_ok_other: "page_ok n s l k \<Longrightarrow> k \<noteq> h \<Longrightarrow> page_ok n (set_hdr h f s) l k"
  by (simp add: page_ok_def)

text \<open>The fields that a page does not depend on.\<close>

lemma page_ok_cong:
  assumes "page_hdrs s' h = page_hdrs s h" and "alloc_next s' = alloc_next s"
  shows "page_ok n s' l h = page_ok n s l h"
  by (simp add: page_ok_def assms)

lemma next_hdr_other:
  "h \<notin> set xs \<Longrightarrow> linked (\<lambda>k. next_page_hdr (((page_hdrs s)(h := p)) k)) q xs = linked (\<lambda>k. next_page_hdr (page_hdrs s k)) q xs"
  "h \<notin> set xs \<Longrightarrow> linked (\<lambda>k. next_page_hdr (if k = h then p else page_hdrs s k)) q xs = linked (\<lambda>k. next_page_hdr (page_hdrs s k)) q xs"
  by (rule linked_cong; auto)+

lemma page_ok_take:
  assumes "page_ok n s (a # l) h"
  shows "page_ok n (set_hdr h (\<lambda>p. p\<lparr>freep := alloc_next s a, num_free_allocs := sub32 (num_free_allocs p) 1\<rparr>) s) l h" and "freep (page_hdrs s h) = Some a"
    and "sub32 (num_free_allocs (page_hdrs s h)) 1 = length l"
proof -
  have "card (set (a # l)) \<le> card (slots n h)" using assms by (intro card_mono) (auto simp: page_ok_def slots_def)
  moreover have "card (set (a # l)) = Suc (length l)" using assms distinct_card [of "a # l"] by (simp add: page_ok_def)
  moreover have "card (slots n h) \<le> max_allocs_per_page n" using card_image_le [of "{..<max_allocs_per_page n}" "slot n h"] by (simp add: slots_def)
  moreover have "max_allocs_per_page n \<le> 4084" by (simp add: max_allocs_per_page_def)
  ultimately have "Suc (length l) < W32" by simp
  then show "sub32 (num_free_allocs (page_hdrs s h)) 1 = length l" using assms by (simp add: page_ok_def sub32_eq)
  then show "page_ok n (set_hdr h (\<lambda>p. p\<lparr>freep := alloc_next s a, num_free_allocs := sub32 (num_free_allocs p) 1\<rparr>) s) l h" using assms by (simp add: page_ok_def)
  show "freep (page_hdrs s h) = Some a" using assms by (simp add: page_ok_def)
qed

lemma take_slot_ok:
  assumes rep: "slab_rep n s es (h # ps) fs fl" and fl: "fl h = a # l"
  shows "\<exists>s'. take_slot h s = Inr (a, s') \<and> allocator s' = allocator s \<and>
    slab_rep n s' es (if l = [] then ps else h # ps) (if l = [] then h # fs else fs) (fl(h := l))"
proof -
  let ?f = "\<lambda>p. p\<lparr>freep := alloc_next s a, num_free_allocs := sub32 (num_free_allocs p) 1\<rparr>"
  let ?s = "set_hdr h ?f s"
  have h: "page_ok n s (a # l) h" and dis: "distinct (es @ (h # ps) @ fs)" using rep fl by (auto simp: slab_rep_def)
  then have nh: "h \<notin> set es" "h \<notin> set ps" "h \<notin> set fs" by auto
  note t = page_ok_take [OF h]
  have pages: "page_ok n ?s ((fl(h := l)) k) k" if "k \<in> set (es @ (h # ps) @ fs)" for k
    using that rep t(1) page_ok_other [of n s "fl k" k h ?f] by (cases "k = h") (auto simp: slab_rep_def)
  show ?thesis
  proof (cases "l = []")
    case False
    then have "take_slot h s = Inr (a, ?s)" using t(2,3) by (simp add: take_slot_def Let_def)
    moreover have "slab_rep n ?s es (h # ps) fs (fl(h := l))"
      using rep pages nh False by (auto simp: slab_rep_def next_hdr_other)
    ultimately show ?thesis using False by simp
  next
    case True
    let ?s' = "(set_hdr h (\<lambda>p. p\<lparr>next_page_hdr := full_pages s\<rparr>) (?s\<lparr>partial_pages := next_page_hdr (page_hdrs s h)\<rparr>))\<lparr>full_pages := Some h\<rparr>"
    have "partial_pages s = Some h" using rep by (simp add: slab_rep_def)
    then have "take_slot h s = Inr (a, ?s')" using t(2,3) True by (simp add: take_slot_def Let_def)
    moreover have "page_ok n ?s' ((fl(h := l)) k) k" if "k \<in> set (es @ (h # ps) @ fs)" for k
      using pages [OF that] by (auto simp: page_ok_def)
    then have "slab_rep n ?s' es ps (h # fs) (fl(h := l))"
      using rep nh True by (auto simp: slab_rep_def next_hdr_other)
    ultimately show ?thesis using True by simp
  qed
qed

lemma open_page_ok:
  assumes rep: "slab_rep n s (h # es) [] fs fl" and n: "0 < max_allocs_per_page n" and len: "length es < W32 - 1"
  shows "slab_rep n (open_page h s) es [h] fs fl" and "allocator (open_page h s) = allocator s"
proof -
  have nh: "h \<notin> set es" "h \<notin> set fs" using rep by (auto simp: slab_rep_def)
  have "page_ok n (open_page h s) (fl k) k" if "k \<in> set (es @ [h] @ fs)" for k
    using rep that by (auto simp: slab_rep_def open_page_def page_ok_def Let_def)
  moreover have "sub32 (num_empty_pages s) 1 = length es" using rep len by (simp add: slab_rep_def sub32_eq)
  moreover have "fl h \<noteq> []" using rep n by (auto simp: slab_rep_def)
  ultimately show "slab_rep n (open_page h s) es [h] fs fl"
    using rep nh by (auto simp: slab_rep_def open_page_def Let_def next_hdr_other)
  show "allocator (open_page h s) = allocator s" by (simp add: open_page_def Let_def)
qed

text \<open>The slots of a new page are linked in the order of their addresses.\<close>

lemma linked_slots:
  assumes "\<And>i. i < k - 1 \<Longrightarrow> nxt (slot n h i) = Some (slot n h (Suc i))" and "0 < k \<Longrightarrow> nxt (slot n h (k - 1)) = None" and "j \<le> k"
  shows "linked nxt (if j < k then Some (slot n h j) else None) (map (slot n h) [j..<k])"
  using assms(3)
proof (induction "k - j" arbitrary: j)
  case (Suc d)
  then have j: "j < k" "[j..<k] = j # [Suc j..<k]" by (auto simp: upt_conv_Cons)
  have "nxt (slot n h j) = (if Suc j < k then Some (slot n h (Suc j)) else None)"
  proof (cases "Suc j < k")
    case False
    then have "k - 1 = j" using j(1) by simp
    then show ?thesis using assms(2) j(1) False by simp
  qed (use assms(1) [of j] in simp)
  moreover have "linked nxt (if Suc j < k then Some (slot n h (Suc j)) else None) (map (slot n h) [Suc j..<k])"
    by (rule Suc.hyps(1)) (use Suc.hyps(2) j(1) in auto)
  ultimately show ?case using j by simp
qed simp

lemma get_new_page_ok:
  assumes rep: "slab_rep n s es ps fs fl" and n: "0 < max_allocs_per_page n" and len: "Suc (length es) < W32"
    and m1: "get_free_pe m = (pe, m1)" and m2: "allocate_page pe DEFAULT_K_POLICY m1 = Inr m2" and new: "page_addr pe \<notin> set (es @ ps @ fs)"
  shows "\<exists>s' fl'. get_new_page n s m = Inr (page_addr pe, s', m2) \<and> allocator s' = allocator s \<and> slab_rep n s' (page_addr pe # es) ps fs fl' \<and>
    set (fl' (page_addr pe)) = slots n (page_addr pe) \<and> (\<forall>k \<in> set (es @ ps @ fs). fl' k = fl k)"
proof -
  let ?h = "page_addr pe" and ?k = "max_allocs_per_page n"
  let ?links = "\<lambda>a. if \<exists>i < ?k - 1. a = slot n ?h i then Some (a + alloc_size n) else if a = slot n ?h (?k - 1) then None else alloc_next s a"
  let ?hdr = "\<lparr>next_page_hdr = empty_pages s, freep = Some (slot n ?h 0), num_free_allocs = ?k\<rparr>"
  let ?s = "s\<lparr>alloc_next := ?links, page_hdrs := (page_hdrs s)(?h := ?hdr), empty_pages := Some ?h, num_empty_pages := add32 (num_empty_pages s) 1\<rparr>"
  let ?l = "map (slot n ?h) [0..<?k]"
  have al: "?h mod 4096 = 0" "?h < W32" by (simp_all add: page_addr_def mod_mod_cancel)
  have step: "slot n ?h i + alloc_size n = slot n ?h (Suc i)" for i by (simp add: slot_def)
  have "linked ?links (if 0 < ?k then Some (slot n ?h 0) else None) ?l"
    by (rule linked_slots) (auto simp: slot_inj step)
  then have hp: "page_ok n ?s ?l ?h" using n al by (auto simp: page_ok_def slots_def distinct_map inj_on_def slot_inj)
  have old: "page_ok n ?s (fl k) k" if "k \<in> set (es @ ps @ fs)" for k
  proof -
    have ok: "page_ok n s (fl k) k" and ne: "k \<noteq> ?h" using that rep new by (auto simp: slab_rep_def)
    have "?links a = alloc_next s a" if "a \<in> set (fl k)" for a
    proof -
      have "a \<in> slots n k" using that ok by (auto simp: page_ok_def)
      then have "a \<notin> slots n ?h" using slots_disjoint [of k ?h n] ok al(1) ne by (auto simp: page_ok_def)
      then show ?thesis using n by (auto simp: slots_def)
    qed
    then have "linked ?links q (fl k) = linked (alloc_next s) q (fl k)" for q by (rule linked_cong)
    then show ?thesis using ok ne by (simp add: page_ok_def)
  qed
  have "add32 (num_empty_pages s) 1 = Suc (length es)" using rep len by (simp add: slab_rep_def add32_eq)
  then have "slab_rep n ?s (?h # es) ps fs (fl(?h := ?l))"
    using rep new hp old by (auto simp: slab_rep_def next_hdr_other)
  moreover have "set ?l = slots n ?h" by (auto simp: slots_def)
  moreover have "get_new_page n s m = Inr (?h, ?s, m2)" using m1 m2 by (simp add: get_new_page_def Let_def)
  ultimately show ?thesis using new by (intro exI [of _ ?s] exI [of _ "fl(?h := ?l)"]) auto
qed

text \<open>There are at most as many pages as the address space has.\<close>

lemma slab_pages_bound:
  assumes "slab_rep n s es ps fs fl"
  shows "Suc (length es) < W32"
proof -
  have "h \<in> (\<lambda>q. q * 4096) ` {..<1048576}" if "h \<in> set es" for h
  proof -
    have "h mod 4096 = 0" "h < W32" using that assms by (auto simp: slab_rep_def page_ok_def)
    then have "h = h div 4096 * 4096" "h div 4096 < 1048576" by auto
    then show ?thesis by blast
  qed
  then have "card (set es) \<le> card ((\<lambda>q. q * 4096) ` {..<1048576 :: nat})" by (intro card_mono) auto
  also have "\<dots> \<le> 1048576" using card_image_le [of "{..<1048576 :: nat}" "\<lambda>q. q * 4096"] by simp
  finally show ?thesis using assms distinct_card [of es] by (simp add: slab_rep_def)
qed

lemma used_slots_take:
  assumes "distinct hs" and "h \<in> set hs" and "fl h = a # l" and "distinct (a # l)" and "a \<in> slots n h" and "\<forall>k \<in> set hs. k mod 4096 = 0" and "set hs' = set hs"
  shows "used_slots n hs' (fl(h := l)) = insert a (used_slots n hs fl)" and "a \<notin> used_slots n hs fl"
proof -
  have split: "used_slots n hs g = (slots n h - set (g h)) \<union> (\<Union>k \<in> set hs - {h}. slots n k - set (g k))" for g using assms(2) by (auto simp: used_slots_def)
  have "slots n h - set l = insert a (slots n h - set (fl h))" using assms(3-5) by auto
  moreover have "(\<Union>k \<in> set hs - {h}. slots n k - set ((fl(h := l)) k)) = (\<Union>k \<in> set hs - {h}. slots n k - set (fl k))" by auto
  moreover have "used_slots n hs' (fl(h := l)) = used_slots n hs (fl(h := l))" using assms(7) by (simp add: used_slots_def)
  ultimately show "used_slots n hs' (fl(h := l)) = insert a (used_slots n hs fl)" using split [of fl] split [of "fl(h := l)"] by simp
  have "a \<notin> slots n k" if "k \<in> set hs" "k \<noteq> h" for k using slots_disjoint [of h k n] that assms(2,5,6) by auto
  then have "a \<notin> slots n k - set (fl k)" if "k \<in> set hs" for k using that assms(3) by (cases "k = h") auto
  then show "a \<notin> used_slots n hs fl" by (auto simp: used_slots_def)
qed

text \<open>An allocation from a page that has a free slot.\<close>

definition has_room :: "slab \<Rightarrow> bool" where
  "has_room s \<longleftrightarrow> partial_pages s \<noteq> None \<or> empty_pages s \<noteq> None"

definition slot_in :: "nat \<Rightarrow> kmem \<Rightarrow> nat \<Rightarrow> bool" where
  "slot_in n m a \<longleftrightarrow> (\<exists>h i. h mod 4096 = 0 \<and> i < max_allocs_per_page n \<and> a = slot n h i \<and> pte_used (k_pt m (h div 4096)))"

text \<open>\<open>k\<close> slots can be given out before a page has to be taken.\<close>

definition slab_spare :: "nat \<Rightarrow> nat set \<Rightarrow> nat \<Rightarrow> slab \<Rightarrow> kmem \<Rightarrow> bool" where
  "slab_spare n U k s m \<longleftrightarrow> (\<exists>es ps fs fl. slab_rep n s es ps fs fl \<and> U = used_slots n (es @ ps @ fs) fl \<and> (\<forall>h \<in> set (es @ ps @ fs). pte_used (k_pt m (h div 4096))) \<and>
     k \<le> (\<Sum>h \<in> set (es @ ps). length (fl h)))"

lemma slab_spare_ok: "slab_spare n U k s m \<Longrightarrow> slab_ok n U s m"
  unfolding slab_spare_def slab_ok_def by blast

lemma slab_spare_0: "slab_ok n U s m \<Longrightarrow> slab_spare n U 0 s m"
  unfolding slab_spare_def slab_ok_def by blast

lemma slab_spare_room: "slab_spare n U (Suc k) s m \<Longrightarrow> has_room s"
proof -
  assume "slab_spare n U (Suc k) s m"
  then obtain es ps fs fl where r: "slab_rep n s es ps fs fl" "Suc k \<le> (\<Sum>h \<in> set (es @ ps). length (fl h))" unfolding slab_spare_def by blast
  then have "es \<noteq> [] \<or> ps \<noteq> []" by auto
  then show ?thesis using r(1) by (cases es; cases ps) (auto simp: slab_rep_def has_room_def)
qed

lemma slab_rep_choose:
  assumes rep: "slab_rep n s es ps fs fl" and n: "0 < max_allocs_per_page n" and room: "has_room s"
  obtains h s2 es' ps' where "(case partial_pages s of Some h \<Rightarrow> Inr (h, s, m) | None \<Rightarrow> (case empty_pages s of Some h \<Rightarrow> Inr (h, s, m) | None \<Rightarrow> get_new_page n s m)) = Inr (h, s, m)"
    and "(if Some h = empty_pages s then open_page h s else s) = s2" and "slab_rep n s2 es' (h # ps') fs fl" and "set (es' @ h # ps') = set (es @ ps)" and "allocator s2 = allocator s"
proof (cases ps)
  case (Cons h ps')
  then have "partial_pages s = Some h" "Some h \<noteq> empty_pages s" using rep by (cases es; auto simp: slab_rep_def)+
  then show ?thesis using that [of h s es ps'] rep Cons by simp
next
  case Nil
  then have p: "partial_pages s = None" using rep by (simp add: slab_rep_def)
  then obtain h es' where e: "es = h # es'" "empty_pages s = Some h" using rep room by (cases es) (auto simp: slab_rep_def has_room_def)
  have "length es' < W32 - 1" using slab_pages_bound [OF rep] e by simp
  then show ?thesis using that [of h "open_page h s" es' "[]"] p e open_page_ok [of n s h es' fs fl] rep Nil n by simp
qed

lemma slab_alloc_spare:
  assumes ok: "slab_spare n U k s m" and n: "0 < max_allocs_per_page n" and room: "has_room s"
  shows "\<exists>a s'. slab_alloc n s m = Inr (a, s', m) \<and> a \<notin> U \<and> slab_spare n (insert a U) (k - 1) s' m \<and> allocator s' = allocator s \<and> slot_in n m a"
proof -
  obtain es ps fs fl where rep: "slab_rep n s es ps fs fl" and U: "U = used_slots n (es @ ps @ fs) fl" and mp: "\<forall>h \<in> set (es @ ps @ fs). pte_used (k_pt m (h div 4096))"
      and k: "k \<le> (\<Sum>h \<in> set (es @ ps). length (fl h))"
    using ok by (auto simp: slab_spare_def)
  obtain h s2 es' ps' where c: "(case partial_pages s of Some h \<Rightarrow> Inr (h, s, m) | None \<Rightarrow> (case empty_pages s of Some h \<Rightarrow> Inr (h, s, m) | None \<Rightarrow> get_new_page n s m)) = Inr (h, s, m)"
      "(if Some h = empty_pages s then open_page h s else s) = s2" "slab_rep n s2 es' (h # ps') fs fl" "set (es' @ h # ps') = set (es @ ps)" "allocator s2 = allocator s"
    by (rule slab_rep_choose [OF rep n room, of m])
  obtain a l where fl: "fl h = a # l" using c(3) by (cases "fl h") (auto simp: slab_rep_def)
  obtain s3 where s3: "take_slot h s2 = Inr (a, s3)" "allocator s3 = allocator s2"
      "slab_rep n s3 es' (if l = [] then ps' else h # ps') (if l = [] then h # fs else fs) (fl(h := l))"
    using take_slot_ok [OF c(3) fl] by blast
  let ?ps = "if l = [] then ps' else h # ps'" and ?fs = "if l = [] then h # fs else fs"
  have al: "slab_alloc n s m = Inr (a, s3, m)" using c(1,2) s3(1) by (simp add: slab_alloc_def Let_def)
  have hh: "h \<in> set (es @ ps @ fs)" using c(4) by auto
  have pg: "page_ok n s (fl k) k" if "k \<in> set (es @ ps @ fs)" for k using rep that by (simp add: slab_rep_def)
  have a: "a \<in> slots n h" "distinct (a # l)" using pg [OF hh] fl by (auto simp: page_ok_def)
  have sets: "set (es' @ ?ps @ ?fs) = set (es @ ps @ fs)" using c(4) by auto
  have "distinct (es @ ps @ fs)" using rep by (simp add: slab_rep_def)
  moreover have "\<forall>k \<in> set (es @ ps @ fs). k mod 4096 = 0" using pg by (auto simp: page_ok_def)
  ultimately have u: "used_slots n (es' @ ?ps @ ?fs) (fl(h := l)) = insert a U" "a \<notin> U"
    using used_slots_take [of "es @ ps @ fs" h fl a l n "es' @ ?ps @ ?fs"] hh fl a sets U by auto
  have "k - 1 \<le> (\<Sum>h' \<in> set (es' @ ?ps). length ((fl(h := l)) h'))"
  proof -
    have d: "h \<notin> set es'" "h \<notin> set ps'" using c(3) by (auto simp: slab_rep_def)
    have "(\<Sum>h' \<in> set (es @ ps). length (fl h')) = Suc (length l) + (\<Sum>h' \<in> set es' \<union> set ps'. length (fl h'))"
      using c(4) [symmetric] d fl by simp
    moreover have "(\<Sum>h' \<in> set es' \<union> set ps'. length ((fl(h := l)) h')) = (\<Sum>h' \<in> set es' \<union> set ps'. length (fl h'))" using d by (intro sum.cong) auto
    ultimately show ?thesis using k d by (cases "l = []") auto
  qed
  then have "slab_spare n (insert a U) (k - 1) s3 m" unfolding slab_spare_def using s3(3) u(1) mp sets by metis
  moreover obtain i where i: "i < max_allocs_per_page n" "a = slot n h i" using a(1) by (auto simp: slots_def)
  have "h mod 4096 = 0" "pte_used (k_pt m (h div 4096))" using pg [OF hh] mp hh by (auto simp: page_ok_def)
  then have "slot_in n m a" unfolding slot_in_def using i by (intro exI [of _ h] exI [of _ i]) simp
  ultimately show ?thesis using al u(2) s3(2) c(5) by auto
qed

lemma slab_alloc_room:
  assumes "slab_ok n U s m" and "0 < max_allocs_per_page n" and "has_room s"
  shows "\<exists>a s'. slab_alloc n s m = Inr (a, s', m) \<and> a \<notin> U \<and> slab_ok n (insert a U) s' m \<and> allocator s' = allocator s \<and> slot_in n m a"
  using slab_alloc_spare [OF slab_spare_0 [OF assms(1)] assms(2,3)] slab_spare_ok by blast

text \<open>With no free slot left a page is taken; it is not one of the pages that the allocator has, for those are mapped.\<close>

lemma get_free_pe_ok:
  assumes "kmap_inv m" and "free_frames m \<noteq> {}" and q: "k_lfpe m \<le> q" "q < NPAGES" "\<not> pte_used (k_pt m q)"
  shows "\<exists>pe m1 m2 f. get_free_pe m = (pe, m1) \<and> allocate_page pe DEFAULT_K_POLICY m1 = Inr m2 \<and> pe < NPAGES \<and> \<not> pte_used (k_pt m pe) \<and> kmap_inv m2 \<and>
    k_pt m2 = (k_pt m)(pe := FRAME_ID_ADDR f OR DEFAULT_K_POLICY) \<and> f \<in> unused_frames m"
proof -
  define pe where "pe = first_free (\<lambda>i. pte_used (k_pt m i)) (k_lfpe m)"
  let ?m = "m\<lparr>k_lfpe := pe\<rparr>"
  have pe: "pe < NPAGES" "\<not> pte_used (k_pt m pe)"
    using first_free_least(2) [of "k_lfpe m" q "\<lambda>i. pte_used (k_pt m i)"] first_free_unused [of "\<lambda>i. pte_used (k_pt m i)"] q unfolding pe_def by blast+
  have inv: "kmap_inv ?m" and fr: "free_frames ?m = free_frames m" "unused_frames ?m = unused_frames m"
    using assms(1) by (simp_all add: kmap_inv_def free_frames_def unused_frames_def FRAME_USED_def)
  have pol: "bit DEFAULT_K_POLICY 0" "drop_bit 12 DEFAULT_K_POLICY = 0" by (simp_all add: DEFAULT_K_POLICY_def bit_or_iff)
  obtain m2 where m2: "allocate_page pe DEFAULT_K_POLICY ?m = Inr m2" using allocate_page_ok [OF inv pe(1) pol(1)] assms(2) fr(1) by auto
  have "\<not> bit (k_pt ?m pe) 0" using pe(2) by (simp add: pte_used_iff)
  then obtain f where f: "f \<in> unused_frames ?m" "m2 = with_page f pe DEFAULT_K_POLICY (?m\<lparr>lowest_free_frame := f\<rparr>)" "kmap_inv m2"
    using allocate_page_sound [OF m2 inv pe(1) _ pol] by blast
  then show ?thesis using m2 pe fr(2) by (intro exI [of _ pe] exI [of _ ?m] exI [of _ m2] exI [of _ f]) (simp add: get_free_pe_def pe_def [symmetric] Let_def)
qed

lemma slab_alloc_page:
  assumes ok: "slab_ok n U s m" and n: "0 < max_allocs_per_page n" and room: "\<not> has_room s"
    and m: "kmap_inv m" "free_frames m \<noteq> {}" "k_lfpe m \<le> q" "q < NPAGES" "\<not> pte_used (k_pt m q)"
  shows "\<exists>s1 m2 f pe. slab_alloc n s m = slab_alloc n s1 m2 \<and> slab_ok n U s1 m2 \<and> has_room s1 \<and> allocator s1 = allocator s \<and> kmap_inv m2 \<and>
    pe < NPAGES \<and> \<not> pte_used (k_pt m pe) \<and> f \<in> unused_frames m \<and> k_pt m2 = (k_pt m)(pe := FRAME_ID_ADDR f OR DEFAULT_K_POLICY)"
proof -
  obtain es ps fs fl where rep: "slab_rep n s es ps fs fl" and U: "U = used_slots n (es @ ps @ fs) fl" and mp: "\<forall>h \<in> set (es @ ps @ fs). pte_used (k_pt m (h div 4096))"
    using ok by (auto simp: slab_ok_def)
  have none: "es = []" "ps = []" "empty_pages s = None" "partial_pages s = None" using rep room by (cases es; cases ps; auto simp: slab_rep_def has_room_def)+
  obtain pe m1 m2 f where pe: "get_free_pe m = (pe, m1)" "allocate_page pe DEFAULT_K_POLICY m1 = Inr m2" "pe < NPAGES" "\<not> pte_used (k_pt m pe)" "kmap_inv m2"
      "k_pt m2 = (k_pt m)(pe := FRAME_ID_ADDR f OR DEFAULT_K_POLICY)" "f \<in> unused_frames m"
    using get_free_pe_ok [OF m] by blast
  have ad: "page_addr pe div 4096 = pe" using pe(3) by (simp add: page_addr_def)
  then have new: "page_addr pe \<notin> set (es @ ps @ fs)" using mp pe(4) by metis
  obtain s1 fl' where g: "get_new_page n s m = Inr (page_addr pe, s1, m2)" "allocator s1 = allocator s" "slab_rep n s1 (page_addr pe # es) ps fs fl'"
      "set (fl' (page_addr pe)) = slots n (page_addr pe)" "\<forall>k \<in> set (es @ ps @ fs). fl' k = fl k"
    using get_new_page_ok [OF rep n slab_pages_bound [OF rep] pe(1,2) new] by blast
  have u: "pte_used (k_pt m2 k)" if "pte_used (k_pt m k) \<or> k = pe" for k using that pe(6) by (auto simp: pte_used_iff bit_or_iff DEFAULT_K_POLICY_def)
  have "used_slots n ((page_addr pe # es) @ ps @ fs) fl' = U" using g(4,5) U by (auto simp: used_slots_def)
  moreover have "\<forall>h \<in> set ((page_addr pe # es) @ ps @ fs). pte_used (k_pt m2 (h div 4096))" using mp u ad by auto
  ultimately have ok1: "slab_ok n U s1 m2" using g(3) unfolding slab_ok_def by metis
  have e1: "empty_pages s1 = Some (page_addr pe)" "partial_pages s1 = None" using g(3) none(2) by (simp_all add: slab_rep_def)
  then have "slab_alloc n s m = slab_alloc n s1 m2" using none g(1) by (simp add: slab_alloc_def)
  moreover have "has_room s1" using e1 by (simp add: has_room_def)
  ultimately show ?thesis using ok1 g(2) pe(3-7) by blast
qed

section \<open>Freeing\<close>

text \<open>A slot that does not complete its page goes to the front of the page's free slots, whatever list the page is in.\<close>

definition put_slot :: "nat \<Rightarrow> slab \<Rightarrow> slab" where
  "put_slot t s = set_hdr (t div 4096 * 4096) (\<lambda>p. p\<lparr>freep := Some t, num_free_allocs := add32 (num_free_allocs p) 1\<rparr>)
     (s\<lparr>alloc_next := (alloc_next s)(t := freep (page_hdrs s (t div 4096 * 4096)))\<rparr>)"

lemma slab_free_put:
  "add32 (num_free_allocs (page_hdrs s (t div 4096 * 4096))) 1 \<noteq> max_allocs_per_page n \<Longrightarrow> slab_free n t s m = Inr (put_slot t s, m)"
  by (simp add: slab_free_def put_slot_def Let_def)

text \<open>
  The slots of a page that was full are all freed: the page has stayed in the list of full pages, and with the last slot the list of partly used
  pages is popped although it is empty.
\<close>

fun slab_free_all :: "nat \<Rightarrow> nat list \<Rightarrow> slab \<Rightarrow> kmem \<Rightarrow> (slab \<times> kmem) res" where
  "slab_free_all n [] s m = Inr (s, m)"
| "slab_free_all n (t # ts) s m = bind_res (slab_free n t s m) (\<lambda>(s1, m1). slab_free_all n ts s1 m1)"

lemma free_full_page:
  assumes "\<forall>t \<in> set ts. t div 4096 * 4096 = h" and "partial_pages s = None" and "ts \<noteq> []"
    and "num_free_allocs (page_hdrs s h) + length ts = max_allocs_per_page n"
  shows "slab_free_all n ts s m = Inl NullDeref"
  using assms
proof (induction ts arbitrary: s)
  case (Cons t ts)
  have k: "max_allocs_per_page n \<le> 4084" by (simp add: max_allocs_per_page_def)
  then have a: "add32 (num_free_allocs (page_hdrs s h)) 1 = Suc (num_free_allocs (page_hdrs s h))" using Cons.prems(4) by (simp add: add32_eq)
  have h: "t div 4096 * 4096 = h" using Cons.prems(1) by simp
  show ?case
  proof (cases "ts = []")
    case True
    then show ?thesis using Cons.prems(2,4) a h by (simp add: slab_free_def Let_def)
  next
    case False
    then have "0 < length ts" by simp
    then have "Suc (num_free_allocs (page_hdrs s h)) \<noteq> max_allocs_per_page n" using Cons.prems(4) by (metis Suc_eq_plus1 add_Suc_right length_Cons less_not_refl less_add_same_cancel1 add_Suc)
    then have "slab_free n t s m = Inr (put_slot t s, m)" using slab_free_put [of s t n m] a h by simp
    moreover have "partial_pages (put_slot t s) = None" "num_free_allocs (page_hdrs (put_slot t s) h) = Suc (num_free_allocs (page_hdrs s h))"
      using Cons.prems(2) a h by (simp_all add: put_slot_def)
    ultimately show ?thesis using Cons.IH [of "put_slot t s"] Cons.prems(1,4) False by simp
  qed
qed simp

text \<open>Freeing a slot of a partly used page that has more slots in use.\<close>

lemma slab_free_partial:
  assumes rep: "slab_rep n s es ps fs fl" and h: "h \<in> set ps" and t: "t \<in> slots n h" "t \<notin> set (fl h)" and more: "Suc (length (fl h)) \<noteq> max_allocs_per_page n"
  shows "slab_free n t s m = Inr (put_slot t s, m) \<and> slab_rep n (put_slot t s) es ps fs (fl(h := t # fl h))"
proof -
  have ph: "page_ok n s (fl h) h" and hm: "h mod 4096 = 0" using rep h by (auto simp: slab_rep_def page_ok_def)
  have pg: "t div 4096 * 4096 = h" by (rule slot_page [OF hm t(1)])
  have "card (set (fl h)) \<le> card (slots n h)" using ph by (intro card_mono) (auto simp: page_ok_def slots_def)
  moreover have "card (slots n h) \<le> max_allocs_per_page n" using card_image_le [of "{..<max_allocs_per_page n}" "slot n h"] by (simp add: slots_def)
  moreover have "max_allocs_per_page n \<le> 4084" by (simp add: max_allocs_per_page_def)
  ultimately have "length (fl h) \<le> 4084" using ph distinct_card [of "fl h"] by (simp add: page_ok_def)
  then have num: "add32 (num_free_allocs (page_hdrs s h)) 1 = Suc (length (fl h))" using ph by (simp add: page_ok_def add32_eq)
  have pages: "page_ok n (put_slot t s) ((fl(h := t # fl h)) k) k" if k: "k \<in> set (es @ ps @ fs)" for k
  proof -
    have ok: "page_ok n s (fl k) k" using rep k by (simp add: slab_rep_def)
    have "t \<notin> set (fl k)" if "k \<noteq> h"
      using slots_disjoint [of h k n] that hm t(1) ok by (auto simp: page_ok_def)
    then have "t \<notin> set (fl k)" using t(2) by (cases "k = h") auto
    then have "linked ((alloc_next s)(t := v)) q (fl k) = linked (alloc_next s) q (fl k)" for v q by (intro linked_cong) auto
    then show ?thesis using ok pg num t by (cases "k = h") (auto simp: page_ok_def put_slot_def)
  qed
  have "linked (\<lambda>k. next_page_hdr (page_hdrs (put_slot t s) k)) q xs = linked (\<lambda>k. next_page_hdr (page_hdrs s k)) q xs" for q xs
    by (rule linked_cong) (auto simp: put_slot_def)
  moreover have "empty_pages (put_slot t s) = empty_pages s" "partial_pages (put_slot t s) = partial_pages s" "full_pages (put_slot t s) = full_pages s"
    "num_empty_pages (put_slot t s) = num_empty_pages s" by (simp_all add: put_slot_def)
  moreover have "h \<notin> set es" "h \<notin> set fs" using rep h by (auto simp: slab_rep_def)
  ultimately have "slab_rep n (put_slot t s) es ps fs (fl(h := t # fl h))" using rep pages by (auto simp: slab_rep_def)
  then show ?thesis using slab_free_put [of s t n m] num more pg by simp
qed

section \<open>Buckets\<close>

lemma bit_len_spec: "0 < x \<Longrightarrow> 2 ^ (bit_len x - 1) \<le> x \<and> x < 2 ^ bit_len x \<and> 0 < bit_len x"
proof (induction x rule: bit_len.induct)
  case (1 x)
  show ?case
  proof (cases "x div 2 = 0")
    case True
    then have "x = 1" using 1(2) by simp
    then show ?thesis by (simp add: bit_len.simps)
  next
    case False
    then have IH: "2 ^ (bit_len (x div 2) - 1) \<le> x div 2" "x div 2 < 2 ^ bit_len (x div 2)" "0 < bit_len (x div 2)" using 1 by auto
    have b: "bit_len x = Suc (bit_len (x div 2))" using 1(2) by (simp add: bit_len.simps [of x])
    have "2 ^ bit_len (x div 2) = (2 :: nat) * 2 ^ (bit_len (x div 2) - 1)" using IH(3) by (metis Suc_diff_1 power_Suc)
    then have "2 ^ bit_len (x div 2) \<le> x" using IH(1) by linarith
    moreover have "x < 2 * 2 ^ bit_len (x div 2)" using IH(2) by linarith
    ultimately show ?thesis by (simp add: b)
  qed
qed

lemma bit_len_bound: "0 < x \<Longrightarrow> x < 2 ^ k \<Longrightarrow> bit_len x \<le> k"
proof (rule ccontr)
  assume x: "0 < x" "x < 2 ^ k" and "\<not> bit_len x \<le> k"
  then have "(2 :: nat) ^ k \<le> 2 ^ (bit_len x - 1)" by (intro power_increasing) auto
  then show False using bit_len_spec [OF x(1)] x(2) by linarith
qed

lemma bit_len_unique: "2 ^ k \<le> x \<Longrightarrow> x < 2 ^ Suc k \<Longrightarrow> bit_len x = Suc k"
proof -
  assume x: "2 ^ k \<le> x" "x < 2 ^ Suc k"
  have p: "0 < x" using x(1) by (metis gr0I le_zero_eq power_not_zero zero_neq_numeral)
  have "(2 :: nat) ^ bit_len x \<le> 2 ^ k" if "bit_len x \<le> k" using that by (intro power_increasing) auto
  then have "\<not> bit_len x \<le> k" using bit_len_spec [OF p] x(1) by linarith
  then show ?thesis using bit_len_bound [OF p x(2)] by simp
qed

text \<open>A size from 2 to \<open>2 ^ 31\<close>: the next power of two, and its exponent.\<close>

lemma bucket_index_eq:
  assumes "2 \<le> sz" and "sz \<le> 2 ^ 31"
  shows "bucket_index clz0 sz = bit_len (sz - 1)" and "p2 clz0 sz = 2 ^ bit_len (sz - 1)" and "sz \<le> 2 ^ bit_len (sz - 1)" and "2 ^ bit_len (sz - 1) < 2 * sz"
proof -
  have x: "0 < sz - 1" "sz - 1 < 2 ^ 31" using assms by auto
  note b = bit_len_spec [OF x(1)] and le = bit_len_bound [OF x]
  have sub: "sub32 sz 1 = sz - 1" using assms by (simp add: sub32_eq)
  have pw: "(2 :: nat) ^ bit_len (sz - 1) < W32" using power_increasing [OF le, of "2 :: nat"] by simp
  have c: "clz clz0 (sz - 1) = 32 - bit_len (sz - 1)" using x by (simp add: clz_def)
  show p: "p2 clz0 sz = 2 ^ bit_len (sz - 1)" using assms(1) sub c le pw by (simp add: p2_def)
  obtain k where k: "bit_len (sz - 1) = Suc k" using b by (metis gr0_implies_Suc)
  have pos: "(1 :: nat) \<le> 2 ^ k" by simp
  have "2 ^ k \<le> 2 ^ Suc k - (1 :: nat)" "2 ^ Suc k - (1 :: nat) < 2 ^ Suc k" using pos by auto
  then have bl: "bit_len (2 ^ Suc k - 1) = Suc k" by (rule bit_len_unique)
  have "sub32 (2 ^ Suc k) 1 = 2 ^ Suc k - 1" using pw k by (simp add: sub32_eq)
  moreover have "(2 :: nat) ^ Suc k - 1 \<noteq> 0" using pos unfolding power_Suc by linarith
  ultimately show "bucket_index clz0 sz = bit_len (sz - 1)" using p k bl le by (simp add: bucket_index_def clz_def)
  show "sz \<le> 2 ^ bit_len (sz - 1)" using b by linarith
  have "2 ^ bit_len (sz - 1) = (2 :: nat) * 2 ^ k" unfolding k by simp
  moreover have "2 ^ k \<le> sz - 1" using b k by simp
  ultimately show "2 ^ bit_len (sz - 1) < 2 * sz" using x(1) by linarith
qed

section \<open>Examples\<close>

text \<open>An allocator for the nodes of the allocation tree, 28 bytes each: 127 slots to a page. The first allocation takes a page.\<close>

lemma node_slots: "alloc_size 28 = 32" "max_allocs_per_page 28 = 127"
  by (simp_all add: alloc_size_def max_allocs_per_page_def)

lemma empty_slab_ok: "slab_ok n {} empty_slab m"
proof -
  have "slab_rep n empty_slab [] [] [] (\<lambda>_. [])" by (simp add: slab_rep_def empty_slab_def)
  then show ?thesis unfolding slab_ok_def used_slots_def by force
qed

section \<open>Properties\<close>

text \<open>
  C8. The slab allocator gives out slots that are not in use. Let the lists of pages and of free slots be consistent, with the slots in \<open>U\<close> in use and the pages
  mapped, let a page have room for at least one object, and let there be a free slot or, if there is none, a free frame and a free page behind the
  lowest free one. Then \<^verbatim>\<open>alloc\<close> succeeds with a slot at its place in one of the allocator's pages that is not in \<open>U\<close>, and
  the lists are consistent with that slot in use as well. The page tables do not change if there was a free slot, and otherwise one page that was not in
  use is mapped to an unused frame; no frame is mapped twice.
\<close>

theorem slab_alloc_fresh:
  assumes "slab_ok n U s m" and "0 < max_allocs_per_page n" and "kmap_inv m"
    and "has_room s \<or> free_frames m \<noteq> {} \<and> k_lfpe m \<le> q \<and> q < NPAGES \<and> \<not> pte_used (k_pt m q)"
  shows "\<exists>a s' m'. slab_alloc n s m = Inr (a, s', m') \<and> a \<notin> U \<and> slab_ok n (insert a U) s' m' \<and> kmap_inv m' \<and>
    slot_in n m' a \<and>
    (if has_room s then m' = m
     else \<exists>pe f. pe < NPAGES \<and> \<not> pte_used (k_pt m pe) \<and> f \<in> unused_frames m \<and> k_pt m' = (k_pt m)(pe := FRAME_ID_ADDR f OR DEFAULT_K_POLICY))"
proof (cases "has_room s")
  case True
  then show ?thesis using slab_alloc_room [OF assms(1,2) True] assms(3) by auto
next
  case False
  then obtain s1 m2 f pe where p: "slab_alloc n s m = slab_alloc n s1 m2" "slab_ok n U s1 m2" "has_room s1" "kmap_inv m2" "pe < NPAGES" "\<not> pte_used (k_pt m pe)"
      "f \<in> unused_frames m" "k_pt m2 = (k_pt m)(pe := FRAME_ID_ADDR f OR DEFAULT_K_POLICY)"
    using slab_alloc_page [OF assms(1,2) False assms(3)] assms(4) by blast
  obtain a s' where a: "slab_alloc n s1 m2 = Inr (a, s', m2)" "a \<notin> U" "slab_ok n (insert a U) s' m2"
      "slot_in n m2 a"
    using slab_alloc_room [OF p(2) assms(2) p(3)] by blast
  have "\<exists>pe f. pe < NPAGES \<and> \<not> pte_used (k_pt m pe) \<and> f \<in> unused_frames m \<and> k_pt m2 = (k_pt m)(pe := FRAME_ID_ADDR f OR DEFAULT_K_POLICY)" using p(5-8) by blast
  then show ?thesis using p(1,4) a False by (intro exI [of _ a] exI [of _ s'] exI [of _ m2]) simp
qed

theorem slab_alloc_fresh_witness:
  "\<exists>a s' m'. slab_alloc 28 empty_slab demo_mem = Inr (a, s', m') \<and> a \<notin> {} \<and> slab_ok 28 (insert a {}) s' m' \<and> kmap_inv m' \<and>
    slot_in 28 m' a \<and>
    (if has_room empty_slab then m' = demo_mem
     else \<exists>pe f. pe < NPAGES \<and> \<not> pte_used (k_pt demo_mem pe) \<and> f \<in> unused_frames demo_mem \<and>
       k_pt m' = (k_pt demo_mem)(pe := FRAME_ID_ADDR f OR DEFAULT_K_POLICY))"
proof (rule slab_alloc_fresh [OF empty_slab_ok _ demo_mem_ok(1), where q = 790529])
  have "free_frames demo_mem \<noteq> {}" using demo_mem_ok(3) by auto
  then show "has_room empty_slab \<or> free_frames demo_mem \<noteq> {} \<and> k_lfpe demo_mem \<le> 790529 \<and> 790529 < NPAGES \<and> \<not> pte_used (k_pt demo_mem 790529)"
    by (simp add: demo_mem_def)
qed (simp add: node_slots)

text \<open>
  A page of the slab allocator that has been full cannot be given back: when no page is partly used and all slots of a full page are freed, in
  any order, \<^verbatim>\<open>free\<close> follows a null pointer at the last one. Freeing a slot of a full page does not move the page to the partly used ones, and the page that
  has become empty is taken to be the first of those.
\<close>

theorem slab_full_page_stuck:
  assumes "slab_rep n s es [] fs fl" and "h \<in> set fs" and "distinct ts" and "set ts = slots n h" and "0 < max_allocs_per_page n"
  shows "slab_free_all n ts s m = Inl NullDeref"
proof (rule free_full_page [where h = h])
  have "h \<in> set (es @ [] @ fs)" using assms(2) by simp
  then have "page_ok n s (fl h) h" "fl h = []" using assms(1,2) unfolding slab_rep_def by blast+
  then have h: "page_ok n s [] h" by simp
  then show "\<forall>t \<in> set ts. t div 4096 * 4096 = h" using slot_page assms(4) by (auto simp: page_ok_def)
  show "partial_pages s = None" using assms(1) by (simp add: slab_rep_def)
  have "card (slots n h) = max_allocs_per_page n" unfolding slots_def by (subst card_image) (auto simp: inj_on_def slot_inj)
  then have len: "length ts = max_allocs_per_page n" using assms(3,4) distinct_card [of ts] by simp
  then show "ts \<noteq> []" using assms(5) by auto
  show "num_free_allocs (page_hdrs s h) + length ts = max_allocs_per_page n" using h len by (simp add: page_ok_def)
qed

text \<open>A page that one object fills.\<close>

definition one_slot_slab :: slab where
  "one_slot_slab = empty_slab\<lparr>full_pages := Some 8192\<rparr>"

theorem slab_full_page_stuck_witness: "slab_free_all 4000 [8204] one_slot_slab demo_mem = Inl NullDeref"
proof (rule slab_full_page_stuck [where fs = "[8192]" and h = 8192 and es = "[]" and fl = "\<lambda>_. []"])
  have "max_allocs_per_page 4000 = 1" by (simp add: max_allocs_per_page_def alloc_size_def)
  then show "set [8204] = slots 4000 8192" "0 < max_allocs_per_page 4000" by (auto simp: slots_def slot_def)
  show "slab_rep 4000 one_slot_slab [] [] [8192] (\<lambda>_. [])" by (simp add: slab_rep_def one_slot_slab_def empty_slab_def no_hdr_def page_ok_def)
qed simp_all

text \<open>
  Small buffers come from the bucket that fits best: for a size from 2 to 128 the bucket of \<^verbatim>\<open>slab_allocate\<close> has the least power of two that is not below the size, so less than
  twice the size, and \<^verbatim>\<open>slab_deallocate\<close> gives the buffer back to the same bucket; larger sizes, up to \<open>2 ^ 31\<close>, are served by \<^verbatim>\<open>malloc\<close>, but giving such a buffer
  back reads behind the table of buckets after it has called \<^verbatim>\<open>free\<close>.
\<close>

theorem slab_buckets:
  assumes "2 \<le> sz" and "sz \<le> 2 ^ 31"
  shows "if sz \<le> 128
    then \<exists>k. slab_allocate_source clz0 sz = FromBucket (2 ^ k) \<and> slab_deallocate_calls clz0 sz = ([FromBucket (2 ^ k)], Inr ()) \<and> sz \<le> 2 ^ k \<and> 2 ^ k < 2 * sz
    else slab_allocate_source clz0 sz = FromMalloc \<and> slab_deallocate_calls clz0 sz = ([FromMalloc], Inl OutOfBounds)"
proof -
  note b = bucket_index_eq(1) [OF assms, of clz0] bucket_index_eq(3,4) [OF assms]
  have "bit_len (sz - 1) < N_BUCKETS \<longleftrightarrow> sz \<le> 128"
  proof
    assume "bit_len (sz - 1) < N_BUCKETS"
    then have "(2 :: nat) ^ bit_len (sz - 1) \<le> 2 ^ 7" by (intro power_increasing) auto
    then show "sz \<le> 128" using b(2) by simp
  next
    assume "sz \<le> 128"
    then have "bit_len (sz - 1) \<le> 7" using assms(1) by (intro bit_len_bound) auto
    then show "bit_len (sz - 1) < N_BUCKETS" by simp
  qed
  then show ?thesis using b by (auto simp: slab_allocate_source_def slab_deallocate_calls_def Let_def)
qed

theorem slab_buckets_witness:
  "\<exists>k. slab_allocate_source 0 100 = FromBucket (2 ^ k) \<and> slab_deallocate_calls 0 100 = ([FromBucket (2 ^ k)], Inr ()) \<and> 100 \<le> (2 :: nat) ^ k \<and> 2 ^ k < 2 * (100 :: nat)"
  using slab_buckets [of 100 0] by simp

end
