(* ===== verification/HeapNodes.thy ===== *)
theory HeapNodes
  imports MemTree Slab
begin

text \<open>
  The nodes of the allocation tree in memory (\<^verbatim>\<open>new_node\<close>, \<^verbatim>\<open>delete_node\<close> and \<^verbatim>\<open>allocate\<close> of \<^verbatim>\<open>src/kernel/core/Memtree.cpp\<close>). A node is a slot of the slab allocator
  together with its allocation. \<open>MemTree\<close> describes allocation on the blocks alone; here it is done with the nodes, each of which may cost a
  page, and shown to do to the blocks and to the page tables what \<open>MemTree\<close> says as long as the slab allocator has two free slots.
\<close>

section \<open>Model\<close>

type_synonym node_tree = "(nat \<times> allocation) bst"

text \<open>\<^verbatim>\<open>sizeof(Node)\<close>: twenty bytes for the allocation and two pointers.\<close>

abbreviation NODE_SIZE :: nat where "NODE_SIZE \<equiv> 28"

definition blocks_of :: "node_tree \<Rightarrow> memtree" where
  "blocks_of t = map_bst snd t"

definition node_cmp :: "(nat \<times> allocation) compare_func" where
  "node_cmp x y = alloc_cmp (snd x) (snd y)"

fun map_data :: "(allocation \<Rightarrow> allocation) \<Rightarrow> node_tree \<Rightarrow> node_tree" where
  "map_data f Null = Null"
| "map_data f (BNode x l r) = BNode (fst x, f (snd x)) l r"

definition new_node :: "allocation \<Rightarrow> slab \<Rightarrow> kmem \<Rightarrow> ((nat \<times> allocation) \<times> slab \<times> kmem) res" where
  "new_node d s m =
     bind_res (get_instance s m) (\<lambda>(s1, m1).
     bind_res (slab_alloc NODE_SIZE s1 m1) (\<lambda>(a, s2, m2). Inr ((a, d), s2, m2)))"

definition delete_node :: "nat \<times> allocation \<Rightarrow> slab \<Rightarrow> kmem \<Rightarrow> (slab \<times> kmem) res" where
  "delete_node x s m = bind_res (get_instance s m) (\<lambda>(s1, m1). slab_free NODE_SIZE (fst x) s1 m1)"

definition tree_physical_alloc ::
  "nat \<Rightarrow> page_info \<Rightarrow> hint_info \<Rightarrow> proc \<Rightarrow> node_tree \<Rightarrow> slab \<Rightarrow> kmem \<Rightarrow> (dir list option \<times> node_tree \<times> slab \<times> kmem) res" where
  "tree_physical_alloc sz pinfo hi p t s m =
     (let num_pages_base = ADDR_PAGE (sub32 (add32 sz PAGE_SIZE) 1);
          num_pages = max 2 num_pages_base in
      bind_res (sbrk num_pages pinfo hi p m) (\<lambda>(alloc, m1).
        case alloc of
          None \<Rightarrow> Inr (None, t, s, m1)
        | Some start_addr \<Rightarrow>
            if start_addr = 0 then Inr (None, t, s, m1)
            else bind_res (new_node \<lparr>a_start = start_addr, a_end = add32 start_addr (mul32 num_pages PAGE_SIZE), a_info = pinfo, a_used = False\<rparr> s m1)
              (\<lambda>(node, s2, m2). Inr (Some (insert_path node_cmp node t), add_node node_cmp node t, s2, m2))))"

text \<open>The rest of \<open>allocate\<close> once a block has been found: it is cut to size, the remainder gets a node, and the block is marked.\<close>

definition tree_take_block :: "dir list \<Rightarrow> nat \<Rightarrow> page_info \<Rightarrow> node_tree \<Rightarrow> slab \<Rightarrow> kmem \<Rightarrow> (node_tree \<times> slab \<times> kmem) res" where
  "tree_take_block path sz pinfo t s m =
     (let shrink = sub32 (node_size (bdata (subtree_at path (blocks_of t)))) sz in
      bind_res
        (if shrink \<noteq> 0
         then let t1 = update_at path (map_data (shrink_block shrink)) t;
                  e = a_end (bdata (subtree_at path (blocks_of t1))) in
           bind_res (new_node \<lparr>a_start = e, a_end = add32 e shrink, a_info = pinfo, a_used = False\<rparr> s m)
             (\<lambda>(node, s1, m1). Inr (add_node node_cmp node t1, s1, m1))
         else Inr (t, s, m))
        (\<lambda>(t2, s2, m2). Inr (update_at path (map_data (\<lambda>d. d\<lparr>a_used := True\<rparr>)) t2, s2, m2)))"

definition tree_allocate ::
  "nat \<Rightarrow> page_info \<Rightarrow> proc \<Rightarrow> hint_info \<Rightarrow> node_tree \<Rightarrow> slab \<Rightarrow> kmem \<Rightarrow> (nat option \<times> node_tree \<times> slab \<times> kmem) res" where
  "tree_allocate sz pinfo p hi t s m =
     (let policy = pi_policy pinfo in
      if (has_flag policy PAGE_PRESENT \<and> has_flag policy PAGE_LAZY_ZERO) \<or>
         \<not> has_flag policy (PAGE_PRESENT OR PAGE_LAZY_ZERO)
      then Inl (Irrecoverable ''invalid policy'')
      else bind_res
        (case find_free_block (blocks_of t) sz hi of
           Some path \<Rightarrow> Inr (Some path, t, s, m)
         | None \<Rightarrow> tree_physical_alloc sz pinfo hi p t s m)
        (\<lambda>(node, t1, s1, m1).
          case node of
            None \<Rightarrow> Inr (None, t1, s1, m1)
          | Some path \<Rightarrow>
              bind_res (tree_take_block path sz pinfo t1 s1 m1) (\<lambda>(t2, s2, m2).
                Inr (Some (a_start (bdata (subtree_at path (blocks_of t2)))), t2, s2, m2))))"

section \<open>Nodes and blocks\<close>

lemma blocks_of_simps [simp]: "blocks_of Null = Null" "blocks_of (BNode x l r) = BNode (snd x) (blocks_of l) (blocks_of r)"
  by (simp_all add: blocks_of_def)

lemma blocks_of_add: "blocks_of (add_node node_cmp x t) = add_node alloc_cmp (snd x) (blocks_of t)"
  by (induction t) (auto simp: node_cmp_def)

lemma blocks_of_path: "insert_path node_cmp x t = insert_path alloc_cmp (snd x) (blocks_of t)"
  by (induction t) (auto simp: node_cmp_def)

lemma blocks_of_update: "blocks_of (update_at p (map_data f) t) = update_at p (map_node f) (blocks_of t)"
proof (induction p "map_data f" t rule: update_at.induct)
  case (1 t)
  then show ?case by (cases t) auto
qed auto

text \<open>The slots of the nodes.\<close>

definition node_slots_of :: "node_tree \<Rightarrow> nat list" where
  "node_slots_of t = map fst (inorder t)"

lemma slots_update: "node_slots_of (update_at p (map_data f) t) = node_slots_of t"
proof -
  have "map fst (inorder (map_data f t)) = map fst (inorder t)" for t by (cases t) auto
  then show ?thesis unfolding node_slots_of_def by (induction p "map_data f" t rule: update_at.induct) auto
qed

lemma slots_add: "\<exists>xs ys. node_slots_of t = xs @ ys \<and> node_slots_of (add_node node_cmp x t) = xs @ fst x # ys"
proof (induction t)
  case (BNode d l r)
  then obtain xs ys us vs where l: "node_slots_of l = xs @ ys" "node_slots_of (add_node node_cmp x l) = xs @ fst x # ys"
    and r: "node_slots_of r = us @ vs" "node_slots_of (add_node node_cmp x r) = us @ fst x # vs" by blast
  show ?case
  proof (cases "0 \<le> node_cmp d x")
    case True
    then show ?thesis using l by (intro exI [of _ xs] exI [of _ "ys @ fst d # node_slots_of r"]) (auto simp: node_slots_of_def)
  next
    case False
    then show ?thesis using r by (intro exI [of _ "node_slots_of l @ fst d # us"] exI [of _ vs]) (auto simp: node_slots_of_def)
  qed
qed (auto simp: node_slots_of_def)

text \<open>
  Every node has a slot of its own, the slots in use are those of the nodes and those in \<open>W\<close> (the nodes of other trees: there is one slab allocator
  for all of them), and \<open>k\<close> slots are free.
\<close>

definition nodes_placed :: "node_tree \<Rightarrow> nat set \<Rightarrow> nat \<Rightarrow> slab \<Rightarrow> kmem \<Rightarrow> bool" where
  "nodes_placed t W k s m \<longleftrightarrow> allocator s \<noteq> None \<and> distinct (node_slots_of t) \<and> set (node_slots_of t) \<inter> W = {} \<and>
     slab_spare NODE_SIZE (set (node_slots_of t) \<union> W) k s m"

lemma nodes_placed_update: "nodes_placed (update_at p (map_data f) t) W k s m = nodes_placed t W k s m"
  by (simp add: nodes_placed_def slots_update)

lemma nodes_placed_mono: "nodes_placed t W k s m \<Longrightarrow> j \<le> k \<Longrightarrow> nodes_placed t W j s m"
  unfolding nodes_placed_def slab_spare_def by (meson order_trans)

lemma new_node_ok:
  assumes "nodes_placed t W (Suc k) s m"
  shows "\<exists>a s'. new_node d s m = Inr ((a, d), s', m) \<and> nodes_placed (add_node node_cmp (a, d) t) W k s' m"
proof -
  let ?U = "set (node_slots_of t) \<union> W"
  have sp: "slab_spare NODE_SIZE ?U (Suc k) s m" and al: "allocator s \<noteq> None" using assms by (auto simp: nodes_placed_def)
  obtain a s' where a: "slab_alloc NODE_SIZE s m = Inr (a, s', m)" "a \<notin> ?U" "slab_spare NODE_SIZE (insert a ?U) k s' m" "allocator s' = allocator s"
    using slab_alloc_spare [OF sp _ slab_spare_room [OF sp]] by (auto simp: node_slots)
  obtain xs ys where x: "node_slots_of t = xs @ ys" "node_slots_of (add_node node_cmp (a, d) t) = xs @ a # ys" using slots_add [of t "(a, d)"] by auto
  have "nodes_placed (add_node node_cmp (a, d) t) W k s' m" using a x assms al by (auto simp: nodes_placed_def)
  moreover have "new_node d s m = Inr ((a, d), s', m)" using a(1) al by (simp add: new_node_def get_instance_def)
  ultimately show ?thesis by blast
qed

lemma tree_take_block_ok:
  assumes "nodes_placed t W (Suc k) s m"
  shows "\<exists>t' s'. tree_take_block path sz pinfo t s m = Inr (t', s', m) \<and> blocks_of t' = take_block path sz pinfo (blocks_of t) \<and> nodes_placed t' W k s' m"
proof -
  define shrink where "shrink = sub32 (node_size (bdata (subtree_at path (blocks_of t)))) sz"
  let ?used = "map_data (\<lambda>d. d\<lparr>a_used := True\<rparr>)"
  show ?thesis
  proof (cases "shrink = 0")
    case True
    have "tree_take_block path sz pinfo t s m = Inr (update_at path ?used t, s, m)" using True by (simp add: tree_take_block_def shrink_def [symmetric])
    moreover have "blocks_of (update_at path ?used t) = take_block path sz pinfo (blocks_of t)" using True by (simp add: take_block_def shrink_def [symmetric] blocks_of_update)
    ultimately show ?thesis using nodes_placed_mono [OF assms, of k] by (simp add: nodes_placed_update)
  next
    case False
    let ?t = "update_at path (map_data (shrink_block shrink)) t"
    define e where "e = a_end (bdata (subtree_at path (blocks_of ?t)))"
    let ?d = "\<lparr>a_start = e, a_end = add32 e shrink, a_info = pinfo, a_used = False\<rparr>"
    have "nodes_placed ?t W (Suc k) s m" using assms by (simp add: nodes_placed_update)
    then obtain a s' where a: "new_node ?d s m = Inr ((a, ?d), s', m)" "nodes_placed (add_node node_cmp (a, ?d) ?t) W k s' m" using new_node_ok by blast
    have "tree_take_block path sz pinfo t s m = Inr (update_at path ?used (add_node node_cmp (a, ?d) ?t), s', m)"
      using False a(1) by (simp add: tree_take_block_def shrink_def [symmetric] e_def [symmetric] Let_def)
    moreover have "blocks_of (update_at path ?used (add_node node_cmp (a, ?d) ?t)) = take_block path sz pinfo (blocks_of t)"
      using False by (simp add: take_block_def shrink_def [symmetric] e_def Let_def blocks_of_update blocks_of_add)
    ultimately show ?thesis using a(2) by (simp add: nodes_placed_update)
  qed
qed

text \<open>Two nodes at most are made: one for new pages, one for the remainder of the block.\<close>

lemma tree_allocate_refines:
  assumes al: "allocate sz pinfo p hi (blocks_of t) m = Inr (r, bt, m')" and pl: "nodes_placed t W (Suc (Suc k)) s m'"
  shows "\<exists>t' s'. tree_allocate sz pinfo p hi t s m = Inr (r, t', s', m') \<and> blocks_of t' = bt \<and> nodes_placed t' W k s' m'"
proof -
  let ?bad = "(has_flag (pi_policy pinfo) PAGE_PRESENT \<and> has_flag (pi_policy pinfo) PAGE_LAZY_ZERO) \<or> \<not> has_flag (pi_policy pinfo) (PAGE_PRESENT OR PAGE_LAZY_ZERO)"
  have pol: "\<not> ?bad" using al by (auto simp: allocate_def Let_def split: if_splits)
  let ?find = "case find_free_block (blocks_of t) sz hi of Some path \<Rightarrow> Inr (Some path, blocks_of t, m) | None \<Rightarrow> node_physical_alloc sz pinfo hi p (blocks_of t) m"
  let ?tfind = "case find_free_block (blocks_of t) sz hi of Some path \<Rightarrow> Inr (Some path, t, s, m) | None \<Rightarrow> tree_physical_alloc sz pinfo hi p t s m"
  obtain node b1 m1 where f: "?find = Inr (node, b1, m1)" and rest: "(case node of None \<Rightarrow> Inr (None, b1, m1)
      | Some path \<Rightarrow> Inr (Some (a_start (bdata (subtree_at path (take_block path sz pinfo b1)))), take_block path sz pinfo b1, m1)) = (Inr (r, bt, m') :: (nat option \<times> memtree \<times> kmem) res)"
    using al pol unfolding allocate_def Let_def by (auto simp: res_elims)
  have m1: "m1 = m'" using rest by (cases node) auto
  have "\<exists>t1 s1. ?tfind = Inr (node, t1, s1, m1) \<and> blocks_of t1 = b1 \<and> nodes_placed t1 W (Suc k) s1 m1"
  proof (cases "find_free_block (blocks_of t) sz hi")
    case (Some path)
    then have "node = Some path" "b1 = blocks_of t" "m1 = m" using f by auto
    then show ?thesis using Some m1 nodes_placed_mono [OF pl, of "Suc k"] by auto
  next
    case None
    let ?n = "max 2 (ADDR_PAGE (sub32 (add32 sz PAGE_SIZE) 1))"
    have ph: "node_physical_alloc sz pinfo hi p (blocks_of t) m = Inr (node, b1, m1)" using f None by simp
    then obtain alloc m2 where sb: "sbrk ?n pinfo hi p m = Inr (alloc, m2)" by (auto simp: node_physical_alloc_def Let_def res_elims)
    show ?thesis
    proof (cases "alloc = None \<or> alloc = Some 0")
      case True
      then have "node = None" "b1 = blocks_of t" "m1 = m2" using ph sb by (auto simp: node_physical_alloc_def Let_def)
      then show ?thesis using True None sb pl m1 nodes_placed_mono [OF pl, of "Suc k"] by (auto simp: tree_physical_alloc_def Let_def)
    next
      case False
      then obtain a0 where a0: "alloc = Some a0" "a0 \<noteq> 0" by auto
      let ?d = "\<lparr>a_start = a0, a_end = add32 a0 (mul32 ?n PAGE_SIZE), a_info = pinfo, a_used = False\<rparr>"
      have o: "node = Some (insert_path alloc_cmp ?d (blocks_of t))" "b1 = add_node alloc_cmp ?d (blocks_of t)" "m1 = m2"
        using ph sb a0 by (auto simp: node_physical_alloc_def Let_def)
      obtain a s1 where a: "new_node ?d s m1 = Inr ((a, ?d), s1, m1)" "nodes_placed (add_node node_cmp (a, ?d) t) W (Suc k) s1 m1"
        using new_node_ok [of t W "Suc k" s m1 ?d] pl m1 by blast
      have "?tfind = Inr (node, add_node node_cmp (a, ?d) t, s1, m1)"
        using None sb a0 o a(1) by (simp add: tree_physical_alloc_def Let_def blocks_of_path)
      then show ?thesis using o a(2) by (simp add: blocks_of_add)
    qed
  qed
  then obtain t1 s1 where t1: "?tfind = Inr (node, t1, s1, m1)" "blocks_of t1 = b1" "nodes_placed t1 W (Suc k) s1 m1" by blast
  show ?thesis
  proof (cases node)
    case None
    then have "tree_allocate sz pinfo p hi t s m = Inr (None, t1, s1, m1)" using pol t1(1) by (simp add: tree_allocate_def Let_def)
    then show ?thesis using None rest t1(2,3) nodes_placed_mono [OF t1(3), of k] by simp
  next
    case (Some path)
    obtain t2 s2 where t2: "tree_take_block path sz pinfo t1 s1 m1 = Inr (t2, s2, m1)" "blocks_of t2 = take_block path sz pinfo b1" "nodes_placed t2 W k s2 m1"
      using tree_take_block_ok [OF t1(3)] t1(2) by blast
    then have "tree_allocate sz pinfo p hi t s m = Inr (Some (a_start (bdata (subtree_at path (blocks_of t2)))), t2, s2, m1)"
      using pol t1(1) Some by (simp add: tree_allocate_def Let_def)
    then show ?thesis using Some rest t2(2,3) by auto
  qed
qed

text \<open>The pages of the slab allocator stay where they are when others are mapped.\<close>

lemma nodes_placed_mapped:
  assumes "nodes_placed t W k s m" and "\<And>q. pte_used (k_pt m q) \<Longrightarrow> pte_used (k_pt m' q)"
  shows "nodes_placed t W k s m'"
  using assms unfolding nodes_placed_def slab_spare_def by blast

section \<open>Examples\<close>

text \<open>A page at page 790529 with slots for 127 nodes; the first two are free.\<close>

abbreviation demo_page :: nat where "demo_page \<equiv> 3238006784"

definition demo_slab :: slab where
  "demo_slab = empty_slab\<lparr>partial_pages := Some demo_page, allocator := Some 4096,
     page_hdrs := (\<lambda>_. no_hdr)(demo_page := \<lparr>next_page_hdr = None, freep = Some (slot NODE_SIZE demo_page 0), num_free_allocs = 2\<rparr>),
     alloc_next := (\<lambda>_. None)(slot NODE_SIZE demo_page 0 := Some (slot NODE_SIZE demo_page 1))\<rparr>"

definition demo_free :: "nat set" where
  "demo_free = {slot NODE_SIZE demo_page 0, slot NODE_SIZE demo_page 1}"

lemma demo_slab_spare: "slab_spare NODE_SIZE (slots NODE_SIZE demo_page - demo_free) 2 demo_slab demo_mapped"
proof -
  let ?l = "[slot NODE_SIZE demo_page 0, slot NODE_SIZE demo_page 1]"
  have "set ?l \<subseteq> slots NODE_SIZE demo_page" by (auto simp: slots_def node_slots)
  then have "slab_rep NODE_SIZE demo_slab [] [demo_page] [] (\<lambda>_. ?l)" by (simp add: slab_rep_def page_ok_def demo_slab_def empty_slab_def slot_inj)
  moreover have "pte_used (k_pt demo_mapped 790529)" by (simp add: demo_mapped_ok(2) pte_used_iff bit_or_iff DEFAULT_K_POLICY_def)
  ultimately show ?thesis unfolding slab_spare_def
    by (intro exI [of _ "[]"] exI [of _ "[demo_page]"] exI [of _ "\<lambda>_. ?l"] conjI) (simp_all add: used_slots_def demo_free_def)
qed

text \<open>The blocks of \<open>demo_tree\<close>, in the next three slots.\<close>

definition demo_nodes :: node_tree where
  "demo_nodes = BNode (slot NODE_SIZE demo_page 2, \<lparr>a_start = 4096, a_end = 4196, a_info = demo_info, a_used = True\<rparr>) Null
     (BNode (slot NODE_SIZE demo_page 3, \<lparr>a_start = 4196, a_end = 4396, a_info = demo_info, a_used = True\<rparr>) Null
       (BNode (slot NODE_SIZE demo_page 4, \<lparr>a_start = 4396, a_end = 12288, a_info = demo_info, a_used = False\<rparr>) Null Null))"

definition demo_others :: "nat set" where
  "demo_others = slots NODE_SIZE demo_page - demo_free - set (node_slots_of demo_nodes)"

lemma demo_nodes_ok: "blocks_of demo_nodes = demo_tree" "nodes_placed demo_nodes demo_others 2 demo_slab demo_mapped"
proof -
  show "blocks_of demo_nodes = demo_tree" by (simp add: demo_nodes_def demo_tree_def)
  have sl: "node_slots_of demo_nodes = [slot NODE_SIZE demo_page 2, slot NODE_SIZE demo_page 3, slot NODE_SIZE demo_page 4]" by (simp add: node_slots_of_def demo_nodes_def)
  have "set (node_slots_of demo_nodes) \<subseteq> slots NODE_SIZE demo_page - demo_free" by (auto simp: sl slots_def demo_free_def node_slots slot_inj)
  then have "set (node_slots_of demo_nodes) \<union> demo_others = slots NODE_SIZE demo_page - demo_free" unfolding demo_others_def by blast
  then show "nodes_placed demo_nodes demo_others 2 demo_slab demo_mapped"
    using demo_slab_spare by (auto simp: nodes_placed_def sl slot_inj demo_slab_def demo_others_def)
qed

lemma demo_null_placed: "nodes_placed Null (slots NODE_SIZE demo_page - demo_free) 2 demo_slab demo_mapped"
  using demo_slab_spare by (simp add: nodes_placed_def node_slots_of_def demo_slab_def)

lemma demo_mapped_room: "2 \<le> card (free_frames demo_mapped)" "lowest_free_frame demo_mapped < NPAGES" "k_lfpe demo_mapped = 790529" "run_ok (k_pt demo_mapped) 3 790530"
proof -
  have "free_frames demo_mapped = free_frames demo_mem - {BOOT_FRAMES}" by (auto simp: demo_mapped_def with_page_def free_frames_def FRAME_USED_def)
  then show "2 \<le> card (free_frames demo_mapped)" using diff_le_mono [OF demo_mem_ok(3), of 1] demo_mem_ok(4) by (simp add: card_Diff_singleton_if)
qed (simp_all add: demo_mapped_def with_page_def run_ok_def)

section \<open>Properties\<close>

text \<open>
  C7. A kernel allocation that no free block can serve. Let the blocks of the tree be in order and mapped, let its nodes have their slots in a slab allocator
  with at least two free slots, and let there be enough free frames (the lowest free frame lies inside the
  table of frames) and, not below the lowest free page, which is not page 0, a run of free pages with one free page behind it. Then \<open>allocate\<close> succeeds
  for every size above 0 that does not wrap around: exactly one block, of the requested size, is added to the blocks in use, disjoint from the
  others; every block still lies in mapped pages, no frame is mapped twice, every node, the new ones too, has a slot of its own,
  and the slots of other trees are as before.
\<close>
theorem kernel_malloc_fresh:
  assumes "memtree_inv (blocks_of t)" and "tree_mapped KernelProc (blocks_of t) m" and "kmap_inv m" and "nodes_placed t W (k + 2) s m"
    and "find_free_block (blocks_of t) sz DEFAULT_HINT_INFO = None"
    and "0 < sz" and "sz + 4095 < W32" and "n = max 2 ((sz + 4095) div 4096)" and "n \<le> card (free_frames m)"
    and "lowest_free_frame m < NPAGES" and "0 < k_lfpe m" and "k_lfpe m \<le> r" and "r + n < NPAGES" and "run_ok (k_pt m) (Suc n) r"
  shows "\<exists>a t' s' m'. tree_allocate sz (DEFAULT_K_PAGE_INFO abi) KernelProc DEFAULT_HINT_INFO t s m = Inr (Some a, t', s', m') \<and>
    memtree_inv (blocks_of t') \<and> tree_mapped KernelProc (blocks_of t') m' \<and> kmap_inv m' \<and> nodes_placed t' W k s' m' \<and>
    allocated a sz (inorder (blocks_of t)) (inorder (blocks_of t'))"
proof -
  have pinfo: "DEFAULT_K_PAGE_INFO abi = \<lparr>pi_flags = MAP_ANONYMOUS abi OR MAP_PRIVATE abi, pi_policy = PAGE_PRESENT OR PAGE_WRITE\<rparr>"
    by (simp add: DEFAULT_K_PAGE_INFO_def)
  have hi: "\<not> is_mandatory DEFAULT_HINT_INFO" "max (k_lfpe m) (ADDR_PAGE (hint DEFAULT_HINT_INFO)) = k_lfpe m" by (simp_all add: DEFAULT_HINT_INFO_def ADDR_PAGE_def)
  obtain b m' where sb: "sbrk n (DEFAULT_K_PAGE_INFO abi) DEFAULT_HINT_INFO KernelProc m = Inr (Some (page_addr b), m')"
    and b: "k_lfpe m \<le> b" "b \<le> r" "run_ok (k_pt m) n b" and km': "kmap_inv m'"
    and out: "\<forall>q. q \<notin> {b..<b + n} \<longrightarrow> k_pt m' q = k_pt m q"
    and ins: "\<forall>q\<in>{b..<b + n}. \<exists>f\<in>unused_frames m. k_pt m' q = FRAME_ID_ADDR f OR (PAGE_PRESENT OR PAGE_WRITE)"
    using sbrk_kernel_ok [OF assms(3) refl assms(9,10) hi(1) _ assms(13,14), of "MAP_ANONYMOUS abi OR MAP_PRIVATE abi"] assms(12) pinfo unfolding hi(2) by auto
  have "0 < b" "b + n < NPAGES" using b(1,2) assms(11,13) by auto
  from allocate_kernel_at [OF assms(1,2,5,6,7) pinfo assms(8) sb this b(3) out ins]
  obtain bt where bt: "allocate sz (DEFAULT_K_PAGE_INFO abi) KernelProc DEFAULT_HINT_INFO (blocks_of t) m = Inr (Some (page_addr b), bt, m')" "memtree_inv bt"
    "tree_mapped KernelProc bt m'" "allocated (page_addr b) sz (inorder (blocks_of t)) (inorder bt)" by blast
  have "pte_used (k_pt m' q)" if "pte_used (k_pt m q)" for q
  proof -
    have "\<not> (b \<le> q \<and> q < b + n)" using that b(3) le_Suc_ex [of b q] by (auto simp: run_ok_def)
    then show ?thesis using that out by simp
  qed
  from nodes_placed_mapped [OF assms(4) this] have "nodes_placed t W (Suc (Suc k)) s m'" by simp
  from tree_allocate_refines [OF bt(1) this] bt km' show ?thesis by metis
qed

theorem kernel_malloc_fresh_witness:
  "\<exists>a t' s' m'. tree_allocate 100 (DEFAULT_K_PAGE_INFO demo_abi) KernelProc DEFAULT_HINT_INFO Null demo_slab demo_mapped = Inr (Some a, t', s', m') \<and>
    memtree_inv (blocks_of t') \<and> tree_mapped KernelProc (blocks_of t') m' \<and> kmap_inv m' \<and> nodes_placed t' (slots NODE_SIZE demo_page - demo_free) 0 s' m' \<and>
    allocated a 100 (inorder (blocks_of Null)) (inorder (blocks_of t'))"
  by (rule kernel_malloc_fresh [where n = 2 and r = 790530])
    (use demo_null_placed demo_mapped_room demo_mapped_ok(1) in \<open>simp_all add: memtree_inv_def tree_mapped_def numeral_2_eq_2 numeral_3_eq_3\<close>)

text \<open>
  C30. An allocation that a free block can serve. Let the blocks be in order, the size be above 0, the policy ask for exactly one of present and lazily zeroed pages, and the slab allocator of the
  nodes have at least two free slots. Then the first \<open>sz\<close> bytes of a free block become the new block in use, the rest of it stays free, every other block is as before, and
  neither the page tables nor the frames change; every node, that of the rest too, has a slot of its own, and the slots of other trees are as before.
\<close>
theorem malloc_reuses_block:
  assumes "memtree_inv (blocks_of t)" and "nodes_placed t W (k + 2) s m"
    and "has_flag (pi_policy pinfo) PAGE_PRESENT \<noteq> has_flag (pi_policy pinfo) PAGE_LAZY_ZERO"
    and "0 < sz" and "find_free_block (blocks_of t) sz hi \<noteq> None"
  shows "\<exists>d xs ys t' s'. tree_allocate sz pinfo p hi t s m = Inr (Some (a_start d), t', s', m) \<and> inorder (blocks_of t) = xs @ d # ys \<and>
    \<not> a_used d \<and> sz \<le> node_size d \<and> inorder (blocks_of t') = xs @ carve pinfo sz d @ ys \<and> memtree_inv (blocks_of t') \<and> nodes_placed t' W k s' m"
proof -
  obtain path where "find_free_block (blocks_of t) sz hi = Some path" using assms(5) by blast
  from allocate_from_tree [OF assms(1,3,4) this, of p m] obtain d xs ys bt where
    bt: "allocate sz pinfo p hi (blocks_of t) m = Inr (Some (a_start d), bt, m)" and d: "inorder (blocks_of t) = xs @ d # ys" "\<not> a_used d" "sz \<le> node_size d"
      "inorder bt = xs @ carve pinfo sz d @ ys" "memtree_inv bt" by metis
  have "nodes_placed t W (Suc (Suc k)) s m" using assms(2) by simp
  from tree_allocate_refines [OF bt this] d show ?thesis by metis
qed

theorem malloc_reuses_block_witness:
  "\<exists>d xs ys t' s'. tree_allocate 64 demo_info KernelProc DEFAULT_HINT_INFO demo_nodes demo_slab demo_mapped = Inr (Some (a_start d), t', s', demo_mapped) \<and>
    inorder (blocks_of demo_nodes) = xs @ d # ys \<and> \<not> a_used d \<and> 64 \<le> node_size d \<and> inorder (blocks_of t') = xs @ carve demo_info 64 d @ ys \<and>
    memtree_inv (blocks_of t') \<and> nodes_placed t' demo_others 0 s' demo_mapped"
proof (rule malloc_reuses_block)
  show "find_free_block (blocks_of demo_nodes) 64 DEFAULT_HINT_INFO \<noteq> None"
    by (simp add: demo_nodes_ok(1) demo_tree_def DEFAULT_HINT_INFO_def node_size_def sub32_def)
  show "has_flag (pi_policy demo_info) PAGE_PRESENT \<noteq> has_flag (pi_policy demo_info) PAGE_LAZY_ZERO"
    using k_policy by (simp add: demo_info_def)
qed (use demo_nodes_ok demo_tree_inv in \<open>simp_all add: numeral_2_eq_2\<close>)

end
