(* ===== verification/Boot.thy ===== *)
theory Boot
  imports MemTree
begin

text \<open>
  Setting the memory up at boot: \<open>allocate_page_tables\<close>, \<open>init_frame_to_page\<close> and \<open>init_frame_rc\<close>
  of \<^verbatim>\<open>src/kernel/core/memory.cpp\<close>. The lemmas relate the state they leave to the invariants of the page level. The kernel process,
  whose constructor allocates before the process has a lowest free page, is not part of this model; \<open>allocate_at_zero\<close> shows what such an allocation does.
\<close>

section \<open>Model\<close>

text \<open>\<open>fill lo n g h\<close>: the entries \<open>lo\<close>, ..., \<open>lo + n - 1\<close> of a table become \<open>g 0\<close>, ..., \<open>g (n - 1)\<close>.\<close>

definition fill :: "nat \<Rightarrow> nat \<Rightarrow> (nat \<Rightarrow> 'a) \<Rightarrow> (nat \<Rightarrow> 'a) \<Rightarrow> nat \<Rightarrow> 'a" where
  "fill lo n g h i = (if lo \<le> i \<and> i < lo + n then g (i - lo) else h i)"

text \<open>The counters between table 767 and table 771 keep what the memory held, before they are filled from table 768 on.\<close>

definition init_frame_rc :: "kmem \<Rightarrow> kmem" where
  "init_frame_rc m =
     (let pt = fill (771 * 1024) 1024 (\<lambda>i. FRAME_ID_ADDR (1024 * 3 + i) OR PAGE_WRITE OR PAGE_PRESENT) (k_pt m);
          rc = fill (771 * 1024) ((1024 - 771) * 1024) (\<lambda>_. 0) (fill 0 (767 * 1024) (\<lambda>_. 0) (frame_rc m)) in
      m\<lparr>k_pt := pt, frame_rc := fill (768 * 1024) (3 * 1024) (\<lambda>i. if pte_used (pt (768 * 1024 + i))
          then unat (pt (768 * 1024 + i) AND (PAGE_PRESENT OR PAGE_LAZY_ZERO)) else 0) rc\<rparr>)"

definition init_frame_to_page :: "kmem \<Rightarrow> kmem" where
  "init_frame_to_page m =
     (let pt = fill (770 * 1024) 1024 (\<lambda>i. FRAME_ID_ADDR (1024 * 2 + i) OR PAGE_WRITE OR PAGE_PRESENT) (k_pt m);
          ftp = fill 0 (1024 * 1024) (\<lambda>_. NONE32) (frame_to_page m);
          ftp1 = fill 0 1024 (\<lambda>i. if pt (768 * 1024 + i) = 0 then ftp i else 768 * 1024 + i) ftp in
      m\<lparr>k_pt := pt, frame_to_page := fill 1024 (3 * 1024) (\<lambda>i. 769 * 1024 + i) ftp1\<rparr>)"

text \<open>
  \<open>asm_pte\<close> is the entry of \<open>asm_pt1\<close> that maps \<open>asm_pt1\<close> itself. \<open>k_pt\<close> before the call stands
  for what physical memory holds in frames 1024 to 2047, where the tables are placed. The
  result is the lowest free page, \<open>asm_pt1\<close>, the page directory and the state.
\<close>

definition allocate_page_tables ::
  "nat \<Rightarrow> (nat \<Rightarrow> u32) \<Rightarrow> (nat \<Rightarrow> u32) \<Rightarrow> kmem \<Rightarrow> (nat \<times> (nat \<Rightarrow> u32) \<times> (nat \<Rightarrow> u32) \<times> kmem) res" where
  "allocate_page_tables asm_pte asm_pt1 pdt m =
     (if asm_pt1 1022 \<noteq> 0 then Inl (Irrecoverable ''Not enough space to initialize memory, kernel is too large'')
      else
        let new_page = FRAME_ID_ADDR (1024 + 769) OR PAGE_WRITE OR PAGE_PRESENT;
            asm1 = asm_pt1(1022 := new_page);
            pt1 = fill (769 * 1024) 1024 (\<lambda>i. FRAME_ID_ADDR (1024 + i) OR PAGE_WRITE OR PAGE_PRESENT) (k_pt m);
            pdt1 = pdt(769 := asm1 1022);
            asm2 = asm1(1022 := 0);
            pdt2 = fill 0 1024 (\<lambda>i. pdt1 i OR PAGE_USER) pdt1;
            pt2 = fill (772 * 1024) ((1024 - 772) * 1024) (\<lambda>_. 0) (fill 0 (769 * 1024) (\<lambda>_. 0) pt1);
            pt3 = fill (768 * 1024) 1024 asm2 pt2;
            pdt3 = fill 0 1024 (\<lambda>i. FRAME_ID_ADDR (1024 + i) OR PAGE_PRESENT OR PAGE_WRITE) pdt2;
            m1 = init_frame_rc (init_frame_to_page (m\<lparr>k_pt := pt3(768 * 1024 + asm_pte := 0)\<rparr>)) in
        Inr ((768 + 4) * 1024, asm2, pdt3, m1\<lparr>lowest_free_frame := 1024 * 4, lowest_free_pe_user := 1\<rparr>))"

section \<open>The state after boot\<close>

lemma boot_tables:
  assumes "allocate_page_tables asm_pte asm_pt1 pdt m = Inr (l, a, d, m')" and "asm_pte < 1024"
  shows "l = 790528" and "lowest_free_frame m' = BOOT_FRAMES" and "a = asm_pt1"
    and "p < NPAGES \<Longrightarrow> k_pt m' p = (if p < 786432 \<or> 790528 \<le> p then 0
      else if p < 787456 then (if p = 786432 + asm_pte then 0 else asm_pt1 (p - 786432))
      else FRAME_ID_ADDR (p - 786432) OR PAGE_WRITE OR PAGE_PRESENT)"
    and "f < NPAGES \<Longrightarrow> BOOT_FRAMES \<le> f \<Longrightarrow> frame_to_page m' f = NONE32"
    and "f < SOUND_FRAMES \<Longrightarrow> frame_rc m' f = 0"
  using assms by (auto simp: allocate_page_tables_def init_frame_rc_def init_frame_to_page_def fill_def Let_def
      fun_upd_idem algebra_simps split: if_splits)

text \<open>The boot page table maps nothing above the frames set aside at boot.\<close>

definition boot_table_ok :: "(nat \<Rightarrow> u32) \<Rightarrow> bool" where
  "boot_table_ok asm_pt1 \<longleftrightarrow> asm_pt1 1022 = 0 \<and> (\<forall>i<1024. pte_frame (asm_pt1 i) < BOOT_FRAMES)"

lemma pte_frame_zero [simp]: "pte_frame 0 = 0"
  by (simp add: pte_frame_def)

lemma boot_map:
  assumes bt: "boot_table_ok asm_pt1" and pte: "asm_pte < 1024"
    and al: "allocate_page_tables asm_pte asm_pt1 pdt m = Inr (l, a, d, m')"
  shows "kmap_inv m'" and "free_frames m' = {BOOT_FRAMES..<SOUND_FRAMES}"
proof -
  note b = boot_tables [OF al pte]
  have "pte_frame (FRAME_ID_ADDR f OR PAGE_WRITE OR PAGE_PRESENT) = f" if "f < NPAGES" for f
    using pte_frame_make [OF that, of "PAGE_WRITE OR PAGE_PRESENT"] by (simp add: or.assoc)
  then have low: "pte_frame (k_pt m' p) < BOOT_FRAMES" if "p < NPAGES" for p
    using bt b(4) [OF that] by (auto simp: boot_table_ok_def)
  have un: "\<not> FRAME_USED m' f" if "BOOT_FRAMES \<le> f" "f < NPAGES" for f
    using b(5) that by (simp add: FRAME_USED_def)
  show "kmap_inv m'"
    using b(2,6) low un unfolding kmap_inv_def by (auto simp: not_le [symmetric])
  show "free_frames m' = {BOOT_FRAMES..<SOUND_FRAMES}"
    using un by (auto simp: free_frames_def)
qed

text \<open>The counters of the frames that share their number with a used kernel page are not zero, although the frames are free.\<close>

lemma boot_counters:
  assumes "allocate_page_tables asm_pte asm_pt1 pdt m = Inr (l, a, d, m')" and "asm_pte < 1024"
    and "787456 \<le> f" and "f < 789504"
  shows "frame_rc m' f = 1" and "\<not> FRAME_USED m' f"
proof -
  let ?e = "\<lambda>i. FRAME_ID_ADDR i OR PAGE_WRITE OR PAGE_PRESENT"
  have used: "pte_used (?e i)" for i by (simp add: pte_used_iff bit_or_iff)
  have "?e i AND (PAGE_PRESENT OR PAGE_LAZY_ZERO) = 1" for i
  proof (rule bit_word_eqI)
    fix n assume "n < LENGTH(32)"
    have "bit (0x200 :: u32) n \<longleftrightarrow> n = 9" "bit (0x2 :: u32) n \<longleftrightarrow> n = 1"
      using bit_exp_iff [of 9 n, where ?'a = u32] bit_exp_iff [of 1 n, where ?'a = u32] \<open>n < LENGTH(32)\<close> by auto
    then show "bit (?e i AND (PAGE_PRESENT OR PAGE_LAZY_ZERO)) n \<longleftrightarrow> bit (1 :: u32) n"
      unfolding bit_and_iff bit_or_iff bit_FRAME_ID_ADDR bit_1_iff by auto
  qed
  with used show "frame_rc m' f = 1"
    using assms by (auto simp: allocate_page_tables_def init_frame_rc_def init_frame_to_page_def fill_def Let_def
        split: if_splits)
  show "\<not> FRAME_USED m' f" using boot_tables(5) [OF assms(1,2), of f] assms(3,4) by (simp add: FRAME_USED_def)
qed

definition demo_boot_table :: "nat \<Rightarrow> u32" where
  "demo_boot_table i = (if 256 \<le> i \<and> i < 300 then 0x100003 else 0)"

lemma demo_boot_table_ok: "boot_table_ok demo_boot_table"
  by (simp add: boot_table_ok_def demo_boot_table_def pte_frame_def)



text \<open>
  An allocation made while \<open>lowest_free_pe\<close> of the kernel process is 0, as it is inside the
  constructor of that process, maps two pages at address 0 and then fails, because it takes the
  address 0 for a failure: the pages and their frames are lost.
\<close>
theorem allocate_at_zero:
  assumes inv: "kmap_inv m" and lf: "k_lfpe m = 0" "lowest_free_frame m < NPAGES" and free: "2 \<le> card (free_frames m)"
    and low: "k_pt m 0 = 0" "k_pt m 1 = 0" "k_pt m 2 = 0" and n: "0 < n" "n \<le> 8192"
  shows "\<exists>m'. allocate n (DEFAULT_K_PAGE_INFO abi) KernelProc DEFAULT_HINT_INFO Null m = Inr (None, Null, m') \<and>
    bit (k_pt m' 0) 0 \<and> bit (k_pt m' 1) 0"
proof -
  let ?i = "DEFAULT_K_PAGE_INFO abi"
  have pinfo: "?i = \<lparr>pi_flags = MAP_ANONYMOUS abi OR MAP_PRIVATE abi, pi_policy = PAGE_PRESENT OR PAGE_WRITE\<rparr>"
    by (simp add: DEFAULT_K_PAGE_INFO_def)
  have z: "\<not> pte_used 0" by (simp add: pte_used_iff)
  have run: "run_ok (k_pt m) (Suc 2) 0" using low z by (auto simp: run_ok_def less_Suc_eq numeral_2_eq_2)
  obtain m' where sb: "sbrk 2 ?i DEFAULT_HINT_INFO KernelProc m = Inr (Some 0, m')"
    and pt: "\<forall>q\<in>{0..<2}. \<exists>f\<in>unused_frames m. k_pt m' q = FRAME_ID_ADDR f OR (PAGE_PRESENT OR PAGE_WRITE)"
    using sbrk_kernel_ok [OF inv refl free lf(2), of DEFAULT_HINT_INFO 0 "MAP_ANONYMOUS abi OR MAP_PRIVATE abi"] run lf(1)
    by (auto simp: pinfo DEFAULT_HINT_INFO_def ADDR_PAGE_def page_addr_def)
  have "max 2 (ADDR_PAGE (sub32 (add32 n PAGE_SIZE) 1)) = 2"
    using n round_up_eq [of n] by (auto simp: ADDR_PAGE_def max_def)
  then have "allocate n ?i KernelProc DEFAULT_HINT_INFO Null m = Inr (None, Null, m')"
    using sb k_policy by (simp add: allocate_def node_physical_alloc_def pinfo Let_def)
  moreover have "bit (k_pt m' q) 0" if "q < 2" for q
    using bspec [OF pt, of q] that by (auto simp: bit_or_iff)
  ultimately show ?thesis by (intro exI [of _ m']) simp
qed

theorem allocate_at_zero_witness:
  "\<exists>m'. allocate 24 (DEFAULT_K_PAGE_INFO demo_abi) KernelProc DEFAULT_HINT_INFO Null (demo_mem\<lparr>k_lfpe := 0\<rparr>) = Inr (None, Null, m') \<and>
     bit (k_pt m' 0) 0 \<and> bit (k_pt m' 1) 0"
proof (rule allocate_at_zero)
  show "kmap_inv (demo_mem\<lparr>k_lfpe := 0\<rparr>)" using demo_mem_ok(1) by (simp add: kmap_inv_def FRAME_USED_def)
  have "free_frames (demo_mem\<lparr>k_lfpe := 0\<rparr>) = free_frames demo_mem" by (simp add: free_frames_def FRAME_USED_def)
  then show "2 \<le> card (free_frames (demo_mem\<lparr>k_lfpe := 0\<rparr>))" using demo_mem_ok(3) by simp
qed simp_all

end
