(* ===== verification/Files.thy ===== *)
theory Files
  imports CircularBuffer
begin

text \<open>
  Open files: the classes of \<^verbatim>\<open>src/kernel/file_management/FileInterface.cpp\<close> (regular files, terminals and
  pipes) and the table of open files of \<^verbatim>\<open>VFS.cpp\<close>. Every open file is created into the table slot of
  its number and stays there until it is deleted, so a pointer to it is its number; the two ends of a
  pipe point to each other and share a buffer, which is named by the number of its creation. The
  abstract class \<^verbatim>\<open>FS\<close> and the resolution of paths are parameters (\<open>fs_ops\<close>), and so are
  the flag bits that the C library's headers define (\<open>open_abi\<close>). The frame buffer, to which terminals
  write, is the log \<open>v_tty\<close> of what was written. Allocation of the objects does not fail.
\<close>

unbundle bit_operations_syntax

section \<open>Model\<close>

datatype inode_type = INodeFile | INodeDir

text \<open>The superblock, which names the mounted file system, is null for purely virtual inodes.\<close>

record inode =
  i_size :: nat
  i_type :: inode_type
  i_lba :: nat
  i_blocks :: nat
  i_superblock :: "nat option"

text \<open>A directory entry: its address, the address of its inode, its name and its parent.\<close>

datatype dentry = Dentry (d_addr: nat) (d_inode: nat) (d_name: string) (d_parent: "dentry option")

primrec absolute_path_length :: "dentry \<Rightarrow> nat" where
  "absolute_path_length (Dentry a i n p) = length n + 1 + (case map_option absolute_path_length p of None \<Rightarrow> 0 | Some l \<Rightarrow> l)"

text \<open>\<open>write_name\<close> appends to the text written so far.\<close>

primrec write_name :: "dentry \<Rightarrow> bool \<Rightarrow> string \<Rightarrow> string" where
  "write_name (Dentry a i n p) is_last str =
     (let str1 = (case map_option write_name p of None \<Rightarrow> str | Some w \<Rightarrow> w False str)
      in str1 @ n @ (if p \<noteq> None \<and> \<not> is_last then ''/'' else ''''))"

definition get_absolute_path :: "dentry \<Rightarrow> string" where
  "get_absolute_path d = write_name d True []"

datatype pipe_end = ReadEnd | WriteEnd

datatype tty_target = STDOUT | STDERR

text \<open>A pipe end knows its other end, unless that is closed, and the buffer.\<close>

datatype file_kind =
    FFile dentry
  | FPipe pipe_end "nat option" nat
  | FTTY tty_target

record file_iface =
  f_fd :: nat
  f_flags :: u32
  f_offset :: nat
  f_rc :: int
  f_kind :: file_kind

type_synonym disk = "nat \<Rightarrow> u8 list"

record vfs =
  v_fds :: "file_iface option list"
  v_lowest_free_fd :: int
  v_bufs :: "nat \<Rightarrow> u8 cbuf"
  v_next_buf :: nat
  v_inodes :: "nat \<Rightarrow> inode"
  v_disk :: disk
  v_preloads :: "(string \<times> u8 list) list"
  v_tty :: "(tty_target \<times> u8 list) list"

text \<open>
  What the open files need of a file system: \<open>fs_load d offset length\<close> returns the bytes read;
  \<open>fs_write_buf\<close> makes a file consist of the given bytes and returns its new size; \<open>fs_resize\<close> likewise
  sets the size. \<open>fs_lookup\<close> is \<^verbatim>\<open>VFS::get_file_dentry\<close>, \<open>fs_touch\<close> is \<^verbatim>\<open>VFS::touch\<close>, and
  \<open>fs_fresh n\<close> is what \<open>n\<close> newly allocated bytes hold.
\<close>

record fs_ops =
  fs_load :: "dentry \<Rightarrow> nat \<Rightarrow> nat \<Rightarrow> disk \<Rightarrow> u8 list option"
  fs_write_buf :: "dentry \<Rightarrow> u8 list \<Rightarrow> disk \<Rightarrow> (disk \<times> nat) option"
  fs_resize :: "dentry \<Rightarrow> nat \<Rightarrow> disk \<Rightarrow> (disk \<times> nat) option"
  fs_lookup :: "string \<Rightarrow> string option \<Rightarrow> vfs \<Rightarrow> dentry option"
  fs_touch :: "string \<Rightarrow> vfs \<Rightarrow> (dentry \<times> vfs) option"
  fs_fresh :: "nat \<Rightarrow> u8 list"

record open_abi =
  O_RDONLY :: u32
  O_RDWR :: u32
  O_WRONLY :: u32
  O_TRUNC :: u32
  O_CREAT :: u32
  O_SYNC :: u32
  O_APPEND :: u32
  O_NONBLOCK :: u32
  FD_CLOEXEC :: u32

abbreviation MAX_FD :: nat where "MAX_FD \<equiv> 100"
abbreviation PIPE_BUF_SIZE :: nat where "PIPE_BUF_SIZE \<equiv> 65536"

subsection \<open>The table of open files\<close>

text \<open>The loops \<^verbatim>\<open>while (i < MAX && table[i]) i++\<close> over a table of pointers.\<close>

function scan_used :: "'a option list \<Rightarrow> nat \<Rightarrow> nat" where
  "scan_used xs i = (if i < length xs \<and> xs ! i \<noteq> None then scan_used xs (Suc i) else i)"
  by pat_completeness auto
termination by (relation "measure (\<lambda>(xs, i). length xs - i)") auto

declare scan_used.simps [simp del]

text \<open>The start index of the loop is unsigned: \<open>-1\<close> is beyond the end of the table.\<close>

definition vfs_get_free_fd :: "vfs \<Rightarrow> nat option \<times> vfs" where
  "vfs_get_free_fd v =
     (if v_lowest_free_fd v < 0 then (None, v)
      else let i = scan_used (v_fds v) (nat (v_lowest_free_fd v)) in
        if i < MAX_FD then (Some i, v\<lparr>v_lowest_free_fd := int (scan_used (v_fds v) (i + 1))\<rparr>)
        else (None, v))"

definition open_tty :: "open_abi \<Rightarrow> tty_target \<Rightarrow> vfs \<Rightarrow> (errno + nat) \<times> vfs" where
  "open_tty abi target v =
     (case vfs_get_free_fd v of
        (None, v1) \<Rightarrow> (Inl EMFILE, v1)
      | (Some fd, v1) \<Rightarrow>
          (Inr fd, v1\<lparr>v_fds := (v_fds v1)[fd := Some \<lparr>f_fd = fd, f_flags = O_RDWR abi, f_offset = 0, f_rc = 0, f_kind = FTTY target\<rparr>]\<rparr>))"

text \<open>\<open>Pipe::create_pipe\<close>: the read end, then the write end, which makes the buffer, then both are joined.\<close>

definition create_pipe :: "nat \<Rightarrow> nat \<Rightarrow> u32 \<Rightarrow> vfs \<Rightarrow> (file_iface \<times> file_iface) \<times> vfs" where
  "create_pipe rfd wfd fl v =
     (let b = v_next_buf v;
          buf = \<lparr>cb_capacity = PIPE_BUF_SIZE, cb_beg = 0, cb_size = 0, cb_data = replicate PIPE_BUF_SIZE 0\<rparr>
      in ((\<lparr>f_fd = rfd, f_flags = fl, f_offset = 0, f_rc = 0, f_kind = FPipe ReadEnd (Some wfd) b\<rparr>,
           \<lparr>f_fd = wfd, f_flags = fl, f_offset = 0, f_rc = 0, f_kind = FPipe WriteEnd (Some rfd) b\<rparr>),
          v\<lparr>v_bufs := (v_bufs v)(b := buf), v_next_buf := b + 1\<rparr>))"

definition vfs_pipe :: "vfs \<Rightarrow> (errno + nat \<times> nat) \<times> vfs" where
  "vfs_pipe v =
     (case vfs_get_free_fd v of
        (None, v1) \<Rightarrow> (Inl ENFILE, v1)
      | (Some rfd, v1) \<Rightarrow>
          (case vfs_get_free_fd v1 of
             (None, v2) \<Rightarrow> (Inl ENFILE, v2\<lparr>v_lowest_free_fd := min (int rfd) (v_lowest_free_fd v2)\<rparr>)
           | (Some wfd, v2) \<Rightarrow>
               let ((rp, wp), v3) = create_pipe rfd wfd 0 v2
               in (Inr (rfd, wfd), v3\<lparr>v_fds := (v_fds v3)[rfd := Some rp, wfd := Some wp]\<rparr>)))"

text \<open>The system file number of an exhausted table is \<open>-1\<close> when the error exit uses it.\<close>

definition open_failed :: "int \<Rightarrow> errno \<Rightarrow> vfs \<Rightarrow> (errno + nat) \<times> vfs" where
  "open_failed system_fd e v = (Inl e, v\<lparr>v_lowest_free_fd := min (v_lowest_free_fd v) system_fd\<rparr>)"

definition set_inode_size :: "nat \<Rightarrow> disk \<times> nat \<Rightarrow> vfs \<Rightarrow> vfs" where
  "set_inode_size i r v =
     v\<lparr>v_disk := fst r, v_inodes := (v_inodes v)(i := (v_inodes v i)\<lparr>i_size := snd r\<rparr>)\<rparr>"

definition vfs_resize :: "fs_ops \<Rightarrow> dentry \<Rightarrow> nat \<Rightarrow> vfs \<Rightarrow> bool \<times> vfs" where
  "vfs_resize fs d new_size v =
     (case fs_resize fs d new_size (v_disk v) of
        None \<Rightarrow> (False, v)
      | Some r \<Rightarrow> (True, set_inode_size (d_inode d) r v))"

definition open_found :: "open_abi \<Rightarrow> fs_ops \<Rightarrow> nat \<Rightarrow> u32 \<Rightarrow> dentry \<Rightarrow> vfs \<Rightarrow> (errno + nat) \<times> vfs" where
  "open_found abi fs system_fd fl d v =
     (if i_type (v_inodes v (d_inode d)) = INodeDir then open_failed (int system_fd) EISDIR v
      else let v1 = (if fl AND O_TRUNC abi \<noteq> 0 then snd (vfs_resize fs d 0 v) else v);
               file = \<lparr>f_fd = system_fd, f_flags = fl, f_offset = 0, f_rc = 0, f_kind = FFile d\<rparr> in
        if fl AND O_TRUNC abi \<noteq> 0 \<and> (fl AND O_WRONLY abi \<noteq> 0 \<or> fl AND O_RDWR abi \<noteq> 0)
        then case fs_write_buf fs d [] (v_disk v1) of
               None \<Rightarrow> open_failed (int system_fd) EIO v1
             | Some r \<Rightarrow> let v2 = set_inode_size (d_inode d) r v1
                         in (Inr system_fd, v2\<lparr>v_fds := (v_fds v2)[system_fd := Some file]\<rparr>)
        else (Inr system_fd, v1\<lparr>v_fds := (v_fds v1)[system_fd := Some file]\<rparr>))"

definition open_file :: "open_abi \<Rightarrow> fs_ops \<Rightarrow> string \<Rightarrow> u32 \<Rightarrow> string option \<Rightarrow> vfs \<Rightarrow> (errno + nat) \<times> vfs" where
  "open_file abi fs pathname fl work_dir v =
     (let supported = O_RDONLY abi OR O_RDWR abi OR O_WRONLY abi OR O_TRUNC abi OR O_CREAT abi OR O_SYNC abi OR O_APPEND abi
      in case vfs_get_free_fd v of
        (None, v1) \<Rightarrow> open_failed (-1) ENFILE v1
      | (Some system_fd, v1) \<Rightarrow>
          if fl AND NOT supported \<noteq> 0 then open_failed (int system_fd) EINVAL v1
          else (case fs_lookup fs pathname work_dir v1 of
                  Some d \<Rightarrow> open_found abi fs system_fd fl d v1
                | None \<Rightarrow>
                    if fl AND O_CREAT abi \<noteq> 0
                    then (case fs_touch fs pathname v1 of
                            None \<Rightarrow> open_failed (int system_fd) EACCES v1
                          | Some (d, v2) \<Rightarrow> open_found abi fs system_fd fl d v2)
                    else open_failed (int system_fd) ENOENT v1))"

subsection \<open>Reading, writing and seeking\<close>

text \<open>\<open>preload_read\<close>: the bytes of a file that was loaded at boot; \<open>None\<close> if the file is not one of these.\<close>

definition preload_read :: "nat \<Rightarrow> nat \<Rightarrow> dentry \<Rightarrow> vfs \<Rightarrow> u8 list option res" where
  "preload_read offset n d v =
     (case find (\<lambda>(path, _). path = get_absolute_path d) (v_preloads v) of
        None \<Rightarrow> Inr None
      | Some (_, data) \<Rightarrow>
          if offset + n \<le> length data then Inr (Some (take n (drop offset data))) else Inl OutOfBounds)"

definition file_read :: "fs_ops \<Rightarrow> dentry \<Rightarrow> nat \<Rightarrow> file_iface \<Rightarrow> vfs \<Rightarrow> ((errno + u8 list) \<times> file_iface) res" where
  "file_read fs d n f v =
     (let l = min n (sub32 (i_size (v_inodes v (d_inode d))) (f_offset f)) in
      if i_type (v_inodes v (d_inode d)) \<noteq> INodeFile then Inr (Inl EINVAL, f)
      else bind_res (preload_read (f_offset f) n d v) (\<lambda>p.
        case p of
          Some bytes \<Rightarrow> Inr (Inr bytes, f\<lparr>f_offset := add32 (f_offset f) n\<rparr>)
        | None \<Rightarrow>
            (case fs_load fs d (f_offset f) l (v_disk v) of
               None \<Rightarrow> Inr (Inl EIO, f)
             | Some bytes \<Rightarrow> Inr (Inr bytes, f\<lparr>f_offset := add32 (f_offset f) (length bytes)\<rparr>))))"

text \<open>\<open>whence\<close> is 0 (from the start), 1 (from the current position) or 2 (from the end).\<close>

definition file_lseek :: "dentry \<Rightarrow> int \<Rightarrow> int \<Rightarrow> file_iface \<Rightarrow> vfs \<Rightarrow> (errno + int) \<times> file_iface" where
  "file_lseek d offset whence f v =
     (if whence < 0 \<or> whence > 2 then (Inl EINVAL, f)
      else let sz = i_size (v_inodes v (d_inode d));
               ref = (if whence = 0 then 0 else if whence = 1 then offset else sint (word_of_nat sz :: u32));
               new_offset = sint (word_of_int (ref + offset) :: u32) in
        if new_offset < 0 then (Inl EINVAL, f)
        else if nat new_offset > sz then (Inl EINVAL, f)
        else (Inr new_offset, f\<lparr>f_offset := nat new_offset\<rparr>))"

definition file_write :: "open_abi \<Rightarrow> fs_ops \<Rightarrow> dentry \<Rightarrow> u8 list \<Rightarrow> file_iface \<Rightarrow> vfs \<Rightarrow> ((errno + nat) \<times> file_iface \<times> vfs) res" where
  "file_write abi fs d buf f v =
     (if i_type (v_inodes v (d_inode d)) \<noteq> INodeFile then Inr (Inl EINVAL, f, v)
      else
        let file_size = i_size (v_inodes v (d_inode d)); n = length buf in
        case fs_load fs d 0 file_size (v_disk v) of
          None \<Rightarrow> Inr (Inl EIO, f, v)
        | Some loaded \<Rightarrow>
            let file = blit (fs_fresh fs (file_size + n)) 0 loaded;
                offset = (if f_flags f AND O_APPEND abi \<noteq> 0 then file_size else f_offset f) in
            if offset > file_size then Inl OutOfBounds
            else
              let moved = blit file (offset + n) (take (file_size - offset) (drop offset file));
                  new_file = blit moved offset buf in
              case fs_write_buf fs d new_file (v_disk v) of
                None \<Rightarrow> Inr (Inl EIO, f\<lparr>f_offset := offset\<rparr>, v)
              | Some r \<Rightarrow> Inr (Inr n, f\<lparr>f_offset := add32 offset n\<rparr>, set_inode_size (d_inode d) r v))"

definition pipe_read :: "pipe_end \<Rightarrow> nat \<Rightarrow> nat \<Rightarrow> vfs \<Rightarrow> (errno + u8 list) \<times> vfs" where
  "pipe_read e b n v =
     (if e \<noteq> ReadEnd then (Inl EINVAL, v)
      else let (secs, buf') = cbuf_read n (v_bufs v b)
           in (Inr (section_bytes (v_bufs v b) (fst secs) @ section_bytes (v_bufs v b) (snd secs)),
               v\<lparr>v_bufs := (v_bufs v)(b := buf')\<rparr>))"

definition pipe_write :: "pipe_end \<Rightarrow> nat option \<Rightarrow> nat \<Rightarrow> u8 list \<Rightarrow> vfs \<Rightarrow> ((errno + nat) \<times> vfs) res" where
  "pipe_write e other b buf v =
     (if e = ReadEnd then Inr (Inl EINVAL, v)
      else if other = None then Inr (Inl EPIPE, v)
      else bind_res (cbuf_write buf (length buf) (v_bufs v b)) (\<lambda>(n, buf').
        Inr (Inr n, v\<lparr>v_bufs := (v_bufs v)(b := buf')\<rparr>)))"

definition put_file :: "nat \<Rightarrow> file_iface \<Rightarrow> vfs \<Rightarrow> vfs" where
  "put_file fd f v = v\<lparr>v_fds := (v_fds v)[fd := Some f]\<rparr>"

text \<open>The virtual functions of an open file: \<open>read\<close>, \<open>write\<close>, \<open>lseek\<close> and the pipe queries.\<close>

definition iface_read :: "fs_ops \<Rightarrow> file_iface \<Rightarrow> nat \<Rightarrow> vfs \<Rightarrow> ((errno + u8 list) \<times> vfs) res" where
  "iface_read fs f n v =
     (case f_kind f of
        FFile d \<Rightarrow> bind_res (file_read fs d n f v) (\<lambda>(r, f'). Inr (r, put_file (f_fd f) f' v))
      | FPipe e _ b \<Rightarrow> Inr (pipe_read e b n v)
      | FTTY _ \<Rightarrow> Inl (Irrecoverable ''reading from a TTY is not supported yet''))"

definition iface_write :: "open_abi \<Rightarrow> fs_ops \<Rightarrow> file_iface \<Rightarrow> u8 list \<Rightarrow> vfs \<Rightarrow> ((errno + nat) \<times> vfs) res" where
  "iface_write abi fs f buf v =
     (case f_kind f of
        FFile d \<Rightarrow> bind_res (file_write abi fs d buf f v) (\<lambda>(r, f', v'). Inr (r, put_file (f_fd f) f' v'))
      | FPipe e other b \<Rightarrow> pipe_write e other b buf v
      | FTTY t \<Rightarrow> Inr (Inr (length buf), v\<lparr>v_tty := v_tty v @ [(t, buf)]\<rparr>))"

definition iface_lseek :: "file_iface \<Rightarrow> int \<Rightarrow> int \<Rightarrow> vfs \<Rightarrow> (errno + int) \<times> vfs" where
  "iface_lseek f offset whence v =
     (case f_kind f of
        FFile d \<Rightarrow> (let (r, f') = file_lseek d offset whence f v in (r, put_file (f_fd f) f' v))
      | FPipe _ _ _ \<Rightarrow> (Inl ESPIPE, v)
      | FTTY _ \<Rightarrow> (Inl ESPIPE, v))"

definition should_wait_for_data_on_read :: "file_iface \<Rightarrow> bool res" where
  "should_wait_for_data_on_read f =
     (case f_kind f of
        FFile _ \<Rightarrow> Inr False
      | FTTY _ \<Rightarrow> Inr False
      | FPipe e other _ \<Rightarrow>
          if e = WriteEnd then Inl (Irrecoverable ''should not be called on pipe write end'') else Inr (other \<noteq> None))"

definition get_write_fd :: "file_iface \<Rightarrow> nat option" where
  "get_write_fd f =
     (case f_kind f of FPipe e other _ \<Rightarrow> if e = WriteEnd then Some (f_fd f) else other | _ \<Rightarrow> None)"

definition get_read_fd :: "file_iface \<Rightarrow> nat option" where
  "get_read_fd f =
     (case f_kind f of FPipe e other _ \<Rightarrow> if e = ReadEnd then Some (f_fd f) else other | _ \<Rightarrow> None)"

text \<open>The destructor of a pipe end tells the other end; the slot of the deleted file is cleared.\<close>

definition drop_other_end :: "file_iface \<Rightarrow> vfs \<Rightarrow> vfs" where
  "drop_other_end f v =
     (case f_kind f of
        FPipe _ (Some o1) _ \<Rightarrow>
          (case v_fds v ! o1 of
             Some g \<Rightarrow>
               (case f_kind g of
                  FPipe e _ b \<Rightarrow> put_file o1 (g\<lparr>f_kind := FPipe e None b\<rparr>) v
                | _ \<Rightarrow> v)
           | None \<Rightarrow> v)
      | _ \<Rightarrow> v)"

definition delete_file :: "nat \<Rightarrow> file_iface \<Rightarrow> vfs \<Rightarrow> vfs" where
  "delete_file fd f v =
     (let v1 = drop_other_end f v
      in v1\<lparr>v_fds := (v_fds v1)[fd := None], v_lowest_free_fd := min (v_lowest_free_fd v1) (int fd)\<rparr>)"

definition vfs_lseek :: "nat \<Rightarrow> int \<Rightarrow> int \<Rightarrow> vfs \<Rightarrow> (errno + int) \<times> vfs" where
  "vfs_lseek fd offset whence v =
     (case v_fds v ! fd of None \<Rightarrow> (Inl EBADF, v) | Some f \<Rightarrow> iface_lseek f offset whence v)"

definition vfs_isatty :: "nat \<Rightarrow> vfs \<Rightarrow> errno option" where
  "vfs_isatty fd v =
     (if fd \<ge> MAX_FD then Some EBADF
      else case v_fds v ! fd of
        None \<Rightarrow> Some EBADF
      | Some f \<Rightarrow> (case f_kind f of FTTY _ \<Rightarrow> None | _ \<Rightarrow> Some ENOTTY))"

section \<open>Free slots\<close>

lemma scan_used_spec:
  assumes "i \<le> length xs"
  shows "i \<le> scan_used xs i" and "scan_used xs i \<le> length xs"
    and "\<And>j. i \<le> j \<Longrightarrow> j < scan_used xs i \<Longrightarrow> xs ! j \<noteq> None"
    and "scan_used xs i < length xs \<Longrightarrow> xs ! scan_used xs i = None"
proof -
  have "i \<le> scan_used xs i \<and> scan_used xs i \<le> length xs \<and> (\<forall>j. i \<le> j \<and> j < scan_used xs i \<longrightarrow> xs ! j \<noteq> None) \<and>
      (scan_used xs i < length xs \<longrightarrow> xs ! scan_used xs i = None)"
    using assms
  proof (induction xs i rule: scan_used.induct)
    case (1 xs i)
    show ?case
    proof (cases "i < length xs \<and> xs ! i \<noteq> None")
      case True
      then have IH: "Suc i \<le> scan_used xs (Suc i) \<and> scan_used xs (Suc i) \<le> length xs \<and>
          (\<forall>j. Suc i \<le> j \<and> j < scan_used xs (Suc i) \<longrightarrow> xs ! j \<noteq> None) \<and>
          (scan_used xs (Suc i) < length xs \<longrightarrow> xs ! scan_used xs (Suc i) = None)"
        using 1 by simp
      have eq: "scan_used xs i = scan_used xs (Suc i)" using True by (simp add: scan_used.simps [of xs i])
      have "xs ! j \<noteq> None" if "i \<le> j" "j < scan_used xs (Suc i)" for j
        using IH True that by (cases "j = i") auto
      with IH eq show ?thesis by auto
    next
      case False
      then have "scan_used xs i = i" by (subst scan_used.simps) auto
      then show ?thesis using False 1 by auto
    qed
  qed
  then show "i \<le> scan_used xs i" "scan_used xs i \<le> length xs" "\<And>j. i \<le> j \<Longrightarrow> j < scan_used xs i \<Longrightarrow> xs ! j \<noteq> None"
    "scan_used xs i < length xs \<Longrightarrow> xs ! scan_used xs i = None" by auto
qed

text \<open>
  The slots below \<open>lowest_free_fd\<close> are in use, up to the one that a caller of \<open>get_free_fd\<close> has just been
  given and has not filled yet.
\<close>

definition table_ok :: "vfs \<Rightarrow> bool" where
  "table_ok v \<longleftrightarrow> length (v_fds v) = MAX_FD \<and> 0 \<le> v_lowest_free_fd v \<and> v_lowest_free_fd v \<le> int MAX_FD \<and>
     (\<forall>i. int i < v_lowest_free_fd v \<longrightarrow> v_fds v ! i \<noteq> None)"

lemma vfs_get_free_fd_ok:
  assumes "table_ok v" and "vfs_get_free_fd v = (r, v')"
  shows "case r of
      None \<Rightarrow> v' = v \<and> (\<forall>i < MAX_FD. v_fds v ! i \<noteq> None)
    | Some i \<Rightarrow> i < MAX_FD \<and> v_fds v ! i = None \<and> (\<forall>j < i. v_fds v ! j \<noteq> None) \<and>
        (\<forall>f. table_ok (v'\<lparr>v_fds := (v_fds v)[i := Some f]\<rparr>)) \<and> (\<exists>l. v' = v\<lparr>v_lowest_free_fd := l\<rparr>)"
proof -
  let ?n = "nat (v_lowest_free_fd v)"
  let ?i = "scan_used (v_fds v) ?n"
  have n: "?n \<le> length (v_fds v)" "length (v_fds v) = MAX_FD" using assms(1) by (auto simp: table_ok_def)
  note sc = scan_used_spec [OF n(1)]
  have below: "v_fds v ! j \<noteq> None" if "j < ?i" for j
  proof (cases "?n \<le> j")
    case False
    then have "int j < v_lowest_free_fd v" by linarith
    then show ?thesis using assms(1) by (simp add: table_ok_def)
  qed (use sc(3) that in blast)
  show ?thesis
  proof (cases "?i < MAX_FD")
    case True
    let ?l = "scan_used (v_fds v) (?i + 1)"
    have le: "?i + 1 \<le> length (v_fds v)" using True n(2) by simp
    note sl = scan_used_spec [OF le]
    have "r = Some ?i" and v': "v' = v\<lparr>v_lowest_free_fd := int ?l\<rparr>"
      using assms True by (auto simp: vfs_get_free_fd_def table_ok_def Let_def)
    moreover have "table_ok (v'\<lparr>v_fds := (v_fds v)[?i := Some f]\<rparr>)" for f
    proof -
      have "(v_fds v)[?i := Some f] ! j \<noteq> None" if "j < ?l" for j
      proof (cases "j < ?i")
        case True
        then show ?thesis using below [of j] by simp
      next
        case False
        then show ?thesis using sl(3) [of j] that le by (cases "j = ?i") auto
      qed
      then show ?thesis using v' sl(2) n(2) by (simp add: table_ok_def)
    qed
    ultimately show ?thesis using True sc(4) n(2) below by auto
  next
    case False
    then have "r = None" "v' = v" using assms by (auto simp: vfs_get_free_fd_def table_ok_def Let_def)
    moreover have "?i = MAX_FD" using sc(2) n(2) False by simp
    ultimately show ?thesis using below by simp
  qed
qed

section \<open>Exhaustion\<close>

text \<open>
  The operations that touch the table: opening files, terminals and pipes, and deleting an open file,
  as \<^verbatim>\<open>VFS::close\<close> does.
\<close>

inductive vfs_step :: "open_abi \<Rightarrow> fs_ops \<Rightarrow> vfs \<Rightarrow> vfs \<Rightarrow> bool" for abi fs where
  StepOpen: "vfs_step abi fs v (snd (open_file abi fs path fl wd v))"
| StepTty: "vfs_step abi fs v (snd (open_tty abi t v))"
| StepPipe: "vfs_step abi fs v (snd (vfs_pipe v))"
| StepClose: "v_fds v ! fd = Some f \<Longrightarrow> vfs_step abi fs v (delete_file fd f v)"
| StepSeek: "vfs_step abi fs v (snd (vfs_lseek fd off wh v))"

lemma put_file_lowest [simp]: "v_lowest_free_fd (put_file fd f v) = v_lowest_free_fd v"
  by (simp add: put_file_def)

lemma drop_other_end_lowest [simp]: "v_lowest_free_fd (drop_other_end f v) = v_lowest_free_fd v"
  by (auto simp: drop_other_end_def split: file_kind.splits option.splits)

lemma vfs_step_exhausted:
  assumes "vfs_step abi fs v v'" and "v_lowest_free_fd v = -1"
  shows "v_lowest_free_fd v' = -1"
  using assms
  by (induction) (auto simp: open_file_def open_tty_def vfs_pipe_def vfs_get_free_fd_def open_failed_def delete_file_def
      vfs_lseek_def iface_lseek_def Let_def split: option.splits file_kind.splits prod.splits)

text \<open>
  Running out of open files is final: when the table is full, \<open>open_file\<close> fails and sets the lowest
  free number to \<open>-1\<close>; from then on, whatever files are opened, closed or sought, no
  number is ever free again, even after every file has been closed.
\<close>
theorem open_files_exhausted:
  assumes "table_ok v" and "\<forall>i<MAX_FD. v_fds v ! i \<noteq> None"
    and "open_file abi fs path fl wd v = (r, v1)" and "(vfs_step abi fs)\<^sup>*\<^sup>* v1 v2"
  shows "r = Inl ENFILE \<and> vfs_get_free_fd v2 = (None, v2)"
proof -
  obtain q v0 where g: "vfs_get_free_fd v = (q, v0)" by fastforce
  have "q = None" "v0 = v" using vfs_get_free_fd_ok [OF assms(1) g] assms(2) by (auto split: option.splits)
  then have r: "r = Inl ENFILE" and v1: "v_lowest_free_fd v1 = -1"
    using assms(1,3) g by (auto simp: open_file_def open_failed_def table_ok_def)
  from assms(4) have "v_lowest_free_fd v2 = -1"
    by (induction rule: rtranclp_induct) (auto intro: v1 vfs_step_exhausted)
  then show ?thesis using r by (simp add: vfs_get_free_fd_def)
qed

definition demo_open_abi :: open_abi where
  "demo_open_abi = \<lparr>O_RDONLY = 0, O_RDWR = 2, O_WRONLY = 1, O_TRUNC = 512, O_CREAT = 64, O_SYNC = 4096, O_APPEND = 1024,
     O_NONBLOCK = 2048, FD_CLOEXEC = 1\<rparr>"

text \<open>A file system with one file, whose bytes are the first block of the disk.\<close>

definition demo_dentry :: dentry where
  "demo_dentry = Dentry 1 0 ''a'' (Some (Dentry 0 1 ''/'' None))"

definition demo_fs :: fs_ops where
  "demo_fs = \<lparr>fs_load = (\<lambda>d off len disk. Some (take len (drop off (disk 0)))),
     fs_write_buf = (\<lambda>d bytes disk. Some (disk(0 := bytes), length bytes)),
     fs_resize = (\<lambda>d n disk. Some (disk(0 := take n (disk 0)), n)),
     fs_lookup = (\<lambda>path wd v. if path = ''/a'' then Some demo_dentry else None),
     fs_touch = (\<lambda>path v. None), fs_fresh = (\<lambda>n. replicate n 0)\<rparr>"

definition demo_tty :: file_iface where
  "demo_tty = \<lparr>f_fd = 0, f_flags = 2, f_offset = 0, f_rc = 1, f_kind = FTTY STDOUT\<rparr>"

definition demo_vfs :: "file_iface option list \<Rightarrow> int \<Rightarrow> vfs" where
  "demo_vfs fds l = \<lparr>v_fds = fds, v_lowest_free_fd = l, v_bufs = (\<lambda>_. \<lparr>cb_capacity = 1, cb_beg = 0, cb_size = 0, cb_data = [0]\<rparr>),
     v_next_buf = 0, v_inodes = (\<lambda>_. \<lparr>i_size = 3, i_type = INodeFile, i_lba = 0, i_blocks = 1, i_superblock = Some 0\<rparr>), v_disk = (\<lambda>_. [1, 2, 3]), v_preloads = [], v_tty = []\<rparr>"

theorem open_files_exhausted_witness:
  "\<exists>v1 v2. open_file demo_open_abi demo_fs ''/a'' 0 None (demo_vfs (replicate 100 (Some demo_tty)) 100) = (Inl ENFILE, v1) \<and>
     v2 = delete_file 7 demo_tty v1 \<and> vfs_get_free_fd v2 = (None, v2)"
proof -
  let ?v = "demo_vfs (replicate 100 (Some demo_tty)) 100"
  obtain r v1 where o1: "open_file demo_open_abi demo_fs ''/a'' 0 None ?v = (r, v1)" by fastforce
  have full: "table_ok ?v" "\<forall>i<MAX_FD. v_fds ?v ! i \<noteq> None" by (simp_all add: demo_vfs_def table_ok_def)
  have "r = Inl ENFILE" using open_files_exhausted [OF full o1 rtranclp.rtrancl_refl] by simp
  have "scan_used (replicate 100 (Some demo_tty)) 100 = 100" by (simp add: scan_used.simps)
  then have "v_fds v1 ! 7 = Some demo_tty"
    using o1 by (auto simp: open_file_def vfs_get_free_fd_def open_failed_def demo_vfs_def)
  then have "(vfs_step demo_open_abi demo_fs)\<^sup>*\<^sup>* v1 (delete_file 7 demo_tty v1)" by (intro r_into_rtranclp StepClose)
  from open_files_exhausted [OF full o1 this] o1 show ?thesis by blast
qed

section \<open>Regular files\<close>

text \<open>What reading gives: the file system returns the bytes it holds for the file, as far as there are any.\<close>

definition holds_file :: "fs_ops \<Rightarrow> dentry \<Rightarrow> u8 list \<Rightarrow> vfs \<Rightarrow> bool" where
  "holds_file fs d bytes v \<longleftrightarrow> i_type (v_inodes v (d_inode d)) = INodeFile \<and> i_size (v_inodes v (d_inode d)) = length bytes \<and>
     (\<forall>off len. off + len \<le> length bytes \<longrightarrow> fs_load fs d off len (v_disk v) = Some (take len (drop off bytes)))"

lemma inserted_bytes:
  assumes "off \<le> length bytes" and "length fresh = length bytes + length buf"
  shows "blit (blit (blit fresh 0 bytes) (off + length buf) (take (length bytes - off) (drop off (blit fresh 0 bytes)))) off buf =
    take off bytes @ buf @ drop off bytes"
proof -
  have "blit fresh 0 bytes = bytes @ drop (length bytes) fresh" by (simp add: blit_def)
  then show ?thesis using assms by (simp add: blit_def min_def)
qed

text \<open>
  Writing inserts: a write to a regular file at a position inside it does not replace the bytes there. The
  file becomes the bytes before the position, then the bytes written, then all the bytes from the
  position on; the position moves behind the bytes written.
\<close>
theorem file_write_inserts:
  assumes "holds_file fs d bytes v" and "f_flags f AND O_APPEND abi = 0" and "f_offset f \<le> length bytes"
    and "length bytes + length buf < W32" and "length (fs_fresh fs (length bytes + length buf)) = length bytes + length buf"
    and "fs_write_buf fs d (take (f_offset f) bytes @ buf @ drop (f_offset f) bytes) (v_disk v) = Some (disk', sz)"
  shows "file_write abi fs d buf f v =
    Inr (Inr (length buf), f\<lparr>f_offset := f_offset f + length buf\<rparr>, set_inode_size (d_inode d) (disk', sz) v)"
proof -
  have ld: "fs_load fs d 0 (length bytes) (v_disk v) = Some bytes" using assms(1) by (auto simp: holds_file_def)
  have "add32 (f_offset f) (length buf) = f_offset f + length buf" using assms(3,4) by (simp add: add32_eq)
  moreover have "f_offset f + length buf < W32" using assms(3,4) by simp
  ultimately show ?thesis
    using assms inserted_bytes [OF assms(3,5)] ld by (simp add: file_write_def holds_file_def Let_def)
qed

theorem file_write_inserts_witness:
  "\<exists>f v. file_write demo_open_abi demo_fs demo_dentry [9] \<lparr>f_fd = 0, f_flags = 2, f_offset = 1, f_rc = 1, f_kind = FFile demo_dentry\<rparr>
     (demo_vfs [] 0) = Inr (Inr 1, f, v) \<and> v_disk v 0 = [1, 9, 2, 3]"
proof -
  let ?f = "\<lparr>f_fd = 0, f_flags = 2, f_offset = 1, f_rc = 1, f_kind = FFile demo_dentry\<rparr>"
  have "file_write demo_open_abi demo_fs demo_dentry [9] ?f (demo_vfs [] 0) =
     Inr (Inr (length [9 :: u8]), ?f\<lparr>f_offset := f_offset ?f + length [9 :: u8]\<rparr>,
       set_inode_size (d_inode demo_dentry) ((\<lambda>_. [1, 2, 3])(0 := [1, 9, 2, 3]), 4) (demo_vfs [] 0))"
    by (rule file_write_inserts [where bytes = "[1, 2, 3]"])
      (auto simp: holds_file_def demo_vfs_def demo_fs_def demo_open_abi_def)
  then show ?thesis by (simp add: set_inode_size_def)
qed

text \<open>The bytes a path takes fit in the buffer that is allocated for them, with the terminator.\<close>

lemma write_name_length:
  "length (write_name d is_last str) + (if is_last then 1 else 0) \<le> length str + absolute_path_length d"
proof (induction d arbitrary: is_last str)
  case (Dentry a i n p)
  show ?case
  proof (cases p)
    case None
    then show ?thesis by (simp add: Let_def)
  next
    case (Some q)
    then show ?thesis using Dentry.IH [of q False str] by (simp add: Let_def)
  qed
qed

lemma absolute_path_fits: "length (get_absolute_path d) < absolute_path_length d"
  using write_name_length [of d True "[]"] by (simp add: get_absolute_path_def)

end
