(* ===== verification/Processes.thy ===== *)
theory Processes
  imports Queue LinkedList Stack MinHeap Files MemTree
begin

text \<open>
  Processes (\<^verbatim>\<open>src/kernel/processes/process.h\<close>, \<^verbatim>\<open>process.cpp\<close>) and the state that they share with the
  scheduler and the table of open files: the process objects, named by their addresses, the table of
  processes by number, the queues of the scheduler, the open files and the memory. This theory has
  the state, the signals of a process and its file descriptors as far as they do not wake up other
  processes; the rest is in \<^verbatim>\<open>Scheduler\<close>. A deleted process object keeps its contents, as the
  memory that the kernel heap takes back does, and is marked.
\<close>

unbundle bit_operations_syntax

section \<open>Model\<close>

record cpu_state =
  eax :: u32
  ebx :: u32
  ecx :: u32
  edx :: u32
  esi :: u32
  edi :: u32
  ebp :: u32

record stack_state =
  error_code :: u32
  eip :: u32
  cs :: u32
  eflags :: u32
  esp :: u32
  ss :: u32

abbreviation zero_cpu :: cpu_state where
  "zero_cpu \<equiv> \<lparr>eax = 0, ebx = 0, ecx = 0, edx = 0, esi = 0, edi = 0, ebp = 0\<rparr>"

abbreviation zero_stack :: stack_state where
  "zero_stack \<equiv> \<lparr>error_code = 0, eip = 0, cs = 0, eflags = 0, esp = 0, ss = 0\<rparr>"

abbreviation P_TERMINATED :: u32 where "P_TERMINATED \<equiv> 1"
abbreviation P_SYSCALL_INTERRUPTED :: u32 where "P_SYSCALL_INTERRUPTED \<equiv> 2"
abbreviation P_WAITING_KEY :: u32 where "P_WAITING_KEY \<equiv> 4"
abbreviation P_WAITING_PROCESS :: u32 where "P_WAITING_PROCESS \<equiv> 8"
abbreviation P_ZOMBIE :: u32 where "P_ZOMBIE \<equiv> 16"
abbreviation P_SLEEPING :: u32 where "P_SLEEPING \<equiv> 32"
abbreviation P_EXEC :: u32 where "P_EXEC \<equiv> 64"
abbreviation P_WAITING_READ :: u32 where "P_WAITING_READ \<equiv> 128"

abbreviation HIGHEST_SIGNAL :: nat where "HIGHEST_SIGNAL \<equiv> 12"
abbreviation MAX_FD_PER_PROCESS :: nat where "MAX_FD_PER_PROCESS \<equiv> 20"
abbreviation MAX_PROCESSES :: nat where "MAX_PROCESSES \<equiv> 32"
abbreviation SIGQUIT :: nat where "SIGQUIT \<equiv> 3"
abbreviation SIGSEGV :: nat where "SIGSEGV \<equiv> 11"

record file_descriptor =
  fd_fd :: nat
  fd_sys_fd :: nat
  fd_clo_exec :: bool

record signal_ctx =
  sc_cpu :: cpu_state
  sc_stack :: stack_state
  sc_blocked_mask :: "u32 list"

record sigact =
  sa_handler :: u32
  sa_mask :: "u32 list"
  sa_flags :: u32
  sa_restorer :: u32

text \<open>Constants of the C library's headers.\<close>

record sig_abi =
  SIG_DFL :: u32
  SIG_IGN :: u32
  SIG_ERR :: u32
  SA_RESTORER :: u32
  SIGCANCEL :: nat
  SIGPIPE :: nat
  sigset_words :: nat

datatype disposition = SIGDISP_TERM | SIGDISP_IGN | SIGDISP_CORE | SIGDISP_STOP | SIGDISP_CONT

record process =
  p_quantum :: nat
  p_priority :: nat
  p_num_pages :: nat
  p_pid :: nat
  p_ppid :: nat
  p_k_stack_top :: u32
  p_flags :: u32
  p_ret_status :: u32
  p_work_dir :: "string option"
  p_bin_path :: "string option"
  p_exec_replacement :: "nat option"
  p_is_pre_freed :: bool
  p_fds :: "file_descriptor option list"
  p_lowest_free_fd :: nat
  p_signal_action :: "u32 list"
  p_signals_contexts :: "signal_ctx stack"
  p_oldact :: "sigact option list"
  p_pending_signals :: "u32 list"
  p_cpu_state :: cpu_state
  p_k_cpu_state :: cpu_state
  p_stack_state :: stack_state
  p_k_stack_state :: stack_state
  p_waiting_any :: bool
  p_waited_by_parent :: bool
  p_children :: "nat clist"
  p_values_to_write :: "(u32 \<times> u32) clist"
  p_tls_base :: u32
  p_space :: proc
  p_page_tables :: nat
  p_pdt :: nat
  p_deleted :: bool

record read_waiter =
  rw_pid :: nat
  rw_fd :: nat
  rw_request :: nat
  rw_read_so_far :: nat

record kernel =
  k_objs :: "nat \<Rightarrow> process"
  k_next_obj :: nat
  k_pid_pool :: u32
  k_running :: nat
  k_ready :: "nat queue"
  k_waiting :: "nat queue"
  k_read_waiters :: "read_waiter clist"
  k_processes :: "nat option list"
  k_sleeping :: "(nat \<times> nat) minheap"
  k_vfs :: vfs
  k_heap :: heap
  k_tick :: nat

subsection \<open>Access\<close>

definition upd_obj :: "nat \<Rightarrow> (process \<Rightarrow> process) \<Rightarrow> kernel \<Rightarrow> kernel" where
  "upd_obj a g k = k\<lparr>k_objs := (k_objs k)(a := g (k_objs k a))\<rparr>"

text \<open>\<open>processes[pid]\<close>, and an access through it.\<close>

definition proc_slot :: "nat \<Rightarrow> kernel \<Rightarrow> nat option res" where
  "proc_slot pid k = (if pid < MAX_PROCESSES then Inr (k_processes k ! pid) else Inl OutOfBounds)"

definition proc_at :: "nat \<Rightarrow> kernel \<Rightarrow> nat res" where
  "proc_at pid k =
     bind_res (proc_slot pid k) (\<lambda>s. case s of None \<Rightarrow> Inl NullDeref | Some a \<Rightarrow> Inr a)"

definition set_flag :: "u32 \<Rightarrow> process \<Rightarrow> process" where
  "set_flag fl p = p\<lparr>p_flags := p_flags p OR fl\<rparr>"

definition clear_flag :: "u32 \<Rightarrow> process \<Rightarrow> process" where
  "clear_flag fl p = p\<lparr>p_flags := p_flags p AND NOT fl\<rparr>"

definition is_terminated :: "process \<Rightarrow> bool" where
  "is_terminated p \<longleftrightarrow> has_flag (p_flags p) P_TERMINATED"

definition is_waiting_key :: "process \<Rightarrow> bool" where
  "is_waiting_key p \<longleftrightarrow> has_flag (p_flags p) P_WAITING_KEY"

definition is_waiting_program :: "process \<Rightarrow> bool" where
  "is_waiting_program p \<longleftrightarrow> has_flag (p_flags p) P_WAITING_PROCESS"

definition is_waiting_read :: "process \<Rightarrow> bool" where
  "is_waiting_read p \<longleftrightarrow> has_flag (p_flags p) P_WAITING_READ"

definition is_sleeping :: "process \<Rightarrow> bool" where
  "is_sleeping p \<longleftrightarrow> has_flag (p_flags p) P_SLEEPING"

definition exec_running :: "process \<Rightarrow> bool" where
  "exec_running p \<longleftrightarrow> has_flag (p_flags p) P_EXEC"

definition RESET_QUANTUM :: "process \<Rightarrow> process" where
  "RESET_QUANTUM p = p\<lparr>p_quantum := mul32 (p_priority p) 10\<rparr>"

definition terminate_with_value :: "u32 \<Rightarrow> process \<Rightarrow> process" where
  "terminate_with_value ret_val p =
     (set_flag P_TERMINATED p)\<lparr>p_ret_status := push_bit 8 (ret_val AND 0xFF)\<rparr>"

definition terminate_with_signal :: "nat \<Rightarrow> process \<Rightarrow> process" where
  "terminate_with_signal ret_sig p =
     (set_flag P_TERMINATED p)\<lparr>p_ret_status := word_of_nat ret_sig AND 0x7F\<rparr>"

subsection \<open>Signals\<close>

text \<open>\<open>signal_default_action\<close> after \<^verbatim>\<open>Process::init\<close>; entry 0 is never set and keeps the value 0.\<close>

definition signal_default_action :: "disposition list" where
  "signal_default_action =
     [SIGDISP_TERM, SIGDISP_TERM, SIGDISP_TERM, SIGDISP_CORE, SIGDISP_CORE, SIGDISP_CORE, SIGDISP_CORE,
      SIGDISP_CORE, SIGDISP_CORE, SIGDISP_TERM, SIGDISP_TERM, SIGDISP_CORE, SIGDISP_TERM]"

text \<open>
  The word and the bit of a signal in a set of signals, with unsigned arithmetic as in \<open>kill\<close>;
  \<open>signal_handling\<close> computes the word with signed arithmetic, so that signal 0 is bit 31 of word 0.
\<close>

definition sig_word :: "nat \<Rightarrow> nat" where
  "sig_word signal = sub32 signal 1 div 32"

definition sig_bit :: "nat \<Rightarrow> nat" where
  "sig_bit signal = sub32 signal 1 mod 32"

text \<open>
  \<open>kill\<close> returns 0, \<open>-1\<close> or \<open>-EINVAL\<close>, and tells whether the process was terminated, in
  which case the timer interrupt is raised and the caller does not go on.
\<close>

datatype kill_result = KillOk | KillFailed | KillEINVAL | KillTerminated

definition kill_supported :: "sig_abi \<Rightarrow> nat \<Rightarrow> process \<Rightarrow> (kill_result \<times> process) res" where
  "kill_supported abi signal p =
     (if signal > HIGHEST_SIGNAL then Inr (KillEINVAL, p)
      else
        let dact = signal_default_action ! signal in
        if p_signal_action p ! signal = SIG_DFL abi \<and> (dact = SIGDISP_CORE \<or> dact = SIGDISP_TERM)
        then Inr (KillTerminated, terminate_with_signal signal p)
        else if sig_word signal < length (p_pending_signals p)
        then Inr (KillOk, p\<lparr>p_pending_signals := (p_pending_signals p)
               [sig_word signal := p_pending_signals p ! sig_word signal OR push_bit (sig_bit signal) 1]\<rparr>)
        else Inl OutOfBounds)"

definition kill :: "sig_abi \<Rightarrow> nat \<Rightarrow> process \<Rightarrow> (kill_result \<times> process) res" where
  "kill abi signal p =
     (if signal = SIGCANCEL abi
      then bind_res (kill_supported abi SIGQUIT p) (\<lambda>(r, p'). Inr (if r = KillTerminated then r else KillFailed, p'))
      else kill_supported abi signal p)"

definition register_signal_handler :: "nat \<Rightarrow> u32 \<Rightarrow> process \<Rightarrow> (u32 \<times> process) res" where
  "register_signal_handler signal handler p =
     (if signal < length (p_signal_action p)
      then Inr (p_signal_action p ! signal, p\<lparr>p_signal_action := (p_signal_action p)[signal := handler]\<rparr>)
      else Inl OutOfBounds)"

definition signal_context_save :: "sig_abi \<Rightarrow> nat \<Rightarrow> process \<Rightarrow> (kill_result \<times> process) res" where
  "signal_context_save abi signal p =
     (case p_oldact p ! signal of
        None \<Rightarrow> Inl NullDeref
      | Some oa \<Rightarrow>
          (case push \<lparr>sc_cpu = p_cpu_state p, sc_stack = p_stack_state p, sc_blocked_mask = sa_mask oa\<rparr> (p_signals_contexts p) of
             (True, st) \<Rightarrow> Inr (KillOk, p\<lparr>p_signals_contexts := st\<rparr>)
           | (False, st) \<Rightarrow> kill abi SIGQUIT p))"

definition signal_context_restore :: "process \<Rightarrow> process res" where
  "signal_context_restore p =
     (case pop (p_signals_contexts p) of
        (None, _) \<Rightarrow> Inl (Irrecoverable ''no signal context to restore'')
      | (Some c, st) \<Rightarrow>
          Inr (p\<lparr>p_signals_contexts := st, p_cpu_state := sc_cpu c, p_stack_state := sc_stack c\<rparr>))"

text \<open>
  \<open>sigaction\<close> returns 0, having stored the old action through \<open>old_act\<close>, or an error number, or the
  previous handler where that is negative as an integer.
\<close>

datatype sigaction_result = SaDone "sigact option" | SaErr errno | SaHandler u32

definition sigaction :: "sig_abi \<Rightarrow> nat \<Rightarrow> sigact \<Rightarrow> bool \<Rightarrow> process \<Rightarrow> (sigaction_result \<times> process) res" where
  "sigaction abi signum act has_old_act p =
     (if signum > HIGHEST_SIGNAL
      then if signum = SIGCANCEL abi
           then if has_old_act then Inl (Irrecoverable ''SIGCANCEL with non-null old_act is not supported'')
                else Inr (SaDone None, p)
           else Inr (SaErr EINVAL, p)
      else if sa_flags act AND NOT (SA_RESTORER abi) \<noteq> 0 then Inr (SaErr EINVAL, p)
      else if \<not> list_all (\<lambda>w. w = 0) (sa_mask act) then Inr (SaErr EINVAL, p)
      else bind_res (register_signal_handler signum (sa_handler act) p) (\<lambda>(prev, p1).
        if sint prev < 0 then Inr (SaHandler prev, p1)
        else
          let old = (case p_oldact p1 ! signum of
                       Some oa \<Rightarrow> oa
                     | None \<Rightarrow> \<lparr>sa_handler = prev, sa_mask = replicate (sigset_words abi) 0, sa_flags = SA_RESTORER abi, sa_restorer = 0\<rparr>)
          in if \<not> has_old_act then Inl NullDeref
             else Inr (SaDone (Some old), p1\<lparr>p_oldact := (p_oldact p1)[signum := Some act]\<rparr>)))"

datatype mask_op = SIG_SETMASK | SIG_BLOCK | SIG_UNBLOCK | SIG_OTHER

definition set_blocked_mask :: "u32 list \<Rightarrow> process \<Rightarrow> process" where
  "set_blocked_mask ws p =
     (let st = p_signals_contexts p; i = sub32 (st_size st) 1
      in p\<lparr>p_signals_contexts := st\<lparr>st_data := (st_data st)[i := (st_data st ! i)\<lparr>sc_blocked_mask := ws\<rparr>]\<rparr>\<rparr>)"

text \<open>The second part of the result is what is stored through \<open>oldset\<close>, if that is not null.\<close>

definition sigprogmask :: "mask_op \<Rightarrow> u32 list option \<Rightarrow> process \<Rightarrow> ((errno + u32 list option) \<times> process) res" where
  "sigprogmask how newset p =
     (case peek (p_signals_contexts p) of
        None \<Rightarrow> Inl (Irrecoverable ''no current signal context'')
      | Some c \<Rightarrow>
          (case newset of
            None \<Rightarrow> Inr (Inl (if how = SIG_OTHER then EINVAL else EFAULT), p)
          | Some ws \<Rightarrow>
              (case how of
                 SIG_OTHER \<Rightarrow> Inr (Inl EINVAL, p)
               | SIG_SETMASK \<Rightarrow> Inr (Inr (Some ws), set_blocked_mask ws p)
               | SIG_BLOCK \<Rightarrow>
                   Inr (Inr (Some (sc_blocked_mask c)), set_blocked_mask (map2 (OR) (sc_blocked_mask c) ws) p)
               | SIG_UNBLOCK \<Rightarrow>
                   Inr (Inr (Some (sc_blocked_mask c)), set_blocked_mask (map2 (\<lambda>b m. b AND NOT m) (sc_blocked_mask c) ws) p))))"

text \<open>A 32-bit store at an address of the process.\<close>

definition store_u32 :: "proc \<Rightarrow> u32 \<Rightarrow> u32 \<Rightarrow> kmem \<Rightarrow> kmem res" where
  "store_u32 sp a w m =
     for_n (\<lambda>i. store_byte sp (add32 (unat a) i) (ucast (drop_bit (8 * i) w))) 0 4 m"

text \<open>
  Delivery of a signal to a handler: save the context, push the return address and the signal
  number, and continue at the handler. When the context cannot be saved and \<open>SIGQUIT\<close> is fatal, the
  timer interrupt ends the delivery.
\<close>

definition deliver_signal :: "sig_abi \<Rightarrow> nat \<Rightarrow> process \<Rightarrow> kmem \<Rightarrow> (process \<times> kmem) res" where
  "deliver_signal abi signal p m =
     bind_res (signal_context_save abi signal p) (\<lambda>(r, p1).
       if r = KillTerminated then Inr (p1, m)
       else case p_oldact p1 ! signal of
         None \<Rightarrow> Inl NullDeref
       | Some oa \<Rightarrow>
           if sa_flags oa AND SA_RESTORER abi = 0
           then Inl (Irrecoverable ''trying to return from a signal which did not provide a return address'')
           else
             let sp = (esp (p_stack_state p1) AND NOT 3) - 8;
                 w = (if signal = 0 then 0 else sig_word signal) in
             bind_res (store_u32 (p_space p1) sp (sa_restorer oa) m) (\<lambda>m1.
             bind_res (store_u32 (p_space p1) (sp + 4) (word_of_nat signal) m1) (\<lambda>m2.
               Inr (p1\<lparr>p_stack_state := (p_stack_state p1)\<lparr>esp := sp, eip := p_signal_action p1 ! signal\<rparr>,
                       p_pending_signals := (p_pending_signals p1)
                         [w := p_pending_signals p1 ! w AND NOT (push_bit (sig_bit signal) 1)]\<rparr>, m2))))"

fun signal_scan :: "sig_abi \<Rightarrow> u32 list \<Rightarrow> nat list \<Rightarrow> process \<Rightarrow> kmem \<Rightarrow> (process \<times> kmem) res" where
  "signal_scan abi blocked [] p m = Inr (p, m)"
| "signal_scan abi blocked (signal # rest) p m =
     (let w = (if signal = 0 then 0 else sig_word signal);
          pending = bit (p_pending_signals p ! w) (sig_bit signal);
          is_blocked = bit (blocked ! w) (sig_bit signal) in
      if \<not> pending \<or> is_blocked then signal_scan abi blocked rest p m
      else if p_signal_action p ! signal = SIG_IGN abi then signal_scan abi blocked rest p m
      else if p_signal_action p ! signal = SIG_DFL abi
      then if signal_default_action ! signal = SIGDISP_IGN then signal_scan abi blocked rest p m
           else Inl (Irrecoverable ''signal with a default disposition is about to be sent'')
      else deliver_signal abi signal p m)"

definition signal_handling :: "sig_abi \<Rightarrow> process \<Rightarrow> kmem \<Rightarrow> (process \<times> kmem) res" where
  "signal_handling abi p m =
     (case peek (p_signals_contexts p) of
        None \<Rightarrow> Inl (Irrecoverable ''process blocked signals stack is empty'')
      | Some c \<Rightarrow> signal_scan abi (sc_blocked_mask c) [0..<HIGHEST_SIGNAL + 1] p m)"

subsection \<open>File descriptors\<close>

definition add_rc :: "int \<Rightarrow> nat \<Rightarrow> string \<Rightarrow> kernel \<Rightarrow> kernel res" where
  "add_rc i sys_fd msg k =
     (case v_fds (k_vfs k) ! sys_fd of
        None \<Rightarrow> Inl (Irrecoverable msg)
      | Some f \<Rightarrow> Inr (k\<lparr>k_vfs := put_file sys_fd (f\<lparr>f_rc := f_rc f + i\<rparr>) (k_vfs k)\<rparr>))"

definition new_file_descriptor :: "nat \<Rightarrow> nat \<Rightarrow> bool \<Rightarrow> kernel \<Rightarrow> (file_descriptor \<times> kernel) res" where
  "new_file_descriptor fd sys_fd clo_exec k =
     bind_res (add_rc 1 sys_fd ''Trying to create a dangling file descriptor'' k)
       (\<lambda>k1. Inr (\<lparr>fd_fd = fd, fd_sys_fd = sys_fd, fd_clo_exec = clo_exec\<rparr>, k1))"

definition delete_file_descriptor :: "file_descriptor \<Rightarrow> kernel \<Rightarrow> kernel res" where
  "delete_file_descriptor d k = add_rc (-1) (fd_sys_fd d) ''Trying to delete a dangling file descriptor'' k"

definition set_fd :: "nat \<Rightarrow> nat \<Rightarrow> file_descriptor option \<Rightarrow> kernel \<Rightarrow> kernel" where
  "set_fd a fd d = upd_obj a (\<lambda>p. p\<lparr>p_fds := (p_fds p)[fd := d]\<rparr>)"

definition proc_get_free_fd :: "nat \<Rightarrow> kernel \<Rightarrow> (nat option \<times> kernel) res" where
  "proc_get_free_fd a k =
     (let p = k_objs k a; l = p_lowest_free_fd p in
      if l = MAX_FD_PER_PROCESS then Inr (None, k)
      else if l > MAX_FD_PER_PROCESS then Inl OutOfBounds
      else if p_fds p ! l \<noteq> None then Inl (Irrecoverable ''fd lowest_free_id is not free'')
      else Inr (Some l, upd_obj a (\<lambda>p. p\<lparr>p_lowest_free_fd := scan_used (p_fds p) (l + 1)\<rparr>) k))"

definition release_fd :: "nat \<Rightarrow> nat \<Rightarrow> kernel \<Rightarrow> kernel res" where
  "release_fd a fd k =
     bind_res (case p_fds (k_objs k a) ! fd of None \<Rightarrow> Inr k | Some d \<Rightarrow> delete_file_descriptor d k) (\<lambda>k1.
       Inr (upd_obj a (\<lambda>p. p\<lparr>p_fds := (p_fds p)[fd := None], p_lowest_free_fd := min (p_lowest_free_fd p) fd\<rparr>) k1))"

definition proc_to_sys_fd :: "nat \<Rightarrow> int \<Rightarrow> kernel \<Rightarrow> nat option res" where
  "proc_to_sys_fd a fd k =
     (if 0 \<le> fd \<and> fd < int MAX_FD_PER_PROCESS
      then case p_fds (k_objs k a) ! nat fd of
             None \<Rightarrow> Inr None
           | Some d \<Rightarrow>
               (case v_fds (k_vfs k) ! fd_sys_fd d of
                  None \<Rightarrow> Inl (Irrecoverable ''Dangling process file descriptor'')
                | Some f \<Rightarrow> Inr (Some (f_fd f)))
      else Inr None)"

text \<open>Open a descriptor at \<open>fd\<close> of the process for the system file \<open>sys_fd\<close>.\<close>

definition install_fd :: "nat \<Rightarrow> nat \<Rightarrow> nat \<Rightarrow> bool \<Rightarrow> kernel \<Rightarrow> kernel res" where
  "install_fd a fd sys_fd clo_exec k =
     bind_res (new_file_descriptor fd sys_fd clo_exec k) (\<lambda>(d, k1). Inr (set_fd a fd (Some d) k1))"

definition proc_dup :: "nat \<Rightarrow> int \<Rightarrow> kernel \<Rightarrow> ((errno + nat) \<times> kernel) res" where
  "proc_dup a oldfd k =
     bind_res (proc_to_sys_fd a oldfd k) (\<lambda>s.
       case s of
         None \<Rightarrow> Inr (Inl EBADF, k)
       | Some sys_fd \<Rightarrow>
           bind_res (proc_get_free_fd a k) (\<lambda>(r, k1).
             case r of
               None \<Rightarrow> Inr (Inl EMFILE, k1)
             | Some newfd \<Rightarrow> bind_res (install_fd a newfd sys_fd False k1) (\<lambda>k2. Inr (Inr newfd, k2))))"

definition proc_open :: "open_abi \<Rightarrow> fs_ops \<Rightarrow> nat \<Rightarrow> string \<Rightarrow> u32 \<Rightarrow> kernel \<Rightarrow> ((errno + nat) \<times> kernel) res" where
  "proc_open abi fs a pathname fl k =
     bind_res (proc_get_free_fd a k) (\<lambda>(r, k1).
       case r of
         None \<Rightarrow> Inr (Inl EMFILE, k1)
       | Some fd \<Rightarrow>
           (let (o1, v1) = open_file abi fs pathname fl (p_work_dir (k_objs k1 a)) (k_vfs k1);
                k2 = k1\<lparr>k_vfs := v1\<rparr> in
            case o1 of
              Inr sys_fd \<Rightarrow> bind_res (install_fd a fd sys_fd False k2) (\<lambda>k3. Inr (Inr fd, k3))
            | Inl e \<Rightarrow> bind_res (release_fd a fd k2) (\<lambda>k3. Inr (Inl e, k3))))"

definition proc_pipe :: "nat \<Rightarrow> kernel \<Rightarrow> ((errno + nat \<times> nat) \<times> kernel) res" where
  "proc_pipe a k =
     bind_res (proc_get_free_fd a k) (\<lambda>(r, k1).
       case r of
         None \<Rightarrow> Inr (Inl EMFILE, k1)
       | Some rfd \<Rightarrow>
           bind_res (proc_get_free_fd a k1) (\<lambda>(w, k2).
             case w of
               None \<Rightarrow> bind_res (release_fd a rfd k2) (\<lambda>k3. Inr (Inl EMFILE, k3))
             | Some wfd \<Rightarrow>
                 (let (o1, v1) = vfs_pipe (k_vfs k2); k3 = k2\<lparr>k_vfs := v1\<rparr> in
                  case o1 of
                    Inl e \<Rightarrow>
                      bind_res (release_fd a rfd k3) (\<lambda>k4. bind_res (release_fd a wfd k4) (\<lambda>k5. Inr (Inl e, k5)))
                  | Inr (srfd, swfd) \<Rightarrow>
                      bind_res (install_fd a rfd srfd False k3) (\<lambda>k4.
                      bind_res (install_fd a wfd swfd False k4) (\<lambda>k5. Inr (Inr (rfd, wfd), k5))))))"

definition proc_lseek :: "nat \<Rightarrow> int \<Rightarrow> int \<Rightarrow> int \<Rightarrow> kernel \<Rightarrow> ((errno + int) \<times> kernel) res" where
  "proc_lseek a fd offset whence k =
     bind_res (proc_to_sys_fd a fd k) (\<lambda>s.
       case s of
         None \<Rightarrow> Inr (Inl EBADF, k)
       | Some sys_fd \<Rightarrow> (let (r, v) = vfs_lseek sys_fd offset whence (k_vfs k) in Inr (r, k\<lparr>k_vfs := v\<rparr>)))"

definition proc_isatty :: "nat \<Rightarrow> int \<Rightarrow> kernel \<Rightarrow> errno option res" where
  "proc_isatty a fd k =
     (if fd \<ge> int MAX_FD_PER_PROCESS then Inr (Some EBADF)
      else if fd < 0 then Inl OutOfBounds
      else case p_fds (k_objs k a) ! nat fd of
        None \<Rightarrow> Inr (Some EBADF)
      | Some d \<Rightarrow> Inr (vfs_isatty (fd_sys_fd d) (k_vfs k)))"

datatype fcntl_op = F_GETFL | F_SETFL u32 | F_SETFD u32 | F_OTHER

definition proc_fcntl :: "open_abi \<Rightarrow> nat \<Rightarrow> int \<Rightarrow> fcntl_op \<Rightarrow> kernel \<Rightarrow> ((errno + u32) \<times> kernel) res" where
  "proc_fcntl abi a fd op k =
     bind_res (proc_to_sys_fd a fd k) (\<lambda>s.
       case s of
         None \<Rightarrow> Inr (Inl EBADF, k)
       | Some sys_fd \<Rightarrow>
           (case op of
              F_GETFL \<Rightarrow>
                (case v_fds (k_vfs k) ! sys_fd of None \<Rightarrow> Inl NullDeref | Some f \<Rightarrow> Inr (Inr (f_flags f), k))
            | F_SETFL fl \<Rightarrow>
                (case v_fds (k_vfs k) ! sys_fd of
                   None \<Rightarrow> Inl NullDeref
                 | Some f \<Rightarrow>
                     (let mask = O_APPEND abi OR O_NONBLOCK abi in
                      Inr (Inr 0, k\<lparr>k_vfs := put_file sys_fd
                        (f\<lparr>f_flags := (f_flags f AND NOT mask) OR (fl AND mask)\<rparr>) (k_vfs k)\<rparr>)))
            | F_SETFD fl \<Rightarrow>
                Inr (Inr 0, upd_obj a (\<lambda>p. p\<lparr>p_fds := (p_fds p)[nat fd :=
                  map_option (\<lambda>d. d\<lparr>fd_clo_exec := fl AND FD_CLOEXEC abi \<noteq> 0\<rparr>) (p_fds p ! nat fd)]\<rparr>) k)
            | F_OTHER \<Rightarrow> Inr (Inl EINVAL, k)))"

section \<open>Flags\<close>

declare bit_numeral_word_iff [simp del]

lemma bit_power_word: "n < 32 \<Longrightarrow> bit (2 ^ n :: u32) i \<longleftrightarrow> i = n"
  by (auto simp: bit_exp_iff)

lemma flag_bit [simp]:
  "bit P_TERMINATED i \<longleftrightarrow> i = 0" "bit P_SYSCALL_INTERRUPTED i \<longleftrightarrow> i = 1" "bit P_WAITING_KEY i \<longleftrightarrow> i = 2"
  "bit P_WAITING_PROCESS i \<longleftrightarrow> i = 3" "bit P_ZOMBIE i \<longleftrightarrow> i = 4" "bit P_SLEEPING i \<longleftrightarrow> i = 5" "bit P_EXEC i \<longleftrightarrow> i = 6"
  "bit P_WAITING_READ i \<longleftrightarrow> i = 7"
  using bit_power_word [of 0 i] bit_power_word [of 1 i] bit_power_word [of 2 i] bit_power_word [of 3 i]
    bit_power_word [of 4 i] bit_power_word [of 5 i] bit_power_word [of 6 i] bit_power_word [of 7 i]
  by simp_all

lemma has_flag_process:
  "has_flag v P_TERMINATED \<longleftrightarrow> bit v 0" "has_flag v P_SYSCALL_INTERRUPTED \<longleftrightarrow> bit v 1" "has_flag v P_WAITING_KEY \<longleftrightarrow> bit v 2"
  "has_flag v P_WAITING_PROCESS \<longleftrightarrow> bit v 3" "has_flag v P_ZOMBIE \<longleftrightarrow> bit v 4" "has_flag v P_SLEEPING \<longleftrightarrow> bit v 5"
  "has_flag v P_EXEC \<longleftrightarrow> bit v 6" "has_flag v P_WAITING_READ \<longleftrightarrow> bit v 7"
  using and_exp_eq_0_iff_not_bit [of v 0] and_exp_eq_0_iff_not_bit [of v 1] and_exp_eq_0_iff_not_bit [of v 2]
    and_exp_eq_0_iff_not_bit [of v 3] and_exp_eq_0_iff_not_bit [of v 4] and_exp_eq_0_iff_not_bit [of v 5]
    and_exp_eq_0_iff_not_bit [of v 6] and_exp_eq_0_iff_not_bit [of v 7]
  by (simp_all add: has_flag_def)

lemmas flag_defs = is_terminated_def is_waiting_key_def is_waiting_program_def is_waiting_read_def is_sleeping_def exec_running_def
  has_flag_process

lemma set_flag_bit: "bit (p_flags (set_flag fl p)) i \<longleftrightarrow> bit (p_flags p) i \<or> bit fl i"
  by (simp add: set_flag_def bit_or_iff)

lemma clear_flag_bit: "bit (p_flags (clear_flag fl p)) i \<longleftrightarrow> bit (p_flags p) i \<and> \<not> bit fl i"
  using bit_imp_le_length [of "p_flags p" i] by (auto simp: clear_flag_def bit_simps)

lemma set_flag_simps [simp]:
  "p_pid (set_flag fl p) = p_pid p" "p_ppid (set_flag fl p) = p_ppid p" "p_children (set_flag fl p) = p_children p"
  "p_waiting_any (set_flag fl p) = p_waiting_any p" "p_waited_by_parent (set_flag fl p) = p_waited_by_parent p"
  "p_is_pre_freed (set_flag fl p) = p_is_pre_freed p" "p_cpu_state (set_flag fl p) = p_cpu_state p" "p_fds (set_flag fl p) = p_fds p"
  "p_values_to_write (set_flag fl p) = p_values_to_write p" "p_ret_status (set_flag fl p) = p_ret_status p"
  "p_deleted (set_flag fl p) = p_deleted p" "p_quantum (set_flag fl p) = p_quantum p" "p_priority (set_flag fl p) = p_priority p"
  "p_space (set_flag fl p) = p_space p"
  by (simp_all add: set_flag_def)

lemma clear_flag_simps [simp]:
  "p_pid (clear_flag fl p) = p_pid p" "p_ppid (clear_flag fl p) = p_ppid p" "p_children (clear_flag fl p) = p_children p"
  "p_waiting_any (clear_flag fl p) = p_waiting_any p" "p_waited_by_parent (clear_flag fl p) = p_waited_by_parent p"
  "p_is_pre_freed (clear_flag fl p) = p_is_pre_freed p" "p_cpu_state (clear_flag fl p) = p_cpu_state p" "p_fds (clear_flag fl p) = p_fds p"
  "p_values_to_write (clear_flag fl p) = p_values_to_write p" "p_ret_status (clear_flag fl p) = p_ret_status p"
  "p_deleted (clear_flag fl p) = p_deleted p" "p_quantum (clear_flag fl p) = p_quantum p" "p_priority (clear_flag fl p) = p_priority p"
  "p_space (clear_flag fl p) = p_space p"
  by (simp_all add: clear_flag_def)

section \<open>Delivery of signals\<close>

definition sig_slot :: "nat \<Rightarrow> nat" where
  "sig_slot signal = (if signal = 0 then 0 else sig_word signal)"

definition is_pending :: "process \<Rightarrow> nat \<Rightarrow> bool" where
  "is_pending p signal \<longleftrightarrow> bit (p_pending_signals p ! sig_slot signal) (sig_bit signal)"

text \<open>What \<open>signal_handling\<close> does with a signal: pass over it, or deliver it to a handler of the program.\<close>

definition passed_over :: "sig_abi \<Rightarrow> u32 list \<Rightarrow> process \<Rightarrow> nat \<Rightarrow> bool" where
  "passed_over abi blocked p signal \<longleftrightarrow>
     \<not> is_pending p signal \<or> bit (blocked ! sig_slot signal) (sig_bit signal) \<or> p_signal_action p ! signal = SIG_IGN abi"

definition deliverable :: "sig_abi \<Rightarrow> u32 list \<Rightarrow> process \<Rightarrow> nat \<Rightarrow> bool" where
  "deliverable abi blocked p signal \<longleftrightarrow> \<not> passed_over abi blocked p signal \<and> p_signal_action p ! signal \<noteq> SIG_DFL abi"

lemma signal_scan_Cons:
  "passed_over abi blocked p t \<Longrightarrow> signal_scan abi blocked (t # ts) p m = signal_scan abi blocked ts p m"
  by (auto simp: passed_over_def is_pending_def sig_slot_def Let_def)

lemma signal_scan_first:
  "\<forall>t \<in> set pre. passed_over abi blocked p t \<Longrightarrow> deliverable abi blocked p s \<Longrightarrow>
   signal_scan abi blocked (pre @ s # post) p m = deliver_signal abi s p m"
proof (induction pre)
  case Nil
  then show ?case by (simp add: deliverable_def passed_over_def is_pending_def sig_slot_def Let_def)
next
  case (Cons t pre)
  then show ?case using signal_scan_Cons [of abi blocked p t] by (simp del: signal_scan.simps)
qed

lemma signals_split: "s \<le> HIGHEST_SIGNAL \<Longrightarrow> [0..<HIGHEST_SIGNAL + 1] = [0..<s] @ s # [Suc s..<HIGHEST_SIGNAL + 1]"
  using upt_add_eq_append [of 0 s "HIGHEST_SIGNAL + 1 - s"] upt_conv_Cons [of s "HIGHEST_SIGNAL + 1"] by simp

lemma sig_bits:
  "t \<le> HIGHEST_SIGNAL \<Longrightarrow> sig_slot t = 0" "0 < t \<Longrightarrow> t \<le> HIGHEST_SIGNAL \<Longrightarrow> sig_bit t = t - 1" "sig_bit 0 = 31"
  by (auto simp: sig_slot_def sig_word_def sig_bit_def sub32_eq) (simp add: sub32_def)

lemma stack_push_room:
  assumes "stack_inv st" and "st_size st < st_capacity st"
  shows "\<exists>st'. push x st = (True, st') \<and> stack_inv st' \<and> pop st' = (Some x, st'\<lparr>st_size := st_size st\<rparr>) \<and> st_size st' = Suc (st_size st)"
  using assms by (auto simp: push_def pop_def stack_inv_def add32_eq sub32_eq Let_def)


lemma store_byte_ok:
  "accessible True (va_entry sp a m) \<Longrightarrow> \<exists>m'. store_byte sp a b m = Inr m' \<and> (\<forall>x. va_entry sp x m' = va_entry sp x m)"
  by (cases sp) (auto simp: store_byte_def access_def va_entry_def)

lemma store_u32_ok:
  assumes "\<And>x. x < KERNEL_VIRTUAL_BASE \<Longrightarrow> accessible True (va_entry sp x m)" and "unat a + 4 \<le> KERNEL_VIRTUAL_BASE"
  shows "\<exists>m'. store_u32 sp a w m = Inr m' \<and> (\<forall>x. va_entry sp x m' = va_entry sp x m)"
  unfolding store_u32_def
proof (rule for_n_total [where P = "\<lambda>_ m'. \<forall>x. va_entry sp x m' = va_entry sp x m"])
  fix j :: nat and s :: kmem assume j: "0 \<le> j" "j < 0 + 4" and s: "\<forall>x. va_entry sp x s = va_entry sp x m"
  have "add32 (unat a) j < KERNEL_VIRTUAL_BASE" using j assms(2) by (simp add: add32_eq)
  then have "accessible True (va_entry sp (add32 (unat a) j) s)" using assms(1) s by simp
  from store_byte_ok [OF this] s
  show "\<exists>s'. store_byte sp (add32 (unat a) j) (ucast (drop_bit (8 * j) w)) s = Inr s' \<and> (\<forall>x. va_entry sp x s' = va_entry sp x m)"
    by metis
qed simp

text \<open>A process in its initial state, and memory in which every page of the lower half is mapped.\<close>

definition blank_process :: process where
  "blank_process = \<lparr>p_quantum = 0, p_priority = 1, p_num_pages = 1, p_pid = 1, p_ppid = 1, p_k_stack_top = 0, p_flags = 0, p_ret_status = 0,
     p_work_dir = None, p_bin_path = None, p_exec_replacement = None, p_is_pre_freed = False,
     p_fds = replicate MAX_FD_PER_PROCESS None, p_lowest_free_fd = 0, p_signal_action = replicate 13 0,
     p_signals_contexts = \<lparr>st_data = replicate 10 \<lparr>sc_cpu = zero_cpu, sc_stack = zero_stack, sc_blocked_mask = replicate 4 0\<rparr>,
        st_size = 1, st_capacity = 10\<rparr>,
     p_oldact = replicate 13 None, p_pending_signals = replicate 4 0, p_cpu_state = zero_cpu, p_k_cpu_state = zero_cpu,
     p_stack_state = zero_stack, p_k_stack_state = zero_stack, p_waiting_any = False, p_waited_by_parent = False,
     p_children = list_new, p_values_to_write = list_new, p_tls_base = 0, p_space = UserProc 0, p_page_tables = 0, p_pdt = 0,
     p_deleted = False\<rparr>"

definition demo_sig_abi :: sig_abi where
  "demo_sig_abi = \<lparr>SIG_DFL = 0, SIG_IGN = 1, SIG_ERR = -1, SA_RESTORER = 4, SIGCANCEL = 32, SIGPIPE = 13, sigset_words = 4\<rparr>"

definition mapped_mem :: kmem where
  "mapped_mem = demo_mem\<lparr>uspace := (\<lambda>_. \<lparr>u_pt = (\<lambda>_. 0x1007), u_pdt = (\<lambda>_. 0x1007), u_pt_addr = 0, u_lfpe = 0\<rparr>)\<rparr>"

lemma mapped_mem_ok: "x < KERNEL_VIRTUAL_BASE \<Longrightarrow> accessible True (va_entry (UserProc 0) x mapped_mem)"
  by (simp add: accessible_def va_entry_def mapped_mem_def has_flag_bit bit_numeral_rec bit_numeral_word_iff)

definition signalled_process :: process where
  "signalled_process = blank_process\<lparr>p_signal_action := (replicate 13 0)[10 := 0x4000],
     p_oldact := (replicate 13 None)[10 := Some \<lparr>sa_handler = 0x4000, sa_mask = replicate 4 0, sa_flags = 4, sa_restorer = 0x5000\<rparr>],
     p_pending_signals := (replicate 4 0)[0 := push_bit 9 1], p_stack_state := zero_stack\<lparr>esp := 0x2000\<rparr>\<rparr>"


end
