(* ===== verification/Scheduler.thy ===== *)
theory Scheduler
  imports Processes
begin

text \<open>
  The scheduler (\<^verbatim>\<open>src/kernel/processes/scheduler.cpp\<close>), and what of processes and open files works through
  it: waking up readers of a pipe, closing files, ending processes, waiting for them, \<^verbatim>\<open>fork\<close> and
  \<^verbatim>\<open>execve\<close>. \<^verbatim>\<open>TRIGGER_TIMER_INTERRUPT\<close> suspends the running process: an operation that reaches it
  returns \<open>Blocked\<close>, and what follows it in the source runs when the process is resumed. The loader of
  programs, which makes a new process object, is a parameter.
\<close>

unbundle bit_operations_syntax

section \<open>Model\<close>

subsection \<open>The ready queue\<close>

definition ready_enqueue :: "nat \<Rightarrow> kernel \<Rightarrow> kernel" where
  "ready_enqueue pid k = k\<lparr>k_ready := snd (enqueue MAX_PROCESSES pid (k_ready k))\<rparr>"

definition ready_dequeue :: "kernel \<Rightarrow> nat \<times> kernel" where
  "ready_dequeue k = (let (pid, q) = dequeue MAX_PROCESSES (k_ready k) in (pid, k\<lparr>k_ready := q\<rparr>))"

definition get_free_pid :: "kernel \<Rightarrow> nat \<times> kernel" where
  "get_free_pid k =
     (case find (\<lambda>i. \<not> bit (k_pid_pool k) i) [0..<MAX_PROCESSES] of
        Some i \<Rightarrow> (i, k\<lparr>k_pid_pool := k_pid_pool k OR push_bit i 1\<rparr>)
      | None \<Rightarrow> (MAX_PROCESSES, k))"

definition release_pid :: "nat \<Rightarrow> kernel \<Rightarrow> kernel" where
  "release_pid pid k = k\<lparr>k_pid_pool := k_pid_pool k AND NOT (push_bit pid 1)\<rparr>"

definition get_running_process :: "kernel \<Rightarrow> nat option res" where
  "get_running_process k = (if k_running k = MAX_PROCESSES then Inr None else proc_slot (k_running k) k)"

definition get_process :: "int \<Rightarrow> kernel \<Rightarrow> nat option" where
  "get_process pid k = (if pid \<ge> int MAX_PROCESSES \<or> pid < 0 then None else k_processes k ! nat pid)"

definition set_process_ready :: "nat \<Rightarrow> kernel \<Rightarrow> kernel res" where
  "set_process_ready a k =
     (let pid = p_pid (k_objs k a) in
      bind_res (proc_slot pid k) (\<lambda>s.
        if (case s of None \<Rightarrow> False | Some b \<Rightarrow> p_pid (k_objs k b) \<noteq> pid)
        then Inl (Irrecoverable ''a different process is registered at this pid'')
        else Inr (upd_obj a RESET_QUANTUM (ready_enqueue pid (k\<lparr>k_processes := (k_processes k)[pid := Some a]\<rparr>)))))"

subsection \<open>Waiting for a key, for time to pass, and for data\<close>

text \<open>The loop reads the count of the queue anew in every round.\<close>

fun wake_key_loop :: "nat \<Rightarrow> u32 \<Rightarrow> nat \<Rightarrow> kernel \<Rightarrow> kernel res" where
  "wake_key_loop 0 key i k = Inr k"
| "wake_key_loop (Suc fuel) key i k =
     (if i < getCount (k_waiting k)
      then let (pid, w) = dequeue MAX_PROCESSES (k_waiting k);
               k1 = ready_enqueue pid (k\<lparr>k_waiting := w\<rparr>) in
        bind_res (proc_at pid k1) (\<lambda>a.
          wake_key_loop fuel key (i + 1)
            (upd_obj a (\<lambda>p. clear_flag P_WAITING_KEY (p\<lparr>p_cpu_state := (p_cpu_state p)\<lparr>eax := key\<rparr>\<rparr>)) k1))
      else Inr k)"

definition wake_up_key_waiting_processes :: "u32 \<Rightarrow> kernel \<Rightarrow> kernel res" where
  "wake_up_key_waiting_processes key k = wake_key_loop (getCount (k_waiting k)) key 0 k"

text \<open>Every round takes an element out of the heap: as many rounds as there are elements suffice.\<close>

fun wake_sleeping_loop :: "nat \<Rightarrow> nat \<Rightarrow> kernel \<Rightarrow> kernel res" where
  "wake_sleeping_loop 0 tick k = Inr k"
| "wake_sleeping_loop (Suc fuel) tick k =
     (if heap_empty (k_sleeping k) then Inr k
      else bind_res (heap_min (k_sleeping k)) (\<lambda>(a, end_tick).
        if end_tick \<le> tick
        then let pid = p_pid (k_objs k a); k1 = ready_enqueue pid k in
          bind_res (proc_at pid k1) (\<lambda>b.
          bind_res (delete_min snd (k_sleeping k1)) (\<lambda>(_, h).
            wake_sleeping_loop fuel tick ((upd_obj b (clear_flag P_SLEEPING) k1)\<lparr>k_sleeping := h\<rparr>)))
        else Inr k))"

definition check_for_processes_to_wake_up :: "kernel \<Rightarrow> kernel res" where
  "check_for_processes_to_wake_up k = wake_sleeping_loop (h_count (k_sleeping k)) (k_tick k) k"

text \<open>
  The number of ticks is computed in single precision; the result is the quotient below for every
  duration under 167772 ms, where all products are exact.
\<close>

definition sleep_ticks :: "nat \<Rightarrow> nat" where
  "sleep_ticks duration = (let n = 100 * duration div 1000 in if n = 0 then 1 else n)"

definition set_process_asleep :: "nat \<Rightarrow> nat \<Rightarrow> kernel \<Rightarrow> kernel res" where
  "set_process_asleep a duration k =
     (let k1 = upd_obj a (set_flag P_SLEEPING) k in
      bind_res (heap_insert snd (a, add32 (k_tick k1) (sleep_ticks duration)) (k_sleeping k1)) (\<lambda>h.
        Inr (k1\<lparr>k_sleeping := h\<rparr>)))"

definition do_read_wait :: "nat \<Rightarrow> nat \<Rightarrow> nat \<Rightarrow> kernel \<Rightarrow> kernel res" where
  "do_read_wait pid fd n k =
     (let k1 = k\<lparr>k_read_waiters := list_add \<lparr>rw_pid = pid, rw_fd = fd, rw_request = n, rw_read_so_far = 0\<rparr> (k_read_waiters k)\<rparr> in
      bind_res (proc_at pid k1) (\<lambda>a. Inr (upd_obj a (set_flag P_WAITING_READ) k1)))"

text \<open>
  The first loop of \<open>wake_up_read_waiting_processes\<close>: the entries with what they have read so far, and
  copies of those to be resumed; \<open>reader\<close> is the open file at \<open>read_fd\<close>.
\<close>

fun scan_waiters :: "nat \<Rightarrow> nat \<Rightarrow> file_iface option \<Rightarrow> read_waiter list \<Rightarrow> (read_waiter list \<times> read_waiter list) res" where
  "scan_waiters write_fd n reader [] = Inr ([], [])"
| "scan_waiters write_fd n reader (w # ws) =
     (if rw_fd w \<noteq> write_fd
      then bind_res (scan_waiters write_fd n reader ws) (\<lambda>(l, r). Inr (w # l, r))
      else
        let w' = w\<lparr>rw_read_so_far := add32 (rw_read_so_far w) (min (sub32 (rw_request w) (rw_read_so_far w)) n)\<rparr> in
        bind_res (if rw_read_so_far w' = rw_request w' then Inr True
                  else case reader of
                    None \<Rightarrow> Inl NullDeref
                  | Some f \<Rightarrow> bind_res (should_wait_for_data_on_read f) (\<lambda>b. Inr (\<not> b))) (\<lambda>resume.
        bind_res (scan_waiters write_fd n reader ws) (\<lambda>(l, r). Inr (w' # l, if resume then w' # r else r))))"

text \<open>\<open>list::remove\<close> with the comparison of \<^verbatim>\<open>proc_waiting_for_read\<close>, which looks at two fields.\<close>

definition remove_waiter :: "read_waiter \<Rightarrow> read_waiter clist \<Rightarrow> read_waiter clist" where
  "remove_waiter w l =
     (case find (\<lambda>x. rw_pid x = rw_pid w \<and> rw_fd x = rw_fd w) (l_head l) of
        None \<Rightarrow> l
      | Some x \<Rightarrow> snd (list_remove x l))"

fun resume_waiters :: "read_waiter list \<Rightarrow> kernel \<Rightarrow> kernel res" where
  "resume_waiters [] k = Inr k"
| "resume_waiters (w # ws) k =
     (let k1 = k\<lparr>k_read_waiters := remove_waiter w (k_read_waiters k)\<rparr> in
      bind_res (proc_at (rw_pid w) k1) (\<lambda>a.
        resume_waiters ws (ready_enqueue (p_pid (k_objs k1 a)) (upd_obj a (clear_flag P_WAITING_READ) k1))))"

definition wake_up_read_waiting_processes :: "nat \<Rightarrow> nat \<Rightarrow> nat \<Rightarrow> kernel \<Rightarrow> kernel res" where
  "wake_up_read_waiting_processes write_fd read_fd n k =
     bind_res (scan_waiters write_fd n (v_fds (k_vfs k) ! read_fd) (l_head (k_read_waiters k))) (\<lambda>(l, r).
       resume_waiters r (k\<lparr>k_read_waiters := (k_read_waiters k)\<lparr>l_head := l\<rparr>\<rparr>))"

subsection \<open>Reading, writing and closing\<close>

datatype 'a blocking = Done 'a | Blocked

definition vfs_read :: "fs_ops \<Rightarrow> nat \<Rightarrow> nat \<Rightarrow> kernel \<Rightarrow> ((errno + u8 list) blocking \<times> kernel) res" where
  "vfs_read fs fd n k =
     (case v_fds (k_vfs k) ! fd of
        None \<Rightarrow> Inr (Done (Inl EBADF), k)
      | Some f \<Rightarrow>
          bind_res (iface_read fs f n (k_vfs k)) (\<lambda>(r, v).
            let k1 = k\<lparr>k_vfs := v\<rparr> in
            if r = Inr []
            then bind_res (should_wait_for_data_on_read f) (\<lambda>wait.
              if wait
              then case get_write_fd f of
                     None \<Rightarrow> Inl OutOfBounds
                   | Some wfd \<Rightarrow> bind_res (do_read_wait (k_running k1) wfd n k1) (\<lambda>k2. Inr (Blocked, k2))
              else Inr (Done r, k1))
            else Inr (Done r, k1)))"

definition vfs_write :: "sig_abi \<Rightarrow> open_abi \<Rightarrow> fs_ops \<Rightarrow> nat \<Rightarrow> u8 list \<Rightarrow> kernel \<Rightarrow> ((errno + nat) \<times> kernel) res" where
  "vfs_write sabi abi fs fd buf k =
     (case v_fds (k_vfs k) ! fd of
        None \<Rightarrow> Inr (Inl EBADF, k)
      | Some f \<Rightarrow>
          bind_res (iface_write abi fs f buf (k_vfs k)) (\<lambda>(st, v).
            let k1 = k\<lparr>k_vfs := v\<rparr> in
            bind_res
              (if st = Inl EPIPE
               then bind_res (get_running_process k1) (\<lambda>r.
                      case r of
                        None \<Rightarrow> Inl NullDeref
                      | Some a \<Rightarrow> bind_res (kill sabi (SIGPIPE sabi) (k_objs k1 a)) (\<lambda>(_, p). Inr (upd_obj a (\<lambda>_. p) k1)))
               else Inr k1) (\<lambda>k2.
            case (st, get_read_fd f) of
              (Inr n, Some rfd) \<Rightarrow>
                if n > 0 then bind_res (wake_up_read_waiting_processes fd rfd n k2) (\<lambda>k3. Inr (st, k3)) else Inr (st, k2)
            | _ \<Rightarrow> Inr (st, k2))))"

text \<open>\<open>VFS::close\<close>; \<open>True\<close> is the return value 0, \<open>False\<close> the return value \<open>-EBADF\<close>.\<close>

definition vfs_close :: "nat \<Rightarrow> kernel \<Rightarrow> (bool \<times> kernel) res" where
  "vfs_close fd k =
     (case v_fds (k_vfs k) ! fd of
        None \<Rightarrow> Inr (False, k)
      | Some f \<Rightarrow>
          if f_rc f = 0
          then let k1 = k\<lparr>k_vfs := delete_file fd f (k_vfs k)\<rparr> in
            case (get_write_fd f, get_read_fd f) of
              (Some wfd, Some rfd) \<Rightarrow> bind_res (wake_up_read_waiting_processes wfd rfd 0 k1) (\<lambda>k2. Inr (True, k2))
            | _ \<Rightarrow> Inr (True, k1)
          else Inr (True, k))"

text \<open>An error of \<open>VFS::close\<close> would be returned as 1, the value of the comparison.\<close>

definition proc_close :: "nat \<Rightarrow> int \<Rightarrow> kernel \<Rightarrow> ((errno + nat) \<times> kernel) res" where
  "proc_close a fd k =
     bind_res (proc_to_sys_fd a fd k) (\<lambda>s.
       case s of
         None \<Rightarrow> Inr (Inl EBADF, k)
       | Some sys_fd \<Rightarrow>
           bind_res (release_fd a (nat fd) k) (\<lambda>k1.
           bind_res (vfs_close sys_fd k1) (\<lambda>(okay, k2). Inr (Inr (if okay then 0 else 1), k2))))"

definition proc_read :: "fs_ops \<Rightarrow> nat \<Rightarrow> int \<Rightarrow> nat \<Rightarrow> kernel \<Rightarrow> ((errno + u8 list) blocking \<times> kernel) res" where
  "proc_read fs a fd n k =
     bind_res (proc_to_sys_fd a fd k) (\<lambda>s.
       case s of None \<Rightarrow> Inr (Done (Inl EBADF), k) | Some sys_fd \<Rightarrow> vfs_read fs sys_fd n k)"

definition proc_write :: "sig_abi \<Rightarrow> open_abi \<Rightarrow> fs_ops \<Rightarrow> nat \<Rightarrow> int \<Rightarrow> u8 list \<Rightarrow> kernel \<Rightarrow> ((errno + nat) \<times> kernel) res" where
  "proc_write sabi abi fs a fd buf k =
     bind_res (proc_to_sys_fd a fd k) (\<lambda>s.
       case s of None \<Rightarrow> Inr (Inl EBADF, k) | Some sys_fd \<Rightarrow> vfs_write sabi abi fs sys_fd buf k)"

definition proc_dup2 :: "nat \<Rightarrow> int \<Rightarrow> int \<Rightarrow> kernel \<Rightarrow> ((errno + nat) \<times> kernel) res" where
  "proc_dup2 a oldfd newfd k =
     bind_res (proc_to_sys_fd a oldfd k) (\<lambda>s.
       case s of
         None \<Rightarrow> Inr (Inl EBADF, k)
       | Some sys_fd \<Rightarrow>
           if oldfd = newfd then Inr (Inr (nat newfd), k)
           else if newfd < 0 \<or> newfd \<ge> int MAX_FD_PER_PROCESS then Inl OutOfBounds
           else
             bind_res (if p_fds (k_objs k a) ! nat newfd \<noteq> None
                       then bind_res (proc_close a newfd k) (\<lambda>(_, k1). Inr k1) else Inr k) (\<lambda>k1.
             bind_res (install_fd a (nat newfd) sys_fd False k1) (\<lambda>k2.
               Inr (Inr (nat newfd), upd_obj a (\<lambda>p. p\<lparr>p_lowest_free_fd := scan_used (p_fds p) (p_lowest_free_fd p)\<rparr>) k2))))"

subsection \<open>The end of a process\<close>

definition close_all_fds :: "nat \<Rightarrow> kernel \<Rightarrow> kernel res" where
  "close_all_fds a k =
     for_n (\<lambda>i k. case p_fds (k_objs k a) ! i of
                    None \<Rightarrow> Inr k
                  | Some d \<Rightarrow> bind_res (proc_close a (int (fd_fd d)) k) (\<lambda>(_, k1). Inr k1)) 0 MAX_FD_PER_PROCESS k"

definition pre_free :: "nat \<Rightarrow> kernel \<Rightarrow> kernel res" where
  "pre_free a k =
     (if p_is_pre_freed (k_objs k a) then Inr k
      else
        let sp = p_space (k_objs k a); h = k_heap k in
        bind_res (free_all sp (trees h sp) (kmem_of h)) (\<lambda>m.
        bind_res (close_all_fds a (k\<lparr>k_heap := h\<lparr>trees := (trees h)(sp := Null), kmem_of := m\<rparr>\<rparr>)) (\<lambda>k1.
          if list_size (p_children (k_objs k1 a)) \<noteq> 0 \<and> \<not> exec_running (k_objs k1 a)
          then Inl (Irrecoverable ''Freeing a process that has children'')
          else
            bind_res (freea (p_page_tables (k_objs k1 a)) (k_heap k1)) (\<lambda>h1.
            bind_res (freea (p_pdt (k_objs k1 a)) h1) (\<lambda>h2.
              Inr (upd_obj a (\<lambda>p. p\<lparr>p_is_pre_freed := True\<rparr>) (k1\<lparr>k_heap := h2\<rparr>)))))))"

text \<open>\<open>delete\<close> of a process object: the destructor, then the memory is given back.\<close>

definition delete_process :: "nat \<Rightarrow> kernel \<Rightarrow> kernel res" where
  "delete_process a k =
     bind_res (if is_terminated (k_objs k a) then pre_free a k else Inr k)
       (\<lambda>k1. Inr (upd_obj a (\<lambda>p. p\<lparr>p_deleted := True\<rparr>) k1))"

definition wake_up_process_parent :: "nat \<Rightarrow> kernel \<Rightarrow> kernel res" where
  "wake_up_process_parent pid k =
     bind_res (proc_at pid k) (\<lambda>c.
       let ppid = p_ppid (k_objs k c) in
       bind_res (proc_at ppid k) (\<lambda>w.
         let k1 = (if ppid \<noteq> k_running k then ready_enqueue ppid k else k) in
         Inr (upd_obj w (\<lambda>p.
           let p1 = (if esi (p_cpu_state p) \<noteq> 0
                     then p\<lparr>p_values_to_write := list_add (esi (p_cpu_state p), p_ret_status (k_objs k c)) (p_values_to_write p)\<rparr>
                     else p);
               p2 = clear_flag P_WAITING_PROCESS p1 in
           p2\<lparr>p_cpu_state := (p_cpu_state p2)\<lparr>eax := word_of_nat pid\<rparr>,
              p_children := snd (list_remove pid (p_children p2))\<rparr>) k1)))"

fun orphan_children :: "nat list \<Rightarrow> kernel \<Rightarrow> kernel res" where
  "orphan_children [] k = Inr k"
| "orphan_children (c # rest) k =
     bind_res (proc_at c k) (\<lambda>a. orphan_children rest (upd_obj a (\<lambda>p. p\<lparr>p_ppid := p_pid p\<rparr>) k))"

definition free_terminated_process :: "nat \<Rightarrow> kernel \<Rightarrow> kernel res" where
  "free_terminated_process a k =
     (if \<not> has_flag (p_flags (k_objs k a)) P_TERMINATED \<and> \<not> has_flag (p_flags (k_objs k a)) P_ZOMBIE
      then Inl (Irrecoverable ''Trying to free a process which is not terminated'')
      else if exec_running (k_objs k a) then delete_process a k
      else
        let pid = p_pid (k_objs k a) in
        bind_res (proc_at (p_ppid (k_objs k a)) k) (\<lambda>par.
        bind_res (if p_waited_by_parent (k_objs k a) \<or> p_waiting_any (k_objs k par)
                  then bind_res (wake_up_process_parent pid k) (\<lambda>k1.
                    bind_res (proc_at (p_ppid (k_objs k1 a)) k1) (\<lambda>par1.
                      Inr (upd_obj a (\<lambda>p. p\<lparr>p_waited_by_parent := False\<rparr>)
                            (upd_obj par1 (\<lambda>p. p\<lparr>p_waiting_any := False\<rparr>) k1))))
                  else Inr k) (\<lambda>k1.
        bind_res (orphan_children (l_head (p_children (k_objs k1 a))) k1) (\<lambda>k2.
          let k3 = release_pid pid (upd_obj a (\<lambda>p. p\<lparr>p_children := list_clear (p_children p)\<rparr>) k2) in
          delete_process a (k3\<lparr>k_processes := (k_processes k3)[pid := None]\<rparr>)))))"

definition relinquish_first_ready_process :: "kernel \<Rightarrow> kernel res" where
  "relinquish_first_ready_process k0 =
     (let pid = getFirst (k_ready k0); k = k0\<lparr>k_running := pid\<rparr> in
      bind_res (proc_at pid k) (\<lambda>a.
        let exec = has_flag (p_flags (k_objs k a)) P_EXEC;
            k1 = (if exec then k else snd (ready_dequeue k)) in
        if p_ppid (k_objs k1 a) = p_pid (k_objs k1 a) then free_terminated_process a k1
        else bind_res (proc_at (p_ppid (k_objs k1 a)) k1) (\<lambda>par.
          if \<not> p_waiting_any (k_objs k1 par) \<and> \<not> p_waited_by_parent (k_objs k1 a) \<and> \<not> exec
          then pre_free a (upd_obj a (set_flag P_ZOMBIE) k1)
          else free_terminated_process a k1)))"

subsection \<open>Choosing the next process\<close>

definition set_first_ready_process_asleep_waiting_key_press :: "kernel \<Rightarrow> kernel" where
  "set_first_ready_process_asleep_waiting_key_press k =
     (let (pid, k1) = ready_dequeue k
      in k1\<lparr>k_running := pid, k_waiting := snd (enqueue MAX_PROCESSES pid (k_waiting k1))\<rparr>)"

text \<open>Also \<open>set_first_ready_process_asleep_waiting_read\<close>, which does the same.\<close>

definition set_first_ready_process_asleep_waiting_process :: "kernel \<Rightarrow> kernel" where
  "set_first_ready_process_asleep_waiting_process k = (let (pid, k1) = ready_dequeue k in k1\<lparr>k_running := pid\<rparr>)"

text \<open>
  One round of the loop for the process object \<open>a\<close> at the head of the ready queue: the process chosen,
  or \<open>None\<close>. After an \<^verbatim>\<open>execve\<close> the replacement takes the place of the process, whose number is read
  from the deleted object.
\<close>

definition exec_switch :: "nat \<Rightarrow> kernel \<Rightarrow> (nat \<times> kernel) res" where
  "exec_switch a k =
     (if exec_running (k_objs k a)
      then let replacement = p_exec_replacement (k_objs k a) in
        bind_res (relinquish_first_ready_process (upd_obj a (set_flag P_TERMINATED) k)) (\<lambda>k1.
          let k2 = k1\<lparr>k_processes := (k_processes k1)[p_pid (k_objs k1 a) := replacement]\<rparr> in
          case replacement of None \<Rightarrow> Inl NullDeref | Some r \<Rightarrow> Inr (r, k2))
      else Inr (a, k))"

definition next_round :: "kernel \<Rightarrow> (nat option \<times> kernel) res" where
  "next_round k0 =
     (let pid = getFirst (k_ready k0); k = k0\<lparr>k_running := pid\<rparr> in
      bind_res (proc_at pid k) (\<lambda>a.
        let p = k_objs k a in
        if is_terminated p then bind_res (relinquish_first_ready_process k) (\<lambda>k1. Inr (None, k1))
        else if is_waiting_key p then Inr (None, set_first_ready_process_asleep_waiting_key_press k)
        else if is_waiting_program p then Inr (None, set_first_ready_process_asleep_waiting_process k)
        else if is_sleeping p then Inr (None, snd (ready_dequeue k))
        else if is_waiting_read p then Inr (None, set_first_ready_process_asleep_waiting_process k)
        else bind_res (exec_switch a k) (\<lambda>(b, k1).
          if p_quantum (k_objs k1 b) \<noteq> 0
          then Inr (Some b, upd_obj b (\<lambda>p. p\<lparr>p_quantum := sub32 (p_quantum p) 10\<rparr>) k1)
          else Inr (None, upd_obj b RESET_QUANTUM (ready_enqueue (p_pid (k_objs k1 b)) (snd (ready_dequeue k1)))))))"

text \<open>The loop may run forever (a process of priority 0 is never chosen): \<open>None\<close> when the fuel is used up.\<close>

fun next_loop :: "nat \<Rightarrow> kernel \<Rightarrow> (nat option \<times> kernel) res option" where
  "next_loop 0 k = None"
| "next_loop (Suc fuel) k =
     (if queue_empty (k_ready k) then Some (Inr (None, k))
      else case next_round k of
        Inl e \<Rightarrow> Some (Inl e)
      | Inr (Some b, k1) \<Rightarrow> Some (Inr (Some b, k1))
      | Inr (None, k1) \<Rightarrow> next_loop fuel k1)"

definition get_next_process :: "nat \<Rightarrow> kernel \<Rightarrow> (nat option \<times> kernel) res option" where
  "get_next_process fuel k = next_loop fuel (k\<lparr>k_running := MAX_PROCESSES\<rparr>)"

datatype sched_outcome = Run nat | Halt | Shutdown

definition schedule :: "nat \<Rightarrow> kernel \<Rightarrow> (sched_outcome \<times> kernel) res option" where
  "schedule fuel k =
     (case check_for_processes_to_wake_up k of
        Inl e \<Rightarrow> Some (Inl e)
      | Inr k1 \<Rightarrow>
          (case get_next_process fuel k1 of
             None \<Rightarrow> None
           | Some (Inl e) \<Rightarrow> Some (Inl e)
           | Some (Inr (Some a, k2)) \<Rightarrow> Some (Inr (Run a, k2))
           | Some (Inr (None, k2)) \<Rightarrow>
               if queue_empty (k_waiting k2) \<and> heap_empty (k_sleeping k2) then Some (Inr (Shutdown, k2))
               else Some (Inr (Halt, k2\<lparr>k_running := MAX_PROCESSES\<rparr>))))"

fun write_values :: "proc \<Rightarrow> (u32 \<times> u32) list \<Rightarrow> kmem \<Rightarrow> kmem res" where
  "write_values sp [] m = Inr m"
| "write_values sp ((a, v) # xs) m = bind_res (store_u32 sp a v m) (write_values sp xs)"

text \<open>\<open>resume_process\<close>: \<open>True\<close> if it goes on in an interrupted system call.\<close>

definition resume_process :: "sig_abi \<Rightarrow> nat \<Rightarrow> kernel \<Rightarrow> (bool \<times> kernel) res" where
  "resume_process abi a k =
     (let p = k_objs k a in
      bind_res (write_values (p_space p) (l_head (p_values_to_write p)) (kmem_of (k_heap k))) (\<lambda>m.
        let p1 = p\<lparr>p_values_to_write := list_clear (p_values_to_write p)\<rparr> in
        if has_flag (p_flags p1) P_SYSCALL_INTERRUPTED
        then Inr (True, upd_obj a (\<lambda>_. clear_flag P_SYSCALL_INTERRUPTED p1) (k\<lparr>k_heap := (k_heap k)\<lparr>kmem_of := m\<rparr>\<rparr>))
        else bind_res (signal_handling abi p1 m) (\<lambda>(p2, m2).
          Inr (False, upd_obj a (\<lambda>_. p2) (k\<lparr>k_heap := (k_heap k)\<lparr>kmem_of := m2\<rparr>\<rparr>)))))"

text \<open>The timer interrupt, up to \<open>schedule\<close>; \<open>in_syscall\<close> tells that kernel code was interrupted.\<close>

definition interrupt_timer :: "bool \<Rightarrow> u32 \<Rightarrow> u32 \<Rightarrow> cpu_state \<Rightarrow> stack_state \<Rightarrow> kernel \<Rightarrow> kernel res" where
  "interrupt_timer in_syscall kesp kss cpu stack k0 =
     (let k = k0\<lparr>k_tick := add32 (k_tick k0) 1\<rparr> in
      bind_res (get_running_process k) (\<lambda>r.
        case r of
          None \<Rightarrow> Inr k
        | Some a \<Rightarrow>
            Inr (upd_obj a (\<lambda>p.
              let p1 = (if in_syscall then set_flag P_SYSCALL_INTERRUPTED p else p) in
              if is_terminated p1 then p1
              else if in_syscall then p1\<lparr>p_k_cpu_state := cpu, p_k_stack_state := stack\<lparr>esp := kesp, ss := kss\<rparr>\<rparr>
              else p1\<lparr>p_cpu_state := cpu, p_stack_state := stack\<rparr>) k)))"

subsection \<open>Waiting for a process\<close>

text \<open>The first child that is a zombie.\<close>

fun find_zombie :: "nat list \<Rightarrow> kernel \<Rightarrow> nat option res" where
  "find_zombie [] k = Inr None"
| "find_zombie (c # rest) k =
     bind_res (proc_slot c k) (\<lambda>s.
       case s of
         None \<Rightarrow> find_zombie rest k
       | Some a \<Rightarrow> if has_flag (p_flags (k_objs k a)) P_ZOMBIE then Inr (Some a) else find_zombie rest k)"

datatype wait_result = WaitReturn nat | WaitBlocked | WaitECHILD

definition register_process_wait :: "nat \<Rightarrow> nat option \<Rightarrow> kernel \<Rightarrow> (wait_result \<times> kernel) res" where
  "register_process_wait waiting waited k =
     bind_res (proc_at waiting k) (\<lambda>w.
       case waited of
         None \<Rightarrow>
           bind_res (find_zombie (l_head (p_children (k_objs k w))) k) (\<lambda>z.
             case z of
               Some c \<Rightarrow>
                 bind_res (free_terminated_process c k) (\<lambda>k1. Inr (WaitReturn (p_pid (k_objs k c)), k1))
             | None \<Rightarrow>
                 if list_size (p_children (k_objs k w)) > 0
                 then Inr (WaitBlocked, upd_obj w (\<lambda>p. set_flag P_WAITING_PROCESS (p\<lparr>p_waiting_any := True\<rparr>)) k)
                 else Inr (WaitECHILD, k))
       | Some pid \<Rightarrow>
           if \<not> list_contains pid (p_children (k_objs k w)) then Inr (WaitECHILD, k)
           else bind_res (proc_at pid k) (\<lambda>c.
             let k1 = upd_obj c (\<lambda>p. p\<lparr>p_waited_by_parent := True\<rparr>) k in
             if has_flag (p_flags (k_objs k1 c)) P_ZOMBIE
             then bind_res (free_terminated_process c k1) (\<lambda>k2. Inr (WaitReturn pid, k2))
             else Inr (WaitBlocked, upd_obj w (set_flag P_WAITING_PROCESS) k1)))"

text \<open>
  The system call \<^verbatim>\<open>waitpid\<close>: where a child is returned at once, its number shifted by 8 is stored
  as its status.
\<close>

definition wait_pid :: "nat \<Rightarrow> nat option \<Rightarrow> kernel \<Rightarrow> (wait_result \<times> kernel) res" where
  "wait_pid a waited k =
     bind_res (register_process_wait (p_pid (k_objs k a)) waited k) (\<lambda>(r, k1).
       case r of
         WaitReturn pid \<Rightarrow>
           if pid > 0
           then bind_res (store_u32 (p_space (k_objs k1 a)) (esi (p_cpu_state (k_objs k1 a))) (push_bit 8 (word_of_nat pid))
                    (kmem_of (k_heap k1)))
                  (\<lambda>m. Inr (r, k1\<lparr>k_heap := (k_heap k1)\<lparr>kmem_of := m\<rparr>\<rparr>))
           else Inr (WaitBlocked, k1)
       | _ \<Rightarrow> Inr (r, k1))"

fun prune_loop :: "nat \<Rightarrow> kernel \<Rightarrow> kernel" where
  "prune_loop 0 k = k"
| "prune_loop (Suc n) k =
     (let (pid, k1) = ready_dequeue k in prune_loop n (if pid \<noteq> 0 then ready_enqueue pid k1 else k1))"

definition stop_kernel_init_process :: "kernel \<Rightarrow> kernel" where
  "stop_kernel_init_process k = prune_loop (getCount (k_ready k)) k"

section \<open>State updates\<close>

lemma upd_obj_simps [simp]:
  "k_objs (upd_obj a g k) = (k_objs k)(a := g (k_objs k a))" "k_next_obj (upd_obj a g k) = k_next_obj k"
  "k_pid_pool (upd_obj a g k) = k_pid_pool k" "k_running (upd_obj a g k) = k_running k" "k_ready (upd_obj a g k) = k_ready k"
  "k_waiting (upd_obj a g k) = k_waiting k" "k_read_waiters (upd_obj a g k) = k_read_waiters k"
  "k_processes (upd_obj a g k) = k_processes k" "k_sleeping (upd_obj a g k) = k_sleeping k" "k_vfs (upd_obj a g k) = k_vfs k"
  "k_heap (upd_obj a g k) = k_heap k" "k_tick (upd_obj a g k) = k_tick k"
  by (simp_all add: upd_obj_def)

lemma ready_enqueue_simps [simp]:
  "k_objs (ready_enqueue pid k) = k_objs k" "k_next_obj (ready_enqueue pid k) = k_next_obj k"
  "k_pid_pool (ready_enqueue pid k) = k_pid_pool k" "k_running (ready_enqueue pid k) = k_running k"
  "k_waiting (ready_enqueue pid k) = k_waiting k" "k_read_waiters (ready_enqueue pid k) = k_read_waiters k"
  "k_processes (ready_enqueue pid k) = k_processes k" "k_sleeping (ready_enqueue pid k) = k_sleeping k"
  "k_vfs (ready_enqueue pid k) = k_vfs k" "k_heap (ready_enqueue pid k) = k_heap k" "k_tick (ready_enqueue pid k) = k_tick k"
  by (simp_all add: ready_enqueue_def)

lemma proc_at_cong: "k_processes k' = k_processes k \<Longrightarrow> proc_at pid k' = proc_at pid k"
  by (simp add: proc_at_def proc_slot_def)

lemma proc_at_Some: "pid < MAX_PROCESSES \<Longrightarrow> k_processes k ! pid = Some a \<Longrightarrow> proc_at pid k = Inr a"
  by (simp add: proc_at_def proc_slot_def)

section \<open>Queues of process numbers\<close>

abbreviation ready_pids :: "kernel \<Rightarrow> nat list" where
  "ready_pids k \<equiv> queue_elems MAX_PROCESSES (k_ready k)"

abbreviation waiting_pids :: "kernel \<Rightarrow> nat list" where
  "waiting_pids k \<equiv> queue_elems MAX_PROCESSES (k_waiting k)"

lemma ready_dequeue_pids:
  assumes "queue_inv MAX_PROCESSES (k_ready k)" and "ready_pids k = x # xs"
  shows "\<exists>q. ready_dequeue k = (x, k\<lparr>k_ready := q\<rparr>) \<and> queue_inv MAX_PROCESSES q \<and> queue_elems MAX_PROCESSES q = xs"
  using dequeue_refines [OF assms] by (auto simp: ready_dequeue_def)

lemma ready_enqueue_pids:
  assumes "queue_inv MAX_PROCESSES (k_ready k)" and "length (ready_pids k) < MAX_PROCESSES"
  shows "queue_inv MAX_PROCESSES (k_ready (ready_enqueue x k)) \<and> ready_pids (ready_enqueue x k) = ready_pids k @ [x]"
  using enqueue_refines [of MAX_PROCESSES "k_ready k" x] assms by (auto simp: ready_enqueue_def)

lemma getFirst_pids: "queue_inv MAX_PROCESSES (k_ready k) \<Longrightarrow> ready_pids k = x # xs \<Longrightarrow> getFirst (k_ready k) = x"
  using getFirst_hd [of MAX_PROCESSES "k_ready k"] by (metis length_queue_elems length_greater_0_conv list.distinct(1) list.sel(1))

section \<open>The choice of the next process\<close>

definition runnable :: "process \<Rightarrow> bool" where
  "runnable p \<longleftrightarrow> \<not> is_terminated p \<and> \<not> is_waiting_key p \<and> \<not> is_waiting_program p \<and> \<not> is_sleeping p \<and> \<not> is_waiting_read p"

definition obj_of :: "kernel \<Rightarrow> nat \<Rightarrow> process" where
  "obj_of k pid = k_objs k (the (k_processes k ! pid))"

text \<open>
  The processes in the ready queue are registered under their numbers, are not ending or being
  replaced, and have a priority from which a time slice can be computed.
\<close>

definition registered :: "kernel \<Rightarrow> nat \<Rightarrow> bool" where
  "registered k pid \<longleftrightarrow> pid < MAX_PROCESSES \<and> k_processes k ! pid \<noteq> None \<and> p_pid (obj_of k pid) = pid"

definition sched_ok :: "kernel \<Rightarrow> bool" where
  "sched_ok k \<longleftrightarrow> queue_inv MAX_PROCESSES (k_ready k) \<and> distinct (ready_pids k) \<and>
     (\<forall>pid \<in> set (ready_pids k). registered k pid \<and> \<not> is_terminated (obj_of k pid) \<and> \<not> exec_running (obj_of k pid) \<and>
        0 < p_priority (obj_of k pid) \<and> p_priority (obj_of k pid) * 10 < W32)"

text \<open>
  The choice as a function on lists: the first process in the queue that can run and has time left; it
  stays first, and those before it that can run follow behind the others, with their time renewed. If there is
  none, the first one that can run, with renewed time.
\<close>

definition eligible :: "process \<Rightarrow> bool" where
  "eligible p \<longleftrightarrow> runnable p \<and> p_quantum p \<noteq> 0"

definition next_choice :: "(nat \<Rightarrow> process) \<Rightarrow> nat list \<Rightarrow> nat list \<Rightarrow> nat option \<times> nat list" where
  "next_choice P xs ys =
     (case dropWhile (\<lambda>x. \<not> eligible (P x)) xs of
        x # rest \<Rightarrow> (Some x, x # rest @ ys @ filter (\<lambda>x. runnable (P x)) (takeWhile (\<lambda>x. \<not> eligible (P x)) xs))
      | [] \<Rightarrow> (case ys @ filter (\<lambda>x. runnable (P x)) xs of [] \<Rightarrow> (None, []) | x # rest \<Rightarrow> (Some x, x # rest)))"

lemma next_choice_Nil: "next_choice P [] ys = (case ys of [] \<Rightarrow> (None, []) | x # rest \<Rightarrow> (Some x, ys))"
  by (auto simp: next_choice_def split: list.splits)

lemma next_choice_Cons:
  "next_choice P (x # xs) ys =
     (if eligible (P x) then (Some x, x # xs @ ys)
      else if runnable (P x) then next_choice P xs (ys @ [x]) else next_choice P xs ys)"
  by (cases "dropWhile (\<lambda>x. \<not> eligible (P x)) xs") (simp_all add: next_choice_def del: dropWhile_eq_Nil_conv)

lemma next_choice_cong:
  assumes "\<And>x. x \<in> set xs \<Longrightarrow> P x = Q x"
  shows "next_choice P xs ys = next_choice Q xs ys"
  using assms by (induction xs arbitrary: ys) (simp_all add: next_choice_Nil next_choice_Cons)

lemma obj_of_cong: "k_processes k' = k_processes k \<Longrightarrow> k_objs k' = k_objs k \<Longrightarrow> obj_of k' = obj_of k"
  by (simp add: obj_of_def fun_eq_iff)

lemma next_round_waiting:
  assumes "queue_inv MAX_PROCESSES (k_ready k)" and "ready_pids k = x # xs" and "registered k x"
    and "\<not> is_terminated (obj_of k x)" and "\<not> runnable (obj_of k x)"
  shows "\<exists>k'. next_round k = Inr (None, k') \<and> queue_inv MAX_PROCESSES (k_ready k') \<and> ready_pids k' = xs \<and>
    k_processes k' = k_processes k \<and> k_objs k' = k_objs k"
proof -
  let ?k = "k\<lparr>k_running := x\<rparr>"
  obtain a where a: "proc_at x ?k = Inr a" "obj_of k x = k_objs k a"
    using assms(3) by (auto simp: registered_def obj_of_def proc_at_def proc_slot_def)
  obtain q where q: "ready_dequeue ?k = (x, ?k\<lparr>k_ready := q\<rparr>)" "queue_inv MAX_PROCESSES q" "queue_elems MAX_PROCESSES q = xs"
    using ready_dequeue_pids [of ?k x xs] assms(1,2) by auto
  show ?thesis
    using getFirst_pids [OF assms(1,2)] a q assms(4,5)
    by (auto simp: next_round_def Let_def runnable_def set_first_ready_process_asleep_waiting_key_press_def
        set_first_ready_process_asleep_waiting_process_def)
qed

lemma next_round_runnable:
  assumes "queue_inv MAX_PROCESSES (k_ready k)" and "ready_pids k = x # xs" and "registered k x"
    and "runnable (obj_of k x)" and "\<not> exec_running (obj_of k x)"
  shows "\<exists>a k'. k_processes k ! x = Some a \<and>
    next_round k = Inr (if p_quantum (obj_of k x) \<noteq> 0 then Some a else None, k') \<and> queue_inv MAX_PROCESSES (k_ready k') \<and>
    ready_pids k' = (if p_quantum (obj_of k x) \<noteq> 0 then x # xs else xs @ [x]) \<and> k_processes k' = k_processes k \<and>
    k_objs k' = (k_objs k)(a := (if p_quantum (obj_of k x) \<noteq> 0 then (\<lambda>p. p\<lparr>p_quantum := sub32 (p_quantum p) 10\<rparr>) else RESET_QUANTUM) (k_objs k a))"
proof -
  let ?k = "k\<lparr>k_running := x\<rparr>"
  obtain a where a: "proc_at x ?k = Inr a" "obj_of k x = k_objs k a" "k_processes k ! x = Some a" "p_pid (k_objs k a) = x"
    using assms(3) by (auto simp: registered_def obj_of_def proc_at_def proc_slot_def)
  obtain q where q: "ready_dequeue ?k = (x, ?k\<lparr>k_ready := q\<rparr>)" "queue_inv MAX_PROCESSES q" "queue_elems MAX_PROCESSES q = xs"
    using ready_dequeue_pids [of ?k x xs] assms(1,2) by auto
  have "length (ready_pids k) \<le> MAX_PROCESSES" using assms(1) by (simp add: queue_inv_def)
  then have room: "length (queue_elems MAX_PROCESSES q) < MAX_PROCESSES" using assms(2) q(3) by simp
  let ?e = "ready_enqueue x (?k\<lparr>k_ready := q\<rparr>)"
  have e: "queue_inv MAX_PROCESSES (k_ready ?e) \<and> ready_pids ?e = xs @ [x]"
    using ready_enqueue_pids [of "?k\<lparr>k_ready := q\<rparr>" x] q room by simp
  have r: "next_round k = (if p_quantum (k_objs k a) \<noteq> 0
      then Inr (Some a, upd_obj a (\<lambda>p. p\<lparr>p_quantum := sub32 (p_quantum p) 10\<rparr>) ?k) else Inr (None, upd_obj a RESET_QUANTUM ?e))"
    using getFirst_pids [OF assms(1,2)] a q assms(4,5) by (simp add: next_round_def Let_def runnable_def exec_switch_def)
  show ?thesis
  proof (cases "p_quantum (k_objs k a) = 0")
    case True
    then show ?thesis using r a e by simp
  next
    case False
    then show ?thesis using r a assms(1,2) by simp
  qed
qed

lemma RESET_QUANTUM_simps [simp]:
  "p_flags (RESET_QUANTUM p) = p_flags p" "p_pid (RESET_QUANTUM p) = p_pid p" "p_priority (RESET_QUANTUM p) = p_priority p"
  by (simp_all add: RESET_QUANTUM_def)

lemma runnable_flags: "p_flags q = p_flags p \<Longrightarrow> runnable q = runnable p"
  by (simp add: runnable_def is_terminated_def is_waiting_key_def is_waiting_program_def is_sleeping_def is_waiting_read_def)

lemma obj_of_upd:
  assumes "registered k x" and "registered k y" and "k_processes k ! x = Some a" and "k_processes k' = k_processes k"
    and "k_objs k' = (k_objs k)(a := g (k_objs k a))"
  shows "obj_of k' y = (if y = x then g (obj_of k x) else obj_of k y)"
  using assms by (auto simp: obj_of_def registered_def)

text \<open>
  The loop, when the processes \<open>xs\<close> have not been looked at and the processes \<open>ys\<close> behind them have had their
  time renewed: one round for every process of \<open>xs\<close> and one more are enough.
\<close>

lemma next_loop_choice:
  assumes "queue_inv MAX_PROCESSES (k_ready k)" and "ready_pids k = xs @ ys" and "distinct (xs @ ys)"
    and "\<And>pid. pid \<in> set (xs @ ys) \<Longrightarrow> registered k pid \<and> \<not> is_terminated (obj_of k pid) \<and> \<not> exec_running (obj_of k pid) \<and>
        0 < p_priority (obj_of k pid) \<and> p_priority (obj_of k pid) * 10 < W32"
    and "\<And>pid. pid \<in> set ys \<Longrightarrow> runnable (obj_of k pid) \<and> p_quantum (obj_of k pid) \<noteq> 0"
  shows "\<exists>k'. next_loop (Suc (length xs)) k = Some (Inr (map_option (\<lambda>pid. the (k_processes k ! pid)) (fst (next_choice (obj_of k) xs ys)), k')) \<and>
    queue_inv MAX_PROCESSES (k_ready k') \<and> ready_pids k' = snd (next_choice (obj_of k) xs ys) \<and> k_processes k' = k_processes k \<and>
    (\<forall>a. p_flags (k_objs k' a) = p_flags (k_objs k a))"
  using assms
proof (induction xs arbitrary: k ys)
  case Nil
  show ?case
  proof (cases ys)
    case Nil
    then have "queue_empty (k_ready k)" using Nil.prems(2) by (simp add: queue_observers(1) [where N = MAX_PROCESSES])
    then show ?thesis using Nil.prems(1,2) Nil by (simp add: next_choice_Nil)
  next
    case (Cons y ys')
    have "\<not> queue_empty (k_ready k)" using Nil.prems(2) Cons by (simp add: queue_observers(1) [where N = MAX_PROCESSES])
    moreover have rp: "ready_pids k = y # ys'" and reg: "registered k y" "runnable (obj_of k y)" "\<not> exec_running (obj_of k y)" "p_quantum (obj_of k y) \<noteq> 0"
      using Nil.prems Cons by auto
    moreover obtain a k' where "k_processes k ! y = Some a" "next_round k = Inr (Some a, k')" "queue_inv MAX_PROCESSES (k_ready k')"
        "ready_pids k' = y # ys'" "k_processes k' = k_processes k" "k_objs k' = (k_objs k)(a := (k_objs k a)\<lparr>p_quantum := sub32 (p_quantum (k_objs k a)) 10\<rparr>)"
      using next_round_runnable [OF Nil.prems(1) rp reg(1,2,3)] reg(4) by auto
    ultimately show ?thesis using Cons by (simp add: next_choice_Nil)
  qed
next
  case (Cons x xs)
  have ne: "\<not> queue_empty (k_ready k)" using Cons.prems(2) by (simp add: queue_observers(1) [where N = MAX_PROCESSES])
  have rp: "ready_pids k = x # (xs @ ys)" using Cons.prems(2) by simp
  have reg: "registered k x" "\<not> is_terminated (obj_of k x)" "\<not> exec_running (obj_of k x)" "0 < p_priority (obj_of k x)"
      "p_priority (obj_of k x) * 10 < W32"
    using Cons.prems(4) [of x] by auto
  show ?case
  proof (cases "runnable (obj_of k x)")
    case False
    obtain k1 where k1: "next_round k = Inr (None, k1)" "queue_inv MAX_PROCESSES (k_ready k1)" "ready_pids k1 = xs @ ys"
        "k_processes k1 = k_processes k" "k_objs k1 = k_objs k"
      using next_round_waiting [OF Cons.prems(1) rp reg(1,2) False] by blast
    have o1: "obj_of k1 = obj_of k" using k1 by (intro obj_of_cong) simp_all
    have "registered k1 = registered k" using k1(4) o1 by (simp add: registered_def fun_eq_iff)
    with Cons.IH [OF k1(2,3)] Cons.prems(3-5) o1 k1 ne False show ?thesis by (simp add: next_choice_Cons eligible_def)
  next
    case True
    obtain a k1 where k1: "k_processes k ! x = Some a"
        "next_round k = Inr (if p_quantum (obj_of k x) \<noteq> 0 then Some a else None, k1)" "queue_inv MAX_PROCESSES (k_ready k1)"
        "ready_pids k1 = (if p_quantum (obj_of k x) \<noteq> 0 then x # xs @ ys else (xs @ ys) @ [x])" "k_processes k1 = k_processes k"
        "k_objs k1 = (k_objs k)(a := (if p_quantum (obj_of k x) \<noteq> 0 then (\<lambda>p. p\<lparr>p_quantum := sub32 (p_quantum p) 10\<rparr>) else RESET_QUANTUM) (k_objs k a))"
      using next_round_runnable [OF Cons.prems(1) rp reg(1) True reg(3)] by blast
    have fl: "p_flags (k_objs k1 b) = p_flags (k_objs k b)" for b using k1(6) by simp
    show ?thesis
    proof (cases "p_quantum (obj_of k x) = 0")
      case False
      then show ?thesis using k1 ne True fl by (simp add: next_choice_Cons eligible_def)
    next
      case q0: True
      have u: "k_objs k1 = (k_objs k)(a := RESET_QUANTUM (k_objs k a))" using k1(6) q0 by simp
      have o1: "obj_of k1 y = (if y = x then RESET_QUANTUM (obj_of k x) else obj_of k y)" if "y \<in> set ((x # xs) @ ys)" for y
        using obj_of_upd [where g = RESET_QUANTUM, OF reg(1) _ k1(1,5) u, of y] Cons.prems(4) [OF that] by simp
      have r1: "registered k1 y = registered k y" if "y \<in> set ((x # xs) @ ys)" for y
        using o1 [OF that] k1(5) by (simp add: registered_def)
      have qx: "p_quantum (RESET_QUANTUM (obj_of k x)) \<noteq> 0"
        using reg(4,5) by (simp add: RESET_QUANTUM_def mul32_eq)
      have fx: "is_terminated (RESET_QUANTUM p) = is_terminated p" "exec_running (RESET_QUANTUM p) = exec_running p"
          "runnable (RESET_QUANTUM p) = runnable p" for p
        using runnable_flags [of "RESET_QUANTUM p" p] by (simp_all add: is_terminated_def exec_running_def)
      have "\<exists>k'. next_loop (Suc (length xs)) k1 =
          Some (Inr (map_option (\<lambda>pid. the (k_processes k1 ! pid)) (fst (next_choice (obj_of k1) xs (ys @ [x]))), k')) \<and>
          queue_inv MAX_PROCESSES (k_ready k') \<and> ready_pids k' = snd (next_choice (obj_of k1) xs (ys @ [x])) \<and> k_processes k' = k_processes k1 \<and>
          (\<forall>a. p_flags (k_objs k' a) = p_flags (k_objs k1 a))"
      proof (rule Cons.IH)
        show "ready_pids k1 = xs @ ys @ [x]" using k1(4) q0 by simp
        show "distinct (xs @ ys @ [x])" using Cons.prems(3) by auto
      next
        fix pid assume "pid \<in> set (xs @ ys @ [x])"
        then have m: "pid \<in> set ((x # xs) @ ys)" by auto
        show "registered k1 pid \<and> \<not> is_terminated (obj_of k1 pid) \<and> \<not> exec_running (obj_of k1 pid) \<and>
            0 < p_priority (obj_of k1 pid) \<and> p_priority (obj_of k1 pid) * 10 < W32"
          using Cons.prems(4) [OF m] o1 [OF m] r1 [OF m] fx by (cases "pid = x") simp_all
      next
        fix pid assume "pid \<in> set (ys @ [x])"
        then show "runnable (obj_of k1 pid) \<and> p_quantum (obj_of k1 pid) \<noteq> 0"
          using Cons.prems(5) [of pid] o1 [of pid] True qx fx by auto
      qed (rule k1(3))
      moreover have "next_choice (obj_of k1) xs (ys @ [x]) = next_choice (obj_of k) xs (ys @ [x])"
      proof (rule next_choice_cong)
        fix y assume "y \<in> set xs"
        then show "obj_of k1 y = obj_of k y" using o1 [of y] Cons.prems(3) by auto
      qed
      ultimately show ?thesis using k1 q0 ne True fl by (simp add: next_choice_Cons eligible_def)
    qed
  qed
qed

text \<open>
  C5. The scheduler implements its choice: from a consistent state whose ready processes are neither ending
  nor being replaced, the loop ends (one round more than there are processes in the queue are
  enough), the process chosen and the queue afterwards are those of \<open>next_choice\<close>, and no
  process changes its state.
\<close>
theorem next_process_choice:
  assumes "sched_ok k" and "fuel = Suc (length (ready_pids k))"
  shows "\<exists>k'. get_next_process fuel k =
      Some (Inr (map_option (\<lambda>pid. the (k_processes k ! pid)) (fst (next_choice (obj_of k) (ready_pids k) [])), k')) \<and>
    queue_inv MAX_PROCESSES (k_ready k') \<and> ready_pids k' = snd (next_choice (obj_of k) (ready_pids k) []) \<and>
    k_processes k' = k_processes k \<and> (\<forall>a. p_flags (k_objs k' a) = p_flags (k_objs k a))"
proof -
  let ?k = "k\<lparr>k_running := MAX_PROCESSES\<rparr>"
  have o1: "obj_of ?k = obj_of k" by (simp add: obj_of_def fun_eq_iff)
  then have r: "registered ?k pid = registered k pid" for pid by (simp add: registered_def)
  show ?thesis
    using next_loop_choice [of ?k "ready_pids k" "[]"] assms o1 r by (simp add: sched_ok_def get_next_process_def)
qed

definition queue_of :: "nat list \<Rightarrow> nat queue" where
  "queue_of xs = \<lparr>q_data = xs @ replicate (MAX_PROCESSES - length xs) 0, q_count = length xs, q_start = 0\<rparr>"

lemma queue_of_ok: "length xs \<le> MAX_PROCESSES \<Longrightarrow> queue_inv MAX_PROCESSES (queue_of xs) \<and> queue_elems MAX_PROCESSES (queue_of xs) = xs"
  by (auto simp: queue_inv_def queue_elems_def queue_of_def nth_append intro!: nth_equalityI)

text \<open>A kernel with the processes 0, 1 and 2, whose objects have these addresses.\<close>

definition demo_kernel :: "(nat \<Rightarrow> process) \<Rightarrow> nat list \<Rightarrow> nat list \<Rightarrow> kernel" where
  "demo_kernel objs ready waiting = \<lparr>k_objs = objs, k_next_obj = 3, k_pid_pool = 7, k_running = MAX_PROCESSES,
     k_ready = queue_of ready, k_waiting = queue_of waiting, k_read_waiters = list_new,
     k_processes = [Some 0, Some 1, Some 2] @ replicate 29 None,
     k_sleeping = \<lparr>h_count = 0, h_capacity = MAX_PROCESSES, h_elements = replicate MAX_PROCESSES (0, 0)\<rparr>,
     k_vfs = demo_vfs (replicate MAX_FD None) 0, k_heap = \<lparr>trees = (\<lambda>_. Null), kmem_of = demo_mem\<rparr>, k_tick = 0\<rparr>"

theorem next_process_choice_witness:
  "\<exists>k'. get_next_process 3 (demo_kernel (\<lambda>a. blank_process\<lparr>p_pid := a, p_flags := (if a = 1 then P_WAITING_KEY else 0)\<rparr>) [1, 2] []) =
     Some (Inr (Some 2, k')) \<and> ready_pids k' = [2]"
proof -
  let ?k = "demo_kernel (\<lambda>a. blank_process\<lparr>p_pid := a, p_flags := (if a = 1 then P_WAITING_KEY else 0)\<rparr>) [1, 2] []"
  have q: "queue_inv MAX_PROCESSES (k_ready ?k)" "ready_pids ?k = [1, 2]" using queue_of_ok [of "[1, 2]"] by (simp_all add: demo_kernel_def)
  have o1: "obj_of ?k 1 = blank_process\<lparr>p_pid := 1, p_flags := P_WAITING_KEY\<rparr>" "obj_of ?k 2 = blank_process\<lparr>p_pid := 2, p_flags := 0\<rparr>"
    by (simp_all add: obj_of_def demo_kernel_def)
  have f: "3 = Suc (length (ready_pids ?k))" unfolding q(2) by simp
  have ok: "sched_ok ?k"
    using q o1 by (auto simp: sched_ok_def registered_def demo_kernel_def is_terminated_def exec_running_def has_flag_def blank_process_def)
  moreover have "next_choice (obj_of ?k) [1, 2] [] = (Some 2, [2])"
    using o1 by (simp add: next_choice_Cons next_choice_Nil eligible_def runnable_def is_terminated_def is_waiting_key_def is_waiting_program_def
        is_sleeping_def is_waiting_read_def has_flag_def blank_process_def)
  moreover have "k_processes ?k ! 2 = Some 2" by (simp add: demo_kernel_def)
  ultimately show ?thesis using next_process_choice [OF ok f] unfolding q(2) by auto
qed

section \<open>Waiting for a key\<close>

lemma wake_key_loop_half:
  assumes "queue_inv MAX_PROCESSES (k_waiting k)" and "\<forall>pid \<in> set (waiting_pids k). registered k pid"
    and "length (waiting_pids k) = n" and "i \<le> n" and "n - i \<le> fuel"
  shows "\<exists>k'. wake_key_loop fuel key i k = Inr k' \<and> waiting_pids k' = drop ((n - i + 1) div 2) (waiting_pids k)"
  using assms
proof (induction fuel arbitrary: i k n)
  case 0
  then show ?case by simp
next
  case (Suc fuel)
  show ?case
  proof (cases "i < n")
    case False
    then show ?thesis using Suc.prems by (simp add: getCount_def)
  next
    case True
    then obtain x xs where xs: "waiting_pids k = x # xs" using Suc.prems(3) by (cases "waiting_pids k") auto
    obtain w where w: "dequeue MAX_PROCESSES (k_waiting k) = (x, w)" "queue_inv MAX_PROCESSES w" "queue_elems MAX_PROCESSES w = xs"
      using dequeue_refines [OF Suc.prems(1) xs] by blast
    have cw: "q_count w = n - 1" using arg_cong [OF w(3), of length] Suc.prems(3) xs by simp
    let ?k1 = "ready_enqueue x (k\<lparr>k_waiting := w\<rparr>)"
    obtain a where a: "k_processes k ! x = Some a" "x < MAX_PROCESSES" using Suc.prems(2) xs by (auto simp: registered_def)
    then have pa: "proc_at x ?k1 = Inr a" by (simp add: proc_at_Some)
    let ?g = "\<lambda>p. clear_flag P_WAITING_KEY (p\<lparr>p_cpu_state := (p_cpu_state p)\<lparr>eax := key\<rparr>\<rparr>)"
    let ?k2 = "upd_obj a ?g ?k1"
    have reg: "registered ?k2 pid" if "registered k pid" for pid
      using that by (auto simp: registered_def obj_of_def clear_flag_def)
    have "\<exists>k'. wake_key_loop fuel key (i + 1) ?k2 = Inr k' \<and> waiting_pids k' = drop ((n - 1 - (i + 1) + 1) div 2) (waiting_pids ?k2)"
      if "i + 1 \<le> n - 1"
      using Suc.prems w xs reg that by (intro Suc.IH) auto
    moreover have "wake_key_loop fuel key (i + 1) ?k2 = Inr ?k2" if "\<not> i + 1 \<le> n - 1"
    proof (cases fuel)
      case (Suc f)
      then show ?thesis using that cw by (simp add: getCount_def)
    qed simp
    moreover have "wake_key_loop (Suc fuel) key i k = wake_key_loop fuel key (i + 1) ?k2"
      using True Suc.prems(3) w(1) pa by (simp add: getCount_def Let_def)
    moreover have "(n - i + 1) div 2 = Suc ((n - 1 - (i + 1) + 1) div 2)" if "i + 1 \<le> n - 1"
    proof -
      have "n - i + 1 = Suc (Suc (n - 1 - (i + 1) + 1))" using that by simp
      then show ?thesis by (simp only: div2_Suc_Suc)
    qed
    moreover have "(n - i + 1) div 2 = 1" if "\<not> i + 1 \<le> n - 1" using that True by simp
    ultimately show ?thesis using w(3) xs by (cases "i + 1 \<le> n - 1") auto
  qed
qed

text \<open>
  A key press wakes up only half of the processes that wait for one, rounded up: the bound of the loop
  shrinks as the loop takes processes out of the queue. The others keep waiting.
\<close>
theorem key_wakes_half:
  assumes "queue_inv MAX_PROCESSES (k_waiting k)" and "\<forall>pid \<in> set (waiting_pids k). registered k pid"
  shows "\<exists>k'. wake_up_key_waiting_processes key k = Inr k' \<and>
    waiting_pids k' = drop ((length (waiting_pids k) + 1) div 2) (waiting_pids k)"
  using wake_key_loop_half [OF assms refl, of 0 "getCount (k_waiting k)" key] by (simp add: wake_up_key_waiting_processes_def getCount_def)

theorem key_wakes_half_witness:
  "\<exists>k'. wake_up_key_waiting_processes 97 (demo_kernel (\<lambda>a. blank_process\<lparr>p_pid := a\<rparr>) [] [1, 2]) = Inr k' \<and> waiting_pids k' = [2]"
proof -
  let ?k = "demo_kernel (\<lambda>a. blank_process\<lparr>p_pid := a\<rparr>) [] [1, 2]"
  have "queue_inv MAX_PROCESSES (k_waiting ?k)" and w: "waiting_pids ?k = [1, 2]" using queue_of_ok [of "[1, 2]"] by (simp_all add: demo_kernel_def)
  moreover have "\<forall>pid \<in> set (waiting_pids ?k). registered ?k pid" unfolding w by (simp add: registered_def obj_of_def demo_kernel_def)
  ultimately show ?thesis using key_wakes_half [of ?k 97] by (simp add: w)
qed

section \<open>What closing files leaves alone\<close>

text \<open>
  Closing files can make readers of a pipe ready; it changes nothing else of the processes but their
  descriptors.
\<close>

definition same_family :: "process \<Rightarrow> process \<Rightarrow> bool" where
  "same_family p q \<longleftrightarrow> p_children q = p_children p \<and> p_pid q = p_pid p \<and> p_ppid q = p_ppid p \<and> p_waiting_any q = p_waiting_any p \<and>
     p_waited_by_parent q = p_waited_by_parent p \<and> p_cpu_state q = p_cpu_state p \<and> p_values_to_write q = p_values_to_write p \<and>
     p_ret_status q = p_ret_status p \<and> p_deleted q = p_deleted p \<and> (\<forall>i. i \<noteq> 7 \<longrightarrow> bit (p_flags q) i = bit (p_flags p) i)"

definition undisturbed :: "kernel \<Rightarrow> kernel \<Rightarrow> bool" where
  "undisturbed k k' \<longleftrightarrow> (\<forall>a. same_family (k_objs k a) (k_objs k' a)) \<and> k_processes k' = k_processes k \<and> k_running k' = k_running k \<and>
     k_pid_pool k' = k_pid_pool k \<and>
     (queue_inv MAX_PROCESSES (k_ready k) \<longrightarrow>
       queue_inv MAX_PROCESSES (k_ready k') \<and> (\<exists>zs. ready_pids k' = ready_pids k @ zs))"

lemma same_family_refl [simp]: "same_family p p"
  by (simp add: same_family_def)

lemma same_family_trans: "same_family p q \<Longrightarrow> same_family q r \<Longrightarrow> same_family p r"
  by (simp add: same_family_def)

lemma undisturbed_refl [simp]: "undisturbed k k"
  by (simp add: undisturbed_def)

lemma undisturbed_trans [trans]: "undisturbed k1 k2 \<Longrightarrow> undisturbed k2 k3 \<Longrightarrow> undisturbed k1 k3"
  unfolding undisturbed_def by (metis append.assoc same_family_trans)

lemma undisturbed_upd: "(\<And>p. same_family p (g p)) \<Longrightarrow> undisturbed k (upd_obj a g k)"
  by (simp add: undisturbed_def)

lemma undisturbed_other [simp]:
  "undisturbed k (k\<lparr>k_vfs := v\<rparr>)" "undisturbed k (k\<lparr>k_read_waiters := l\<rparr>)" "undisturbed k (k\<lparr>k_heap := h\<rparr>)"
  by (simp_all add: undisturbed_def)

lemma undisturbed_enqueue: "undisturbed k (ready_enqueue pid k)"
proof (cases "length (ready_pids k) < MAX_PROCESSES")
  case True
  then show ?thesis using ready_enqueue_pids [of k pid] by (simp add: undisturbed_def)
next
  case False
  then have "ready_enqueue pid k = k" if "queue_inv MAX_PROCESSES (k_ready k)"
    using that by (simp add: ready_enqueue_def enqueue_def queue_inv_def)
  then show ?thesis by (auto simp: undisturbed_def)
qed

lemma undisturbed_resume: "resume_waiters ws k = Inr k' \<Longrightarrow> undisturbed k k'"
proof (induction ws arbitrary: k)
  case (Cons w ws)
  let ?k1 = "k\<lparr>k_read_waiters := remove_waiter w (k_read_waiters k)\<rparr>"
  obtain a where a: "proc_at (rw_pid w) ?k1 = Inr a"
    "resume_waiters ws (ready_enqueue (p_pid (k_objs ?k1 a)) (upd_obj a (clear_flag P_WAITING_READ) ?k1)) = Inr k'"
    using Cons.prems by (auto simp: res_elims Let_def)
  have "undisturbed k ?k1" by simp
  also have "undisturbed ?k1 (upd_obj a (clear_flag P_WAITING_READ) ?k1)"
    by (intro undisturbed_upd) (simp add: same_family_def clear_flag_bit)
  also have "undisturbed \<dots> (ready_enqueue (p_pid (k_objs ?k1 a)) (upd_obj a (clear_flag P_WAITING_READ) ?k1))"
    by (rule undisturbed_enqueue)
  also have "undisturbed \<dots> k'" by (rule Cons.IH [OF a(2)])
  finally show ?case .
qed simp

lemma undisturbed_wake: "wake_up_read_waiting_processes wfd rfd n k = Inr k' \<Longrightarrow> undisturbed k k'"
  using undisturbed_trans [OF undisturbed_other(2) undisturbed_resume]
  by (fastforce simp: wake_up_read_waiting_processes_def res_elims)

lemma undisturbed_release_fd: "release_fd a fd k = Inr k' \<Longrightarrow> undisturbed k k'"
  by (auto simp: release_fd_def delete_file_descriptor_def add_rc_def res_elims same_family_def split: option.splits
      intro!: undisturbed_upd undisturbed_trans [OF undisturbed_other(1) undisturbed_upd])

lemma undisturbed_vfs_close: "vfs_close fd k = Inr (b, k') \<Longrightarrow> undisturbed k k'"
  by (auto simp: vfs_close_def res_elims Let_def split: option.splits if_splits
      intro: undisturbed_trans [OF undisturbed_other(1) undisturbed_wake])

lemma undisturbed_close:
  assumes "proc_close a fd k = Inr (r, k')"
  shows "undisturbed k k'"
  using assms undisturbed_trans [OF undisturbed_release_fd undisturbed_vfs_close]
  by (auto simp: proc_close_def res_elims split: option.splits)

lemma undisturbed_close_all:
  assumes "close_all_fds a k = Inr k'"
  shows "undisturbed k k'"
proof (rule for_n_invariant [OF assms [unfolded close_all_fds_def], where P = "\<lambda>_ k'. undisturbed k k'"])
  fix j s s' assume s: "undisturbed k s"
    and "(case p_fds (k_objs s a) ! j of None \<Rightarrow> Inr s
          | Some d \<Rightarrow> bind_res (proc_close a (int (fd_fd d)) s) (\<lambda>(_, k1). Inr k1)) = Inr s'"
  then have "undisturbed s s'" by (auto simp: res_elims split: option.splits intro: undisturbed_close)
  with s show "undisturbed k s'" by (rule undisturbed_trans)
qed simp

lemma undisturbed_pre_free:
  assumes "pre_free a k = Inr k'"
  shows "undisturbed k k'"
proof -
  have c: "undisturbed k (upd_obj a (\<lambda>p. p\<lparr>p_is_pre_freed := True\<rparr>) (k1\<lparr>k_heap := h2\<rparr>))" if "close_all_fds a (k\<lparr>k_heap := h\<rparr>) = Inr k1" for h k1 h2
  proof -
    have "undisturbed k (k\<lparr>k_heap := h\<rparr>)" by simp
    also have "undisturbed \<dots> k1" by (rule undisturbed_close_all [OF that])
    also have "undisturbed \<dots> (k1\<lparr>k_heap := h2\<rparr>)" by simp
    also have "undisturbed \<dots> (upd_obj a (\<lambda>p. p\<lparr>p_is_pre_freed := True\<rparr>) (k1\<lparr>k_heap := h2\<rparr>))"
      by (intro undisturbed_upd) (simp add: same_family_def)
    finally show ?thesis .
  qed
  show ?thesis using assms by (auto simp: pre_free_def Let_def res_elims split: if_splits intro: c)
qed

text \<open>
  A process that ends while it has children stops the system, unless its parent is waiting for it or
  it has none: it would become a zombie, but its resources are released at once, and the check there
  demands that it has no children.
\<close>
theorem parent_exit_stops:
  assumes "queue_inv MAX_PROCESSES (k_ready k)" and "ready_pids k = pid # xs" and "pid < MAX_PROCESSES" and "k_processes k ! pid = Some a"
    and "p_ppid (k_objs k a) \<noteq> p_pid (k_objs k a)" and "proc_at (p_ppid (k_objs k a)) k = Inr par"
    and "\<not> p_waiting_any (k_objs k par)" and "\<not> p_waited_by_parent (k_objs k a)" and "\<not> exec_running (k_objs k a)"
    and "\<not> p_is_pre_freed (k_objs k a)" and "list_size (p_children (k_objs k a)) \<noteq> 0"
  shows "relinquish_first_ready_process k \<noteq> Inr k'"
proof
  assume "relinquish_first_ready_process k = Inr k'"
  moreover obtain q where q: "ready_dequeue (k\<lparr>k_running := pid\<rparr>) = (pid, k\<lparr>k_running := pid, k_ready := q\<rparr>)"
    using ready_dequeue_pids [of "k\<lparr>k_running := pid\<rparr>" pid xs] assms(1,2) by auto
  moreover have "proc_at pid (k\<lparr>k_running := pid\<rparr>) = Inr a" using assms(3,4) by (simp add: proc_at_Some)
  moreover have "proc_at (p_ppid (k_objs k a)) (k\<lparr>k_running := pid, k_ready := q\<rparr>) = Inr par"
    using assms(6) proc_at_cong [of "k\<lparr>k_running := pid, k_ready := q\<rparr>" k] by simp
  ultimately have pf: "pre_free a (upd_obj a (set_flag P_ZOMBIE) (k\<lparr>k_running := pid, k_ready := q\<rparr>)) = Inr k'"
    using getFirst_pids [OF assms(1,2)] assms(5,7-9)
    by (simp add: relinquish_first_ready_process_def Let_def exec_running_def split: if_splits)
  let ?z = "upd_obj a (set_flag P_ZOMBIE) (k\<lparr>k_running := pid, k_ready := q\<rparr>)"
  obtain h k1 where k1: "close_all_fds a (?z\<lparr>k_heap := h\<rparr>) = Inr k1" "list_size (p_children (k_objs k1 a)) = 0 \<or> exec_running (k_objs k1 a)"
    using pf assms(10) by (auto simp: pre_free_def Let_def res_elims set_flag_def split: if_splits)
  from undisturbed_close_all [OF k1(1)]
  have "same_family (set_flag P_ZOMBIE (k_objs k a)) (k_objs k1 a)" by (auto simp: undisturbed_def dest: spec [of _ a])
  then have "p_children (k_objs k1 a) = p_children (k_objs k a)" "exec_running (k_objs k1 a) = exec_running (k_objs k a)"
    by (simp_all add: same_family_def flag_defs set_flag_bit)
  with k1(2) assms(9,11) show False by simp
qed

definition family :: "nat \<Rightarrow> process" where
  "family a = blank_process\<lparr>p_pid := a, p_ppid := (if a = 1 then 0 else 1), p_flags := (if a = 1 then P_TERMINATED else 0),
     p_children := (if a = 1 then list_add 2 list_new else list_add 1 list_new)\<rparr>"

theorem parent_exit_stops_witness: "\<forall>k'. relinquish_first_ready_process (demo_kernel family [1, 2] []) \<noteq> Inr k'"
proof
  fix k'
  let ?k = "demo_kernel family [1, 2] []"
  have q: "queue_inv MAX_PROCESSES (k_ready ?k)" "ready_pids ?k = [1, 2]" using queue_of_ok [of "[1, 2]"] by (simp_all add: demo_kernel_def)
  show "relinquish_first_ready_process ?k \<noteq> Inr k'"
    by (rule parent_exit_stops [OF q, where a = 1 and par = 0])
      (simp_all add: demo_kernel_def family_def blank_process_def flag_defs proc_at_def proc_slot_def list_size_def list_add_def
        list_add_node_def list_new_def)
qed

section \<open>Waiting for processes\<close>

lemma orphan_children_frame:
  "orphan_children ds k = Inr k' \<Longrightarrow> \<exists>g. k' = k\<lparr>k_objs := g\<rparr> \<and> (\<forall>a. \<exists>pp. g a = (k_objs k a)\<lparr>p_ppid := pp\<rparr>)"
proof (induction ds arbitrary: k)
  case Nil
  have "p = p\<lparr>p_ppid := p_ppid p\<rparr>" for p :: process by simp
  then have "\<forall>a. \<exists>pp. k_objs k a = (k_objs k a)\<lparr>p_ppid := pp\<rparr>" by blast
  with Nil show ?case by (intro exI [of _ "k_objs k"]) simp
next
  case (Cons d ds)
  then obtain a where a: "orphan_children ds (upd_obj a (\<lambda>p. p\<lparr>p_ppid := p_pid p\<rparr>) k) = Inr k'"
    by (auto simp: res_elims)
  then obtain g where "k' = (upd_obj a (\<lambda>p. p\<lparr>p_ppid := p_pid p\<rparr>) k)\<lparr>k_objs := g\<rparr>"
      "\<forall>b. \<exists>pp. g b = (k_objs (upd_obj a (\<lambda>p. p\<lparr>p_ppid := p_pid p\<rparr>) k) b)\<lparr>p_ppid := pp\<rparr>"
    using Cons.IH by blast
  moreover have "\<exists>pp. g b = (k_objs k b)\<lparr>p_ppid := pp\<rparr>" if "\<exists>pp. g b = (k_objs (upd_obj a (\<lambda>p. p\<lparr>p_ppid := p_pid p\<rparr>) k) b)\<lparr>p_ppid := pp\<rparr>" for b
    using that by (cases "b = a") auto
  ultimately show ?case by (intro exI [of _ g]) (simp add: upd_obj_def)
qed

lemma delete_process_frame:
  assumes "delete_process a k = Inr k'"
  shows "\<exists>k1. undisturbed k k1 \<and> k' = upd_obj a (\<lambda>p. p\<lparr>p_deleted := True\<rparr>) k1"
proof (cases "is_terminated (k_objs k a)")
  case True
  then show ?thesis using assms by (auto simp: delete_process_def res_elims intro: undisturbed_pre_free)
next
  case False
  then show ?thesis using assms by (intro exI [of _ k]) (simp add: delete_process_def)
qed

text \<open>What the end of a child means to a parent that waits for it.\<close>

definition child_reported :: "nat \<Rightarrow> process \<Rightarrow> process \<Rightarrow> process \<Rightarrow> bool" where
  "child_reported pid child p p' \<longleftrightarrow> \<not> is_waiting_program p' \<and> \<not> p_waiting_any p' \<and> eax (p_cpu_state p') = word_of_nat pid \<and>
     p_children p' = snd (list_remove pid (p_children p)) \<and>
     p_values_to_write p' = (if esi (p_cpu_state p) \<noteq> 0 then list_add (esi (p_cpu_state p), p_ret_status child) (p_values_to_write p)
       else p_values_to_write p)"

lemma child_reported_family: "same_family p' q \<Longrightarrow> child_reported pid child p p' \<Longrightarrow> child_reported pid child p q"
  by (auto simp: same_family_def child_reported_def flag_defs)

lemma child_reported_ppid: "child_reported pid child p (p'\<lparr>p_ppid := pp\<rparr>) = child_reported pid child p p'"
  by (simp add: child_reported_def flag_defs)

lemma free_terminated_reports:
  assumes "free_terminated_process c k = Inr k'" and "p_pid (k_objs k c) = pid" and "proc_at pid k = Inr c"
    and "proc_at (p_ppid (k_objs k c)) k = Inr w" and "c \<noteq> w" and "\<not> exec_running (k_objs k c)"
    and "p_waited_by_parent (k_objs k c) \<or> p_waiting_any (k_objs k w)"
    and "queue_inv MAX_PROCESSES (k_ready k)" and "length (ready_pids k) < MAX_PROCESSES" and "length (k_processes k) = MAX_PROCESSES"
  shows "child_reported pid (k_objs k c) (k_objs k w) (k_objs k' w)" and "k_processes k' ! pid = None" and "\<not> bit (k_pid_pool k') pid"
    and "p_deleted (k_objs k' c)" and "p_ppid (k_objs k c) \<noteq> k_running k \<Longrightarrow> p_ppid (k_objs k c) \<in> set (ready_pids k')"
    and "p_pid (k_objs k' w) = p_pid (k_objs k w)"
proof -
  let ?pp = "p_ppid (k_objs k c)"
  obtain k1 where k1: "wake_up_process_parent pid k = Inr k1"
    using assms(1-7) by (auto simp: free_terminated_process_def Let_def res_elims split: if_splits)
  let ?k0 = "if ?pp \<noteq> k_running k then ready_enqueue ?pp k else k"
  have u1: "\<exists>g. k1 = upd_obj w g ?k0 \<and> child_reported pid (k_objs k c) (k_objs k w) ((g (k_objs k w))\<lparr>p_waiting_any := False\<rparr>) \<and>
      p_ppid (g (k_objs k w)) = p_ppid (k_objs k w) \<and> p_pid (g (k_objs k w)) = p_pid (k_objs k w)"
    using k1 assms(3,4)
    by (auto simp: wake_up_process_parent_def Let_def child_reported_def flag_defs clear_flag_bit)
  then obtain g where g: "k1 = upd_obj w g ?k0" "child_reported pid (k_objs k c) (k_objs k w) ((g (k_objs k w))\<lparr>p_waiting_any := False\<rparr>)"
      "p_pid (g (k_objs k w)) = p_pid (k_objs k w)" by blast
  have r0: "k_processes ?k0 = k_processes k" "k_objs ?k0 = k_objs k" "queue_inv MAX_PROCESSES (k_ready ?k0)"
      "?pp \<noteq> k_running k \<Longrightarrow> ?pp \<in> set (ready_pids ?k0)"
    using ready_enqueue_pids [OF assms(8,9), of ?pp] assms(8) by auto
  have p1: "proc_at (p_ppid (k_objs k1 c)) k1 = Inr w"
    using assms(4,5) g(1) r0(1,2) proc_at_cong [of k1 k] by (simp split: if_splits)
  let ?k2 = "upd_obj c (\<lambda>p. p\<lparr>p_waited_by_parent := False\<rparr>) (upd_obj w (\<lambda>p. p\<lparr>p_waiting_any := False\<rparr>) k1)"
  obtain k3 where k3: "orphan_children (l_head (p_children (k_objs ?k2 c))) ?k2 = Inr k3"
      and del: "delete_process c ((release_pid pid (upd_obj c (\<lambda>p. p\<lparr>p_children := list_clear (p_children p)\<rparr>) k3))
        \<lparr>k_processes := (k_processes k3)[pid := None]\<rparr>) = Inr k'"
    using assms(1-7) k1 p1 by (auto simp: free_terminated_process_def Let_def res_elims release_pid_def split: if_splits)
  obtain h where h: "k3 = ?k2\<lparr>k_objs := h\<rparr>" "\<And>a. \<exists>pp. h a = (k_objs ?k2 a)\<lparr>p_ppid := pp\<rparr>"
    using orphan_children_frame [OF k3] by blast
  obtain k4 where k4: "undisturbed ((release_pid pid (upd_obj c (\<lambda>p. p\<lparr>p_children := list_clear (p_children p)\<rparr>) k3))
        \<lparr>k_processes := (k_processes k3)[pid := None]\<rparr>) k4" "k' = upd_obj c (\<lambda>p. p\<lparr>p_deleted := True\<rparr>) k4"
    using delete_process_frame [OF del] by blast
  have pid: "pid < MAX_PROCESSES" using assms(3) by (auto simp: proc_at_def proc_slot_def res_elims split: if_splits)
  have same: "same_family (h w) (k_objs k4 w)" using k4(1) h(1) assms(5) by (auto simp: undisturbed_def release_pid_def dest: spec [of _ w])
  obtain pp where hw: "h w = ((g (k_objs k w))\<lparr>p_waiting_any := False\<rparr>)\<lparr>p_ppid := pp\<rparr>"
    using h(2) [of w] g(1) r0(2) assms(5) by auto
  show "child_reported pid (k_objs k c) (k_objs k w) (k_objs k' w)"
    using child_reported_family [OF same] g(2) hw k4(2) assms(5) by (simp add: child_reported_ppid)
  show "p_pid (k_objs k' w) = p_pid (k_objs k w)"
    using same g(3) hw k4(2) assms(5) by (simp add: same_family_def)
  have kp: "k_processes k4 = (k_processes k)[pid := None]" "k_pid_pool k4 = k_pid_pool k AND NOT (push_bit pid 1)"
    using k4(1) h(1) g(1) r0(1) by (auto simp: undisturbed_def release_pid_def)
  then show "k_processes k' ! pid = None" using k4(2) assms(10) pid by simp
  show "\<not> bit (k_pid_pool k') pid" using kp(2) k4(2) pid by (simp add: bit_simps del: push_bit_of_1)
  show "p_deleted (k_objs k' c)" using k4(2) by simp
  show "?pp \<in> set (ready_pids k')" if "?pp \<noteq> k_running k"
  proof -
    have "k_ready k3 = k_ready ?k0" using h(1) g(1) by simp
    then have "\<exists>zs. ready_pids k4 = ready_pids ?k0 @ zs" using k4(1) r0(3) by (simp add: undisturbed_def release_pid_def)
    then show ?thesis using r0(4) [OF that] k4(2) by auto
  qed
qed

text \<open>
  C11. Waiting, then the end: when a process has ended whose parent waits for it, the scheduler gives up the
  process, and its parent becomes ready; it no longer waits, its \<open>waitpid\<close> returns the number of
  the child, the status of the child is due to be stored where the parent asked for it, and the
  child is no longer one of its children; the number of the child is free again.
\<close>
theorem exit_wakes_parent:
  assumes "relinquish_first_ready_process k = Inr k'" and "queue_inv MAX_PROCESSES (k_ready k)" and "ready_pids k = pid # xs"
    and "proc_at pid k = Inr c" and "p_pid (k_objs k c) = pid" and "proc_at (p_ppid (k_objs k c)) k = Inr w" and "c \<noteq> w"
    and "p_ppid (k_objs k c) \<noteq> pid" and "\<not> exec_running (k_objs k c)"
    and "p_waited_by_parent (k_objs k c) \<or> p_waiting_any (k_objs k w)" and "length (k_processes k) = MAX_PROCESSES"
  shows "p_ppid (k_objs k c) \<in> set (ready_pids k') \<and> child_reported pid (k_objs k c) (k_objs k w) (k_objs k' w) \<and>
    k_processes k' ! pid = None \<and> \<not> bit (k_pid_pool k') pid"
proof -
  obtain q where q: "ready_dequeue (k\<lparr>k_running := pid\<rparr>) = (pid, k\<lparr>k_running := pid, k_ready := q\<rparr>)" "queue_inv MAX_PROCESSES q"
      "queue_elems MAX_PROCESSES q = xs"
    using ready_dequeue_pids [of "k\<lparr>k_running := pid\<rparr>" pid xs] assms(2,3) by auto
  let ?k = "k\<lparr>k_running := pid, k_ready := q\<rparr>"
  have pa: "proc_at x (k\<lparr>k_running := pid\<rparr>) = proc_at x k" "proc_at x ?k = proc_at x k" for x by (simp_all add: proc_at_def proc_slot_def)
  have fr: "free_terminated_process c ?k = Inr k'"
    using assms(1,4-6,8-10) getFirst_pids [OF assms(2,3)] q(1) pa
    by (auto simp: relinquish_first_ready_process_def Let_def exec_running_def split: if_splits)
  have "length xs < MAX_PROCESSES" using assms(2,3) length_queue_elems [of MAX_PROCESSES "k_ready k"] by (simp add: queue_inv_def)
  then show ?thesis
    using free_terminated_reports [OF fr, of pid w] assms(4-11) pa q(2,3) by simp
qed

lemma pre_free_bare:
  assumes "p_fds (k_objs k a) = replicate MAX_FD_PER_PROCESS None" and "trees (k_heap k) (p_space (k_objs k a)) = Null"
    and "list_size (p_children (k_objs k a)) = 0" and "p_page_tables (k_objs k a) = 0" and "p_pdt (k_objs k a) = 0"
  shows "\<exists>k'. pre_free a k = Inr k'"
proof -
  have c: "close_all_fds a (k\<lparr>k_heap := h\<rparr>) = Inr (k\<lparr>k_heap := h\<rparr>)" for h
    unfolding close_all_fds_def using assms(1) by (intro for_n_noop) simp
  have "freea 0 h = Inr (h\<lparr>trees := (trees h)(KernelProc := trees h KernelProc), kmem_of := kmem_of h\<rparr>)" for h
    by (simp add: freea_def free_def free_proc_def in_tree_def memtree_free_def)
  then show ?thesis using assms c by (simp add: pre_free_def Let_def free_all.simps [of _ Null])
qed

lemma delete_process_bare:
  assumes "p_fds (k_objs k a) = replicate MAX_FD_PER_PROCESS None" and "trees (k_heap k) (p_space (k_objs k a)) = Null"
    and "list_size (p_children (k_objs k a)) = 0" and "p_page_tables (k_objs k a) = 0" and "p_pdt (k_objs k a) = 0"
  shows "\<exists>k'. delete_process a k = Inr k'"
  using pre_free_bare [OF assms] by (auto simp: delete_process_def)

definition waited_family :: "u32 \<Rightarrow> nat \<Rightarrow> process" where
  "waited_family fl a = blank_process\<lparr>p_pid := a, p_ppid := 0, p_flags := (if a = 1 then P_TERMINATED OR fl else P_WAITING_PROCESS),
     p_children := (if a = 0 then list_add 1 list_new else list_new), p_waited_by_parent := (a = 1), p_ret_status := 512,
     p_cpu_state := zero_cpu\<lparr>esi := 4096\<rparr>\<rparr>"

theorem exit_wakes_parent_witness:
  "\<exists>k'. relinquish_first_ready_process (demo_kernel (waited_family 0) [1] []) = Inr k' \<and> 0 \<in> set (ready_pids k') \<and>
     eax (p_cpu_state (k_objs k' 0)) = 1 \<and> k_processes k' ! 1 = None"
proof -
  let ?k = "demo_kernel (waited_family 0) [1] []"
  have q: "queue_inv MAX_PROCESSES (k_ready ?k)" "ready_pids ?k = [1]" using queue_of_ok [of "[1]"] by (simp_all add: demo_kernel_def)
  have at: "proc_at 1 ?k = Inr 1" "proc_at 0 ?k = Inr 0" by (simp_all add: demo_kernel_def proc_at_def proc_slot_def)
  have "\<exists>k'. relinquish_first_ready_process ?k = Inr k'"
  proof -
    have f: "getFirst (k_ready ?k) = 1" by (rule getFirst_pids [OF q])
    show ?thesis
      using f
      by (simp add: relinquish_first_ready_process_def Let_def proc_at_def proc_slot_def demo_kernel_def waited_family_def flag_defs
          free_terminated_process_def wake_up_process_parent_def ready_dequeue_def dequeue_def queue_of_def list_new_def blank_process_def
          split del: if_split, intro delete_process_bare)
        (simp_all add: release_pid_def list_clear_def list_size_def waited_family_def blank_process_def)
  qed
  then obtain k' where k': "relinquish_first_ready_process ?k = Inr k'" by blast
  have "p_ppid (k_objs ?k 1) \<in> set (ready_pids k') \<and> child_reported 1 (k_objs ?k 1) (k_objs ?k 0) (k_objs k' 0) \<and>
      k_processes k' ! 1 = None \<and> \<not> bit (k_pid_pool k') 1"
    by (rule exit_wakes_parent [OF k' q at(1)]) (use at in \<open>simp_all add: demo_kernel_def waited_family_def flag_defs\<close>)
  then show ?thesis using k' by (simp add: child_reported_def demo_kernel_def waited_family_def)
qed

text \<open>
  The end, then waiting: waiting for a certain child that is a zombie returns its number at once; the child is
  no longer one of the children, and its number is free again.
\<close>
theorem wait_for_zombie:
  assumes "register_process_wait par (Some pid) k = Inr (r, k')" and "proc_at par k = Inr w" and "proc_at pid k = Inr c" and "c \<noteq> w"
    and "list_contains pid (p_children (k_objs k w))" and "p_pid (k_objs k c) = pid" and "p_ppid (k_objs k c) = par"
    and "has_flag (p_flags (k_objs k c)) P_ZOMBIE" and "\<not> exec_running (k_objs k c)"
    and "queue_inv MAX_PROCESSES (k_ready k)" and "length (ready_pids k) < MAX_PROCESSES" and "length (k_processes k) = MAX_PROCESSES"
  shows "r = WaitReturn pid \<and> child_reported pid (k_objs k c) (k_objs k w) (k_objs k' w) \<and> k_processes k' ! pid = None \<and>
    \<not> bit (k_pid_pool k') pid"
proof -
  let ?k = "upd_obj c (\<lambda>p. p\<lparr>p_waited_by_parent := True\<rparr>) k"
  have pa: "proc_at x ?k = proc_at x k" for x by (rule proc_at_cong) simp
  have fr: "free_terminated_process c ?k = Inr k'" and r: "r = WaitReturn pid"
    using assms(1-5,8) by (auto simp: register_process_wait_def Let_def res_elims split: if_splits)
  have "\<not> exec_running (k_objs ?k c)" using assms(9) by (simp add: flag_defs)
  moreover have "child_reported pid (k_objs ?k c) = child_reported pid (k_objs k c)" by (simp add: child_reported_def fun_eq_iff)
  ultimately show ?thesis
    using free_terminated_reports [OF fr, of pid w] assms(2-4,6,7,10-12) pa r by simp
qed

theorem wait_for_zombie_witness:
  "\<exists>k'. register_process_wait 0 (Some 1) (demo_kernel (waited_family P_ZOMBIE) [0] []) = Inr (WaitReturn 1, k') \<and> k_processes k' ! 1 = None"
proof -
  let ?k = "demo_kernel (waited_family P_ZOMBIE) [0] []"
  have q: "queue_inv MAX_PROCESSES (k_ready ?k)" "ready_pids ?k = [0]" using queue_of_ok [of "[0]"] by (simp_all add: demo_kernel_def)
  have at: "proc_at 1 ?k = Inr 1" "proc_at 0 ?k = Inr 0" by (simp_all add: demo_kernel_def proc_at_def proc_slot_def)
  have z: "bit (P_TERMINATED OR P_ZOMBIE) i \<longleftrightarrow> i = 0 \<or> i = 4" for i by (simp only: bit_or_iff flag_bit)
  have "\<exists>k'. register_process_wait 0 (Some 1) ?k = Inr (WaitReturn 1, k')"
  proof -
    have "\<exists>k'. free_terminated_process 1 (upd_obj 1 (\<lambda>p. p\<lparr>p_waited_by_parent := True\<rparr>) ?k) = Inr k'"
      using z
      by (simp add: Let_def proc_at_def proc_slot_def demo_kernel_def waited_family_def flag_defs
          free_terminated_process_def wake_up_process_parent_def list_new_def blank_process_def split del: if_split, intro delete_process_bare)
        (simp_all add: release_pid_def list_clear_def list_size_def waited_family_def blank_process_def)
    then show ?thesis
      using at z by (auto simp: register_process_wait_def Let_def demo_kernel_def waited_family_def list_contains_def list_add_def list_add_node_def
          list_new_def flag_defs)
  qed
  then obtain k' where k': "register_process_wait 0 (Some 1) ?k = Inr (WaitReturn 1, k')" by blast
  have "WaitReturn 1 = WaitReturn 1 \<and> child_reported 1 (k_objs ?k 1) (k_objs ?k 0) (k_objs k' 0) \<and> k_processes k' ! 1 = None \<and> \<not> bit (k_pid_pool k') 1"
    by (rule wait_for_zombie [OF k' at(2,1)])
      (use q z in \<open>simp_all add: demo_kernel_def waited_family_def flag_defs list_contains_def list_add_def list_add_node_def list_new_def\<close>)
  then show ?thesis using k' by blast
qed

text \<open>
  Waiting for any child: when the only child of a process is a zombie, the wait returns its number, but
  the child stays in the list of children although its number is free again; so the next wait for any child, which
  should report that there is none, blocks the process, and no process is left that could wake it up.
\<close>
theorem wait_any_twice_blocks:
  assumes "register_process_wait par None k = Inr (WaitReturn pid, k')" and "proc_at par k = Inr w" and "proc_at pid k = Inr c" and "c \<noteq> w"
    and "p_children (k_objs k w) = \<lparr>l_head = [pid], l_s = 1\<rparr>" and "p_pid (k_objs k c) = pid" and "p_ppid (k_objs k c) = par"
    and "p_waited_by_parent (k_objs k c) = False" and "p_waiting_any (k_objs k w) = False" and "\<not> exec_running (k_objs k c)"
    and "length (k_processes k) = MAX_PROCESSES"
  shows "k_processes k' ! pid = None \<and> (\<exists>k''. register_process_wait par None k' = Inr (WaitBlocked, k''))"
proof -
  have lt: "pid < MAX_PROCESSES" "k_processes k ! pid = Some c" "par < MAX_PROCESSES" "k_processes k ! par = Some w"
    using assms(2,3) by (auto simp: proc_at_def proc_slot_def res_elims split: if_splits option.splits)
  have fr: "free_terminated_process c k = Inr k'"
    using assms(1,2,5) lt by (auto simp: register_process_wait_def proc_slot_def res_elims split: option.splits if_splits)
  obtain k3 where k3: "orphan_children (l_head (p_children (k_objs k c))) k = Inr k3"
      and del: "delete_process c ((release_pid pid (upd_obj c (\<lambda>p. p\<lparr>p_children := list_clear (p_children p)\<rparr>) k3))
        \<lparr>k_processes := (k_processes k3)[pid := None]\<rparr>) = Inr k'"
    using fr assms(2,6-10) by (auto simp: free_terminated_process_def Let_def res_elims release_pid_def split: if_splits)
  obtain h where h: "k3 = k\<lparr>k_objs := h\<rparr>" "\<And>a. \<exists>pp. h a = (k_objs k a)\<lparr>p_ppid := pp\<rparr>"
    using orphan_children_frame [OF k3] by blast
  obtain k4 where k4: "undisturbed ((release_pid pid (upd_obj c (\<lambda>p. p\<lparr>p_children := list_clear (p_children p)\<rparr>) k3))
        \<lparr>k_processes := (k_processes k3)[pid := None]\<rparr>) k4" "k' = upd_obj c (\<lambda>p. p\<lparr>p_deleted := True\<rparr>) k4"
    using delete_process_frame [OF del] by blast
  have kp: "k_processes k' = (k_processes k)[pid := None]" using k4 h(1) by (simp add: undisturbed_def release_pid_def)
  have "same_family (h w) (k_objs k4 w)" using k4(1) h(1) assms(4) by (auto simp: undisturbed_def release_pid_def dest: spec [of _ w])
  then have ch: "p_children (k_objs k' w) = \<lparr>l_head = [pid], l_s = 1\<rparr>"
    using h(2) [of w] k4(2) assms(4,5) by (auto simp: same_family_def)
  have ne: "par \<noteq> pid" using assms(2-4) by auto
  then have "proc_at par k' = Inr w" using lt kp by (simp add: proc_at_def proc_slot_def)
  then show ?thesis
    using kp ch lt assms(11) by (simp add: register_process_wait_def proc_slot_def list_size_def)
qed

definition zombie_family :: "nat \<Rightarrow> process" where
  "zombie_family a = blank_process\<lparr>p_pid := a, p_ppid := 0, p_flags := (if a = 1 then P_TERMINATED OR P_ZOMBIE else 0),
     p_children := (if a = 0 then \<lparr>l_head = [1], l_s = 1\<rparr> else list_new), p_is_pre_freed := (a = 1)\<rparr>"

theorem wait_any_twice_blocks_witness:
  "\<exists>k' k''. register_process_wait 0 None (demo_kernel zombie_family [0] []) = Inr (WaitReturn 1, k') \<and>
     register_process_wait 0 None k' = Inr (WaitBlocked, k'')"
proof -
  let ?k = "demo_kernel zombie_family [0] []"
  have at: "proc_at 1 ?k = Inr 1" "proc_at 0 ?k = Inr 0" by (simp_all add: demo_kernel_def proc_at_def proc_slot_def)
  have z: "bit (P_TERMINATED OR P_ZOMBIE) i \<longleftrightarrow> i = 0 \<or> i = 4" for i by (simp only: bit_or_iff flag_bit)
  have "\<exists>k'. free_terminated_process 1 ?k = Inr k'"
    using z
    by (simp add: Let_def proc_at_def proc_slot_def demo_kernel_def zombie_family_def flag_defs free_terminated_process_def list_new_def
        blank_process_def delete_process_def pre_free_def release_pid_def)
  then obtain k' where k': "register_process_wait 0 None ?k = Inr (WaitReturn 1, k')"
    using at z by (auto simp: register_process_wait_def proc_slot_def demo_kernel_def zombie_family_def flag_defs)
  have "k_processes k' ! 1 = None \<and> (\<exists>k''. register_process_wait 0 None k' = Inr (WaitBlocked, k''))"
    by (rule wait_any_twice_blocks [OF k' at(2,1)]) (use z in \<open>simp_all add: demo_kernel_def zombie_family_def blank_process_def flag_defs\<close>)
  with k' show ?thesis by blast
qed

section \<open>Sleeping\<close>

text \<open>The loop makes the processes ready that the loop of the heap takes out, in that order.\<close>

lemma wake_sleeping_loop_pops:
  assumes "pop_due heap_empty heap_min (delete_min snd) snd fuel tick (k_sleeping k) = Inr (ms, h)"
    and "\<forall>(a, t) \<in> set ms. p_pid (k_objs k a) < MAX_PROCESSES \<and> k_processes k ! p_pid (k_objs k a) = Some a"
    and "queue_inv MAX_PROCESSES (k_ready k)" and "length (ready_pids k) + length ms \<le> MAX_PROCESSES"
  shows "\<exists>k'. wake_sleeping_loop fuel tick k = Inr k' \<and> k_sleeping k' = h \<and> queue_inv MAX_PROCESSES (k_ready k') \<and>
    ready_pids k' = ready_pids k @ map (\<lambda>(a, t). p_pid (k_objs k a)) ms \<and>
    (\<forall>a. k_objs k' a = (if a \<in> fst ` set ms then clear_flag P_SLEEPING (k_objs k a) else k_objs k a))"
  using assms
proof (induction fuel arbitrary: k ms)
  case 0
  then show ?case by auto
next
  case (Suc fuel)
  show ?case
  proof (cases "heap_empty (k_sleeping k)")
    case True
    then show ?thesis using Suc.prems by auto
  next
    case False
    then obtain a t where m: "heap_min (k_sleeping k) = Inr (a, t)" using Suc.prems(1) by (auto simp: res_elims)
    show ?thesis
    proof (cases "t \<le> tick")
      case False
      then show ?thesis using \<open>\<not> heap_empty (k_sleeping k)\<close> Suc.prems m by auto
    next
      case True
      then obtain x h1 ms1 where d: "delete_min snd (k_sleeping k) = Inr (x, h1)"
          "pop_due heap_empty heap_min (delete_min snd) snd fuel tick h1 = Inr (ms1, h)" "ms = (a, t) # ms1"
        using Suc.prems(1) False m by (auto simp: res_elims)
      let ?pid = "p_pid (k_objs k a)"
      let ?k1 = "(upd_obj a (clear_flag P_SLEEPING) (ready_enqueue ?pid k))\<lparr>k_sleeping := h1\<rparr>"
      have e: "queue_inv MAX_PROCESSES (k_ready ?k1)" "ready_pids ?k1 = ready_pids k @ [?pid]"
        using ready_enqueue_pids [OF Suc.prems(3), of ?pid] Suc.prems(4) d(3) by simp_all
      have pid: "p_pid (k_objs ?k1 b) = p_pid (k_objs k b)" for b by simp
      have at: "proc_at ?pid (ready_enqueue ?pid k) = Inr a" using Suc.prems(2) d(3) by (intro proc_at_Some) auto
      have ih: "\<exists>k'. wake_sleeping_loop fuel tick ?k1 = Inr k' \<and> k_sleeping k' = h \<and> queue_inv MAX_PROCESSES (k_ready k') \<and>
          ready_pids k' = ready_pids ?k1 @ map (\<lambda>(a, t). p_pid (k_objs ?k1 a)) ms1 \<and>
          (\<forall>b. k_objs k' b = (if b \<in> fst ` set ms1 then clear_flag P_SLEEPING (k_objs ?k1 b) else k_objs ?k1 b))"
        using Suc.prems d e by (intro Suc.IH) (auto simp: pid)
      then obtain k' where k': "wake_sleeping_loop fuel tick ?k1 = Inr k'" "k_sleeping k' = h" "queue_inv MAX_PROCESSES (k_ready k')"
          "ready_pids k' = ready_pids k @ [?pid] @ map (\<lambda>(a, t). p_pid (k_objs k a)) ms1"
          "\<And>b. k_objs k' b = (if b \<in> fst ` set ms1 then clear_flag P_SLEEPING (k_objs ?k1 b) else k_objs ?k1 b)"
      proof -
        have "map (\<lambda>(a, t). p_pid (k_objs ?k1 a)) ms1 = map (\<lambda>(a, t). p_pid (k_objs k a)) ms1" by (auto simp: pid)
        then show thesis using that ih e(2) by (metis append.assoc)
      qed
      have "clear_flag P_SLEEPING (clear_flag P_SLEEPING p) = clear_flag P_SLEEPING p" for p by (simp add: clear_flag_def ac_simps)
      then show ?thesis using k' d False m True at by (auto simp: Let_def)
    qed
  qed
qed

text \<open>
  C10. Waking up sleepers: the loop over the sleeping processes ends. It appends to the ready queue exactly
  the processes whose tick has come, in the order of their ticks, and clears their flag; the others
  remain in the heap.
\<close>
theorem sleepers_wake:
  assumes "heap_inv snd (k_sleeping k)" and "queue_inv MAX_PROCESSES (k_ready k)"
    and "\<forall>(a, t) \<in># heap_mset (k_sleeping k). p_pid (k_objs k a) < MAX_PROCESSES \<and> k_processes k ! p_pid (k_objs k a) = Some a"
    and "length (ready_pids k) + h_count (k_sleeping k) \<le> MAX_PROCESSES"
  shows "\<exists>k' ms. check_for_processes_to_wake_up k = Inr k' \<and> sorted (map snd ms) \<and>
    mset ms = filter_mset (\<lambda>x. snd x \<le> k_tick k) (heap_mset (k_sleeping k)) \<and>
    ready_pids k' = ready_pids k @ map (\<lambda>(a, t). p_pid (k_objs k a)) ms \<and>
    heap_inv snd (k_sleeping k') \<and> heap_mset (k_sleeping k') = filter_mset (\<lambda>x. \<not> snd x \<le> k_tick k) (heap_mset (k_sleeping k)) \<and>
    (\<forall>(a, t) \<in> set ms. \<not> is_sleeping (k_objs k' a))"
proof -
  obtain ms h where p: "pop_due heap_empty heap_min (delete_min snd) snd (h_count (k_sleeping k)) (k_tick k) (k_sleeping k) = Inr (ms, h)"
      "heap_inv snd h" "sorted (map snd ms)" "mset ms = filter_mset (\<lambda>x. snd x \<le> k_tick k) (heap_mset (k_sleeping k))"
      "heap_mset h = filter_mset (\<lambda>x. \<not> snd x \<le> k_tick k) (heap_mset (k_sleeping k))"
    using pop_due_heap [OF assms(1)] by blast
  have "set_mset (mset ms) \<subseteq> set_mset (heap_mset (k_sleeping k))" unfolding p(4) by auto
  then have reg: "\<forall>(a, t) \<in> set ms. p_pid (k_objs k a) < MAX_PROCESSES \<and> k_processes k ! p_pid (k_objs k a) = Some a" using assms(3) by auto
  have "size (mset ms) \<le> size (heap_mset (k_sleeping k))" unfolding p(4) by (rule size_filter_mset_lesseq)
  then have "length (ready_pids k) + length ms \<le> MAX_PROCESSES" using assms(4) size_heap_mset [OF assms(1)] by simp
  from wake_sleeping_loop_pops [OF p(1) reg assms(2) this] obtain k' where k': "check_for_processes_to_wake_up k = Inr k'" "k_sleeping k' = h"
      "ready_pids k' = ready_pids k @ map (\<lambda>(a, t). p_pid (k_objs k a)) ms"
      "\<And>a. k_objs k' a = (if a \<in> fst ` set ms then clear_flag P_SLEEPING (k_objs k a) else k_objs k a)"
    unfolding check_for_processes_to_wake_up_def by blast
  have "\<forall>(a, t) \<in> set ms. \<not> is_sleeping (k_objs k' a)"
  proof safe
    fix a t assume m: "(a, t) \<in> set ms" and sl: "is_sleeping (k_objs k' a)"
    from m have "a \<in> fst ` set ms" by force
    then show False using sl k'(4) [of a] by (simp add: flag_defs clear_flag_bit)
  qed
  with k' p show ?thesis by blast
qed

definition sleeping_kernel :: kernel where
  "sleeping_kernel = (demo_kernel (\<lambda>a. blank_process\<lparr>p_pid := a, p_flags := P_SLEEPING\<rparr>) [] [])
     \<lparr>k_sleeping := \<lparr>h_count = 2, h_capacity = 32, h_elements = (1, 4) # (2, 9) # replicate 30 (0, 0)\<rparr>, k_tick := 5\<rparr>"

theorem sleepers_wake_witness: "\<exists>k'. check_for_processes_to_wake_up sleeping_kernel = Inr k' \<and> ready_pids k' = [1]"
proof -
  have "c = 1" if "0 < c" "c < 2" for c :: nat using that by simp
  then have "heap_but snd {} 2 (h_elements (k_sleeping sleeping_kernel))" by (force simp: heap_but_def pidx_def sleeping_kernel_def)
  then have h: "heap_inv snd (k_sleeping sleeping_kernel)" "heap_mset (k_sleeping sleeping_kernel) = {#(1, 4), (2, 9)#}"
    by (simp_all add: heap_inv_def ERR_EL_def heap_mset_def sleeping_kernel_def)
  have q: "queue_inv MAX_PROCESSES (k_ready sleeping_kernel)" "ready_pids sleeping_kernel = []"
    using queue_of_ok [of "[]"] by (simp_all add: sleeping_kernel_def demo_kernel_def)
  have o1: "p_pid (k_objs sleeping_kernel a) = a" "k_processes sleeping_kernel = [Some 0, Some 1, Some 2] @ replicate 29 None" "k_tick sleeping_kernel = 5"
    "h_count (k_sleeping sleeping_kernel) = 2" for a
    by (simp_all add: sleeping_kernel_def demo_kernel_def)
  obtain k' ms where "check_for_processes_to_wake_up sleeping_kernel = Inr k'" "mset ms = {#(1, 4)#}"
      "ready_pids k' = ready_pids sleeping_kernel @ map (\<lambda>(a, t). p_pid (k_objs sleeping_kernel a)) ms"
    using sleepers_wake [OF h(1) q(1)] h(2) o1 q(2) by auto
  then show ?thesis using q(2) o1(1) by (cases ms) auto
qed

end
