(* ===== verification/Descriptors.thy ===== *)
theory Descriptors
  imports Scheduler
begin

text \<open>
  File descriptors and open files agree: every descriptor of a process refers to an open file, and the
  count of an open file is the number of descriptors that refer to it, whatever sequence of
  \<^verbatim>\<open>open\<close>, \<^verbatim>\<open>dup\<close>, \<^verbatim>\<open>dup2\<close>, \<^verbatim>\<open>pipe\<close> and \<^verbatim>\<open>close\<close> the processes run. Then how a pipe blocks and
  wakes up its reader.
\<close>

section \<open>References\<close>

definition refset :: "(nat \<Rightarrow> file_descriptor option list) \<Rightarrow> nat \<Rightarrow> nat \<Rightarrow> (nat \<times> nat) set" where
  "refset F n s = {(a, i). a < n \<and> i < MAX_FD_PER_PROCESS \<and> (\<exists>d. F a ! i = Some d \<and> fd_sys_fd d = s)}"

abbreviation fds_of :: "kernel \<Rightarrow> nat \<Rightarrow> file_descriptor option list" where
  "fds_of k \<equiv> \<lambda>a. p_fds (k_objs k a)"

definition refs :: "kernel \<Rightarrow> nat \<Rightarrow> nat" where
  "refs k s = card (refset (fds_of k) (k_next_obj k) s)"

definition fds_ok :: "(nat \<Rightarrow> file_descriptor option list) \<Rightarrow> nat \<Rightarrow> file_iface option list \<Rightarrow> bool" where
  "fds_ok F n T \<longleftrightarrow> length T = MAX_FD \<and> (\<forall>a < n. length (F a) = MAX_FD_PER_PROCESS) \<and>
     (\<forall>a < n. \<forall>i < MAX_FD_PER_PROCESS. \<forall>d. F a ! i = Some d \<longrightarrow> fd_fd d = i \<and> fd_sys_fd d < MAX_FD \<and> T ! fd_sys_fd d \<noteq> None) \<and>
     (\<forall>s < MAX_FD. \<forall>f. T ! s = Some f \<longrightarrow> f_fd f = s \<and> f_rc f = int (card (refset F n s)))"

definition fd_inv :: "kernel \<Rightarrow> bool" where
  "fd_inv k \<longleftrightarrow> fds_ok (fds_of k) (k_next_obj k) (v_fds (k_vfs k)) \<and> v_lowest_free_fd (k_vfs k) \<le> int MAX_FD"

lemma finite_refset: "finite (refset F n s)"
  by (rule finite_subset [of _ "{..<n} \<times> {..<MAX_FD_PER_PROCESS}"]) (auto simp: refset_def)

lemma refset_upd:
  assumes "a < n" and "i < MAX_FD_PER_PROCESS" and "length (F a) = MAX_FD_PER_PROCESS"
  shows "refset (F(a := (F a)[i := x])) n s =
    (if \<exists>d. x = Some d \<and> fd_sys_fd d = s then insert (a, i) (refset F n s) else refset F n s - {(a, i)})"
  using assms by (auto simp: refset_def nth_list_update split: if_splits)

lemma card_refset_add:
  assumes "a < n" and "i < MAX_FD_PER_PROCESS" and "length (F a) = MAX_FD_PER_PROCESS" and "F a ! i = None"
  shows "card (refset (F(a := (F a)[i := Some d])) n s) = card (refset F n s) + (if fd_sys_fd d = s then 1 else 0)"
proof -
  have "(a, i) \<notin> refset F n s" using assms(4) by (simp add: refset_def)
  then show ?thesis using refset_upd [where F = F, OF assms(1-3), of "Some d" s] finite_refset [of F n s] by simp
qed

lemma card_refset_del:
  assumes "a < n" and "i < MAX_FD_PER_PROCESS" and "length (F a) = MAX_FD_PER_PROCESS" and "F a ! i = Some d"
  shows "card (refset F n s) = card (refset (F(a := (F a)[i := None])) n s) + (if fd_sys_fd d = s then 1 else 0)"
proof (cases "fd_sys_fd d = s")
  case True
  then have "(a, i) \<in> refset F n s" using assms by (auto simp: refset_def)
  then show ?thesis
    using refset_upd [where F = F, OF assms(1-3), of None s] True finite_refset [of F n s] card_Suc_Diff1 [of "refset F n s" "(a, i)"] by simp
next
  case False
  then have "(a, i) \<notin> refset F n s" using assms by (auto simp: refset_def)
  then show ?thesis using refset_upd [where F = F, OF assms(1-3), of None s] False by simp
qed

section \<open>The operations keep the counts\<close>

lemma fds_okD:
  assumes "fds_ok F n T"
  shows "length T = MAX_FD" and "a < n \<Longrightarrow> length (F a) = MAX_FD_PER_PROCESS"
    and "a < n \<Longrightarrow> i < MAX_FD_PER_PROCESS \<Longrightarrow> F a ! i = Some d \<Longrightarrow> fd_fd d = i \<and> fd_sys_fd d < MAX_FD \<and> T ! fd_sys_fd d \<noteq> None"
    and "s < MAX_FD \<Longrightarrow> T ! s = Some f \<Longrightarrow> f_fd f = s \<and> f_rc f = int (card (refset F n s))"
  using assms by (simp_all add: fds_ok_def)

lemma fds_okI:
  assumes "length T = MAX_FD" and "\<And>a. a < n \<Longrightarrow> length (F a) = MAX_FD_PER_PROCESS"
    and "\<And>a i d. a < n \<Longrightarrow> i < MAX_FD_PER_PROCESS \<Longrightarrow> F a ! i = Some d \<Longrightarrow> fd_fd d = i \<and> fd_sys_fd d < MAX_FD \<and> T ! fd_sys_fd d \<noteq> None"
    and "\<And>s f. s < MAX_FD \<Longrightarrow> T ! s = Some f \<Longrightarrow> f_fd f = s \<and> f_rc f = int (card (refset F n s))"
  shows "fds_ok F n T"
  using assms by (simp add: fds_ok_def)

text \<open>A table in which files change other than in their number and count keeps the invariant.\<close>

lemma fds_ok_table:
  assumes "fds_ok F n T" and "length T' = length T"
    and "\<And>s. s < MAX_FD \<Longrightarrow> rel_option (\<lambda>f f'. f_fd f' = f_fd f \<and> f_rc f' = f_rc f) (T ! s) (T' ! s)"
  shows "fds_ok F n T'"
proof (rule fds_okI)
  fix a i d assume "a < n" "i < MAX_FD_PER_PROCESS" "F a ! i = Some d"
  from fds_okD(3) [OF assms(1) this] assms(3) [of "fd_sys_fd d"]
  show "fd_fd d = i \<and> fd_sys_fd d < MAX_FD \<and> T' ! fd_sys_fd d \<noteq> None" by (auto simp: option_rel_Some1)
next
  fix s f assume s: "s < MAX_FD" "T' ! s = Some f"
  then obtain g where "T ! s = Some g" "f_fd f = f_fd g" "f_rc f = f_rc g" using assms(3) [of s] by (auto simp: option_rel_Some2)
  then show "f_fd f = s \<and> f_rc f = int (card (refset F n s))" using fds_okD(4) [OF assms(1) s(1)] by simp
qed (use assms(1,2) fds_okD(1,2) in auto)

lemma refset_None:
  assumes "fds_ok F n T" and "T ! s = None"
  shows "refset F n s = {}"
  using fds_okD(3) [OF assms(1)] assms(2) unfolding refset_def by blast

lemma fds_ok_new_file:
  assumes "fds_ok F n T" and "s < MAX_FD" and "T ! s = None" and "f_fd f = s" and "f_rc f = 0"
  shows "fds_ok F n (T[s := Some f])"
proof (rule fds_okI)
  fix r g assume "r < MAX_FD" "T[s := Some f] ! r = Some g"
  then show "f_fd g = r \<and> f_rc g = int (card (refset F n r))"
    using assms fds_okD(1,4) [OF assms(1)] refset_None [OF assms(1,3)] by (cases "r = s") auto
qed (use assms fds_okD(1-3) [OF assms(1)] in \<open>auto simp: nth_list_update\<close>)

lemma fds_ok_delete:
  assumes "fds_ok F n T" and "s < MAX_FD" and "T ! s = Some f" and "f_rc f = 0"
  shows "fds_ok F n (T[s := None])"
proof (rule fds_okI)
  have e: "refset F n s = {}" using assms finite_refset [of F n s] fds_okD(4) [OF assms(1-3)] by simp
  fix a i d assume a: "a < n" "i < MAX_FD_PER_PROCESS" "F a ! i = Some d"
  then have "fd_sys_fd d \<noteq> s" using e unfolding refset_def by blast
  then show "fd_fd d = i \<and> fd_sys_fd d < MAX_FD \<and> T[s := None] ! fd_sys_fd d \<noteq> None" using fds_okD(3) [OF assms(1) a] by simp
next
  fix r g assume "r < MAX_FD" "T[s := None] ! r = Some g"
  then show "f_fd g = r \<and> f_rc g = int (card (refset F n r))"
    using assms(2) fds_okD(1,4) [OF assms(1)] by (cases "r = s") auto
qed (use fds_okD(1,2) [OF assms(1)] in auto)

lemma fds_ok_install:
  assumes "fds_ok F n T" and "a < n" and "i < MAX_FD_PER_PROCESS" and "F a ! i = None" and "s < MAX_FD" and "T ! s = Some f"
    and "d = \<lparr>fd_fd = i, fd_sys_fd = s, fd_clo_exec = c\<rparr>"
  shows "fds_ok (F(a := (F a)[i := Some d])) n (T[s := Some (f\<lparr>f_rc := f_rc f + 1\<rparr>)])" (is "fds_ok ?F n ?T")
proof (rule fds_okI)
  have len: "length (F a) = MAX_FD_PER_PROCESS" "length T = MAX_FD" using fds_okD(1,2) [OF assms(1)] assms(2) by auto
  show "length ?T = MAX_FD" using len by simp
  show "length (?F b) = MAX_FD_PER_PROCESS" if "b < n" for b using that fds_okD(2) [OF assms(1)] by simp
  show "fd_fd e = j \<and> fd_sys_fd e < MAX_FD \<and> ?T ! fd_sys_fd e \<noteq> None" if b: "b < n" "j < MAX_FD_PER_PROCESS" "?F b ! j = Some e" for b j e
  proof (cases "b = a \<and> j = i")
    case True
    then have "e = d" using b(3) assms(3) len by simp
    then show ?thesis using True assms(5,7) len by simp
  next
    case False
    then have "F b ! j = Some e" using b by (auto split: if_splits)
    then show ?thesis using fds_okD(3) [OF assms(1) b(1,2)] assms(5) len by (auto simp: nth_list_update)
  qed
  show "f_fd g = r \<and> f_rc g = int (card (refset ?F n r))" if r: "r < MAX_FD" "?T ! r = Some g" for r g
  proof (cases "r = s")
    case True
    then have "g = f\<lparr>f_rc := f_rc f + 1\<rparr>" using r len by simp
    then show ?thesis
      using card_refset_add [where F = F, OF assms(2,3) len(1) assms(4), of d s] fds_okD(4) [OF assms(1,5,6)] True assms(7) by simp
  next
    case False
    then show ?thesis
      using card_refset_add [where F = F, OF assms(2,3) len(1) assms(4), of d r] fds_okD(4) [OF assms(1) r(1)] r(2) assms(7) by simp
  qed
qed

lemma fds_ok_release:
  assumes "fds_ok F n T" and "a < n" and "i < MAX_FD_PER_PROCESS" and "F a ! i = Some d" and "T ! fd_sys_fd d = Some f"
  shows "fds_ok (F(a := (F a)[i := None])) n (T[fd_sys_fd d := Some (f\<lparr>f_rc := f_rc f - 1\<rparr>)])" (is "fds_ok ?F n ?T")
proof (rule fds_okI)
  have len: "length (F a) = MAX_FD_PER_PROCESS" "length T = MAX_FD" using fds_okD(1,2) [OF assms(1)] assms(2) by auto
  have sd: "fd_sys_fd d < MAX_FD" using fds_okD(3) [OF assms(1-4)] by simp
  show "length ?T = MAX_FD" using len by simp
  show "length (?F b) = MAX_FD_PER_PROCESS" if "b < n" for b using that fds_okD(2) [OF assms(1)] by simp
  show "fd_fd e = j \<and> fd_sys_fd e < MAX_FD \<and> ?T ! fd_sys_fd e \<noteq> None" if b: "b < n" "j < MAX_FD_PER_PROCESS" "?F b ! j = Some e" for b j e
  proof -
    have "F b ! j = Some e" using b assms(3) len by (auto simp: nth_list_update split: if_splits)
    then show ?thesis using fds_okD(3) [OF assms(1) b(1,2)] sd len by (auto simp: nth_list_update)
  qed
  show "f_fd g = r \<and> f_rc g = int (card (refset ?F n r))" if r: "r < MAX_FD" "?T ! r = Some g" for r g
  proof (cases "r = fd_sys_fd d")
    case True
    then have "g = f\<lparr>f_rc := f_rc f - 1\<rparr>" using r len by simp
    then show ?thesis
      using card_refset_del [where F = F, OF assms(2,3) len(1) assms(4), of r] fds_okD(4) [OF assms(1) sd assms(5)] True by simp
  next
    case False
    then show ?thesis
      using card_refset_del [where F = F, OF assms(2,3) len(1) assms(4), of r] fds_okD(4) [OF assms(1) r(1)] r(2) by simp
  qed
qed

lemma fd_inv_cong:
  "fd_inv k \<Longrightarrow> fds_of k' = fds_of k \<Longrightarrow> k_next_obj k' = k_next_obj k \<Longrightarrow> k_vfs k' = k_vfs k \<Longrightarrow> fd_inv k'"
  by (simp add: fd_inv_def)

lemma fd_inv_upd: "fd_inv k \<Longrightarrow> (\<And>p. p_fds (g p) = p_fds p) \<Longrightarrow> fd_inv (upd_obj b g k)"
  by (rule fd_inv_cong) (auto simp: fun_eq_iff)

lemma install_fd_inv:
  assumes "fd_inv k" and "a < k_next_obj k" and "fd < MAX_FD_PER_PROCESS" and "p_fds (k_objs k a) ! fd = None" and "s < MAX_FD"
    and "install_fd a fd s c k = Inr k'"
  shows "fd_inv k' \<and> k_next_obj k' = k_next_obj k"
proof -
  obtain f where f: "v_fds (k_vfs k) ! s = Some f" and
    k': "k' = set_fd a fd (Some \<lparr>fd_fd = fd, fd_sys_fd = s, fd_clo_exec = c\<rparr>) (k\<lparr>k_vfs := put_file s (f\<lparr>f_rc := f_rc f + 1\<rparr>) (k_vfs k)\<rparr>)"
    using assms(6) by (auto simp: install_fd_def new_file_descriptor_def add_rc_def res_elims split: option.splits)
  have F: "fds_of k' = (fds_of k)(a := (fds_of k a)[fd := Some \<lparr>fd_fd = fd, fd_sys_fd = s, fd_clo_exec = c\<rparr>])"
    by (auto simp: k' set_fd_def fun_eq_iff)
  have "k_next_obj k' = k_next_obj k" "v_fds (k_vfs k') = (v_fds (k_vfs k))[s := Some (f\<lparr>f_rc := f_rc f + 1\<rparr>)]"
    "v_lowest_free_fd (k_vfs k') = v_lowest_free_fd (k_vfs k)"
    by (simp_all add: k' set_fd_def put_file_def)
  then show ?thesis
    using fds_ok_install [OF _ assms(2,3) _ assms(5) f refl, of "fds_of k" c] assms(1,4) F by (simp add: fd_inv_def)
qed

lemma release_fd_inv:
  assumes "fd_inv k" and "a < k_next_obj k" and "fd < MAX_FD_PER_PROCESS" and "release_fd a fd k = Inr k'"
  shows "fd_inv k' \<and> k_next_obj k' = k_next_obj k \<and> p_fds (k_objs k' a) = (p_fds (k_objs k a))[fd := None]"
proof (cases "p_fds (k_objs k a) ! fd")
  case None
  then have k': "k' = upd_obj a (\<lambda>p. p\<lparr>p_fds := (p_fds p)[fd := None], p_lowest_free_fd := min (p_lowest_free_fd p) fd\<rparr>) k"
    using assms(4) by (simp add: release_fd_def)
  have "(p_fds (k_objs k a))[fd := None] = p_fds (k_objs k a)" using None by (metis list_update_id)
  then have "fds_of k' = fds_of k" by (auto simp: k' fun_eq_iff)
  then show ?thesis using fd_inv_cong [OF assms(1)] by (simp add: k')
next
  case (Some d)
  then obtain f where f: "v_fds (k_vfs k) ! fd_sys_fd d = Some f" and
    k': "k' = upd_obj a (\<lambda>p. p\<lparr>p_fds := (p_fds p)[fd := None], p_lowest_free_fd := min (p_lowest_free_fd p) fd\<rparr>)
      (k\<lparr>k_vfs := put_file (fd_sys_fd d) (f\<lparr>f_rc := f_rc f + (- 1)\<rparr>) (k_vfs k)\<rparr>)"
    using assms(4) by (auto simp: release_fd_def delete_file_descriptor_def add_rc_def res_elims split: option.splits)
  have F: "fds_of k' = (fds_of k)(a := (fds_of k a)[fd := None])" by (auto simp: k' fun_eq_iff)
  have "k_next_obj k' = k_next_obj k" "v_fds (k_vfs k') = (v_fds (k_vfs k))[fd_sys_fd d := Some (f\<lparr>f_rc := f_rc f - 1\<rparr>)]"
    "v_lowest_free_fd (k_vfs k') = v_lowest_free_fd (k_vfs k)"
    by (simp_all add: k' put_file_def)
  then show ?thesis
    using fds_ok_release [OF _ assms(2,3) _ f, of "fds_of k"] assms(1) Some F by (simp add: fd_inv_def k')
qed

lemma proc_to_sys_fd_inv:
  assumes "fd_inv k" and "a < k_next_obj k"
  shows "proc_to_sys_fd a fd k = Inr None \<or>
    (\<exists>s d. proc_to_sys_fd a fd k = Inr (Some s) \<and> 0 \<le> fd \<and> nat fd < MAX_FD_PER_PROCESS \<and> p_fds (k_objs k a) ! nat fd = Some d \<and>
      fd_sys_fd d = s \<and> s < MAX_FD \<and> v_fds (k_vfs k) ! s \<noteq> None)"
proof -
  have "fds_ok (fds_of k) (k_next_obj k) (v_fds (k_vfs k))" using assms(1) by (simp add: fd_inv_def)
  note D = fds_okD(3,4) [OF this]
  show ?thesis
  proof (cases "0 \<le> fd \<and> fd < int MAX_FD_PER_PROCESS \<and> p_fds (k_objs k a) ! nat fd \<noteq> None")
    case True
    then obtain d where d: "p_fds (k_objs k a) ! nat fd = Some d" "nat fd < MAX_FD_PER_PROCESS" by auto
    from D(1) [OF assms(2) d(2,1)] obtain f where f: "fd_sys_fd d < MAX_FD" "v_fds (k_vfs k) ! fd_sys_fd d = Some f" by auto
    from D(2) [OF f] have "proc_to_sys_fd a fd k = Inr (Some (fd_sys_fd d))" using True d f by (simp add: proc_to_sys_fd_def)
    then show ?thesis using True d f by blast
  next
    case False
    then show ?thesis by (auto simp: proc_to_sys_fd_def)
  qed
qed

lemma resume_waiters_fds:
  "resume_waiters ws k = Inr k' \<Longrightarrow> k_vfs k' = k_vfs k \<and> k_next_obj k' = k_next_obj k \<and> fds_of k' = fds_of k"
proof (induction ws arbitrary: k)
  case (Cons w ws)
  let ?k1 = "k\<lparr>k_read_waiters := remove_waiter w (k_read_waiters k)\<rparr>"
  obtain a where a: "resume_waiters ws (ready_enqueue (p_pid (k_objs ?k1 a)) (upd_obj a (clear_flag P_WAITING_READ) ?k1)) = Inr k'"
    using Cons.prems by (auto simp: res_elims Let_def)
  from Cons.IH [OF a] show ?case by (auto simp: fun_eq_iff)
qed simp

lemma wake_up_fds:
  "wake_up_read_waiting_processes wfd rfd n k = Inr k' \<Longrightarrow> k_vfs k' = k_vfs k \<and> k_next_obj k' = k_next_obj k \<and> fds_of k' = fds_of k"
  using resume_waiters_fds by (fastforce simp: wake_up_read_waiting_processes_def res_elims)

lemma length_put_file [simp]: "length (v_fds (put_file o1 g v)) = length (v_fds v)"
  by (simp add: put_file_def)

lemma rel_put_file:
  assumes "v_fds v ! o1 = Some g" and "f_fd g' = f_fd g" and "f_rc g' = f_rc g"
  shows "rel_option (\<lambda>f f'. f_fd f' = f_fd f \<and> f_rc f' = f_rc f) (v_fds v ! s) (v_fds (put_file o1 g' v) ! s)"
  using assms by (cases "s = o1 \<and> o1 < length (v_fds v)") (auto simp: put_file_def option.rel_refl list_update_beyond)

lemma delete_file_table:
  assumes "fds_ok F n (v_fds v)" and "fd < MAX_FD" and "v_fds v ! fd = Some f" and "f_rc f = 0"
  shows "fds_ok F n (v_fds (delete_file fd f v))"
proof -
  let ?T = "v_fds (drop_other_end f v)"
  have T: "length ?T = length (v_fds v)" "rel_option (\<lambda>f f'. f_fd f' = f_fd f \<and> f_rc f' = f_rc f) (v_fds v ! s) (?T ! s)" for s
    by (auto simp: drop_other_end_def option.rel_refl split: file_kind.splits option.splits intro: rel_put_file)
  have ok: "fds_ok F n ?T" using fds_ok_table [OF assms(1) T] by blast
  obtain f' where "?T ! fd = Some f'" "f_rc f' = 0" using T(2) [of fd] assms(3,4) by (auto simp: option_rel_Some1)
  from fds_ok_delete [OF ok assms(2) this] show ?thesis by (simp add: delete_file_def Let_def)
qed

lemma vfs_close_inv:
  assumes "fd_inv k" and "fd < MAX_FD" and "vfs_close fd k = Inr (b, k')"
  shows "fd_inv k' \<and> k_next_obj k' = k_next_obj k \<and> fds_of k' = fds_of k"
proof (cases "v_fds (k_vfs k) ! fd")
  case None
  then show ?thesis using assms by (auto simp: vfs_close_def)
next
  case (Some f)
  let ?k1 = "k\<lparr>k_vfs := delete_file fd f (k_vfs k)\<rparr>"
  show ?thesis
  proof (cases "f_rc f = 0")
    case True
    have "v_lowest_free_fd (delete_file fd f (k_vfs k)) \<le> int MAX_FD" using assms(1) by (auto simp: delete_file_def Let_def fd_inv_def)
    then have ok: "fd_inv ?k1" using delete_file_table [OF _ assms(2) Some True] assms(1) by (simp add: fd_inv_def)
    have "k' = ?k1 \<or> (\<exists>wfd rfd. wake_up_read_waiting_processes wfd rfd 0 ?k1 = Inr k')"
      using assms(3) Some True by (auto simp: vfs_close_def Let_def res_elims split: option.splits)
    then have "k_vfs k' = k_vfs ?k1 \<and> k_next_obj k' = k_next_obj ?k1 \<and> fds_of k' = fds_of ?k1" using wake_up_fds by blast
    then show ?thesis using fd_inv_cong [OF ok] by (metis kernel.select_convs(1,2) kernel.update_convs(10) kernel.surjective)
  next
    case False
    then show ?thesis using assms Some by (simp add: vfs_close_def)
  qed
qed

lemma proc_close_inv:
  assumes "fd_inv k" and "a < k_next_obj k" and "proc_close a fd k = Inr (r, k')"
  shows "fd_inv k' \<and> k_next_obj k' = k_next_obj k \<and>
    (p_fds (k_objs k a) ! nat fd \<noteq> None \<and> 0 \<le> fd \<and> fd < int MAX_FD_PER_PROCESS \<longrightarrow> p_fds (k_objs k' a) ! nat fd = None)"
  using proc_to_sys_fd_inv [OF assms(1,2), of fd]
proof (elim disjE exE conjE)
  assume n: "proc_to_sys_fd a fd k = Inr None"
  then show ?thesis using assms by (auto simp: proc_close_def proc_to_sys_fd_def split: option.splits if_splits)
next
  fix s d assume s: "proc_to_sys_fd a fd k = Inr (Some s)" "nat fd < MAX_FD_PER_PROCESS" "s < MAX_FD"
  then obtain k1 b where k1: "release_fd a (nat fd) k = Inr k1" "vfs_close s k1 = Inr (b, k')"
    using assms(3) by (auto simp: proc_close_def res_elims)
  note r = release_fd_inv [OF assms(1,2) s(2) k1(1)]
  note c = vfs_close_inv [OF conjunct1 [OF r] s(3) k1(2)]
  have "length (p_fds (k_objs k a)) = MAX_FD_PER_PROCESS" using assms(1,2) fds_okD(2) by (auto simp: fd_inv_def)
  then have "p_fds (k_objs k' a) ! nat fd = None" using r c s(2) by (metis nth_list_update_eq)
  then show ?thesis using r c by simp
qed

lemma proc_get_free_fd_inv:
  assumes "fd_inv k" and "proc_get_free_fd a k = Inr (r, k')"
  shows "fd_inv k' \<and> k_next_obj k' = k_next_obj k \<and> fds_of k' = fds_of k \<and> k_vfs k' = k_vfs k \<and>
    (\<forall>l. r = Some l \<longrightarrow> l < MAX_FD_PER_PROCESS \<and> p_fds (k_objs k a) ! l = None \<and> l < p_lowest_free_fd (k_objs k' a))"
proof (cases r)
  case None
  then have "k' = k" using assms(2) by (auto simp: proc_get_free_fd_def Let_def split: if_splits)
  then show ?thesis using assms(1) None by simp
next
  case (Some l)
  then have k': "k' = upd_obj a (\<lambda>p. p\<lparr>p_lowest_free_fd := scan_used (p_fds p) (l + 1)\<rparr>) k"
    and l: "l < MAX_FD_PER_PROCESS" "p_fds (k_objs k a) ! l = None"
    using assms(2) by (auto simp: proc_get_free_fd_def Let_def split: if_splits)
  have "l < scan_used (p_fds (k_objs k a)) (l + 1)"
  proof (cases "l + 1 \<le> length (p_fds (k_objs k a))")
    case True
    then show ?thesis using scan_used_spec(1) [OF True] by simp
  next
    case False
    then show ?thesis by (subst scan_used.simps) simp
  qed
  moreover have "fds_of k' = fds_of k" by (auto simp: k' fun_eq_iff)
  ultimately show ?thesis using Some l fd_inv_upd [OF assms(1)] by (simp add: k')
qed

lemma lowest_after:
  assumes "proc_get_free_fd a k = Inr (Some l, k1)" and "proc_get_free_fd a k1 = Inr (Some l', k2)"
  shows "l \<noteq> l'"
proof -
  have "l' = p_lowest_free_fd (k_objs k1 a)" using assms(2) by (auto simp: proc_get_free_fd_def Let_def split: if_splits)
  moreover have "p_lowest_free_fd (k_objs k1 a) = scan_used (p_fds (k_objs k a)) (l + 1)"
    using assms(1) by (auto simp: proc_get_free_fd_def Let_def split: if_splits)
  moreover have "i \<le> scan_used xs i" for xs :: "file_descriptor option list" and i
  proof (cases "i \<le> length xs")
    case False
    then show ?thesis by (subst scan_used.simps) simp
  qed (rule scan_used_spec(1))
  ultimately show ?thesis by (metis less_add_one not_less order_less_le_trans)
qed

lemma vfs_get_free_fd_slot:
  assumes "length (v_fds v) = MAX_FD" and "v_lowest_free_fd v \<le> int MAX_FD" and "vfs_get_free_fd v = (r, v')"
  shows "\<exists>l. v' = v\<lparr>v_lowest_free_fd := l\<rparr> \<and> l \<le> int MAX_FD \<and>
    (\<forall>i. r = Some i \<longrightarrow> i < MAX_FD \<and> v_fds v ! i = None \<and> v_lowest_free_fd v \<le> int i \<and> int i < l)"
proof (cases r)
  case None
  then have "v' = v" using assms(3) by (auto simp: vfs_get_free_fd_def Let_def split: if_splits)
  then show ?thesis using None assms(2) by (intro exI [of _ "v_lowest_free_fd v"]) simp
next
  case (Some i)
  then have lo: "0 \<le> v_lowest_free_fd v" and i: "i = scan_used (v_fds v) (nat (v_lowest_free_fd v))" "i < MAX_FD"
    and v': "v' = v\<lparr>v_lowest_free_fd := int (scan_used (v_fds v) (i + 1))\<rparr>"
    using assms(3) by (auto simp: vfs_get_free_fd_def Let_def split: if_splits)
  have n: "nat (v_lowest_free_fd v) \<le> length (v_fds v)" "i + 1 \<le> length (v_fds v)" using assms(1,2) i(2) by auto
  show ?thesis
    using scan_used_spec(1,4) [OF n(1)] scan_used_spec(1,2) [OF n(2)] i v' assms(1) lo Some
    by (intro exI [of _ "int (scan_used (v_fds v) (i + 1))"]) auto
qed

lemma fd_inv_vfs:
  "fd_inv k \<Longrightarrow> fds_ok (fds_of k) (k_next_obj k) (v_fds v) \<Longrightarrow> v_lowest_free_fd v \<le> int MAX_FD \<Longrightarrow> fd_inv (k\<lparr>k_vfs := v\<rparr>)"
  by (simp add: fd_inv_def)

lemma proc_dup_inv:
  assumes "fd_inv k" and "a < k_next_obj k" and "proc_dup a oldfd k = Inr (r, k')"
  shows "fd_inv k' \<and> k_next_obj k' = k_next_obj k"
  using proc_to_sys_fd_inv [OF assms(1,2), of oldfd]
proof (elim disjE exE conjE)
  fix s d assume s: "proc_to_sys_fd a oldfd k = Inr (Some s)" "s < MAX_FD"
  then obtain r1 k1 where g: "proc_get_free_fd a k = Inr (r1, k1)" using assms(3) by (auto simp: proc_dup_def res_elims)
  note gi = proc_get_free_fd_inv [OF assms(1) g]
  show ?thesis
  proof (cases r1)
    case None
    then show ?thesis using assms(3) s g gi by (simp add: proc_dup_def)
  next
    case (Some l)
    then have "install_fd a l s False k1 = Inr k'" using assms(3) s g by (auto simp: proc_dup_def res_elims)
    then show ?thesis
      using install_fd_inv [OF conjunct1 [OF gi], of a l s] gi Some assms(2) s(2) by (metis (no_types, lifting))
  qed
qed (use assms in \<open>simp add: proc_dup_def\<close>)

lemma proc_dup2_inv:
  assumes "fd_inv k" and "a < k_next_obj k" and "proc_dup2 a oldfd newfd k = Inr (r, k')"
  shows "fd_inv k' \<and> k_next_obj k' = k_next_obj k"
  using proc_to_sys_fd_inv [OF assms(1,2), of oldfd]
proof (elim disjE exE conjE)
  fix s d assume s: "proc_to_sys_fd a oldfd k = Inr (Some s)" "s < MAX_FD"
  show ?thesis
  proof (cases "oldfd = newfd")
    case True
    then show ?thesis using assms s by (simp add: proc_dup2_def)
  next
    case False
    then have nf: "0 \<le> newfd" "newfd < int MAX_FD_PER_PROCESS" "nat newfd < MAX_FD_PER_PROCESS"
      using assms(3) s(1) by (auto simp: proc_dup2_def nat_less_iff split: if_splits)
    then obtain k1 k2 where k1: "(if p_fds (k_objs k a) ! nat newfd \<noteq> None then bind_res (proc_close a newfd k) (\<lambda>(_, k1). Inr k1) else Inr k) = Inr k1"
        and k2: "install_fd a (nat newfd) s False k1 = Inr k2"
        and k': "k' = upd_obj a (\<lambda>p. p\<lparr>p_lowest_free_fd := scan_used (p_fds p) (p_lowest_free_fd p)\<rparr>) k2"
      using assms(3) s(1) False by (auto simp: proc_dup2_def res_elims split del: if_split)
    have i1: "fd_inv k1 \<and> k_next_obj k1 = k_next_obj k \<and> p_fds (k_objs k1 a) ! nat newfd = None"
    proof (cases "p_fds (k_objs k a) ! nat newfd")
      case None
      then show ?thesis using k1 assms(1) by simp
    next
      case (Some d)
      then obtain r1 where "proc_close a newfd k = Inr (r1, k1)" using k1 by (auto simp: res_elims)
      from proc_close_inv [OF assms(1,2) this] show ?thesis using Some nf by simp
    qed
    then have "fd_inv k2 \<and> k_next_obj k2 = k_next_obj k1" using install_fd_inv [OF _ _ nf(3) _ s(2) k2] assms(2) by simp
    then show ?thesis using fd_inv_upd [of k2] i1 by (simp add: k')
  qed
qed (use assms in \<open>simp add: proc_dup2_def\<close>)

lemma vfs_pipe_table:
  assumes "fds_ok F n (v_fds v)" and "v_lowest_free_fd v \<le> int MAX_FD" and "vfs_pipe v = (r, v')"
  shows "fds_ok F n (v_fds v') \<and> v_lowest_free_fd v' \<le> int MAX_FD \<and> (\<forall>rfd wfd. r = Inr (rfd, wfd) \<longrightarrow> rfd < MAX_FD \<and> wfd < MAX_FD)"
proof -
  have len: "length (v_fds v) = MAX_FD" by (rule fds_okD(1) [OF assms(1)])
  obtain r1 v1 where g1: "vfs_get_free_fd v = (r1, v1)" by fastforce
  obtain l1 where l1: "v1 = v\<lparr>v_lowest_free_fd := l1\<rparr>" "l1 \<le> int MAX_FD"
      "\<And>i. r1 = Some i \<Longrightarrow> i < MAX_FD \<and> v_fds v ! i = None \<and> int i < l1"
    using vfs_get_free_fd_slot [OF len assms(2) g1] by blast
  obtain r2 v2 where g2: "vfs_get_free_fd v1 = (r2, v2)" by fastforce
  obtain l2 where l2: "v2 = v\<lparr>v_lowest_free_fd := l2\<rparr>" "l2 \<le> int MAX_FD"
      "\<And>i. r2 = Some i \<Longrightarrow> i < MAX_FD \<and> v_fds v ! i = None \<and> l1 \<le> int i"
    using vfs_get_free_fd_slot [OF _ _ g2] l1(1,2) len by auto
  show ?thesis
  proof (cases r1)
    case None
    then show ?thesis using assms g1 l1 by (auto simp: vfs_pipe_def)
  next
    case (Some rfd)
    show ?thesis
    proof (cases r2)
      case None
      then show ?thesis using assms(1,3) g1 g2 l2(1,2) Some by (auto simp: vfs_pipe_def)
    next
      case wfd: (Some wfd)
      let ?T = "(v_fds v)[rfd := Some \<lparr>f_fd = rfd, f_flags = 0, f_offset = 0, f_rc = 0, f_kind = FPipe ReadEnd (Some wfd) (v_next_buf v)\<rparr>]"
      have ne: "rfd \<noteq> wfd" "rfd < MAX_FD" "wfd < MAX_FD" "v_fds v ! rfd = None" "v_fds v ! wfd = None"
        using l1(3) [OF Some] l2(3) [OF wfd] by auto
      have "fds_ok F n ?T" using ne by (intro fds_ok_new_file [OF assms(1)]) simp_all
      moreover have "?T ! wfd = None" using ne by simp
      ultimately have "fds_ok F n (?T[wfd := Some \<lparr>f_fd = wfd, f_flags = 0, f_offset = 0, f_rc = 0, f_kind = FPipe WriteEnd (Some rfd) (v_next_buf v)\<rparr>])"
        using ne(3) by - (rule fds_ok_new_file, simp_all)
      moreover have "v_fds v' = ?T[wfd := Some \<lparr>f_fd = wfd, f_flags = 0, f_offset = 0, f_rc = 0, f_kind = FPipe WriteEnd (Some rfd) (v_next_buf v)\<rparr>]"
          "v_lowest_free_fd v' = l2" "r = Inr (rfd, wfd)"
        using assms(3) g1 g2 Some wfd l2(1) by (auto simp: vfs_pipe_def create_pipe_def Let_def)
      ultimately show ?thesis using l2(2) ne by simp
    qed
  qed
qed

lemma proc_pipe_inv:
  assumes "fd_inv k" and "a < k_next_obj k" and "proc_pipe a k = Inr (r, k')"
  shows "fd_inv k' \<and> k_next_obj k' = k_next_obj k"
proof -
  obtain r1 k1 where g1: "proc_get_free_fd a k = Inr (r1, k1)" using assms(3) by (auto simp: proc_pipe_def res_elims)
  note i1 = proc_get_free_fd_inv [OF assms(1) g1]
  show ?thesis
  proof (cases r1)
    case None
    then show ?thesis using assms(3) g1 i1 by (simp add: proc_pipe_def)
  next
    case (Some rfd)
    obtain r2 k2 where g2: "proc_get_free_fd a k1 = Inr (r2, k2)" using assms(3) g1 Some by (auto simp: proc_pipe_def res_elims)
    note i2 = proc_get_free_fd_inv [OF conjunct1 [OF i1] g2]
    have rfd: "rfd < MAX_FD_PER_PROCESS" "p_fds (k_objs k2 a) ! rfd = None" "a < k_next_obj k2" "k_next_obj k2 = k_next_obj k"
      using i1 i2 Some assms(2) by (auto simp: fun_eq_iff)
    show ?thesis
    proof (cases r2)
      case None
      then have "release_fd a rfd k2 = Inr k'" using assms(3) g1 g2 Some by (auto simp: proc_pipe_def res_elims)
      then show ?thesis using release_fd_inv [OF conjunct1 [OF i2] rfd(3,1)] rfd(4) by simp
    next
      case wfd: (Some wfd)
      obtain o1 v1 where v1: "vfs_pipe (k_vfs k2) = (o1, v1)" by fastforce
      have vt: "fds_ok (fds_of k2) (k_next_obj k2) (v_fds v1) \<and> v_lowest_free_fd v1 \<le> int MAX_FD \<and>
          (\<forall>x y. o1 = Inr (x, y) \<longrightarrow> x < MAX_FD \<and> y < MAX_FD)"
      proof -
        from conjunct1 [OF i2] have "fds_ok (fds_of k2) (k_next_obj k2) (v_fds (k_vfs k2))" and "v_lowest_free_fd (k_vfs k2) \<le> int MAX_FD"
          unfolding fd_inv_def by blast+
        then show ?thesis by (rule vfs_pipe_table [OF _ _ v1])
      qed
      let ?k3 = "k2\<lparr>k_vfs := v1\<rparr>"
      have k3: "fd_inv ?k3" using vt by (simp add: fd_inv_def)
      have w: "wfd < MAX_FD_PER_PROCESS" "p_fds (k_objs k2 a) ! wfd = None" "rfd \<noteq> wfd"
        using i1 i2 wfd Some lowest_after [OF g1 [unfolded Some] g2 [unfolded wfd]] by (auto simp: fun_eq_iff)
      show ?thesis
      proof (cases o1)
        case (Inl e)
        then obtain k4 where k4: "release_fd a rfd ?k3 = Inr k4" "release_fd a wfd k4 = Inr k'"
          using assms(3) g1 g2 Some wfd v1 by (auto simp: proc_pipe_def res_elims)
        note x = release_fd_inv [OF k3 _ rfd(1) k4(1)]
        show ?thesis using release_fd_inv [OF conjunct1 [OF x] _ w(1) k4(2)] x rfd(3,4) by simp
      next
        case (Inr p)
        obtain sr sw where p: "p = (sr, sw)" by fastforce
        then obtain k4 where k4: "install_fd a rfd sr False ?k3 = Inr k4" "install_fd a wfd sw False k4 = Inr k'"
          using assms(3) g1 g2 Some wfd v1 Inr by (auto simp: proc_pipe_def res_elims)
        have s: "sr < MAX_FD" "sw < MAX_FD" using vt Inr p by auto
        note x = install_fd_inv [OF k3 _ rfd(1) _ s(1) k4(1)]
        have "p_fds (k_objs k4 a) = (p_fds (k_objs k2 a))[rfd := Some \<lparr>fd_fd = rfd, fd_sys_fd = sr, fd_clo_exec = False\<rparr>]"
          using k4(1) by (auto simp: install_fd_def new_file_descriptor_def add_rc_def set_fd_def res_elims split: option.splits)
        then have "p_fds (k_objs k4 a) ! wfd = None" using w(2,3) by simp
        then show ?thesis using install_fd_inv [OF conjunct1 [OF x] _ w(1) _ s(2) k4(2)] x rfd(2-4) by simp
      qed
    qed
  qed
qed

text \<open>Creating a file leaves the table of open files alone, as \<^verbatim>\<open>VFS::touch\<close> does.\<close>

definition keeps_table :: "fs_ops \<Rightarrow> bool" where
  "keeps_table fs \<longleftrightarrow> (\<forall>path v d v'. fs_touch fs path v = Some (d, v') \<longrightarrow>
     v_fds v' = v_fds v \<and> v_lowest_free_fd v' = v_lowest_free_fd v)"

lemma open_found_table:
  assumes "open_found abi fs i fl d v = (r, v')"
  shows "v_lowest_free_fd v' \<le> v_lowest_free_fd v \<and>
    (case r of Inl e \<Rightarrow> v_fds v' = v_fds v
     | Inr s \<Rightarrow> s = i \<and> v_fds v' = (v_fds v)[i := Some \<lparr>f_fd = i, f_flags = fl, f_offset = 0, f_rc = 0, f_kind = FFile d\<rparr>])"
  using assms
  by (auto simp: open_found_def open_failed_def vfs_resize_def set_inode_size_def Let_def
      split: if_splits option.splits sum.splits)

lemma open_file_table:
  assumes "fds_ok F n (v_fds v)" and "v_lowest_free_fd v \<le> int MAX_FD" and "keeps_table fs"
    and "open_file abi fs path fl wd v = (r, v')"
  shows "fds_ok F n (v_fds v') \<and> v_lowest_free_fd v' \<le> int MAX_FD \<and> (\<forall>s. r = Inr s \<longrightarrow> s < MAX_FD)"
proof -
  have len: "length (v_fds v) = MAX_FD" by (rule fds_okD(1) [OF assms(1)])
  obtain q v1 where g: "vfs_get_free_fd v = (q, v1)" by fastforce
  obtain l where l: "v1 = v\<lparr>v_lowest_free_fd := l\<rparr>" "l \<le> int MAX_FD"
      "\<And>i. q = Some i \<Longrightarrow> i < MAX_FD \<and> v_fds v ! i = None \<and> int i < l"
    using vfs_get_free_fd_slot [OF len assms(2) g] by blast
  have found: ?thesis if "q = Some i" "open_found abi fs i fl d v2 = (r, v')" "v_fds v2 = v_fds v" "v_lowest_free_fd v2 = l" for i d v2
    using open_found_table [OF that(2)] that(1,3,4) l(2,3) assms(1) fds_ok_new_file [OF assms(1), of i]
    by (auto split: sum.splits)
  show ?thesis
  proof (cases q)
    case None
    then show ?thesis using assms g l by (auto simp: open_file_def open_failed_def)
  next
    case (Some i)
    consider (failed) j e where "open_failed j e v1 = (r, v')" | (here) d where "open_found abi fs i fl d v1 = (r, v')"
      | (touched) d v2 where "fs_touch fs path v1 = Some (d, v2)" "open_found abi fs i fl d v2 = (r, v')"
      using assms(4) g Some by (auto simp: open_file_def Let_def split: if_splits option.splits)
    then show ?thesis
    proof cases
      case failed
      then show ?thesis using assms(1) l by (auto simp: open_failed_def)
    next
      case here
      show ?thesis by (rule found [OF Some here]) (simp_all add: l(1))
    next
      case touched
      then show ?thesis using found [OF Some touched(2)] assms(3) l(1) by (auto simp: keeps_table_def)
    qed
  qed
qed

lemma proc_open_inv:
  assumes "fd_inv k" and "a < k_next_obj k" and "keeps_table fs" and "proc_open abi fs a path fl k = Inr (r, k')"
  shows "fd_inv k' \<and> k_next_obj k' = k_next_obj k"
proof -
  obtain r1 k1 where g1: "proc_get_free_fd a k = Inr (r1, k1)" using assms(4) by (auto simp: proc_open_def res_elims)
  note i1 = proc_get_free_fd_inv [OF assms(1) g1]
  show ?thesis
  proof (cases r1)
    case None
    then show ?thesis using assms(4) g1 i1 by (simp add: proc_open_def)
  next
    case (Some fd)
    have fd: "fd < MAX_FD_PER_PROCESS" "p_fds (k_objs k1 a) ! fd = None" "a < k_next_obj k1" "k_next_obj k1 = k_next_obj k"
      using i1 Some assms(2) by (auto simp: fun_eq_iff)
    obtain o1 v1 where v1: "open_file abi fs path fl (p_work_dir (k_objs k1 a)) (k_vfs k1) = (o1, v1)" by fastforce
    have vt: "fds_ok (fds_of k1) (k_next_obj k1) (v_fds v1) \<and> v_lowest_free_fd v1 \<le> int MAX_FD \<and> (\<forall>s. o1 = Inr s \<longrightarrow> s < MAX_FD)"
    proof -
      from conjunct1 [OF i1] have "fds_ok (fds_of k1) (k_next_obj k1) (v_fds (k_vfs k1))" and "v_lowest_free_fd (k_vfs k1) \<le> int MAX_FD"
        unfolding fd_inv_def by blast+
      then show ?thesis by (rule open_file_table [OF _ _ assms(3) v1])
    qed
    then have k2: "fd_inv (k1\<lparr>k_vfs := v1\<rparr>)" by (simp add: fd_inv_def)
    show ?thesis
    proof (cases o1)
      case (Inl e)
      then have "release_fd a fd (k1\<lparr>k_vfs := v1\<rparr>) = Inr k'" using assms(4) g1 Some v1 by (auto simp: proc_open_def res_elims)
      from release_fd_inv [OF k2 _ fd(1) this] show ?thesis using fd(3,4) by simp
    next
      case (Inr s)
      then have "install_fd a fd s False (k1\<lparr>k_vfs := v1\<rparr>) = Inr k'" using assms(4) g1 Some v1 by (auto simp: proc_open_def res_elims)
      from install_fd_inv [OF k2 _ fd(1) _ _ this] show ?thesis using fd(2-4) vt Inr by simp
    qed
  qed
qed

text \<open>Reading, writing and seeking change neither the numbers nor the counts of open files.\<close>

definition same_table :: "vfs \<Rightarrow> vfs \<Rightarrow> bool" where
  "same_table v v' \<longleftrightarrow> length (v_fds v') = length (v_fds v) \<and> v_lowest_free_fd v' = v_lowest_free_fd v \<and>
     (\<forall>s. rel_option (\<lambda>f f'. f_fd f' = f_fd f \<and> f_rc f' = f_rc f) (v_fds v ! s) (v_fds v' ! s))"

lemma same_table_refl: "v_fds v' = v_fds v \<Longrightarrow> v_lowest_free_fd v' = v_lowest_free_fd v \<Longrightarrow> same_table v v'"
  by (simp add: same_table_def option.rel_refl)

lemma same_table_put:
  assumes "v_fds v ! s = Some f" and "f_fd f' = f_fd f" and "f_rc f' = f_rc f" and "v_fds v1 = v_fds v" and "v_lowest_free_fd v1 = v_lowest_free_fd v"
  shows "same_table v (put_file s f' v1)"
  using rel_put_file [of v1 s f f'] assms by (simp add: same_table_def)

lemma same_table_inv: "fd_inv k \<Longrightarrow> same_table (k_vfs k) v \<Longrightarrow> fd_inv (k\<lparr>k_vfs := v\<rparr>)"
  using fds_ok_table [of "fds_of k" "k_next_obj k" "v_fds (k_vfs k)" "v_fds v"] by (simp add: fd_inv_def same_table_def)

lemma iface_read_table:
  assumes "v_fds v ! s = Some f" and "f_fd f = s" and "iface_read fs f n v = Inr (r, v')"
  shows "same_table v v'"
proof (cases "f_kind f")
  case (FFile d)
  then obtain f' where "v' = put_file s f' v" "f_fd f' = f_fd f" "f_rc f' = f_rc f"
    using assms(2,3) by (auto simp: iface_read_def file_read_def preload_read_def Let_def res_elims split: if_splits option.splits)
  then show ?thesis using same_table_put [OF assms(1)] by simp
qed (use assms in \<open>auto simp: iface_read_def pipe_read_def intro!: same_table_refl split: if_splits prod.splits\<close>)

lemma iface_write_table:
  assumes "v_fds v ! s = Some f" and "f_fd f = s" and "iface_write abi fs f buf v = Inr (r, v')"
  shows "same_table v v'"
proof (cases "f_kind f")
  case (FFile d)
  then obtain f' v1 where "v' = put_file s f' v1" "f_fd f' = f_fd f" "f_rc f' = f_rc f" "v_fds v1 = v_fds v" "v_lowest_free_fd v1 = v_lowest_free_fd v"
    using assms(2,3) by (auto simp: iface_write_def file_write_def set_inode_size_def Let_def res_elims split: if_splits option.splits)
  then show ?thesis using same_table_put [OF assms(1)] by simp
qed (use assms in \<open>auto simp: iface_write_def pipe_write_def res_elims intro!: same_table_refl split: if_splits\<close>)

lemma proc_lseek_inv:
  assumes "fd_inv k" and "a < k_next_obj k" and "proc_lseek a fd off wh k = Inr (r, k')"
  shows "fd_inv k' \<and> k_next_obj k' = k_next_obj k"
  using proc_to_sys_fd_inv [OF assms(1,2), of fd]
proof (elim disjE exE conjE)
  fix s d assume s: "proc_to_sys_fd a fd k = Inr (Some s)" "s < MAX_FD" "v_fds (k_vfs k) ! s \<noteq> None"
  then obtain f where f: "v_fds (k_vfs k) ! s = Some f" by auto
  then have "f_fd f = s" using assms(1) s(2) fds_okD(4) by (auto simp: fd_inv_def)
  have "same_table (k_vfs k) (snd (vfs_lseek s off wh (k_vfs k)))"
  proof (cases "f_kind f")
    case (FFile d)
    obtain r1 f' where l: "file_lseek d off wh f (k_vfs k) = (r1, f')" by fastforce
    then have "f_fd f' = f_fd f" "f_rc f' = f_rc f" by (auto simp: file_lseek_def Let_def split: if_splits)
    then show ?thesis using same_table_put [OF f] FFile l f \<open>f_fd f = s\<close> by (simp add: vfs_lseek_def iface_lseek_def)
  qed (use f in \<open>simp_all add: vfs_lseek_def iface_lseek_def same_table_refl\<close>)
  then show ?thesis using assms(3) s(1) same_table_inv [OF assms(1)] by (auto simp: proc_lseek_def split: prod.splits)
qed (use assms in \<open>auto simp: proc_lseek_def\<close>)

lemma proc_read_inv:
  assumes "fd_inv k" and "a < k_next_obj k" and "proc_read fs a fd n k = Inr (r, k')"
  shows "fd_inv k' \<and> k_next_obj k' = k_next_obj k"
  using proc_to_sys_fd_inv [OF assms(1,2), of fd]
proof (elim disjE exE conjE)
  fix s d assume s: "proc_to_sys_fd a fd k = Inr (Some s)" "s < MAX_FD" "v_fds (k_vfs k) ! s \<noteq> None"
  then obtain f where f: "v_fds (k_vfs k) ! s = Some f" by auto
  have fs: "f_fd f = s" using assms(1) s(2) f fds_okD(4) by (auto simp: fd_inv_def)
  obtain r1 v where v: "iface_read fs f n (k_vfs k) = Inr (r1, v)" using assms(3) s(1) f by (auto simp: proc_read_def vfs_read_def res_elims)
  have i: "fd_inv (k\<lparr>k_vfs := v\<rparr>)" by (rule same_table_inv [OF assms(1) iface_read_table [OF f fs v]])
  have "k' = k\<lparr>k_vfs := v\<rparr> \<or> (\<exists>pid wfd. do_read_wait pid wfd n (k\<lparr>k_vfs := v\<rparr>) = Inr k')"
    using assms(3) s(1) f v by (auto simp: proc_read_def vfs_read_def Let_def res_elims split: if_splits option.splits)
  then show ?thesis
  proof (elim disjE exE)
    fix pid wfd assume "do_read_wait pid wfd n (k\<lparr>k_vfs := v\<rparr>) = Inr k'"
    then obtain b ws where "k' = upd_obj b (set_flag P_WAITING_READ) (k\<lparr>k_vfs := v, k_read_waiters := ws\<rparr>)"
      by (auto simp: do_read_wait_def Let_def res_elims)
    then show ?thesis using fd_inv_cong [OF i, of k'] by (auto simp: fun_eq_iff)
  qed (use i in simp)
qed (use assms in \<open>auto simp: proc_read_def\<close>)

lemma kill_fds: "kill abi s p = Inr (r, p') \<Longrightarrow> p_fds p' = p_fds p"
  by (auto simp: kill_def kill_supported_def terminate_with_signal_def set_flag_def Let_def res_elims split: if_splits)

lemma proc_write_inv:
  assumes "fd_inv k" and "a < k_next_obj k" and "proc_write sabi abi fs a fd buf k = Inr (r, k')"
  shows "fd_inv k' \<and> k_next_obj k' = k_next_obj k"
  using proc_to_sys_fd_inv [OF assms(1,2), of fd]
proof (elim disjE exE conjE)
  fix s d assume s: "proc_to_sys_fd a fd k = Inr (Some s)" "s < MAX_FD" "v_fds (k_vfs k) ! s \<noteq> None"
  then obtain f where f: "v_fds (k_vfs k) ! s = Some f" by auto
  have fs: "f_fd f = s" using assms(1) s(2) f fds_okD(4) by (auto simp: fd_inv_def)
  obtain r1 v where v: "iface_write abi fs f buf (k_vfs k) = Inr (r1, v)"
    using assms(3) s(1) f by (auto simp: proc_write_def vfs_write_def res_elims)
  let ?k1 = "k\<lparr>k_vfs := v\<rparr>"
  have i: "fd_inv ?k1" by (rule same_table_inv [OF assms(1) iface_write_table [OF f fs v]])
  obtain k2 where k2: "(if r1 = Inl EPIPE then bind_res (get_running_process ?k1) (\<lambda>r. case r of None \<Rightarrow> Inl NullDeref
        | Some a \<Rightarrow> bind_res (kill sabi (SIGPIPE sabi) (k_objs ?k1 a)) (\<lambda>(_, p). Inr (upd_obj a (\<lambda>_. p) ?k1))) else Inr ?k1) = Inr k2"
      and k': "k' = k2 \<or> (\<exists>rfd m. wake_up_read_waiting_processes s rfd m k2 = Inr k')"
    using assms(3) s(1) f v by (auto simp: proc_write_def vfs_write_def Let_def res_elims split: if_splits option.splits sum.splits)
  have "k2 = ?k1 \<or> (\<exists>b st p. kill sabi (SIGPIPE sabi) (k_objs k b) = Inr (st, p) \<and> k2 = upd_obj b (\<lambda>_. p) ?k1)"
    using k2 by (fastforce simp: res_elims split: if_splits option.splits)
  then have e2: "fds_of k2 = fds_of ?k1" "k_next_obj k2 = k_next_obj ?k1" "k_vfs k2 = k_vfs ?k1"
    using kill_fds by (auto simp: fun_eq_iff upd_obj_def) 
  have "fds_of k' = fds_of ?k1" "k_next_obj k' = k_next_obj ?k1" "k_vfs k' = k_vfs ?k1"
    using k' e2 wake_up_fds by (auto simp del: kernel.simps) 
  then show ?thesis using fd_inv_cong [OF i] by auto
qed (use assms in \<open>auto simp: proc_write_def\<close>)

lemma close_all_fds_inv:
  assumes "fd_inv k" and "a < k_next_obj k" and "close_all_fds a k = Inr k'"
  shows "fd_inv k' \<and> k_next_obj k' = k_next_obj k"
  using assms(3) unfolding close_all_fds_def
proof (rule for_n_invariant [where P = "\<lambda>_ k1. fd_inv k1 \<and> k_next_obj k1 = k_next_obj k"])
  fix j k1 k2
  assume i: "fd_inv k1 \<and> k_next_obj k1 = k_next_obj k" and b: "(case p_fds (k_objs k1 a) ! j of None \<Rightarrow> Inr k1
    | Some d \<Rightarrow> bind_res (proc_close a (int (fd_fd d)) k1) (\<lambda>(_, k1). Inr k1)) = Inr k2"
  from b have "k2 = k1 \<or> (\<exists>fd r. proc_close a fd k1 = Inr (r, k2))" by (auto simp: res_elims split: option.splits)
  then show "fd_inv k2 \<and> k_next_obj k2 = k_next_obj k"
  proof (elim disjE exE)
    fix fd r assume "proc_close a fd k1 = Inr (r, k2)"
    from proc_close_inv [OF _ _ this] show ?thesis using i assms(2) by simp
  qed (use i in simp)
qed (use assms(1) in simp)

section \<open>Every sequence of calls\<close>

text \<open>
  One system call on descriptors by a process that exists, from whatever state the processes before it
  left; a call that faults has no successor. \<open>CallExit\<close> is the closing of all descriptors at the end
  of a process.
\<close>

inductive fd_call :: "sig_abi \<Rightarrow> open_abi \<Rightarrow> fs_ops \<Rightarrow> kernel \<Rightarrow> kernel \<Rightarrow> bool" for sabi abi fs where
  CallOpen: "a < k_next_obj k \<Longrightarrow> proc_open abi fs a path fl k = Inr (r, k') \<Longrightarrow> fd_call sabi abi fs k k'"
| CallDup: "a < k_next_obj k \<Longrightarrow> proc_dup a fd k = Inr (r, k') \<Longrightarrow> fd_call sabi abi fs k k'"
| CallDup2: "a < k_next_obj k \<Longrightarrow> proc_dup2 a fd fd' k = Inr (r, k') \<Longrightarrow> fd_call sabi abi fs k k'"
| CallPipe: "a < k_next_obj k \<Longrightarrow> proc_pipe a k = Inr (rp, k') \<Longrightarrow> fd_call sabi abi fs k k'"
| CallClose: "a < k_next_obj k \<Longrightarrow> proc_close a fd k = Inr (r, k') \<Longrightarrow> fd_call sabi abi fs k k'"
| CallRead: "a < k_next_obj k \<Longrightarrow> proc_read fs a fd n k = Inr (rb, k') \<Longrightarrow> fd_call sabi abi fs k k'"
| CallWrite: "a < k_next_obj k \<Longrightarrow> proc_write sabi abi fs a fd buf k = Inr (r, k') \<Longrightarrow> fd_call sabi abi fs k k'"
| CallSeek: "a < k_next_obj k \<Longrightarrow> proc_lseek a fd off wh k = Inr (ri, k') \<Longrightarrow> fd_call sabi abi fs k k'"
| CallExit: "a < k_next_obj k \<Longrightarrow> close_all_fds a k = Inr k' \<Longrightarrow> fd_call sabi abi fs k k'"

lemma fd_call_inv:
  assumes "fd_call sabi abi fs k k'" and "keeps_table fs" and "fd_inv k"
  shows "fd_inv k' \<and> k_next_obj k' = k_next_obj k"
  using assms(1)
proof cases
  case CallOpen
  then show ?thesis using proc_open_inv [OF assms(3) _ assms(2)] by blast
next
  case CallDup
  then show ?thesis using proc_dup_inv [OF assms(3)] by blast
next
  case CallDup2
  then show ?thesis using proc_dup2_inv [OF assms(3)] by blast
next
  case CallPipe
  then show ?thesis using proc_pipe_inv [OF assms(3)] by blast
next
  case CallClose
  then show ?thesis using proc_close_inv [OF assms(3)] by blast
next
  case CallRead
  then show ?thesis using proc_read_inv [OF assms(3)] by blast
next
  case CallWrite
  then show ?thesis using proc_write_inv [OF assms(3)] by blast
next
  case CallSeek
  then show ?thesis using proc_lseek_inv [OF assms(3)] by blast
next
  case CallExit
  then show ?thesis using close_all_fds_inv [OF assms(3)] by blast
qed

lemma fd_calls_inv:
  assumes "(fd_call sabi abi fs)\<^sup>*\<^sup>* k k'" and "keeps_table fs" and "fd_inv k"
  shows "fd_inv k' \<and> k_next_obj k' = k_next_obj k"
  using assms(1)
proof (induction rule: rtranclp_induct)
  case (step k1 k2)
  then show ?case using fd_call_inv [OF step(2) assms(2)] by simp
qed (use assms(3) in simp)

text \<open>
  C2. Descriptors and open files agree. Whatever sequence of \<open>open\<close>, \<open>dup\<close>, \<open>dup2\<close>, \<open>pipe\<close>, \<open>close\<close>, \<open>read\<close>,
  \<open>write\<close> and \<open>lseek\<close> calls and of process ends the processes run, the count of every open file is
  the number of descriptors, over all processes, that refer to it, and no lookup of a
  descriptor finds a file that is gone, which would stop the kernel.
\<close>
theorem descriptors_counted:
  assumes "(fd_call sabi abi fs)\<^sup>*\<^sup>* k k'" and "keeps_table fs" and "fd_inv k"
  shows "(\<forall>s<MAX_FD. \<forall>f. v_fds (k_vfs k') ! s = Some f \<longrightarrow> f_rc f = int (refs k' s)) \<and>
    (\<forall>a<k_next_obj k. \<forall>fd. \<exists>r. proc_to_sys_fd a fd k' = Inr r)"
proof -
  have i: "fd_inv k'" "k_next_obj k' = k_next_obj k" using fd_calls_inv [OF assms] by simp_all
  then have "fds_ok (fds_of k') (k_next_obj k') (v_fds (k_vfs k'))" by (simp add: fd_inv_def)
  from fds_okD(4) [OF this] have "\<forall>s<MAX_FD. \<forall>f. v_fds (k_vfs k') ! s = Some f \<longrightarrow> f_rc f = int (refs k' s)"
    by (simp add: refs_def)
  moreover have "\<exists>r. proc_to_sys_fd a fd k' = Inr r" if "a < k_next_obj k" for a fd
    using proc_to_sys_fd_inv [OF i(1), of a fd] i(2) that by auto
  ultimately show ?thesis by blast
qed

theorem descriptors_counted_witness:
  "\<exists>k1 k2 f. proc_pipe 1 (demo_kernel (\<lambda>a. blank_process) [] []) = Inr (Inr (0, 1), k1) \<and> proc_dup 1 0 k1 = Inr (Inr 2, k2) \<and>
     v_fds (k_vfs k2) ! 0 = Some f \<and> f_rc f = int (refs k2 0) \<and> f_rc f = 2"
proof -
  let ?k = "demo_kernel (\<lambda>a. blank_process) [] []"
  let ?D = "\<lambda>i. Some \<lparr>fd_fd = i, fd_sys_fd = i, fd_clo_exec = False\<rparr>"
  have su: "scan_used (replicate n None) i = i" for n i :: nat by (subst scan_used.simps) auto
  obtain k1 where k1: "proc_pipe 1 ?k = Inr (Inr (0, 1), k1)"
      and o1: "p_lowest_free_fd (k_objs k1 1) = 2" "p_fds (k_objs k1 1) = (replicate MAX_FD_PER_PROCESS None)[0 := ?D 0, 1 := ?D 1]"
      and n1: "k_next_obj k1 = 3" and v1: "v_fds (k_vfs k1) = (replicate MAX_FD None)[0 := Some 
         \<lparr>f_fd = 0, f_flags = 0, f_offset = 0, f_rc = 1, f_kind = FPipe ReadEnd (Some 1) 0\<rparr>,
         1 := Some \<lparr>f_fd = 1, f_flags = 0, f_offset = 0, f_rc = 1, f_kind = FPipe WriteEnd (Some 0) 0\<rparr>]"
    by (simp add: proc_pipe_def proc_get_free_fd_def demo_kernel_def blank_process_def su vfs_pipe_def vfs_get_free_fd_def demo_vfs_def
       create_pipe_def install_fd_def new_file_descriptor_def add_rc_def put_file_def set_fd_def upd_obj_def Let_def list_update_swap [of 0 "Suc 0"])
  obtain k2 f where k2: "proc_dup 1 0 k1 = Inr (Inr 2, k2)" and f: "v_fds (k_vfs k2) ! 0 = Some f" "f_rc f = 2"
    using o1 v1 by (simp add: proc_dup_def proc_to_sys_fd_def proc_get_free_fd_def
       install_fd_def new_file_descriptor_def add_rc_def put_file_def set_fd_def upd_obj_def Let_def nth_list_update)
  have inv: "fd_inv ?k" 
    by (auto simp: fd_inv_def fds_ok_def demo_kernel_def demo_vfs_def blank_process_def)
  have kt: "keeps_table demo_fs" by (simp add: keeps_table_def demo_fs_def)
  have "fd_call demo_sig_abi demo_open_abi demo_fs ?k k1" by (rule CallPipe [OF _ k1]) (simp add: demo_kernel_def)
  moreover have "fd_call demo_sig_abi demo_open_abi demo_fs k1 k2" by (rule CallDup [OF _ k2]) (simp add: n1)
  ultimately have "(fd_call demo_sig_abi demo_open_abi demo_fs)\<^sup>*\<^sup>* ?k k2" by simp
  from descriptors_counted [OF this kt inv] f(1) have "f_rc f = int (refs k2 0)" by simp
  then show ?thesis using k1 k2 f by blast
qed

section \<open>Waking up the reader of a pipe\<close>

text \<open>What a write of \<open>n\<close> bytes to the pipe makes of an entry, and when the request of the entry is complete by it.\<close>

definition credited :: "nat \<Rightarrow> nat \<Rightarrow> read_waiter \<Rightarrow> read_waiter" where
  "credited wfd n w = (if rw_fd w = wfd then w\<lparr>rw_read_so_far := min (rw_request w) (rw_read_so_far w + n)\<rparr> else w)"

definition complete :: "nat \<Rightarrow> nat \<Rightarrow> read_waiter \<Rightarrow> bool" where
  "complete wfd n w \<longleftrightarrow> rw_fd w = wfd \<and> rw_request w \<le> rw_read_so_far w + n"

lemma credited_keeps [simp]: "rw_pid (credited wfd n w) = rw_pid w" "rw_fd (credited wfd n w) = rw_fd w"
  by (simp_all add: credited_def)

lemma credited_pid [simp]: "rw_pid \<circ> credited wfd n = rw_pid"
  by (simp add: fun_eq_iff)

lemma scan_waiters_eq:
  assumes "f_kind f = FPipe ReadEnd (Some wfd) b" "\<forall>w \<in> set ws. rw_fd w = wfd \<longrightarrow> rw_read_so_far w \<le> rw_request w \<and> rw_request w < W32"
  shows "scan_waiters wfd n (Some f) ws = Inr (map (credited wfd n) ws, map (credited wfd n) (filter (complete wfd n) ws))"
  using assms(2)
proof (induction ws)
  case (Cons w ws)
  show ?case
  proof (cases "rw_fd w = wfd")
    case True
    then have "add32 (rw_read_so_far w) (min (sub32 (rw_request w) (rw_read_so_far w)) n) = min (rw_request w) (rw_read_so_far w + n)"
      using Cons.prems by (auto simp: sub32_eq add32_eq min_def)
    then show ?thesis using Cons True assms(1) by (auto simp: credited_def complete_def should_wait_for_data_on_read_def Let_def min_def)
  qed (use Cons in \<open>simp add: credited_def complete_def\<close>)
qed simp

lemma remove_waiter_eq:
  assumes "distinct (map rw_pid (l_head l))" "w \<in> set (l_head l)"
  shows "l_head (remove_waiter w l) = filter (\<lambda>x. rw_pid x \<noteq> rw_pid w) (l_head l)"
proof -
  have inj: "inj_on rw_pid (set (l_head l))" using assms(1) by (simp add: distinct_map)
  have "find (\<lambda>x. rw_pid x = rw_pid w \<and> rw_fd x = rw_fd w) (l_head l) \<noteq> None" using assms(2) by (auto simp: find_None_iff)
  then obtain x where x: "find (\<lambda>x. rw_pid x = rw_pid w \<and> rw_fd x = rw_fd w) (l_head l) = Some x" by blast
  then have "x \<in> set (l_head l)" "rw_pid x = rw_pid w" by (auto simp: find_Some_iff)
  then have "x = w" using inj assms(2) by (auto dest: inj_onD)
  then have "l_head (remove_waiter w l) = remove1 w (l_head l)" using x assms(2) by (simp add: remove_waiter_def list_remove_eq)
  also have "\<dots> = filter (\<lambda>x. x \<noteq> w) (l_head l)" using assms(1)
    by (simp add: distinct_remove1_removeAll removeAll_filter_not_eq distinct_map eq_commute)
  also have "\<dots> = filter (\<lambda>x. rw_pid x \<noteq> rw_pid w) (l_head l)" using inj assms(2) by (intro filter_cong) (auto dest: inj_onD)
  finally show ?thesis .
qed

lemma resume_waiters_eq:
  assumes "distinct (map rw_pid (l_head (k_read_waiters k)))" "set rs \<subseteq> set (l_head (k_read_waiters k))" "distinct rs"
    and "\<forall>w \<in> set rs. proc_at (rw_pid w) k = Inr (obj (rw_pid w)) \<and> p_pid (k_objs k (obj (rw_pid w))) = rw_pid w"
  shows "\<exists>k'. resume_waiters rs k = Inr k' \<and> l_head (k_read_waiters k') = filter (\<lambda>x. rw_pid x \<notin> rw_pid ` set rs) (l_head (k_read_waiters k)) \<and>
    k_ready k' = fold (\<lambda>p q. snd (enqueue MAX_PROCESSES p q)) (map rw_pid rs) (k_ready k) \<and>
    k_objs k' = (\<lambda>a. if a \<in> obj ` rw_pid ` set rs then clear_flag P_WAITING_READ (k_objs k a) else k_objs k a)"
  using assms
proof (induction rs arbitrary: k)
  case Nil
  then show ?case by simp
next
  case (Cons w rs)
  let ?a = "obj (rw_pid w)"
  let ?k1 = "k\<lparr>k_read_waiters := remove_waiter w (k_read_waiters k)\<rparr>"
  let ?k2 = "ready_enqueue (rw_pid w) (upd_obj ?a (clear_flag P_WAITING_READ) ?k1)"
  have head: "l_head (k_read_waiters ?k2) = filter (\<lambda>x. rw_pid x \<noteq> rw_pid w) (l_head (k_read_waiters k))"
    using remove_waiter_eq [OF Cons.prems(1)] Cons.prems(2) by (simp add: ready_enqueue_def upd_obj_def)
  have inj: "inj_on rw_pid (set (l_head (k_read_waiters k)))" using Cons.prems(1) by (simp add: distinct_map)
  have ne: "rw_pid v \<noteq> rw_pid w" if "v \<in> set rs" for v using that inj Cons.prems(2,3) by (auto dest: inj_onD)
  have proc: "proc_at p ?k2 = proc_at p k" "proc_at p ?k1 = proc_at p k" for p by (simp_all add: proc_at_def proc_slot_def ready_enqueue_def upd_obj_def)
  have pid: "p_pid (k_objs ?k2 a) = p_pid (k_objs k a)" for a by (simp add: ready_enqueue_def upd_obj_def clear_flag_def)
  have "\<exists>k'. resume_waiters rs ?k2 = Inr k' \<and> l_head (k_read_waiters k') = filter (\<lambda>x. rw_pid x \<notin> rw_pid ` set rs) (l_head (k_read_waiters ?k2)) \<and>
    k_ready k' = fold (\<lambda>p q. snd (enqueue MAX_PROCESSES p q)) (map rw_pid rs) (k_ready ?k2) \<and>
    k_objs k' = (\<lambda>a. if a \<in> obj ` rw_pid ` set rs then clear_flag P_WAITING_READ (k_objs ?k2 a) else k_objs ?k2 a)"
  proof (rule Cons.IH)
    show "distinct (map rw_pid (l_head (k_read_waiters ?k2)))" unfolding head using Cons.prems(1) by (simp add: distinct_map inj_on_def)
    show "set rs \<subseteq> set (l_head (k_read_waiters ?k2))" unfolding head using Cons.prems(2) ne by auto
    show "\<forall>v \<in> set rs. proc_at (rw_pid v) ?k2 = Inr (obj (rw_pid v)) \<and> p_pid (k_objs ?k2 (obj (rw_pid v))) = rw_pid v" unfolding proc pid using Cons.prems(4) by simp
  qed (use Cons.prems(3) in simp)
  then obtain k' where k': "resume_waiters rs ?k2 = Inr k'" "l_head (k_read_waiters k') = filter (\<lambda>x. rw_pid x \<notin> rw_pid ` set rs) (l_head (k_read_waiters ?k2))"
    "k_ready k' = fold (\<lambda>p q. snd (enqueue MAX_PROCESSES p q)) (map rw_pid rs) (k_ready ?k2)"
    "k_objs k' = (\<lambda>a. if a \<in> obj ` rw_pid ` set rs then clear_flag P_WAITING_READ (k_objs ?k2 a) else k_objs ?k2 a)" by blast
  have "p_pid (k_objs ?k1 ?a) = rw_pid w" using Cons.prems(4) by simp
  then have step: "resume_waiters (w # rs) k = Inr k'" using k'(1) Cons.prems(4) by (simp add: proc(2))
  have twice: "clear_flag fl (clear_flag fl p) = clear_flag fl p" for fl p by (simp add: clear_flag_def and.assoc)
  have "k_objs k' = (\<lambda>a. if a \<in> obj ` rw_pid ` set (w # rs) then clear_flag P_WAITING_READ (k_objs k a) else k_objs k a)"
    using k'(4) by (auto simp: ready_enqueue_def upd_obj_def fun_eq_iff twice)
  moreover have "l_head (k_read_waiters k') = filter (\<lambda>x. rw_pid x \<notin> rw_pid ` set (w # rs)) (l_head (k_read_waiters k))"
    unfolding k'(2) head filter_filter by (intro filter_cong) auto
  moreover have "k_ready k' = fold (\<lambda>p q. snd (enqueue MAX_PROCESSES p q)) (map rw_pid (w # rs)) (k_ready k)"
    unfolding k'(3) by (simp add: ready_enqueue_def upd_obj_def)
  ultimately show ?case using step by blast
qed

text \<open>
  C32. Readers that wait at a pipe are woken up when their whole request has been written, and not before. When \<open>n\<close> bytes are written to a pipe whose write end is open, each process
  that waits for it is given credit for them up to what it asked for; those whose request is complete are made ready in the order of the list, lose their waiting flag and
  leave the list; the others, and all processes that wait for another file, stay where they are. Every process waits for one file at most.
\<close>
theorem pipe_reader_wakes:
  assumes "ws = l_head (k_read_waiters k)" and "distinct (map rw_pid ws)" and "v_fds (k_vfs k) ! rfd = Some f" and "f_kind f = FPipe ReadEnd (Some wfd) b"
    and "\<forall>w \<in> set ws. rw_fd w = wfd \<longrightarrow> rw_read_so_far w \<le> rw_request w \<and> rw_request w < W32 \<and>
      proc_at (rw_pid w) k = Inr (obj (rw_pid w)) \<and> p_pid (k_objs k (obj (rw_pid w))) = rw_pid w"
  shows "\<exists>k'. wake_up_read_waiting_processes wfd rfd n k = Inr k' \<and>
    l_head (k_read_waiters k') = map (credited wfd n) (filter (\<lambda>w. \<not> complete wfd n w) ws) \<and>
    k_ready k' = fold (\<lambda>p q. snd (enqueue MAX_PROCESSES p q)) (map rw_pid (filter (complete wfd n) ws)) (k_ready k) \<and>
    (\<forall>a. k_objs k' a = (if \<exists>w \<in> set ws. complete wfd n w \<and> a = obj (rw_pid w) then clear_flag P_WAITING_READ (k_objs k a) else k_objs k a))"
proof -
  let ?rs = "map (credited wfd n) (filter (complete wfd n) ws)"
  let ?k1 = "k\<lparr>k_read_waiters := (k_read_waiters k)\<lparr>l_head := map (credited wfd n) ws\<rparr>\<rparr>"
  have pids: "map rw_pid (map (credited wfd n) xs) = map rw_pid xs" for xs by simp
  have proc: "proc_at p ?k1 = proc_at p k" for p by (simp add: proc_at_def proc_slot_def)
  have k1: "k_ready ?k1 = k_ready k" "k_objs ?k1 = k_objs k" "l_head (k_read_waiters ?k1) = map (credited wfd n) ws" by simp_all
  have "scan_waiters wfd n (v_fds (k_vfs k) ! rfd) ws = Inr (map (credited wfd n) ws, ?rs)"
    unfolding assms(3) using assms(5) by (intro scan_waiters_eq [OF assms(4)]) blast
  then have run: "wake_up_read_waiting_processes wfd rfd n k = resume_waiters ?rs ?k1" by (simp add: wake_up_read_waiting_processes_def assms(1))
  have fin: "distinct (map rw_pid (filter (complete wfd n) ws))" using assms(2) by (simp add: distinct_map inj_on_def)
  obtain k' where k': "resume_waiters ?rs ?k1 = Inr k'" "l_head (k_read_waiters k') = filter (\<lambda>x. rw_pid x \<notin> rw_pid ` set ?rs) (map (credited wfd n) ws)"
    "k_ready k' = fold (\<lambda>p q. snd (enqueue MAX_PROCESSES p q)) (map rw_pid ?rs) (k_ready k)"
    "k_objs k' = (\<lambda>a. if a \<in> obj ` rw_pid ` set ?rs then clear_flag P_WAITING_READ (k_objs k a) else k_objs k a)"
  proof -
    have "\<forall>w \<in> set ?rs. proc_at (rw_pid w) ?k1 = Inr (obj (rw_pid w)) \<and> p_pid (k_objs ?k1 (obj (rw_pid w))) = rw_pid w"
      unfolding proc using assms(5) by (auto simp: complete_def)
    moreover have "distinct ?rs" using fin pids by (metis distinct_map)
    ultimately have "\<exists>k'. resume_waiters ?rs ?k1 = Inr k' \<and> l_head (k_read_waiters k') = filter (\<lambda>x. rw_pid x \<notin> rw_pid ` set ?rs) (l_head (k_read_waiters ?k1)) \<and>
        k_ready k' = fold (\<lambda>p q. snd (enqueue MAX_PROCESSES p q)) (map rw_pid ?rs) (k_ready ?k1) \<and>
        k_objs k' = (\<lambda>a. if a \<in> obj ` rw_pid ` set ?rs then clear_flag P_WAITING_READ (k_objs ?k1 a) else k_objs ?k1 a)"
      using assms(2) by (intro resume_waiters_eq) auto
    then show thesis unfolding k1 using that by blast
  qed
  have "rw_pid w \<in> rw_pid ` set (filter (complete wfd n) ws) \<longleftrightarrow> complete wfd n w" if "w \<in> set ws" for w
    using that assms(2) by (auto simp: distinct_map dest: inj_onD)
  then have "l_head (k_read_waiters k') = map (credited wfd n) (filter (\<lambda>w. \<not> complete wfd n w) ws)"
    unfolding k'(2) filter_map by (intro arg_cong [where f = "map _"] filter_cong) (auto simp: image_image)
  moreover have "a \<in> obj ` rw_pid ` set ?rs \<longleftrightarrow> (\<exists>w \<in> set ws. complete wfd n w \<and> a = obj (rw_pid w))" for a by (auto simp: image_image)
  ultimately show ?thesis using run k'(1,3,4) by (simp add: comp_def)
qed

definition waiting_readers :: kernel where
  "waiting_readers = (demo_kernel (\<lambda>a. blank_process\<lparr>p_pid := a, p_flags := P_WAITING_READ\<rparr>) [] [])
     \<lparr>k_read_waiters := list_add \<lparr>rw_pid = 2, rw_fd = 5, rw_request = 4, rw_read_so_far = 1\<rparr> (list_add \<lparr>rw_pid = 0, rw_fd = 7, rw_request = 1, rw_read_so_far = 0\<rparr>
        (list_add \<lparr>rw_pid = 1, rw_fd = 5, rw_request = 10, rw_read_so_far = 0\<rparr> list_new)),
      k_vfs := demo_vfs ((replicate MAX_FD None)[4 := Some (demo_tty\<lparr>f_kind := FPipe ReadEnd (Some 5) 0\<rparr>)]) 0\<rparr>"

theorem pipe_reader_wakes_witness:
  "\<exists>k'. wake_up_read_waiting_processes 5 4 3 waiting_readers = Inr k' \<and> k_ready k' = snd (enqueue MAX_PROCESSES 2 (k_ready waiting_readers)) \<and>
    l_head (k_read_waiters k') = [\<lparr>rw_pid = 1, rw_fd = 5, rw_request = 10, rw_read_so_far = 3\<rparr>, \<lparr>rw_pid = 0, rw_fd = 7, rw_request = 1, rw_read_so_far = 0\<rparr>]"
proof -
  let ?f = "demo_tty\<lparr>f_kind := FPipe ReadEnd (Some 5) 0\<rparr>"
  let ?ws = "[\<lparr>rw_pid = 1, rw_fd = 5, rw_request = 10, rw_read_so_far = 0\<rparr>, \<lparr>rw_pid = 0, rw_fd = 7, rw_request = 1, rw_read_so_far = 0\<rparr>,
    \<lparr>rw_pid = 2, rw_fd = 5, rw_request = 4, rw_read_so_far = 1\<rparr>]"
  have w: "?ws = l_head (k_read_waiters waiting_readers)" "v_fds (k_vfs waiting_readers) ! 4 = Some ?f"
    "proc_at 1 waiting_readers = Inr 1" "proc_at 2 waiting_readers = Inr 2" "p_pid (k_objs waiting_readers a) = a" for a
    by (simp_all add: waiting_readers_def list_add_def list_add_node_def list_new_def demo_vfs_def proc_at_def proc_slot_def demo_kernel_def)
  show ?thesis using pipe_reader_wakes [OF w(1) _ w(2), of 5 0 id 3] w(3-5) by (auto simp: complete_def credited_def)
qed

end
