(* ===== verification/Fat.thy ===== *)
theory Fat
  imports Files
begin

text \<open>
  The FAT32 driver (\<^verbatim>\<open>src/kernel/file_management/FAT.cpp\<close>, \<^verbatim>\<open>FAT.h\<close>) on a disk of sectors of bytes, which is
  what \<^verbatim>\<open>ATA::read_sectors\<close> and \<^verbatim>\<open>ATA::write_sectors\<close> give access to. The boot sector, the table of
  clusters and the directory entries are read from and written to those bytes at the offsets of
  the packed structures. A drive keeps two sector buffers, one for data and one for the table; a
  \<open>fat_ctx\<close> says which sectors they hold. Names are byte strings without the terminator. Loops over
  a cluster chain read from disk may never end (the chain may be cyclic): they take fuel and give
  \<open>Diverges\<close> when it is used up.
\<close>

unbundle bit_operations_syntax

section \<open>Model\<close>

subsection \<open>The disk\<close>

record device =
  dev_present :: bool
  dev_ata :: bool
  dev_sectors :: "u8 list list"

abbreviation ATA_SECTOR_SIZE :: nat where "ATA_SECTOR_SIZE \<equiv> 512"

text \<open>
  \<^verbatim>\<open>ATA::read_sectors\<close> and \<^verbatim>\<open>ATA::write_sectors\<close> for one sector; \<open>None\<close> is any error code. The check adds
  at 32 bits; an access beyond the end that passes it is refused by the drive.
\<close>

definition read_sectors :: "nat \<Rightarrow> device \<Rightarrow> u8 list option" where
  "read_sectors lba dev =
     (if \<not> dev_present dev then None
      else if add32 lba 1 > length (dev_sectors dev) \<and> dev_ata dev then None
      else if \<not> dev_ata dev then None
      else if lba < length (dev_sectors dev) then Some (dev_sectors dev ! lba) else None)"

definition write_sectors :: "nat \<Rightarrow> u8 list \<Rightarrow> device \<Rightarrow> device option" where
  "write_sectors lba bytes dev =
     (if \<not> dev_present dev then None
      else if add32 lba 1 > length (dev_sectors dev) \<and> dev_ata dev then None
      else if \<not> dev_ata dev then None
      else if lba < length (dev_sectors dev) then Some (dev\<lparr>dev_sectors := (dev_sectors dev)[lba := bytes]\<rparr>) else None)"

subsection \<open>The boot sector\<close>

record fat_BS =
  bytes_per_sector :: nat
  sectors_per_cluster :: nat
  reserved_sector_count :: nat
  table_count :: nat
  root_entry_count :: nat
  total_sectors_16 :: nat
  table_size_16 :: nat
  total_sectors_32 :: nat
  table_size_32 :: nat
  root_cluster :: nat

definition le_field :: "nat \<Rightarrow> nat \<Rightarrow> u8 list \<Rightarrow> nat" where
  "le_field off n bytes = le_val (take n (drop off bytes))"

definition parse_BS :: "u8 list \<Rightarrow> fat_BS" where
  "parse_BS b = \<lparr>bytes_per_sector = le_field 11 2 b, sectors_per_cluster = le_field 13 1 b, reserved_sector_count = le_field 14 2 b,
     table_count = le_field 16 1 b, root_entry_count = le_field 17 2 b, total_sectors_16 = le_field 19 2 b, table_size_16 = le_field 22 2 b,
     total_sectors_32 = le_field 32 4 b, table_size_32 = le_field 36 4 b, root_cluster = le_field 44 4 b\<rparr>"

text \<open>The members that the constructor computes.\<close>

definition total_sectors :: "fat_BS \<Rightarrow> nat" where
  "total_sectors b = (if total_sectors_16 b = 0 then total_sectors_32 b else total_sectors_16 b)"

definition fat_size :: "fat_BS \<Rightarrow> nat" where
  "fat_size b = (if table_size_16 b = 0 then table_size_32 b else table_size_16 b)"

definition root_dir_sectors :: "fat_BS \<Rightarrow> nat" where
  "root_dir_sectors b = (root_entry_count b * 32 + (bytes_per_sector b - 1)) div bytes_per_sector b"

definition first_fat_sector :: "fat_BS \<Rightarrow> nat" where
  "first_fat_sector b = reserved_sector_count b"

definition first_data_sector :: "fat_BS \<Rightarrow> nat" where
  "first_data_sector b = add32 (add32 (reserved_sector_count b) (mul32 (table_count b) (fat_size b))) (root_dir_sectors b)"

definition data_sectors :: "fat_BS \<Rightarrow> nat" where
  "data_sectors b = sub32 (total_sectors b) (first_data_sector b)"

definition total_clusters :: "fat_BS \<Rightarrow> nat" where
  "total_clusters b = data_sectors b div sectors_per_cluster b"

definition first_sector_of_cluster :: "fat_BS \<Rightarrow> nat \<Rightarrow> nat" where
  "first_sector_of_cluster b cluster = add32 (mul32 (sub32 cluster 2) (sectors_per_cluster b)) (first_data_sector b)"

record fat_drive =
  f_bs :: fat_BS
  f_buf :: "u8 list"
  f_FAT :: "u8 list"
  f_dev :: device

datatype FAT_type = ExFAT | FAT12 | FAT16 | FAT32

text \<open>Both divisions come before the test for ExFAT.\<close>

definition fat_type_of :: "fat_BS \<Rightarrow> FAT_type res" where
  "fat_type_of b =
     (if bytes_per_sector b = 0 \<or> sectors_per_cluster b = 0 then Inl DivideError
      else Inr (if total_clusters b < 4085 then FAT12 else if total_clusters b < 65525 then FAT16 else FAT32))"

text \<open>The buffers are allocated and not initialised; \<open>fresh\<close> is what they hold.\<close>

definition from_drive :: "u8 list \<Rightarrow> device \<Rightarrow> fat_drive option res" where
  "from_drive fresh dev =
     (case read_sectors 0 dev of
        None \<Rightarrow> Inr None
      | Some sector \<Rightarrow>
          (let b = parse_BS sector in
           bind_res (fat_type_of b) (\<lambda>t.
             Inr (if t \<noteq> FAT32 then None else Some \<lparr>f_bs = b, f_buf = fresh, f_FAT = fresh, f_dev = dev\<rparr>))))"

subsection \<open>Directory entries\<close>

abbreviation READONLY :: u8 where "READONLY \<equiv> 1"
abbreviation DIRECTORY :: u8 where "DIRECTORY \<equiv> 16"
abbreviation LFN :: u8 where "LFN \<equiv> 15"
abbreviation NAME_PADDING_BYTE :: u8 where "NAME_PADDING_BYTE \<equiv> 0x20"
abbreviation DOT :: u8 where "DOT \<equiv> 0x2E"

record DirEntry =
  de_name :: "u8 list"
  de_attrs :: u8
  NTRes :: nat
  creation_time_tenth :: nat
  creation_time :: nat
  creation_date :: nat
  last_access_date :: nat
  first_cluster_high :: nat
  write_time :: nat
  write_date :: nat
  first_cluster_low :: nat
  file_size :: nat

definition decode_entry :: "u8 list \<Rightarrow> DirEntry" where
  "decode_entry e = \<lparr>de_name = take 11 e, de_attrs = e ! 11, NTRes = le_field 12 1 e, creation_time_tenth = le_field 13 1 e,
     creation_time = le_field 14 2 e, creation_date = le_field 16 2 e, last_access_date = le_field 18 2 e, first_cluster_high = le_field 20 2 e,
     write_time = le_field 22 2 e, write_date = le_field 24 2 e, first_cluster_low = le_field 26 2 e, file_size = le_field 28 4 e\<rparr>"

definition encode_entry :: "DirEntry \<Rightarrow> u8 list" where
  "encode_entry e = de_name e @ [de_attrs e] @ le_bytes 1 (NTRes e) @ le_bytes 1 (creation_time_tenth e) @ le_bytes 2 (creation_time e) @
     le_bytes 2 (creation_date e) @ le_bytes 2 (last_access_date e) @ le_bytes 2 (first_cluster_high e) @ le_bytes 2 (write_time e) @
     le_bytes 2 (write_date e) @ le_bytes 2 (first_cluster_low e) @ le_bytes 4 (file_size e)"

text \<open>\<open>entries[i]\<close>, an overlay of the buffer.\<close>

definition raw_entry :: "u8 list \<Rightarrow> nat \<Rightarrow> u8 list" where
  "raw_entry buf i = take 32 (drop (32 * i) buf)"

definition entry_at :: "u8 list \<Rightarrow> nat \<Rightarrow> DirEntry" where
  "entry_at buf i = decode_entry (raw_entry buf i)"

definition put_entry :: "nat \<Rightarrow> DirEntry \<Rightarrow> u8 list \<Rightarrow> u8 list" where
  "put_entry i e buf = blit buf (32 * i) (encode_entry e)"

definition is_directory :: "DirEntry \<Rightarrow> bool" where
  "is_directory e \<longleftrightarrow> de_attrs e AND DIRECTORY \<noteq> 0"

definition is_LFN :: "DirEntry \<Rightarrow> bool" where
  "is_LFN e \<longleftrightarrow> de_attrs e AND LFN \<noteq> 0"

definition is_free :: "DirEntry \<Rightarrow> bool" where
  "is_free e \<longleftrightarrow> de_name e ! 0 = 0"

definition first_cluster_addr :: "DirEntry \<Rightarrow> nat" where
  "first_cluster_addr e = first_cluster_high e * 65536 + first_cluster_low e"

definition c_string :: "u8 list \<Rightarrow> u8 list" where
  "c_string bytes = takeWhile (\<lambda>c. c \<noteq> 0) bytes"

definition lower_case :: "u8 \<Rightarrow> u8" where
  "lower_case c = (if 0x41 \<le> c \<and> c \<le> 0x5A then c + 0x20 else c)"

definition get_name :: "DirEntry \<Rightarrow> u8 list" where
  "get_name e =
     (let base = takeWhile (\<lambda>c. c \<noteq> NAME_PADDING_BYTE) (take 8 (de_name e));
          dot = (if \<not> is_directory e \<and> de_name e ! 8 \<noteq> NAME_PADDING_BYTE then [DOT] else []);
          extension = takeWhile (\<lambda>c. c \<noteq> NAME_PADDING_BYTE) (take 3 (drop 8 (de_name e)))
      in c_string (map lower_case (base @ dot @ extension)))"

text \<open>
  The loop of the constructor that copies an extension from the end; the counter is one more than
  the index \<open>i\<close> of the code, so that 0 is its value \<open>(uint)-1\<close>.
\<close>

fun copy_ext :: "u8 list \<Rightarrow> nat \<Rightarrow> u8 list \<Rightarrow> nat \<times> u8 list" where
  "copy_ext name 0 b = (0, b)"
| "copy_ext name (Suc i) b =
     (if i < 11 \<and> name ! i \<noteq> DOT then copy_ext name i (b[10 - (length name - 1 - i) := name ! i]) else (Suc i, b))"

definition entry_name :: "u8 list \<Rightarrow> u8 \<Rightarrow> u8 list" where
  "entry_name name at =
     (let b0 = replicate 10 NAME_PADDING_BYTE @ [0] in
      if at AND DIRECTORY \<noteq> 0 then blit b0 0 (name @ [0])
      else
        let (i, b1) = copy_ext name (length name) b0 in
        if i = 0 then blit (replicate 11 NAME_PADDING_BYTE) 0 name
        else blit b1 0 (take (i - 1) name))"

definition new_DirEntry :: "u8 list \<Rightarrow> u8 \<Rightarrow> nat \<Rightarrow> nat \<Rightarrow> DirEntry res" where
  "new_DirEntry name at cluster sz =
     (if length name > 8 then Inl (Irrecoverable ''file name too long, requires LFN support'')
      else Inr \<lparr>de_name = entry_name name at, de_attrs = at, NTRes = 0, creation_time_tenth = 0xFF, creation_time = 0xFFFF,
        creation_date = 0xFFFF, last_access_date = 0xFFFF, first_cluster_high = cluster div 65536 mod 65536, write_time = 0xFFFF,
        write_date = 0xFFFF, first_cluster_low = cluster mod 65536, file_size = sz\<rparr>)"

fun utf16_to_utf8_cautionless_cast :: "u8 list \<Rightarrow> u8 list" where
  "utf16_to_utf8_cautionless_cast (a # b # rest) =
     (if a = 0 \<and> b = 0 then [] else a # utf16_to_utf8_cautionless_cast rest)"
| "utf16_to_utf8_cautionless_cast _ = []"

text \<open>\<^verbatim>\<open>LongDirEntry::get_uglily_converted_utf8_name\<close>: the three parts of the name in the 32 bytes of an entry.\<close>

definition long_name :: "u8 list \<Rightarrow> u8 list" where
  "long_name e =
     (let n1 = c_string (utf16_to_utf8_cautionless_cast (take 10 (drop 1 e)));
          n2 = c_string (utf16_to_utf8_cautionless_cast (take 12 (drop 14 e)));
          n3 = c_string (utf16_to_utf8_cautionless_cast (take 4 (drop 28 e)))
      in n1 @ (if 5 \<le> length n1 then n2 @ (if 6 \<le> length n2 then n3 else []) else []))"

subsection \<open>Clusters\<close>

record fat_ctx =
  active_cluster :: nat
  active_sector :: nat
  FAT_sector :: nat
  FAT_entry_offset :: nat
  table_value :: nat
  dir_entry_id :: nat
  buffer_updated :: bool

abbreviation ctx_init :: fat_ctx where
  "ctx_init \<equiv> \<lparr>active_cluster = 0, active_sector = 0, FAT_sector = 0, FAT_entry_offset = 0, table_value = 0, dir_entry_id = 0,
     buffer_updated = False\<rparr>"

abbreviation CLUSTER_EOC :: nat where "CLUSTER_EOC \<equiv> 0x0FFFFFFF"
abbreviation CLUSTER_MIN_EOC :: nat where "CLUSTER_MIN_EOC \<equiv> 0x0FFFFFF8"

text \<open>
  What the driver does with its drive and a context; \<open>None\<close> is an error return, after which the changes
  made so far remain. The buffer of \<open>change_active_cluster\<close> is none, the buffer of the drive or one
  of the caller; in the last case the bytes stored there are returned.
\<close>

type_synonym fat_state = "fat_ctx \<times> fat_drive"
type_synonym 'a fat_io = "fat_state \<Rightarrow> 'a option \<times> fat_state"

datatype target = NoBuf | OwnBuf | CallerBuf

definition load_cluster :: "nat \<Rightarrow> target \<Rightarrow> u8 list option fat_io" where
  "load_cluster new tgt s =
     (let (c, d) = s in
      if tgt = NoBuf then (Some None, c\<lparr>buffer_updated := (active_cluster c \<noteq> new), active_cluster := new\<rparr>, d)
      else if active_cluster c \<noteq> new \<or> buffer_updated c
      then let sec = first_sector_of_cluster (f_bs d) new; c1 = c\<lparr>active_cluster := new, active_sector := sec\<rparr> in
        case read_sectors sec (f_dev d) of
          None \<Rightarrow> (None, c1, d)
        | Some bytes \<Rightarrow>
            if tgt = OwnBuf then (Some None, c1\<lparr>buffer_updated := False\<rparr>, d\<lparr>f_buf := bytes\<rparr>)
            else (Some (Some bytes), c1\<lparr>buffer_updated := False\<rparr>, d)
      else (Some None, s))"

definition load_table :: "unit fat_io" where
  "load_table s =
     (let (c, d) = s;
          off = mul32 (active_cluster c) 4;
          sec = add32 (first_fat_sector (f_bs d)) (off div ATA_SECTOR_SIZE);
          c1 = c\<lparr>FAT_entry_offset := off mod ATA_SECTOR_SIZE, FAT_sector := sec\<rparr>;
          value = (\<lambda>fat. le_field (off mod ATA_SECTOR_SIZE) 4 fat mod 0x10000000) in
      if sec \<noteq> FAT_sector c
      then case read_sectors sec (f_dev d) of
             None \<Rightarrow> (None, c1, d)
           | Some bytes \<Rightarrow> (Some (), c1\<lparr>table_value := value bytes, dir_entry_id := 0\<rparr>, d\<lparr>f_FAT := bytes\<rparr>)
      else (Some (), c1\<lparr>table_value := value (f_FAT d), dir_entry_id := 0\<rparr>, d))"

definition bind_io :: "'a fat_io \<Rightarrow> ('a \<Rightarrow> 'b fat_io) \<Rightarrow> 'b fat_io" where
  "bind_io m f s = (case m s of (None, s1) \<Rightarrow> (None, s1) | (Some x, s1) \<Rightarrow> f x s1)"

definition return_io :: "'a \<Rightarrow> 'a fat_io" where
  "return_io x s = (Some x, s)"

definition fail_io :: "'a fat_io" where
  "fail_io s = (None, s)"

definition change_active_cluster :: "nat \<Rightarrow> target \<Rightarrow> u8 list option fat_io" where
  "change_active_cluster new tgt = bind_io (load_cluster new tgt) (\<lambda>r. bind_io load_table (\<lambda>_. return_io r))"

definition write_fat :: "unit fat_io" where
  "write_fat s =
     (let (c, d) = s in
      case write_sectors (FAT_sector c) (f_FAT d) (f_dev d) of
        None \<Rightarrow> (None, s)
      | Some dev \<Rightarrow> (Some (), c, d\<lparr>f_dev := dev\<rparr>))"

text \<open>\<open>own\<close> says that the buffer written is the buffer of the drive.\<close>

definition write_data_sectors :: "nat \<Rightarrow> u8 list \<Rightarrow> bool \<Rightarrow> unit fat_io" where
  "write_data_sectors lba bytes own s =
     (let (c, d) = s in
      case write_sectors lba bytes (f_dev d) of
        None \<Rightarrow> (None, s)
      | Some dev \<Rightarrow> (Some (), c\<lparr>buffer_updated := \<not> own\<rparr>, d\<lparr>f_dev := dev\<rparr>))"

text \<open>\<^verbatim>\<open>*(uint*)&FAT[ctx.FAT_entry_offset] = ctx.table_value = v\<close>, then \<open>write_fat\<close>.\<close>

definition set_table_value :: "nat \<Rightarrow> unit fat_io" where
  "set_table_value v =
     bind_io (\<lambda>(c, d). (Some (), c\<lparr>table_value := v\<rparr>, d\<lparr>f_FAT := blit (f_FAT d) (FAT_entry_offset c) (le_bytes 4 v)\<rparr>)) (\<lambda>_. write_fat)"


subsection \<open>Looking up names\<close>

text \<open>
  The inner loop of \<open>get_child_dir_entry_id\<close> over the entries of one sector: the entry found, and where
  the loop stopped.
\<close>

function scan_dir :: "u8 list \<Rightarrow> u8 list \<Rightarrow> nat \<Rightarrow> bool \<Rightarrow> u8 list \<Rightarrow> nat option" where
  "scan_dir buf name i found_in_lfn whole_name =
     (if i * 32 < ATA_SECTOR_SIZE \<and> \<not> is_free (entry_at buf i)
      then if found_in_lfn then Some i
        else
          let lfn = is_LFN (entry_at buf i);
              nm = (if lfn then long_name (raw_entry buf i) else get_name (entry_at buf i));
              whole = (if lfn then nm @ whole_name else nm) in
          if whole = name \<and> \<not> lfn then Some i
          else scan_dir buf name (i + 1) (whole = name) (if lfn then whole else [])
      else None)"
  by pat_completeness auto
termination by (relation "measure (\<lambda>(_, _, i, _). 16 - i)") auto

declare scan_dir.simps [simp del]

fun find_entry :: "nat \<Rightarrow> nat \<Rightarrow> u8 list \<Rightarrow> fat_state \<Rightarrow> (nat option \<times> fat_state) res" where
  "find_entry 0 cluster name s = Inl Diverges"
| "find_entry (Suc fuel) cluster name s =
     (case change_active_cluster cluster OwnBuf s of
        (None, s1) \<Rightarrow> Inr (None, s1)
      | (Some _, (c, d)) \<Rightarrow>
          (case scan_dir (f_buf d) name 0 False [] of
             Some i \<Rightarrow> Inr (Some i, c\<lparr>dir_entry_id := i\<rparr>, d)
           | None \<Rightarrow> if table_value c < CLUSTER_MIN_EOC then find_entry fuel (table_value c) name (c, d) else Inr (None, c, d)))"

definition parent_cluster :: "nat \<Rightarrow> fat_drive \<Rightarrow> nat" where
  "parent_cluster lba d = mul32 lba (sectors_per_cluster (f_bs d))"

definition get_child_dir_entry_id :: "nat \<Rightarrow> nat \<Rightarrow> u8 list \<Rightarrow> fat_state \<Rightarrow> (nat option \<times> fat_state) res" where
  "get_child_dir_entry_id fuel lba name s =
     (if name \<noteq> [] \<and> hd name = 0x2F then Inr (None, s)
      else find_entry fuel (parent_cluster lba (snd s)) name s)"

text \<open>The number of blocks of a directory is the length of its chain.\<close>

fun count_blocks :: "nat \<Rightarrow> nat \<Rightarrow> fat_state \<Rightarrow> (nat option \<times> fat_state) res" where
  "count_blocks 0 cluster s = Inl Diverges"
| "count_blocks (Suc fuel) cluster s =
     (case change_active_cluster cluster NoBuf s of
        (None, s1) \<Rightarrow> Inr (None, s1)
      | (Some _, s1) \<Rightarrow>
          if table_value (fst s1) < CLUSTER_MIN_EOC
          then bind_res (count_blocks fuel (table_value (fst s1)) s1) (\<lambda>(r, s2). Inr (map_option Suc r, s2))
          else Inr (Some 1, s1))"

text \<open>The inode of a directory entry, with the number of its blocks.\<close>

definition dir_entry_to_inode :: "nat \<Rightarrow> DirEntry \<Rightarrow> nat \<Rightarrow> fat_drive \<Rightarrow> (inode option \<times> fat_drive) res" where
  "dir_entry_to_inode fuel e superblock d =
     (let node = (\<lambda>t blocks. \<lparr>i_size = file_size e, i_type = t, i_lba = first_cluster_addr e, i_blocks = blocks, i_superblock = Some superblock\<rparr>) in
      if is_directory e
      then bind_res (count_blocks fuel (parent_cluster (first_cluster_addr e) d) (ctx_init, d)) (\<lambda>(r, s).
             Inr (map_option (node INodeDir) r, snd s))
      else Inr (Some (node INodeFile (add32 (file_size e) 511 div 512)), d))"

definition fat_get_child :: "nat \<Rightarrow> nat \<Rightarrow> u8 list \<Rightarrow> nat \<Rightarrow> fat_drive \<Rightarrow> (inode option \<times> fat_drive) res" where
  "fat_get_child fuel lba name superblock d =
     bind_res (get_child_dir_entry_id fuel lba name (ctx_init, d)) (\<lambda>(r, s).
       case r of
         None \<Rightarrow> Inr (None, snd s)
       | Some i \<Rightarrow> dir_entry_to_inode fuel (entry_at (f_buf (snd s)) i) superblock (snd s))"

subsection \<open>Reading a file\<close>

text \<open>Bytes stored into a buffer of the caller.\<close>

definition store_into :: "u8 list \<Rightarrow> nat \<Rightarrow> u8 list option \<Rightarrow> u8 list" where
  "store_into dst off bytes = (case bytes of None \<Rightarrow> dst | Some b \<Rightarrow> blit dst off b)"

primrec skip_clusters :: "nat \<Rightarrow> nat \<Rightarrow> (nat \<times> nat) fat_io" where
  "skip_clusters 0 next = return_io (next, 0)"
| "skip_clusters (Suc n) next =
     (if next < CLUSTER_MIN_EOC
      then bind_io (change_active_cluster next NoBuf) (\<lambda>_ s.
             bind_io (skip_clusters n (table_value (fst s))) (\<lambda>(next', co). return_io (next', Suc co)) s)
      else return_io (next, 0))"

text \<open>The first sector, from the offset in it on.\<close>

definition load_first :: "nat \<Rightarrow> nat \<Rightarrow> nat \<Rightarrow> u8 list \<Rightarrow> (nat \<times> u8 list) fat_io" where
  "load_first next cluster_offset len dst =
     (if cluster_offset = 0 \<and> len \<ge> ATA_SECTOR_SIZE
      then bind_io (change_active_cluster next CallerBuf) (\<lambda>r. return_io (ATA_SECTOR_SIZE, store_into dst 0 r))
      else bind_io (change_active_cluster next OwnBuf) (\<lambda>_ s.
        let n = min len (ATA_SECTOR_SIZE - cluster_offset)
        in return_io (n, blit dst 0 (take n (drop cluster_offset (f_buf (snd s))))) s))"

function load_rest :: "nat \<Rightarrow> nat \<Rightarrow> u8 list \<Rightarrow> (nat \<times> u8 list) fat_io" where
  "load_rest len loaded dst s =
     (if loaded < len \<and> table_value (fst s) < CLUSTER_MIN_EOC
      then
        let rem = len - loaded in
        case change_active_cluster (table_value (fst s)) (if rem < ATA_SECTOR_SIZE then OwnBuf else CallerBuf) s of
          (None, s1) \<Rightarrow> (None, s1)
        | (Some r, s1) \<Rightarrow>
            load_rest len (loaded + (if rem > ATA_SECTOR_SIZE then ATA_SECTOR_SIZE else rem))
              (if rem < ATA_SECTOR_SIZE then blit dst loaded (take rem (f_buf (snd s1))) else store_into dst loaded r) s1
      else (Some (loaded, dst), s))"
  by pat_completeness auto
termination by (relation "measure (\<lambda>(len, loaded, _). len - loaded)") auto

declare load_rest.simps [simp del]

text \<open>\<open>dst\<close> is the buffer of the caller; the result is the number of bytes loaded with the buffer.\<close>

definition load_file_to_buf :: "nat \<Rightarrow> u8 list \<Rightarrow> u8 list \<Rightarrow> nat \<Rightarrow> nat \<Rightarrow> nat \<Rightarrow> fat_drive \<Rightarrow> ((nat \<times> u8 list) option \<times> fat_drive) res" where
  "load_file_to_buf fuel dst name lba offset len d =
     bind_res (get_child_dir_entry_id fuel lba name (ctx_init, d)) (\<lambda>(r, s).
       case r of
         None \<Rightarrow> Inr (None, snd s)
       | Some i \<Rightarrow>
           (let e = entry_at (f_buf (snd s)) i; n_offset_clusters = offset div ATA_SECTOR_SIZE in
            if add32 offset len > file_size e then Inr (None, snd s)
            else
              let (q, s1) = bind_io (skip_clusters n_offset_clusters (first_cluster_addr e)) (\<lambda>(next, co).
                    if co < n_offset_clusters then fail_io
                    else bind_io (load_first next (offset - n_offset_clusters * ATA_SECTOR_SIZE) len dst) (\<lambda>(loaded, dst1).
                      load_rest len loaded dst1)) s
              in Inr (q, snd s1)))"

subsection \<open>Free clusters\<close>

text \<open>The inner loop over one sector of the table: the clusters found so far, and whether they are enough.\<close>

function free_in_sector :: "nat \<Rightarrow> nat \<Rightarrow> nat list \<Rightarrow> nat \<Rightarrow> u8 list \<Rightarrow> nat list" where
  "free_in_sector n k acc j fat =
     (if j < 128 \<and> length acc < n
      then free_in_sector n k (if le_field (4 * j) 4 fat = 0 \<and> \<not> (k = 0 \<and> j < 2) then acc @ [k * 128 + j] else acc) (j + 1) fat
      else acc)"
  by pat_completeness auto
termination by (relation "measure (\<lambda>(_, _, _, j, _). 128 - j)") auto

declare free_in_sector.simps [simp del]

function free_clusters_from :: "nat \<Rightarrow> nat \<Rightarrow> nat list \<Rightarrow> fat_drive \<Rightarrow> nat list option" where
  "free_clusters_from n sector acc d =
     (if sector < total_sectors (f_bs d)
      then case read_sectors sector (f_dev d) of
             None \<Rightarrow> None
           | Some fat \<Rightarrow>
               (let acc1 = free_in_sector n (sector - first_fat_sector (f_bs d)) acc 0 fat in
                if length acc1 = n then Some acc1 else free_clusters_from n (sector + 1) acc1 d)
      else None)"
  by pat_completeness auto
termination by (relation "measure (\<lambda>(_, sector, _, d). total_sectors (f_bs d) - sector)") auto

declare free_clusters_from.simps [simp del]

definition get_free_clusters :: "nat \<Rightarrow> fat_drive \<Rightarrow> nat list option" where
  "get_free_clusters n d = (if n = 0 then Some [0] else free_clusters_from n (first_fat_sector (f_bs d)) [] d)"

subsection \<open>Changing the size of a file\<close>

primrec walk_chain :: "nat \<Rightarrow> nat \<Rightarrow> nat fat_io" where
  "walk_chain 0 cluster = return_io cluster"
| "walk_chain (Suc n) cluster =
     bind_io (change_active_cluster cluster OwnBuf) (\<lambda>_ s. walk_chain n (table_value (fst s)) s)"

text \<open>The rest of the chain is cleared, with the next cluster read unmasked from the table.\<close>

primrec clear_chain :: "nat \<Rightarrow> nat \<Rightarrow> unit fat_io" where
  "clear_chain 0 cluster = return_io ()"
| "clear_chain (Suc n) cluster =
     bind_io (change_active_cluster cluster OwnBuf) (\<lambda>_ s.
       let next = le_field (FAT_entry_offset (fst s)) 4 (f_FAT (snd s))
       in bind_io (set_table_value 0) (\<lambda>_. clear_chain n next) s)"

fun append_clusters :: "nat list \<Rightarrow> nat \<Rightarrow> nat fat_io" where
  "append_clusters [] cluster = return_io cluster"
| "append_clusters (x # xs) cluster =
     bind_io (change_active_cluster cluster OwnBuf) (\<lambda>_. bind_io (set_table_value x) (\<lambda>_. append_clusters xs x))"

definition update_entry :: "nat \<Rightarrow> (DirEntry \<Rightarrow> DirEntry) \<Rightarrow> fat_state \<Rightarrow> fat_state" where
  "update_entry i g s = (let (c, d) = s in (c, d\<lparr>f_buf := put_entry i (g (entry_at (f_buf d) i)) (f_buf d)\<rparr>))"

definition persist_entry :: "unit fat_io" where
  "persist_entry s = write_data_sectors (active_sector (fst s)) (f_buf (snd s)) True s"

definition sectors_of :: "nat \<Rightarrow> nat" where
  "sectors_of sz = add32 sz 511 div ATA_SECTOR_SIZE"

definition shrink_chain :: "nat \<Rightarrow> nat \<Rightarrow> nat \<Rightarrow> nat \<Rightarrow> unit fat_io" where
  "shrink_chain i new_size old_n new_n s =
     (let first = first_cluster_addr (entry_at (f_buf (snd s)) i);
          s1 = (if new_size = 0 then update_entry i (\<lambda>e. e\<lparr>first_cluster_high := 0, first_cluster_low := 0\<rparr>) s else s) in
      bind_io persist_entry (\<lambda>_.
      bind_io (walk_chain new_n first) (\<lambda>cluster.
      bind_io (change_active_cluster cluster OwnBuf) (\<lambda>_ s2.
        let next = table_value (fst s2) in
        bind_io (set_table_value (if new_size = 0 then 0 else CLUSTER_EOC)) (\<lambda>_. clear_chain (old_n - new_n - 1) next) s2))) s1)"

definition grow_chain :: "nat \<Rightarrow> nat \<Rightarrow> nat \<Rightarrow> unit fat_io" where
  "grow_chain i old_n new_n s =
     (case get_free_clusters (new_n - old_n) (snd s) of
        None \<Rightarrow> (None, s)
      | Some free \<Rightarrow>
          (let s1 = (if old_n = 0
                     then update_entry i (\<lambda>e. e\<lparr>first_cluster_high := free ! 0 div 65536 mod 65536, first_cluster_low := free ! 0 mod 65536\<rparr>) s
                     else s) in
           bind_io persist_entry (\<lambda>_ s2.
             bind_io (walk_chain (old_n - 1) (first_cluster_addr (entry_at (f_buf (snd s2)) i))) (\<lambda>cluster.
             bind_io (append_clusters (if old_n = 0 then tl free else free) cluster) (\<lambda>last.
             bind_io (change_active_cluster last OwnBuf) (\<lambda>_. set_table_value CLUSTER_EOC))) s2) s1))"

text \<open>\<open>cur_size\<close> is the size that the inode has; the caller stores the new size there on success.\<close>

definition fat_resize :: "nat \<Rightarrow> nat \<Rightarrow> u8 list \<Rightarrow> nat \<Rightarrow> nat \<Rightarrow> fat_drive \<Rightarrow> (bool \<times> fat_drive) res" where
  "fat_resize fuel lba name cur_size new_size d =
     bind_res (get_child_dir_entry_id fuel lba name (ctx_init, d)) (\<lambda>(r, s).
       case r of
         None \<Rightarrow> Inr (False, snd s)
       | Some i \<Rightarrow>
           (let old_n = sectors_of cur_size; new_n = sectors_of new_size;
                s1 = update_entry i (\<lambda>e. e\<lparr>file_size := new_size\<rparr>) s;
                (q, s2) = (if new_n < old_n then shrink_chain i new_size old_n new_n s1
                           else if new_n > old_n then grow_chain i old_n new_n s1
                           else persist_entry s1)
            in Inr (q \<noteq> None, snd s2)))"

subsection \<open>Writing a file\<close>

function write_clusters :: "u8 list \<Rightarrow> nat \<Rightarrow> nat \<Rightarrow> unit fat_io" where
  "write_clusters bytes wrote next s =
     (if wrote < length bytes \<and> next < CLUSTER_MIN_EOC
      then
        case change_active_cluster next OwnBuf s of
          (None, s1) \<Rightarrow> (None, s1)
        | (Some _, (c, d)) \<Rightarrow>
            (let rem = length bytes - wrote;
                 d1 = (if rem \<ge> ATA_SECTOR_SIZE then d else d\<lparr>f_buf := blit (f_buf d) 0 (drop wrote bytes)\<rparr>);
                 b = (if rem \<ge> ATA_SECTOR_SIZE then take ATA_SECTOR_SIZE (drop wrote bytes) else f_buf d1) in
             case write_data_sectors (active_sector c) b (rem < ATA_SECTOR_SIZE) (c, d1) of
               (None, s2) \<Rightarrow> (None, s2)
             | (Some _, s2) \<Rightarrow> write_clusters bytes (wrote + (if rem < ATA_SECTOR_SIZE then rem else ATA_SECTOR_SIZE)) (table_value (fst s2)) s2)
      else (Some (), s))"
  by pat_completeness auto
termination by (relation "measure (\<lambda>(bytes, wrote, _). length bytes - wrote)") auto

declare write_clusters.simps [simp del]

text \<open>The second part of the result is the size of the inode afterwards.\<close>

definition write_buf_to_file :: "nat \<Rightarrow> nat \<Rightarrow> u8 list \<Rightarrow> inode \<Rightarrow> u8 list \<Rightarrow> fat_drive \<Rightarrow> (bool \<times> nat \<times> fat_drive) res" where
  "write_buf_to_file fuel lba name node bytes d =
     (if i_type node \<noteq> INodeFile then Inr (False, i_size node, d)
      else bind_res (if i_size node \<noteq> length bytes then fat_resize fuel lba name (i_size node) (length bytes) d else Inr (True, d)) (\<lambda>(okay, d1).
        if \<not> okay then Inr (False, i_size node, d1)
        else if length bytes = 0 then Inr (True, 0, d1)
        else bind_res (get_child_dir_entry_id fuel lba name (ctx_init, d1)) (\<lambda>(r, s).
          case r of
            None \<Rightarrow> Inr (False, length bytes, snd s)
          | Some i \<Rightarrow>
              (let (q, s1) = write_clusters bytes 0 (first_cluster_addr (entry_at (f_buf (snd s)) i)) s
               in Inr (q \<noteq> None, length bytes, snd s1)))))"

subsection \<open>Creating files and directories\<close>

text \<open>The position of the first entry that is free, or has the name where a name is given, in a sector.\<close>

function free_slot :: "u8 list option \<Rightarrow> u8 list \<Rightarrow> nat \<Rightarrow> nat" where
  "free_slot name buf i =
     (if i * 32 < ATA_SECTOR_SIZE \<and> \<not> is_free (entry_at buf i) \<and> name \<noteq> Some (get_name (entry_at buf i))
      then free_slot name buf (i + 1) else i)"
  by pat_completeness auto
termination by (relation "measure (\<lambda>(_, _, i). 16 - i)") auto

declare free_slot.simps [simp del]

fun last_slot :: "nat \<Rightarrow> u8 list option \<Rightarrow> nat \<Rightarrow> fat_state \<Rightarrow> (bool \<times> fat_state) res" where
  "last_slot 0 name cluster s = Inl Diverges"
| "last_slot (Suc fuel) name cluster s =
     (case change_active_cluster cluster OwnBuf s of
        (None, s1) \<Rightarrow> Inr (False, s1)
      | (Some _, (c, d)) \<Rightarrow>
          (let c1 = c\<lparr>dir_entry_id := free_slot name (f_buf d) 0\<rparr> in
           if table_value c1 < CLUSTER_MIN_EOC then last_slot fuel name (table_value c1) (c1, d) else Inr (True, c1, d)))"

definition add_entry :: "DirEntry \<Rightarrow> unit fat_io" where
  "add_entry e s =
     (let (c, d) = s; d1 = d\<lparr>f_buf := put_entry (dir_entry_id c) e (f_buf d)\<rparr>
      in write_data_sectors (active_sector c) (f_buf d1) True (c, d1))"

definition dir_full :: "fat_state \<Rightarrow> bool" where
  "dir_full s \<longleftrightarrow> dir_entry_id (fst s) * 32 = bytes_per_sector (f_bs (snd s)) * sectors_per_cluster (f_bs (snd s))"

definition fat_touch :: "nat \<Rightarrow> nat \<Rightarrow> u8 list \<Rightarrow> nat \<Rightarrow> fat_drive \<Rightarrow> (inode option \<times> fat_drive) res" where
  "fat_touch fuel lba name superblock d =
     (if name \<noteq> [] \<and> hd name = 0x2F then Inr (None, d)
      else bind_res (last_slot fuel (Some name) (parent_cluster lba d) (ctx_init, d)) (\<lambda>(okay, s).
        if \<not> okay then Inr (None, snd s)
        else if dir_full s then Inr (None, snd s)
        else bind_res (new_DirEntry name 0 0 0) (\<lambda>e.
          case add_entry e s of
            (None, s1) \<Rightarrow> Inr (None, snd s1)
          | (Some _, s1) \<Rightarrow> dir_entry_to_inode fuel e superblock (snd s1))))"

definition make_dots :: "nat \<Rightarrow> nat \<Rightarrow> u8 list \<Rightarrow> u8 list res" where
  "make_dots dir_content_cluster parent buf =
     bind_res (new_DirEntry [DOT] DIRECTORY dir_content_cluster 0) (\<lambda>e1.
     bind_res (new_DirEntry [DOT, DOT] DIRECTORY parent 0) (\<lambda>e2. Inr (put_entry 1 e2 (put_entry 0 e1 buf))))"

text \<open>The new cluster becomes the end of a chain, then it gets the entries of the directory itself and its parent.\<close>

definition init_dir :: "nat \<Rightarrow> nat \<Rightarrow> fat_state \<Rightarrow> (bool \<times> fat_state) res" where
  "init_dir dir_content_cluster parent s =
     (case change_active_cluster dir_content_cluster OwnBuf s of
        (None, s1) \<Rightarrow> Inr (False, s1)
      | (Some _, (c, d)) \<Rightarrow>
          (case write_fat (c, d\<lparr>f_FAT := blit (f_FAT d) (FAT_entry_offset c) (le_bytes 4 CLUSTER_EOC)\<rparr>) of
             (None, s2) \<Rightarrow> Inr (False, s2)
           | (Some _, (c2, d2)) \<Rightarrow>
               (case read_sectors (active_sector c) (f_dev d2) of
                  None \<Rightarrow> Inr (False, c2, d2)
                | Some bytes \<Rightarrow>
                    bind_res (make_dots dir_content_cluster parent bytes) (\<lambda>b.
                      let (q, s3) = write_data_sectors (active_sector c) b True (c2, d2\<lparr>f_buf := b\<rparr>) in Inr (q \<noteq> None, s3)))))"

definition fat_mkdir :: "nat \<Rightarrow> nat \<Rightarrow> u8 list \<Rightarrow> nat \<Rightarrow> fat_drive \<Rightarrow> (inode option \<times> fat_drive) res" where
  "fat_mkdir fuel lba name superblock d =
     (if length name \<ge> 9 then Inr (None, d)
      else bind_res (last_slot fuel None (parent_cluster lba d) (ctx_init, d)) (\<lambda>(okay, s).
        if \<not> okay then Inr (None, snd s)
        else if dir_full s then Inr (None, snd s)
        else case get_free_clusters 1 (snd s) of
          None \<Rightarrow> Inr (None, snd s)
        | Some free \<Rightarrow>
            bind_res (new_DirEntry name DIRECTORY (free ! 0) 0) (\<lambda>e.
              case add_entry e s of
                (None, s1) \<Rightarrow> Inr (None, snd s1)
              | (Some _, s1) \<Rightarrow>
                  bind_res (init_dir (free ! 0) (parent_cluster lba d) s1) (\<lambda>(done, s2).
                    if \<not> done then Inr (None, snd s2) else dir_entry_to_inode fuel e superblock (snd s2)))))"

subsection \<open>Listing a directory\<close>

text \<open>The root of the file system.\<close>

definition get_root_node :: "nat \<Rightarrow> fat_drive \<Rightarrow> inode" where
  "get_root_node superblock d = \<lparr>i_size = 0, i_type = INodeDir, i_lba = root_cluster (f_bs d), i_blocks = 0, i_superblock = Some superblock\<rparr>"

text \<open>
  What is printed for the entries of a sector, with the long name read so far. The context of the
  listing is kept while the blocks of a subdirectory are counted with another one, but the table in
  the drive is the same: it may be another sector afterwards than the one the context names.
\<close>

function ls_sector :: "nat \<Rightarrow> nat \<Rightarrow> nat \<Rightarrow> u8 list \<Rightarrow> fat_drive \<Rightarrow> ((u8 list \<times> inode) list \<times> fat_drive) res" where
  "ls_sector fuel superblock i prev_lfn d =
     (if i * 32 < ATA_SECTOR_SIZE \<and> \<not> is_free (entry_at (f_buf d) i)
      then let e = entry_at (f_buf d) i in
        if is_LFN e then ls_sector fuel superblock (i + 1) (long_name (raw_entry (f_buf d) i) @ prev_lfn) d
        else bind_res (dir_entry_to_inode fuel e superblock d) (\<lambda>(r, d1).
          case r of
            None \<Rightarrow> Inl NullDeref
          | Some node \<Rightarrow>
              bind_res (ls_sector fuel superblock (i + 1) [] d1) (\<lambda>(l, d2).
                Inr ((if prev_lfn \<noteq> [] then prev_lfn else get_name e, node) # l, d2)))
      else Inr ([], d))"
  by pat_completeness auto
termination by (relation "measure (\<lambda>(_, _, i, _). 16 - i)") auto

declare ls_sector.simps [simp del]

fun ls_from :: "nat \<Rightarrow> nat \<Rightarrow> nat \<Rightarrow> fat_state \<Rightarrow> ((bool \<times> (u8 list \<times> inode) list) \<times> fat_state) res" where
  "ls_from 0 superblock cluster s = Inl Diverges"
| "ls_from (Suc fuel) superblock cluster s =
     (case change_active_cluster cluster OwnBuf s of
        (None, s1) \<Rightarrow> Inr ((False, []), s1)
      | (Some _, (c, d)) \<Rightarrow>
          bind_res (ls_sector fuel superblock 0 [] d) (\<lambda>(l, d1).
            if table_value c < CLUSTER_MIN_EOC
            then bind_res (ls_from fuel superblock (table_value c) (c, d1)) (\<lambda>((okay, l1), s1). Inr ((okay, l @ l1), s1))
            else Inr ((True, l), (c, d1))))"

definition fat_ls :: "nat \<Rightarrow> nat \<Rightarrow> nat \<Rightarrow> fat_drive \<Rightarrow> ((bool \<times> (u8 list \<times> inode) list) \<times> fat_drive) res" where
  "fat_ls fuel lba superblock d =
     bind_res (ls_from fuel superblock (parent_cluster lba d) (ctx_init, d)) (\<lambda>(r, s). Inr (r, snd s))"

end
