(* ===== verification/FatFiles.thy ===== *)
theory FatFiles
  imports Fat
begin

text \<open>
  Files on a FAT disk as what they hold: a file or directory is a chain of clusters, its contents
  the bytes of their sectors. The driver's operations are shown to work on those contents.
\<close>

section \<open>Disks\<close>

abbreviation secs :: "fat_drive \<Rightarrow> u8 list list" where
  "secs d \<equiv> dev_sectors (f_dev d)"

definition data_sector :: "fat_drive \<Rightarrow> nat \<Rightarrow> nat" where
  "data_sector d x = first_data_sector (f_bs d) + (x - 2)"

definition table_sector :: "fat_drive \<Rightarrow> nat \<Rightarrow> nat" where
  "table_sector d x = first_fat_sector (f_bs d) + 4 * x div ATA_SECTOR_SIZE"

text \<open>The disks that the driver supports: one sector to a cluster, and the table before the data.\<close>

definition drive_ok :: "fat_drive \<Rightarrow> bool" where
  "drive_ok d \<longleftrightarrow> dev_present (f_dev d) \<and> dev_ata (f_dev d) \<and> (\<forall>b \<in> set (secs d). length b = ATA_SECTOR_SIZE) \<and>
     length (secs d) < W32 \<and> sectors_per_cluster (f_bs d) = 1 \<and> 0 < first_fat_sector (f_bs d)"

definition valid_cluster :: "fat_drive \<Rightarrow> nat \<Rightarrow> bool" where
  "valid_cluster d x \<longleftrightarrow> 2 \<le> x \<and> x < CLUSTER_MIN_EOC \<and> data_sector d x < length (secs d) \<and> table_sector d x < first_data_sector (f_bs d)"

text \<open>
  What the disk holds: the bytes of every cluster and the table that links the clusters. Both are
  empty for a number that is no cluster.
\<close>

definition cluster_data :: "fat_drive \<Rightarrow> nat \<Rightarrow> u8 list" where
  "cluster_data d x = (if valid_cluster d x then secs d ! data_sector d x else [])"

definition raw_next :: "fat_drive \<Rightarrow> nat \<Rightarrow> nat" where
  "raw_next d x = (if valid_cluster d x then le_field (4 * x mod ATA_SECTOR_SIZE) 4 (secs d ! table_sector d x) else 0)"

definition fat_next :: "fat_drive \<Rightarrow> nat \<Rightarrow> nat" where
  "fat_next d x = raw_next d x mod 0x10000000"

text \<open>The table in the drive's buffer is the sector of the table that the context names, if it names one.\<close>

definition coherent :: "fat_state \<Rightarrow> bool" where
  "coherent s \<longleftrightarrow> (FAT_sector (fst s) \<noteq> 0 \<longrightarrow> FAT_sector (fst s) < length (secs (snd s)) \<and>
     FAT_sector (fst s) < first_data_sector (f_bs (snd s)) \<and> f_FAT (snd s) = secs (snd s) ! FAT_sector (fst s))"

definition same_disk :: "fat_drive \<Rightarrow> fat_drive \<Rightarrow> bool" where
  "same_disk d d' \<longleftrightarrow> f_bs d' = f_bs d \<and> f_dev d' = f_dev d"

lemma coherent_init [simp]: "coherent (ctx_init, d)"
  by (simp add: coherent_def)

lemma same_disk_refl [simp]: "same_disk d d"
  by (simp add: same_disk_def)

lemma same_disk_views:
  assumes "same_disk d d'"
  shows "secs d' = secs d" "data_sector d' = data_sector d" "table_sector d' = table_sector d" "cluster_data d' = cluster_data d"
    "raw_next d' = raw_next d" "fat_next d' = fat_next d" "drive_ok d' = drive_ok d" "valid_cluster d' = valid_cluster d"
  using assms by (auto simp: same_disk_def data_sector_def table_sector_def cluster_data_def raw_next_def fat_next_def drive_ok_def
      valid_cluster_def fun_eq_iff)

lemma same_disk_trans: "same_disk d d' \<Longrightarrow> same_disk d' d'' \<Longrightarrow> same_disk d d''"
  by (simp add: same_disk_def)

lemma read_sectors_ok: "drive_ok d \<Longrightarrow> n < length (secs d) \<Longrightarrow> read_sectors n (f_dev d) = Some (secs d ! n)"
  by (simp add: read_sectors_def drive_ok_def add32_eq)

lemma write_sectors_ok:
  "drive_ok d \<Longrightarrow> n < length (secs d) \<Longrightarrow>
   write_sectors n b (f_dev d) = Some ((f_dev d)\<lparr>dev_sectors := (secs d)[n := b]\<rparr>)"
  by (simp add: write_sectors_def drive_ok_def add32_eq)

lemma valid_sector:
  assumes "drive_ok d" and "valid_cluster d x"
  shows "first_sector_of_cluster (f_bs d) x = data_sector d x" and "mul32 x 4 = 4 * x"
    and "add32 (first_fat_sector (f_bs d)) (4 * x div ATA_SECTOR_SIZE) = table_sector d x"
    and "table_sector d x < length (secs d)" and "0 < table_sector d x" and "table_sector d x < data_sector d y"
    and "table_sector d x < first_data_sector (f_bs d)"
  using assms by (auto simp: first_sector_of_cluster_def data_sector_def valid_cluster_def drive_ok_def table_sector_def
      sub32_eq mul32_eq add32_eq)

text \<open>Making a valid cluster the active one.\<close>

lemma change_active_cluster_ok:
  assumes "drive_ok d" and "valid_cluster d x" and "coherent (c, d)"
  defines "reads \<equiv> (active_cluster c \<noteq> x \<or> buffer_updated c)"
  shows "\<exists>c' d'. change_active_cluster x tgt (c, d) = (Some (if tgt = CallerBuf \<and> reads then Some (cluster_data d x) else None), (c', d')) \<and>
    same_disk d d' \<and> coherent (c', d') \<and> active_cluster c' = x \<and> FAT_sector c' = table_sector d x \<and>
    FAT_entry_offset c' = 4 * x mod ATA_SECTOR_SIZE \<and> table_value c' = fat_next d x \<and> dir_entry_id c' = 0 \<and>
    f_FAT d' = secs d ! table_sector d x \<and>
    (tgt = OwnBuf \<longrightarrow> f_buf d' = (if reads then cluster_data d x else f_buf d) \<and> active_sector c' = (if reads then data_sector d x else active_sector c) \<and>
       \<not> buffer_updated c')"
proof -
  note v = valid_sector [OF assms(1,2)]
  have rd: "read_sectors (data_sector d x) (f_dev d) = Some (cluster_data d x)"
    using read_sectors_ok [OF assms(1)] assms(2) by (simp add: valid_cluster_def cluster_data_def)
  have rt: "read_sectors (table_sector d x) (f_dev d) = Some (secs d ! table_sector d x)" by (rule read_sectors_ok [OF assms(1) v(4)])
  have fx: "le_field (4 * x mod ATA_SECTOR_SIZE) 4 (secs d ! table_sector d x) mod 0x10000000 = fat_next d x"
    using assms(2) by (simp add: fat_next_def raw_next_def)
  define l where "l = load_cluster x tgt (c, d)"
  have "\<exists>r c1 d1. l = (Some r, (c1, d1)) \<and> r = (if tgt = CallerBuf \<and> reads then Some (cluster_data d x) else None) \<and>
      f_bs d1 = f_bs d \<and> f_dev d1 = f_dev d \<and> f_FAT d1 = f_FAT d \<and> FAT_sector c1 = FAT_sector c \<and> active_cluster c1 = x \<and>
      (tgt = OwnBuf \<longrightarrow> f_buf d1 = (if reads then cluster_data d x else f_buf d) \<and>
         active_sector c1 = (if reads then data_sector d x else active_sector c) \<and> \<not> buffer_updated c1)"
    by (cases tgt; cases reads) (auto simp: reads_def l_def load_cluster_def Let_def rd v(1))
  then obtain c1 d1 r where l: "l = (Some r, (c1, d1))" and e: "r = (if tgt = CallerBuf \<and> reads then Some (cluster_data d x) else None)"
      "f_bs d1 = f_bs d" "f_dev d1 = f_dev d" "f_FAT d1 = f_FAT d" "FAT_sector c1 = FAT_sector c" "active_cluster c1 = x"
      "tgt = OwnBuf \<longrightarrow> f_buf d1 = (if reads then cluster_data d x else f_buf d) \<and>
         active_sector c1 = (if reads then data_sector d x else active_sector c) \<and> \<not> buffer_updated c1"
    by blast
  have "\<exists>c' d'. load_table (c1, d1) = (Some (), (c', d')) \<and> FAT_sector c' = table_sector d x \<and> FAT_entry_offset c' = 4 * x mod ATA_SECTOR_SIZE \<and>
      table_value c' = fat_next d x \<and> dir_entry_id c' = 0 \<and> f_FAT d' = secs d ! table_sector d x \<and> f_bs d' = f_bs d \<and> f_dev d' = f_dev d \<and>
      active_cluster c' = x \<and> f_buf d' = f_buf d1 \<and> active_sector c' = active_sector c1 \<and> buffer_updated c' = buffer_updated c1"
    using rt v(2,3,5) e fx assms(3) by (auto simp: load_table_def coherent_def Let_def)
  then show ?thesis using l e v(4,5,7) unfolding change_active_cluster_def bind_io_def return_io_def l_def [symmetric]
    by (fastforce simp: same_disk_def coherent_def)
qed

section \<open>Chains\<close>

primrec chain :: "fat_drive \<Rightarrow> nat \<Rightarrow> nat list \<Rightarrow> bool" where
  "chain d x [] \<longleftrightarrow> CLUSTER_MIN_EOC \<le> x"
| "chain d x (y # ys) \<longleftrightarrow> x = y \<and> valid_cluster d x \<and> chain d (fat_next d x) ys"

definition file_data :: "fat_drive \<Rightarrow> nat list \<Rightarrow> u8 list" where
  "file_data d xs = concat (map (cluster_data d) xs)"

lemma chain_same_disk: "same_disk d d' \<Longrightarrow> chain d' x xs = chain d x xs"
  by (induction xs arbitrary: x) (auto simp: same_disk_views)

lemma file_data_same_disk: "same_disk d d' \<Longrightarrow> file_data d' xs = file_data d xs"
  by (simp add: file_data_def same_disk_views)

lemma chain_valid: "chain d x xs \<Longrightarrow> y \<in> set xs \<Longrightarrow> valid_cluster d y"
  by (induction xs arbitrary: x) auto

lemma chain_unique: "chain d x xs \<Longrightarrow> chain d x ys \<Longrightarrow> xs = ys"
proof (induction xs arbitrary: x ys)
  case Nil
  then show ?case by (cases ys) (auto simp: valid_cluster_def)
next
  case (Cons z zs)
  then show ?case by (cases ys) (auto simp: valid_cluster_def)
qed

lemma chain_drop: "chain d x xs \<Longrightarrow> n \<le> length xs \<Longrightarrow> \<exists>y. chain d y (drop n xs)"
proof (induction n arbitrary: x xs)
  case (Suc n)
  then show ?case by (cases xs) auto
qed auto

lemma chain_suffix: "chain d x (ys @ zs) \<Longrightarrow> \<exists>y. chain d y zs"
  by (induction ys arbitrary: x) auto

lemma chain_distinct: "chain d x xs \<Longrightarrow> distinct xs"
proof (induction xs arbitrary: x)
  case (Cons y ys)
  have "y \<notin> set ys"
  proof
    assume "y \<in> set ys"
    then obtain as bs where "ys = as @ y # bs" by (auto simp: in_set_conv_decomp)
    moreover from this Cons.prems obtain z where "chain d z (y # bs)" using chain_suffix [of d "fat_next d y" as "y # bs"] by auto
    ultimately have "y # bs = y # ys" using Cons.prems by (intro chain_unique [of d y]) auto
    with \<open>ys = as @ y # bs\<close> show False by (metis append_Cons append_self_conv2 length_append length_Cons list.inject not_add_less2 less_Suc_eq add.commute)
  qed
  then show ?case using Cons by auto
qed simp

lemma length_cluster_data: "drive_ok d \<Longrightarrow> valid_cluster d x \<Longrightarrow> length (cluster_data d x) = ATA_SECTOR_SIZE"
  by (auto simp: drive_ok_def valid_cluster_def cluster_data_def)

lemma length_file_data: "drive_ok d \<Longrightarrow> (\<And>x. x \<in> set xs \<Longrightarrow> valid_cluster d x) \<Longrightarrow> length (file_data d xs) = ATA_SECTOR_SIZE * length xs"
  by (induction xs) (auto simp: file_data_def length_cluster_data)

section \<open>Looking up a name\<close>

text \<open>The clusters of a directory are searched in the order of the chain.\<close>

primrec dir_find :: "fat_drive \<Rightarrow> nat list \<Rightarrow> u8 list \<Rightarrow> (nat \<times> nat) option" where
  "dir_find d [] name = None"
| "dir_find d (x # xs) name =
     (case scan_dir (cluster_data d x) name 0 False [] of Some i \<Rightarrow> Some (x, i) | None \<Rightarrow> dir_find d xs name)"

text \<open>The drive's buffer holds the active cluster.\<close>

definition at_cluster :: "nat \<Rightarrow> fat_state \<Rightarrow> bool" where
  "at_cluster x s \<longleftrightarrow> active_cluster (fst s) = x \<and> active_sector (fst s) = data_sector (snd s) x \<and> \<not> buffer_updated (fst s) \<and>
     f_buf (snd s) = cluster_data (snd s) x"

lemma change_own_ok:
  assumes "drive_ok d" and "valid_cluster d x" and "coherent (c, d)" and "active_cluster c \<noteq> x \<or> buffer_updated c \<or> at_cluster x (c, d)"
  shows "\<exists>c' d'. change_active_cluster x OwnBuf (c, d) = (Some None, (c', d')) \<and> same_disk d d' \<and> coherent (c', d') \<and> at_cluster x (c', d') \<and>
    FAT_sector c' = table_sector d x \<and> FAT_entry_offset c' = 4 * x mod ATA_SECTOR_SIZE \<and> table_value c' = fat_next d x \<and>
    dir_entry_id c' = 0 \<and> f_FAT d' = secs d ! table_sector d x"
proof -
  obtain c' d' where "change_active_cluster x OwnBuf (c, d) = (Some None, (c', d'))" "same_disk d d'" "coherent (c', d')" "active_cluster c' = x"
    "FAT_sector c' = table_sector d x" "FAT_entry_offset c' = 4 * x mod ATA_SECTOR_SIZE" "table_value c' = fat_next d x" "dir_entry_id c' = 0"
    "f_FAT d' = secs d ! table_sector d x" "\<not> buffer_updated c'"
    "f_buf d' = (if active_cluster c \<noteq> x \<or> buffer_updated c then cluster_data d x else f_buf d)"
    "active_sector c' = (if active_cluster c \<noteq> x \<or> buffer_updated c then data_sector d x else active_sector c)"
    using change_active_cluster_ok [OF assms(1-3), of OwnBuf] by auto
  then show ?thesis using assms(4) by (auto simp: at_cluster_def same_disk_views split: if_splits)
qed

lemma find_entry_ok:
  assumes "drive_ok d" and "chain d x ds" and "ds \<noteq> []" and "length ds \<le> fuel" and "coherent (c, d)" and "active_cluster c \<notin> set ds"
  shows "\<exists>c' d'. find_entry fuel x name (c, d) = Inr (map_option snd (dir_find d ds name), (c', d')) \<and> same_disk d d' \<and> coherent (c', d') \<and>
    (\<forall>y i. dir_find d ds name = Some (y, i) \<longrightarrow> at_cluster y (c', d'))"
  using assms
proof (induction ds arbitrary: x c d fuel)
  case (Cons y ys)
  then obtain f where f: "fuel = Suc f" by (cases fuel) auto
  have y: "x = y" "valid_cluster d y" "chain d (fat_next d y) ys" using Cons.prems(2) by auto
  obtain c1 d1 where o1: "change_active_cluster y OwnBuf (c, d) = (Some None, (c1, d1))" "same_disk d d1" "coherent (c1, d1)" "at_cluster y (c1, d1)"
      "table_value c1 = fat_next d y"
    using change_own_ok [OF Cons.prems(1) y(2) Cons.prems(5)] Cons.prems(6) by auto
  note v = same_disk_views [OF o1(2)]
  have b: "f_buf d1 = cluster_data d y" using o1(4) v by (simp add: at_cluster_def)
  show ?case
  proof (cases "scan_dir (cluster_data d y) name 0 False []")
    case (Some i)
    then show ?thesis using o1 y(1) b f by (auto simp: at_cluster_def coherent_def)
  next
    case None
    show ?thesis
    proof (cases ys)
      case Nil
      then show ?thesis using None y o1 b f by auto
    next
      case (Cons z zs)
      then have lt: "fat_next d y < CLUSTER_MIN_EOC" using y(3) by (simp add: valid_cluster_def)
      have "y \<notin> set ys" using chain_distinct [OF Cons.prems(2)] by simp
      then obtain c' d' where "find_entry f (fat_next d y) name (c1, d1) = Inr (map_option snd (dir_find d1 ys name), (c', d'))" "same_disk d1 d'"
          "coherent (c', d')" "\<forall>y i. dir_find d1 ys name = Some (y, i) \<longrightarrow> at_cluster y (c', d')"
        using Cons.IH [of d1 "fat_next d y" f c1] Cons.prems y o1 v chain_same_disk [OF o1(2)] \<open>ys = z # zs\<close> f
        by (auto simp: at_cluster_def)
      moreover have "dir_find d1 ys name = dir_find d ys name" by (induction ys) (auto simp: v split: option.splits)
      ultimately show ?thesis using None y(1) o1 b f lt same_disk_trans [OF o1(2)] by auto
    qed
  qed
qed simp

text \<open>A name in a directory with the chain \<open>ds\<close>, at entry \<open>i\<close> of cluster \<open>x\<close>.\<close>

definition named :: "fat_drive \<Rightarrow> nat \<Rightarrow> nat list \<Rightarrow> u8 list \<Rightarrow> nat \<Rightarrow> nat \<Rightarrow> bool" where
  "named d lba ds name x i \<longleftrightarrow> drive_ok d \<and> lba < W32 \<and> chain d lba ds \<and> ds \<noteq> [] \<and> (name \<noteq> [] \<longrightarrow> hd name \<noteq> 0x2F) \<and>
     dir_find d ds name = Some (x, i)"

definition the_entry :: "fat_drive \<Rightarrow> nat \<Rightarrow> nat \<Rightarrow> DirEntry" where
  "the_entry d x i = entry_at (cluster_data d x) i"

lemma parent_cluster_ok: "drive_ok d \<Longrightarrow> lba < W32 \<Longrightarrow> parent_cluster lba d = lba"
  by (simp add: parent_cluster_def drive_ok_def mul32_def)

lemma dir_find_cluster: "dir_find d ds name = Some (x, i) \<Longrightarrow> x \<in> set ds \<and> scan_dir (cluster_data d x) name 0 False [] = Some i"
  by (induction ds) (auto split: option.splits)

lemma get_child_ok:
  assumes "named d lba ds name x i" and "length ds \<le> fuel"
  shows "\<exists>c' d'. get_child_dir_entry_id fuel lba name (ctx_init, d) = Inr (Some i, (c', d')) \<and> same_disk d d' \<and> coherent (c', d') \<and>
    at_cluster x (c', d') \<and> entry_at (f_buf d') i = the_entry d x i"
proof -
  have "0 \<notin> set ds" using assms(1) chain_valid [of d lba ds 0] by (auto simp: named_def valid_cluster_def)
  then obtain c' d' where f: "find_entry fuel lba name (ctx_init, d) = Inr (Some i, (c', d'))" "same_disk d d'" "coherent (c', d')" "at_cluster x (c', d')"
    using find_entry_ok [of d lba ds fuel ctx_init name] assms by (auto simp: named_def)
  moreover have "f_buf d' = cluster_data d x" using f(2,4) by (simp add: at_cluster_def same_disk_views)
  moreover have "parent_cluster lba d = lba" using assms(1) parent_cluster_ok by (simp add: named_def)
  ultimately show ?thesis using assms(1) by (auto simp: get_child_dir_entry_id_def named_def the_entry_def)
qed

section \<open>Reading\<close>

lemma skip_clusters_ok:
  assumes "drive_ok d" and "chain d x cs" and "n \<le> length cs" and "coherent (c, d)" and "active_cluster c \<notin> set cs"
  shows "\<exists>y c' d'. skip_clusters n x (c, d) = (Some (y, n), (c', d')) \<and> chain d y (drop n cs) \<and> same_disk d d' \<and> coherent (c', d') \<and>
    active_cluster c' \<notin> set (drop n cs)"
  using assms
proof (induction n arbitrary: x cs c d)
  case 0
  then show ?case by (auto simp: return_io_def)
next
  case (Suc n)
  then obtain ys where cs: "cs = x # ys" "valid_cluster d x" "chain d (fat_next d x) ys" by (cases cs) auto
  obtain c1 d1 where o1: "change_active_cluster x NoBuf (c, d) = (Some None, (c1, d1))" "same_disk d d1" "coherent (c1, d1)"
      "active_cluster c1 = x" "table_value c1 = fat_next d x"
    using change_active_cluster_ok [OF Suc.prems(1) cs(2) Suc.prems(4), of NoBuf] by auto
  note v = same_disk_views [OF o1(2)]
  have "x \<notin> set ys" using chain_distinct [OF Suc.prems(2)] cs by simp
  then obtain y c' d' where "skip_clusters n (fat_next d x) (c1, d1) = (Some (y, n), (c', d'))" "chain d1 y (drop n ys)" "same_disk d1 d'"
      "coherent (c', d')" "active_cluster c' \<notin> set (drop n ys)"
    using Suc.IH [of d1 "fat_next d x" ys c1] Suc.prems cs o1 v chain_same_disk [OF o1(2)] by auto
  moreover have "x < CLUSTER_MIN_EOC" using cs(2) by (simp add: valid_cluster_def)
  ultimately show ?case using o1 cs(1) chain_same_disk [OF o1(2)] same_disk_trans [OF o1(2)]
    by (auto simp: bind_io_def return_io_def)
qed

lemma blit_append: "loaded + length b \<le> length dst \<Longrightarrow> take (loaded + length b) (blit dst loaded b) = take loaded dst @ b"
  by (simp add: blit_def)

lemma load_rest_ok:
  assumes "drive_ok d" and "chain d (table_value c) cs" and "coherent (c, d)" and "active_cluster c \<notin> set cs" and "loaded \<le> len"
    and "len - loaded \<le> ATA_SECTOR_SIZE * length cs" and "len \<le> length dst"
  shows "\<exists>s'. load_rest len loaded dst (c, d) = (Some (len, take loaded dst @ take (len - loaded) (file_data d cs) @ drop len dst), s') \<and>
    same_disk d (snd s')"
  using assms
proof (induction cs arbitrary: c d loaded dst)
  case Nil
  then show ?case by (subst load_rest.simps) auto
next
  case (Cons x xs)
  show ?case
  proof (cases "loaded < len")
    case False
    then show ?thesis using Cons.prems by (subst load_rest.simps) auto
  next
    case True
    let ?rem = "len - loaded" and ?tgt = "if len - loaded < ATA_SECTOR_SIZE then OwnBuf else CallerBuf" and ?n = "min (len - loaded) ATA_SECTOR_SIZE"
    have x: "table_value c = x" "valid_cluster d x" "chain d (fat_next d x) xs" "x < CLUSTER_MIN_EOC" "active_cluster c \<noteq> x" "x \<notin> set xs"
      using Cons.prems(2,4) chain_distinct [OF Cons.prems(2)] by (auto simp: valid_cluster_def)
    obtain c1 d1 r where o1: "change_active_cluster x ?tgt (c, d) = (Some r, (c1, d1))" "same_disk d d1" "coherent (c1, d1)"
        "active_cluster c1 = x" "table_value c1 = fat_next d x" "?rem < ATA_SECTOR_SIZE \<Longrightarrow> f_buf d1 = cluster_data d x"
        "\<not> ?rem < ATA_SECTOR_SIZE \<Longrightarrow> r = Some (cluster_data d x)"
      using change_active_cluster_ok [OF Cons.prems(1) x(2) Cons.prems(3), of ?tgt] x(5) by (auto split: if_splits)
    have lx: "length (cluster_data d x) = ATA_SECTOR_SIZE" by (rule length_cluster_data [OF Cons.prems(1) x(2)])
    define dst1 where "dst1 = blit dst loaded (take ?n (cluster_data d x))"
    have st: "(if ?rem < ATA_SECTOR_SIZE then blit dst loaded (take ?rem (f_buf d1)) else store_into dst loaded r) = dst1"
      using o1(6,7) lx by (auto simp: dst1_def store_into_def min_def)
    have len1: "length dst1 = length dst" using Cons.prems(7) True lx by (simp add: dst1_def)
    have tk: "take (loaded + ?n) dst1 = take loaded dst @ take ?n (cluster_data d x)"
    proof -
      have "length (take ?n (cluster_data d x)) = ?n" and "loaded + ?n \<le> length dst" using lx True Cons.prems(7) by auto
      then show ?thesis using blit_append [of loaded "take ?n (cluster_data d x)" dst] by (simp only: dst1_def)
    qed
    have dr: "drop len dst1 = drop len dst"
    proof (cases "len - loaded < ATA_SECTOR_SIZE")
      case True
      then show ?thesis using Cons.prems(7) \<open>loaded < len\<close> lx by (simp add: dst1_def blit_def)
    next
      case False
      then have "len = loaded + ATA_SECTOR_SIZE + (len - loaded - ATA_SECTOR_SIZE)" using \<open>loaded < len\<close> by simp
      then show ?thesis using Cons.prems(7) False lx by (simp add: dst1_def blit_def)
    qed
    obtain s' where s': "load_rest len (loaded + ?n) dst1 (c1, d1) =
        (Some (len, take (loaded + ?n) dst1 @ take (len - (loaded + ?n)) (file_data d1 xs) @ drop len dst1), s')" "same_disk d1 (snd s')"
    proof -
      have "loaded + ?n \<le> len" "len - (loaded + ?n) \<le> ATA_SECTOR_SIZE * length xs" "len \<le> length dst1"
        using True Cons.prems(6,7) len1 by auto
      moreover have "drive_ok d1" "chain d1 (table_value c1) xs" "active_cluster c1 \<notin> set xs"
        using Cons.prems(1) x o1 same_disk_views [OF o1(2)] chain_same_disk [OF o1(2)] by auto
      ultimately show thesis using Cons.IH [OF _ _ o1(3), of "loaded + ?n" dst1] that by blast
    qed
    have "load_rest len loaded dst (c, d) = load_rest len (loaded + ?n) dst1 (c1, d1)"
    proof -
      have "load_rest len loaded dst (c, d) = load_rest len (loaded + (if ?rem > ATA_SECTOR_SIZE then ATA_SECTOR_SIZE else ?rem))
          (if ?rem < ATA_SECTOR_SIZE then blit dst loaded (take ?rem (f_buf d1)) else store_into dst loaded r) (c1, d1)"
        using True x(1,4) o1(1) by (subst load_rest.simps) (simp add: Let_def)
      moreover have "(if ?rem > ATA_SECTOR_SIZE then ATA_SECTOR_SIZE else ?rem) = ?n" by simp
      ultimately show ?thesis by (simp only: st)
    qed
    moreover have "take (len - loaded) (file_data d (x # xs)) = take ?n (cluster_data d x) @ take (len - (loaded + ?n)) (file_data d xs)"
      using lx True by (simp add: file_data_def min_def)
    ultimately show ?thesis using s' tk dr o1(2) file_data_same_disk [OF o1(2)] same_disk_trans [OF o1(2)] by auto
  qed
qed


lemma load_first_ok:
  assumes "drive_ok d" and "valid_cluster d x" and "coherent (c, d)" and "active_cluster c \<noteq> x" and "co < ATA_SECTOR_SIZE" and "len \<le> length dst"
  shows "\<exists>c' d'. load_first x co len dst (c, d) =
      (Some (min len (ATA_SECTOR_SIZE - co), blit dst 0 (take (min len (ATA_SECTOR_SIZE - co)) (drop co (cluster_data d x)))), (c', d')) \<and>
    same_disk d d' \<and> coherent (c', d') \<and> active_cluster c' = x \<and> table_value c' = fat_next d x"
proof (cases "co = 0 \<and> len \<ge> ATA_SECTOR_SIZE")
  case True
  have lx: "length (cluster_data d x) = ATA_SECTOR_SIZE" by (rule length_cluster_data [OF assms(1,2)])
  obtain c1 d1 where "change_active_cluster x CallerBuf (c, d) = (Some (Some (cluster_data d x)), (c1, d1))" "same_disk d d1" "coherent (c1, d1)"
      "active_cluster c1 = x" "table_value c1 = fat_next d x"
    using change_active_cluster_ok [OF assms(1-3), of CallerBuf] assms(4) by auto
  then show ?thesis using True lx by (auto simp: load_first_def bind_io_def return_io_def store_into_def min_def)
next
  case False
  obtain c1 d1 where "change_active_cluster x OwnBuf (c, d) = (Some None, (c1, d1))" "same_disk d d1" "coherent (c1, d1)"
      "active_cluster c1 = x" "table_value c1 = fat_next d x" "f_buf d1 = cluster_data d x"
    using change_active_cluster_ok [OF assms(1-3), of OwnBuf] assms(4) by auto
  then show ?thesis using False by (auto simp: load_first_def bind_io_def return_io_def Let_def)
qed

lemma drop_file_data:
  assumes "drive_ok d" and "chain d y (x # ys)" and "off < ATA_SECTOR_SIZE"
  shows "drop off (file_data d (x # ys)) = drop off (cluster_data d x) @ file_data d ys"
  using length_cluster_data [OF assms(1), of x] assms(2,3) by (auto simp: file_data_def)

lemma drop_clusters:
  assumes "drive_ok d" and "\<And>x. x \<in> set cs \<Longrightarrow> valid_cluster d x" and "n \<le> length cs"
  shows "drop (n * ATA_SECTOR_SIZE + off) (file_data d cs) = drop off (file_data d (drop n cs))"
  using assms(2,3)
proof (induction n arbitrary: cs)
  case (Suc n)
  then obtain x xs where cs: "cs = x # xs" by (cases cs) auto
  then have "length (cluster_data d x) = ATA_SECTOR_SIZE" using length_cluster_data [OF assms(1)] Suc.prems(1) by simp
  then have "drop (Suc n * ATA_SECTOR_SIZE + off) (file_data d cs) = drop (n * ATA_SECTOR_SIZE + off) (file_data d xs)"
    using cs by (simp add: file_data_def)
  then show ?case using Suc cs by simp
qed simp

text \<open>The chain of a file whose entry is \<open>e\<close>; a file without clusters has the number 0 in its entry.\<close>

definition file_chain :: "fat_drive \<Rightarrow> DirEntry \<Rightarrow> nat list \<Rightarrow> bool" where
  "file_chain d e cs \<longleftrightarrow> (if cs = [] then first_cluster_addr e = 0 else chain d (first_cluster_addr e) cs)"

lemma blit_prefix:
  assumes "length b \<le> len" and "len \<le> length dst"
  shows "length (blit dst 0 b) = length dst" and "take (length b) (blit dst 0 b) = b" and "drop len (blit dst 0 b) = drop len dst"
  using assms by (auto simp: blit_def)

lemma load_span_ok:
  assumes "drive_ok d" and "chain d z (z # zs)" and "coherent (c, d)" and "active_cluster c \<notin> set (z # zs)" and "co < ATA_SECTOR_SIZE"
    and "co + len \<le> ATA_SECTOR_SIZE * Suc (length zs)" and "len \<le> length dst"
  shows "\<exists>s'. bind_io (load_first z co len dst) (\<lambda>(loaded, dst1). load_rest len loaded dst1) (c, d) =
      (Some (len, take len (drop co (file_data d (z # zs))) @ drop len dst), s') \<and> same_disk d (snd s')"
proof -
  let ?k = "min len (ATA_SECTOR_SIZE - co)" and ?A = "drop co (cluster_data d z)"
  have z: "valid_cluster d z" "chain d (fat_next d z) zs" "z \<notin> set zs" "active_cluster c \<noteq> z"
    using assms(2,4) chain_distinct [OF assms(2)] by auto
  have la: "length ?A = ATA_SECTOR_SIZE - co" using length_cluster_data [OF assms(1) z(1)] by simp
  then have lk: "length (take ?k ?A) = ?k" by simp
  note b = blit_prefix [of "take ?k ?A" len dst, unfolded lk, OF min.cobounded1 assms(7)]
  obtain c1 d1 where f: "load_first z co len dst (c, d) = (Some (?k, blit dst 0 (take ?k ?A)), (c1, d1))" "same_disk d d1" "coherent (c1, d1)"
      "active_cluster c1 = z" "table_value c1 = fat_next d z"
    using load_first_ok [OF assms(1) z(1) assms(3) z(4) assms(5,7)] by blast
  obtain s' where l: "load_rest len ?k (blit dst 0 (take ?k ?A)) (c1, d1) =
      (Some (len, take ?k (blit dst 0 (take ?k ?A)) @ take (len - ?k) (file_data d1 zs) @ drop len (blit dst 0 (take ?k ?A))), s')"
      "same_disk d1 (snd s')"
  proof -
    have "drive_ok d1" using assms(1) same_disk_views(7) [OF f(2)] by simp
    moreover have "chain d1 (table_value c1) zs" using z(2) f(5) chain_same_disk [OF f(2)] by simp
    moreover have "active_cluster c1 \<notin> set zs" using z(3) f(4) by simp
    moreover have "?k \<le> len" "len - ?k \<le> ATA_SECTOR_SIZE * length zs" using assms(5,6) by auto
    moreover have "len \<le> length (blit dst 0 (take ?k ?A))" unfolding b(1) by (rule assms(7))
    ultimately show thesis using load_rest_ok [OF _ _ f(3), of zs ?k len "blit dst 0 (take ?k ?A)"] that by blast
  qed
  have "take ?k ?A = take len (take (length ?A) ?A)" unfolding la [symmetric] by (simp only: take_take)
  then have "take ?k ?A = take len ?A" by (simp only: take_all order_refl)
  moreover have "len - ?k = len - length ?A" unfolding la by linarith
  moreover have "drop co (file_data d (z # zs)) = ?A @ file_data d zs" by (rule drop_file_data [OF assms(1,2,5)])
  ultimately show ?thesis using f(1) l(1) same_disk_trans [OF f(2) l(2)] file_data_same_disk [OF f(2)] b(2,3)
    by (simp only: bind_io_def prod.case option.case take_append append_assoc) blast
qed

lemma load_file_ok:
  assumes "named d lba ds name x i" and "length ds \<le> fuel" and "chain d (first_cluster_addr (the_entry d x i)) cs" and "x \<notin> set cs"
    and "offset + len \<le> file_size (the_entry d x i)" and "file_size (the_entry d x i) \<le> ATA_SECTOR_SIZE * length cs"
    and "file_size (the_entry d x i) < W32" and "0 < len" and "len \<le> length dst"
  shows "\<exists>d'. load_file_to_buf fuel dst name lba offset len d =
      Inr (Some (len, take len (drop offset (file_data d cs)) @ drop len dst), d') \<and> same_disk d d'"
proof -
  let ?n = "offset div ATA_SECTOR_SIZE" and ?co = "offset mod ATA_SECTOR_SIZE"
  have dok: "drive_ok d" using assms(1) by (simp add: named_def)
  obtain c1 d1 where g: "get_child_dir_entry_id fuel lba name (ctx_init, d) = Inr (Some i, (c1, d1))" "same_disk d d1" "coherent (c1, d1)"
      "at_cluster x (c1, d1)" "entry_at (f_buf d1) i = the_entry d x i"
    using get_child_ok [OF assms(1,2)] by blast
  have n: "?n < length cs" using assms(5,6,8) by (simp add: div_less_iff_less_mult)
  then have nl: "?n \<le> length cs" by simp
  obtain y c2 d2 where s: "skip_clusters ?n (first_cluster_addr (the_entry d x i)) (c1, d1) = (Some (y, ?n), (c2, d2))" "chain d1 y (drop ?n cs)"
      "same_disk d1 d2" "coherent (c2, d2)" "active_cluster c2 \<notin> set (drop ?n cs)"
  proof -
    have "drive_ok d1" "chain d1 (first_cluster_addr (the_entry d x i)) cs" "active_cluster c1 \<notin> set cs"
      using dok assms(3,4) g(4) same_disk_views [OF g(2)] chain_same_disk [OF g(2)] by (auto simp: at_cluster_def)
    from skip_clusters_ok [OF this(1,2) nl g(3) this(3)] show thesis using that by blast
  qed
  obtain zs where zs: "drop ?n cs = y # zs" using n s(2) by (cases "drop ?n cs") auto
  have sd: "same_disk d d2" using same_disk_trans g(2) s(3) by blast
  have "offset + len \<le> ATA_SECTOR_SIZE * length cs" using assms(5,6) by simp
  moreover have "length cs = ?n + Suc (length zs)" using zs nl by (metis le_add_diff_inverse length_Cons length_drop)
  ultimately have "ATA_SECTOR_SIZE * ?n + ?co + len \<le> ATA_SECTOR_SIZE * ?n + ATA_SECTOR_SIZE * Suc (length zs)" by simp
  then have bound: "?co + len \<le> ATA_SECTOR_SIZE * Suc (length zs)" by linarith
  have "drive_ok d2" "chain d2 y (y # zs)" "active_cluster c2 \<notin> set (y # zs)"
    using dok s(2,5) chain_same_disk [OF s(3)] same_disk_views(7) [OF sd] unfolding zs by blast+
  from load_span_ok [OF this(1,2) s(4) this(3) _ bound assms(9)]
  obtain s' where l: "bind_io (load_first y ?co len dst) (\<lambda>(loaded, dst1). load_rest len loaded dst1) (c2, d2) =
      (Some (len, take len (drop ?co (file_data d2 (y # zs))) @ drop len dst), s')" "same_disk d2 (snd s')" by auto
  have split: "drop offset (file_data d cs) = drop ?co (file_data d2 (y # zs))"
    using drop_clusters [OF dok chain_valid [OF assms(3)] nl, of ?co] zs file_data_same_disk [OF sd] by simp
  have "add32 offset len \<le> file_size (the_entry d x i)" using assms(5,7) by (simp add: add32_eq)
  moreover have "offset - ?n * ATA_SECTOR_SIZE = ?co" by (simp add: minus_div_mult_eq_mod)
  moreover note same_disk_trans [OF sd l(2)]
  ultimately show ?thesis using g(1,5) s(1) l(1) unfolding split by (simp add: load_file_to_buf_def bind_io_def)
qed

end
