(* ===== verification/FatWrite.thy ===== *)
theory FatWrite
  imports FatFiles
begin

text \<open>
  The operations that change a FAT disk: links of the table, the bytes of clusters, and the
  directory entry of a file. Each is a change of the two maps that a disk stands for, so that what
  it does to a file and what it leaves of the others follow from functions updated at a point.
\<close>

section \<open>Changes of a disk\<close>

definition disk_is :: "fat_drive \<Rightarrow> fat_drive \<Rightarrow> (nat \<Rightarrow> u8 list) \<Rightarrow> (nat \<Rightarrow> nat) \<Rightarrow> bool" where
  "disk_is d d' data table \<longleftrightarrow> drive_ok d' \<and> f_bs d' = f_bs d \<and> valid_cluster d' = valid_cluster d \<and> cluster_data d' = data \<and> raw_next d' = table"

lemma disk_is_same: "same_disk d d' \<Longrightarrow> drive_ok d \<Longrightarrow> disk_is d d' (cluster_data d) (raw_next d)"
  by (simp add: disk_is_def same_disk_views) (simp add: same_disk_def)

lemma disk_is_trans: "disk_is d d1 data table \<Longrightarrow> disk_is d1 d2 data' table' \<Longrightarrow> disk_is d d2 data' table'"
  by (simp add: disk_is_def)

lemma disk_is_next: "disk_is d d' data table \<Longrightarrow> fat_next d' = (\<lambda>x. table x mod 0x10000000)"
  by (simp add: disk_is_def fat_next_def fun_eq_iff)

lemma disk_is_sector: "disk_is d d' data table \<Longrightarrow> data_sector d' = data_sector d \<and> table_sector d' = table_sector d"
  by (simp add: disk_is_def data_sector_def table_sector_def fun_eq_iff)

lemma data_sector_inj: "valid_cluster d x \<Longrightarrow> valid_cluster d y \<Longrightarrow> data_sector d x = data_sector d y \<Longrightarrow> x = y"
  by (auto simp: data_sector_def valid_cluster_def)

lemma table_offset: "4 * x mod ATA_SECTOR_SIZE = 4 * (x mod 128)"
  by (simp add: mult_mod_right)

lemma table_offset_bound: "4 * x mod ATA_SECTOR_SIZE + 4 \<le> ATA_SECTOR_SIZE"
  using mod_less_divisor [of 128 x] unfolding table_offset by simp

abbreviation set_sector :: "nat \<Rightarrow> u8 list \<Rightarrow> fat_drive \<Rightarrow> fat_drive" where
  "set_sector n b d \<equiv> d\<lparr>f_dev := (f_dev d)\<lparr>dev_sectors := (secs d)[n := b]\<rparr>\<rparr>"

lemma set_sector_shape:
  assumes "drive_ok d" and "length b = ATA_SECTOR_SIZE"
  shows "drive_ok (set_sector n b d)" and "valid_cluster (set_sector n b d) = valid_cluster d"
    and "data_sector (set_sector n b d) = data_sector d" and "table_sector (set_sector n b d) = table_sector d"
  using assms by (auto simp: drive_ok_def valid_cluster_def data_sector_def table_sector_def fun_eq_iff dest: set_update_subset_insert [THEN subsetD])

lemma set_data_ok:
  assumes "drive_ok d" and "valid_cluster d x" and "length b = ATA_SECTOR_SIZE"
  shows "disk_is d (set_sector (data_sector d x) b d) ((cluster_data d)(x := b)) (raw_next d)"
proof -
  note s = set_sector_shape [OF assms(1,3), of "data_sector d x"]
  have "raw_next (set_sector (data_sector d x) b d) y = raw_next d y" for y
  proof (cases "valid_cluster d y")
    case True
    then have "table_sector d y \<noteq> data_sector d x" using valid_sector(6) [OF assms(1) True, of x] by simp
    then show ?thesis unfolding raw_next_def s by simp
  qed (simp add: raw_next_def s)
  moreover have "cluster_data (set_sector (data_sector d x) b d) y = ((cluster_data d)(x := b)) y" for y
  proof (cases "y = x \<or> \<not> valid_cluster d y")
    case True
    then show ?thesis unfolding cluster_data_def s using assms(2) by (auto simp: valid_cluster_def cluster_data_def)
  next
    case False
    then have "data_sector d x \<noteq> data_sector d y" using data_sector_inj [OF assms(2)] by blast
    then show ?thesis unfolding cluster_data_def s using False by (simp add: cluster_data_def)
  qed
  ultimately show ?thesis using s by (simp add: disk_is_def fun_eq_iff)
qed

lemma le_field_blit_same:
  assumes "off + 4 \<le> length buf" and "v < W32"
  shows "le_field off 4 (blit buf off (le_bytes 4 v)) = v"
  using assms by (simp add: le_field_def blit_def le_val_le_bytes)

lemma le_field_blit_other:
  assumes "off + 4 \<le> length buf" and "p + 4 \<le> off \<or> off + 4 \<le> p" and "p + 4 \<le> length buf"
  shows "le_field p 4 (blit buf off (le_bytes 4 v)) = le_field p 4 buf"
proof -
  have "take 4 (drop p (blit buf off (le_bytes 4 v))) = take 4 (drop p buf)"
    by (rule nth_equalityI) (use assms in \<open>auto simp: nth_blit\<close>)
  then show ?thesis by (simp add: le_field_def)
qed

lemma set_table_ok:
  assumes "drive_ok d" and "valid_cluster d x" and "v < W32"
  defines "b \<equiv> blit (secs d ! table_sector d x) (4 * x mod ATA_SECTOR_SIZE) (le_bytes 4 v)"
  shows "disk_is d (set_sector (table_sector d x) b d) (cluster_data d) ((raw_next d)(x := v))" and "length b = ATA_SECTOR_SIZE"
proof -
  note v = valid_sector [OF assms(1,2)]
  note off = table_offset_bound
  have ls: "length (secs d ! n) = ATA_SECTOR_SIZE" if "n < length (secs d)" for n using assms(1) that by (simp add: drive_ok_def)
  show lb: "length b = ATA_SECTOR_SIZE" using off [of x] ls [OF v(4)] by (simp add: b_def)
  note s = set_sector_shape [OF assms(1) lb, of "table_sector d x"]
  have "cluster_data (set_sector (table_sector d x) b d) y = cluster_data d y" for y
    unfolding cluster_data_def s using v(6) [of y] by simp
  moreover have "raw_next (set_sector (table_sector d x) b d) y = ((raw_next d)(x := v)) y" for y
  proof (cases "valid_cluster d y \<and> table_sector d y = table_sector d x")
    case True
    have "4 * y mod ATA_SECTOR_SIZE \<noteq> 4 * x mod ATA_SECTOR_SIZE" if "y \<noteq> x"
    proof
      assume "4 * y mod ATA_SECTOR_SIZE = 4 * x mod ATA_SECTOR_SIZE"
      moreover have "4 * y div ATA_SECTOR_SIZE = 4 * x div ATA_SECTOR_SIZE" using True by (simp add: table_sector_def)
      ultimately have "4 * y = 4 * x" by (metis div_mult_mod_eq)
      then show False using that by simp
    qed
    then have apart: "4 * y mod ATA_SECTOR_SIZE + 4 \<le> 4 * x mod ATA_SECTOR_SIZE \<or> 4 * x mod ATA_SECTOR_SIZE + 4 \<le> 4 * y mod ATA_SECTOR_SIZE" if "y \<noteq> x"
      using that unfolding table_offset by auto
    show ?thesis
      using True assms(2,3) v(4) off [of x] off [of y] ls [OF v(4)] le_field_blit_other [OF _ apart]
      unfolding raw_next_def s by (auto simp: b_def raw_next_def le_field_blit_same)
  next
    case False
    then show ?thesis unfolding raw_next_def s using assms(2) by (auto simp: raw_next_def)
  qed
  ultimately show "disk_is d (set_sector (table_sector d x) b d) (cluster_data d) ((raw_next d)(x := v))" using s by (simp add: disk_is_def fun_eq_iff)
qed

text \<open>Linking the active cluster to \<open>v\<close>, and making \<open>x\<close> active in order to link it.\<close>

lemma set_table_value_ok:
  assumes "drive_ok d" and "valid_cluster d x" and "v < W32" and "FAT_sector c = table_sector d x" and "FAT_entry_offset c = 4 * x mod ATA_SECTOR_SIZE"
    and "f_FAT d = secs d ! table_sector d x"
  shows "\<exists>d'. set_table_value v (c, d) = (Some (), (c\<lparr>table_value := v\<rparr>, d')) \<and> disk_is d d' (cluster_data d) ((raw_next d)(x := v)) \<and>
    coherent (c\<lparr>table_value := v\<rparr>, d') \<and> f_buf d' = f_buf d"
proof -
  let ?b = "blit (secs d ! table_sector d x) (4 * x mod ATA_SECTOR_SIZE) (le_bytes 4 v)"
  let ?d = "(set_sector (table_sector d x) ?b d)\<lparr>f_FAT := ?b\<rparr>"
  note v = valid_sector [OF assms(1,2)]
  have ok: "drive_ok (d\<lparr>f_FAT := ?b\<rparr>)" using assms(1) by (simp add: drive_ok_def)
  have "same_disk (set_sector (table_sector d x) ?b d) ?d" by (simp add: same_disk_def)
  moreover note t = set_table_ok(1) [OF assms(1-3)]
  ultimately have "disk_is d ?d (cluster_data d) ((raw_next d)(x := v))" using disk_is_trans [OF t disk_is_same] by (simp add: disk_is_def)
  moreover have "set_table_value v (c, d) = (Some (), (c\<lparr>table_value := v\<rparr>, ?d))"
    using write_sectors_ok [OF ok, of "table_sector d x"] v(4) assms(4-6) by (simp add: set_table_value_def bind_io_def write_fat_def)
  moreover have "coherent (c\<lparr>table_value := v\<rparr>, ?d)" using v(4,7) assms(4) by (simp add: coherent_def)
  ultimately show ?thesis by auto
qed

lemma at_cluster_disk_is: "at_cluster x (c, d) \<Longrightarrow> disk_is d d' (cluster_data d) table \<Longrightarrow> f_buf d' = f_buf d \<Longrightarrow> at_cluster x (c\<lparr>table_value := v\<rparr>, d')"
  using disk_is_sector [of d d'] by (auto simp: at_cluster_def disk_is_def)

lemma relink_ok:
  assumes "drive_ok d" and "valid_cluster d x" and "v < W32" and "coherent (c, d)" and "active_cluster c \<noteq> x \<or> buffer_updated c \<or> at_cluster x (c, d)"
  shows "\<exists>c1 d1 c' d'. change_active_cluster x OwnBuf (c, d) = (Some None, (c1, d1)) \<and> same_disk d d1 \<and> table_value c1 = fat_next d x \<and>
    FAT_entry_offset c1 = 4 * x mod ATA_SECTOR_SIZE \<and> f_FAT d1 = secs d ! table_sector d x \<and>
    set_table_value v (c1, d1) = (Some (), (c', d')) \<and> disk_is d d' (cluster_data d) ((raw_next d)(x := v)) \<and> coherent (c', d') \<and> at_cluster x (c', d')"
proof -
  obtain c1 d1 where o1: "change_active_cluster x OwnBuf (c, d) = (Some None, (c1, d1))" "same_disk d d1" "at_cluster x (c1, d1)"
      "FAT_sector c1 = table_sector d x" "FAT_entry_offset c1 = 4 * x mod ATA_SECTOR_SIZE" "table_value c1 = fat_next d x"
      "f_FAT d1 = secs d ! table_sector d x"
    using change_own_ok [OF assms(1,2,4,5)] by blast
  note v = same_disk_views [OF o1(2)]
  obtain d' where "set_table_value v (c1, d1) = (Some (), (c1\<lparr>table_value := v\<rparr>, d'))" "disk_is d1 d' (cluster_data d1) ((raw_next d1)(x := v))"
      "coherent (c1\<lparr>table_value := v\<rparr>, d')" "f_buf d' = f_buf d1"
    using set_table_value_ok [of d1 x v c1] assms(1,2,3) o1 unfolding v by blast
  moreover from this(2) have "disk_is d d' (cluster_data d) ((raw_next d)(x := v))"
    using disk_is_same [OF o1(2) assms(1)] disk_is_trans unfolding v by blast
  moreover have "at_cluster x (c1\<lparr>table_value := v\<rparr>, d')" using at_cluster_disk_is o1(3) calculation(2,4) by blast
  ultimately show ?thesis using o1 by blast
qed

lemma chain_disk_is:
  assumes "disk_is d d' data table" and "\<And>y. y \<in> set ys \<Longrightarrow> table y mod 0x10000000 = fat_next d y"
  shows "chain d' x ys = chain d x ys"
  using assms(2) by (induction ys arbitrary: x) (use assms(1) in \<open>auto simp: disk_is_next [OF assms(1)] disk_is_def\<close>)

lemma file_data_disk_is:
  assumes "disk_is d d' data table" and "\<And>y. y \<in> set ys \<Longrightarrow> data y = cluster_data d y"
  shows "file_data d' ys = file_data d ys"
  using assms by (auto simp: file_data_def disk_is_def intro!: arg_cong [of _ _ concat])

section \<open>The bytes of a file\<close>

text \<open>Writing the data of the cluster that the buffer is for.\<close>

lemma write_cluster_ok:
  assumes "drive_ok d" and "valid_cluster d x" and "active_sector c = data_sector d x" and "coherent (c, d)"
    and "length b = ATA_SECTOR_SIZE"
  shows "\<exists>d'. write_data_sectors (active_sector c) b own (c, d) = (Some (), (c\<lparr>buffer_updated := \<not> own\<rparr>, d')) \<and> d' = set_sector (data_sector d x) b d \<and>
    disk_is d d' ((cluster_data d)(x := b)) (raw_next d) \<and> coherent (c\<lparr>buffer_updated := \<not> own\<rparr>, d')"
proof -
  have "data_sector d x < length (secs d)" using assms(2) by (simp add: valid_cluster_def)
  moreover have "first_data_sector (f_bs d) \<le> data_sector d x" by (simp add: data_sector_def)
  ultimately show ?thesis
    using assms(3,4) write_sectors_ok [OF assms(1)] set_data_ok [OF assms(1,2,5)] by (auto simp: write_data_sectors_def coherent_def)
qed

lemma write_clusters_step:
  assumes "drive_ok d" and "valid_cluster d x" and "coherent (c, d)" and "active_cluster c \<noteq> x" and "wrote < length bytes"
  defines "n \<equiv> min (length bytes - wrote) ATA_SECTOR_SIZE"
  defines "b \<equiv> take ATA_SECTOR_SIZE (drop wrote bytes) @ drop n (cluster_data d x)"
  shows "\<exists>c' d'. write_clusters bytes wrote x (c, d) = write_clusters bytes (wrote + n) (fat_next d x) (c', d') \<and> length b = ATA_SECTOR_SIZE \<and>
    disk_is d d' ((cluster_data d)(x := b)) (raw_next d) \<and> coherent (c', d') \<and> active_cluster c' = x"
proof -
  let ?rem = "length bytes - wrote" and ?own = "length bytes - wrote < ATA_SECTOR_SIZE"
  have lx: "length (cluster_data d x) = ATA_SECTOR_SIZE" by (rule length_cluster_data [OF assms(1,2)])
  then have lb: "length b = ATA_SECTOR_SIZE" by (auto simp: b_def n_def min_def)
  obtain c1 d1 where o1: "change_active_cluster x OwnBuf (c, d) = (Some None, (c1, d1))" "same_disk d d1" "coherent (c1, d1)" "at_cluster x (c1, d1)"
      "table_value c1 = fat_next d x"
    using change_own_ok [OF assms(1-3)] assms(4) by blast
  note v = same_disk_views [OF o1(2)]
  define d2 where "d2 = (if ?rem \<ge> ATA_SECTOR_SIZE then d1 else d1\<lparr>f_buf := b\<rparr>)"
  have sd: "same_disk d d2" using o1(2) by (simp add: d2_def same_disk_def)
  note v2 = same_disk_views [OF sd]
  have buf: "f_buf d1 = cluster_data d x" using o1(4) v by (simp add: at_cluster_def)
  have b: "?own \<Longrightarrow> blit (f_buf d1) 0 (drop wrote bytes) = b" "\<not> ?own \<Longrightarrow> take ATA_SECTOR_SIZE (drop wrote bytes) = b"
    using lx by (auto simp: b_def n_def buf blit_def)
  have "active_sector c1 = data_sector d2 x" using o1(4) v v2 by (simp add: at_cluster_def)
  moreover have "coherent (c1, d2)" using o1(3) by (simp add: d2_def coherent_def)
  ultimately obtain d' where w: "write_data_sectors (active_sector c1) b ?own (c1, d2) = (Some (), (c1\<lparr>buffer_updated := \<not> ?own\<rparr>, d'))"
      "disk_is d2 d' ((cluster_data d)(x := b)) (raw_next d)" "coherent (c1\<lparr>buffer_updated := \<not> ?own\<rparr>, d')"
    using write_cluster_ok [of d2 x c1 b ?own] assms(1,2) lb unfolding v2 by blast
  have "x < CLUSTER_MIN_EOC" using assms(2) by (simp add: valid_cluster_def)
  moreover have "(if ?own then ?rem else ATA_SECTOR_SIZE) = n" by (simp add: n_def)
  ultimately have "write_clusters bytes wrote x (c, d) = write_clusters bytes (wrote + n) (fat_next d x) (c1\<lparr>buffer_updated := \<not> ?own\<rparr>, d')"
    using assms(5) o1(1,5) w(1) b by (subst write_clusters.simps) (cases ?own; simp add: d2_def)
  moreover have "disk_is d d' ((cluster_data d)(x := b)) (raw_next d)"
    using disk_is_trans [OF disk_is_same [OF sd assms(1)] w(2)] .
  moreover have "active_cluster (c1\<lparr>buffer_updated := \<not> ?own\<rparr>) = x" using o1(4) by (simp add: at_cluster_def)
  ultimately show ?thesis using w(3) lb by blast
qed

lemma write_clusters_ok:
  assumes "drive_ok d" and "chain d x xs" and "coherent (c, d)" and "active_cluster c \<notin> set xs" and "wrote \<le> length bytes"
    and "length bytes - wrote \<le> ATA_SECTOR_SIZE * length xs"
  shows "\<exists>s' data. write_clusters bytes wrote x (c, d) = (Some (), s') \<and> disk_is d (snd s') data (raw_next d) \<and>
    (\<forall>y. y \<notin> set xs \<longrightarrow> data y = cluster_data d y) \<and> concat (map data xs) = drop wrote bytes @ drop (length bytes - wrote) (file_data d xs)"
  using assms
proof (induction xs arbitrary: c d x wrote)
  case Nil
  then show ?case using disk_is_same [OF same_disk_refl Nil.prems(1)] by (subst write_clusters.simps) (auto simp: file_data_def)
next
  case (Cons y ys)
  have y: "x = y" "valid_cluster d y" "chain d (fat_next d y) ys" "y \<notin> set ys" "active_cluster c \<noteq> y"
    using Cons.prems(2,4) chain_distinct [OF Cons.prems(2)] by auto
  show ?case
  proof (cases "wrote < length bytes")
    case False
    then have "write_clusters bytes wrote x (c, d) = (Some (), (c, d))" by (subst write_clusters.simps) simp
    moreover have "concat (map (cluster_data d) (y # ys)) = drop wrote bytes @ drop (length bytes - wrote) (file_data d (y # ys))"
      using False Cons.prems(5) by (simp add: file_data_def)
    ultimately show ?thesis using disk_is_same [OF same_disk_refl Cons.prems(1)]
      by (intro exI [of _ "(c, d)"] exI [of _ "cluster_data d"]) simp
  next
    case True
    let ?n = "min (length bytes - wrote) ATA_SECTOR_SIZE"
    let ?b = "take ATA_SECTOR_SIZE (drop wrote bytes) @ drop ?n (cluster_data d y)"
    obtain c1 d1 where o1: "write_clusters bytes wrote y (c, d) = write_clusters bytes (wrote + ?n) (fat_next d y) (c1, d1)"
        "disk_is d d1 ((cluster_data d)(y := ?b)) (raw_next d)" "coherent (c1, d1)" "active_cluster c1 = y"
      using write_clusters_step [OF Cons.prems(1) y(2) Cons.prems(3) y(5) True] by blast
    have d1: "drive_ok d1" "cluster_data d1 = (cluster_data d)(y := ?b)" "raw_next d1 = raw_next d" using o1(2) by (auto simp: disk_is_def)
    have "chain d1 (fat_next d y) ys" using chain_disk_is [OF o1(2)] y(3) by (simp add: fat_next_def)
    moreover have "active_cluster c1 \<notin> set ys" "wrote + ?n \<le> length bytes" "length bytes - (wrote + ?n) \<le> ATA_SECTOR_SIZE * length ys"
      using o1(4) y(4) True Cons.prems(6) by auto
    ultimately obtain s' data where s': "write_clusters bytes (wrote + ?n) (fat_next d y) (c1, d1) = (Some (), s')" "disk_is d1 (snd s') data (raw_next d1)"
        "\<forall>z. z \<notin> set ys \<longrightarrow> data z = cluster_data d1 z"
        "concat (map data ys) = drop (wrote + ?n) bytes @ drop (length bytes - (wrote + ?n)) (file_data d1 ys)"
      using Cons.IH [OF d1(1) _ o1(3)] by blast
    have fd: "file_data d1 ys = file_data d ys" by (rule file_data_disk_is [OF o1(2)]) (use y(4) in auto)
    have lx: "length (cluster_data d y) = ATA_SECTOR_SIZE" by (rule length_cluster_data [OF Cons.prems(1) y(2)])
    have "data y = ?b" using s'(3) y(4) d1(2) by simp
    moreover have "?b @ drop (wrote + ?n) bytes @ drop (length bytes - (wrote + ?n)) (file_data d ys) =
        drop wrote bytes @ drop (length bytes - wrote) (file_data d (y # ys))"
    proof (cases "length bytes - wrote < ATA_SECTOR_SIZE")
      case True
      then show ?thesis using lx by (simp add: file_data_def)
    next
      case False
      then have "take ATA_SECTOR_SIZE (drop wrote bytes) @ drop (wrote + ATA_SECTOR_SIZE) bytes = drop wrote bytes"
        by (metis append_take_drop_id drop_drop add.commute)
      then show ?thesis using lx False by (simp add: file_data_def)
    qed
    ultimately have "concat (map data (y # ys)) = drop wrote bytes @ drop (length bytes - wrote) (file_data d (y # ys))"
      using s'(4) fd by simp
    moreover have "\<forall>z. z \<notin> set (y # ys) \<longrightarrow> data z = cluster_data d z" using s'(3) d1(2) by auto
    ultimately show ?thesis using o1(1) s'(1) disk_is_trans [OF o1(2) s'(2)] d1(3) y(1) by metis
  qed
qed

end
