(* ===== verification/FatDir.thy ===== *)
theory FatDir
  imports FatWrite
begin

text \<open>
  Directory entries in the bytes of a sector, their names, and what rewriting the entry of a file
  leaves of its directory.
\<close>

section \<open>Entries\<close>

definition wf_entry :: "DirEntry \<Rightarrow> bool" where
  "wf_entry e \<longleftrightarrow> length (de_name e) = 11 \<and> NTRes e < 256 \<and> creation_time_tenth e < 256 \<and> creation_time e < 65536 \<and> creation_date e < 65536 \<and>
     last_access_date e < 65536 \<and> first_cluster_high e < 65536 \<and> write_time e < 65536 \<and> write_date e < 65536 \<and>
     first_cluster_low e < 65536 \<and> file_size e < W32"

lemma le_field_less: "le_field off n bytes < 256 ^ n"
proof -
  have "le_field off n bytes < 256 ^ length (take n (drop off bytes))" unfolding le_field_def by (rule le_val_less)
  also have "\<dots> \<le> 256 ^ n" by (rule power_increasing) auto
  finally show ?thesis .
qed

lemma wf_decode: "length bytes = 32 \<Longrightarrow> wf_entry (decode_entry bytes)"
  using le_field_less [of _ 1 bytes] le_field_less [of _ 2 bytes] le_field_less [of _ 4 bytes]
  by (simp add: wf_entry_def decode_entry_def)

lemma length_encode [simp]: "wf_entry e \<Longrightarrow> length (encode_entry e) = 32"
  by (simp add: wf_entry_def encode_entry_def)

lemma decode_encode_entry: "wf_entry e \<Longrightarrow> decode_entry (encode_entry e) = e"
  by (cases e) (simp add: wf_entry_def decode_entry_def encode_entry_def le_field_def le_val_le_bytes nth_append unat_of_nat)

lemma raw_entry_put:
  assumes "wf_entry e" and "32 * Suc i \<le> length buf" and "32 * Suc k \<le> length buf"
  shows "raw_entry (put_entry i e buf) k = (if k = i then encode_entry e else raw_entry buf k)"
proof -
  have "32 * i + length (encode_entry e) \<le> length buf" using assms(1,2) by simp
  note nth = nth_blit [OF this]
  have apart: "k = i \<or> 32 * k + 32 \<le> 32 * i \<or> 32 * i + 32 \<le> 32 * k" by linarith
  then show ?thesis unfolding raw_entry_def put_entry_def
    by (intro nth_equalityI) (use assms nth in \<open>auto simp: nth_append\<close>)
qed

lemma entry_at_put:
  assumes "wf_entry e" and "32 * Suc i \<le> length buf" and "32 * Suc k \<le> length buf"
  shows "entry_at (put_entry i e buf) k = (if k = i then e else entry_at buf k)"
  using raw_entry_put [OF assms] assms(1) by (simp add: entry_at_def decode_encode_entry)

lemma wf_entry_at: "32 * Suc i \<le> length buf \<Longrightarrow> wf_entry (entry_at buf i)"
  by (simp add: entry_at_def raw_entry_def wf_decode)

lemma length_put_entry [simp]: "wf_entry e \<Longrightarrow> 32 * Suc i \<le> length buf \<Longrightarrow> length (put_entry i e buf) = length buf"
  by (simp add: put_entry_def)

section \<open>The entry found for a name\<close>

lemma scan_dir_bounds: "scan_dir buf name j found w = Some i \<Longrightarrow> j \<le> i \<and> i < 16"
proof (induction buf name j found w rule: scan_dir.induct)
  case (1 buf name j found w)
  show ?case
    using 1(2) 1(1) [OF _ _ refl refl refl] by (subst (asm) scan_dir.simps) (fastforce simp: Let_def split: if_splits)
qed

lemma scan_dir_put:
  assumes "scan_dir buf name j found w = Some i" and "length buf = ATA_SECTOR_SIZE" and "wf_entry e"
    and "de_name e = de_name (entry_at buf i)" and "de_attrs e = de_attrs (entry_at buf i)"
  shows "scan_dir (put_entry i e buf) name j found w = Some i"
  using assms(1)
proof (induction "16 - j" arbitrary: j found w)
  case 0
  then show ?case using scan_dir_bounds [OF 0(2)] by simp
next
  case (Suc n)
  note b = scan_dir_bounds [OF Suc.prems]
  have bounds: "32 * Suc i \<le> length buf" "32 * Suc j \<le> length buf" using b assms(2) by auto
  have raw: "j \<noteq> i \<Longrightarrow> raw_entry (put_entry i e buf) j = raw_entry buf j" using raw_entry_put [OF assms(3) bounds] by simp
  have ent: "j \<noteq> i \<Longrightarrow> entry_at (put_entry i e buf) j = entry_at buf j" using entry_at_put [OF assms(3) bounds] by simp
  have at: "entry_at (put_entry i e buf) i = e" using entry_at_put [OF assms(3) bounds(1) bounds(1)] by simp
  have same: "is_free e = is_free (entry_at buf i)" "is_LFN e = is_LFN (entry_at buf i)" "get_name e = get_name (entry_at buf i)"
    using assms(4,5) by (simp_all add: is_free_def is_LFN_def get_name_def is_directory_def)
  show ?case
  proof (cases "j = i")
    case True
    have no: "scan_dir buf name (Suc i) f w' \<noteq> Some i" for f w' using scan_dir_bounds [of buf name "Suc i" f w' i] by auto
    show ?thesis using Suc.prems no at same b unfolding True
      by (subst scan_dir.simps, subst (asm) scan_dir.simps) (auto simp: Let_def split: if_splits)
  next
    case False
    have IH: "scan_dir buf name (Suc j) f w' = Some i \<Longrightarrow> scan_dir (put_entry i e buf) name (Suc j) f w' = Some i" for f w'
      using Suc.hyps(1) [of "Suc j" f w'] Suc.hyps(2) by simp
    show ?thesis using Suc.prems IH False raw [OF False] ent [OF False]
      by (subst scan_dir.simps, subst (asm) scan_dir.simps) (auto simp: Let_def split: if_splits)
  qed
qed

text \<open>
  The entry of a file rewritten with its name and attributes: the directory still has the name, at
  the same place, and the entry found there is the new one.
\<close>

lemma dir_find_cong: "(\<And>y. y \<in> set ds \<Longrightarrow> cluster_data d' y = cluster_data d y) \<Longrightarrow> dir_find d' ds name = dir_find d ds name"
  by (induction ds) (auto split: option.splits)

lemma dir_find_put:
  assumes "dir_find d ds name = Some (x, i)" and "distinct ds" and "\<And>y. y \<in> set ds \<Longrightarrow> y \<noteq> x \<Longrightarrow> cluster_data d' y = cluster_data d y"
    and "scan_dir (cluster_data d' x) name 0 False [] = Some i"
  shows "dir_find d' ds name = Some (x, i)"
  using assms(1-3)
proof (induction ds)
  case (Cons y ys)
  show ?case
  proof (cases "y = x")
    case True
    then show ?thesis using assms(4) by simp
  next
    case False
    then have "scan_dir (cluster_data d y) name 0 False [] = None" using Cons.prems(1) by (auto split: option.splits)
    then show ?thesis using Cons False by simp
  qed
qed simp

lemma named_put:
  assumes "named d lba ds name x i" and "disk_is d d' data table" and "data x = put_entry i e (cluster_data d x)"
    and "wf_entry e" and "de_name e = de_name (the_entry d x i)" and "de_attrs e = de_attrs (the_entry d x i)"
    and "\<And>y. y \<in> set ds \<Longrightarrow> y \<noteq> x \<Longrightarrow> data y = cluster_data d y" and "\<And>y. y \<in> set ds \<Longrightarrow> table y = raw_next d y"
  shows "named d' lba ds name x i" and "the_entry d' x i = e"
proof -
  have n: "drive_ok d" "chain d lba ds" "dir_find d ds name = Some (x, i)" using assms(1) by (auto simp: named_def)
  note f = dir_find_cluster [OF n(3)]
  have "valid_cluster d x" using chain_valid [OF n(2)] f by blast
  then have lx: "length (cluster_data d x) = ATA_SECTOR_SIZE" by (rule length_cluster_data [OF n(1)])
  have i: "i < 16" using scan_dir_bounds [of "cluster_data d x" name 0 False "[]" i] f by blast
  have data: "cluster_data d' = data" "drive_ok d'" using assms(2) by (auto simp: disk_is_def)
  have "scan_dir (cluster_data d' x) name 0 False [] = Some i"
    using scan_dir_put [OF _ lx assms(4)] f assms(3,5,6) data by (simp add: the_entry_def)
  then have "dir_find d' ds name = Some (x, i)"
    using dir_find_put [OF n(3) chain_distinct [OF n(2)]] assms(7) data by simp
  moreover have "chain d' lba ds" using chain_disk_is [OF assms(2)] assms(8) n(2) by (simp add: fat_next_def)
  ultimately show "named d' lba ds name x i" using assms(1) data by (simp add: named_def)
  show "the_entry d' x i = e" using entry_at_put [OF assms(4), of i "cluster_data d x" i] i lx assms(3) data by (simp add: the_entry_def)
qed

lemma persist_ok:
  assumes "drive_ok d" and "valid_cluster d x" and "coherent (c, d)" and "at_cluster x (c, d)" and "i < 16" and "wf_entry (g (entry_at (f_buf d) i))"
  defines "b \<equiv> put_entry i (g (entry_at (f_buf d) i)) (f_buf d)"
  shows "\<exists>c' d'. persist_entry (update_entry i g (c, d)) = (Some (), (c', d')) \<and> disk_is d d' ((cluster_data d)(x := b)) (raw_next d) \<and>
    coherent (c', d') \<and> at_cluster x (c', d')"
proof -
  let ?d = "d\<lparr>f_buf := b\<rparr>"
  have a: "f_buf d = cluster_data d x" "active_sector c = data_sector d x" "active_cluster c = x" using assms(4) by (auto simp: at_cluster_def)
  have lb: "length b = ATA_SECTOR_SIZE" using length_cluster_data [OF assms(1,2)] assms(5,6) by (simp add: b_def a(1))
  have sd: "same_disk d ?d" by (simp add: same_disk_def)
  note v = same_disk_views [OF sd]
  have "coherent (c, ?d)" using assms(3) by (simp add: coherent_def)
  then obtain d' where d': "write_data_sectors (active_sector c) b True (c, ?d) = (Some (), (c\<lparr>buffer_updated := False\<rparr>, d'))"
      "d' = set_sector (data_sector d x) b ?d" "disk_is ?d d' ((cluster_data d)(x := b)) (raw_next d)" "coherent (c\<lparr>buffer_updated := False\<rparr>, d')"
    using write_cluster_ok [of ?d x c b True] assms(1,2) lb a(2) unfolding v by auto
  have dd: "disk_is d d' ((cluster_data d)(x := b)) (raw_next d)" using disk_is_trans [OF disk_is_same [OF sd assms(1)] d'(3)] .
  then have "at_cluster x (c\<lparr>buffer_updated := False\<rparr>, d')"
    using a d'(2) disk_is_sector [OF dd] by (simp add: at_cluster_def disk_is_def)
  then show ?thesis using d'(1,4) dd by (auto simp: persist_entry_def update_entry_def b_def)
qed

end
