(* ===== verification/FatResize.thy ===== *)
theory FatResize
  imports FatDir
begin

text \<open>
  Changing the size of a file: the chain that growing or shrinking leaves, the clusters it takes and
  gives back, and that whatever is written to a file of any size is what is read back.
\<close>

section \<open>Links of the table\<close>

text \<open>The table after each cluster of a list has been linked to the next one, and the last to \<open>v\<close>.\<close>

primrec links :: "nat list \<Rightarrow> nat \<Rightarrow> (nat \<Rightarrow> nat) \<Rightarrow> nat \<Rightarrow> nat" where
  "links [] v table = table"
| "links (x # xs) v table = (links xs v table)(x := (case xs of [] \<Rightarrow> v | y # ys \<Rightarrow> y))"

lemma links_other: "y \<notin> set xs \<Longrightarrow> links xs v table y = table y"
  by (induction xs) auto

lemma links_less:
  assumes "y \<in> set xs" and "v < b" and "\<And>z. z \<in> set xs \<Longrightarrow> z < b"
  shows "links xs v table y < b"
  using assms(1,3)
proof (induction xs)
  case (Cons x xs)
  then show ?case using assms(2) by (cases xs) auto
qed simp

lemma links_table:
  assumes "v < 0x10000000" and "\<And>z. z \<in> set xs \<Longrightarrow> valid_cluster d z"
  shows "links xs v table y = table y \<or> y \<in> set xs \<and> links xs v table y < 0x10000000"
proof (cases "y \<in> set xs")
  case True
  moreover have "z < 0x10000000" if "z \<in> set xs" for z using assms(2) [OF that] by (simp add: valid_cluster_def)
  ultimately show ?thesis using links_less [OF _ assms(1)] by blast
qed (simp add: links_other)

lemma links_upd: "y \<notin> set xs \<Longrightarrow> links xs v (table(y := a)) = (links xs v table)(y := a)"
  by (induction xs) (auto simp: fun_upd_twist)

lemma chain_links:
  assumes "\<And>y. y \<in> set xs \<Longrightarrow> valid_cluster d y \<and> raw_next d y = links xs CLUSTER_EOC table y" and "distinct xs" and "xs \<noteq> []"
  shows "chain d (hd xs) xs"
  using assms
proof (induction xs)
  case (Cons x xs)
  have x: "valid_cluster d x" "raw_next d x = (case xs of [] \<Rightarrow> CLUSTER_EOC | y # ys \<Rightarrow> y)" using Cons.prems(1) [of x] by auto
  show ?case
  proof (cases xs)
    case Nil
    then show ?thesis using x by (simp add: fat_next_def)
  next
    case (Cons y ys)
    have "raw_next d z = links xs CLUSTER_EOC table z" "valid_cluster d z" if "z \<in> set xs" for z
      using that Cons.prems(1) [of z] Cons.prems(2) by auto
    moreover from this(2) [of y] have "y mod 0x10000000 = y" using Cons by (simp add: valid_cluster_def)
    ultimately show ?thesis using Cons.IH Cons.prems(2) x Cons by (simp add: fat_next_def)
  qed
qed simp

lemma chain_prefix:
  assumes "chain d x (pre @ rest)" and "disk_is d d' data table" and "\<And>y. y \<in> set pre \<Longrightarrow> table y = raw_next d y"
    and "\<And>y. chain d y rest \<Longrightarrow> chain d' y zs"
  shows "chain d' x (pre @ zs)"
  using assms(1,3)
proof (induction pre arbitrary: x)
  case (Cons a pre)
  moreover have "fat_next d' a = fat_next d a" using Cons.prems(2) disk_is_next [OF assms(2)] by (simp add: fat_next_def)
  ultimately show ?case using assms(2) by (auto simp: disk_is_def)
qed (use assms(4) in simp)

lemma walk_chain_ok:
  assumes "drive_ok d" and "chain d x xs" and "n \<le> length xs" and "coherent (c, d)" and "active_cluster c \<notin> set xs"
  shows "\<exists>y c' d'. walk_chain n x (c, d) = (Some y, (c', d')) \<and> chain d y (drop n xs) \<and> same_disk d d' \<and> coherent (c', d') \<and>
    active_cluster c' \<notin> set (drop n xs) \<and> active_cluster c' \<in> insert (active_cluster c) (set xs)"
  using assms
proof (induction n arbitrary: x xs c d)
  case 0
  then show ?case by (auto simp: return_io_def)
next
  case (Suc n)
  then obtain ys where xs: "xs = x # ys" "valid_cluster d x" "chain d (fat_next d x) ys" by (cases xs) auto
  obtain c1 d1 where o1: "change_active_cluster x OwnBuf (c, d) = (Some None, (c1, d1))" "same_disk d d1" "coherent (c1, d1)"
      "at_cluster x (c1, d1)" "table_value c1 = fat_next d x"
    using change_own_ok [OF Suc.prems(1) xs(2) Suc.prems(4)] Suc.prems(5) xs(1) by auto
  have "drive_ok d1" using Suc.prems(1) same_disk_views(7) [OF o1(2)] by simp
  moreover have "chain d1 (fat_next d x) ys" using xs(3) chain_same_disk [OF o1(2)] by simp
  moreover have "active_cluster c1 \<notin> set ys" "n \<le> length ys" using chain_distinct [OF Suc.prems(2)] xs o1(4) Suc.prems(3) by (auto simp: at_cluster_def)
  ultimately obtain y c' d' where "walk_chain n (fat_next d x) (c1, d1) = (Some y, (c', d'))" "chain d1 y (drop n ys)" "same_disk d1 d'"
      "coherent (c', d')" "active_cluster c' \<notin> set (drop n ys)" "active_cluster c' \<in> insert (active_cluster c1) (set ys)"
    using Suc.IH [OF _ _ _ o1(3)] by blast
  moreover have "active_cluster c1 = x" using o1(4) by (simp add: at_cluster_def)
  ultimately show ?case using o1(1,5) xs(1) chain_same_disk [OF o1(2)] same_disk_trans [OF o1(2)] by (auto simp: bind_io_def)
qed

lemma append_clusters_ok:
  assumes "drive_ok d" and "\<And>z. z \<in> set (y # ys) \<Longrightarrow> valid_cluster d z" and "distinct (y # ys)" and "coherent (c, d)"
    and "active_cluster c \<notin> set (y # ys)"
  shows "\<exists>c' d'. bind_io (append_clusters ys y) (\<lambda>last. bind_io (change_active_cluster last OwnBuf) (\<lambda>_. set_table_value CLUSTER_EOC)) (c, d) =
      (Some (), (c', d')) \<and> disk_is d d' (cluster_data d) (links (y # ys) CLUSTER_EOC (raw_next d))"
  using assms
proof (induction ys arbitrary: y c d)
  case Nil
  then obtain c1 d1 c' d' where "change_active_cluster y OwnBuf (c, d) = (Some None, (c1, d1))" "set_table_value CLUSTER_EOC (c1, d1) = (Some (), (c', d'))"
      "disk_is d d' (cluster_data d) ((raw_next d)(y := CLUSTER_EOC))"
    using relink_ok [OF Nil.prems(1), of y CLUSTER_EOC c] by auto
  then show ?case by (simp add: bind_io_def return_io_def fun_upd_def)
next
  case (Cons a ys)
  have v: "valid_cluster d y" "a < W32" using Cons.prems(2) [of y] Cons.prems(2) [of a] by (auto simp: valid_cluster_def)
  obtain c1 d1 c2 d2 where o1: "change_active_cluster y OwnBuf (c, d) = (Some None, (c1, d1))" "set_table_value a (c1, d1) = (Some (), (c2, d2))"
      "disk_is d d2 (cluster_data d) ((raw_next d)(y := a))" "coherent (c2, d2)" "at_cluster y (c2, d2)"
    using relink_ok [OF Cons.prems(1) v Cons.prems(4)] Cons.prems(5) by auto
  have d2: "drive_ok d2" "valid_cluster d2 = valid_cluster d" "cluster_data d2 = cluster_data d" "raw_next d2 = (raw_next d)(y := a)"
    using o1(3) by (auto simp: disk_is_def)
  have "active_cluster c2 \<notin> set (a # ys)" using o1(5) Cons.prems(3) by (simp add: at_cluster_def)
  moreover have "\<And>z. z \<in> set (a # ys) \<Longrightarrow> valid_cluster d2 z" "distinct (a # ys)" using Cons.prems(2,3) d2(2) by auto
  ultimately obtain c' d' where "bind_io (append_clusters ys a) (\<lambda>last. bind_io (change_active_cluster last OwnBuf) (\<lambda>_. set_table_value CLUSTER_EOC)) (c2, d2) =
      (Some (), (c', d'))" "disk_is d2 d' (cluster_data d2) (links (a # ys) CLUSTER_EOC (raw_next d2))"
    using Cons.IH [OF d2(1) _ _ o1(4)] by blast
  moreover have "links (a # ys) CLUSTER_EOC (raw_next d2) = links (y # a # ys) CLUSTER_EOC (raw_next d)"
    using Cons.prems(3) d2(4) links_upd [of y "a # ys" CLUSTER_EOC "raw_next d" a] by simp
  moreover have "bind_io (append_clusters (a # ys) y) k (c, d) = bind_io (append_clusters ys a) k (c2, d2)" for k :: "nat \<Rightarrow> unit fat_io"
    using o1(1,2) by (simp add: bind_io_def)
  ultimately show ?case using disk_is_trans [OF o1(3)] d2(3) by metis
qed

text \<open>The links of the first \<open>n\<close> clusters of a chain are cleared.\<close>

definition cleared :: "nat list \<Rightarrow> (nat \<Rightarrow> nat) \<Rightarrow> nat \<Rightarrow> nat" where
  "cleared xs table y = (if y \<in> set xs then 0 else table y)"

lemma clear_chain_ok:
  assumes "drive_ok d" and "chain d x xs" and "\<And>y. y \<in> set xs \<Longrightarrow> raw_next d y < 0x10000000" and "n \<le> length xs" and "coherent (c, d)"
    and "active_cluster c \<notin> set xs"
  shows "\<exists>s'. clear_chain n x (c, d) = (Some (), s') \<and> disk_is d (snd s') (cluster_data d) (cleared (take n xs) (raw_next d))"
  using assms
proof (induction n arbitrary: x xs c d)
  case 0
  then show ?case using disk_is_same [OF same_disk_refl 0(1)] by (simp add: return_io_def cleared_def [abs_def])
next
  case (Suc n)
  then obtain ys where xs: "xs = x # ys" "valid_cluster d x" "chain d (fat_next d x) ys" by (cases xs) auto
  have nin: "x \<notin> set ys" using chain_distinct [OF Suc.prems(2)] xs(1) by simp
  have nx: "fat_next d x = raw_next d x" using Suc.prems(3) [of x] xs(1) by (simp add: fat_next_def)
  obtain c1 d1 c2 d2 where o1: "change_active_cluster x OwnBuf (c, d) = (Some None, (c1, d1))" "FAT_entry_offset c1 = 4 * x mod ATA_SECTOR_SIZE"
      "f_FAT d1 = secs d ! table_sector d x" "set_table_value 0 (c1, d1) = (Some (), (c2, d2))"
      "disk_is d d2 (cluster_data d) ((raw_next d)(x := 0))" "coherent (c2, d2)" "at_cluster x (c2, d2)"
    using relink_ok [OF Suc.prems(1) xs(2) _ Suc.prems(5), of 0] Suc.prems(6) xs(1) by auto
  have "le_field (FAT_entry_offset c1) 4 (f_FAT d1) = raw_next d x" using o1(2,3) xs(2) by (simp add: raw_next_def)
  then have step: "clear_chain (Suc n) x (c, d) = clear_chain n (fat_next d x) (c2, d2)" using o1(1,4) nx by (simp add: bind_io_def)
  have d2: "drive_ok d2" "cluster_data d2 = cluster_data d" "raw_next d2 = (raw_next d)(x := 0)" using o1(5) by (auto simp: disk_is_def)
  have "chain d2 (fat_next d x) ys = chain d (fat_next d x) ys"
    by (rule chain_disk_is [OF o1(5)]) (use nin in \<open>auto simp: fat_next_def\<close>)
  then have "chain d2 (fat_next d x) ys" using xs(3) by simp
  moreover have "raw_next d2 y < 0x10000000" if "y \<in> set ys" for y using Suc.prems(3) that xs(1) d2(3) by auto
  moreover have "n \<le> length ys" "active_cluster c2 \<notin> set ys" using Suc.prems(4) xs(1) nin o1(7) by (auto simp: at_cluster_def)
  ultimately obtain s' where "clear_chain n (fat_next d x) (c2, d2) = (Some (), s')" "disk_is d2 (snd s') (cluster_data d2) (cleared (take n ys) (raw_next d2))"
    using Suc.IH [OF d2(1) _ _ _ o1(6)] by blast
  moreover have "cleared (take n ys) (raw_next d2) = cleared (take (Suc n) xs) (raw_next d)" by (auto simp: cleared_def xs(1) d2(3))
  ultimately show ?case using step disk_is_trans [OF o1(5)] d2(2) by auto
qed

section \<open>Free clusters\<close>

lemma free_in_sector_ok:
  assumes "length acc \<le> n"
  shows "length (free_in_sector n k acc j fat) \<le> n \<and>
    (\<exists>new. free_in_sector n k acc j fat = acc @ new \<and> sorted_wrt (<) new \<and>
      (\<forall>x \<in> set new. k * 128 + j \<le> x \<and> x < k * 128 + 128 \<and> 2 \<le> x \<and> le_field (4 * (x mod 128)) 4 fat = 0))"
  using assms
proof (induction n k acc j fat rule: free_in_sector.induct)
  case (1 n k acc j fat)
  show ?case
  proof (cases "j < 128 \<and> length acc < n")
    case False
    then show ?thesis using 1(2) by (subst (1 2) free_in_sector.simps) auto
  next
    case True
    let ?hit = "le_field (4 * j) 4 fat = 0 \<and> \<not> (k = 0 \<and> j < 2)"
    let ?acc = "if ?hit then acc @ [k * 128 + j] else acc"
    have st: "free_in_sector n k acc j fat = free_in_sector n k ?acc (j + 1) fat" using True by (subst free_in_sector.simps) simp
    have "length ?acc \<le> n" using True by simp
    then obtain new where new: "length (free_in_sector n k ?acc (j + 1) fat) \<le> n" "free_in_sector n k ?acc (j + 1) fat = ?acc @ new" "sorted_wrt (<) new"
        "\<forall>x \<in> set new. k * 128 + (j + 1) \<le> x \<and> x < k * 128 + 128 \<and> 2 \<le> x \<and> le_field (4 * (x mod 128)) 4 fat = 0"
      using 1(1) [OF True] by blast
    let ?new = "(if ?hit then [k * 128 + j] else []) @ new"
    have "free_in_sector n k acc j fat = acc @ ?new" using st new(2) by simp
    moreover have "sorted_wrt (<) ?new" using new(3,4) by auto
    moreover have "\<forall>x \<in> set ?new. k * 128 + j \<le> x \<and> x < k * 128 + 128 \<and> 2 \<le> x \<and> le_field (4 * (x mod 128)) 4 fat = 0"
      using new(4) True by (auto simp: Suc_le_eq intro: order_trans)
    ultimately show ?thesis using new(1) st by metis
  qed
qed

text \<open>What is found is a list of different clusters whose entry in the table is 0.\<close>

definition is_free_cluster :: "fat_drive \<Rightarrow> nat \<Rightarrow> bool" where
  "is_free_cluster d x \<longleftrightarrow> 2 \<le> x \<and> le_field (4 * (x mod 128)) 4 (secs d ! table_sector d x) = 0"

lemma table_sector_128: "table_sector d x = first_fat_sector (f_bs d) + x div 128"
  by (simp add: table_sector_def)

lemma free_clusters_from_ok:
  assumes "drive_ok d" and "free_clusters_from n sector acc d = Some free" and "length acc < n" and "first_fat_sector (f_bs d) \<le> sector"
    and "sorted_wrt (<) acc" and "\<forall>x \<in> set acc. x < (sector - first_fat_sector (f_bs d)) * 128 \<and> is_free_cluster d x"
  shows "length free = n \<and> sorted_wrt (<) free \<and> (\<forall>x \<in> set free. is_free_cluster d x)"
  using assms(2-6)
proof (induction n sector acc d rule: free_clusters_from.induct)
  case (1 n sector acc d')
  let ?k = "sector - first_fat_sector (f_bs d')"
  from 1(2) obtain fat where fat: "sector < total_sectors (f_bs d')" "read_sectors sector (f_dev d') = Some fat"
    by (subst (asm) free_clusters_from.simps) (auto split: if_splits option.splits)
  then have sec: "fat = secs d' ! sector" by (auto simp: read_sectors_def split: if_splits)
  let ?acc = "free_in_sector n ?k acc 0 fat"
  obtain new where new: "length ?acc \<le> n" "?acc = acc @ new" "sorted_wrt (<) new"
      "\<forall>x \<in> set new. ?k * 128 \<le> x \<and> x < ?k * 128 + 128 \<and> 2 \<le> x \<and> le_field (4 * (x mod 128)) 4 fat = 0"
    using free_in_sector_ok [of acc n ?k 0 fat] 1(3) by auto
  have ok: "is_free_cluster d' x" "x < (Suc sector - first_fat_sector (f_bs d')) * 128" if "x \<in> set ?acc" for x
  proof -
    have k: "Suc sector - first_fat_sector (f_bs d') = Suc ?k" using 1(4) by simp
    show "x < (Suc sector - first_fat_sector (f_bs d')) * 128" unfolding k using that 1(6) new(2,4) by (auto simp: trans_less_add1)
    show "is_free_cluster d' x"
    proof (cases "x \<in> set acc")
      case False
      then have x: "?k * 128 \<le> x" "x < ?k * 128 + 128" "2 \<le> x" "le_field (4 * (x mod 128)) 4 fat = 0" using new(2,4) that by auto
      then have "x div 128 = ?k" by (simp add: div_nat_eqI)
      then show ?thesis using x 1(4) by (simp add: is_free_cluster_def table_sector_128 sec)
    qed (use 1(6) in blast)
  qed
  have sorted: "sorted_wrt (<) ?acc" using 1(5,6) new(2-4) by (fastforce simp: sorted_wrt_append)
  show ?case
  proof (cases "length ?acc = n")
    case True
    then show ?thesis using 1(2) fat sorted ok by (subst (asm) free_clusters_from.simps) (auto simp: Let_def)
  next
    case False
    then have "free_clusters_from n (sector + 1) ?acc d' = Some free" using 1(2) fat by (subst (asm) free_clusters_from.simps) (simp add: Let_def)
    moreover have "length ?acc < n" using False new(1) by simp
    ultimately show ?thesis using 1(1) [OF fat refl False] 1(4) sorted ok by simp
  qed
qed

lemma get_free_clusters_ok:
  assumes "drive_ok d" and "get_free_clusters n d = Some free" and "0 < n"
  shows "length free = n" and "distinct free" and "\<And>x. x \<in> set free \<Longrightarrow> valid_cluster d x \<Longrightarrow> raw_next d x = 0"
proof -
  have f: "length free = n" "sorted_wrt (<) free" "\<forall>x \<in> set free. is_free_cluster d x"
    using free_clusters_from_ok [OF assms(1), of n _ "[]" free] assms(2,3) by (auto simp: get_free_clusters_def)
  then show "length free = n" "distinct free" by (auto simp: strict_sorted_iff)
  show "raw_next d x = 0" if "x \<in> set free" "valid_cluster d x" for x
    using f(3) that by (simp add: is_free_cluster_def raw_next_def table_offset)
qed

lemma free_clusters_same_disk: "same_disk d d' \<Longrightarrow> free_clusters_from n sector acc d' = free_clusters_from n sector acc d"
proof (induction n sector acc d rule: free_clusters_from.induct)
  case (1 n sector acc d)
  then show ?case by (subst (1 2) free_clusters_from.simps) (auto simp: same_disk_def Let_def split: option.splits)
qed

lemma get_free_clusters_same_disk: "same_disk d d' \<Longrightarrow> get_free_clusters n d' = get_free_clusters n d"
  by (simp add: get_free_clusters_def free_clusters_same_disk [of d d']) (simp add: same_disk_def)

text \<open>A cluster of a chain has a link, so it is not taken for a free one.\<close>

lemma chain_not_free: "chain d x xs \<Longrightarrow> y \<in> set xs \<Longrightarrow> raw_next d y \<noteq> 0"
proof (induction xs arbitrary: x)
  case (Cons z zs)
  then show ?case by (cases zs) (auto simp: fat_next_def valid_cluster_def)
qed simp

section \<open>Growing\<close>

lemma put_put_entry: "wf_entry a \<Longrightarrow> wf_entry b \<Longrightarrow> 32 * Suc i \<le> length buf \<Longrightarrow> put_entry i a (put_entry i b buf) = put_entry i a buf"
  by (simp add: put_entry_def blit_def min_def)

lemma update_update_entry:
  assumes "wf_entry (h (entry_at (f_buf d) i))" and "wf_entry (g (h (entry_at (f_buf d) i)))" and "32 * Suc i \<le> length (f_buf d)"
  shows "update_entry i g (update_entry i h (c, d)) = update_entry i (\<lambda>e. g (h e)) (c, d)"
  using entry_at_put [OF assms(1) assms(3) assms(3)] put_put_entry [OF assms(2,1,3)] by (simp add: update_entry_def)

abbreviation set_first :: "nat \<Rightarrow> DirEntry \<Rightarrow> DirEntry" where
  "set_first x e \<equiv> e\<lparr>first_cluster_high := x div 65536 mod 65536, first_cluster_low := x mod 65536\<rparr>"

lemma first_set_first: "x < W32 \<Longrightarrow> first_cluster_addr (set_first x e) = x"
proof -
  assume "x < W32"
  then have "x div 65536 mod 65536 = x div 65536" by (simp add: less_mult_imp_div_less)
  then show ?thesis by (simp add: first_cluster_addr_def)
qed

text \<open>Free clusters made the chain of a file that has none, and appended to the first \<open>n\<close> clusters of a chain.\<close>

abbreviation end_chain :: "nat \<Rightarrow> unit fat_io" where
  "end_chain x \<equiv> bind_io (change_active_cluster x OwnBuf) (\<lambda>_. set_table_value CLUSTER_EOC)"

lemma new_chain_ok:
  assumes "drive_ok d" and "coherent (c, d)" and "active_cluster c \<notin> set free" and "\<And>z. z \<in> set free \<Longrightarrow> valid_cluster d z"
    and "distinct free" and "free \<noteq> []"
  shows "\<exists>s' table. bind_io (append_clusters (tl free) (free ! 0)) end_chain (c, d) = (Some (), s') \<and> disk_is d (snd s') (cluster_data d) table \<and>
    chain (snd s') (free ! 0) free \<and> (\<forall>y. table y = raw_next d y \<or> y \<in> set free \<and> table y < 0x10000000)"
proof -
  obtain y ys where free: "free = y # ys" using assms(6) by (cases free) auto
  obtain c' d' where a: "bind_io (append_clusters ys y) end_chain (c, d) = (Some (), (c', d'))"
      "disk_is d d' (cluster_data d) (links (y # ys) CLUSTER_EOC (raw_next d))"
    using append_clusters_ok [OF assms(1) _ _ assms(2), of y ys] assms(3-5) unfolding free by blast
  have "chain d' (hd free) free" by (rule chain_links) (use a(2) assms(4-6) in \<open>auto simp: disk_is_def free\<close>)
  moreover have "links free CLUSTER_EOC (raw_next d) z = raw_next d z \<or> z \<in> set free \<and> links free CLUSTER_EOC (raw_next d) z < 0x10000000" for z
    by (rule links_table [OF _ assms(4)]) simp_all
  ultimately show ?thesis using a unfolding free by (metis list.sel(1,3) nth_Cons_0 snd_conv)
qed

lemma longer_chain_ok:
  assumes "drive_ok d" and "coherent (c, d)" and "chain d f xs" and "n < length xs" and "active_cluster c \<notin> set xs \<union> set free"
    and "\<And>z. z \<in> set free \<Longrightarrow> valid_cluster d z \<and> z \<notin> set xs" and "distinct free"
  shows "\<exists>s' table. bind_io (walk_chain n f) (\<lambda>cluster. bind_io (append_clusters free cluster) end_chain) (c, d) = (Some (), s') \<and>
    disk_is d (snd s') (cluster_data d) table \<and> chain (snd s') f (take (Suc n) xs @ free) \<and>
    (\<forall>y. table y = raw_next d y \<or> y \<in> set (take (Suc n) xs @ free) \<and> table y < 0x10000000)"
proof -
  obtain y c1 d1 where w: "walk_chain n f (c, d) = (Some y, (c1, d1))" "chain d y (drop n xs)" "same_disk d d1" "coherent (c1, d1)"
      "active_cluster c1 \<notin> set (drop n xs)" "active_cluster c1 \<in> insert (active_cluster c) (set xs)"
    using walk_chain_ok [OF assms(1,3) less_imp_le [OF assms(4)] assms(2)] assms(5) by blast
  have dr: "drop n xs = xs ! n # drop (Suc n) xs" using assms(4) by (simp add: Cons_nth_drop_Suc)
  have y: "y = xs ! n" "y \<in> set xs" "valid_cluster d y" using w(2) assms(4) unfolding dr by auto
  note v = same_disk_views [OF w(3)]
  let ?t = "links (y # free) CLUSTER_EOC (raw_next d)"
  have fresh: "distinct (y # free)" "active_cluster c1 \<notin> set (y # free)" using assms(5-7) y w(5,6) unfolding dr by auto
  have valid: "valid_cluster d1 z" if "z \<in> set (y # free)" for z using that y(3) assms(6) v(8) by auto
  have "drive_ok d1" using assms(1) v(7) by simp
  from append_clusters_ok [OF this valid fresh(1) w(4) fresh(2)] obtain c' d' where a: "bind_io (append_clusters free y) end_chain (c1, d1) = (Some (), (c', d'))"
      "disk_is d1 d' (cluster_data d1) (links (y # free) CLUSTER_EOC (raw_next d1))" by blast
  have dd: "disk_is d d' (cluster_data d) ?t" using disk_is_trans [OF disk_is_same [OF w(3) assms(1)] a(2)] unfolding v .
  have "chain d' (hd (y # free)) (y # free)"
    by (rule chain_links) (use dd fresh valid v(8) in \<open>auto simp: disk_is_def\<close>)
  then have tail: "chain d' z (y # free)" if "chain d z (drop n xs)" for z using that y(1) unfolding dr by simp
  have dist: "distinct (take n xs @ drop n xs)" using chain_distinct [OF assms(3)] by simp
  have pre: "?t z = raw_next d z" if "z \<in> set (take n xs)" for z
  proof (rule links_other)
    show "z \<notin> set (y # free)" using dist that assms(6) y(1) set_take_subset [of n xs] unfolding dr by auto
  qed
  have "chain d' f (take n xs @ y # free)" by (rule chain_prefix [OF _ dd pre tail]) (use assms(3) in simp_all)
  moreover have tk: "take n xs @ y # free = take (Suc n) xs @ free" using assms(4) y(1) by (simp add: take_Suc_conv_app_nth)
  moreover have "?t z = raw_next d z \<or> z \<in> set (take n xs @ y # free) \<and> ?t z < 0x10000000" for z
    using links_table [of CLUSTER_EOC "y # free" d1 "raw_next d" z] valid by auto
  moreover have "bind_io (walk_chain n f) (\<lambda>cluster. bind_io (append_clusters free cluster) end_chain) (c, d) = (Some (), (c', d'))"
    using w(1) a(1) by (simp add: bind_io_def)
  ultimately show ?thesis using dd by (metis snd_conv)
qed

section \<open>A file and its entry\<close>

text \<open>
  The file with the entry \<open>i\<close> of the directory cluster \<open>x\<close> and the clusters \<open>xs\<close>, while its directory
  is the one that the drive's buffer holds.
\<close>

definition opened :: "fat_state \<Rightarrow> nat \<Rightarrow> nat \<Rightarrow> bool" where
  "opened s x i \<longleftrightarrow> drive_ok (snd s) \<and> valid_cluster (snd s) x \<and> raw_next (snd s) x \<noteq> 0 \<and> coherent s \<and> at_cluster x s \<and> i < 16"

definition rewritten :: "fat_drive \<Rightarrow> fat_drive \<Rightarrow> nat \<Rightarrow> nat \<Rightarrow> DirEntry \<Rightarrow> (nat \<Rightarrow> nat) \<Rightarrow> bool" where
  "rewritten d d' x i e table \<longleftrightarrow> disk_is d d' ((cluster_data d)(x := put_entry i e (cluster_data d x))) table"

lemma opened_entry:
  assumes "opened (c, d) x i"
  shows "f_buf d = cluster_data d x" and "length (f_buf d) = ATA_SECTOR_SIZE" and "entry_at (f_buf d) i = the_entry d x i" and "wf_entry (the_entry d x i)"
proof -
  show b: "f_buf d = cluster_data d x" using assms by (simp add: opened_def at_cluster_def)
  then show "entry_at (f_buf d) i = the_entry d x i" by (simp add: the_entry_def)
  show l: "length (f_buf d) = ATA_SECTOR_SIZE" using assms length_cluster_data by (simp add: b opened_def)
  show "wf_entry (the_entry d x i)" using wf_entry_at [of i "f_buf d"] assms l by (simp add: the_entry_def b opened_def)
qed

lemma persist_opened:
  assumes "opened (c, d) x i" and "wf_entry (g (the_entry d x i))"
  shows "\<exists>c' d'. persist_entry (update_entry i g (c, d)) = (Some (), (c', d')) \<and> rewritten d d' x i (g (the_entry d x i)) (raw_next d) \<and>
    opened (c', d') x i \<and> the_entry d' x i = g (the_entry d x i)"
proof -
  note e = opened_entry [OF assms(1)]
  have "drive_ok d" "valid_cluster d x" "coherent (c, d)" "at_cluster x (c, d)" "i < 16" using assms(1) by (auto simp: opened_def)
  from persist_ok [OF this, of g] obtain c' d' where p: "persist_entry (update_entry i g (c, d)) = (Some (), (c', d'))"
      "disk_is d d' ((cluster_data d)(x := put_entry i (g (the_entry d x i)) (cluster_data d x))) (raw_next d)" "coherent (c', d')" "at_cluster x (c', d')"
    using assms(2) unfolding e(3) unfolding e(1) by blast
  moreover have "opened (c', d') x i" using p(2-4) assms(1) by (auto simp: opened_def disk_is_def)
  moreover have "the_entry d' x i = g (the_entry d x i)"
    using p(2) entry_at_put [OF assms(2), of i "f_buf d" i] e(2) \<open>i < 16\<close> by (simp add: the_entry_def disk_is_def e(1))
  ultimately show ?thesis by (auto simp: rewritten_def)
qed

lemma rewritten_table:
  assumes "rewritten d d1 x i e (raw_next d)" and "disk_is d1 d2 (cluster_data d1) table"
  shows "rewritten d d2 x i e table"
  using assms by (auto simp: rewritten_def disk_is_def)

lemma rewritten_chain: "rewritten d d1 x i e (raw_next d) \<Longrightarrow> chain d1 y ys = chain d y ys"
  unfolding rewritten_def by (erule chain_disk_is) (simp add: fat_next_def)

lemma same_disk_update: "same_disk d (snd (update_entry i h (c, d)))"
  by (simp add: same_disk_def update_entry_def)

text \<open>The clusters of a file of which the first \<open>n\<close> are in use, when \<open>free\<close> is appended to them.\<close>

definition grown_entry :: "nat \<Rightarrow> nat list \<Rightarrow> DirEntry \<Rightarrow> DirEntry" where
  "grown_entry n free e = (if n = 0 then set_first (free ! 0) e else e)"

lemma wf_grown_entry [simp]: "wf_entry e \<Longrightarrow> wf_entry (grown_entry n free e)"
  by (simp add: grown_entry_def wf_entry_def)

lemma grow_chain_ok:
  assumes "opened (c, d) x i" and "wf_entry (h (the_entry d x i))" and "n < m" and "get_free_clusters (m - n) d = Some free"
    and "\<And>z. z \<in> set free \<Longrightarrow> valid_cluster d z" and "0 < n \<Longrightarrow> chain d (first_cluster_addr (h (the_entry d x i))) xs \<and> n \<le> length xs" and "x \<notin> set xs"
  shows "\<exists>s' table. grow_chain i n m (update_entry i h (c, d)) = (Some (), s') \<and>
    rewritten d (snd s') x i (grown_entry n free (h (the_entry d x i))) table \<and>
    chain (snd s') (first_cluster_addr (grown_entry n free (h (the_entry d x i)))) (take n xs @ free) \<and>
    (\<forall>y. table y = raw_next d y \<or> y \<in> set (take n xs @ free) \<and> table y < 0x10000000)"
proof -
  have d: "drive_ok d" using assms(1) by (simp add: opened_def)
  have f: "length free = m - n" "distinct free" "free \<noteq> []" and zero: "\<And>z. z \<in> set free \<Longrightarrow> raw_next d z = 0"
    using get_free_clusters_ok [OF d assms(4)] assms(3,5) by auto
  let ?e = "grown_entry n free (h (the_entry d x i))"
  note e = opened_entry [OF assms(1)]
  have i: "32 * Suc i \<le> length (f_buf d)" using assms(1) e(2) by (simp add: opened_def)
  let ?g = "\<lambda>e. grown_entry n free (h e)"
  have wf: "wf_entry (?g (the_entry d x i))" using assms(2) by simp
  obtain c1 d1 where p: "persist_entry (update_entry i ?g (c, d)) = (Some (), (c1, d1))" "rewritten d d1 x i ?e (raw_next d)" "opened (c1, d1) x i"
      "the_entry d1 x i = ?e" using persist_opened [OF assms(1), of ?g] wf by blast
  have upd: "(if n = 0 then update_entry i (set_first (free ! 0)) (update_entry i h (c, d)) else update_entry i h (c, d)) = update_entry i ?g (c, d)"
    using update_update_entry [of h d i "set_first (free ! 0)" c] assms(2) wf i e(3) by (cases "n = 0") (simp_all add: grown_entry_def)
  have r: "raw_next d1 = raw_next d" "valid_cluster d1 = valid_cluster d" "drive_ok d1" using p(2) by (auto simp: rewritten_def disk_is_def)
  have c1: "coherent (c1, d1)" "active_cluster c1 = x" "entry_at (f_buf d1) i = ?e"
    using p(3,4) opened_entry(3) [OF p(3)] by (auto simp: opened_def at_cluster_def)
  have "raw_next d x \<noteq> 0" using assms(1) by (simp add: opened_def)
  then have act: "active_cluster c1 \<notin> set free" using c1(2) zero by auto
  have valid: "valid_cluster d1 z" if "z \<in> set free" for z using assms(5) that r(2) by simp
  define k where "k = bind_io (walk_chain (n - 1) (first_cluster_addr ?e)) (\<lambda>cluster.
    bind_io (append_clusters (if n = 0 then tl free else free) cluster) end_chain)"
  have g: "grow_chain i n m (update_entry i h (c, d)) = k (c1, d1)"
    using p(1) c1(3) assms(4) get_free_clusters_same_disk [OF same_disk_update [of d i h c], of "m - n"] upd
    by (simp add: grow_chain_def Let_def bind_io_def k_def)
  have "\<exists>s' table. k (c1, d1) = (Some (), s') \<and> disk_is d1 (snd s') (cluster_data d1) table \<and>
      chain (snd s') (first_cluster_addr ?e) (take n xs @ free) \<and>
      (\<forall>y. table y = raw_next d1 y \<or> y \<in> set (take n xs @ free) \<and> table y < 0x10000000)"
  proof (cases "n = 0")
    case True
    have "free ! 0 < W32" using assms(5) [of "free ! 0"] f(3) by (auto simp: valid_cluster_def)
    then have "first_cluster_addr ?e = free ! 0" using True first_set_first by (simp add: grown_entry_def)
    then have "k = bind_io (append_clusters (tl free) (free ! 0)) end_chain" using True by (simp add: k_def bind_io_def return_io_def fun_eq_iff)
    then show ?thesis using new_chain_ok [OF r(3) c1(1) act valid f(2,3)] True \<open>first_cluster_addr ?e = free ! 0\<close> by simp
  next
    case False
    then have ch: "chain d1 (first_cluster_addr ?e) xs" "n - 1 < length xs" "Suc (n - 1) = n"
      using assms(6) rewritten_chain [OF p(2)] by (auto simp: grown_entry_def)
    have "z \<notin> set xs" if "z \<in> set free" for z using chain_not_free [OF ch(1), of z] zero [OF that] r(1) by auto
    then show ?thesis
      using longer_chain_ok [OF r(3) c1(1) ch(1,2) _ _ f(2)] act c1(2) assms(7) valid False unfolding ch(3) by (simp add: k_def)
  qed
  then show ?thesis using rewritten_table [OF p(2)] r(1) unfolding g by metis
qed

section \<open>Shrinking\<close>

definition shrunk_entry :: "nat \<Rightarrow> DirEntry \<Rightarrow> DirEntry" where
  "shrunk_entry new_size e = (if new_size = 0 then e\<lparr>first_cluster_high := 0, first_cluster_low := 0\<rparr> else e)"

lemma wf_shrunk_entry [simp]: "wf_entry e \<Longrightarrow> wf_entry (shrunk_entry new_size e)"
  by (simp add: shrunk_entry_def wf_entry_def)

text \<open>
  The table after a chain was cut behind the cluster with index \<open>m\<close>: that cluster ends the chain, or
  is free when the file is empty, and the clusters up to index \<open>n\<close> are free.
\<close>

definition cut_table :: "nat \<Rightarrow> nat list \<Rightarrow> nat \<Rightarrow> nat \<Rightarrow> (nat \<Rightarrow> nat) \<Rightarrow> nat \<Rightarrow> nat" where
  "cut_table v xs m n table = cleared (take (n - m - 1) (drop (Suc m) xs)) (table(xs ! m := v))"

lemma cut_chain_ok:
  assumes "drive_ok d" and "coherent (c, d)" and "chain d f xs" and "m < n" and "n \<le> length xs" and "active_cluster c \<notin> set xs" and "v < W32"
    and raw: "\<And>y. y \<in> set xs \<Longrightarrow> raw_next d y < 0x10000000"
  shows "\<exists>s'. bind_io (walk_chain m f) (\<lambda>cluster. bind_io (change_active_cluster cluster OwnBuf) (\<lambda>_ s2.
        let next = table_value (fst s2) in bind_io (set_table_value v) (\<lambda>_. clear_chain (n - m - 1) next) s2)) (c, d) = (Some (), s') \<and>
    disk_is d (snd s') (cluster_data d) (cut_table v xs m n (raw_next d))"
proof -
  have m: "m < length xs" using assms(4,5) by simp
  obtain y c1 d1 where w: "walk_chain m f (c, d) = (Some y, (c1, d1))" "chain d y (drop m xs)" "same_disk d d1" "coherent (c1, d1)"
      "active_cluster c1 \<notin> set (drop m xs)"
    using walk_chain_ok [OF assms(1,3) less_imp_le [OF m] assms(2,6)] by blast
  let ?ys = "drop (Suc m) xs"
  have dr: "drop m xs = xs ! m # ?ys" using m by (simp add: Cons_nth_drop_Suc)
  have y: "y = xs ! m" "valid_cluster d y" "chain d (fat_next d y) ?ys" "active_cluster c1 \<noteq> y" using w(2,5) unfolding dr by auto
  have nin: "y \<notin> set ?ys" using chain_distinct [OF w(2)] y(1) unfolding dr by simp
  note u = same_disk_views [OF w(3)]
  have "drive_ok d1" "valid_cluster d1 y" using assms(1) y(2) u by auto
  from relink_ok [OF this assms(7) w(4)] y(4)
  obtain c2 d2 c3 d3 where o1: "change_active_cluster y OwnBuf (c1, d1) = (Some None, (c2, d2))" "table_value c2 = fat_next d y"
      "set_table_value v (c2, d2) = (Some (), (c3, d3))" "disk_is d1 d3 (cluster_data d) ((raw_next d)(y := v))" "coherent (c3, d3)" "at_cluster y (c3, d3)"
    unfolding u by blast
  have dd: "disk_is d d3 (cluster_data d) ((raw_next d)(y := v))" using disk_is_trans [OF disk_is_same [OF w(3) assms(1)] o1(4)] .
  have d3: "drive_ok d3" "raw_next d3 = (raw_next d)(y := v)" "cluster_data d3 = cluster_data d" using dd by (auto simp: disk_is_def)
  have "chain d3 (fat_next d y) ?ys = chain d (fat_next d y) ?ys" by (rule chain_disk_is [OF dd]) (use nin in \<open>auto simp: fat_next_def\<close>)
  then have ch: "chain d3 (fat_next d y) ?ys" using y(3) by simp
  have raw3: "raw_next d3 z < 0x10000000" if "z \<in> set ?ys" for z using that nin raw [of z] set_drop_subset [of "Suc m" xs] d3(2) by auto
  have "n - m - 1 \<le> length ?ys" "active_cluster c3 \<notin> set ?ys" using assms(5) o1(6) nin by (auto simp: at_cluster_def)
  from clear_chain_ok [OF d3(1) ch raw3 this(1) o1(5) this(2)]
  obtain s' where "clear_chain (n - m - 1) (fat_next d y) (c3, d3) = (Some (), s')"
      "disk_is d3 (snd s') (cluster_data d) (cut_table v xs m n (raw_next d))"
    unfolding d3(2,3) y(1) cut_table_def by blast
  then show ?thesis using w(1) o1(1-3) disk_is_trans [OF dd] by (simp add: bind_io_def Let_def)
qed

lemma shrink_chain_ok:
  assumes "opened (c, d) x i" and "wf_entry (h (the_entry d x i))" and "m < n" and "n \<le> length xs" and "x \<notin> set xs"
    and "chain d (first_cluster_addr (h (the_entry d x i))) xs" and raw: "\<And>y. y \<in> set xs \<Longrightarrow> raw_next d y < 0x10000000"
  shows "\<exists>s'. shrink_chain i new_size n m (update_entry i h (c, d)) = (Some (), s') \<and>
    rewritten d (snd s') x i (shrunk_entry new_size (h (the_entry d x i))) (cut_table (if new_size = 0 then 0 else CLUSTER_EOC) xs m n (raw_next d))"
proof -
  let ?e = "h (the_entry d x i)" and ?g = "\<lambda>e. shrunk_entry new_size (h e)" and ?v = "if new_size = 0 then 0 else CLUSTER_EOC"
  note e = opened_entry [OF assms(1)]
  have i: "32 * Suc i \<le> length (f_buf d)" using assms(1) e(2) by (simp add: opened_def)
  have wf: "wf_entry (?g (the_entry d x i))" using assms(2) by simp
  obtain c1 d1 where p: "persist_entry (update_entry i ?g (c, d)) = (Some (), (c1, d1))" "rewritten d d1 x i (?g (the_entry d x i)) (raw_next d)"
      "opened (c1, d1) x i" using persist_opened [OF assms(1), of ?g] wf by blast
  have upd: "(if new_size = 0 then update_entry i (\<lambda>e. e\<lparr>first_cluster_high := 0, first_cluster_low := 0\<rparr>) (update_entry i h (c, d)) else update_entry i h (c, d)) =
      update_entry i ?g (c, d)"
    using update_update_entry [of h d i "\<lambda>e. e\<lparr>first_cluster_high := 0, first_cluster_low := 0\<rparr>" c] assms(2) wf i e(3)
    by (cases "new_size = 0") (simp_all add: shrunk_entry_def)
  have ent: "entry_at (f_buf (snd (update_entry i h (c, d)))) i = ?e"
    using entry_at_put [OF assms(2) i i] e(3) by (simp add: update_entry_def)
  have r: "raw_next d1 = raw_next d" "drive_ok d1" using p(2) by (auto simp: rewritten_def disk_is_def)
  have "chain d1 (first_cluster_addr ?e) xs" "coherent (c1, d1)" "active_cluster c1 \<notin> set xs"
    using assms(5,6) rewritten_chain [OF p(2)] p(3) by (auto simp: opened_def at_cluster_def)
  moreover have "?v < W32" by simp
  ultimately
  obtain s' where o2: "bind_io (walk_chain m (first_cluster_addr ?e)) (\<lambda>cluster. bind_io (change_active_cluster cluster OwnBuf) (\<lambda>_ s2.
        let next = table_value (fst s2) in bind_io (set_table_value ?v) (\<lambda>_. clear_chain (n - m - 1) next) s2)) (c1, d1) = (Some (), s')"
      "disk_is d1 (snd s') (cluster_data d1) (cut_table ?v xs m n (raw_next d))"
    using cut_chain_ok [OF r(2) _ _ assms(3,4), of c1 "first_cluster_addr ?e" ?v] raw unfolding r(1) by blast
  note o2(1)
  moreover have "shrink_chain i new_size n m (update_entry i h (c, d)) =
      bind_io (walk_chain m (first_cluster_addr ?e)) (\<lambda>cluster. bind_io (change_active_cluster cluster OwnBuf) (\<lambda>_ s2.
        let next = table_value (fst s2) in bind_io (set_table_value ?v) (\<lambda>_. clear_chain (n - m - 1) next) s2)) (c1, d1)"
    unfolding shrink_chain_def ent Let_def upd using p(1) by (simp only: bind_io_def prod.case option.case)
  ultimately have "shrink_chain i new_size n m (update_entry i h (c, d)) = (Some (), s')" by (simp only:)
  then show ?thesis using rewritten_table [OF p(2) o2(2)] by (intro exI conjI)
qed

text \<open>What is left of a chain that was cut has one cluster more than the size asks for.\<close>

lemma cut_table_chain:
  assumes "chain d f xs" and "m < length xs" and "rewritten d d' x i e (cut_table CLUSTER_EOC xs m n (raw_next d))"
  shows "chain d' f (take (Suc m) xs)"
proof -
  have dd: "disk_is d d' ((cluster_data d)(x := put_entry i e (cluster_data d x))) (cut_table CLUSTER_EOC xs m n (raw_next d))"
    using assms(3) by (simp add: rewritten_def)
  have dist: "distinct (take m xs @ xs ! m # drop (Suc m) xs)"
    using chain_distinct [OF assms(1)] id_take_nth_drop [OF assms(2)] by simp
  let ?t = "cut_table CLUSTER_EOC xs m n (raw_next d)"
  have pre: "?t z = raw_next d z" if "z \<in> set (take m xs)" for z
    using that dist set_take_subset [of "n - m - 1" "drop (Suc m) xs"] by (auto simp: cut_table_def cleared_def)
  have "?t (xs ! m) = CLUSTER_EOC" using dist set_take_subset [of "n - m - 1" "drop (Suc m) xs"] by (auto simp: cut_table_def cleared_def)
  then have "fat_next d' (xs ! m) = CLUSTER_EOC" by (simp add: disk_is_next [OF dd])
  moreover have "valid_cluster d' (xs ! m)" using chain_valid [OF assms(1)] assms(2) dd by (simp add: disk_is_def)
  ultimately have tail: "chain d' z [xs ! m]" if "chain d z (drop m xs)" for z
    using that assms(2) by (simp add: Cons_nth_drop_Suc [symmetric])
  have "chain d' f (take m xs @ [xs ! m])" by (rule chain_prefix [OF _ dd pre tail]) (use assms(1) in simp_all)
  then show ?thesis using assms(2) by (simp add: take_Suc_conv_app_nth)
qed

end
