(* ===== verification/FatSpec.thy ===== *)
theory FatSpec
  imports FatResize
begin

text \<open>
  What the FAT driver promises of files: a file on a disk has contents, resizing keeps the part that
  remains, writing replaces them, reading gives a piece of them, and none of it changes another
  file. The properties are shown on a small disk at the end.
\<close>

section \<open>Files on a disk\<close>

text \<open>
  A file with the entry \<open>i\<close> of cluster \<open>x\<close> in the directory with the clusters \<open>ds\<close>, which has at least
  the clusters that its size asks for.
\<close>

definition file_on :: "fat_drive \<Rightarrow> nat \<Rightarrow> nat list \<Rightarrow> u8 list \<Rightarrow> nat \<Rightarrow> nat \<Rightarrow> nat list \<Rightarrow> bool" where
  "file_on d lba ds name x i xs \<longleftrightarrow> named d lba ds name x i \<and> set ds \<inter> set xs = {} \<and>
     (xs \<noteq> [] \<longrightarrow> chain d (first_cluster_addr (the_entry d x i)) xs) \<and> (\<forall>y \<in> set xs. raw_next d y < 0x10000000) \<and>
     sectors_of (file_size (the_entry d x i)) \<le> length xs \<and> file_size (the_entry d x i) \<le> W32 - 512"

definition contents :: "fat_drive \<Rightarrow> nat \<Rightarrow> nat \<Rightarrow> nat list \<Rightarrow> u8 list" where
  "contents d x i xs = take (file_size (the_entry d x i)) (file_data d xs)"

text \<open>The clusters that are found for a file that grows are clusters of the disk.\<close>

definition room :: "fat_drive \<Rightarrow> nat \<Rightarrow> nat \<Rightarrow> bool" where
  "room d cur_size new_size \<longleftrightarrow> sectors_of cur_size < sectors_of new_size \<longrightarrow>
     (case get_free_clusters (sectors_of new_size - sectors_of cur_size) d of None \<Rightarrow> False | Some free \<Rightarrow> list_all (valid_cluster d) free)"

text \<open>Only the clusters \<open>xs\<close>, unused ones, and the directory cluster \<open>x\<close> have changed.\<close>

definition others_kept :: "fat_drive \<Rightarrow> fat_drive \<Rightarrow> nat \<Rightarrow> nat list \<Rightarrow> bool" where
  "others_kept d d' x xs \<longleftrightarrow> valid_cluster d' = valid_cluster d \<and> (\<forall>y. raw_next d y \<noteq> 0 \<and> y \<notin> set xs \<longrightarrow> raw_next d' y = raw_next d y) \<and>
     (\<forall>y. y \<noteq> x \<and> raw_next d y \<noteq> 0 \<and> y \<notin> set xs \<longrightarrow> cluster_data d' y = cluster_data d y)"

lemma sectors_of_eq: "sz \<le> W32 - 512 \<Longrightarrow> sectors_of sz = (sz + 511) div ATA_SECTOR_SIZE"
  by (simp add: sectors_of_def add32_eq)

lemma sectors_of_fit: "sz \<le> W32 - 512 \<Longrightarrow> sectors_of sz \<le> n \<longleftrightarrow> sz \<le> ATA_SECTOR_SIZE * n"
  by (simp add: sectors_of_eq) linarith

lemma others_kept_chain:
  assumes "others_kept d d' x xs" and "chain d f ys" and "set ys \<inter> set xs = {}"
  shows "chain d' f ys"
  using assms(2,3)
proof (induction ys arbitrary: f)
  case (Cons y ys)
  have "raw_next d y \<noteq> 0" using chain_not_free [OF Cons.prems(1)] by simp
  then have "fat_next d' y = fat_next d y" using assms(1) Cons.prems(2) by (simp add: others_kept_def fat_next_def)
  then show ?case using Cons assms(1) by (auto simp: others_kept_def)
qed simp

lemma others_kept_data:
  assumes "others_kept d d' x xs" and "chain d f ys" and "set ys \<inter> set xs = {}" and "x \<notin> set ys"
  shows "file_data d' ys = file_data d ys"
proof -
  have "cluster_data d' y = cluster_data d y" if "y \<in> set ys" for y
    using that chain_not_free [OF assms(2) that] assms(1,3,4) by (auto simp: others_kept_def)
  then show ?thesis by (simp add: file_data_def cong: map_cong)
qed

lemma file_on_facts:
  assumes "file_on d lba ds name x i xs"
  shows "named d lba ds name x i" and "x \<in> set ds" and "x \<notin> set xs" and "valid_cluster d x" and "raw_next d x \<noteq> 0" and "i < 16" and "drive_ok d"
proof -
  show n: "named d lba ds name x i" using assms by (simp add: file_on_def)
  then have c: "chain d lba ds" "dir_find d ds name = Some (x, i)" by (auto simp: named_def)
  show x: "x \<in> set ds" using dir_find_cluster [OF c(2)] by blast
  then show "x \<notin> set xs" using assms by (auto simp: file_on_def)
  show "valid_cluster d x" "raw_next d x \<noteq> 0" using chain_valid [OF c(1) x] chain_not_free [OF c(1) x] by auto
  show "i < 16" using scan_dir_bounds [of "cluster_data d x" name 0 False "[]" i] dir_find_cluster [OF c(2)] by blast
  show "drive_ok d" using n by (simp add: named_def)
qed

lemma same_disk_named: "same_disk d d' \<Longrightarrow> named d' lba ds name x i = named d lba ds name x i"
  using same_disk_views [of d d'] chain_same_disk [of d d'] dir_find_cong [of ds d' d name] by (simp add: named_def)

text \<open>Looking up the file gives a state in which it can be changed.\<close>

lemma get_child_opened:
  assumes "named d lba ds name x i" and "length ds \<le> fuel"
  shows "\<exists>c1 d1. get_child_dir_entry_id fuel lba name (ctx_init, d) = Inr (Some i, (c1, d1)) \<and> same_disk d d1 \<and> opened (c1, d1) x i \<and>
    entry_at (f_buf d1) i = the_entry d x i"
proof -
  have c: "drive_ok d" "chain d lba ds" "dir_find d ds name = Some (x, i)" using assms(1) by (auto simp: named_def)
  note f = dir_find_cluster [OF c(3)]
  have "i < 16" using scan_dir_bounds [of "cluster_data d x" name 0 False "[]" i] f by blast
  moreover have "valid_cluster d x" "raw_next d x \<noteq> 0" using chain_valid [OF c(2)] chain_not_free [OF c(2)] f by auto
  moreover obtain c1 d1 where "get_child_dir_entry_id fuel lba name (ctx_init, d) = Inr (Some i, (c1, d1))" "same_disk d d1" "coherent (c1, d1)"
      "at_cluster x (c1, d1)" "entry_at (f_buf d1) i = the_entry d x i"
    using get_child_ok [OF assms] by blast
  ultimately show ?thesis using c(1) same_disk_views [of d d1] by (auto simp: opened_def)
qed

section \<open>Resizing\<close>

text \<open>The disk when the entry was written and the chain changed from \<open>xs\<close> to \<open>ys\<close>.\<close>

lemma rewritten_file:
  assumes "file_on d lba ds name x i xs" and "rewritten d d' x i e table" and "wf_entry e" and "de_name e = de_name (the_entry d x i)"
    and "de_attrs e = de_attrs (the_entry d x i)" and "ys \<noteq> [] \<Longrightarrow> chain d' (first_cluster_addr e) ys"
    and "\<And>y. table y = raw_next d y \<or> y \<in> set xs \<union> set zs \<and> table y < 0x10000000"
    and "\<And>z. z \<in> set zs \<Longrightarrow> raw_next d z = 0" and "set ys \<subseteq> set xs \<union> set zs" and "sectors_of (file_size e) \<le> length ys" and "file_size e \<le> W32 - 512"
  shows "file_on d' lba ds name x i ys" and "the_entry d' x i = e" and "others_kept d d' x xs" and "file_data d' ys = file_data d ys"
proof -
  note f = file_on_facts [OF assms(1)]
  have dd: "disk_is d d' ((cluster_data d)(x := put_entry i e (cluster_data d x))) table" using assms(2) by (simp add: rewritten_def)
  have ds: "y \<notin> set xs \<union> set zs" if "y \<in> set ds" for y
    using that assms(1,8) chain_not_free [of d lba ds y] f(1) by (auto simp: file_on_def named_def)
  have n: "named d' lba ds name x i" "the_entry d' x i = e"
    by (rule named_put [OF f(1) dd _ assms(3-5)]; use ds assms(7) in force)+
  show "the_entry d' x i = e" by (rule n(2))
  have xys: "x \<notin> set ys" using ds [OF f(2)] assms(9) by blast
  have "raw_next d' y < 0x10000000" if "y \<in> set ys" for y
    using assms(7) [of y] that assms(1,8,9) dd by (auto simp: file_on_def disk_is_def)
  then show "file_on d' lba ds name x i ys" using n assms(6,9-11) ds by (auto simp: file_on_def)
  show "file_data d' ys = file_data d ys" by (rule file_data_disk_is [OF dd]) (use xys in auto)
  have "table y = raw_next d y" if "raw_next d y \<noteq> 0" "y \<notin> set xs" for y using assms(7) [of y] assms(8) [of y] that by auto
  then show "others_kept d d' x xs" using dd by (auto simp: others_kept_def disk_is_def)
qed

lemma take_file_data:
  assumes "drive_ok d" and "\<And>y. y \<in> set xs \<Longrightarrow> valid_cluster d y" and "n \<le> length xs" and "sz \<le> ATA_SECTOR_SIZE * n"
  shows "take sz (file_data d (take n xs @ zs)) = take sz (file_data d xs)"
proof -
  have "length (file_data d (take n xs)) = ATA_SECTOR_SIZE * n"
    using length_file_data [OF assms(1), of "take n xs"] assms(2,3) set_take_subset [of n xs] by auto
  moreover have "file_data d xs = file_data d (take n xs) @ file_data d (drop n xs)"
    by (simp add: file_data_def flip: concat_append map_append)
  moreover have "file_data d (take n xs @ zs) = file_data d (take n xs) @ file_data d zs" by (simp add: file_data_def)
  ultimately show ?thesis using assms(4) by simp
qed

text \<open>What changing the size does, in a state in which the file's directory is in the buffer.\<close>

definition resized :: "fat_drive \<Rightarrow> fat_drive \<Rightarrow> nat \<Rightarrow> nat list \<Rightarrow> u8 list \<Rightarrow> nat \<Rightarrow> nat \<Rightarrow> nat list \<Rightarrow> nat \<Rightarrow> nat list \<Rightarrow> bool" where
  "resized d d' lba ds name x i xs new ys \<longleftrightarrow> file_on d' lba ds name x i ys \<and> file_size (the_entry d' x i) = new \<and>
     (let k = min (file_size (the_entry d x i)) new in take k (file_data d' ys) = take k (file_data d xs)) \<and> others_kept d d' x xs \<and>
     (\<forall>y \<in> set ys. y \<in> set xs \<or> raw_next d y = 0)"

lemma resizedI:
  assumes "file_on d lba ds name x i xs" and "rewritten d d' x i e table" and "wf_entry e" and "de_name e = de_name (the_entry d x i)"
    and "de_attrs e = de_attrs (the_entry d x i)" and "ys \<noteq> [] \<Longrightarrow> chain d' (first_cluster_addr e) ys"
    and "\<And>y. table y = raw_next d y \<or> y \<in> set xs \<union> set zs \<and> table y < 0x10000000"
    and "\<And>z. z \<in> set zs \<Longrightarrow> raw_next d z = 0" and "set ys \<subseteq> set xs \<union> set zs" and "sectors_of (file_size e) \<le> length ys" and "file_size e \<le> W32 - 512"
    and "take (min (file_size (the_entry d x i)) (file_size e)) (file_data d ys) = take (min (file_size (the_entry d x i)) (file_size e)) (file_data d xs)"
  shows "resized d d' lba ds name x i xs (file_size e) ys"
  using rewritten_file [OF assms(1-11)] assms(8,9,12) by (auto simp: resized_def)

lemma file_on_chain:
  assumes "file_on d lba ds name x i xs"
  shows "\<And>y. y \<in> set xs \<Longrightarrow> valid_cluster d y" and "\<And>y. y \<in> set xs \<Longrightarrow> raw_next d y < 0x10000000"
    and "file_size (the_entry d x i) \<le> ATA_SECTOR_SIZE * sectors_of (file_size (the_entry d x i))"
proof -
  show "valid_cluster d y" "raw_next d y < 0x10000000" if "y \<in> set xs" for y
    using assms that chain_valid [of d "first_cluster_addr (the_entry d x i)" xs y] by (auto simp: file_on_def)
  show "file_size (the_entry d x i) \<le> ATA_SECTOR_SIZE * sectors_of (file_size (the_entry d x i))"
    using assms sectors_of_fit [of "file_size (the_entry d x i)" "sectors_of (file_size (the_entry d x i))"] by (simp add: file_on_def)
qed

abbreviation set_size :: "nat \<Rightarrow> DirEntry \<Rightarrow> DirEntry" where
  "set_size new e \<equiv> e\<lparr>file_size := new\<rparr>"

lemma wf_set_size: "wf_entry e \<Longrightarrow> new \<le> W32 - 512 \<Longrightarrow> wf_entry (set_size new e)"
  by (simp add: wf_entry_def)

lemma grow_file:
  assumes "file_on d lba ds name x i xs" and "opened (c, d) x i" and "new \<le> W32 - 512"
    and less: "sectors_of (file_size (the_entry d x i)) < sectors_of new" and "room d (file_size (the_entry d x i)) new"
  shows "\<exists>s' ys. grow_chain i (sectors_of (file_size (the_entry d x i))) (sectors_of new) (update_entry i (set_size new) (c, d)) = (Some (), s') \<and>
    resized d (snd s') lba ds name x i xs new ys"
proof -
  let ?e = "the_entry d x i" and ?n = "sectors_of (file_size (the_entry d x i))" and ?m = "sectors_of new"
  note f = file_on_facts [OF assms(1)] and fc = file_on_chain [OF assms(1)]
  obtain free where free: "get_free_clusters (?m - ?n) d = Some free" "\<And>z. z \<in> set free \<Longrightarrow> valid_cluster d z"
    using assms(5) less by (auto simp: room_def list_all_iff split: option.splits)
  have fr: "length free = ?m - ?n" "free \<noteq> []" "\<And>z. z \<in> set free \<Longrightarrow> raw_next d z = 0"
    using get_free_clusters_ok [OF f(7) free(1)] less free(2) by auto
  have wf: "wf_entry (set_size new ?e)" using opened_entry(4) [OF assms(2)] assms(3) by (rule wf_set_size)
  have n: "?n \<le> length xs" using assms(1) by (simp add: file_on_def)
  let ?e' = "grown_entry ?n free (set_size new ?e)"
  have "chain d (first_cluster_addr (set_size new ?e)) xs \<and> ?n \<le> length xs" if "0 < ?n"
    using that assms(1) n by (auto simp: file_on_def first_cluster_addr_def)
  from grow_chain_ok [where h = "set_size new" and xs = xs, OF assms(2) wf less free this f(3)]
  obtain s' table where s': "grow_chain i ?n ?m (update_entry i (set_size new) (c, d)) = (Some (), s')" "rewritten d (snd s') x i ?e' table"
      "chain (snd s') (first_cluster_addr ?e') (take ?n xs @ free)"
      "\<And>y. table y = raw_next d y \<or> y \<in> set (take ?n xs @ free) \<and> table y < 0x10000000" by blast
  have k: "de_name ?e' = de_name ?e" "de_attrs ?e' = de_attrs ?e" "file_size ?e' = new" by (auto simp: grown_entry_def)
  have tk: "take (min (file_size ?e) new) (file_data d (take ?n xs @ free)) = take (min (file_size ?e) new) (file_data d xs)"
    by (rule take_file_data [OF f(7) fc(1) n]) (use fc(3) in auto)
  have "resized d (snd s') lba ds name x i xs (file_size ?e') (take ?n xs @ free)"
  proof (rule resizedI [OF assms(1) s'(2) _ k(1,2) s'(3), where zs = free])
    show "table y = raw_next d y \<or> y \<in> set xs \<union> set free \<and> table y < 0x10000000" for y
      using s'(4) [of y] set_take_subset [of ?n xs] by auto
  qed (use wf fr assms(3) k tk n less set_take_subset [of ?n xs] in auto)
  then show ?thesis using s'(1) k(3) by auto
qed

lemma shrink_file:
  assumes "file_on d lba ds name x i xs" and "opened (c, d) x i" and "new \<le> W32 - 512"
    and less: "sectors_of new < sectors_of (file_size (the_entry d x i))"
  shows "\<exists>s'. shrink_chain i new (sectors_of (file_size (the_entry d x i))) (sectors_of new) (update_entry i (set_size new) (c, d)) = (Some (), s') \<and>
    resized d (snd s') lba ds name x i xs new (if new = 0 then [] else take (Suc (sectors_of new)) xs)"
proof -
  let ?e = "the_entry d x i" and ?n = "sectors_of (file_size (the_entry d x i))" and ?m = "sectors_of new"
  let ?ys = "if new = 0 then [] else take (Suc ?m) xs" and ?v = "if new = 0 then 0 else CLUSTER_EOC"
  note f = file_on_facts [OF assms(1)] and fc = file_on_chain [OF assms(1)]
  have wf: "wf_entry (set_size new ?e)" using opened_entry(4) [OF assms(2)] assms(3) by (rule wf_set_size)
  have n: "?n \<le> length xs" "?m < length xs" using assms(1) less by (auto simp: file_on_def)
  then have ch: "chain d (first_cluster_addr (set_size new ?e)) xs" using assms(1) by (auto simp: file_on_def first_cluster_addr_def)
  let ?e' = "shrunk_entry new (set_size new ?e)"
  from shrink_chain_ok [where h = "set_size new" and new_size = new, OF assms(2) wf less n(1) f(3) ch fc(2)]
  obtain s' where s': "shrink_chain i new ?n ?m (update_entry i (set_size new) (c, d)) = (Some (), s')"
      "rewritten d (snd s') x i ?e' (cut_table ?v xs ?m ?n (raw_next d))" by blast
  have k: "de_name ?e' = de_name ?e" "de_attrs ?e' = de_attrs ?e" "file_size ?e' = new" by (auto simp: shrunk_entry_def)
  have fit: "new \<le> ATA_SECTOR_SIZE * ?m" using sectors_of_fit [OF assms(3), of ?m] by simp
  have "take new (file_data d (take (Suc ?m) xs @ [])) = take new (file_data d xs)"
    by (rule take_file_data [OF f(7) fc(1)]) (use n fit in auto)
  then have tk: "take (min (file_size ?e) new) (file_data d ?ys) = take (min (file_size ?e) new) (file_data d xs)"
    by (auto simp: take_take [symmetric] simp del: take_take)
  have "resized d (snd s') lba ds name x i xs (file_size ?e') ?ys"
  proof (rule resizedI [OF assms(1) s'(2) _ k(1,2), where zs = "[]"])
    show "chain (snd s') (first_cluster_addr ?e') ?ys" if "?ys \<noteq> []"
      using that s'(2) cut_table_chain [OF ch n(2)] by (auto simp: shrunk_entry_def split: if_splits)
    show "cut_table ?v xs ?m ?n (raw_next d) y = raw_next d y \<or> y \<in> set xs \<union> set [] \<and> cut_table ?v xs ?m ?n (raw_next d) y < 0x10000000" for y
      using n(2) by (auto simp: cut_table_def cleared_def dest: in_set_takeD in_set_dropD)
    show "sectors_of (file_size ?e') \<le> length ?ys" unfolding k(3) using n(2) by (auto simp: sectors_of_def add32_def)
  qed (use wf assms(3) k tk set_take_subset [of "Suc ?m" xs] in auto)
  then show ?thesis using s'(1) k(3) by auto
qed

lemma keep_file:
  assumes "file_on d lba ds name x i xs" and "opened (c, d) x i" and "new \<le> W32 - 512"
    and same: "sectors_of new = sectors_of (file_size (the_entry d x i))"
  shows "\<exists>s'. persist_entry (update_entry i (set_size new) (c, d)) = (Some (), s') \<and> resized d (snd s') lba ds name x i xs new xs"
proof -
  let ?e = "the_entry d x i"
  have wf: "wf_entry (set_size new ?e)" using opened_entry(4) [OF assms(2)] assms(3) by (rule wf_set_size)
  obtain c' d' where p: "persist_entry (update_entry i (set_size new) (c, d)) = (Some (), (c', d'))" "rewritten d d' x i (set_size new ?e) (raw_next d)"
    using persist_opened [OF assms(2), of "set_size new"] wf by blast
  have "resized d d' lba ds name x i xs (file_size (set_size new ?e)) xs"
  proof (rule resizedI [OF assms(1) p(2) wf, where zs = "[]"])
    show "chain d' (first_cluster_addr (set_size new ?e)) xs" if "xs \<noteq> []"
      using that assms(1) rewritten_chain [OF p(2)] by (simp add: file_on_def first_cluster_addr_def)
  qed (use assms(1,3) same in \<open>auto simp: file_on_def\<close>)
  then show ?thesis using p(1) by auto
qed

lemma same_disk_file_on:
  assumes "same_disk d d'"
  shows "file_on d' lba ds name x i xs = file_on d lba ds name x i xs" and "the_entry d' x i = the_entry d x i" and "room d' = room d"
    and "others_kept d' = others_kept d" and "file_data d' = file_data d" and "resized d' d2 = resized d d2"
proof -
  note v = same_disk_views [OF assms] chain_same_disk [OF assms] same_disk_named [OF assms] get_free_clusters_same_disk [OF assms]
    file_data_same_disk [OF assms]
  show e: "the_entry d' x i = the_entry d x i" for x i by (simp add: the_entry_def v)
  show "file_on d' lba ds name x i xs = file_on d lba ds name x i xs" by (simp add: file_on_def v e)
  show "room d' = room d" unfolding room_def [abs_def] v by (rule refl)
  show "file_data d' = file_data d" by (simp add: v fun_eq_iff)
  show "others_kept d' = others_kept d" by (simp add: others_kept_def v fun_eq_iff)
  then show "resized d' d2 = resized d d2" by (simp add: resized_def v e fun_eq_iff)
qed

lemma resize_ok:
  assumes "file_on d lba ds name x i xs" and "length ds \<le> fuel" and "new \<le> W32 - 512" and "room d (file_size (the_entry d x i)) new"
  shows "\<exists>d' ys. fat_resize fuel lba name (file_size (the_entry d x i)) new d = Inr (True, d') \<and> resized d d' lba ds name x i xs new ys"
proof -
  obtain c1 d1 where g: "get_child_dir_entry_id fuel lba name (ctx_init, d) = Inr (Some i, (c1, d1))" "same_disk d d1" "opened (c1, d1) x i"
    using get_child_opened [OF file_on_facts(1) [OF assms(1)] assms(2)] by blast
  note v = same_disk_file_on [OF g(2)]
  let ?n = "sectors_of (file_size (the_entry d x i))" and ?m = "sectors_of new" and ?s = "update_entry i (set_size new) (c1, d1)"
  let ?k = "if ?m < ?n then shrink_chain i new ?n ?m ?s else if ?m > ?n then grow_chain i ?n ?m ?s else persist_entry ?s"
  have f: "file_on d1 lba ds name x i xs" using assms(1) v(1) by simp
  have "\<exists>s' ys. ?k = (Some (), s') \<and> resized d1 (snd s') lba ds name x i xs new ys"
  proof -
    consider "?m < ?n" | "?m > ?n" | "?m = ?n" by linarith
    then show ?thesis
    proof cases
      case 1
      then show ?thesis using shrink_file [OF f g(3) assms(3)] v(2) by auto
    next
      case 2
      then show ?thesis using grow_file [OF f g(3) assms(3)] assms(4) v(2,3) by auto
    next
      case 3
      then show ?thesis using keep_file [OF f g(3) assms(3)] v(2) by auto
    qed
  qed
  then obtain s' ys where "?k = (Some (), s')" "resized d (snd s') lba ds name x i xs new ys" unfolding v(6) by blast
  then show ?thesis using g(1) by (auto simp: fat_resize_def Let_def)
qed

section \<open>Writing and reading\<close>

text \<open>A file whose contents are \<open>bytes\<close>, as one that reads it sees it.\<close>

definition holds :: "fat_drive \<Rightarrow> nat \<Rightarrow> nat list \<Rightarrow> u8 list \<Rightarrow> nat \<Rightarrow> nat \<Rightarrow> nat list \<Rightarrow> u8 list \<Rightarrow> bool" where
  "holds d lba ds name x i xs bytes \<longleftrightarrow> file_on d lba ds name x i xs \<and> file_size (the_entry d x i) = length bytes \<and> contents d x i xs = bytes"

lemma holds_read:
  assumes "holds d lba ds name x i xs bytes" and "length ds \<le> fuel" and "offset + len \<le> length bytes" and "0 < len" and "len \<le> length dst"
  shows "\<exists>d'. load_file_to_buf fuel dst name lba offset len d = Inr (Some (len, take len (drop offset bytes) @ drop len dst), d') \<and> same_disk d d'"
proof -
  let ?e = "the_entry d x i"
  have h: "file_on d lba ds name x i xs" "file_size ?e = length bytes" "take (length bytes) (file_data d xs) = bytes"
    using assms(1) by (auto simp: holds_def contents_def)
  note f = file_on_facts [OF h(1)]
  have sz: "file_size ?e \<le> W32 - 512" "sectors_of (file_size ?e) \<le> length xs" using h(1) by (auto simp: file_on_def)
  then have fit: "file_size ?e \<le> ATA_SECTOR_SIZE * length xs" using sectors_of_fit by blast
  then have "chain d (first_cluster_addr ?e) xs" using h(1,2) assms(3,4) by (cases xs) (auto simp: file_on_def)
  then obtain d' where l: "load_file_to_buf fuel dst name lba offset len d =
      Inr (Some (len, take len (drop offset (file_data d xs)) @ drop len dst), d')" "same_disk d d'"
    using load_file_ok [OF f(1) assms(2) _ f(3), of offset len dst] assms(3-5) h(2) fit sz(1) by auto
  have "take len (drop offset bytes) = take len (drop offset (take (length bytes) (file_data d xs)))" using h(3) by simp
  also have "\<dots> = take len (drop offset (file_data d xs))" using assms(3) by (simp add: drop_take)
  finally show ?thesis using l by simp
qed

lemma write_rest_ok:
  assumes "file_on d lba ds name x i xs" and "length ds \<le> fuel" and "file_size (the_entry d x i) = length bytes" and "bytes \<noteq> []"
  shows "\<exists>c1 d1 s'. get_child_dir_entry_id fuel lba name (ctx_init, d) = Inr (Some i, (c1, d1)) \<and>
    write_clusters bytes 0 (first_cluster_addr (entry_at (f_buf d1) i)) (c1, d1) = (Some (), s') \<and>
    holds (snd s') lba ds name x i xs bytes \<and> others_kept d (snd s') x xs"
proof -
  note f = file_on_facts [OF assms(1)] and fc = file_on_chain [OF assms(1)]
  obtain c1 d1 where g: "get_child_dir_entry_id fuel lba name (ctx_init, d) = Inr (Some i, (c1, d1))" "same_disk d d1" "opened (c1, d1) x i"
      "entry_at (f_buf d1) i = the_entry d x i"
    using get_child_opened [OF f(1) assms(2)] by blast
  note v = same_disk_views [OF g(2)]
  let ?f = "first_cluster_addr (the_entry d x i)"
  have sz: "length bytes \<le> ATA_SECTOR_SIZE * length xs" using assms(1,3) sectors_of_fit [of "length bytes" "length xs"] by (simp add: file_on_def)
  then have ch: "chain d ?f xs" using assms(1,4) by (cases xs) (auto simp: file_on_def)
  then have "chain d1 ?f xs" "coherent (c1, d1)" "active_cluster c1 \<notin> set xs" "drive_ok d1"
    using chain_same_disk [OF g(2)] g(3) f(3) by (auto simp: opened_def at_cluster_def)
  from write_clusters_ok [OF this(4,1,2,3), of 0 bytes] sz obtain s' data where w: "write_clusters bytes 0 ?f (c1, d1) = (Some (), s')"
      "disk_is d1 (snd s') data (raw_next d)" "\<forall>y. y \<notin> set xs \<longrightarrow> data y = cluster_data d y"
      "concat (map data xs) = bytes @ drop (length bytes) (file_data d xs)"
    unfolding v file_data_same_disk [OF g(2)] by auto
  have dd: "disk_is d (snd s') data (raw_next d)" using disk_is_trans [OF disk_is_same [OF g(2) f(7)] w(2)] .
  then have d': "cluster_data (snd s') = data" "raw_next (snd s') = raw_next d" "valid_cluster (snd s') = valid_cluster d" "drive_ok (snd s')"
    by (auto simp: disk_is_def)
  have dirs: "cluster_data (snd s') y = cluster_data d y" if "y \<in> set ds" for y using w(3) assms(1) that d'(1) by (auto simp: file_on_def)
  have chs: "chain (snd s') z zs = chain d z zs" for z zs by (rule chain_disk_is [OF dd]) (simp add: fat_next_def)
  have "named (snd s') lba ds name x i" using f(1) chs d'(4) dir_find_cong [OF dirs, of ds] by (simp add: named_def)
  moreover have ent: "the_entry (snd s') x i = the_entry d x i" using dirs [OF f(2)] by (simp add: the_entry_def)
  ultimately have "file_on (snd s') lba ds name x i xs" using assms(1) chs d'(2) by (simp add: file_on_def)
  moreover have "contents (snd s') x i xs = bytes" using w(4) assms(3) d'(1) ent by (simp add: contents_def file_data_def)
  ultimately have "holds (snd s') lba ds name x i xs bytes" using assms(3) ent by (simp add: holds_def)
  moreover have "others_kept d (snd s') x xs" using w(3) d' by (simp add: others_kept_def)
  ultimately show ?thesis using g(1,4) w(1) by metis
qed

lemma others_kept_trans:
  assumes "others_kept d d1 x xs" and "others_kept d1 d2 x ys" and "\<forall>y \<in> set ys. y \<in> set xs \<or> raw_next d y = 0"
  shows "others_kept d d2 x xs"
proof -
  have "raw_next d2 y = raw_next d y" "y \<noteq> x \<Longrightarrow> cluster_data d2 y = cluster_data d y" if "raw_next d y \<noteq> 0" "y \<notin> set xs" for y
  proof -
    have "y \<notin> set ys" "raw_next d1 y = raw_next d y" using assms(1,3) that by (auto simp: others_kept_def)
    then show "raw_next d2 y = raw_next d y" "y \<noteq> x \<Longrightarrow> cluster_data d2 y = cluster_data d y" using assms(1,2) that by (auto simp: others_kept_def)
  qed
  then show ?thesis using assms(1,2) by (simp add: others_kept_def)
qed

lemma write_ok:
  assumes "file_on d lba ds name x i xs" and "length ds \<le> fuel" and "i_type node = INodeFile" and "i_size node = file_size (the_entry d x i)"
    and "length bytes \<le> W32 - 512" and "room d (i_size node) (length bytes)"
  shows "\<exists>d' ys. write_buf_to_file fuel lba name node bytes d = Inr (True, length bytes, d') \<and> holds d' lba ds name x i ys bytes \<and> others_kept d d' x xs"
proof -
  obtain d1 ys where r: "(if i_size node \<noteq> length bytes then fat_resize fuel lba name (i_size node) (length bytes) d else Inr (True, d)) = Inr (True, d1)"
      "file_on d1 lba ds name x i ys" "file_size (the_entry d1 x i) = length bytes" "others_kept d d1 x xs" "\<forall>y \<in> set ys. y \<in> set xs \<or> raw_next d y = 0"
  proof (cases "i_size node = length bytes")
    case True
    show thesis by (rule that [of d xs]) (use assms(1,4) True in \<open>simp_all add: others_kept_def\<close>)
  next
    case False
    show thesis using resize_ok [OF assms(1,2,5)] assms(4,6) False that by (auto simp: resized_def)
  qed
  show ?thesis
  proof (cases "bytes = []")
    case True
    then have "holds d1 lba ds name x i ys bytes" using r(2,3) by (simp add: holds_def contents_def)
    then show ?thesis using True r(1,4) assms(3) by (auto simp: write_buf_to_file_def)
  next
    case False
    obtain c1 d2 s' where w: "get_child_dir_entry_id fuel lba name (ctx_init, d1) = Inr (Some i, (c1, d2))"
        "write_clusters bytes 0 (first_cluster_addr (entry_at (f_buf d2) i)) (c1, d2) = (Some (), s')"
        "holds (snd s') lba ds name x i ys bytes" "others_kept d1 (snd s') x ys"
      using write_rest_ok [OF r(2) assms(2) r(3) False] by blast
    have "write_buf_to_file fuel lba name node bytes d = Inr (True, length bytes, snd s')"
      using False r(1) assms(3) w(1,2) by (simp add: write_buf_to_file_def)
    then show ?thesis using w(3) others_kept_trans [OF r(4) w(4) r(5)] by blast
  qed
qed

end
