(* ===== verification/FatCreate.thy ===== *)
theory FatCreate
  imports FatSpec
begin

text \<open>Names of directory entries, and files that are created.\<close>

section \<open>Short names\<close>

definition plain :: "u8 \<Rightarrow> bool" where
  "plain c \<longleftrightarrow> c \<noteq> 0 \<and> c \<noteq> NAME_PADDING_BYTE \<and> c \<noteq> DOT \<and> lower_case c = c"

text \<open>The names that survive: no extension, or one of three characters.\<close>

definition short_name :: "u8 list \<Rightarrow> u8 list \<Rightarrow> u8 list" where
  "short_name base ext = base @ (if ext = [] then [] else DOT # ext)"

definition storable :: "u8 list \<Rightarrow> u8 list \<Rightarrow> bool" where
  "storable base ext \<longleftrightarrow> list_all plain (base @ ext) \<and> length (short_name base ext) \<le> 8 \<and> (ext = [] \<or> length ext = 3)"

lemma copy_ext_plain: "n \<le> length name \<Longrightarrow> length name \<le> 8 \<Longrightarrow> list_all plain name \<Longrightarrow> fst (copy_ext name n b) = 0"
  by (induction n arbitrary: b) (auto simp: list_all_length plain_def)

lemma takeWhile_plain: "list_all plain name \<Longrightarrow> takeWhile (\<lambda>c. c \<noteq> NAME_PADDING_BYTE) (name @ replicate n NAME_PADDING_BYTE) = name"
  by (induction name) (auto simp: plain_def)

lemma plain_string: "list_all plain name \<Longrightarrow> c_string (map lower_case name @ rest) = name @ c_string rest"
  by (induction name) (auto simp: plain_def c_string_def)

lemma c_string_Nil [simp]: "c_string [] = []" and c_string_zero [simp]: "c_string (0 # rest) = []"
  by (simp_all add: c_string_def)

lemma entry_name_plain:
  assumes "list_all plain name" and "length name \<le> 8"
  shows "entry_name name 0 = name @ replicate (11 - length name) NAME_PADDING_BYTE"
proof -
  obtain b where "copy_ext name (length name) (replicate 10 NAME_PADDING_BYTE @ [0]) = (0, b)"
    using copy_ext_plain [OF order_refl assms(2,1)] by (metis prod.collapse)
  then show ?thesis using assms(2) by (simp add: entry_name_def Let_def blit_def drop_replicate)
qed

lemma entry_name_extension:
  assumes "length base \<le> 4" and "list_all plain [x, y, z]"
  shows "entry_name (base @ [DOT, x, y, z]) 0 = base @ replicate (8 - length base) NAME_PADDING_BYTE @ [x, y, z]"
proof -
  let ?name = "base @ [DOT, x, y, z]"
  have n: "?name ! Suc (length base) = x" "?name ! Suc (Suc (length base)) = y" "?name ! Suc (Suc (Suc (length base))) = z" "?name ! length base = DOT"
    by (simp_all add: nth_append)
  have len: "length ?name = Suc (Suc (Suc (Suc (length base))))" by simp
  have "copy_ext ?name (length ?name) (replicate 10 NAME_PADDING_BYTE @ [0]) =
      (Suc (length base), (replicate 10 NAME_PADDING_BYTE @ [0])[10 := z, 9 := y, 8 := x])"
    unfolding len using assms by (simp add: n plain_def)
  moreover have "(replicate 10 NAME_PADDING_BYTE @ [0])[10 := z, 9 := y, 8 := x] = replicate 8 NAME_PADDING_BYTE @ [x, y, z]"
    by (simp add: eval_nat_numeral)
  ultimately show ?thesis using assms(1) by (simp add: entry_name_def Let_def blit_def drop_replicate)
qed

lemma length_entry_name:
  assumes "storable base ext"
  shows "length (entry_name (short_name base ext) 0) = 11"
proof (cases "ext = []")
  case True
  then show ?thesis using assms entry_name_plain [of base] by (simp add: storable_def short_name_def)
next
  case False
  then obtain x y z where "ext = [x, y, z]" using assms by (auto simp: storable_def eval_nat_numeral length_Suc_conv)
  then show ?thesis using assms entry_name_extension [of base x y z] by (simp add: storable_def short_name_def)
qed

lemma get_name_stored:
  assumes "storable base ext" and "de_name e = entry_name (short_name base ext) 0" and "de_attrs e = 0"
  shows "get_name e = short_name base ext"
proof (cases "ext = []")
  case True
  then have b: "list_all plain base" "length base \<le> 8" using assms(1) by (auto simp: storable_def short_name_def)
  have nm: "de_name e = base @ replicate (11 - length base) NAME_PADDING_BYTE" using assms(2) entry_name_plain [OF b] True by (simp add: short_name_def)
  have "take 8 (de_name e) = base @ replicate (8 - length base) NAME_PADDING_BYTE" using b(2) unfolding nm by (simp add: take_replicate min_def)
  moreover have "drop 8 (de_name e) = replicate 3 NAME_PADDING_BYTE" "de_name e ! 8 = NAME_PADDING_BYTE"
    using b(2) unfolding nm by (auto simp: drop_replicate nth_append)
  ultimately show ?thesis using b(1) takeWhile_plain [OF b(1)] plain_string [OF b(1), of "[]"] True
    by (simp add: get_name_def Let_def short_name_def)
next
  case False
  then obtain x y z where ext: "ext = [x, y, z]" using assms(1) by (auto simp: storable_def eval_nat_numeral length_Suc_conv)
  then have b: "list_all plain base" "length base \<le> 4" "list_all plain [x, y, z]" using assms(1) by (auto simp: storable_def short_name_def)
  have nm: "de_name e = base @ replicate (8 - length base) NAME_PADDING_BYTE @ [x, y, z]"
    using assms(2) entry_name_extension [OF b(2,3)] ext by (simp add: short_name_def)
  have "take 8 (de_name e) = base @ replicate (8 - length base) NAME_PADDING_BYTE" "drop 8 (de_name e) = [x, y, z]" "de_name e ! 8 = x"
    using b(2) unfolding nm by (auto simp: nth_append)
  moreover have "lower_case DOT = DOT" by (simp add: lower_case_def)
  ultimately show ?thesis using b(1,3) takeWhile_plain [OF b(1)] plain_string [OF b(1)] assms(3) ext
    by (simp add: get_name_def Let_def short_name_def is_directory_def plain_def c_string_def)
qed

text \<open>Directories keep any name of up to eight such characters.\<close>

lemma get_name_directory:
  assumes "list_all plain name" and "length name \<le> 8" and "de_name e = entry_name name DIRECTORY" and "de_attrs e = DIRECTORY"
  shows "get_name e = name"
proof -
  have pd: "is_directory e" using assms(4) by (simp add: is_directory_def)
  have nm: "de_name e = name @ 0 # drop (Suc (length name)) (replicate 10 NAME_PADDING_BYTE @ [0])"
    using assms(2,3) by (simp add: entry_name_def blit_def)
  show ?thesis
  proof (cases "length name = 8")
    case True
    then have "take 8 (de_name e) = name" "take 3 (drop 8 (de_name e)) = [0, NAME_PADDING_BYTE, 0]" unfolding nm by (simp_all add: eval_nat_numeral)
    moreover note takeWhile_plain [OF assms(1), of 0, simplified replicate_0 append_Nil2]
    ultimately show ?thesis using plain_string [OF assms(1), of "[0]"] pd
      by (simp only: get_name_def Let_def) (simp add: lower_case_def cong: if_cong del: takeWhile_eq_all_conv)
  next
    case False
    then have "take 8 (de_name e) = name @ 0 # replicate (7 - length name) NAME_PADDING_BYTE"
      using assms(2) unfolding nm by (simp add: take_Cons' drop_replicate min_def)
    moreover have "takeWhile (\<lambda>c. c \<noteq> NAME_PADDING_BYTE) (name @ 0 # replicate k NAME_PADDING_BYTE) = name @ [0]" for k
      using assms(1) by (induction name) (auto simp: plain_def takeWhile_eq_Nil_iff)
    ultimately show ?thesis using plain_string [OF assms(1)] pd by (simp add: get_name_def Let_def lower_case_def)
  qed
qed

section \<open>Creating a file\<close>

lemma free_slot_bound: "i \<le> 16 \<Longrightarrow> i \<le> free_slot nm buf i \<and> free_slot nm buf i \<le> 16"
proof (induction nm buf i rule: free_slot.induct)
  case (1 nm buf i)
  then show ?case by (subst (1 2) free_slot.simps) auto
qed

lemma free_slot_before: "i \<le> k \<Longrightarrow> k < free_slot nm buf i \<Longrightarrow> \<not> is_free (entry_at buf k)"
proof (induction nm buf i rule: free_slot.induct)
  case (1 nm buf i)
  then show ?case by (subst (asm) (2) free_slot.simps) (cases "k = i"; auto split: if_splits)
qed

lemma last_slot_ok:
  assumes "drive_ok d" and "chain d x ds" and "ds \<noteq> []" and "length ds \<le> fuel" and "coherent (c, d)" and "active_cluster c \<notin> set ds"
  shows "\<exists>c' d'. last_slot fuel nm x (c, d) = Inr (True, c', d') \<and> same_disk d d' \<and> coherent (c', d') \<and> at_cluster (last ds) (c', d') \<and>
    dir_entry_id c' = free_slot nm (cluster_data d (last ds)) 0"
  using assms
proof (induction ds arbitrary: x c d fuel)
  case (Cons y ys)
  then obtain f where f: "fuel = Suc f" by (cases fuel) auto
  have y: "x = y" "valid_cluster d y" "chain d (fat_next d y) ys" "y \<notin> set ys" using Cons.prems(2) chain_distinct [OF Cons.prems(2)] by auto
  obtain c1 d1 where o1: "change_active_cluster y OwnBuf (c, d) = (Some None, (c1, d1))" "same_disk d d1" "coherent (c1, d1)" "at_cluster y (c1, d1)"
      "table_value c1 = fat_next d y"
    using change_own_ok [OF Cons.prems(1) y(2) Cons.prems(5)] Cons.prems(6) by auto
  have b: "f_buf d1 = cluster_data d y" using o1(4) same_disk_views(4) [OF o1(2)] by (simp add: at_cluster_def)
  let ?c = "c1\<lparr>dir_entry_id := free_slot nm (cluster_data d y) 0\<rparr>"
  have c: "coherent (?c, d1)" "at_cluster y (?c, d1)" using o1(3,4) by (auto simp: coherent_def at_cluster_def)
  show ?case
  proof (cases ys)
    case Nil
    then show ?thesis using y(1,3) o1(1,2,5) b f c by auto
  next
    case (Cons z zs)
    then have lt: "fat_next d y < CLUSTER_MIN_EOC" using y(3) by (simp add: valid_cluster_def)
    have "drive_ok d1" "chain d1 (fat_next d y) ys" "length ys \<le> f" "active_cluster ?c \<notin> set ys" "ys \<noteq> []"
      using Cons.prems(1,4) y(3,4) same_disk_views(7) [OF o1(2)] chain_same_disk [OF o1(2), of _ ys] f c(2)
      by (simp_all add: at_cluster_def) (simp add: Cons)
    from Cons.IH [OF this(1,2,5,3) c(1) this(4)]
    obtain c' d' where "last_slot f nm (fat_next d y) (?c, d1) = Inr (True, c', d')" "same_disk d1 d'" "coherent (c', d')" "at_cluster (last ys) (c', d')"
        "dir_entry_id c' = free_slot nm (cluster_data d (last ys)) 0"
      unfolding same_disk_views(4) [OF o1(2)] by blast
    then show ?thesis using y(1) o1(1,5) b f lt \<open>ys \<noteq> []\<close> same_disk_trans [OF o1(2)] by (auto simp: Let_def)
  qed
qed simp

text \<open>A name that a sector did not have is found where an entry with it was stored, behind entries in use.\<close>

lemma scan_dir_new:
  assumes "scan_dir buf name j found w = None" and "j \<le> i" and "i < 16" and "\<And>k. j \<le> k \<Longrightarrow> k < i \<Longrightarrow> \<not> is_free (entry_at buf k)"
    and "length buf = ATA_SECTOR_SIZE" and "wf_entry e" and "get_name e = name" and "\<not> is_LFN e" and "\<not> is_free e"
  shows "scan_dir (put_entry i e buf) name j found w = Some i"
  using assms(1,2,4)
proof (induction "16 - j" arbitrary: j found w)
  case 0
  then show ?case using assms(3) by simp
next
  case (Suc n)
  have bounds: "32 * Suc i \<le> length buf" "32 * Suc j \<le> length buf" using assms(3,5) Suc.prems(2) by auto
  have raw: "j \<noteq> i \<Longrightarrow> raw_entry (put_entry i e buf) j = raw_entry buf j" using raw_entry_put [OF assms(6) bounds] by simp
  have ent: "j \<noteq> i \<Longrightarrow> entry_at (put_entry i e buf) j = entry_at buf j" using entry_at_put [OF assms(6) bounds] by simp
  show ?case
  proof (cases "j = i")
    case True
    then show ?thesis using entry_at_put [OF assms(6) bounds(1) bounds(1)] assms(3,7-9) by (subst scan_dir.simps) (auto simp: Let_def)
  next
    case False
    have IH: "scan_dir buf name (Suc j) f w' = None \<Longrightarrow> scan_dir (put_entry i e buf) name (Suc j) f w' = Some i" for f w'
      using Suc.hyps(1) [of "Suc j" f w'] Suc.hyps(2) Suc.prems(2,3) False by auto
    have "\<not> is_free (entry_at buf j)" using Suc.prems(2,3) False by simp
    then show ?thesis using Suc.prems(1,2) IH False assms(3) raw [OF False] ent [OF False]
      by (subst scan_dir.simps, subst (asm) scan_dir.simps) (auto simp: Let_def split: if_splits)
  qed
qed

lemma dir_find_new:
  assumes "dir_find d ds name = None" and "ds \<noteq> []" and "distinct ds" and "\<And>y. y \<in> set ds \<Longrightarrow> y \<noteq> last ds \<Longrightarrow> cluster_data d' y = cluster_data d y"
    and "scan_dir (cluster_data d (last ds)) name 0 False [] = None \<Longrightarrow> scan_dir (cluster_data d' (last ds)) name 0 False [] = Some i"
  shows "dir_find d' ds name = Some (last ds, i)"
  using assms
proof (induction ds)
  case (Cons y ys)
  then have n: "scan_dir (cluster_data d y) name 0 False [] = None" "dir_find d ys name = None" by (auto split: option.splits)
  show ?case
  proof (cases "ys = []")
    case True
    then show ?thesis using Cons.prems(5) n by simp
  next
    case False
    then have "last (y # ys) = last ys" "y \<noteq> last ys" using Cons.prems(3) last_in_set [OF False] by auto
    then show ?thesis using Cons n False by auto
  qed
qed simp

lemma add_entry_persist: "add_entry e (c, d) = persist_entry (update_entry (dir_entry_id c) (\<lambda>_. e) (c, d))"
  by (simp add: add_entry_def persist_entry_def update_entry_def)

lemma storable_head:
  assumes "storable base ext" and "short_name base ext \<noteq> []"
  shows "entry_name (short_name base ext) 0 ! 0 \<noteq> 0"
proof (cases "ext = []")
  case True
  then show ?thesis using assms entry_name_plain [of base] by (cases base) (auto simp: storable_def short_name_def plain_def)
next
  case False
  then obtain x y z where "ext = [x, y, z]" using assms(1) by (auto simp: storable_def eval_nat_numeral length_Suc_conv)
  then show ?thesis using assms entry_name_extension [of base x y z] by (cases base) (auto simp: storable_def short_name_def plain_def nth_append)
qed

text \<open>A file is created in a directory that does not have its name and has room in its last cluster.\<close>

definition can_create :: "fat_drive \<Rightarrow> nat \<Rightarrow> nat list \<Rightarrow> u8 list \<Rightarrow> bool" where
  "can_create d lba ds name \<longleftrightarrow> drive_ok d \<and> lba < W32 \<and> chain d lba ds \<and> ds \<noteq> [] \<and> hd name \<noteq> 0x2F \<and> dir_find d ds name = None \<and>
     bytes_per_sector (f_bs d) = ATA_SECTOR_SIZE \<and> free_slot (Some name) (cluster_data d (last ds)) 0 < 16"

lemma touch_ok:
  assumes "storable base ext" and "name = short_name base ext" and "name \<noteq> []" and "can_create d lba ds name" and "length ds \<le> fuel"
  shows "\<exists>d' i. fat_touch fuel lba name superblock d =
      Inr (Some \<lparr>i_size = 0, i_type = INodeFile, i_lba = 0, i_blocks = 0, i_superblock = Some superblock\<rparr>, d') \<and>
    holds d' lba ds name (last ds) i [] [] \<and> others_kept d d' (last ds) [] \<and> \<not> is_directory (the_entry d' (last ds) i) \<and>
    first_cluster_addr (the_entry d' (last ds) i) = 0"
proof -
  let ?x = "last ds" and ?i = "free_slot (Some name) (cluster_data d (last ds)) 0"
  have cc: "drive_ok d" "lba < W32" "chain d lba ds" "ds \<noteq> []" "hd name \<noteq> 0x2F" "dir_find d ds name = None" "bytes_per_sector (f_bs d) = ATA_SECTOR_SIZE" "?i < 16"
    using assms(4) by (auto simp: can_create_def)
  have x: "?x \<in> set ds" using cc(4) by simp
  have vx: "valid_cluster d ?x" "raw_next d ?x \<noteq> 0" using chain_valid [OF cc(3) x] chain_not_free [OF cc(3) x] by auto
  obtain e where e: "new_DirEntry name 0 0 0 = Inr e" "wf_entry e" "get_name e = name" "\<not> is_LFN e" "\<not> is_free e" "file_size e = 0"
      "first_cluster_addr e = 0" "\<not> is_directory e"
  proof -
    have "length name \<le> 8" using assms(1,2) by (simp add: storable_def)
    then obtain e where e: "new_DirEntry name 0 0 0 = Inr e" "de_name e = entry_name name 0" "de_attrs e = 0" "file_size e = 0" "first_cluster_addr e = 0"
        "wf_entry e"
      using length_entry_name [OF assms(1)] assms(2) by (auto simp: new_DirEntry_def wf_entry_def first_cluster_addr_def)
    then show thesis using that [of e] get_name_stored [OF assms(1), of e] storable_head [OF assms(1)] assms(2,3)
      by (simp add: is_LFN_def is_free_def is_directory_def)
  qed
  have "0 \<notin> set ds" using chain_valid [OF cc(3), of 0] by (auto simp: valid_cluster_def)
  then obtain c1 d1 where l: "last_slot fuel (Some name) lba (ctx_init, d) = Inr (True, c1, d1)" "same_disk d d1" "coherent (c1, d1)" "at_cluster ?x (c1, d1)"
      "dir_entry_id c1 = ?i"
    using last_slot_ok [OF cc(1,3,4) assms(5), of ctx_init "Some name"] by auto
  note v = same_disk_views [OF l(2)]
  have op: "opened (c1, d1) ?x ?i" using l(3,4) cc(1,8) vx v by (simp add: opened_def)
  obtain c2 d2 where p: "add_entry e (c1, d1) = (Some (), (c2, d2))" "rewritten d1 d2 ?x ?i e (raw_next d1)" "the_entry d2 ?x ?i = e"
    using persist_opened [OF op, of "\<lambda>_. e"] e(2) unfolding add_entry_persist l(5) by blast
  have dd: "disk_is d d2 ((cluster_data d)(?x := put_entry ?i e (cluster_data d ?x))) (raw_next d)"
    using disk_is_trans [OF disk_is_same [OF l(2) cc(1)]] p(2) unfolding rewritten_def v by blast
  have d2: "cluster_data d2 = (cluster_data d)(?x := put_entry ?i e (cluster_data d ?x))" "drive_ok d2" using dd by (auto simp: disk_is_def)
  have before: "\<not> is_free (entry_at (cluster_data d ?x) k)" if "0 \<le> k" "k < ?i" for k by (rule free_slot_before [OF that])
  have "dir_find d2 ds name = Some (?x, ?i)"
  proof (rule dir_find_new [OF cc(6,4) chain_distinct [OF cc(3)]])
    show "scan_dir (cluster_data d2 ?x) name 0 False [] = Some ?i" if "scan_dir (cluster_data d ?x) name 0 False [] = None"
      using scan_dir_new [OF that _ cc(8) before length_cluster_data [OF cc(1) vx(1)] e(2-5)] d2(1) by simp
  qed (simp add: d2(1))
  moreover have "chain d2 lba ds" using chain_disk_is [OF dd, of ds lba] cc(3) by (simp add: fat_next_def)
  ultimately have "named d2 lba ds name ?x ?i" using cc(2,4,5) d2(2) by (simp add: named_def)
  then have "holds d2 lba ds name ?x ?i [] []" using p(3) e(6) by (simp add: holds_def file_on_def contents_def sectors_of_def add32_def)
  moreover have "others_kept d d2 ?x []" using dd by (simp add: others_kept_def disk_is_def)
  moreover have "\<not> dir_full (c1, d1)" using l(2,5) cc(1,7,8) by (simp add: dir_full_def same_disk_def drive_ok_def)
  moreover have "parent_cluster lba d = lba" using parent_cluster_ok cc(1,2) by blast
  ultimately show ?thesis using l(1) e p(1,3) cc(5) by (auto simp: fat_touch_def dir_entry_to_inode_def add32_def)
qed

end
