(* ===== verification/FatProperties.thy ===== *)
theory FatProperties
  imports FatCreate
begin

text \<open>The properties of the FAT driver, and a small disk on which each of them is seen at work.\<close>

section \<open>A disk\<close>

definition demo_bs :: fat_BS where
  "demo_bs = \<lparr>bytes_per_sector = 512, sectors_per_cluster = 1, reserved_sector_count = 1, table_count = 1, root_entry_count = 0,
     total_sectors_16 = 0, table_size_16 = 0, total_sectors_32 = 8, table_size_32 = 1, root_cluster = 2\<rparr>"

definition demo_table :: "u8 list" where
  "demo_table = le_bytes 4 CLUSTER_MIN_EOC @ le_bytes 4 CLUSTER_EOC @ le_bytes 4 CLUSTER_EOC @ le_bytes 4 4 @ le_bytes 4 CLUSTER_EOC @
     le_bytes 4 CLUSTER_EOC @ replicate 488 0"

definition demo_entry :: DirEntry where
  "demo_entry = \<lparr>de_name = [0x66, 0x20, 0x20, 0x20, 0x20, 0x20, 0x20, 0x20, 0x20, 0x20, 0x20], de_attrs = 0, NTRes = 0, creation_time_tenth = 0,
     creation_time = 0, creation_date = 0, last_access_date = 0, first_cluster_high = 0, write_time = 0, write_date = 0,
     first_cluster_low = 3, file_size = 600\<rparr>"

definition demo_root :: "u8 list" where
  "demo_root = encode_entry demo_entry @ replicate 480 0"

definition demo_drive :: fat_drive where
  "demo_drive = \<lparr>f_bs = demo_bs, f_buf = replicate 512 0, f_FAT = replicate 512 0, f_dev = \<lparr>dev_present = True, dev_ata = True,
     dev_sectors = [replicate 512 0, demo_table, demo_root, replicate 512 7, replicate 512 8, replicate 512 9, replicate 512 0, replicate 512 0]\<rparr>\<rparr>"

text \<open>The directory of the disk has the cluster 2, the file \<^verbatim>\<open>f\<close> in it the clusters 3 and 4, another file the cluster 5, and two clusters are free.\<close>

lemma demo_wf: "wf_entry demo_entry"
  by (simp add: wf_entry_def demo_entry_def)

lemma demo_shape: "first_data_sector demo_bs = 2" "first_fat_sector demo_bs = 1" "sectors_per_cluster demo_bs = 1" "total_sectors demo_bs = 8"
  by (simp_all add: first_data_sector_def demo_bs_def first_fat_sector_def fat_size_def root_dir_sectors_def add32_def mul32_def total_sectors_def)

lemma demo_lengths: "length demo_table = 512" "length demo_root = 512"
  by (simp_all add: demo_table_def demo_root_def demo_wf)

lemma demo_drive_ok: "drive_ok demo_drive"
  using demo_lengths by (simp add: drive_ok_def demo_drive_def demo_shape)

lemma demo_valid: "valid_cluster demo_drive x \<longleftrightarrow> x \<in> {2, 3, 4, 5, 6, 7}"
  by (auto simp: valid_cluster_def data_sector_def table_sector_def demo_drive_def demo_shape)

lemma demo_data: "cluster_data demo_drive 2 = demo_root" "cluster_data demo_drive 3 = replicate 512 7" "cluster_data demo_drive 4 = replicate 512 8"
  by (simp_all add: cluster_data_def demo_valid) (simp_all add: demo_drive_def data_sector_def demo_shape)

lemma demo_next: "raw_next demo_drive 2 = CLUSTER_EOC" "raw_next demo_drive 3 = 4" "raw_next demo_drive 4 = CLUSTER_EOC" "raw_next demo_drive 5 = CLUSTER_EOC"
  by (simp_all add: raw_next_def demo_valid) (simp_all add: demo_drive_def table_sector_def demo_shape demo_table_def le_field_def le_val_le_bytes)

lemma demo_entry_at: "entry_at demo_root 0 = demo_entry" "the_entry demo_drive 2 0 = demo_entry"
proof -
  have "raw_entry demo_root 0 = encode_entry demo_entry" by (simp add: raw_entry_def demo_root_def demo_wf)
  then show "entry_at demo_root 0 = demo_entry" by (simp add: entry_at_def decode_encode_entry demo_wf)
  then show "the_entry demo_drive 2 0 = demo_entry" by (simp add: the_entry_def demo_data)
qed

lemma demo_name: "get_name demo_entry = [0x66]" "\<not> is_free demo_entry" "\<not> is_LFN demo_entry"
  by (simp_all add: get_name_def demo_entry_def is_directory_def is_free_def is_LFN_def c_string_def lower_case_def)

lemma demo_named: "named demo_drive 2 [2] [0x66] 2 0"
proof -
  have "scan_dir demo_root [0x66] 0 False [] = Some 0" by (subst scan_dir.simps) (simp add: demo_entry_at demo_name)
  then show ?thesis using demo_drive_ok by (simp add: named_def demo_valid demo_data fat_next_def demo_next)
qed

lemma demo_file: "file_on demo_drive 2 [2] [0x66] 2 0 [3, 4]"
  using demo_named
  by (simp add: file_on_def demo_entry_at demo_next fat_next_def demo_valid)
    (simp add: demo_entry_def sectors_of_def add32_def first_cluster_addr_def demo_next)

lemma demo_holds: "holds demo_drive 2 [2] [0x66] 2 0 [3, 4] (replicate 512 7 @ replicate 88 8)"
  using demo_file by (simp add: holds_def contents_def demo_entry_at file_data_def demo_data) (simp add: demo_entry_def)

lemma demo_free: "get_free_clusters 1 demo_drive = Some [6]"
proof -
  have "le_field 0 4 demo_table = CLUSTER_MIN_EOC" "le_field 4 4 demo_table = CLUSTER_EOC" "le_field 8 4 demo_table = CLUSTER_EOC"
      "le_field 12 4 demo_table = 4" "le_field 16 4 demo_table = CLUSTER_EOC" "le_field 20 4 demo_table = CLUSTER_EOC"
    by (simp_all add: demo_table_def le_field_def le_val_le_bytes)
  moreover have "le_field 24 4 demo_table = 0" by (simp add: demo_table_def le_field_def) (simp add: eval_nat_numeral)
  note f = calculation this
  have "free_in_sector 1 0 [] 0 demo_table = [6]"
    by (subst free_in_sector.simps, simp add: f)+
  moreover have "read_sectors 1 (f_dev demo_drive) = Some demo_table" by (simp add: read_sectors_def demo_drive_def add32_def)
  ultimately show ?thesis
    by (simp add: get_free_clusters_def, subst free_clusters_from.simps) (simp add: demo_drive_def demo_shape)
qed

lemma demo_sectors: "sectors_of 600 = 2" "sectors_of 1100 = 3" "sectors_of 100 = 1"
  by (simp_all add: sectors_of_def add32_def)

lemma demo_room: "room demo_drive 600 1100"
  using demo_free by (simp add: room_def demo_valid demo_sectors)

lemma demo_size: "file_size demo_entry = 600" "first_cluster_addr demo_entry = 3"
  by (simp_all add: demo_entry_def first_cluster_addr_def)

abbreviation demo_node :: inode where
  "demo_node \<equiv> \<lparr>i_size = 600, i_type = INodeFile, i_lba = 3, i_blocks = 2, i_superblock = Some 0\<rparr>"

lemma demo_create: "can_create demo_drive 2 [2] [0x67]"
proof -
  have "raw_entry demo_root 1 = replicate 32 0" using demo_wf by (simp add: raw_entry_def demo_root_def)
  then have free: "is_free (entry_at demo_root (Suc 0))" by (simp add: is_free_def entry_at_def decode_entry_def)
  have e0: "entry_at demo_root 0 = demo_entry" by (rule demo_entry_at(1))
  have "scan_dir demo_root [0x67] 0 False [] = None"
    by (subst scan_dir.simps, simp add: e0 demo_name, subst scan_dir.simps) (simp add: free)
  moreover have "free_slot (Some [0x67]) demo_root 0 = 1"
    by (subst free_slot.simps, simp add: e0 demo_name, subst free_slot.simps) (simp add: free)
  ultimately show ?thesis using demo_named by (simp add: can_create_def named_def demo_data) (simp add: demo_drive_def demo_bs_def)
qed

section \<open>Properties\<close>

text \<open>
  C3. What is written to a file is what is read back. Take a file that is found by its name in the chain
  of its directory and has the clusters its size asks for, on a disk that has room for the new size.
  Then \<^verbatim>\<open>FAT_drive::write_buf_to_file\<close> succeeds with bytes of any length, whether the file has to grow, to
  shrink or to keep its size, and \<^verbatim>\<open>load_file_to_buf\<close> gives afterwards every piece of those bytes that one asks for, at
  the start of the caller's buffer, the rest of which is left alone.
\<close>

theorem fat_write_then_read:
  assumes "file_on d lba ds name x i xs" and "length ds \<le> fuel" and "i_type node = INodeFile" and "i_size node = file_size (the_entry d x i)"
    and "length bytes \<le> W32 - 512" and "room d (i_size node) (length bytes)"
    and "offset + len \<le> length bytes" and "0 < len" and "len \<le> length dst"
  shows "\<exists>d' d''. write_buf_to_file fuel lba name node bytes d = Inr (True, length bytes, d') \<and>
    load_file_to_buf fuel dst name lba offset len d' = Inr (Some (len, take len (drop offset bytes) @ drop len dst), d'')"
  using write_ok [OF assms(1-6)] holds_read [OF _ assms(2,7-9)] by metis

theorem fat_write_then_read_witness:
  "\<exists>d' d''. write_buf_to_file 1 2 [0x66] demo_node (replicate 1100 1) demo_drive = Inr (True, length (replicate 1100 (1 :: u8)), d') \<and>
    load_file_to_buf 1 [0, 0, 5] [0x66] 2 1000 2 d' = Inr (Some (2, take 2 (drop 1000 (replicate 1100 1)) @ drop 2 [0, 0, 5]), d'')"
  by (rule fat_write_then_read [OF demo_file]) (simp_all add: demo_entry_at demo_size demo_room)

text \<open>
  C22. Writing a file for which the disk has room (if it grows, the clusters that \<^verbatim>\<open>get_free_clusters\<close> finds are clusters of the disk) leaves every other file and
  directory as it was: a chain of clusters that shares none with the file, and does not have the cluster of the directory that holds its entry, is still the
  chain from the same cluster with the same bytes. Without room this is not so: on a full disk the code takes clusters behind the end of the table.
\<close>

theorem fat_write_keeps_others:
  assumes "file_on d lba ds name x i xs" and "length ds \<le> fuel" and "i_type node = INodeFile" and "i_size node = file_size (the_entry d x i)"
    and "length bytes \<le> W32 - 512" and "room d (i_size node) (length bytes)"
    and "chain d f ys" and "set ys \<inter> set xs = {}" and "x \<notin> set ys"
  shows "\<exists>d'. write_buf_to_file fuel lba name node bytes d = Inr (True, length bytes, d') \<and> chain d' f ys \<and> file_data d' ys = file_data d ys"
  using write_ok [OF assms(1-6)] others_kept_chain [OF _ assms(7,8)] others_kept_data [OF _ assms(7-9)] by metis

theorem fat_write_keeps_others_witness:
  "\<exists>d'. write_buf_to_file 1 2 [0x66] demo_node (replicate 1100 1) demo_drive = Inr (True, length (replicate 1100 (1 :: u8)), d') \<and>
    chain d' 5 [5] \<and> file_data d' [5] = file_data demo_drive [5]"
  by (rule fat_write_keeps_others [OF demo_file]) (simp_all add: demo_entry_at demo_size demo_room demo_valid demo_next fat_next_def)

text \<open>
  C26. Changing the size of a file keeps the bytes that remain: if the file shrinks, keeps its size, or grows and the clusters that \<^verbatim>\<open>get_free_clusters\<close> finds for it are
  clusters of the disk (the disk has room), \<^verbatim>\<open>FAT_drive::resize\<close> succeeds and gives a file on the disk with the new size, found under its name, whose first bytes are
  those of the old one up to the smaller of the sizes. Sizes are at most 2^32 - 512.
\<close>

theorem fat_resize_keeps_contents:
  assumes "file_on d lba ds name x i xs" and "length ds \<le> fuel" and "new \<le> W32 - 512" and "room d (file_size (the_entry d x i)) new"
  shows "\<exists>d' ys. fat_resize fuel lba name (file_size (the_entry d x i)) new d = Inr (True, d') \<and> file_on d' lba ds name x i ys \<and>
    file_size (the_entry d' x i) = new \<and> take new (contents d x i xs) = take (file_size (the_entry d x i)) (contents d' x i ys)"
proof -
  obtain d' ys where r: "fat_resize fuel lba name (file_size (the_entry d x i)) new d = Inr (True, d')" "resized d d' lba ds name x i xs new ys"
    using resize_ok [OF assms] by blast
  let ?k = "min (file_size (the_entry d x i)) new"
  have "file_on d' lba ds name x i ys" "file_size (the_entry d' x i) = new" "take ?k (file_data d' ys) = take ?k (file_data d xs)"
    using r(2) by (auto simp: resized_def Let_def)
  then show ?thesis using r(1) by (auto simp: contents_def min.commute)
qed

theorem fat_resize_keeps_contents_witness:
  "\<exists>d' ys. fat_resize 1 2 [0x66] (file_size (the_entry demo_drive 2 0)) 1100 demo_drive = Inr (True, d') \<and> file_on d' 2 [2] [0x66] 2 0 ys \<and>
    file_size (the_entry d' 2 0) = 1100 \<and>
    take 1100 (contents demo_drive 2 0 [3, 4]) = take (file_size (the_entry demo_drive 2 0)) (contents d' 2 0 ys)"
  by (rule fat_resize_keeps_contents [OF demo_file]) (simp_all add: demo_entry_at demo_size demo_room)

text \<open>
  C40. A file that shrinks but is not emptied keeps one cluster more than its size asks for: when \<^verbatim>\<open>FAT_drive::resize\<close>
  is to leave \<open>m\<close> clusters, it walks \<open>m\<close> links from the first cluster and ends the chain there, which is behind \<open>m + 1\<close> clusters.
\<close>

theorem fat_shrink_keeps_one_more:
  assumes "file_on d lba ds name x i xs" and "length ds \<le> fuel" and "0 < new" and "new \<le> W32 - 512"
    and "sectors_of new < sectors_of (file_size (the_entry d x i))"
  shows "\<exists>d'. fat_resize fuel lba name (file_size (the_entry d x i)) new d = Inr (True, d') \<and> file_size (the_entry d' x i) = new \<and>
    chain d' (first_cluster_addr (the_entry d' x i)) (take (Suc (sectors_of new)) xs)"
proof -
  obtain c1 d1 where g: "get_child_dir_entry_id fuel lba name (ctx_init, d) = Inr (Some i, (c1, d1))" "same_disk d d1" "opened (c1, d1) x i"
    using get_child_opened [OF file_on_facts(1) [OF assms(1)] assms(2)] by blast
  note v = same_disk_file_on [OF g(2)]
  have f: "file_on d1 lba ds name x i xs" using assms(1) v(1) by simp
  obtain s' where s': "shrink_chain i new (sectors_of (file_size (the_entry d x i))) (sectors_of new) (update_entry i (set_size new) (c1, d1)) = (Some (), s')"
      "resized d (snd s') lba ds name x i xs new (take (Suc (sectors_of new)) xs)"
    using shrink_file [OF f g(3) assms(4)] assms(3,5) unfolding v(2,6) by auto
  moreover have "xs \<noteq> []" using assms(1,5) by (auto simp: file_on_def)
  ultimately have "file_size (the_entry (snd s') x i) = new" "chain (snd s') (first_cluster_addr (the_entry (snd s') x i)) (take (Suc (sectors_of new)) xs)"
    by (auto simp: resized_def file_on_def)
  moreover have "fat_resize fuel lba name (file_size (the_entry d x i)) new d = Inr (True, snd s')" using g(1) s'(1) assms(5) by (simp add: fat_resize_def Let_def)
  ultimately show ?thesis by blast
qed

theorem fat_shrink_keeps_one_more_witness:
  "\<exists>d'. fat_resize 1 2 [0x66] (file_size (the_entry demo_drive 2 0)) 100 demo_drive = Inr (True, d') \<and> file_size (the_entry d' 2 0) = 100 \<and>
    chain d' (first_cluster_addr (the_entry d' 2 0)) (take (Suc (sectors_of 100)) [3, 4])"
  by (rule fat_shrink_keeps_one_more [OF demo_file]) (simp_all add: demo_entry_at demo_size demo_sectors)

text \<open>
  C25. A file that \<^verbatim>\<open>FAT_drive::touch\<close> creates is found by its name: in a directory that does not have the name
  and has a free entry in its last cluster, an empty file is created, looking the name up gives the inode that \<^verbatim>\<open>touch\<close> returned,
  and every chain of clusters that does not have the directory's last cluster is as before. The names are those that a short entry can
  keep: not empty, of at most eight characters in all, in lower case, without spaces, not starting with a slash, and with no dot or one dot in front of an extension of exactly
  three characters.
\<close>

theorem fat_touch_then_lookup:
  assumes "storable base ext" and "short_name base ext \<noteq> []" and "can_create d lba ds (short_name base ext)" and "length ds \<le> fuel"
    and "node = \<lparr>i_size = 0, i_type = INodeFile, i_lba = 0, i_blocks = 0, i_superblock = Some superblock\<rparr>"
    and "chain d f ys" and "last ds \<notin> set ys"
  shows "\<exists>d' d''. fat_touch fuel lba (short_name base ext) superblock d = Inr (Some node, d') \<and>
    fat_get_child fuel lba (short_name base ext) superblock d' = Inr (Some node, d'') \<and> chain d' f ys \<and> file_data d' ys = file_data d ys"
proof -
  obtain d' i where t: "fat_touch fuel lba (short_name base ext) superblock d = Inr (Some node, d')"
      "holds d' lba ds (short_name base ext) (last ds) i [] []" "others_kept d d' (last ds) []"
      "\<not> is_directory (the_entry d' (last ds) i)" "first_cluster_addr (the_entry d' (last ds) i) = 0"
    using touch_ok [OF assms(1) refl assms(2-4), of superblock] unfolding assms(5) by blast
  have h: "named d' lba ds (short_name base ext) (last ds) i" "file_size (the_entry d' (last ds) i) = 0"
    using t(2) by (auto simp: holds_def file_on_def)
  obtain c'' d'' where "get_child_dir_entry_id fuel lba (short_name base ext) (ctx_init, d') = Inr (Some i, (c'', d''))"
      "entry_at (f_buf d'') i = the_entry d' (last ds) i" using get_child_ok [OF h(1) assms(4)] by blast
  then have "fat_get_child fuel lba (short_name base ext) superblock d' = Inr (Some node, d'')"
    using t(4,5) h(2) assms(5) by (simp add: fat_get_child_def dir_entry_to_inode_def add32_def)
  then show ?thesis using t(1) others_kept_chain [OF t(3) assms(6)] others_kept_data [OF t(3) assms(6) _ assms(7)] by auto
qed

theorem fat_touch_then_lookup_witness:
  "\<exists>d' d''. fat_touch 1 2 (short_name [0x67] []) 0 demo_drive = Inr (Some \<lparr>i_size = 0, i_type = INodeFile, i_lba = 0, i_blocks = 0, i_superblock = Some 0\<rparr>, d') \<and>
    fat_get_child 1 2 (short_name [0x67] []) 0 d' = Inr (Some \<lparr>i_size = 0, i_type = INodeFile, i_lba = 0, i_blocks = 0, i_superblock = Some 0\<rparr>, d'') \<and>
    chain d' 5 [5] \<and> file_data d' [5] = file_data demo_drive [5]"
proof (rule fat_touch_then_lookup)
  show "can_create demo_drive 2 [2] (short_name [0x67] [])" using demo_create by (simp add: short_name_def)
qed (simp_all add: storable_def short_name_def plain_def lower_case_def demo_valid demo_next fat_next_def)

text \<open>
  C39. Short names survive being stored: the entry that \<^verbatim>\<open>DirEntry\<close>'s constructor makes has the name it was given, for files
  with a name of at most eight characters in all, in lower case and without spaces, that has no extension or
  one of exactly three characters, and for directories with such a name without an extension.
\<close>

theorem fat_name_round_trip:
  assumes "storable base ext" and "new_DirEntry (short_name base ext) 0 cluster sz = Inr e"
    and "list_all plain name" and "new_DirEntry name DIRECTORY cluster sz = Inr e'"
  shows "get_name e = short_name base ext \<and> get_name e' = name"
  using assms get_name_stored [OF assms(1), of e] get_name_directory [OF assms(3), of e'] by (auto simp: new_DirEntry_def split: if_splits)

theorem fat_name_round_trip_witness:
  "get_name (case new_DirEntry (short_name [0x61] [0x62, 0x63, 0x64]) 0 3 7 of Inr e \<Rightarrow> e) = short_name [0x61] [0x62, 0x63, 0x64] \<and>
    get_name (case new_DirEntry [0x62, 0x69, 0x6E] DIRECTORY 3 7 of Inr e \<Rightarrow> e) = [0x62, 0x69, 0x6E]"
proof -
  have "storable [0x61] [0x62, 0x63, 0x64]" "list_all plain [0x62, 0x69, 0x6E]" by (simp_all add: storable_def short_name_def plain_def lower_case_def)
  moreover obtain e e' where "new_DirEntry (short_name [0x61] [0x62, 0x63, 0x64]) 0 3 7 = Inr e" "new_DirEntry [0x62, 0x69, 0x6E] DIRECTORY 3 7 = Inr e'"
    by (simp add: new_DirEntry_def short_name_def)
  ultimately show ?thesis using fat_name_round_trip [of "[0x61]" "[0x62, 0x63, 0x64]" 3 7 e "[0x62, 0x69, 0x6E]" e'] by simp
qed

text \<open>With an extension of another length the name stored is another one: \<^verbatim>\<open>a.c\<close> is stored as \<^verbatim>\<open>a\<close>.\<close>

lemma fat_name_changed:
  assumes "new_DirEntry [0x61, DOT, 0x63] 0 cluster sz = Inr e"
  shows "get_name e = [0x61]"
proof -
  have rep: "replicate 10 a = [a, a, a, a, a, a, a, a, a, a]" for a :: u8 by (simp add: eval_nat_numeral)
  have "copy_ext [0x61, DOT, 0x63] (Suc (Suc (Suc 0))) (replicate 10 NAME_PADDING_BYTE @ [0]) = (2, (replicate 10 NAME_PADDING_BYTE @ [0])[10 := 0x63])"
    by simp
  then have "de_name e = [0x61, 0x20, 0x20, 0x20, 0x20, 0x20, 0x20, 0x20, 0x20, 0x20, 0x63]" "de_attrs e = 0"
    using assms by (auto simp: new_DirEntry_def entry_name_def blit_def rep)
  then show ?thesis by (simp add: get_name_def is_directory_def c_string_def lower_case_def)
qed

end
