(* ===== verification/Paths.thy ===== *)
theory Paths
  imports FatCreate KString
begin

text \<open>
  Resolution of paths and the cache of directory entries (\<^verbatim>\<open>src/kernel/file_management/VFS.cpp\<close>,
  \<^verbatim>\<open>superblock.cpp\<close>, \<^verbatim>\<open>FS.cpp\<close>, \<^verbatim>\<open>dentry.cpp\<close>). A directory entry is an object with an address; pointers to
  it are counted, so the state knows which pointers exist: those of the cache, of the search path,
  of the children that point to their parent, and those that others hold (\<open>pt_held\<close>). Inodes are objects too: every entry
  is made from a raw pointer and so has a counter of its own for its inode, which is deleted with the entry, even if
  another entry was made from the same pointer. The abstract class
  \<^verbatim>\<open>FS\<close> is the record \<open>fs_class\<close> of its methods, and the FAT driver is one of them.
\<close>

section \<open>Model\<close>

subsection \<open>File systems\<close>

text \<open>
  The methods of \<^verbatim>\<open>FS\<close> on the state of a file system. Directories are named by the \<^verbatim>\<open>lba\<close> of
  their inode, new inodes get the given superblock.
\<close>

record 'd fs_class =
  fc_get_child :: "nat \<Rightarrow> u8 list \<Rightarrow> nat \<Rightarrow> 'd \<Rightarrow> (inode option \<times> 'd) res"
  fc_touch :: "nat \<Rightarrow> u8 list \<Rightarrow> nat \<Rightarrow> 'd \<Rightarrow> (inode option \<times> 'd) res"
  fc_mkdir :: "nat \<Rightarrow> u8 list \<Rightarrow> nat \<Rightarrow> 'd \<Rightarrow> (inode option \<times> 'd) res"
  fc_ls :: "nat \<Rightarrow> nat \<Rightarrow> 'd \<Rightarrow> ((bool \<times> (u8 list \<times> inode) list) \<times> 'd) res"
  fc_load :: "u8 list \<Rightarrow> u8 list \<Rightarrow> nat \<Rightarrow> nat \<Rightarrow> nat \<Rightarrow> 'd \<Rightarrow> ((nat \<times> u8 list) option \<times> 'd) res"
  fc_write :: "nat \<Rightarrow> u8 list \<Rightarrow> inode \<Rightarrow> u8 list \<Rightarrow> 'd \<Rightarrow> (bool \<times> nat \<times> 'd) res"
  fc_resize :: "nat \<Rightarrow> u8 list \<Rightarrow> nat \<Rightarrow> nat \<Rightarrow> 'd \<Rightarrow> (bool \<times> 'd) res"
  fc_root :: "nat \<Rightarrow> 'd \<Rightarrow> inode"

text \<open>\<open>fuel\<close> bounds the length of the cluster chains that are followed.\<close>

definition fat_fs :: "nat \<Rightarrow> fat_drive fs_class" where
  "fat_fs fuel = \<lparr>fc_get_child = fat_get_child fuel, fc_touch = fat_touch fuel, fc_mkdir = fat_mkdir fuel, fc_ls = fat_ls fuel,
     fc_load = load_file_to_buf fuel, fc_write = write_buf_to_file fuel, fc_resize = fat_resize fuel, fc_root = get_root_node\<rparr>"

subsection \<open>The cache of directory entries\<close>

record pdentry =
  pd_inode :: nat
  pd_parent :: "nat option"
  pd_name :: "u8 list"

abbreviation MAX_DENTRIES :: nat where "MAX_DENTRIES \<equiv> 200"
abbreviation MAX_DEVICES :: nat where "MAX_DEVICES \<equiv> 4"
abbreviation SLASH :: u8 where "SLASH \<equiv> 0x2F"

text \<open>
  \<open>pt_live\<close> are the addresses of the entries that exist, \<open>pt_nodes\<close> are the inodes by their address, of which those in
  \<open>pt_freed\<close> have been deleted. \<open>pt_blocks\<close> is the table of superblocks with the
  mount path and the file system of each; \<open>pt_super\<close> is the superblock that a file system has, \<open>pt_roots\<close>
  the address of its root node.
\<close>

record 'd paths =
  pt_objs :: "nat \<Rightarrow> pdentry"
  pt_live :: "nat list"
  pt_next :: nat
  pt_nodes :: "nat \<Rightarrow> inode"
  pt_freed :: "nat list"
  pt_inext :: nat
  pt_cache :: "nat option list"
  pt_lowest :: nat
  pt_path :: "nat list"
  pt_held :: "nat list"
  pt_blocks :: "(u8 list \<times> nat) list"
  pt_super :: "nat \<Rightarrow> nat"
  pt_roots :: "nat \<Rightarrow> nat option"
  pt_fs :: "nat \<Rightarrow> 'd"

abbreviation node_of :: "'d paths \<Rightarrow> nat \<Rightarrow> inode" where
  "node_of s a \<equiv> pt_nodes s (pd_inode (pt_objs s a))"

text \<open>\<^verbatim>\<open>dentry->inode\<close>, followed.\<close>

definition inode_of :: "'d paths \<Rightarrow> nat \<Rightarrow> inode res" where
  "inode_of s a = (if pd_inode (pt_objs s a) \<in> set (pt_freed s) then Inl UseAfterFree else Inr (node_of s a))"

definition new_inode :: "inode \<Rightarrow> 'd paths \<Rightarrow> nat \<times> 'd paths" where
  "new_inode node s = (pt_inext s, s\<lparr>pt_nodes := (pt_nodes s)(pt_inext s := node), pt_inext := pt_inext s + 1\<rparr>)"

definition delete_inode :: "nat \<Rightarrow> 'd paths \<Rightarrow> 'd paths res" where
  "delete_inode n s = (if n \<in> set (pt_freed s) then Inl UseAfterFree else Inr (s\<lparr>pt_freed := n # pt_freed s\<rparr>))"

definition new_dentry :: "nat \<Rightarrow> nat option \<Rightarrow> u8 list \<Rightarrow> 'd paths \<Rightarrow> nat \<times> 'd paths" where
  "new_dentry node parent name s =
     (pt_next s, s\<lparr>pt_objs := (pt_objs s)(pt_next s := \<lparr>pd_inode = node, pd_parent = parent, pd_name = name\<rparr>),
        pt_live := pt_next s # pt_live s, pt_next := pt_next s + 1\<rparr>)"

text \<open>The number of pointers to an entry, \<open>locals\<close> being those in local variables.\<close>

definition dentry_use_count :: "nat list \<Rightarrow> nat \<Rightarrow> 'd paths \<Rightarrow> nat" where
  "dentry_use_count locals a s =
     count_list (pt_cache s) (Some a) + count_list (pt_path s) a + count_list (pt_held s @ locals) a +
     length (filter (\<lambda>b. pd_parent (pt_objs s b) = Some a) (pt_live s))"

text \<open>
  The last pointer to an entry is gone: the object is deleted, and with it its pointer to the parent, which
  may have been the last one too, and then the inode. A parent exists before its children.
\<close>

function delete_dentry :: "nat list \<Rightarrow> nat \<Rightarrow> 'd paths \<Rightarrow> 'd paths res" where
  "delete_dentry locals a s =
     (let s1 = s\<lparr>pt_live := removeAll a (pt_live s)\<rparr> in
      bind_res
        (case pd_parent (pt_objs s a) of
           None \<Rightarrow> Inr s1
         | Some p \<Rightarrow> if p < a \<and> dentry_use_count locals p s1 = 0 then delete_dentry locals p s1 else Inr s1)
        (delete_inode (pd_inode (pt_objs s a))))"
  by pat_completeness auto
termination by (relation "measure (\<lambda>(_, a, _). a)") auto

declare delete_dentry.simps [simp del]

text \<open>The loop over the cache; the entries of the root and of the mount directory are skipped.\<close>

function free_unused_from :: "nat list \<Rightarrow> nat \<Rightarrow> 'd paths \<Rightarrow> 'd paths res" where
  "free_unused_from locals i s =
     (if i < MAX_DENTRIES
      then case pt_cache s ! i of
             None \<Rightarrow> free_unused_from locals (i + 1) (s\<lparr>pt_lowest := min i (pt_lowest s)\<rparr>)
           | Some a \<Rightarrow>
               if dentry_use_count locals a s = 1
               then bind_res (delete_dentry locals a (s\<lparr>pt_cache := (pt_cache s)[i := None]\<rparr>)) (\<lambda>s1.
                 free_unused_from locals (i + 1) (s1\<lparr>pt_lowest := min (pt_lowest s) i\<rparr>))
               else free_unused_from locals (i + 1) s
      else Inr s)"
  by pat_completeness auto
termination by (relation "measure (\<lambda>(_, i, _). MAX_DENTRIES - i)") auto

declare free_unused_from.simps [simp del]

definition free_unused_dentry_cache_entries :: "nat list \<Rightarrow> 'd paths \<Rightarrow> 'd paths res" where
  "free_unused_dentry_cache_entries locals s = free_unused_from locals 2 s"

definition cache_dentry :: "nat list \<Rightarrow> nat \<Rightarrow> 'd paths \<Rightarrow> (bool \<times> 'd paths) res" where
  "cache_dentry locals a s =
     bind_res (if pt_lowest s = MAX_DENTRIES then free_unused_dentry_cache_entries (a # locals) s else Inr s) (\<lambda>s1.
       if pt_lowest s1 = MAX_DENTRIES then Inr (False, s1)
       else let cache = (pt_cache s1)[pt_lowest s1 := Some a] in
         Inr (True, s1\<lparr>pt_cache := cache, pt_lowest := scan_used cache (pt_lowest s1 + 1)\<rparr>))"

fun find_cached :: "nat option list \<Rightarrow> nat \<Rightarrow> u8 list \<Rightarrow> (nat \<Rightarrow> pdentry) \<Rightarrow> nat option" where
  "find_cached [] parent name objs = None"
| "find_cached (None # rest) parent name objs = find_cached rest parent name objs"
| "find_cached (Some a # rest) parent name objs =
     (if pd_name (objs a) = name \<and> pd_parent (objs a) = Some parent then Some a else find_cached rest parent name objs)"

definition get_cached_dentry :: "nat \<Rightarrow> u8 list \<Rightarrow> 'd paths \<Rightarrow> nat option" where
  "get_cached_dentry parent name s = find_cached (pt_cache s) parent name (pt_objs s)"

subsection \<open>Browsing\<close>

text \<open>The first loop of \<open>browse_to\<close>: the entry reached in the cache, and the tokens that are left.\<close>

fun browse_cached :: "u8 list list \<Rightarrow> nat \<Rightarrow> 'd paths \<Rightarrow> (nat \<times> u8 list list) res" where
  "browse_cached [] a s = Inr (a, [])"
| "browse_cached (token # rest) a s =
     (case (if token = [DOT] then Some a else if token = [DOT, DOT] then pd_parent (pt_objs s a) else get_cached_dentry a token s) of
        None \<Rightarrow> Inr (a, token # rest)
      | Some b \<Rightarrow> bind_res (inode_of s b) (\<lambda>n. if i_type n \<noteq> INodeDir then Inr (b, rest) else browse_cached rest b s))"

text \<open>An entry with a new inode.\<close>

definition new_entry :: "inode \<Rightarrow> nat option \<Rightarrow> u8 list \<Rightarrow> 'd paths \<Rightarrow> nat \<times> 'd paths" where
  "new_entry node parent name s = (let (n, s1) = new_inode node s in new_dentry n parent name s1)"

text \<open>\<^verbatim>\<open>get_child_dentry\<close> of the file system with number \<open>f\<close>.\<close>

definition child_dentry :: "'d fs_class \<Rightarrow> nat \<Rightarrow> nat \<Rightarrow> u8 list \<Rightarrow> 'd paths \<Rightarrow> (nat option \<times> 'd paths) res" where
  "child_dentry fs f a name s =
     bind_res (inode_of s a) (\<lambda>n. bind_res (fc_get_child fs (i_lba n) name (pt_super s f) (pt_fs s f)) (\<lambda>(r, d).
       let s1 = s\<lparr>pt_fs := (pt_fs s)(f := d)\<rparr> in
       case r of
         None \<Rightarrow> Inr (None, s1)
       | Some node \<Rightarrow> let (b, s2) = new_entry node (Some a) name s1 in Inr (Some b, s2)))"

definition next_dentry :: "'d fs_class \<Rightarrow> nat \<Rightarrow> nat \<Rightarrow> u8 list \<Rightarrow> 'd paths \<Rightarrow> (nat option \<times> 'd paths) res" where
  "next_dentry fs f a token s =
     (if token = [DOT] then Inr (Some a, s)
      else if token = [DOT, DOT] then Inr (pd_parent (pt_objs s a), s)
      else child_dentry fs f a token s)"

text \<open>
  The second loop. Every entry that is passed is put into the cache, also one that is there already.
  When the cache is full, an entry that was just created is deleted again.
\<close>

fun browse_disk :: "'d fs_class \<Rightarrow> nat \<Rightarrow> bool \<Rightarrow> u8 list list \<Rightarrow> nat \<Rightarrow> 'd paths \<Rightarrow> (nat option \<times> 'd paths) res" where
  "browse_disk fs f print_errors [] a s = Inr (Some a, s)"
| "browse_disk fs f print_errors (token # rest) a s =
     bind_res (inode_of s a) (\<lambda>n.
       if i_type n \<noteq> INodeDir then Inr (None, s)
       else bind_res (next_dentry fs f a token s) (\<lambda>(r, s1).
         case r of
           None \<Rightarrow> Inr (None, s1)
         | Some b \<Rightarrow>
             bind_res (cache_dentry [] b s1) (\<lambda>(okay, s2).
               if okay then browse_disk fs f print_errors rest b s2
               else if print_errors then Inl (Irrecoverable ''Too many dentries'')
               else bind_res (if dentry_use_count [] b s2 = 0 then delete_dentry [] b s2 else Inr s2) (\<lambda>s3. Inr (None, s3)))))"

abbreviation tokens :: "u8 list \<Rightarrow> u8 list list" where
  "tokens path \<equiv> chunks (\<lambda>c. c = SLASH) path"

definition browse_from :: "'d fs_class \<Rightarrow> u8 list \<Rightarrow> nat \<Rightarrow> bool \<Rightarrow> 'd paths \<Rightarrow> (nat option \<times> 'd paths) res" where
  "browse_from fs path start print_errors s =
     bind_res (browse_cached (tokens path) start s) (\<lambda>(a, rest).
     bind_res (inode_of s a) (\<lambda>n.
       case i_superblock n of
         None \<Rightarrow> Inr (None, s)
       | Some b \<Rightarrow>
           if rest \<noteq> [] \<and> i_type n \<noteq> INodeDir then Inr (None, s)
           else browse_disk fs (snd (pt_blocks s ! b)) print_errors rest a s))"

text \<open>The overload without a starting point: the root, or the directories of the search path in turn.\<close>

fun browse_search :: "'d fs_class \<Rightarrow> u8 list \<Rightarrow> bool \<Rightarrow> nat list \<Rightarrow> 'd paths \<Rightarrow> (nat option \<times> 'd paths) res" where
  "browse_search fs path print_errors [] s = Inr (None, s)"
| "browse_search fs path print_errors (a # rest) s =
     bind_res (browse_from fs path a print_errors s) (\<lambda>(r, s1).
       if r \<noteq> None then Inr (r, s1) else browse_search fs path print_errors rest s1)"

definition root_dentry :: "'d paths \<Rightarrow> nat res" where
  "root_dentry s = (case pt_cache s ! 0 of None \<Rightarrow> Inl NullDeref | Some a \<Rightarrow> Inr a)"

definition browse_to :: "'d fs_class \<Rightarrow> u8 list \<Rightarrow> bool \<Rightarrow> bool \<Rightarrow> 'd paths \<Rightarrow> (nat option \<times> 'd paths) res" where
  "browse_to fs path use_path_if_no_starting_slash print_errors s =
     (if path = [] then Inr (None, s)
      else if hd path = SLASH then bind_res (root_dentry s) (\<lambda>a. browse_from fs path a print_errors s)
      else if \<not> use_path_if_no_starting_slash then Inr (None, s)
      else browse_search fs path print_errors (pt_path s) s)"

definition add_to_path :: "'d fs_class \<Rightarrow> u8 list \<Rightarrow> 'd paths \<Rightarrow> (bool \<times> 'd paths) res" where
  "add_to_path fs path s =
     bind_res (browse_to fs path True True s) (\<lambda>(r, s1).
       case r of
         None \<Rightarrow> Inr (False, s1)
       | Some a \<Rightarrow> bind_res (inode_of s1 a) (\<lambda>n.
           if i_type n \<noteq> INodeDir then Inr (False, s1) else Inr (True, s1\<lparr>pt_path := pt_path s1 @ [a]\<rparr>)))"

subsection \<open>Files by their path\<close>

text \<open>The part of an absolute path behind its last slash.\<close>

definition get_file_name :: "u8 list \<Rightarrow> u8 list res" where
  "get_file_name path =
     (if path = [] \<or> hd path \<noteq> SLASH then Inl (Irrecoverable ''Get file name expects absolute path'')
      else Inr (rev (takeWhile (\<lambda>c. c \<noteq> SLASH) (rev path))))"

definition get_file_parent_dentry :: "'d fs_class \<Rightarrow> u8 list \<Rightarrow> bool \<Rightarrow> 'd paths \<Rightarrow> ((nat \<times> u8 list) option \<times> 'd paths) res" where
  "get_file_parent_dentry fs path print_errors s =
     (if path = [] \<or> hd path \<noteq> SLASH \<or> path = [SLASH] then Inr (None, s)
      else bind_res (get_file_name path) (\<lambda>name.
        if name = [] then Inr (None, s)
        else bind_res (browse_to fs (take (length path - length name) path) True print_errors s) (\<lambda>(r, s1).
          case r of
            None \<Rightarrow> Inr (None, s1)
          | Some a \<Rightarrow> bind_res (inode_of s1 a) (\<lambda>n. if i_type n \<noteq> INodeDir then Inr (None, s1) else Inr (Some (a, name), s1)))))"

text \<open>While the file is looked up, a local variable points to its directory.\<close>

definition browse_child :: "'d fs_class \<Rightarrow> u8 list \<Rightarrow> nat \<Rightarrow> bool \<Rightarrow> 'd paths \<Rightarrow> (nat option \<times> 'd paths) res" where
  "browse_child fs name a print_errors s =
     bind_res (browse_from fs name a print_errors (s\<lparr>pt_held := a # pt_held s\<rparr>)) (\<lambda>(r, s1).
       Inr (r, s1\<lparr>pt_held := remove1 a (pt_held s1)\<rparr>))"

definition get_file_dentry :: "'d fs_class \<Rightarrow> u8 list \<Rightarrow> bool \<Rightarrow> u8 list option \<Rightarrow> 'd paths \<Rightarrow> (nat option \<times> 'd paths) res" where
  "get_file_dentry fs path print_errors work_dir s =
     (if path \<noteq> [] \<and> hd path = SLASH
      then bind_res (get_file_parent_dentry fs path print_errors s) (\<lambda>(r, s1).
        case r of None \<Rightarrow> Inr (None, s1) | Some (a, name) \<Rightarrow> browse_child fs name a print_errors s1)
      else case work_dir of
        None \<Rightarrow> Inr (None, s)
      | Some wd \<Rightarrow>
          bind_res (browse_to fs wd False print_errors s) (\<lambda>(r, s1).
            case r of None \<Rightarrow> Inr (None, s1) | Some a \<Rightarrow> browse_child fs path a print_errors s1))"

definition fs_of :: "'d paths \<Rightarrow> nat \<Rightarrow> nat res" where
  "fs_of s a = bind_res (inode_of s a) (\<lambda>n. case i_superblock n of None \<Rightarrow> Inl NullDeref | Some b \<Rightarrow> Inr (snd (pt_blocks s ! b)))"

text \<open>An entry for a new inode, put into the cache; the pointer is returned to the caller whether or not there was room.\<close>

definition register_new :: "inode option \<Rightarrow> nat \<Rightarrow> u8 list \<Rightarrow> 'd paths \<Rightarrow> (nat option \<times> 'd paths) res" where
  "register_new r parent name s =
     (case r of
        None \<Rightarrow> Inr (None, s)
      | Some node \<Rightarrow> let (b, s1) = new_entry node (Some parent) name s in
          bind_res (cache_dentry [parent] b s1) (\<lambda>(_, s2). Inr (Some b, s2)))"

definition vfs_touch :: "'d fs_class \<Rightarrow> u8 list \<Rightarrow> 'd paths \<Rightarrow> (nat option \<times> 'd paths) res" where
  "vfs_touch fs path s =
     bind_res (get_file_parent_dentry fs path True s) (\<lambda>(r, s1).
       case r of
         None \<Rightarrow> Inr (None, s1)
       | Some (a, name) \<Rightarrow>
           bind_res (fs_of s1 a) (\<lambda>f. bind_res (inode_of s1 a) (\<lambda>n.
           bind_res (fc_touch fs (i_lba n) name (pt_super s1 f) (pt_fs s1 f)) (\<lambda>(q, d).
             register_new q a name (s1\<lparr>pt_fs := (pt_fs s1)(f := d)\<rparr>)))))"

text \<open>
  The search for the slash before the name starts at the last character, or at the one before it if the path
  ends with a slash; then that slash belongs to the name. The copy of a path that does not end with one is
  extended by a slash, and its terminator is written one byte behind the array; that byte is not modelled.
\<close>

definition vfs_mkdir :: "'d fs_class \<Rightarrow> u8 list \<Rightarrow> 'd paths \<Rightarrow> (bool \<times> 'd paths) res" where
  "vfs_mkdir fs path s =
     (if path = [] \<or> hd path \<noteq> SLASH \<or> path = [SLASH] then Inr (False, s)
      else
        let head = (if last path = SLASH then butlast path else path);
            n = length (takeWhile (\<lambda>c. c \<noteq> SLASH) (rev head));
            parent = take (length head - n) path;
            dir_name = drop (length head - n) path in
        bind_res (browse_to fs parent True True s) (\<lambda>(r, s1).
          case r of
            None \<Rightarrow> Inr (False, s1)
          | Some a \<Rightarrow>
              bind_res (inode_of s1 a) (\<lambda>n.
                if i_type n \<noteq> INodeDir then Inr (False, s1)
                else bind_res (fs_of s1 a) (\<lambda>f.
                  bind_res (fc_mkdir fs (i_lba n) dir_name (pt_super s1 f) (pt_fs s1 f)) (\<lambda>(q, d).
                  bind_res (register_new q a dir_name (s1\<lparr>pt_fs := (pt_fs s1)(f := d)\<rparr>)) (\<lambda>(b, s2). Inr (b \<noteq> None, s2)))))))"

definition vfs_ls :: "'d fs_class \<Rightarrow> u8 list \<Rightarrow> 'd paths \<Rightarrow> ((bool \<times> (u8 list \<times> inode) list) \<times> 'd paths) res" where
  "vfs_ls fs path s =
     (if path = [] \<or> hd path \<noteq> SLASH then Inr ((False, []), s)
      else bind_res (browse_to fs path True True s) (\<lambda>(r, s1).
        case r of
          None \<Rightarrow> Inr ((False, []), s1)
        | Some a \<Rightarrow>
            bind_res (inode_of s1 a) (\<lambda>n.
              if i_type n \<noteq> INodeDir then Inr ((False, []), s1)
              else bind_res (fs_of s1 a) (\<lambda>f.
                bind_res (fc_ls fs (i_lba n) (pt_super s1 f) (pt_fs s1 f)) (\<lambda>(l, d).
                  Inr (l, s1\<lparr>pt_fs := (pt_fs s1)(f := d)\<rparr>))))))"

text \<open>The parent of a file, which its file system is asked about.\<close>

definition parent_node :: "'d paths \<Rightarrow> nat \<Rightarrow> inode res" where
  "parent_node s a = (case pd_parent (pt_objs s a) of None \<Rightarrow> Inl NullDeref | Some p \<Rightarrow> inode_of s p)"

definition set_node_size :: "nat \<Rightarrow> nat \<Rightarrow> 'd paths \<Rightarrow> 'd paths" where
  "set_node_size a sz s = s\<lparr>pt_nodes := (pt_nodes s)(pd_inode (pt_objs s a) := (node_of s a)\<lparr>i_size := sz\<rparr>)\<rparr>"

definition dentry_write :: "'d fs_class \<Rightarrow> nat \<Rightarrow> u8 list \<Rightarrow> 'd paths \<Rightarrow> (bool \<times> 'd paths) res" where
  "dentry_write fs a bytes s =
     bind_res (fs_of s a) (\<lambda>f. bind_res (parent_node s a) (\<lambda>p.
     bind_res (fc_write fs (i_lba p) (pd_name (pt_objs s a)) (node_of s a) bytes (pt_fs s f)) (\<lambda>(okay, sz, d).
       Inr (okay, set_node_size a sz (s\<lparr>pt_fs := (pt_fs s)(f := d)\<rparr>)))))"

definition vfs_write_buf_to_file :: "'d fs_class \<Rightarrow> u8 list \<Rightarrow> u8 list \<Rightarrow> 'd paths \<Rightarrow> (bool \<times> 'd paths) res" where
  "vfs_write_buf_to_file fs path bytes s =
     bind_res (get_file_dentry fs path False None s) (\<lambda>(r, s1).
     bind_res (case r of Some a \<Rightarrow> Inr (Some a, s1) | None \<Rightarrow> vfs_touch fs path s1) (\<lambda>(q, s2).
       case q of None \<Rightarrow> Inr (False, s2) | Some a \<Rightarrow> dentry_write fs a bytes s2))"

definition dentry_resize :: "'d fs_class \<Rightarrow> nat \<Rightarrow> nat \<Rightarrow> 'd paths \<Rightarrow> (bool \<times> 'd paths) res" where
  "dentry_resize fs a new_size s =
     bind_res (fs_of s a) (\<lambda>f. bind_res (parent_node s a) (\<lambda>p.
     bind_res (fc_resize fs (i_lba p) (pd_name (pt_objs s a)) (i_size (node_of s a)) new_size (pt_fs s f)) (\<lambda>(okay, d).
       let s1 = s\<lparr>pt_fs := (pt_fs s)(f := d)\<rparr> in Inr (okay, if okay then set_node_size a new_size s1 else s1))))"

text \<open>
  \<^verbatim>\<open>FS::load_file_to_buf\<close> allocates the buffer; \<open>fresh n\<close> is what \<open>n\<close> new bytes hold. The number of bytes that
  were loaded is not set when nothing is asked for.
\<close>

definition load_new_buf :: "'d fs_class \<Rightarrow> (nat \<Rightarrow> u8 list) \<Rightarrow> u8 list \<Rightarrow> nat \<Rightarrow> nat \<Rightarrow> nat \<Rightarrow> nat \<Rightarrow> 'd \<Rightarrow> ((u8 list option \<times> nat) \<times> 'd) res" where
  "load_new_buf fs fresh name lba offset len loaded d =
     (if len = 0 then Inr ((Some (fresh 1), loaded), d)
      else bind_res (fc_load fs (fresh len) name lba offset len d) (\<lambda>(r, d1).
        Inr (case r of None \<Rightarrow> (None, loaded) | Some (n, bytes) \<Rightarrow> (Some bytes, n), d1)))"

text \<open>\<open>junk\<close> is what the variable for that number holds before.\<close>

definition dentry_load :: "'d fs_class \<Rightarrow> (nat \<Rightarrow> u8 list) \<Rightarrow> nat \<Rightarrow> nat \<Rightarrow> nat \<Rightarrow> nat \<Rightarrow> 'd paths \<Rightarrow> (u8 list option \<times> 'd paths) res" where
  "dentry_load fs fresh junk a offset len s =
     (let l = (if len \<noteq> 0 then min len (i_size (node_of s a)) else i_size (node_of s a)) in
      bind_res (fs_of s a) (\<lambda>f. bind_res (parent_node s a) (\<lambda>p.
      bind_res (load_new_buf fs fresh (pd_name (pt_objs s a)) (i_lba p) offset l junk (pt_fs s f)) (\<lambda>((buf, loaded), d).
        Inr (if loaded \<noteq> l then None else buf, s\<lparr>pt_fs := (pt_fs s)(f := d)\<rparr>)))))"

definition vfs_load_file :: "'d fs_class \<Rightarrow> (nat \<Rightarrow> u8 list) \<Rightarrow> nat \<Rightarrow> u8 list \<Rightarrow> nat \<Rightarrow> nat \<Rightarrow> 'd paths \<Rightarrow> (u8 list option \<times> 'd paths) res" where
  "vfs_load_file fs fresh junk path offset len s =
     bind_res (browse_to fs path True True s) (\<lambda>(r, s1).
       case r of
         None \<Rightarrow> Inr (None, s1)
       | Some a \<Rightarrow> bind_res (inode_of s1 a) (\<lambda>n.
           if i_type n \<noteq> INodeFile then Inr (None, s1) else dentry_load fs fresh junk a offset len s1))"

subsection \<open>Mounting\<close>

definition superblock_add :: "u8 list \<Rightarrow> nat \<Rightarrow> 'd paths \<Rightarrow> bool \<times> 'd paths" where
  "superblock_add mount_path f s =
     (if length (pt_blocks s) = MAX_DEVICES then (False, s)
      else if list_ex (\<lambda>(p, _). p = mount_path) (pt_blocks s) then (False, s)
      else (True, s\<lparr>pt_blocks := pt_blocks s @ [(mount_path, f)], pt_super := (pt_super s)(f := length (pt_blocks s))\<rparr>))"

definition fs_root :: "'d fs_class \<Rightarrow> nat \<Rightarrow> 'd paths \<Rightarrow> nat \<times> 'd paths" where
  "fs_root fs f s =
     (case pt_roots s f of
        Some n \<Rightarrow> (n, s)
      | None \<Rightarrow> let (n, s1) = new_inode (fc_root fs (pt_super s f) (pt_fs s f)) s in (n, s1\<lparr>pt_roots := (pt_roots s1)(f := Some n)\<rparr>))"

text \<open>
  An entry for the root node of a file system. When the cache is full, the temporary pointer for the call deletes the entry and the
  inode, which are then deleted a second time.
\<close>

definition register_root :: "'d fs_class \<Rightarrow> nat \<Rightarrow> nat option \<Rightarrow> u8 list \<Rightarrow> 'd paths \<Rightarrow> (bool \<times> 'd paths) res" where
  "register_root fs f parent name s =
     (let (n, s1) = fs_root fs f s; (b, s2) = new_dentry n parent name s1 in
      bind_res (cache_dentry [] b s2) (\<lambda>(okay, s3).
        if okay then Inr (True, s3) else bind_res (delete_dentry [] b s3) (\<lambda>_. Inl UseAfterFree)))"

definition vfs_mount :: "'d fs_class \<Rightarrow> nat \<Rightarrow> 'd paths \<Rightarrow> (bool \<times> 'd paths) res" where
  "vfs_mount fs f s =
     (let name = [0x30 + word_of_nat (length (pt_blocks s))] in
      case superblock_add ([0x6D, 0x6E, 0x74, SLASH] @ name) f s of
        (False, s1) \<Rightarrow> Inr (False, s1)
      | (True, s1) \<Rightarrow> (case pt_cache s1 ! 1 of None \<Rightarrow> Inl NullDeref | Some mnt \<Rightarrow> register_root fs f (Some mnt) name s1))"

definition mount_rootfs :: "'d fs_class \<Rightarrow> nat \<Rightarrow> 'd paths \<Rightarrow> (bool \<times> 'd paths) res" where
  "mount_rootfs fs f s =
     (if pt_cache s ! 0 \<noteq> None then Inr (False, s)
      else case superblock_add [SLASH] f s of
        (False, s1) \<Rightarrow> Inr (False, s1)
      | (True, s1) \<Rightarrow> register_root fs f None [SLASH] s1)"

definition empty_paths :: "(nat \<Rightarrow> 'd) \<Rightarrow> 'd paths" where
  "empty_paths drives = \<lparr>pt_objs = (\<lambda>_. \<lparr>pd_inode = 0, pd_parent = None, pd_name = []\<rparr>), pt_live = [], pt_next = 0,
     pt_nodes = (\<lambda>_. \<lparr>i_size = 0, i_type = INodeDir, i_lba = 0, i_blocks = 0, i_superblock = None\<rparr>), pt_freed = [], pt_inext = 0, pt_cache = replicate MAX_DENTRIES None, pt_lowest = 0, pt_path = [], pt_held = [], pt_blocks = [],
     pt_super = (\<lambda>_. 0), pt_roots = Map.empty, pt_fs = drives\<rparr>"

primrec mount_all :: "'d fs_class \<Rightarrow> nat list \<Rightarrow> 'd paths \<Rightarrow> 'd paths res" where
  "mount_all fs [] s = Inr s"
| "mount_all fs (f # rest) s = bind_res (vfs_mount fs f s) (\<lambda>(_, s1). mount_all fs rest s1)"

abbreviation bin_path :: "u8 list" where "bin_path \<equiv> [SLASH, 0x62, 0x69, 0x6E]"

text \<open>
  \<^verbatim>\<open>VFS::init\<close> with \<open>n\<close> file systems: the first is mounted at the root, the directory \<^verbatim>\<open>mnt\<close> exists in memory only, and
  every file system, the first one too, is mounted in it. Preloading files is not included.
\<close>

definition vfs_init :: "'d fs_class \<Rightarrow> nat \<Rightarrow> (nat \<Rightarrow> 'd) \<Rightarrow> 'd paths res" where
  "vfs_init fs n drives =
     (if n = 0 then Inl (Irrecoverable ''Couldn't get main file system'')
      else
        bind_res (mount_rootfs fs 0 (empty_paths drives)) (\<lambda>(_, s).
        bind_res (root_dentry s) (\<lambda>root.
          let (mnt, s1) = new_entry \<lparr>i_size = 0, i_type = INodeDir, i_lba = 0, i_blocks = 1, i_superblock = None\<rparr> (Some root) [0x6D, 0x6E, 0x74] s in
          bind_res (cache_dentry [] mnt s1) (\<lambda>(okay, s2).
          if \<not> okay then Inr s2
          else if n \<ge> 10 then Inr s2
          else bind_res (mount_all fs [0..<n] s2) (\<lambda>s3.
            bind_res (add_to_path fs bin_path s3) (\<lambda>(_, s4). Inr s4))))))"

section \<open>Pointers\<close>

text \<open>
  Every pointer leads to an object that exists, be it an entry or an inode, parents are older than their children, and the lowest free
  place of the cache is what it says.
\<close>

definition points_to :: "nat list \<Rightarrow> 'd paths \<Rightarrow> nat \<Rightarrow> bool" where
  "points_to locals s a \<longleftrightarrow> Some a \<in> set (pt_cache s) \<or> a \<in> set (pt_path s) \<or> a \<in> set (pt_held s @ locals) \<or>
     (\<exists>b \<in> set (pt_live s). pd_parent (pt_objs s b) = Some a)"

definition nodes_ok :: "'d paths \<Rightarrow> bool" where
  "nodes_ok s \<longleftrightarrow> (\<forall>a \<in> set (pt_live s). pd_inode (pt_objs s a) \<notin> set (pt_freed s) \<and> pd_inode (pt_objs s a) < pt_inext s) \<and>
     (\<forall>n \<in> set (pt_freed s). n < pt_inext s)"

definition pointers_ok :: "nat list \<Rightarrow> 'd paths \<Rightarrow> bool" where
  "pointers_ok locals s \<longleftrightarrow> (\<forall>a. points_to locals s a \<longrightarrow> a \<in> set (pt_live s)) \<and>
     (\<forall>a \<in> set (pt_live s). a < pt_next s \<and> (\<forall>p. pd_parent (pt_objs s a) = Some p \<longrightarrow> p < a)) \<and> nodes_ok s"

text \<open>No two entries have the same inode.\<close>

definition unshared :: "'d paths \<Rightarrow> bool" where
  "unshared s \<longleftrightarrow> inj_on (\<lambda>a. pd_inode (pt_objs s a)) (set (pt_live s))"

definition cache_ok :: "'d paths \<Rightarrow> bool" where
  "cache_ok s \<longleftrightarrow> length (pt_cache s) = MAX_DENTRIES \<and> pt_lowest s \<le> MAX_DENTRIES \<and> (\<forall>i < pt_lowest s. pt_cache s ! i \<noteq> None) \<and>
     (pt_lowest s < MAX_DENTRIES \<longrightarrow> pt_cache s ! pt_lowest s = None)"

definition free_places :: "'d paths \<Rightarrow> nat" where
  "free_places s = count_list (pt_cache s) None"

lemma use_count_zero: "dentry_use_count locals a s = 0 \<longleftrightarrow> \<not> points_to locals s a"
  by (auto simp: dentry_use_count_def points_to_def count_list_0_iff filter_empty_conv)

text \<open>What an operation on the cache leaves as it is, apart from entries that go out of existence with their inodes.\<close>

definition keeps :: "'d paths \<Rightarrow> 'd paths \<Rightarrow> bool" where
  "keeps s s' \<longleftrightarrow> pt_objs s' = pt_objs s \<and> pt_next s' = pt_next s \<and> set (pt_live s') \<subseteq> set (pt_live s) \<and> pt_path s' = pt_path s \<and> pt_held s' = pt_held s \<and>
     pt_blocks s' = pt_blocks s \<and> pt_super s' = pt_super s \<and> pt_roots s' = pt_roots s \<and> pt_fs s' = pt_fs s \<and> pt_nodes s' = pt_nodes s \<and>
     pt_inext s' = pt_inext s"

lemma keeps_refl [simp]: "keeps s s"
  by (simp add: keeps_def)

lemma keeps_trans: "keeps s s1 \<Longrightarrow> keeps s1 s2 \<Longrightarrow> keeps s s2"
  by (auto simp: keeps_def)

lemma keeps_unshared: "keeps s s' \<Longrightarrow> unshared s \<Longrightarrow> unshared s'"
  unfolding keeps_def unshared_def by (metis inj_on_subset)

lemma delete_inode_ok:
  "n \<notin> set (pt_freed s) \<Longrightarrow> \<exists>s'. delete_inode n s = Inr s' \<and> keeps s s' \<and> pt_live s' = pt_live s \<and> pt_cache s' = pt_cache s \<and> pt_lowest s' = pt_lowest s \<and>
     set (pt_freed s') = insert n (set (pt_freed s))"
  by (simp add: delete_inode_def keeps_def)

text \<open>
  Deleting an entry that nobody points to deletes it, its inode and the ancestors that nobody points to any more. It succeeds if no inode
  has two owners.
\<close>

definition dropped :: "'d paths \<Rightarrow> 'd paths \<Rightarrow> bool" where
  "dropped s s' \<longleftrightarrow> keeps s s' \<and> pt_cache s' = pt_cache s \<and> pt_lowest s' = pt_lowest s \<and>
     set (pt_freed s') \<subseteq> set (pt_freed s) \<union> (\<lambda>a. pd_inode (pt_objs s a)) ` (set (pt_live s) - set (pt_live s'))"

lemma dropped_refl: "dropped s s"
  by (simp add: dropped_def)

lemma pointers_ok_freed:
  assumes "pointers_ok locals s" and "delete_inode n s = Inr s'" and "n < pt_inext s" and "\<forall>b \<in> set (pt_live s). pd_inode (pt_objs s b) \<noteq> n"
  shows "pointers_ok locals s'"
proof -
  have s': "s' = s\<lparr>pt_freed := n # pt_freed s\<rparr>" using assms(2) by (simp add: delete_inode_def split: if_splits)
  have "points_to locals s' = points_to locals s" by (simp add: s' points_to_def fun_eq_iff)
  moreover have "nodes_ok s'" using assms(1,3,4) by (simp add: s' nodes_ok_def pointers_ok_def)
  ultimately show ?thesis using assms(1) by (simp add: pointers_ok_def s')
qed

lemma delete_dentry_ok:
  assumes "pointers_ok locals s" and "\<not> points_to locals s a" and "a \<in> set (pt_live s)" and "unshared s"
  shows "\<exists>s'. delete_dentry locals a s = Inr s' \<and> pointers_ok locals s' \<and> dropped s s' \<and> a \<notin> set (pt_live s')"
  using assms
proof (induction locals a s rule: delete_dentry.induct)
  case (1 locals a s)
  let ?s = "s\<lparr>pt_live := removeAll a (pt_live s)\<rparr>" and ?n = "pd_inode (pt_objs s a)"
  have ok: "pointers_ok locals ?s" using 1(2,3) by (auto simp: pointers_ok_def points_to_def nodes_ok_def)
  have un: "unshared ?s" using 1(5) by (auto simp: unshared_def intro: inj_on_subset)
  have n: "?n \<notin> set (pt_freed s)" "?n < pt_inext s" using 1(2,4) by (auto simp: pointers_ok_def nodes_ok_def)
  have own: "pd_inode (pt_objs s b) \<noteq> ?n" if "b \<in> set (pt_live ?s)" for b using that 1(4,5) by (auto simp: unshared_def inj_on_def)
  let ?up = "case pd_parent (pt_objs s a) of None \<Rightarrow> Inr ?s
    | Some p \<Rightarrow> if p < a \<and> dentry_use_count locals p ?s = 0 then delete_dentry locals p ?s else Inr ?s"
  have "\<exists>s1. ?up = Inr s1 \<and> pointers_ok locals s1 \<and> dropped ?s s1"
  proof (cases "pd_parent (pt_objs s a)")
    case None
    then show ?thesis using ok dropped_refl by auto
  next
    case (Some p)
    have "p \<in> set (pt_live s)" "p < a" using Some 1(2,4) by (auto simp: pointers_ok_def points_to_def)
    then have p: "p \<in> set (pt_live ?s)" by simp
    show ?thesis
    proof (cases "dentry_use_count locals p ?s = 0")
      case True
      then have "\<exists>s1. delete_dentry locals p ?s = Inr s1 \<and> pointers_ok locals s1 \<and> dropped ?s s1 \<and> p \<notin> set (pt_live s1)"
        using 1(1) [OF refl Some _ ok _ p un] \<open>p < a\<close> by (simp add: use_count_zero)
      then show ?thesis using Some True \<open>p < a\<close> by auto
    next
      case False
      then show ?thesis using Some ok dropped_refl by auto
    qed
  qed
  then obtain s1 where s1: "?up = Inr s1" "pointers_ok locals s1" "dropped ?s s1" by blast
  have sub: "set (pt_live s1) \<subseteq> set (pt_live ?s)" "pt_objs s1 = pt_objs s" "pt_inext s1 = pt_inext s" "keeps ?s s1"
    using s1(3) by (auto simp: dropped_def keeps_def)
  have "set (pt_freed s1) \<subseteq> set (pt_freed s) \<union> (\<lambda>a. pd_inode (pt_objs s a)) ` set (pt_live ?s)" using s1(3) unfolding dropped_def by auto
  moreover have "?n \<notin> (\<lambda>a. pd_inode (pt_objs s a)) ` set (pt_live ?s)" using own by (metis imageE)
  ultimately have "?n \<notin> set (pt_freed s1)" using n(1) by blast
  then obtain s2 where s2: "delete_inode ?n s1 = Inr s2" "keeps s1 s2" "pt_live s2 = pt_live s1" "pt_cache s2 = pt_cache s1" "pt_lowest s2 = pt_lowest s1"
      "set (pt_freed s2) = insert ?n (set (pt_freed s1))" using delete_inode_ok by blast
  have "pointers_ok locals s2" by (rule pointers_ok_freed [OF s1(2) s2(1)]) (use n(2) sub own in auto)
  moreover have k: "keeps s s2" using keeps_trans [OF sub(4) s2(2)] by (auto simp: keeps_def)
  moreover have "set (pt_freed s2) \<subseteq> set (pt_freed s) \<union> (\<lambda>a. pd_inode (pt_objs s a)) ` (set (pt_live s) - set (pt_live s2))"
    using s1(3) s2(3,6) 1(4) sub(1) by (auto simp: dropped_def)
  then have "dropped s s2" using k s1(3) s2(4,5) by (simp add: dropped_def)
  moreover have "delete_dentry locals a s = Inr s2" using s1(1) s2(1) by (subst delete_dentry.simps) (simp add: Let_def)
  moreover have "a \<notin> set (pt_live s2)" using sub(1) s2(3) by auto
  ultimately show ?case by blast
qed

lemma count_list_clear: "i < length xs \<Longrightarrow> xs ! i = x \<Longrightarrow> y \<noteq> x \<Longrightarrow> count_list xs x = Suc (count_list (xs[i := y]) x)"
proof (induction xs arbitrary: i)
  case (Cons z zs)
  then show ?case by (cases i) auto
qed simp

lemma evict_ok:
  fixes s :: "'d paths" and l :: nat
  assumes "pointers_ok locals s" and "i < length (pt_cache s)" and "pt_cache s ! i = Some a" and "dentry_use_count locals a s = 1" and "unshared s"
  shows "\<exists>s1. delete_dentry locals a (s\<lparr>pt_cache := (pt_cache s)[i := None]\<rparr>) = Inr s1 \<and> pointers_ok locals (s1\<lparr>pt_lowest := l\<rparr>) \<and> keeps s (s1\<lparr>pt_lowest := l\<rparr>) \<and>
    pt_cache s1 = (pt_cache s)[i := None] \<and> a \<notin> set (pt_live s1) \<and> unshared (s1\<lparr>pt_lowest := l\<rparr>)"
proof -
  let ?s = "s\<lparr>pt_cache := (pt_cache s)[i := None]\<rparr>"
  have sub: "Some b \<in> set ((pt_cache s)[i := None]) \<Longrightarrow> Some b \<in> set (pt_cache s)" for b using set_update_subset_insert by fastforce
  then have ok: "pointers_ok locals ?s" using assms(1) by (fastforce simp: pointers_ok_def points_to_def nodes_ok_def)
  have z: "dentry_use_count locals a ?s = 0" using assms(2-4) count_list_clear [of i "pt_cache s" "Some a" None] by (simp add: dentry_use_count_def)
  have "Some a \<in> set (pt_cache s)" using assms(2,3) by (metis nth_mem)
  then have la: "a \<in> set (pt_live ?s)" using assms(1) by (auto simp: pointers_ok_def points_to_def)
  have un: "unshared ?s" using assms(5) by (simp add: unshared_def)
  obtain s1 where s1: "delete_dentry locals a ?s = Inr s1" "pointers_ok locals s1" "dropped ?s s1" "a \<notin> set (pt_live s1)"
    using delete_dentry_ok [OF ok _ la un] z by (auto simp: use_count_zero)
  have "keeps s (s1\<lparr>pt_lowest := l\<rparr>)" using s1(3) by (simp add: dropped_def keeps_def)
  moreover have "pointers_ok locals (s1\<lparr>pt_lowest := l\<rparr>)" using s1(2) by (simp add: pointers_ok_def points_to_def nodes_ok_def)
  ultimately show ?thesis using s1(1,3,4) keeps_unshared assms(5) by (auto simp: dropped_def)
qed

text \<open>
  The loop over the cache from place \<open>i\<close> on empties places only, and those whose entry has ceased to exist.
\<close>

definition swept :: "nat \<Rightarrow> 'd paths \<Rightarrow> 'd paths \<Rightarrow> bool" where
  "swept i s s' \<longleftrightarrow> (\<forall>j. pt_cache s' ! j = pt_cache s ! j \<or>
     i \<le> j \<and> j < MAX_DENTRIES \<and> pt_cache s' ! j = None \<and> (\<exists>b. pt_cache s ! j = Some b \<and> b \<notin> set (pt_live s')))"

lemma swept_evict:
  assumes "pt_cache s ! i = Some a" and "i < MAX_DENTRIES" and "length (pt_cache s) = MAX_DENTRIES" and "pt_cache s1 = (pt_cache s)[i := None]" and "a \<notin> set (pt_live s1)"
    and "swept (i + 1) s1 s'" and "keeps s1 s'"
  shows "swept i s s'"
  unfolding swept_def
proof (intro allI)
  fix j
  have w: "pt_cache s' ! j = pt_cache s1 ! j \<or> i + 1 \<le> j \<and> j < MAX_DENTRIES \<and> pt_cache s' ! j = None \<and> (\<exists>b. pt_cache s1 ! j = Some b \<and> b \<notin> set (pt_live s'))"
    using assms(6) unfolding swept_def by blast
  show "pt_cache s' ! j = pt_cache s ! j \<or> i \<le> j \<and> j < MAX_DENTRIES \<and> pt_cache s' ! j = None \<and> (\<exists>b. pt_cache s ! j = Some b \<and> b \<notin> set (pt_live s'))"
  proof (cases "j = i")
    case True
    then have "pt_cache s' ! j = None" using w assms(2-4) by auto
    moreover have "a \<notin> set (pt_live s')" using assms(5,7) by (auto simp: keeps_def)
    ultimately show ?thesis using True assms(1,2) by auto
  next
    case False
    then show ?thesis using w assms(4) by auto
  qed
qed

text \<open>
  The loop keeps the lowest free place right: before it looks at place \<open>i\<close>, the places below \<open>i\<close> are used or not
  below the lowest free one.
\<close>

lemma free_unused_from_ok:
  assumes "pointers_ok locals s" and "length (pt_cache s) = MAX_DENTRIES" and "pt_lowest s \<le> MAX_DENTRIES"
    and "pt_lowest s < i \<longrightarrow> pt_cache s ! pt_lowest s = None" and "\<forall>j < min i (pt_lowest s). pt_cache s ! j \<noteq> None"
    and "i \<le> pt_lowest s \<longrightarrow> pt_lowest s = MAX_DENTRIES" and "i \<le> MAX_DENTRIES" and "unshared s"
  shows "\<exists>s'. free_unused_from locals i s = Inr s' \<and> pointers_ok locals s' \<and> keeps s s' \<and> cache_ok s' \<and> swept i s s'"
  using assms
proof (induction locals i s rule: free_unused_from.induct)
  case (1 locals i s)
  show ?case
  proof (cases "i < MAX_DENTRIES")
    case False
    then have "min i (pt_lowest s) = pt_lowest s" "pt_lowest s < MAX_DENTRIES \<longrightarrow> pt_lowest s < i" using 1(6,10) by auto
    then have "cache_ok s" using 1(5-8) unfolding cache_ok_def by simp
    moreover have "free_unused_from locals i s = Inr s" using False by (subst free_unused_from.simps) simp
    ultimately show ?thesis using 1(4) by (simp add: swept_def)
  next
    case True
    show ?thesis
    proof (cases "pt_cache s ! i")
      case None
      let ?s = "s\<lparr>pt_lowest := min i (pt_lowest s)\<rparr>"
      have "pointers_ok locals ?s" "unshared ?s" using 1(4,11) by (simp_all add: pointers_ok_def points_to_def nodes_ok_def unshared_def)
      then have "\<exists>s'. free_unused_from locals (i + 1) ?s = Inr s' \<and> pointers_ok locals s' \<and> keeps ?s s' \<and> cache_ok s' \<and> swept (i + 1) ?s s'"
        by (intro 1(1) [OF True None]) (use 1(5-9) True None in \<open>auto simp: min_def less_Suc_eq\<close>)
      then obtain s' where s': "free_unused_from locals (i + 1) ?s = Inr s'" "pointers_ok locals s'" "keeps ?s s'" "cache_ok s'" "swept (i + 1) ?s s'" by blast
      have "swept i s s'" using s'(5) unfolding swept_def by fastforce
      moreover have "free_unused_from locals i s = Inr s'" using True None s'(1) by (subst free_unused_from.simps) simp
      ultimately show ?thesis using s'(2-4) by (auto simp: keeps_def)
    next
      case (Some a)
      show ?thesis
      proof (cases "dentry_use_count locals a s = 1")
        case False
        have "\<forall>j < min (Suc i) (pt_lowest s). pt_cache s ! j \<noteq> None" using 1(8) Some by (auto simp: less_Suc_eq)
        then obtain s' where s': "free_unused_from locals (i + 1) s = Inr s'" "pointers_ok locals s'" "keeps s s'" "cache_ok s'" "swept (i + 1) s s'"
          using 1(3) [OF True Some False] 1(4-7,9,11) True by (auto simp: less_Suc_eq)
        have "swept i s s'" using s'(5) unfolding swept_def by fastforce
        moreover have "free_unused_from locals i s = Inr s'" using True Some False s'(1) by (subst free_unused_from.simps) simp
        ultimately show ?thesis using s'(2-4) by blast
      next
        case use: True
        have li: "i < length (pt_cache s)" using 1(5) True by simp
        obtain s1 where e: "delete_dentry locals a (s\<lparr>pt_cache := (pt_cache s)[i := None]\<rparr>) = Inr s1" "pointers_ok locals (s1\<lparr>pt_lowest := min (pt_lowest s) i\<rparr>)"
            "keeps s (s1\<lparr>pt_lowest := min (pt_lowest s) i\<rparr>)" "pt_cache s1 = (pt_cache s)[i := None]" "a \<notin> set (pt_live s1)" "unshared (s1\<lparr>pt_lowest := min (pt_lowest s) i\<rparr>)"
          using evict_ok [OF 1(4) li Some use 1(11), where l = "min (pt_lowest s) i"] by blast
        let ?s = "s1\<lparr>pt_lowest := min (pt_lowest s) i\<rparr>"
        have "\<forall>j < min (Suc i) (min (pt_lowest s) i). (pt_cache s)[i := None] ! j \<noteq> None" using 1(8) by (auto simp: nth_list_update)
        moreover have "(pt_cache s)[i := None] ! min (pt_lowest s) i = None" using 1(7,9) li by (auto simp: min_def nth_list_update)
        ultimately have "\<exists>s'. free_unused_from locals (i + 1) ?s = Inr s' \<and> pointers_ok locals s' \<and> keeps ?s s' \<and> cache_ok s' \<and> swept (i + 1) ?s s'"
          by (intro 1(2) [OF True Some use, of s1]) (use 1(5,6) True e(2,4,6) in \<open>auto simp: min_def\<close>)
        then obtain s' where s': "free_unused_from locals (i + 1) ?s = Inr s'" "pointers_ok locals s'" "keeps ?s s'" "cache_ok s'" "swept (i + 1) ?s s'" by blast
        have "swept i s s'" by (rule swept_evict [OF Some True 1(5) _ _ s'(5,3)]) (use e(4,5) in simp_all)
        moreover have "free_unused_from locals i s = Inr s'" using True Some use e(1) s'(1) by (subst free_unused_from.simps) simp
        ultimately show ?thesis using s'(2,4) keeps_trans [OF e(3) s'(3)] by blast
      qed
    qed
  qed
qed

text \<open>
  The new entry is in one place, which was free or has been swept; every other place is as before or has been swept.
\<close>

definition placed :: "nat option \<Rightarrow> nat \<Rightarrow> 'd paths \<Rightarrow> 'd paths \<Rightarrow> bool" where
  "placed place a s s' \<longleftrightarrow> (\<forall>j < MAX_DENTRIES.
     (if place = Some j then pt_cache s' ! j = Some a \<and> (pt_cache s ! j = None \<or> j \<ge> 2 \<and> pt_lowest s = MAX_DENTRIES \<and> the (pt_cache s ! j) \<notin> set (pt_live s'))
      else pt_cache s' ! j = pt_cache s ! j \<or>
        j \<ge> 2 \<and> pt_lowest s = MAX_DENTRIES \<and> pt_cache s' ! j = None \<and> the (pt_cache s ! j) \<notin> set (pt_live s')))"

lemma free_places_full: "cache_ok s \<Longrightarrow> free_places s = 0 \<longleftrightarrow> pt_lowest s = MAX_DENTRIES"
  unfolding cache_ok_def free_places_def count_list_0_iff in_set_conv_nth
  by (metis le_neq_implies_less nat_less_le order_refl)

lemma cache_put_ok:
  fixes s1 :: "'d paths"
  assumes "pointers_ok (a # locals) s1" and "cache_ok s1" and "pt_lowest s1 \<noteq> MAX_DENTRIES"
  defines "cache \<equiv> (pt_cache s1)[pt_lowest s1 := Some a]"
  defines "s' \<equiv> s1\<lparr>pt_cache := cache, pt_lowest := scan_used cache (pt_lowest s1 + 1)\<rparr>"
  shows "pointers_ok (a # locals) s'" and "cache_ok s'" and "keeps s1 s'" and "free_places s1 = Suc (free_places s')"
proof -
  let ?i = "pt_lowest s1"
  have i: "?i < MAX_DENTRIES" "length cache = MAX_DENTRIES" "\<forall>j < ?i. pt_cache s1 ! j \<noteq> None" "pt_cache s1 ! ?i = None" "length (pt_cache s1) = MAX_DENTRIES"
    using assms(2,3) by (auto simp: cache_ok_def cache_def)
  then have le: "?i + 1 \<le> length cache" by simp
  note sc = scan_used_spec [OF le]
  have "cache ! j \<noteq> None" if "j < scan_used cache (?i + 1)" for j
  proof (cases "j < ?i + 1")
    case True
    then show ?thesis using i by (cases "j = ?i") (auto simp: cache_def)
  qed (use sc(3) that in simp)
  then show "cache_ok s'" using sc(2,4) i(2) by (auto simp: cache_ok_def s'_def)
  have "Some b \<in> set cache \<Longrightarrow> Some b \<in> set (pt_cache s1) \<or> b = a" for b unfolding cache_def using set_update_subset_insert by fastforce
  then show "pointers_ok (a # locals) s'" using assms(1) unfolding s'_def by (fastforce simp: pointers_ok_def points_to_def nodes_ok_def)
  show "keeps s1 s'" by (simp add: keeps_def s'_def)
  show "free_places s1 = Suc (free_places s')"
    using count_list_clear [of ?i "pt_cache s1" None "Some a"] i by (simp add: free_places_def s'_def cache_def)
qed

lemma cache_dentry_ok:
  assumes "pointers_ok (a # locals) s" and "cache_ok s" and "unshared s \<or> 0 < free_places s"
  shows "\<exists>okay s'. cache_dentry locals a s = Inr (okay, s') \<and> pointers_ok (a # locals) s' \<and> cache_ok s' \<and> keeps s s' \<and>
    (\<not> okay \<longrightarrow> pt_lowest s' = MAX_DENTRIES \<and> placed None a s s') \<and> (okay \<longrightarrow> (\<exists>place < MAX_DENTRIES. placed (Some place) a s s')) \<and>
    (0 < free_places s \<longrightarrow> okay \<and> free_places s = Suc (free_places s'))"
proof -
  define first where "first = (if pt_lowest s = MAX_DENTRIES then free_unused_dentry_cache_entries (a # locals) s else Inr s)"
  have "\<exists>s1. first = Inr s1 \<and> pointers_ok (a # locals) s1 \<and> keeps s s1 \<and> cache_ok s1 \<and> (pt_lowest s = MAX_DENTRIES \<longrightarrow> swept 2 s s1) \<and> (pt_lowest s \<noteq> MAX_DENTRIES \<longrightarrow> s1 = s)"
  proof (cases "pt_lowest s = MAX_DENTRIES")
    case True
    have c: "length (pt_cache s) = MAX_DENTRIES" "\<forall>j < pt_lowest s. pt_cache s ! j \<noteq> None" using assms(2) unfolding cache_ok_def by blast+
    have un: "unshared s" using assms(3) True free_places_full [OF assms(2)] by auto
    have "\<exists>s1. free_unused_from (a # locals) 2 s = Inr s1 \<and> pointers_ok (a # locals) s1 \<and> keeps s s1 \<and> cache_ok s1 \<and> swept 2 s s1"
      by (rule free_unused_from_ok [OF assms(1) c(1) _ _ _ _ _ un]) (use True c(2) in simp_all)
    then show ?thesis using True by (simp add: first_def free_unused_dentry_cache_entries_def)
  qed (use assms in \<open>simp add: first_def\<close>)
  then obtain s1 where s1: "first = Inr s1" "pointers_ok (a # locals) s1" "keeps s s1" "cache_ok s1" "pt_lowest s = MAX_DENTRIES \<longrightarrow> swept 2 s s1" "pt_lowest s \<noteq> MAX_DENTRIES \<longrightarrow> s1 = s"
    by blast
  have pl: "pt_cache s1 ! j = pt_cache s ! j \<or> j \<ge> 2 \<and> pt_lowest s = MAX_DENTRIES \<and> pt_cache s1 ! j = None \<and> the (pt_cache s ! j) \<notin> set (pt_live s1)" for j
  proof (cases "pt_lowest s = MAX_DENTRIES")
    case True
    then have "swept 2 s s1" using s1(5) by blast
    then show ?thesis using True unfolding swept_def by (metis option.sel)
  next
    case False
    then show ?thesis using s1(6) by simp
  qed
  show ?thesis
  proof (cases "pt_lowest s1 = MAX_DENTRIES")
    case True
    have "placed None a s s1" unfolding placed_def using pl by auto
    moreover have "free_places s = 0" using True s1(6) assms(2) free_places_full by blast
    ultimately show ?thesis using True s1(1-4) by (auto simp: cache_dentry_def first_def [symmetric])
  next
    case False
    let ?i = "pt_lowest s1" and ?cache = "(pt_cache s1)[pt_lowest s1 := Some a]"
    let ?s = "s1\<lparr>pt_cache := ?cache, pt_lowest := scan_used ?cache (?i + 1)\<rparr>"
    note put = cache_put_ok [OF s1(2,4) False]
    have i: "?i < MAX_DENTRIES" "length (pt_cache s1) = MAX_DENTRIES" "pt_cache s1 ! ?i = None" using s1(4) False by (auto simp: cache_ok_def)
    have "placed (Some ?i) a s ?s"
      unfolding placed_def
    proof (intro allI impI)
      fix j assume j: "j < MAX_DENTRIES"
      show "if Some ?i = Some j then pt_cache ?s ! j = Some a \<and> (pt_cache s ! j = None \<or> j \<ge> 2 \<and> pt_lowest s = MAX_DENTRIES \<and> the (pt_cache s ! j) \<notin> set (pt_live ?s))
        else pt_cache ?s ! j = pt_cache s ! j \<or> j \<ge> 2 \<and> pt_lowest s = MAX_DENTRIES \<and> pt_cache ?s ! j = None \<and> the (pt_cache s ! j) \<notin> set (pt_live ?s)"
        using pl [of j] i by (cases "j = ?i") auto
    qed
    moreover have "free_places s = Suc (free_places ?s)" if "0 < free_places s"
      using that put(4) s1(6) free_places_full [OF assms(2)] by auto
    moreover have "cache_dentry locals a s = Inr (True, ?s)" using False s1(1) by (simp add: cache_dentry_def first_def [symmetric] Let_def)
    ultimately show ?thesis using put(1,2) keeps_trans [OF s1(3) put(3)] i(1) by (intro exI [of _ True] exI [of _ ?s]) auto
  qed
qed

lemma find_cached_Some: "find_cached cache p name objs = Some a \<Longrightarrow> Some a \<in> set cache \<and> pd_name (objs a) = name \<and> pd_parent (objs a) = Some p"
  by (induction cache p name objs rule: find_cached.induct) (auto split: if_splits)

lemma inode_of_live [simp]: "pointers_ok locals s \<Longrightarrow> a \<in> set (pt_live s) \<Longrightarrow> inode_of s a = Inr (node_of s a)"
  by (simp add: inode_of_def pointers_ok_def nodes_ok_def)

section \<open>Resolving a path\<close>

text \<open>What a path means: the directories are searched one after the other, as \<open>child\<close> says they are.\<close>

fun walk :: "(nat \<Rightarrow> u8 list \<Rightarrow> inode option) \<Rightarrow> u8 list list \<Rightarrow> inode \<Rightarrow> inode option" where
  "walk child [] node = Some node"
| "walk child (t # ts) node =
     (if i_type node \<noteq> INodeDir then None
      else if t = [DOT] then walk child ts node
      else case child (i_lba node) t of None \<Rightarrow> None | Some n \<Rightarrow> walk child ts n)"

text \<open>A file system in which looking up a name has no effect that other lookups see.\<close>

locale directory_tree =
  fixes fs :: "'d fs_class" and good :: "'d \<Rightarrow> nat \<Rightarrow> bool" and child :: "'d \<Rightarrow> nat \<Rightarrow> nat \<Rightarrow> u8 list \<Rightarrow> inode option"
    and same :: "'d \<Rightarrow> 'd \<Rightarrow> bool"
  assumes get_child: "good d lba \<Longrightarrow> \<exists>d'. fc_get_child fs lba name sb d = Inr (child d sb lba name, d') \<and> same d d'"
    and same_views: "same d d' \<Longrightarrow> child d' = child d \<and> good d' = good d"
    and child_superblock: "child d sb lba name = Some n \<Longrightarrow> i_superblock n = Some sb"
    and child_good: "good d lba \<Longrightarrow> child d sb lba name = Some n \<Longrightarrow> i_type n = INodeDir \<Longrightarrow> good d (i_lba n)"

text \<open>
  The cache agrees with the disk: an entry of a directory on a file system is what looking up its name gives.
  Entries that exist in memory only, like \<^verbatim>\<open>/mnt\<close>, are left out. The second part says that inodes know a mounted file system.
\<close>

definition node_fs :: "'d paths \<Rightarrow> nat \<Rightarrow> nat" where
  "node_fs s a = snd (pt_blocks s ! the (i_superblock (node_of s a)))"

definition node_agrees :: "('d \<Rightarrow> nat \<Rightarrow> bool) \<Rightarrow> ('d \<Rightarrow> nat \<Rightarrow> nat \<Rightarrow> u8 list \<Rightarrow> inode option) \<Rightarrow> 'd paths \<Rightarrow> nat \<Rightarrow> bool" where
  "node_agrees good child s a \<longleftrightarrow>
     (i_type (node_of s a) = INodeDir \<longrightarrow> good (pt_fs s (node_fs s a)) (i_lba (node_of s a))) \<and>
     snd (pt_blocks s ! pt_super s (node_fs s a)) = node_fs s a \<and>
     (\<forall>p. pd_parent (pt_objs s a) = Some p \<and> i_superblock (node_of s p) \<noteq> None \<longrightarrow>
        node_fs s a = node_fs s p \<and>
        child (pt_fs s (node_fs s p)) (pt_super s (node_fs s p)) (i_lba (node_of s p)) (pd_name (pt_objs s a)) = Some (node_of s a))"

definition agrees :: "('d \<Rightarrow> nat \<Rightarrow> bool) \<Rightarrow> ('d \<Rightarrow> nat \<Rightarrow> nat \<Rightarrow> u8 list \<Rightarrow> inode option) \<Rightarrow> 'd paths \<Rightarrow> bool" where
  "agrees good child s \<longleftrightarrow> (\<forall>a \<in> set (pt_live s). i_superblock (node_of s a) \<noteq> None \<longrightarrow> node_agrees good child s a)"

definition virtual_names :: "'d paths \<Rightarrow> u8 list set" where
  "virtual_names s = {pd_name (pt_objs s a) |a. a \<in> set (pt_live s) \<and> i_superblock (node_of s a) = None}"

text \<open>A path that goes neither up nor through directories that exist in memory only.\<close>

definition direct :: "'d paths \<Rightarrow> u8 list list \<Rightarrow> bool" where
  "direct s ts \<longleftrightarrow> [DOT, DOT] \<notin> set ts \<and> (\<forall>t \<in> set ts. t \<notin> virtual_names s)"

lemma agrees_keeps: "agrees good child s \<Longrightarrow> keeps s s' \<Longrightarrow> agrees good child s'"
  by (auto simp: agrees_def node_agrees_def keeps_def node_fs_def)

lemma direct_keeps: "direct s ts \<Longrightarrow> keeps s s' \<Longrightarrow> direct s' ts"
  by (auto simp: direct_def virtual_names_def keeps_def)

context directory_tree
begin

text \<open>Browsing the cache reaches a point of the way that the path means.\<close>

lemma browse_cached_ok:
  assumes "agrees good child s" and "pointers_ok [] s" and "a \<in> set (pt_live s)" and "i_superblock (node_of s a) \<noteq> None"
    and "i_type (node_of s a) = INodeDir" and "direct s ts"
  shows "\<exists>b rest. browse_cached ts a s = Inr (b, rest) \<and> b \<in> set (pt_live s) \<and> i_superblock (node_of s b) \<noteq> None \<and> node_fs s b = node_fs s a \<and> (\<exists>us. ts = us @ rest) \<and>
    (let look = child (pt_fs s (node_fs s a)) (pt_super s (node_fs s a)) in walk look ts (node_of s a) = walk look rest (node_of s b))"
  using assms(3-6)
proof (induction ts arbitrary: a)
  case (Cons t ts)
  let ?f = "node_fs s a" and ?look = "child (pt_fs s (node_fs s a)) (pt_super s (node_fs s a))"
  let ?next = "if t = [DOT] then Some a else if t = [DOT, DOT] then pd_parent (pt_objs s a) else get_cached_dentry a t s"
  have dd: "t \<noteq> [DOT, DOT]" "direct s ts" "t \<notin> virtual_names s" using Cons.prems(4) by (auto simp: direct_def)
  show ?case
  proof (cases ?next)
    case None
    then have "browse_cached (t # ts) a s = Inr (a, t # ts)" by simp
    then show ?thesis using Cons.prems(1,2) by simp
  next
    case (Some c)
    have c: "c \<in> set (pt_live s) \<and> i_superblock (node_of s c) \<noteq> None \<and> node_fs s c = ?f \<and>
      walk ?look (t # ts) (node_of s a) = walk ?look ts (node_of s c)"
    proof (cases "t = [DOT]")
      case True
      then show ?thesis using Some Cons.prems(1-3) by simp
    next
      case False
      then have g: "Some c \<in> set (pt_cache s)" "pd_name (pt_objs s c) = t" "pd_parent (pt_objs s c) = Some a"
        using Some dd(1) find_cached_Some [of "pt_cache s" a t "pt_objs s" c] by (auto simp: get_cached_dentry_def)
      have lc: "c \<in> set (pt_live s)" using g(1) assms(2) by (auto simp: pointers_ok_def points_to_def)
      then have sc: "i_superblock (node_of s c) \<noteq> None" using dd(3) g(2) by (auto simp: virtual_names_def)
      then have "node_fs s c = ?f" "?look (i_lba (node_of s a)) t = Some (node_of s c)"
        using assms(1) lc g(2,3) Cons.prems(2) by (auto simp: agrees_def node_agrees_def)
      then show ?thesis using lc sc False Cons.prems(3) by simp
    qed
    have ic: "inode_of s c = Inr (node_of s c)" using c assms(2) by simp
    show ?thesis
    proof (cases "i_type (node_of s c) = INodeDir")
      case True
      then have "browse_cached (t # ts) a s = browse_cached ts c s" using Some ic by simp
      then show ?thesis using Cons.IH [of c] c True dd(2) by (simp add: Let_def) (metis append_Cons)
    next
      case False
      then have "browse_cached (t # ts) a s = Inr (c, ts)" using Some ic by simp
      then show ?thesis using c by (simp add: Let_def)
    qed
  qed
qed simp

end

text \<open>
  The outcome of browsing: the inode that the path means, unless the cache is full. Then there is no result, or the kernel stops
  if errors are to be reported.
\<close>

definition resolved :: "('d \<Rightarrow> nat \<Rightarrow> bool) \<Rightarrow> ('d \<Rightarrow> nat \<Rightarrow> nat \<Rightarrow> u8 list \<Rightarrow> inode option) \<Rightarrow> inode option \<Rightarrow> bool \<Rightarrow> bool \<Rightarrow> (nat option \<times> 'd paths) res \<Rightarrow> bool" where
  "resolved good child goal print_errors full r \<longleftrightarrow>
     (case r of
        Inl e \<Rightarrow> full \<and> print_errors \<and> e = Irrecoverable ''Too many dentries''
      | Inr (q, s') \<Rightarrow> agrees good child s' \<and> pointers_ok [] s' \<and> cache_ok s' \<and>
          (case q of
             None \<Rightarrow> goal = None \<or> full \<and> \<not> print_errors \<and> pt_lowest s' = MAX_DENTRIES
           | Some b \<Rightarrow> b \<in> set (pt_live s') \<and> goal = Some (node_of s' b)))"

lemma resolved_mono: "resolved good child goal print_errors full r \<Longrightarrow> full \<longrightarrow> full' \<Longrightarrow> resolved good child goal print_errors full' r"
  by (auto simp: resolved_def split: sum.splits option.splits)

lemma pointers_ok_mono: "pointers_ok (b # locals) s \<Longrightarrow> pointers_ok locals s"
  by (auto simp: pointers_ok_def points_to_def)

lemma pointers_ok_local: "pointers_ok locals s \<Longrightarrow> b \<in> set (pt_live s) \<Longrightarrow> pointers_ok (b # locals) s"
  by (auto simp: pointers_ok_def points_to_def)

lemma new_entry_eq:
  "new_entry node parent name s = (pt_next s, s\<lparr>pt_nodes := (pt_nodes s)(pt_inext s := node), pt_inext := pt_inext s + 1,
     pt_objs := (pt_objs s)(pt_next s := \<lparr>pd_inode = pt_inext s, pd_parent = parent, pd_name = name\<rparr>), pt_live := pt_next s # pt_live s, pt_next := pt_next s + 1\<rparr>)"
  by (simp add: new_entry_def new_inode_def new_dentry_def)

lemma new_entry_ok:
  assumes "pointers_ok locals s" and "new_entry node (Some a) name s = (b, s1)" and "a \<in> set (pt_live s)"
  shows "pointers_ok (b # locals) s1" and "b \<in> set (pt_live s1)" and "b \<notin> set (pt_live s)" and "unshared s \<Longrightarrow> unshared s1"
    and "node_of s1 b = node" and "c \<in> set (pt_live s) \<Longrightarrow> node_of s1 c = node_of s c"
proof -
  have lt: "\<And>c. c \<in> set (pt_live s) \<Longrightarrow> c < pt_next s" and lti: "\<And>c. c \<in> set (pt_live s) \<Longrightarrow> pd_inode (pt_objs s c) < pt_inext s"
    using assms(1) by (auto simp: pointers_ok_def nodes_ok_def)
  note s1 = assms(2) [unfolded new_entry_eq prod.inject, THEN conjunct1, symmetric] assms(2) [unfolded new_entry_eq prod.inject, THEN conjunct2, symmetric]
  show "b \<in> set (pt_live s1)" "b \<notin> set (pt_live s)" using s1 lt by auto
  show "node_of s1 b = node" by (simp add: s1)
  show "node_of s1 c = node_of s c" if "c \<in> set (pt_live s)" using lt [OF that] lti [OF that] by (simp add: s1)
  have old: "pd_inode (pt_objs s1 c) = pd_inode (pt_objs s c)" if "c \<in> set (pt_live s)" for c using lt [OF that] by (simp add: s1)
  show "unshared s1" if "unshared s"
  proof -
    have "inj_on (\<lambda>c. pd_inode (pt_objs s1 c)) (set (pt_live s))" using that old by (simp add: unshared_def inj_on_def)
    moreover have "pd_inode (pt_objs s1 b) \<notin> (\<lambda>c. pd_inode (pt_objs s1 c)) ` set (pt_live s)"
    proof
      assume "pd_inode (pt_objs s1 b) \<in> (\<lambda>c. pd_inode (pt_objs s1 c)) ` set (pt_live s)"
      then obtain c where "c \<in> set (pt_live s)" "pt_inext s = pd_inode (pt_objs s c)" using old by (auto simp: s1)
      then show False using lti by auto
    qed
    moreover have "set (pt_live s1) = insert b (set (pt_live s))" by (simp add: s1)
    ultimately show ?thesis by (auto simp: unshared_def)
  qed
  have "nodes_ok s1" using assms(1) lt unfolding s1 by (fastforce simp: pointers_ok_def nodes_ok_def)
  then show "pointers_ok (b # locals) s1" using assms(1,3) lt unfolding s1 by (fastforce simp: pointers_ok_def points_to_def)
qed

context directory_tree
begin

abbreviation fs_look :: "'d paths \<Rightarrow> nat \<Rightarrow> nat \<Rightarrow> u8 list \<Rightarrow> inode option" where
  "fs_look s f \<equiv> child (pt_fs s f) (pt_super s f)"

text \<open>Looking up one more name on disk.\<close>

lemma child_dentry_ok:
  assumes "agrees good child s" and "pointers_ok [] s" and "a \<in> set (pt_live s)" and "i_superblock (node_of s a) \<noteq> None"
    and "i_type (node_of s a) = INodeDir" and "node_fs s a = f"
  shows "\<exists>r s1. child_dentry fs f a name s = Inr (r, s1) \<and> agrees good child s1 \<and> pointers_ok [] s1 \<and> fs_look s1 f = fs_look s f \<and>
    virtual_names s1 = virtual_names s \<and> pt_cache s1 = pt_cache s \<and> pt_lowest s1 = pt_lowest s \<and> (unshared s \<longrightarrow> unshared s1) \<and>
    (case r of
       None \<Rightarrow> fs_look s f (i_lba (node_of s a)) name = None
     | Some b \<Rightarrow> b \<in> set (pt_live s1) \<and> i_superblock (node_of s1 b) \<noteq> None \<and> node_fs s1 b = f \<and>
         fs_look s f (i_lba (node_of s a)) name = Some (node_of s1 b))"
proof -
  have g: "good (pt_fs s f) (i_lba (node_of s a))" "snd (pt_blocks s ! pt_super s f) = f" using assms(1,3-6) by (auto simp: agrees_def node_agrees_def)
  obtain d where d: "fc_get_child fs (i_lba (node_of s a)) name (pt_super s f) (pt_fs s f) = Inr (fs_look s f (i_lba (node_of s a)) name, d)"
      "same (pt_fs s f) d" using get_child [OF g(1)] by blast
  have ia: "inode_of s a = Inr (node_of s a)" using assms(2,3) by simp
  let ?s = "s\<lparr>pt_fs := (pt_fs s)(f := d)\<rparr>"
  have v: "child (pt_fs ?s h) = child (pt_fs s h)" "good (pt_fs ?s h) = good (pt_fs s h)" for h using same_views [OF d(2)] by auto
  have ag: "agrees good child ?s" using assms(1) unfolding agrees_def node_agrees_def node_fs_def v by simp
  have ok: "pointers_ok [] ?s" using assms(2) by (simp add: pointers_ok_def points_to_def nodes_ok_def)
  show ?thesis
  proof (cases "fs_look s f (i_lba (node_of s a)) name")
    case None
    then show ?thesis using d(1) ia ag ok same_views [OF d(2)] by (auto simp: child_dentry_def virtual_names_def unshared_def)
  next
    case (Some n)
    obtain b s1 where n: "new_entry n (Some a) name ?s = (b, s1)" by fastforce
    have aL: "a \<in> set (pt_live ?s)" using assms(3) by simp
    note new = new_entry_ok [OF ok n aL]
    have s1: "b = pt_next s" "pt_objs s1 = (pt_objs s)(b := \<lparr>pd_inode = pt_inext s, pd_parent = Some a, pd_name = name\<rparr>)"
        "pt_fs s1 = pt_fs ?s" "pt_super s1 = pt_super s" "pt_blocks s1 = pt_blocks s" "set (pt_live s1) = insert b (set (pt_live s))"
        "pt_cache s1 = pt_cache s" "pt_lowest s1 = pt_lowest s"
      using n by (auto simp: new_entry_eq)
    have old: "node_of s1 c = node_of s c" "pt_objs s1 c = pt_objs s c" "node_fs s1 c = node_fs s c" if "c \<in> set (pt_live s)" for c
    proof -
      have "c \<noteq> b" using new(3) that by auto
      then show "pt_objs s1 c = pt_objs s c" by (simp add: s1(2))
      show "node_of s1 c = node_of s c" using new(6) [of c] that by simp
      then show "node_fs s1 c = node_fs s c" by (simp add: node_fs_def s1(5))
    qed
    have par: "p \<in> set (pt_live s)" if "c \<in> set (pt_live s)" "pd_parent (pt_objs s c) = Some p" for c p
      using that assms(2) by (auto simp: pointers_ok_def points_to_def)
    have b: "node_of s1 b = n" "pd_parent (pt_objs s1 b) = Some a" "pd_name (pt_objs s1 b) = name" using new(5) by (simp_all add: s1(2))
    have sb: "i_superblock n = Some (pt_super s f)" by (rule child_superblock [OF Some])
    then have fb: "node_fs s1 b = f" using g(2) b(1) unfolding node_fs_def s1(5) by simp
    have w: "child (pt_fs s1 h) = child (pt_fs s h)" "good (pt_fs s1 h) = good (pt_fs s h)" for h unfolding s1(3) by (rule v)+
    have "node_agrees good child s1 b"
      using fb b g Some old [OF assms(3)] assms(6) child_good [OF g(1) Some] unfolding node_agrees_def s1(4,5) w by simp
    moreover have "node_agrees good child s1 c" if "c \<in> set (pt_live s)" "i_superblock (node_of s c) \<noteq> None" for c
    proof -
      have "node_agrees good child s c" using assms(1) that by (simp add: agrees_def)
      then show ?thesis using old [OF that(1)] old [OF par [OF that(1)]] unfolding node_agrees_def s1(4,5) w by auto
    qed
    ultimately have "agrees good child s1" unfolding agrees_def s1(6) using old(1) by auto
    moreover have "pointers_ok [] s1" "b \<in> set (pt_live s1)" using new(1,2) pointers_ok_mono by auto
    moreover have "virtual_names s1 = virtual_names s"
    proof -
      have "{pd_name (pt_objs s1 c) |c. c \<in> set (pt_live s1) \<and> i_superblock (node_of s1 c) = None} = {pd_name (pt_objs s1 c) |c. c \<in> set (pt_live s) \<and> i_superblock (node_of s1 c) = None}"
        using b(1) sb unfolding s1(6) by auto
      also have "\<dots> = {pd_name (pt_objs s c) |c. c \<in> set (pt_live s) \<and> i_superblock (node_of s c) = None}" using old(1,2) by metis
      finally show ?thesis by (simp add: virtual_names_def)
    qed
    moreover have "unshared s \<longrightarrow> unshared s1" using new(4) by (simp add: unshared_def)
    ultimately show ?thesis using d(1) ia n Some b sb fb w s1(4,7,8) by (auto simp: child_dentry_def Let_def)
  qed
qed

lemma next_dentry_ok:
  assumes "agrees good child s" and "pointers_ok [] s" and "a \<in> set (pt_live s)" and "i_superblock (node_of s a) \<noteq> None"
    and "i_type (node_of s a) = INodeDir" and "node_fs s a = f" and "t \<noteq> [DOT, DOT]"
  shows "\<exists>r s1. next_dentry fs f a t s = Inr (r, s1) \<and> agrees good child s1 \<and> pointers_ok [] s1 \<and> fs_look s1 f = fs_look s f \<and>
    virtual_names s1 = virtual_names s \<and> pt_cache s1 = pt_cache s \<and> pt_lowest s1 = pt_lowest s \<and> (unshared s \<longrightarrow> unshared s1) \<and>
    (case r of
       None \<Rightarrow> walk (fs_look s f) (t # ts) (node_of s a) = None
     | Some b \<Rightarrow> b \<in> set (pt_live s1) \<and> i_superblock (node_of s1 b) \<noteq> None \<and> node_fs s1 b = f \<and>
         walk (fs_look s f) (t # ts) (node_of s a) = walk (fs_look s f) ts (node_of s1 b))"
proof (cases "t = [DOT]")
  case True
  then show ?thesis using assms by (auto simp: next_dentry_def)
next
  case False
  obtain r s1 where c: "child_dentry fs f a t s = Inr (r, s1)" "agrees good child s1" "pointers_ok [] s1" "fs_look s1 f = fs_look s f"
      "virtual_names s1 = virtual_names s" "pt_cache s1 = pt_cache s" "pt_lowest s1 = pt_lowest s" "unshared s \<longrightarrow> unshared s1"
      "case r of None \<Rightarrow> fs_look s f (i_lba (node_of s a)) t = None
       | Some b \<Rightarrow> b \<in> set (pt_live s1) \<and> i_superblock (node_of s1 b) \<noteq> None \<and> node_fs s1 b = f \<and>
           fs_look s f (i_lba (node_of s a)) t = Some (node_of s1 b)"
    using child_dentry_ok [OF assms(1-6)] by blast
  have "case r of None \<Rightarrow> walk (fs_look s f) (t # ts) (node_of s a) = None
      | Some b \<Rightarrow> b \<in> set (pt_live s1) \<and> i_superblock (node_of s1 b) \<noteq> None \<and> node_fs s1 b = f \<and>
         walk (fs_look s f) (t # ts) (node_of s a) = walk (fs_look s f) ts (node_of s1 b)"
    using c(9) False assms(5) by (cases r) auto
  moreover have "next_dentry fs f a t s = Inr (r, s1)" using c(1) False assms(7) by (simp add: next_dentry_def)
  ultimately show ?thesis using c(2-8) by blast
qed

lemma browse_disk_ok:
  assumes "agrees good child s" and "pointers_ok [] s" and "cache_ok s" and "a \<in> set (pt_live s)" and "i_superblock (node_of s a) \<noteq> None"
    and "node_fs s a = f" and "direct s ts" and "unshared s \<or> length ts \<le> free_places s"
  shows "resolved good child (walk (fs_look s f) ts (node_of s a)) print_errors (free_places s < length ts) (browse_disk fs f print_errors ts a s)"
  using assms
proof (induction ts arbitrary: a s)
  case Nil
  then show ?case by (simp add: resolved_def)
next
  case (Cons t ts)
  have dd: "t \<noteq> [DOT, DOT]" "direct s ts" using Cons.prems(7) by (auto simp: direct_def)
  have ia: "inode_of s a = Inr (node_of s a)" using Cons.prems(2,4) by simp
  show ?case
  proof (cases "i_type (node_of s a) = INodeDir")
    case False
    then show ?thesis using Cons.prems(1-3) ia by (simp add: resolved_def)
  next
    case True
    obtain r s1 where n: "next_dentry fs f a t s = Inr (r, s1)" "agrees good child s1" "pointers_ok [] s1" "fs_look s1 f = fs_look s f"
        "virtual_names s1 = virtual_names s" "pt_cache s1 = pt_cache s" "pt_lowest s1 = pt_lowest s" "unshared s \<longrightarrow> unshared s1"
        "case r of None \<Rightarrow> walk (fs_look s f) (t # ts) (node_of s a) = None
         | Some b \<Rightarrow> b \<in> set (pt_live s1) \<and> i_superblock (node_of s1 b) \<noteq> None \<and> node_fs s1 b = f \<and>
             walk (fs_look s f) (t # ts) (node_of s a) = walk (fs_look s f) ts (node_of s1 b)"
      using next_dentry_ok [OF Cons.prems(1,2,4,5) True Cons.prems(6) dd(1), of ts] by blast
    have ck: "cache_ok s1" "free_places s1 = free_places s" using Cons.prems(3) n(6,7) by (simp_all add: cache_ok_def free_places_def)
    show ?thesis
    proof (cases r)
      case None
      then show ?thesis using True n ck ia by (simp add: resolved_def)
    next
      case (Some b)
      then have b: "b \<in> set (pt_live s1)" "i_superblock (node_of s1 b) \<noteq> None" "node_fs s1 b = f"
          "walk (fs_look s f) (t # ts) (node_of s a) = walk (fs_look s f) ts (node_of s1 b)" using n(9) by auto
      have room: "unshared s1 \<or> 0 < free_places s1" using Cons.prems(8) n(8) ck(2) by auto
      obtain okay s2 where c: "cache_dentry [] b s1 = Inr (okay, s2)" "pointers_ok [b] s2" "cache_ok s2" "keeps s1 s2"
          "\<not> okay \<longrightarrow> pt_lowest s2 = MAX_DENTRIES" "0 < free_places s1 \<longrightarrow> okay \<and> free_places s1 = Suc (free_places s2)"
        using cache_dentry_ok [OF pointers_ok_local [OF n(3) b(1)] ck(1) room] by (elim exE conjE) simp
      have k: "node_of s2 = node_of s1" "node_fs s2 = node_fs s1" "fs_look s2 f = fs_look s f" using c(4) n(4) by (auto simp: keeps_def node_fs_def fun_eq_iff)
      have kb: "node_of s2 b = node_of s1 b" "node_fs s2 b = node_fs s1 b" using fun_cong [OF k(1)] fun_cong [OF k(2)] by auto
      have ag: "agrees good child s2" by (rule agrees_keeps [OF n(2) c(4)])
      have p2: "pointers_ok [] s2" "b \<in> set (pt_live s2)" using pointers_ok_mono [OF c(2)] c(2) by (auto simp: pointers_ok_def points_to_def)
      have un: "unshared s2 \<or> length ts \<le> free_places s2" using Cons.prems(8) n(8) keeps_unshared [OF c(4)] c(6) ck(2) by auto
      show ?thesis
      proof (cases okay)
        case True
        have "direct s2 ts" using direct_keeps [OF _ c(4)] dd(2) n(5) by (simp add: direct_def)
        then have "resolved good child (walk (fs_look s2 f) ts (node_of s2 b)) print_errors (free_places s2 < length ts) (browse_disk fs f print_errors ts b s2)"
          by (intro Cons.IH [OF ag p2(1) c(3) p2(2) _ _ _ un]) (use b(2,3) kb in simp_all)
        then have "resolved good child (walk (fs_look s f) (t # ts) (node_of s a)) print_errors (free_places s2 < length ts) (browse_disk fs f print_errors ts b s2)"
          unfolding b(4) kb k(3) .
        then have "resolved good child (walk (fs_look s f) (t # ts) (node_of s a)) print_errors (free_places s < length (t # ts)) (browse_disk fs f print_errors ts b s2)"
          by (rule resolved_mono) (use c(6) ck(2) in auto)
        then show ?thesis using True n(1) Some c(1) ia \<open>i_type (node_of s a) = INodeDir\<close> by simp
      next
        case False
        have full: "free_places s < length (t # ts)" using False c(6) ck(2) by auto
        have "unshared s2" using False c(6) Cons.prems(8) n(8) ck(2) keeps_unshared [OF c(4)] by auto
        let ?last = "if dentry_use_count [] b s2 = 0 then delete_dentry [] b s2 else Inr s2"
        have "\<exists>s3. ?last = Inr s3 \<and> pointers_ok [] s3 \<and> dropped s2 s3"
          using delete_dentry_ok [OF p2(1) _ p2(2) \<open>unshared s2\<close>] p2(1) dropped_refl by (auto simp: use_count_zero)
        then obtain s3 where s3: "?last = Inr s3" "pointers_ok [] s3" "dropped s2 s3" by blast
        have "agrees good child s3" using agrees_keeps [OF ag] s3(3) by (simp add: dropped_def)
        moreover have "cache_ok s3" "pt_lowest s3 = MAX_DENTRIES" using c(3,5) False s3(3) by (auto simp: cache_ok_def dropped_def)
        moreover have "browse_disk fs f print_errors (t # ts) a s = (if print_errors then Inl (Irrecoverable ''Too many dentries'') else Inr (None, s3))"
          using n(1) Some c(1) ia True False s3(1) by simp
        ultimately show ?thesis using s3(2) full by (simp add: resolved_def)
      qed
    qed
  qed
qed

lemma browse_from_ok:
  assumes "agrees good child s" and "pointers_ok [] s" and "cache_ok s" and "a \<in> set (pt_live s)" and "i_superblock (node_of s a) \<noteq> None"
    and "i_type (node_of s a) = INodeDir" and "direct s (tokens path)" and "unshared s \<or> length (tokens path) \<le> free_places s"
  shows "resolved good child (walk (fs_look s (node_fs s a)) (tokens path) (node_of s a)) print_errors (free_places s < length (tokens path))
    (browse_from fs path a print_errors s)"
proof -
  obtain b rest where br: "browse_cached (tokens path) a s = Inr (b, rest)" and b: "b \<in> set (pt_live s)" "i_superblock (node_of s b) \<noteq> None" "node_fs s b = node_fs s a"
      "walk (fs_look s (node_fs s a)) (tokens path) (node_of s a) = walk (fs_look s (node_fs s a)) rest (node_of s b)" and us: "\<exists>us. tokens path = us @ rest"
    using browse_cached_ok [OF assms(1,2,4,5,6,7)] by (auto simp: Let_def)
  have dr: "direct s rest" "length rest \<le> length (tokens path)" using us assms(7) by (auto simp: direct_def)
  have ib: "inode_of s b = Inr (node_of s b)" using assms(2) b(1) by simp
  obtain sb where sb: "i_superblock (node_of s b) = Some sb" using b(2) by auto
  show ?thesis
  proof (cases "rest \<noteq> [] \<and> i_type (node_of s b) \<noteq> INodeDir")
    case True
    then have "walk (fs_look s (node_fs s a)) rest (node_of s b) = None" by (cases rest) auto
    then show ?thesis using True br sb ib b(4) assms(1-3) by (auto simp: browse_from_def resolved_def)
  next
    case False
    have "snd (pt_blocks s ! sb) = node_fs s a" using sb b(3) by (simp add: node_fs_def)
    then have "browse_from fs path a print_errors s = browse_disk fs (node_fs s a) print_errors rest b s"
      using False br sb ib by (auto simp: browse_from_def)
    moreover have "unshared s \<or> length rest \<le> free_places s" using assms(8) dr(2) by auto
    from browse_disk_ok [OF assms(1-3) b(1,2,3) dr(1) this]
    have "resolved good child (walk (fs_look s (node_fs s a)) rest (node_of s b)) print_errors (free_places s < length (tokens path))
        (browse_disk fs (node_fs s a) print_errors rest b s)" by (rule resolved_mono) (use dr(2) in auto)
    ultimately show ?thesis using b(4) by simp
  qed
qed

end

section \<open>An inode with two owners\<close>

text \<open>
  Once one of two entries with the same inode has been deleted, the other one leads to an inode that is gone.
\<close>

lemma delete_dentry_frees:
  "delete_dentry locals a s = Inr s' \<Longrightarrow> pt_objs s' = pt_objs s \<and> pt_cache s' = pt_cache s \<and> pd_inode (pt_objs s a) \<in> set (pt_freed s')"
proof (induction locals a s arbitrary: s' rule: delete_dentry.induct)
  case (1 locals a s)
  let ?s = "s\<lparr>pt_live := removeAll a (pt_live s)\<rparr>"
  from 1(2) obtain s1 where s1: "(case pd_parent (pt_objs s a) of None \<Rightarrow> Inr ?s
      | Some p \<Rightarrow> if p < a \<and> dentry_use_count locals p ?s = 0 then delete_dentry locals p ?s else Inr ?s) = Inr s1"
    and s': "delete_inode (pd_inode (pt_objs s a)) s1 = Inr s'"
    by (subst (asm) delete_dentry.simps) (auto simp: Let_def res_elims)
  have "pt_objs s1 = pt_objs s \<and> pt_cache s1 = pt_cache s"
  proof (cases "pd_parent (pt_objs s a)")
    case None
    then show ?thesis using s1 by auto
  next
    case (Some p)
    then show ?thesis using s1 1(1) [OF refl Some, of s1] by (auto split: if_splits)
  qed
  then show ?case using s' by (auto simp: delete_inode_def split: if_splits)
qed

end
