(* ===== verification/FatPaths.thy ===== *)
theory FatPaths
  imports Paths FatProperties
begin

text \<open>
  Paths on FAT disks: the driver is a file system in the sense of \<open>directory_tree\<close>, so that the cache of directory entries is
  not seen by those who resolve paths.
\<close>

section \<open>Directories of a FAT disk\<close>

primrec follow :: "nat \<Rightarrow> fat_drive \<Rightarrow> nat \<Rightarrow> nat list option" where
  "follow 0 d x = (if CLUSTER_MIN_EOC \<le> x then Some [] else None)"
| "follow (Suc n) d x =
     (if CLUSTER_MIN_EOC \<le> x then Some [] else if valid_cluster d x then map_option (Cons x) (follow n d (fat_next d x)) else None)"

lemma follow_chain: "chain d x xs \<Longrightarrow> length xs \<le> n \<Longrightarrow> follow n d x = Some xs"
proof (induction n arbitrary: x xs)
  case (Suc n)
  then show ?case by (cases xs) (auto simp: valid_cluster_def)
qed (auto split: list.splits)

definition entry_inode :: "nat \<Rightarrow> fat_drive \<Rightarrow> nat \<Rightarrow> DirEntry \<Rightarrow> inode" where
  "entry_inode fuel d sb e = \<lparr>i_size = file_size e, i_type = (if is_directory e then INodeDir else INodeFile), i_lba = first_cluster_addr e,
     i_blocks = (if is_directory e then length (the (follow fuel d (first_cluster_addr e))) else add32 (file_size e) 511 div 512), i_superblock = Some sb\<rparr>"

text \<open>The inode that a directory has for a name, read off the chains of the disk.\<close>

definition fat_child :: "nat \<Rightarrow> fat_drive \<Rightarrow> nat \<Rightarrow> nat \<Rightarrow> u8 list \<Rightarrow> inode option" where
  "fat_child fuel d sb lba name =
     (if name \<noteq> [] \<and> hd name = 0x2F then None
      else case follow fuel d lba of
        None \<Rightarrow> None
      | Some ds \<Rightarrow> map_option (\<lambda>(x, i). entry_inode fuel d sb (the_entry d x i)) (dir_find d ds name))"

definition dir_chain :: "nat \<Rightarrow> fat_drive \<Rightarrow> nat \<Rightarrow> bool" where
  "dir_chain fuel d x \<longleftrightarrow> (\<exists>ds. chain d x ds \<and> ds \<noteq> [] \<and> length ds \<le> fuel)"

text \<open>Every directory that a directory names has a chain of clusters that ends.\<close>

definition tree_ok :: "nat \<Rightarrow> fat_drive \<Rightarrow> bool" where
  "tree_ok fuel d \<longleftrightarrow> (\<forall>x i. valid_cluster d x \<and> i < 16 \<and> is_directory (the_entry d x i) \<and> (\<exists>name. scan_dir (cluster_data d x) name 0 False [] = Some i) \<longrightarrow>
     dir_chain fuel d (first_cluster_addr (the_entry d x i)))"

definition fat_good :: "nat \<Rightarrow> fat_drive \<Rightarrow> nat \<Rightarrow> bool" where
  "fat_good fuel d lba \<longleftrightarrow> drive_ok d \<and> tree_ok fuel d \<and> lba < W32 \<and> dir_chain fuel d lba"

lemma same_disk_follow: "same_disk d d' \<Longrightarrow> follow n d' x = follow n d x"
  by (induction n arbitrary: x) (auto simp: same_disk_views)

lemma same_disk_child: "same_disk d d' \<Longrightarrow> fat_child fuel d' = fat_child fuel d \<and> fat_good fuel d' = fat_good fuel d"
proof -
  assume s: "same_disk d d'"
  note v = same_disk_views [OF s] chain_same_disk [OF s] same_disk_follow [OF s]
  have e: "the_entry d' x i = the_entry d x i" for x i by (simp add: the_entry_def v)
  have "dir_find d' ds name = dir_find d ds name" for ds name by (rule dir_find_cong) (simp add: v)
  moreover have "entry_inode fuel d' = entry_inode fuel d" by (rule ext)+ (simp add: entry_inode_def v)
  ultimately have "fat_child fuel d' sb lba name = fat_child fuel d sb lba name" for sb lba name
    unfolding fat_child_def v e by (simp only:)
  moreover have "fat_good fuel d' lba = fat_good fuel d lba" for lba by (simp add: fat_good_def tree_ok_def dir_chain_def v e)
  ultimately show ?thesis by (simp add: fun_eq_iff)
qed

lemma count_blocks_ok:
  assumes "drive_ok d" and "chain d x xs" and "xs \<noteq> []" and "length xs \<le> fuel" and "coherent (c, d)"
  shows "\<exists>s'. count_blocks fuel x (c, d) = Inr (Some (length xs), s') \<and> same_disk d (snd s')"
  using assms
proof (induction xs arbitrary: x c d fuel)
  case (Cons y ys)
  then obtain f where f: "fuel = Suc f" by (cases fuel) auto
  have y: "x = y" "valid_cluster d y" "chain d (fat_next d y) ys" using Cons.prems(2) by auto
  obtain c1 d1 where o1: "change_active_cluster y NoBuf (c, d) = (Some None, (c1, d1))" "same_disk d d1" "coherent (c1, d1)" "table_value c1 = fat_next d y"
    using change_active_cluster_ok [OF Cons.prems(1) y(2) Cons.prems(5), of NoBuf] by auto
  show ?case
  proof (cases ys)
    case Nil
    then show ?thesis using y o1 f by auto
  next
    case (Cons z zs)
    then have "fat_next d y < CLUSTER_MIN_EOC" "ys \<noteq> []" "length ys \<le> f" using y(3) Cons.prems(4) f by (auto simp: valid_cluster_def)
    moreover have "drive_ok d1" "chain d1 (fat_next d y) ys" using Cons.prems(1) y(3) same_disk_views(7) [OF o1(2)] chain_same_disk [OF o1(2)] by auto
    ultimately obtain s' where "count_blocks f (fat_next d y) (c1, d1) = Inr (Some (length ys), s')" "same_disk d1 (snd s')"
      using Cons.IH [OF _ _ _ _ o1(3)] by blast
    then show ?thesis using y(1) o1(1,4) f \<open>fat_next d y < CLUSTER_MIN_EOC\<close> same_disk_trans [OF o1(2)] by auto
  qed
qed simp

lemma fat_get_child_ok:
  assumes "fat_good fuel d lba"
  shows "\<exists>d'. fat_get_child fuel lba name sb d = Inr (fat_child fuel d sb lba name, d') \<and> same_disk d d'"
proof -
  obtain ds where g: "drive_ok d" "lba < W32" "tree_ok fuel d" "chain d lba ds" "ds \<noteq> []" "length ds \<le> fuel"
    using assms by (auto simp: fat_good_def dir_chain_def)
  have fo: "follow fuel d lba = Some ds" by (rule follow_chain [OF g(4,6)])
  have pc: "parent_cluster lba d = lba" by (rule parent_cluster_ok [OF g(1,2)])
  show ?thesis
  proof (cases "name \<noteq> [] \<and> hd name = 0x2F")
    case True
    then show ?thesis by (auto simp: fat_get_child_def get_child_dir_entry_id_def fat_child_def)
  next
    case False
    have "0 \<notin> set ds" using chain_valid [OF g(4), of 0] by (auto simp: valid_cluster_def)
    then obtain c1 d1 where f: "find_entry fuel lba name (ctx_init, d) = Inr (map_option snd (dir_find d ds name), (c1, d1))" "same_disk d d1"
        "\<And>y i. dir_find d ds name = Some (y, i) \<Longrightarrow> at_cluster y (c1, d1)"
      using find_entry_ok [OF g(1,4,5,6), of ctx_init name] by auto
    have gc: "get_child_dir_entry_id fuel lba name (ctx_init, d) = Inr (map_option snd (dir_find d ds name), (c1, d1))"
      using False f(1) pc by (auto simp: get_child_dir_entry_id_def)
    show ?thesis
    proof (cases "dir_find d ds name")
      case None
      then show ?thesis using False gc fo f(2) by (auto simp: fat_get_child_def fat_child_def)
    next
      case (Some xi)
      obtain x i where xi: "xi = (x, i)" by fastforce
      let ?e = "the_entry d x i"
      note v = same_disk_views [OF f(2)]
      have e: "entry_at (f_buf d1) i = ?e" using f(3) Some xi v by (simp add: at_cluster_def the_entry_def)
      have fc: "fat_child fuel d sb lba name = Some (entry_inode fuel d sb ?e)" using False fo Some xi by (simp add: fat_child_def)
      have sc: "x \<in> set ds" "scan_dir (cluster_data d x) name 0 False [] = Some i" using dir_find_cluster [of d ds name x i] Some xi by auto
      have vx: "valid_cluster d x" "i < 16" using chain_valid [OF g(4) sc(1)] scan_dir_bounds [OF sc(2)] by auto
      show ?thesis
      proof (cases "is_directory ?e")
        case False
        then show ?thesis using gc Some xi e fc f(2) by (auto simp: fat_get_child_def dir_entry_to_inode_def entry_inode_def)
      next
        case True
        then obtain es where es: "chain d (first_cluster_addr ?e) es" "es \<noteq> []" "length es \<le> fuel"
          using g(3) vx sc(2) unfolding tree_ok_def dir_chain_def by blast
        have "wf_entry ?e" using wf_entry_at [of i "cluster_data d x"] vx length_cluster_data [OF g(1) vx(1)] by (simp add: the_entry_def)
        then have "first_cluster_addr ?e < W32" by (auto simp: wf_entry_def first_cluster_addr_def)
        then have p: "parent_cluster (first_cluster_addr ?e) d1 = first_cluster_addr ?e" using parent_cluster_ok [of d1] g(1) v(7) by simp
        have "drive_ok d1" "chain d1 (first_cluster_addr ?e) es" using g(1) es(1) v(7) chain_same_disk [OF f(2)] by auto
        then obtain s' where "count_blocks fuel (first_cluster_addr ?e) (ctx_init, d1) = Inr (Some (length es), s')" "same_disk d1 (snd s')"
          using count_blocks_ok [OF _ _ es(2,3) coherent_init] by blast
        moreover have "follow fuel d (first_cluster_addr ?e) = Some es" by (rule follow_chain [OF es(1,3)])
        ultimately show ?thesis using True gc Some xi e fc p same_disk_trans [OF f(2)]
          by (auto simp: fat_get_child_def dir_entry_to_inode_def entry_inode_def)
      qed
    qed
  qed
qed

interpretation fat_tree: directory_tree "fat_fs fuel" "fat_good fuel" "fat_child fuel" same_disk for fuel
proof unfold_locales
  show "\<exists>d'. fc_get_child (fat_fs fuel) lba name sb d = Inr (fat_child fuel d sb lba name, d') \<and> same_disk d d'" if "fat_good fuel d lba" for d lba name sb
    using fat_get_child_ok [OF that] by (simp add: fat_fs_def)
  show "fat_child fuel d' = fat_child fuel d \<and> fat_good fuel d' = fat_good fuel d" if "same_disk d d'" for d d' by (rule same_disk_child [OF that])
  show "i_superblock n = Some sb" if "fat_child fuel d sb lba name = Some n" for d sb lba name n
    using that by (auto simp: fat_child_def entry_inode_def split: if_splits option.splits)
  show "fat_good fuel d (i_lba n)" if a: "fat_good fuel d lba" "fat_child fuel d sb lba name = Some n" "i_type n = INodeDir" for d lba sb name n
  proof -
    obtain ds where g: "drive_ok d" "tree_ok fuel d" "chain d lba ds" "length ds \<le> fuel" using a(1) by (auto simp: fat_good_def dir_chain_def)
    have fo: "follow fuel d lba = Some ds" by (rule follow_chain [OF g(3,4)])
    obtain x i where xi: "dir_find d ds name = Some (x, i)" "n = entry_inode fuel d sb (the_entry d x i)"
      using a(2) fo by (auto simp: fat_child_def split: if_splits)
    have dir: "is_directory (the_entry d x i)" using a(3) xi(2) by (auto simp: entry_inode_def split: if_splits)
    have sc: "x \<in> set ds" "scan_dir (cluster_data d x) name 0 False [] = Some i" using dir_find_cluster [OF xi(1)] by auto
    have vx: "valid_cluster d x" "i < 16" using chain_valid [OF g(3) sc(1)] scan_dir_bounds [OF sc(2)] by auto
    have "wf_entry (the_entry d x i)" using wf_entry_at [of i "cluster_data d x"] vx length_cluster_data [OF g(1) vx(1)] by (simp add: the_entry_def)
    then have "first_cluster_addr (the_entry d x i) < W32" by (auto simp: wf_entry_def first_cluster_addr_def)
    then show ?thesis using g(1,2) vx sc(2) dir xi(2) unfolding fat_good_def tree_ok_def by (auto simp: entry_inode_def)
  qed
qed

section \<open>A mounted disk\<close>

abbreviation demo_root_inode :: inode where
  "demo_root_inode \<equiv> \<lparr>i_size = 0, i_type = INodeDir, i_lba = 2, i_blocks = 0, i_superblock = Some 0\<rparr>"

abbreviation demo_mnt_inode :: inode where
  "demo_mnt_inode \<equiv> \<lparr>i_size = 0, i_type = INodeDir, i_lba = 0, i_blocks = 1, i_superblock = None\<rparr>"

text \<open>
  The disk of \<open>FatProperties\<close> as \<^verbatim>\<open>VFS::init\<close> mounts it: at the root, and in \<^verbatim>\<open>/mnt\<close> with the same root node.
\<close>

definition demo_paths :: "fat_drive paths" where
  "demo_paths = \<lparr>pt_objs = (\<lambda>a. if a = 2 then \<lparr>pd_inode = 0, pd_parent = Some 1, pd_name = [0x31]\<rparr>
       else if a = 1 then \<lparr>pd_inode = 1, pd_parent = Some 0, pd_name = [0x6D, 0x6E, 0x74]\<rparr> else \<lparr>pd_inode = 0, pd_parent = None, pd_name = if a = 0 then [SLASH] else []\<rparr>),
     pt_live = [2, 1, 0], pt_next = 3,
     pt_nodes = (\<lambda>n. if n = 1 then demo_mnt_inode else if n = 0 then demo_root_inode else \<lparr>i_size = 0, i_type = INodeDir, i_lba = 0, i_blocks = 0, i_superblock = None\<rparr>),
     pt_freed = [], pt_inext = 2, pt_cache = [Some 0, Some 1, Some 2] @ replicate 197 None, pt_lowest = 3, pt_path = [], pt_held = [],
     pt_blocks = [([SLASH], 0), ([0x6D, 0x6E, 0x74, SLASH, 0x31], 0)], pt_super = (\<lambda>f. if f = 0 then 1 else 0), pt_roots = [0 \<mapsto> 0], pt_fs = (\<lambda>_. demo_drive)\<rparr>"

lemma demo_places: "(replicate MAX_DENTRIES None)[0 := x] = x # replicate 199 None" "(replicate 199 None)[0 := x] = x # replicate 198 None"
  "(replicate 198 None)[0 := x] = x # replicate 197 None"
  by (simp_all add: numeral_eq_Suc)

lemma demo_scans: "scan_used (Some 0 # replicate 199 None) (Suc 0) = Suc 0"
  "scan_used (Some (0 :: nat) # Some (Suc 0) # replicate 198 None) (Suc (Suc 0)) = Suc (Suc 0)"
  "scan_used (Some (0 :: nat) # Some (Suc 0) # Some (Suc (Suc 0)) # replicate 197 None) (Suc (Suc (Suc 0))) = Suc (Suc (Suc 0))"
  by (subst scan_used.simps, simp)+

lemma demo_mounted:
  "bind_res (mount_rootfs (fat_fs 1) 0 (empty_paths (\<lambda>_. demo_drive))) (\<lambda>(_, s).
     let (mnt, s1) = new_entry demo_mnt_inode (Some 0) [0x6D, 0x6E, 0x74] s in
     bind_res (cache_dentry [] mnt s1) (\<lambda>(_, s2). mount_all (fat_fs 1) [0] s2)) = Inr demo_paths"
proof -
  have root: "get_root_node 0 demo_drive = demo_root_inode" by (simp add: get_root_node_def demo_drive_def demo_bs_def)
  show ?thesis
    by (simp add: mount_rootfs_def vfs_mount_def superblock_add_def register_root_def fs_root_def new_inode_def new_dentry_def new_entry_def cache_dentry_def empty_paths_def
        fat_fs_def root demo_places demo_scans Let_def cong: if_cong) (simp add: demo_paths_def fun_eq_iff)
qed

lemma demo_paths_eq:
  "pt_live demo_paths = [2, 1, 0]" "pt_next demo_paths = 3" "pt_objs demo_paths 0 = \<lparr>pd_inode = 0, pd_parent = None, pd_name = [SLASH]\<rparr>"
  "pt_objs demo_paths (Suc 0) = \<lparr>pd_inode = 1, pd_parent = Some 0, pd_name = [0x6D, 0x6E, 0x74]\<rparr>" "pt_objs demo_paths 2 = \<lparr>pd_inode = 0, pd_parent = Some 1, pd_name = [0x31]\<rparr>"
  "pt_nodes demo_paths 0 = demo_root_inode" "pt_nodes demo_paths (Suc 0) = demo_mnt_inode" "pt_freed demo_paths = []" "pt_inext demo_paths = 2"
  "pt_cache demo_paths = [Some 0, Some 1, Some 2] @ replicate 197 None" "pt_lowest demo_paths = 3" "pt_path demo_paths = []" "pt_held demo_paths = []"
  "pt_blocks demo_paths = [([SLASH], 0), ([0x6D, 0x6E, 0x74, SLASH, 0x31], 0)]" "pt_super demo_paths 0 = 1" "pt_fs demo_paths = (\<lambda>_. demo_drive)"
  by (simp_all add: demo_paths_def)

lemma demo_tree_ok: "tree_ok 1 demo_drive"
proof -
  have c: "cluster_data demo_drive x = demo_root \<or> (\<exists>b \<in> {0, 7, 8, 9}. cluster_data demo_drive x = replicate 512 b)" if "valid_cluster demo_drive x" for x
    using that by (auto simp: cluster_data_def demo_valid) (auto simp: demo_drive_def data_sector_def demo_shape)
  have attr: "de_attrs (entry_at (replicate 512 b) i) = b" if "i < 16" for b i using that by (simp add: entry_at_def decode_entry_def raw_entry_def)
  have zero: "entry_at demo_root i = entry_at (replicate 512 0) i" if "0 < i" "i < 16" for i
  proof -
    have "raw_entry demo_root i = replicate 32 0" "raw_entry (replicate 512 0) i = replicate 32 0"
      using that by (auto simp: raw_entry_def demo_root_def demo_wf drop_replicate take_replicate min_def)
    then show ?thesis by (simp add: entry_at_def)
  qed
  have "\<not> is_directory (the_entry demo_drive x i)" if a: "valid_cluster demo_drive x" "i < 16" for x i
  proof (cases "cluster_data demo_drive x = demo_root")
    case True
    then have "de_attrs (the_entry demo_drive x i) = 0"
      using zero [of i] attr [of i 0] a(2) demo_entry_at(1) by (cases "i = 0") (auto simp: the_entry_def demo_entry_def)
    then show ?thesis by (simp add: is_directory_def)
  next
    case False
    then obtain b where b: "b \<in> {0, 7, 8, 9 :: u8}" "cluster_data demo_drive x = replicate 512 b" using c [OF a(1)] by auto
    then have "de_attrs (the_entry demo_drive x i) = b" using attr [OF a(2)] by (simp add: the_entry_def)
    then show ?thesis using b(1) by (auto simp: is_directory_def)
  qed
  then show ?thesis by (auto simp: tree_ok_def)
qed

lemma demo_good: "fat_good 1 demo_drive 2"
proof -
  have "chain demo_drive 2 [2]" using demo_named by (simp add: named_def)
  then show ?thesis using demo_tree_ok demo_drive_ok unfolding fat_good_def dir_chain_def by fastforce
qed

lemma count_list_copies: "count_list (replicate n x) y = (if x = y then n else 0)"
  by (induction n) auto

lemma demo_paths_ok: "agrees (fat_good 1) (fat_child 1) demo_paths" "pointers_ok [] demo_paths" "cache_ok demo_paths" "free_places demo_paths = 197"
proof -
  show "agrees (fat_good 1) (fat_child 1) demo_paths" using demo_good by (simp add: agrees_def node_agrees_def node_fs_def demo_paths_eq)
  show "pointers_ok [] demo_paths" by (auto simp: pointers_ok_def points_to_def nodes_ok_def demo_paths_eq)
  show "cache_ok demo_paths" by (auto simp: cache_ok_def demo_paths_eq nth_append less_Suc_eq numeral_3_eq_3)
  show "free_places demo_paths = 197" by (simp add: free_places_def demo_paths_eq count_list_append count_list_copies)
qed

text \<open>A full cache: the root everywhere but in one place, which has an entry that nobody else uses. A new entry, at 2, is to go in.\<close>

definition full_paths :: "fat_drive paths" where
  "full_paths = (empty_paths (\<lambda>_. demo_drive))\<lparr>
     pt_objs := (\<lambda>a. \<lparr>pd_inode = a, pd_parent = if a = 0 then None else Some 0, pd_name = if a = 0 then [SLASH] else [0x61]\<rparr>), pt_live := [2, 1, 0], pt_next := 3, pt_inext := 3,
     pt_cache := [Some 0, Some 0, Some 1] @ replicate 197 (Some 0), pt_lowest := MAX_DENTRIES\<rparr>"

lemma full_paths_ok: "pointers_ok [2] full_paths" "cache_ok full_paths" "unshared full_paths" "free_places full_paths = 0"
proof -
  show "pointers_ok [2] full_paths" by (auto simp: pointers_ok_def points_to_def nodes_ok_def full_paths_def empty_paths_def)
  show "cache_ok full_paths" by (auto simp: cache_ok_def full_paths_def nth_append less_Suc_eq numeral_3_eq_3 nth_Cons split: nat.splits)
  show "unshared full_paths" by (simp add: unshared_def full_paths_def)
  show "free_places full_paths = 0" by (simp add: free_places_def full_paths_def count_list_append count_list_copies)
qed

section \<open>Properties\<close>

text \<open>
  C4. Resolving a path finds what the disk says. In a state in which the cache of directory entries agrees with the
  FAT disks and every pointer leads to an entry and an inode that exist, \<^verbatim>\<open>VFS::browse_to\<close> is called on an absolute path that has no
  part \<^verbatim>\<open>..\<close> and none with the name of an entry that exists in memory only. The cache has a free place for every part of the path, or no two entries have
  the same inode. Then the function, which browses the cache as far as it leads and the disk from there on and
  caches what it finds, returns the entry of the inode that one reaches by searching directory
  after directory on the disk, and no entry if there is none. If there are fewer free places than parts, it may find the cache full instead: then it stops the kernel
  when errors are to be printed and returns no entry otherwise. After a return
  the cache still agrees with the disks, every pointer leads to an entry and an inode that exist, and the lowest
  free place is right.
\<close>

theorem path_resolution:
  assumes "agrees (fat_good fuel) (fat_child fuel) s" and "pointers_ok [] s" and "cache_ok s" and "pt_cache s ! 0 = Some root"
    and "i_superblock (node_of s root) \<noteq> None" and "i_type (node_of s root) = INodeDir" and "path \<noteq> []" and "hd path = SLASH"
    and "direct s (tokens path)" and "look = fat_child fuel (pt_fs s (node_fs s root)) (pt_super s (node_fs s root))"
    and "unshared s \<or> length (tokens path) \<le> free_places s"
  shows "case browse_to (fat_fs fuel) path True print_errors s of
      Inl e \<Rightarrow> print_errors \<and> free_places s < length (tokens path) \<and> e = Irrecoverable ''Too many dentries''
    | Inr (r, s') \<Rightarrow> agrees (fat_good fuel) (fat_child fuel) s' \<and> pointers_ok [] s' \<and> cache_ok s' \<and>
        (case r of
           None \<Rightarrow> walk look (tokens path) (node_of s root) = None \<or>
             \<not> print_errors \<and> free_places s < length (tokens path) \<and> pt_lowest s' = MAX_DENTRIES
         | Some a \<Rightarrow> a \<in> set (pt_live s') \<and> walk look (tokens path) (node_of s root) = Some (node_of s' a))"
proof -
  have "0 < length (pt_cache s)" using assms(3) by (simp add: cache_ok_def)
  then have "Some root \<in> set (pt_cache s)" using assms(4) by (metis nth_mem)
  then have "root \<in> set (pt_live s)" using assms(2) unfolding pointers_ok_def points_to_def by blast
  from fat_tree.browse_from_ok [OF assms(1-3) this assms(5,6,9,11)]
  have "resolved (fat_good fuel) (fat_child fuel) (walk look (tokens path) (node_of s root)) print_errors (free_places s < length (tokens path))
      (browse_from (fat_fs fuel) path root print_errors s)"
    unfolding assms(10) .
  moreover have "browse_to (fat_fs fuel) path True print_errors s = browse_from (fat_fs fuel) path root print_errors s"
    using assms(4,7,8) by (simp add: browse_to_def root_dentry_def)
  ultimately show ?thesis by (auto simp: resolved_def split: sum.splits option.splits)
qed

theorem path_resolution_witness:
  "case browse_to (fat_fs 1) [SLASH, 0x66] True True demo_paths of
      Inl e \<Rightarrow> True \<and> free_places demo_paths < length (tokens [SLASH, 0x66]) \<and> e = Irrecoverable ''Too many dentries''
    | Inr (r, s') \<Rightarrow> agrees (fat_good 1) (fat_child 1) s' \<and> pointers_ok [] s' \<and> cache_ok s' \<and>
        (case r of
           None \<Rightarrow> walk (fat_child 1 (pt_fs demo_paths (node_fs demo_paths 0)) (pt_super demo_paths (node_fs demo_paths 0))) (tokens [SLASH, 0x66]) (node_of demo_paths 0) = None \<or>
             \<not> True \<and> free_places demo_paths < length (tokens [SLASH, 0x66]) \<and> pt_lowest s' = MAX_DENTRIES
         | Some a \<Rightarrow> a \<in> set (pt_live s') \<and>
             walk (fat_child 1 (pt_fs demo_paths (node_fs demo_paths 0)) (pt_super demo_paths (node_fs demo_paths 0))) (tokens [SLASH, 0x66]) (node_of demo_paths 0) =
               Some (node_of s' a))"
proof (rule path_resolution [OF demo_paths_ok(1-3)])
  have t: "tokens [SLASH, 0x66] = [[0x66]]" by (simp add: chunks.simps)
  then show "direct demo_paths (tokens [SLASH, 0x66])" by (auto simp: direct_def virtual_names_def demo_paths_eq)
  show "unshared demo_paths \<or> length (tokens [SLASH, 0x66]) \<le> free_places demo_paths" by (simp add: t demo_paths_ok(4))
qed (simp_all add: demo_paths_eq)

text \<open>
  C23. Putting an entry into the cache loses none that is in use. Let every pointer lead to an entry and an inode that exist, and let the cache have a free place or no two
  entries have the same inode. Then \<^verbatim>\<open>cache_dentry\<close> returns, also when the cache is full and entries have to go: every
  pointer, be it of the cache, of the search path, of a child to its parent or of anyone else, leads to an
  entry that exists afterwards, and so does every entry's pointer to its inode; no entry or inode is changed. The new entry gets a place that was free or whose entry has
  ceased to exist; every other place keeps its entry or has become free because its entry has ceased to exist, which happens only to places from the third on and
  only when the cache was full. If there is no place, then the cache is full.
\<close>

theorem cache_keeps_used_entries:
  assumes "pointers_ok (a # locals) s" and "cache_ok s" and "unshared s \<or> 0 < free_places s"
  shows "\<exists>place s'. cache_dentry locals a s = Inr (place \<noteq> None, s') \<and> pointers_ok (a # locals) s' \<and> cache_ok s' \<and>
    pt_objs s' = pt_objs s \<and> pt_nodes s' = pt_nodes s \<and> pt_path s' = pt_path s \<and> pt_held s' = pt_held s \<and> set (pt_live s') \<subseteq> set (pt_live s) \<and>
    (\<forall>j. place = Some j \<longrightarrow> j < MAX_DENTRIES) \<and> (place = None \<longrightarrow> pt_lowest s = MAX_DENTRIES \<and> pt_lowest s' = MAX_DENTRIES) \<and>
    (\<forall>j < MAX_DENTRIES.
       if place = Some j then pt_cache s' ! j = Some a \<and> (pt_cache s ! j = None \<or> j \<ge> 2 \<and> pt_lowest s = MAX_DENTRIES \<and> the (pt_cache s ! j) \<notin> set (pt_live s'))
       else pt_cache s' ! j = pt_cache s ! j \<or> j \<ge> 2 \<and> pt_lowest s = MAX_DENTRIES \<and> pt_cache s' ! j = None \<and> the (pt_cache s ! j) \<notin> set (pt_live s'))"
proof -
  obtain okay s' where c: "cache_dentry locals a s = Inr (okay, s')" "pointers_ok (a # locals) s'" "cache_ok s'" "keeps s s'"
      "\<not> okay \<longrightarrow> pt_lowest s' = MAX_DENTRIES \<and> placed None a s s'" "okay \<longrightarrow> (\<exists>place < MAX_DENTRIES. placed (Some place) a s s')"
      "0 < free_places s \<longrightarrow> okay \<and> free_places s = Suc (free_places s')"
    using cache_dentry_ok [OF assms] by (elim exE conjE) simp
  have full: "pt_lowest s = MAX_DENTRIES" if "\<not> okay" using that c(7) free_places_full [OF assms(2)] by auto
  obtain place where p: "okay \<longleftrightarrow> place \<noteq> None" "\<forall>j. place = Some j \<longrightarrow> j < MAX_DENTRIES" "placed place a s s'"
  proof (cases okay)
    case True
    then obtain j where "j < MAX_DENTRIES" "placed (Some j) a s s'" using c(6) by blast
    then show ?thesis using that [of "Some j"] True by simp
  next
    case False
    then show ?thesis using that [of None] c(5) by simp
  qed
  show ?thesis
    by (rule exI [of _ place], rule exI [of _ s']) (use c(1-5) p full in \<open>auto simp: keeps_def placed_def\<close>)
qed

theorem cache_keeps_used_entries_witness:
  "pt_lowest full_paths = MAX_DENTRIES \<and> (\<exists>place s'. cache_dentry [] 2 full_paths = Inr (place \<noteq> None, s') \<and> pointers_ok [2] s' \<and> cache_ok s' \<and>
    pt_objs s' = pt_objs full_paths \<and> pt_nodes s' = pt_nodes full_paths \<and> pt_path s' = pt_path full_paths \<and> pt_held s' = pt_held full_paths \<and> set (pt_live s') \<subseteq> set (pt_live full_paths) \<and>
    (\<forall>j. place = Some j \<longrightarrow> j < MAX_DENTRIES) \<and> (place = None \<longrightarrow> pt_lowest full_paths = MAX_DENTRIES \<and> pt_lowest s' = MAX_DENTRIES) \<and>
    (\<forall>j < MAX_DENTRIES.
       if place = Some j then pt_cache s' ! j = Some 2 \<and>
         (pt_cache full_paths ! j = None \<or> j \<ge> 2 \<and> pt_lowest full_paths = MAX_DENTRIES \<and> the (pt_cache full_paths ! j) \<notin> set (pt_live s'))
       else pt_cache s' ! j = pt_cache full_paths ! j \<or>
         j \<ge> 2 \<and> pt_lowest full_paths = MAX_DENTRIES \<and> pt_cache s' ! j = None \<and> the (pt_cache full_paths ! j) \<notin> set (pt_live s')))"
  using cache_keeps_used_entries [OF full_paths_ok(1,2), OF disjI1, OF full_paths_ok(3)] by (simp add: full_paths_def)

text \<open>
  The main file system is mounted twice, and the two entries of its root have the same inode without sharing a counter. When one of them leaves the cache, the
  inode is deleted, and the next attempt to resolve a path follows a dangling pointer.
\<close>

theorem root_inode_lost:
  assumes "pt_cache s ! 0 = Some root" and "pd_inode (pt_objs s a) = pd_inode (pt_objs s root)" and "delete_dentry locals a s = Inr s'"
  shows "browse_to fs [SLASH] u print_errors s' = Inl UseAfterFree"
proof -
  have "pt_cache s' ! 0 = Some root" "inode_of s' root = Inl UseAfterFree" using delete_dentry_frees [OF assms(3)] assms(1,2) by (auto simp: inode_of_def)
  then show ?thesis by (simp add: browse_to_def root_dentry_def browse_from_def chunks.simps)
qed

theorem root_inode_lost_witness:
  "dentry_use_count [] 2 demo_paths = 1 \<and> (\<exists>s'. delete_dentry [] 2 (demo_paths\<lparr>pt_cache := (pt_cache demo_paths)[2 := None]\<rparr>) = Inr s' \<and>
     browse_to (fat_fs 1) [SLASH] True True s' = Inl UseAfterFree)"
proof
  show "dentry_use_count [] 2 demo_paths = 1" by (simp add: dentry_use_count_def demo_paths_eq count_list_append count_list_copies)
  let ?s = "demo_paths\<lparr>pt_cache := (pt_cache demo_paths)[2 := None]\<rparr>"
  have "dentry_use_count [] 1 (?s\<lparr>pt_live := removeAll 2 (pt_live ?s)\<rparr>) \<noteq> 0" by (simp add: dentry_use_count_def demo_paths_eq)
  then have "\<exists>s'. delete_dentry [] 2 ?s = Inr s'" by (subst delete_dentry.simps) (simp add: demo_paths_eq delete_inode_def Let_def)
  then obtain s' where s': "delete_dentry [] 2 ?s = Inr s'" by blast
  have "browse_to (fat_fs 1) [SLASH] True True s' = Inl UseAfterFree" by (rule root_inode_lost [where root = 0, OF _ _ s']) (simp_all add: demo_paths_eq)
  then show "\<exists>s'. delete_dentry [] 2 ?s = Inr s' \<and> browse_to (fat_fs 1) [SLASH] True True s' = Inl UseAfterFree" using s' by blast
qed

text \<open>
  C24. A file holds what was written to it through its directory entry: for an entry that has, like its directory, an inode that exists and whose inode has the size that is on disk, bytes (at least one, at most 2^32 - 512), and a disk
  with room for them (if the file grows, the clusters that \<^verbatim>\<open>get_free_clusters\<close> finds are clusters of the disk), \<^verbatim>\<open>write_buf_to_file\<close> succeeds, sets the size
  of the inode, and \<^verbatim>\<open>VFS::load_file\<close> on that entry then gives exactly the bytes.
\<close>

theorem entry_write_then_load:
  assumes "pd_parent (pt_objs s a) = Some p" and "pd_inode (pt_objs s p) \<notin> set (pt_freed s)" and "pd_inode (pt_objs s a) \<notin> set (pt_freed s)" and "i_superblock (node_of s a) = Some b" and "f = snd (pt_blocks s ! b)"
    and "i_type (node_of s a) = INodeFile" and "file_on (pt_fs s f) (i_lba (node_of s p)) ds (pd_name (pt_objs s a)) x i xs"
    and "i_size (node_of s a) = file_size (the_entry (pt_fs s f) x i)" and "length ds \<le> fuel" and "length bytes \<le> W32 - 512"
    and "room (pt_fs s f) (i_size (node_of s a)) (length bytes)" and "bytes \<noteq> []" and "length (fresh (length bytes)) = length bytes"
  shows "\<exists>s1 s2. dentry_write (fat_fs fuel) a bytes s = Inr (True, s1) \<and> i_size (node_of s1 a) = length bytes \<and>
    dentry_load (fat_fs fuel) fresh junk a 0 0 s1 = Inr (Some bytes, s2)"
proof -
  let ?d = "pt_fs s f" and ?name = "pd_name (pt_objs s a)" and ?lba = "i_lba (node_of s p)"
  obtain d1 ys where w: "write_buf_to_file fuel ?lba ?name (node_of s a) bytes ?d = Inr (True, length bytes, d1)" "holds d1 ?lba ds ?name x i ys bytes"
    using write_ok [OF assms(7,9,6,8,10,11)] by blast
  let ?s = "set_node_size a (length bytes) (s\<lparr>pt_fs := (pt_fs s)(f := d1)\<rparr>)"
  have fs: "fs_of s a = Inr f" "parent_node s a = Inr (node_of s p)" "inode_of s a = Inr (node_of s a)"
    using assms(1-5) by (simp_all add: fs_of_def parent_node_def inode_of_def)
  have wr: "dentry_write (fat_fs fuel) a bytes s = Inr (True, ?s)" using fs w(1) by (simp add: dentry_write_def fat_fs_def)
  have s1: "fs_of ?s a = Inr f" "parent_node ?s a = Inr (node_of ?s p)" "i_lba (node_of ?s p) = ?lba" "pd_name (pt_objs ?s a) = ?name" "pt_fs ?s f = d1"
      "i_size (node_of ?s a) = length bytes" "inode_of ?s a = Inr (node_of ?s a)"
    using assms(1-5) by (simp_all add: fs_of_def parent_node_def inode_of_def set_node_size_def)
  have "0 < length bytes" "0 + length bytes \<le> length bytes" "length bytes \<le> length (fresh (length bytes))" using assms(12,13) by simp_all
  from holds_read [OF w(2) assms(9) this(2,1,3)]
  obtain d2 where "load_file_to_buf fuel (fresh (length bytes)) ?name ?lba 0 (length bytes) d1 = Inr (Some (length bytes, bytes), d2)"
    using assms(13) by auto
  then have "dentry_load (fat_fs fuel) fresh junk a 0 0 ?s = Inr (Some bytes, ?s\<lparr>pt_fs := (pt_fs ?s)(f := d2)\<rparr>)"
    using s1 assms(12) by (simp add: dentry_load_def load_new_buf_def fat_fs_def Let_def)
  then show ?thesis using wr s1(6) by blast
qed

theorem entry_write_then_load_witness:
  "\<exists>s1 s2. dentry_write (fat_fs 1) 3 (replicate 1100 3) (snd (new_entry demo_node (Some 0) [0x66] demo_paths)) = Inr (True, s1) \<and>
    i_size (node_of s1 3) = length (replicate 1100 (3 :: u8)) \<and>
    dentry_load (fat_fs 1) (\<lambda>n. replicate n 0) 5 3 0 0 s1 = Inr (Some (replicate 1100 3), s2)"
  by (rule entry_write_then_load [where f = 0 and p = 0 and b = 0 and ds = "[2]" and x = 2 and i = 0 and xs = "[3, 4]"])
    (use demo_file demo_room in \<open>simp_all add: new_entry_eq demo_paths_eq demo_entry_at demo_size\<close>)

end
