(* ===== verification/Network.thy ===== *)
theory Network
  imports LinkedList
begin

unbundle bit_operations_syntax

text \<open>
  The lower layers of the network stack (\<^verbatim>\<open>src/src/kernel/network/\<close>: Endianness, Network, Ethernet, IPV4,
  ARP, ICMP, UDP, TP), and the state that all its layers share.

  Frames are lists of bytes. A header that the code reads or writes through a pointer into a frame
  is a record with one member per member of the structure, holding the value as it lies in memory
  (little endian: a 16-bit number of a protocol is stored through \<^verbatim>\<open>switch16\<close>); \<open>decode_\<dots>\<close> and
  \<open>encode_\<dots>\<close> are the casts between the two. A frame that was received is the receive buffer from its
  first byte on, so that what lies behind the frame in the buffer is part of it, and a read behind
  the buffer is \<open>OutOfBounds\<close>; so is a write behind the end of a frame that was allocated for sending.
  What the network card is asked to send is appended to \<open>sent\<close>. The time stamp counter that the random
  numbers are made of is the parameter \<open>rdtsc\<close>.
\<close>

type_synonym u16 = "16 word"
type_synonym bytes = "u8 list"

section \<open>Byte order\<close>

definition switch32 :: "u32 \<Rightarrow> u32" where
  "switch32 nb = (drop_bit 24 nb AND 0xff) OR (push_bit 8 nb AND 0xff0000) OR (drop_bit 8 nb AND 0xff00) OR (push_bit 24 nb AND 0xff000000)"

definition switch16 :: "u16 \<Rightarrow> u16" where
  "switch16 nb = (drop_bit 8 nb AND 0xff) OR (push_bit 8 nb AND 0xff00)"

section \<open>Numbers in memory\<close>

definition get8 :: "nat \<Rightarrow> bytes \<Rightarrow> u8" where
  "get8 off b = word_of_nat (le_val (take 1 (drop off b)))"

definition get16 :: "nat \<Rightarrow> bytes \<Rightarrow> u16" where
  "get16 off b = word_of_nat (le_val (take 2 (drop off b)))"

definition get32 :: "nat \<Rightarrow> bytes \<Rightarrow> u32" where
  "get32 off b = word_of_nat (le_val (take 4 (drop off b)))"

definition w16 :: "u16 \<Rightarrow> bytes" where
  "w16 v = le_bytes 2 (unat v)"

definition w32 :: "u32 \<Rightarrow> bytes" where
  "w32 v = le_bytes 4 (unat v)"

definition write_at :: "nat \<Rightarrow> bytes \<Rightarrow> bytes \<Rightarrow> bytes res" where
  "write_at off src dst = (if off + length src \<le> length dst then Inr (blit dst off src) else Inl OutOfBounds)"

section \<open>State\<close>

datatype tcp_state = LISTEN | SYN_SENT | SYN_RECEIVED | ESTABLISHED | FIN_WAIT_1 | FIN_WAIT_2 | CLOSE_WAIT | CLOSING | LAST_ACK | TIME_WAIT | CLOSED

text \<open>A socket; \<open>start_packet\<close> is the packet to send once the handshake is over, \<open>None\<close> for a null pointer.\<close>

record socket =
  hostname :: "bytes option"
  port :: u16
  peer_port :: u16
  sock_ip :: bytes
  peer_ip :: bytes
  tcp_st :: tcp_state
  seq_num :: u32
  ack_num :: u32
  listener :: bool
  start_packet :: "bytes option"

record eth_packet_info =
  packet :: bytes
  psize :: u16

text \<open>
  The static members of all classes. \<open>sockets\<close> is the list of all sockets, from its head on, by the numbers under which
  \<open>socks\<close> keeps them; a socket that was deleted is \<open>None\<close> there. \<open>listeners\<close> is the state of the listeners of
  sockets, a parameter.
\<close>

record 'l net =
  nic :: bool
  net_ip :: bytes
  gateway_ip :: bytes
  subnet_mast :: bytes
  mac :: bytes
  gateway_mac :: bytes
  sent :: "bytes list"
  rdtsc :: "nat \<Rightarrow> 64 word"
  tsc_reads :: nat
  arp_pending :: "eth_packet_info option list"
  arp_pending_head :: nat
  arp_cache :: "(bytes \<times> bytes) list"
  arp_cache_head :: nat
  tp_time :: u32
  request_sent :: bool
  server_mac :: bytes
  last_query_id :: u16
  dns_pending :: "(nat \<times> bytes) option list"
  dns_pending_size :: nat
  sockets :: "nat clist"
  socks :: "nat \<Rightarrow> socket option"
  next_sock :: nat
  listeners :: 'l

abbreviation null_ip :: bytes where
  "null_ip \<equiv> [0, 0, 0, 0]"

abbreviation broadcast_ip :: bytes where
  "broadcast_ip \<equiv> [0xff, 0xff, 0xff, 0xff]"

abbreviation null_mac :: bytes where
  "null_mac \<equiv> [0, 0, 0, 0, 0, 0]"

abbreviation broadcast_mac :: bytes where
  "broadcast_mac \<equiv> [0xff, 0xff, 0xff, 0xff, 0xff, 0xff]"

definition net_init :: "(nat \<Rightarrow> 64 word) \<Rightarrow> 'l \<Rightarrow> 'l net" where
  "net_init tsc l = \<lparr>nic = False, net_ip = null_ip, gateway_ip = null_ip, subnet_mast = null_ip, mac = broadcast_mac, gateway_mac = null_mac,
     sent = [], rdtsc = tsc, tsc_reads = 0, arp_pending = replicate 10 None, arp_pending_head = 0,
     arp_cache = replicate 10 (null_ip, null_mac), arp_cache_head = 0, tp_time = 0, request_sent = False, server_mac = null_mac,
     last_query_id = 0, dns_pending = replicate 10 None, dns_pending_size = 0, sockets = list_new, socks = (\<lambda>_. None), next_sock = 0, listeners = l\<rparr>"

section \<open>Network: checksums and random numbers\<close>

fun sum16 :: "bytes \<Rightarrow> u32 \<Rightarrow> u32" where
  "sum16 (a # b # bs) acc = sum16 bs (acc + word_of_nat (le_val [a, b]))"
| "sum16 [a] acc = acc + word_of_nat (le_val [a])"
| "sum16 [] acc = acc"

function fold16 :: "u32 \<Rightarrow> u32" where
  "fold16 acc = (if drop_bit 16 acc \<noteq> 0 then fold16 ((acc AND 0xffff) + drop_bit 16 acc) else acc)"
  by pat_completeness auto

lemma low_high16:
  fixes sum :: u32
  shows "unat (sum AND 0xffff) = unat sum mod 65536" and "unat (drop_bit 16 sum) = unat sum div 65536"
    and "unat ((sum AND 0xffff) + drop_bit 16 sum) = unat sum mod 65536 + unat sum div 65536"
proof -
  have "sum AND 0xffff = take_bit 16 sum" by (simp add: take_bit_eq_mask mask_numeral)
  moreover have "unat (take_bit 16 sum) = take_bit 16 (unat sum)" by (rule unsigned_take_bit_eq)
  moreover have "take_bit 16 (unat sum) = unat sum mod 65536" by (simp add: take_bit_eq_mod)
  ultimately show low: "unat (sum AND 0xffff) = unat sum mod 65536" by simp
  show high: "unat (drop_bit 16 sum) = unat sum div 65536" by (simp only: unat_drop_bit_eq) (simp add: drop_bit_eq_div)
  have "unat sum < 65536 * 65536" using unsigned_less [of sum] by simp
  then have "unat sum div 65536 < 65536" by (rule less_mult_imp_div_less)
  moreover have "unat sum mod 65536 < 65536" by simp
  ultimately have "unat sum mod 65536 + unat sum div 65536 < 2 ^ 32" by simp
  then show "unat ((sum AND 0xffff) + drop_bit 16 sum) = unat sum mod 65536 + unat sum div 65536"
    using low high by (simp add: unat_word_ariths)
qed

termination fold16
proof (relation "measure unat")
  fix sum :: u32
  assume "drop_bit 16 sum \<noteq> 0"
  then have "unat sum div 65536 \<noteq> 0" using low_high16(2) [of sum] by (metis unsigned_0 word_unat_eq_iff)
  then have "unat sum mod 65536 + unat sum div 65536 < unat sum" using mult_div_mod_eq [of 65536 "unat sum"] by linarith
  then show "((sum AND 0xffff) + drop_bit 16 sum, sum) \<in> measure unat"
    by (simp add: low_high16(3))
qed simp

declare fold16.simps [simp del]

definition checksum :: "bytes \<Rightarrow> u16" where
  "checksum b = ucast (NOT (fold16 (sum16 b 0)))"

definition checksum_add :: "u16 \<Rightarrow> u16 \<Rightarrow> u16" where
  "checksum_add c1 c2 = ucast (fold16 (ucast c1 + ucast c2))"

definition generate_random_id32 :: "'l net \<Rightarrow> u32 \<times> 'l net" where
  "generate_random_id32 s = (ucast (rdtsc s (tsc_reads s) AND 0xFFFFFFFF) XOR push_bit 16 (ucast (get8 0 (mac s))), s\<lparr>tsc_reads := Suc (tsc_reads s)\<rparr>)"

definition generate_random_id16 :: "'l net \<Rightarrow> u32 \<times> 'l net" where
  "generate_random_id16 s = (let (rid, s) = generate_random_id32 s in (drop_bit 16 rid + (rid AND 0xFF), s))"

definition random_ephemeral_port :: "'l net \<Rightarrow> u16 \<times> 'l net" where
  "random_ephemeral_port s = (let (rid, s) = generate_random_id32 s in (49152 + ucast (rid mod 16384), s))"

section \<open>Ethernet: frames to send\<close>

definition eth_write_header :: "bytes \<Rightarrow> u16 \<Rightarrow> 'l net \<Rightarrow> bytes" where
  "eth_write_header dest type s = dest @ mac s @ w16 (switch16 type)"

text \<open>The frame is zeroed memory of the size of the header and the payload; the size that goes with it has 16 bits.\<close>

definition eth_create_packet :: "bytes \<Rightarrow> u16 \<Rightarrow> u16 \<Rightarrow> 'l net \<Rightarrow> eth_packet_info" where
  "eth_create_packet dest type payload_size s = \<lparr>packet = eth_write_header dest type s @ replicate (unat payload_size) 0, psize = 14 + payload_size\<rparr>"

definition sendPacket :: "eth_packet_info \<Rightarrow> 'l net \<Rightarrow> 'l net res" where
  "sendPacket p s = (if nic s then Inr (s\<lparr>sent := sent s @ [take (unat (psize p)) (packet p)]\<rparr>) else Inl NullDeref)"

section \<open>IPV4: headers and frames to send\<close>

record ipv4_header =
  version_and_ihl :: u8
  tos :: u8
  ip_len :: u16
  ip_id :: u16
  flags_and_frag_offset :: u16
  ttl :: u8
  proto :: u8
  ip_csum :: u16
  saddr :: u32
  daddr :: u32

definition decode_ipv4 :: "bytes \<Rightarrow> ipv4_header" where
  "decode_ipv4 b = \<lparr>version_and_ihl = get8 0 b, tos = get8 1 b, ip_len = get16 2 b, ip_id = get16 4 b, flags_and_frag_offset = get16 6 b,
     ttl = get8 8 b, proto = get8 9 b, ip_csum = get16 10 b, saddr = get32 12 b, daddr = get32 16 b\<rparr>"

definition encode_ipv4 :: "ipv4_header \<Rightarrow> bytes" where
  "encode_ipv4 h = [version_and_ihl h, tos h] @ w16 (ip_len h) @ w16 (ip_id h) @ w16 (flags_and_frag_offset h) @ [ttl h, proto h] @
     w16 (ip_csum h) @ w32 (saddr h) @ w32 (daddr h)"

definition get_ihl :: "ipv4_header \<Rightarrow> u8" where
  "get_ihl h = version_and_ihl h AND 0xF"

definition get_version :: "ipv4_header \<Rightarrow> u8" where
  "get_version h = drop_bit 4 (version_and_ihl h)"

definition get_flags :: "ipv4_header \<Rightarrow> u8" where
  "get_flags h = ucast (drop_bit 5 (flags_and_frag_offset h) AND 0x7)"

definition get_frag_offset :: "ipv4_header \<Rightarrow> u16" where
  "get_frag_offset h = flags_and_frag_offset h AND 0xFF1F"

definition set_version :: "u8 \<Rightarrow> ipv4_header \<Rightarrow> ipv4_header" where
  "set_version v h = h\<lparr>version_and_ihl := version_and_ihl h OR push_bit 4 (v AND 0xF)\<rparr>"

definition set_ihl :: "u8 \<Rightarrow> ipv4_header \<Rightarrow> ipv4_header" where
  "set_ihl v h = h\<lparr>version_and_ihl := version_and_ihl h OR (v AND 0xF)\<rparr>"

definition set_flags :: "u8 \<Rightarrow> ipv4_header \<Rightarrow> ipv4_header" where
  "set_flags v h = h\<lparr>flags_and_frag_offset := flags_and_frag_offset h OR push_bit 5 (ucast (v AND 0x7))\<rparr>"

definition set_frag_offset_to_zero :: "ipv4_header \<Rightarrow> ipv4_header" where
  "set_frag_offset_to_zero h = h\<lparr>flags_and_frag_offset := flags_and_frag_offset h AND NOT 0xFF1F\<rparr>"

definition header_bytes :: "ipv4_header \<Rightarrow> nat" where
  "header_bytes h = unat (get_ihl h) * 4"

text \<open>\<open>ipv4_write_packet\<close> works on the header that lies in the frame from byte 14 on.\<close>

definition ipv4_fill :: "u8 \<Rightarrow> u16 \<Rightarrow> u16 \<Rightarrow> u8 \<Rightarrow> u8 \<Rightarrow> u8 \<Rightarrow> u32 \<Rightarrow> 'l net \<Rightarrow> ipv4_header \<Rightarrow> ipv4_header" where
  "ipv4_fill t sz ident flags ttl' prot dst s reply =
     (set_frag_offset_to_zero (set_flags flags ((set_ihl 5 (set_version 4 reply))\<lparr>tos := t, ip_len := switch16 sz, ip_id := switch16 ident\<rparr>)))
       \<lparr>ttl := ttl', proto := prot, saddr := get32 0 (net_ip s), daddr := dst\<rparr>"

definition ipv4_write_packet :: "u8 \<Rightarrow> u16 \<Rightarrow> u16 \<Rightarrow> u8 \<Rightarrow> u8 \<Rightarrow> u8 \<Rightarrow> u32 \<Rightarrow> 'l net \<Rightarrow> bytes \<Rightarrow> bytes res" where
  "ipv4_write_packet t sz ident flags ttl' prot dst s frame =
     (let reply = ipv4_fill t sz ident flags ttl' prot dst s (decode_ipv4 (drop 14 frame))
      in bind_res (write_at 14 (encode_ipv4 reply) frame) (\<lambda>frame.
         write_at 14 (encode_ipv4 (reply\<lparr>ip_csum := checksum (take (header_bytes reply) (drop 14 frame))\<rparr>)) frame))"

definition ipv4_create_packet :: "u16 \<Rightarrow> u8 \<Rightarrow> u32 \<Rightarrow> bytes \<Rightarrow> 'l net \<Rightarrow> eth_packet_info res" where
  "ipv4_create_packet payload_size prot dst dst_mac s =
     (let sz = 20 + payload_size; info = eth_create_packet dst_mac 0x0800 sz s
      in bind_res (ipv4_write_packet 0 sz 0 0 64 prot dst s (packet info)) (\<lambda>frame. Inr (info\<lparr>packet := frame\<rparr>)))"

definition address_is_in_subnet :: "bytes \<Rightarrow> 'l net \<Rightarrow> bool" where
  "address_is_in_subnet address s = (map2 (AND) address (subnet_mast s) = map2 (AND) (net_ip s) (subnet_mast s))"

definition ipv4_packet_valid :: "bytes \<Rightarrow> 'l net \<Rightarrow> bool" where
  "ipv4_packet_valid pkt s = (let h = decode_ipv4 pkt in
     get_version h = 4 \<and> get_ihl h = 5 \<and>
     (daddr h = get32 0 (net_ip s) \<or> daddr h = get32 0 broadcast_ip) \<and>
     \<not> (get_frag_offset h \<noteq> 0 \<or> get_flags h AND 4 \<noteq> 0) \<and>
     checksum (take 20 pkt) = 0 \<and> proto h \<in> {1, 17, 6})"

section \<open>ARP\<close>

record arp_packet =
  htype :: u16
  ptype :: u16
  hlen :: u8
  plen :: u8
  opcode :: u16
  srchw :: bytes
  srcpr :: u32
  dsthw :: bytes
  dstpr :: u32

definition decode_arp :: "bytes \<Rightarrow> arp_packet" where
  "decode_arp b = \<lparr>htype = get16 0 b, ptype = get16 2 b, hlen = get8 4 b, plen = get8 5 b, opcode = get16 6 b,
     srchw = take 6 (drop 8 b), srcpr = get32 14 b, dsthw = take 6 (drop 18 b), dstpr = get32 24 b\<rparr>"

definition encode_arp :: "arp_packet \<Rightarrow> bytes" where
  "encode_arp p = w16 (htype p) @ w16 (ptype p) @ [hlen p, plen p] @ w16 (opcode p) @ srchw p @ w32 (srcpr p) @ dsthw p @ w32 (dstpr p)"

definition arp_write_packet :: "u16 \<Rightarrow> u32 \<Rightarrow> bytes \<Rightarrow> 'l net \<Rightarrow> bytes \<Rightarrow> bytes res" where
  "arp_write_packet op dst dst_mac s frame = write_at 14 (encode_arp \<lparr>htype = switch16 1, ptype = switch16 0x800, hlen = 6, plen = 4, opcode = switch16 op,
     srchw = mac s, srcpr = get32 0 (net_ip s), dsthw = dst_mac, dstpr = dst\<rparr>) frame"

definition arp_packet_for :: "u16 \<Rightarrow> u32 \<Rightarrow> bytes \<Rightarrow> bytes \<Rightarrow> 'l net \<Rightarrow> eth_packet_info res" where
  "arp_packet_for op dst dst_mac eth_dst s = (let info = eth_create_packet eth_dst 0x0806 28 s
     in bind_res (arp_write_packet op dst dst_mac s (packet info)) (\<lambda>frame. Inr (info\<lparr>packet := frame\<rparr>)))"

text \<open>
  An ARP request goes to the broadcast address, for which \<^verbatim>\<open>Network::send_packet\<close> hands the frame to the card; that
  \<open>resolve_mac\<close> is the code's call of \<open>send_packet\<close> is lemma \<open>resolve_mac_sends\<close> below.
\<close>

definition resolve_mac :: "bytes \<Rightarrow> 'l net \<Rightarrow> 'l net res" where
  "resolve_mac addr s = bind_res (arp_packet_for 1 (get32 0 addr) broadcast_mac broadcast_mac s) (\<lambda>info. sendPacket info s)"

definition dest_of :: "eth_packet_info \<Rightarrow> bytes" where
  "dest_of p = take 6 (packet p)"

definition daddr_of :: "eth_packet_info \<Rightarrow> bytes" where
  "daddr_of p = take 4 (drop 30 (packet p))"

definition resolve_and_send :: "eth_packet_info \<Rightarrow> 'l net \<Rightarrow> 'l net res" where
  "resolve_and_send p s = resolve_mac (daddr_of p)
     (s\<lparr>arp_pending := (arp_pending s)[arp_pending_head s := Some p], arp_pending_head := (arp_pending_head s + 1) mod 10\<rparr>)"

definition send_packet :: "eth_packet_info \<Rightarrow> 'l net \<Rightarrow> 'l net res" where
  "send_packet p s =
    (if dest_of p = null_mac
     then if address_is_in_subnet (daddr_of p) s then resolve_and_send p s
          else sendPacket (p\<lparr>packet := blit (packet p) 0 (gateway_mac s)\<rparr>) s
     else sendPacket p s)"

definition resolve_gateway_mac :: "'l net \<Rightarrow> 'l net res" where
  "resolve_gateway_mac s = resolve_mac (gateway_ip s) s"

text \<open>The second comparison of the code is with the same address, over the length of the broadcast address.\<close>

definition arp_is_valid :: "arp_packet \<Rightarrow> 'l net \<Rightarrow> bool" where
  "arp_is_valid p s = (w32 (dstpr p) = net_ip s \<or> w32 (dstpr p) = take 4 (net_ip s))"

fun scan_cache :: "nat \<Rightarrow> nat \<Rightarrow> bytes \<Rightarrow> 'l net \<Rightarrow> bytes" where
  "scan_cache 0 i addr s = null_mac"
| "scan_cache (Suc n) i addr s = (let e = arp_cache s ! ((arp_cache_head s + i) mod 10) in
     if fst e = addr then snd e else scan_cache n (Suc i) addr s)"

definition get_mac :: "bytes \<Rightarrow> 'l net \<Rightarrow> bytes" where
  "get_mac addr s = scan_cache 10 0 addr s"

section \<open>UDP and TP: sending\<close>

record udp_header =
  udp_src_port :: u16
  udp_dst_port :: u16
  udp_length :: u16
  udp_checksum :: u16

definition decode_udp :: "bytes \<Rightarrow> udp_header" where
  "decode_udp b = \<lparr>udp_src_port = get16 0 b, udp_dst_port = get16 2 b, udp_length = get16 4 b, udp_checksum = get16 6 b\<rparr>"

definition encode_udp :: "udp_header \<Rightarrow> bytes" where
  "encode_udp h = w16 (udp_src_port h) @ w16 (udp_dst_port h) @ w16 (udp_length h) @ w16 (udp_checksum h)"

text \<open>The size is computed with 32 bits and cut to 16 where it becomes an argument and where it is stored.\<close>

definition udp_write_header :: "u16 \<Rightarrow> u16 \<Rightarrow> u16 \<Rightarrow> bytes \<Rightarrow> bytes res" where
  "udp_write_header src dst payload_size frame =
     write_at 34 (encode_udp \<lparr>udp_src_port = switch16 src, udp_dst_port = switch16 dst, udp_length = switch16 (8 + payload_size), udp_checksum = 0\<rparr>) frame"

definition udp_create_packet :: "u16 \<Rightarrow> u16 \<Rightarrow> u16 \<Rightarrow> u32 \<Rightarrow> bytes \<Rightarrow> 'l net \<Rightarrow> eth_packet_info res" where
  "udp_create_packet src dst payload_size addr dst_mac s =
     bind_res (ipv4_create_packet (8 + payload_size) 17 addr dst_mac s) (\<lambda>info.
     bind_res (udp_write_header src dst payload_size (packet info)) (\<lambda>frame. Inr (info\<lparr>packet := frame\<rparr>)))"

abbreviation tp_server_ip :: bytes where
  "tp_server_ip \<equiv> [132, 163, 97, 6]"

definition tp_send_request :: "'l net \<Rightarrow> 'l net res" where
  "tp_send_request s = (let (src, s) = random_ephemeral_port s in
     bind_res (udp_create_packet src 37 0 (get32 0 tp_server_ip) (gateway_mac s) s) (\<lambda>info.
     send_packet info (s\<lparr>request_sent := True\<rparr>)))"

section \<open>Addresses received\<close>

definition on_ip_received :: "bytes \<Rightarrow> bytes \<Rightarrow> 'l net \<Rightarrow> 'l net res" where
  "on_ip_received addr gw s = resolve_gateway_mac (s\<lparr>net_ip := addr, gateway_ip := gw\<rparr>)"

definition on_gateway_mac_received :: "bytes \<Rightarrow> 'l net \<Rightarrow> 'l net res" where
  "on_gateway_mac_received m s = tp_send_request (s\<lparr>gateway_mac := m\<rparr>)"

definition flush_entry :: "arp_packet \<Rightarrow> nat \<Rightarrow> 'l net \<Rightarrow> 'l net res" where
  "flush_entry p i s = (case arp_pending s ! i of
     None \<Rightarrow> Inr s
   | Some info \<Rightarrow>
       if daddr_of info \<noteq> w32 (srcpr p) then Inr s
       else (let info = info\<lparr>packet := blit (packet info) 0 (srchw p)\<rparr> in
         bind_res (send_packet info (s\<lparr>arp_pending := (arp_pending s)[i := Some info]\<rparr>)) (\<lambda>s.
         Inr (s\<lparr>arp_pending := replicate 10 None\<rparr>))))"

definition arp_learn :: "arp_packet \<Rightarrow> 'l net \<Rightarrow> 'l net" where
  "arp_learn p s = s\<lparr>arp_cache := (arp_cache s)[arp_cache_head s := (w32 (srcpr p), srchw p)], arp_cache_head := (arp_cache_head s + 1) mod 10\<rparr>"

definition arp_handle_packet :: "bytes \<Rightarrow> bytes \<Rightarrow> 'l net \<Rightarrow> 'l net res" where
  "arp_handle_packet pkt eth_src s = (let p = decode_arp pkt in
     if \<not> arp_is_valid p s then Inr s
     else if switch16 (opcode p) = 1
     then bind_res (arp_packet_for 2 (srcpr p) (srchw p) eth_src s) (\<lambda>info. send_packet info s)
     else bind_res (let s = arp_learn p s in if w32 (srcpr p) = gateway_ip s then on_gateway_mac_received (srchw p) s else Inr s)
       (for_n (flush_entry p) 0 10))"

section \<open>ICMP\<close>

definition icmp_packet_valid :: "bytes \<Rightarrow> u16 \<Rightarrow> bool res" where
  "icmp_packet_valid pkt sz =
    (if sz < 4 then Inr False
     else if get8 0 pkt AND 8 = 0 then Inr False
     else if get8 1 pkt \<noteq> 0 then Inr False
     else if length pkt < unat sz then Inl OutOfBounds
     else Inr (checksum (take (unat sz) pkt) = 0))"

text \<open>The reply is written into zeroed memory: type, code and payload, then the checksum over all of it.\<close>

definition write_ping_reply :: "bytes \<Rightarrow> u16 \<Rightarrow> bytes \<Rightarrow> bytes res" where
  "write_ping_reply pkt sz frame =
     bind_res (write_at 34 [0, 0] frame) (\<lambda>frame.
     if length pkt < unat sz then Inl OutOfBounds
     else bind_res (write_at 38 (drop 4 (take (unat sz) pkt)) frame) (\<lambda>frame.
     write_at 36 (w16 (checksum (take (unat sz) (drop 34 frame)))) frame))"

definition icmp_handle_packet :: "bytes \<Rightarrow> u16 \<Rightarrow> u32 \<Rightarrow> bytes \<Rightarrow> 'l net \<Rightarrow> 'l net res" where
  "icmp_handle_packet pkt sz src eth_src s = bind_res (icmp_packet_valid pkt sz) (\<lambda>valid.
     if \<not> valid then Inr s
     else bind_res (ipv4_create_packet sz 1 src eth_src s) (\<lambda>info.
       bind_res (write_ping_reply pkt sz (packet info)) (\<lambda>frame. send_packet (info\<lparr>packet := frame\<rparr>) s)))"

section \<open>TP: the time of day\<close>

definition is_leap_year :: "nat \<Rightarrow> bool" where
  "is_leap_year year = (year mod 4 = 0 \<and> (year mod 100 \<noteq> 0 \<or> year mod 400 = 0))"

abbreviation days_in_month :: "nat list" where
  "days_in_month \<equiv> [31, 28, 31, 30, 31, 30, 31, 31, 30, 31, 30, 31]"

definition year_days :: "nat \<Rightarrow> nat" where
  "year_days year = (if is_leap_year year then 366 else 365)"

function years_loop :: "nat \<Rightarrow> nat \<Rightarrow> nat \<times> nat" where
  "years_loop days year = (if year_days year \<le> days then years_loop (days - year_days year) (Suc year) else (days, year))"
  by pat_completeness auto
termination by (relation "measure fst") (auto simp: year_days_def split: if_splits)

definition month_days :: "nat \<Rightarrow> nat \<Rightarrow> nat" where
  "month_days year month = days_in_month ! month + (if month = 1 \<and> is_leap_year year then 1 else 0)"

function months_loop :: "nat \<Rightarrow> nat \<Rightarrow> nat \<Rightarrow> (nat \<times> nat) res" where
  "months_loop year days month =
    (if 12 \<le> month then Inl OutOfBounds
     else if month_days year month \<le> days then months_loop year (days - month_days year month) (Suc month)
     else Inr (days, month))"
  by pat_completeness auto
termination by (relation "measure (\<lambda>(year, days, month). 12 - month)") auto

declare years_loop.simps [simp del] months_loop.simps [simp del]

text \<open>The date and time that is printed: year, month, day, hours, minutes, seconds.\<close>

definition convert_to_local_time :: "nat \<Rightarrow> (nat \<times> nat \<times> nat \<times> nat \<times> nat \<times> nat) res" where
  "convert_to_local_time unix_timestamp =
    (let timestamp = sub32 unix_timestamp 2208988800;
         (days, year) = years_loop (timestamp div 86400) 1970
     in bind_res (months_loop year days 0) (\<lambda>(days, month).
          Inr (year, month + 1, days + 1, (timestamp div 3600) mod 24, (timestamp div 60) mod 60, timestamp mod 60)))"

definition tp_handle_packet :: "bytes \<Rightarrow> 'l net \<Rightarrow> (bool \<times> 'l net) res" where
  "tp_handle_packet pkt s =
    (if switch16 (udp_length (decode_udp pkt)) \<noteq> 12 then Inr (False, s)
     else if \<not> request_sent s then Inr (False, s)
     else let time_value = switch32 (get32 8 pkt) in
       bind_res (convert_to_local_time (unat time_value)) (\<lambda>_. Inr (True, s\<lparr>tp_time := time_value, request_sent := False\<rparr>)))"

end
