(* ===== verification/Transport.thy ===== *)
theory Transport
  imports Network "HOL-Library.While_Combinator"
begin

unbundle bit_operations_syntax

text \<open>
  The upper layers of the network stack (\<^verbatim>\<open>src/src/kernel/network/\<close>: DHCP, DNS, TCP, Socket, TCPListener), and the
  dispatch of a received frame through all layers (UDP, IPV4, Ethernet).

  The abstract class \<^verbatim>\<open>TCP_listener\<close> is the record of its two virtual functions, which every operation that may
  call them takes as its first argument. Data is handed over as the code does, by where it starts in the receive buffer and its
  size. The numbers in the messages of a connection that has failed are left out.
\<close>

section \<open>DHCP\<close>

definition dhcp_fixed :: "u8 \<Rightarrow> u32 \<Rightarrow> u16 \<Rightarrow> u32 \<Rightarrow> u32 \<Rightarrow> u32 \<Rightarrow> u32 \<Rightarrow> 'l net \<Rightarrow> bytes" where
  "dhcp_fixed op xid flags ciaddr yiaddr siaddr giaddr s =
     [op, 1, 6, 0] @ w32 xid @ w16 0 @ w16 flags @ w32 ciaddr @ w32 yiaddr @ w32 siaddr @ w32 giaddr @ mac s"

text \<open>The copy of \<open>n\<close> options, from offset \<open>len\<close> of the buffer on; the frame has the options from byte 282 on.\<close>

primrec copy_options :: "nat \<Rightarrow> bytes \<Rightarrow> nat \<Rightarrow> bytes \<Rightarrow> (nat \<times> bytes) res" where
  "copy_options 0 opts len frame = Inr (len, frame)"
| "copy_options (Suc n) opts len frame = (let opt_len = unat (get8 (len + 1) opts) + 2 in
     bind_res (write_at (282 + len) (take opt_len (drop len opts)) frame) (copy_options n opts (len + opt_len)))"

definition dhcp_write_header :: "u8 \<Rightarrow> u32 \<Rightarrow> u16 \<Rightarrow> u32 \<Rightarrow> u32 \<Rightarrow> u32 \<Rightarrow> u32 \<Rightarrow> bytes \<Rightarrow> nat \<Rightarrow> 'l net \<Rightarrow> bytes \<Rightarrow> bytes res" where
  "dhcp_write_header op xid flags ciaddr yiaddr siaddr giaddr opts num s frame =
     bind_res (write_at 42 (dhcp_fixed op xid flags ciaddr yiaddr siaddr giaddr s) frame) (\<lambda>frame.
     bind_res (write_at 278 (w32 (switch32 0x63825363)) frame) (\<lambda>frame.
     bind_res (copy_options num opts 0 frame) (\<lambda>(len, frame). write_at (282 + len) [255] frame)))"

definition dhcp_send :: "u32 \<Rightarrow> u32 \<Rightarrow> bytes \<Rightarrow> nat \<Rightarrow> 'l net \<Rightarrow> 'l net res" where
  "dhcp_send xid siaddr opts num s =
     bind_res (udp_create_packet 68 67 256 (get32 0 broadcast_ip) broadcast_mac s) (\<lambda>info.
     bind_res (dhcp_write_header 1 xid 0x80 0 0 siaddr 0 opts num s (packet info)) (\<lambda>frame.
     send_packet (info\<lparr>packet := frame\<rparr>) s))"

definition send_discover :: "'l net \<Rightarrow> 'l net res" where
  "send_discover s = (let (xid, s) = generate_random_id32 s in dhcp_send xid 0 [53, 1, 1, 55, 4, 1, 3, 15, 6] 2 s)"

definition dhcp_send_request :: "bytes \<Rightarrow> 'l net \<Rightarrow> 'l net res" where
  "dhcp_send_request offer s =
     dhcp_send (get32 4 offer) (get32 20 offer) ([53, 1, 3, 50, 4] @ w32 (get32 16 offer) @ [54, 4] @ w32 (get32 20 offer)) 3 s"

text \<open>
  The two searches for the message type are the same loop. \<open>limit\<close> is the length in the UDP header, which is compared without
  exchanging its bytes; \<open>p\<close> is the payload.
\<close>

function dhcp_msg_type :: "bytes \<Rightarrow> nat \<Rightarrow> nat \<Rightarrow> u8 option res" where
  "dhcp_msg_type p limit off =
    (if limit < off + 2 then Inr None
     else if length p < off + (if get8 off p = 53 then 3 else 2) then Inl OutOfBounds
     else if get8 off p = 53 then Inr (Some (get8 (off + 2) p))
     else dhcp_msg_type p limit (off + unat (get8 (off + 1) p) + 2))"
  by pat_completeness auto
termination by (relation "measure (\<lambda>(p, limit, off). limit - off)") auto

declare dhcp_msg_type.simps [simp del]

definition is_dhcp_offer :: "bytes \<Rightarrow> bool res" where
  "is_dhcp_offer pkt = bind_res (dhcp_msg_type (drop 8 pkt) (unat (udp_length (decode_udp pkt))) 240) (\<lambda>t. Inr (t = Some 2))"

definition is_dhcp_ack :: "bytes \<Rightarrow> bool res" where
  "is_dhcp_ack pkt = bind_res (dhcp_msg_type (drop 8 pkt) (unat (udp_length (decode_udp pkt))) 240) (\<lambda>t. Inr (t = Some 5))"

definition dhcp_packet_valid :: "bytes \<Rightarrow> nat res" where
  "dhcp_packet_valid pkt = (let h = decode_udp pkt; p = drop 8 pkt in
     if switch16 (udp_src_port h) \<noteq> 67 \<or> switch16 (udp_dst_port h) \<noteq> 68 then Inr 0
     else if unat (udp_length h) < 240 then Inr 0
     else if get8 0 p \<noteq> 2 then Inr 0
     else if get32 236 p \<noteq> switch32 0x63825363 then Inr 0
     else bind_res (is_dhcp_offer pkt) (\<lambda>offer. if offer then Inr 2
       else bind_res (is_dhcp_ack pkt) (\<lambda>ack. Inr (if ack then 5 else 0))))"

definition handle_offer :: "bytes \<Rightarrow> 'l net \<Rightarrow> 'l net res" where
  "handle_offer p s = dhcp_send_request p (s\<lparr>server_mac := take 6 (drop 28 p)\<rparr>)"

function ack_options :: "bytes \<Rightarrow> nat \<Rightarrow> bytes option \<Rightarrow> 'l net \<Rightarrow> (bytes option \<times> 'l net) res" where
  "ack_options p off gw s =
    (if length p \<le> off then Inl OutOfBounds
     else if get8 off p = 255 then Inr (gw, s)
     else if length p < off + (if get8 off p \<in> {1, 3} then 6 else 2) then Inl OutOfBounds
     else ack_options p (off + unat (get8 (off + 1) p) + 2)
       (if get8 off p = 3 then Some (take 4 (drop (off + 2) p)) else gw)
       (if get8 off p = 1 then s\<lparr>subnet_mast := take 4 (drop (off + 2) p)\<rparr> else s))"
  by pat_completeness auto
termination by (relation "measure (\<lambda>(p, off, gw, s). length p - off)") auto

declare ack_options.simps [simp del]

definition handle_ack :: "bytes \<Rightarrow> 'l net \<Rightarrow> 'l net res" where
  "handle_ack p s = bind_res (ack_options p 240 None s) (\<lambda>(gw, s). case gw of
     None \<Rightarrow> Inl NullDeref
   | Some g \<Rightarrow> on_ip_received (take 4 (drop 16 p)) g s)"

definition dhcp_handle_packet :: "bytes \<Rightarrow> 'l net \<Rightarrow> (bool \<times> 'l net) res" where
  "dhcp_handle_packet pkt s = bind_res (dhcp_packet_valid pkt) (\<lambda>t.
     if t = 2 then bind_res (handle_offer (drop 8 pkt) s) (\<lambda>s. Inr (True, s))
     else if t = 5 then bind_res (handle_ack (drop 8 pkt) s) (\<lambda>s. Inr (True, s))
     else Inr (False, s))"

definition net_run :: "bool \<Rightarrow> bytes \<Rightarrow> 'l net \<Rightarrow> 'l net res" where
  "net_run found card_mac s = (if \<not> found then Inr s else send_discover (s\<lparr>nic := True, mac := card_mac\<rparr>))"

section \<open>DNS: requests\<close>

text \<open>\<open>name\<close> is the C string without its terminator; \<open>len\<close> counts the characters since the last dot.\<close>

definition encoded_label :: "bytes \<Rightarrow> nat \<Rightarrow> u8 \<Rightarrow> bytes" where
  "encoded_label name i len = len # take (unat len) (drop (i - unat len) name)"

function write_name_loop :: "bytes \<Rightarrow> nat \<Rightarrow> u8 \<Rightarrow> bytes" where
  "write_name_loop name i len =
    (if i < length name
     then if name ! i = 0x2E then encoded_label name i len @ write_name_loop name (Suc i) 0
          else write_name_loop name (Suc i) (len + 1)
     else encoded_label name i len @ [0])"
  by pat_completeness auto
termination by (relation "measure (\<lambda>(name, i, len). length name - i)") auto

declare write_name_loop.simps [simp del]

definition write_encoded_name :: "bytes \<Rightarrow> bytes" where
  "write_encoded_name name = write_name_loop name 0 0"

definition get_question_size :: "bytes \<Rightarrow> nat" where
  "get_question_size name = 12 + (length name + 2) + 4"

definition dns_write_header :: "bytes \<Rightarrow> bytes \<Rightarrow> 'l net \<Rightarrow> (bytes \<times> 'l net) res" where
  "dns_write_header name frame s = (let (rid, s) = generate_random_id16 s; qid = ucast rid in
     bind_res (write_at 42 (w16 qid @ w16 (switch16 0x100) @ w16 (switch16 1)) frame) (\<lambda>frame.
     bind_res (write_at 54 (write_encoded_name name @ w16 (switch16 1) @ w16 (switch16 1)) frame) (\<lambda>frame.
     Inr (frame, s\<lparr>last_query_id := qid\<rparr>))))"

fun dns_free_idx :: "(nat \<times> bytes) option list \<Rightarrow> nat res" where
  "dns_free_idx [] = Inl OutOfBounds"
| "dns_free_idx (None # q) = Inr 0"
| "dns_free_idx (Some _ # q) = bind_res (dns_free_idx q) (\<lambda>i. Inr (Suc i))"

abbreviation google_dns_ip :: bytes where
  "google_dns_ip \<equiv> [8, 8, 8, 8]"

definition resolve_hostname :: "bytes option \<Rightarrow> nat \<Rightarrow> 'l net \<Rightarrow> 'l net res" where
  "resolve_hostname host sid s =
    (if dns_pending_size s = 10 then Inr s
     else case host of None \<Rightarrow> Inl NullDeref
     | Some name \<Rightarrow>
         bind_res (dns_free_idx (dns_pending s)) (\<lambda>i.
         let s = s\<lparr>dns_pending := (dns_pending s)[i := Some (sid, name)], dns_pending_size := Suc (dns_pending_size s)\<rparr> in
         bind_res (udp_create_packet 53 53 (word_of_nat (get_question_size name)) (get32 0 google_dns_ip) (get_mac google_dns_ip s) s) (\<lambda>info.
         bind_res (dns_write_header name (packet info) s) (\<lambda>(frame, s).
         send_packet (info\<lparr>packet := frame\<rparr>) s))))"

section \<open>TCP: headers\<close>

record tcp_header =
  tcp_src_port :: u16
  tcp_dest_port :: u16
  tcp_seq :: u32
  tcp_ack :: u32
  header_len :: u8
  tcp_flags :: u8
  window_size :: u16
  tcp_checksum :: u16
  urgent_pointer :: u16

definition decode_tcp :: "bytes \<Rightarrow> tcp_header" where
  "decode_tcp b = \<lparr>tcp_src_port = get16 0 b, tcp_dest_port = get16 2 b, tcp_seq = get32 4 b, tcp_ack = get32 8 b, header_len = get8 12 b,
     tcp_flags = get8 13 b, window_size = get16 14 b, tcp_checksum = get16 16 b, urgent_pointer = get16 18 b\<rparr>"

definition encode_tcp :: "tcp_header \<Rightarrow> bytes" where
  "encode_tcp h = w16 (tcp_src_port h) @ w16 (tcp_dest_port h) @ w32 (tcp_seq h) @ w32 (tcp_ack h) @ [header_len h, tcp_flags h] @
     w16 (window_size h) @ w16 (tcp_checksum h) @ w16 (urgent_pointer h)"

abbreviation (input) FIN :: u8 where "FIN \<equiv> 0x01"
abbreviation (input) SYN :: u8 where "SYN \<equiv> 0x02"
abbreviation (input) RST :: u8 where "RST \<equiv> 0x04"
abbreviation (input) PSH :: u8 where "PSH \<equiv> 0x08"
abbreviation (input) ACK :: u8 where "ACK \<equiv> 0x10"

definition tcp_header_size :: "u8 \<Rightarrow> nat" where
  "tcp_header_size len = unat (drop_bit 4 len) * 4"

definition pseudo_header :: "tcp_header \<Rightarrow> u32 \<Rightarrow> u16 \<Rightarrow> 'l net \<Rightarrow> bytes" where
  "pseudo_header h dst payload_size s = w32 (get32 0 (net_ip s)) @ w32 dst @ [0, 6] @
     w16 (switch16 (word_of_nat (tcp_header_size (header_len h)) + payload_size))"

definition compute_checksum :: "tcp_header \<Rightarrow> u32 \<Rightarrow> u16 \<Rightarrow> bytes \<Rightarrow> 'l net \<Rightarrow> u16 res" where
  "compute_checksum h dst payload_size frame s =
    (let total = unat (word_of_nat (tcp_header_size (header_len h)) + payload_size) in
     if length frame < 34 + total then Inl OutOfBounds
     else Inr (checksum_add (checksum (pseudo_header h dst payload_size s)) (checksum (take total (drop 34 frame)))))"

text \<open>The header lies in the frame from byte 34 on; the checksum and the urgent pointer keep what is there.\<close>

definition tcp_write_header :: "socket \<Rightarrow> u8 \<Rightarrow> u16 \<Rightarrow> 'l net \<Rightarrow> bytes \<Rightarrow> bytes res" where
  "tcp_write_header k flags data_size s frame =
    (let h = (decode_tcp (drop 34 frame))\<lparr>tcp_src_port := switch16 (port k), tcp_dest_port := switch16 (peer_port k), tcp_seq := switch32 (seq_num k),
               tcp_ack := switch32 (ack_num k), header_len := push_bit 4 5, tcp_flags := flags, window_size := switch16 0xFFFF\<rparr> in
     bind_res (write_at 34 (encode_tcp h) frame) (\<lambda>frame.
     bind_res (compute_checksum h (get32 0 (peer_ip k)) data_size frame s) (\<lambda>c.
     write_at 34 (encode_tcp (h\<lparr>tcp_checksum := c\<rparr>)) frame)))"

definition write_sync_header :: "socket \<Rightarrow> 'l net \<Rightarrow> bytes \<Rightarrow> bytes res" where
  "write_sync_header k s frame = tcp_write_header k SYN 0 s frame"

definition write_ack_header :: "socket \<Rightarrow> bool \<Rightarrow> 'l net \<Rightarrow> bytes \<Rightarrow> bytes res" where
  "write_ack_header k fin s frame = tcp_write_header k (if fin then ACK OR FIN else ACK) 0 s frame"

definition write_reset_header :: "socket \<Rightarrow> 'l net \<Rightarrow> bytes \<Rightarrow> bytes res" where
  "write_reset_header k s frame = tcp_write_header k RST 0 s frame"

definition write_fin_ack_header :: "socket \<Rightarrow> 'l net \<Rightarrow> bytes \<Rightarrow> bytes res" where
  "write_fin_ack_header k s frame = tcp_write_header k (FIN OR ACK) 0 s frame"

definition write_push_ack_header :: "socket \<Rightarrow> u16 \<Rightarrow> 'l net \<Rightarrow> bytes \<Rightarrow> bytes res" where
  "write_push_ack_header k data_size s frame = tcp_write_header k (PSH OR ACK) data_size s frame"

text \<open>A frame to the peer of a socket, with room for the TCP header and \<open>data_size\<close> bytes.\<close>

definition tcp_frame_to_peer :: "socket \<Rightarrow> u16 \<Rightarrow> 'l net \<Rightarrow> eth_packet_info res" where
  "tcp_frame_to_peer k data_size s = ipv4_create_packet (20 + data_size) 6 (get32 0 (peer_ip k)) (get_mac (peer_ip k) s) s"

definition finish_send :: "eth_packet_info \<Rightarrow> bytes res \<Rightarrow> 'l net \<Rightarrow> 'l net res" where
  "finish_send info written s = bind_res written (\<lambda>frame. send_packet (info\<lparr>packet := frame\<rparr>) s)"

definition get_sock :: "nat \<Rightarrow> 'l net \<Rightarrow> socket res" where
  "get_sock sid s = (case socks s sid of None \<Rightarrow> Inl UseAfterFree | Some k \<Rightarrow> Inr k)"

definition put_sock :: "nat \<Rightarrow> socket \<Rightarrow> 'l net \<Rightarrow> 'l net" where
  "put_sock sid k s = s\<lparr>socks := (socks s)(sid := Some k)\<rparr>"

definition send_fin_ack :: "nat \<Rightarrow> 'l net \<Rightarrow> 'l net res" where
  "send_fin_ack sid s = bind_res (get_sock sid s) (\<lambda>k.
     bind_res (tcp_frame_to_peer k 0 s) (\<lambda>info.
     bind_res (write_fin_ack_header k s (packet info)) (\<lambda>frame.
     send_packet (info\<lparr>packet := frame\<rparr>) (put_sock sid (k\<lparr>seq_num := seq_num k + 1, tcp_st := FIN_WAIT_1\<rparr>) s))))"

definition send_sync :: "nat \<Rightarrow> 'l net \<Rightarrow> 'l net res" where
  "send_sync sid s = bind_res (get_sock sid s) (\<lambda>k.
     bind_res (tcp_frame_to_peer k 0 s) (\<lambda>info. finish_send info (write_sync_header k s (packet info)) s))"

definition tcp_send_data :: "bytes \<Rightarrow> nat \<Rightarrow> 'l net \<Rightarrow> 'l net res" where
  "tcp_send_data data sid s = (let n = word_of_nat (length data) in
     bind_res (get_sock sid s) (\<lambda>k.
     bind_res (tcp_frame_to_peer k n s) (\<lambda>info.
     bind_res (write_at 54 data (packet info)) (\<lambda>frame.
     finish_send info (write_push_ack_header k n s frame) s))))"

section \<open>Sockets\<close>

record 'l tcp_listener =
  on_data_received :: "nat \<Rightarrow> bytes \<Rightarrow> u16 \<Rightarrow> 'l net \<Rightarrow> 'l net res"
  on_connection_terminated :: "nat \<Rightarrow> string option \<Rightarrow> 'l net \<Rightarrow> 'l net res"

definition port_used :: "u16 \<Rightarrow> 'l net \<Rightarrow> nat option" where
  "port_used p s = find (\<lambda>sid. case socks s sid of None \<Rightarrow> False | Some k \<Rightarrow> port k = p) (l_head (sockets s))"

text \<open>The loop that looks for a free port reads the time stamp counter until it gives one; \<open>Diverges\<close> when it never does.\<close>

definition pick_port :: "u16 \<Rightarrow> 'l net \<Rightarrow> (u16 \<times> 'l net) option" where
  "pick_port p s = while_option (\<lambda>(p, s). port_used p s \<noteq> None) (\<lambda>(p, s). random_ephemeral_port s) (p, s)"

definition new_socket :: "bytes \<Rightarrow> u16 \<Rightarrow> 'l net \<Rightarrow> (nat \<times> 'l net) res" where
  "new_socket addr pport s =
    (let (p, s) = random_ephemeral_port s; (seq, s) = generate_random_id32 s in
     case pick_port p s of None \<Rightarrow> Inl Diverges
     | Some (p, s) \<Rightarrow>
       let sid = next_sock s;
           k = \<lparr>hostname = None, port = p, peer_port = pport, sock_ip = net_ip s, peer_ip = addr, tcp_st = CLOSED, seq_num = seq, ack_num = 0,
                listener = False, start_packet = None\<rparr>
       in Inr (sid, s\<lparr>sockets := list_add sid (sockets s), socks := (socks s)(sid := Some k), next_sock := Suc sid\<rparr>))"

abbreviation host_name :: bytes where
  "host_name \<equiv> [0x68, 0x6F, 0x73, 0x74]"

definition new_socket_host :: "bytes \<Rightarrow> u16 \<Rightarrow> 'l net \<Rightarrow> (nat \<times> 'l net) res" where
  "new_socket_host name pport s =
     bind_res (new_socket (if name \<noteq> host_name then null_ip else gateway_ip s) pport s) (\<lambda>(sid, s).
     if name = host_name then Inr (sid, s)
     else bind_res (get_sock sid s) (\<lambda>k. Inr (sid, put_sock sid (k\<lparr>hostname := Some name\<rparr>) s)))"

definition delete_socket :: "nat \<Rightarrow> 'l net \<Rightarrow> 'l net res" where
  "delete_socket sid s = bind_res (get_sock sid s) (\<lambda>k.
     Inr (s\<lparr>sockets := snd (list_remove sid (sockets s)), socks := (socks s)(sid := None)\<rparr>))"

definition initialize :: "nat \<Rightarrow> 'l net \<Rightarrow> 'l net res" where
  "initialize sid s = bind_res (get_sock sid s) (\<lambda>k. send_sync sid (put_sock sid (k\<lparr>tcp_st := SYN_SENT\<rparr>) s))"

definition send_data :: "bytes \<Rightarrow> nat \<Rightarrow> 'l net \<Rightarrow> 'l net res" where
  "send_data data sid s = bind_res (get_sock sid s) (\<lambda>k.
     if tcp_st k = CLOSED
     then let s = put_sock sid (k\<lparr>start_packet := Some data\<rparr>) s in
       if peer_ip k = null_ip then resolve_hostname (hostname k) sid s else initialize sid s
     else bind_res (tcp_send_data data sid s) (\<lambda>s.
       bind_res (get_sock sid s) (\<lambda>k. Inr (put_sock sid (k\<lparr>seq_num := seq_num k + word_of_nat (length data)\<rparr>) s))))"

definition send_start_packet :: "nat \<Rightarrow> 'l net \<Rightarrow> 'l net res" where
  "send_start_packet sid s = bind_res (get_sock sid s) (\<lambda>k. send_data (case start_packet k of None \<Rightarrow> [] | Some d \<Rightarrow> d) sid s)"

definition on_hostname_resolved :: "bytes option \<Rightarrow> nat \<Rightarrow> 'l net \<Rightarrow> 'l net res" where
  "on_hostname_resolved addr sid s = bind_res (get_sock sid s) (\<lambda>k. case addr of
     None \<Rightarrow> Inl NullDeref
   | Some a \<Rightarrow> send_start_packet sid (put_sock sid (k\<lparr>peer_ip := a\<rparr>) s))"

text \<open>\<open>term\<close> is the virtual function \<open>on_connection_terminated\<close> of the listener.\<close>

definition sock_close :: "(nat \<Rightarrow> string option \<Rightarrow> 'l net \<Rightarrow> 'l net res) \<Rightarrow> string option \<Rightarrow> nat \<Rightarrow> 'l net \<Rightarrow> 'l net res" where
  "sock_close term msg sid s = bind_res (get_sock sid s) (\<lambda>k.
     let s = put_sock sid (k\<lparr>tcp_st := CLOSED\<rparr>) s in
     if listener k then term sid msg s else Inr s)"

text \<open>A segment is its bytes up to the end of the receive buffer and the size that follows from the IP header, which may wrap around.\<close>

definition seg_payload_size :: "bytes \<Rightarrow> u32 \<Rightarrow> u32" where
  "seg_payload_size pkt sz = sz - word_of_nat (tcp_header_size (header_len (decode_tcp pkt)))"

definition acknowledge :: "bytes \<Rightarrow> u32 \<Rightarrow> bool \<Rightarrow> nat \<Rightarrow> bytes \<Rightarrow> 'l net \<Rightarrow> (bytes \<times> 'l net) res" where
  "acknowledge pkt sz fin sid frame s = bind_res (get_sock sid s) (\<lambda>k.
     let h = decode_tcp pkt;
         a = switch32 (tcp_seq h) + seg_payload_size pkt sz;
         a = (if tcp_flags h AND (SYN OR FIN) \<noteq> 0 then a + 1 else a);
         k = k\<lparr>ack_num := a\<rparr>
     in bind_res (write_ack_header k fin s frame) (\<lambda>frame. Inr (frame, put_sock sid k s)))"

definition create_packet_response :: "u16 \<Rightarrow> u32 \<Rightarrow> bytes \<Rightarrow> 'l net \<Rightarrow> eth_packet_info res" where
  "create_packet_response payload_size src eth_src s = ipv4_create_packet payload_size 6 src eth_src s"

definition send_reset :: "u32 \<Rightarrow> bytes \<Rightarrow> nat \<Rightarrow> 'l net \<Rightarrow> 'l net res" where
  "send_reset src eth_src sid s = bind_res (get_sock sid s) (\<lambda>k.
     bind_res (create_packet_response 20 src eth_src s) (\<lambda>info. finish_send info (write_reset_header k s (packet info)) s))"

definition send_ack :: "bytes \<Rightarrow> u32 \<Rightarrow> bool \<Rightarrow> u32 \<Rightarrow> bytes \<Rightarrow> (socket \<Rightarrow> socket) \<Rightarrow> nat \<Rightarrow> 'l net \<Rightarrow> 'l net res" where
  "send_ack pkt sz fin src eth_src upd sid s =
     bind_res (create_packet_response 20 src eth_src s) (\<lambda>info.
     bind_res (acknowledge pkt sz fin sid (packet info) s) (\<lambda>(frame, s).
     bind_res (get_sock sid s) (\<lambda>k. send_packet (info\<lparr>packet := frame\<rparr>) (put_sock sid (upd k) s))))"

definition deliver :: "'l tcp_listener \<Rightarrow> bytes \<Rightarrow> u32 \<Rightarrow> nat \<Rightarrow> 'l net \<Rightarrow> 'l net res" where
  "deliver L pkt sz sid s = bind_res (get_sock sid s) (\<lambda>k.
     if listener k \<and> seg_payload_size pkt sz \<noteq> 0
     then on_data_received L sid (drop (tcp_header_size (header_len (decode_tcp pkt))) pkt) (ucast (seg_payload_size pkt sz)) s
     else Inr s)"

definition sock_handle_packet :: "'l tcp_listener \<Rightarrow> bytes \<Rightarrow> u32 \<Rightarrow> u32 \<Rightarrow> bytes \<Rightarrow> nat \<Rightarrow> 'l net \<Rightarrow> 'l net res" where
  "sock_handle_packet L pkt sz src eth_src sid s = (let flags = tcp_flags (decode_tcp pkt) in
     bind_res (get_sock sid s) (\<lambda>k.
     if (ucast flags :: u16) AND (0x100 OR 0x80 OR 0x20) \<noteq> 0 then send_reset src eth_src sid s
     else if flags AND SYN \<noteq> 0 \<and> flags \<noteq> 0 \<and> ACK \<noteq> 0 \<and> tcp_st k = SYN_SENT
     then bind_res (send_ack pkt sz False src eth_src (\<lambda>k. k\<lparr>tcp_st := ESTABLISHED\<rparr>) sid (put_sock sid (k\<lparr>seq_num := seq_num k + 1\<rparr>) s))
            (send_start_packet sid)
     else if flags = ACK \<and> tcp_st k = CLOSE_WAIT then sock_close (on_connection_terminated L) None sid s
     else if flags AND FIN \<noteq> 0 \<and> flags AND ACK \<noteq> 0 \<and> tcp_st k = FIN_WAIT_1
     then bind_res (send_ack pkt sz False src eth_src (\<lambda>k. k) sid s) (sock_close (on_connection_terminated L) None sid)
     else if flags = RST OR ACK \<and> tcp_st k = SYN_SENT then sock_close (on_connection_terminated L) (Some ''TCP handshake failed'') sid s
     else if flags AND ACK \<noteq> 0 \<and> tcp_st k = ESTABLISHED
     then let fin = flags AND FIN \<noteq> 0 in
       if seg_payload_size pkt sz \<noteq> 0 \<or> fin
       then bind_res (send_ack pkt sz fin src eth_src (\<lambda>k. if fin then k\<lparr>tcp_st := CLOSE_WAIT\<rparr> else k) sid s) (deliver L pkt sz sid)
       else Inr s
     else if flags AND RST \<noteq> 0 then sock_close (on_connection_terminated L) (Some ''Peer closed connection'') sid s
     else bind_res (send_reset src eth_src sid s) (sock_close (on_connection_terminated L) (Some ''Unknown TCP packet received'') sid)))"

definition reset_response_socket :: "bytes \<Rightarrow> u16 \<Rightarrow> u32 \<Rightarrow> 'l net \<Rightarrow> (nat \<times> 'l net) res" where
  "reset_response_socket addr pport peer_seq s = bind_res (new_socket addr pport s) (\<lambda>(sid, s).
     bind_res (get_sock sid s) (\<lambda>k. Inr (sid, put_sock sid (k\<lparr>ack_num := peer_seq + 1\<rparr>) s)))"

definition tcp_handle_packet :: "'l tcp_listener \<Rightarrow> bytes \<Rightarrow> u32 \<Rightarrow> u32 \<Rightarrow> bytes \<Rightarrow> 'l net \<Rightarrow> 'l net res" where
  "tcp_handle_packet L pkt sz src eth_src s = (let h = decode_tcp pkt in
     case port_used (switch16 (tcp_dest_port h)) s of
       Some sid \<Rightarrow> sock_handle_packet L pkt sz src eth_src sid s
     | None \<Rightarrow> bind_res (reset_response_socket (w32 src) (switch16 (tcp_src_port h)) (switch32 (tcp_seq h)) s) (\<lambda>(sid, s).
         bind_res (get_sock sid s) (\<lambda>k.
         bind_res (ipv4_create_packet 20 6 src eth_src s) (\<lambda>info.
         bind_res (write_reset_header k s (packet info)) (\<lambda>frame.
         bind_res (delete_socket sid s) (\<lambda>s. send_packet (info\<lparr>packet := frame\<rparr>) s))))))"

text \<open>
  One pass of \<^verbatim>\<open>close_all_connections\<close> over the sockets, and the loop, which ends after a pass that met no open connection.
  Packets that arrive in between are the parameter \<open>arrivals\<close>.
\<close>

definition is_open :: "tcp_state \<Rightarrow> bool" where
  "is_open st = (st \<in> {ESTABLISHED, FIN_WAIT_1, FIN_WAIT_2, CLOSE_WAIT, CLOSING, LAST_ACK, TIME_WAIT})"

fun close_pass :: "nat list \<Rightarrow> bool \<Rightarrow> 'l net \<Rightarrow> (bool \<times> 'l net) res" where
  "close_pass [] op s = Inr (op, s)"
| "close_pass (sid # sids) op s = bind_res (get_sock sid s) (\<lambda>k.
     bind_res (send_fin_ack sid s) (close_pass sids (op \<or> is_open (tcp_st k))))"

fun close_all_connections :: "nat \<Rightarrow> (nat \<Rightarrow> 'l net \<Rightarrow> 'l net) \<Rightarrow> 'l net \<Rightarrow> 'l net res" where
  "close_all_connections 0 arrivals s = Inl Diverges"
| "close_all_connections (Suc n) arrivals s = bind_res (close_pass (l_head (sockets s)) False s) (\<lambda>(op, s).
     if op then close_all_connections n arrivals (arrivals n s) else Inr s)"

section \<open>DNS: answers\<close>

text \<open>
  \<open>pkt\<close> is the message from its header on, up to the end of the receive buffer, and names are positions in it.
  The buffer that collects the name starts with 5 bytes and is doubled at most once per label; a write behind its end is
  \<open>OutOfBounds\<close>. Following a pointer is the recursion, whose depth is bounded by \<open>depth\<close>: a name that
  follows more pointers than the message has bytes follows one of them twice and never ends.
\<close>

definition is_pointer :: "u8 \<Rightarrow> bool" where
  "is_pointer l = (l AND 0xC0 = 0xC0)"

definition pointer_at :: "nat \<Rightarrow> bytes \<Rightarrow> nat" where
  "pointer_at pos pkt = unat (switch16 (get16 pos pkt) AND 0x3FFF)"

definition grow_name :: "bytes \<Rightarrow> nat \<Rightarrow> nat \<Rightarrow> bytes" where
  "grow_name buf sz n = (if length buf < sz + n + 1 then take sz buf @ replicate (2 * length buf - sz) 0 else buf)"

definition name_part :: "(nat \<Rightarrow> bytes res) \<Rightarrow> bytes \<Rightarrow> nat \<Rightarrow> (bytes \<times> u8 \<times> bool) res" where
  "name_part rec pkt at =
    (if is_pointer (pkt ! at)
     then if length pkt < at + 2 then Inl OutOfBounds
          else bind_res (rec (pointer_at at pkt)) (\<lambda>sub. Inr (sub, word_of_nat (length sub), True))
     else Inr (drop (at + 1) pkt, pkt ! at, False))"

function parse_loop :: "(nat \<Rightarrow> bytes res) \<Rightarrow> bytes \<Rightarrow> nat \<Rightarrow> nat \<Rightarrow> nat \<Rightarrow> bytes \<Rightarrow> nat \<Rightarrow> bool \<Rightarrow> (nat \<times> bytes) res" where
  "parse_loop rec pkt pos idx ridx buf sz is_end =
    (if length pkt \<le> pos + idx then Inl OutOfBounds
     else if pkt ! (pos + idx) = 0 \<or> is_end then Inr (ridx, buf)
     else bind_res (name_part rec pkt (pos + idx)) (\<lambda>(sub, l, e).
       let n = unat l; buf = grow_name buf sz n in
       if length sub < n \<or> length buf < ridx + n \<or> length buf \<le> idx + n then Inl OutOfBounds
       else parse_loop rec pkt pos (idx + (if is_pointer (pkt ! (pos + idx)) then 2 else n + 1)) (ridx + n + 1)
         ((blit buf ridx (take n sub))[idx + n := 0x2E]) (sz + n + 1) e))"
  by pat_completeness auto
termination by (relation "measure (\<lambda>(rec, pkt, pos, idx, _). length pkt - (pos + idx))") auto

declare parse_loop.simps [simp del]

primrec parse_name_aux :: "nat \<Rightarrow> bytes \<Rightarrow> nat \<Rightarrow> bytes res" where
  "parse_name_aux 0 pkt pos = Inl Diverges"
| "parse_name_aux (Suc depth) pkt pos =
    (if length pkt \<le> pos then Inl OutOfBounds
     else if is_pointer (pkt ! pos) then parse_name_aux depth pkt (pointer_at pos pkt)
     else bind_res (parse_loop (parse_name_aux depth pkt) pkt pos 0 0 (replicate 5 0) 0 False) (\<lambda>(ridx, buf).
       if ridx = 0 then Inl OutOfBounds else Inr (takeWhile (\<lambda>c. c \<noteq> 0) (buf[ridx - 1 := 0]))))"

definition parse_name :: "bytes \<Rightarrow> nat \<Rightarrow> bytes res" where
  "parse_name pkt pos = parse_name_aux (Suc (length pkt)) pkt pos"

definition name_len :: "bytes \<Rightarrow> nat \<Rightarrow> nat res" where
  "name_len pkt b =
    (if length pkt \<le> b then Inl OutOfBounds
     else if is_pointer (pkt ! b) then Inr 2
     else let n = length (takeWhile (\<lambda>c. c \<noteq> 0) (drop b pkt)) in if length pkt \<le> b + n then Inl OutOfBounds else Inr (n + 1))"

primrec skip_queries :: "nat \<Rightarrow> bytes \<Rightarrow> nat \<Rightarrow> nat res" where
  "skip_queries 0 pkt b = Inr b"
| "skip_queries (Suc n) pkt b = bind_res (name_len pkt b) (\<lambda>l. skip_queries n pkt (b + l + 4))"

definition record_at :: "bytes \<Rightarrow> nat \<Rightarrow> nat res" where
  "record_at pkt b = bind_res (name_len pkt b) (\<lambda>l. if length pkt < b + l + 10 then Inl OutOfBounds else Inr (b + l))"

definition after_record :: "bytes \<Rightarrow> nat \<Rightarrow> nat" where
  "after_record pkt rc = rc + 10 + unat (switch16 (get16 (rc + 8) pkt))"

text \<open>\<^verbatim>\<open>display_response\<close> parses the names of all answers and forgets them again.\<close>

primrec display_answers :: "nat \<Rightarrow> bytes \<Rightarrow> nat \<Rightarrow> unit res" where
  "display_answers 0 pkt b = Inr ()"
| "display_answers (Suc n) pkt b = bind_res (record_at pkt b) (\<lambda>rc.
     if switch16 (get16 (rc + 2) pkt) \<noteq> 1 then display_answers n pkt (after_record pkt rc)
     else bind_res (parse_name pkt b) (\<lambda>_.
       bind_res (if switch16 (get16 rc pkt) = 5 then bind_res (parse_name pkt (rc + 10)) (\<lambda>_. Inr ()) else Inr ()) (\<lambda>_.
       display_answers n pkt (after_record pkt rc))))"

definition dns_display_response :: "bytes \<Rightarrow> unit res" where
  "dns_display_response pkt = bind_res (skip_queries (unat (switch16 (get16 4 pkt))) pkt 12) (\<lambda>b.
     display_answers (unat (switch16 (get16 6 pkt))) pkt b)"

text \<open>What the loop over the answers keeps: the host name that is resolved, the alias seen last, the address.\<close>

type_synonym dns_found = "bytes option \<times> bytes option \<times> bytes option"

primrec read_answers :: "nat \<Rightarrow> bytes \<Rightarrow> nat \<Rightarrow> dns_found \<Rightarrow> dns_found res" where
  "read_answers 0 pkt b f = Inr f"
| "read_answers (Suc n) pkt b f = bind_res (record_at pkt b) (\<lambda>rc.
     if switch16 (get16 (rc + 2) pkt) \<noteq> 1 then read_answers n pkt (after_record pkt rc) f
     else bind_res (parse_name pkt b) (\<lambda>name.
       let (resolved, last, addr) = (case f of (resolved, None, addr) \<Rightarrow> (Some name, Some name, addr) | f \<Rightarrow> f);
           t = switch16 (get16 rc pkt)
       in bind_res (if t = 5 then bind_res (parse_name pkt (rc + 10)) (\<lambda>alias. Inr (resolved, Some alias, addr))
                    else if t = 1 then Inr (resolved, last, Some (take 4 (drop (rc + 10) pkt)))
                    else Inr (resolved, last, addr))
            (read_answers n pkt (after_record pkt rc))))"

fun dns_waiting :: "(nat \<times> bytes) option list \<Rightarrow> bytes option \<Rightarrow> nat res" where
  "dns_waiting [] host = Inr 0"
| "dns_waiting (None # q) host = bind_res (dns_waiting q host) (\<lambda>i. Inr (Suc i))"
| "dns_waiting (Some (sid, name) # q) host = (case host of
     None \<Rightarrow> Inl NullDeref
   | Some h \<Rightarrow> if name = h then Inr 0 else bind_res (dns_waiting q host) (\<lambda>i. Inr (Suc i)))"

definition dns_handle_packet :: "bytes \<Rightarrow> 'l net \<Rightarrow> (bool \<times> 'l net) res" where
  "dns_handle_packet udp s = (let h = decode_udp udp; pkt = drop 8 udp in
     if switch16 (udp_dst_port h) \<noteq> 53 \<or> switch16 (udp_length h) < 12 then Inr (False, s)
     else if get16 0 pkt \<noteq> last_query_id s then Inr (False, s)
     else bind_res (dns_display_response pkt) (\<lambda>_.
       bind_res (skip_queries (unat (switch16 (get16 4 pkt))) pkt 12) (\<lambda>b.
       bind_res (read_answers (unat (switch16 (get16 6 pkt))) pkt b (None, None, None)) (\<lambda>(resolved, last, addr).
       bind_res (dns_waiting (dns_pending s) resolved) (\<lambda>i.
       case (if i < 10 then dns_pending s ! i else None) of
         None \<Rightarrow> Inr (True, s)
       | Some (sid, name) \<Rightarrow> bind_res (on_hostname_resolved addr sid s) (\<lambda>s.
           Inr (True, s\<lparr>dns_pending_size := dns_pending_size s - 1, dns_pending := (dns_pending s)[i := None]\<rparr>)))))))"

section \<open>Received frames\<close>

definition udp_handle_packet :: "bytes \<Rightarrow> u16 \<Rightarrow> 'l net \<Rightarrow> 'l net res" where
  "udp_handle_packet pkt sz s =
    (if sz < 8 then Inr s
     else bind_res (dhcp_handle_packet pkt s) (\<lambda>(done, s). if done then Inr s
     else bind_res (dns_handle_packet pkt s) (\<lambda>(done, s). if done then Inr s
     else bind_res (tp_handle_packet pkt s) (\<lambda>(done, s). if done then Inr s
     else if length pkt < unat sz then Inl OutOfBounds else Inr s))))"

definition ipv4_handle_packet :: "'l tcp_listener \<Rightarrow> bytes \<Rightarrow> bytes \<Rightarrow> 'l net \<Rightarrow> 'l net res" where
  "ipv4_handle_packet L pkt eth_src s =
    (if \<not> ipv4_packet_valid pkt s then Inr s
     else let h = decode_ipv4 pkt; payload_size = (ucast (switch16 (ip_len h)) :: u32) - word_of_nat (header_bytes h); payload = drop 20 pkt in
       if proto h = 1 then icmp_handle_packet payload (ucast payload_size) (saddr h) eth_src s
       else if proto h = 17 then udp_handle_packet payload (ucast payload_size) s
       else if proto h = 6 then tcp_handle_packet L payload payload_size (saddr h) eth_src s
       else Inr s)"

text \<open>\<open>buf\<close> is the receive buffer and \<open>sz\<close> the length of the frame at its start.\<close>

definition eth_handle_packet :: "'l tcp_listener \<Rightarrow> bytes \<Rightarrow> u16 \<Rightarrow> 'l net \<Rightarrow> 'l net res" where
  "eth_handle_packet L buf sz s =
    (if sz < 14 then Inr s
     else let type = switch16 (get16 12 buf); src = take 6 (drop 6 buf) in
       if type = 0x0806 then arp_handle_packet (drop 14 buf) src s
       else if type = 0x0800 then ipv4_handle_packet L (drop 14 buf) src s
       else Inr s)"

text \<open>The receive ring of the network card: descriptors with their status, length and buffer, handled from \<open>rx_cur\<close> on while they are done.\<close>

record rx_desc =
  rx_status :: u8
  rx_length :: u16
  rx_buf :: bytes

fun pollRx :: "nat \<Rightarrow> 'l tcp_listener \<Rightarrow> rx_desc list \<Rightarrow> nat \<Rightarrow> 'l net \<Rightarrow> (rx_desc list \<times> nat \<times> 'l net) res" where
  "pollRx 0 L ring rx_cur s = Inl Diverges"
| "pollRx (Suc n) L ring rx_cur s = (let d = ring ! rx_cur in
     if rx_status d AND 1 = 0 then Inr (ring, rx_cur, s)
     else bind_res (eth_handle_packet L (rx_buf d) (rx_length d) s) (\<lambda>s.
       pollRx n L (ring[rx_cur := d\<lparr>rx_status := 0\<rparr>]) ((rx_cur + 1) mod length ring) s))"

end
