(* ===== verification/Checksum.thy ===== *)
theory Checksum
  imports Network
begin

text \<open>
  What the network code computes on bytes, as arithmetic: numbers written into memory are read back, the
  exchanges of bytes undo themselves, and the Internet checksum is the complement of the sum of the 16-bit
  words modulo 65535, so that a packet into which the checksum has been stored sums up to zero.
\<close>

section \<open>Numbers in memory\<close>

lemma length_w [simp]: "length (w16 a) = 2" "length (w32 b) = 4"
  by (simp_all add: w16_def w32_def)

lemma word_of_le_val_le_bytes:
  "256 ^ n = (2 :: nat) ^ LENGTH('a::len) \<Longrightarrow> word_of_nat (le_val (le_bytes n (unat (v :: 'a word)))) = v"
  by (simp add: le_val_le_bytes)

lemma take_le_bytes [simp]: "take n (le_bytes n v) = le_bytes n v"
  by simp

lemma get_w [simp]: "get16 0 (w16 a @ xs) = a" "get32 0 (w32 b @ xs) = b"
  by (simp_all add: get16_def get32_def w16_def w32_def word_of_le_val_le_bytes del: le_bytes.simps)

lemma get8_Cons [simp]: "get8 0 (a # xs) = a"
  by (simp add: get8_def)

lemma get_skip:
  "length pre \<le> off \<Longrightarrow> get8 off (pre @ xs) = get8 (off - length pre) xs"
  "length pre \<le> off \<Longrightarrow> get16 off (pre @ xs) = get16 (off - length pre) xs"
  "length pre \<le> off \<Longrightarrow> get32 off (pre @ xs) = get32 (off - length pre) xs"
  by (simp_all add: get8_def get16_def get32_def)

lemma get_skip_Cons:
  "0 < off \<Longrightarrow> get8 off (a # xs) = get8 (off - 1) xs"
  "0 < off \<Longrightarrow> get16 off (a # xs) = get16 (off - 1) xs"
  "0 < off \<Longrightarrow> get32 off (a # xs) = get32 (off - 1) xs"
  by (cases off; simp add: get8_def get16_def get32_def)+

lemmas get_simps = get_skip get_skip_Cons

lemma get_drop:
  "get8 off (drop n xs) = get8 (off + n) xs"
  "get16 off (drop n xs) = get16 (off + n) xs"
  "get32 off (drop n xs) = get32 (off + n) xs"
  by (simp_all add: get8_def get16_def get32_def)

lemma w32_get32: "off + 4 \<le> length xs \<Longrightarrow> w32 (get32 off xs) = take 4 (drop off xs)"
proof -
  assume "off + 4 \<le> length xs"
  then have len: "length (take 4 (drop off xs)) = 4" by simp
  then have "le_val (take 4 (drop off xs)) < 2 ^ 32" using le_val_less [of "take 4 (drop off xs)"] by simp
  then have "unat (get32 off xs) = le_val (take 4 (drop off xs))" by (simp add: get32_def unat_of_nat)
  then show ?thesis using le_bytes_le_val [of "take 4 (drop off xs)"] len by (simp add: w32_def)
qed

lemma w16_get16: "off + 2 \<le> length xs \<Longrightarrow> w16 (get16 off xs) = take 2 (drop off xs)"
proof -
  assume "off + 2 \<le> length xs"
  then have len: "length (take 2 (drop off xs)) = 2" by simp
  then have "le_val (take 2 (drop off xs)) < 2 ^ 16" using le_val_less [of "take 2 (drop off xs)"] by simp
  then have "unat (get16 off xs) = le_val (take 2 (drop off xs))" by (simp add: get16_def unat_of_nat)
  then show ?thesis using le_bytes_le_val [of "take 2 (drop off xs)"] len by (simp add: w16_def)
qed

lemma byte_masks:
  "(0xff :: 'a::len word) = mask 8" "(0xff00 :: u16) = push_bit 8 (mask 8)" "(0xff00 :: u32) = push_bit 8 (mask 8)"
  "(0xff0000 :: u32) = push_bit 16 (mask 8)" "(0xff000000 :: u32) = push_bit 24 (mask 8)"
  by (simp_all add: mask_numeral push_bit_eq_mult)

lemma bit_switch16: "bit (switch16 v) n \<longleftrightarrow> n < 16 \<and> bit v (if n < 8 then n + 8 else n - 8)"
  by (auto simp: switch16_def byte_masks bit_simps add.commute)

lemma bit_switch32: "bit (switch32 v) n \<longleftrightarrow> n < 32 \<and> bit v (if n < 8 then n + 24 else if n < 16 then n + 8 else if n < 24 then n - 8 else n - 24)"
  by (auto simp: switch32_def byte_masks bit_simps add.commute)

lemma switch16_switch16 [simp]: "switch16 (switch16 v) = v"
  by (rule bit_word_eqI) (auto simp: bit_switch16)

lemma switch32_switch32 [simp]: "switch32 (switch32 v) = v"
  by (rule bit_word_eqI) (auto simp: bit_switch32)

section \<open>The Internet checksum\<close>

fun wsum :: "bytes \<Rightarrow> nat" where
  "wsum (a # b # bs) = le_val [a, b] + wsum bs"
| "wsum [a] = le_val [a]"
| "wsum [] = 0"

definition ones_sum :: "nat \<Rightarrow> nat" where
  "ones_sum n = (if n = 0 then 0 else if n mod 65535 = 0 then 65535 else n mod 65535)"

lemma wsum_append: "even (length xs) \<Longrightarrow> wsum (xs @ ys) = wsum xs + wsum ys"
  by (induction xs rule: wsum.induct) auto

lemma wsum_le: "wsum bs \<le> 32768 * (length bs + 1)"
proof (induction bs rule: wsum.induct)
  case (1 a b bs)
  have "le_val [a, b] < 256 ^ 2" using le_val_less [of "[a, b]"] by (simp add: numeral_2_eq_2)
  with 1 show ?case by simp
next
  case (2 a)
  have "le_val [a] < 256" using le_val_less [of "[a]"] by simp
  then show ?case by simp
qed simp

lemma wsum_w16 [simp]: "wsum (w16 c) = unat c"
proof -
  have "wsum (w16 c) = le_val (w16 c)" by (simp add: w16_def numeral_2_eq_2)
  also have "\<dots> = unat c" using unsigned_less [of c, where ?'a = nat] by (simp add: w16_def le_val_le_bytes del: le_bytes.simps)
  finally show ?thesis .
qed

lemma unat_sum16: "unat (sum16 bs acc) = (unat acc + wsum bs) mod 2 ^ 32"
proof (induction bs acc rule: sum16.induct)
  case (1 a b bs acc)
  have "unat (acc + word_of_nat (le_val [a, b])) = (unat acc + le_val [a, b]) mod 2 ^ 32"
    by (simp add: unat_word_ariths unat_of_nat mod_simps del: le_val.simps)
  with 1 show ?case by (simp add: mod_simps add.assoc del: le_val.simps)
next
  case (2 a acc)
  then show ?case by (simp add: unat_word_ariths unat_of_nat mod_simps del: le_val.simps)
next
  case (3 acc)
  then show ?case using unsigned_less [of acc, where ?'a = nat] by simp
qed

lemma ones_sum_le [simp]: "ones_sum n \<le> 65535"
proof -
  have "n mod 65535 < 65535" by simp
  then show ?thesis by (simp add: ones_sum_def del: pos_mod_bound)
qed

lemma ones_sum_mod16 [simp]: "ones_sum n mod 65536 = ones_sum n"
  using ones_sum_le [of n] by (simp del: ones_sum_le)

lemma ones_sum_mod [simp]: "ones_sum n mod 65535 = n mod 65535"
  by (simp add: ones_sum_def)

lemma add_ones_sum_mod:
  "(x + ones_sum y) mod 65535 = (x + y) mod 65535" "(ones_sum y + x) mod 65535 = (y + x) mod 65535"
  by (metis mod_add_right_eq ones_sum_mod, metis mod_add_left_eq ones_sum_mod)

lemma ones_sum_small: "n \<le> 65535 \<Longrightarrow> ones_sum n = n"
  by (cases "n = 65535") (auto simp: ones_sum_def)

lemma ones_sum_eqI: "m mod 65535 = n mod 65535 \<Longrightarrow> 0 < m \<Longrightarrow> 0 < n \<Longrightarrow> ones_sum m = ones_sum n"
  by (simp add: ones_sum_def)

lemma unat_fold16: "unat (fold16 acc) = ones_sum (unat acc)"
proof (induction acc rule: fold16.induct)
  case (1 acc)
  show ?case
  proof (cases "drop_bit 16 acc = 0")
    case True
    then have "unat acc div 65536 = 0" using low_high16(2) [of acc] by simp
    then have "unat acc \<le> 65535" by simp
    then show ?thesis using True by (simp add: fold16.simps [of acc] ones_sum_small)
  next
    case False
    then have pos: "0 < unat acc div 65536" using low_high16(2) [of acc] by (metis gr0I unat_eq_zero)
    have "unat acc = 65535 * (unat acc div 65536) + (unat acc mod 65536 + unat acc div 65536)"
      using mult_div_mod_eq [of 65536 "unat acc"] by linarith
    then have "(unat acc mod 65536 + unat acc div 65536) mod 65535 = unat acc mod 65535"
      by (metis mod_mult_self4)
    moreover have "0 < unat acc" using pos by (metis div_0 gr0I less_numeral_extra(3))
    ultimately have "ones_sum (unat acc mod 65536 + unat acc div 65536) = ones_sum (unat acc)"
      using pos by (intro ones_sum_eqI) auto
    then show ?thesis using 1 False by (simp add: fold16.simps [of acc] low_high16(3))
  qed
qed

lemma unat_checksum: "length bs \<le> 131000 \<Longrightarrow> unat (checksum bs) = 65535 - ones_sum (wsum bs)"
proof -
  assume "length bs \<le> 131000"
  then have "wsum bs < 2 ^ 32" using wsum_le [of bs] by simp
  then have f: "unat (fold16 (sum16 bs 0)) = ones_sum (wsum bs)" by (simp add: unat_fold16 unat_sum16)
  have "unat (NOT x) = 4294967295 - unat x" for x :: u32
  proof -
    have "NOT x = - 1 - x" by (simp add: not_eq_complement)
    then show ?thesis by (simp add: unat_sub unsigned_minus_1_eq_mask mask_numeral)
  qed
  moreover have "(4294967295 - n) mod 65536 = 65535 - n" if "n \<le> 65535" for n :: nat
  proof -
    have "4294967295 - n = (65535 - n) + 65535 * 65536" using that by simp
    also have "\<dots> mod 65536 = 65535 - n" using that by (simp only: mod_mult_self1) simp
    finally show ?thesis .
  qed
  ultimately show ?thesis using f by (simp add: checksum_def unsigned_ucast_eq take_bit_eq_mod)
qed

lemma checksum_zero_iff: "length bs \<le> 131000 \<Longrightarrow> checksum bs = 0 \<longleftrightarrow> 0 < wsum bs \<and> wsum bs mod 65535 = 0"
proof -
  assume len: "length bs \<le> 131000"
  have "checksum bs = 0 \<longleftrightarrow> unat (checksum bs) = 0" by (simp add: unat_eq_zero)
  also have "\<dots> \<longleftrightarrow> ones_sum (wsum bs) = 65535" using unat_checksum [OF len] ones_sum_le [of "wsum bs"] by linarith
  also have "\<dots> \<longleftrightarrow> 0 < wsum bs \<and> wsum bs mod 65535 = 0" by (auto simp: ones_sum_def split: if_splits)
  finally show ?thesis .
qed

text \<open>Storing the checksum into the zeroed field makes the checksum zero, wherever the field lies at an even offset.\<close>

lemma checksum_stored:
  assumes "even (length pre)" and "length pre + length post \<le> 130000"
  shows "checksum (pre @ w16 (checksum (pre @ [0, 0] @ post)) @ post) = 0"
proof -
  let ?S = "wsum pre + wsum post" and ?c = "checksum (pre @ [0, 0] @ post)"
  have "wsum (pre @ [0, 0] @ post) = ?S" using assms(1) by (simp add: wsum_append)
  then have c: "unat ?c = 65535 - ones_sum ?S" using assms(2) by (simp add: unat_checksum)
  have tot: "wsum (pre @ w16 ?c @ post) = ?S + unat ?c" using assms(1) by (simp add: wsum_append)
  have eq: "ones_sum ?S + unat ?c = 65535" using c ones_sum_le [of ?S] by simp
  have "(?S + unat ?c) mod 65535 = (ones_sum ?S mod 65535 + unat ?c) mod 65535" by (simp only: ones_sum_mod mod_simps)
  also have "\<dots> = 0" by (simp only: mod_simps eq) simp
  finally have "(?S + unat ?c) mod 65535 = 0" .
  moreover have "0 < ?S + unat ?c"
  proof (cases "?S = 0")
    case True
    then show ?thesis using c by (simp add: ones_sum_def)
  qed simp
  ultimately show ?thesis using assms(2) tot by (simp add: checksum_zero_iff)
qed

text \<open>
  The sum of two checksums is the checksum of both parts together: the complement is the negation modulo 65535.
  With a part that is stored between them, the whole sums up to zero.
\<close>

lemma checksum_add_stored:
  assumes "even (length a)" "even (length pre)" and "length a + length pre + length post \<le> 130000" and "0 < wsum a"
  shows "checksum (a @ pre @ w16 (checksum_add (checksum a) (checksum (pre @ [0, 0] @ post))) @ post) = 0"
proof -
  let ?S = "wsum pre + wsum post" and ?c2 = "checksum (pre @ [0, 0] @ post)"
  let ?c = "checksum_add (checksum a) ?c2"
  have c1: "ones_sum (wsum a) + unat (checksum a) = 65535" using assms(3) by (simp add: unat_checksum)
  have "wsum (pre @ [0, 0] @ post) = ?S" using assms(2) by (simp add: wsum_append)
  then have c2: "ones_sum ?S + unat ?c2 = 65535" using assms(3) by (simp add: unat_checksum)
  have "unat (ucast (checksum a) + ucast ?c2 :: u32) = unat (checksum a) + unat ?c2"
  proof -
    have "unat (checksum a) + unat ?c2 < 2 ^ 32" using c1 c2 by simp
    then show ?thesis by (simp add: unat_word_ariths unsigned_ucast_eq take_bit_eq_mod)
  qed
  then have "unat (fold16 (ucast (checksum a) + ucast ?c2)) = ones_sum (unat (checksum a) + unat ?c2)" by (simp add: unat_fold16)
  then have c: "unat ?c = ones_sum (unat (checksum a) + unat ?c2)"
    using ones_sum_le [of "unat (checksum a) + unat ?c2"] by (simp add: checksum_add_def unsigned_ucast_eq take_bit_eq_mod)
  have tot: "wsum (a @ pre @ w16 ?c @ post) = wsum a + ?S + unat ?c" using assms(1,2) by (simp add: wsum_append)
  have "(wsum a + ?S + unat ?c) mod 65535 = (wsum a + (?S + (unat (checksum a) + unat ?c2))) mod 65535"
    by (simp only: c add_ones_sum_mod) (simp only: add.assoc)
  also have "\<dots> = (ones_sum (wsum a) + (?S + (unat (checksum a) + unat ?c2))) mod 65535" by (simp only: add_ones_sum_mod)
  also have "\<dots> = (?S + (ones_sum (wsum a) + unat (checksum a) + unat ?c2)) mod 65535" by (simp only: ac_simps)
  also have "\<dots> = (ones_sum ?S + (ones_sum (wsum a) + unat (checksum a) + unat ?c2)) mod 65535" by (simp only: add_ones_sum_mod)
  also have "\<dots> = ((ones_sum (wsum a) + unat (checksum a)) + (ones_sum ?S + unat ?c2)) mod 65535" by (simp only: ac_simps)
  also have "\<dots> = 0" by (simp only: c1 c2) simp
  finally have "(wsum a + ?S + unat ?c) mod 65535 = 0" .
  then show ?thesis using assms(3,4) tot by (simp add: checksum_zero_iff)
qed

end
