(* ===== verification/NetFrames.thy ===== *)
theory NetFrames
  imports Transport Checksum
begin

text \<open>
  The frames that the network stack builds: what \<open>ipv4_create_packet\<close> and the writers of the protocols put into
  zeroed memory, that the headers are read back as written, and that receivers find the checksums right.
\<close>

section \<open>Well-formed states\<close>

definition wf_net :: "'l net \<Rightarrow> bool" where
  "wf_net s = (length (net_ip s) = 4 \<and> length (gateway_ip s) = 4 \<and> length (subnet_mast s) = 4 \<and>
     length (mac s) = 6 \<and> length (gateway_mac s) = 6 \<and>
     length (arp_pending s) = 10 \<and> arp_pending_head s < 10 \<and> length (arp_cache s) = 10 \<and> arp_cache_head s < 10 \<and>
     (\<forall>e \<in> set (arp_cache s). length (fst e) = 4 \<and> length (snd e) = 6))"

section \<open>Zeroed memory\<close>

lemma le_val_zeros [simp]: "le_val (replicate n 0) = 0"
  by (induction n) auto

lemma get_zeros [simp]:
  "get8 off (replicate n 0) = 0" "get16 off (replicate n 0) = 0" "get32 off (replicate n 0) = 0"
  by (simp_all add: get8_def get16_def get32_def)

lemma blit_skip: "length pre = off \<Longrightarrow> blit (pre @ dst) off src = pre @ src @ drop (length src) dst"
  by (simp add: blit_def)

lemma write_at_skip:
  "length pre = off \<Longrightarrow> length src \<le> length dst \<Longrightarrow> write_at off src (pre @ dst) = Inr (pre @ src @ drop (length src) dst)"
  by (simp add: write_at_def blit_skip)

lemma take_whole: "take (length xs) (xs @ ys) = xs"
  by simp

section \<open>Headers\<close>

lemma length_encode_headers [simp]:
  "length (encode_ipv4 h) = 20" "length (encode_udp u) = 8" "length (encode_tcp t) = 20"
  by (simp_all add: encode_ipv4_def encode_udp_def encode_tcp_def)

lemma length_encode_arp [simp]: "length (srchw p) = 6 \<Longrightarrow> length (dsthw p) = 6 \<Longrightarrow> length (encode_arp p) = 28"
  by (simp add: encode_arp_def)

lemma decode_encode_ipv4 [simp]: "decode_ipv4 (encode_ipv4 h @ rest) = h"
  by (simp add: decode_ipv4_def encode_ipv4_def get_simps)

lemma decode_encode_udp [simp]: "decode_udp (encode_udp h @ rest) = h"
  by (simp add: decode_udp_def encode_udp_def get_simps)

lemma decode_encode_tcp [simp]: "decode_tcp (encode_tcp h @ rest) = h"
  by (simp add: decode_tcp_def encode_tcp_def get_simps)

lemma decode_encode_arp:
  "length (srchw p) = 6 \<Longrightarrow> length (dsthw p) = 6 \<Longrightarrow> decode_arp (encode_arp p @ rest) = p"
  by (simp add: decode_arp_def encode_arp_def get_simps)

section \<open>IP frames\<close>

definition eth_head :: "bytes \<Rightarrow> u16 \<Rightarrow> 'l net \<Rightarrow> bytes" where
  "eth_head dst type s = dst @ mac s @ w16 (switch16 type)"

definition ip_blank :: "u16 \<Rightarrow> u8 \<Rightarrow> u32 \<Rightarrow> 'l net \<Rightarrow> ipv4_header" where
  "ip_blank n prot dst s = \<lparr>version_and_ihl = 0x45, tos = 0, ip_len = switch16 (20 + n), ip_id = 0, flags_and_frag_offset = 0, ttl = 64,
     proto = prot, ip_csum = 0, saddr = get32 0 (net_ip s), daddr = dst\<rparr>"

definition ip_head :: "u16 \<Rightarrow> u8 \<Rightarrow> u32 \<Rightarrow> 'l net \<Rightarrow> ipv4_header" where
  "ip_head n prot dst s = (ip_blank n prot dst s)\<lparr>ip_csum := checksum (encode_ipv4 (ip_blank n prot dst s))\<rparr>"

lemma length_eth_head [simp]: "length dst = 6 \<Longrightarrow> length (mac s) = 6 \<Longrightarrow> length (eth_head dst t s) = 14"
  by (simp add: eth_head_def)

lemma ipv4_fill_zero: "ipv4_fill 0 (20 + n) 0 0 64 prot dst s (decode_ipv4 (replicate k 0)) = ip_blank n prot dst s"
  by (simp add: ipv4_fill_def ip_blank_def decode_ipv4_def set_version_def set_ihl_def set_flags_def set_frag_offset_to_zero_def
      switch16_def)

lemma header_bytes_blank: "header_bytes (ip_blank n prot dst s) = 20"
  by (simp add: header_bytes_def ip_blank_def get_ihl_def)

lemma unat_plus16: "unat a + unat b < 65536 \<Longrightarrow> unat (a + b :: u16) = unat a + unat b"
  by (simp add: unat_word_ariths)

lemma ipv4_create_packet_ok:
  assumes "length m = 6" "length (mac s) = 6" "unat n \<le> 65515"
  shows "ipv4_create_packet n prot dst m s =
    Inr \<lparr>packet = eth_head m 0x0800 s @ encode_ipv4 (ip_head n prot dst s) @ replicate (unat n) 0, psize = 34 + n\<rparr>"
proof -
  have n: "unat (20 + n) = 20 + unat n" using assms(3) unat_plus16 [of 20 n] by simp
  have frame: "eth_create_packet m 0x0800 (20 + n) s = \<lparr>packet = eth_head m 0x0800 s @ replicate (20 + unat n) 0, psize = 34 + n\<rparr>"
    by (simp add: eth_create_packet_def eth_write_header_def eth_head_def n)
  show ?thesis using assms
    by (simp add: ipv4_create_packet_def frame ipv4_write_packet_def ipv4_fill_zero write_at_skip header_bytes_blank Let_def ip_head_def)
qed

lemma encode_ipv4_split:
  "encode_ipv4 h = ([version_and_ihl h, tos h] @ w16 (ip_len h) @ w16 (ip_id h) @ w16 (flags_and_frag_offset h) @ [ttl h, proto h]) @
     w16 (ip_csum h) @ (w32 (saddr h) @ w32 (daddr h))"
  by (simp add: encode_ipv4_def)

lemma w16_0: "w16 0 = [0, 0]"
  by (simp add: w16_def numeral_2_eq_2)

lemma checksum_ip_head: "checksum (encode_ipv4 (ip_head n prot dst s)) = 0"
proof -
  let ?b = "ip_blank n prot dst s"
  let ?pre = "[version_and_ihl ?b, tos ?b] @ w16 (ip_len ?b) @ w16 (ip_id ?b) @ w16 (flags_and_frag_offset ?b) @ [ttl ?b, proto ?b]"
  let ?post = "w32 (saddr ?b) @ w32 (daddr ?b)"
  have blank: "encode_ipv4 ?b = ?pre @ [0, 0] @ ?post"
    unfolding encode_ipv4_split by (simp add: ip_blank_def w16_0)
  have "encode_ipv4 (ip_head n prot dst s) = ?pre @ w16 (checksum (?pre @ [0, 0] @ ?post)) @ ?post"
    unfolding blank [symmetric] unfolding encode_ipv4_split [of "ip_head n prot dst s"] by (simp add: ip_head_def)
  then show ?thesis using checksum_stored [of ?pre ?post] by simp
qed

lemma ip_head_fields [simp]:
  "version_and_ihl (ip_head n prot dst s) = 0x45" "ip_len (ip_head n prot dst s) = switch16 (20 + n)"
  "flags_and_frag_offset (ip_head n prot dst s) = 0" "proto (ip_head n prot dst s) = prot"
  "saddr (ip_head n prot dst s) = get32 0 (net_ip s)" "daddr (ip_head n prot dst s) = dst"
  by (simp_all add: ip_head_def ip_blank_def)

lemma ip_head_valid:
  assumes "dst = get32 0 (net_ip r) \<or> dst = get32 0 broadcast_ip" "prot \<in> {1, 17, 6}"
  shows "ipv4_packet_valid (encode_ipv4 (ip_head n prot dst s) @ rest) r"
proof -
  have "take 20 (encode_ipv4 (ip_head n prot dst s) @ rest) = encode_ipv4 (ip_head n prot dst s)" by simp
  then show ?thesis using assms
    by (auto simp: ipv4_packet_valid_def Let_def checksum_ip_head get_version_def get_ihl_def get_frag_offset_def get_flags_def)
qed

section \<open>Sending\<close>

lemma dest_of_head [simp]: "length m = 6 \<Longrightarrow> dest_of \<lparr>packet = eth_head m t s @ rest, psize = n\<rparr> = m"
  by (simp add: dest_of_def eth_head_def)

lemma send_packet_known:
  assumes "length m = 6" "m \<noteq> null_mac" "nic s" "unat sz = length (eth_head m t s' @ rest)"
  shows "send_packet \<lparr>packet = eth_head m t s' @ rest, psize = sz\<rparr> s = Inr (s\<lparr>sent := sent s @ [eth_head m t s' @ rest]\<rparr>)"
  using assms by (simp add: send_packet_def sendPacket_def)

text \<open>The request that \<open>resolve_mac\<close> sends goes to the broadcast address, so that \<open>send_packet\<close> would do the same.\<close>

lemma resolve_mac_sends:
  assumes "length (mac s) = 6"
  shows "resolve_mac addr s = bind_res (arp_packet_for 1 (get32 0 addr) broadcast_mac broadcast_mac s) (\<lambda>info. send_packet info s)"
proof -
  have "send_packet info s = sendPacket info s"
    if req: "arp_packet_for 1 (get32 0 addr) broadcast_mac broadcast_mac s = Inr info" for info
  proof -
    obtain fr where "arp_write_packet 1 (get32 0 addr) broadcast_mac s (packet (eth_create_packet broadcast_mac 0x0806 28 s)) = Inr fr"
        and info: "info = (eth_create_packet broadcast_mac 0x0806 28 s)\<lparr>packet := fr\<rparr>"
      using req by (auto simp: arp_packet_for_def res_elims Let_def)
    then have "take 14 fr = take 14 (packet (eth_create_packet broadcast_mac 0x0806 28 s))"
      by (auto simp: arp_write_packet_def write_at_def take_blit split: if_splits)
    then have "take 6 (take 14 fr) = take 6 (take 14 (packet (eth_create_packet broadcast_mac 0x0806 28 s)))" by simp
    then have "take 6 fr = take 6 (packet (eth_create_packet broadcast_mac 0x0806 28 s))" by simp
    then have "dest_of info = broadcast_mac"
      by (simp add: dest_of_def info eth_create_packet_def eth_write_header_def)
    then show ?thesis by (simp add: send_packet_def)
  qed
  then show ?thesis
    by (cases "arp_packet_for 1 (get32 0 addr) broadcast_mac broadcast_mac s") (auto simp: resolve_mac_def)
qed

section \<open>Ping\<close>

definition echo_reply :: "bytes \<Rightarrow> bytes" where
  "echo_reply data = [0, 0] @ w16 (checksum ([0, 0, 0, 0] @ data)) @ data"

lemma checksum_echo_reply: "length data \<le> 65535 \<Longrightarrow> checksum (echo_reply data) = 0"
  using checksum_stored [of "[0, 0]" data] by (simp add: echo_reply_def)

lemma length_echo_reply [simp]: "length (echo_reply data) = length data + 4"
  by (simp add: echo_reply_def)

lemma write_ping_reply_ok:
  assumes "length H = 34" "unat n = 4 + length data" "length q = 4"
  shows "write_ping_reply (q @ data @ rest) n (H @ replicate (unat n) 0) = Inr (H @ echo_reply data)"
proof -
  have fr: "H @ replicate (unat n) 0 = H @ [0, 0, 0, 0] @ replicate (length data) 0"
    using assms(2) by (simp add: replicate_add [symmetric] eval_nat_numeral)
  have w1: "write_at 34 [0, 0] (H @ [0, 0, 0, 0] @ replicate (length data) 0) = Inr ((H @ [0, 0, 0, 0]) @ replicate (length data) 0)"
    using assms(1) by (simp add: write_at_skip)
  have d: "drop 4 (take (unat n) (q @ data @ rest)) = data" using assms by simp
  have w2: "write_at 38 data ((H @ [0, 0, 0, 0]) @ replicate (length data) 0) = Inr (H @ [0, 0, 0, 0] @ data)"
    using assms(1) write_at_skip [of "H @ [0, 0, 0, 0]" 38 data] by simp
  have w3: "write_at 36 (w16 c) ((H @ [0, 0]) @ [0, 0] @ data) = Inr ((H @ [0, 0]) @ w16 c @ data)" for c
    using assms(1) write_at_skip [of "H @ [0, 0]" 36 "w16 c" "[0, 0] @ data"] by simp
  have c: "take (unat n) (drop 34 (H @ [0, 0, 0, 0] @ data)) = [0, 0, 0, 0] @ data" using assms by simp
  show ?thesis
    unfolding write_ping_reply_def fr w1 bind_res.simps d w2 c using w3 assms by (simp add: echo_reply_def)
qed

lemma icmp_echo_ok:
  assumes "length src = 6" "src \<noteq> null_mac" "length (mac s) = 6" "nic s"
    and "unat n = 4 + length data" "unat n \<le> 65501" "checksum ([8, 0] @ w16 c @ data) = 0"
  shows "icmp_handle_packet ([8, 0] @ w16 c @ data @ rest) n from src s =
    Inr (s\<lparr>sent := sent s @ [eth_head src 0x0800 s @ encode_ipv4 (ip_head n 1 from s) @ echo_reply data]\<rparr>)"
proof -
  have "unat n = length ([8, 0] @ w16 c @ data)" using assms(5) by simp
  then have "take (unat n) (([8, 0] @ w16 c @ data) @ rest) = [8, 0] @ w16 c @ data" by (simp only: take_whole)
  then have "take (unat n) ([8, 0] @ w16 c @ data @ rest) = [8, 0] @ w16 c @ data" by simp
  moreover have "\<not> n < 4" using assms(5) by (simp add: word_less_nat_alt)
  moreover have "get8 1 (8 # 0 # xs) = 0" for xs by (simp add: get_skip_Cons)
  ultimately have valid: "icmp_packet_valid ([8, 0] @ w16 c @ data @ rest) n = Inr True"
    using assms(5,7) by (simp add: icmp_packet_valid_def)
  let ?H = "eth_head src 0x0800 s @ encode_ipv4 (ip_head n 1 from s)"
  have "write_ping_reply (([8, 0] @ w16 c) @ data @ rest) n (?H @ replicate (unat n) 0) = Inr (?H @ echo_reply data)"
    using assms(1,3,5) by (intro write_ping_reply_ok) auto
  then have w: "write_ping_reply ([8, 0] @ w16 c @ data @ rest) n (eth_head src 0x0800 s @ encode_ipv4 (ip_head n 1 from s) @ replicate (unat n) 0) =
      Inr (eth_head src 0x0800 s @ encode_ipv4 (ip_head n 1 from s) @ echo_reply data)" by simp
  have "unat (34 + n) = 34 + unat n" using assms(6) unat_plus16 [of 34 n] by simp
  then have snd: "send_packet \<lparr>packet = eth_head src 0x0800 s @ encode_ipv4 (ip_head n 1 from s) @ echo_reply data, psize = 34 + n\<rparr> s =
      Inr (s\<lparr>sent := sent s @ [eth_head src 0x0800 s @ encode_ipv4 (ip_head n 1 from s) @ echo_reply data]\<rparr>)"
    using assms(1-5) by (intro send_packet_known) auto
  have "ipv4_create_packet n 1 from src s =
      Inr \<lparr>packet = eth_head src 0x0800 s @ encode_ipv4 (ip_head n 1 from s) @ replicate (unat n) 0, psize = 34 + n\<rparr>"
    using assms(1,3,6) by (intro ipv4_create_packet_ok) auto
  then show ?thesis by (simp only: icmp_handle_packet_def valid bind_res.simps simp_thms if_False w eth_packet_info.simps snd)
qed

section \<open>TCP segments\<close>

definition tcp_blank :: "socket \<Rightarrow> u8 \<Rightarrow> tcp_header" where
  "tcp_blank k flags = \<lparr>tcp_src_port = switch16 (port k), tcp_dest_port = switch16 (peer_port k), tcp_seq = switch32 (seq_num k),
     tcp_ack = switch32 (ack_num k), header_len = 0x50, tcp_flags = flags, window_size = 0xFFFF, tcp_checksum = 0, urgent_pointer = 0\<rparr>"

definition tcp_pseudo :: "u32 \<Rightarrow> u32 \<Rightarrow> nat \<Rightarrow> bytes" where
  "tcp_pseudo src dst len = w32 src @ w32 dst @ [0, 6] @ w16 (switch16 (word_of_nat len))"

definition tcp_segment :: "socket \<Rightarrow> u8 \<Rightarrow> bytes \<Rightarrow> 'l net \<Rightarrow> bytes" where
  "tcp_segment k flags data s = encode_tcp ((tcp_blank k flags)\<lparr>tcp_checksum :=
     checksum_add (checksum (tcp_pseudo (get32 0 (net_ip s)) (get32 0 (peer_ip k)) (20 + length data)))
       (checksum (encode_tcp (tcp_blank k flags) @ data))\<rparr>) @ data"

lemma length_tcp_segment [simp]: "length (tcp_segment k flags data s) = 20 + length data"
  by (simp add: tcp_segment_def)

lemma decode_tcp_segment:
  "decode_tcp (tcp_segment k flags data s @ rest) = (tcp_blank k flags)\<lparr>tcp_checksum := tcp_checksum (decode_tcp (tcp_segment k flags data s @ rest))\<rparr>"
  "drop 20 (tcp_segment k flags data s) = data"
  by (simp_all add: tcp_segment_def)

lemma encode_tcp_split:
  "encode_tcp h = (w16 (tcp_src_port h) @ w16 (tcp_dest_port h) @ w32 (tcp_seq h) @ w32 (tcp_ack h) @ [header_len h, tcp_flags h] @ w16 (window_size h)) @
     w16 (tcp_checksum h) @ w16 (urgent_pointer h)"
  by (simp add: encode_tcp_def)

lemma wsum_pseudo: "0 < wsum (tcp_pseudo src dst len)"
  by (simp add: tcp_pseudo_def wsum_append)

lemma checksum_tcp_segment:
  assumes "length data \<le> 65000"
  shows "checksum (tcp_pseudo (get32 0 (net_ip s)) (get32 0 (peer_ip k)) (20 + length data) @ tcp_segment k flags data s) = 0"
proof -
  let ?b = "tcp_blank k flags" and ?ps = "tcp_pseudo (get32 0 (net_ip s)) (get32 0 (peer_ip k)) (20 + length data)"
  let ?pre = "w16 (tcp_src_port ?b) @ w16 (tcp_dest_port ?b) @ w32 (tcp_seq ?b) @ w32 (tcp_ack ?b) @ [header_len ?b, tcp_flags ?b] @ w16 (window_size ?b)"
  let ?post = "w16 (urgent_pointer ?b) @ data"
  have blank: "encode_tcp ?b @ data = ?pre @ [0, 0] @ ?post"
    unfolding encode_tcp_split by (simp add: tcp_blank_def w16_0)
  have seg: "tcp_segment k flags data s = ?pre @ w16 (checksum_add (checksum ?ps) (checksum (?pre @ [0, 0] @ ?post))) @ ?post"
    unfolding blank [symmetric] tcp_segment_def encode_tcp_split [of "tcp_checksum_update _ _"] by simp
  have "even (length ?ps)" by (simp add: tcp_pseudo_def)
  moreover have "even (length ?pre)" by simp
  moreover have "length ?ps + length ?pre + length ?post \<le> 130000" using assms by (simp add: tcp_pseudo_def)
  ultimately show ?thesis unfolding seg by (intro checksum_add_stored wsum_pseudo)
qed

lemma tcp_write_header_ok:
  assumes "length H = 34" "n = word_of_nat (length data)" "length data \<le> 65000"
  shows "tcp_write_header k flags n s (H @ replicate 20 0 @ data) = Inr (H @ tcp_segment k flags data s)"
proof -
  have dec: "(decode_tcp (replicate 20 0 @ data))\<lparr>tcp_src_port := switch16 (port k), tcp_dest_port := switch16 (peer_port k), tcp_seq := switch32 (seq_num k),
       tcp_ack := switch32 (ack_num k), header_len := push_bit 4 5, tcp_flags := flags, window_size := switch16 0xFFFF\<rparr> = tcp_blank k flags"
    by (simp add: decode_tcp_def tcp_blank_def get16_def switch16_def)
  have w: "write_at 34 (encode_tcp h) (H @ X @ data) = Inr (H @ encode_tcp h @ data)" if "length X = 20" for h X
    using assms(1) that write_at_skip [of H 34 "encode_tcp h" "X @ data"] by simp
  have hs: "tcp_header_size (header_len (tcp_blank k flags)) = 20" by (simp add: tcp_header_size_def tcp_blank_def)
  have "unat n = length data" using assms(2,3) by (simp add: unat_of_nat)
  then have len: "unat (word_of_nat 20 + n) = 20 + length data" using assms(3) unat_plus16 [of 20 n] by simp
  have ps: "pseudo_header (tcp_blank k flags) dst n s = tcp_pseudo (get32 0 (net_ip s)) dst (20 + length data)" for dst
    by (simp add: pseudo_header_def tcp_pseudo_def hs assms(2))
  have "take (20 + length data) (drop 34 (H @ encode_tcp (tcp_blank k flags) @ data)) = encode_tcp (tcp_blank k flags) @ data"
    using assms(1) by simp
  then have "compute_checksum (tcp_blank k flags) dst n (H @ encode_tcp (tcp_blank k flags) @ data) s =
      Inr (checksum_add (checksum (tcp_pseudo (get32 0 (net_ip s)) dst (20 + length data))) (checksum (encode_tcp (tcp_blank k flags) @ data)))" for dst
    using assms(1) by (simp only: compute_checksum_def hs len ps Let_def) simp
  then show ?thesis
    using assms(1) dec by (simp add: tcp_write_header_def Let_def w tcp_segment_def)
qed

definition tcp_frame :: "bytes \<Rightarrow> u32 \<Rightarrow> socket \<Rightarrow> u8 \<Rightarrow> bytes \<Rightarrow> 'l net \<Rightarrow> bytes" where
  "tcp_frame m dst k flags data s = eth_head m 0x0800 s @ encode_ipv4 (ip_head (20 + word_of_nat (length data)) 6 dst s) @ tcp_segment k flags data s"

text \<open>A frame for a segment with \<open>data\<close>, as the code builds it, and sent to a known address.\<close>

lemma tcp_frame_ok:
  assumes "length m = 6" "length (mac s) = 6" "length data \<le> 65000"
  shows "\<exists>f0. ipv4_create_packet (20 + word_of_nat (length data)) 6 dst m s = Inr \<lparr>packet = f0, psize = 54 + word_of_nat (length data)\<rparr> \<and>
    write_at 54 data f0 = Inr (eth_head m 0x0800 s @ encode_ipv4 (ip_head (20 + word_of_nat (length data)) 6 dst s) @ replicate 20 0 @ data) \<and>
    tcp_write_header k flags (word_of_nat (length data)) s
      (eth_head m 0x0800 s @ encode_ipv4 (ip_head (20 + word_of_nat (length data)) 6 dst s) @ replicate 20 0 @ data) = Inr (tcp_frame m dst k flags data s)"
proof -
  let ?n = "20 + word_of_nat (length data) :: u16"
  let ?H = "eth_head m 0x0800 s @ encode_ipv4 (ip_head ?n 6 dst s)"
  have n: "unat ?n = 20 + length data" using assms(3) unat_plus16 [of 20 "word_of_nat (length data)"] by (simp add: unat_of_nat)
  have "ipv4_create_packet ?n 6 dst m s = Inr \<lparr>packet = ?H @ replicate 20 0 @ replicate (length data) 0, psize = 54 + word_of_nat (length data)\<rparr>"
    using assms n by (simp add: ipv4_create_packet_ok replicate_add)
  moreover have "write_at 54 data ((?H @ replicate 20 0) @ replicate (length data) 0) = Inr ((?H @ replicate 20 0) @ data)"
    using assms write_at_skip [of "?H @ replicate 20 0" 54 data "replicate (length data) 0"] by simp
  moreover have "tcp_write_header k flags (word_of_nat (length data)) s (?H @ replicate 20 0 @ data) = Inr (?H @ tcp_segment k flags data s)"
    using assms by (intro tcp_write_header_ok) auto
  ultimately show ?thesis by (auto simp: tcp_frame_def)
qed

lemma send_tcp_frame:
  assumes "length m = 6" "length (mac s) = 6" "length data \<le> 65000" "nic s'" "m \<noteq> null_mac"
  shows "send_packet \<lparr>packet = tcp_frame m dst k flags data s, psize = 54 + word_of_nat (length data)\<rparr> s' =
    Inr (s'\<lparr>sent := sent s' @ [tcp_frame m dst k flags data s]\<rparr>)"
proof -
  have "unat (54 + word_of_nat (length data) :: u16) = 54 + length data"
    using assms(3) unat_plus16 [of 54 "word_of_nat (length data)"] by (simp add: unat_of_nat)
  then show ?thesis unfolding tcp_frame_def using assms by (intro send_packet_known) auto
qed

end
