(* ===== verification/Sockets.thy ===== *)
theory Sockets
  imports NetFrames
begin

text \<open>
  What the operations of sockets do: which frames they send and how they change the socket, and that the handling of frames keeps
  the list of sockets consistent.
\<close>

section \<open>Where a frame goes\<close>

definition next_hop :: "bytes \<Rightarrow> 'l net \<Rightarrow> bytes" where
  "next_hop peer s = (if get_mac peer s = null_mac then gateway_mac s else get_mac peer s)"

definition has_route :: "bytes \<Rightarrow> 'l net \<Rightarrow> bool" where
  "has_route peer s = (length peer = 4 \<and> (get_mac peer s \<noteq> null_mac \<or> \<not> address_is_in_subnet peer s))"

lemma length_scan_cache:
  "length (arp_cache s) = 10 \<Longrightarrow> \<forall>e \<in> set (arp_cache s). length (snd e) = 6 \<Longrightarrow> length (scan_cache n i addr s) = 6"
  by (induction n arbitrary: i) (auto simp: Let_def)

lemma length_get_mac: "wf_net s \<Longrightarrow> length (get_mac addr s) = 6"
  unfolding get_mac_def by (rule length_scan_cache) (auto simp: wf_net_def)

lemma scan_cache_cong: "arp_cache s' = arp_cache s \<Longrightarrow> arp_cache_head s' = arp_cache_head s \<Longrightarrow> scan_cache n i addr s' = scan_cache n i addr s"
  by (induction n arbitrary: i) (simp_all add: Let_def)

lemma tcp_frame_cong: "mac s' = mac s \<Longrightarrow> net_ip s' = net_ip s \<Longrightarrow> tcp_frame m dst k flags data s' = tcp_frame m dst k flags data s"
  by (simp add: tcp_frame_def eth_head_def ip_head_def ip_blank_def tcp_segment_def)

lemma put_sock_simps [simp]:
  "mac (put_sock sid k s) = mac s" "net_ip (put_sock sid k s) = net_ip s" "nic (put_sock sid k s) = nic s" "sent (put_sock sid k s) = sent s"
  "socks (put_sock sid k s) = (socks s)(sid := Some k)" "sockets (put_sock sid k s) = sockets s" "next_sock (put_sock sid k s) = next_sock s"
  "gateway_mac (put_sock sid k s) = gateway_mac s" "subnet_mast (put_sock sid k s) = subnet_mast s" "get_mac a (put_sock sid k s) = get_mac a s"
  "tcp_frame m dst h flags data (put_sock sid k s) = tcp_frame m dst h flags data s" "wf_net (put_sock sid k s) = wf_net s"
  "put_sock sid k' (put_sock sid k s) = put_sock sid k' s"
  by (auto simp: put_sock_def get_mac_def wf_net_def intro!: scan_cache_cong tcp_frame_cong)

lemma sent_simps [simp]:
  "get_mac a (s\<lparr>sent := x\<rparr>) = get_mac a s" "tcp_frame m dst h flags data (s\<lparr>sent := x\<rparr>) = tcp_frame m dst h flags data s"
  "wf_net (s\<lparr>sent := x\<rparr>) = wf_net s" "put_sock sid k s\<lparr>sent := x\<rparr> = put_sock sid k (s\<lparr>sent := x\<rparr>)"
  by (auto simp: put_sock_def get_mac_def wf_net_def intro!: scan_cache_cong tcp_frame_cong)

lemma route_simps [simp]:
  "next_hop a (put_sock sid k s) = next_hop a s" "has_route a (put_sock sid k s) = has_route a s"
  "next_hop a (s\<lparr>sent := x\<rparr>) = next_hop a s" "has_route a (s\<lparr>sent := x\<rparr>) = has_route a s"
  by (auto simp: next_hop_def has_route_def address_is_in_subnet_def)

lemma get_sock_simps [simp]:
  "get_sock sid (put_sock sid k s) = Inr k" "socks s sid = Some k \<Longrightarrow> get_sock sid s = Inr k"
  "get_sock sid (s\<lparr>sent := x\<rparr>) = get_sock sid s"
  by (simp_all add: get_sock_def)

lemma blit_head: "length m = 6 \<Longrightarrow> blit (eth_head null_mac t s @ rest) 0 m = eth_head m t s @ rest"
  by (simp add: blit_def eth_head_def)

lemma daddr_of_frame:
  assumes "length m = 6" "length (mac s) = 6"
  shows "daddr_of \<lparr>packet = tcp_frame m dst k flags data s, psize = n\<rparr> = w32 dst"
proof -
  let ?h = "ip_head (20 + word_of_nat (length data)) 6 dst s"
  have "tcp_frame m dst k flags data s = (eth_head m 0x0800 s @ [version_and_ihl ?h, tos ?h] @ w16 (ip_len ?h) @ w16 (ip_id ?h) @
      w16 (flags_and_frag_offset ?h) @ [ttl ?h, proto ?h] @ w16 (ip_csum ?h) @ w32 (saddr ?h)) @ w32 dst @ tcp_segment k flags data s"
    by (simp add: tcp_frame_def encode_ipv4_def)
  then show ?thesis using assms by (simp add: daddr_of_def)
qed

lemma send_routed:
  assumes "wf_net s" "nic s" "length data \<le> 65000" "has_route peer s" "mac s' = mac s" "net_ip s' = net_ip s"
  shows "send_packet \<lparr>packet = tcp_frame (get_mac peer s) (get32 0 peer) k flags data s', psize = 54 + word_of_nat (length data)\<rparr> s =
    Inr (s\<lparr>sent := sent s @ [tcp_frame (next_hop peer s) (get32 0 peer) k flags data s]\<rparr>)"
proof -
  have eq: "tcp_frame (get_mac peer s) (get32 0 peer) k flags data s' = tcp_frame (get_mac peer s) (get32 0 peer) k flags data s"
    using assms(5,6) by (rule tcp_frame_cong)
  have len: "length (get_mac peer s) = 6" "length (mac s) = 6" "length (gateway_mac s) = 6"
    using assms(1) length_get_mac [OF assms(1)] by (simp_all add: wf_net_def)
  show ?thesis
  proof (cases "get_mac peer s = null_mac")
    case False
    then show ?thesis unfolding eq using len assms by (simp add: send_tcp_frame next_hop_def)
  next
    case True
    have p: "w32 (get32 0 peer) = peer" using assms(4) w32_get32 [of 0 peer] by (simp add: has_route_def)
    have "unat (54 + word_of_nat (length data) :: u16) = 54 + length data"
      using assms(3) unat_plus16 [of 54 "word_of_nat (length data)"] by (simp add: unat_of_nat)
    moreover have "blit (tcp_frame null_mac (get32 0 peer) k flags data s) 0 (gateway_mac s) = tcp_frame (gateway_mac s) (get32 0 peer) k flags data s"
      using len by (simp add: tcp_frame_def blit_head)
    moreover have "dest_of \<lparr>packet = tcp_frame null_mac (get32 0 peer) k flags data s, psize = n\<rparr> = null_mac" for n
      by (simp add: tcp_frame_def)
    moreover have "length (tcp_frame (gateway_mac s) (get32 0 peer) k flags data s) = 54 + length data"
      using len by (simp add: tcp_frame_def)
    ultimately show ?thesis unfolding eq using True assms(2,4) len p
      by (simp add: send_packet_def daddr_of_frame has_route_def sendPacket_def next_hop_def)
  qed
qed

section \<open>Sending\<close>

lemma tcp_send_data_ok:
  assumes "wf_net s" "nic s" "length data \<le> 65000" "socks s sid = Some k" "has_route (peer_ip k) s"
  shows "tcp_send_data data sid s = Inr (s\<lparr>sent := sent s @ [tcp_frame (next_hop (peer_ip k) s) (get32 0 (peer_ip k)) k (PSH OR ACK) data s]\<rparr>)"
proof -
  let ?m = "get_mac (peer_ip k) s" and ?d = "get32 0 (peer_ip k)"
  have "length ?m = 6" "length (mac s) = 6" using assms(1) length_get_mac [OF assms(1)] by (simp_all add: wf_net_def)
  from tcp_frame_ok [OF this assms(3), of ?d k "PSH OR ACK"] obtain f0 where
    "ipv4_create_packet (20 + word_of_nat (length data)) 6 ?d ?m s = Inr \<lparr>packet = f0, psize = 54 + word_of_nat (length data)\<rparr>"
    "write_at 54 data f0 = Inr (eth_head ?m 0x0800 s @ encode_ipv4 (ip_head (20 + word_of_nat (length data)) 6 ?d s) @ replicate 20 0 @ data)"
    "tcp_write_header k (PSH OR ACK) (word_of_nat (length data)) s
      (eth_head ?m 0x0800 s @ encode_ipv4 (ip_head (20 + word_of_nat (length data)) 6 ?d s) @ replicate 20 0 @ data) = Inr (tcp_frame ?m ?d k (PSH OR ACK) data s)"
    by blast
  then show ?thesis
    using assms send_routed [OF assms(1,2,3,5) refl refl, of k "PSH OR ACK"]
    by (simp add: tcp_send_data_def Let_def tcp_frame_to_peer_def finish_send_def write_push_ack_header_def)
qed

lemma bare_frame_ok:
  assumes "length m = 6" "length (mac s) = 6"
  shows "\<exists>f0. ipv4_create_packet 20 6 dst m s = Inr \<lparr>packet = f0, psize = 54\<rparr> \<and>
    (\<forall>k flags. tcp_write_header k flags 0 s f0 = Inr (tcp_frame m dst k flags [] s))"
proof -
  let ?f = "eth_head m 0x0800 s @ encode_ipv4 (ip_head 20 6 dst s) @ replicate 20 0"
  have "ipv4_create_packet 20 6 dst m s = Inr \<lparr>packet = ?f, psize = 54\<rparr>"
    using assms by (simp add: ipv4_create_packet_ok)
  moreover have "tcp_write_header k flags 0 s ?f = Inr (tcp_frame m dst k flags [] s)" for k flags
    using tcp_frame_ok [OF assms, of "[]" dst k flags] by auto
  ultimately show ?thesis by blast
qed

lemma send_sync_ok:
  assumes "wf_net s" "nic s" "socks s sid = Some k" "has_route (peer_ip k) s"
  shows "send_sync sid s = Inr (s\<lparr>sent := sent s @ [tcp_frame (next_hop (peer_ip k) s) (get32 0 (peer_ip k)) k SYN [] s]\<rparr>)"
proof -
  let ?m = "get_mac (peer_ip k) s" and ?d = "get32 0 (peer_ip k)"
  have "length ?m = 6" "length (mac s) = 6" using assms(1) length_get_mac [OF assms(1)] by (simp_all add: wf_net_def)
  from bare_frame_ok [OF this, of ?d] obtain f0 where "ipv4_create_packet 20 6 ?d ?m s = Inr \<lparr>packet = f0, psize = 54\<rparr>"
    "tcp_write_header k SYN 0 s f0 = Inr (tcp_frame ?m ?d k SYN [] s)" by blast
  then show ?thesis using assms send_routed [of s "[]" "peer_ip k" s k SYN]
    by (simp add: send_sync_def tcp_frame_to_peer_def finish_send_def write_sync_header_def)
qed

definition next_ack :: "bytes \<Rightarrow> u32 \<Rightarrow> u32" where
  "next_ack pkt sz = switch32 (tcp_seq (decode_tcp pkt)) + seg_payload_size pkt sz +
     (if tcp_flags (decode_tcp pkt) AND (SYN OR FIN) \<noteq> 0 then 1 else 0)"

lemma send_ack_ok:
  assumes "length m = 6" "m \<noteq> null_mac" "length (mac s) = 6" "nic s" "socks s sid = Some k"
  shows "send_ack pkt sz fin src m upd sid s =
    Inr (put_sock sid (upd (k\<lparr>ack_num := next_ack pkt sz\<rparr>))
      (s\<lparr>sent := sent s @ [tcp_frame m src (k\<lparr>ack_num := next_ack pkt sz\<rparr>) (if fin then ACK OR FIN else ACK) [] s]\<rparr>))"
proof -
  let ?k = "k\<lparr>ack_num := next_ack pkt sz\<rparr>"
  from bare_frame_ok [OF assms(1,3), of src] obtain f0 where f0: "ipv4_create_packet 20 6 src m s = Inr \<lparr>packet = f0, psize = 54\<rparr>"
    "\<And>k flags. tcp_write_header k flags 0 s f0 = Inr (tcp_frame m src k flags [] s)" by blast
  have "acknowledge pkt sz fin sid f0 s = Inr (tcp_frame m src ?k (if fin then ACK OR FIN else ACK) [] s, put_sock sid ?k s)"
    using assms(5) by (simp add: acknowledge_def Let_def write_ack_header_def f0(2) next_ack_def add.assoc)
  then show ?thesis
    using assms send_tcp_frame [of m s "[]" "put_sock sid (upd ?k) s" src ?k "if fin then ACK OR FIN else ACK"]
    by (simp add: send_ack_def create_packet_response_def f0(1))
qed

section \<open>Segments received\<close>

lemma handshake_ok:
  fixes sz :: u32
  assumes "wf_net s" "nic s" "length m = 6" "m \<noteq> null_mac" "socks s sid = Some k" "tcp_st k = SYN_SENT" "has_route (peer_ip k) s"
    and "start_packet k = Some data" "length data \<le> 65000"
    and "(ucast (tcp_flags (decode_tcp pkt)) :: u16) AND (0x100 OR 0x80 OR 0x20) = 0" "tcp_flags (decode_tcp pkt) AND SYN \<noteq> 0"
  defines "k1 \<equiv> k\<lparr>seq_num := seq_num k + 1, ack_num := next_ack pkt sz\<rparr>"
  shows "sock_handle_packet L pkt sz src m sid s =
    Inr (put_sock sid (k1\<lparr>tcp_st := ESTABLISHED, seq_num := seq_num k + 1 + word_of_nat (length data)\<rparr>)
      (s\<lparr>sent := sent s @ [tcp_frame m src k1 ACK [] s, tcp_frame (next_hop (peer_ip k) s) (get32 0 (peer_ip k)) k1 (PSH OR ACK) data s]\<rparr>))"
proof -
  let ?k1 = "k1\<lparr>tcp_st := ESTABLISHED\<rparr>" and ?s1 = "s\<lparr>sent := sent s @ [tcp_frame m src k1 ACK [] s]\<rparr>"
  have mac: "length (mac s) = 6" using assms(1) by (simp add: wf_net_def)
  have nz: "tcp_flags (decode_tcp pkt) \<noteq> 0" using assms(11) by auto
  have ack: "send_ack pkt sz False src m (\<lambda>k. k\<lparr>tcp_st := ESTABLISHED\<rparr>) sid (put_sock sid (k\<lparr>seq_num := seq_num k + 1\<rparr>) s) =
      Inr (put_sock sid ?k1 ?s1)"
    using assms(2,3,4) mac send_ack_ok [of m "put_sock sid (k\<lparr>seq_num := seq_num k + 1\<rparr>) s" sid "k\<lparr>seq_num := seq_num k + 1\<rparr>" pkt sz False src]
    by (simp add: k1_def)
  have frame: "tcp_frame h d (k1\<lparr>tcp_st := st\<rparr>) f data s' = tcp_frame h d k1 f data s'" for h d f s' st
    by (simp add: tcp_frame_def tcp_segment_def tcp_blank_def)
  have "tcp_send_data data sid (put_sock sid ?k1 ?s1) = Inr (put_sock sid ?k1 (s\<lparr>sent := sent s @ [tcp_frame m src k1 ACK [] s,
      tcp_frame (next_hop (peer_ip k) s) (get32 0 (peer_ip k)) k1 (PSH OR ACK) data s]\<rparr>))"
    using assms(1,2,7,9) tcp_send_data_ok [of "put_sock sid ?k1 ?s1" data sid ?k1] by (simp add: k1_def frame [unfolded k1_def])
  then have "send_start_packet sid (put_sock sid ?k1 ?s1) =
      Inr (put_sock sid (k1\<lparr>tcp_st := ESTABLISHED, seq_num := seq_num k + 1 + word_of_nat (length data)\<rparr>)
      (s\<lparr>sent := sent s @ [tcp_frame m src k1 ACK [] s, tcp_frame (next_hop (peer_ip k) s) (get32 0 (peer_ip k)) k1 (PSH OR ACK) data s]\<rparr>))"
    using assms(8) by (simp add: send_start_packet_def send_data_def k1_def)
  then show ?thesis using assms(5,6,10,11) nz ack by (simp add: sock_handle_packet_def Let_def)
qed

end
