(* ===== verification/NetInv.thy ===== *)
theory NetInv
  imports Sockets
begin

text \<open>
  The invariant of the network state: addresses and tables have their sizes, the list of sockets and the sockets themselves
  agree and no two sockets share a port, and the count of host names that are being resolved is the number of entries in use.
  A listener must keep the invariant (locales \<open>quiet_end\<close> and \<open>quiet_listener\<close>); then the handling of any received frame keeps it.
\<close>

section \<open>Invariant\<close>

definition sock_inv :: "'l net \<Rightarrow> bool" where
  "sock_inv s \<longleftrightarrow> distinct (l_head (sockets s)) \<and> (\<forall>sid. socks s sid \<noteq> None \<longleftrightarrow> sid \<in> set (l_head (sockets s))) \<and>
     (\<forall>sid \<in> set (l_head (sockets s)). sid < next_sock s) \<and>
     (\<forall>i j k k'. socks s i = Some k \<and> socks s j = Some k' \<and> port k = port k' \<longrightarrow> i = j)"

definition in_use :: "'a option list \<Rightarrow> nat" where
  "in_use q = length (filter (\<lambda>e. e \<noteq> None) q)"

definition dns_inv :: "'l net \<Rightarrow> bool" where
  "dns_inv s \<longleftrightarrow> length (dns_pending s) = 10 \<and> dns_pending_size s = in_use (dns_pending s)"

definition net_inv :: "'l net \<Rightarrow> bool" where
  "net_inv s \<longleftrightarrow> wf_net s \<and> sock_inv s \<and> dns_inv s"

text \<open>Steps that change neither sockets nor the queue of host names.\<close>

definition quiet :: "'l net \<Rightarrow> 'l net \<Rightarrow> bool" where
  "quiet s s' \<longleftrightarrow> sockets s' = sockets s \<and> socks s' = socks s \<and> next_sock s' = next_sock s \<and> dns_pending s' = dns_pending s \<and>
     dns_pending_size s' = dns_pending_size s \<and> listeners s' = listeners s \<and> (wf_net s \<longrightarrow> wf_net s')"

named_theorems quiet \<open>operations that are quiet\<close>

lemma quiet_refl [simp]: "quiet s s"
  by (simp add: quiet_def)

lemma quiet_trans [trans]: "quiet s s1 \<Longrightarrow> quiet s1 s2 \<Longrightarrow> quiet s s2"
  by (simp add: quiet_def)

lemma quiet_inv: "quiet s s' \<Longrightarrow> net_inv s \<Longrightarrow> net_inv s'"
  by (simp add: net_inv_def sock_inv_def dns_inv_def quiet_def)

section \<open>Frames and addresses\<close>

lemma quiet_id32 [quiet]: "generate_random_id32 s = (r, s') \<Longrightarrow> quiet s s'"
  by (auto simp: generate_random_id32_def quiet_def wf_net_def)

lemma quiet_id16 [quiet]: "generate_random_id16 s = (r, s') \<Longrightarrow> quiet s s'"
  by (cases "generate_random_id32 s") (simp add: generate_random_id16_def quiet_id32)

lemma quiet_port [quiet]: "random_ephemeral_port s = (p, s') \<Longrightarrow> quiet s s'"
  by (cases "generate_random_id32 s") (simp add: random_ephemeral_port_def quiet_id32)

lemma quiet_sendPacket [quiet]: "sendPacket p s = Inr s' \<Longrightarrow> quiet s s'"
  by (auto simp: sendPacket_def quiet_def wf_net_def split: if_splits)

lemma quiet_resolve_mac [quiet]: "resolve_mac a s = Inr s' \<Longrightarrow> quiet s s'"
  by (auto simp: resolve_mac_def res_elims intro: quiet)

lemma quiet_resolve_and_send [quiet]:
  assumes "resolve_and_send p s = Inr s'"
  shows "quiet s s'"
proof -
  let ?s = "s\<lparr>arp_pending := (arp_pending s)[arp_pending_head s := Some p], arp_pending_head := (arp_pending_head s + 1) mod 10\<rparr>"
  have "quiet ?s s'" using assms unfolding resolve_and_send_def by (rule quiet_resolve_mac)
  moreover have "quiet s ?s" by (simp add: quiet_def wf_net_def)
  ultimately show ?thesis using quiet_trans by blast
qed

lemma quiet_send_packet [quiet]: "send_packet p s = Inr s' \<Longrightarrow> quiet s s'"
  by (auto simp: send_packet_def split: if_splits intro: quiet)

lemma quiet_finish_send [quiet]: "finish_send info w s = Inr s' \<Longrightarrow> quiet s s'"
  by (auto simp: finish_send_def res_elims intro: quiet)

lemma quiet_tp_send_request [quiet]:
  assumes "tp_send_request s = Inr s'"
  shows "quiet s s'"
proof -
  obtain p s1 where p: "random_ephemeral_port s = (p, s1)" by (cases "random_ephemeral_port s")
  with assms obtain info where "send_packet info (s1\<lparr>request_sent := True\<rparr>) = Inr s'"
    by (auto simp: tp_send_request_def res_elims)
  then have "quiet (s1\<lparr>request_sent := True\<rparr>) s'" by (rule quiet)
  moreover have "quiet s1 (s1\<lparr>request_sent := True\<rparr>)" by (simp add: quiet_def wf_net_def)
  ultimately show ?thesis using quiet_port [OF p] quiet_trans by blast
qed

lemma quiet_on_ip_received [quiet]:
  assumes "on_ip_received a g s = Inr s'" "length a = 4" "length g = 4"
  shows "quiet s s'"
proof -
  have "quiet (s\<lparr>net_ip := a, gateway_ip := g\<rparr>) s'"
    using assms(1) by (auto simp: on_ip_received_def resolve_gateway_mac_def intro: quiet)
  moreover have "quiet s (s\<lparr>net_ip := a, gateway_ip := g\<rparr>)" using assms(2,3) by (simp add: quiet_def wf_net_def)
  ultimately show ?thesis using quiet_trans by blast
qed

lemma quiet_on_gateway_mac [quiet]:
  assumes "on_gateway_mac_received m s = Inr s'" "length m = 6"
  shows "quiet s s'"
proof -
  have "quiet (s\<lparr>gateway_mac := m\<rparr>) s'" using assms(1) unfolding on_gateway_mac_received_def by (rule quiet)
  moreover have "quiet s (s\<lparr>gateway_mac := m\<rparr>)" using assms(2) by (simp add: quiet_def wf_net_def)
  ultimately show ?thesis using quiet_trans by blast
qed

lemma quiet_flush_entry [quiet]:
  assumes "flush_entry p i s = Inr s'"
  shows "quiet s s'"
proof (cases "arp_pending s ! i")
  case (Some info)
  show ?thesis
  proof (cases "s' = s")
    case False
    with Some assms obtain info' s1 where "send_packet info' (s\<lparr>arp_pending := (arp_pending s)[i := Some info']\<rparr>) = Inr s1"
      "s' = s1\<lparr>arp_pending := replicate 10 None\<rparr>"
      by (auto simp: flush_entry_def res_elims Let_def split: if_splits)
    moreover have "quiet s (s\<lparr>arp_pending := (arp_pending s)[i := Some info']\<rparr>)" by (simp add: quiet_def wf_net_def)
    moreover have "quiet s1 (s1\<lparr>arp_pending := replicate 10 None\<rparr>)" by (simp add: quiet_def wf_net_def)
    ultimately show ?thesis using quiet_send_packet quiet_trans by blast
  qed simp
qed (use assms in \<open>simp add: flush_entry_def\<close>)

lemma quiet_for_n:
  assumes "for_n body i n s = Inr s'" "\<And>j s s'. body j s = Inr s' \<Longrightarrow> quiet s s'"
  shows "quiet s s'"
proof (rule for_n_invariant [OF assms(1), of "\<lambda>_. quiet s"])
  show "quiet s s2" if "quiet s s1" "body j s1 = Inr s2" for j s1 s2 using that assms(2) quiet_trans by blast
qed simp

lemma quiet_arp_learn: "length (srchw p) = 6 \<Longrightarrow> quiet s (arp_learn p s)"
  by (auto simp: arp_learn_def quiet_def wf_net_def dest: set_update_subset_insert [THEN subsetD])

lemma quiet_arp [quiet]:
  assumes "arp_handle_packet pkt m s = Inr s'" "28 \<le> length pkt"
  shows "quiet s s'"
proof -
  let ?p = "decode_arp pkt"
  have len: "length (srchw ?p) = 6" using assms(2) by (simp add: decode_arp_def)
  show ?thesis
  proof (cases "arp_is_valid ?p s \<and> switch16 (opcode ?p) \<noteq> 1")
    case True
    let ?g = "if w32 (srcpr ?p) = gateway_ip (arp_learn ?p s) then on_gateway_mac_received (srchw ?p) (arp_learn ?p s) else Inr (arp_learn ?p s)"
    from True assms(1) obtain s1 where s1: "?g = Inr s1" "for_n (flush_entry ?p) 0 10 s1 = Inr s'"
      by (simp add: arp_handle_packet_def Let_def bind_res_Inr_iff) blast
    have "quiet (arp_learn ?p s) s1"
      using s1(1) len by (cases "w32 (srcpr ?p) = gateway_ip (arp_learn ?p s)") (simp_all add: quiet_on_gateway_mac)
    moreover have "quiet s1 s'" using s1(2) by (rule quiet_for_n) (rule quiet_flush_entry)
    ultimately show ?thesis using quiet_arp_learn [OF len] quiet_trans by blast
  next
    case False
    then show ?thesis using assms(1) quiet_send_packet
      by (cases "arp_is_valid ?p s") (auto simp: arp_handle_packet_def Let_def bind_res_Inr_iff)
  qed
qed

lemma quiet_icmp [quiet]: "icmp_handle_packet pkt n src m s = Inr s' \<Longrightarrow> quiet s s'"
  by (auto simp: icmp_handle_packet_def res_elims split: if_splits intro: quiet)

lemma quiet_tp [quiet]: "tp_handle_packet pkt s = Inr (b, s') \<Longrightarrow> quiet s s'"
  by (auto simp: tp_handle_packet_def res_elims Let_def quiet_def wf_net_def split: if_splits)

section \<open>DHCP\<close>

lemma quiet_dhcp_send [quiet]: "dhcp_send xid a opts n s = Inr s' \<Longrightarrow> quiet s s'"
  by (auto simp: dhcp_send_def res_elims intro: quiet)

lemma quiet_send_discover [quiet]:
  assumes "send_discover s = Inr s'"
  shows "quiet s s'"
proof -
  obtain r s1 where r: "generate_random_id32 s = (r, s1)" by (cases "generate_random_id32 s")
  then have "quiet s1 s'" using assms by (simp add: send_discover_def quiet_dhcp_send)
  then show ?thesis using quiet_id32 [OF r] quiet_trans by blast
qed

lemma quiet_handle_offer [quiet]:
  assumes "handle_offer p s = Inr s'"
  shows "quiet s s'"
proof -
  have "quiet (s\<lparr>server_mac := take 6 (drop 28 p)\<rparr>) s'"
    using assms unfolding handle_offer_def dhcp_send_request_def by (rule quiet_dhcp_send)
  moreover have "quiet s (s\<lparr>server_mac := take 6 (drop 28 p)\<rparr>)" by (simp add: quiet_def wf_net_def)
  ultimately show ?thesis using quiet_trans by blast
qed

lemma ack_options_quiet:
  "ack_options p off gw s = Inr (gw', s') \<Longrightarrow> \<forall>g. gw = Some g \<longrightarrow> length g = 4 \<Longrightarrow> quiet s s' \<and> (\<forall>g. gw' = Some g \<longrightarrow> length g = 4)"
proof (induction p off gw s rule: ack_options.induct)
  case (1 p off gw s)
  show ?case
  proof (cases "length p \<le> off \<or> get8 off p = 255")
    case True
    then show ?thesis using 1(2,3) by (auto simp: ack_options.simps [of p off gw s] split: if_splits)
  next
    case False
    let ?s = "if get8 off p = 1 then s\<lparr>subnet_mast := take 4 (drop (off + 2) p)\<rparr> else s"
    let ?gw = "if get8 off p = 3 then Some (take 4 (drop (off + 2) p)) else gw"
    have len: "\<not> length p < off + (if get8 off p \<in> {1, 3} then 6 else 2)" and
      rec: "ack_options p (off + unat (get8 (off + 1) p) + 2) ?gw ?s = Inr (gw', s')"
      using 1(2) False unfolding ack_options.simps [of p off gw s] by (auto simp only: if_False de_Morgan_disj split: if_split_asm)
    have "\<forall>g. ?gw = Some g \<longrightarrow> length g = 4" using 1(3) len by auto
    then have "quiet ?s s' \<and> (\<forall>g. gw' = Some g \<longrightarrow> length g = 4)" using 1(1) False len rec by blast
    moreover have "quiet s ?s" using len by (auto simp: quiet_def wf_net_def)
    ultimately show ?thesis using quiet_trans by blast
  qed
qed

lemma quiet_handle_ack [quiet]:
  assumes "handle_ack p s = Inr s'" "20 \<le> length p"
  shows "quiet s s'"
proof -
  from assms(1) obtain g s1 where s1: "ack_options p 240 None s = Inr (Some g, s1)" "on_ip_received (take 4 (drop 16 p)) g s1 = Inr s'"
    by (auto simp: handle_ack_def res_elims split: option.splits)
  then have "quiet s s1" "length g = 4" using ack_options_quiet [OF s1(1)] by auto
  moreover have "quiet s1 s'" using calculation(2) assms(2) by (intro quiet_on_ip_received [OF s1(2)]) auto
  ultimately show ?thesis using quiet_trans by blast
qed

lemma quiet_dhcp [quiet]: "dhcp_handle_packet pkt s = Inr (b, s') \<Longrightarrow> 28 \<le> length pkt \<Longrightarrow> quiet s s'"
  by (auto simp: dhcp_handle_packet_def res_elims split: if_splits intro: quiet_handle_offer quiet_handle_ack)

section \<open>Sockets\<close>

lemma inv_put_sock:
  assumes "net_inv s" "socks s sid = Some k0" "port k = port k0"
  shows "net_inv (put_sock sid k s)"
proof -
  have "sock_inv (put_sock sid k s)"
    using assms unfolding net_inv_def sock_inv_def by (auto simp: split: if_splits)
  then show ?thesis using assms(1) by (simp add: net_inv_def dns_inv_def put_sock_def wf_net_def)
qed

lemma get_sock_Inr: "get_sock sid s = Inr k \<longleftrightarrow> socks s sid = Some k"
  by (simp add: get_sock_def split: option.splits)

lemma in_use_fill: "i < length q \<Longrightarrow> q ! i = None \<Longrightarrow> in_use (q[i := Some e]) = Suc (in_use q)"
  by (induction q arbitrary: i) (auto simp: in_use_def nth_Cons' split: nat.splits)

lemma in_use_clear: "i < length q \<Longrightarrow> q ! i = Some e \<Longrightarrow> Suc (in_use (q[i := None])) = in_use q"
  by (induction q arbitrary: i) (auto simp: in_use_def nth_Cons' split: nat.splits)

lemma dns_free_idx_Inr: "dns_free_idx q = Inr i \<Longrightarrow> i < length q \<and> q ! i = None"
  by (induction q arbitrary: i rule: dns_free_idx.induct) (auto simp: res_elims)

lemma dns_free_idx_ok: "in_use q < length q \<Longrightarrow> \<exists>i. dns_free_idx q = Inr i"
proof (induction q rule: dns_free_idx.induct)
  case (3 e q)
  then show ?case by (auto simp: in_use_def)
qed (auto simp: in_use_def)

text \<open>Steps that keep the invariant and no waiting host name is forgotten.\<close>

definition sstep :: "'l net \<Rightarrow> 'l net \<Rightarrow> bool" where
  "sstep s s' \<longleftrightarrow> (net_inv s \<longrightarrow> net_inv s' \<and> (\<forall>i<10. \<forall>e. dns_pending s ! i = Some e \<longrightarrow> dns_pending s' ! i = Some e))"

named_theorems sstep \<open>operations on sockets that keep the invariant\<close>

lemma sstep_refl [simp]: "sstep s s"
  by (simp add: sstep_def)

lemma sstep_trans [trans]: "sstep s s1 \<Longrightarrow> sstep s1 s2 \<Longrightarrow> sstep s s2"
  by (auto simp: sstep_def)

lemma sstep_quiet: "quiet s s' \<Longrightarrow> sstep s s'"
  using quiet_inv by (auto simp: sstep_def quiet_def)

lemma sstep_put: "socks s sid = Some k0 \<Longrightarrow> port k = port k0 \<Longrightarrow> sstep s (put_sock sid k s)"
  using inv_put_sock [of s sid k0 k] by (auto simp: sstep_def put_sock_def)

lemma sstep_resolve_hostname [sstep]:
  assumes "resolve_hostname host sid s = Inr s'"
  shows "sstep s s'"
proof (cases "dns_pending_size s = 10")
  case True
  then show ?thesis using assms by (simp add: resolve_hostname_def)
next
  case False
  with assms obtain name i where host: "host = Some name" and i: "dns_free_idx (dns_pending s) = Inr i"
    by (auto simp: resolve_hostname_def res_elims split: option.splits)
  let ?s1 = "s\<lparr>dns_pending := (dns_pending s)[i := Some (sid, name)], dns_pending_size := Suc (dns_pending_size s)\<rparr>"
  have i': "i < length (dns_pending s)" "dns_pending s ! i = None" using dns_free_idx_Inr [OF i] by auto
  have "sstep s ?s1"
    using i' in_use_fill [OF i', of "(sid, name)"] by (auto simp: sstep_def net_inv_def dns_inv_def sock_inv_def wf_net_def nth_list_update)
  moreover obtain info fr s2 where s2: "dns_write_header name (packet info) ?s1 = Inr (fr, s2)" "send_packet (info\<lparr>packet := fr\<rparr>) s2 = Inr s'"
    using assms False host i by (auto simp: resolve_hostname_def res_elims Let_def)
  obtain r s3 where r: "generate_random_id16 ?s1 = (r, s3)" by (cases "generate_random_id16 ?s1")
  have "s2 = s3\<lparr>last_query_id := ucast r\<rparr>" using s2(1) r by (auto simp: dns_write_header_def res_elims Let_def)
  then have "quiet s3 s2" by (simp add: quiet_def wf_net_def)
  then have "sstep ?s1 s2" using quiet_id16 [OF r] quiet_trans sstep_quiet by blast
  moreover have "sstep s2 s'" using quiet_send_packet [OF s2(2)] sstep_quiet by blast
  ultimately show ?thesis using sstep_trans by blast
qed

lemma sstep_send_sync [sstep]: "send_sync sid s = Inr s' \<Longrightarrow> sstep s s'"
  by (auto simp: send_sync_def res_elims intro: sstep_quiet quiet)

lemma sstep_tcp_send_data [sstep]: "tcp_send_data data sid s = Inr s' \<Longrightarrow> sstep s s'"
  by (auto simp: tcp_send_data_def res_elims Let_def intro: sstep_quiet quiet)

lemma sstep_send_fin_ack [sstep]:
  assumes "send_fin_ack sid s = Inr s'"
  shows "sstep s s'"
proof -
  from assms obtain k info where k: "socks s sid = Some k"
    "send_packet info (put_sock sid (k\<lparr>seq_num := seq_num k + 1, tcp_st := FIN_WAIT_1\<rparr>) s) = Inr s'"
    by (auto simp: send_fin_ack_def res_elims get_sock_Inr)
  have "sstep s (put_sock sid (k\<lparr>seq_num := seq_num k + 1, tcp_st := FIN_WAIT_1\<rparr>) s)" using k(1) by (rule sstep_put) simp
  then show ?thesis using quiet_send_packet [OF k(2)] sstep_quiet sstep_trans by blast
qed

lemma sstep_initialize [sstep]:
  assumes "initialize sid s = Inr s'"
  shows "sstep s s'"
proof -
  from assms obtain k where k: "socks s sid = Some k" "send_sync sid (put_sock sid (k\<lparr>tcp_st := SYN_SENT\<rparr>) s) = Inr s'"
    by (auto simp: initialize_def res_elims get_sock_Inr)
  have "sstep s (put_sock sid (k\<lparr>tcp_st := SYN_SENT\<rparr>) s)" using k(1) by (rule sstep_put) simp
  then show ?thesis using sstep_send_sync [OF k(2)] sstep_trans by blast
qed

lemma sstep_send_data [sstep]:
  assumes "send_data data sid s = Inr s'"
  shows "sstep s s'"
proof -
  from assms obtain k where k: "socks s sid = Some k" by (auto simp: send_data_def res_elims get_sock_Inr)
  show ?thesis
  proof (cases "tcp_st k = CLOSED")
    case True
    let ?s = "put_sock sid (k\<lparr>start_packet := Some data\<rparr>) s"
    have "sstep s ?s" using k by (rule sstep_put) simp
    moreover have "sstep ?s s'" using assms k True sstep_resolve_hostname sstep_initialize
      by (cases "peer_ip k = null_ip") (simp_all add: send_data_def Let_def)
    ultimately show ?thesis by (rule sstep_trans)
  next
    case False
    with assms k obtain s1 k1 where s1: "tcp_send_data data sid s = Inr s1" "socks s1 sid = Some k1"
      "s' = put_sock sid (k1\<lparr>seq_num := seq_num k1 + word_of_nat (length data)\<rparr>) s1"
      by (auto simp: send_data_def res_elims get_sock_Inr)
    have "sstep s1 s'" unfolding s1(3) using s1(2) by (rule sstep_put) simp
    then show ?thesis using sstep_tcp_send_data [OF s1(1)] sstep_trans by blast
  qed
qed

lemma sstep_send_start_packet [sstep]: "send_start_packet sid s = Inr s' \<Longrightarrow> sstep s s'"
  by (auto simp: send_start_packet_def res_elims intro: sstep_send_data)

lemma sstep_on_hostname_resolved [sstep]:
  assumes "on_hostname_resolved addr sid s = Inr s'"
  shows "sstep s s'"
proof -
  from assms obtain k a where k: "socks s sid = Some k" "send_start_packet sid (put_sock sid (k\<lparr>peer_ip := a\<rparr>) s) = Inr s'"
    by (auto simp: on_hostname_resolved_def res_elims get_sock_Inr split: option.splits)
  have "sstep s (put_sock sid (k\<lparr>peer_ip := a\<rparr>) s)" using k(1) by (rule sstep_put) simp
  then show ?thesis using sstep_send_start_packet [OF k(2)] sstep_trans by blast
qed

lemma sstep_send_reset [sstep]: "send_reset src m sid s = Inr s' \<Longrightarrow> sstep s s'"
  by (auto simp: send_reset_def res_elims intro: sstep_quiet quiet)

lemma sstep_send_ack [sstep]:
  assumes "send_ack pkt sz fin src m upd sid s = Inr s'" "\<And>k. port (upd k) = port k"
  shows "sstep s s'"
proof -
  from assms(1) obtain k info a where k: "socks s sid = Some k" "send_packet info (put_sock sid (upd (k\<lparr>ack_num := a\<rparr>)) s) = Inr s'"
    by (auto simp: send_ack_def acknowledge_def Let_def res_elims get_sock_Inr)
  have "sstep s (put_sock sid (upd (k\<lparr>ack_num := a\<rparr>)) s)" using k(1) by (rule sstep_put) (simp add: assms(2))
  then show ?thesis using quiet_send_packet [OF k(2)] sstep_quiet sstep_trans by blast
qed

section \<open>Creating and deleting sockets\<close>

lemma port_used_None:
  assumes "port_used p s = None" "sock_inv s" "socks s sid = Some k"
  shows "port k \<noteq> p"
proof -
  have "sid \<in> set (l_head (sockets s))" using assms(2,3) by (auto simp: sock_inv_def)
  then show ?thesis using assms(1,3) by (auto simp: port_used_def find_None_iff split: option.splits)
qed

lemma pick_port_ok:
  assumes "pick_port p s = Some (p', s')"
  shows "quiet s s'" "port_used p' s' = None"
proof -
  have "(\<lambda>(p, t). quiet s t) (p', s')"
  proof (rule while_option_rule [OF _ assms [unfolded pick_port_def], of "\<lambda>(p, t). quiet s t"])
    show "case case t of (p, t) \<Rightarrow> random_ephemeral_port t of (p, t) \<Rightarrow> quiet s t" if "case t of (p, t) \<Rightarrow> quiet s t" for t
      using that quiet_port quiet_trans by (cases t) (fastforce split: prod.splits)
  qed simp
  then show "quiet s s'" by simp
  show "port_used p' s' = None" using while_option_stop [OF assms [unfolded pick_port_def]] by simp
qed

lemma inv_new_socket:
  assumes "new_socket addr pp s = Inr (sid, s')" "net_inv s"
  shows "net_inv s' \<and> sid \<in> set (l_head (sockets s'))"
proof -
  obtain p s1 where p: "random_ephemeral_port s = (p, s1)" by (cases "random_ephemeral_port s")
  obtain q s2 where q: "generate_random_id32 s1 = (q, s2)" by (cases "generate_random_id32 s1")
  from assms(1) p q obtain p' s3 where r: "pick_port p s2 = Some (p', s3)"
    by (auto simp: new_socket_def Let_def split: option.splits)
  have "quiet s s3" using quiet_port [OF p] quiet_id32 [OF q] pick_port_ok(1) [OF r] quiet_trans by blast
  then have inv: "net_inv s3" using assms(2) quiet_inv by blast
  then have free: "socks s3 i = Some k \<Longrightarrow> port k \<noteq> p'" for i k
    using port_used_None [OF pick_port_ok(2) [OF r]] by (auto simp: net_inv_def)
  have new: "socks s3 (next_sock s3) = None" using inv by (auto simp: net_inv_def sock_inv_def)
  define k where "k = \<lparr>hostname = None, port = p', peer_port = pp, sock_ip = net_ip s3, peer_ip = addr, tcp_st = CLOSED, seq_num = q, ack_num = 0,
    listener = False, start_packet = None\<rparr>"
  have k: "port k = p'" "sid = next_sock s3"
    "s' = s3\<lparr>sockets := list_add (next_sock s3) (sockets s3), socks := (socks s3)(next_sock s3 := Some k), next_sock := Suc (next_sock s3)\<rparr>"
    using assms(1) p q r by (auto simp: new_socket_def Let_def k_def)
  have old: "distinct (l_head (sockets s3))" "\<And>i. socks s3 i \<noteq> None \<longleftrightarrow> i \<in> set (l_head (sockets s3))"
    "\<And>i. i \<in> set (l_head (sockets s3)) \<Longrightarrow> i < next_sock s3"
    "\<And>i j h h'. socks s3 i = Some h \<Longrightarrow> socks s3 j = Some h' \<Longrightarrow> port h = port h' \<Longrightarrow> i = j"
    using inv unfolding net_inv_def sock_inv_def by blast+
  have "distinct (l_head (sockets s'))" using old(1) old(2) [of "next_sock s3"] new by (auto simp: k(3))
  moreover have "socks s' i \<noteq> None \<longleftrightarrow> i \<in> set (l_head (sockets s'))" for i using old(2) by (auto simp: k(3))
  moreover have "i < next_sock s'" if "i \<in> set (l_head (sockets s'))" for i using that old(3) [of i] by (auto simp: k(3))
  moreover have "i = j" if "socks s' i = Some h" "socks s' j = Some h'" "port h = port h'" for i j h h'
    using that old(4) free k(1) by (auto simp: k(3) split: if_splits)
  ultimately have "sock_inv s'" unfolding sock_inv_def by blast
  then show ?thesis using inv by (simp add: k(2,3) net_inv_def dns_inv_def wf_net_def)
qed

lemma inv_delete_socket:
  assumes "delete_socket sid s = Inr s'" "net_inv s"
  shows "net_inv s'"
proof -
  obtain k where k: "socks s sid = Some k"
    "s' = s\<lparr>sockets := snd (list_remove sid (sockets s)), socks := (socks s)(sid := None)\<rparr>"
    using assms(1) by (auto simp: delete_socket_def res_elims get_sock_Inr)
  have "sid \<in> set (l_head (sockets s))" using assms(2) k(1) by (auto simp: net_inv_def sock_inv_def)
  then have "l_head (snd (list_remove sid (sockets s))) = remove1 sid (l_head (sockets s))" by (simp add: list_remove_eq)
  then have "sock_inv s'" using assms(2) unfolding k(2) net_inv_def sock_inv_def by (auto split: if_splits)
  then show ?thesis using assms(2) by (simp add: k(2) net_inv_def dns_inv_def wf_net_def)
qed

lemma inv_reset_response_socket:
  assumes "reset_response_socket a pp q s = Inr (sid, s')" "net_inv s"
  shows "net_inv s'"
proof -
  from assms(1) obtain s1 k where s1: "new_socket a pp s = Inr (sid, s1)" "socks s1 sid = Some k" "s' = put_sock sid (k\<lparr>ack_num := q + 1\<rparr>) s1"
    by (auto simp: reset_response_socket_def res_elims get_sock_Inr)
  have "net_inv s1" using inv_new_socket [OF s1(1) assms(2)] by simp
  then show ?thesis unfolding s1(3) using s1(2) by (rule inv_put_sock) simp
qed

section \<open>Answers to DNS requests\<close>

lemma inv_dns_clear:
  assumes "net_inv s" "i < 10" "dns_pending s ! i = Some e"
  shows "net_inv (s\<lparr>dns_pending_size := dns_pending_size s - 1, dns_pending := (dns_pending s)[i := None]\<rparr>)"
proof -
  have "Suc (in_use ((dns_pending s)[i := None])) = in_use (dns_pending s)"
    using assms by (intro in_use_clear) (auto simp: net_inv_def dns_inv_def)
  then show ?thesis using assms(1) by (auto simp: net_inv_def dns_inv_def sock_inv_def wf_net_def)
qed

lemma inv_dns:
  assumes "dns_handle_packet udp s = Inr (b, s')" "net_inv s"
  shows "net_inv s'"
proof (cases "s' = s")
  case False
  with assms(1) obtain i sid name addr s1 where i: "i < 10" "dns_pending s ! i = Some (sid, name)" and s1: "on_hostname_resolved addr sid s = Inr s1"
      "s' = s1\<lparr>dns_pending_size := dns_pending_size s1 - 1, dns_pending := (dns_pending s1)[i := None]\<rparr>"
    by (auto simp: dns_handle_packet_def Let_def res_elims split: if_splits option.splits)
  from sstep_on_hostname_resolved [OF s1(1)] have "net_inv s1" "dns_pending s1 ! i = Some (sid, name)"
    using assms(2) i by (auto simp: sstep_def)
  then show ?thesis unfolding s1(2) using i(1) by (intro inv_dns_clear)
qed (use assms in simp)

definition inv_after :: "'l net res \<Rightarrow> bool" where
  "inv_after r \<longleftrightarrow> (\<forall>s'. r = Inr s' \<longrightarrow> net_inv s')"

lemma inv_after_if: "(c \<Longrightarrow> inv_after a) \<Longrightarrow> (\<not> c \<Longrightarrow> inv_after b) \<Longrightarrow> inv_after (if c then a else b)"
  by simp

lemma inv_after_bind: "(\<And>x. r = Inr x \<Longrightarrow> inv_after (f x)) \<Longrightarrow> inv_after (bind_res r f)"
  by (cases r) (auto simp: inv_after_def)

lemma inv_after_Inr: "net_inv s \<Longrightarrow> inv_after (Inr s)"
  by (simp add: inv_after_def)

lemma inv_after_Inl: "inv_after (Inl e)"
  by (simp add: inv_after_def)

lemma inv_after_bind_pair: "(\<And>x t. r = Inr (x, t) \<Longrightarrow> inv_after (f x t)) \<Longrightarrow> inv_after (bind_res r (\<lambda>(x, t). f x t))"
  by (cases r) (auto simp: inv_after_def)

lemma inv_udp:
  assumes "net_inv s" "28 \<le> length pkt"
  shows "inv_after (udp_handle_packet pkt n s)"
proof -
  have dhcp: "net_inv s'" if "dhcp_handle_packet pkt s = Inr (b, s')" for b s'
    using quiet_dhcp [OF that assms(2)] assms(1) quiet_inv by blast
  have tp: "net_inv s2" if "tp_handle_packet pkt s1 = Inr (b, s2)" "net_inv s1" for b s1 s2
    using quiet_tp [OF that(1)] that(2) quiet_inv by blast
  show ?thesis unfolding udp_handle_packet_def
    by (intro inv_after_if inv_after_bind_pair inv_after_Inr inv_after_Inl assms(1)) (use dhcp tp inv_dns in blast)+
qed

section \<open>Listeners\<close>

text \<open>What the network code needs of a listener: its callbacks keep the invariant, whatever they do otherwise.\<close>

locale quiet_end =
  fixes ended :: "nat \<Rightarrow> string option \<Rightarrow> 'l net \<Rightarrow> 'l net res"
  assumes term_inv: "ended sid msg s = Inr s' \<Longrightarrow> net_inv s \<Longrightarrow> net_inv s'"
begin

lemma inv_sock_close:
  assumes "sock_close ended msg sid s = Inr s'" "net_inv s"
  shows "net_inv s'"
proof -
  from assms(1) obtain k where k: "socks s sid = Some k"
    "(if listener k then ended sid msg (put_sock sid (k\<lparr>tcp_st := CLOSED\<rparr>) s)
      else Inr (put_sock sid (k\<lparr>tcp_st := CLOSED\<rparr>) s)) = Inr s'"
    by (auto simp: sock_close_def res_elims get_sock_Inr Let_def)
  have "net_inv (put_sock sid (k\<lparr>tcp_st := CLOSED\<rparr>) s)" using assms(2) k(1) by (rule inv_put_sock) simp
  then show ?thesis using k(2) term_inv by (cases "listener k") auto
qed

lemma inv_after_close: "net_inv s \<Longrightarrow> inv_after (sock_close ended msg sid s)"
  using inv_sock_close unfolding inv_after_def by blast

end

locale quiet_listener = quiet_end "on_connection_terminated L" for L :: "'l tcp_listener" +
  assumes data_inv: "on_data_received L sid b n s = Inr s' \<Longrightarrow> net_inv s \<Longrightarrow> net_inv s'"
begin

lemma inv_deliver: "deliver L pkt sz sid s = Inr s' \<Longrightarrow> net_inv s \<Longrightarrow> net_inv s'"
  using data_inv by (auto simp: deliver_def res_elims split: if_splits)

lemma inv_sock_handle_packet:
  assumes "net_inv s"
  shows "inv_after (sock_handle_packet L pkt sz src m sid s)"
proof (cases "get_sock sid s")
  case (Inr k)
  then have put: "net_inv (put_sock sid (k\<lparr>seq_num := x\<rparr>) s)" for x
    using assms by (intro inv_put_sock) (auto simp: get_sock_Inr)
  have reset: "net_inv s1" if "send_reset src m sid s = Inr s1" for s1
    using sstep_send_reset [OF that] assms by (simp add: sstep_def)
  have ack: "net_inv s2" if "send_ack pkt sz fin src m upd sid s1 = Inr s2" "net_inv s1" "\<And>k. port (upd k) = port k" for s1 s2 fin upd
    using sstep_send_ack [OF that(1,3)] that(2) by (simp add: sstep_def)
  have start: "inv_after (send_start_packet sid s1)" if "net_inv s1" for s1
    using sstep_send_start_packet that unfolding inv_after_def sstep_def by blast
  have deliver: "inv_after (deliver L pkt sz sid s1)" if "net_inv s1" for s1
    using inv_deliver that unfolding inv_after_def by blast
  show ?thesis
    unfolding sock_handle_packet_def Let_def Inr bind_res.simps
    by (intro inv_after_if inv_after_bind inv_after_Inr inv_after_close deliver start assms)
      (auto intro: reset ack put assms simp: inv_after_def split: if_splits)
qed (simp add: sock_handle_packet_def Let_def inv_after_def)

lemma inv_tcp_handle_packet:
  assumes "net_inv s"
  shows "inv_after (tcp_handle_packet L pkt sz src m s)"
proof (cases "port_used (switch16 (tcp_dest_port (decode_tcp pkt))) s")
  case None
  show ?thesis unfolding inv_after_def
  proof (intro allI impI)
    fix s' assume "tcp_handle_packet L pkt sz src m s = Inr s'"
    with None obtain sid s1 info s2 where "reset_response_socket (w32 src) (switch16 (tcp_src_port (decode_tcp pkt))) (switch32 (tcp_seq (decode_tcp pkt))) s = Inr (sid, s1)"
      "delete_socket sid s1 = Inr s2" "send_packet info s2 = Inr s'"
      by (auto simp: tcp_handle_packet_def Let_def bind_res_Inr_iff)
    then show "net_inv s'" using assms inv_reset_response_socket inv_delete_socket quiet_send_packet quiet_inv by blast
  qed
qed (use assms inv_sock_handle_packet in \<open>simp add: tcp_handle_packet_def\<close>)

lemma inv_ipv4_handle_packet:
  assumes "net_inv s" "48 \<le> length pkt"
  shows "inv_after (ipv4_handle_packet L pkt m s)"
proof -
  have icmp: "inv_after (icmp_handle_packet q n src m s)" for q n src
    using quiet_icmp quiet_inv assms(1) unfolding inv_after_def by blast
  have udp: "inv_after (udp_handle_packet (drop 20 pkt) n s)" for n
    using assms by (intro inv_udp) auto
  show ?thesis unfolding ipv4_handle_packet_def Let_def
    by (intro inv_after_if inv_after_Inr icmp udp inv_tcp_handle_packet assms)
qed

lemma inv_eth_handle_packet:
  assumes "net_inv s" "62 \<le> length buf"
  shows "inv_after (eth_handle_packet L buf sz s)"
proof -
  have arp: "inv_after (arp_handle_packet (drop 14 buf) m s)" for m
    using quiet_arp [of "drop 14 buf" m s] quiet_inv assms unfolding inv_after_def by fastforce
  show ?thesis unfolding eth_handle_packet_def Let_def
    using assms by (intro inv_after_if inv_after_Inr arp inv_ipv4_handle_packet) auto
qed

lemma inv_pollRx:
  assumes "pollRx n L ring cur s = Inr (ring', cur', s')" "net_inv s" "\<forall>d \<in> set ring. 62 \<le> length (rx_buf d)" "cur < length ring"
  shows "net_inv s'"
  using assms
proof (induction n arbitrary: ring cur s)
  case (Suc n)
  show ?case
  proof (cases "rx_status (ring ! cur) AND 1 = 0")
    case False
    with Suc.prems(1) obtain s1 where s1: "eth_handle_packet L (rx_buf (ring ! cur)) (rx_length (ring ! cur)) s = Inr s1"
      "pollRx n L (ring[cur := (ring ! cur)\<lparr>rx_status := 0\<rparr>]) ((cur + 1) mod length ring) s1 = Inr (ring', cur', s')"
      by (auto simp: Let_def bind_res_Inr_iff)
    have "net_inv s1" using inv_eth_handle_packet [of s "rx_buf (ring ! cur)"] Suc.prems(2-4) s1(1) by (auto simp: inv_after_def)
    moreover have "\<forall>d \<in> set (ring[cur := (ring ! cur)\<lparr>rx_status := 0\<rparr>]). 62 \<le> length (rx_buf d)"
      using Suc.prems(3,4) by (auto dest!: set_update_subset_insert [THEN subsetD])
    moreover have "(cur + 1) mod length ring < length ring" using Suc.prems(4) by (intro mod_less_divisor) auto
    ultimately show ?thesis using Suc.IH [OF s1(2)] by simp
  qed (use Suc.prems in \<open>simp add: Let_def\<close>)
qed simp

end

end
