(* ===== verification/NetProperties.thy ===== *)
theory NetProperties
  imports NetInv
begin

text \<open>
  The properties of the network stack: the answer to a ping, the segments of TCP and its handshake, what becomes of packets
  that wait for an address, and the date that the time protocol gives.
\<close>

section \<open>A host\<close>

text \<open>A host with address 10.0.2.15 and gateway 10.0.2.2 whose hardware address is known, to which the theorems are applied.\<close>

definition demo_net :: "'l \<Rightarrow> 'l net" where
  "demo_net l = (net_init (\<lambda>i. word_of_nat (1000 * i)) l)\<lparr>nic := True, net_ip := [10, 0, 2, 15], gateway_ip := [10, 0, 2, 2], subnet_mast := [255, 255, 255, 0],
     mac := [0x52, 0x54, 0, 0x12, 0x34, 0x56], gateway_mac := [0x52, 0x55, 10, 0, 2, 2],
     arp_cache := replicate 10 ([10, 0, 2, 2], [0x52, 0x55, 10, 0, 2, 2])\<rparr>"

lemma demo_net_simps [simp]:
  "nic (demo_net l)" "net_ip (demo_net l) = [10, 0, 2, 15]" "mac (demo_net l) = [0x52, 0x54, 0, 0x12, 0x34, 0x56]" "wf_net (demo_net l)"
  "sent (demo_net l) = []" "gateway_ip (demo_net l) = [10, 0, 2, 2]" "gateway_mac (demo_net l) = [0x52, 0x55, 10, 0, 2, 2]"
  by (simp_all add: demo_net_def wf_net_def net_init_def)

definition silent_listener :: "'l tcp_listener" where
  "silent_listener = \<lparr>on_data_received = (\<lambda>_ _ _ s. Inr s), on_connection_terminated = (\<lambda>_ _ s. Inr s)\<rparr>"

section \<open>Ping\<close>

text \<open>
  C21. Ping: a frame for this host that carries an ICMP echo request with a right checksum, of the length that its IP header gives, is
  answered with exactly one frame. The answer goes to the hardware address the request came from and to the IP address of its sender, who
  accepts its IP header as valid; it repeats identifier, sequence number and data, and its checksum is right. The length of
  the frame that was received is never compared with the length in the IP header: the answer repeats as many bytes of the receive
  buffer as that header says.
\<close>
theorem ping_answered:
  assumes "wf_net s" "nic s" "length dst = 6" "length src = 6" "src \<noteq> null_mac" "\<not> sz < 14"
    and "ipv4_packet_valid (encode_ipv4 h @ [8, 0] @ w16 c @ data @ rest) s" "proto h = 1"
    and "switch16 (ip_len h) = 20 + n" "unat n = 4 + length data" "unat n \<le> 65501" "checksum ([8, 0] @ w16 c @ data) = 0"
  shows "eth_handle_packet L (dst @ src @ w16 (switch16 0x0800) @ encode_ipv4 h @ [8, 0] @ w16 c @ data @ rest) sz s =
      Inr (s\<lparr>sent := sent s @ [eth_head src 0x0800 s @ encode_ipv4 (ip_head n 1 (saddr h) s) @ echo_reply data]\<rparr>)
      \<and> checksum (echo_reply data) = 0
      \<and> (get32 0 (net_ip r) = saddr h \<longrightarrow> ipv4_packet_valid (encode_ipv4 (ip_head n 1 (saddr h) s) @ echo_reply data) r)"
proof -
  let ?pkt = "encode_ipv4 h @ [8, 0] @ w16 c @ data @ rest"
  have ihl: "get_ihl h = 5" using assms(7) by (simp add: ipv4_packet_valid_def Let_def)
  have "unat (20 + n) = 20 + unat n" using assms(11) unat_plus16 [of 20 n] by simp
  then have sub: "ucast (20 + n) - word_of_nat 20 = (ucast n :: u32)"
    using assms(11) by (simp add: word_unat_eq_iff unat_sub_if' unsigned_ucast_eq take_bit_eq_mod)
  have "header_bytes h = 20" using ihl by (simp add: header_bytes_def)
  moreover have "ucast (ucast n :: u32) = n"
    by (rule bit_word_eqI) (simp add: bit_simps)
  ultimately have n: "ucast ((ucast (switch16 (ip_len h)) :: u32) - word_of_nat (header_bytes h)) = n"
    unfolding assms(9) by (simp only: sub)
  have ip: "ipv4_handle_packet L ?pkt src s = icmp_handle_packet ([8, 0] @ w16 c @ data @ rest) n (saddr h) src s"
    using assms(7,8) n by (simp add: ipv4_handle_packet_def Let_def)
  have "eth_handle_packet L (dst @ src @ w16 (switch16 0x0800) @ ?pkt) sz s = ipv4_handle_packet L ?pkt src s"
    using assms(3,4,6) by (simp add: eth_handle_packet_def Let_def get_simps)
  then have "eth_handle_packet L (dst @ src @ w16 (switch16 0x0800) @ ?pkt) sz s =
      Inr (s\<lparr>sent := sent s @ [eth_head src 0x0800 s @ encode_ipv4 (ip_head n 1 (saddr h) s) @ echo_reply data]\<rparr>)"
    unfolding ip using icmp_echo_ok [OF assms(4,5) _ assms(2,10,11,12)] assms(1) by (simp add: wf_net_def)
  moreover have "checksum (echo_reply data) = 0" using assms(10,11) by (intro checksum_echo_reply) simp
  moreover have "get32 0 (net_ip r) = saddr h \<longrightarrow> ipv4_packet_valid (encode_ipv4 (ip_head n 1 (saddr h) s) @ echo_reply data) r"
    by (intro impI ip_head_valid) auto
  ultimately show ?thesis by blast
qed

lemma ping_checksum_demo: "checksum ([8, 0] @ w16 0xFFF7 @ []) = 0"
  by (simp add: checksum_zero_iff)

text \<open>Here the frame is said to have 14 bytes only: the answer is the same.\<close>

theorem ping_answered_witness:
  "\<exists>s'. eth_handle_packet silent_listener ([0x52, 0x54, 0, 0x12, 0x34, 0x56] @ [0x52, 0x55, 10, 0, 2, 2] @ w16 (switch16 0x0800) @
      encode_ipv4 (ip_head 4 1 (get32 0 [10, 0, 2, 15]) (demo_net ())) @ [8, 0] @ w16 0xFFF7 @ [] @ []) 14 (demo_net ()) = Inr s' \<and> length (sent s') = 1"
proof -
  let ?h = "ip_head 4 1 (get32 0 [10, 0, 2, 15]) (demo_net ())"
  have "ipv4_packet_valid (encode_ipv4 ?h @ [8, 0] @ w16 0xFFF7 @ [] @ []) (demo_net ())" by (rule ip_head_valid) simp_all
  from ping_answered [where L = silent_listener and r = "demo_net ()", OF _ _ _ _ _ _ this _ _ _ _ ping_checksum_demo, of "[0x52, 0x54, 0, 0x12, 0x34, 0x56]" "[0x52, 0x55, 10, 0, 2, 2]" 14 4]
  show ?thesis by simp
qed

section \<open>TCP\<close>

text \<open>
  C34. TCP data: sending data on a socket whose peer is in the table of hardware addresses or outside of the subnet hands exactly one frame to the
  network card, addressed to the next hop. Its IP header is valid for the peer, its TCP header has the ports and numbers of the socket
  with the flags PSH and ACK, the data follows the header, and the checksum over pseudo header and segment, which the code adds up from two
  complements, is right.
\<close>
theorem tcp_data_sent:
  assumes "wf_net s" "nic s" "socks s sid = Some k" "has_route (peer_ip k) s" "length data \<le> 65000"
  shows "\<exists>seg h. tcp_send_data data sid s = Inr (s\<lparr>sent := sent s @ [eth_head (next_hop (peer_ip k) s) 0x0800 s @ encode_ipv4 h @ seg]\<rparr>) \<and>
    (net_ip r = peer_ip k \<longrightarrow> ipv4_packet_valid (encode_ipv4 h @ seg) r) \<and> proto h = 6 \<and> saddr h = get32 0 (net_ip s) \<and>
    tcp_src_port (decode_tcp seg) = switch16 (port k) \<and> tcp_dest_port (decode_tcp seg) = switch16 (peer_port k) \<and>
    tcp_seq (decode_tcp seg) = switch32 (seq_num k) \<and> tcp_ack (decode_tcp seg) = switch32 (ack_num k) \<and>
    tcp_flags (decode_tcp seg) = PSH OR ACK \<and> drop 20 seg = data \<and>
    checksum (tcp_pseudo (get32 0 (net_ip s)) (get32 0 (peer_ip k)) (length seg) @ seg) = 0"
proof -
  let ?seg = "tcp_segment k (PSH OR ACK) data s" and ?h = "ip_head (20 + word_of_nat (length data)) 6 (get32 0 (peer_ip k)) s"
  have "tcp_send_data data sid s = Inr (s\<lparr>sent := sent s @ [eth_head (next_hop (peer_ip k) s) 0x0800 s @ encode_ipv4 ?h @ ?seg]\<rparr>)"
    using tcp_send_data_ok [OF assms(1,2,5,3,4)] by (simp add: tcp_frame_def)
  moreover have "decode_tcp ?seg = (tcp_blank k (PSH OR ACK))\<lparr>tcp_checksum := tcp_checksum (decode_tcp ?seg)\<rparr>"
    using decode_tcp_segment(1) [of k "PSH OR ACK" data s "[]"] by simp
  then have "tcp_src_port (decode_tcp ?seg) = switch16 (port k) \<and> tcp_dest_port (decode_tcp ?seg) = switch16 (peer_port k) \<and>
      tcp_seq (decode_tcp ?seg) = switch32 (seq_num k) \<and> tcp_ack (decode_tcp ?seg) = switch32 (ack_num k) \<and> tcp_flags (decode_tcp ?seg) = PSH OR ACK"
    by (metis (no_types, lifting) tcp_blank_def tcp_header.select_convs(1-4,6) tcp_header.update_convs(8))
  moreover have "net_ip r = peer_ip k \<longrightarrow> ipv4_packet_valid (encode_ipv4 ?h @ ?seg) r" by (intro impI ip_head_valid) auto
  moreover have "drop 20 ?seg = data" by (rule decode_tcp_segment(2))
  moreover have "checksum (tcp_pseudo (get32 0 (net_ip s)) (get32 0 (peer_ip k)) (length ?seg) @ ?seg) = 0"
    using checksum_tcp_segment [OF assms(5)] by simp
  ultimately show ?thesis by (intro exI [of _ ?seg] exI [of _ ?h]) simp
qed

definition demo_sock :: "tcp_state \<Rightarrow> socket" where
  "demo_sock st = \<lparr>hostname = None, port = 50000, peer_port = 80, sock_ip = [10, 0, 2, 15], peer_ip = [10, 0, 2, 2], tcp_st = st, seq_num = 1, ack_num = 0,
     listener = False, start_packet = Some [0x47]\<rparr>"

lemma demo_route [simp]: "has_route (peer_ip (demo_sock st)) (demo_net l)"
proof -
  have "get_mac [10, 0, 2, 2] (demo_net l) = [0x52, 0x55, 10, 0, 2, 2]"
    using scan_cache.simps(2) [of 9 0 "[10, 0, 2, 2]" "demo_net l"] by (simp add: get_mac_def demo_net_def net_init_def)
  then show ?thesis by (simp add: has_route_def demo_sock_def)
qed

theorem tcp_data_sent_witness:
  "\<exists>s'. tcp_send_data [1, 2, 3] 0 (put_sock 0 (demo_sock ESTABLISHED) (demo_net ())) = Inr s' \<and> length (sent s') = 1"
  using tcp_data_sent [of "put_sock 0 (demo_sock ESTABLISHED) (demo_net ())" 0 "demo_sock ESTABLISHED" "[1, 2, 3]" "demo_net ()"]
  by auto

text \<open>
  C13. Handshake: a socket that has sent its SYN and receives a segment with the flag SYN (and none of URG and CWR) becomes established. It
  acknowledges the number of the peer plus one (plus the size of the payload), advances its own number by one, and sends, after the
  acknowledgement, the packet that was waiting for the connection; its number then counts the bytes of this packet. The flag ACK of the segment is not looked at.
\<close>
theorem tcp_handshake:
  assumes "wf_net s" "nic s" "length m = 6" "m \<noteq> null_mac" "socks s sid = Some k" "tcp_st k = SYN_SENT" "has_route (peer_ip k) s"
    and "start_packet k = Some data" "length data \<le> 65000"
    and "(ucast (tcp_flags (decode_tcp pkt)) :: u16) AND (0x100 OR 0x80 OR 0x20) = 0" "tcp_flags (decode_tcp pkt) AND SYN \<noteq> 0"
  shows "\<exists>s' k'. sock_handle_packet L pkt sz src m sid s = Inr s' \<and> socks s' sid = Some k' \<and> tcp_st k' = ESTABLISHED \<and>
    ack_num k' = switch32 (tcp_seq (decode_tcp pkt)) + seg_payload_size pkt sz + 1 \<and>
    seq_num k' = seq_num k + 1 + word_of_nat (length data) \<and>
    sent s' = sent s @ [tcp_frame m src (k'\<lparr>seq_num := seq_num k + 1\<rparr>) ACK [] s,
      tcp_frame (next_hop (peer_ip k) s) (get32 0 (peer_ip k)) (k'\<lparr>seq_num := seq_num k + 1\<rparr>) (PSH OR ACK) data s]"
proof -
  let ?k1 = "k\<lparr>seq_num := seq_num k + 1, ack_num := next_ack pkt sz\<rparr>"
  let ?k' = "?k1\<lparr>tcp_st := ESTABLISHED, seq_num := seq_num k + 1 + word_of_nat (length data)\<rparr>"
  have "tcp_flags (decode_tcp pkt) AND (SYN OR FIN) \<noteq> 0"
  proof
    assume "tcp_flags (decode_tcp pkt) AND (SYN OR FIN) = 0"
    then have "(tcp_flags (decode_tcp pkt) AND (SYN OR FIN)) AND SYN = 0" by simp
    then show False using assms(11) by (simp add: and.assoc)
  qed
  then have ack: "next_ack pkt sz = switch32 (tcp_seq (decode_tcp pkt)) + seg_payload_size pkt sz + 1" by (simp add: next_ack_def)
  have frame: "tcp_frame h d ?k1 f b s = tcp_frame h d (?k'\<lparr>seq_num := seq_num k + 1\<rparr>) f b s" for h d f b
    by (simp add: tcp_frame_def tcp_segment_def tcp_blank_def)
  let ?s' = "put_sock sid ?k' (s\<lparr>sent := sent s @ [tcp_frame m src ?k1 ACK [] s,
      tcp_frame (next_hop (peer_ip k) s) (get32 0 (peer_ip k)) ?k1 (PSH OR ACK) data s]\<rparr>)"
  have "sock_handle_packet L pkt sz src m sid s = Inr ?s'" by (rule handshake_ok [OF assms])
  moreover have "sent ?s' = sent s @ [tcp_frame m src (?k'\<lparr>seq_num := seq_num k + 1\<rparr>) ACK [] s,
      tcp_frame (next_hop (peer_ip k) s) (get32 0 (peer_ip k)) (?k'\<lparr>seq_num := seq_num k + 1\<rparr>) (PSH OR ACK) data s]"
    unfolding frame by simp
  ultimately show ?thesis using ack by (intro exI [of _ ?s'] exI [of _ ?k']) simp
qed

theorem tcp_handshake_witness:
  "\<exists>s' k'. sock_handle_packet silent_listener (encode_tcp ((tcp_blank (demo_sock SYN_SENT) 0x12)\<lparr>tcp_seq := 7\<rparr>)) 20 5 [0x52, 0x55, 10, 0, 2, 2] 0
      (put_sock 0 (demo_sock SYN_SENT) (demo_net ())) = Inr s' \<and> socks s' 0 = Some k' \<and> tcp_st k' = ESTABLISHED \<and> length (sent s') = 2"
proof -
  have dec: "decode_tcp (encode_tcp h) = h" for h using decode_encode_tcp [of h "[]"] by simp
  show ?thesis
    using tcp_handshake [of "put_sock 0 (demo_sock SYN_SENT) (demo_net ())" "[0x52, 0x55, 10, 0, 2, 2]" 0 "demo_sock SYN_SENT" "[0x47]"
        "encode_tcp ((tcp_blank (demo_sock SYN_SENT) 0x12)\<lparr>tcp_seq := 7\<rparr>)" silent_listener 20 5]
    by (auto simp: dec tcp_blank_def demo_sock_def demo_route [unfolded demo_sock_def, simplified])
qed

section \<open>The date\<close>

lemma years_loop_ok:
  "years_loop days year = (days', year') \<Longrightarrow> year \<le> year' \<and> days' < year_days year' \<and> days = (\<Sum>y = year..<year'. year_days y) + days'"
proof (induction days year rule: years_loop.induct)
  case (1 days year)
  show ?case
  proof (cases "year_days year \<le> days")
    case True
    have "years_loop (days - year_days year) (Suc year) = (days', year')"
      using 1(2) True by (simp add: years_loop.simps [of days year])
    with 1(1) True have IH: "Suc year \<le> year' \<and> days' < year_days year' \<and> days - year_days year = (\<Sum>y = Suc year..<year'. year_days y) + days'" by blast
    then have "(\<Sum>y = year..<year'. year_days y) = year_days year + (\<Sum>y = Suc year..<year'. year_days y)"
      by (simp add: sum.atLeast_Suc_lessThan)
    then have "days = (\<Sum>y = year..<year'. year_days y) + days'" using IH True by linarith
    then show ?thesis using IH by simp
  next
    case False
    then show ?thesis using 1(2) by (simp add: years_loop.simps [of days year])
  qed
qed

lemma months_loop_ok:
  "days < (\<Sum>i = month..<12. month_days year i) \<Longrightarrow> month \<le> 12 \<Longrightarrow>
    \<exists>days' month'. months_loop year days month = Inr (days', month') \<and> month \<le> month' \<and> month' < 12 \<and> days' < month_days year month' \<and>
      days = (\<Sum>i = month..<month'. month_days year i) + days'"
proof (induction year days month rule: months_loop.induct)
  case (1 year days month)
  have m: "month < 12" using 1(2,3) by (cases "month = 12") auto
  then have split: "(\<Sum>i = month..<12. month_days year i) = month_days year month + (\<Sum>i = Suc month..<12. month_days year i)"
    by (simp add: sum.atLeast_Suc_lessThan)
  show ?case
  proof (cases "month_days year month \<le> days")
    case True
    have "days - month_days year month < (\<Sum>i = Suc month..<12. month_days year i)" using 1(2) split True by simp
    moreover have "\<not> 12 \<le> month" "Suc month \<le> 12" using m by simp_all
    ultimately obtain days' month' where IH: "months_loop year (days - month_days year month) (Suc month) = Inr (days', month')" "Suc month \<le> month'"
      "month' < 12" "days' < month_days year month'" "days - month_days year month = (\<Sum>i = Suc month..<month'. month_days year i) + days'"
      using 1(1) True by blast
    have "(\<Sum>i = month..<month'. month_days year i) = month_days year month + (\<Sum>i = Suc month..<month'. month_days year i)"
      using IH(2) by (simp add: sum.atLeast_Suc_lessThan)
    then show ?thesis using IH True m by (intro exI [of _ days'] exI [of _ month']) (simp add: months_loop.simps [of year days month])
  next
    case False
    then show ?thesis using m by (intro exI [of _ days] exI [of _ month]) (simp add: months_loop.simps [of year days month])
  qed
qed

lemma months_of_year: "(\<Sum>i = 0..<12. month_days year i) = year_days year"
  by (simp add: month_days_def year_days_def numeral_eq_Suc sum.atLeast0_lessThan_Suc)

lemma leap_count:
  fixes S c q e n :: nat
  assumes "S + c = 365 * n + q + e" "D \<Longrightarrow> B" "B \<Longrightarrow> A"
  shows "S + (if A \<and> (\<not> B \<or> D) then 366 else 365) + (if B then Suc c else c) = 365 * Suc n + (if A then Suc q else q) + (if D then Suc e else e)"
  using assms by (cases A; cases B; cases D) auto

lemma div_step: "b = Suc a \<Longrightarrow> (a + Suc n) div k = (if (b + n) mod k = 0 then Suc ((a + n) div k) else (a + n) div k)"
  by (simp add: div_Suc)

text \<open>The days before a year, with the leap years of the Gregorian calendar counted by divisions.\<close>

lemma days_before_year: "(\<Sum>y = 1970..<1970 + n. year_days y) + (69 + n) div 100 = 365 * n + (1 + n) div 4 + (369 + n) div 400"
proof (induction n)
  case (Suc n)
  have leap: "is_leap_year (1970 + n) \<longleftrightarrow> (2 + n) mod 4 = 0 \<and> ((70 + n) mod 100 \<noteq> 0 \<or> (370 + n) mod 400 = 0)"
    unfolding is_leap_year_def by presburger
  have mods: "(370 + n) mod 400 = 0 \<Longrightarrow> (70 + n) mod 100 = 0" "(70 + n) mod 100 = 0 \<Longrightarrow> (2 + n) mod 4 = 0" by presburger+
  have "(1 + Suc n) div 4 = (if (2 + n) mod 4 = 0 then Suc ((1 + n) div 4) else (1 + n) div 4)"
    "(69 + Suc n) div 100 = (if (70 + n) mod 100 = 0 then Suc ((69 + n) div 100) else (69 + n) div 100)"
    "(369 + Suc n) div 400 = (if (370 + n) mod 400 = 0 then Suc ((369 + n) div 400) else (369 + n) div 400)"
    by (rule div_step, simp)+
  moreover have "(\<Sum>y = 1970..<1970 + Suc n. year_days y) =
      (\<Sum>y = 1970..<1970 + n. year_days y) + (if is_leap_year (1970 + n) then 366 else 365)"
    by (simp only: add_Suc_right sum.atLeastLessThan_Suc le_add1 year_days_def)
  ultimately show ?case unfolding leap by (simp only: leap_count [OF Suc mods])
qed simp

text \<open>
  C35. The date: for every time value that the time server may send, the loops over years and months end with a date of the Gregorian calendar: a month
  from 1 to 12, a day that the month has, hours, minutes and seconds in their ranges, and the day, counted from January 1st of 1970
  with the leap years by the rules of 4, 100 and 400, gives back the number of seconds since then (modulo \<open>2 ^ 32\<close>). The table of the months is
  never left.
\<close>
theorem date_of_time:
  "\<exists>year month day hours minutes seconds. convert_to_local_time t = Inr (year, month, day, hours, minutes, seconds) \<and>
    1970 \<le> year \<and> 1 \<le> month \<and> month \<le> 12 \<and> 1 \<le> day \<and> day \<le> month_days year (month - 1) \<and> hours < 24 \<and> minutes < 60 \<and> seconds < 60 \<and>
    (365 * (year - 1970) + (year - 1969) div 4 + (year - 1601) div 400 - (year - 1901) div 100 +
      (\<Sum>i = 0..<month - 1. month_days year i) + (day - 1)) * 86400 + hours * 3600 + minutes * 60 + seconds = sub32 t 2208988800"
proof -
  let ?t = "sub32 t 2208988800"
  obtain d year where y: "years_loop (?t div 86400) 1970 = (d, year)" by (cases "years_loop (?t div 86400) 1970")
  note yl = years_loop_ok [OF y]
  then have "d < (\<Sum>i = 0..<12. month_days year i)" by (simp add: months_of_year)
  from months_loop_ok [OF this] obtain d' month where m: "months_loop year d 0 = Inr (d', month)" "month < 12" "d' < month_days year month"
      "d = (\<Sum>i = 0..<month. month_days year i) + d'"
    by blast
  have "(\<Sum>y = 1970..<year. year_days y) = 365 * (year - 1970) + (year - 1969) div 4 + (year - 1601) div 400 - (year - 1901) div 100"
  proof -
    have "1970 + (year - 1970) = year" "69 + (year - 1970) = year - 1901" "1 + (year - 1970) = year - 1969" "369 + (year - 1970) = year - 1601" using yl by linarith+
    with days_before_year [of "year - 1970"] show ?thesis by (metis add_diff_cancel_right')
  qed
  then have days: "365 * (year - 1970) + (year - 1969) div 4 + (year - 1601) div 400 - (year - 1901) div 100 + (\<Sum>i = 0..<month. month_days year i) + d' = ?t div 86400"
    using yl m(4) by simp
  have split: "a div 86400 * 86400 + a div 3600 mod 24 * 3600 + a div 60 mod 60 * 60 + a mod 60 = a" for a :: nat
  proof -
    have "a mod 86400 = a div 3600 mod 24 * 3600 + a div 60 mod 60 * 60 + a mod 60"
      using mod_mult2_eq [of a 3600 24] mod_mult2_eq [of a 60 60] by simp
    then show ?thesis using div_mult_mod_eq [of a 86400] by (simp only: add.assoc)
  qed
  have conv: "convert_to_local_time t = Inr (year, month + 1, d' + 1, ?t div 3600 mod 24, ?t div 60 mod 60, ?t mod 60)"
    using y m(1) by (simp add: convert_to_local_time_def Let_def)
  show ?thesis
  proof (intro exI conjI, rule conv)
    show "1970 \<le> year" using yl by simp
    show "month + 1 \<le> 12" using m(2) by simp
    show "d' + 1 \<le> month_days year (month + 1 - 1)" using m(3) by simp
    show "(365 * (year - 1970) + (year - 1969) div 4 + (year - 1601) div 400 - (year - 1901) div 100 +
      (\<Sum>i = 0..<month + 1 - 1. month_days year i) + (d' + 1 - 1)) * 86400 + ?t div 3600 mod 24 * 3600 + ?t div 60 mod 60 * 60 + ?t mod 60 = ?t"
      unfolding add_diff_cancel_right' days by (rule split)
  qed simp_all
qed

section \<open>Packets that wait for an address\<close>

lemma for_n_add: "for_n body i (a + b) s = bind_res (for_n body i a s) (for_n body (i + a) b)"
proof (induction a arbitrary: i s)
  case (Suc a)
  then show ?case by (cases "body i s") simp_all
qed simp

lemma flush_entry_skip: "\<forall>info. arp_pending s ! i = Some info \<longrightarrow> daddr_of info \<noteq> w32 (srcpr p) \<Longrightarrow> flush_entry p i s = Inr s"
  by (auto simp: flush_entry_def split: option.splits)

lemma dest_of_blit: "length m = 6 \<Longrightarrow> dest_of (info\<lparr>packet := blit (packet info) 0 m\<rparr>) = m"
  by (simp add: dest_of_def blit_def)

lemma flush_entry_send:
  assumes "arp_pending s ! i = Some info" "daddr_of info = w32 (srcpr p)" "length (srchw p) = 6" "srchw p \<noteq> null_mac" "nic s"
  shows "flush_entry p i s = Inr (s\<lparr>sent := sent s @ [take (unat (psize info)) (blit (packet info) 0 (srchw p))], arp_pending := replicate 10 None\<rparr>)"
  using assms dest_of_blit [OF assms(3), of info] by (simp add: flush_entry_def Let_def send_packet_def sendPacket_def)

text \<open>
  C36. ARP: a reply from another host than the gateway enters the address into the cache and sends the first packet of the queue that waits for
  it, with the hardware address filled in. The queue is then cleared as a whole: every other packet that waits, for this address or
  for another one, is never sent.
\<close>
theorem arp_reply_sends_one:
  assumes "nic s" "length (srchw p) = 6" "length (dsthw p) = 6" "srchw p \<noteq> null_mac" "arp_is_valid p s" "switch16 (opcode p) \<noteq> 1"
    and "w32 (srcpr p) \<noteq> gateway_ip s" "i < 10" "arp_pending s ! i = Some info" "daddr_of info = w32 (srcpr p)"
    and "\<forall>j < i. \<forall>info'. arp_pending s ! j = Some info' \<longrightarrow> daddr_of info' \<noteq> w32 (srcpr p)"
  shows "arp_handle_packet (encode_arp p @ rest) m s =
    Inr ((arp_learn p s)\<lparr>sent := sent s @ [take (unat (psize info)) (blit (packet info) 0 (srchw p))], arp_pending := replicate 10 None\<rparr>)"
proof -
  let ?s = "arp_learn p s"
  let ?s' = "?s\<lparr>sent := sent s @ [take (unat (psize info)) (blit (packet info) 0 (srchw p))], arp_pending := replicate 10 None\<rparr>"
  have learn: "gateway_ip ?s = gateway_ip s" "arp_pending ?s = arp_pending s" "nic ?s = nic s" "sent ?s = sent s"
    by (simp_all add: arp_learn_def)
  have "for_n (flush_entry p) 0 i ?s = Inr ?s" using assms(11) learn by (intro for_n_noop flush_entry_skip) auto
  moreover have "flush_entry p i ?s = Inr ?s'" using flush_entry_send [of ?s i info p] assms learn by simp
  moreover have "for_n (flush_entry p) (Suc i) (9 - i) ?s' = Inr ?s'" by (intro for_n_noop flush_entry_skip) auto
  moreover have "for_n (flush_entry p) 0 10 ?s = for_n (flush_entry p) 0 (i + Suc (9 - i)) ?s" using assms(8) by simp
  ultimately have "for_n (flush_entry p) 0 10 ?s = Inr ?s'" unfolding for_n_add by simp
  then show ?thesis using assms learn by (simp add: arp_handle_packet_def decode_encode_arp Let_def)
qed

definition demo_waiting :: eth_packet_info where
  "demo_waiting = \<lparr>packet = replicate 30 0 @ [10, 0, 2, 3], psize = 34\<rparr>"

definition demo_reply :: arp_packet where
  "demo_reply = \<lparr>htype = 0, ptype = 0, hlen = 6, plen = 4, opcode = 0x200, srchw = [1, 2, 3, 4, 5, 6], srcpr = get32 0 [10, 0, 2, 3],
     dsthw = null_mac, dstpr = get32 0 [10, 0, 2, 15]\<rparr>"

theorem arp_reply_sends_one_witness:
  "\<exists>s'. arp_handle_packet (encode_arp demo_reply @ []) null_mac ((demo_net ())\<lparr>arp_pending := replicate 10 (Some demo_waiting)\<rparr>) = Inr s' \<and>
    length (sent s') = 1 \<and> arp_pending s' = replicate 10 None"
proof -
  have w: "w32 (get32 0 a) = a" if "length a = 4" for a using w32_get32 [of 0 a] that by simp
  show ?thesis
    using arp_reply_sends_one [of "(demo_net ())\<lparr>arp_pending := replicate 10 (Some demo_waiting)\<rparr>" demo_reply 0 demo_waiting "[]" null_mac]
    by (simp add: demo_reply_def demo_waiting_def daddr_of_def arp_is_valid_def w switch16_def arp_learn_def)
qed

end
