(* ===== verification/Http.thy ===== *)
theory Http
  imports Transport KString
begin

unbundle bit_operations_syntax

text \<open>
  The HTTP client (\<^verbatim>\<open>src/src/kernel/network/HTTP.cpp\<close>), the only listener of sockets in the kernel. An \<^verbatim>\<open>HTTP\<close> object owns its
  socket and is known by the socket's number; \<open>https\<close> is \<open>None\<close> for an object that was deleted, and an access to it is
  \<open>UseAfterFree\<close>. The files that \<^verbatim>\<open>VFS::write_buf_to_file\<close> is asked to save are appended to \<open>saved\<close>. A packet is given by the bytes of the
  receive buffer from its start on and by its size. The progress bar is not modelled.
\<close>

section \<open>State\<close>

datatype http_state = HTTP_CLOSED | GET_SENT | RECEIVING_CHUNK_LEN | RECEIVING_RESPONSE | RESPONSE_COMPLETE

datatype transfer = Regular | Chunked

record http =
  http_st :: http_state
  transfer_type :: transfer
  http_buf :: bytes
  buf_capacity :: u16
  buf_size :: u16
  current_chunk_size :: u16

record http_env =
  https :: "nat \<Rightarrow> http option"
  saved :: "(bytes \<times> bytes) list"

type_synonym hnet = "http_env net"

definition get_http :: "nat \<Rightarrow> hnet \<Rightarrow> http res" where
  "get_http sid s = (case https (listeners s) sid of None \<Rightarrow> Inl UseAfterFree | Some h \<Rightarrow> Inr h)"

definition put_http :: "nat \<Rightarrow> http option \<Rightarrow> hnet \<Rightarrow> hnet" where
  "put_http sid h s = s\<lparr>listeners := (listeners s)\<lparr>https := (https (listeners s))(sid := h)\<rparr>\<rparr>"

section \<open>Requests\<close>

record http_request =
  req_method :: bytes
  req_uri :: bytes
  req_version :: bytes
  req_headers :: "(bytes \<times> bytes) list"

abbreviation crlf :: bytes where
  "crlf \<equiv> [0x0D, 0x0A]"

definition get_request_size :: "http_request \<Rightarrow> nat" where
  "get_request_size r = length (req_method r) + 1 + length (req_uri r) + 1 + length (req_version r) + 2 +
     sum_list (map (\<lambda>(n, v). length n + length v + 4) (req_headers r)) + 2"

definition header_line :: "bytes \<times> bytes \<Rightarrow> bytes" where
  "header_line h = fst h @ [0x3A, 0x20] @ snd h @ crlf"

definition request_text :: "http_request \<Rightarrow> bytes" where
  "request_text r = req_method r @ [0x20] @ req_uri r @ [0x20] @ req_version r @ crlf @ concat (map header_line (req_headers r)) @ crlf"

text \<open>The text is written from the start of a zeroed buffer whose size has been cut to 16 bits.\<close>

definition http_create_packet :: "http_request \<Rightarrow> bytes res" where
  "http_create_packet r = write_at 0 (request_text r) (replicate (unat (word_of_nat (get_request_size r) :: u16)) 0)"

section \<open>Responses\<close>

record http_response =
  has_method :: bool
  status :: nat
  headers :: "(bytes \<times> bytes) list"

text \<open>\<open>find_char b c i len\<close> is the loop of \<open>find_char\<close> from offset \<open>i\<close> of \<open>b\<close> on; it looks at \<open>len + 1\<close> characters.\<close>

function find_char :: "bytes \<Rightarrow> u8 \<Rightarrow> nat \<Rightarrow> nat \<Rightarrow> nat option res" where
  "find_char b c i len =
    (if len < i then Inr None
     else if length b \<le> i then Inl OutOfBounds
     else if b ! i = c then Inr (Some i)
     else find_char b c (Suc i) len)"
  by pat_completeness auto
termination by (relation "measure (\<lambda>(b, c, i, len). length b - i)") auto

declare find_char.simps [simp del]

text \<open>Comparisons that are joined by \<open>&&\<close> read no character behind the first that differs.\<close>

fun match_chars :: "bytes \<Rightarrow> bytes \<Rightarrow> bool res" where
  "match_chars [] b = Inr True"
| "match_chars (c # cs) [] = Inl OutOfBounds"
| "match_chars (c # cs) (x # xs) = (if x = c then match_chars cs xs else Inr False)"

function count_loop :: "bytes \<Rightarrow> nat \<Rightarrow> nat \<Rightarrow> u16 \<Rightarrow> u16 res" where
  "count_loop b w len c =
    (if len < w then Inr 0xFFFF
     else bind_res (match_chars crlf (drop w b)) (\<lambda>eol.
       if \<not> eol then count_loop b (Suc w) len c
       else bind_res (match_chars crlf (drop (w + 2) b)) (\<lambda>end.
         if end then Inr (c + 1) else count_loop b (Suc w) len (c + 1))))"
  by pat_completeness auto
termination by (relation "measure (\<lambda>(b, w, len, c). Suc len - w)") auto

declare count_loop.simps [simp del]

definition count_headers :: "bytes \<Rightarrow> u16 \<Rightarrow> u16 res" where
  "count_headers b len = (if len < 4 then Inr 0xFFFF else count_loop b 0 (unat len) 0)"

definition DIGIT :: "u8 \<Rightarrow> bool" where
  "DIGIT c = (0x30 \<le> c \<and> c \<le> 0x39)"

definition parse_status_code :: "bytes \<Rightarrow> nat res" where
  "parse_status_code b =
    (if length b < 3 then Inl OutOfBounds
     else if \<not> (DIGIT (b ! 0) \<and> DIGIT (b ! 1) \<and> DIGIT (b ! 2)) then Inr 0
     else Inr ((unat (b ! 0) - 48) * 100 + (unat (b ! 1) - 48) * 10 + (unat (b ! 2) - 48)))"

text \<open>
  The loop over the headers, at \<open>b\<close> with \<open>rem\<close> bytes remaining. A separator that is not found is a null pointer, whose distance from the
  packet is then used as a length.
\<close>

primrec read_headers :: "nat \<Rightarrow> bytes \<Rightarrow> u16 \<Rightarrow> (bytes \<times> bytes) list res" where
  "read_headers 0 b rem = Inr []"
| "read_headers (Suc n) b rem = bind_res (find_char b 0x3A 0 (unat rem)) (\<lambda>e. case e of None \<Rightarrow> Inl NullDeref
   | Some nl \<Rightarrow> let b1 = drop (nl + 1) b; rem1 = rem - word_of_nat (nl + 1) in
     bind_res (find_char b1 0x0D 0 (unat rem1)) (\<lambda>e. case e of None \<Rightarrow> Inl NullDeref
     | Some vl \<Rightarrow> let value = (if nl \<noteq> 0 \<and> take 1 b1 = [0x20] then take (vl - 1) (drop 1 b1) else take vl b1) in
       bind_res (read_headers n (drop (vl + 2) b1) (rem1 - word_of_nat (vl + 2))) (\<lambda>hs.
       Inr ((take nl b, value) # hs))))"

abbreviation no_response :: http_response where
  "no_response \<equiv> \<lparr>has_method = False, status = 0, headers = []\<rparr>"

text \<open>The constructor deletes \<open>method\<close> on its error exits but leaves the pointer as it is.\<close>

definition parse_response :: "bytes \<Rightarrow> u16 \<Rightarrow> http_response res" where
  "parse_response p sz = bind_res (find_char p 0x20 0 (unat sz)) (\<lambda>e. case e of
     None \<Rightarrow> Inr no_response
   | Some ml \<Rightarrow> let rem = sz - word_of_nat (ml + 1); b = drop (ml + 1) p; failed = no_response\<lparr>has_method := True\<rparr> in
     if unat sz < unat rem + 3 then Inr failed
     else bind_res (parse_status_code b) (\<lambda>st. if st = 0 then Inr failed
     else let rem = rem - 4; b = drop 4 b in
       bind_res (find_char b 0x0D 0 (unat rem)) (\<lambda>e. case e of None \<Rightarrow> Inr failed
       | Some rl \<Rightarrow> let rem = rem - word_of_nat (rl + 2); b = drop (rl + 2) b in
         bind_res (count_headers b rem) (\<lambda>n. if n = 0xFFFF then Inr failed
         else bind_res (read_headers (unat n) b rem) (\<lambda>hs. Inr \<lparr>has_method = True, status = st, headers = hs\<rparr>)))))"

definition to_lower :: "u8 \<Rightarrow> u8" where
  "to_lower c = (if 0x41 \<le> c \<and> c \<le> 0x5A then c + 0x20 else c)"

definition get_header :: "bytes \<Rightarrow> http_response \<Rightarrow> bytes option" where
  "get_header name r = map_option (\<lambda>h. takeWhile (\<lambda>c. c \<noteq> 0) (snd h))
     (find (\<lambda>h. map to_lower (takeWhile (\<lambda>c. c \<noteq> 0) (fst h)) = map to_lower name) (headers r))"

section \<open>The end of a connection\<close>

abbreviation res_path :: bytes where
  "res_path \<equiv> [0x2F, 0x64, 0x6F, 0x77, 0x6E, 0x6C, 0x6F, 0x61, 0x64, 0x73, 0x2F, 0x72, 0x65, 0x73, 0x2E, 0x74, 0x78, 0x74]"

definition save_response :: "http \<Rightarrow> hnet \<Rightarrow> hnet" where
  "save_response h s = s\<lparr>listeners := (listeners s)\<lparr>saved := saved (listeners s) @ [(res_path, take (unat (buf_size h)) (http_buf h))]\<rparr>\<rparr>"

text \<open>The object deletes itself, and its socket with it.\<close>

definition http_terminated :: "nat \<Rightarrow> string option \<Rightarrow> hnet \<Rightarrow> hnet res" where
  "http_terminated sid msg s = bind_res (get_http sid s) (\<lambda>h.
     let s = (if msg = None \<and> buf_size h = buf_capacity h \<and> http_st h = RESPONSE_COMPLETE then save_response h s else s) in
     delete_socket sid (put_http sid None s))"

text \<open>The error exits close the socket, which ends the connection, and then set the state of the object.\<close>

definition http_fail :: "nat \<Rightarrow> hnet \<Rightarrow> hnet res" where
  "http_fail sid s = bind_res (sock_close http_terminated None sid s) (\<lambda>s.
     bind_res (get_http sid s) (\<lambda>h. Inr (put_http sid (Some (h\<lparr>http_st := HTTP_CLOSED\<rparr>)) s)))"

section \<open>Data\<close>

definition continuation_copy :: "bytes \<Rightarrow> u16 \<Rightarrow> http \<Rightarrow> http res" where
  "continuation_copy p sz h =
    (if length p < unat sz then Inl OutOfBounds
     else bind_res (write_at (unat (buf_size h)) (take (unat sz) p) (http_buf h)) (\<lambda>buf.
       let h = h\<lparr>http_buf := buf, buf_size := buf_size h + sz\<rparr> in
       Inr (if transfer_type h = Regular \<and> buf_size h = buf_capacity h then h\<lparr>http_st := RESPONSE_COMPLETE\<rparr> else h)))"

definition handle_response_continuation :: "bytes \<Rightarrow> u16 \<Rightarrow> nat \<Rightarrow> hnet \<Rightarrow> hnet res" where
  "handle_response_continuation p sz sid s = bind_res (get_http sid s) (\<lambda>h.
     if unat (buf_capacity h) < unat (buf_size h) + unat sz
     then if transfer_type h = Chunked \<and> unat (buf_size h) + unat sz = unat (buf_capacity h) + 2
          then bind_res (memcmp (drop (unat sz - 2) p) crlf 2) (\<lambda>c.
            if c \<noteq> 0 then http_fail sid s
            else if current_chunk_size h = 0 then Inr (put_http sid (Some (h\<lparr>http_st := RESPONSE_COMPLETE\<rparr>)) s)
            else bind_res (continuation_copy p (sz - 2) (h\<lparr>http_st := RECEIVING_CHUNK_LEN\<rparr>)) (\<lambda>h. Inr (put_http sid (Some h) s)))
          else http_fail sid s
     else bind_res (continuation_copy p sz h) (\<lambda>h. Inr (put_http sid (Some h) s)))"

text \<open>Digits are read by subtracting the character 0, which is a signed addition to an unsigned number.\<close>

definition add_digit :: "'a::len word \<Rightarrow> 'a word \<Rightarrow> u8 \<Rightarrow> 'a word" where
  "add_digit base n c = n * base + (scast c - 0x30)"

definition read_number :: "'a::len word \<Rightarrow> bytes \<Rightarrow> 'a word" where
  "read_number base ds = foldl (add_digit base) 0 ds"

definition handle_chunk_length :: "bytes \<Rightarrow> u16 \<Rightarrow> nat \<Rightarrow> hnet \<Rightarrow> (nat option \<times> hnet) res" where
  "handle_chunk_length p sz sid s = bind_res (memmem p (unat sz) crlf 2) (\<lambda>e. case e of
     None \<Rightarrow> bind_res (http_fail sid s) (\<lambda>s. Inr (None, s))
   | Some n \<Rightarrow> bind_res (get_http sid s) (\<lambda>h.
       Inr (Some (n + 2), put_http sid (Some (h\<lparr>current_chunk_size := read_number 16 (take n p)\<rparr>)) s)))"

text \<open>The body of the response that follows the headers: where it starts in the packet and how long it is.\<close>

datatype body = Fail | Body transfer u32 nat u16

abbreviation content_length :: bytes where
  "content_length \<equiv> [0x43, 0x6F, 0x6E, 0x74, 0x65, 0x6E, 0x74, 0x2D, 0x4C, 0x65, 0x6E, 0x67, 0x74, 0x68]"

abbreviation transfer_encoding :: bytes where
  "transfer_encoding \<equiv> [0x54, 0x72, 0x61, 0x6E, 0x73, 0x66, 0x65, 0x72, 0x2D, 0x45, 0x6E, 0x63, 0x6F, 0x64, 0x69, 0x6E, 0x67]"

abbreviation chunked :: bytes where
  "chunked \<equiv> [0x63, 0x68, 0x75, 0x6E, 0x6B, 0x65, 0x64]"

abbreviation location :: bytes where
  "location \<equiv> [0x4C, 0x6F, 0x63, 0x61, 0x74, 0x69, 0x6F, 0x6E]"

definition body_of :: "bytes \<Rightarrow> u16 \<Rightarrow> http_response \<Rightarrow> nat \<Rightarrow> http \<Rightarrow> body res" where
  "body_of p sz r start h = (case get_header content_length r of
     Some v \<Rightarrow> Inr (Body (transfer_type h) (read_number 10 v) start (current_chunk_size h))
   | None \<Rightarrow> (case get_header transfer_encoding r of
       None \<Rightarrow> Inr Fail
     | Some v \<Rightarrow> if v \<noteq> chunked then Inr Fail
         else bind_res (memmem (drop start p) (unat sz - start) crlf 2) (\<lambda>e. case e of
           None \<Rightarrow> Inr Fail
         | Some n \<Rightarrow> let len = read_number 16 (take n (drop start p)) in Inr (Body Chunked len (start + n + 2) (ucast len)))))"

definition start_body :: "bytes \<Rightarrow> u16 \<Rightarrow> transfer \<Rightarrow> u32 \<Rightarrow> nat \<Rightarrow> u16 \<Rightarrow> http \<Rightarrow> http res" where
  "start_body p sz tr len start chunk h = (let cap = ucast len :: u16; n = unat sz - start in
     if length p < start + n then Inl OutOfBounds
     else bind_res (write_at 0 (take n (drop start p)) (replicate (unat cap) 0)) (\<lambda>buf.
       Inr (h\<lparr>http_st := RECEIVING_RESPONSE, transfer_type := tr, http_buf := buf, buf_capacity := cap, buf_size := word_of_nat n,
              current_chunk_size := chunk\<rparr>)))"

definition handle_response_descriptor :: "bytes \<Rightarrow> u16 \<Rightarrow> nat \<Rightarrow> hnet \<Rightarrow> hnet res" where
  "handle_response_descriptor p sz sid s = bind_res (parse_response p sz) (\<lambda>r. bind_res (get_http sid s) (\<lambda>h.
     if \<not> has_method r then http_fail sid s
     else if \<not> (http_st h = GET_SENT \<and> status r = 200)
     then if status r = 301 \<and> get_header location r = None then Inl NullDeref else http_fail sid s
     else bind_res (memmem p (unat sz) (crlf @ crlf) 4) (\<lambda>e. case e of
       None \<Rightarrow> http_fail sid s
     | Some eoh \<Rightarrow> bind_res (body_of p sz r (eoh + 4) h) (\<lambda>b. case b of
         Fail \<Rightarrow> http_fail sid s
       | Body tr len start chunk \<Rightarrow> bind_res (start_body p sz tr len start chunk h) (\<lambda>h. Inr (put_http sid (Some h) s))))))"

definition http_data_received :: "nat \<Rightarrow> bytes \<Rightarrow> u16 \<Rightarrow> hnet \<Rightarrow> hnet res" where
  "http_data_received sid p sz s = bind_res (get_http sid s) (\<lambda>h. case http_st h of
     GET_SENT \<Rightarrow> handle_response_descriptor p sz sid s
   | RECEIVING_CHUNK_LEN \<Rightarrow> bind_res (handle_chunk_length p sz sid s) (\<lambda>(start, s). case start of
       None \<Rightarrow> Inr s
     | Some n \<Rightarrow> handle_response_continuation (drop n p) (sz - word_of_nat n) sid s)
   | RECEIVING_RESPONSE \<Rightarrow> handle_response_continuation p sz sid s
   | _ \<Rightarrow> sock_close http_terminated None sid s)"

definition http_listener :: "http_env tcp_listener" where
  "http_listener = \<lparr>on_data_received = http_data_received, on_connection_terminated = http_terminated\<rparr>"

section \<open>Starting a download\<close>

definition new_http :: "bytes \<Rightarrow> u16 \<Rightarrow> hnet \<Rightarrow> (nat \<times> hnet) res" where
  "new_http name pport s = bind_res (new_socket_host name pport s) (\<lambda>(sid, s).
     bind_res (get_sock sid s) (\<lambda>k.
     Inr (sid, put_http sid (Some \<lparr>http_st = HTTP_CLOSED, transfer_type = Regular, http_buf = [], buf_capacity = 0, buf_size = 0, current_chunk_size = 0\<rparr>)
       (put_sock sid (k\<lparr>listener := True\<rparr>) s))))"

definition get_request :: "bytes \<Rightarrow> http_request" where
  "get_request host = \<lparr>req_method = [0x47, 0x45, 0x54], req_uri = [0x2F], req_version = [0x48, 0x54, 0x54, 0x50, 0x2F, 0x31, 0x2E, 0x31],
     req_headers = [([0x48, 0x6F, 0x73, 0x74], host),
       ([0x55, 0x73, 0x65, 0x72, 0x2D, 0x41, 0x67, 0x65, 0x6E, 0x74], [0x42, 0x72, 0x65, 0x62, 0x4F, 0x53]),
       ([0x41, 0x63, 0x63, 0x65, 0x70, 0x74], [0x2A, 0x2F, 0x2A]),
       ([0x43, 0x6F, 0x6E, 0x6E, 0x65, 0x63, 0x74, 0x69, 0x6F, 0x6E], [0x63, 0x6C, 0x6F, 0x73, 0x65])]\<rparr>"

definition send_get :: "nat \<Rightarrow> hnet \<Rightarrow> hnet res" where
  "send_get sid s = bind_res (get_http sid s) (\<lambda>h. bind_res (get_sock sid s) (\<lambda>k. case hostname k of
     None \<Rightarrow> Inl NullDeref
   | Some host \<Rightarrow> bind_res (http_create_packet (get_request host)) (\<lambda>pkt.
       send_data pkt sid (put_http sid (Some (h\<lparr>http_st := GET_SENT\<rparr>)) s))))"

definition wget :: "bytes \<Rightarrow> u16 \<Rightarrow> hnet \<Rightarrow> hnet res" where
  "wget host pport s = bind_res (new_http host pport s) (\<lambda>(sid, s). send_get sid s)"

end
