(* ===== verification/HttpProperties.thy ===== *)
theory HttpProperties
  imports NetProperties Http
begin

text \<open>
  The HTTP client as a listener: its callbacks keep the invariant of the network state, so that every state of the running system
  has it; downloads that are saved and downloads that are lost, and what the error exits do.
\<close>

section \<open>The client as a listener\<close>

lemma net_inv_listeners [simp]: "net_inv (s\<lparr>listeners := l\<rparr>) = net_inv s"
  by (simp add: net_inv_def sock_inv_def dns_inv_def wf_net_def)

lemma net_inv_put_http [simp]: "net_inv (put_http sid h s) = net_inv s"
  by (simp add: put_http_def)

lemma net_inv_save_response [simp]: "net_inv (save_response h s) = net_inv s"
  by (simp add: save_response_def)

interpretation http_end: quiet_end http_terminated
proof
  fix sid msg s s' assume "http_terminated sid msg s = Inr s'" "net_inv s"
  then show "net_inv s'" by (auto simp: http_terminated_def res_elims Let_def split: if_splits dest: inv_delete_socket)
qed

lemma inv_http_fail: "net_inv s \<Longrightarrow> inv_after (http_fail sid s)"
  unfolding http_fail_def by (intro inv_after_bind inv_after_Inr) (auto dest: http_end.inv_sock_close)

lemma inv_continuation: "net_inv s \<Longrightarrow> inv_after (handle_response_continuation p sz sid s)"
  unfolding handle_response_continuation_def by (intro inv_after_bind inv_after_if inv_after_Inr inv_http_fail) simp_all

lemma inv_chunk_length: "handle_chunk_length p sz sid s = Inr (n, s') \<Longrightarrow> net_inv s \<Longrightarrow> net_inv s'"
  using inv_http_fail [of s sid] by (auto simp: handle_chunk_length_def res_elims inv_after_def split: option.splits)

lemma inv_after_option: "(x = None \<Longrightarrow> inv_after a) \<Longrightarrow> (\<And>y. x = Some y \<Longrightarrow> inv_after (f y)) \<Longrightarrow> inv_after (case x of None \<Rightarrow> a | Some y \<Rightarrow> f y)"
  by (cases x) auto

lemma inv_descriptor: "net_inv s \<Longrightarrow> inv_after (handle_response_descriptor p sz sid s)"
  unfolding handle_response_descriptor_def
  by (intro inv_after_bind inv_after_if inv_after_option inv_after_Inl inv_http_fail)
    (auto simp: inv_after_def res_elims split: body.splits dest: inv_http_fail [unfolded inv_after_def, rule_format])

lemma inv_http_data_received:
  assumes "net_inv s"
  shows "inv_after (http_data_received sid p sz s)"
proof -
  have "inv_after (case n of None \<Rightarrow> Inr s' | Some n \<Rightarrow> handle_response_continuation (drop n p) (sz - word_of_nat n) sid s')"
    if "handle_chunk_length p sz sid s = Inr (n, s')" for n s'
    using inv_chunk_length [OF that assms] by (intro inv_after_option inv_after_Inr inv_continuation)
  then have "inv_after (bind_res (handle_chunk_length p sz sid s) (\<lambda>(n, s'). case n of None \<Rightarrow> Inr s'
      | Some n \<Rightarrow> handle_response_continuation (drop n p) (sz - word_of_nat n) sid s'))"
    by (rule inv_after_bind_pair)
  then show ?thesis unfolding http_data_received_def using assms
    by (intro inv_after_bind) (auto split: http_state.split intro: inv_descriptor inv_continuation http_end.inv_after_close)
qed

interpretation http: quiet_listener http_listener
proof
  fix sid msg s s' assume "on_connection_terminated http_listener sid msg s = Inr s'" "net_inv s"
  then show "net_inv s'" by (auto simp: http_listener_def intro: http_end.term_inv)
next
  fix sid b n s s' assume "on_data_received http_listener sid b n s = Inr s'" "net_inv s"
  then show "net_inv s'" using inv_http_data_received by (auto simp: http_listener_def inv_after_def)
qed

section \<open>The running system\<close>

text \<open>
  What changes the network state while the system runs: the start of the network, received frames, which the card has written to
  buffers that are long enough for all headers, and the system call that starts a download.
\<close>

inductive net_step :: "hnet \<Rightarrow> hnet \<Rightarrow> bool" where
  start: "length m = 6 \<Longrightarrow> net_run found m s = Inr s' \<Longrightarrow> net_step s s'"
| receive: "\<forall>d \<in> set ring. 62 \<le> length (rx_buf d) \<Longrightarrow> cur < length ring \<Longrightarrow> pollRx n http_listener ring cur s = Inr (ring', cur', s') \<Longrightarrow> net_step s s'"
| download: "wget host p s = Inr s' \<Longrightarrow> net_step s s'"

lemma inv_net_init: "net_inv (net_init tsc l)"
  by (auto simp: net_init_def net_inv_def wf_net_def sock_inv_def dns_inv_def in_use_def list_new_def)

lemma inv_net_run:
  assumes "net_run found m s = Inr s'" "length m = 6" "net_inv s"
  shows "net_inv s'"
proof (cases found)
  case True
  have "net_inv (s\<lparr>nic := True, mac := m\<rparr>)" using assms(2,3) by (simp add: net_inv_def sock_inv_def dns_inv_def wf_net_def)
  moreover have "quiet (s\<lparr>nic := True, mac := m\<rparr>) s'" using assms(1) True by (intro quiet_send_discover) (simp add: net_run_def)
  ultimately show ?thesis using quiet_inv by blast
qed (use assms in \<open>simp add: net_run_def\<close>)

lemma inv_new_http:
  assumes "new_http host p s = Inr (sid, s')" "net_inv s"
  shows "net_inv s'"
proof -
  let ?addr = "if host \<noteq> host_name then null_ip else gateway_ip s"
  from assms(1) obtain s1 s2 k h where s1: "new_socket ?addr p s = Inr (sid, s1)" and
    s2: "if host = host_name then s2 = s1 else \<exists>k. socks s1 sid = Some k \<and> s2 = put_sock sid (k\<lparr>hostname := Some host\<rparr>) s1" and
    k: "socks s2 sid = Some k" "s' = put_http sid h (put_sock sid (k\<lparr>listener := True\<rparr>) s2)"
    by (auto simp: new_http_def new_socket_host_def res_elims get_sock_Inr split: if_splits)
  have "net_inv s1" using inv_new_socket [OF s1 assms(2)] by simp
  then have "net_inv s2" using s2 by (auto split: if_splits intro: inv_put_sock)
  then show ?thesis unfolding k(2) net_inv_put_http using k(1) by (rule inv_put_sock) simp
qed

lemma inv_wget:
  assumes "wget host p s = Inr s'" "net_inv s"
  shows "net_inv s'"
proof -
  from assms(1) obtain sid s1 h pkt where s1: "new_http host p s = Inr (sid, s1)" "send_data pkt sid (put_http sid h s1) = Inr s'"
    by (auto simp: wget_def send_get_def res_elims split: option.splits)
  then show ?thesis using inv_new_http [OF s1(1) assms(2)] sstep_send_data [OF s1(2)] by (simp add: sstep_def)
qed

lemma inv_net_step: "net_step s s' \<Longrightarrow> net_inv s \<Longrightarrow> net_inv s'"
  by (induction rule: net_step.induct) (blast intro: inv_net_run inv_wget http.inv_pollRx)+

text \<open>
  C12. Network state: whatever frames arrive and whatever downloads are started, in every state of the running system from which no
  fault has been reached the list of sockets holds each existing socket once, no two sockets have the same port, and the
  count of host names that are being resolved is the number of used places in their table; so the search for a free place, which
  has no bound of its own, stops inside the table whenever the table is not full.
\<close>
theorem network_state_consistent:
  assumes "net_step\<^sup>*\<^sup>* (net_init tsc l) s"
  shows "distinct (l_head (sockets s)) \<and> (\<forall>i. socks s i \<noteq> None \<longleftrightarrow> i \<in> set (l_head (sockets s))) \<and>
    (\<forall>i j k k'. socks s i = Some k \<and> socks s j = Some k' \<and> port k = port k' \<longrightarrow> i = j) \<and>
    length (dns_pending s) = 10 \<and> dns_pending_size s = in_use (dns_pending s) \<and>
    (dns_pending_size s \<noteq> 10 \<longrightarrow> (\<exists>i<10. dns_free_idx (dns_pending s) = Inr i \<and> dns_pending s ! i = None))"
proof -
  have inv: "net_inv s" using assms by (induction rule: rtranclp_induct) (auto intro: inv_net_init inv_net_step)
  then have len: "length (dns_pending s) = 10" "dns_pending_size s = in_use (dns_pending s)" by (simp_all add: net_inv_def dns_inv_def)
  have "in_use (dns_pending s) \<le> 10" unfolding in_use_def using length_filter_le [of _ "dns_pending s"] len(1) by metis
  then have "\<exists>i<10. dns_free_idx (dns_pending s) = Inr i \<and> dns_pending s ! i = None" if "dns_pending_size s \<noteq> 10"
    using that dns_free_idx_ok [of "dns_pending s"] dns_free_idx_Inr [of "dns_pending s"] len by auto
  then show ?thesis using inv len unfolding net_inv_def sock_inv_def by blast
qed

definition no_https :: http_env where
  "no_https = \<lparr>https = (\<lambda>_. None), saved = []\<rparr>"

lemma udp_create_packet_ok:
  assumes "length m = 6" "length (mac s) = 6" "unat n \<le> 65507"
  shows "\<exists>info. udp_create_packet sp dp n dst m s = Inr info \<and> length (packet info) = 42 + unat n"
proof -
  have n: "unat (8 + n) = 8 + unat n" using assms(3) unat_plus16 [of 8 n] by simp
  show ?thesis using assms
    by (simp add: udp_create_packet_def ipv4_create_packet_ok n udp_write_header_def write_at_def)
qed

lemma discover_options:
  assumes "length f = 298"
  shows "\<exists>f'. copy_options 2 [53, 1, 1, 55, 4, 1, 3, 15, 6] 0 f = Inr (9, f') \<and> length f' = 298"
proof -
  let ?opts = "[53, 1, 1, 55, 4, 1, 3, 15, 6] :: bytes"
  have "unat (get8 (Suc 0) ?opts) = Suc 0" "unat (get8 (Suc (Suc (Suc (Suc 0)))) ?opts) = Suc (Suc (Suc (Suc 0)))" by code_simp+
  then show ?thesis using assms by (simp add: numeral_2_eq_2 Let_def write_at_def)
qed

lemma write_at_ok: "off + length src \<le> length dst \<Longrightarrow> \<exists>d. write_at off src dst = Inr d \<and> length d = length dst"
  by (simp add: write_at_def)

lemma send_packet_total: "wf_net (s :: 'a net) \<Longrightarrow> nic s \<Longrightarrow> \<exists>s'. send_packet p s = Inr s'"
proof -
  assume s: "wf_net s" "nic s"
  have "\<exists>s'. resolve_mac a t = Inr s'" if "nic t" "length (mac t) = 6" for a and t :: "'a net"
    using that by (simp add: resolve_mac_def arp_packet_for_def eth_create_packet_def eth_write_header_def arp_write_packet_def write_at_def
        encode_arp_def sendPacket_def Let_def)
  then show ?thesis using s by (auto simp: send_packet_def resolve_and_send_def sendPacket_def wf_net_def)
qed

text \<open>The search for a DHCP server always succeeds in sending its request.\<close>

lemma net_run_ok:
  assumes "wf_net s" "length m = 6"
  shows "\<exists>s'. net_run True m s = Inr s'"
proof -
  obtain x s1 where s1: "generate_random_id32 (s\<lparr>nic := True, mac := m\<rparr>) = (x, s1)" by fastforce
  then have wf: "wf_net s1" "nic s1" "length (mac s1) = 6" using assms by (auto simp: generate_random_id32_def wf_net_def)
  obtain info where info: "udp_create_packet 68 67 256 (get32 0 broadcast_ip) broadcast_mac s1 = Inr info" "length (packet info) = 298"
    using udp_create_packet_ok [of broadcast_mac s1 256 68 67 "get32 0 broadcast_ip"] wf(3) by auto
  have "\<exists>frame. dhcp_write_header 1 x 0x80 0 0 0 0 [53, 1, 1, 55, 4, 1, 3, 15, 6] 2 s1 (packet info) = Inr frame"
  proof -
    obtain f1 where f1: "write_at 42 (dhcp_fixed 1 x 0x80 0 0 0 0 s1) (packet info) = Inr f1" "length f1 = 298"
      using info(2) wf(3) write_at_ok [of 42 "dhcp_fixed 1 x 0x80 0 0 0 0 s1" "packet info"] by (auto simp: dhcp_fixed_def)
    obtain f2 where f2: "write_at 278 (w32 (switch32 0x63825363)) f1 = Inr f2" "length f2 = 298"
      using f1(2) write_at_ok [of 278 "w32 (switch32 0x63825363)" f1] by auto
    obtain f3 where f3: "copy_options 2 [53, 1, 1, 55, 4, 1, 3, 15, 6] 0 f2 = Inr (9, f3)" "length f3 = 298" using discover_options [OF f2(2)] by blast
    show ?thesis using f1(1) f2(1) f3 by (simp add: dhcp_write_header_def write_at_def)
  qed
  then show ?thesis using send_packet_total [OF wf(1,2)] s1 info(1) by (auto simp: net_run_def send_discover_def dhcp_send_def)
qed

definition demo_boot :: hnet where
  "demo_boot = net_init (\<lambda>i. word_of_nat (1000 * i)) no_https"

theorem network_state_consistent_witness:
  "\<exists>s. net_run True [0x52, 0x54, 0, 0x12, 0x34, 0x56] demo_boot = Inr s \<and> distinct (l_head (sockets s)) \<and> dns_pending_size s = in_use (dns_pending s)"
proof -
  have "wf_net demo_boot" unfolding demo_boot_def by (rule inv_net_init [unfolded net_inv_def, THEN conjunct1])
  then obtain s where s: "net_run True [0x52, 0x54, 0, 0x12, 0x34, 0x56] demo_boot = Inr s" using net_run_ok [of demo_boot] by fastforce
  then have "net_step\<^sup>*\<^sup>* demo_boot s" by (intro r_into_rtranclp start [of "[0x52, 0x54, 0, 0x12, 0x34, 0x56]" True]) simp_all
  then show ?thesis using s network_state_consistent unfolding demo_boot_def by blast
qed

section \<open>Downloads\<close>

text \<open>The data of a connection, one segment after the other.\<close>

primrec http_receive :: "nat \<Rightarrow> bytes list \<Rightarrow> hnet \<Rightarrow> hnet res" where
  "http_receive sid [] s = Inr s"
| "http_receive sid (seg # segs) s = bind_res (http_data_received sid seg (word_of_nat (length seg)) s) (http_receive sid segs)"

definition decimal :: "nat list \<Rightarrow> nat" where
  "decimal ds = foldl (\<lambda>n d. n * 10 + d) 0 ds"

definition digit :: "nat \<Rightarrow> u8" where
  "digit d = 0x30 + word_of_nat d"

lemma scast_digit: "d < 10 \<Longrightarrow> (scast (digit d) :: u32) = 0x30 + word_of_nat d"
proof -
  assume "d < 10"
  then have "d \<in> {0, 1, 2, 3, 4, 5, 6, 7, 8, 9}" by auto
  then show ?thesis by (auto simp: digit_def)
qed

lemma read_number_decimal: "\<forall>d \<in> set ds. d < 10 \<Longrightarrow> (read_number 10 (map digit ds) :: u32) = word_of_nat (decimal ds)"
proof (induction ds rule: rev_induct)
  case (snoc d ds)
  then show ?case by (simp add: read_number_def decimal_def add_digit_def scast_digit)
qed (simp add: read_number_def decimal_def)

lemma get_put_http [simp]: "get_http sid (put_http sid (Some h) s) = Inr h" "put_http sid o1 (put_http sid o2 s) = put_http sid o1 s"
  by (simp_all add: get_http_def put_http_def)

lemma unat_16: "unat (x :: u16) < 65536"
  using unsigned_less [of x, where ?'a = nat] by simp

lemma receive_size: "unat (b :: u16) + n \<le> unat (c :: u16) \<Longrightarrow> unat (b + word_of_nat n) = unat b + n"
proof -
  assume le: "unat b + n \<le> unat c"
  have "unat c < 65536" by (rule unat_16)
  then have n: "unat (word_of_nat n :: u16) = n" using le by (simp add: unat_of_nat)
  show ?thesis using le n \<open>unat c < 65536\<close> by (simp add: unat_word_ariths)
qed

lemma http_fail_after_delete:
  assumes "socks s sid = Some k" "listener k" "https (listeners s) sid = Some h"
  shows "http_fail sid s = Inl UseAfterFree"
  using assms by (simp add: http_fail_def sock_close_def get_sock_def Let_def put_sock_def http_terminated_def get_http_def delete_socket_def)
    (simp add: put_http_def save_response_def)

lemma receive_segment:
  assumes "get_http sid s = Inr h" "http_st h = RECEIVING_RESPONSE" "transfer_type h = Regular" "length (http_buf h) = unat (buf_capacity h)"
    and "unat (buf_size h) + length seg \<le> unat (buf_capacity h)"
  shows "http_data_received sid seg (word_of_nat (length seg)) s = Inr (put_http sid (Some (h\<lparr>
    http_buf := blit (http_buf h) (unat (buf_size h)) seg, buf_size := buf_size h + word_of_nat (length seg),
    http_st := if unat (buf_size h) + length seg = unat (buf_capacity h) then RESPONSE_COMPLETE else RECEIVING_RESPONSE\<rparr>)) s)"
proof -
  have "unat (buf_capacity h) < 65536" by (rule unat_16)
  then have n: "unat (word_of_nat (length seg) :: u16) = length seg" using assms(5) by (simp add: unat_of_nat)
  have sum: "unat (buf_size h + word_of_nat (length seg)) = unat (buf_size h) + length seg" using assms(5) by (rule receive_size)
  then have "buf_size h + word_of_nat (length seg) = buf_capacity h \<longleftrightarrow> unat (buf_size h) + length seg = unat (buf_capacity h)"
    by (simp add: word_unat_eq_iff)
  then show ?thesis using assms n
    by (cases h) (simp add: http_data_received_def handle_response_continuation_def continuation_copy_def write_at_def Let_def)
qed

lemma receive_rest:
  assumes "get_http sid s = Inr h" "http_st h = RECEIVING_RESPONSE" "transfer_type h = Regular" "length (http_buf h) = unat (buf_capacity h)"
    and "segs \<noteq> []" "[] \<notin> set segs" "unat (buf_size h) + length (concat segs) = unat (buf_capacity h)"
  shows "\<exists>h'. http_receive sid segs s = Inr (put_http sid (Some h') s) \<and> http_st h' = RESPONSE_COMPLETE \<and> buf_size h' = buf_capacity h' \<and>
    buf_capacity h' = buf_capacity h \<and> http_buf h' = take (unat (buf_size h)) (http_buf h) @ concat segs"
  using assms
proof (induction segs arbitrary: s h)
  case (Cons seg segs)
  let ?n = "unat (buf_size h) + length seg"
  define h1 where "h1 = h\<lparr>http_buf := blit (http_buf h) (unat (buf_size h)) seg, buf_size := buf_size h + word_of_nat (length seg),
    http_st := if ?n = unat (buf_capacity h) then RESPONSE_COMPLETE else RECEIVING_RESPONSE\<rparr>"
  have le: "?n \<le> unat (buf_capacity h)" using Cons.prems(7) by simp
  have step: "http_receive sid (seg # segs) s = http_receive sid segs (put_http sid (Some h1) s)"
    using receive_segment [OF Cons.prems(1-4) le] by (simp add: h1_def)
  have size: "unat (buf_size h1) = ?n" using receive_size [OF le] by (simp add: h1_def)
  have buf: "length (http_buf h1) = length (http_buf h)" "take ?n (http_buf h1) = take (unat (buf_size h)) (http_buf h) @ seg"
    using le Cons.prems(4) by (simp_all add: h1_def blit_def)
  show ?case
  proof (cases "segs = []")
    case True
    then have "?n = unat (buf_capacity h)" using Cons.prems(7) by simp
    then show ?thesis using True step size buf Cons.prems(4)
      by (intro exI [of _ h1]) (auto simp: word_unat_eq_iff h1_def)
  next
    case False
    then have "0 < length (concat segs)" using Cons.prems(6) by (cases segs) auto
    moreover have "length (concat (seg # segs)) = length seg + length (concat segs)" by simp
    ultimately have "?n \<noteq> unat (buf_capacity h)" using Cons.prems(7) by linarith
    then have "http_st h1 = RECEIVING_RESPONSE" "transfer_type h1 = Regular" "buf_capacity h1 = buf_capacity h"
      using Cons.prems(3) by (simp_all add: h1_def)
    then show ?thesis using Cons.IH [of "put_http sid (Some h1) s" h1] False Cons.prems(4,6,7) step size buf by simp
  qed
qed simp

text \<open>What the first segment of a response leaves behind when the length of the body is given in decimal.\<close>

lemma receive_descriptor:
  assumes "get_http sid s = Inr h" "http_st h = GET_SENT" "transfer_type h = Regular"
    and "parse_response (head @ body) (word_of_nat (length (head @ body))) = Inr r" "has_method r" "status r = 200"
    and "get_header content_length r = Some (map digit ds)" "\<forall>d \<in> set ds. d < 10" "decimal ds < 65536"
    and "memmem (head @ body) (length (head @ body)) (crlf @ crlf) 4 = Inr (Some eoh)" "length head = eoh + 4"
    and "length (head @ body) < 65536" "length body \<le> decimal ds"
  shows "http_data_received sid (head @ body) (word_of_nat (length (head @ body))) s = Inr (put_http sid (Some (h\<lparr>http_st := RECEIVING_RESPONSE,
    http_buf := body @ replicate (decimal ds - length body) 0, buf_capacity := word_of_nat (decimal ds),
    buf_size := word_of_nat (length body)\<rparr>)) s)"
proof -
  have sz: "unat (word_of_nat (length (head @ body)) :: u16) = length (head @ body)" using assms(12) by (simp only: unat_of_nat) simp
  have cap: "ucast (read_number 10 (map digit ds) :: u32) = (word_of_nat (decimal ds) :: u16)"
    using assms(8,9) by (simp add: read_number_decimal word_unat_eq_iff unat_of_nat unsigned_ucast_eq take_bit_nat_eq_self)
  have cap': "unat (word_of_nat (decimal ds) :: u16) = decimal ds" using assms(9) by (simp add: unat_of_nat)
  show ?thesis using assms sz cap cap'
    by (cases h) (simp add: http_data_received_def handle_response_descriptor_def body_of_def start_body_def write_at_def Let_def blit_def)
qed

text \<open>
  C14. Downloads of less than 64 KiB, the range of the code's 16-bit sizes: when a response with status 200 and a decimal length below 65536 in its header arrives in two or more
  segments, the first of which (shorter than 65536 bytes) holds all headers and ends anywhere in the body and each of the others some bytes of the body, which together have the
  announced length, then at the end of the connection exactly the body is saved to the file, and the object and its socket are gone.
\<close>
theorem http_download_saved:
  assumes "socks s sid = Some k" "https (listeners s) sid = Some h" "http_st h = GET_SENT" "transfer_type h = Regular"
    and "parse_response (head @ body) (word_of_nat (length (head @ body))) = Inr r" "has_method r" "status r = 200"
    and "get_header content_length r = Some (map digit ds)" "\<forall>d \<in> set ds. d < 10" "decimal ds < 65536"
    and "memmem (head @ body) (length (head @ body)) (crlf @ crlf) 4 = Inr (Some eoh)" "length head = eoh + 4"
    and "length (head @ body) < 65536" "length body + length (concat segs) = decimal ds" "segs \<noteq> []" "[] \<notin> set segs"
  shows "\<exists>s1 s2. http_receive sid ((head @ body) # segs) s = Inr s1 \<and> http_terminated sid None s1 = Inr s2 \<and>
    saved (listeners s2) = saved (listeners s) @ [(res_path, body @ concat segs)] \<and> https (listeners s2) sid = None \<and> socks s2 sid = None"
proof -
  have h: "get_http sid s = Inr h" using assms(2) by (simp add: get_http_def)
  define h1 where "h1 = h\<lparr>http_st := RECEIVING_RESPONSE, http_buf := body @ replicate (decimal ds - length body) 0,
    buf_capacity := word_of_nat (decimal ds), buf_size := word_of_nat (length body)\<rparr>"
  have first: "http_data_received sid (head @ body) (word_of_nat (length (head @ body))) s = Inr (put_http sid (Some h1) s)"
    unfolding h1_def using assms(14) by (intro receive_descriptor [OF h assms(3-13)]) simp
  have size: "unat (buf_capacity h1) = decimal ds" "unat (buf_size h1) = length body"
    using assms(10,14) by (simp_all add: h1_def unat_of_nat)
  have "\<exists>h'. http_receive sid segs (put_http sid (Some h1) s) = Inr (put_http sid (Some h') (put_http sid (Some h1) s)) \<and> http_st h' = RESPONSE_COMPLETE \<and>
      buf_size h' = buf_capacity h' \<and> buf_capacity h' = buf_capacity h1 \<and> http_buf h' = take (unat (buf_size h1)) (http_buf h1) @ concat segs"
  proof (rule receive_rest)
    show "length (http_buf h1) = unat (buf_capacity h1)" using size(1) assms(14) by (simp add: h1_def)
    show "unat (buf_size h1) + length (concat segs) = unat (buf_capacity h1)" using size assms(14) by simp
  qed (use assms(4,15,16) in \<open>simp_all add: h1_def\<close>)
  then obtain h' where rest: "http_receive sid segs (put_http sid (Some h1) s) = Inr (put_http sid (Some h') s)" and
    h': "http_st h' = RESPONSE_COMPLETE" "buf_size h' = buf_capacity h'" "unat (buf_size h') = decimal ds" "http_buf h' = body @ concat segs"
    using size by (auto simp: h1_def)
  obtain s2 where s2: "delete_socket sid (put_http sid None (save_response h' (put_http sid (Some h') s))) = Inr s2"
    "s2 = (put_http sid None (save_response h' (put_http sid (Some h') s)))\<lparr>sockets := snd (list_remove sid (sockets s)), socks := (socks s)(sid := None)\<rparr>"
    using assms(1) by (simp add: delete_socket_def get_sock_def put_http_def save_response_def)
  have "http_receive sid ((head @ body) # segs) s = Inr (put_http sid (Some h') s)" using first rest by simp
  moreover have "http_terminated sid None (put_http sid (Some h') s) = Inr s2" using h' s2(1) by (simp add: http_terminated_def Let_def)
  ultimately show ?thesis using h' assms(14) by (auto simp: s2(2) put_http_def save_response_def)
qed

text \<open>A response \<^verbatim>\<open>HTTP/1.1 200 OK\<close> whose only header is \<^verbatim>\<open>Content-Length: 5\<close>, for the first socket of a host.\<close>

definition demo_head :: bytes where
  "demo_head = [72, 84, 84, 80, 47, 49, 46, 49, 32, 50, 48, 48, 32, 79, 75, 13, 10, 67, 111, 110, 116, 101, 110, 116, 45, 76, 101, 110, 103, 116, 104, 58, 32, 53, 13, 10, 13, 10]"

definition demo_response :: http_response where
  "demo_response = \<lparr>has_method = True, status = 200, headers = [(content_length, [53])]\<rparr>"

definition demo_client :: http where
  "demo_client = \<lparr>http_st = GET_SENT, transfer_type = Regular, http_buf = [], buf_capacity = 0, buf_size = 0, current_chunk_size = 0\<rparr>"

definition demo_socket :: socket where
  "demo_socket = \<lparr>hostname = None, port = 50000, peer_port = 80, sock_ip = [10, 0, 2, 15], peer_ip = [10, 0, 2, 2], tcp_st = ESTABLISHED,
     seq_num = 1, ack_num = 1, listener = True, start_packet = None\<rparr>"

definition demo_download :: hnet where
  "demo_download = (demo_net \<lparr>https = (\<lambda>_. None)(0 := Some demo_client), saved = []\<rparr>)\<lparr>socks := (\<lambda>_. None)(0 := Some demo_socket)\<rparr>"

lemma demo_head_parsed:
  "parse_response (demo_head @ [104, 101]) (word_of_nat (length (demo_head @ [104, 101]))) = Inr demo_response"
  "parse_response (demo_head @ [104, 101, 108, 108, 111]) (word_of_nat (length (demo_head @ [104, 101, 108, 108, 111]))) = Inr demo_response"
  by code_simp+

lemma demo_head_end:
  "memmem (demo_head @ [104, 101]) (length (demo_head @ [104, 101])) (crlf @ crlf) 4 = Inr (Some 34)"
  "memmem (demo_head @ [104, 101, 108, 108, 111]) (length (demo_head @ [104, 101, 108, 108, 111])) (crlf @ crlf) 4 = Inr (Some 34)"
  by code_simp+

lemma demo_length: "get_header content_length demo_response = Some (map digit [5])" "decimal [5] = 5"
  by code_simp+

lemma demo_download_simps:
  "socks demo_download 0 = Some demo_socket" "https (listeners demo_download) 0 = Some demo_client" "saved (listeners demo_download) = []"
  "http_st demo_client = GET_SENT" "transfer_type demo_client = Regular" "has_method demo_response" "status demo_response = 200"
  "length demo_head = 34 + 4" "listener demo_socket"
  by (simp_all add: demo_download_def demo_net_def net_init_def demo_client_def demo_response_def demo_head_def demo_socket_def)

theorem http_download_saved_witness:
  "\<exists>s1 s2. http_receive 0 [demo_head @ [104, 101], [108, 108], [111]] demo_download = Inr s1 \<and> http_terminated 0 None s1 = Inr s2 \<and>
    saved (listeners s2) = [(res_path, [104, 101, 108, 108, 111])]"
proof -
  have "\<exists>s1 s2. http_receive 0 ((demo_head @ [104, 101]) # [[108, 108], [111]]) demo_download = Inr s1 \<and> http_terminated 0 None s1 = Inr s2 \<and>
      saved (listeners s2) = saved (listeners demo_download) @ [(res_path, [104, 101] @ concat [[108, 108], [111]])] \<and>
      https (listeners s2) 0 = None \<and> socks s2 0 = None"
    by (rule http_download_saved [where ds = "[5]", OF demo_download_simps(1,2,4,5) demo_head_parsed(1) demo_download_simps(6,7) demo_length(1) _ _
        demo_head_end(1) demo_download_simps(8)]) (simp_all add: demo_length demo_download_simps)
  then show ?thesis by (auto simp: demo_download_simps(3))
qed

text \<open>
  Downloads: when the whole response arrives in one segment, nothing is saved at the end of the connection, because the state of the object
  becomes that of a complete response only when a further segment is copied.
\<close>
theorem http_single_segment_lost:
  assumes "socks s sid = Some k" "https (listeners s) sid = Some h" "http_st h = GET_SENT" "transfer_type h = Regular"
    and "parse_response (head @ body) (word_of_nat (length (head @ body))) = Inr r" "has_method r" "status r = 200"
    and "get_header content_length r = Some (map digit ds)" "\<forall>d \<in> set ds. d < 10" "decimal ds < 65536"
    and "memmem (head @ body) (length (head @ body)) (crlf @ crlf) 4 = Inr (Some eoh)" "length head = eoh + 4"
    and "length (head @ body) < 65536" "length body = decimal ds"
  shows "\<exists>s1 s2. http_receive sid [head @ body] s = Inr s1 \<and> http_terminated sid None s1 = Inr s2 \<and> saved (listeners s2) = saved (listeners s)"
proof -
  have h: "get_http sid s = Inr h" using assms(2) by (simp add: get_http_def)
  show ?thesis using receive_descriptor [OF h assms(3-13)] assms(1,14)
    by (simp add: http_terminated_def Let_def delete_socket_def get_sock_def) (simp add: put_http_def)
qed

theorem http_single_segment_lost_witness:
  "\<exists>s1 s2. http_receive 0 [demo_head @ [104, 101, 108, 108, 111]] demo_download = Inr s1 \<and> http_terminated 0 None s1 = Inr s2 \<and>
    saved (listeners s2) = []"
proof -
  have "\<exists>s1 s2. http_receive 0 [demo_head @ [104, 101, 108, 108, 111]] demo_download = Inr s1 \<and> http_terminated 0 None s1 = Inr s2 \<and>
      saved (listeners s2) = saved (listeners demo_download)"
    by (rule http_single_segment_lost [where ds = "[5]", OF demo_download_simps(1,2,4,5) demo_head_parsed(2) demo_download_simps(6,7) demo_length(1) _ _
        demo_head_end(2) demo_download_simps(8)]) (simp_all add: demo_length demo_download_simps)
  then show ?thesis by (simp add: demo_download_simps(3))
qed

text \<open>
  C38. HTTP errors: a first segment that is malformed or has a status other than 200 and 301 makes the client use its own object after it has been deleted:
  the socket is closed, which ends the connection and deletes the object, and then the state of the object is set.
\<close>
theorem http_error_after_delete:
  assumes "socks s sid = Some k" "listener k" "https (listeners s) sid = Some h" "http_st h = GET_SENT"
    and "parse_response p sz = Inr r" "status r \<notin> {200, 301}"
  shows "http_data_received sid p sz s = Inl UseAfterFree"
proof -
  have "http_fail sid s = Inl UseAfterFree" using http_fail_after_delete [OF assms(1-3)] .
  then show ?thesis using assms
    by (simp add: http_data_received_def handle_response_descriptor_def get_http_def)
qed

definition demo_error :: bytes where
  "demo_error = [72, 84, 84, 80, 47, 49, 46, 49, 32, 52, 48, 52, 32, 78, 111, 116, 32, 70, 111, 117, 110, 100, 13, 10, 67, 111, 110, 116, 101, 110, 116, 45, 76, 101, 110, 103, 116, 104, 58, 32, 48, 13, 10, 13, 10]"

lemma demo_error_parsed: "parse_response demo_error 45 = Inr \<lparr>has_method = True, status = 404, headers = [(content_length, [48])]\<rparr>"
  by code_simp

theorem http_error_after_delete_witness: "http_data_received 0 demo_error 45 demo_download = Inl UseAfterFree"
  by (rule http_error_after_delete [OF demo_download_simps(1,9,2,4) demo_error_parsed]) simp

end
