(* ===== verification/FrameBuffer.thy ===== *)
theory FrameBuffer
  imports KString
begin

unbundle bit_operations_syntax

text \<open>
  The text console on the linear frame buffer (\<^verbatim>\<open>src/src/kernel/core/fb.cpp\<close>, class \<^verbatim>\<open>FB\<close>). Characters are kept in a
  shadow buffer of cells, used as a ring of rows that starts at \<open>shadow_start\<close>; a flush draws the cells of the dirty rectangle with
  the rasterised font. All \<^verbatim>\<open>uint\<close> are natural numbers with 32-bit arithmetic written out. The width of the progress bar, which
  the code computes with floating-point numbers, is the parameter \<open>bar\<close> of the flush.
\<close>

section \<open>State\<close>

record cell =
  c_fg :: u32
  c_bg :: u32
  c_char :: u8

record fbuf =
  fb_pixels :: "u32 list"
  caret_x :: nat
  caret_y :: nat
  FG :: u32
  BG :: u32
  fb_width :: nat
  fb_height :: nat
  n_row :: nat
  characters_per_line :: nat
  characters_per_col :: nat
  dirty_start_y :: nat
  dirty_start_x :: nat
  dirty_end_y :: nat
  dirty_end_x :: nat
  fps :: nat
  fb_shadow :: "cell list"
  shadow_lim :: nat
  shadow_start :: nat
  lock_flush :: bool
  show_cursor :: bool
  character_size :: nat
  r_font :: "u32 list"
  progress_bar_height :: nat
  progress_bar_percentage :: u8
  progress_bar_owner :: "nat option"

text \<open>The cell that is shown at a position, relative to the start of the ring.\<close>

definition shadow_offset :: "nat \<Rightarrow> nat \<Rightarrow> fbuf \<Rightarrow> nat" where
  "shadow_offset y x s = (let off = add32 (add32 (shadow_start s) (mul32 y (fb_width s))) x in
     if shadow_lim s \<le> off then sub32 off (shadow_lim s) else off)"

definition put_cell :: "nat \<Rightarrow> cell \<Rightarrow> fbuf \<Rightarrow> fbuf res" where
  "put_cell off c s = (if off < length (fb_shadow s) then Inr (s\<lparr>fb_shadow := (fb_shadow s)[off := c]\<rparr>) else Inl OutOfBounds)"

section \<open>Scrolling and the dirty rectangle\<close>

definition all_dirty :: "fbuf \<Rightarrow> fbuf" where
  "all_dirty s = s\<lparr>dirty_start_y := 0, dirty_start_x := 0, dirty_end_y := characters_per_col s, dirty_end_x := characters_per_line s\<rparr>"

definition clear_row :: "nat \<Rightarrow> fbuf \<Rightarrow> fbuf res" where
  "clear_row off s = (let w = fb_width s in
     if off + w \<le> length (fb_shadow s)
     then Inr (s\<lparr>fb_shadow := blit (fb_shadow s) off (map (\<lambda>c. c\<lparr>c_char := 0\<rparr>) (take w (drop off (fb_shadow s))))\<rparr>)
     else Inl OutOfBounds)"

definition fb_scroll :: "nat \<Rightarrow> fbuf \<Rightarrow> fbuf res" where
  "fb_scroll n s =
    (if shadow_lim s = 0 then Inl DivideError
     else let start = add32 (shadow_start s) (mul32 n (fb_width s)) mod shadow_lim s;
       start = (if shadow_lim s \<le> start then shadow_lim s else start);
       base = add32 start (mul32 (sub32 (fb_height s) n) (fb_width s)) in
       bind_res (for_n (\<lambda>y s. let off = add32 base (mul32 y (fb_width s)) in
           clear_row (if shadow_lim s \<le> off then sub32 off (shadow_lim s) else off) s) 0 n (s\<lparr>shadow_start := start\<rparr>)) (\<lambda>s.
       Inr (all_dirty (s\<lparr>caret_y := sub32 (caret_y s) n\<rparr>))))"

definition update_dirty_rect :: "fbuf \<Rightarrow> fbuf" where
  "update_dirty_rect s = s\<lparr>dirty_start_y := min (caret_y s) (dirty_start_y s), dirty_end_y := max (add32 (caret_y s) 1) (dirty_end_y s),
     dirty_start_x := min (caret_x s) (dirty_start_x s), dirty_end_x := max (add32 (caret_x s) 1) (dirty_end_x s)\<rparr>"

section \<open>Characters\<close>

text \<open>The part of \<open>putchar\<close> for a character that is neither a backspace nor a line break.\<close>

definition put_glyph :: "u8 \<Rightarrow> fbuf \<Rightarrow> fbuf res" where
  "put_glyph c s = (let s = update_dirty_rect s in
     bind_res (put_cell (shadow_offset (caret_y s) (caret_x s) s) \<lparr>c_fg = FG s, c_bg = BG s, c_char = c\<rparr> s) (\<lambda>s.
     let s = s\<lparr>caret_x := add32 (caret_x s) 1\<rparr> in
     if caret_x s = characters_per_line s
     then let s = s\<lparr>caret_y := add32 (caret_y s) 1, caret_x := 0\<rparr> in
       if characters_per_col s \<le> caret_y s then fb_scroll 1 s else Inr (update_dirty_rect s)
     else Inr (update_dirty_rect s)))"

definition delchar :: "fbuf \<Rightarrow> fbuf res" where
  "delchar s =
    (if caret_x s = 0 \<and> caret_y s = 0 then Inr s
     else bind_res (put_glyph 0x20 (s\<lparr>caret_x := sub32 (caret_x s) 1\<rparr>)) (\<lambda>s. Inr (s\<lparr>caret_x := sub32 (caret_x s) 1\<rparr>)))"

definition fb_putchar :: "16 word \<Rightarrow> fbuf \<Rightarrow> fbuf res" where
  "fb_putchar ch s = (let c = (if 255 \<le> ch then 0xDB else ch) in
     if c = 8 then delchar s
     else if c = 10
     then let s = update_dirty_rect s; s = s\<lparr>caret_y := add32 (caret_y s) 1, caret_x := 0\<rparr> in
       if characters_per_col s \<le> caret_y s then fb_scroll 1 s else Inr s
     else put_glyph (ucast c) s)"

text \<open>A \<^verbatim>\<open>char\<close> is signed and is extended with its sign to the 16 bits of the argument of \<open>putchar\<close>.\<close>

primrec fb_write :: "bytes \<Rightarrow> fbuf \<Rightarrow> fbuf res" where
  "fb_write [] s = Inr s"
| "fb_write (b # bs) s = bind_res (fb_putchar (scast b) s) (fb_write bs)"

definition set_fg :: "u32 \<Rightarrow> fbuf \<Rightarrow> fbuf" where
  "set_fg c s = s\<lparr>FG := c\<rparr>"

definition set_bg :: "u32 \<Rightarrow> fbuf \<Rightarrow> fbuf" where
  "set_bg c s = s\<lparr>BG := c\<rparr>"

definition decorator :: "bytes \<Rightarrow> u32 \<Rightarrow> fbuf \<Rightarrow> fbuf res" where
  "decorator txt color s = bind_res (fb_putchar 0x5B s) (\<lambda>s. bind_res (fb_write txt (set_fg color s)) (\<lambda>s. fb_putchar 0x5D (set_fg 0xFFFFFF s)))"

definition ok_decorator :: "fbuf \<Rightarrow> fbuf res" where
  "ok_decorator = decorator [0x4F, 0x4B] 0x00AA00"

definition error_decorator :: "fbuf \<Rightarrow> fbuf res" where
  "error_decorator = decorator [0x45, 0x52, 0x52, 0x4F, 0x52] 0xAA0000"

definition fatal_error_decorator :: "fbuf \<Rightarrow> fbuf res" where
  "fatal_error_decorator = decorator [0x46, 0x41, 0x54, 0x41, 0x4C, 0x20, 0x45, 0x52, 0x52, 0x4F, 0x52] 0xAA0000"

definition info_decorator :: "fbuf \<Rightarrow> fbuf res" where
  "info_decorator = decorator [0x49, 0x4E, 0x46, 0x4F] 0x0000AA"

definition warn_decorator :: "fbuf \<Rightarrow> fbuf res" where
  "warn_decorator = decorator [0x57, 0x41, 0x52, 0x4E] 0xAA5500"

definition fb_ok :: "fbuf \<Rightarrow> fbuf res" where
  "fb_ok s = bind_res (ok_decorator s) (fb_putchar 10)"

definition fb_fatal_error :: "fbuf \<Rightarrow> fbuf res" where
  "fb_fatal_error s = bind_res (fatal_error_decorator s) (fb_putchar 10)"

definition fb_error :: "fbuf \<Rightarrow> fbuf res" where
  "fb_error s = bind_res (error_decorator s) (fb_putchar 10)"

definition fb_info :: "fbuf \<Rightarrow> fbuf res" where
  "fb_info s = bind_res (info_decorator s) (fb_putchar 10)"

definition fb_warn :: "fbuf \<Rightarrow> fbuf res" where
  "fb_warn s = bind_res (warn_decorator s) (fb_putchar 10)"

definition clear_screen :: "fbuf \<Rightarrow> fbuf res" where
  "clear_screen s = (let n = fb_height s * fb_width s in
     if n \<le> length (fb_shadow s)
     then Inr (all_dirty (s\<lparr>fb_shadow := blit (fb_shadow s) 0 (replicate n \<lparr>c_fg = FG s, c_bg = BG s, c_char = 0\<rparr>), caret_x := 0, caret_y := 0\<rparr>))
     else Inl OutOfBounds)"

section \<open>Progress bar\<close>

definition update_progress_bar :: "u8 \<Rightarrow> nat \<Rightarrow> fbuf \<Rightarrow> fbuf" where
  "update_progress_bar p i s = (if progress_bar_owner s = Some i then s\<lparr>progress_bar_percentage := p\<rparr> else s)"

definition try_acquire_progress_bar :: "nat \<Rightarrow> fbuf \<Rightarrow> bool \<times> fbuf" where
  "try_acquire_progress_bar i s = (if progress_bar_owner s \<noteq> None then (False, s) else (True, s\<lparr>progress_bar_owner := Some i\<rparr>))"

definition release_progres_bar :: "nat \<Rightarrow> fbuf \<Rightarrow> fbuf" where
  "release_progres_bar i s =
    (if progress_bar_owner s \<noteq> Some i then s
     else s\<lparr>dirty_start_y := 0, dirty_end_y := (if 1 < dirty_end_y s then dirty_end_y s else 1), dirty_start_x := 0,
       dirty_end_x := characters_per_line s, progress_bar_owner := None\<rparr>)"

section \<open>Drawing\<close>

text \<open>An address has 32 bits and a pixel 4 bytes, so that the index of a pixel counts modulo \<open>2 ^ 30\<close>.\<close>

definition put_pixels :: "nat \<Rightarrow> u32 list \<Rightarrow> fbuf \<Rightarrow> fbuf res" where
  "put_pixels i px s = (let off = i mod 2 ^ 30 in
     if off + length px \<le> length (fb_pixels s) then Inr (s\<lparr>fb_pixels := blit (fb_pixels s) off px\<rparr>) else Inl OutOfBounds)"

text \<open>
  The glyph of a character starts at a multiple of its number, which is negative for a character with its top bit set: such a glyph lies in front
  of the font.
\<close>

definition draw_char :: "nat \<Rightarrow> nat \<Rightarrow> nat \<Rightarrow> cell \<Rightarrow> fbuf \<Rightarrow> fbuf res" where
  "draw_char fb_start by x8 c s = (let cs = character_size s in
     if sint (c_char c) < 0 \<or> length (r_font s) < (unat (c_char c) + 1) * cs * 8 then Inl OutOfBounds
     else for_n (\<lambda>py s. put_pixels (fb_start + add32 (mul32 (add32 by py) (n_row s)) x8)
       (map (\<lambda>b. if b \<noteq> 0 then c_fg c else c_bg c) (take 8 (drop (unat (c_char c) * cs * 8 + py * 8) (r_font s)))) s) 0 cs s)"

definition draw_row :: "nat \<Rightarrow> nat \<Rightarrow> nat \<Rightarrow> nat \<Rightarrow> fbuf \<Rightarrow> fbuf res" where
  "draw_row fb_start shadow_off n_x y s =
     (let row = add32 shadow_off (mul32 y (fb_width s)); row = (if shadow_lim s \<le> row then sub32 row (shadow_lim s) else row) in
     for_n (\<lambda>x s. let i = add32 row x in
       if i < length (fb_shadow s) then draw_char fb_start (mul32 y (character_size s)) (mul32 x 8) (fb_shadow s ! i) s
       else Inl OutOfBounds) 0 n_x s)"

definition reset_dirty :: "fbuf \<Rightarrow> fbuf" where
  "reset_dirty s = (let s = s\<lparr>dirty_start_x := caret_x s, dirty_start_y := caret_y s, dirty_end_y := add32 (caret_y s) 1, dirty_end_x := add32 (caret_x s) 1\<rparr> in
     if dirty_end_x s = characters_per_line s then s\<lparr>dirty_start_x := 0, dirty_end_x := 1\<rparr> else s)"

definition draw_progress_bar :: "(u8 \<Rightarrow> nat \<Rightarrow> nat) \<Rightarrow> fbuf \<Rightarrow> fbuf res" where
  "draw_progress_bar bar s =
    (if progress_bar_owner s = None then Inr s
     else let full = mul32 (bar (progress_bar_percentage s) (fb_width s)) (progress_bar_height s);
       total = mul32 (progress_bar_height s) (fb_width s) in
       put_pixels 0 (replicate full (FG s) @ replicate (total - full) (BG s)) s)"

definition fb_flush :: "(u8 \<Rightarrow> nat \<Rightarrow> nat) \<Rightarrow> fbuf \<Rightarrow> fbuf res" where
  "fb_flush bar s =
    (if lock_flush s then Inr s
     else let cur = shadow_offset (caret_y s) (caret_x s) s;
       fb_start = mul32 (mul32 (dirty_start_y s) (character_size s)) (n_row s) + mul32 (dirty_start_x s) 8;
       shadow_off = add32 (add32 (mul32 (dirty_start_y s) (fb_width s)) (shadow_start s)) (dirty_start_x s) in
       bind_res (if show_cursor s then put_cell cur \<lparr>c_fg = FG s, c_bg = BG s, c_char = 0x5F\<rparr> s else Inr s) (\<lambda>s1.
       bind_res (for_n (draw_row fb_start shadow_off (sub32 (dirty_end_x s1) (dirty_start_x s1))) 0 (sub32 (dirty_end_y s1) (dirty_start_y s1)) s1) (\<lambda>s2.
       bind_res (put_cell cur \<lparr>c_fg = FG s2, c_bg = BG s2, c_char = 0\<rparr> s2) (\<lambda>s3.
       draw_progress_bar bar (reset_dirty s3)))))"

definition lock_flushing :: "fbuf \<Rightarrow> fbuf" where
  "lock_flushing s = s\<lparr>lock_flush := True\<rparr>"

definition unlock_flushing :: "(u8 \<Rightarrow> nat \<Rightarrow> nat) \<Rightarrow> fbuf \<Rightarrow> fbuf res" where
  "unlock_flushing bar s = fb_flush bar (s\<lparr>lock_flush := False\<rparr>)"

text \<open>One turn of the loop that refreshes the screen, with the number of turns since the cursor was last shown again.\<close>

definition refresh_turn :: "(u8 \<Rightarrow> nat \<Rightarrow> nat) \<Rightarrow> nat \<Rightarrow> fbuf \<Rightarrow> (nat \<times> fbuf) res" where
  "refresh_turn bar tick s = bind_res (fb_flush bar (s\<lparr>show_cursor := (tick \<le> fps s)\<rparr>)) (\<lambda>s.
     let tick = add32 tick 1 in Inr (if tick = mul32 2 (fps s) then 0 else tick, s))"

definition draw_rgb :: "bytes \<Rightarrow> nat \<Rightarrow> nat \<Rightarrow> fbuf \<Rightarrow> fbuf res" where
  "draw_rgb rgb w h s = for_n (\<lambda>y s.
     if length rgb < (y + 1) * w * 3 then Inl OutOfBounds
     else put_pixels (y * fb_width s) (map (\<lambda>x. let i = (y * w + x) * 3 in
       0xFF000000 OR push_bit 16 (ucast (rgb ! i)) OR push_bit 8 (ucast (rgb ! (i + 1))) OR ucast (rgb ! (i + 2))) [0..<w]) s) 0 h s"

section \<open>Initialisation\<close>

record fb_mode =
  mode_width :: nat
  mode_height :: nat
  mode_pitch :: nat
  mode_addr :: nat

record fb_tag =
  tag_mode :: fb_mode
  framebuffer_type :: u8
  framebuffer_bpp :: u8
  red_field :: "u8 \<times> u8"
  green_field :: "u8 \<times> u8"
  blue_field :: "u8 \<times> u8"

datatype boot_mode = Multiboot "fb_tag option" | Vbe fb_mode

definition find_mode :: "boot_mode \<Rightarrow> fb_mode res" where
  "find_mode b = (case b of
     Vbe m \<Rightarrow> Inr m
   | Multiboot None \<Rightarrow> Inl (Irrecoverable ''Cannot find framebuffer multiboot tag'')
   | Multiboot (Some t) \<Rightarrow>
       if framebuffer_type t \<noteq> 1 then Inl (Irrecoverable ''Framebuffer is not in RGB mode'')
       else if framebuffer_bpp t \<noteq> 32 then Inl (Irrecoverable ''Framebuffer has bpp != 32'')
       else if red_field t \<noteq> (16, 8) \<or> green_field t \<noteq> (8, 8) \<or> blue_field t \<noteq> (0, 8) then Inl (Irrecoverable ''Unsupported RGB layout'')
       else Inr (tag_mode t))"

definition rasterize :: "nat \<Rightarrow> bytes \<Rightarrow> u32 list" where
  "rasterize cs glyphs = blit (concat (map (\<lambda>line. map (\<lambda>k. if bit line (7 - k) then 0xFFFFFF else 0) [0..<8]) (take (255 * cs) glyphs))) 0 (replicate (cs * 8) 0)"

text \<open>
  The frame buffer of the card is mapped with the contents \<open>screen\<close> it has, if it can be mapped; the cells, which \<open>new\<close> leaves uninitialised, are all
  set at the end.
\<close>

definition fb_init :: "nat \<Rightarrow> boot_mode \<Rightarrow> u32 list option \<Rightarrow> nat \<Rightarrow> bytes \<Rightarrow> cell \<Rightarrow> fbuf res" where
  "fb_init rate b screen cs glyphs junk = bind_res (find_mode b) (\<lambda>m.
     let n = mul32 (mode_width m) (mode_height m) in
     case screen of None \<Rightarrow> Inl (Irrecoverable ''Cannot map framebuffer'')
     | Some px \<Rightarrow> if cs = 0 then Inl DivideError
       else if length glyphs < 255 * cs then Inl OutOfBounds
       else clear_screen \<lparr>fb_pixels = px, caret_x = 0, caret_y = 0, FG = 0xFFFFFF, BG = 0, fb_width = mode_width m, fb_height = mode_height m,
         n_row = mode_pitch m div 4, characters_per_line = mode_width m div 8, characters_per_col = mode_height m div cs,
         dirty_start_y = 0, dirty_start_x = 0, dirty_end_y = 0, dirty_end_x = 0, fps = rate, fb_shadow = replicate n junk, shadow_lim = n,
         shadow_start = 0, lock_flush = False, show_cursor = False, character_size = cs, r_font = rasterize cs glyphs,
         progress_bar_height = cs div 2, progress_bar_percentage = 0, progress_bar_owner = None\<rparr>)"

end
