(* ===== verification/Printf.thy ===== *)
theory Printf
  imports FrameBuffer
begin

text \<open>
  Formatted output (\<^verbatim>\<open>src/src/kernel/core/fb.cpp\<close>, from \<^verbatim>\<open>k__int_str\<close> on). A format is the list of its characters with its terminator. The arguments of a
  call are the 32-bit words that lie on the stack, of which a 64-bit number takes two, the lower half first; \<open>mem\<close> gives the bytes from an address on. The text of
  floating-point numbers is the parameter \<open>flt\<close>: the formats e, f and g are not modelled further. What is printed is collected in \<open>p_out\<close>.
\<close>

section \<open>Numbers\<close>

text \<open>The digits, from the last one on; \<open>dig\<close> is the table of digits.\<close>

function digits_loop :: "nat \<Rightarrow> bytes \<Rightarrow> nat \<Rightarrow> bytes \<Rightarrow> bytes" where
  "digits_loop base dig n acc =
    (if base < 2 then acc
     else let acc = dig ! (n mod base) # acc in if n div base = 0 then acc else digits_loop base dig (n div base) acc)"
  by pat_completeness auto
termination by (relation "measure (\<lambda>(base, dig, n, acc). n)") (auto simp: div_greater_zero_iff intro!: div_less_dividend)

declare digits_loop.simps [simp del]

abbreviation upper_digits :: bytes where
  "upper_digits \<equiv> [0x30, 0x31, 0x32, 0x33, 0x34, 0x35, 0x36, 0x37, 0x38, 0x39, 0x41, 0x42, 0x43, 0x44, 0x45, 0x46]"

abbreviation lower_digits :: bytes where
  "lower_digits \<equiv> [0x30, 0x31, 0x32, 0x33, 0x34, 0x35, 0x36, 0x37, 0x38, 0x39, 0x61, 0x62, 0x63, 0x64, 0x65, 0x66]"

definition sign_of :: "int \<Rightarrow> bool \<Rightarrow> bool \<Rightarrow> bytes" where
  "sign_of i pls spc = (if i < 0 then [0x2D] else if pls then [0x2B] else if spc then [0x20] else [])"

text \<open>
  Base 17 stands for hexadecimal numbers with small letters. The negation of the smallest number overflows; the table of digits is then indexed with negative
  numbers. The padded text and its terminator must fit into 256 bytes.
\<close>

definition k__int_str :: "int \<Rightarrow> nat \<Rightarrow> bool \<Rightarrow> bool \<Rightarrow> int \<Rightarrow> bool \<Rightarrow> bool \<Rightarrow> bytes res" where
  "k__int_str i base pls spc width justify zero_pad =
    (if i = - (2 ^ 63) then Inl OutOfBounds
     else let txt = sign_of i pls spc @ digits_loop (if base = 17 then 16 else base) (if base = 17 then lower_digits else upper_digits) (nat \<bar>i\<bar>) [];
       padding = nat (width - int (length txt)); pad = replicate padding (if zero_pad then 0x30 else 0x20) in
       if 256 \<le> length txt + padding then Inl OutOfBounds
       else Inr (if justify then txt @ pad else pad @ txt))"

section \<open>Formats\<close>

record fmt_spec =
  leftJustify :: bool
  zeroPad :: bool
  spaceNoSign :: bool
  altForm :: bool
  plusSign :: bool
  lengthSpec :: u32
  precSpec :: u32
  len_mod :: u8
  specifier :: u8

definition no_spec :: fmt_spec where
  "no_spec = \<lparr>leftJustify = False, zeroPad = False, spaceNoSign = False, altForm = False, plusSign = False, lengthSpec = 0, precSpec = 0, len_mod = 0, specifier = 0\<rparr>"

fun read_flags :: "bytes \<Rightarrow> fmt_spec \<Rightarrow> (fmt_spec \<times> bytes) res" where
  "read_flags [] f = Inl OutOfBounds"
| "read_flags (c # fm) f =
    (if c = 0x2D then read_flags fm (f\<lparr>leftJustify := True\<rparr>)
     else if c = 0x2B then read_flags fm (f\<lparr>plusSign := True\<rparr>)
     else if c = 0x23 then read_flags fm (f\<lparr>altForm := True\<rparr>)
     else if c = 0x20 then read_flags fm (f\<lparr>spaceNoSign := True\<rparr>)
     else if c = 0x30 then read_flags fm (f\<lparr>zeroPad := True\<rparr>)
     else Inr (f, c # fm))"

fun read_digits :: "bytes \<Rightarrow> u32 \<Rightarrow> (u32 \<times> bytes) res" where
  "read_digits [] n = Inl OutOfBounds"
| "read_digits (c # fm) n = (if isdigit (scast c) then read_digits fm (n * 10 + (scast c - 48)) else Inr (n, c # fm))"

fun va_arg32 :: "u32 list \<Rightarrow> (u32 \<times> u32 list) res" where
  "va_arg32 [] = Inl OutOfBounds"
| "va_arg32 (a # args) = Inr (a, args)"

definition va_arg64 :: "u32 list \<Rightarrow> (64 word \<times> u32 list) res" where
  "va_arg64 args = bind_res (va_arg32 args) (\<lambda>(lo, args). bind_res (va_arg32 args) (\<lambda>(hi, args). Inr (word_cat hi lo, args)))"

text \<open>A number in the format, or a star for the next argument.\<close>

definition read_amount :: "bytes \<Rightarrow> u32 list \<Rightarrow> (u32 \<times> bytes \<times> u32 list) res" where
  "read_amount fm args = bind_res (read_digits fm 0) (\<lambda>(n, fm).
     if hd fm = 0x2A then bind_res (va_arg32 args) (\<lambda>(n, args). Inr (n, tl fm, args)) else Inr (n, fm, args))"

text \<open>The second \<^verbatim>\<open>h\<close> of \<^verbatim>\<open>hh\<close> is not skipped.\<close>

definition read_length :: "bytes \<Rightarrow> (u8 \<times> bytes) res" where
  "read_length fm = (case fm of [] \<Rightarrow> Inl OutOfBounds
     | c # fm' \<Rightarrow> if c \<in> {0x68, 0x6C, 0x6A, 0x7A, 0x74, 0x4C}
         then (case fm' of [] \<Rightarrow> Inl OutOfBounds
           | d # fm'' \<Rightarrow> if d = 0x68 then Inr (0x48, fm') else if d = 0x6C then Inr (0x71, fm'') else Inr (c, fm'))
         else Inr (0, fm))"

text \<open>The format from the character behind the percent sign on, up to and with the specifier.\<close>

definition read_spec :: "bytes \<Rightarrow> u32 list \<Rightarrow> (fmt_spec \<times> bytes \<times> u32 list) res" where
  "read_spec fm args = bind_res (read_flags fm no_spec) (\<lambda>(f, fm).
     bind_res (read_amount fm args) (\<lambda>(n, fm, args).
     bind_res (if fm = [] then Inl OutOfBounds
       else if hd fm = 0x2E then read_amount (tl fm) args else Inr (6, fm, args)) (\<lambda>(prec, fm, args).
     bind_res (read_length fm) (\<lambda>(l, fm).
     if fm = [] then Inl OutOfBounds
     else Inr (f\<lparr>lengthSpec := n, precSpec := prec, len_mod := l, specifier := hd fm\<rparr>, tl fm, args)))))"

section \<open>Output\<close>

record pstate =
  p_args :: "u32 list"
  p_out :: bytes
  p_chars :: int
  p_stores :: "(nat \<times> u32 \<times> int) list"

definition output_chars :: "bytes \<Rightarrow> pstate \<Rightarrow> pstate" where
  "output_chars txt p = p\<lparr>p_out := p_out p @ txt, p_chars := p_chars p + int (length txt)\<rparr>"

definition output_string :: "bytes \<Rightarrow> pstate \<Rightarrow> pstate res" where
  "output_string str p = bind_res (strlen str) (\<lambda>n. Inr (output_chars (take n str) p))"

definition output_int :: "int \<Rightarrow> nat \<Rightarrow> fmt_spec \<Rightarrow> pstate \<Rightarrow> pstate res" where
  "output_int i base f p = bind_res (k__int_str i base (plusSign f) (spaceNoSign f) (sint (lengthSpec f)) (leftJustify f) (zeroPad f)) (\<lambda>txt.
     Inr (output_chars txt p))"

definition with_arg32 :: "pstate \<Rightarrow> (u32 \<Rightarrow> pstate \<Rightarrow> pstate res) \<Rightarrow> pstate res" where
  "with_arg32 p k = bind_res (va_arg32 (p_args p)) (\<lambda>(a, args). k a (p\<lparr>p_args := args\<rparr>))"

definition with_arg64 :: "pstate \<Rightarrow> (64 word \<Rightarrow> pstate \<Rightarrow> pstate res) \<Rightarrow> pstate res" where
  "with_arg64 p k = bind_res (va_arg64 (p_args p)) (\<lambda>(a, args). k a (p\<lparr>p_args := args\<rparr>))"

text \<open>Every number is converted to the signed 64 bits of \<^verbatim>\<open>intmax_t\<close>.\<close>

definition print_unsigned :: "nat \<Rightarrow> fmt_spec \<Rightarrow> pstate \<Rightarrow> pstate res" where
  "print_unsigned base f p = (let l = len_mod f in
     if l \<in> {0, 0x6C, 0x7A} then with_arg32 p (\<lambda>a. output_int (uint a) base f)
     else if l = 0x48 then with_arg32 p (\<lambda>a. output_int (uint (ucast a :: u8)) base f)
     else if l = 0x68 then with_arg32 p (\<lambda>a. output_int (uint (ucast a :: 16 word)) base f)
     else if l \<in> {0x71, 0x6A} then with_arg64 p (\<lambda>a. output_int (sint a) base f)
     else if l = 0x74 then with_arg32 p (\<lambda>a. output_int (sint a) base f)
     else Inr p)"

definition print_signed :: "nat \<Rightarrow> fmt_spec \<Rightarrow> pstate \<Rightarrow> pstate res" where
  "print_signed base f p = (let l = len_mod f in
     if l \<in> {0, 0x6C, 0x74} then with_arg32 p (\<lambda>a. output_int (sint a) base f)
     else if l = 0x48 then with_arg32 p (\<lambda>a. output_int (sint (ucast a :: u8)) base f)
     else if l = 0x68 then with_arg32 p (\<lambda>a. output_int (sint (ucast a :: 16 word)) base f)
     else if l \<in> {0x71, 0x6A} then with_arg64 p (\<lambda>a. output_int (sint a) base f)
     else if l = 0x7A then with_arg32 p (\<lambda>a. output_int (uint a) base f)
     else Inr p)"

definition store_count :: "fmt_spec \<Rightarrow> pstate \<Rightarrow> pstate res" where
  "store_count f p = (let l = len_mod f; size = (if l = 0x48 then 1 else if l = 0x68 then 2 else if l \<in> {0, 0x6C, 0x7A, 0x74} then 4 else if l \<in> {0x71, 0x6A} then 8 else 0) in
     if size = 0 then Inr p else with_arg32 p (\<lambda>a p. Inr (p\<lparr>p_stores := p_stores p @ [(size, a, p_chars p)]\<rparr>)))"

definition print_spec :: "(u32 \<Rightarrow> bytes) \<Rightarrow> (fmt_spec \<Rightarrow> 64 word \<Rightarrow> bytes) \<Rightarrow> fmt_spec \<Rightarrow> pstate \<Rightarrow> pstate res" where
  "print_spec mem flt f p = (let c = specifier f in
     if c = 0x6F then print_unsigned 8 f (if altForm f then output_chars [0x30] p else p)
     else if c = 0x70 then print_unsigned 16 (f\<lparr>len_mod := 0x7A\<rparr>) p
     else if c \<in> {0x58, 0x78} then print_unsigned (if c = 0x58 then 16 else 17) f (if altForm f then output_chars [0x30, 0x78] p else p)
     else if c = 0x75 then print_unsigned 10 f p
     else if c \<in> {0x64, 0x69} then print_signed 10 f p
     else if c = 0x63 then with_arg32 p (\<lambda>a p. Inr (output_chars [ucast a] p))
     else if c = 0x73 then with_arg32 p (\<lambda>a. output_string (mem a))
     else if c = 0x6E then store_count f p
     else if c \<in> {0x65, 0x45, 0x66, 0x46, 0x67, 0x47} then with_arg64 p (\<lambda>d p. Inr (output_chars (flt f d) p))
     else Inr p)"

section \<open>The loop over the format\<close>

lemma bind_res_cong [fundef_cong]: "m = m' \<Longrightarrow> (\<And>x. m' = Inr x \<Longrightarrow> f x = f' x) \<Longrightarrow> bind_res m f = bind_res m' f'"
  by (cases m') auto

lemma read_flags_length: "read_flags fm f = Inr (f', fm') \<Longrightarrow> length fm' \<le> length fm \<and> fm' \<noteq> []"
  by (induction fm f rule: read_flags.induct) (auto split: if_splits)

lemma read_digits_length: "read_digits fm n = Inr (n', fm') \<Longrightarrow> length fm' \<le> length fm \<and> fm' \<noteq> []"
  by (induction fm n rule: read_digits.induct) (auto split: if_splits)

lemma read_amount_length: "read_amount fm args = Inr (n, fm', args') \<Longrightarrow> length fm' \<le> length fm"
  by (auto simp: read_amount_def res_elims split: if_splits dest!: read_digits_length intro: le_trans [rotated])

lemma read_length_length: "read_length fm = Inr (l, fm') \<Longrightarrow> length fm' \<le> length fm"
  by (auto simp: read_length_def split: list.splits if_splits)

lemma read_spec_length:
  assumes "read_spec fm args = Inr (f, fm', args')"
  shows "length fm' < length fm"
proof -
  from assms obtain f1 fm1 n fm2 a2 prec fm3 a3 l fm4 where r: "read_flags fm no_spec = Inr (f1, fm1)" "read_amount fm1 args = Inr (n, fm2, a2)"
    "(if fm2 = [] then Inl OutOfBounds else if hd fm2 = 0x2E then read_amount (tl fm2) a2 else Inr (6, fm2, a2)) = Inr (prec, fm3, a3)"
    "read_length fm3 = Inr (l, fm4)" "fm4 \<noteq> []" "fm' = tl fm4"
    unfolding read_spec_def by (auto simp: bind_res_Inr_iff split: if_splits)
  have "length fm3 \<le> length fm2" using r(3) read_amount_length by (fastforce split: if_splits)
  then have "length fm4 \<le> length fm"
    using read_flags_length [OF r(1)] read_amount_length [OF r(2)] read_length_length [OF r(4)] by linarith
  then show ?thesis using r(5,6) by (cases fm4) auto
qed

function kvprintf_loop :: "(u32 \<Rightarrow> bytes) \<Rightarrow> (fmt_spec \<Rightarrow> 64 word \<Rightarrow> bytes) \<Rightarrow> bytes \<Rightarrow> pstate \<Rightarrow> pstate res" where
  "kvprintf_loop mem flt [] p = Inl OutOfBounds"
| "kvprintf_loop mem flt (c # fm) p =
    (if c = 0 then Inr p
     else if c \<noteq> 0x25 then kvprintf_loop mem flt fm (output_chars [c] p)
     else bind_res (read_spec fm (p_args p)) (\<lambda>(f, fm', args).
       bind_res (print_spec mem flt f (p\<lparr>p_args := args\<rparr>)) (kvprintf_loop mem flt fm')))"
  by pat_completeness auto
termination
  by (relation "measure (\<lambda>(mem, flt, fm, p). length fm)") (auto dest: read_spec_length less_SucI)

definition kvprintf :: "(u32 \<Rightarrow> bytes) \<Rightarrow> (fmt_spec \<Rightarrow> 64 word \<Rightarrow> bytes) \<Rightarrow> bytes \<Rightarrow> u32 list \<Rightarrow> pstate res" where
  "kvprintf mem flt fm args = kvprintf_loop mem flt fm \<lparr>p_args = args, p_out = [], p_chars = 0, p_stores = []\<rparr>"

section \<open>Printing\<close>

text \<open>Printing to the screen gives the number of characters; printing to a buffer writes no terminator.\<close>

definition printf :: "(u32 \<Rightarrow> bytes) \<Rightarrow> (fmt_spec \<Rightarrow> 64 word \<Rightarrow> bytes) \<Rightarrow> bytes \<Rightarrow> u32 list \<Rightarrow> fbuf \<Rightarrow> (int \<times> fbuf) res" where
  "printf mem flt fm args s = bind_res (kvprintf mem flt fm args) (\<lambda>p. bind_res (fb_write (p_out p) s) (\<lambda>s. Inr (p_chars p, s)))"

definition sprintf :: "(u32 \<Rightarrow> bytes) \<Rightarrow> (fmt_spec \<Rightarrow> 64 word \<Rightarrow> bytes) \<Rightarrow> bytes \<Rightarrow> bytes \<Rightarrow> u32 list \<Rightarrow> (int \<times> bytes) res" where
  "sprintf mem flt str fm args = bind_res (kvprintf mem flt fm args) (\<lambda>p.
     if length (p_out p) \<le> length str then Inr (p_chars p, blit str 0 (p_out p)) else Inl OutOfBounds)"

definition msg_printf :: "(fbuf \<Rightarrow> fbuf res) \<Rightarrow> (fbuf \<Rightarrow> fbuf res) \<Rightarrow> (u32 \<Rightarrow> bytes) \<Rightarrow> (fmt_spec \<Rightarrow> 64 word \<Rightarrow> bytes) \<Rightarrow> bytes \<Rightarrow> u32 list \<Rightarrow> fbuf \<Rightarrow> (int \<times> fbuf) res" where
  "msg_printf deco line mem flt fm args s = bind_res (deco s) (\<lambda>s. bind_res (fb_putchar 0x20 s) (\<lambda>s.
     bind_res (printf mem flt fm args s) (\<lambda>(n, s). bind_res (fb_putchar 0x20 s) (\<lambda>s. bind_res (line s) (\<lambda>s. Inr (n, s))))))"

definition printf_error :: "(u32 \<Rightarrow> bytes) \<Rightarrow> (fmt_spec \<Rightarrow> 64 word \<Rightarrow> bytes) \<Rightarrow> bytes \<Rightarrow> u32 list \<Rightarrow> fbuf \<Rightarrow> (int \<times> fbuf) res" where
  "printf_error = msg_printf error_decorator fb_error"

definition printf_info :: "(u32 \<Rightarrow> bytes) \<Rightarrow> (fmt_spec \<Rightarrow> 64 word \<Rightarrow> bytes) \<Rightarrow> bytes \<Rightarrow> u32 list \<Rightarrow> fbuf \<Rightarrow> (int \<times> fbuf) res" where
  "printf_info = msg_printf info_decorator fb_info"

definition printf_warn :: "(u32 \<Rightarrow> bytes) \<Rightarrow> (fmt_spec \<Rightarrow> 64 word \<Rightarrow> bytes) \<Rightarrow> bytes \<Rightarrow> u32 list \<Rightarrow> fbuf \<Rightarrow> (int \<times> fbuf) res" where
  "printf_warn = msg_printf warn_decorator fb_warn"

end
