(* ===== verification/Console.thy ===== *)
theory Console
  imports FrameBuffer
begin

text \<open>
  The console as an abstract terminal: rows of characters and a cursor. What \<open>putchar\<close> does to the ring of cells is what the terminal does to its
  rows. A flush draws the glyph of every cell of the dirty rectangle.
\<close>

section \<open>The abstract terminal\<close>

record terminal =
  t_rows :: "u8 list list"
  t_x :: nat
  t_y :: nat

definition term_newline :: "terminal \<Rightarrow> terminal" where
  "term_newline t =
    (if t_y t + 1 < length (t_rows t) then t\<lparr>t_x := 0, t_y := t_y t + 1\<rparr>
     else t\<lparr>t_x := 0, t_rows := tl (t_rows t) @ [replicate (length (hd (t_rows t))) 0]\<rparr>)"

definition term_put :: "u8 \<Rightarrow> terminal \<Rightarrow> terminal" where
  "term_put c t =
    (if c = 10 then term_newline t
     else let r = t_rows t ! t_y t; t = t\<lparr>t_rows := (t_rows t)[t_y t := r[t_x t := c]], t_x := t_x t + 1\<rparr> in
       if t_x t = length r then term_newline t else t)"

definition term_erase :: "terminal \<Rightarrow> terminal" where
  "term_erase t = t\<lparr>t_rows := (t_rows t)[t_y t := (t_rows t ! t_y t)[t_x t - 1 := 0x20]], t_x := t_x t - 1\<rparr>"

section \<open>Invariant and abstraction\<close>

definition cell_index :: "fbuf \<Rightarrow> nat \<Rightarrow> nat \<Rightarrow> nat" where
  "cell_index s y x = ((shadow_start s div fb_width s + y) mod fb_height s) * fb_width s + x"

definition shown :: "fbuf \<Rightarrow> nat \<Rightarrow> nat \<Rightarrow> u8" where
  "shown s y x = c_char (fb_shadow s ! cell_index s y x)"

definition fb_geometry :: "fbuf \<Rightarrow> bool" where
  "fb_geometry s \<longleftrightarrow> 0 < characters_per_line s \<and> characters_per_line s \<le> fb_width s \<and> 0 < characters_per_col s \<and>
     characters_per_col s \<le> fb_height s \<and> 2 * (fb_width s * fb_height s) < W32 \<and> shadow_lim s = fb_width s * fb_height s \<and>
     length (fb_shadow s) = fb_width s * fb_height s \<and> fb_width s dvd shadow_start s \<and> shadow_start s < shadow_lim s"

definition fb_inv :: "fbuf \<Rightarrow> bool" where
  "fb_inv s \<longleftrightarrow> fb_geometry s \<and> caret_x s < characters_per_line s \<and> caret_y s < characters_per_col s \<and>
     (\<forall>y x. characters_per_col s \<le> y \<and> y < fb_height s \<and> x < fb_width s \<longrightarrow> shown s y x = 0)"

definition terminal_of :: "fbuf \<Rightarrow> terminal" where
  "terminal_of s = \<lparr>t_rows = map (\<lambda>y. map (shown s y) [0..<characters_per_line s]) [0..<characters_per_col s], t_x = caret_x s, t_y = caret_y s\<rparr>"

lemma geometry_bounds: "fb_geometry s \<Longrightarrow> 2 * fb_width s < W32 \<and> 2 * fb_height s < W32"
proof -
  assume geo: "fb_geometry s"
  then have "fb_width s * 1 \<le> fb_width s * fb_height s" "1 * fb_height s \<le> fb_width s * fb_height s"
    by (intro mult_le_mono2 mult_le_mono1; auto simp: fb_geometry_def)+
  moreover have "2 * (fb_width s * fb_height s) < W32" using geo by (simp add: fb_geometry_def)
  ultimately show ?thesis by linarith
qed

lemma cell_index_less:
  assumes "fb_geometry s" "x < fb_width s"
  shows "cell_index s y x < fb_width s * fb_height s"
proof -
  have "(shadow_start s div fb_width s + y) mod fb_height s < fb_height s" using assms by (auto simp: fb_geometry_def intro: mod_less_divisor)
  then have "Suc ((shadow_start s div fb_width s + y) mod fb_height s) * fb_width s \<le> fb_height s * fb_width s" by (intro mult_right_mono) auto
  then show ?thesis using assms(2) by (simp add: cell_index_def mult.commute)
qed

lemma cell_index_inj:
  assumes "fb_geometry s" "x < fb_width s" "x' < fb_width s" "y < fb_height s" "y' < fb_height s" "cell_index s y x = cell_index s y' x'"
  shows "y = y' \<and> x = x'"
proof -
  let ?k = "shadow_start s div fb_width s"
  have "cell_index s y x mod fb_width s = x" "cell_index s y' x' mod fb_width s = x'" using assms(2,3) by (simp_all add: cell_index_def)
  moreover have "cell_index s y x div fb_width s = (?k + y) mod fb_height s" "cell_index s y' x' div fb_width s = (?k + y') mod fb_height s"
    using assms(2,3) by (simp_all add: cell_index_def)
  ultimately have "x = x'" "(?k + y) mod fb_height s = (?k + y') mod fb_height s" using assms(6) by auto
  moreover from this(2) have "y mod fb_height s = y' mod fb_height s" by (simp add: nat_mod_eq_iff)
  ultimately show ?thesis using assms(4,5) by simp
qed

lemma ring_bound:
  assumes "fb_geometry s" "y < fb_height s"
  shows "shadow_start s + Suc y * fb_width s \<le> 2 * (fb_width s * fb_height s)"
proof -
  have "shadow_start s < fb_width s * fb_height s" using assms(1) by (auto simp: fb_geometry_def)
  moreover have "Suc y * fb_width s \<le> fb_height s * fb_width s" using assms(2) by (intro mult_right_mono) auto
  ultimately show ?thesis by (simp add: mult.commute)
qed

text \<open>The offset that the code computes, with one subtraction in place of a remainder.\<close>

lemma shadow_offset_eq:
  assumes "fb_geometry s" "y < fb_height s" "x < fb_width s"
  shows "shadow_offset y x s = cell_index s y x"
proof -
  let ?W = "fb_width s" and ?H = "fb_height s" and ?k = "shadow_start s div fb_width s"
  have st: "shadow_start s = ?k * ?W" using assms(1) by (simp add: fb_geometry_def)
  have lim: "shadow_lim s = ?W * ?H" "2 * (?W * ?H) < W32" using assms(1) by (simp_all add: fb_geometry_def)
  have k: "?k < ?H" using assms(1) by (auto simp: fb_geometry_def less_mult_imp_div_less mult.commute)
  have lt: "Suc (?k + y) * ?W \<le> 2 * (?W * ?H)" using k assms(2) mult_right_mono [of "Suc (?k + y)" "2 * ?H" ?W] by (simp add: algebra_simps)
  have "y * ?W < W32" "?k * ?W + y * ?W < W32" "?k * ?W + y * ?W + x < W32" using lt lim(2) assms(3) by (simp_all add: algebra_simps)
  then have off: "add32 (add32 (shadow_start s) (mul32 y ?W)) x = (?k + y) * ?W + x"
    using st by (simp add: arith32 algebra_simps)
  show ?thesis
  proof (cases "?k + y < ?H")
    case True
    then have "Suc (?k + y) * ?W \<le> ?H * ?W" by (intro mult_right_mono) auto
    then have "(?k + y) * ?W + x < ?W * ?H" using assms(3) by (simp add: algebra_simps)
    then show ?thesis using True off lim(1) by (simp add: shadow_offset_def cell_index_def Let_def)
  next
    case False
    then have le: "?H * ?W \<le> (?k + y) * ?W" by (intro mult_le_mono1) simp
    then have "(?k + y) * ?W + x - ?H * ?W = (?k + y - ?H) * ?W + x" by (simp add: diff_mult_distrib)
    moreover have "(?k + y) * ?W + x < W32" using lt lim(2) assms(3) by (simp add: algebra_simps)
    moreover have "(?k + y) mod ?H = ?k + y - ?H" using False k assms(2) by (simp add: mod_if)
    moreover have "shadow_lim s \<le> (?k + y) * ?W + x" using le lim(1) by (metis mult.commute trans_le_add1)
    ultimately show ?thesis using off lim(1)
      by (simp add: shadow_offset_def cell_index_def Let_def sub32_eq mult.commute [of ?W])
  qed
qed

section \<open>Writing a character\<close>

lemma geometry_simps [simp]:
  "fb_geometry (s\<lparr>caret_x := a\<rparr>) = fb_geometry s" "fb_geometry (s\<lparr>caret_y := b\<rparr>) = fb_geometry s" "fb_geometry (update_dirty_rect s) = fb_geometry s"
  "fb_geometry (all_dirty s) = fb_geometry s" "fb_geometry (s\<lparr>fb_shadow := cs\<rparr>) \<longleftrightarrow> fb_geometry s \<and> length cs = length (fb_shadow s)" if "fb_geometry s"
  using that by (auto simp: fb_geometry_def update_dirty_rect_def all_dirty_def)

lemma shown_simps [simp]:
  "shown (s\<lparr>caret_x := a\<rparr>) = shown s" "shown (s\<lparr>caret_y := b\<rparr>) = shown s" "shown (update_dirty_rect s) = shown s" "shown (all_dirty s) = shown s"
  by (simp_all add: fun_eq_iff shown_def cell_index_def update_dirty_rect_def all_dirty_def)

lemma dirty_simps [simp]:
  "caret_x (update_dirty_rect s) = caret_x s" "caret_y (update_dirty_rect s) = caret_y s" "fb_width (update_dirty_rect s) = fb_width s"
  "fb_height (update_dirty_rect s) = fb_height s" "characters_per_line (update_dirty_rect s) = characters_per_line s"
  "characters_per_col (update_dirty_rect s) = characters_per_col s" "caret_x (all_dirty s) = caret_x s" "caret_y (all_dirty s) = caret_y s"
  "fb_width (all_dirty s) = fb_width s" "fb_height (all_dirty s) = fb_height s" "characters_per_line (all_dirty s) = characters_per_line s"
  "characters_per_col (all_dirty s) = characters_per_col s"
  by (simp_all add: update_dirty_rect_def all_dirty_def)

lemma terminal_dirty [simp]: "terminal_of (update_dirty_rect s) = terminal_of s" "terminal_of (all_dirty s) = terminal_of s"
  by (simp_all add: terminal_of_def)

text \<open>A scroll by one row: the first row leaves the screen, the others move up, and a blank row appears.\<close>

lemma next_start:
  assumes "fb_geometry s"
  shows "add32 (shadow_start s) (mul32 1 (fb_width s)) mod shadow_lim s = (shadow_start s div fb_width s + 1) mod fb_height s * fb_width s"
proof -
  let ?W = "fb_width s" and ?H = "fb_height s" and ?k = "shadow_start s div fb_width s"
  have st: "shadow_start s = ?k * ?W" and lim: "shadow_lim s = ?W * ?H" "shadow_start s < ?W * ?H" "2 * (?W * ?H) < W32" "1 \<le> ?H"
    using assms by (auto simp: fb_geometry_def)
  have "?W * 1 \<le> ?W * ?H" using lim(4) by (intro mult_le_mono2)
  then have sum: "shadow_start s + ?W < W32" and W: "?W < W32" using lim(2,3) by linarith+
  have "add32 (shadow_start s) (mul32 1 ?W) = (?k + 1) * ?W" using st sum W by (simp add: arith32 algebra_simps)
  then show ?thesis unfolding lim(1) by (metis mult.commute mult_mod_right)
qed

lemma cell_index_scrolled:
  assumes "fb_geometry s" "start = (shadow_start s div fb_width s + 1) mod fb_height s * fb_width s"
  shows "cell_index (s\<lparr>shadow_start := start\<rparr>) y x = cell_index s (y + 1) x"
proof -
  have "start div fb_width s = (shadow_start s div fb_width s + 1) mod fb_height s" using assms by (auto simp: fb_geometry_def)
  moreover have "((shadow_start s div fb_width s + 1) mod fb_height s + y) mod fb_height s = (shadow_start s div fb_width s + (y + 1)) mod fb_height s"
    unfolding mod_add_left_eq by (simp add: ac_simps)
  ultimately show ?thesis by (simp only: cell_index_def fbuf.simps fbuf.select_convs fbuf.update_convs) simp
qed

lemma clear_row_shown:
  assumes "fb_geometry s" "r < fb_height s"
  shows "\<exists>s'. clear_row (cell_index s r 0) s = Inr s' \<and> (\<forall>y x. y < fb_height s \<and> x < fb_width s \<longrightarrow> shown s' y x = (if y = r then 0 else shown s y x)) \<and>
    fb_geometry s' \<and> (\<exists>cs. s' = s\<lparr>fb_shadow := cs\<rparr>)"
proof -
  let ?W = "fb_width s" and ?off = "cell_index s r 0"
  let ?src = "map (\<lambda>c. c\<lparr>c_char := 0\<rparr>) (take ?W (drop ?off (fb_shadow s)))"
  define s' where "s' = s\<lparr>fb_shadow := blit (fb_shadow s) ?off ?src\<rparr>"
  have W: "0 < ?W" using assms(1) by (auto simp: fb_geometry_def)
  have len: "length (fb_shadow s) = ?W * fb_height s" using assms(1) by (simp add: fb_geometry_def)
  have last: "cell_index s r (?W - 1) < ?W * fb_height s" using W by (intro cell_index_less assms(1)) simp
  then have le: "?off + ?W \<le> length (fb_shadow s)" using W len by (simp add: cell_index_def)
  then have src: "length ?src = ?W" by simp
  have geo: "fb_geometry s'" using assms(1) le src by (simp add: s'_def)
  have "shown s' y x = (if y = r then 0 else shown s y x)" if y: "y < fb_height s" "x < ?W" for y x
  proof -
    let ?i = "cell_index s y x"
    have i: "?i < length (fb_shadow s)" using cell_index_less [OF assms(1) y(2), of y] len by simp
    have row: "?off \<le> ?i \<and> ?i < ?off + ?W \<longleftrightarrow> y = r"
    proof
      assume "?off \<le> ?i \<and> ?i < ?off + ?W"
      then have "?i = cell_index s r (?i - ?off)" "?i - ?off < ?W" by (auto simp: cell_index_def)
      then show "y = r" using cell_index_inj [OF assms(1) y(2) _ y(1) assms(2)] by blast
    qed (use y in \<open>simp add: cell_index_def\<close>)
    have "shown s' y x = c_char (blit (fb_shadow s) ?off ?src ! ?i)" by (simp add: shown_def s'_def cell_index_def)
    also have "\<dots> = (if y = r then 0 else shown s y x)"
      using row i le src by (auto simp: nth_blit shown_def)
    finally show ?thesis .
  qed
  moreover have "clear_row ?off s = Inr s'" using le by (simp add: clear_row_def s'_def Let_def)
  ultimately show ?thesis using geo s'_def by blast
qed

lemma scroll_ok:
  assumes geo: "fb_geometry s" and caret: "caret_x s < characters_per_line s" "caret_y s = characters_per_col s"
    and hidden: "\<forall>y x. characters_per_col s \<le> y \<and> y < fb_height s \<and> x < fb_width s \<longrightarrow> shown s y x = 0"
  shows "\<exists>s'. fb_scroll 1 s = Inr s' \<and> fb_inv s' \<and> caret_x s' = caret_x s \<and> caret_y s' = caret_y s - 1 \<and>
    characters_per_line s' = characters_per_line s \<and> characters_per_col s' = characters_per_col s \<and>
    (\<forall>y x. y < characters_per_col s \<and> x < fb_width s \<longrightarrow> shown s' y x = (if y + 1 < characters_per_col s then shown s (y + 1) x else 0))"
proof -
  let ?W = "fb_width s" and ?H = "fb_height s" and ?C = "characters_per_col s"
  define start where "start = (shadow_start s div ?W + 1) mod ?H * ?W"
  define s1 where "s1 = s\<lparr>shadow_start := start\<rparr>"
  have dim: "0 < ?W" "0 < ?H" "?C \<le> ?H" "0 < ?C" "shadow_lim s = ?W * ?H" "2 * (?W * ?H) < W32" using geo by (auto simp: fb_geometry_def)
  have "Suc ((shadow_start s div ?W + 1) mod ?H) * ?W \<le> ?H * ?W" using dim(2) by (intro mult_right_mono) (auto simp: Suc_le_eq)
  then have lt: "start < ?W * ?H" using dim(1) unfolding start_def mult_Suc mult.commute [of ?W] by linarith
  have geo1: "fb_geometry s1" using geo lt by (auto simp: fb_geometry_def s1_def start_def)
  have shown1: "shown s1 y x = shown s (y + 1) x" for y x
    using cell_index_scrolled [OF geo start_def] by (simp add: shown_def s1_def)
  have H: "?H < W32" using geometry_bounds [OF geo] by linarith
  have E: "add32 (add32 start (mul32 (sub32 ?H 1) ?W)) (mul32 0 (fb_width s1)) = add32 (add32 (shadow_start s1) (mul32 (?H - 1) (fb_width s1))) 0"
    using dim(2) H by (simp add: s1_def sub32_eq mul32_def)
  have off: "(if shadow_lim s1 \<le> add32 (add32 start (mul32 (sub32 ?H 1) ?W)) (mul32 0 (fb_width s1))
      then sub32 (add32 (add32 start (mul32 (sub32 ?H 1) ?W)) (mul32 0 (fb_width s1))) (shadow_lim s1)
      else add32 (add32 start (mul32 (sub32 ?H 1) ?W)) (mul32 0 (fb_width s1))) = cell_index s1 (?H - 1) 0"
    unfolding E by (rule shadow_offset_eq [OF geo1, unfolded shadow_offset_def Let_def]) (use dim in \<open>simp_all add: s1_def\<close>)
  obtain s2 cs where s2: "clear_row (cell_index s1 (?H - 1) 0) s1 = Inr s2" "fb_geometry s2" "s2 = s1\<lparr>fb_shadow := cs\<rparr>" and
    shown2: "\<And>y x. y < ?H \<Longrightarrow> x < ?W \<Longrightarrow> shown s2 y x = (if y = ?H - 1 then 0 else shown s1 y x)"
    using clear_row_shown [OF geo1, of "?H - 1"] dim(2) by (auto simp: s1_def)
  define s' where "s' = all_dirty (s2\<lparr>caret_y := sub32 (caret_y s2) 1\<rparr>)"
  have st: "add32 (shadow_start s) (mul32 1 ?W) mod shadow_lim s = start" using next_start [OF geo] by (simp add: start_def)
  have lim: "shadow_lim s \<noteq> 0" "\<not> shadow_lim s \<le> start" using lt dim(1,2,5) by auto
  have step: "fb_scroll 1 s = Inr s'"
    unfolding fb_scroll_def Let_def st s'_def using lim off s2(1) unfolding s1_def One_nat_def by (simp only: if_False for_n.simps bind_res.simps)
  have C: "caret_y s' = ?C - 1" using caret(2) dim H by (simp add: s'_def s2(3) s1_def sub32_eq)
  have same: "characters_per_line s' = characters_per_line s" "characters_per_col s' = ?C" "caret_x s' = caret_x s" "fb_width s' = ?W" "fb_height s' = ?H"
    by (simp_all add: s'_def s2(3) s1_def)
  have shown': "shown s' y x = (if y = ?H - 1 then 0 else shown s (y + 1) x)" if "y < ?H" "x < ?W" for y x
    using shown2 [OF that] shown1 by (simp add: s'_def)
  have "fb_inv s'" unfolding fb_inv_def using s2(2) same C dim caret(1) hidden shown' by (auto simp: s'_def)
  moreover have "shown s' y x = (if y + 1 < ?C then shown s (y + 1) x else 0)" if "y < ?C" "x < ?W" for y x
    using that shown' [of y x] dim hidden by auto
  ultimately show ?thesis using step same C caret(2) by (intro exI [of _ s']) simp
qed

lemma rows_update:
  assumes "Y < C" "X < L"
  shows "(map (\<lambda>y. map (f y) [0..<L]) [0..<C])[Y := (map (\<lambda>y. map (f y) [0..<L]) [0..<C] ! Y)[X := c]] =
    map (\<lambda>y. map (\<lambda>x. if y = Y \<and> x = X then c else f y x) [0..<L]) [0..<C]"
  using assms by (intro nth_equalityI) (auto simp: nth_list_update intro!: nth_equalityI)

lemma rows_scrolled:
  assumes "0 < C"
  shows "tl (map (\<lambda>y. map (f y) [0..<L]) [0..<C]) @ [replicate (length (hd (map (\<lambda>y. map (f y) [0..<L]) [0..<C]))) 0] =
    map (\<lambda>y. map (\<lambda>x. if y + 1 < C then f (y + 1) x else 0) [0..<L]) [0..<C]"
  using assms by (intro nth_equalityI) (auto simp: nth_append nth_tl hd_map intro!: nth_equalityI)

text \<open>The end of a line.\<close>

lemma line_end_ok:
  assumes geo: "fb_geometry s" and caret: "caret_y s < characters_per_col s"
    and hidden: "\<forall>y x. characters_per_col s \<le> y \<and> y < fb_height s \<and> x < fb_width s \<longrightarrow> shown s y x = 0"
  defines "s1 \<equiv> s\<lparr>caret_y := add32 (caret_y s) 1, caret_x := 0\<rparr>"
  shows "if characters_per_col s \<le> caret_y s1 then \<exists>s'. fb_scroll 1 s1 = Inr s' \<and> fb_inv s' \<and> terminal_of s' = term_newline (terminal_of s)
    else fb_inv s1 \<and> terminal_of s1 = term_newline (terminal_of s)"
proof -
  let ?C = "characters_per_col s" and ?L = "characters_per_line s"
  have dim: "0 < ?L" "?L \<le> fb_width s" "?C \<le> fb_height s" "2 * (fb_width s * fb_height s) < W32" using geo by (auto simp: fb_geometry_def)
  have y: "caret_y s1 = caret_y s + 1" using geometry_bounds [OF geo] dim(3) caret by (simp add: s1_def add32_eq)
  have geo1: "fb_geometry s1" using geo by (simp add: s1_def fb_geometry_def)
  have shown1: "shown s1 = shown s" by (simp add: s1_def)
  show ?thesis
  proof (cases "caret_y s + 1 < ?C")
    case True
    then have "fb_inv s1" using geo1 hidden y dim(1) shown1 by (auto simp: fb_inv_def) (simp_all add: s1_def)
    moreover have "terminal_of s1 = term_newline (terminal_of s)"
      using True y shown1 by (simp add: terminal_of_def term_newline_def) (simp add: s1_def)
    ultimately show ?thesis using True y by simp
  next
    case False
    then have yC: "caret_y s1 = characters_per_col s1" using y caret by (simp add: s1_def)
    obtain s' where s': "fb_scroll 1 s1 = Inr s'" "fb_inv s'" "caret_x s' = 0" "caret_y s' = caret_y s" "characters_per_line s' = ?L" "characters_per_col s' = ?C"
      and shown': "\<And>y x. y < ?C \<Longrightarrow> x < fb_width s \<Longrightarrow> shown s' y x = (if y + 1 < ?C then shown s (y + 1) x else 0)"
      using scroll_ok [OF geo1 _ yC] hidden dim(1) y shown1 by (auto simp: s1_def)
    have "t_rows (terminal_of s') = map (\<lambda>y. map (\<lambda>x. if y + 1 < ?C then shown s (y + 1) x else 0) [0..<?L]) [0..<?C]"
      using shown' dim(2) s'(5,6) by (simp add: terminal_of_def)
    moreover have "0 < ?C" using caret by simp
    ultimately have "terminal_of s' = term_newline (terminal_of s)"
      using False caret s'(3-6) rows_scrolled [of ?C "shown s" ?L] by (simp add: terminal_of_def term_newline_def)
    then show ?thesis using s'(1,2) False y by auto
  qed
qed

lemma put_cell_ok:
  assumes "fb_geometry s" "y < fb_height s" "x < fb_width s"
  shows "\<exists>s'. put_cell (shadow_offset y x s) c s = Inr s' \<and> fb_geometry s' \<and> (\<exists>cs. s' = s\<lparr>fb_shadow := cs\<rparr>) \<and>
    (\<forall>y' x'. y' < fb_height s \<and> x' < fb_width s \<longrightarrow> shown s' y' x' = (if y' = y \<and> x' = x then c_char c else shown s y' x'))"
proof -
  let ?s' = "s\<lparr>fb_shadow := (fb_shadow s)[cell_index s y x := c]\<rparr>"
  have len: "cell_index s y x < length (fb_shadow s)" using cell_index_less [OF assms(1,3)] assms(1) by (simp add: fb_geometry_def)
  have "shown ?s' y' x' = (if y' = y \<and> x' = x then c_char c else shown s y' x')" if "y' < fb_height s" "x' < fb_width s" for y' x'
    using cell_index_inj [OF assms(1) that(2) assms(3) that(1) assms(2)] len
    by (auto simp: shown_def nth_list_update) (auto simp: cell_index_def)
  then show ?thesis using len assms by (auto simp: put_cell_def shadow_offset_eq)
qed

lemma put_glyph_ok:
  assumes "fb_inv s" "c \<noteq> 10"
  shows "\<exists>s'. put_glyph c s = Inr s' \<and> fb_inv s' \<and> terminal_of s' = term_put c (terminal_of s)"
proof -
  let ?C = "characters_per_col s" and ?L = "characters_per_line s"
  have geo: "fb_geometry s" and caret: "caret_x s < ?L" "caret_y s < ?C" using assms(1) by (simp_all add: fb_inv_def)
  have dim: "?L \<le> fb_width s" "?C \<le> fb_height s" "2 * (fb_width s * fb_height s) < W32" using geo by (auto simp: fb_geometry_def)
  have x1: "add32 (caret_x s) 1 = caret_x s + 1" using geometry_bounds [OF geo] dim(1) caret(1) by (simp add: add32_eq)
  let ?u = "update_dirty_rect s"
  obtain s1 cs where s1: "put_cell (shadow_offset (caret_y s) (caret_x s) ?u) \<lparr>c_fg = FG ?u, c_bg = BG ?u, c_char = c\<rparr> ?u = Inr s1" "fb_geometry s1"
    "s1 = ?u\<lparr>fb_shadow := cs\<rparr>" and shown1: "\<And>y' x'. y' < fb_height s \<Longrightarrow> x' < fb_width s \<Longrightarrow>
      shown s1 y' x' = (if y' = caret_y s \<and> x' = caret_x s then c else shown s y' x')"
    using put_cell_ok [of ?u "caret_y s" "caret_x s" "\<lparr>c_fg = FG ?u, c_bg = BG ?u, c_char = c\<rparr>"] geo caret dim by auto
  have same: "caret_x s1 = caret_x s" "caret_y s1 = caret_y s" "characters_per_line s1 = ?L" "characters_per_col s1 = ?C" "fb_width s1 = fb_width s" "fb_height s1 = fb_height s"
    by (simp_all add: s1(3))
  define s2 where "s2 = s1\<lparr>caret_x := caret_x s + 1\<rparr>"
  have same2: "caret_x s2 = caret_x s + 1" "caret_y s2 = caret_y s" "characters_per_line s2 = ?L" "characters_per_col s2 = ?C" "fb_width s2 = fb_width s"
    "fb_height s2 = fb_height s" "shown s2 = shown s1" "fb_geometry s2"
    using same s1(2) by (simp_all add: s2_def)
  have hidden: "\<forall>y x. ?C \<le> y \<and> y < fb_height s2 \<and> x < fb_width s2 \<longrightarrow> shown s2 y x = 0"
    using assms(1) shown1 same2 caret by (auto simp: fb_inv_def)
  have rows: "t_rows (terminal_of s2) = (t_rows (terminal_of s))[caret_y s := (t_rows (terminal_of s) ! caret_y s)[caret_x s := c]]"
    using rows_update [OF caret(2,1), of "shown s" c] shown1 dim same2 by (simp add: terminal_of_def)
  have step: "put_glyph c s = (if caret_x s2 = ?L
      then let s = s2\<lparr>caret_y := add32 (caret_y s2) 1, caret_x := 0\<rparr> in if ?C \<le> caret_y s then fb_scroll 1 s else Inr (update_dirty_rect s)
      else Inr (update_dirty_rect s2))"
    using s1(1) x1 same same2 by (simp add: put_glyph_def Let_def s2_def [symmetric]) (simp add: s2_def)
  have len: "length (t_rows (terminal_of s) ! caret_y s) = ?L" using caret by (simp add: terminal_of_def)
  show ?thesis
  proof (cases "caret_x s + 1 = ?L")
    case True
    then have "term_put c (terminal_of s) = term_newline (terminal_of s2)"
      using assms(2) rows len same2 by (simp add: term_put_def Let_def) (simp add: terminal_of_def)
    moreover have "fb_inv (update_dirty_rect t) = fb_inv t" for t
      by (auto simp: fb_inv_def fb_geometry_def update_dirty_rect_def shown_def cell_index_def)
    ultimately show ?thesis unfolding step using line_end_ok [of s2] True same2 hidden caret
      by (auto simp: Let_def split: if_splits)
  next
    case False
    then have "term_put c (terminal_of s) = terminal_of s2"
      using assms(2) rows len same2 by (simp add: term_put_def Let_def) (simp add: terminal_of_def)
    moreover have "fb_inv (update_dirty_rect s2)" using same2 hidden caret False by (simp add: fb_inv_def)
    ultimately show ?thesis unfolding step using False same2 by simp
  qed
qed

text \<open>What \<open>putchar\<close> makes of a byte of a string: bytes that are not ASCII become the character 219.\<close>

definition glyph_of :: "u8 \<Rightarrow> u8" where
  "glyph_of b = (if b < 128 then b else 0xDB)"

lemma sint8: "sint (b :: u8) = (if b < 128 then uint b else uint b - 256)"
proof -
  have "uint b < 256" using unsigned_less [of b, where ?'a=int] by simp
  moreover have "(uint b + 128) mod 256 = uint b - 128" if "uint b < 256" "128 \<le> uint b" using mod_add_self2 [of "uint b - 128" 256] that by (simp add: add.commute)
  ultimately show ?thesis
    by (auto simp: word_less_def sint_uint signed_take_bit_eq_take_bit_shift take_bit_eq_mod mod_pos_pos_trivial push_bit_eq_mult)
qed

lemma scast8_low: "b < 128 \<Longrightarrow> (scast (b :: u8) :: 16 word) = ucast b"
  by (simp add: scast_eq sint8 word_of_int_uint flip: ucast_eq)

lemma scast8_high: "\<not> b < 128 \<Longrightarrow> 255 \<le> (scast (b :: u8) :: 16 word)"
proof -
  assume b: "\<not> b < 128"
  have u: "uint b < 256" "128 \<le> uint b" using b unsigned_less [of b, where ?'a=int] by (auto simp: word_less_def)
  have "(uint b - 256) mod 65536 = uint b + 65280" using u by (subst mod_add_self2 [symmetric]) simp
  then have "uint (scast b :: 16 word) = uint b + 65280" using b by (simp only: scast_eq sint8 if_False uint_word_of_int) simp
  then show ?thesis using u by (simp add: word_le_def)
qed

lemma ucast_low: "b < 128 \<Longrightarrow> \<not> 255 \<le> (ucast (b :: u8) :: 16 word)"
proof -
  have "uint b < 256" using unsigned_less [of b, where ?'a=int] by simp
  moreover assume "b < 128"
  ultimately show ?thesis by (simp add: word_le_def word_less_def uint_up_ucast is_up)
qed

lemma ucast_eq_const: "(ucast (b :: u8) :: 16 word) = 8 \<longleftrightarrow> b = 8" "(ucast (b :: u8) :: 16 word) = 10 \<longleftrightarrow> b = 10"
  by (auto simp: word_uint_eq_iff uint_up_ucast is_up)

lemma putchar_ok:
  assumes "fb_inv s" "b \<noteq> 8"
  shows "\<exists>s'. fb_putchar (scast b) s = Inr s' \<and> fb_inv s' \<and> terminal_of s' = term_put (glyph_of b) (terminal_of s)"
proof -
  let ?c = "if 255 \<le> (scast b :: 16 word) then 0xDB else (scast b :: 16 word)"
  have "?c = (if b < 128 then ucast b else 0xDB)" using scast8_low [of b] scast8_high [of b] ucast_low [of b] by (cases "b < 128") simp_all
  moreover have "(ucast (ucast b :: 16 word) :: u8) = b" by (simp add: ucast_up_ucast_id is_up)
  ultimately have c: "(ucast ?c :: u8) = glyph_of b \<and> ?c \<noteq> 8 \<and> (?c = 10 \<longleftrightarrow> b = 10) \<and> (glyph_of b = 10 \<longleftrightarrow> b = 10)"
    using assms(2) ucast_eq_const [of b] by (cases "b < 128") (simp_all add: glyph_of_def, auto)
  show ?thesis
  proof (cases "b = 10")
    case True
    have inv: "fb_geometry (update_dirty_rect s)" "caret_y (update_dirty_rect s) < characters_per_col (update_dirty_rect s)"
      "\<forall>y x. characters_per_col (update_dirty_rect s) \<le> y \<and> y < fb_height (update_dirty_rect s) \<and> x < fb_width (update_dirty_rect s) \<longrightarrow> shown (update_dirty_rect s) y x = 0"
      using assms(1) by (auto simp: fb_inv_def)
    show ?thesis using line_end_ok [OF inv] True c by (auto simp: fb_putchar_def Let_def term_put_def split: if_splits)
  next
    case False
    then show ?thesis using put_glyph_ok [OF assms(1), of "glyph_of b"] c by (simp add: fb_putchar_def Let_def)
  qed
qed

lemma console_write_ok:
  "fb_inv s \<Longrightarrow> 8 \<notin> set bs \<Longrightarrow>
    \<exists>s'. fb_write bs s = Inr s' \<and> fb_inv s' \<and> terminal_of s' = fold (\<lambda>b. term_put (glyph_of b)) bs (terminal_of s)"
proof (induction bs arbitrary: s)
  case (Cons b bs)
  then obtain s1 where s1: "fb_putchar (scast b) s = Inr s1" "fb_inv s1" "terminal_of s1 = term_put (glyph_of b) (terminal_of s)"
    using putchar_ok [of s b] by auto
  then show ?case using Cons.IH [OF s1(2)] Cons.prems(2) by simp
qed simp

definition blank_terminal :: "nat \<Rightarrow> nat \<Rightarrow> terminal" where
  "blank_terminal rows cols = \<lparr>t_rows = replicate rows (replicate cols 0), t_x = 0, t_y = 0\<rparr>"

lemma init_ok:
  assumes "find_mode b = Inr m" "8 \<le> mode_width m" "0 < cs" "cs \<le> mode_height m" "2 * (mode_width m * mode_height m) < W32" "255 * cs \<le> length glyphs"
  shows "\<exists>s. fb_init rate b (Some px) cs glyphs junk = Inr s \<and> fb_inv s \<and> terminal_of s = blank_terminal (mode_height m div cs) (mode_width m div 8)"
proof -
  let ?n = "mode_width m * mode_height m"
  have n: "mul32 (mode_width m) (mode_height m) = ?n" using assms(5) by (intro mul32_eq) linarith
  have div: "0 < mode_width m div 8" "mode_width m div 8 \<le> mode_width m" "0 < mode_height m div cs" "mode_height m div cs \<le> mode_height m"
    using assms(2-4) by (simp_all add: div_greater_zero_iff)
  have "\<exists>s. fb_init rate b (Some px) cs glyphs junk = Inr s \<and> fb_shadow s = replicate ?n \<lparr>c_fg = FG s, c_bg = BG s, c_char = 0\<rparr> \<and>
    fb_width s = mode_width m \<and> fb_height s = mode_height m \<and> characters_per_line s = mode_width m div 8 \<and> characters_per_col s = mode_height m div cs \<and>
    shadow_lim s = ?n \<and> shadow_start s = 0 \<and> caret_x s = 0 \<and> caret_y s = 0"
    using assms n by (simp add: fb_init_def clear_screen_def blit_def Let_def mult.commute) (simp add: all_dirty_def)
  then obtain s where s: "fb_init rate b (Some px) cs glyphs junk = Inr s" "fb_shadow s = replicate ?n \<lparr>c_fg = FG s, c_bg = BG s, c_char = 0\<rparr>"
    "fb_width s = mode_width m" "fb_height s = mode_height m" "characters_per_line s = mode_width m div 8" "characters_per_col s = mode_height m div cs"
    "shadow_lim s = ?n" "shadow_start s = 0" "caret_x s = 0" "caret_y s = 0" by blast
  have geo: "fb_geometry s" using s div assms by (simp add: fb_geometry_def)
  have blank: "shown s y x = 0" if "x < mode_width m" for y x
    using cell_index_less [OF geo, of x y] that s(2-4) by (simp add: shown_def)
  have "fb_inv s" using geo s div blank by (simp add: fb_inv_def)
  moreover have "terminal_of s = blank_terminal (mode_height m div cs) (mode_width m div 8)"
    using s(5,6,9,10) div(2) blank by (simp add: terminal_of_def blank_terminal_def map_replicate_const [symmetric] cong: map_cong) (auto intro!: nth_equalityI)
  ultimately show ?thesis using s(1) by blast
qed

text \<open>
  C17. Console: on every screen that is at least one character wide and high, any text without backspaces that is written after the initialisation shows what a
  terminal shows: characters from left to right, a new row after a line break or when a row is full, and, in the last row, all rows move up by one and a
  blank row appears. The ring of rows, in which a scroll moves the start and clears one row, never shows anything else, and no write leaves it.
\<close>
theorem console_shows_text:
  assumes "find_mode b = Inr m" "8 \<le> mode_width m" "0 < cs" "cs \<le> mode_height m" "2 * (mode_width m * mode_height m) < W32" "255 * cs \<le> length glyphs"
    and "8 \<notin> set txt"
  shows "\<exists>s s'. fb_init rate b (Some px) cs glyphs junk = Inr s \<and> fb_write txt s = Inr s' \<and>
    terminal_of s' = fold (\<lambda>c. term_put (glyph_of c)) txt (blank_terminal (mode_height m div cs) (mode_width m div 8))"
proof -
  obtain s where s: "fb_init rate b (Some px) cs glyphs junk = Inr s" "fb_inv s"
    "terminal_of s = blank_terminal (mode_height m div cs) (mode_width m div 8)"
    using init_ok [OF assms(1-6)] by blast
  then show ?thesis using console_write_ok [OF s(2) assms(7)] by auto
qed

definition demo_mode :: fb_mode where
  "demo_mode = \<lparr>mode_width = 16, mode_height = 2, mode_pitch = 64, mode_addr = 0\<rparr>"

theorem console_shows_text_witness:
  "\<exists>s s'. fb_init 60 (Vbe demo_mode) (Some []) 1 (replicate 255 0) \<lparr>c_fg = 0, c_bg = 0, c_char = 0\<rparr> = Inr s \<and>
    fb_write [97, 98, 99, 10, 100] s = Inr s' \<and> terminal_of s' = \<lparr>t_rows = [[99, 0], [100, 0]], t_x = 1, t_y = 1\<rparr>"
proof -
  have "fold (\<lambda>c. term_put (glyph_of c)) [97, 98, 99, 10, 100] (blank_terminal 2 2) = \<lparr>t_rows = [[99, 0], [100, 0]], t_x = 1, t_y = 1\<rparr>"
    by code_simp
  then show ?thesis
    using console_shows_text [of "Vbe demo_mode" demo_mode 1 "replicate 255 0" "[97, 98, 99, 10, 100]" 60 "[]" "\<lparr>c_fg = 0, c_bg = 0, c_char = 0\<rparr>"]
    by (simp add: find_mode_def demo_mode_def)
qed

section \<open>Backspace\<close>

lemma add32_minus_1: "0 < a \<Longrightarrow> a < W32 \<Longrightarrow> add32 a (W32 - 1) = a - 1"
proof -
  assume a: "0 < a" "a < W32"
  then have "a + (W32 - 1) = (a - 1) + W32" by linarith
  then have "add32 a (W32 - 1) = ((a - 1) + W32) mod W32" by (simp only: add32_def)
  then show ?thesis using a(2) by (simp only: mod_add_self2) simp
qed

lemma erase_ok:
  assumes "fb_inv s" "0 < caret_x s"
  shows "\<exists>s'. fb_putchar 8 s = Inr s' \<and> fb_inv s' \<and> terminal_of s' = term_erase (terminal_of s)"
proof -
  let ?x = "caret_x s - 1" and ?t = "s\<lparr>caret_x := caret_x s - 1\<rparr>"
  have caret: "caret_x s < characters_per_line s" "caret_y s < characters_per_col s" and geo: "fb_geometry s" using assms(1) by (simp_all add: fb_inv_def)
  have "characters_per_line s \<le> fb_width s" using geo by (simp add: fb_geometry_def)
  then have lt: "caret_x s < W32" using geometry_bounds [OF geo] caret(1) by linarith
  have "fb_inv ?t" using assms by (auto simp: fb_inv_def)
  then obtain s1 where s1: "put_glyph 0x20 ?t = Inr s1" "fb_inv s1" "terminal_of s1 = term_put 0x20 (terminal_of ?t)" using put_glyph_ok [of ?t "0x20"] by auto
  moreover have "terminal_of ?t = (terminal_of s)\<lparr>t_x := ?x\<rparr>" by (simp add: terminal_of_def)
  moreover have "length (t_rows (terminal_of s) ! caret_y s) = characters_per_line s" "t_y (terminal_of s) = caret_y s" "t_x (terminal_of s) = caret_x s"
    using caret by (simp_all add: terminal_of_def)
  ultimately have t: "terminal_of s1 = (term_erase (terminal_of s))\<lparr>t_x := caret_x s\<rparr>"
    using assms(2) caret by (simp add: term_put_def term_erase_def Let_def)
  from arg_cong [OF this, of t_x] have x: "caret_x s1 = caret_x s" by (simp add: terminal_of_def)
  let ?s' = "s1\<lparr>caret_x := ?x\<rparr>"
  have "fb_putchar 8 s = Inr ?s'" using assms(2) lt s1(1) x by (simp add: fb_putchar_def delchar_def Let_def sub32_eq)
  moreover have "fb_inv ?s'" using s1(2) x by (auto simp: fb_inv_def)
  moreover have "terminal_of ?s' = term_erase (terminal_of s)"
  proof -
    have "terminal_of ?s' = (terminal_of s1)\<lparr>t_x := ?x\<rparr>" by (simp add: terminal_of_def)
    then show ?thesis using t by (simp add: term_erase_def terminal_of_def)
  qed
  ultimately show ?thesis by blast
qed

text \<open>
  Backspace: at the start of a line other than the first, a backspace changes nothing on the screen: the column becomes
  \<open>2 ^ 32 - 1\<close> and the blank goes to a cell to the right of the screen. The next character is written to that cell as well.
\<close>
theorem backspace_at_line_start:
  assumes "fb_inv s" "caret_x s = 0" "0 < caret_y s" "characters_per_line s < fb_width s"
  shows "\<exists>s'. fb_putchar 8 s = Inr s' \<and> caret_x s' = W32 - 1 \<and> caret_y s' = caret_y s \<and> t_rows (terminal_of s') = t_rows (terminal_of s)"
proof -
  let ?W = "fb_width s" and ?k = "shadow_start s div fb_width s"
  have geo: "fb_geometry s" and y: "caret_y s < characters_per_col s" using assms(1) by (simp_all add: fb_inv_def)
  define s0 where "s0 = update_dirty_rect (s\<lparr>caret_x := W32 - 1\<rparr>)"
  have geo0: "fb_geometry s0" using geo by (simp add: s0_def)
  have same0: "caret_y s0 = caret_y s" "caret_x s0 = W32 - 1" "fb_width s0 = ?W" "fb_height s0 = fb_height s" "shadow_start s0 = shadow_start s"
    "shadow_lim s0 = shadow_lim s" "characters_per_line s0 = characters_per_line s" "characters_per_col s0 = characters_per_col s" "shown s0 = shown s"
    by (simp_all add: s0_def) (simp_all add: update_dirty_rect_def)
  have dim: "characters_per_col s \<le> fb_height s" "0 < ?W" using geo by (auto simp: fb_geometry_def)
  have in_ring: "caret_y s - 1 < fb_height s0" "?W - 1 < fb_width s0" using same0 y dim by auto
  have "shadow_offset (caret_y s) (W32 - 1) s0 = shadow_offset (caret_y s - 1) (?W - 1) s0"
  proof -
    let ?A = "shadow_start s + caret_y s * ?W"
    have bound: "?A + ?W < W32" using ring_bound [OF geo, of "caret_y s"] geo y dim by (simp add: fb_geometry_def algebra_simps)
    have sum: "(caret_y s - 1) * ?W + ?W = caret_y s * ?W" using assms(3) by (cases "caret_y s") simp_all
    have "add32 ?A (W32 - 1) = ?A - 1" using bound sum dim(2) by (intro add32_minus_1) linarith+
    then have "add32 (add32 (shadow_start s) (mul32 (caret_y s) ?W)) (W32 - 1) = ?A - 1" using bound by (simp add: arith32)
    moreover have "add32 (add32 (shadow_start s) (mul32 (caret_y s - 1) ?W)) (?W - 1) = ?A - 1"
      using bound sum dim(2) by (simp add: add32_def mul32_def)
    ultimately show ?thesis by (simp add: shadow_offset_def Let_def same0)
  qed
  then obtain s1 cs where s1: "put_cell (shadow_offset (caret_y s) (W32 - 1) s0) \<lparr>c_fg = FG s0, c_bg = BG s0, c_char = 0x20\<rparr> s0 = Inr s1"
    "s1 = s0\<lparr>fb_shadow := cs\<rparr>" and shown1: "\<And>y' x'. y' < fb_height s \<Longrightarrow> x' < ?W \<Longrightarrow>
      shown s1 y' x' = (if y' = caret_y s - 1 \<and> x' = ?W - 1 then 0x20 else shown s y' x')"
    using put_cell_ok [OF geo0 in_ring, of "\<lparr>c_fg = FG s0, c_bg = BG s0, c_char = 0x20\<rparr>"] same0 by auto
  define s' where "s' = (update_dirty_rect (s1\<lparr>caret_x := 0\<rparr>))\<lparr>caret_x := W32 - 1\<rparr>"
  have "characters_per_line s \<noteq> 0" using geo by (simp add: fb_geometry_def)
  then have "put_glyph 0x20 (s\<lparr>caret_x := W32 - 1\<rparr>) = Inr (update_dirty_rect (s1\<lparr>caret_x := 0\<rparr>))"
    unfolding put_glyph_def Let_def s0_def [symmetric] same0(1,2) s1(1) bind_res.simps by (simp add: s1(2) same0 add32_def)
  moreover have "sub32 0 1 = W32 - 1" by (simp add: sub32_def)
  ultimately have step: "fb_putchar 8 s = Inr s'" using assms(2,3) by (simp add: fb_putchar_def delchar_def Let_def s'_def)
  have "shown s' y' x' = shown s y' x'" if "y' < characters_per_col s" "x' < characters_per_line s" for y' x'
    using shown1 [of y' x'] that assms(4) dim by (auto simp: s'_def)
  then have "t_rows (terminal_of s') = t_rows (terminal_of s)"
    by (simp add: terminal_of_def) (simp add: s'_def s1(2) same0)
  then show ?thesis using step by (auto simp: s'_def s1(2) same0)
qed

definition demo_console :: fbuf where
  "demo_console = \<lparr>fb_pixels = [], caret_x = 0, caret_y = 1, FG = 0, BG = 0, fb_width = 16, fb_height = 2, n_row = 16, characters_per_line = 2,
     characters_per_col = 2, dirty_start_y = 0, dirty_start_x = 0, dirty_end_y = 0, dirty_end_x = 0, fps = 60,
     fb_shadow = replicate 32 \<lparr>c_fg = 0, c_bg = 0, c_char = 0\<rparr>, shadow_lim = 32, shadow_start = 0, lock_flush = False, show_cursor = False,
     character_size = 1, r_font = [], progress_bar_height = 0, progress_bar_percentage = 0, progress_bar_owner = None\<rparr>"

theorem backspace_at_line_start_witness: "\<exists>s'. fb_putchar 8 demo_console = Inr s' \<and> caret_x s' = 4294967295"
proof -
  have "fb_inv demo_console" by (auto simp: fb_inv_def fb_geometry_def demo_console_def)
  moreover have "caret_x demo_console = 0" "0 < caret_y demo_console" "characters_per_line demo_console < fb_width demo_console" by (simp_all add: demo_console_def)
  ultimately show ?thesis using backspace_at_line_start [of demo_console] by auto
qed

section \<open>Drawing\<close>

text \<open>The pixel at a row and a column of the screen.\<close>

definition pix :: "fbuf \<Rightarrow> nat \<Rightarrow> nat \<Rightarrow> u32" where
  "pix s Y X = fb_pixels s ! (Y * n_row s + X)"

text \<open>The pixel of a character at a row and a column of its glyph.\<close>

definition glyph_pixel :: "fbuf \<Rightarrow> cell \<Rightarrow> nat \<Rightarrow> nat \<Rightarrow> u32" where
  "glyph_pixel s c py k = (if r_font s ! (unat (c_char c) * character_size s * 8 + py * 8 + k) \<noteq> 0 then c_fg c else c_bg c)"

text \<open>\<open>repaint s t f A\<close>: \<open>t\<close> is \<open>s\<close> with the pixels in \<open>A\<close> set as \<open>f\<close> says.\<close>

definition repaint :: "fbuf \<Rightarrow> nat \<Rightarrow> fbuf \<Rightarrow> (nat \<Rightarrow> nat \<Rightarrow> u32) \<Rightarrow> (nat \<Rightarrow> nat \<Rightarrow> bool) \<Rightarrow> bool" where
  "repaint s R t f A \<longleftrightarrow> (\<exists>px. t = s\<lparr>fb_pixels := px\<rparr> \<and> length px = length (fb_pixels s)) \<and>
     (\<forall>Y X. Y < R \<and> X < n_row s \<longrightarrow> pix t Y X = (if A Y X then f Y X else pix s Y X))"

definition pixel_space :: "fbuf \<Rightarrow> nat \<Rightarrow> bool" where
  "pixel_space s R \<longleftrightarrow> R * n_row s \<le> length (fb_pixels s) \<and> R * n_row s < 2 ^ 30"

lemma pixel_index_eq:
  assumes "X < n" "X' < (n :: nat)"
  shows "Y * n + X = Y' * n + X' \<longleftrightarrow> Y = Y' \<and> X = X'"
proof
  assume e: "Y * n + X = Y' * n + X'"
  then have "(Y * n + X) div n = (Y' * n + X') div n" "(Y * n + X) mod n = (Y' * n + X') mod n" by simp_all
  then show "Y = Y' \<and> X = X'" using assms by simp
qed simp

lemma pixel_index_less: "Y < R \<Longrightarrow> X < (n::nat) \<Longrightarrow> Y * n + X < R * n"
proof -
  assume "Y < R" "X < n"
  then have "Suc Y * n \<le> R * n" by (intro mult_right_mono) auto
  then show ?thesis using \<open>X < n\<close> by simp
qed

lemma repaint_same: "repaint s R t f A \<Longrightarrow> n_row t = n_row s \<and> character_size t = character_size s \<and> r_font t = r_font s \<and> fb_shadow t = fb_shadow s \<and>
    fb_width t = fb_width s \<and> shadow_lim t = shadow_lim s \<and> pixel_space t R = pixel_space s R"
  by (auto simp: repaint_def pixel_space_def)

lemma repaint_none: "(\<And>Y X. \<not> A Y X) \<Longrightarrow> repaint s R s f A"
  by (auto simp: repaint_def intro: exI [of _ "fb_pixels s"])

lemma repaint_trans:
  assumes "repaint s R t f A" "repaint t R u g B" "\<And>Y X. Y < R \<Longrightarrow> X < n_row s \<Longrightarrow> D Y X \<longleftrightarrow> A Y X \<or> B Y X"
    and "\<And>Y X. Y < R \<Longrightarrow> X < n_row s \<Longrightarrow> B Y X \<Longrightarrow> h Y X = g Y X" "\<And>Y X. Y < R \<Longrightarrow> X < n_row s \<Longrightarrow> A Y X \<Longrightarrow> \<not> B Y X \<Longrightarrow> h Y X = f Y X"
  shows "repaint s R u h D"
  using assms unfolding repaint_def by auto

lemma put_pixels_ok:
  assumes "pixel_space s R" "Y < R" "X + length px \<le> n_row s" "px \<noteq> []"
  shows "\<exists>t. put_pixels (Y * n_row s + X) px s = Inr t \<and> repaint s R t (\<lambda>_ X'. px ! (X' - X)) (\<lambda>Y' X'. Y' = Y \<and> X \<le> X' \<and> X' < X + length px)"
proof -
  let ?i = "Y * n_row s + X"
  have last: "Y * n_row s + (X + length px - 1) < R * n_row s" using assms(2-4) by (intro pixel_index_less) (auto simp: neq_Nil_conv)
  then have le: "?i + length px \<le> length (fb_pixels s)" "?i < 2 ^ 30" using assms(1,4) by (auto simp: pixel_space_def neq_Nil_conv)
  let ?t = "s\<lparr>fb_pixels := blit (fb_pixels s) ?i px\<rparr>"
  have "pix ?t Y' X' = (if Y' = Y \<and> X \<le> X' \<and> X' < X + length px then px ! (X' - X) else pix s Y' X')" if "Y' < R" "X' < n_row s" for Y' X'
  proof -
    have i: "Y' * n_row s + X' < length (fb_pixels s)" using pixel_index_less [OF that] assms(1) by (simp add: pixel_space_def)
    have "?i \<le> Y' * n_row s + X' \<and> Y' * n_row s + X' < ?i + length px \<longleftrightarrow> Y' = Y \<and> X \<le> X' \<and> X' < X + length px"
    proof
      assume a: "?i \<le> Y' * n_row s + X' \<and> Y' * n_row s + X' < ?i + length px"
      define d where "d = Y' * n_row s + X' - ?i"
      have "Y' * n_row s + X' = Y * n_row s + (X + d)" "d < length px" using a by (auto simp: d_def)
      then show "Y' = Y \<and> X \<le> X' \<and> X' < X + length px" using pixel_index_eq [OF that(2), of "X + d" Y' Y] assms(3) by auto
    qed simp
    then show ?thesis using i le(1) by (auto simp: pix_def nth_blit)
  qed
  moreover have "put_pixels ?i px s = Inr ?t" using le by (simp add: put_pixels_def Let_def)
  ultimately show ?thesis using le(1) unfolding repaint_def by (intro exI [of _ ?t]) auto
qed

lemma draw_char_ok:
  assumes space: "pixel_space s R" and char: "c_char c < 128" "(unat (c_char c) + 1) * character_size s * 8 \<le> length (r_font s)"
    and rect: "Y1 + by + character_size s \<le> R" "X1 + x8 + 8 \<le> n_row s"
  shows "\<exists>t. draw_char (Y1 * n_row s + X1) by x8 c s = Inr t \<and> repaint s R t (\<lambda>Y X. glyph_pixel s c (Y - (Y1 + by)) (X - (X1 + x8)))
    (\<lambda>Y X. Y1 + by \<le> Y \<and> Y < Y1 + by + character_size s \<and> X1 + x8 \<le> X \<and> X < X1 + x8 + 8)"
proof -
  let ?n = "n_row s" and ?cs = "character_size s" and ?f = "\<lambda>Y X. glyph_pixel s c (Y - (Y1 + by)) (X - (X1 + x8))"
  let ?line = "\<lambda>py. map (\<lambda>b. if b \<noteq> 0 then c_fg c else c_bg c) (take 8 (drop (unat (c_char c) * ?cs * 8 + py * 8) (r_font s)))"
  let ?body = "\<lambda>py t. put_pixels (Y1 * ?n + X1 + add32 (mul32 (add32 by py) (n_row t)) x8)
    (map (\<lambda>b. if b \<noteq> 0 then c_fg c else c_bg c) (take 8 (drop (unat (c_char c) * ?cs * 8 + py * 8) (r_font t)))) t"
  have "\<exists>t. for_n ?body 0 ?cs s = Inr t \<and> repaint s R t ?f (\<lambda>Y X. Y1 + by \<le> Y \<and> Y < Y1 + by + (0 + ?cs) \<and> X1 + x8 \<le> X \<and> X < X1 + x8 + 8)"
  proof (rule for_n_total)
    fix j t assume j: "j < 0 + ?cs" and t: "repaint s R t ?f (\<lambda>Y X. Y1 + by \<le> Y \<and> Y < Y1 + by + j \<and> X1 + x8 \<le> X \<and> X < X1 + x8 + 8)"
    note same = repaint_same [OF t]
    have "(by + j) * ?n + (X1 + x8) < R * ?n" using j rect by (intro pixel_index_less) auto
    then have lt: "(by + j) * ?n + x8 < 1073741824" using space by (simp add: pixel_space_def)
    define p where "p = (by + j) * ?n"
    have "(by + j) * 1 \<le> p" unfolding p_def using rect(2) by (intro mult_le_mono2) simp
    then have "by + j < W32" "p < W32" "p + x8 < W32" using lt [folded p_def] by simp_all
    then have "add32 (mul32 (add32 by j) ?n) x8 = (by + j) * ?n + x8" unfolding p_def by (simp only: arith32)
    then have i: "Y1 * ?n + X1 + add32 (mul32 (add32 by j) (n_row t)) x8 = (Y1 + by + j) * n_row t + (X1 + x8)"
      using same by (simp add: algebra_simps)
    have "(j + 1) * 8 \<le> ?cs * 8" using j by simp
    then have len: "unat (c_char c) * ?cs * 8 + j * 8 + 8 \<le> length (r_font s)" using char(2) by (simp add: algebra_simps)
    then have line: "length (?line j) = 8" "\<And>k. k < 8 \<Longrightarrow> ?line j ! k = glyph_pixel s c j k" by (simp_all add: glyph_pixel_def)
    have "pixel_space t R" "Y1 + by + j < R" "X1 + x8 + length (?line j) \<le> n_row t" "?line j \<noteq> []"
      using same space j rect line(1) by (auto simp del: length_map)
    from put_pixels_ok [OF this] obtain u where u: "put_pixels ((Y1 + by + j) * n_row t + (X1 + x8)) (?line j) t = Inr u"
      "repaint t R u (\<lambda>_ X'. ?line j ! (X' - (X1 + x8))) (\<lambda>Y' X'. Y' = Y1 + by + j \<and> X1 + x8 \<le> X' \<and> X' < X1 + x8 + 8)"
      unfolding line(1) by blast
    have "repaint s R u ?f (\<lambda>Y X. Y1 + by \<le> Y \<and> Y < Y1 + by + Suc j \<and> X1 + x8 \<le> X \<and> X < X1 + x8 + 8)"
      by (rule repaint_trans [OF t u(2)]) (auto simp: line(2))
    then show "\<exists>u. ?body j t = Inr u \<and> repaint s R u ?f (\<lambda>Y X. Y1 + by \<le> Y \<and> Y < Y1 + by + Suc j \<and> X1 + x8 \<le> X \<and> X < X1 + x8 + 8)"
      using u(1) same unfolding i by auto
  qed (simp add: repaint_none)
  moreover have "\<not> sint (c_char c) < 0" using char(1) by (simp add: sint8)
  ultimately show ?thesis using char(2) by (simp add: draw_char_def Let_def)
qed

text \<open>The drawing of a row of cells, which lie behind one another in the ring.\<close>

lemma draw_row_ok:
  assumes space: "pixel_space s R" and chars: "\<forall>c \<in> set (fb_shadow s). c_char c < 128" "128 * character_size s * 8 \<le> length (r_font s)"
    and row: "(let row = add32 shadow_off (mul32 y (fb_width s)) in if shadow_lim s \<le> row then sub32 row (shadow_lim s) else row) = row"
    and fits: "row + nx \<le> length (fb_shadow s)" "length (fb_shadow s) < W32"
    and rect: "Y1 + y * character_size s + character_size s \<le> R" "X1 + 8 * nx \<le> n_row s" "y * character_size s < W32" "n_row s < W32"
  shows "\<exists>t. draw_row (Y1 * n_row s + X1) shadow_off nx y s = Inr t \<and> repaint s R t
    (\<lambda>Y X. glyph_pixel s (fb_shadow s ! (row + (X - X1) div 8)) (Y - (Y1 + y * character_size s)) ((X - X1) mod 8))
    (\<lambda>Y X. Y1 + y * character_size s \<le> Y \<and> Y < Y1 + y * character_size s + character_size s \<and> X1 \<le> X \<and> X < X1 + 8 * nx)"
proof -
  let ?cs = "character_size s" and ?Y0 = "Y1 + y * character_size s"
  let ?f = "\<lambda>Y X. glyph_pixel s (fb_shadow s ! (row + (X - X1) div 8)) (Y - ?Y0) ((X - X1) mod 8)"
  let ?body = "\<lambda>x t. let i = add32 row x in
     if i < length (fb_shadow t) then draw_char (Y1 * n_row s + X1) (mul32 y (character_size t)) (mul32 x 8) (fb_shadow t ! i) t else Inl OutOfBounds"
  have "\<exists>t. for_n ?body 0 nx s = Inr t \<and> repaint s R t ?f (\<lambda>Y X. ?Y0 \<le> Y \<and> Y < ?Y0 + ?cs \<and> X1 \<le> X \<and> X < X1 + 8 * (0 + nx))"
  proof (rule for_n_total)
    fix j t assume j: "j < 0 + nx" and t: "repaint s R t ?f (\<lambda>Y X. ?Y0 \<le> Y \<and> Y < ?Y0 + ?cs \<and> X1 \<le> X \<and> X < X1 + 8 * j)"
    note same = repaint_same [OF t]
    have i: "row + j < length (fb_shadow s)" "add32 row j = row + j" using fits j by (simp_all add: add32_eq)
    let ?c = "fb_shadow s ! (row + j)"
    have low: "c_char ?c < 128" using chars(1) i(1) by simp
    then have "(unat (c_char ?c) + 1) * ?cs \<le> 128 * ?cs" by (intro mult_right_mono) (auto simp: word_less_nat_alt)
    then have font: "(unat (c_char ?c) + 1) * ?cs * 8 \<le> length (r_font s)" using chars(2) by linarith
    have m: "mul32 j 8 = j * 8" "mul32 y ?cs = y * ?cs" using j rect by (simp_all add: mul32_eq)
    obtain u where u: "draw_char (Y1 * n_row s + X1) (y * ?cs) (j * 8) ?c t = Inr u"
      "repaint t R u (\<lambda>Y X. glyph_pixel t ?c (Y - ?Y0) (X - (X1 + j * 8))) (\<lambda>Y X. ?Y0 \<le> Y \<and> Y < ?Y0 + ?cs \<and> X1 + j * 8 \<le> X \<and> X < X1 + j * 8 + 8)"
      using draw_char_ok [of t R ?c Y1 "y * ?cs" X1 "j * 8"] same space low font rect j by auto
    have "glyph_pixel t = glyph_pixel s" using same by (simp add: fun_eq_iff glyph_pixel_def)
    moreover have "(X - X1) div 8 = j" "(X - X1) mod 8 = X - (X1 + j * 8)" if "X1 + j * 8 \<le> X" "X < X1 + j * 8 + 8" for X
    proof -
      define d where "d = X - (X1 + j * 8)"
      have "X - X1 = j * 8 + d" "d < 8" using that by (auto simp: d_def)
      then show "(X - X1) div 8 = j" "(X - X1) mod 8 = X - (X1 + j * 8)" by (simp_all add: d_def)
    qed
    ultimately have "repaint s R u ?f (\<lambda>Y X. ?Y0 \<le> Y \<and> Y < ?Y0 + ?cs \<and> X1 \<le> X \<and> X < X1 + 8 * Suc j)"
      by (intro repaint_trans [OF t u(2)]) auto
    then show "\<exists>u. ?body j t = Inr u \<and> repaint s R u ?f (\<lambda>Y X. ?Y0 \<le> Y \<and> Y < ?Y0 + ?cs \<and> X1 \<le> X \<and> X < X1 + 8 * Suc j)"
      using u(1) i m same by (simp add: Let_def)
  qed (simp add: repaint_none)
  then show ?thesis unfolding draw_row_def Let_def row [unfolded Let_def] by simp
qed

section \<open>Flushing\<close>

text \<open>The shape of the screen: pixels for all characters, a font for all ASCII characters, and only such characters in the ring.\<close>

definition drawable :: "fbuf \<Rightarrow> bool" where
  "drawable s \<longleftrightarrow> fb_geometry s \<and> 0 < character_size s \<and> pixel_space s (characters_per_col s * character_size s) \<and>
     8 * characters_per_line s \<le> n_row s \<and> n_row s < W32 \<and> 128 * character_size s * 8 \<le> length (r_font s) \<and> (\<forall>c \<in> set (fb_shadow s). c_char c < 128)"

definition in_dirty :: "fbuf \<Rightarrow> nat \<Rightarrow> nat \<Rightarrow> bool" where
  "in_dirty s y x \<longleftrightarrow> dirty_start_y s \<le> y \<and> y < dirty_end_y s \<and> dirty_start_x s \<le> x \<and> x < dirty_end_x s"

definition dirty_ok :: "fbuf \<Rightarrow> bool" where
  "dirty_ok s \<longleftrightarrow> dirty_start_y s < dirty_end_y s \<and> dirty_end_y s \<le> characters_per_col s \<and> dirty_start_x s < dirty_end_x s \<and> dirty_end_x s \<le> characters_per_line s"

lemma dirty_div:
  assumes "0 < cs" "(d + j) * cs \<le> Y" "Y < (d + j) * cs + (cs :: nat)"
  shows "Y div cs = d + j" "Y - (d * cs + j * cs) = Y mod cs"
proof -
  define e where "e = Y - (d + j) * cs"
  have e: "Y = (d + j) * cs + e" "e < cs" using assms(2,3) by (auto simp: e_def)
  show "Y div cs = d + j" unfolding e(1) using e(2) by simp
  have "Y mod cs = e" unfolding e(1) using e(2) by simp
  then show "Y - (d * cs + j * cs) = Y mod cs" using e(1) by (simp add: distrib_right)
qed

text \<open>The offset of a row, which the code computes from the offset of the first one.\<close>

lemma row_offset:
  assumes geo: "fb_geometry s" and y: "d + j < fb_height s" and x: "x < fb_width s"
  shows "(let row = add32 (add32 (add32 (mul32 d (fb_width s)) (shadow_start s)) x) (mul32 j (fb_width s)) in
    if shadow_lim s \<le> row then sub32 row (shadow_lim s) else row) = cell_index s (d + j) x"
proof -
  let ?W = "fb_width s"
  have bound: "shadow_start s + (d * ?W + j * ?W + ?W) < W32"
    using ring_bound [OF geo y] geo by (simp add: fb_geometry_def algebra_simps)
  then have lt: "d * ?W < W32" "j * ?W < W32" "d * ?W + shadow_start s < W32" "d * ?W + shadow_start s + x < W32" "d * ?W + shadow_start s + x + j * ?W < W32"
    "(d + j) * ?W < W32" "shadow_start s + (d + j) * ?W < W32" "shadow_start s + (d + j) * ?W + x < W32"
    using x by (simp_all add: distrib_right)
  have "add32 (add32 (add32 (mul32 d ?W) (shadow_start s)) x) (mul32 j ?W) = d * ?W + shadow_start s + x + j * ?W" using lt by (simp only: arith32)
  also have "\<dots> = shadow_start s + (d + j) * ?W + x" by (simp add: distrib_right)
  also have "\<dots> = add32 (add32 (shadow_start s) (mul32 (d + j) ?W)) x" using lt by (simp only: arith32)
  finally show ?thesis using shadow_offset_eq [OF geo y x] by (simp only: shadow_offset_def)
qed

lemma draw_rows_ok:
  assumes draw: "drawable s" and dirty: "dirty_ok s"
  defines "R \<equiv> characters_per_col s * character_size s"
  defines "fb_start \<equiv> mul32 (mul32 (dirty_start_y s) (character_size s)) (n_row s) + mul32 (dirty_start_x s) 8"
  defines "shadow_off \<equiv> add32 (add32 (mul32 (dirty_start_y s) (fb_width s)) (shadow_start s)) (dirty_start_x s)"
  shows "\<exists>t. for_n (draw_row fb_start shadow_off (sub32 (dirty_end_x s) (dirty_start_x s))) 0 (sub32 (dirty_end_y s) (dirty_start_y s)) s = Inr t \<and>
    repaint s R t (\<lambda>Y X. glyph_pixel s (fb_shadow s ! cell_index s (Y div character_size s) (X div 8)) (Y mod character_size s) (X mod 8))
      (\<lambda>Y X. in_dirty s (Y div character_size s) (X div 8))"
proof -
  let ?cs = "character_size s" and ?n = "n_row s" and ?dy = "dirty_start_y s" and ?dx = "dirty_start_x s" and ?W = "fb_width s"
  let ?ny = "dirty_end_y s - ?dy" and ?nx = "dirty_end_x s - ?dx"
  have geo: "fb_geometry s" and cs: "0 < ?cs" and space: "pixel_space s R" and line: "8 * characters_per_line s \<le> ?n" "?n < W32" and
    font: "128 * ?cs * 8 \<le> length (r_font s)" and chars: "\<forall>c \<in> set (fb_shadow s). c_char c < 128"
    using draw by (simp_all add: drawable_def R_def)
  have d: "?dy < dirty_end_y s" "dirty_end_y s \<le> characters_per_col s" "?dx < dirty_end_x s" "dirty_end_x s \<le> characters_per_line s"
    using dirty by (simp_all add: dirty_ok_def)
  have dim: "characters_per_col s \<le> fb_height s" "characters_per_line s \<le> ?W" "2 * (?W * fb_height s) < W32" "shadow_lim s = ?W * fb_height s"
    "length (fb_shadow s) = ?W * fb_height s" using geo by (simp_all add: fb_geometry_def)
  have ends: "sub32 (dirty_end_x s) ?dx = ?nx" "sub32 (dirty_end_y s) ?dy = ?ny" using d dim geometry_bounds [OF geo] by (simp_all add: sub32_eq)
  let ?f = "\<lambda>Y X. glyph_pixel s (fb_shadow s ! cell_index s (Y div ?cs) (X div 8)) (Y mod ?cs) (X mod 8)"
  let ?A = "\<lambda>j Y X. ?dy \<le> Y div ?cs \<and> Y div ?cs < ?dy + j \<and> ?dx \<le> X div 8 \<and> X div 8 < dirty_end_x s"
  have start: "fb_start = ?dy * ?cs * ?n + ?dx * 8"
  proof -
    define p where "p = ?dy * ?cs * ?n"
    have "p \<le> R * ?n" unfolding p_def R_def using d by (intro mult_le_mono1) simp
    moreover have "?dy * ?cs * 1 \<le> p" unfolding p_def using line d by (intro mult_le_mono2) simp
    ultimately have "?dy * ?cs < W32" "p < W32" "?dx * 8 < W32" using space line d by (simp_all add: pixel_space_def)
    then show ?thesis unfolding fb_start_def p_def by (simp only: arith32)
  qed
  have "\<exists>t. for_n (draw_row fb_start shadow_off ?nx) 0 ?ny s = Inr t \<and> repaint s R t ?f (?A (0 + ?ny))"
  proof (rule for_n_total)
    fix j t assume j: "j < 0 + ?ny" and t: "repaint s R t ?f (?A j)"
    note same = repaint_same [OF t]
    have y: "?dy + j < fb_height s" "?dy + j < characters_per_col s" "?dx < ?W" using j d dim by auto
    have "(?dy + j + 1) * ?cs \<le> R" unfolding R_def using y(2) by (intro mult_le_mono1) simp
    then have rect: "?dy * ?cs + j * ?cs + ?cs \<le> R" by (simp add: distrib_right)
    moreover have "R * ?n < W32" using space by (simp add: pixel_space_def)
    moreover have "R * 1 \<le> R * ?n" using line d by (intro mult_le_mono2) simp
    ultimately have small: "j * ?cs < W32" unfolding mult_1_right by linarith
    have row: "(let row = add32 shadow_off (mul32 j (fb_width t)) in if shadow_lim t \<le> row then sub32 row (shadow_lim t) else row) = cell_index s (?dy + j) ?dx"
    proof -
      have e: "fb_width t = ?W" "shadow_lim t = shadow_lim s" using same by blast+
      show ?thesis unfolding shadow_off_def e by (rule row_offset [OF geo y(1,3)])
    qed
    have "cell_index s (?dy + j) (dirty_end_x s - 1) < ?W * fb_height s" using d dim by (intro cell_index_less geo) auto
    then have fits: "cell_index s (?dy + j) ?dx + ?nx \<le> length (fb_shadow t)" using same dim(5) d by (simp add: cell_index_def)
    have width: "?dx * 8 + 8 * ?nx \<le> ?n" using d line(1) by simp
    obtain u where u: "draw_row (?dy * ?cs * n_row t + ?dx * 8) shadow_off ?nx j t = Inr u" "repaint t R u
        (\<lambda>Y X. glyph_pixel t (fb_shadow t ! (cell_index s (?dy + j) ?dx + (X - ?dx * 8) div 8)) (Y - (?dy * ?cs + j * ?cs)) ((X - ?dx * 8) mod 8))
        (\<lambda>Y X. ?dy * ?cs + j * ?cs \<le> Y \<and> Y < ?dy * ?cs + j * ?cs + ?cs \<and> ?dx * 8 \<le> X \<and> X < ?dx * 8 + 8 * ?nx)"
      using draw_row_ok [of t R shadow_off j "cell_index s (?dy + j) ?dx" ?nx "?dy * ?cs" "?dx * 8"] same row fits space chars font rect small width line d dim by auto
    have gp: "glyph_pixel t = glyph_pixel s" using same by (simp add: fun_eq_iff glyph_pixel_def)
    have rows: "Y div ?cs = ?dy + j \<longleftrightarrow> ?dy * ?cs + j * ?cs \<le> Y \<and> Y < ?dy * ?cs + j * ?cs + ?cs" for Y
    proof
      assume "Y div ?cs = ?dy + j"
      then have "Y = (?dy + j) * ?cs + Y mod ?cs" by (metis div_mult_mod_eq)
      then show "?dy * ?cs + j * ?cs \<le> Y \<and> Y < ?dy * ?cs + j * ?cs + ?cs" using mod_less_divisor [OF cs, of Y] by (simp only: distrib_right) linarith
    qed (use dirty_div(1) [OF cs, of ?dy j Y] in \<open>simp add: distrib_right\<close>)
    have cols: "?dx \<le> X div 8 \<and> X div 8 < dirty_end_x s \<longleftrightarrow> ?dx * 8 \<le> X \<and> X < ?dx * 8 + 8 * ?nx" for X using d by auto
    have "repaint s R u ?f (?A (Suc j))"
    proof (rule repaint_trans [OF t u(2)])
      fix Y X assume B: "?dy * ?cs + j * ?cs \<le> Y \<and> Y < ?dy * ?cs + j * ?cs + ?cs \<and> ?dx * 8 \<le> X \<and> X < ?dx * 8 + 8 * ?nx"
      obtain e where "X = ?dx * 8 + e" using B le_Suc_ex by blast
      then have "?dx + (X - ?dx * 8) div 8 = X div 8" "(X - ?dx * 8) mod 8 = X mod 8" by simp_all
      moreover have "cell_index s (?dy + j) ?dx + (X - ?dx * 8) div 8 = cell_index s (?dy + j) (?dx + (X - ?dx * 8) div 8)" by (simp add: cell_index_def)
      moreover have "Y div ?cs = ?dy + j" "Y - (?dy * ?cs + j * ?cs) = Y mod ?cs" using B dirty_div [OF cs, of ?dy j Y] by (auto simp: distrib_right)
      ultimately show "?f Y X = glyph_pixel t (fb_shadow t ! (cell_index s (?dy + j) ?dx + (X - ?dx * 8) div 8)) (Y - (?dy * ?cs + j * ?cs)) ((X - ?dx * 8) mod 8)"
        using same gp by simp
    next
      fix Y X
      have "?A (Suc j) Y X \<longleftrightarrow> ?A j Y X \<or> Y div ?cs = ?dy + j \<and> (?dx \<le> X div 8 \<and> X div 8 < dirty_end_x s)" by (auto simp: less_Suc_eq)
      then show "?A (Suc j) Y X \<longleftrightarrow> ?A j Y X \<or> ?dy * ?cs + j * ?cs \<le> Y \<and> Y < ?dy * ?cs + j * ?cs + ?cs \<and> ?dx * 8 \<le> X \<and> X < ?dx * 8 + 8 * ?nx"
        using rows [of Y] cols [of X] by blast
    qed (rule refl)
    then show "\<exists>u. draw_row fb_start shadow_off ?nx j t = Inr u \<and> repaint s R u ?f (?A (Suc j))" using u(1) same start by auto
  qed (simp add: repaint_none)
  then show ?thesis using d unfolding ends in_dirty_def by simp
qed

text \<open>
  C20. Screen: a flush that is not locked, while no one owns the progress bar and all cells hold ASCII characters, draws exactly the dirty rectangle: every pixel of a cell in it
  gets the foreground or the background colour of the cell as the glyph of its character says, where the cursor, when it is shown, stands for the cell it is in, and all other
  pixels stay as they were. Afterwards the cell under the cursor is empty, shown or not, and the others are as before; the dirty rectangle is the cell of the cursor, except
  when that is the last one of its line: then it is the first one.
\<close>
theorem flush_draws_dirty:
  assumes "drawable s" "dirty_ok s" "\<not> lock_flush s" "progress_bar_owner s = None" "caret_y s < fb_height s" "caret_x s < fb_width s"
  defines "s1 \<equiv> (if show_cursor s then s\<lparr>fb_shadow := (fb_shadow s)[cell_index s (caret_y s) (caret_x s) := \<lparr>c_fg = FG s, c_bg = BG s, c_char = 0x5F\<rparr>]\<rparr> else s)"
  shows "\<exists>s'. fb_flush bar s = Inr s' \<and>
    (\<forall>Y X. Y < characters_per_col s * character_size s \<and> X < n_row s \<longrightarrow> pix s' Y X =
      (if in_dirty s (Y div character_size s) (X div 8)
       then glyph_pixel s (fb_shadow s1 ! cell_index s (Y div character_size s) (X div 8)) (Y mod character_size s) (X mod 8) else pix s Y X)) \<and>
    fb_shadow s' = (fb_shadow s)[cell_index s (caret_y s) (caret_x s) := \<lparr>c_fg = FG s, c_bg = BG s, c_char = 0\<rparr>] \<and>
    dirty_start_y s' = caret_y s \<and> dirty_end_y s' = caret_y s + 1 \<and>
    (dirty_start_x s', dirty_end_x s') = (if caret_x s + 1 = characters_per_line s then (0, 1) else (caret_x s, caret_x s + 1))"
proof -
  let ?i = "cell_index s (caret_y s) (caret_x s)"
  have geo: "fb_geometry s" using assms(1) by (simp add: drawable_def)
  have cur: "shadow_offset (caret_y s) (caret_x s) s = ?i" using shadow_offset_eq [OF geo assms(5,6)] .
  have i: "?i < length (fb_shadow s)" using cell_index_less [OF geo assms(6)] geo by (simp add: fb_geometry_def)
  have put1: "(if show_cursor s then put_cell ?i \<lparr>c_fg = FG s, c_bg = BG s, c_char = 0x5F\<rparr> s else Inr s) = Inr s1"
    using i by (simp add: s1_def put_cell_def)
  have draw1: "drawable s1" using assms(1) geo i by (auto simp: drawable_def s1_def pixel_space_def fb_geometry_def dest!: set_update_subset_insert [THEN subsetD])
  have same1: "characters_per_col s1 = characters_per_col s" "character_size s1 = character_size s" "n_row s1 = n_row s" "in_dirty s1 = in_dirty s" "cell_index s1 = cell_index s"
    "pix s1 = pix s" "glyph_pixel s1 = glyph_pixel s" "dirty_ok s1 = dirty_ok s" "caret_y s1 = caret_y s" "caret_x s1 = caret_x s" "progress_bar_owner s1 = None"
    "length (fb_shadow s1) = length (fb_shadow s)"
    using assms(4) by (simp_all add: s1_def fun_eq_iff in_dirty_def cell_index_def pix_def glyph_pixel_def dirty_ok_def)
  have same2: "dirty_start_y s1 = dirty_start_y s" "dirty_start_x s1 = dirty_start_x s" "fb_width s1 = fb_width s" "shadow_start s1 = shadow_start s"
    by (simp_all add: s1_def)
  obtain t where t: "for_n (draw_row (mul32 (mul32 (dirty_start_y s) (character_size s)) (n_row s) + mul32 (dirty_start_x s) 8)
      (add32 (add32 (mul32 (dirty_start_y s) (fb_width s)) (shadow_start s)) (dirty_start_x s)) (sub32 (dirty_end_x s1) (dirty_start_x s1))) 0
      (sub32 (dirty_end_y s1) (dirty_start_y s1)) s1 = Inr t"
    "repaint s1 (characters_per_col s * character_size s) t
      (\<lambda>Y X. glyph_pixel s (fb_shadow s1 ! cell_index s (Y div character_size s) (X div 8)) (Y mod character_size s) (X mod 8))
      (\<lambda>Y X. in_dirty s (Y div character_size s) (X div 8))"
    using draw_rows_ok [OF draw1] assms(2) same1 same2 by auto
  obtain px where px: "t = s1\<lparr>fb_pixels := px\<rparr>" using t(2) by (auto simp: repaint_def)
  define s3 where "s3 = t\<lparr>fb_shadow := (fb_shadow t)[?i := \<lparr>c_fg = FG t, c_bg = BG t, c_char = 0\<rparr>]\<rparr>"
  have "put_cell ?i \<lparr>c_fg = FG t, c_bg = BG t, c_char = 0\<rparr> t = Inr s3" using i px same1 by (simp add: put_cell_def s3_def)
  then have step: "fb_flush bar s = Inr (reset_dirty s3)"
    using assms(3) put1 t(1) cur px same1
    by (simp add: fb_flush_def Let_def draw_progress_bar_def) (simp add: reset_dirty_def Let_def s3_def)
  have "2 * fb_height s < W32" using geometry_bounds [OF geo] by simp
  then have rows: "dirty_start_y (reset_dirty s3) = caret_y s" "dirty_end_y (reset_dirty s3) = caret_y s + 1"
    using px same1 assms(5) by (simp_all add: reset_dirty_def Let_def s3_def add32_eq)
  have "add32 (caret_x s) 1 = caret_x s + 1" using geometry_bounds [OF geo] assms(6) by (simp add: add32_eq)
  then have cols: "(dirty_start_x (reset_dirty s3), dirty_end_x (reset_dirty s3)) = (if caret_x s + 1 = characters_per_line s then (0, 1) else (caret_x s, caret_x s + 1))"
    using px same1 by (simp add: reset_dirty_def Let_def s3_def s1_def)
  have "fb_shadow (reset_dirty s3) = (fb_shadow s)[?i := \<lparr>c_fg = FG s, c_bg = BG s, c_char = 0\<rparr>]" using px by (simp add: reset_dirty_def Let_def s3_def s1_def)
  note rows cols this
  moreover have "pix (reset_dirty s3) = pix t" by (simp add: fun_eq_iff pix_def reset_dirty_def Let_def s3_def)
  ultimately show ?thesis using step t(2) same1 by (auto simp: repaint_def)
qed

definition demo_screen :: fbuf where
  "demo_screen = demo_console\<lparr>caret_y := 0, dirty_end_y := 1, dirty_end_x := 2, FG := 7, fb_pixels := replicate 32 0, r_font := replicate 1024 1,
     fb_shadow := replicate 32 \<lparr>c_fg = 5, c_bg = 0, c_char = 97\<rparr>\<rparr>"

theorem flush_draws_dirty_witness: "\<exists>s'. fb_flush (\<lambda>_ _. 0) demo_screen = Inr s' \<and> pix s' 0 15 = 5 \<and> pix s' 1 0 = 0"
proof -
  have "drawable demo_screen" "dirty_ok demo_screen"
    by (auto simp: drawable_def dirty_ok_def fb_geometry_def pixel_space_def demo_screen_def demo_console_def)
  moreover have "\<not> lock_flush demo_screen" "progress_bar_owner demo_screen = None" "caret_y demo_screen < fb_height demo_screen" "caret_x demo_screen < fb_width demo_screen"
    by (simp_all add: demo_screen_def demo_console_def)
  ultimately obtain s' where s': "fb_flush (\<lambda>_ _. 0) demo_screen = Inr s'" "\<And>Y X. Y < 2 \<Longrightarrow> X < 16 \<Longrightarrow> pix s' Y X =
      (if in_dirty demo_screen Y (X div 8) then glyph_pixel demo_screen (fb_shadow demo_screen ! cell_index demo_screen Y (X div 8)) 0 (X mod 8) else pix demo_screen Y X)"
    using flush_draws_dirty [of demo_screen "\<lambda>_ _. 0"] by (auto simp: demo_screen_def demo_console_def)
  moreover have "in_dirty demo_screen 0 1" "\<not> in_dirty demo_screen 1 0" "pix demo_screen 1 0 = 0"
    by (simp_all add: in_dirty_def pix_def demo_screen_def demo_console_def)
  moreover have "glyph_pixel demo_screen (fb_shadow demo_screen ! cell_index demo_screen 0 1) 0 7 = 5"
    by (simp add: glyph_pixel_def cell_index_def demo_screen_def demo_console_def)
  ultimately show ?thesis using s'(2) [of 0 15] s'(2) [of 1 0] by auto
qed

end
