(* ===== verification/Printing.thy ===== *)
theory Printing
  imports Printf Console
begin

text \<open>
  Properties of formatted output: a number that is printed can be read back, text without percent signs is printed as it is, and what is printed appears on the
  screen. Some formats do not print what the C standard says.
\<close>

section \<open>Reading numbers back\<close>

definition digit_value :: "bytes \<Rightarrow> u8 \<Rightarrow> nat" where
  "digit_value dig c = length (takeWhile (\<lambda>d. d \<noteq> c) dig)"

primrec digits_value :: "nat \<Rightarrow> bytes \<Rightarrow> bytes \<Rightarrow> nat" where
  "digits_value base dig [] = 0"
| "digits_value base dig (c # cs) = digit_value dig c * base ^ length cs + digits_value base dig cs"

text \<open>A text is a numeral of a base if it is a minus sign or nothing, followed by at least one of the digits of the base and nothing else.\<close>

definition number_value :: "nat \<Rightarrow> bytes \<Rightarrow> bytes \<Rightarrow> int option" where
  "number_value base dig str = (let neg = (str \<noteq> [] \<and> hd str = 0x2D); ds = (if neg then tl str else str); v = int (digits_value base dig ds) in
     if ds \<noteq> [] \<and> set ds \<subseteq> set (take base dig) then Some (if neg then - v else v) else None)"

lemma digit_value_nth: "distinct dig \<Longrightarrow> k < length dig \<Longrightarrow> digit_value dig (dig ! k) = k"
proof -
  assume "distinct dig" "k < length dig"
  then have "takeWhile (\<lambda>d. d \<noteq> dig ! k) dig = take k dig" by (intro takeWhile_eq_take_P_nth) (auto simp: nth_eq_iff_index_eq)
  then show ?thesis using \<open>k < length dig\<close> by (simp add: digit_value_def)
qed

lemma digits_loop_value:
  assumes "2 \<le> base" "base \<le> length dig" "distinct dig"
  shows "digits_value base dig (digits_loop base dig n acc) = n * base ^ length acc + digits_value base dig acc"
proof (induction n arbitrary: acc rule: less_induct)
  case (less n)
  let ?acc = "dig ! (n mod base) # acc"
  have "n mod base < base" using assms(1) by simp
  then have "n mod base < length dig" using assms(2) by linarith
  then have acc: "digits_value base dig ?acc = (n mod base) * base ^ length acc + digits_value base dig acc"
    using assms(3) by (simp add: digit_value_nth)
  show ?case
  proof (cases "n div base = 0")
    case True
    then have "n mod base = n" using assms(1) div_eq_0_iff by auto
    then show ?thesis using True acc assms(1) by (simp add: digits_loop.simps [of base dig n acc] Let_def)
  next
    case False
    then have "n div base < n" using assms(1) by (intro div_less_dividend) (auto simp: div_greater_zero_iff)
    then have "digits_value base dig (digits_loop base dig n acc) = n div base * base ^ Suc (length acc) + digits_value base dig ?acc"
      using less.IH [of "n div base" ?acc] False assms(1) by (simp add: digits_loop.simps [of base dig n acc] Let_def)
    also have "\<dots> = n div base * base * base ^ length acc + ((n mod base) * base ^ length acc + digits_value base dig acc)" unfolding acc by simp
    also have "\<dots> = (n div base * base + n mod base) * base ^ length acc + digits_value base dig acc" by (simp only: distrib_right add.assoc)
    finally show ?thesis by simp
  qed
qed

text \<open>The first digit is not zero, unless the number is.\<close>

lemma digits_loop_hd:
  assumes "2 \<le> base" "base \<le> length dig" "distinct dig"
  shows "digits_loop base dig n acc \<noteq> [] \<and> hd (digits_loop base dig n acc) \<in> set dig \<and> (n \<noteq> 0 \<longrightarrow> hd (digits_loop base dig n acc) \<noteq> dig ! 0)"
proof (induction n arbitrary: acc rule: less_induct)
  case (less n)
  have "n mod base < base" using assms(1) by simp
  then have m: "n mod base < length dig" using assms(2) by linarith
  show ?case
  proof (cases "n div base = 0")
    case True
    then have "n mod base = n" using assms(1) div_eq_0_iff by auto
    moreover have "dig ! n \<noteq> dig ! 0" if "n \<noteq> 0" using that m calculation assms nth_eq_iff_index_eq [of dig n 0] by (cases dig) auto
    ultimately show ?thesis using True m assms by (auto simp: digits_loop.simps [of base dig n acc] Let_def)
  next
    case False
    then have "n div base < n" using assms(1) by (intro div_less_dividend) (auto simp: div_greater_zero_iff)
    then show ?thesis using less.IH [of "n div base"] False assms(1) by (simp add: digits_loop.simps [of base dig n acc] Let_def)
  qed
qed

lemma digits_loop_set:
  assumes "2 \<le> base" "base \<le> length dig" "set acc \<subseteq> set (take base dig)"
  shows "set (digits_loop base dig n acc) \<subseteq> set (take base dig)"
  using assms(3)
proof (induction n arbitrary: acc rule: less_induct)
  case (less n)
  have "dig ! (n mod base) = take base dig ! (n mod base)" "n mod base < length (take base dig)" using assms(1,2) by simp_all
  then have d: "dig ! (n mod base) \<in> set (take base dig)" by (metis nth_mem)
  show ?case
  proof (cases "n div base = 0")
    case True
    then show ?thesis using d less.prems assms(1) by (simp add: digits_loop.simps [of base dig n acc] Let_def)
  next
    case False
    then have "n div base < n" using assms(1) by (intro div_less_dividend) (auto simp: div_greater_zero_iff)
    then show ?thesis using less.IH [of "n div base" "dig ! (n mod base) # acc"] False assms(1) d less.prems
      by (simp add: digits_loop.simps [of base dig n acc] Let_def)
  qed
qed

lemma digits_loop_length: "2 \<le> base \<Longrightarrow> n < base ^ k \<Longrightarrow> 0 < k \<Longrightarrow> length (digits_loop base dig n acc) \<le> k + length acc"
proof (induction k arbitrary: n acc)
  case (Suc k)
  show ?case
  proof (cases "n div base = 0")
    case True
    then show ?thesis using Suc.prems(1) by (simp add: digits_loop.simps [of base dig n acc] Let_def)
  next
    case False
    have "n div base < base ^ k" using Suc.prems(1,2) by (simp add: less_mult_imp_div_less mult.commute)
    moreover from this False have "0 < k" by (cases k) auto
    ultimately show ?thesis using Suc.IH [of "n div base" "dig ! (n mod base) # acc"] Suc.prems(1) False
      by (simp add: digits_loop.simps [of base dig n acc] Let_def)
  qed
qed simp

lemma tables: "distinct upper_digits" "distinct lower_digits" "length upper_digits = 16" "length lower_digits = 16" "0x2D \<notin> set upper_digits" "0x2D \<notin> set lower_digits"
  by simp_all

text \<open>Without a width and flags, a number is its sign and its digits.\<close>

lemma int_str_value:
  assumes "base \<in> {8, 10, 16, 17}" "\<bar>i\<bar> < 2 ^ 63"
  defines "b \<equiv> (if base = 17 then 16 else base)" and "dig \<equiv> (if base = 17 then lower_digits else upper_digits)"
  shows "\<exists>str. k__int_str i base False False 0 False False = Inr str \<and> number_value b dig str = Some i \<and>
    (i \<noteq> 0 \<longrightarrow> hd (if i < 0 then tl str else str) \<noteq> 0x30)"
proof -
  let ?ds = "digits_loop b dig (nat \<bar>i\<bar>) []"
  have b: "2 \<le> b" "b \<le> length dig" "distinct dig" "0x2D \<notin> set dig" "dig ! 0 = 0x30"
    using assms(1) by (auto simp: b_def dig_def)
  have "nat \<bar>i\<bar> < 2 ^ 63" using assms(2) by (simp add: nat_less_iff)
  also have "(2 :: nat) ^ 63 \<le> b ^ 63" using b(1) by (intro power_mono) auto
  finally have "length ?ds \<le> 63" using digits_loop_length [of b "nat \<bar>i\<bar>" 63 dig "[]"] b(1) by simp
  moreover have "length (sign_of i False False) \<le> 1" by (simp add: sign_of_def)
  ultimately have str: "k__int_str i base False False 0 False False = Inr (sign_of i False False @ ?ds)"
    using assms(2) by (auto simp: k__int_str_def Let_def b_def dig_def)
  have v: "digits_value b dig ?ds = nat \<bar>i\<bar>" using digits_loop_value [OF b(1-3)] by simp
  note lead = digits_loop_hd [OF b(1-3), of "nat \<bar>i\<bar>" "[]"]
  then have "hd ?ds \<noteq> 0x2D" using b(4) by auto
  moreover have "set ?ds \<subseteq> set (take b dig)" using digits_loop_set [OF b(1,2)] by simp
  ultimately have "number_value b dig (sign_of i False False @ ?ds) = Some i" using v lead by (auto simp: number_value_def sign_of_def Let_def)
  then show ?thesis using str lead b(5) by (auto simp: sign_of_def)
qed

section \<open>Text\<close>

definition plain :: "bytes \<Rightarrow> bool" where
  "plain str \<longleftrightarrow> 0 \<notin> set str \<and> 0x25 \<notin> set str"

lemma output_chars_app: "output_chars b (output_chars a p) = output_chars (a @ b) p"
  by (simp add: output_chars_def)

lemma output_chars_Nil [simp]: "output_chars [] p = p"
  by (simp add: output_chars_def)

lemma plain_printed: "plain str \<Longrightarrow> kvprintf_loop mem flt (str @ fm) p = kvprintf_loop mem flt fm (output_chars str p)"
  by (induction str arbitrary: p) (auto simp: plain_def output_chars_app)

lemma plain_end: "plain str \<Longrightarrow> kvprintf_loop mem flt (str @ [0]) p = Inr (output_chars str p)"
  by (simp add: plain_printed)

definition simple_spec :: "u8 \<Rightarrow> fmt_spec" where
  "simple_spec c = no_spec\<lparr>precSpec := 6, specifier := c\<rparr>"

lemma read_spec_simple:
  assumes "c \<in> {0x64, 0x75, 0x78, 0x58, 0x6F}"
  shows "read_spec (c # fm) args = Inr (simple_spec c, fm, args)"
  using assms by (auto simp: read_spec_def read_amount_def read_length_def isdigit_def simple_spec_def no_spec_def)

lemma output_number:
  assumes "base \<in> {8, 10, 16, 17}" "\<bar>i\<bar> < 2 ^ 63"
  defines "b \<equiv> (if base = 17 then 16 else base)" and "dig \<equiv> (if base = 17 then lower_digits else upper_digits)"
  shows "\<exists>str. output_int i base (simple_spec c) p = Inr (output_chars str p) \<and> number_value b dig str = Some i \<and> (i \<noteq> 0 \<longrightarrow> hd (if i < 0 then tl str else str) \<noteq> 0x30)"
  using int_str_value [OF assms(1,2)] unfolding b_def dig_def by (auto simp: output_int_def simple_spec_def no_spec_def)

lemma print_simple:
  assumes "(c, base, dig, i) \<in> {(0x64, 10, upper_digits, sint w), (0x75, 10, upper_digits, uint w), (0x78, 16, lower_digits, uint w),
      (0x58, 16, upper_digits, uint w), (0x6F, 8, upper_digits, uint w)}"
    and "p_args p = [w]"
  shows "\<exists>str. print_spec mem flt (simple_spec c) p = Inr (output_chars str (p\<lparr>p_args := []\<rparr>)) \<and> number_value base dig str = Some i \<and>
    (i \<noteq> 0 \<longrightarrow> hd (if i < 0 then tl str else str) \<noteq> 0x30)"
proof -
  let ?base = "if c = 0x78 then 17 else base"
  have "print_spec mem flt (simple_spec c) p = output_int i ?base (simple_spec c) (p\<lparr>p_args := []\<rparr>)"
    using assms by (auto simp: print_spec_def simple_spec_def no_spec_def print_unsigned_def print_signed_def with_arg32_def Let_def)
  moreover have "\<bar>sint w\<bar> < 2 ^ 63" "\<bar>uint w\<bar> < 2 ^ 63"
    using sint_greater_eq [of w] sint_lt [of w] unsigned_less [of w, where ?'a = int] by simp_all
  then have bound: "\<bar>i\<bar> < 2 ^ 63" using assms(1) by auto
  have base: "?base \<in> {8, 10, 16, 17}" "(if ?base = 17 then 16 else ?base) = base" "(if ?base = 17 then lower_digits else upper_digits) = dig" using assms(1) by auto
  ultimately show ?thesis using output_number [OF base(1) bound, of c "p\<lparr>p_args := []\<rparr>"] unfolding base(2,3) by simp
qed

text \<open>
  C19. Numbers: for a format that is text without percent signs around one of the plain conversions \<^verbatim>\<open>%d\<close>, \<^verbatim>\<open>%u\<close>, \<^verbatim>\<open>%x\<close>, \<^verbatim>\<open>%X\<close> and \<^verbatim>\<open>%o\<close>
  (no flags, width or length), and every 32-bit argument, \<^verbatim>\<open>kvprintf\<close> prints the text around a numeral of the base: a minus sign for a negative number, then only digits of the
  base, whose value is the argument, signed for \<^verbatim>\<open>%d\<close> and unsigned for the others, without leading zeros; and it returns the number of characters printed.
\<close>
theorem printf_number:
  assumes "(c, base, dig, i) \<in> {(0x64, 10, upper_digits, sint w), (0x75, 10, upper_digits, uint w), (0x78, 16, lower_digits, uint w),
      (0x58, 16, upper_digits, uint w), (0x6F, 8, upper_digits, uint w)}"
    and "plain a" "plain b"
  shows "\<exists>p str. kvprintf mem flt (a @ [0x25, c] @ b @ [0]) [w] = Inr p \<and> p_out p = a @ str @ b \<and> p_chars p = int (length (p_out p)) \<and>
    number_value base dig str = Some i \<and> (i \<noteq> 0 \<longrightarrow> hd (if i < 0 then tl str else str) \<noteq> 0x30)"
proof -
  let ?p = "output_chars a \<lparr>p_args = [w], p_out = [], p_chars = 0, p_stores = []\<rparr>"
  have c: "c \<in> {0x64, 0x75, 0x78, 0x58, 0x6F}" using assms(1) by auto
  obtain str where str: "print_spec mem flt (simple_spec c) ?p = Inr (output_chars str (?p\<lparr>p_args := []\<rparr>))" "number_value base dig str = Some i"
    "i \<noteq> 0 \<longrightarrow> hd (if i < 0 then tl str else str) \<noteq> 0x30"
    using print_simple [OF assms(1), of ?p] by (auto simp: output_chars_def)
  have "kvprintf mem flt (a @ [0x25, c] @ b @ [0]) [w] = Inr (output_chars b (output_chars str (?p\<lparr>p_args := []\<rparr>)))"
    using read_spec_simple [OF c] str(1) assms(3) by (simp add: kvprintf_def plain_printed [OF assms(2)] plain_end)
  then show ?thesis using str(2,3) by (auto simp: output_chars_def)
qed

theorem printf_number_witness:
  "\<exists>p str. kvprintf (\<lambda>_. []) (\<lambda>_ _. []) [0x78, 0x3D, 0x25, 0x64, 0] [- 42] = Inr p \<and> p_out p = [0x78, 0x3D] @ str \<and> number_value 10 upper_digits str = Some (- 42)"
proof -
  have "sint (- 42 :: u32) = - 42" by simp
  then show ?thesis using printf_number [of "0x64" 10 upper_digits "sint (- 42 :: u32)" "- 42" "[0x78, 0x3D]" "[]" "\<lambda>_. []" "\<lambda>_ _. []"]
    by (auto simp: plain_def)
qed

section \<open>Formats that print something else\<close>

text \<open>Zeros go in front of the sign; two percent signs print nothing, and \<^verbatim>\<open>%hhd\<close> prints a letter.\<close>

lemma odd_formats:
  "kvprintf (\<lambda>_. []) (\<lambda>_ _. []) [0x25, 0x30, 0x35, 0x64, 0] [- 42] = Inr \<lparr>p_args = [], p_out = [0x30, 0x30, 0x2D, 0x34, 0x32], p_chars = 5, p_stores = []\<rparr>"
  "kvprintf (\<lambda>_. []) (\<lambda>_ _. []) [0x25, 0x25, 0] [] = Inr \<lparr>p_args = [], p_out = [], p_chars = 0, p_stores = []\<rparr>"
  "kvprintf (\<lambda>_. []) (\<lambda>_ _. []) [0x25, 0x68, 0x68, 0x64, 0] [1] = Inr \<lparr>p_args = [1], p_out = [0x64], p_chars = 1, p_stores = []\<rparr>"
  by code_simp+

section \<open>Text on the screen\<close>

lemma colour_simps [simp]: "fb_inv (set_fg c s) = fb_inv s" "terminal_of (set_fg c s) = terminal_of s"
  by (auto simp: set_fg_def fb_inv_def fb_geometry_def terminal_of_def shown_def cell_index_def fun_eq_iff)

lemma decorator_ok:
  assumes "fb_inv s" "8 \<notin> set str"
  shows "\<exists>s'. decorator str color s = Inr s' \<and> fb_inv s' \<and> terminal_of s' = fold (\<lambda>c. term_put (glyph_of c)) ([0x5B] @ str @ [0x5D]) (terminal_of s)"
proof -
  obtain s1 where s1: "fb_putchar 0x5B s = Inr s1" "fb_inv s1" "terminal_of s1 = term_put (glyph_of 0x5B) (terminal_of s)"
    using putchar_ok [OF assms(1), of "0x5B"] by auto
  obtain s2 where s2: "fb_write str (set_fg color s1) = Inr s2" "fb_inv s2" "terminal_of s2 = fold (\<lambda>c. term_put (glyph_of c)) str (terminal_of s1)"
    using console_write_ok [of "set_fg color s1" str] s1(2) assms(2) by auto
  obtain s3 where s3: "fb_putchar 0x5D (set_fg 0xFFFFFF s2) = Inr s3" "fb_inv s3" "terminal_of s3 = term_put (glyph_of 0x5D) (terminal_of s2)"
    using putchar_ok [of "set_fg 0xFFFFFF s2" "0x5D"] s2(2) by auto
  show ?thesis using s1 s2 s3 by (simp add: decorator_def)
qed

text \<open>
  Messages: an information message whose formatted text has no backspace is shown on the screen between a label in front and a label behind, and a new line
  starts after it; the result of the call is the number of characters of the text alone.
\<close>
theorem info_message_shown:
  assumes "fb_inv s" "kvprintf mem flt fm args = Inr p" "8 \<notin> set (p_out p)"
  shows "\<exists>s'. printf_info mem flt fm args s = Inr (p_chars p, s') \<and> fb_inv s' \<and>
    terminal_of s' = fold (\<lambda>c. term_put (glyph_of c))
      ([0x5B, 0x49, 0x4E, 0x46, 0x4F, 0x5D, 0x20] @ p_out p @ [0x20, 0x5B, 0x49, 0x4E, 0x46, 0x4F, 0x5D, 0x0A]) (terminal_of s)"
proof -
  let ?put = "\<lambda>c. term_put (glyph_of c)"
  have label: "\<exists>s'. info_decorator t = Inr s' \<and> fb_inv s' \<and> terminal_of s' = fold ?put [0x5B, 0x49, 0x4E, 0x46, 0x4F, 0x5D] (terminal_of t)" if "fb_inv t" for t
    using decorator_ok [OF that, of "[0x49, 0x4E, 0x46, 0x4F]"] by (simp add: info_decorator_def)
  obtain s1 where s1: "info_decorator s = Inr s1" "fb_inv s1" "terminal_of s1 = fold ?put [0x5B, 0x49, 0x4E, 0x46, 0x4F, 0x5D] (terminal_of s)" using label [OF assms(1)] by auto
  obtain s2 where s2: "fb_putchar 0x20 s1 = Inr s2" "fb_inv s2" "terminal_of s2 = ?put 0x20 (terminal_of s1)" using putchar_ok [OF s1(2), of "0x20"] by auto
  obtain s3 where s3: "fb_write (p_out p) s2 = Inr s3" "fb_inv s3" "terminal_of s3 = fold ?put (p_out p) (terminal_of s2)" using console_write_ok [OF s2(2) assms(3)] by auto
  obtain s4 where s4: "fb_putchar 0x20 s3 = Inr s4" "fb_inv s4" "terminal_of s4 = ?put 0x20 (terminal_of s3)" using putchar_ok [OF s3(2), of "0x20"] by auto
  obtain s5 where s5: "info_decorator s4 = Inr s5" "fb_inv s5" "terminal_of s5 = fold ?put [0x5B, 0x49, 0x4E, 0x46, 0x4F, 0x5D] (terminal_of s4)" using label [OF s4(2)] by auto
  obtain s6 where s6: "fb_putchar 10 s5 = Inr s6" "fb_inv s6" "terminal_of s6 = ?put 10 (terminal_of s5)" using putchar_ok [OF s5(2), of 10] by auto
  have "printf_info mem flt fm args s = Inr (p_chars p, s6)"
    using s1(1) s2(1) s3(1) s4(1) s5(1) s6(1) assms(2) by (simp add: printf_info_def msg_printf_def printf_def fb_info_def)
  then show ?thesis using s1(3) s2(3) s3(3) s4(3) s5(3) s6(2,3) by (intro exI [of _ s6]) simp
qed

theorem info_message_shown_witness:
  "\<exists>s'. printf_info (\<lambda>_. []) (\<lambda>_ _. []) [0x61, 0] [] demo_console = Inr (1, s') \<and> t_y (terminal_of s') = 1"
proof -
  have "fb_inv demo_console" by (auto simp: fb_inv_def fb_geometry_def demo_console_def)
  moreover have "kvprintf (\<lambda>_. []) (\<lambda>_ _. []) [0x61, 0] [] = Inr \<lparr>p_args = [], p_out = [0x61], p_chars = 1, p_stores = []\<rparr>" by code_simp
  moreover have "terminal_of demo_console = \<lparr>t_rows = [[0, 0], [0, 0]], t_x = 0, t_y = 1\<rparr>" by code_simp
  moreover have "t_y (fold (\<lambda>c. term_put (glyph_of c)) ([0x5B, 0x49, 0x4E, 0x46, 0x4F, 0x5D, 0x20] @ [0x61] @ [0x20, 0x5B, 0x49, 0x4E, 0x46, 0x4F, 0x5D, 0x0A])
      \<lparr>t_rows = [[0, 0], [0, 0]], t_x = 0, t_y = 1\<rparr>) = 1" by code_simp
  ultimately show ?thesis using info_message_shown [of demo_console "\<lambda>_. []" "\<lambda>_ _. []" "[0x61, 0]" "[]"] by auto
qed

end
