(* ===== verification/Elf.thy ===== *)
theory Elf
  imports KString
begin

text \<open>
  Loading of programs (\<^verbatim>\<open>src/src/kernel/processes/\<close>: ELF, ELFTools, ELFLoader). A file is the list of its bytes; pointers into it are
  offsets, and a read behind its end is \<open>OutOfBounds\<close>. Headers are read where the code reads them. What the kernel's \<^verbatim>\<open>mmap\<close> grants is the parameter
  \<open>grant\<close> (how many pages can be had), and whether a path exists is the parameter \<open>exists\<close>. The pages behind an allocation, which the code reaches by its load
  address, are kept as its contents: every call of \<^verbatim>\<open>mmap\<close> gives pages of its own, whose first contents are the parameter \<open>junk\<close>.
\<close>

section \<open>Headers\<close>

definition rd :: "nat \<Rightarrow> nat \<Rightarrow> bytes \<Rightarrow> nat res" where
  "rd n off b = (if off + n \<le> length b then Inr (le_val (take n (drop off b))) else Inl OutOfBounds)"

record ehdr =
  e_ident :: bytes
  e_type :: nat
  e_entry :: nat
  e_phoff :: nat
  e_shoff :: nat
  e_phentsize :: nat
  e_phnum :: nat
  e_shentsize :: nat
  e_shnum :: nat
  e_shstrndx :: nat

definition read_ehdr :: "bytes \<Rightarrow> ehdr res" where
  "read_ehdr b = (if length b < 52 then Inl OutOfBounds
     else let f = (\<lambda>n off. le_val (take n (drop off b))) in
       Inr \<lparr>e_ident = take 16 b, e_type = f 2 16, e_entry = f 4 24, e_phoff = f 4 28, e_shoff = f 4 32, e_phentsize = f 2 42, e_phnum = f 2 44,
         e_shentsize = f 2 46, e_shnum = f 2 48, e_shstrndx = f 2 50\<rparr>)"

record phdr =
  ph_type :: nat
  ph_offset :: nat
  ph_vaddr :: nat
  ph_filesz :: nat
  ph_memsz :: nat
  ph_flags :: nat

definition prog_hdr :: "bytes \<Rightarrow> ehdr \<Rightarrow> nat \<Rightarrow> phdr res" where
  "prog_hdr b e k = (let o0 = e_phoff e + 32 * k in
     if length b < o0 + 32 then Inl OutOfBounds
     else let f = (\<lambda>off. le_val (take 4 (drop (o0 + off) b))) in
       Inr \<lparr>ph_type = f 0, ph_offset = f 4, ph_vaddr = f 8, ph_filesz = f 16, ph_memsz = f 20, ph_flags = f 24\<rparr>)"

record shdr =
  sh_type :: nat
  sh_offset :: nat
  sh_size :: nat
  sh_link :: nat
  sh_entsize :: nat

definition shdr_at :: "bytes \<Rightarrow> nat \<Rightarrow> shdr res" where
  "shdr_at b o0 = (if length b < o0 + 40 then Inl OutOfBounds
     else let f = (\<lambda>off. le_val (take 4 (drop (o0 + off) b))) in
       Inr \<lparr>sh_type = f 4, sh_offset = f 16, sh_size = f 20, sh_link = f 24, sh_entsize = f 36\<rparr>)"

definition section_hdr :: "bytes \<Rightarrow> ehdr \<Rightarrow> nat \<Rightarrow> shdr res" where
  "section_hdr b e k = shdr_at b (e_shoff e + 40 * k)"

section \<open>Reading a file\<close>

text \<open>The object: its headers, and the places of its tables in the file. \<open>None\<close> is a null pointer, or the error value of an address.\<close>

record elf =
  global_hdr :: ehdr
  dyn_table :: "nat option"
  dynsym_hdr :: "shdr option"
  symtab_hdr :: "shdr option"
  interpreter_name :: "nat option"
  dynsym_strtab :: nat
  strtab :: nat
  shstrtab :: nat
  runtime_got_addr :: "nat option"
  hash_table_runtime_address :: "nat option"

definition read_section :: "bytes \<Rightarrow> nat \<Rightarrow> elf \<Rightarrow> elf res" where
  "read_section b k m = (let e = global_hdr m in bind_res (section_hdr b e k) (\<lambda>h.
     if sh_type h = 6 then Inr (m\<lparr>dyn_table := Some (sh_offset h)\<rparr>)
     else if sh_type h = 2 then bind_res (shdr_at b (e_shoff e + e_shentsize e * sh_link h)) (\<lambda>s. Inr (m\<lparr>symtab_hdr := Some h, strtab := sh_offset s\<rparr>))
     else if sh_type h = 11 then bind_res (section_hdr b e (sh_link h)) (\<lambda>s. Inr (m\<lparr>dynsym_hdr := Some h, dynsym_strtab := sh_offset s\<rparr>))
     else Inr m))"

fun find_interp :: "bytes \<Rightarrow> ehdr \<Rightarrow> nat list \<Rightarrow> nat option res" where
  "find_interp b e [] = Inr None"
| "find_interp b e (k # ks) = bind_res (prog_hdr b e k) (\<lambda>h. if ph_type h = 3 then Inr (Some (ph_offset h)) else find_interp b e ks)"

function read_dyn :: "bytes \<Rightarrow> nat \<Rightarrow> elf \<Rightarrow> elf res" where
  "read_dyn b off m =
    (if length b < off + 4 then Inl OutOfBounds
     else let tag = le_val (take 4 (drop off b)) in
       if tag = 0 then Inr m
       else if tag \<in> {3, 4} \<and> length b < off + 8 then Inl OutOfBounds
       else let v = le_val (take 4 (drop (off + 4) b)) in
         read_dyn b (off + 8) (if tag = 3 then m\<lparr>runtime_got_addr := Some v\<rparr> else if tag = 4 then m\<lparr>hash_table_runtime_address := Some v\<rparr> else m))"
  by pat_completeness auto
termination by (relation "measure (\<lambda>(b, off, m). length b - off)") auto

declare read_dyn.simps [simp del]

definition new_ELF :: "bytes \<Rightarrow> elf res" where
  "new_ELF b = bind_res (read_ehdr b) (\<lambda>e.
     bind_res (for_n (read_section b) 0 (e_shnum e) \<lparr>global_hdr = e, dyn_table = None, dynsym_hdr = None, symtab_hdr = None, interpreter_name = None,
       dynsym_strtab = 0, strtab = 0, shstrtab = 0, runtime_got_addr = None, hash_table_runtime_address = None\<rparr>) (\<lambda>m.
     bind_res (find_interp b e [0..<e_phnum e]) (\<lambda>i.
     bind_res (shdr_at b (e_shoff e + e_shentsize e * e_shstrndx e)) (\<lambda>s.
     let m = m\<lparr>interpreter_name := i, shstrtab := sh_offset s\<rparr> in
     case dyn_table m of None \<Rightarrow> Inr m | Some off \<Rightarrow> read_dyn b off m))))"

section \<open>Checks\<close>

datatype elf_type = Executable | SharedObject | Relocatable

definition type_code :: "elf_type \<Rightarrow> nat" where
  "type_code t = (case t of Executable \<Rightarrow> 2 | SharedObject \<Rightarrow> 3 | Relocatable \<Rightarrow> 1)"

definition section_supported :: "nat \<Rightarrow> bool" where
  "section_supported t \<longleftrightarrow> t \<in> {0, 1, 8, 2, 3, 11, 5, 0x6FFFFFF6, 9, 6, 14, 15, 0x6FFFFFFF, 0x6FFFFFFE, 0x6FFFFFFD}"

definition segment_supported :: "nat \<Rightarrow> bool" where
  "segment_supported t \<longleftrightarrow> t \<in> {1, 3, 7, 0x6474E550, 0x6474E551, 2, 6}"

text \<open>A loop that looks at headers until one is not as it should be.\<close>

fun check_all :: "(nat \<Rightarrow> bool res) \<Rightarrow> nat list \<Rightarrow> bool res" where
  "check_all P [] = Inr True"
| "check_all P (k # ks) = bind_res (P k) (\<lambda>ok. if ok then check_all P ks else Inr False)"

definition highest_step :: "bytes \<Rightarrow> ehdr \<Rightarrow> nat \<Rightarrow> nat \<Rightarrow> nat res" where
  "highest_step b e k hi = bind_res (prog_hdr b e k) (\<lambda>h. if ph_type h \<noteq> 1 then Inr hi
     else let a = add32 (ph_vaddr h) (ph_memsz h) in Inr (if hi < a then a else hi))"

definition get_highest_runtime_addr :: "bytes \<Rightarrow> ehdr \<Rightarrow> nat res" where
  "get_highest_runtime_addr b e = for_n (highest_step b e) 0 (e_phnum e) 0"

definition elf_num_pages :: "bytes \<Rightarrow> ehdr \<Rightarrow> nat res" where
  "elf_num_pages b e = bind_res (get_highest_runtime_addr b e) (\<lambda>hi. Inr (add32 hi 4095 div 4096))"

definition base_step :: "bytes \<Rightarrow> ehdr \<Rightarrow> nat \<Rightarrow> nat \<Rightarrow> nat res" where
  "base_step b e k lo = bind_res (prog_hdr b e k) (\<lambda>h. Inr (if ph_type h = 1 \<and> ph_vaddr h < lo then ph_vaddr h else lo))"

definition base_address :: "bytes \<Rightarrow> ehdr \<Rightarrow> nat res" where
  "base_address b e = bind_res (for_n (base_step b e) 0 (e_phnum e) (W32 - 1)) (\<lambda>lo. Inr (lo div 4096 * 4096))"

definition segment_pages :: "phdr \<Rightarrow> nat" where
  "segment_pages h = add32 (ph_memsz h) 4095 div 4096"

text \<open>The pages of the read-only segments seen so far; \<open>None\<close> when a writable segment overlaps them.\<close>

fun mark_pages :: "bool \<Rightarrow> nat list \<Rightarrow> bool list \<Rightarrow> bool list option res" where
  "mark_pages w [] ro = Inr (Some ro)"
| "mark_pages w (p # ps) ro =
    (if length ro \<le> p then Inl OutOfBounds
     else if w then (if ro ! p then Inr None else mark_pages w ps ro)
     else mark_pages w ps (ro[p := True]))"

fun check_overlap :: "bytes \<Rightarrow> ehdr \<Rightarrow> nat list \<Rightarrow> bool list \<Rightarrow> bool res" where
  "check_overlap b e [] ro = Inr True"
| "check_overlap b e (k # ks) ro = bind_res (prog_hdr b e k) (\<lambda>h.
     if ph_type h \<noteq> 1 then check_overlap b e ks ro
     else bind_res (mark_pages (ph_flags h div 2 mod 2 = 1) (map (\<lambda>j. add32 (ph_vaddr h div 4096) j) [0..<segment_pages h]) ro) (\<lambda>r.
       case r of None \<Rightarrow> Inr False | Some ro \<Rightarrow> check_overlap b e ks ro))"

definition elf_c_string :: "bytes \<Rightarrow> nat \<Rightarrow> bytes res" where
  "elf_c_string b off = bind_res (strlen (drop off b)) (\<lambda>n. Inr (take n (drop off b)))"

definition headers_ok :: "bytes \<Rightarrow> elf_type \<Rightarrow> elf \<Rightarrow> bool res" where
  "headers_ok b t m = (let e = global_hdr m in
     if take 4 (e_ident e) \<noteq> [0x7F, 0x45, 0x4C, 0x46] then Inr False
     else if e_ident e ! 4 \<noteq> 1 then Inr False
     else if e_type e \<noteq> type_code t then Inr False
     else bind_res (section_hdr b e 0) (\<lambda>h. if sh_type h \<noteq> 0 then Inr False
     else bind_res (check_all (\<lambda>k. bind_res (section_hdr b e k) (\<lambda>h. Inr (section_supported (sh_type h)))) [0..<e_shnum e]) (\<lambda>ok. if \<not> ok then Inr False
     else if e_phnum e = 0 then Inr False
     else check_all (\<lambda>k. bind_res (prog_hdr b e k) (\<lambda>h. Inr (segment_supported (ph_type h)))) [0..<e_phnum e])))"

definition interpreter_ok :: "(bytes \<Rightarrow> bool) \<Rightarrow> bytes \<Rightarrow> elf \<Rightarrow> bool res" where
  "interpreter_ok exists b m = (case interpreter_name m of
     None \<Rightarrow> Inr True
   | Some i \<Rightarrow> if dyn_table m = None then Inr False
     else bind_res (elf_c_string b i) (\<lambda>path. Inr (exists path \<and> runtime_got_addr m \<noteq> None \<and> runtime_got_addr m \<noteq> Some (W32 - 1))))"

definition is_valid :: "(bytes \<Rightarrow> bool) \<Rightarrow> bytes \<Rightarrow> elf_type \<Rightarrow> elf option res" where
  "is_valid exists b t = bind_res (new_ELF b) (\<lambda>m. let e = global_hdr m in
     bind_res (headers_ok b t m) (\<lambda>ok. if \<not> ok then Inr None
     else bind_res (elf_num_pages b e) (\<lambda>n.
     bind_res (check_overlap b e [0..<e_phnum e] (replicate n False)) (\<lambda>ok. if \<not> ok then Inr None
     else bind_res (base_address b e) (\<lambda>base. if base = W32 - 1 then Inr None
     else bind_res (interpreter_ok exists b m) (\<lambda>ok. Inr (if ok then Some m else None)))))))"

section \<open>Memory of the new process\<close>

text \<open>An allocation with its contents, and the entry of a page: the allocation and the page of it that it shows, and whether it may be written.\<close>

record lalloc =
  la_start :: nat
  la_end :: nat
  la_write :: bool
  la_user :: bool
  la_data :: bytes

record lpte =
  pe_alloc :: nat
  pe_page :: nat
  pe_write :: bool
  pe_user :: bool

record dep =
  dep_elf :: elf
  dep_addr :: nat

record loader =
  l_allocs :: "lalloc list"
  l_pt :: "nat \<Rightarrow> lpte option"
  l_pages :: nat
  l_deps :: "dep list"

text \<open>\<^verbatim>\<open>Lptr\<close>: the first allocation around an address. The range must end before the end of the allocation.\<close>

fun lptr_find :: "nat \<Rightarrow> nat \<Rightarrow> nat \<Rightarrow> lalloc list \<Rightarrow> nat res" where
  "lptr_find addr n i [] = Inl (Irrecoverable ''runtime to load address conversion failure'')"
| "lptr_find addr n i (a # as) =
    (if la_start a \<le> addr \<and> addr < la_end a
     then if add32 addr n < la_end a then Inr i else Inl (Irrecoverable ''allocation where lies ptr does not cover n bytes'')
     else lptr_find addr n (Suc i) as)"

definition lptr_memcpy :: "nat \<Rightarrow> bytes \<Rightarrow> loader \<Rightarrow> loader res" where
  "lptr_memcpy addr src l = bind_res (lptr_find addr (length src) 0 (l_allocs l)) (\<lambda>i. let a = l_allocs l ! i in
     if addr - la_start a + length src \<le> length (la_data a)
     then Inr (l\<lparr>l_allocs := (l_allocs l)[i := a\<lparr>la_data := blit (la_data a) (addr - la_start a) src\<rparr>]\<rparr>)
     else Inl OutOfBounds)"

definition lptr_memset :: "nat \<Rightarrow> u8 \<Rightarrow> nat \<Rightarrow> loader \<Rightarrow> loader res" where
  "lptr_memset addr c n l = lptr_memcpy addr (replicate n c) l"

section \<open>Loading\<close>

abbreviation NUM_PAGES :: nat where
  "NUM_PAGES \<equiv> 786432"

text \<open>A page table entry behind the 768 tables of the process is outside the array of its tables.\<close>

definition map_page :: "nat \<Rightarrow> bool \<Rightarrow> bool \<Rightarrow> nat \<Rightarrow> nat \<Rightarrow> loader \<Rightarrow> loader res" where
  "map_page a w u first i l = (let p = add32 first i in
     if NUM_PAGES \<le> p then Inl OutOfBounds
     else if l_pt l p \<noteq> None then Inl (Irrecoverable ''address space overlap detected'')
     else Inr (l\<lparr>l_pt := (l_pt l)(p \<mapsto> \<lparr>pe_alloc = a, pe_page = i, pe_write = w, pe_user = u\<rparr>)\<rparr>))"

definition add_alloc :: "(nat \<Rightarrow> bool) \<Rightarrow> u8 \<Rightarrow> nat \<Rightarrow> nat \<Rightarrow> bool \<Rightarrow> bool \<Rightarrow> loader \<Rightarrow> loader res" where
  "add_alloc grant junk first n w u l =
    (if \<not> grant n then Inl (Irrecoverable ''mmap failed'')
     else bind_res (for_n (map_page (length (l_allocs l)) w u first) 0 n l) (\<lambda>l.
       let start = mul32 first 4096 in
       Inr (l\<lparr>l_allocs := l_allocs l @ [\<lparr>la_start = start, la_end = add32 start (mul32 n 4096), la_write = w, la_user = u, la_data = replicate (n * 4096) junk\<rparr>]\<rparr>)))"

definition map_segment :: "(nat \<Rightarrow> bool) \<Rightarrow> u8 \<Rightarrow> bytes \<Rightarrow> ehdr \<Rightarrow> nat \<Rightarrow> nat \<Rightarrow> loader \<Rightarrow> loader res" where
  "map_segment grant junk b e addr k l = bind_res (prog_hdr b e k) (\<lambda>h.
     if ph_type h \<noteq> 1 then Inr l
     else add_alloc grant junk (add32 addr (ph_vaddr h) div 4096) (segment_pages h) (ph_flags h div 2 mod 2 = 1) True l)"

definition map_elf :: "(nat \<Rightarrow> bool) \<Rightarrow> u8 \<Rightarrow> bytes \<Rightarrow> ehdr \<Rightarrow> nat \<Rightarrow> loader \<Rightarrow> loader res" where
  "map_elf grant junk b e addr l = bind_res (for_n (map_segment grant junk b e addr) 0 (e_phnum e) l) (\<lambda>l.
     bind_res (elf_num_pages b e) (\<lambda>n. Inr (l\<lparr>l_pages := add32 (l_pages l) n\<rparr>)))"

definition load_segment :: "bytes \<Rightarrow> ehdr \<Rightarrow> nat \<Rightarrow> nat \<Rightarrow> loader \<Rightarrow> loader res" where
  "load_segment b e addr k l = bind_res (prog_hdr b e k) (\<lambda>h.
     if ph_type h \<noteq> 1 then Inr l
     else bind_res (lptr_find (add32 addr (ph_vaddr h)) (ph_filesz h) 0 (l_allocs l)) (\<lambda>_.
       if length b < ph_offset h + ph_filesz h then Inl OutOfBounds
       else bind_res (lptr_memcpy (add32 addr (ph_vaddr h)) (take (ph_filesz h) (drop (ph_offset h) b)) l) (\<lambda>l.
       if ph_filesz h < ph_memsz h
       then lptr_memset (add32 addr (add32 (ph_vaddr h) (ph_filesz h))) 0 (ph_memsz h - ph_filesz h) l
       else Inr l)))"

definition load_elf_code :: "bytes \<Rightarrow> ehdr \<Rightarrow> nat \<Rightarrow> loader \<Rightarrow> loader res" where
  "load_elf_code b e addr l = for_n (load_segment b e addr) 0 (e_phnum e) l"

text \<open>
  One file: it is checked, mapped behind what is mapped already, and copied. \<open>read_file\<close> gives the contents of a file, \<open>None\<close> when it cannot be opened or read;
  the interpreter, which may name an interpreter in its turn, is loaded after it, and \<open>fuel\<close> bounds the length of this chain.
\<close>

definition load_buf :: "(nat \<Rightarrow> bool) \<Rightarrow> u8 \<Rightarrow> (bytes \<Rightarrow> bool) \<Rightarrow> bytes \<Rightarrow> elf_type \<Rightarrow> loader \<Rightarrow> (elf option \<times> loader) res" where
  "load_buf grant junk exists b t l = bind_res (is_valid exists b t) (\<lambda>m. case m of
     None \<Rightarrow> Inr (None, l)
   | Some m \<Rightarrow> let addr = mul32 (l_pages l) 4096; l = l\<lparr>l_deps := l_deps l @ [\<lparr>dep_elf = m, dep_addr = addr\<rparr>]\<rparr> in
       bind_res (map_elf grant junk b (global_hdr m) addr l) (\<lambda>l.
       bind_res (load_elf_code b (global_hdr m) addr l) (\<lambda>l. Inr (Some m, l))))"

fun load_elf :: "nat \<Rightarrow> (nat \<Rightarrow> bool) \<Rightarrow> u8 \<Rightarrow> (bytes \<Rightarrow> bytes option) \<Rightarrow> bytes \<Rightarrow> elf_type \<Rightarrow> loader \<Rightarrow> (elf option \<times> loader) res" where
  "load_elf 0 grant junk read_file path t l = Inl Diverges"
| "load_elf (Suc fuel) grant junk read_file path t l = (case read_file path of
     None \<Rightarrow> Inr (None, l)
   | Some b \<Rightarrow> bind_res (load_buf grant junk (\<lambda>p. read_file p \<noteq> None) b t l) (\<lambda>(m, l). case m of
       None \<Rightarrow> Inr (None, l)
     | Some m \<Rightarrow> (case interpreter_name m of
         None \<Rightarrow> Inr (Some m, l)
       | Some i \<Rightarrow> bind_res (elf_c_string b i) (\<lambda>path. bind_res (load_elf fuel grant junk read_file path SharedObject l) (\<lambda>(r, l).
           Inr (if r = None then None else Some m, l))))))"

section \<open>Stacks\<close>

definition allocate_stacks :: "(nat \<Rightarrow> bool) \<Rightarrow> u8 \<Rightarrow> loader \<Rightarrow> loader res" where
  "allocate_stacks grant junk l = bind_res (add_alloc grant junk (NUM_PAGES - 128) 128 True True l) (\<lambda>l.
     add_alloc grant junk (NUM_PAGES - 128 - 2) 2 True False l)"

definition write_to_stack :: "bytes \<Rightarrow> nat \<times> loader \<Rightarrow> (nat \<times> loader) res" where
  "write_to_stack str s = (let top = sub32 (fst s) (length str) in bind_res (lptr_memcpy top str (snd s)) (\<lambda>l. Inr (top, l)))"

fun write_all :: "bytes list \<Rightarrow> nat \<times> loader \<Rightarrow> (nat \<times> loader) res" where
  "write_all [] s = Inr s"
| "write_all (x # xs) s = bind_res (write_to_stack x s) (write_all xs)"

definition auxv :: "nat \<Rightarrow> nat \<Rightarrow> bytes" where
  "auxv t v = le_bytes 4 t @ le_bytes 4 v"

text \<open>
  The last program header of type PHDR, if there is one. The buffer with the file has been deleted when the code looks for it: the bytes \<open>freed\<close> are what the memory of
  the buffer holds by then, which need not be the file any more.
\<close>

definition phdr_step :: "bytes \<Rightarrow> ehdr \<Rightarrow> nat \<Rightarrow> nat option \<Rightarrow> nat option res" where
  "phdr_step freed e k r = bind_res (prog_hdr freed e k) (\<lambda>h. Inr (if ph_type h = 6 then Some (ph_vaddr h) else r))"

definition write_auxv :: "bytes \<Rightarrow> elf \<Rightarrow> nat \<Rightarrow> nat \<Rightarrow> nat \<times> loader \<Rightarrow> (nat \<times> loader) res" where
  "write_auxv freed m argv0 random s = (let e = global_hdr m in
     bind_res (write_all [auxv 0 0, auxv 6 4096, auxv 23 0, auxv 25 random] s) (\<lambda>s.
     if interpreter_name m = None then Inr s
     else bind_res (for_n (phdr_step freed e) 0 (e_phnum e) None) (\<lambda>r. case r of
       None \<Rightarrow> Inl (Irrecoverable ''no PHDR found in program'')
     | Some v \<Rightarrow> if v = W32 - 1 then Inl (Irrecoverable ''no PHDR found in program'')
         else write_all [auxv 3 v, auxv 4 (e_phentsize e), auxv 5 (e_phnum e), auxv 31 argv0, auxv 9 (e_entry e)] s)))"

text \<open>The addresses of strings that were written, the last one first, below an address.\<close>

fun pointers_below :: "nat \<Rightarrow> bytes list \<Rightarrow> bytes list" where
  "pointers_below p [] = []"
| "pointers_below p (s # ss) = (let p = sub32 p (length s) in le_bytes 4 p # pointers_below p ss)"

abbreviation stack_end :: nat where
  "stack_end \<equiv> 3221225472 - 4"

text \<open>
  The strings of \<open>argv\<close> and \<open>envp\<close> are given without their terminators, and a null pointer at the end of \<open>argv\<close> has been left out; the 16 random bytes are
  the parameter \<open>random\<close>.
\<close>

definition write_args_to_stack :: "bytes \<Rightarrow> elf \<Rightarrow> bytes \<Rightarrow> bytes list \<Rightarrow> bytes list \<Rightarrow> loader \<Rightarrow> (nat \<times> loader) res" where
  "write_args_to_stack freed m random argv envp l = (let args = rev (map (\<lambda>s. s @ [0]) argv); envs = rev (map (\<lambda>s. s @ [0]) envp) in
     bind_res (write_all args (stack_end, l)) (\<lambda>s. let argv0 = fst s in
     bind_res (write_all envs s) (\<lambda>s.
     bind_res (write_to_stack random s) (\<lambda>s.
     bind_res (write_auxv freed m argv0 (fst s) s) (\<lambda>s.
     bind_res (write_to_stack (le_bytes 4 0) s) (\<lambda>s.
     bind_res (write_all (pointers_below argv0 envs) s) (\<lambda>s.
     bind_res (write_to_stack (le_bytes 4 0) s) (\<lambda>s.
     bind_res (write_all (pointers_below stack_end args) s) (\<lambda>s.
     write_to_stack (le_bytes 4 (length argv)) s)))))))))"

text \<open>The entry point is that of the interpreter if there is one.\<close>

definition entry_point :: "loader \<Rightarrow> nat res" where
  "entry_point l = (case l_deps l of
     [] \<Rightarrow> Inl OutOfBounds
   | d # ds \<Rightarrow> if interpreter_name (dep_elf d) = None then Inr (e_entry (global_hdr (dep_elf d)))
     else (case ds of [] \<Rightarrow> Inl NullDeref | i # _ \<Rightarrow> Inr (add32 (e_entry (global_hdr (dep_elf i))) (dep_addr i))))"

text \<open>Which entries of the page directory point to tables of the process.\<close>

definition pdt_entry :: "loader \<Rightarrow> nat \<Rightarrow> bool" where
  "pdt_entry l i \<longleftrightarrow> i < add32 (l_pages l) 1023 div 1024 \<or> i = 767"

definition build_process :: "nat \<Rightarrow> (nat \<Rightarrow> bool) \<Rightarrow> u8 \<Rightarrow> (bytes \<Rightarrow> bytes option) \<Rightarrow> bytes \<Rightarrow> bytes \<Rightarrow> bytes \<Rightarrow> bytes list \<Rightarrow> bytes list \<Rightarrow> (nat \<times> nat \<times> loader) option res" where
  "build_process fuel grant junk read_file freed path random argv envp =
     bind_res (load_elf fuel grant junk read_file path Executable \<lparr>l_allocs = [], l_pt = (\<lambda>_. None), l_pages = 0, l_deps = []\<rparr>) (\<lambda>(m, l). case m of
       None \<Rightarrow> Inr None
     | Some m \<Rightarrow> bind_res (allocate_stacks grant junk l) (\<lambda>l.
         bind_res (entry_point l) (\<lambda>eip.
         bind_res (write_args_to_stack freed m random argv envp l) (\<lambda>(esp, l). Inr (Some (eip, esp, l))))))"

section \<open>Symbols\<close>

definition hash_step :: "u32 \<Rightarrow> u8 \<Rightarrow> u32" where
  "hash_step h c = (let h = push_bit 4 h + ucast c; g = Bit_Operations.and h 0xF0000000 in
     Bit_Operations.and (Bit_Operations.xor h (drop_bit 24 g)) (Bit_Operations.not g))"

definition elf_hash :: "bytes \<Rightarrow> u32" where
  "elf_hash name = foldl hash_step 0 name"

definition sym_name :: "bytes \<Rightarrow> nat \<Rightarrow> nat \<Rightarrow> nat \<Rightarrow> bytes res" where
  "sym_name b tab str i = bind_res (rd 4 (tab + 16 * i) b) (\<lambda>n. elf_c_string b (str + n))"

fun linear_search :: "(nat \<Rightarrow> bytes res) \<Rightarrow> bytes \<Rightarrow> nat list \<Rightarrow> nat option res" where
  "linear_search names name [] = Inr None"
| "linear_search names name (i # is) = bind_res (names i) (\<lambda>n. if n = name then Inr (Some i) else linear_search names name is)"

definition get_symbol :: "bytes \<Rightarrow> elf \<Rightarrow> bytes \<Rightarrow> nat option res" where
  "get_symbol b m name = (case symtab_hdr m of None \<Rightarrow> Inl NullDeref
     | Some h \<Rightarrow> if sh_entsize h = 0 then Inl DivideError
         else linear_search (sym_name b (sh_offset h) (strtab m)) name [1..<sh_size h div sh_entsize h])"

text \<open>\<open>words\<close> gives the words of the hash table, \<open>chain\<close> is where its chains start. The chain is followed without a bound.\<close>

fun chain_search :: "nat \<Rightarrow> (nat \<Rightarrow> bytes res) \<Rightarrow> (nat \<Rightarrow> nat res) \<Rightarrow> nat \<Rightarrow> bytes \<Rightarrow> nat \<Rightarrow> nat option res" where
  "chain_search 0 names words chain name y = Inl Diverges"
| "chain_search (Suc fuel) names words chain name y =
    (if y = 0 then Inr None
     else bind_res (names y) (\<lambda>n. if n = name then Inr (Some y) else bind_res (words (chain + y)) (chain_search fuel names words chain name)))"

definition get_dynamic_symbol :: "nat \<Rightarrow> bytes \<Rightarrow> elf \<Rightarrow> (nat \<Rightarrow> nat res) \<Rightarrow> bytes \<Rightarrow> nat option res" where
  "get_dynamic_symbol fuel b m words name =
    (let names = (case dynsym_hdr m of None \<Rightarrow> (\<lambda>_. Inl NullDeref) | Some h \<Rightarrow> sym_name b (sh_offset h) (dynsym_strtab m)) in
     if hash_table_runtime_address m = None \<or> hash_table_runtime_address m = Some (W32 - 1)
     then (case dynsym_hdr m of None \<Rightarrow> Inl NullDeref
       | Some h \<Rightarrow> if sh_entsize h = 0 then Inl DivideError else linear_search names name [1..<sh_size h div sh_entsize h])
     else bind_res (words 0) (\<lambda>nbucket. if nbucket = 0 then Inl DivideError
       else bind_res (words (2 + unat (elf_hash name) mod nbucket)) (chain_search fuel names words (2 + nbucket) name)))"

end
