(* ===== verification/ElfProperties.thy ===== *)
theory ElfProperties
  imports Elf
begin

text \<open>
  What a new process finds in its memory: the segments of its program as the file has them, and on its stack the arguments and the environment as the
  processor's binary interface prescribes them.
\<close>

section \<open>Memory as the process sees it\<close>

definition byte_at :: "loader \<Rightarrow> nat \<Rightarrow> u8 option" where
  "byte_at l x = map_option (\<lambda>pte. la_data (l_allocs l ! pe_alloc pte) ! (pe_page pte * 4096 + x mod 4096)) (l_pt l (x div 4096))"

definition alloc_ok :: "lalloc \<Rightarrow> bool" where
  "alloc_ok a \<longleftrightarrow> la_start a mod 4096 = 0 \<and> la_end a = la_start a + length (la_data a) \<and> length (la_data a) mod 4096 = 0 \<and>
     (la_data a \<noteq> [] \<longrightarrow> la_end a \<le> NUM_PAGES * 4096)"

definition loader_ok :: "loader \<Rightarrow> bool" where
  "loader_ok l \<longleftrightarrow> (\<forall>a \<in> set (l_allocs l). alloc_ok a) \<and>
     (\<forall>p pte. l_pt l p = Some pte \<longrightarrow> pe_alloc pte < length (l_allocs l) \<and> p = la_start (l_allocs l ! pe_alloc pte) div 4096 + pe_page pte \<and>
       pe_page pte * 4096 < length (la_data (l_allocs l ! pe_alloc pte))) \<and>
     (\<forall>i < length (l_allocs l). \<forall>j. j * 4096 < length (la_data (l_allocs l ! i)) \<longrightarrow>
       (\<exists>pte. l_pt l (la_start (l_allocs l ! i) div 4096 + j) = Some pte \<and> pe_alloc pte = i \<and> pe_page pte = j))"

definition covers :: "lalloc \<Rightarrow> nat \<Rightarrow> bool" where
  "covers a x \<longleftrightarrow> la_start a \<le> x \<and> x < la_end a"

text \<open>An address in an allocation shows a byte of its contents, and no other allocation holds it.\<close>

lemma covers_pte:
  assumes "loader_ok l" "i < length (l_allocs l)" "covers (l_allocs l ! i) x"
  shows "\<exists>pte. l_pt l (x div 4096) = Some pte \<and> pe_alloc pte = i \<and> pe_page pte = (x - la_start (l_allocs l ! i)) div 4096"
proof -
  let ?a = "l_allocs l ! i" and ?j = "(x - la_start (l_allocs l ! i)) div 4096"
  have a: "alloc_ok ?a" using assms(1,2) by (simp add: loader_ok_def)
  then obtain s where s: "la_start ?a = s * 4096" by (auto simp: alloc_ok_def mod_eq_0_iff_dvd dvd_def mult.commute)
  have x: "s * 4096 \<le> x" "x < s * 4096 + length (la_data ?a)" using assms(3) a s by (auto simp: covers_def alloc_ok_def)
  then have "?j * 4096 < length (la_data ?a)" using s by (simp add: div_mult2_eq)
  moreover have "la_start ?a div 4096 + ?j = x div 4096" using s x(1) by simp
  ultimately show ?thesis using assms(1,2) unfolding loader_ok_def by metis
qed

lemma covers_unique:
  assumes "loader_ok l" "i < length (l_allocs l)" "covers (l_allocs l ! i) x" "j < length (l_allocs l)" "covers (l_allocs l ! j) x"
  shows "i = j"
  using covers_pte [OF assms(1-3)] covers_pte [OF assms(1,4,5)] by auto

lemma byte_at_covers:
  assumes "loader_ok l" "i < length (l_allocs l)" "covers (l_allocs l ! i) x"
  shows "byte_at l x = Some (la_data (l_allocs l ! i) ! (x - la_start (l_allocs l ! i)))"
proof -
  let ?a = "l_allocs l ! i"
  have "alloc_ok ?a" using assms(1,2) by (simp add: loader_ok_def)
  then obtain s where s: "la_start ?a = s * 4096" by (auto simp: alloc_ok_def mod_eq_0_iff_dvd dvd_def mult.commute)
  have "s * 4096 \<le> x" using assms(3) s by (simp add: covers_def)
  then have "(x - s * 4096) div 4096 * 4096 + x mod 4096 = x - s * 4096"
    by (metis (no_types) div_mult_mod_eq mod_mult_self4 le_add_diff_inverse2 mult.commute mod_mult_self1)
  then show ?thesis using covers_pte [OF assms] s by (auto simp: byte_at_def)
qed

lemma lptr_find_Inr:
  "lptr_find addr n k as = Inr i \<Longrightarrow> k \<le> i \<and> i - k < length as \<and> covers (as ! (i - k)) addr \<and> add32 addr n < la_end (as ! (i - k))"
proof (induction as arbitrary: k)
  case (Cons a as)
  show ?case
  proof (cases "la_start a \<le> addr \<and> addr < la_end a")
    case False
    then have "lptr_find addr n (Suc k) as = Inr i" using Cons.prems by auto
    from Cons.IH [OF this] show ?thesis by (auto simp: nth_Cons' Suc_diff_le)
  qed (use Cons.prems in \<open>auto simp: covers_def split: if_splits\<close>)
qed simp

lemma lptr_find_refused:
  "\<exists>c \<in> set as. covers c x \<Longrightarrow> (\<And>c. c \<in> set as \<Longrightarrow> covers c x \<Longrightarrow> \<not> add32 x n < la_end c) \<Longrightarrow>
    lptr_find x n k as = Inl (Irrecoverable ''allocation where lies ptr does not cover n bytes'')"
  by (induction as arbitrary: k) (auto simp: covers_def)

text \<open>A copy through \<^verbatim>\<open>Lptr\<close> changes exactly the bytes it is meant to.\<close>

lemma memcpy_byte:
  assumes ok: "loader_ok l" and cp: "lptr_memcpy addr src l = Inr l'"
  shows "loader_ok l' \<and> l_pt l' = l_pt l \<and> l_pages l' = l_pages l \<and> l_deps l' = l_deps l \<and>
    map la_start (l_allocs l') = map la_start (l_allocs l) \<and> map la_end (l_allocs l') = map la_end (l_allocs l) \<and>
    (\<forall>x. byte_at l' x = (if addr \<le> x \<and> x < addr + length src then Some (src ! (x - addr)) else byte_at l x)) \<and>
    (\<exists>a \<in> set (l_allocs l). covers a addr \<and> addr + length src < la_end a)"
proof -
  from cp obtain i where i: "lptr_find addr (length src) 0 (l_allocs l) = Inr i" and
    fits: "addr - la_start (l_allocs l ! i) + length src \<le> length (la_data (l_allocs l ! i))" and
    l': "l' = l\<lparr>l_allocs := (l_allocs l)[i := (l_allocs l ! i)\<lparr>la_data := blit (la_data (l_allocs l ! i)) (addr - la_start (l_allocs l ! i)) src\<rparr>]\<rparr>"
    by (auto simp: lptr_memcpy_def res_elims Let_def split: if_splits)
  let ?a = "l_allocs l ! i"
  let ?a' = "?a\<lparr>la_data := blit (la_data ?a) (addr - la_start ?a) src\<rparr>"
  have il: "i < length (l_allocs l)" "covers ?a addr" "add32 addr (length src) < la_end ?a" using lptr_find_Inr [OF i] by auto
  have a: "alloc_ok ?a" using ok il(1) by (simp add: loader_ok_def)
  then have "la_data ?a \<noteq> []" "la_end ?a = la_start ?a + length (la_data ?a)" using il(2) by (auto simp: alloc_ok_def covers_def)
  then have "addr + length src < W32" "addr + length src \<le> la_end ?a" using a fits il(2) by (auto simp: alloc_ok_def covers_def)
  then have le: "addr + length src < la_end ?a" using il(3) by (simp add: add32_eq)
  have len: "length (la_data ?a') = length (la_data ?a)" using fits by simp
  have same: "length (la_data (l_allocs l' ! k)) = length (la_data (l_allocs l ! k))" "la_start (l_allocs l' ! k) = la_start (l_allocs l ! k)"
    "la_end (l_allocs l' ! k) = la_end (l_allocs l ! k)" for k
    using len il(1) by (cases "k = i"; simp add: l')+
  have "alloc_ok ?a'" using a len by (simp add: alloc_ok_def) (metis length_0_conv length_greater_0_conv)
  then have "\<forall>a \<in> set (l_allocs l'). alloc_ok a" using ok unfolding loader_ok_def by (auto simp: l' dest!: set_update_subset_insert [THEN subsetD])
  then have ok': "loader_ok l'" using ok unfolding loader_ok_def same by (simp add: l')
  have byte_at': "byte_at l' x = (if addr \<le> x \<and> x < addr + length src then Some (src ! (x - addr)) else byte_at l x)" for x
  proof (cases "covers ?a x")
    case True
    have "byte_at l' x = Some (blit (la_data ?a) (addr - la_start ?a) src ! (x - la_start ?a))"
      using byte_at_covers [OF ok', of i x] True il(1) by (simp add: l' covers_def)
    moreover have "x - la_start ?a < length (la_data ?a)" using True a by (auto simp: covers_def alloc_ok_def)
    ultimately show ?thesis using fits True il(2) byte_at_covers [OF ok il(1) True] by (auto simp: nth_blit covers_def)
  next
    case False
    then have out: "\<not> (addr \<le> x \<and> x < addr + length src)" using il(2) le by (auto simp: covers_def)
    show ?thesis
    proof (cases "l_pt l (x div 4096)")
      case (Some pte)
      have pte: "x div 4096 = la_start (l_allocs l ! pe_alloc pte) div 4096 + pe_page pte" "pe_page pte * 4096 < length (la_data (l_allocs l ! pe_alloc pte))"
        using ok Some unfolding loader_ok_def by blast+
      have "pe_alloc pte \<noteq> i"
      proof
        assume i: "pe_alloc pte = i"
        obtain s n where sn: "la_start ?a = s * 4096" "length (la_data ?a) = n * 4096"
          using a by (auto simp: alloc_ok_def mod_eq_0_iff_dvd dvd_def mult.commute)
        have x: "x div 4096 = s + pe_page pte" and "pe_page pte < n" using pte i sn by simp_all
        then have "s \<le> x div 4096" "x div 4096 < s + n" by simp_all
        then have "s * 4096 \<le> x" "x < (s + n) * 4096" by (simp_all add: less_eq_div_iff_mult_less_eq div_less_iff_less_mult)
        then show False using False a sn by (simp add: covers_def alloc_ok_def)
      qed
      then show ?thesis using Some out by (auto simp: byte_at_def l')
    qed (use out in \<open>simp add: byte_at_def l'\<close>)
  qed
  have "map la_start (l_allocs l') = map la_start (l_allocs l)" "map la_end (l_allocs l') = map la_end (l_allocs l)"
    using same by (auto simp: list_eq_iff_nth_eq l')
  then show ?thesis using ok' byte_at' le il by (auto simp: l')
qed

section \<open>Mapping\<close>

lemma map_pages_ok:
  assumes "for_n (map_page a w u first) 0 n l = Inr l'" "first + n < W32"
  shows "l' = l\<lparr>l_pt := (\<lambda>p. if first \<le> p \<and> p < first + n then Some \<lparr>pe_alloc = a, pe_page = p - first, pe_write = w, pe_user = u\<rparr> else l_pt l p)\<rparr> \<and>
    (\<forall>i < n. l_pt l (first + i) = None \<and> first + i < NUM_PAGES)"
proof -
  let ?pt = "\<lambda>j p. if first \<le> p \<and> p < first + j then Some \<lparr>pe_alloc = a, pe_page = p - first, pe_write = w, pe_user = u\<rparr> else l_pt l p"
  have "(\<lambda>j l1. l1 = l\<lparr>l_pt := ?pt j\<rparr> \<and> (\<forall>i < j. l_pt l (first + i) = None \<and> first + i < NUM_PAGES)) (0 + n) l'"
  proof (rule for_n_invariant [OF assms(1)])
    show "l = l\<lparr>l_pt := ?pt 0\<rparr> \<and> (\<forall>i < 0. l_pt l (first + i) = None \<and> first + i < NUM_PAGES)"
    proof -
      have "?pt 0 = l_pt l" by (auto simp: fun_eq_iff)
      then show ?thesis by simp
    qed
  next
    fix j l1 l2
    assume j: "j < 0 + n" and P: "l1 = l\<lparr>l_pt := ?pt j\<rparr> \<and> (\<forall>i < j. l_pt l (first + i) = None \<and> first + i < NUM_PAGES)" and s: "map_page a w u first j l1 = Inr l2"
    have p: "add32 first j = first + j" using assms(2) j by (simp add: add32_eq)
    have l1: "l1 = l\<lparr>l_pt := ?pt j\<rparr>" using P by simp
    have "first + j < NUM_PAGES" "l_pt l (first + j) = None"
      "l2 = l1\<lparr>l_pt := (l_pt l1)(first + j \<mapsto> \<lparr>pe_alloc = a, pe_page = j, pe_write = w, pe_user = u\<rparr>)\<rparr>"
      using s p by (auto simp: map_page_def Let_def l1 split: if_splits)
    moreover have "(?pt j)(first + j \<mapsto> \<lparr>pe_alloc = a, pe_page = j, pe_write = w, pe_user = u\<rparr>) = ?pt (Suc j)" by (auto simp: fun_eq_iff)
    ultimately show "l2 = l\<lparr>l_pt := ?pt (Suc j)\<rparr> \<and> (\<forall>i < Suc j. l_pt l (first + i) = None \<and> first + i < NUM_PAGES)"
      using P by (simp add: less_Suc_eq)
  qed
  then show ?thesis by simp
qed

lemma add_alloc_ok:
  assumes ok: "loader_ok l" and add: "add_alloc grant junk first n w u l = Inr l'" and lt: "first < 2 ^ 20" "n < 2 ^ 20"
  shows "loader_ok l'" "l_pages l' = l_pages l" "l_deps l' = l_deps l"
    "\<exists>a. l_allocs l' = l_allocs l @ [a] \<and> la_start a = first * 4096 \<and> la_end a = (first + n) * 4096"
    "\<forall>i < n. l_pt l (first + i) = None \<and> first + i < NUM_PAGES" "\<forall>p. l_pt l p \<noteq> None \<longrightarrow> l_pt l' p = l_pt l p"
    "\<forall>i < n. \<exists>pte. l_pt l' (first + i) = Some pte \<and> pe_write pte = w \<and> pe_user pte = u" "\<forall>x. byte_at l x \<noteq> None \<longrightarrow> byte_at l' x = byte_at l x"
proof -
  let ?k = "length (l_allocs l)"
  let ?a = "\<lparr>la_start = mul32 first 4096, la_end = add32 (mul32 first 4096) (mul32 n 4096), la_write = w, la_user = u, la_data = replicate (n * 4096) junk\<rparr>"
  from add obtain l1 where l1: "for_n (map_page ?k w u first) 0 n l = Inr l1" "l' = l1\<lparr>l_allocs := l_allocs l1 @ [?a]\<rparr>"
    by (auto simp: add_alloc_def res_elims Let_def split: if_splits)
  have lt': "first + n < W32" using lt by simp
  note pt = map_pages_ok [OF l1(1) lt']
  then have l': "l' = l\<lparr>l_allocs := l_allocs l @ [?a], l_pt := (\<lambda>p. if first \<le> p \<and> p < first + n
      then Some \<lparr>pe_alloc = ?k, pe_page = p - first, pe_write = w, pe_user = u\<rparr> else l_pt l p)\<rparr>" using l1(2) by simp
  have pages: "\<forall>i < n. l_pt l (first + i) = None \<and> first + i < NUM_PAGES" using pt by simp
  have top: "first + n \<le> NUM_PAGES" if "n \<noteq> 0" using pages that by (metis Suc_pred add_Suc_right lessI not_gr_zero Suc_leI)
  have start: "mul32 first 4096 = first * 4096" using lt by (simp add: mul32_eq)
  have "mul32 n 4096 = n * 4096" using lt by (simp add: mul32_eq)
  moreover have "first * 4096 + n * 4096 < W32" using top lt by (cases "n = 0") auto
  ultimately have fin: "add32 (mul32 first 4096) (mul32 n 4096) = (first + n) * 4096" using start by (simp add: add32_eq)
  have aok: "alloc_ok ?a" using start fin top by (auto simp: alloc_ok_def)
  show "l_pages l' = l_pages l" "l_deps l' = l_deps l" by (simp_all add: l')
  show "\<exists>a. l_allocs l' = l_allocs l @ [a] \<and> la_start a = first * 4096 \<and> la_end a = (first + n) * 4096" using start fin by (simp add: l')
  show "\<forall>i < n. l_pt l (first + i) = None \<and> first + i < NUM_PAGES" by (rule pages)
  have old: "l_pt l' p = l_pt l p" if "l_pt l p \<noteq> None" for p
  proof -
    have "\<not> (first \<le> p \<and> p < first + n)" using pages that by (metis add_diff_inverse_nat less_diff_conv2 not_less add.commute)
    then show ?thesis by (auto simp: l')
  qed
  then show "\<forall>p. l_pt l p \<noteq> None \<longrightarrow> l_pt l' p = l_pt l p" by blast
  show "\<forall>i < n. \<exists>pte. l_pt l' (first + i) = Some pte \<and> pe_write pte = w \<and> pe_user pte = u" by (simp add: l')
  have lower: "pe_alloc pte < ?k" if "l_pt l p = Some pte" for p pte using ok that by (auto simp: loader_ok_def)
  show "\<forall>x. byte_at l x \<noteq> None \<longrightarrow> byte_at l' x = byte_at l x"
  proof (intro allI impI)
    fix x assume "byte_at l x \<noteq> None"
    then obtain pte where pte: "l_pt l (x div 4096) = Some pte" by (auto simp: byte_at_def)
    then have "l_pt l' (x div 4096) = Some pte" using old by simp
    then show "byte_at l' x = byte_at l x" using pte lower [OF pte] by (simp add: byte_at_def l' nth_append)
  qed
  show "loader_ok l'" unfolding loader_ok_def
  proof (intro conjI)
    show "\<forall>a \<in> set (l_allocs l'). alloc_ok a" using ok aok by (auto simp: l' loader_ok_def)
  next
    show "\<forall>p pte. l_pt l' p = Some pte \<longrightarrow> pe_alloc pte < length (l_allocs l') \<and> p = la_start (l_allocs l' ! pe_alloc pte) div 4096 + pe_page pte \<and>
        pe_page pte * 4096 < length (la_data (l_allocs l' ! pe_alloc pte))"
    proof (intro allI impI)
      fix p pte assume p: "l_pt l' p = Some pte"
      show "pe_alloc pte < length (l_allocs l') \<and> p = la_start (l_allocs l' ! pe_alloc pte) div 4096 + pe_page pte \<and>
        pe_page pte * 4096 < length (la_data (l_allocs l' ! pe_alloc pte))"
      proof (cases "first \<le> p \<and> p < first + n")
        case True
        then show ?thesis using p start by (auto simp: l')
      next
        case False
        then have q: "l_pt l p = Some pte" using p by (simp add: l' split: if_splits)
        then have "p = la_start (l_allocs l ! pe_alloc pte) div 4096 + pe_page pte" "pe_page pte * 4096 < length (la_data (l_allocs l ! pe_alloc pte))"
          using ok unfolding loader_ok_def by blast+
        then show ?thesis using lower [OF q] by (simp add: l' nth_append)
      qed
    qed
  next
    show "\<forall>i < length (l_allocs l'). \<forall>j. j * 4096 < length (la_data (l_allocs l' ! i)) \<longrightarrow>
       (\<exists>pte. l_pt l' (la_start (l_allocs l' ! i) div 4096 + j) = Some pte \<and> pe_alloc pte = i \<and> pe_page pte = j)"
    proof (intro allI impI)
      fix i j assume i: "i < length (l_allocs l')" "j * 4096 < length (la_data (l_allocs l' ! i))"
      show "\<exists>pte. l_pt l' (la_start (l_allocs l' ! i) div 4096 + j) = Some pte \<and> pe_alloc pte = i \<and> pe_page pte = j"
      proof (cases "i < ?k")
        case True
        then obtain pte where "l_pt l (la_start (l_allocs l ! i) div 4096 + j) = Some pte" "pe_alloc pte = i" "pe_page pte = j"
          using i(2) ok unfolding loader_ok_def by (simp add: l' nth_append) blast
        then show ?thesis using True old by (force simp: l' nth_append)
      next
        case False
        then have "i = ?k" using i by (simp add: l')
        then show ?thesis using i start by (simp add: l')
      qed
    qed
  qed
qed

section \<open>Segments\<close>

definition seg :: "bytes \<Rightarrow> ehdr \<Rightarrow> nat \<Rightarrow> phdr \<Rightarrow> bool" where
  "seg b e k h \<longleftrightarrow> prog_hdr b e k = Inr h \<and> ph_type h = 1"

definition seg_page :: "nat \<Rightarrow> phdr \<Rightarrow> nat" where
  "seg_page addr h = add32 addr (ph_vaddr h) div 4096"

definition in_seg :: "nat \<Rightarrow> phdr \<Rightarrow> nat \<Rightarrow> bool" where
  "in_seg addr h x \<longleftrightarrow> seg_page addr h \<le> x div 4096 \<and> x div 4096 < seg_page addr h + segment_pages h"

definition seg_mapped :: "nat \<Rightarrow> phdr \<Rightarrow> loader \<Rightarrow> bool" where
  "seg_mapped addr h l \<longleftrightarrow> (\<exists>a \<in> set (l_allocs l). la_start a = seg_page addr h * 4096 \<and> la_end a = (seg_page addr h + segment_pages h) * 4096) \<and>
     (\<forall>i < segment_pages h. \<exists>pte. l_pt l (seg_page addr h + i) = Some pte \<and> pe_write pte = (ph_flags h div 2 mod 2 = 1) \<and> pe_user pte)"

definition mapped_upto :: "bytes \<Rightarrow> ehdr \<Rightarrow> nat \<Rightarrow> loader \<Rightarrow> nat \<Rightarrow> loader \<Rightarrow> bool" where
  "mapped_upto b e addr l0 j l \<longleftrightarrow> loader_ok l \<and> (\<forall>x. byte_at l0 x \<noteq> None \<longrightarrow> byte_at l x = byte_at l0 x) \<and>
     (\<forall>p. l_pt l0 p \<noteq> None \<longrightarrow> l_pt l p = l_pt l0 p) \<and>
     (\<forall>k h. k < j \<longrightarrow> seg b e k h \<longrightarrow> seg_mapped addr h l \<and> (\<forall>x. in_seg addr h x \<longrightarrow> byte_at l0 x = None)) \<and>
     (\<forall>k h k' h'. k < j \<longrightarrow> k' < j \<longrightarrow> k \<noteq> k' \<longrightarrow> seg b e k h \<longrightarrow> seg b e k' h' \<longrightarrow> (\<forall>x. \<not> (in_seg addr h x \<and> in_seg addr h' x)))"

lemma seg_page_small: "seg_page addr h < 2 ^ 20" "segment_pages h < 2 ^ 20"
proof -
  have "add32 u v div 4096 < 2 ^ 20" for u v by (simp add: add32_def less_mult_imp_div_less)
  then show "seg_page addr h < 2 ^ 20" "segment_pages h < 2 ^ 20" by (simp_all add: seg_page_def segment_pages_def)
qed

lemma seg_det: "seg b e k h \<Longrightarrow> seg b e k h' \<Longrightarrow> h' = h"
  by (simp add: seg_def)

lemma in_segE:
  assumes "in_seg addr h x"
  obtains i where "i < segment_pages h" "x div 4096 = seg_page addr h + i"
  using assms that [of "x div 4096 - seg_page addr h"] by (auto simp: in_seg_def)

lemma seg_mapped_pte: "seg_mapped addr h l \<Longrightarrow> in_seg addr h x \<Longrightarrow> l_pt l (x div 4096) \<noteq> None"
  by (auto simp: seg_mapped_def elim!: in_segE)

lemma byte_at_None: "byte_at l x = None \<longleftrightarrow> l_pt l (x div 4096) = None"
  by (simp add: byte_at_def)

lemma map_segment_ok:
  assumes M: "mapped_upto b e addr l0 j l" and s: "map_segment grant junk b e addr j l = Inr l'"
  shows "mapped_upto b e addr l0 (Suc j) l'"
proof (cases "\<exists>h. seg b e j h")
  case False
  then have "l' = l" using s by (auto simp: map_segment_def seg_def res_elims split: if_splits)
  moreover have "k < j" if "k < Suc j" "seg b e k h" for k h using that False by (metis less_Suc_eq)
  ultimately show ?thesis using M unfolding mapped_upto_def by blast
next
  case True
  then obtain h where h: "seg b e j h" by blast
  then have a: "add_alloc grant junk (seg_page addr h) (segment_pages h) (ph_flags h div 2 mod 2 = 1) True l = Inr l'"
    using s by (simp add: map_segment_def seg_def seg_page_def)
  have ok: "loader_ok l" and keep0: "\<And>x. byte_at l0 x \<noteq> None \<Longrightarrow> byte_at l x = byte_at l0 x" and pt0: "\<And>p. l_pt l0 p \<noteq> None \<Longrightarrow> l_pt l p = l_pt l0 p"
    and old: "\<And>k g. k < j \<Longrightarrow> seg b e k g \<Longrightarrow> seg_mapped addr g l"
    using M by (auto simp: mapped_upto_def)
  note add = add_alloc_ok [OF ok a seg_page_small]
  have new: "l_pt l (x div 4096) = None" if "in_seg addr h x" for x using add(5) that by (auto elim!: in_segE)
  have cases: "k < j \<or> k = j \<and> g = h" if "k < Suc j" "seg b e k g" for k g using that h seg_det by (metis less_Suc_eq)
  have "seg_mapped addr h l'" using add(4,7) by (auto simp: seg_mapped_def)
  moreover have "seg_mapped addr g l'" if "k < j" "seg b e k g" for k g
    using old [OF that] add(4,6) unfolding seg_mapped_def by (metis UnCI option.distinct(1) set_append)
  ultimately have m: "seg_mapped addr g l'" if "k < Suc j" "seg b e k g" for k g using cases [OF that] that(2) by blast
  have "byte_at l0 x = None" if "in_seg addr h x" for x using new [OF that] pt0 by (metis byte_at_None)
  moreover have "byte_at l0 x = None" if "k < j" "seg b e k g" "in_seg addr g x" for k g x using M that unfolding mapped_upto_def by blast
  ultimately have f: "byte_at l0 x = None" if "k < Suc j" "seg b e k g" "in_seg addr g x" for k g x using cases [OF that(1,2)] that(2,3) by blast
  have n: "\<not> (in_seg addr h x \<and> in_seg addr g x)" if "k < j" "seg b e k g" for k g x
    using new seg_mapped_pte [OF old [OF that]] by blast
  have o: "\<not> (in_seg addr g x \<and> in_seg addr g' x)" if "k < j" "k' < j" "k \<noteq> k'" "seg b e k g" "seg b e k' g'" for k g k' g' x
    using M that unfolding mapped_upto_def by blast
  have d: "\<not> (in_seg addr g x \<and> in_seg addr g' x)" if k: "k < Suc j" "k' < Suc j" "k \<noteq> k'" and g: "seg b e k g" "seg b e k' g'" for k g k' g' x
    using cases [OF k(1) g(1)] cases [OF k(2) g(2)] k(3) n [OF _ g(1)] n [OF _ g(2)] o [OF _ _ k(3) g] by blast
  have "byte_at l' x = byte_at l0 x" if "byte_at l0 x \<noteq> None" for x using add(8) keep0 [OF that] that by metis
  moreover have "l_pt l' p = l_pt l0 p" if "l_pt l0 p \<noteq> None" for p using add(6) pt0 [OF that] that by metis
  ultimately show ?thesis unfolding mapped_upto_def using add(1) m f d by (intro conjI allI impI) auto
qed

section \<open>Copying\<close>

text \<open>The ranges of the allocations do not change while contents are written.\<close>

definition same_ranges :: "loader \<Rightarrow> loader \<Rightarrow> bool" where
  "same_ranges l l' \<longleftrightarrow> map la_start (l_allocs l') = map la_start (l_allocs l) \<and> map la_end (l_allocs l') = map la_end (l_allocs l) \<and> l_pt l' = l_pt l"

lemma same_ranges_trans: "same_ranges l l1 \<Longrightarrow> same_ranges l1 l2 \<Longrightarrow> same_ranges l l2"
  by (simp add: same_ranges_def)

lemma same_ranges_nth:
  assumes "same_ranges l l'" "i < length (l_allocs l)"
  shows "i < length (l_allocs l')" "la_start (l_allocs l' ! i) = la_start (l_allocs l ! i)" "la_end (l_allocs l' ! i) = la_end (l_allocs l ! i)"
proof -
  have len: "length (l_allocs l') = length (l_allocs l)" using assms(1) unfolding same_ranges_def by (metis length_map)
  then show "i < length (l_allocs l')" using assms(2) by simp
  show "la_start (l_allocs l' ! i) = la_start (l_allocs l ! i)" "la_end (l_allocs l' ! i) = la_end (l_allocs l ! i)"
    using assms len unfolding same_ranges_def by (metis nth_map)+
qed

lemma same_ranges_sym: "same_ranges l l' \<Longrightarrow> same_ranges l' l"
  by (simp add: same_ranges_def)

lemma same_ranges_ex:
  assumes "same_ranges l l'" "\<exists>a \<in> set (l_allocs l). P (la_start a) (la_end a)"
  shows "\<exists>a \<in> set (l_allocs l'). P (la_start a) (la_end a)"
  using assms(2) same_ranges_nth [OF assms(1)] by (metis in_set_conv_nth)

lemma covers_end_unique:
  assumes ok: "loader_ok l" and a: "\<exists>a \<in> set (l_allocs l). covers a x \<and> y < la_end a" and c: "c \<in> set (l_allocs l)" "covers c x"
  shows "y < la_end c"
  using assms covers_unique [OF ok] by (metis in_set_conv_nth)

lemma lptr_write:
  assumes ok: "loader_ok l" and cp: "lptr_memcpy addr src l = Inr l'"
  shows "loader_ok l'" "same_ranges l l'" "byte_at l' x = (if addr \<le> x \<and> x < addr + length src then Some (src ! (x - addr)) else byte_at l x)"
    "\<exists>a \<in> set (l_allocs l). covers a addr \<and> addr + length src < la_end a"
  using memcpy_byte [OF assms] by (simp_all add: same_ranges_def)

lemma load_segment_byte:
  assumes ok: "loader_ok l" and h: "seg b e k h" and ld: "load_segment b e addr k l = Inr l'" and sz: "ph_filesz h \<le> ph_memsz h"
  defines "A \<equiv> add32 addr (ph_vaddr h)"
  shows "loader_ok l'" "same_ranges l l'"
    "byte_at l' x = (if A \<le> x \<and> x < A + ph_memsz h then Some (if x < A + ph_filesz h then b ! (ph_offset h + (x - A)) else 0) else byte_at l x)"
    "\<exists>a \<in> set (l_allocs l). covers a A \<and> A + ph_memsz h < la_end a"
proof -
  let ?src = "take (ph_filesz h) (drop (ph_offset h) b)"
  from h ld obtain l1 where len: "ph_offset h + ph_filesz h \<le> length b" and l1: "lptr_memcpy A ?src l = Inr l1"
    and l2: "if ph_filesz h < ph_memsz h then lptr_memset (add32 addr (add32 (ph_vaddr h) (ph_filesz h))) 0 (ph_memsz h - ph_filesz h) l1 = Inr l' else l' = l1"
    by (auto simp: seg_def load_segment_def A_def res_elims split: if_splits)
  have srcl: "length ?src = ph_filesz h" using len by simp
  note w1 = lptr_write [OF ok l1, unfolded srcl]
  obtain a where a: "a \<in> set (l_allocs l)" "covers a A" "A + ph_filesz h < la_end a" using w1(4) by blast
  have p1: "byte_at l1 x = (if A \<le> x \<and> x < A + ph_filesz h then Some (b ! (ph_offset h + (x - A))) else byte_at l x)" for x using w1(3) len by auto
  have "loader_ok l' \<and> same_ranges l l' \<and>
    (\<forall>x. byte_at l' x = (if A \<le> x \<and> x < A + ph_memsz h then Some (if x < A + ph_filesz h then b ! (ph_offset h + (x - A)) else 0) else byte_at l x)) \<and>
    (\<exists>a \<in> set (l_allocs l). covers a A \<and> A + ph_memsz h < la_end a)"
  proof (cases "ph_filesz h < ph_memsz h")
    case False
    then have "ph_filesz h = ph_memsz h" "l' = l1" using sz l2 by simp_all
    then show ?thesis using w1(1,2) p1 a by auto
  next
    case True
    have aok: "alloc_ok a" using ok a(1) by (simp add: loader_ok_def)
    moreover have "la_data a \<noteq> []" using aok a(2) by (auto simp: alloc_ok_def covers_def)
    ultimately have "A + ph_filesz h < W32" using a(3) by (simp add: alloc_ok_def)
    then have adr: "add32 addr (add32 (ph_vaddr h) (ph_filesz h)) = A + ph_filesz h" unfolding A_def by (simp add: add32_def mod_add_right_eq mod_add_left_eq add.assoc) (metis add.assoc mod_add_left_eq mod_less)
    have "lptr_memcpy (A + ph_filesz h) (replicate (ph_memsz h - ph_filesz h) 0) l1 = Inr l'" using l2 True adr by (simp add: lptr_memset_def)
    note w2 = lptr_write [OF w1(1) this, simplified]
    have "\<exists>c \<in> set (l_allocs l). covers c (A + ph_filesz h) \<and> A + ph_memsz h < la_end c"
      using same_ranges_ex [OF same_ranges_sym [OF w1(2)], of "\<lambda>s e. s \<le> A + ph_filesz h \<and> A + ph_filesz h < e \<and> A + ph_memsz h < e"] w2(4) True
      unfolding covers_def by auto
    then have "A + ph_memsz h < la_end a" by (rule covers_end_unique [OF ok _ a(1)]) (use a in \<open>auto simp: covers_def\<close>)
    then show ?thesis using w2(1) same_ranges_trans [OF w1(2) w2(2)] a(1,2) w2(3) p1 True by auto
  qed
  then show "loader_ok l'" "same_ranges l l'"
    "byte_at l' x = (if A \<le> x \<and> x < A + ph_memsz h then Some (if x < A + ph_filesz h then b ! (ph_offset h + (x - A)) else 0) else byte_at l x)"
    "\<exists>a \<in> set (l_allocs l). covers a A \<and> A + ph_memsz h < la_end a" by blast+
qed

definition seg_content :: "bytes \<Rightarrow> nat \<Rightarrow> phdr \<Rightarrow> loader \<Rightarrow> bool" where
  "seg_content b addr h l \<longleftrightarrow> (\<forall>i < ph_memsz h. let x = add32 addr (ph_vaddr h) + i in
     byte_at l x = Some (if i < ph_filesz h then b ! (ph_offset h + i) else 0) \<and>
     (\<exists>pte. l_pt l (x div 4096) = Some pte \<and> pe_user pte \<and> pe_write pte = (ph_flags h div 2 mod 2 = 1)))"

definition loaded_upto :: "bytes \<Rightarrow> ehdr \<Rightarrow> nat \<Rightarrow> loader \<Rightarrow> loader \<Rightarrow> nat \<Rightarrow> loader \<Rightarrow> bool" where
  "loaded_upto b e addr l0 lm j l \<longleftrightarrow> loader_ok l \<and> same_ranges lm l \<and> (\<forall>x. byte_at l0 x \<noteq> None \<longrightarrow> byte_at l x = byte_at l0 x) \<and>
     (\<forall>k h. k < j \<longrightarrow> seg b e k h \<longrightarrow> seg_content b addr h l \<and> (\<forall>i < ph_memsz h. in_seg addr h (add32 addr (ph_vaddr h) + i)))"

lemma in_seg_range:
  assumes ok: "loader_ok l" and m: "seg_mapped addr h l" and c: "\<exists>a \<in> set (l_allocs l). covers a (add32 addr (ph_vaddr h)) \<and> add32 addr (ph_vaddr h) + ph_memsz h < la_end a"
    and i: "i < ph_memsz h"
  shows "in_seg addr h (add32 addr (ph_vaddr h) + i)"
proof -
  let ?A = "add32 addr (ph_vaddr h)"
  obtain a where a: "a \<in> set (l_allocs l)" "covers a ?A" "?A + ph_memsz h < la_end a" using c by blast
  then have "alloc_ok a" "la_data a \<noteq> []" using ok by (auto simp: loader_ok_def alloc_ok_def covers_def)
  then have "ph_memsz h + 4095 < W32" using a(3) by (simp add: alloc_ok_def)
  then have n: "0 < segment_pages h" using i by (simp add: segment_pages_def add32_eq div_greater_zero_iff)
  obtain s where s: "s \<in> set (l_allocs l)" "la_start s = seg_page addr h * 4096" "la_end s = (seg_page addr h + segment_pages h) * 4096"
    using m by (auto simp: seg_mapped_def)
  have "covers s ?A" using s n div_mult_mod_eq [of ?A 4096] mod_less_divisor [of 4096 ?A] by (simp add: covers_def seg_page_def)
  then have "?A + ph_memsz h < la_end s" using covers_end_unique [OF ok c s(1)] by simp
  then have "?A + i < (seg_page addr h + segment_pages h) * 4096" using i s(3) by simp
  moreover have "seg_page addr h \<le> (?A + i) div 4096" by (simp add: seg_page_def div_le_mono)
  ultimately show ?thesis by (simp add: in_seg_def less_mult_imp_div_less)
qed

lemma seg_mapped_ranges: "same_ranges lm l \<Longrightarrow> seg_mapped addr h lm \<Longrightarrow> seg_mapped addr h l"
  unfolding seg_mapped_def using same_ranges_ex [of lm l "\<lambda>s e. s = seg_page addr h * 4096 \<and> e = (seg_page addr h + segment_pages h) * 4096"]
  by (auto simp: same_ranges_def)

lemma seg_mapped_write: "seg_mapped addr h l \<Longrightarrow> in_seg addr h x \<Longrightarrow>
    \<exists>pte. l_pt l (x div 4096) = Some pte \<and> pe_user pte \<and> pe_write pte = (ph_flags h div 2 mod 2 = 1)"
  by (auto simp: seg_mapped_def elim!: in_segE)

lemma load_step_ok:
  assumes M: "mapped_upto b e addr l0 n lm" and j: "j < n" and L: "loaded_upto b e addr l0 lm j l" and s: "load_segment b e addr j l = Inr l'"
    and sz: "\<And>h. seg b e j h \<Longrightarrow> ph_filesz h \<le> ph_memsz h"
  shows "loaded_upto b e addr l0 lm (Suc j) l'"
proof (cases "\<exists>h. seg b e j h")
  case False
  then have "l' = l" using s by (auto simp: load_segment_def seg_def res_elims split: if_splits)
  moreover have "k < j" if "k < Suc j" "seg b e k h" for k h using that False by (metis less_Suc_eq)
  ultimately show ?thesis using L unfolding loaded_upto_def by blast
next
  case True
  then obtain h where h: "seg b e j h" by blast
  let ?A = "add32 addr (ph_vaddr h)"
  have ok: "loader_ok l" and sr: "same_ranges lm l" and keep: "\<And>x. byte_at l0 x \<noteq> None \<Longrightarrow> byte_at l x = byte_at l0 x"
    and old: "\<And>k g. k < j \<Longrightarrow> seg b e k g \<Longrightarrow> seg_content b addr g l"
    and range: "\<And>k g i. k < j \<Longrightarrow> seg b e k g \<Longrightarrow> i < ph_memsz g \<Longrightarrow> in_seg addr g (add32 addr (ph_vaddr g) + i)"
    using L unfolding loaded_upto_def by blast+
  have map: "seg_mapped addr h l" and free: "\<And>x. in_seg addr h x \<Longrightarrow> byte_at l0 x = None"
    using M j h seg_mapped_ranges [OF sr] unfolding mapped_upto_def by blast+
  note ld = load_segment_byte [OF ok h s sz [OF h]]
  have inh: "in_seg addr h (?A + i)" if "i < ph_memsz h" for i by (rule in_seg_range [OF ok map ld(4) that])
  then have inh': "in_seg addr h x" if "?A \<le> x" "x < ?A + ph_memsz h" for x using that inh [of "x - ?A"] by simp
  have pt: "l_pt l' = l_pt l" using ld(2) by (simp add: same_ranges_def)
  have "seg_content b addr h l'" unfolding seg_content_def Let_def
    using ld(3) seg_mapped_write [OF map inh] pt by auto
  moreover have "seg_content b addr g l'" if k: "k < j" "seg b e k g" for k g
  proof -
    have "byte_at l' x = byte_at l x" if "in_seg addr g x" for x
    proof -
      have "\<not> (in_seg addr h x \<and> in_seg addr g x)" using M j h k unfolding mapped_upto_def by (metis less_trans order_less_irrefl)
      then show ?thesis using that inh' ld(3) by auto
    qed
    then show ?thesis using old [OF k] range [OF k] pt by (simp add: seg_content_def Let_def)
  qed
  ultimately have all: "seg_content b addr g l'" if "k < Suc j" "seg b e k g" for k g using that h seg_det by (metis less_Suc_eq)
  have rng: "in_seg addr g (add32 addr (ph_vaddr g) + i)" if "k < Suc j" "seg b e k g" "i < ph_memsz g" for k g i
    using that h seg_det inh range by (metis less_Suc_eq)
  have "byte_at l' x = byte_at l0 x" if "byte_at l0 x \<noteq> None" for x using keep [OF that] free inh' that ld(3) by metis
  then show ?thesis unfolding loaded_upto_def using ld(1) same_ranges_trans [OF sr ld(2)] all rng by blast
qed

lemma loader_ok_fields [simp]:
  "loader_ok (l\<lparr>l_deps := d\<rparr>) = loader_ok l" "byte_at (l\<lparr>l_deps := d\<rparr>) = byte_at l" "loader_ok (l\<lparr>l_pages := n\<rparr>) = loader_ok l" "byte_at (l\<lparr>l_pages := n\<rparr>) = byte_at l"
  by (simp_all add: loader_ok_def byte_at_def fun_eq_iff)

lemma map_elf_ok:
  assumes "loader_ok l" "map_elf grant junk b e addr (l\<lparr>l_deps := d\<rparr>) = Inr l'"
  shows "mapped_upto b e addr l (e_phnum e) l'"
proof -
  from assms(2) obtain l1 n where l1: "for_n (map_segment grant junk b e addr) 0 (e_phnum e) (l\<lparr>l_deps := d\<rparr>) = Inr l1" "l' = l1\<lparr>l_pages := n\<rparr>"
    by (auto simp: map_elf_def res_elims)
  have "mapped_upto b e addr (l\<lparr>l_deps := d\<rparr>) (0 + e_phnum e) l1"
    by (rule for_n_invariant [OF l1(1), where P = "mapped_upto b e addr (l\<lparr>l_deps := d\<rparr>)"])
      (use assms(1) map_segment_ok in \<open>auto simp: mapped_upto_def [of _ _ _ _ 0]\<close>)
  then show ?thesis by (simp add: l1(2) mapped_upto_def seg_mapped_def)
qed

lemma load_code_ok:
  assumes "mapped_upto b e addr l0 (e_phnum e) lm" "load_elf_code b e addr lm = Inr l'"
    and sz: "\<forall>k < e_phnum e. \<forall>h. seg b e k h \<longrightarrow> ph_filesz h \<le> ph_memsz h"
  shows "loaded_upto b e addr l0 lm (e_phnum e) l'"
proof -
  have "loaded_upto b e addr l0 lm (0 + e_phnum e) l'"
  proof (rule for_n_invariant [OF assms(2) [unfolded load_elf_code_def]])
    show "loaded_upto b e addr l0 lm 0 lm" using assms(1) by (simp add: loaded_upto_def mapped_upto_def same_ranges_def)
  next
    fix j l l1
    assume "j < 0 + e_phnum e" "loaded_upto b e addr l0 lm j l" "load_segment b e addr j l = Inr l1"
    then show "loaded_upto b e addr l0 lm (Suc j) l1" using load_step_ok [OF assms(1)] sz by simp
  qed
  then show ?thesis by simp
qed

text \<open>
  C15. A program that was loaded is in memory as its file has it: every byte of every loadable segment shows the byte of the file, the part of the segment behind
  the file's bytes is zero, its pages belong to the user and are writable exactly if the segment's flags say so; and what was in memory before, such as
  the program whose interpreter is loaded, has not changed. Segments are as the format demands: not larger in the file than in memory.
\<close>

theorem program_loaded:
  assumes ok: "loader_ok l" and ld: "load_buf grant junk exists b t l = Inr (Some m, l')"
    and sz: "\<forall>k < e_phnum (global_hdr m). \<forall>h. prog_hdr b (global_hdr m) k = Inr h \<and> ph_type h = 1 \<longrightarrow> ph_filesz h \<le> ph_memsz h"
  shows "loader_ok l' \<and> (\<forall>x. byte_at l x \<noteq> None \<longrightarrow> byte_at l' x = byte_at l x) \<and>
    (\<forall>k < e_phnum (global_hdr m). \<forall>h. prog_hdr b (global_hdr m) k = Inr h \<and> ph_type h = 1 \<longrightarrow>
      (\<forall>i < ph_memsz h. let x = add32 (mul32 (l_pages l) 4096) (ph_vaddr h) + i in
        byte_at l' x = Some (if i < ph_filesz h then b ! (ph_offset h + i) else 0) \<and>
        (\<exists>pte. l_pt l' (x div 4096) = Some pte \<and> pe_user pte \<and> pe_write pte = (ph_flags h div 2 mod 2 = 1))))"
proof -
  let ?e = "global_hdr m" and ?addr = "mul32 (l_pages l) 4096"
  from ld obtain lm where lm: "map_elf grant junk b ?e ?addr (l\<lparr>l_deps := l_deps l @ [\<lparr>dep_elf = m, dep_addr = ?addr\<rparr>]\<rparr>) = Inr lm"
    and l': "load_elf_code b ?e ?addr lm = Inr l'"
    by (auto simp: load_buf_def res_elims Let_def split: option.splits)
  have "loaded_upto b ?e ?addr l lm (e_phnum ?e) l'" by (rule load_code_ok [OF map_elf_ok [OF ok lm] l']) (use sz in \<open>simp add: seg_def\<close>)
  then show ?thesis unfolding loaded_upto_def seg_content_def seg_def by blast
qed

text \<open>A program of one writable segment: three bytes of the file, and two more in memory.\<close>

definition tiny_elf :: bytes where
  "tiny_elf = [0x7F, 0x45, 0x4C, 0x46, 1, 1, 1] @ replicate 9 0 @ le_bytes 2 2 @ le_bytes 2 3 @ le_bytes 4 1 @ le_bytes 4 4100 @ le_bytes 4 52 @ le_bytes 4 84 @
     le_bytes 4 0 @ le_bytes 2 52 @ le_bytes 2 32 @ le_bytes 2 1 @ le_bytes 2 40 @ le_bytes 2 1 @ le_bytes 2 0 @
     concat (map (le_bytes 4) [1, 124, 4100, 4100, 3, 5, 6, 4096]) @ replicate 40 0 @ [0xAA, 0xBB, 0xCC]"

definition tiny_hdr :: ehdr where
  "tiny_hdr = \<lparr>e_ident = [0x7F, 0x45, 0x4C, 0x46, 1, 1, 1] @ replicate 9 0, e_type = 2, e_entry = 4100, e_phoff = 52, e_shoff = 84, e_phentsize = 32, e_phnum = 1,
     e_shentsize = 40, e_shnum = 1, e_shstrndx = 0\<rparr>"

definition tiny_obj :: elf where
  "tiny_obj = \<lparr>global_hdr = tiny_hdr, dyn_table = None, dynsym_hdr = None, symtab_hdr = None, interpreter_name = None, dynsym_strtab = 0, strtab = 0, shstrtab = 0,
     runtime_got_addr = None, hash_table_runtime_address = None\<rparr>"

definition no_memory :: loader where
  "no_memory = \<lparr>l_allocs = [], l_pt = (\<lambda>_. None), l_pages = 0, l_deps = []\<rparr>"

lemma tiny_prog: "prog_hdr tiny_elf tiny_hdr 0 = Inr \<lparr>ph_type = 1, ph_offset = 124, ph_vaddr = 4100, ph_filesz = 3, ph_memsz = 5, ph_flags = 6\<rparr>"
  by code_simp

lemma tiny_len: "length tiny_elf = 127"
  by (simp add: tiny_elf_def)

lemma le_bytes_2: "le_bytes 2 v = [word_of_nat v, word_of_nat (v div 256)]"
  by (simp only: numeral_2_eq_2 le_bytes.simps)

lemma le_bytes_4: "le_bytes 4 v = [word_of_nat v, word_of_nat (v div 256), word_of_nat (v div 256 div 256), word_of_nat (v div 256 div 256 div 256)]"
proof -
  have "(4 :: nat) = Suc (Suc (Suc (Suc 0)))" by simp
  then show ?thesis by (simp only: le_bytes.simps)
qed

lemma tiny_words: "le_val (take 2 (drop 16 tiny_elf)) = 2" "le_val (take 4 (drop 24 tiny_elf)) = 4100" "le_val (take 4 (drop 28 tiny_elf)) = 52"
  "le_val (take 4 (drop 32 tiny_elf)) = 84" "le_val (take 2 (drop 42 tiny_elf)) = 32" "le_val (take 2 (drop 44 tiny_elf)) = 1"
  "le_val (take 2 (drop 46 tiny_elf)) = 40" "le_val (take 2 (drop 48 tiny_elf)) = 1" "le_val (take 2 (drop 50 tiny_elf)) = 0"
  by (simp_all add: tiny_elf_def le_bytes_2 le_bytes_4)

lemma tiny_ehdr: "read_ehdr tiny_elf = Inr tiny_hdr"
proof -
  have "take 16 tiny_elf = [0x7F, 0x45, 0x4C, 0x46, 1, 1, 1] @ replicate 9 0" by (simp add: tiny_elf_def)
  then show ?thesis by (simp add: read_ehdr_def tiny_len tiny_words tiny_hdr_def)
qed

lemma tiny_section: "shdr_at tiny_elf 84 = Inr \<lparr>sh_type = 0, sh_offset = 0, sh_size = 0, sh_link = 0, sh_entsize = 0\<rparr>"
  by code_simp

lemma tiny_hdr_sel: "e_ident tiny_hdr = [0x7F, 0x45, 0x4C, 0x46, 1, 1, 1] @ replicate 9 0" "e_type tiny_hdr = 2" "e_shoff tiny_hdr = 84" "e_shentsize tiny_hdr = 40"
  "e_phnum tiny_hdr = Suc 0" "e_shnum tiny_hdr = Suc 0" "e_shstrndx tiny_hdr = 0"
  by (simp_all add: tiny_hdr_def)

lemma tiny_new: "new_ELF tiny_elf = Inr tiny_obj"
  by (simp add: new_ELF_def tiny_ehdr tiny_hdr_sel read_section_def section_hdr_def tiny_section tiny_prog tiny_obj_def)

lemma tiny_headers: "headers_ok tiny_elf Executable tiny_obj = Inr True"
  by (simp add: headers_ok_def tiny_obj_def tiny_hdr_sel section_hdr_def tiny_section tiny_prog type_code_def section_supported_def segment_supported_def)

lemma tiny_fields: "global_hdr tiny_obj = tiny_hdr" "e_phnum tiny_hdr = Suc 0" "interpreter_name tiny_obj = None"
  by (simp_all add: tiny_obj_def tiny_hdr_def)

lemma tiny_pages: "elf_num_pages tiny_elf tiny_hdr = Inr 2"
  by (simp add: elf_num_pages_def get_highest_runtime_addr_def highest_step_def tiny_prog tiny_fields add32_eq)

lemma tiny_valid: "is_valid (\<lambda>_. False) tiny_elf Executable = Inr (Some tiny_obj)"
  by (simp add: is_valid_def tiny_new tiny_headers tiny_fields tiny_pages tiny_prog segment_pages_def add32_eq base_address_def base_step_def interpreter_ok_def numeral_2_eq_2)

lemma tiny_loads: "\<exists>l'. load_buf (\<lambda>_. True) 0xCC (\<lambda>_. False) tiny_elf Executable no_memory = Inr (Some tiny_obj, l')"
  by (simp add: load_buf_def tiny_valid no_memory_def tiny_fields map_elf_def map_segment_def tiny_prog tiny_pages add_alloc_def segment_pages_def add32_eq mul32_eq
      map_page_def load_elf_code_def load_segment_def tiny_len lptr_memcpy_def lptr_memset_def)

theorem program_loaded_witness:
  "\<exists>l'. load_buf (\<lambda>_. True) 0xCC (\<lambda>_. False) tiny_elf Executable no_memory = Inr (Some tiny_obj, l') \<and> loader_ok l' \<and>
    byte_at l' 4100 = Some 0xAA \<and> byte_at l' 4102 = Some 0xCC \<and> byte_at l' 4104 = Some 0 \<and> map_option pe_write (l_pt l' 1) = Some True"
proof -
  obtain l' where l': "load_buf (\<lambda>_. True) 0xCC (\<lambda>_. False) tiny_elf Executable no_memory = Inr (Some tiny_obj, l')" using tiny_loads by blast
  have ok: "loader_ok no_memory" by (simp add: no_memory_def loader_ok_def)
  have data: "tiny_elf ! 124 = 0xAA" "tiny_elf ! 126 = 0xCC" by code_simp+
  note p = program_loaded [OF ok l', unfolded tiny_fields, simplified, unfolded tiny_prog, simplified, simplified no_memory_def, simplified]
  have "\<forall>i < 5. byte_at l' (4100 + i) = Some (if i < 3 then tiny_elf ! (124 + i) else 0) \<and> (\<exists>pte. l_pt l' ((4100 + i) div 4096) = Some pte \<and> pe_user pte \<and> pe_write pte)"
    using p by (simp add: Let_def add32_eq mul32_eq)
  from this [THEN spec [of _ 0]] this [THEN spec [of _ 2]] this [THEN spec [of _ 4]] show ?thesis using l' p data by auto
qed

text \<open>
  C37. A segment whose bytes in the file end where its last page ends cannot be loaded: the loader, which has just mapped the segment, takes the end of the range for one
  behind the end of the allocation and stops the machine.
\<close>

theorem full_page_segment_refused:
  assumes ok: "loader_ok l" and h: "prog_hdr b e k = Inr h" "ph_type h = 1" "0 < ph_filesz h" and m: "map_segment grant junk b e addr k l = Inr l1"
    and full: "add32 addr (ph_vaddr h) + ph_filesz h = (add32 addr (ph_vaddr h) div 4096 + segment_pages h) * 4096"
  shows "load_segment b e addr k l1 = Inl (Irrecoverable ''allocation where lies ptr does not cover n bytes'')"
proof -
  let ?A = "add32 addr (ph_vaddr h)"
  have "add_alloc grant junk (seg_page addr h) (segment_pages h) (ph_flags h div 2 mod 2 = 1) True l = Inr l1"
    using m h by (simp add: map_segment_def seg_page_def)
  note add = add_alloc_ok [OF ok this seg_page_small]
  obtain a where a: "a \<in> set (l_allocs l1)" "la_start a = seg_page addr h * 4096" "la_end a = ?A + ph_filesz h"
    using add(4) full unfolding seg_page_def by (metis in_set_conv_decomp)
  then have cov: "covers a ?A" using h(3) by (simp add: covers_def seg_page_def)
  have "alloc_ok a" "la_data a \<noteq> []" using add(1) a(1) cov by (auto simp: loader_ok_def alloc_ok_def covers_def)
  then have "add32 ?A (ph_filesz h) = la_end a" using a(3) by (simp add: add32_eq alloc_ok_def)
  then have "\<not> add32 ?A (ph_filesz h) < la_end c" if "c \<in> set (l_allocs l1)" "covers c ?A" for c
    using covers_unique [OF add(1)] a(1) cov that by (metis in_set_conv_nth order_less_irrefl)
  then have "lptr_find ?A (ph_filesz h) 0 (l_allocs l1) = Inl (Irrecoverable ''allocation where lies ptr does not cover n bytes'')"
    using lptr_find_refused a(1) cov by blast
  then show ?thesis using h by (simp add: load_segment_def)
qed

definition full_elf :: bytes where
  "full_elf = take 68 tiny_elf @ le_bytes 4 4092 @ le_bytes 4 4092 @ drop 76 tiny_elf"

theorem full_page_segment_refused_witness:
  "\<exists>l1. map_segment (\<lambda>_. True) 0 full_elf tiny_hdr 0 0 no_memory = Inr l1 \<and>
    load_segment full_elf tiny_hdr 0 0 l1 = Inl (Irrecoverable ''allocation where lies ptr does not cover n bytes'')"
proof -
  let ?h = "\<lparr>ph_type = 1, ph_offset = 124, ph_vaddr = 4100, ph_filesz = 4092, ph_memsz = 4092, ph_flags = 6\<rparr>"
  have h: "prog_hdr full_elf tiny_hdr 0 = Inr ?h" by (simp add: prog_hdr_def tiny_hdr_def full_elf_def tiny_elf_def le_bytes_2 le_bytes_4)
  obtain l1 where l1: "map_segment (\<lambda>_. True) 0 full_elf tiny_hdr 0 0 no_memory = Inr l1"
    by (simp add: map_segment_def h add_alloc_def segment_pages_def map_page_def no_memory_def add32_eq Let_def)
  have "loader_ok no_memory" by (simp add: no_memory_def loader_ok_def)
  from full_page_segment_refused [OF this h _ _ l1] show ?thesis using l1 by (simp add: add32_eq segment_pages_def)
qed

section \<open>The stack of a new process\<close>

definition holds :: "loader \<Rightarrow> nat \<Rightarrow> bytes \<Rightarrow> bool" where
  "holds l x bs \<longleftrightarrow> (\<forall>i < length bs. byte_at l (x + i) = Some (bs ! i))"

lemma holds_append: "holds l x (u @ v) \<longleftrightarrow> holds l x u \<and> holds l (x + length u) v"
  unfolding holds_def
proof (intro iffI conjI allI impI)
  fix i assume a: "\<forall>i < length (u @ v). byte_at l (x + i) = Some ((u @ v) ! i)" "i < length v"
  show "byte_at l (x + length u + i) = Some (v ! i)" using a(1) [THEN spec [of _ "length u + i"]] a(2) by (simp add: add.assoc)
next
  fix i assume a: "(\<forall>i < length u. byte_at l (x + i) = Some (u ! i)) \<and> (\<forall>i < length v. byte_at l (x + length u + i) = Some (v ! i))" "i < length (u @ v)"
  show "byte_at l (x + i) = Some ((u @ v) ! i)"
    using a(1) [THEN conjunct2, THEN spec [of _ "i - length u"]] a by (cases "i < length u") (auto simp: nth_append)
qed (auto simp: nth_append)

text \<open>\<open>pushed l p l' p' bs\<close>: the bytes \<open>bs\<close> have been put below \<open>p\<close>, and nothing else has changed.\<close>

definition pushed :: "loader \<Rightarrow> nat \<Rightarrow> loader \<Rightarrow> nat \<Rightarrow> bytes \<Rightarrow> bool" where
  "pushed l p l' p' bs \<longleftrightarrow> p = p' + length bs \<and> holds l' p' bs \<and> (\<forall>x. x < p' \<or> p \<le> x \<longrightarrow> byte_at l' x = byte_at l x) \<and> loader_ok l'"

lemma pushed_refl: "loader_ok l \<Longrightarrow> pushed l p l p []"
  by (simp add: pushed_def holds_def)

lemma holds_kept: "holds l x bs \<Longrightarrow> (\<And>y. x \<le> y \<Longrightarrow> y < x + length bs \<Longrightarrow> byte_at l' y = byte_at l y) \<Longrightarrow> holds l' x bs"
  by (simp add: holds_def)

lemma holds_above: "holds l x bs \<Longrightarrow> q \<le> x \<Longrightarrow> (\<And>y. q \<le> y \<Longrightarrow> byte_at l' y = byte_at l y) \<Longrightarrow> holds l' x bs"
  by (simp add: holds_def)

lemma pushed_trans:
  assumes "pushed l p l1 p1 u" "pushed l1 p1 l2 p2 v"
  shows "pushed l p l2 p2 (v @ u)"
proof -
  have "holds l2 p1 u" by (rule holds_kept [of l1]) (use assms in \<open>auto simp: pushed_def\<close>)
  then show ?thesis using assms by (auto simp: pushed_def holds_append)
qed

lemma write_to_stack_pushed:
  assumes ok: "loader_ok l" and p: "p < W32" and w: "write_to_stack str (p, l) = Inr (p', l')"
  shows "pushed l p l' p' str" "p' = sub32 p (length str)" "p' < W32"
proof -
  have m: "lptr_memcpy p' str l = Inr l'" and p': "p' = sub32 p (length str)" using w by (auto simp: write_to_stack_def Let_def res_elims)
  note wr = lptr_write [OF ok m]
  obtain a where a: "a \<in> set (l_allocs l)" "covers a p'" "p' + length str < la_end a" using wr(4) by blast
  have "alloc_ok a" "la_data a \<noteq> []" using ok a by (auto simp: loader_ok_def alloc_ok_def covers_def)
  then have lim: "p' + length str < W32" using a(3) by (simp add: alloc_ok_def)
  then have n: "length str < W32" by simp
  have "\<not> p < length str"
  proof
    assume "p < length str"
    then have "p' = p + W32 - length str" using p' n by (simp add: sub32_def)
    then show False using lim n by simp
  qed
  then have "length str \<le> p" by simp
  then have "p = p' + length str" using p p' by (simp add: sub32_eq)
  then show "pushed l p l' p' str" using wr(1,3) by (simp add: pushed_def holds_def)
  show "p' = sub32 p (length str)" by (rule p')
  show "p' < W32" using lim by simp
qed

text \<open>What a series of writes leaves on the stack, and where each of the strings is.\<close>

lemma write_all_pushed:
  "loader_ok l \<Longrightarrow> p < W32 \<Longrightarrow> write_all xs (p, l) = Inr (p', l') \<Longrightarrow> pushed l p l' p' (concat (rev xs)) \<and> p' < W32"
proof (induction xs arbitrary: p l)
  case Nil
  then show ?case by (simp add: pushed_refl)
next
  case (Cons x xs)
  then obtain p1 l1 where w: "write_to_stack x (p, l) = Inr (p1, l1)" "write_all xs (p1, l1) = Inr (p', l')" by (auto simp: res_elims)
  note h = write_to_stack_pushed [OF Cons.prems(1,2) w(1)]
  then have "loader_ok l1" by (simp add: pushed_def)
  from Cons.IH [OF this h(3) w(2)] h(1) show ?case by (auto dest: pushed_trans)
qed

lemma write_all_pointers:
  "loader_ok l \<Longrightarrow> p < W32 \<Longrightarrow> write_all xs (p, l) = Inr (p', l') \<Longrightarrow>
    \<exists>ps. pointers_below p xs = map (le_bytes 4) ps \<and> length ps = length xs \<and> last (p # ps) = p' \<and>
      (\<forall>k < length xs. p' \<le> ps ! k \<and> ps ! k + length (xs ! k) \<le> p \<and> holds l' (ps ! k) (xs ! k))"
proof (induction xs arbitrary: p l)
  case (Cons x xs)
  then obtain p1 l1 where w: "write_to_stack x (p, l) = Inr (p1, l1)" "write_all xs (p1, l1) = Inr (p', l')" by (auto simp: res_elims)
  note h = write_to_stack_pushed [OF Cons.prems(1,2) w(1)]
  then have ok1: "loader_ok l1" by (simp add: pushed_def)
  note rest = write_all_pushed [OF ok1 h(3) w(2)]
  from Cons.IH [OF ok1 h(3) w(2)] obtain ps where ps: "pointers_below p1 xs = map (le_bytes 4) ps" "length ps = length xs"
    "\<forall>k < length xs. p' \<le> ps ! k \<and> ps ! k + length (xs ! k) \<le> p1 \<and> holds l' (ps ! k) (xs ! k)" "last (p1 # ps) = p'" by blast
  have le: "p = p1 + length x" "p' \<le> p1" "holds l1 p1 x" using h(1) rest by (auto simp: pushed_def)
  then have "holds l' p1 x" by (intro holds_kept [OF le(3)]) (use rest in \<open>auto simp: pushed_def\<close>)
  then have "\<forall>k < length (x # xs). p' \<le> (p1 # ps) ! k \<and> (p1 # ps) ! k + length ((x # xs) ! k) \<le> p \<and> holds l' ((p1 # ps) ! k) ((x # xs) ! k)"
    using ps(3) le by (auto simp: nth_Cons split: nat.split)
  moreover have "pointers_below p (x # xs) = map (le_bytes 4) (p1 # ps)" using ps(1) h(2) by simp
  ultimately show ?case using ps(2,4) by (intro exI [of _ "p1 # ps"]) simp
qed simp

text \<open>The auxiliary vector, from its lowest address on: types and values. The last program header of type PHDR is looked for in the freed buffer.\<close>

definition aux_vector :: "elf \<Rightarrow> nat \<Rightarrow> nat \<Rightarrow> nat \<Rightarrow> (nat \<times> nat) list" where
  "aux_vector m argv0 r v = (let e = global_hdr m in
     (if interpreter_name m = None then [] else [(9, e_entry e), (31, argv0), (5, e_phnum e), (4, e_phentsize e), (3, v)]) @ [(25, r), (23, 0), (6, 4096), (0, 0)])"

definition aux_bytes :: "(nat \<times> nat) list \<Rightarrow> bytes" where
  "aux_bytes es = concat (map (\<lambda>(t, v). le_bytes 4 t @ le_bytes 4 v) es)"

definition last_phdr :: "bytes \<Rightarrow> ehdr \<Rightarrow> nat \<Rightarrow> nat \<Rightarrow> bool" where
  "last_phdr b e n v \<longleftrightarrow> (\<exists>k < n. \<exists>h. prog_hdr b e k = Inr h \<and> ph_type h = 6 \<and> ph_vaddr h = v \<and>
     (\<forall>k' h'. k < k' \<longrightarrow> k' < n \<longrightarrow> prog_hdr b e k' = Inr h' \<longrightarrow> ph_type h' \<noteq> 6))"

lemma phdr_search:
  assumes "for_n (phdr_step b e) 0 n None = Inr (Some v)"
  shows "last_phdr b e n v"
proof -
  have "(\<lambda>j r. \<forall>v. r = Some v \<longrightarrow> last_phdr b e j v) (0 + n) (Some v)"
  proof (rule for_n_invariant [OF assms])
    fix j r r' assume P: "\<forall>v. r = Some v \<longrightarrow> last_phdr b e j v" and s: "phdr_step b e j r = Inr r'"
    then obtain h where h: "prog_hdr b e j = Inr h" "r' = (if ph_type h = 6 then Some (ph_vaddr h) else r)" by (auto simp: phdr_step_def res_elims)
    show "\<forall>v. r' = Some v \<longrightarrow> last_phdr b e (Suc j) v"
    proof (cases "ph_type h = 6")
      case True
      then show ?thesis using h by (auto simp: last_phdr_def intro!: exI [of _ j])
    next
      case False
      then have "last_phdr b e (Suc j) v" if "last_phdr b e j v" for v using that h(1) unfolding last_phdr_def by (metis less_Suc_eq sum.inject(2))
      then show ?thesis using P h(2) False by simp
    qed
  qed simp
  then show ?thesis by simp
qed

lemma write_auxv_pushed:
  assumes ok: "loader_ok l" and p: "p < W32" and w: "write_auxv b m a r (p, l) = Inr (p', l')"
  shows "\<exists>v. pushed l p l' p' (aux_bytes (aux_vector m a r v)) \<and> p' < W32 \<and> (interpreter_name m \<noteq> None \<longrightarrow> last_phdr b (global_hdr m) (e_phnum (global_hdr m)) v)"
proof -
  let ?e = "global_hdr m" and ?xs = "[auxv 0 0, auxv 6 4096, auxv 23 0, auxv 25 r]"
  from w obtain p1 l1 where s1: "write_all ?xs (p, l) = Inr (p1, l1)" unfolding write_auxv_def Let_def by (auto simp del: write_all.simps simp: bind_res_Inr_iff)
  have h: "pushed l p l1 p1 (aux_bytes [(25, r), (23, 0), (6, 4096), (0, 0)])" "p1 < W32"
    using write_all_pushed [OF ok p s1] by (simp_all add: aux_bytes_def auxv_def)
  show ?thesis
  proof (cases "interpreter_name m = None")
    case True
    then have "(p', l') = (p1, l1)" using w s1 by (simp add: write_auxv_def Let_def del: write_all.simps)
    then show ?thesis using h True by (simp add: aux_vector_def Let_def)
  next
    case False
    then obtain v where v: "for_n (phdr_step b ?e) 0 (e_phnum ?e) None = Inr (Some v)"
      and s2: "write_all [auxv 3 v, auxv 4 (e_phentsize ?e), auxv 5 (e_phnum ?e), auxv 31 a, auxv 9 (e_entry ?e)] (p1, l1) = Inr (p', l')"
      using w s1 unfolding write_auxv_def Let_def by (auto simp del: write_all.simps simp: bind_res_Inr_iff split: option.splits if_splits)
    have c: "pushed l1 p1 l' p' (aux_bytes [(9, e_entry ?e), (31, a), (5, e_phnum ?e), (4, e_phentsize ?e), (3, v)]) \<and> p' < W32"
      using write_all_pushed [OF _ h(2) s2] h(1) by (simp add: aux_bytes_def auxv_def pushed_def [of l p l1])
    have "pushed l p l' p' (aux_bytes (aux_vector m a r v))"
      using pushed_trans [OF h(1) c [THEN conjunct1]] False by (auto simp: aux_vector_def aux_bytes_def Let_def)
    then show ?thesis using c phdr_search [OF v] by blast
  qed
qed

lemma pointers_rev:
  assumes "pointers_below p xs = map (le_bytes 4) ps"
  shows "concat (rev (pointers_below p xs)) = concat (map (le_bytes 4) (rev ps))"
  by (simp add: assms rev_map)

lemma rev_strings:
  assumes "length ps = length xs" "\<forall>k < length xs. Q (ps ! k) (rev (map f xs) ! k)"
  shows "\<forall>k < length xs. Q (rev ps ! k) (f (xs ! k))"
proof (intro allI impI)
  fix k assume k: "k < length xs"
  then have "length xs - Suc k < length xs" by simp
  then have "Q (ps ! (length xs - Suc k)) (rev (map f xs) ! (length xs - Suc k))" using assms(2) by blast
  then show "Q (rev ps ! k) (f (xs ! k))" using k assms(1) by (simp add: rev_nth)
qed

text \<open>The strings of an array: where they are, and that the addresses written for the array are these.\<close>

lemma strings_placed:
  assumes ok: "loader_ok l" and p: "p < W32" and w: "write_all (rev (map (\<lambda>s. s @ [0]) ss)) (p, l) = Inr (p1, l1)" and low: "pushed l1 p1 l' e bs"
  shows "\<exists>ps. length ps = length ss \<and> hd (ps @ [p]) = p1 \<and> concat (rev (pointers_below p (rev (map (\<lambda>s. s @ [0]) ss)))) = concat (map (le_bytes 4) ps) \<and>
    (\<forall>i < length ss. holds l' (ps ! i) (ss ! i @ [0]))"
proof -
  let ?xs = "rev (map (\<lambda>s. s @ [0]) ss)"
  obtain ps where ps: "pointers_below p ?xs = map (le_bytes 4) ps" "length ps = length ?xs" and lastp: "last (p # ps) = p1" and str:
    "\<forall>k < length ?xs. p1 \<le> ps ! k \<and> ps ! k + length (?xs ! k) \<le> p \<and> holds l1 (ps ! k) (?xs ! k)"
    using write_all_pointers [OF ok p w] by metis
  have keep: "byte_at l' x = byte_at l1 x" if "p1 \<le> x" for x using low that unfolding pushed_def by blast
  have "\<forall>k < length ss. holds l' (rev ps ! k) (ss ! k @ [0])"
  proof (rule rev_strings [where f = "\<lambda>s. s @ [0]"])
    show "\<forall>k < length ss. holds l' (ps ! k) (?xs ! k)" using str holds_above [OF _ _ keep] by auto
  qed (use ps(2) in simp)
  moreover have "hd (rev ps @ [p]) = p1" using lastp by (cases "ps = []") (auto simp: hd_append hd_rev)
  ultimately show ?thesis using ps(2) pointers_rev [OF ps(1)] by (intro exI [of _ "rev ps"]) simp
qed

lemma pushed_ok: "pushed l p l' p' bs \<Longrightarrow> loader_ok l'"
  by (simp add: pushed_def)

lemma write_args_pushed:
  assumes ok: "loader_ok l" and w: "write_args_to_stack b m random argv envp l = Inr (esp, l')"
  defines "args \<equiv> rev (map (\<lambda>s. s @ [0]) argv)" and "envs \<equiv> rev (map (\<lambda>s. s @ [0]) envp)"
  shows "\<exists>p1 l1 p2 l2 r v. write_all args (stack_end, l) = Inr (p1, l1) \<and> write_all envs (p1, l1) = Inr (p2, l2) \<and> p2 = r + length random \<and>
    (interpreter_name m \<noteq> None \<longrightarrow> last_phdr b (global_hdr m) (e_phnum (global_hdr m)) v) \<and>
    pushed l2 p2 l' esp (le_bytes 4 (length argv) @ concat (rev (pointers_below stack_end args)) @ le_bytes 4 0 @ concat (rev (pointers_below p1 envs)) @ le_bytes 4 0 @
      aux_bytes (aux_vector m p1 r v) @ random)"
proof -
  from w obtain p1 l1 p2 l2 p3 l3 p4 l4 p5 l5 p6 l6 p7 l7 p8 l8 where
    1: "write_all args (stack_end, l) = Inr (p1, l1)" and 2: "write_all envs (p1, l1) = Inr (p2, l2)" and
    3: "write_to_stack random (p2, l2) = Inr (p3, l3)" and 4: "write_auxv b m p1 p3 (p3, l3) = Inr (p4, l4)" and
    5: "write_to_stack (le_bytes 4 0) (p4, l4) = Inr (p5, l5)" and 6: "write_all (pointers_below p1 envs) (p5, l5) = Inr (p6, l6)" and
    7: "write_to_stack (le_bytes 4 0) (p6, l6) = Inr (p7, l7)" and 8: "write_all (pointers_below stack_end args) (p7, l7) = Inr (p8, l8)" and
    9: "write_to_stack (le_bytes 4 (length argv)) (p8, l8) = Inr (esp, l')"
    unfolding write_args_to_stack_def Let_def args_def envs_def by (auto simp: bind_res_Inr_iff simp del: le_bytes.simps)
  have h1: "pushed l stack_end l1 p1 (concat (rev args))" "p1 < W32" using write_all_pushed [OF ok _ 1] by simp_all
  have h2: "pushed l1 p1 l2 p2 (concat (rev envs))" "p2 < W32" using write_all_pushed [OF pushed_ok [OF h1(1)] h1(2) 2] by simp_all
  note h3 = write_to_stack_pushed [OF pushed_ok [OF h2(1)] h2(2) 3]
  obtain v where h4: "pushed l3 p3 l4 p4 (aux_bytes (aux_vector m p1 p3 v))" "p4 < W32" "interpreter_name m \<noteq> None \<longrightarrow> last_phdr b (global_hdr m) (e_phnum (global_hdr m)) v"
    using write_auxv_pushed [OF pushed_ok [OF h3(1)] h3(3) 4] by blast
  note h5 = write_to_stack_pushed [OF pushed_ok [OF h4(1)] h4(2) 5]
  have h6: "pushed l5 p5 l6 p6 (concat (rev (pointers_below p1 envs)))" "p6 < W32" using write_all_pushed [OF pushed_ok [OF h5(1)] h5(3) 6] by simp_all
  note h7 = write_to_stack_pushed [OF pushed_ok [OF h6(1)] h6(2) 7]
  have h8: "pushed l7 p7 l8 p8 (concat (rev (pointers_below stack_end args)))" "p8 < W32" using write_all_pushed [OF pushed_ok [OF h7(1)] h7(3) 8] by simp_all
  note h9 = write_to_stack_pushed [OF pushed_ok [OF h8(1)] h8(2) 9]
  note pushed_trans [OF h3(1) pushed_trans [OF h4(1) pushed_trans [OF h5(1) pushed_trans [OF h6(1) pushed_trans [OF h7(1) pushed_trans [OF h8(1) h9(1)]]]]]]
  moreover have "p2 = p3 + length random" using h3(1) by (simp add: pushed_def)
  ultimately show ?thesis using 1 2 h4(3) by auto
qed

text \<open>
  C16. A new process finds its arguments where the binary interface of the processor says: at the stack pointer the number of arguments, behind it the addresses of
  the arguments in their order, a null pointer, the addresses of the strings of the environment, a null pointer and the auxiliary vector. Each address is that of a
  copy of its string, with its terminator. The vector has the address of the random bytes, the page size and the closing entry, and for a program with an interpreter in front of these
  its entry point, the address of the first argument (the end of the stack if there is none), and number, size and address of the program headers, where the address is that of the last PHDR
  header in what the memory of the deleted file buffer holds by then. Outside of the part of the stack between the new stack pointer and the end of the stack nothing has changed.
\<close>

theorem stack_of_new_process:
  assumes ok: "loader_ok l" and w: "write_args_to_stack freed m random argv envp l = Inr (esp, l')"
  shows "\<exists>ps qs r v. length ps = length argv \<and> length qs = length envp \<and>
    holds l' esp (le_bytes 4 (length argv) @ concat (map (le_bytes 4) ps) @ le_bytes 4 0 @ concat (map (le_bytes 4) qs) @ le_bytes 4 0 @
      aux_bytes (aux_vector m (hd (ps @ [stack_end])) r v)) \<and>
    (\<forall>i < length argv. holds l' (ps ! i) (argv ! i @ [0])) \<and> (\<forall>i < length envp. holds l' (qs ! i) (envp ! i @ [0])) \<and> holds l' r random \<and>
    (interpreter_name m \<noteq> None \<longrightarrow> last_phdr freed (global_hdr m) (e_phnum (global_hdr m)) v) \<and>
    (\<forall>x. x < esp \<or> stack_end \<le> x \<longrightarrow> byte_at l' x = byte_at l x)"
proof -
  let ?args = "rev (map (\<lambda>s. s @ [0]) argv)" and ?envs = "rev (map (\<lambda>s. s @ [0]) envp)"
  obtain p1 l1 p2 l2 r v where 1: "write_all ?args (stack_end, l) = Inr (p1, l1)" and 2: "write_all ?envs (p1, l1) = Inr (p2, l2)" and r: "p2 = r + length random" and
    v: "interpreter_name m \<noteq> None \<longrightarrow> last_phdr freed (global_hdr m) (e_phnum (global_hdr m)) v" and
    low: "pushed l2 p2 l' esp (le_bytes 4 (length argv) @ concat (rev (pointers_below stack_end ?args)) @ le_bytes 4 0 @ concat (rev (pointers_below p1 ?envs)) @
      le_bytes 4 0 @ aux_bytes (aux_vector m p1 r v) @ random)"
    using write_args_pushed [OF ok w] by blast
  have h1: "pushed l stack_end l1 p1 (concat (rev ?args))" "p1 < W32" using write_all_pushed [OF ok _ 1] by simp_all
  note ok1 = pushed_ok [OF h1(1)]
  have h2: "pushed l1 p1 l2 p2 (concat (rev ?envs))" using write_all_pushed [OF ok1 h1(2) 2] by simp
  note all = pushed_trans [OF h1(1) pushed_trans [OF h2 low]]
  obtain ps where ps: "length ps = length argv" "concat (rev (pointers_below stack_end ?args)) = concat (map (le_bytes 4) ps)" "hd (ps @ [stack_end]) = p1"
    "\<forall>i < length argv. holds l' (ps ! i) (argv ! i @ [0])" using strings_placed [OF ok _ 1 pushed_trans [OF h2 low]] by auto
  obtain qs where qs: "length qs = length envp" "concat (rev (pointers_below p1 ?envs)) = concat (map (le_bytes 4) qs)"
    "\<forall>i < length envp. holds l' (qs ! i) (envp ! i @ [0])" using strings_placed [OF ok1 h1(2) 2 low] by auto
  let ?words = "le_bytes 4 (length argv) @ concat (map (le_bytes 4) ps) @ le_bytes 4 0 @ concat (map (le_bytes 4) qs) @ le_bytes 4 0 @ aux_bytes (aux_vector m p1 r v)"
  have both: "holds l' esp (?words @ random)" "p2 = esp + length (?words @ random)" using low unfolding pushed_def ps(2) qs(2) by simp_all
  have "esp + length ?words = r" using both(2) r by simp
  then have "holds l' esp ?words" "holds l' r random" using both(1) unfolding holds_append [of l' esp ?words random] by simp_all
  moreover have "\<forall>x. x < esp \<or> stack_end \<le> x \<longrightarrow> byte_at l' x = byte_at l x" using all unfolding pushed_def by blast
  ultimately show ?thesis unfolding ps(3) [symmetric] using ps(1,4) qs(1,3) v
    by (intro exI [of _ ps] exI [of _ qs] exI [of _ r] exI [of _ v]) simp
qed

text \<open>Writing succeeds as long as the stack has room.\<close>

definition has_stack :: "nat \<Rightarrow> nat \<Rightarrow> loader \<Rightarrow> bool" where
  "has_stack s t l \<longleftrightarrow> loader_ok l \<and> (\<exists>a \<in> set (l_allocs l). la_start a = s \<and> la_end a = t)"

lemma lptr_find_ex:
  "\<exists>c \<in> set as. covers c x \<Longrightarrow> \<forall>c \<in> set as. covers c x \<longrightarrow> add32 x n < la_end c \<Longrightarrow> \<exists>i. lptr_find x n k as = Inr i"
  by (induction as arbitrary: k) (auto simp: covers_def)

lemma stack_write_ok:
  assumes st: "has_stack s t l" and room: "s + length str \<le> p" "p < t"
  shows "\<exists>l'. write_to_stack str (p, l) = Inr (p - length str, l') \<and> has_stack s t l'"
proof -
  let ?x = "p - length str"
  obtain a where a: "a \<in> set (l_allocs l)" "la_start a = s" "la_end a = t" and ok: "loader_ok l" using st by (auto simp: has_stack_def)
  have x: "covers a ?x" "?x + length str = p" using a room by (auto simp: covers_def)
  have aok: "alloc_ok a" "la_data a \<noteq> []" using ok a room by (auto simp: loader_ok_def alloc_ok_def)
  then have p: "p < W32" using a room by (simp add: alloc_ok_def)
  then have sub: "sub32 p (length str) = ?x" using room by (simp add: sub32_eq)
  have "add32 ?x (length str) < la_end c" if "c \<in> set (l_allocs l)" "covers c ?x" for c
    using covers_end_unique [OF ok _ that, of p] a x room p by (auto simp: add32_eq)
  then obtain i where i: "lptr_find ?x (length str) 0 (l_allocs l) = Inr i" using lptr_find_ex [of "l_allocs l" ?x] a(1) x(1) by blast
  let ?c = "l_allocs l ! i"
  have c: "?c \<in> set (l_allocs l)" "covers ?c ?x" "?x + length str < la_end ?c" using lptr_find_Inr [OF i] x(2) p by (auto simp: add32_eq)
  then have "alloc_ok ?c" using ok by (simp add: loader_ok_def)
  then have "?x - la_start ?c + length str \<le> length (la_data ?c)" using c by (auto simp: alloc_ok_def covers_def)
  then obtain l' where l': "lptr_memcpy ?x str l = Inr l'" using i by (simp add: lptr_memcpy_def Let_def)
  have "has_stack s t l'" using lptr_write(1,2) [OF ok l'] same_ranges_ex [of l l' "\<lambda>u v. u = s \<and> v = t"] a by (auto simp: has_stack_def)
  then show ?thesis using l' sub by (simp add: write_to_stack_def)
qed

definition room :: "nat \<Rightarrow> nat \<Rightarrow> nat \<Rightarrow> nat \<times> loader \<Rightarrow> bool" where
  "room s t n st \<longleftrightarrow> has_stack s t (snd st) \<and> s + n \<le> fst st \<and> fst st < t"

lemma write_room: "room s t (length str + n) st \<Longrightarrow> \<exists>st'. write_to_stack str st = Inr st' \<and> room s t n st'"
  using stack_write_ok [of s t "snd st" str "fst st"] by (cases st) (fastforce simp: room_def)

lemma write_all_room: "room s t (sum_list (map length xs) + n) st \<Longrightarrow> \<exists>st'. write_all xs st = Inr st' \<and> room s t n st'"
proof (induction xs arbitrary: st)
  case (Cons x xs)
  then obtain st1 where "write_to_stack x st = Inr st1" "room s t (sum_list (map length xs) + n) st1"
    using write_room [of s t x "sum_list (map length xs) + n" st] by (auto simp: add.assoc)
  then show ?case using Cons.IH by simp
qed simp

lemma length_pointers: "sum_list (map length (pointers_below p xs)) = 4 * length xs"
  by (induction xs arbitrary: p) (simp_all add: Let_def)

lemma write_auxv_room:
  assumes "interpreter_name m = None" "room s t (32 + n) st"
  shows "\<exists>st'. write_auxv b m a r st = Inr st' \<and> room s t n st'"
proof -
  have "sum_list (map length [auxv 0 0, auxv 6 4096, auxv 23 0, auxv 25 r]) = 32" by (simp add: auxv_def)
  then obtain st' where "write_all [auxv 0 0, auxv 6 4096, auxv 23 0, auxv 25 r] st = Inr st'" "room s t n st'"
    using write_all_room [of s t "[auxv 0 0, auxv 6 4096, auxv 23 0, auxv 25 r]" n st] assms(2) by auto
  then show ?thesis using assms(1) by (simp add: write_auxv_def Let_def del: write_all.simps)
qed

text \<open>A program without an interpreter gets its arguments if they fit: every string takes its length, its terminator and its address.\<close>

lemma write_args_ok:
  assumes st: "has_stack s t l" and m: "interpreter_name m = None" and t: "stack_end < t"
    and fits: "s + sum_list (map (\<lambda>x. length x + 5) argv) + sum_list (map (\<lambda>x. length x + 5) envp) + length random + 44 \<le> stack_end"
  shows "\<exists>esp l'. write_args_to_stack b m random argv envp l = Inr (esp, l')"
proof -
  let ?args = "rev (map (\<lambda>s. s @ [0 :: u8]) argv)" and ?envs = "rev (map (\<lambda>s. s @ [0 :: u8]) envp)"
  let ?z = "le_bytes 4 0" and ?n = "le_bytes 4 (length argv)"
  let ?a = "4 * length argv" and ?e = "4 * length envp"
  have S: "sum_list (map (\<lambda>x. length x + 5) xs) = sum_list (map length (rev (map (\<lambda>s. s @ [0 :: u8]) xs))) + 4 * length xs" for xs :: "bytes list"
    by (induction xs) simp_all
  have z: "length (le_bytes 4 v) = 4" for v by simp
  have "room s t (sum_list (map length ?args) + (sum_list (map length ?envs) + (length random + (32 + (4 + (?e + (4 + (?a + (4 + 0))))))))) (stack_end, l)"
    using st t fits unfolding S room_def fst_conv snd_conv by linarith
  from write_all_room [OF this] obtain s1 where 1: "write_all ?args (stack_end, l) = Inr s1" 
    "room s t (sum_list (map length ?envs) + (length random + (32 + (4 + (?e + (4 + (?a + (4 + 0)))))))) s1" by blast
  from write_all_room [OF this(2)] obtain s2 where 2: "write_all ?envs s1 = Inr s2" "room s t (length random + (32 + (4 + (?e + (4 + (?a + (4 + 0))))))) s2" by blast
  from write_room [OF this(2)] obtain s3 where 3: "write_to_stack random s2 = Inr s3" "room s t (32 + (4 + (?e + (4 + (?a + (4 + 0)))))) s3" by blast
  from write_auxv_room [OF m this(2)] obtain s4 where 4: "write_auxv b m (fst s1) (fst s3) s3 = Inr s4" "room s t (4 + (?e + (4 + (?a + (4 + 0))))) s4" by blast
  from write_room [of s t ?z, unfolded z, OF this(2)] obtain s5 where 5: "write_to_stack ?z s4 = Inr s5" "room s t (?e + (4 + (?a + (4 + 0)))) s5" by blast
  from write_all_room [of s t "pointers_below (fst s1) ?envs", unfolded length_pointers] this(2)
  obtain s6 where 6: "write_all (pointers_below (fst s1) ?envs) s5 = Inr s6" "room s t (4 + (?a + (4 + 0))) s6" by (metis length_map length_rev)
  from write_room [of s t ?z, unfolded z, OF this(2)] obtain s7 where 7: "write_to_stack ?z s6 = Inr s7" "room s t (?a + (4 + 0)) s7" by blast
  from write_all_room [of s t "pointers_below stack_end ?args", unfolded length_pointers] this(2)
  obtain s8 where 8: "write_all (pointers_below stack_end ?args) s7 = Inr s8" "room s t (4 + 0) s8" by (metis length_map length_rev)
  from write_room [of s t ?n, unfolded z, OF this(2)] obtain s9 where 9: "write_to_stack ?n s8 = Inr s9" by blast
  have "write_args_to_stack b m random argv envp l = Inr s9"
    by (simp only: write_args_to_stack_def Let_def 1(1) 2(1) 3(1) 4(1) 5(1) 6(1) 7(1) 8(1) 9 bind_res.simps)
  then show ?thesis by (metis surj_pair)
qed

lemma one_page_stack: "\<exists>l. add_alloc (\<lambda>_. True) 0 (NUM_PAGES - 1) 1 True True no_memory = Inr l \<and> has_stack (stack_end - 4092) (stack_end + 4) l"
proof -
  obtain l where l: "add_alloc (\<lambda>_. True) 0 (NUM_PAGES - 1) 1 True True no_memory = Inr l"
    by (simp add: add_alloc_def map_page_def no_memory_def add32_eq Let_def)
  have "loader_ok no_memory" by (simp add: no_memory_def loader_ok_def)
  note a = add_alloc_ok [OF this l]
  show ?thesis using l a(1,4) by (auto simp: has_stack_def)
qed

theorem stack_of_new_process_witness:
  "\<exists>l esp l' p r. add_alloc (\<lambda>_. True) 0 (NUM_PAGES - 1) 1 True True no_memory = Inr l \<and>
    write_args_to_stack tiny_elf tiny_obj (replicate 16 7) [[0x6C, 0x73]] [] l = Inr (esp, l') \<and>
    holds l' esp (le_bytes 4 1 @ le_bytes 4 p @ le_bytes 4 0 @ le_bytes 4 0 @ aux_bytes [(25, r), (23, 0), (6, 4096), (0, 0)]) \<and>
    holds l' p [0x6C, 0x73, 0] \<and> holds l' r (replicate 16 7)"
proof -
  obtain l where l: "add_alloc (\<lambda>_. True) 0 (NUM_PAGES - 1) 1 True True no_memory = Inr l" "has_stack (stack_end - 4092) (stack_end + 4) l"
    using one_page_stack by blast
  obtain esp l' where w: "write_args_to_stack tiny_elf tiny_obj (replicate 16 7) [[0x6C, 0x73]] [] l = Inr (esp, l')"
    using write_args_ok [OF l(2) tiny_fields(3), of "[[0x6C, 0x73]]" "[]" "replicate 16 7" tiny_elf] by auto
  have "loader_ok l" using l(2) by (simp add: has_stack_def)
  from stack_of_new_process [OF this w] obtain ps r v where ps: "length ps = 1" "holds l' (ps ! 0) [0x6C, 0x73, 0]" "holds l' r (replicate 16 7)"
    "holds l' esp (le_bytes 4 1 @ concat (map (le_bytes 4) ps) @ le_bytes 4 0 @ le_bytes 4 0 @ aux_bytes (aux_vector tiny_obj (hd (ps @ [stack_end])) r v))" by auto
  then obtain p where p: "ps = [p]" by (cases ps) auto
  have "aux_vector tiny_obj p r v = [(25, r), (23, 0), (6, 4096), (0, 0)]" by (simp add: aux_vector_def tiny_fields Let_def)
  then have "holds l' esp (le_bytes 4 1 @ le_bytes 4 p @ le_bytes 4 0 @ le_bytes 4 0 @ aux_bytes [(25, r), (23, 0), (6, 4096), (0, 0)])" using ps(4) p by simp
  then show ?thesis using l(1) w ps(2,3) p by (intro exI [of _ l] exI [of _ esp] exI [of _ l'] exI [of _ p] exI [of _ r]) simp
qed

section \<open>Symbol lookup\<close>

text \<open>The hash of a name fits into 28 bits: the high digit of the word is cleared in every step.\<close>

theorem elf_hash_bound: "unat (elf_hash name) < 2 ^ 28"
proof -
  have step: "unat (hash_step h c) < 2 ^ 28" for h c
  proof -
    have "0xF0000000 = (push_bit 28 (mask 4) :: u32)" by (simp add: mask_eq_exp_minus_1 push_bit_eq_mult)
    then have hi: "bit (0xF0000000 :: u32) n \<longleftrightarrow> 28 \<le> n \<and> n < 32" for n by (simp only: bit_push_bit_iff bit_mask_iff) auto
    have "\<not> bit (hash_step h c) n" if "28 \<le> n" for n 
      using that unfolding hash_step_def Let_def bit_and_iff bit_xor_iff bit_not_iff bit_drop_bit_eq hi by (auto dest: bit_imp_le_length)
    then have "hash_step h c = take_bit 28 (hash_step h c)" by (intro bit_word_eqI) (simp add: bit_take_bit_iff, meson not_less)
    then show ?thesis by (metis unsigned_take_bit_eq take_bit_nat_less_exp)
  qed
  have "unat (foldl hash_step h name) < 2 ^ 28" if "unat h < 2 ^ 28" for h
    using that step by (induction name arbitrary: h) simp_all
  then show ?thesis by (simp add: elf_hash_def)
qed

text \<open>The symbols of a chain, in its order.\<close>

fun is_chain :: "(nat \<Rightarrow> nat res) \<Rightarrow> nat \<Rightarrow> nat \<Rightarrow> nat list \<Rightarrow> bool" where
  "is_chain words chain y [] \<longleftrightarrow> y = 0"
| "is_chain words chain y (i # is) \<longleftrightarrow> y = i \<and> y \<noteq> 0 \<and> (case words (chain + y) of Inl _ \<Rightarrow> False | Inr z \<Rightarrow> is_chain words chain z is)"

lemma chain_search_chain:
  assumes "is_chain words chain y ys" "length ys < fuel" "\<forall>i \<in> set ys. names i = Inr (nm i)"
  shows "chain_search fuel names words chain name y = Inr (find (\<lambda>i. nm i = name) ys)"
  using assms
proof (induction ys arbitrary: y fuel)
  case Nil
  then show ?case by (cases fuel) auto
next
  case (Cons i ys)
  then obtain f z where "fuel = Suc f" "words (chain + y) = Inr z" "is_chain words chain z ys" by (cases fuel) (auto split: sum.splits)
  then show ?case using Cons.IH [of z f] Cons.prems by auto
qed

lemma linear_search_find:
  "\<forall>i \<in> set is. names i = Inr (nm i) \<Longrightarrow> linear_search names name is = Inr (find (\<lambda>i. nm i = name) is)"
  by (induction "is") auto

lemma find_unique:
  assumes "set ys \<subseteq> set xs" "inj_on nm (set xs)" "\<forall>i \<in> set xs. nm i = name \<longrightarrow> i \<in> set ys"
  shows "find (\<lambda>i. nm i = name) ys = find (\<lambda>i. nm i = name) xs"
proof (cases "find (\<lambda>i. nm i = name) xs")
  case None
  then have "find (\<lambda>i. nm i = name) ys = None" using assms(1) by (auto simp: find_None_iff)
  then show ?thesis using None by simp
next
  case (Some i)
  then have i: "i \<in> set xs" "nm i = name" by (auto simp: find_Some_iff)
  then have "i \<in> set ys" using assms(3) by blast
  then obtain j where j: "find (\<lambda>i. nm i = name) ys = Some j" using i(2) by (cases "find (\<lambda>i. nm i = name) ys") (auto simp: find_None_iff)
  then have "j \<in> set ys" "nm j = name" by (auto simp: find_Some_iff)
  then have "j = i" using inj_onD [OF assms(2), of j i] assms(1) i by auto
  then show ?thesis using j Some by simp
qed

text \<open>
  A hash table for the \<open>n\<close> symbols with the names \<open>nm\<close>: every chain ends, lists symbols of the table, and every symbol is in the chain of its bucket.
\<close>

definition hash_table_ok :: "(nat \<Rightarrow> nat res) \<Rightarrow> (nat \<Rightarrow> bytes) \<Rightarrow> nat \<Rightarrow> nat \<Rightarrow> nat list list \<Rightarrow> bool" where
  "hash_table_ok words nm n nbucket chs \<longleftrightarrow> words 0 = Inr nbucket \<and> 0 < nbucket \<and> length chs = nbucket \<and>
     (\<forall>k < nbucket. (case words (2 + k) of Inl _ \<Rightarrow> False | Inr y \<Rightarrow> is_chain words (2 + nbucket) y (chs ! k)) \<and> (\<forall>i \<in> set (chs ! k). 1 \<le> i \<and> i < n)) \<and>
     (\<forall>i \<in> {1..<n}. i \<in> set (chs ! (unat (elf_hash (nm i)) mod nbucket)))"

text \<open>
  C18. The lookup of a dynamic symbol through the hash table of the file gives what the search through the whole symbol table gives, which the code uses when a
  file has no hash table: for a hash table that is well formed and a symbol table whose names differ, and for every number of steps that is more than the longest chain.
\<close>

theorem hash_lookup_is_linear_search:
  assumes h: "dynsym_hdr m = Some h" "sh_entsize h \<noteq> 0" and addr: "hash_table_runtime_address m = Some a" "a \<noteq> W32 - 1"
    and names: "\<forall>i \<in> {1..<sh_size h div sh_entsize h}. sym_name b (sh_offset h) (dynsym_strtab m) i = Inr (nm i)"
    and inj: "inj_on nm {1..<sh_size h div sh_entsize h}"
    and tab: "hash_table_ok words nm (sh_size h div sh_entsize h) nbucket chs" and fuel: "\<forall>c \<in> set chs. length c < fuel"
  shows "get_dynamic_symbol fuel b m words name = get_dynamic_symbol fuel b (m\<lparr>hash_table_runtime_address := None\<rparr>) words name"
proof -
  let ?n = "sh_size h div sh_entsize h" and ?names = "sym_name b (sh_offset h) (dynsym_strtab m)"
  define k where "k = unat (elf_hash name) mod nbucket"
  have nb: "words 0 = Inr nbucket" "0 < nbucket" "length chs = nbucket" using tab by (auto simp: hash_table_ok_def)
  have k: "k < nbucket" using nb by (simp add: k_def)
  obtain y where y: "words (2 + k) = Inr y" "is_chain words (2 + nbucket) y (chs ! k)" and sub: "\<forall>i \<in> set (chs ! k). 1 \<le> i \<and> i < ?n"
    using tab k unfolding hash_table_ok_def by (cases "words (2 + k)") auto
  have "chain_search fuel ?names words (2 + nbucket) name y = Inr (find (\<lambda>i. nm i = name) (chs ! k))"
    by (rule chain_search_chain [OF y(2)]) (use fuel k nb(3) names sub in auto)
  also have "find (\<lambda>i. nm i = name) (chs ! k) = find (\<lambda>i. nm i = name) [1..<?n]"
    by (rule find_unique) (use inj tab sub in \<open>auto simp: hash_table_ok_def k_def\<close>)
  also have "Inr \<dots> = linear_search ?names name [1..<?n]" using linear_search_find [of "[1..<?n]" ?names nm name] names by simp
  finally show ?thesis using h addr nb y(1) by (simp add: get_dynamic_symbol_def Let_def k_def)
qed

definition sym_file :: bytes where
  "sym_file = replicate 16 0 @ le_bytes 4 1 @ replicate 12 0 @ le_bytes 4 3 @ replicate 12 0 @ [0, 0x61, 0, 0x62, 0]"

definition sym_obj :: elf where
  "sym_obj = tiny_obj\<lparr>dynsym_hdr := Some \<lparr>sh_type = 11, sh_offset = 0, sh_size = 48, sh_link = 0, sh_entsize = 16\<rparr>, dynsym_strtab := 48, hash_table_runtime_address := Some 4096\<rparr>"

definition sym_words :: "nat \<Rightarrow> nat res" where
  "sym_words i = (if i < 6 then Inr ([1, 3, 1, 0, 2, 0] ! i) else Inl OutOfBounds)"

definition sym_nm :: "nat \<Rightarrow> bytes" where
  "sym_nm i = (if i = 1 then [0x61] else [0x62])"

lemma sym_names: "sym_name sym_file 0 48 1 = Inr [0x61]" "sym_name sym_file 0 48 2 = Inr [0x62]"
  by code_simp+

theorem hash_lookup_is_linear_search_witness:
  "get_dynamic_symbol 3 sym_file sym_obj sym_words [0x62] = get_dynamic_symbol 3 sym_file (sym_obj\<lparr>hash_table_runtime_address := None\<rparr>) sym_words [0x62] \<and>
    get_dynamic_symbol 3 sym_file sym_obj sym_words [0x62] = Inr (Some 2)"
proof -
  let ?h = "\<lparr>sh_type = 11, sh_offset = 0, sh_size = 48, sh_link = 0, sh_entsize = 16\<rparr>"
  have two: "{1..<3} = {1, 2 :: nat}" "[1..<3] = [1, 2 :: nat]" by (auto simp: upt_rec)
  have tab: "hash_table_ok sym_words sym_nm 3 1 [[1, 2]]" by (auto simp: hash_table_ok_def sym_words_def)
  have inj: "inj_on sym_nm {1..<3}" unfolding two by (simp add: sym_nm_def)
  have eq: "get_dynamic_symbol 3 sym_file sym_obj sym_words [0x62] = get_dynamic_symbol 3 sym_file (sym_obj\<lparr>hash_table_runtime_address := None\<rparr>) sym_words [0x62]"
    by (rule hash_lookup_is_linear_search [where h = ?h and a = 4096 and nm = sym_nm and nbucket = 1 and chs = "[[1, 2]]"])
      (use tab inj sym_names in \<open>simp_all add: sym_obj_def two sym_nm_def del: One_nat_def\<close>)
  moreover have "get_dynamic_symbol 3 sym_file (sym_obj\<lparr>hash_table_runtime_address := None\<rparr>) sym_words [0x62] = Inr (Some 2)"
    using sym_names two by (simp add: get_dynamic_symbol_def sym_obj_def Let_def del: One_nat_def)
  ultimately show ?thesis by simp
qed

end
