(* ===== verification/Spec2Isabelle.thy ===== *)
theory Spec2Isabelle
  imports Queue LinkedList Stack CircularBuffer MinHeap SearchTree SharedPtr KString Paging VirtualAccess MemTree Slab HeapNodes Boot
    Files Processes Scheduler Descriptors FatProperties FatPaths HttpProperties Printing ElfProperties
begin

text \<open>
  A verification of the kernel of BrebOS, a 32-bit operating system for the PC (\<^verbatim>\<open>src/src/kernel\<close>) with the string
  functions it is linked with (\<^verbatim>\<open>src/src/libc\<close>).

  \<^bold>\<open>The program.\<close> The kernel starts in \<^verbatim>\<open>core/kmain.cpp\<close>, builds page tables and a heap, mounts a FAT disk, starts the
  network card and runs user programs. Its parts, from the bottom: containers (\<^verbatim>\<open>utils/\<close>) that all others use; frames,
  page tables, page faults and the heap (\<^verbatim>\<open>core/memory.cpp\<close>, \<^verbatim>\<open>core/Memtree.cpp\<close>); processes with signals, file
  descriptors and the scheduler (\<^verbatim>\<open>processes/\<close>); open files, pipes and terminals, the directory entry cache with path
  resolution, and the FAT driver on disk sectors (\<^verbatim>\<open>file_management/\<close>); the network stack from Ethernet frames to sockets and
  downloads (\<^verbatim>\<open>network/\<close>); the console with formatted printing (\<^verbatim>\<open>core/fb.cpp\<close>); the loader of programs (\<^verbatim>\<open>processes/\<close>). Processes own page tables that share frames with their parent after a fork; descriptors name open files
  that the scheduler blocks on; open files name directory entries that name inodes of a FAT drive; sockets are driven by frames
  that the interrupt of the network card hands up.

  \<^bold>\<open>Modelling.\<close> \<open>Prelude\<close> has the machine types, the result type \<open>'a res\<close> with the failures of kernel code (null
  dereference, access out of bounds, use after free, an error that stops the kernel, a loop that does not end), 32-bit
  arithmetic on \<^typ>\<open>nat\<close> with its wrap-around, little-endian numbers, and the lemmas on them that all theories share. Structures
  are records, enumerations datatypes, operations functions from state to state; each early return and each unchecked access of the
  code is a branch. Every definition that models code keeps the name of the function it models, with a prefix where names clash.

  \<^bold>\<open>Containers.\<close> \<open>Queue\<close> (\<^verbatim>\<open>queue.hxx\<close>), \<open>LinkedList\<close> (\<^verbatim>\<open>list.hxx\<close>), \<open>Stack\<close> (\<^verbatim>\<open>Stack.hxx\<close>),
  \<open>CircularBuffer\<close> (\<^verbatim>\<open>circular_buffer.hxx\<close>), \<open>MinHeap\<close> (\<^verbatim>\<open>min_heap.hxx\<close>), \<open>SearchTree\<close> (\<^verbatim>\<open>BST.hxx\<close>),
  \<open>SharedPtr\<close> (\<^verbatim>\<open>shared_pointer.hxx\<close>), \<open>KString\<close> (\<^verbatim>\<open>kstring.cpp\<close>, \<^verbatim>\<open>kctype.cpp\<close>). Each is shown to refine its
  abstract type: a queue is first-in first-out, the tree a sorted bag, the heap gives its least element; shared pointers delete an object
  exactly when the last pointer to it goes, and with it the objects that only its members hold; \<open>strtok_r\<close> and \<open>strstr\<close> agree with reference definitions.

  \<^bold>\<open>Memory.\<close> \<open>Paging\<close> models the frame table, reference counts and page tables of the kernel and of each process, allocation, freeing,
  \<open>sbrk\<close>, copy-on-write and lazily zeroed pages with the page fault handler, and how fork shares pages; \<open>VirtualAccess\<close> reads and
  writes through the tables; \<open>MemTree\<close> is the tree of allocations behind malloc, on the blocks alone; \<open>Slab\<close> is the slab allocator that the nodes of the tree come from, and
  \<open>HeapNodes\<close> does allocation with the nodes, each of which may cost a page, and refines it to the blocks; \<open>Boot\<close> has the tables set up at start. Shown: a
  write to a shared page copies it and leaves the other process's bytes alone, lazily allocated pages read as zero, the
  heap's tree stays well formed and covers the pages that \<open>sbrk\<close> has mapped, blocks handed out are disjoint, a slot handed out is not in use, and
  the tables set up at boot satisfy the invariant of the page level.
  Freeing, reallocation and the functions on top (\<open>malloc\<close>, \<open>calloc\<close>, \<open>realloc\<close>, \<open>free\<close>) are on the blocks alone, so that their lemmas say nothing about the
  pages of the slab allocator.

  \<^bold>\<open>Processes.\<close> \<open>Processes\<close> has signals from \<open>kill\<close> to the return from a handler, \<open>Scheduler\<close> the ready queue and
  everything a process may wait for, \<open>Files\<close> open files, pipes and terminals, \<open>Descriptors\<close> the descriptor table of a process and the
  calls on it. Shown: the choice of the next process is round robin, sleepers wake up in time, the end of a child wakes its
  parent, a handled signal restores the interrupted context, and the counts of the table of open files are the numbers of
  descriptors that refer to them.

  \<^bold>\<open>File system.\<close> \<open>Fat\<close> is the driver on a disk of sectors of bytes. \<open>FatFiles\<close>, \<open>FatWrite\<close>, \<open>FatDir\<close>,
  \<open>FatResize\<close>, \<open>FatSpec\<close> and \<open>FatCreate\<close> develop its theory: chains of clusters, what a sequence of sector
  writes leaves on the disk, directory entries, growing and shrinking of chains, and the abstract contents of a file on a disk.
  \<open>FatProperties\<close> states the result: what is written is read back, other files keep their contents, a file that was created is
  found. \<open>Paths\<close> models path resolution with the cache of directory entries over an interface to file systems (locale
  \<open>directory_tree\<close>), which \<open>FatPaths\<close> interprets on the FAT driver. Entries and inodes are kept by their address: an entry that is deleted takes its
  inode with it, and reading a deleted one is an error; the entries of a root that is mounted twice share an inode with a counter each, so
  the statements ask for room in the cache or for entries that share no inode, and \<open>root_inode_lost\<close> shows what happens otherwise.

  \<^bold>\<open>Network.\<close> \<open>Network\<close> and \<open>Transport\<close> model the protocols on frames of bytes, from Ethernet, ARP, IPv4, ICMP and UDP to DHCP,
  DNS, TCP and sockets, with the state of the whole stack in one record; \<open>Checksum\<close> has the arithmetic of the Internet checksum, \<open>NetFrames\<close> how
  the headers written are read back, \<open>Sockets\<close> which sockets an operation touches. What a socket tells its listener is the interface of the
  locales \<open>quiet_end\<close> and \<open>quiet_listener\<close> in \<open>NetInv\<close>, where the invariant of the stack is proved for every such listener. \<open>Http\<close>
  is the HTTP client; \<open>HttpProperties\<close> interprets the locales on it. Shown (\<open>NetProperties\<close>, \<open>HttpProperties\<close>): the invariant holds after every sequence of frames and
  requests, a ping is answered, the TCP handshake and the data of a connection carry right numbers and checksums, the date made from a
  number of seconds is that of the calendar, a body that arrives in segments is saved as it was sent.

  \<^bold>\<open>Console.\<close> \<open>FrameBuffer\<close> models the screen (class \<^verbatim>\<open>FB\<close> of \<^verbatim>\<open>core/fb.cpp\<close>): a ring of character cells, the cursor, the rectangle that has to be
  redrawn, and the pixels. \<open>Console\<close> shows that it refines a terminal of lines of text that scrolls, and that a flush draws exactly the glyphs of the
  rectangle. \<open>Printf\<close> is the interpreter of formats of the same file; \<open>Printing\<close> shows that the text of a number reads back as the number, and
  what a message looks like on the screen. The bytes that an address points to are the parameter \<open>mem\<close>; the text of a floating-point number and the
  width of the progress bar, both computed with floats, are the parameters \<open>flt\<close> and \<open>bar\<close>.

  \<^bold>\<open>Programs.\<close> \<open>Elf\<close> models how a program file becomes the memory of a process (\<^verbatim>\<open>processes/ELF.cpp\<close>, \<^verbatim>\<open>ELFTools.hxx\<close>, \<^verbatim>\<open>ELFLoader.cpp\<close>): the file is its list of bytes,
  memory is the allocations with their contents and a page table that shows their pages. The parameters \<open>grant\<close>, \<open>junk\<close>, \<open>read_file\<close>, \<open>freed\<close> and \<open>random\<close> are what
  \<^verbatim>\<open>mmap\<close> can grant, what new pages hold, the files of the system, what the buffer of the file holds after it was given back, and the bytes drawn from the clock. \<open>ElfProperties\<close> shows that a loaded program is in memory as its file has it, with
  the access rights it asks for and without a change to what was there; that arguments and environment are on the stack as the binary interface
  wants them, and that they can be written when they fit; and that the lookup through the hash table gives what the search through all symbols gives.

  \<^bold>\<open>Loops.\<close> Loops that count down or walk a structure are recursive functions with a termination proof. A chain of clusters on a
  disk may be circular, so the walks along it take fuel; the number of clusters of the chain is enough, which is what the
  theorems on well-formed disks show. The search for a free port is \<open>while_option\<close>; pointers in DNS names may form a cycle, and the
  depth is bounded by the length of the message. The frames received by the card (\<open>pollRx\<close>), the interpreters of interpreters (\<open>load_elf\<close>) and the
  chains of a hash table (\<open>chain_search\<close>) are bounded by fuel, too: the theorems say for which amount they hold, which is more than
  the length of the longest chain for \<open>chain_search\<close>; without fuel the result is \<open>Diverges\<close>.

  \<^bold>\<open>Not modelled.\<close> Port and device I/O (interrupt controllers, timers, PCI, keyboard, the registers of disk and network card), the
  processor's tables, assembly, arithmetic on floats, the dispatch of system calls and exec around the loader, the kernel process
  and the rest of the boot, the user programs and the port of the C library, the boot loader, and the configuration of third-party
  tools.
\<close>

end
